(* ===== verification/Metal_Prelude.thy ===== *)
theory Metal_Prelude
  imports Main "HOL-Library.Word"
begin

text \<open>
  Shared vocabulary of the development.

  \<^item> Machine integers.  The host code computes addresses and sizes in \<^verbatim>\<open>uint32_t\<close>,
    \<^verbatim>\<open>uint64_t\<close> and \<^verbatim>\<open>size_t\<close>.  A value is a \<^typ>\<open>nat\<close>, and every operation of the source
    that can wrap is written with \<open>wadd\<close>, \<open>wsub\<close> or \<open>wmul\<close>, which carry the width and reduce
    modulo \<open>2 ^ w\<close>.  The collection \<open>nowrap\<close> holds the conditional equations that turn them into
    plain arithmetic once a bound is known.
  \<^item> Errors.  Every raise of the source is a value of \<open>error\<close>: \<^verbatim>\<open>TT_ASSERT\<close>, \<^verbatim>\<open>TT_FATAL\<close> and
    \<^verbatim>\<open>TT_THROW\<close> of \<^verbatim>\<open>tt_metal/common/assert.hpp\<close>, \<^verbatim>\<open>std::out_of_range\<close> of a checked container
    access, \<^verbatim>\<open>std::invalid_argument\<close>, \<open>Undefined\<close> for what the C++ standard leaves undefined (a division by zero, an
    access out of range), and \<open>Diverges\<close> for a loop that has used up the fuel its model gives it.
    \<^verbatim>\<open>TT_ASSERT\<close> is compiled in debug builds only: the model is the debug
    build, and where a theorem says that a call returns normally it says that no assertion fires,
    so that the release build behaves in the same way.
  \<^item> Results.  A fallible operation returns \<open>error + 'a\<close>; \<open>rbind\<close> chains such operations and
    \<open>check\<close> is a guard.
\<close>

subsection \<open>Collections\<close>

named_theorems nowrap \<open>wrapping operations that stay in range\<close>
named_theorems wbound \<open>results of wrapping operations fit their width\<close>

subsection \<open>Wrapping arithmetic\<close>

definition wadd :: "nat \<Rightarrow> nat \<Rightarrow> nat \<Rightarrow> nat" where
  "wadd w a b = (a + b) mod 2 ^ w"

definition wsub :: "nat \<Rightarrow> nat \<Rightarrow> nat \<Rightarrow> nat" where
  "wsub w a b = (a + (2 ^ w - b mod 2 ^ w)) mod 2 ^ w"

definition wmul :: "nat \<Rightarrow> nat \<Rightarrow> nat \<Rightarrow> nat" where
  "wmul w a b = (a * b) mod 2 ^ w"

definition wcast :: "nat \<Rightarrow> nat \<Rightarrow> nat" where
  "wcast w a = a mod 2 ^ w"

abbreviation add32 :: "nat \<Rightarrow> nat \<Rightarrow> nat" where "add32 \<equiv> wadd 32"
abbreviation sub32 :: "nat \<Rightarrow> nat \<Rightarrow> nat" where "sub32 \<equiv> wsub 32"
abbreviation mul32 :: "nat \<Rightarrow> nat \<Rightarrow> nat" where "mul32 \<equiv> wmul 32"
abbreviation u32 :: "nat \<Rightarrow> nat" where "u32 \<equiv> wcast 32"
abbreviation add64 :: "nat \<Rightarrow> nat \<Rightarrow> nat" where "add64 \<equiv> wadd 64"
abbreviation sub64 :: "nat \<Rightarrow> nat \<Rightarrow> nat" where "sub64 \<equiv> wsub 64"
abbreviation mul64 :: "nat \<Rightarrow> nat \<Rightarrow> nat" where "mul64 \<equiv> wmul 64"
abbreviation u64 :: "nat \<Rightarrow> nat" where "u64 \<equiv> wcast 64"

lemma wadd_id [nowrap]: "a + b < 2 ^ w \<Longrightarrow> wadd w a b = a + b"
  by (simp add: wadd_def)

lemma wsub_id [nowrap]: "b \<le> a \<Longrightarrow> a < 2 ^ w \<Longrightarrow> wsub w a b = a - b"
proof -
  assume b: "b \<le> a" and a: "a < 2 ^ w"
  then have "a + (2 ^ w - b mod 2 ^ w) = (a - b) + 2 ^ w" by simp
  with a show ?thesis by (simp add: wsub_def)
qed

lemma wsub_borrow: "a < b \<Longrightarrow> b < 2 ^ w \<Longrightarrow> wsub w a b = 2 ^ w - (b - a)"
proof -
  assume ab: "a < b" and b: "b < 2 ^ w"
  then have "a + (2 ^ w - b mod 2 ^ w) = 2 ^ w - (b - a)" by simp
  moreover have "2 ^ w - (b - a) < 2 ^ w" using ab b by linarith
  ultimately show ?thesis by (simp add: wsub_def)
qed

lemma wmul_id [nowrap]: "a * b < 2 ^ w \<Longrightarrow> wmul w a b = a * b"
  by (simp add: wmul_def)

lemma wcast_id [nowrap]: "a < 2 ^ w \<Longrightarrow> wcast w a = a"
  by (simp add: wcast_def)

lemma wadd_less [wbound, simp]: "wadd w a b < 2 ^ w"
  by (simp add: wadd_def)

lemma wsub_less [wbound, simp]: "wsub w a b < 2 ^ w"
  by (simp add: wsub_def)

lemma wmul_less [wbound, simp]: "wmul w a b < 2 ^ w"
  by (simp add: wmul_def)

lemma wcast_less [wbound, simp]: "wcast w a < 2 ^ w"
  by (simp add: wcast_def)

lemma wadd_commute: "wadd w a b = wadd w b a"
  by (simp add: wadd_def add.commute)

lemma wsub_wadd_cancel: "a < 2 ^ w \<Longrightarrow> b < 2 ^ w \<Longrightarrow> wsub w (wadd w a b) b = a"
proof -
  assume a: "a < 2 ^ w" and b: "b < 2 ^ w"
  have "((a + b) mod 2 ^ w + (2 ^ w - b)) mod 2 ^ w = (a + b + (2 ^ w - b)) mod 2 ^ w"
    by (simp add: mod_add_left_eq)
  also have "a + b + (2 ^ w - b) = a + 2 ^ w" using b by simp
  finally show ?thesis using a b by (simp add: wadd_def wsub_def)
qed

lemma wadd_wsub_cancel: "a < 2 ^ w \<Longrightarrow> b < 2 ^ w \<Longrightarrow> wadd w (wsub w a b) b = a"
proof -
  assume a: "a < 2 ^ w" and b: "b < 2 ^ w"
  have "((a + (2 ^ w - b)) mod 2 ^ w + b) mod 2 ^ w = (a + (2 ^ w - b) + b) mod 2 ^ w"
    by (simp add: mod_add_left_eq)
  also have "a + (2 ^ w - b) + b = a + 2 ^ w" using b by simp
  finally show ?thesis using a b by (simp add: wadd_def wsub_def)
qed

subsection \<open>Errors and results\<close>

datatype error =
    TT_ASSERT string
  | TT_FATAL string
  | TT_THROW string
  | Out_of_range
  | Invalid_argument string
  | Undefined string
  | Diverges

type_synonym 'a result = "error + 'a"

definition rbind :: "'a result \<Rightarrow> ('a \<Rightarrow> 'b result) \<Rightarrow> 'b result" where
  "rbind m f = (case m of Inl e \<Rightarrow> Inl e | Inr x \<Rightarrow> f x)"

definition check :: "bool \<Rightarrow> error \<Rightarrow> unit result" where
  "check b e = (if b then Inr () else Inl e)"

definition at :: "'a list \<Rightarrow> nat \<Rightarrow> 'a result" where
  "at xs i = (if i < length xs then Inr (xs ! i) else Inl Out_of_range)"

definition lookup_at :: "('k \<rightharpoonup> 'v) \<Rightarrow> 'k \<Rightarrow> 'v result" where
  "lookup_at m k = (case m k of None \<Rightarrow> Inl Out_of_range | Some v \<Rightarrow> Inr v)"

lemma rbind_Inl [simp]: "rbind (Inl e) f = Inl e"
  by (simp add: rbind_def)

lemma rbind_Inr [simp]: "rbind (Inr x) f = f x"
  by (simp add: rbind_def)

lemma rbind_eq_Inr: "rbind m f = Inr y \<longleftrightarrow> (\<exists>x. m = Inr x \<and> f x = Inr y)"
  by (cases m) auto

lemma check_eq_Inr [simp]: "check b e = Inr u \<longleftrightarrow> b"
  by (simp add: check_def)

lemma check_True [simp]: "check True e = Inr ()"
  by (simp add: check_def)

lemma check_False [simp]: "check False e = Inl e"
  by (simp add: check_def)

lemma at_less [simp]: "i < length xs \<Longrightarrow> at xs i = Inr (xs ! i)"
  by (simp add: at_def)

lemma lookup_at_Some [simp]: "m k = Some v \<Longrightarrow> lookup_at m k = Inr v"
  by (simp add: lookup_at_def)

lemma lookup_at_None [simp]: "m k = None \<Longrightarrow> lookup_at m k = Inl Out_of_range"
  by (simp add: lookup_at_def)

text \<open>A loop over a list whose body may fail: the state is threaded through, the first error ends it.\<close>

fun rfold :: "('a \<Rightarrow> 's \<Rightarrow> 's result) \<Rightarrow> 'a list \<Rightarrow> 's \<Rightarrow> 's result" where
  "rfold f [] s = Inr s"
| "rfold f (x # xs) s = rbind (f x s) (rfold f xs)"

lemma rfold_append: "rfold f (xs @ ys) s = rbind (rfold f xs s) (rfold f ys)"
proof (induction xs arbitrary: s)
  case (Cons x xs)
  then show ?case by (cases "f x s") simp_all
qed simp

lemma rfold_inv:
  assumes "I s" and "\<And>x s. x \<in> set xs \<Longrightarrow> I s \<Longrightarrow> \<exists>s'. f x s = Inr s' \<and> I s'"
  shows "\<exists>s'. rfold f xs s = Inr s' \<and> I s'"
  using assms
proof (induction xs arbitrary: s)
  case (Cons x xs)
  obtain s1 where "f x s = Inr s1" "I s1" using Cons.prems(1) Cons.prems(2) [of x s] by auto
  then show ?case using Cons.IH [of s1] Cons.prems(2) by auto
qed simp

text \<open>Counted loops: an invariant indexed by the loop counter, with and without failure.\<close>

lemma rfold_upt:
  assumes "I 0 s" and "\<And>k s. k < n \<Longrightarrow> I k s \<Longrightarrow> \<exists>s'. f k s = Inr s' \<and> I (Suc k) s'"
  shows "\<exists>s'. rfold f [0..<n] s = Inr s' \<and> I n s'"
  using assms(2)
proof (induction n)
  case 0
  then show ?case using assms(1) by simp
next
  case (Suc n)
  obtain s1 where s1: "rfold f [0..<n] s = Inr s1" "I n s1" using Suc.IH Suc.prems by (meson less_SucI)
  obtain s2 where "f n s1 = Inr s2" "I (Suc n) s2" using Suc.prems [of n s1] s1(2) by auto
  then show ?case using s1(1) by (simp add: rfold_append)
qed

lemma fold_upt:
  assumes "I 0 s" and "\<And>k s. k < n \<Longrightarrow> I k s \<Longrightarrow> I (Suc k) (f k s)"
  shows "I n (fold f [0..<n] s)"
  using assms(2) by (induction n) (simp_all add: assms(1))

lemma rfold_Inr_inv:
  assumes "rfold f xs s = Inr s'" and "I s" and "\<And>x s s'. x \<in> set xs \<Longrightarrow> I s \<Longrightarrow> f x s = Inr s' \<Longrightarrow> I s'"
  shows "I s'"
  using assms
proof (induction xs arbitrary: s)
  case (Cons x xs)
  obtain s1 where s1: "f x s = Inr s1" "rfold f xs s1 = Inr s'" using Cons.prems(1) by (auto simp: rbind_eq_Inr)
  have "I s1" using Cons.prems(2,3) s1(1) by auto
  then show ?case using Cons.IH [OF s1(2)] Cons.prems(3) by auto
qed simp

subsection \<open>Rounding up\<close>

lemma ceil_mult_ge:
  fixes n a :: nat
  assumes "0 < a"
  shows "n \<le> (n + a - 1) div a * a"
proof -
  have "n + a - 1 = (n + a - 1) div a * a + (n + a - 1) mod a" by simp
  moreover have "(n + a - 1) mod a < a" using assms by simp
  ultimately show ?thesis by linarith
qed

lemma ceil_mult_less:
  fixes n a :: nat
  assumes "0 < a"
  shows "(n + a - 1) div a * a < n + a"
proof -
  have "(n + a - 1) div a * a \<le> n + a - 1" by simp
  then show ?thesis using assms by linarith
qed

lemma ceil_mult_least:
  fixes n a m :: nat
  assumes a: "0 < a" and d: "a dvd m" and le: "n \<le> m"
  shows "(n + a - 1) div a * a \<le> m"
proof -
  obtain k where m: "m = a * k" using d by (rule dvdE)
  have "n + a - 1 < a * (k + 1)" using le m a by (simp add: algebra_simps)
  then have "(n + a - 1) div a < k + 1" by (simp add: less_mult_imp_div_less mult.commute)
  then have "(n + a - 1) div a * a \<le> k * a" by simp
  then show ?thesis using m by (simp add: mult.commute)
qed

lemma ceil_mult_exact:
  fixes n a :: nat
  assumes "0 < a" and "a dvd n"
  shows "(n + a - 1) div a * a = n"
  using ceil_mult_ge [OF assms(1), of n] ceil_mult_least [OF assms order_refl] by (rule order_antisym [rotated])

lemma least_pow2:
  fixes x :: nat
  assumes "k = 0 \<or> 2 ^ (k - 1) < x" and "x \<le> 2 ^ j"
  shows "k \<le> j"
proof (cases "k = 0")
  case False
  with assms have "(2::nat) ^ (k - 1) < 2 ^ j" by linarith
  then have "k - 1 < j" by (simp add: power_strict_increasing_iff)
  then show ?thesis by simp
qed simp

lemma ceil_div_pos:
  fixes n a :: nat
  assumes "0 < a" and "0 < n"
  shows "0 < (n + a - 1) div a"
  using assms by (simp add: div_greater_zero_iff)

subsection \<open>Unchecked operations\<close>

text \<open>
  What C++ does not check: dividing by zero, and indexing a \<^verbatim>\<open>std::vector\<close> with \<^verbatim>\<open>operator[]\<close>.
\<close>

definition udiv :: "nat \<Rightarrow> nat \<Rightarrow> nat result" where
  "udiv a b = (if b = 0 then Inl (Undefined ''division by zero'') else Inr (a div b))"

definition umod :: "nat \<Rightarrow> nat \<Rightarrow> nat result" where
  "umod a b = (if b = 0 then Inl (Undefined ''modulo by zero'') else Inr (a mod b))"

definition vec_get :: "'a list \<Rightarrow> nat \<Rightarrow> 'a result" where
  "vec_get xs i = (if i < length xs then Inr (xs ! i) else Inl (Undefined ''vector access out of range''))"

definition vec_set :: "'a list \<Rightarrow> nat \<Rightarrow> 'a \<Rightarrow> 'a list result" where
  "vec_set xs i v = (if i < length xs then Inr (xs[i := v]) else Inl (Undefined ''vector access out of range''))"

lemma udiv_pos [simp]: "0 < b \<Longrightarrow> udiv a b = Inr (a div b)"
  by (simp add: udiv_def)

lemma umod_pos [simp]: "0 < b \<Longrightarrow> umod a b = Inr (a mod b)"
  by (simp add: umod_def)

lemma vec_get_in [simp]: "i < length xs \<Longrightarrow> vec_get xs i = Inr (xs ! i)"
  by (simp add: vec_get_def)

lemma vec_set_in [simp]: "i < length xs \<Longrightarrow> vec_set xs i v = Inr (xs[i := v])"
  by (simp add: vec_set_def)

end
