(* ===== verification/Metal_Math.thy ===== *)
theory Metal_Math
  imports Metal_Prelude
begin

text \<open>
  The integer helpers of the host code: \<^verbatim>\<open>tt_metal/common/math.hpp\<close>,
  \<^verbatim>\<open>tt_metal/common/tt_rounding.h\<close> and \<^verbatim>\<open>SizeBytesPerBank\<close> of \<^verbatim>\<open>tt_metal/detail/util.hpp\<close>.
  The templates of \<^verbatim>\<open>tt_rounding.h\<close> are modelled for an unsigned type of \<open>w\<close> bits, where
  \<^verbatim>\<open>std::numeric_limits<Integer>::digits\<close> is \<open>w\<close>.
\<close>

subsection \<open>math.hpp\<close>

definition div_up :: "nat \<Rightarrow> nat \<Rightarrow> nat result" where
  "div_up a b =
     rbind (check (b > 0) (TT_FATAL ''Divide by 0 error'')) (\<lambda>_.
     Inr (sub32 (add32 a b) 1 div b))"

definition round_up :: "nat \<Rightarrow> nat \<Rightarrow> nat result" where
  "round_up a b = rbind (div_up a b) (\<lambda>d. Inr (mul32 b d))"

definition round_down :: "nat \<Rightarrow> nat \<Rightarrow> nat result" where
  "round_down a b =
     (if b = 0 then Inl (Undefined ''division by zero'') else Inr (mul32 (a div b) b))"

definition positive_pow_of_2 :: "nat \<Rightarrow> nat result" where
  "positive_pow_of_2 exponent =
     rbind (check (exponent < 32) (TT_FATAL ''Exponent out of bounds'')) (\<lambda>_.
     Inr (mul32 1 (2 ^ exponent)))"

text \<open>\<^verbatim>\<open>align\<close> of \<^verbatim>\<open>tt_metal/common/base.hpp\<close>.\<close>

definition align_up :: "nat \<Rightarrow> nat \<Rightarrow> nat" where
  "align_up addr alignment = add32 (semiring_bit_operations_class.or (sub32 addr 1) (sub32 alignment 1)) 1"

subsection \<open>tt\_rounding.h\<close>

fun round_to_power_of_2_loop :: "nat \<Rightarrow> nat \<Rightarrow> nat \<Rightarrow> nat \<Rightarrow> nat result" where
  "round_to_power_of_2_loop w 0 power_of_2 x = Inl (Undefined ''assert(false)'')"
| "round_to_power_of_2_loop w (Suc n) power_of_2 x =
     (if power_of_2 \<ge> x then Inr power_of_2
      else round_to_power_of_2_loop w n (wmul w power_of_2 2) x)"

definition round_to_power_of_2 :: "nat \<Rightarrow> nat \<Rightarrow> nat result" where
  "round_to_power_of_2 w x = round_to_power_of_2_loop w w 1 x"

definition round_up_to :: "nat \<Rightarrow> nat \<Rightarrow> nat \<Rightarrow> nat result" where
  "round_up_to w x multiple =
     rbind (check (multiple > 0) (Undefined ''assert(multiple > 0)'')) (\<lambda>_.
     let remainder = x mod multiple in
     if remainder \<noteq> 0 then Inr (wadd w (wsub w x remainder) multiple) else Inr x)"

definition round_up_div :: "nat \<Rightarrow> nat \<Rightarrow> nat \<Rightarrow> nat result" where
  "round_up_div w dividend divisor =
     rbind (check (divisor > 0) (Undefined ''assert(divisor > 0)'')) (\<lambda>_.
     let up = (if dividend mod divisor \<noteq> 0 then 1 else 0) in
     Inr (wadd w (dividend div divisor) up))"

fun log2_const_loop :: "nat \<Rightarrow> nat \<Rightarrow> nat \<Rightarrow> nat" where
  "log2_const_loop 0 i x = i"
| "log2_const_loop (Suc n) i x = (if x \<le> 2 ^ i then i else log2_const_loop n (Suc i) x)"

definition log2_const :: "nat \<Rightarrow> nat \<Rightarrow> nat" where
  "log2_const w x = log2_const_loop w 0 x"

fun log2_flr_const_loop :: "nat \<Rightarrow> nat \<Rightarrow> nat \<Rightarrow> nat" where
  "log2_flr_const_loop 0 i x = i"
| "log2_flr_const_loop (Suc n) i x =
     (if x div 2 ^ i = 1 then i else log2_flr_const_loop n (Suc i) x)"

definition log2_flr_const :: "nat \<Rightarrow> nat \<Rightarrow> nat" where
  "log2_flr_const w x = log2_flr_const_loop w 0 x"

subsection \<open>util.hpp\<close>

text \<open>
  \<^verbatim>\<open>round_up\<close> takes \<^verbatim>\<open>uint32_t\<close>: the 64-bit page size is converted, and the 32-bit result is
  widened for the 64-bit product.
\<close>

definition SizeBytesPerBank :: "nat \<Rightarrow> nat \<Rightarrow> nat \<Rightarrow> nat \<Rightarrow> nat result" where
  "SizeBytesPerBank size_bytes page_size_bytes num_banks alignment_bytes =
     rbind (check (page_size_bytes > 0 \<and> size_bytes mod page_size_bytes = 0)
              (TT_ASSERT ''Page size should be divisible by buffer size'')) (\<lambda>_.
     let num_pages = size_bytes div page_size_bytes in
     rbind (if num_pages = 1 then Inr 1
            else if num_banks = 0 then Inl (Undefined ''division by zero'')
            else Inr (add64 1 (sub64 num_pages 1 div num_banks)))
       (\<lambda>num_equally_distributed_pages.
     rbind (round_up (u32 page_size_bytes) alignment_bytes) (\<lambda>r.
     Inr (mul64 num_equally_distributed_pages r))))"

subsection \<open>Correctness of the roundings\<close>

lemma div_up_eq:
  assumes "0 < b" and "a + b \<le> 2 ^ 32"
  shows "div_up a b = Inr ((a + b - 1) div b)"
proof (cases "a + b = 2 ^ 32")
  case True
  then have "sub32 (add32 a b) 1 = 2 ^ 32 - 1"
    by (simp add: wadd_def wsub_def)
  with True assms show ?thesis by (simp add: div_up_def)
next
  case False
  with assms have "a + b < 2 ^ 32" by simp
  with assms show ?thesis by (simp add: div_up_def nowrap)
qed

lemma div_up_zero: "div_up a 0 = Inl (TT_FATAL ''Divide by 0 error'')"
  by (simp add: div_up_def)

lemma round_up_eq:
  assumes "0 < b" and "a + b \<le> 2 ^ 32"
  shows "round_up a b = Inr ((a + b - 1) div b * b)"
proof -
  have "(a + b - 1) div b * b < 2 ^ 32"
    using ceil_mult_less [OF assms(1), of a] assms(2) by linarith
  then show ?thesis
    by (simp add: round_up_def div_up_eq [OF assms] nowrap mult.commute)
qed

lemma round_up_spec:
  assumes "0 < b" and "a + b \<le> 2 ^ 32" and "round_up a b = Inr r"
  shows "a \<le> r" and "b dvd r" and "r < a + b" and "\<And>m. b dvd m \<Longrightarrow> a \<le> m \<Longrightarrow> r \<le> m"
proof -
  have r: "r = (a + b - 1) div b * b" using round_up_eq [OF assms(1,2)] assms(3) by simp
  show "a \<le> r" unfolding r by (rule ceil_mult_ge [OF assms(1)])
  show "b dvd r" unfolding r by (rule dvd_triv_right)
  show "r < a + b" unfolding r by (rule ceil_mult_less [OF assms(1)])
  show "r \<le> m" if "b dvd m" "a \<le> m" for m
    unfolding r by (rule ceil_mult_least [OF assms(1) that])
qed

lemma round_to_power_of_2_loop_spec:
  assumes "i + n = w" and "x \<le> 2 ^ (w - 1)" and "i < w" and "i = 0 \<or> 2 ^ (i - 1) < x"
  shows "\<exists>k < w. round_to_power_of_2_loop w n (2 ^ i) x = Inr (2 ^ k) \<and> x \<le> 2 ^ k \<and>
           (k = 0 \<or> 2 ^ (k - 1) < x)"
  using assms
proof (induction n arbitrary: i)
  case 0
  then show ?case by simp
next
  case (Suc n)
  show ?case
  proof (cases "x \<le> 2 ^ i")
    case True
    with Suc.prems show ?thesis by auto
  next
    case False
    have "i \<noteq> w - 1" using False Suc.prems(2) by auto
    then have i: "Suc i < w" using Suc.prems(3) by simp
    then have "(2::nat) ^ Suc i < 2 ^ w" by (rule power_strict_increasing) simp
    then have "wmul w (2 ^ i) 2 = 2 ^ Suc i" by (simp add: wmul_def mult.commute)
    moreover have "\<exists>k < w. round_to_power_of_2_loop w n (2 ^ Suc i) x = Inr (2 ^ k) \<and> x \<le> 2 ^ k \<and>
        (k = 0 \<or> 2 ^ (k - 1) < x)"
      by (rule Suc.IH) (use Suc.prems i False in auto)
    ultimately show ?thesis using False by simp
  qed
qed

lemma round_to_power_of_2_correct:
  assumes "x \<le> 2 ^ (w - 1)" and "0 < w"
  shows "\<exists>k < w. round_to_power_of_2 w x = Inr (2 ^ k) \<and> x \<le> 2 ^ k \<and> (\<forall>j. x \<le> 2 ^ j \<longrightarrow> k \<le> j)"
proof -
  from round_to_power_of_2_loop_spec [of 0 w w x] assms
  obtain k where k: "k < w" "round_to_power_of_2 w x = Inr (2 ^ k)" "x \<le> 2 ^ k"
      "k = 0 \<or> 2 ^ (k - 1) < x"
    by (auto simp: round_to_power_of_2_def)
  with least_pow2 [OF k(4)] show ?thesis by blast
qed

lemma round_up_to_spec:
  assumes "0 < m" and "x + m \<le> 2 ^ w" and "x < 2 ^ w"
  shows "round_up_to w x m = Inr ((x + m - 1) div m * m)"
proof (cases "x mod m = 0")
  case True
  then have "m dvd x" by auto
  with True assms show ?thesis
    using ceil_mult_exact [OF assms(1), of x] by (simp add: round_up_to_def)
next
  case False
  have x: "x = x div m * m + x mod m" by simp
  have lt: "x mod m < m" using assms by simp
  have le: "x - x mod m + m < 2 ^ w" using False assms(2) x by linarith
  have "(x + m - 1) div m = Suc (x div m)"
  proof -
    have "x + m - 1 = (x mod m - 1) + (x div m * m + m)" using False x by linarith
    then have "(x + m - 1) div m = ((x mod m - 1) + Suc (x div m) * m) div m"
      by (simp add: add.commute)
    also have "\<dots> = Suc (x div m) + (x mod m - 1) div m"
      using assms(1) by (simp only: div_mult_self1 [OF less_imp_neq [THEN not_sym]])
    also have "(x mod m - 1) div m = 0" using lt by simp
    finally show ?thesis by simp
  qed
  moreover have "wadd w (wsub w x (x mod m)) m = x - x mod m + m"
    using assms le by (simp add: nowrap)
  moreover have "x - x mod m = x div m * m" by (simp add: minus_mod_eq_div_mult)
  ultimately show ?thesis using False assms(1) by (simp add: round_up_to_def Let_def)
qed

lemma log2_const_loop_spec:
  assumes "x \<le> 2 ^ (i + n)" and "i = 0 \<or> 2 ^ (i - 1) < x"
  shows "x \<le> 2 ^ log2_const_loop n i x \<and>
    (log2_const_loop n i x = 0 \<or> 2 ^ (log2_const_loop n i x - 1) < x)"
  using assms by (induction n arbitrary: i) auto

lemma log2_const_correct:
  assumes "x \<le> 2 ^ w"
  shows "x \<le> 2 ^ log2_const w x \<and> (\<forall>j. x \<le> 2 ^ j \<longrightarrow> log2_const w x \<le> j)"
proof -
  let ?k = "log2_const w x"
  from log2_const_loop_spec [of x 0 w] assms
  have k: "x \<le> 2 ^ ?k" "?k = 0 \<or> 2 ^ (?k - 1) < x"
    by (auto simp: log2_const_def)
  with least_pow2 [OF k(2)] show ?thesis by blast
qed

subsection \<open>Bytes per bank\<close>

lemma ceil_div_mult_ge: "0 < (b::nat) \<Longrightarrow> 0 < n \<Longrightarrow> n \<le> b * (1 + (n - 1) div b)"
proof -
  assume b: "0 < b" and n: "0 < n"
  have "n - 1 = (n - 1) div b * b + (n - 1) mod b" by simp
  moreover have "(n - 1) mod b < b" using b by simp
  ultimately have "n - 1 < (n - 1) div b * b + b" by linarith
  then show ?thesis using n by (simp add: algebra_simps)
qed

lemma SizeBytesPerBank_eq:
  assumes page: "0 < page" "page + al \<le> 2 ^ 32" and sz: "page dvd sz" "0 < sz"
    and nb: "0 < nb" and al: "0 < al"
    and fits: "(1 + (sz div page - 1) div nb) * ((page + al - 1) div al * al) < 2 ^ 64"
    and lt: "sz < 2 ^ 64"
  shows "SizeBytesPerBank sz page nb al =
    Inr ((1 + (sz div page - 1) div nb) * ((page + al - 1) div al * al))"
proof -
  have np: "0 < sz div page" using sz page by (simp add: dvd_imp_le div_greater_zero_iff)
  have small: "sz div page < 2 ^ 64" using lt div_le_dividend le_less_trans by blast
  have div_le: "(sz div page - 1) div nb \<le> sz div page - 1" by simp
  have wrap: "1 + (sz div page - 1) div nb < 2 ^ 64" using div_le small np by linarith
  have "sub64 (sz div page) 1 = sz div page - 1" using np small by (simp add: nowrap)
  then have "add64 1 (sub64 (sz div page) 1 div nb) = 1 + (sz div page - 1) div nb"
    using wrap by (simp add: nowrap)
  moreover have "u32 page = page" using page al by (simp add: nowrap)
  moreover have "page mod page = 0" "sz mod page = 0" using sz by auto
  moreover have "(1::nat) = 1 + (1 - 1) div nb" by simp
  ultimately show ?thesis
    using page nb fits round_up_eq [OF al page(2)]
    by (simp add: SizeBytesPerBank_def Let_def nowrap)
qed

subsection \<open>Properties\<close>

text \<open>\<^verbatim>\<open>round_to_power_of_2\<close> over a type of \<open>w\<close> bits returns for every argument up to the largest power
  of two of the type, and what it returns is the least power of two that is not below the argument.\<close>

theorem round_to_power_of_2_least:
  assumes "x \<le> 2 ^ (w - 1)" and "0 < w"
  shows "\<exists>k < w. round_to_power_of_2 w x = Inr (2 ^ k) \<and> x \<le> 2 ^ k \<and> (\<forall>j. x \<le> 2 ^ j \<longrightarrow> k \<le> j)"
  by (rule round_to_power_of_2_correct [OF assms])

theorem round_to_power_of_2_least_witness:
  "\<exists>k < 32. round_to_power_of_2 32 100 = Inr (2 ^ k) \<and> 100 \<le> (2 :: nat) ^ k \<and>
     (\<forall>j. 100 \<le> (2 :: nat) ^ j \<longrightarrow> k \<le> j)"
  by (rule round_to_power_of_2_least) simp_all

text \<open>\<^verbatim>\<open>SizeBytesPerBank\<close>, when nothing wraps around, gives each bank room for its share of the pages: the
  pages that \<open>nb\<close> banks hold at this size, each rounded up to the alignment, are at least the pages of
  the buffer, and the size is a multiple of the alignment.\<close>

theorem SizeBytesPerBank_enough:
  assumes "0 < page" and "page + al \<le> 2 ^ 32" and "page dvd sz" and "0 < sz" and "0 < nb" and "0 < al"
    and "(1 + (sz div page - 1) div nb) * ((page + al - 1) div al * al) < 2 ^ 64" and "sz < 2 ^ 64"
  shows "\<exists>b. SizeBytesPerBank sz page nb al = Inr b \<and> al dvd b \<and> sz \<le> nb * b"
proof -
  let ?p = "(page + al - 1) div al * al" and ?k = "1 + (sz div page - 1) div nb"
  have "page \<le> ?p" by (rule ceil_mult_ge [OF assms(6)])
  moreover have "0 < sz div page" using assms(1,3,4) by (simp add: div_greater_zero_iff dvd_imp_le)
  then have "sz div page \<le> nb * ?k" by (rule ceil_div_mult_ge [OF assms(5)])
  ultimately have "sz div page * page \<le> (nb * ?k) * ?p" by (rule mult_le_mono [rotated])
  then have "sz \<le> nb * (?k * ?p)" using assms(3) by (simp only: mult.assoc dvd_div_mult_self)
  then show ?thesis using SizeBytesPerBank_eq [OF assms] by simp
qed

theorem SizeBytesPerBank_enough_witness:
  "\<exists>b. SizeBytesPerBank 20480 2048 8 32 = Inr b \<and> 32 dvd b \<and> 20480 \<le> 8 * b"
  by (rule SizeBytesPerBank_enough) simp_all

end
