(* ===== verification/Free_List.thy ===== *)
theory Free_List
  imports Metal_Prelude
begin

text \<open>
  The free-list allocation algorithm: \<^verbatim>\<open>tt_metal/impl/allocator/algorithms/free_list.cpp\<close> over the
  abstract base class of \<^verbatim>\<open>allocator_algorithm.hpp\<close>.

  The blocks of the source are heap objects that two doubly linked lists thread (all blocks in
  address order, and the free ones among them), and the operations mutate them through shared
  pointers.  The model keeps that: a \<open>FreeList\<close> owns a store \<open>heap\<close> from references to \<open>Block\<close>
  records, a pointer is a \<open>nat option\<close> (\<open>None\<close> is \<^verbatim>\<open>nullptr\<close>), \<open>fresh\<close> is the next unused
  reference, and each assignment through a pointer is one \<open>upd_block\<close>.  \<^verbatim>\<open>DeviceAddr\<close> is
  \<^verbatim>\<open>uint64_t\<close>.  A loop over a list takes fuel; \<open>fresh\<close> units are given, one per block ever
  created, and \<open>Diverges\<close> reports a cyclic list.  An operation that mutates and then throws
  returns the mutated state beside the error.
\<close>

subsection \<open>State\<close>

record Block =
  address :: nat
  bsize :: nat
  prev_block :: "nat option"
  next_block :: "nat option"
  prev_free :: "nat option"
  next_free :: "nat option"

datatype SearchPolicy = BEST | FIRST

record FreeList =
  heap :: "nat \<Rightarrow> Block"
  fresh :: nat
  search_policy :: SearchPolicy
  block_head :: "nat option"
  block_tail :: "nat option"
  free_block_head :: "nat option"
  free_block_tail :: "nat option"
  max_size_bytes :: nat
  offset_bytes :: nat
  min_allocation_size :: nat
  alignment :: nat
  lowest_occupied :: "nat option"

record Statistics =
  total_allocatable_size_bytes :: nat
  total_allocated_bytes :: nat
  total_free_bytes :: nat
  largest_free_block_bytes :: nat
  largest_free_block_addrs :: "nat list"

definition upd_block :: "nat \<Rightarrow> (Block \<Rightarrow> Block) \<Rightarrow> FreeList \<Rightarrow> FreeList" where
  "upd_block r f fl = fl\<lparr>heap := (heap fl)(r := f (heap fl r))\<rparr>"

abbreviation set_address :: "nat \<Rightarrow> nat \<Rightarrow> FreeList \<Rightarrow> FreeList" where
  "set_address r v \<equiv> upd_block r (address_update (\<lambda>_. v))"
abbreviation set_bsize :: "nat \<Rightarrow> nat \<Rightarrow> FreeList \<Rightarrow> FreeList" where
  "set_bsize r v \<equiv> upd_block r (bsize_update (\<lambda>_. v))"
abbreviation set_prev_block :: "nat \<Rightarrow> nat option \<Rightarrow> FreeList \<Rightarrow> FreeList" where
  "set_prev_block r v \<equiv> upd_block r (prev_block_update (\<lambda>_. v))"
abbreviation set_next_block :: "nat \<Rightarrow> nat option \<Rightarrow> FreeList \<Rightarrow> FreeList" where
  "set_next_block r v \<equiv> upd_block r (next_block_update (\<lambda>_. v))"
abbreviation set_prev_free :: "nat \<Rightarrow> nat option \<Rightarrow> FreeList \<Rightarrow> FreeList" where
  "set_prev_free r v \<equiv> upd_block r (prev_free_update (\<lambda>_. v))"
abbreviation set_next_free :: "nat \<Rightarrow> nat option \<Rightarrow> FreeList \<Rightarrow> FreeList" where
  "set_next_free r v \<equiv> upd_block r (next_free_update (\<lambda>_. v))"

text \<open>\<open>if (p != nullptr) { p->... }\<close>\<close>

definition on_ptr :: "nat option \<Rightarrow> (nat \<Rightarrow> FreeList \<Rightarrow> FreeList) \<Rightarrow> FreeList \<Rightarrow> FreeList" where
  "on_ptr p f fl = (case p of None \<Rightarrow> fl | Some r \<Rightarrow> f r fl)"

definition make_shared_Block :: "Block \<Rightarrow> FreeList \<Rightarrow> nat \<times> FreeList" where
  "make_shared_Block b fl =
     (fresh fl, fl\<lparr>heap := (heap fl)(fresh fl := b), fresh := Suc (fresh fl)\<rparr>)"

definition Block2 :: "nat \<Rightarrow> nat \<Rightarrow> Block" where
  "Block2 a s = \<lparr>address = a, bsize = s, prev_block = None, next_block = None,
                 prev_free = None, next_free = None\<rparr>"

definition Block6 ::
    "nat \<Rightarrow> nat \<Rightarrow> nat option \<Rightarrow> nat option \<Rightarrow> nat option \<Rightarrow> nat option \<Rightarrow> Block" where
  "Block6 a s pb nb pf nf = \<lparr>address = a, bsize = s, prev_block = pb, next_block = nb,
                 prev_free = pf, next_free = nf\<rparr>"

subsection \<open>The base class\<close>

definition align :: "FreeList \<Rightarrow> nat \<Rightarrow> nat" where
  "align fl addr =
     (let factor = sub64 (add64 addr (alignment fl)) 1 div alignment fl
      in mul64 factor (alignment fl))"

definition lowest_occupied_address :: "FreeList \<Rightarrow> nat option" where
  "lowest_occupied_address fl =
     (case lowest_occupied fl of
        None \<Rightarrow> None
      | Some v \<Rightarrow> Some (add64 v (offset_bytes fl)))"

subsection \<open>Construction\<close>

definition init :: "FreeList \<Rightarrow> FreeList" where
  "init fl =
     (let (block, fl) = make_shared_Block (Block2 0 (max_size_bytes fl)) fl
      in fl\<lparr>block_head := Some block, block_tail := Some block,
            free_block_head := Some block, free_block_tail := Some block\<rparr>)"

definition new_FreeList ::
    "nat \<Rightarrow> nat \<Rightarrow> nat \<Rightarrow> nat \<Rightarrow> SearchPolicy \<Rightarrow> FreeList result" where
  "new_FreeList max_size offset min_size al policy =
     (if al = 0 then Inl (Undefined ''modulo by zero'') else
      rbind (check (offset mod al = 0) (TT_ASSERT ''Offset should be aligned'')) (\<lambda>_.
      Inr (init \<lparr>heap = (\<lambda>_. Block2 0 0), fresh = 0, search_policy = policy,
         block_head = None, block_tail = None, free_block_head = None, free_block_tail = None,
         max_size_bytes = max_size, offset_bytes = offset,
         min_allocation_size = min_size, alignment = al,
         lowest_occupied = None\<rparr>)))"

definition is_allocated :: "FreeList \<Rightarrow> nat \<Rightarrow> bool" where
  "is_allocated fl block \<longleftrightarrow>
     prev_free (heap fl block) = None \<and> next_free (heap fl block) = None \<and>
     Some block \<noteq> free_block_head fl \<and> Some block \<noteq> free_block_tail fl"

definition alloc_size_of :: "FreeList \<Rightarrow> nat \<Rightarrow> nat" where
  "alloc_size_of fl size_bytes =
     align fl (if size_bytes < min_allocation_size fl then min_allocation_size fl
               else size_bytes)"

subsection \<open>Searching\<close>

fun available_addresses_loop ::
    "nat \<Rightarrow> FreeList \<Rightarrow> nat \<Rightarrow> nat option \<Rightarrow> (nat \<times> nat) list \<Rightarrow> (nat \<times> nat) list result" where
  "available_addresses_loop n fl alloc_size None addresses = Inr addresses"
| "available_addresses_loop 0 fl alloc_size (Some r) addresses = Inl Diverges"
| "available_addresses_loop (Suc n) fl alloc_size (Some r) addresses =
     (let curr = heap fl r;
          addresses' = (if bsize curr \<ge> alloc_size
             then addresses @ [(address curr, sub64 (add64 (address curr) (bsize curr)) alloc_size)]
             else addresses)
      in available_addresses_loop n fl alloc_size (next_free curr) addresses')"

definition available_addresses :: "FreeList \<Rightarrow> nat \<Rightarrow> (nat \<times> nat) list result" where
  "available_addresses fl size_bytes =
     available_addresses_loop (fresh fl) fl (alloc_size_of fl size_bytes) (free_block_head fl) []"

definition step_free :: "bool \<Rightarrow> Block \<Rightarrow> nat option" where
  "step_free bottom_up b = (if bottom_up then next_free b else prev_free b)"

fun search_best_loop ::
    "nat \<Rightarrow> FreeList \<Rightarrow> nat \<Rightarrow> bool \<Rightarrow> nat option \<Rightarrow> nat option \<Rightarrow> nat option result" where
  "search_best_loop n fl size_bytes bottom_up None best = Inr best"
| "search_best_loop 0 fl size_bytes bottom_up (Some r) best = Inl Diverges"
| "search_best_loop (Suc n) fl size_bytes bottom_up (Some r) best =
     (let curr = heap fl r in
      if bsize curr = size_bytes then Inr (Some r)
      else search_best_loop n fl size_bytes bottom_up (step_free bottom_up curr)
             (if bsize curr \<ge> size_bytes \<and>
                 (case best of None \<Rightarrow> True | Some b \<Rightarrow> bsize curr < bsize (heap fl b))
              then Some r else best))"

definition search_best :: "FreeList \<Rightarrow> nat \<Rightarrow> bool \<Rightarrow> nat option result" where
  "search_best fl size_bytes bottom_up =
     search_best_loop (fresh fl) fl size_bytes bottom_up
       (if bottom_up then free_block_head fl else free_block_tail fl) None"

fun search_first_loop ::
    "nat \<Rightarrow> FreeList \<Rightarrow> nat \<Rightarrow> bool \<Rightarrow> nat option \<Rightarrow> nat option result" where
  "search_first_loop n fl size_bytes bottom_up None = Inr None"
| "search_first_loop 0 fl size_bytes bottom_up (Some r) = Inl Diverges"
| "search_first_loop (Suc n) fl size_bytes bottom_up (Some r) =
     (let curr = heap fl r in
      if bsize curr \<ge> size_bytes then Inr (Some r)
      else search_first_loop n fl size_bytes bottom_up (step_free bottom_up curr))"

definition search_first :: "FreeList \<Rightarrow> nat \<Rightarrow> bool \<Rightarrow> nat option result" where
  "search_first fl size_bytes bottom_up =
     search_first_loop (fresh fl) fl size_bytes bottom_up
       (if bottom_up then free_block_head fl else free_block_tail fl)"

definition search :: "FreeList \<Rightarrow> nat \<Rightarrow> bool \<Rightarrow> nat option result" where
  "search fl size_bytes bottom_up =
     (case search_policy fl of
        BEST \<Rightarrow> search_best fl size_bytes bottom_up
      | FIRST \<Rightarrow> search_first fl size_bytes bottom_up)"

subsection \<open>Carving a block out of a free block\<close>

definition unlink_free_block :: "nat \<Rightarrow> FreeList \<Rightarrow> FreeList" where
  "unlink_free_block fb fl =
     (let fl = on_ptr (prev_free (heap fl fb)) (\<lambda>p fl. set_next_free p (next_free (heap fl fb)) fl) fl;
          fl = on_ptr (next_free (heap fl fb)) (\<lambda>n fl. set_prev_free n (prev_free (heap fl fb)) fl) fl;
          fl = (if Some fb = free_block_head fl
                then fl\<lparr>free_block_head := next_free (heap fl fb)\<rparr> else fl);
          fl = (if Some fb = free_block_tail fl
                then fl\<lparr>free_block_tail := prev_free (heap fl fb)\<rparr> else fl);
          fl = set_prev_free fb None fl;
          fl = set_next_free fb None fl
      in fl)"

definition allocate_entire_free_block :: "nat \<Rightarrow> FreeList \<Rightarrow> FreeList result" where
  "allocate_entire_free_block fb fl =
     rbind (check (\<not> is_allocated fl fb) (TT_ASSERT ''not is_allocated'')) (\<lambda>_.
     Inr (unlink_free_block fb fl))"

definition update_left_aligned_allocated_block_connections ::
    "nat \<Rightarrow> nat \<Rightarrow> FreeList \<Rightarrow> FreeList" where
  "update_left_aligned_allocated_block_connections fb ab fl =
     (let fl = set_prev_block ab (prev_block (heap fl fb)) fl;
          fl = set_next_block ab (Some fb) fl;
          fl = on_ptr (prev_block (heap fl fb)) (\<lambda>p. set_next_block p (Some ab)) fl;
          fl = (if Some fb = block_head fl then fl\<lparr>block_head := Some ab\<rparr> else fl);
          fl = set_prev_block fb (Some ab) fl;
          fl = set_address fb (add64 (address (heap fl ab)) (bsize (heap fl ab))) fl;
          fl = set_bsize fb (sub64 (bsize (heap fl fb)) (bsize (heap fl ab))) fl
      in fl)"

definition update_right_aligned_allocated_block_connections ::
    "nat \<Rightarrow> nat \<Rightarrow> FreeList \<Rightarrow> FreeList" where
  "update_right_aligned_allocated_block_connections fb ab fl =
     (let fl = set_prev_block ab (Some fb) fl;
          fl = set_next_block ab (next_block (heap fl fb)) fl;
          fl = on_ptr (next_block (heap fl fb)) (\<lambda>n. set_prev_block n (Some ab)) fl;
          fl = (if Some fb = block_tail fl then fl\<lparr>block_tail := Some ab\<rparr> else fl);
          fl = set_next_block fb (Some ab) fl;
          fl = set_bsize fb (sub64 (bsize (heap fl fb)) (bsize (heap fl ab))) fl
      in fl)"

text \<open>The branch of \<^verbatim>\<open>allocate_slice_of_free_block\<close> that leaves free space on both sides: the
  neighbours of the free block are linked to the new \<open>next_free_block\<close>, then the three parts to
  each other.\<close>

definition relink_neighbours :: "nat \<Rightarrow> nat \<Rightarrow> FreeList \<Rightarrow> FreeList" where
  "relink_neighbours fb nfb fl =
     (let fl = on_ptr (next_block (heap fl fb)) (\<lambda>n. set_prev_block n (Some nfb)) fl;
          fl = on_ptr (next_free (heap fl fb)) (\<lambda>n. set_prev_free n (Some nfb)) fl;
          fl = (if free_block_tail fl = Some fb then fl\<lparr>free_block_tail := Some nfb\<rparr> else fl);
          fl = (if block_tail fl = Some fb then fl\<lparr>block_tail := Some nfb\<rparr> else fl)
      in fl)"

definition link_parts :: "nat \<Rightarrow> nat \<Rightarrow> nat \<Rightarrow> FreeList \<Rightarrow> FreeList" where
  "link_parts fb ab nfb fl =
     (let fl = set_next_free fb (Some nfb) fl;
          fl = set_next_block fb (Some ab) fl;
          fl = set_prev_block ab (Some fb) fl;
          fl = set_next_block ab (Some nfb) fl;
          fl = set_bsize fb (sub64 (bsize (heap fl fb))
                 (add64 (bsize (heap fl ab)) (bsize (heap fl nfb)))) fl
      in fl)"

definition split_middle_of_free_block :: "nat \<Rightarrow> nat \<Rightarrow> nat \<Rightarrow> nat \<Rightarrow> FreeList \<Rightarrow> FreeList" where
  "split_middle_of_free_block fb ab offset size_bytes fl =
     (let next_free_block_addr = add64 (add64 (address (heap fl fb)) offset) size_bytes;
          next_free_block_size =
            sub64 (add64 (address (heap fl fb)) (bsize (heap fl fb))) next_free_block_addr;
          (nfb, fl) = make_shared_Block
            (Block6 next_free_block_addr next_free_block_size (Some ab)
               (next_block (heap fl fb)) (Some fb) (next_free (heap fl fb))) fl;
          fl = relink_neighbours fb nfb fl
      in link_parts fb ab nfb fl)"

definition allocate_slice_of_free_block ::
    "nat \<Rightarrow> nat \<Rightarrow> nat \<Rightarrow> FreeList \<Rightarrow> (nat \<times> FreeList) result" where
  "allocate_slice_of_free_block fb offset size_bytes fl =
     (let fb_addr = address (heap fl fb); fb_size = bsize (heap fl fb);
          slice_end = add64 (add64 fb_addr offset) size_bytes;
          fb_end = add64 fb_addr fb_size
      in rbind (check (slice_end \<le> fb_end) (TT_ASSERT ''slice ends past the free block'')) (\<lambda>_.
      if offset = 0 \<and> size_bytes = fb_size
      then rbind (allocate_entire_free_block fb fl) (\<lambda>fl. Inr (fb, fl))
      else
        let (ab, fl) = make_shared_Block (Block2 (add64 fb_addr offset) size_bytes) fl;
            case_one = (offset = 0 \<and> size_bytes < fb_size);
            case_two = (offset > 0 \<and> slice_end = fb_end);
            case_three = (offset > 0 \<and> slice_end < fb_end)
        in rbind (check (of_bool case_one + of_bool case_two + of_bool case_three = (1 :: nat))
                    (TT_ASSERT ''exactly one case'')) (\<lambda>_.
        if case_one then Inr (ab, update_left_aligned_allocated_block_connections fb ab fl)
        else if case_two then Inr (ab, update_right_aligned_allocated_block_connections fb ab fl)
        else rbind (check case_three (TT_ASSERT ''case_three'')) (\<lambda>_.
             Inr (ab, split_middle_of_free_block fb ab offset size_bytes fl)))))"

subsection \<open>Allocation\<close>

text \<open>The two overloads of \<^verbatim>\<open>update_lowest_occupied_address\<close>: with the address, and the search.\<close>

definition update_lowest_occupied_address_to :: "nat \<Rightarrow> FreeList \<Rightarrow> FreeList" where
  "update_lowest_occupied_address_to addr fl =
     (case lowest_occupied fl of
        None \<Rightarrow> fl\<lparr>lowest_occupied := Some addr\<rparr>
      | Some l \<Rightarrow> fl\<lparr>lowest_occupied := Some (min l addr)\<rparr>)"

fun update_lowest_occupied_address_loop :: "nat \<Rightarrow> FreeList \<Rightarrow> nat option \<Rightarrow> nat option result" where
  "update_lowest_occupied_address_loop n fl None = Inr None"
| "update_lowest_occupied_address_loop 0 fl (Some r) = Inl Diverges"
| "update_lowest_occupied_address_loop (Suc n) fl (Some r) =
     (if is_allocated fl r then Inr (Some r)
      else update_lowest_occupied_address_loop n fl (next_block (heap fl r)))"

definition update_lowest_occupied_address :: "FreeList \<Rightarrow> FreeList result" where
  "update_lowest_occupied_address fl =
     rbind (update_lowest_occupied_address_loop (fresh fl) fl (block_head fl)) (\<lambda>block.
     Inr (fl\<lparr>lowest_occupied :=
               (case block of None \<Rightarrow> None | Some r \<Rightarrow> Some (address (heap fl r)))\<rparr>))"

definition allocate ::
    "nat \<Rightarrow> bool \<Rightarrow> nat \<Rightarrow> FreeList \<Rightarrow> nat option result \<times> FreeList" where
  "allocate size_bytes bottom_up address_limit fl =
     (let alloc_size = alloc_size_of fl size_bytes in
      case search fl alloc_size bottom_up of
        Inl e \<Rightarrow> (Inl e, fl)
      | Inr None \<Rightarrow> (Inr None, fl)
      | Inr (Some fb) \<Rightarrow>
        let fb_addr = address (heap fl fb);
            offset = (if bottom_up then 0
                      else sub64 (sub64 (add64 fb_addr (bsize (heap fl fb))) alloc_size) fb_addr)
        in (case allocate_slice_of_free_block fb offset alloc_size fl of
              Inl e \<Rightarrow> (Inl e, fl)
            | Inr (ab, fl) \<Rightarrow>
              let fl = update_lowest_occupied_address_to (address (heap fl ab)) fl;
                  absolute = add64 (address (heap fl ab)) (offset_bytes fl)
              in if absolute < address_limit
                 then (Inl (TT_THROW ''Out of Memory: Cannot allocate at an address below the limit''), fl)
                 else (Inr (Some absolute), fl)))"

fun allocate_at_address_loop ::
    "nat \<Rightarrow> nat \<Rightarrow> nat \<Rightarrow> nat option \<Rightarrow> FreeList \<Rightarrow> (nat option \<times> FreeList) result" where
  "allocate_at_address_loop n start_address alloc_size None fl = Inr (None, fl)"
| "allocate_at_address_loop 0 start_address alloc_size (Some r) fl = Inl Diverges"
| "allocate_at_address_loop (Suc n) start_address alloc_size (Some r) fl =
     (let curr = heap fl r in
      if bsize curr \<ge> alloc_size \<and> address curr = start_address
      then rbind (allocate_slice_of_free_block r 0 alloc_size fl) (\<lambda>(_, fl). Inr (Some r, fl))
      else if bsize curr \<ge> alloc_size \<and> start_address > address curr \<and>
              add64 start_address alloc_size \<le> add64 (address curr) (bsize curr)
      then rbind (allocate_slice_of_free_block r (sub64 start_address (address curr)) alloc_size fl)
             (\<lambda>(_, fl). Inr (Some r, fl))
      else allocate_at_address_loop n start_address alloc_size (next_free curr) fl)"

definition allocate_at_address :: "nat \<Rightarrow> nat \<Rightarrow> FreeList \<Rightarrow> (nat option \<times> FreeList) result" where
  "allocate_at_address absolute_start_address size_bytes fl =
     rbind (check (absolute_start_address mod alignment fl = 0)
              (TT_ASSERT ''Requested address should be aligned'')) (\<lambda>_.
     let start_address = sub64 absolute_start_address (offset_bytes fl);
         alloc_size = alloc_size_of fl size_bytes
     in rbind (allocate_at_address_loop (fresh fl) start_address alloc_size (free_block_head fl) fl)
          (\<lambda>(curr, fl).
        case curr of
          None \<Rightarrow> Inr (None, fl)
        | Some _ \<Rightarrow> Inr (Some absolute_start_address,
                        update_lowest_occupied_address_to start_address fl)))"

subsection \<open>Deallocation\<close>

fun find_block_loop :: "nat \<Rightarrow> FreeList \<Rightarrow> nat \<Rightarrow> nat option \<Rightarrow> nat option result" where
  "find_block_loop n fl addr None = Inr None"
| "find_block_loop 0 fl addr (Some r) = Inl Diverges"
| "find_block_loop (Suc n) fl addr (Some r) =
     (if address (heap fl r) = addr then Inr (Some r)
      else find_block_loop n fl addr (next_block (heap fl r)))"

definition find_block :: "FreeList \<Rightarrow> nat \<Rightarrow> nat option result" where
  "find_block fl addr = find_block_loop (fresh fl) fl addr (block_head fl)"

fun prev_free_search :: "nat \<Rightarrow> FreeList \<Rightarrow> nat option \<Rightarrow> nat option result" where
  "prev_free_search n fl None = Inr None"
| "prev_free_search 0 fl (Some r) = Inl Diverges"
| "prev_free_search (Suc n) fl (Some r) =
     (if is_allocated fl r then prev_free_search n fl (prev_block (heap fl r)) else Inr (Some r))"

fun next_free_search :: "nat \<Rightarrow> FreeList \<Rightarrow> nat option \<Rightarrow> nat option result" where
  "next_free_search n fl None = Inr None"
| "next_free_search 0 fl (Some r) = Inl Diverges"
| "next_free_search (Suc n) fl (Some r) =
     (if is_allocated fl r then next_free_search n fl (next_block (heap fl r)) else Inr (Some r))"

text \<open>The three steps of \<^verbatim>\<open>deallocate\<close>: merging with the previous block, merging with the next
  one, and linking a block that merged with neither into the free list.\<close>

definition merge_prev :: "nat \<Rightarrow> nat \<Rightarrow> FreeList \<Rightarrow> FreeList" where
  "merge_prev prev block_to_free fl =
     (let fl = set_next_block prev (next_block (heap fl block_to_free)) fl;
          fl = on_ptr (next_block (heap fl block_to_free)) (\<lambda>n. set_prev_block n (Some prev)) fl;
          fl = set_bsize prev (add64 (bsize (heap fl prev)) (bsize (heap fl block_to_free))) fl
      in fl)"

definition merge_next_block_links :: "nat \<Rightarrow> nat \<Rightarrow> FreeList \<Rightarrow> FreeList" where
  "merge_next_block_links nxt block_to_free fl =
     (let fl = set_next_block block_to_free (next_block (heap fl nxt)) fl;
          fl = on_ptr (next_block (heap fl nxt)) (\<lambda>n. set_prev_block n (Some block_to_free)) fl;
          fl = (if Some nxt = free_block_head fl
                then fl\<lparr>free_block_head := Some block_to_free\<rparr> else fl);
          fl = (if Some nxt = free_block_tail fl
                then fl\<lparr>free_block_tail := Some block_to_free\<rparr> else fl)
      in fl)"

definition merge_next_free_links :: "nat \<Rightarrow> nat \<Rightarrow> bool \<Rightarrow> FreeList \<Rightarrow> FreeList" where
  "merge_next_free_links nxt block_to_free merged_prev fl =
     (let fl = set_next_free block_to_free (next_free (heap fl nxt)) fl;
          fl = on_ptr (next_free (heap fl nxt)) (\<lambda>n. set_prev_free n (Some block_to_free)) fl
      in if \<not> merged_prev then
           let fl = set_prev_free block_to_free (prev_free (heap fl nxt)) fl
           in on_ptr (prev_free (heap fl nxt)) (\<lambda>p. set_next_free p (Some block_to_free)) fl
         else fl)"

definition merge_next :: "nat \<Rightarrow> nat \<Rightarrow> bool \<Rightarrow> FreeList \<Rightarrow> FreeList" where
  "merge_next nxt block_to_free merged_prev fl =
     (let fl = merge_next_block_links nxt block_to_free fl;
          fl = merge_next_free_links nxt block_to_free merged_prev fl
      in set_bsize block_to_free
           (add64 (bsize (heap fl block_to_free)) (bsize (heap fl nxt))) fl)"

definition link_free :: "nat \<Rightarrow> FreeList \<Rightarrow> FreeList result" where
  "link_free block_to_free fl =
     rbind (prev_free_search (fresh fl) fl (prev_block (heap fl block_to_free))) (\<lambda>prev_free_block.
     rbind (next_free_search (fresh fl) fl (next_block (heap fl block_to_free))) (\<lambda>next_free_block.
     let fl = set_prev_free block_to_free prev_free_block fl;
         fl = (case prev_free_block of
                 Some p \<Rightarrow> set_next_free p (Some block_to_free) fl
               | None \<Rightarrow> fl\<lparr>free_block_head := Some block_to_free\<rparr>);
         fl = set_next_free block_to_free next_free_block fl;
         fl = (case next_free_block of
                 Some n \<Rightarrow> set_prev_free n (Some block_to_free) fl
               | None \<Rightarrow> fl\<lparr>free_block_tail := Some block_to_free\<rparr>)
     in Inr fl))"

definition deallocate_block :: "nat \<Rightarrow> FreeList \<Rightarrow> FreeList result" where
  "deallocate_block block_to_free fl =
     (let prev = prev_block (heap fl block_to_free);
          nxt = next_block (heap fl block_to_free);
          (merged_prev, block_to_free, fl) =
            (case prev of
               Some p \<Rightarrow> if \<not> is_allocated fl p then (True, p, merge_prev p block_to_free fl)
                         else (False, block_to_free, fl)
             | None \<Rightarrow> (False, block_to_free, fl));
          (merged_next, fl) =
            (case nxt of
               Some n \<Rightarrow> if \<not> is_allocated fl n then (True, merge_next n block_to_free merged_prev fl)
                         else (False, fl)
             | None \<Rightarrow> (False, fl))
      in if \<not> merged_prev \<and> \<not> merged_next then link_free block_to_free fl else Inr fl)"

definition deallocate :: "nat \<Rightarrow> FreeList \<Rightarrow> FreeList result" where
  "deallocate absolute_address fl =
     (let addr = sub64 absolute_address (offset_bytes fl) in
      rbind (find_block fl addr) (\<lambda>block_to_free.
      case block_to_free of
        None \<Rightarrow> Inr fl
      | Some r \<Rightarrow>
        if \<not> is_allocated fl r then Inr fl
        else rbind (deallocate_block r fl) (\<lambda>fl.
             if Some addr = lowest_occupied fl then update_lowest_occupied_address fl
             else Inr fl)))"

definition clear :: "FreeList \<Rightarrow> FreeList" where
  "clear fl = init fl"

subsection \<open>Statistics\<close>

fun get_statistics_loop :: "nat \<Rightarrow> FreeList \<Rightarrow> nat option \<Rightarrow> Statistics \<Rightarrow> Statistics result" where
  "get_statistics_loop n fl None stats = Inr stats"
| "get_statistics_loop 0 fl (Some r) stats = Inl Diverges"
| "get_statistics_loop (Suc n) fl (Some r) stats =
     (let curr = heap fl r;
          stats' =
            (if is_allocated fl r
             then stats\<lparr>total_allocated_bytes := add64 (total_allocated_bytes stats) (bsize curr)\<rparr>
             else
               let stats = stats\<lparr>total_free_bytes := add64 (total_free_bytes stats) (bsize curr)\<rparr>
               in if bsize curr \<ge> largest_free_block_bytes stats
                  then stats\<lparr>largest_free_block_bytes := bsize curr,
                             largest_free_block_addrs := largest_free_block_addrs stats @
                               [u32 (add64 (address curr) (offset_bytes fl))]\<rparr>
                  else stats)
      in get_statistics_loop n fl (next_block curr) stats')"

definition get_statistics :: "FreeList \<Rightarrow> Statistics result" where
  "get_statistics fl =
     rbind (get_statistics_loop (fresh fl) fl (block_head fl)
              \<lparr>total_allocatable_size_bytes = max_size_bytes fl, total_allocated_bytes = 0,
               total_free_bytes = 0, largest_free_block_bytes = 0, largest_free_block_addrs = []\<rparr>)
       (\<lambda>stats.
     Inr (if total_allocated_bytes stats = 0
          then stats\<lparr>total_free_bytes := max_size_bytes fl,
                     largest_free_block_bytes := max_size_bytes fl\<rparr>
          else stats))"

end
