(* ===== verification/Linked_Chain.thy ===== *)
theory Linked_Chain
  imports Metal_Prelude
begin

text \<open>
  Doubly linked chains.  \<open>dll pv nx p xs q\<close> says that following the successor function \<open>nx\<close> and
  the predecessor function \<open>pv\<close> visits the list \<open>xs\<close>, that the first element has predecessor \<open>p\<close>
  and the last one successor \<open>q\<close>.  The free list uses it twice, for the chain of all blocks and
  for the chain of the free ones.  The update lemmas say what re-linking an end of a chain does.
\<close>

definition hd_or :: "'a option \<Rightarrow> 'a list \<Rightarrow> 'a option" where
  "hd_or q xs = (case xs of [] \<Rightarrow> q | x # _ \<Rightarrow> Some x)"

definition last_or :: "'a option \<Rightarrow> 'a list \<Rightarrow> 'a option" where
  "last_or p xs = (if xs = [] then p else Some (last xs))"

lemma hd_or_simps [simp]: "hd_or q [] = q" "hd_or q (x # xs) = Some x"
  by (simp_all add: hd_or_def)

lemma hd_or_append [simp]: "hd_or q (xs @ ys) = hd_or (hd_or q ys) xs"
  by (cases xs) simp_all

lemma last_or_Nil [simp]: "last_or p [] = p"
  by (simp add: last_or_def)

lemma last_or_snoc [simp]: "last_or p (xs @ [x]) = Some x"
  by (simp add: last_or_def)

lemma last_or_append [simp]: "last_or p (xs @ ys) = last_or (last_or p xs) ys"
  by (simp add: last_or_def)

lemma last_or_Cons [simp]: "last_or p (x # xs) = last_or (Some x) xs"
  by (simp add: last_or_def)

lemma hd_or_eq_Some: "hd_or None xs = Some x \<Longrightarrow> x \<in> set xs"
  by (cases xs) auto

lemma last_or_eq_Some: "last_or None xs = Some x \<Longrightarrow> x \<in> set xs"
  by (cases xs rule: rev_cases) auto

lemma hd_or_Some_in: "hd_or (Some y) xs = Some x \<Longrightarrow> x \<in> insert y (set xs)"
  by (cases xs) auto

lemma hd_or_None_iff [simp]: "hd_or None xs = None \<longleftrightarrow> xs = []"
  by (cases xs) auto

lemma last_or_None_iff [simp]: "last_or None xs = None \<longleftrightarrow> xs = []"
  by (simp add: last_or_def)

lemma last_or_Some_neq_None [simp]: "last_or (Some y) xs \<noteq> None"
  by (simp add: last_or_def)

lemma hd_or_Some_neq_None [simp]: "hd_or (Some y) xs \<noteq> None"
  by (cases xs) auto

fun dll :: "('a \<Rightarrow> 'a option) \<Rightarrow> ('a \<Rightarrow> 'a option) \<Rightarrow> 'a option \<Rightarrow> 'a list \<Rightarrow> 'a option \<Rightarrow> bool" where
  "dll pv nx p [] q \<longleftrightarrow> True"
| "dll pv nx p (x # xs) q \<longleftrightarrow> pv x = p \<and> nx x = hd_or q xs \<and> dll pv nx (Some x) xs q"

lemma dll_append [simp]:
  "dll pv nx p (xs @ ys) q \<longleftrightarrow> dll pv nx p xs (hd_or q ys) \<and> dll pv nx (last_or p xs) ys q"
  by (induction xs arbitrary: p) (auto simp: conj_assoc)

lemma dll_cong:
  assumes "dll pv nx p xs q" and "\<And>x. x \<in> set xs \<Longrightarrow> pv' x = pv x"
    and "\<And>x. x \<in> set xs \<Longrightarrow> nx' x = nx x"
  shows "dll pv' nx' p xs q"
  using assms by (induction xs arbitrary: p) auto

lemma dll_relink_last:
  assumes "dll pv nx p xs q" and "distinct xs" and "\<And>x. x \<in> set xs \<Longrightarrow> pv' x = pv x"
    and "\<And>x. x \<in> set xs \<Longrightarrow> nx' x = (if last_or None xs = Some x then q' else nx x)"
  shows "dll pv' nx' p xs q'"
proof (cases xs rule: rev_cases)
  case (snoc ys y)
  have y: "y \<notin> set ys" using assms(2) snoc by simp
  have ch: "dll pv nx p ys (Some y)" "pv y = last_or p ys" using assms(1) snoc by simp_all
  have "dll pv' nx' p ys (Some y)"
  proof (rule dll_cong [OF ch(1)])
    fix x assume x: "x \<in> set ys"
    then show "pv' x = pv x" using assms(3) [of x] snoc by simp
    show "nx' x = nx x" using assms(4) [of x] snoc x y by auto
  qed
  moreover have "pv' y = last_or p ys" "nx' y = q'"
    using assms(3) [of y] assms(4) [of y] snoc ch(2) by simp_all
  ultimately show ?thesis using snoc by simp
qed simp

lemma dll_relink_hd:
  assumes "dll pv nx p xs q" and "distinct xs"
    and "\<And>x. x \<in> set xs \<Longrightarrow> pv' x = (if hd_or None xs = Some x then p' else pv x)"
    and "\<And>x. x \<in> set xs \<Longrightarrow> nx' x = nx x"
  shows "dll pv' nx' p' xs q"
proof (cases xs)
  case (Cons y ys)
  have y: "y \<notin> set ys" using assms(2) Cons by simp
  have ch: "dll pv nx (Some y) ys q" "nx y = hd_or q ys" using assms(1) Cons by simp_all
  have "dll pv' nx' (Some y) ys q"
  proof (rule dll_cong [OF ch(1)])
    fix x assume x: "x \<in> set ys"
    then show "nx' x = nx x" using assms(4) [of x] Cons by simp
    show "pv' x = pv x" using assms(3) [of x] Cons x y by auto
  qed
  moreover have "pv' y = p'" "nx' y = hd_or q ys"
    using assms(3) [of y] assms(4) [of y] Cons ch(2) by simp_all
  ultimately show ?thesis using Cons by simp
qed simp

lemma dll_prev_None:
  assumes "dll pv nx None xs q" and "x \<in> set xs" and "pv x = None"
  shows "hd_or None xs = Some x"
proof -
  from assms(2) obtain as bs where xs: "xs = as @ x # bs" by (auto dest: split_list)
  with assms have "last_or None as = None" by simp
  with xs show ?thesis by simp
qed

lemma dll_next_None:
  assumes "dll pv nx p xs None" and "x \<in> set xs" and "nx x = None"
  shows "last_or None xs = Some x"
proof -
  from assms(2) obtain as bs where xs: "xs = as @ x # bs" by (auto dest: split_list)
  with assms have "hd_or None bs = None" by simp
  with xs show ?thesis by (simp add: last_or_def)
qed

text \<open>What an element of a chain links to: the neighbours in the list.\<close>

lemma dll_split:
  assumes "dll pv nx p (as @ x # bs) q"
  shows "pv x = last_or p as" and "nx x = hd_or q bs"
    and "dll pv nx p as (Some x)" and "dll pv nx (Some x) bs q"
  using assms by auto

text \<open>Inserting, deleting and replacing one element, by the links that change.\<close>

lemma dll_insert:
  assumes ch: "dll pv nx None (as @ bs) None" and d: "distinct (as @ bs)" and r: "r \<notin> set (as @ bs)"
    and nx': "\<And>x. x \<in> insert r (set (as @ bs)) \<Longrightarrow> nx' x = (if x = r then hd_or None bs else
        if last_or None as = Some x then Some r else nx x)"
    and pv': "\<And>x. x \<in> insert r (set (as @ bs)) \<Longrightarrow> pv' x = (if x = r then last_or None as else
        if hd_or None bs = Some x then Some r else pv x)"
  shows "dll pv' nx' None (as @ r # bs) None"
proof -
  have a: "dll pv nx None as (hd_or None bs)" and b: "dll pv nx (last_or None as) bs None"
    using ch by simp_all
  have "dll pv' nx' None as (Some r)"
  proof (rule dll_relink_last [OF a])
    fix x assume x: "x \<in> set as"
    then have "hd_or None bs \<noteq> Some x" using d by (auto dest: hd_or_eq_Some)
    then show "pv' x = pv x" using pv' [of x] x r by auto
    show "nx' x = (if last_or None as = Some x then Some r else nx x)"
      using nx' [of x] x r by auto
  qed (use d in simp)
  moreover have "dll pv' nx' (Some r) bs None"
  proof (rule dll_relink_hd [OF b])
    fix x assume x: "x \<in> set bs"
    then have "last_or None as \<noteq> Some x" using d by (auto dest: last_or_eq_Some)
    then show "nx' x = nx x" using nx' [of x] x r by auto
    show "pv' x = (if hd_or None bs = Some x then Some r else pv x)"
      using pv' [of x] x r by auto
  qed (use d in simp)
  ultimately show ?thesis using nx' [of r] pv' [of r] by simp
qed

lemma dll_delete:
  assumes ch: "dll pv nx None (as @ r # bs) None" and d: "distinct (as @ r # bs)"
    and nx': "\<And>x. x \<in> set (as @ bs) \<Longrightarrow> nx' x = (if last_or None as = Some x then hd_or None bs else nx x)"
    and pv': "\<And>x. x \<in> set (as @ bs) \<Longrightarrow> pv' x = (if hd_or None bs = Some x then last_or None as else pv x)"
  shows "dll pv' nx' None (as @ bs) None"
proof -
  have a: "dll pv nx None as (Some r)" and b: "dll pv nx (Some r) bs None" using ch by simp_all
  have "dll pv' nx' None as (hd_or None bs)"
  proof (rule dll_relink_last [OF a])
    fix x assume x: "x \<in> set as"
    then have "hd_or None bs \<noteq> Some x" using d by (auto dest: hd_or_eq_Some)
    then show "pv' x = pv x" using pv' [of x] x by auto
    show "nx' x = (if last_or None as = Some x then hd_or None bs else nx x)"
      using nx' [of x] x by auto
  qed (use d in simp)
  moreover have "dll pv' nx' (last_or None as) bs None"
  proof (rule dll_relink_hd [OF b])
    fix x assume x: "x \<in> set bs"
    then have "last_or None as \<noteq> Some x" using d by (auto dest: last_or_eq_Some)
    then show "nx' x = nx x" using nx' [of x] x by auto
    show "pv' x = (if hd_or None bs = Some x then last_or None as else pv x)"
      using pv' [of x] x by auto
  qed (use d in simp)
  ultimately show ?thesis by simp
qed

lemma dll_replace:
  assumes ch: "dll pv nx None (as @ n # bs) None" and d: "distinct (as @ n # bs)"
    and r: "r \<notin> set (as @ bs)"
    and nx': "\<And>x. x \<in> insert r (set (as @ bs)) \<Longrightarrow> nx' x = (if x = r then hd_or None bs else
        if last_or None as = Some x then Some r else nx x)"
    and pv': "\<And>x. x \<in> insert r (set (as @ bs)) \<Longrightarrow> pv' x = (if x = r then last_or None as else
        if hd_or None bs = Some x then Some r else pv x)"
  shows "dll pv' nx' None (as @ r # bs) None"
proof -
  define nx1 where "nx1 = (\<lambda>x. if last_or None as = Some x then hd_or None bs else nx x)"
  define pv1 where "pv1 = (\<lambda>x. if hd_or None bs = Some x then last_or None as else pv x)"
  have "dll pv1 nx1 None (as @ bs) None"
    by (rule dll_delete [OF ch d]) (simp_all add: nx1_def pv1_def)
  then show ?thesis
    by (rule dll_insert) (use d r nx' pv' in \<open>auto simp: nx1_def pv1_def\<close>)
qed

lemma filter_split_Cons: "filter P xs = ys @ z # zs \<Longrightarrow>
  \<exists>us vs. xs = us @ z # vs \<and> P z \<and> filter P us = ys \<and> filter P vs = zs"
proof (induction xs arbitrary: ys)
  case (Cons x xs)
  show ?case
  proof (cases "P x")
    case True
    show ?thesis
    proof (cases ys)
      case Nil
      with Cons.prems True show ?thesis by (auto intro: exI [of _ "[]"])
    next
      case (Cons y ys')
      with Cons.prems True Cons.IH [of ys'] obtain us vs where
        "xs = us @ z # vs" "P z" "filter P us = ys'" "filter P vs = zs" by auto
      with True Cons Cons.prems show ?thesis
        by (intro exI [of _ "x # us"] exI [of _ vs]) auto
    qed
  next
    case False
    with Cons.prems Cons.IH [of ys] obtain us vs where
      "xs = us @ z # vs" "P z" "filter P us = ys" "filter P vs = zs" by auto
    with False show ?thesis by (intro exI [of _ "x # us"] exI [of _ vs]) auto
  qed
qed simp

lemma filter_mem_self: "ys = filter P xs \<Longrightarrow> filter (\<lambda>x. x \<in> set ys) xs = ys"
  by (auto intro: filter_cong)

lemma length_distinct_bounded:
  assumes "distinct xs" and "\<And>x. x \<in> set xs \<Longrightarrow> x < (n::nat)"
  shows "length xs \<le> n"
proof -
  have "card (set xs) \<le> card {..<n}" using assms(2) by (intro card_mono) auto
  then show ?thesis using assms(1) by (simp add: distinct_card)
qed

end
