(* ===== verification/Memory_Blocks.thy ===== *)
theory Memory_Blocks
  imports Metal_Prelude
begin

text \<open>
  The abstract memory an allocation algorithm manages: a list of blocks (address, size, is it free)
  that tile an address range from its base without gaps or overlap.  \<open>carve\<close> is what an allocation
  does to it and \<open>coalesce\<close> after \<open>mark_free\<close> what a deallocation does.  The lemmas say which
  regions are allocated after each, and that both keep the tiling, the coalescing and the alignment
  of the blocks.  The free list (\<^verbatim>\<open>Free_List\<close>) is shown to refine this specification.
\<close>

type_synonym ablock = "nat \<times> nat \<times> bool"

abbreviation is_free :: "ablock \<Rightarrow> bool" where
  "is_free x \<equiv> snd (snd x)"

fun carve :: "nat \<Rightarrow> nat \<Rightarrow> nat \<Rightarrow> ablock list \<Rightarrow> ablock list" where
  "carve a off sz [] = []"
| "carve a off sz ((b, s, f) # bs) =
     (if b = a
      then (if 0 < off then [(b, off, True)] else []) @ [(b + off, sz, False)] @
           (if off + sz < s then [(b + off + sz, s - off - sz, True)] else []) @ bs
      else (b, s, f) # carve a off sz bs)"

fun mark_free :: "nat \<Rightarrow> ablock list \<Rightarrow> ablock list" where
  "mark_free a [] = []"
| "mark_free a ((b, s, f) # bs) = (if b = a then (b, s, True) # bs else (b, s, f) # mark_free a bs)"

fun coalesce :: "ablock list \<Rightarrow> ablock list" where
  "coalesce [] = []"
| "coalesce [x] = [x]"
| "coalesce ((a, s, f) # (b, t, g) # bs) =
     (if f \<and> g then coalesce ((a, s + t, True) # bs) else (a, s, f) # coalesce ((b, t, g) # bs))"

fun atiles :: "nat \<Rightarrow> ablock list \<Rightarrow> nat \<Rightarrow> bool" where
  "atiles a [] e \<longleftrightarrow> a = e"
| "atiles a ((b, s, f) # bs) e \<longleftrightarrow> b = a \<and> 0 < s \<and> atiles (a + s) bs e"

definition no_adjacent_free :: "ablock list \<Rightarrow> bool" where
  "no_adjacent_free bs \<longleftrightarrow> successively (\<lambda>x y. \<not> (is_free x \<and> is_free y)) bs"

definition aligned_blocks :: "nat \<Rightarrow> ablock list \<Rightarrow> bool" where
  "aligned_blocks al bs \<longleftrightarrow> list_all (\<lambda>(a, s, f). al dvd a \<and> al dvd s) bs"

definition allocated :: "ablock list \<Rightarrow> (nat \<times> nat) set" where
  "allocated bs = (\<lambda>(a, s, f). (a, s)) ` set (filter (\<lambda>x. \<not> is_free x) bs)"

subsection \<open>Tilings\<close>

lemma atiles_append: "atiles a (xs @ ys) e \<longleftrightarrow> (\<exists>m. atiles a xs m \<and> atiles m ys e)"
  by (induction xs arbitrary: a) auto

lemma atiles_le: "atiles a bs e \<Longrightarrow> a \<le> e"
  by (induction a bs e rule: atiles.induct) auto

lemma atiles_bounds: "atiles a bs e \<Longrightarrow> (b, s, f) \<in> set bs \<Longrightarrow> a \<le> b \<and> b + s \<le> e \<and> 0 < s"
proof (induction a bs e rule: atiles.induct)
  case (2 a c t g bs e)
  then have "a + t \<le> e" by (auto dest: atiles_le)
  with 2 show ?case by auto
qed simp

lemma atiles_disjoint:
  "atiles a bs e \<Longrightarrow> (b, s, f) \<in> set bs \<Longrightarrow> (c, t, g) \<in> set bs \<Longrightarrow>
   (b, s, f) = (c, t, g) \<or> b + s \<le> c \<or> c + t \<le> b"
proof (induction a bs e rule: atiles.induct)
  case (2 a d u h bs e)
  then show ?case by (auto dest: atiles_bounds)
qed simp

lemma atiles_unique:
  "atiles a bs e \<Longrightarrow> (b, s, f) \<in> set bs \<Longrightarrow> (b, t, g) \<in> set bs \<Longrightarrow> s = t \<and> f = g"
  using atiles_disjoint [of a bs e b s f b t g] atiles_bounds [of a bs e b s f]
    atiles_bounds [of a bs e b t g] by auto

lemma atiles_before:
  assumes "atiles a (xs @ (b, s, f) # ys) e" and "x \<in> set xs"
  shows "fst x \<noteq> b"
  using assms by (cases x) (auto simp: atiles_append dest: atiles_bounds)

lemma carve_at:
  "(\<And>x. x \<in> set xs \<Longrightarrow> fst x \<noteq> a) \<Longrightarrow>
   carve a off sz (xs @ (a, s, f) # ys) =
     xs @ (if 0 < off then [(a, off, True)] else []) @ [(a + off, sz, False)] @
     (if off + sz < s then [(a + off + sz, s - off - sz, True)] else []) @ ys"
proof (induction xs)
  case (Cons x xs)
  then obtain b t g where x: "x = (b, t, g)" and "b \<noteq> a" by (cases x) fastforce
  with Cons show ?case by simp
qed simp

lemma mark_free_at:
  "(\<And>x. x \<in> set xs \<Longrightarrow> fst x \<noteq> a) \<Longrightarrow>
   mark_free a (xs @ (a, s, f) # ys) = xs @ (a, s, True) # ys"
proof (induction xs)
  case (Cons x xs)
  then obtain b t g where x: "x = (b, t, g)" and "b \<noteq> a" by (cases x) fastforce
  with Cons show ?case by simp
qed simp

subsection \<open>Allocated regions\<close>

lemma allocated_append [simp]: "allocated (xs @ ys) = allocated xs \<union> allocated ys"
  by (simp add: allocated_def image_Un)

lemma allocated_Cons [simp]:
  "allocated ((a, s, f) # bs) = (if f then {} else {(a, s)}) \<union> allocated bs"
  by (auto simp: allocated_def)

lemma allocated_Nil [simp]: "allocated [] = {}"
  by (simp add: allocated_def)

lemma in_allocated: "(a, s) \<in> allocated bs \<longleftrightarrow> (a, s, False) \<in> set bs"
  by (force simp: allocated_def)

lemma allocated_carve:
  assumes "atiles b bs e" and "(a, s, True) \<in> set bs"
  shows "allocated (carve a off sz bs) = insert (a + off, sz) (allocated bs)"
proof -
  obtain xs ys where bs: "bs = xs @ (a, s, True) # ys" using assms(2) by (auto dest: split_list)
  have "carve a off sz bs = xs @ (if 0 < off then [(a, off, True)] else []) @ [(a + off, sz, False)] @
     (if off + sz < s then [(a + off + sz, s - off - sz, True)] else []) @ ys"
    unfolding bs by (rule carve_at) (use assms(1) bs in \<open>auto dest: atiles_before\<close>)
  then show ?thesis by (auto simp: bs)
qed

lemma allocated_mark_free:
  assumes "atiles b bs e" and "(a, s, False) \<in> set bs"
  shows "allocated (mark_free a bs) = allocated bs - {(a, s)}"
proof -
  obtain xs ys where bs: "bs = xs @ (a, s, False) # ys" using assms(2) by (auto dest: split_list)
  have "mark_free a bs = xs @ (a, s, True) # ys"
    unfolding bs by (rule mark_free_at) (use assms(1) bs in \<open>auto dest: atiles_before\<close>)
  moreover have "(a, s) \<notin> allocated xs" "(a, s) \<notin> allocated ys"
    using assms(1) by (auto simp: bs in_allocated atiles_append dest: atiles_bounds)
  ultimately show ?thesis by (auto simp: bs)
qed

lemma allocated_coalesce [simp]: "allocated (coalesce bs) = allocated bs"
  by (induction bs rule: coalesce.induct) auto

subsection \<open>Coalescing\<close>

lemma no_adjacent_free_append:
  "no_adjacent_free (xs @ ys) \<longleftrightarrow> no_adjacent_free xs \<and> no_adjacent_free ys \<and>
     (xs = [] \<or> ys = [] \<or> \<not> (is_free (last xs) \<and> is_free (hd ys)))"
  by (auto simp: no_adjacent_free_def successively_append_iff)

lemma no_adjacent_free_Cons:
  "no_adjacent_free (x # ys) \<longleftrightarrow>
     no_adjacent_free ys \<and> (ys = [] \<or> \<not> (is_free x \<and> is_free (hd ys)))"
  by (auto simp: no_adjacent_free_def successively_Cons)

lemma coalesce_id: "no_adjacent_free bs \<Longrightarrow> coalesce bs = bs"
  by (induction bs rule: coalesce.induct) (auto simp: no_adjacent_free_def)

lemma coalesce_prefix:
  "no_adjacent_free xs \<Longrightarrow> xs = [] \<or> \<not> is_free (last xs) \<Longrightarrow> coalesce (xs @ zs) = xs @ coalesce zs"
proof (induction xs rule: coalesce.induct)
  case (2 x)
  then show ?case by (cases x; cases zs) auto
next
  case (3 a s f b t g bs)
  then show ?case by (auto simp: no_adjacent_free_def)
qed simp

lemma coalesce_free_Cons:
  assumes "no_adjacent_free ys"
  shows "coalesce ((a, s, True) # ys) =
     (case ys of (b, t, True) # zs \<Rightarrow> (a, s + t, True) # zs | _ \<Rightarrow> (a, s, True) # ys)"
proof (cases ys)
  case (Cons y zs)
  obtain b t g where y: "y = (b, t, g)" by (cases y)
  show ?thesis
  proof (cases g)
    case True
    with assms have "no_adjacent_free ((a, s + t, True) # zs)"
      by (auto simp: Cons y no_adjacent_free_Cons)
    with True show ?thesis by (simp add: Cons y coalesce_id)
  next
    case False
    with assms show ?thesis by (simp add: Cons y coalesce_id)
  qed
qed simp

lemma no_adjacent_free_coalesce: "no_adjacent_free (coalesce bs)"
proof (induction bs rule: coalesce.induct)
  case (3 a s f b t g bs)
  have "is_free (hd (coalesce ((b, t, g) # bs))) = g" "coalesce ((b, t, g) # bs) \<noteq> []"
    by (induction bs arbitrary: b t g) (auto split: if_splits)
  with 3 show ?case by (auto simp: no_adjacent_free_Cons)
qed (auto simp: no_adjacent_free_def)

lemma atiles_mark_free: "atiles b (mark_free a bs) e \<longleftrightarrow> atiles b bs e"
  by (induction a bs arbitrary: b rule: mark_free.induct) auto

lemma atiles_coalesce: "atiles a bs e \<Longrightarrow> atiles a (coalesce bs) e"
proof (induction bs arbitrary: a rule: coalesce.induct)
  case (3 b s f c t g bs)
  then show ?case by (auto simp: add.assoc)
qed auto

subsection \<open>Alignment\<close>

lemma aligned_blocks_append [simp]:
  "aligned_blocks al (xs @ ys) \<longleftrightarrow> aligned_blocks al xs \<and> aligned_blocks al ys"
  by (simp add: aligned_blocks_def)

lemma aligned_blocks_Cons [simp]:
  "aligned_blocks al ((a, s, f) # ys) \<longleftrightarrow> al dvd a \<and> al dvd s \<and> aligned_blocks al ys"
  by (simp add: aligned_blocks_def)

lemma aligned_blocks_Nil [simp]: "aligned_blocks al []"
  by (simp add: aligned_blocks_def)

lemma aligned_carve:
  "aligned_blocks al bs \<Longrightarrow> al dvd off \<Longrightarrow> al dvd sz \<Longrightarrow> aligned_blocks al (carve a off sz bs)"
  by (induction a off sz bs rule: carve.induct) auto

lemma aligned_mark_free: "aligned_blocks al bs \<Longrightarrow> aligned_blocks al (mark_free a bs)"
  by (induction a bs rule: mark_free.induct) auto

lemma aligned_coalesce: "aligned_blocks al bs \<Longrightarrow> aligned_blocks al (coalesce bs)"
  by (induction bs rule: coalesce.induct) auto

text \<open>Carving a region out and freeing it again gives back the memory.\<close>

lemma coalesce_mark_free_carve:
  assumes t: "atiles b bs e" and n: "no_adjacent_free bs" and m: "(a, s, True) \<in> set bs"
    and sz: "0 < sz" "off + sz \<le> s"
  shows "coalesce (mark_free (a + off) (carve a off sz bs)) = bs"
proof -
  obtain xs ys where bs: "bs = xs @ (a, s, True) # ys" using m by (auto dest: split_list)
  have x: "fst x < a" if "x \<in> set xs" for x
  proof -
    obtain m where "atiles b xs m" "m = a" using t by (auto simp: bs atiles_append)
    moreover obtain c u g where "x = (c, u, g)" by (cases x)
    ultimately show ?thesis using that atiles_bounds [of b xs a c u g] by auto
  qed
  define l where "l = (if 0 < off then [(a, off, True)] else [])"
  define r where "r = (if off + sz < s then [(a + off + sz, s - off - sz, True)] else [])"
  have c: "carve a off sz bs = (xs @ l) @ (a + off, sz, False) # r @ ys"
    unfolding bs l_def r_def by (subst carve_at) (auto dest: x)
  have f: "mark_free (a + off) (carve a off sz bs) = xs @ l @ (a + off, sz, True) # r @ ys"
    unfolding c by (subst mark_free_at) (auto simp: l_def dest: x split: if_splits)
  have px: "no_adjacent_free xs" "xs = [] \<or> \<not> is_free (last xs)"
    and py: "no_adjacent_free ((a, s, True) # ys)"
    using n by (auto simp: bs no_adjacent_free_append no_adjacent_free_Cons)
  have "coalesce (l @ (a + off, sz, True) # r @ ys) = coalesce ((a, s, True) # ys)"
    using sz by (cases "0 < off"; cases "off + sz < s") (simp_all add: l_def r_def)
  then show ?thesis
    unfolding f using coalesce_prefix [OF px] coalesce_id [OF py] by (simp only: bs)
qed

text \<open>Freeing a block, by whether the block before it is free.\<close>

lemma free_after_allocated:
  assumes n: "no_adjacent_free (xs @ (a, s, False) # ys)" and x: "\<And>x. x \<in> set xs \<Longrightarrow> fst x \<noteq> a"
    and l: "xs = [] \<or> \<not> is_free (last xs)"
  shows "coalesce (mark_free a (xs @ (a, s, False) # ys)) =
     xs @ (case ys of (b, t, True) # zs \<Rightarrow> (a, s + t, True) # zs | _ \<Rightarrow> (a, s, True) # ys)"
proof -
  have "no_adjacent_free xs" "no_adjacent_free ys"
    using n by (auto simp: no_adjacent_free_append no_adjacent_free_Cons)
  moreover have "mark_free a (xs @ (a, s, False) # ys) = xs @ (a, s, True) # ys"
    by (rule mark_free_at [OF x])
  ultimately show ?thesis using l by (simp only: coalesce_prefix coalesce_free_Cons)
qed

lemma free_after_free:
  assumes n: "no_adjacent_free (xs @ (p, q, True) # (a, s, False) # ys)"
    and x: "\<And>x. x \<in> set xs \<Longrightarrow> fst x \<noteq> a" "p \<noteq> a"
  shows "coalesce (mark_free a (xs @ (p, q, True) # (a, s, False) # ys)) =
     xs @ (case ys of (b, t, True) # zs \<Rightarrow> (p, q + s + t, True) # zs | _ \<Rightarrow> (p, q + s, True) # ys)"
proof -
  have "no_adjacent_free xs" "no_adjacent_free ys" "xs = [] \<or> \<not> is_free (last xs)"
    using n by (auto simp: no_adjacent_free_append no_adjacent_free_Cons)
  moreover have "mark_free a (xs @ (p, q, True) # (a, s, False) # ys) =
      xs @ (p, q, True) # (a, s, True) # ys"
  proof -
    have "fst y \<noteq> a" if "y \<in> set (xs @ [(p, q, True)])" for y
      using that x(1) [of y] x(2) by auto
    then have "mark_free a ((xs @ [(p, q, True)]) @ (a, s, False) # ys) =
        (xs @ [(p, q, True)]) @ (a, s, True) # ys"
      by (rule mark_free_at)
    then show ?thesis by simp
  qed
  ultimately show ?thesis using coalesce_prefix [of xs "(p, q, True) # (a, s, True) # ys"]
    by (simp only: coalesce.simps simp_thms if_True coalesce_free_Cons)
qed

end
