(* ===== verification/Free_List_Inv.thy ===== *)
theory Free_List_Inv
  imports Free_List Linked_Chain Memory_Blocks
begin

text \<open>
  The representation invariant of the free list and the abstract memory it stands for.

  \<open>refs\<close> and \<open>free_refs\<close> walk the two chains; \<open>rep fl rs fs\<close> says that the chains are \<open>rs\<close> and
  \<open>fs\<close>, that they are well linked, that the blocks tile the address range without gaps, that the
  free chain lists exactly the free blocks in order and that no two free blocks are adjacent.
  \<open>blocks\<close> is the abstraction function to the memory of \<^verbatim>\<open>Memory_Blocks\<close>, \<open>regions\<close> the allocated
  regions with their absolute addresses.
\<close>

subsection \<open>Walking a chain\<close>

fun walk :: "nat \<Rightarrow> (nat \<Rightarrow> nat option) \<Rightarrow> nat option \<Rightarrow> nat list" where
  "walk n nx None = []"
| "walk 0 nx (Some r) = []"
| "walk (Suc n) nx (Some r) = r # walk n nx (nx r)"

lemma walk_dll:
  "dll pv nx p xs None \<Longrightarrow> length xs \<le> n \<Longrightarrow> walk n nx (hd_or None xs) = xs"
proof (induction xs arbitrary: n p)
  case (Cons x xs)
  then obtain m where "n = Suc m" by (cases n) auto
  with Cons show ?case by auto
qed simp

definition refs :: "FreeList \<Rightarrow> nat list" where
  "refs fl = walk (fresh fl) (\<lambda>r. next_block (heap fl r)) (block_head fl)"

definition free_refs :: "FreeList \<Rightarrow> nat list" where
  "free_refs fl = walk (fresh fl) (\<lambda>r. next_free (heap fl r)) (free_block_head fl)"

subsection \<open>The invariant\<close>

text \<open>The invariant says nothing of \<^verbatim>\<open>block_tail_\<close>: \<^verbatim>\<open>deallocate\<close> does not keep it when the last
  block merges into the one before it, and no operation reads it but to update it.\<close>

fun tiles :: "(nat \<Rightarrow> Block) \<Rightarrow> nat \<Rightarrow> nat list \<Rightarrow> nat \<Rightarrow> bool" where
  "tiles h a [] e \<longleftrightarrow> a = e"
| "tiles h a (r # rs) e \<longleftrightarrow>
     address (h r) = a \<and> 0 < bsize (h r) \<and> tiles h (a + bsize (h r)) rs e"

definition block_chain :: "FreeList \<Rightarrow> nat list \<Rightarrow> bool" where
  "block_chain fl rs \<longleftrightarrow>
     rs \<noteq> [] \<and> distinct rs \<and> (\<forall>r\<in>set rs. r < fresh fl) \<and>
     dll (\<lambda>r. prev_block (heap fl r)) (\<lambda>r. next_block (heap fl r)) None rs None \<and>
     block_head fl = hd_or None rs"

definition free_chain :: "FreeList \<Rightarrow> nat list \<Rightarrow> nat list \<Rightarrow> bool" where
  "free_chain fl rs fs \<longleftrightarrow>
     fs = filter (\<lambda>r. r \<in> set fs) rs \<and>
     dll (\<lambda>r. prev_free (heap fl r)) (\<lambda>r. next_free (heap fl r)) None fs None \<and>
     free_block_head fl = hd_or None fs \<and> free_block_tail fl = last_or None fs \<and>
     (\<forall>r\<in>set rs. r \<notin> set fs \<longrightarrow> prev_free (heap fl r) = None \<and> next_free (heap fl r) = None)"

definition coalesced :: "nat list \<Rightarrow> nat list \<Rightarrow> bool" where
  "coalesced rs fs \<longleftrightarrow> successively (\<lambda>a b. \<not> (a \<in> set fs \<and> b \<in> set fs)) rs"

definition config_ok :: "FreeList \<Rightarrow> bool" where
  "config_ok fl \<longleftrightarrow>
     0 < alignment fl \<and> alignment fl dvd offset_bytes fl \<and>
     0 < max_size_bytes fl \<and> offset_bytes fl + max_size_bytes fl < 2 ^ 64 \<and>
     0 < min_allocation_size fl \<and> min_allocation_size fl + alignment fl \<le> 2 ^ 64"

definition rep :: "FreeList \<Rightarrow> nat list \<Rightarrow> nat list \<Rightarrow> bool" where
  "rep fl rs fs \<longleftrightarrow>
     config_ok fl \<and> block_chain fl rs \<and> free_chain fl rs fs \<and>
     tiles (heap fl) 0 rs (max_size_bytes fl) \<and> coalesced rs fs"

definition fl_inv :: "FreeList \<Rightarrow> bool" where
  "fl_inv fl \<longleftrightarrow> rep fl (refs fl) (free_refs fl)"

subsection \<open>The abstract memory\<close>

definition blocks_of :: "(nat \<Rightarrow> Block) \<Rightarrow> nat list \<Rightarrow> nat list \<Rightarrow> ablock list" where
  "blocks_of h rs fs = map (\<lambda>r. (address (h r), bsize (h r), r \<in> set fs)) rs"

definition blocks :: "FreeList \<Rightarrow> ablock list" where
  "blocks fl = blocks_of (heap fl) (refs fl) (free_refs fl)"

text \<open>The allocated regions, absolute, and the cached lowest occupied address, which is relative.\<close>

definition regions :: "FreeList \<Rightarrow> (nat \<times> nat) set" where
  "regions fl = (\<lambda>(a, s). (a + offset_bytes fl, s)) ` allocated (blocks fl)"

definition lowest_ok :: "FreeList \<Rightarrow> bool" where
  "lowest_ok fl \<longleftrightarrow>
     (case lowest_occupied fl of
        None \<Rightarrow> allocated (blocks fl) = {}
      | Some l \<Rightarrow> l \<in> fst ` allocated (blocks fl) \<and> (\<forall>a\<in>fst ` allocated (blocks fl). l \<le> a))"

subsection \<open>Consequences of the invariant\<close>

lemma upd_block_sel [simp]:
  "heap (upd_block r f fl) = (heap fl)(r := f (heap fl r))"
  "fresh (upd_block r f fl) = fresh fl"
  "search_policy (upd_block r f fl) = search_policy fl"
  "block_head (upd_block r f fl) = block_head fl"
  "block_tail (upd_block r f fl) = block_tail fl"
  "free_block_head (upd_block r f fl) = free_block_head fl"
  "free_block_tail (upd_block r f fl) = free_block_tail fl"
  "max_size_bytes (upd_block r f fl) = max_size_bytes fl"
  "offset_bytes (upd_block r f fl) = offset_bytes fl"
  "min_allocation_size (upd_block r f fl) = min_allocation_size fl"
  "alignment (upd_block r f fl) = alignment fl"
  "lowest_occupied (upd_block r f fl) = lowest_occupied fl"
  by (simp_all add: upd_block_def)

lemma rep_length: "block_chain fl rs \<Longrightarrow> length rs \<le> fresh fl"
  by (auto simp: block_chain_def intro: length_distinct_bounded)

lemma free_chain_subset: "free_chain fl rs fs \<Longrightarrow> set fs \<subseteq> set rs"
  by (metis free_chain_def filter_is_subset)

lemma free_chain_length: "free_chain fl rs fs \<Longrightarrow> length fs \<le> length rs"
  by (metis free_chain_def length_filter_le)

lemma free_chain_distinct: "block_chain fl rs \<Longrightarrow> free_chain fl rs fs \<Longrightarrow> distinct fs"
  by (metis block_chain_def free_chain_def distinct_filter)

lemma rep_refs:
  assumes "rep fl rs fs"
  shows "refs fl = rs" and "free_refs fl = fs"
proof -
  have b: "block_chain fl rs" and f: "free_chain fl rs fs" using assms by (auto simp: rep_def)
  show "refs fl = rs"
    using b rep_length [OF b] by (auto simp: refs_def block_chain_def intro: walk_dll)
  show "free_refs fl = fs"
    using f free_chain_length [OF f] rep_length [OF b]
    by (auto simp: free_refs_def free_chain_def intro: walk_dll)
qed

lemma rep_inv: "rep fl rs fs \<Longrightarrow> fl_inv fl"
  using rep_refs by (simp add: fl_inv_def)

lemma inv_rep: "fl_inv fl \<Longrightarrow> rep fl (refs fl) (free_refs fl)"
  by (simp add: fl_inv_def)

lemma rep_blocks: "rep fl rs fs \<Longrightarrow> blocks fl = blocks_of (heap fl) rs fs"
  using rep_refs by (simp add: blocks_def)

lemma is_allocated_iff:
  assumes "free_chain fl rs fs" and "r \<in> set rs"
  shows "is_allocated fl r \<longleftrightarrow> r \<notin> set fs"
proof
  assume a: "is_allocated fl r"
  show "r \<notin> set fs"
  proof
    assume "r \<in> set fs"
    moreover have "dll (\<lambda>r. prev_free (heap fl r)) (\<lambda>r. next_free (heap fl r)) None fs None"
      using assms by (simp add: free_chain_def)
    moreover have "prev_free (heap fl r) = None" using a by (simp add: is_allocated_def)
    ultimately have "hd_or None fs = Some r" by (auto dest: dll_prev_None)
    with a assms show False by (auto simp: is_allocated_def free_chain_def)
  qed
next
  assume "r \<notin> set fs"
  with assms show "is_allocated fl r"
    by (auto simp: is_allocated_def free_chain_def dest: hd_or_eq_Some [OF sym] last_or_eq_Some [OF sym])
qed

lemma tiles_append:
  "tiles h a (xs @ ys) e \<longleftrightarrow>
     (\<exists>m. tiles h a xs m \<and> tiles h m ys e)"
  by (induction xs arbitrary: a) auto

lemma tiles_cong:
  "tiles h a xs e \<Longrightarrow> (\<And>x. x \<in> set xs \<Longrightarrow> address (h' x) = address (h x) \<and> bsize (h' x) = bsize (h x)) \<Longrightarrow>
   tiles h' a xs e"
  by (induction xs arbitrary: a) auto

lemma tiles_le: "tiles h a xs e \<Longrightarrow> a \<le> e"
  by (induction xs arbitrary: a) fastforce+

lemma tiles_bounds:
  "tiles h a xs e \<Longrightarrow> x \<in> set xs \<Longrightarrow> a \<le> address (h x) \<and> address (h x) + bsize (h x) \<le> e \<and> 0 < bsize (h x)"
proof (induction xs arbitrary: a)
  case (Cons y ys)
  from Cons.prems tiles_le have "a + bsize (h y) \<le> e" by auto
  with Cons show ?case by fastforce
qed simp

lemma tiles_address_inj:
  "tiles h a xs e \<Longrightarrow> x \<in> set xs \<Longrightarrow> y \<in> set xs \<Longrightarrow> address (h x) = address (h y) \<Longrightarrow> x = y"
proof (induction xs arbitrary: a)
  case (Cons z zs)
  have z: "a + bsize (h z) \<le> address (h w)" if "w \<in> set zs" for w
    using Cons.prems(1) that tiles_bounds by fastforce
  have "address (h z) = a" "0 < bsize (h z)" using Cons.prems(1) by auto
  with Cons z show ?case by fastforce
qed simp

lemma coalesced_append:
  "coalesced (xs @ ys) fs \<longleftrightarrow> coalesced xs fs \<and> coalesced ys fs \<and>
     (xs = [] \<or> ys = [] \<or> \<not> (last xs \<in> set fs \<and> hd ys \<in> set fs))"
  by (auto simp: coalesced_def successively_append_iff)

lemma coalesced_Cons:
  "coalesced (x # ys) fs \<longleftrightarrow> coalesced ys fs \<and> (ys = [] \<or> \<not> (x \<in> set fs \<and> hd ys \<in> set fs))"
  by (auto simp: coalesced_def successively_Cons)

lemma coalesced_cong:
  "coalesced xs fs \<Longrightarrow> (\<And>x. x \<in> set xs \<Longrightarrow> x \<in> set gs \<longleftrightarrow> x \<in> set fs) \<Longrightarrow> coalesced xs gs"
  unfolding coalesced_def by (erule successively_mono) auto

end
