(* ===== verification/Free_List_Fields.thy ===== *)
theory Free_List_Fields
  imports Free_List_Inv
begin

text \<open>
  What the pointer operations of an allocation do to the store, field by field: for every operation
  a lemma lists the fields of every block and of the list after it.
\<close>

subsection \<open>Fields after each operation\<close>

lemma config_ok_cong:
  "config_ok fl \<Longrightarrow> alignment fl' = alignment fl \<Longrightarrow> offset_bytes fl' = offset_bytes fl \<Longrightarrow>
   max_size_bytes fl' = max_size_bytes fl \<Longrightarrow> min_allocation_size fl' = min_allocation_size fl \<Longrightarrow>
   config_ok fl'"
  by (simp add: config_ok_def)

lemma left_fields:
  fixes g fb ab
  defines "g' \<equiv> update_left_aligned_allocated_block_connections fb ab g"
  assumes "ab \<noteq> fb" and "prev_block (heap g fb) \<noteq> Some ab" and "prev_block (heap g fb) \<noteq> Some fb"
  shows "next_block (heap g' x) = (if x = ab then Some fb else
           if prev_block (heap g fb) = Some x then Some ab else next_block (heap g x))"
    and "prev_block (heap g' x) = (if x = ab then prev_block (heap g fb) else
           if x = fb then Some ab else prev_block (heap g x))"
    and "next_free (heap g' x) = next_free (heap g x)"
    and "prev_free (heap g' x) = prev_free (heap g x)"
    and "address (heap g' x) =
           (if x = fb then add64 (address (heap g ab)) (bsize (heap g ab)) else address (heap g x))"
    and "bsize (heap g' x) =
           (if x = fb then sub64 (bsize (heap g fb)) (bsize (heap g ab)) else bsize (heap g x))"
    and "block_head g' = (if Some fb = block_head g then Some ab else block_head g)"
    and "block_tail g' = block_tail g"
    and "free_block_head g' = free_block_head g" and "free_block_tail g' = free_block_tail g"
    and "fresh g' = fresh g" and "search_policy g' = search_policy g"
    and "max_size_bytes g' = max_size_bytes g" and "offset_bytes g' = offset_bytes g"
    and "min_allocation_size g' = min_allocation_size g" and "alignment g' = alignment g"
    and "lowest_occupied g' = lowest_occupied g"
  using assms(2-)
  by (auto simp: g'_def update_left_aligned_allocated_block_connections_def Let_def on_ptr_def
      split: option.split)

lemma right_fields:
  fixes g fb ab
  defines "g' \<equiv> update_right_aligned_allocated_block_connections fb ab g"
  assumes "ab \<noteq> fb" and "next_block (heap g fb) \<noteq> Some ab" and "next_block (heap g fb) \<noteq> Some fb"
  shows "next_block (heap g' x) = (if x = ab then next_block (heap g fb) else
           if x = fb then Some ab else next_block (heap g x))"
    and "prev_block (heap g' x) = (if x = ab then Some fb else
           if next_block (heap g fb) = Some x then Some ab else prev_block (heap g x))"
    and "next_free (heap g' x) = next_free (heap g x)"
    and "prev_free (heap g' x) = prev_free (heap g x)"
    and "address (heap g' x) = address (heap g x)"
    and "bsize (heap g' x) =
           (if x = fb then sub64 (bsize (heap g fb)) (bsize (heap g ab)) else bsize (heap g x))"
    and "block_head g' = block_head g"
    and "block_tail g' = (if Some fb = block_tail g then Some ab else block_tail g)"
    and "free_block_head g' = free_block_head g" and "free_block_tail g' = free_block_tail g"
    and "fresh g' = fresh g" and "search_policy g' = search_policy g"
    and "max_size_bytes g' = max_size_bytes g" and "offset_bytes g' = offset_bytes g"
    and "min_allocation_size g' = min_allocation_size g" and "alignment g' = alignment g"
    and "lowest_occupied g' = lowest_occupied g"
  using assms(2-)
  by (auto simp: g'_def update_right_aligned_allocated_block_connections_def Let_def on_ptr_def
      split: option.split)

lemma relink_neighbours_fields:
  fixes g fb nfb
  defines "g' \<equiv> relink_neighbours fb nfb g"
  assumes "next_block (heap g fb) \<noteq> Some fb" and "next_free (heap g fb) \<noteq> Some fb"
  shows "heap g' x = (heap g x)
           \<lparr>prev_block := if next_block (heap g fb) = Some x then Some nfb else prev_block (heap g x),
            prev_free := if next_free (heap g fb) = Some x then Some nfb else prev_free (heap g x)\<rparr>"
    and "block_head g' = block_head g"
    and "block_tail g' = (if block_tail g = Some fb then Some nfb else block_tail g)"
    and "free_block_head g' = free_block_head g"
    and "free_block_tail g' = (if free_block_tail g = Some fb then Some nfb else free_block_tail g)"
    and "fresh g' = fresh g" and "search_policy g' = search_policy g"
    and "max_size_bytes g' = max_size_bytes g" and "offset_bytes g' = offset_bytes g"
    and "min_allocation_size g' = min_allocation_size g" and "alignment g' = alignment g"
    and "lowest_occupied g' = lowest_occupied g"
  using assms(2-) unfolding g'_def relink_neighbours_def Let_def on_ptr_def
  by (cases "next_block (heap g fb)"; cases "next_free (heap g fb)"; simp)+

lemma link_parts_fields:
  fixes g fb ab nfb
  defines "g' \<equiv> link_parts fb ab nfb g"
  assumes "ab \<noteq> fb" and "nfb \<noteq> fb" and "nfb \<noteq> ab"
  shows "heap g' x = (if x = ab then (heap g ab)\<lparr>prev_block := Some fb, next_block := Some nfb\<rparr>
      else if x = fb then (heap g fb)\<lparr>next_free := Some nfb, next_block := Some ab,
        bsize := sub64 (bsize (heap g fb)) (add64 (bsize (heap g ab)) (bsize (heap g nfb)))\<rparr>
      else heap g x)"
    and "block_head g' = block_head g" and "block_tail g' = block_tail g"
    and "free_block_head g' = free_block_head g" and "free_block_tail g' = free_block_tail g"
    and "fresh g' = fresh g" and "search_policy g' = search_policy g"
    and "max_size_bytes g' = max_size_bytes g" and "offset_bytes g' = offset_bytes g"
    and "min_allocation_size g' = min_allocation_size g" and "alignment g' = alignment g"
    and "lowest_occupied g' = lowest_occupied g"
  using assms(2-) unfolding g'_def link_parts_def Let_def by simp_all

lemma middle_fields:
  fixes g fb ab off sz
  defines "g' \<equiv> split_middle_of_free_block fb ab off sz g" and "nfb \<equiv> fresh g"
  assumes "ab \<noteq> fb" and "nfb \<noteq> fb" and "nfb \<noteq> ab"
    and "next_block (heap g fb) \<notin> {Some ab, Some fb, Some nfb}"
    and "next_free (heap g fb) \<notin> {Some ab, Some fb, Some nfb}"
  shows "next_block (heap g' x) = (if x = ab then Some nfb else if x = fb then Some ab else
           if x = nfb then next_block (heap g fb) else next_block (heap g x))"
    and "prev_block (heap g' x) = (if x = ab then Some fb else if x = nfb then Some ab else
           if next_block (heap g fb) = Some x then Some nfb else prev_block (heap g x))"
    and "next_free (heap g' x) = (if x = fb then Some nfb else
           if x = nfb then next_free (heap g fb) else next_free (heap g x))"
    and "prev_free (heap g' x) = (if x = nfb then Some fb else
           if next_free (heap g fb) = Some x then Some nfb else prev_free (heap g x))"
    and "address (heap g' x) =
           (if x = nfb then add64 (add64 (address (heap g fb)) off) sz else address (heap g x))"
    and "bsize (heap g' x) =
           (let ns = sub64 (add64 (address (heap g fb)) (bsize (heap g fb)))
                       (add64 (add64 (address (heap g fb)) off) sz)
            in if x = nfb then ns
               else if x = fb then sub64 (bsize (heap g fb)) (add64 (bsize (heap g ab)) ns)
               else bsize (heap g x))"
    and "block_head g' = block_head g"
    and "block_tail g' = (if block_tail g = Some fb then Some nfb else block_tail g)"
    and "free_block_head g' = free_block_head g"
    and "free_block_tail g' = (if free_block_tail g = Some fb then Some nfb else free_block_tail g)"
    and "fresh g' = Suc (fresh g)" and "search_policy g' = search_policy g"
    and "max_size_bytes g' = max_size_bytes g" and "offset_bytes g' = offset_bytes g"
    and "min_allocation_size g' = min_allocation_size g" and "alignment g' = alignment g"
    and "lowest_occupied g' = lowest_occupied g"
  using assms(3-)
  by (auto simp: g'_def nfb_def split_middle_of_free_block_def make_shared_Block_def Block6_def
      Let_def link_parts_fields relink_neighbours_fields)

lemma unlink_fields:
  fixes g fb
  defines "g' \<equiv> unlink_free_block fb g"
  assumes "prev_free (heap g fb) \<noteq> Some fb" and "next_free (heap g fb) \<noteq> Some fb"
  shows "next_block (heap g' x) = next_block (heap g x)"
    and "prev_block (heap g' x) = prev_block (heap g x)"
    and "address (heap g' x) = address (heap g x)" and "bsize (heap g' x) = bsize (heap g x)"
    and "next_free (heap g' x) = (if x = fb then None else
           if prev_free (heap g fb) = Some x then next_free (heap g fb) else next_free (heap g x))"
    and "prev_free (heap g' x) = (if x = fb then None else
           if next_free (heap g fb) = Some x then prev_free (heap g fb) else prev_free (heap g x))"
    and "block_head g' = block_head g" and "block_tail g' = block_tail g"
    and "free_block_head g' =
           (if Some fb = free_block_head g then next_free (heap g fb) else free_block_head g)"
    and "free_block_tail g' =
           (if Some fb = free_block_tail g then prev_free (heap g fb) else free_block_tail g)"
    and "fresh g' = fresh g" and "search_policy g' = search_policy g"
    and "max_size_bytes g' = max_size_bytes g" and "offset_bytes g' = offset_bytes g"
    and "min_allocation_size g' = min_allocation_size g" and "alignment g' = alignment g"
    and "lowest_occupied g' = lowest_occupied g"
  using assms(2-) unfolding g'_def unlink_free_block_def Let_def on_ptr_def
  by (cases "prev_free (heap g fb)"; cases "next_free (heap g fb)"; simp)+

end
