(* ===== verification/Free_List_Slice.thy ===== *)
theory Free_List_Slice
  imports Free_List_Alloc
begin

text \<open>
  The remaining way to carve, out of the middle of a free block, and the whole of
  \<^verbatim>\<open>allocate_slice_of_free_block\<close>: it never fails on a slice that fits, keeps the invariant, and on
  the abstract memory it is \<open>carve\<close>.
\<close>

subsection \<open>The middle of a free block\<close>

lemma dll_split_two:
  assumes ch: "dll pv nx None (as @ r # bs) None" and d: "distinct (as @ r # bs)"
    and same: "\<And>x. x \<in> set as \<Longrightarrow> pv' x = pv x \<and> nx' x = nx x"
    and links: "pv' r = pv r" "nx' r = Some s" "pv' s = Some r" "nx' s = Some t" "pv' t = Some s"
      "nx' t = nx r"
    and tl: "\<And>x. x \<in> set bs \<Longrightarrow> pv' x = (if hd_or None bs = Some x then Some t else pv x) \<and> nx' x = nx x"
  shows "dll pv' nx' None (as @ r # s # t # bs) None"
proof -
  have "dll pv' nx' None as (Some r)"
    by (rule dll_cong [of pv nx]) (use ch same in auto)
  moreover have "dll pv' nx' (Some t) bs None"
    by (rule dll_relink_hd [of pv nx "Some r"]) (use ch d tl in auto)
  ultimately show ?thesis using ch links by simp
qed

lemma rep_middle:
  assumes rep: "rep fl (as @ fb # bs) fs" and fb: "fb \<in> set fs"
    and sz: "0 < sz" "0 < off" "off + sz < bsize (heap fl fb)"
  defines "ab \<equiv> fresh fl" and "nfb \<equiv> Suc (fresh fl)"
  defines "g \<equiv> fl\<lparr>heap := (heap fl)(ab := Block2 (address (heap fl fb) + off) sz), fresh := Suc ab\<rparr>"
  defines "g' \<equiv> split_middle_of_free_block fb ab off sz g"
  defines "fs' \<equiv> filter (\<lambda>x. x \<in> set fs) as @ fb # nfb # filter (\<lambda>x. x \<in> set fs) bs"
  shows "rep g' (as @ fb # ab # nfb # bs) fs'"
    and "address (heap g' ab) = address (heap fl fb) + off" and "bsize (heap g' ab) = sz"
    and "address (heap g' fb) = address (heap fl fb)" and "bsize (heap g' fb) = off"
    and "address (heap g' nfb) = address (heap fl fb) + off + sz"
    and "bsize (heap g' nfb) = bsize (heap fl fb) - off - sz"
    and "\<And>x. x \<in> set (as @ bs) \<Longrightarrow> address (heap g' x) = address (heap fl x) \<and> bsize (heap g' x) = bsize (heap fl x)"
proof -
  let ?f1 = "filter (\<lambda>x. x \<in> set fs) as" and ?f2 = "filter (\<lambda>x. x \<in> set fs) bs"
  note bl = rep_block [OF rep] and fr = rep_free_block [OF rep fb]
  have fc: "free_chain fl (as @ fb # bs) fs" using rep by (simp add: rep_def)
  have ab: "ab \<notin> set (as @ fb # bs)" and nfb: "nfb \<notin> set (as @ fb # bs)" "nfb \<noteq> ab"
    using bl(4) by (fastforce simp: ab_def nfb_def)+
  have old: "heap g x = heap fl x" if "x \<in> set (as @ fb # bs)" for x
    using that ab by (auto simp: g_def)
  have bnd: "address (heap fl fb) + bsize (heap fl fb) < 2 ^ 64"
    using rep_bounds [OF rep, of fb] by simp
  have nfb_eq: "fresh g = nfb" by (simp add: g_def nfb_def ab_def)
  have ne: "ab \<noteq> fb" "fresh g \<noteq> fb" "fresh g \<noteq> ab"
    "next_block (heap g fb) \<notin> {Some ab, Some fb, Some (fresh g)}"
    "next_free (heap g fb) \<notin> {Some ab, Some fb, Some (fresh g)}"
    unfolding nfb_eq using ab nfb bl(2,3) fr(3,6,8) old [of fb] by (auto dest!: hd_or_eq_Some)
  note f = middle_fields [where off = off and sz = sz, OF ne, folded g'_def, unfolded nfb_eq]
  have fbn: "heap g fb = heap fl fb" "heap g ab = Block2 (address (heap fl fb) + off) sz"
    using old [of fb] by (simp_all add: g_def)
  have ar: "add64 (add64 (address (heap fl fb)) off) sz = address (heap fl fb) + off + sz"
    "add64 (address (heap fl fb)) (bsize (heap fl fb)) = address (heap fl fb) + bsize (heap fl fb)"
    using sz bnd by (simp_all add: nowrap)
  have ns: "sub64 (address (heap fl fb) + bsize (heap fl fb)) (address (heap fl fb) + off + sz) =
      bsize (heap fl fb) - off - sz"
    using sz bnd by (subst wsub_id) auto
  have fs: "sub64 (bsize (heap fl fb)) (add64 sz (bsize (heap fl fb) - off - sz)) = off"
    using sz bnd by (subst wadd_id, simp, subst wsub_id) auto
  show new: "address (heap g' ab) = address (heap fl fb) + off" "bsize (heap g' ab) = sz"
    using ne(1) nfb by (simp_all add: f fbn Block2_def)
  show nv: "address (heap g' nfb) = address (heap fl fb) + off + sz"
    "bsize (heap g' nfb) = bsize (heap fl fb) - off - sz"
    by (simp_all add: f fbn ar ns)
  show fbv: "address (heap g' fb) = address (heap fl fb)" "bsize (heap g' fb) = off"
    using ne(1) nfb by (auto simp: f fbn ar ns Block2_def fs [simplified])
  show rest: "address (heap g' x) = address (heap fl x) \<and> bsize (heap g' x) = bsize (heap fl x)"
    if "x \<in> set (as @ bs)" for x
    using that bl(3) ab nfb old [of x] by (auto simp: f Let_def)
  have "config_ok g'" using rep by (auto simp: rep_def f g_def intro: config_ok_cong)
  moreover have "block_chain g' (as @ fb # ab # nfb # bs)"
  proof -
    have "dll (\<lambda>r. prev_block (heap g' r)) (\<lambda>r. next_block (heap g' r)) None (as @ fb # ab # nfb # bs) None"
      by (rule dll_split_two [OF bl(6) bl(3)])
        (use ab nfb bl(2,3) in \<open>auto simp: f old fbn dest: hd_or_eq_Some\<close>)
    moreover have "block_head g' = hd_or None (as @ fb # ab # nfb # bs)"
      using bl(5) by (simp add: f g_def)
    moreover have "\<forall>r\<in>set (as @ fb # ab # nfb # bs). r < fresh g'"
      using bl(4) by (auto simp: f g_def ab_def nfb_def less_Suc_eq)
    ultimately show ?thesis using bl(3) ab nfb by (simp add: block_chain_def)
  qed
  moreover have "free_chain g' (as @ fb # ab # nfb # bs) fs'"
  proof (rule free_chainI)
    have "ab \<notin> set fs" using free_chain_subset [OF fc] ab by blast
    then show "fs' = filter (\<lambda>x. x \<in> set fs \<or> x = nfb) (as @ fb # ab # nfb # bs)"
      using fb nfb by (auto simp: fs'_def intro!: arg_cong2 [where f = append] filter_cong)
    have ch: "dll (\<lambda>r. prev_free (heap fl r)) (\<lambda>r. next_free (heap fl r)) None ((?f1 @ [fb]) @ ?f2) None"
      using free_chainD(1) [OF fc] fr(1) by simp
    have "dll (\<lambda>r. prev_free (heap g' r)) (\<lambda>r. next_free (heap g' r)) None ((?f1 @ [fb]) @ nfb # ?f2) None"
      by (rule dll_insert [OF ch]) (use fr(3,6) nfb ab bl(3) in \<open>auto simp: f old fbn dest: hd_or_eq_Some\<close>)
    then show "dll (\<lambda>r. prev_free (heap g' r)) (\<lambda>r. next_free (heap g' r)) None fs' None"
      by (simp add: fs'_def)
    show "free_block_head g' = hd_or None fs'" using fr(4) by (simp add: f g_def fs'_def)
    show "free_block_tail g' = last_or None fs'"
      using fr(5,6) by (cases ?f2 rule: rev_cases) (auto simp: f g_def fs'_def)
    show "prev_free (heap g' x) = None \<and> next_free (heap g' x) = None"
      if x: "x \<in> set (as @ fb # ab # nfb # bs)" "x \<notin> set fs'" for x
    proof (cases "x = ab")
      case True
      then show ?thesis using ne nfb by (auto simp: f fbn Block2_def)
    next
      case False
      then have "x \<in> set (as @ fb # bs)" "x \<notin> set fs" "x \<noteq> fb" "x \<noteq> nfb"
        "hd_or None ?f2 \<noteq> Some x"
        using x by (auto simp: fs'_def dest: hd_or_eq_Some)
      then show ?thesis using free_chainD(4) [OF fc, of x] old [of x] fr(3) by (simp add: f fbn)
    qed
  qed
  moreover have "tiles (heap g') 0 (as @ fb # ab # nfb # bs) (max_size_bytes g')"
  proof -
    from rep obtain m where m: "tiles (heap fl) 0 as m" "tiles (heap fl) m (fb # bs) (max_size_bytes fl)"
      by (auto simp: rep_def tiles_append simp del: tiles.simps)
    have "tiles (heap g') 0 as m" using m(1) by (rule tiles_cong) (use rest in auto)
    moreover have "tiles (heap g') (m + bsize (heap fl fb)) bs (max_size_bytes fl)"
      by (rule tiles_cong [of "heap fl"]) (use m(2) rest in auto)
    moreover have "max_size_bytes g' = max_size_bytes fl" by (simp add: f g_def)
    ultimately show ?thesis using m(2) new fbv nv sz by (auto simp: tiles_append)
  qed
  moreover have "coalesced (as @ fb # ab # nfb # bs) fs'"
  proof -
    have c: "coalesced as fs" "coalesced bs fs" "as = [] \<or> last as \<notin> set fs" "bs = [] \<or> hd bs \<notin> set fs"
      using rep fb by (auto simp: rep_def coalesced_append coalesced_Cons)
    have s: "x \<in> set fs' \<longleftrightarrow> x \<in> set fs" if "x \<in> set (as @ bs)" for x
      using that bl(3) nfb by (auto simp: fs'_def)
    have "coalesced as fs'" "coalesced bs fs'" using c s by (auto intro: coalesced_cong)
    moreover have "ab \<notin> set fs'" using ab nfb by (auto simp: fs'_def)
    moreover have "as = [] \<or> last as \<notin> set fs'" "bs = [] \<or> hd bs \<notin> set fs'"
      using c(3,4) s [of "last as"] s [of "hd bs"] by auto
    ultimately show ?thesis by (auto simp: coalesced_append coalesced_Cons)
  qed
  ultimately show "rep g' (as @ fb # ab # nfb # bs) fs'" by (simp add: rep_def)
qed

subsection \<open>The slice as a carving of the abstract memory\<close>

definition same_config :: "FreeList \<Rightarrow> FreeList \<Rightarrow> bool" where
  "same_config fl fl' \<longleftrightarrow>
     search_policy fl' = search_policy fl \<and> max_size_bytes fl' = max_size_bytes fl \<and>
     offset_bytes fl' = offset_bytes fl \<and> min_allocation_size fl' = min_allocation_size fl \<and>
     alignment fl' = alignment fl"

lemma same_config_refl [simp]: "same_config fl fl"
  by (simp add: same_config_def)

lemma same_config_trans: "same_config a b \<Longrightarrow> same_config b c \<Longrightarrow> same_config a c"
  by (simp add: same_config_def)

lemma blocks_of_append [simp]: "blocks_of h (xs @ ys) fs = blocks_of h xs fs @ blocks_of h ys fs"
  by (simp add: blocks_of_def)

lemma blocks_of_Cons [simp]:
  "blocks_of h (x # ys) fs = (address (h x), bsize (h x), x \<in> set fs) # blocks_of h ys fs"
  by (simp add: blocks_of_def)

lemma blocks_of_Nil [simp]: "blocks_of h [] fs = []"
  by (simp add: blocks_of_def)

lemma blocks_of_cong:
  "(\<And>x. x \<in> set rs \<Longrightarrow> address (h' x) = address (h x) \<and> bsize (h' x) = bsize (h x)) \<Longrightarrow>
   (\<And>x. x \<in> set rs \<Longrightarrow> x \<in> set fs' \<longleftrightarrow> x \<in> set fs) \<Longrightarrow>
   blocks_of h' rs fs' = blocks_of h rs fs"
  by (auto simp: blocks_of_def)

lemma rep_address_neq:
  assumes "rep fl (as @ fb # bs) fs" and "x \<in> set (as @ bs)"
  shows "address (heap fl x) \<noteq> address (heap fl fb)"
  using assms rep_block(3) [OF assms(1)]
    tiles_address_inj [of "heap fl" 0 "as @ fb # bs" "max_size_bytes fl" x fb]
  by (auto simp: rep_def)

lemma carve_rep:
  assumes "rep fl (as @ fb # bs) fs" and "fb \<in> set fs"
  shows "carve (address (heap fl fb)) off sz (blocks_of (heap fl) (as @ fb # bs) fs) =
     blocks_of (heap fl) as fs @ (if 0 < off then [(address (heap fl fb), off, True)] else []) @
     [(address (heap fl fb) + off, sz, False)] @
     (if off + sz < bsize (heap fl fb)
      then [(address (heap fl fb) + off + sz, bsize (heap fl fb) - off - sz, True)] else []) @
     blocks_of (heap fl) bs fs"
proof -
  have a: "fst x \<noteq> address (heap fl fb)" if "x \<in> set (blocks_of (heap fl) as fs)" for x
    using that rep_address_neq [OF assms(1)] by (auto simp: blocks_of_def)
  show ?thesis unfolding blocks_of_append blocks_of_Cons by (rule carve_at [OF a])
qed

definition slice_post :: "FreeList \<Rightarrow> nat \<Rightarrow> nat \<Rightarrow> nat \<Rightarrow> nat \<Rightarrow> FreeList \<Rightarrow> bool" where
  "slice_post fl fb off sz ab fl' \<longleftrightarrow>
     fl_inv fl' \<and> blocks fl' = carve (address (heap fl fb)) off sz (blocks fl) \<and>
     address (heap fl' ab) = address (heap fl fb) + off \<and>
     same_config fl fl' \<and> lowest_occupied fl' = lowest_occupied fl"

lemma slice_postI:
  assumes "rep fl rs fs" and "rep fl' rs' fs'"
    and "blocks_of (heap fl') rs' fs' = carve (address (heap fl fb)) off sz (blocks_of (heap fl) rs fs)"
    and "address (heap fl' ab) = address (heap fl fb) + off"
    and "same_config fl fl'" and "lowest_occupied fl' = lowest_occupied fl"
  shows "slice_post fl fb off sz ab fl'"
  using assms rep_inv rep_blocks by (simp add: slice_post_def)

lemma slice_entire:
  assumes rep: "rep fl (as @ fb # bs) fs" and fb: "fb \<in> set fs"
  shows "slice_post fl fb 0 (bsize (heap fl fb)) fb (unlink_free_block fb fl)"
proof (rule slice_postI [OF rep rep_entire [OF rep fb]])
  note bl = rep_block [OF rep] and fr = rep_free_block [OF rep fb]
  have ne: "prev_free (heap fl fb) \<noteq> Some fb" "next_free (heap fl fb) \<noteq> Some fb"
    using fr bl(3) by (auto dest: last_or_eq_Some hd_or_eq_Some)
  note f = unlink_fields [of fl fb, OF ne]
  let ?fs' = "filter (\<lambda>x. x \<in> set fs) as @ filter (\<lambda>x. x \<in> set fs) bs"
  have "blocks_of (heap (unlink_free_block fb fl)) as ?fs' = blocks_of (heap fl) as fs"
    "blocks_of (heap (unlink_free_block fb fl)) bs ?fs' = blocks_of (heap fl) bs fs"
    by (auto simp: f intro!: blocks_of_cong)
  then show "blocks_of (heap (unlink_free_block fb fl)) (as @ fb # bs) ?fs' =
      carve (address (heap fl fb)) 0 (bsize (heap fl fb)) (blocks_of (heap fl) (as @ fb # bs) fs)"
    using bl(3) by (subst carve_rep [OF rep fb]) (simp add: f)
  show "address (heap (unlink_free_block fb fl) fb) = address (heap fl fb) + 0"
    "same_config fl (unlink_free_block fb fl)"
    "lowest_occupied (unlink_free_block fb fl) = lowest_occupied fl"
    by (simp_all add: f same_config_def)
qed

lemma rep_free_subset: "rep fl rs fs \<Longrightarrow> set fs \<subseteq> set rs"
  by (auto simp: rep_def dest: free_chain_subset)

lemma slice_left:
  assumes rep: "rep fl (as @ fb # bs) fs" and fb: "fb \<in> set fs"
    and sz: "0 < sz" "sz < bsize (heap fl fb)"
  defines "g \<equiv> fl\<lparr>heap := (heap fl)(fresh fl := Block2 (address (heap fl fb)) sz),
                 fresh := Suc (fresh fl)\<rparr>"
  shows "slice_post fl fb 0 sz (fresh fl) (update_left_aligned_allocated_block_connections fb (fresh fl) g)"
    (is "slice_post fl fb 0 sz _ ?g'")
proof (rule slice_postI [OF rep rep_left(1) [OF rep fb sz, folded g_def]])
  note bl = rep_block [OF rep] and l = rep_left [OF rep fb sz, folded g_def]
  have ab: "fresh fl \<notin> set (as @ fb # bs)" using bl(4) by auto
  have ne: "fresh fl \<noteq> fb" "prev_block (heap g fb) \<noteq> Some (fresh fl)" "prev_block (heap g fb) \<noteq> Some fb"
    using ab bl(1,3) by (auto simp: g_def dest: last_or_eq_Some)
  note f = left_fields [OF ne]
  have "fresh fl \<notin> set fs" using rep_free_subset [OF rep] ab by blast
  moreover have "blocks_of (heap ?g') as fs = blocks_of (heap fl) as fs"
    "blocks_of (heap ?g') bs fs = blocks_of (heap fl) bs fs"
    using l(6) by (auto intro!: blocks_of_cong)
  ultimately show "blocks_of (heap ?g') (as @ fresh fl # fb # bs) fs =
      carve (address (heap fl fb)) 0 sz (blocks_of (heap fl) (as @ fb # bs) fs)"
    using fb sz by (subst carve_rep [OF rep fb]) (simp add: l(2-5))
  show "address (heap ?g' (fresh fl)) = address (heap fl fb) + 0" using l(2) by simp
  show "same_config fl ?g'" "lowest_occupied ?g' = lowest_occupied fl"
    by (simp_all add: f same_config_def) (simp_all add: g_def)
qed

lemma slice_right:
  assumes rep: "rep fl (as @ fb # bs) fs" and fb: "fb \<in> set fs"
    and sz: "0 < sz" "0 < off" "off + sz = bsize (heap fl fb)"
  defines "g \<equiv> fl\<lparr>heap := (heap fl)(fresh fl := Block2 (address (heap fl fb) + off) sz),
                 fresh := Suc (fresh fl)\<rparr>"
  shows "slice_post fl fb off sz (fresh fl) (update_right_aligned_allocated_block_connections fb (fresh fl) g)"
    (is "slice_post fl fb off sz _ ?g'")
proof (rule slice_postI [OF rep rep_right(1) [OF rep fb sz, folded g_def]])
  note bl = rep_block [OF rep] and l = rep_right [OF rep fb sz, folded g_def]
  have ab: "fresh fl \<notin> set (as @ fb # bs)" using bl(4) by auto
  have ne: "fresh fl \<noteq> fb" "next_block (heap g fb) \<noteq> Some (fresh fl)" "next_block (heap g fb) \<noteq> Some fb"
    using ab bl(2,3) by (auto simp: g_def dest: hd_or_eq_Some)
  note f = right_fields [OF ne]
  have "fresh fl \<notin> set fs" using rep_free_subset [OF rep] ab by blast
  moreover have "blocks_of (heap ?g') as fs = blocks_of (heap fl) as fs"
    "blocks_of (heap ?g') bs fs = blocks_of (heap fl) bs fs"
    using l(6) by (auto intro!: blocks_of_cong)
  ultimately show "blocks_of (heap ?g') (as @ fb # fresh fl # bs) fs =
      carve (address (heap fl fb)) off sz (blocks_of (heap fl) (as @ fb # bs) fs)"
    using fb sz by (subst carve_rep [OF rep fb]) (simp add: l(2-5))
  show "address (heap ?g' (fresh fl)) = address (heap fl fb) + off" using l(2) by simp
  show "same_config fl ?g'" "lowest_occupied ?g' = lowest_occupied fl"
    by (simp_all add: f same_config_def) (simp_all add: g_def)
qed

lemma slice_middle:
  assumes rep: "rep fl (as @ fb # bs) fs" and fb: "fb \<in> set fs"
    and sz: "0 < sz" "0 < off" "off + sz < bsize (heap fl fb)"
  defines "g \<equiv> fl\<lparr>heap := (heap fl)(fresh fl := Block2 (address (heap fl fb) + off) sz),
                 fresh := Suc (fresh fl)\<rparr>"
  shows "slice_post fl fb off sz (fresh fl) (split_middle_of_free_block fb (fresh fl) off sz g)"
    (is "slice_post fl fb off sz _ ?g'")
proof (rule slice_postI [OF rep rep_middle(1) [OF rep fb sz, folded g_def]])
  note bl = rep_block [OF rep] and l = rep_middle [OF rep fb sz, folded g_def]
    and fr = rep_free_block [OF rep fb]
  let ?fs' = "filter (\<lambda>x. x \<in> set fs) as @ fb # Suc (fresh fl) # filter (\<lambda>x. x \<in> set fs) bs"
  have ab: "fresh fl \<notin> set (as @ fb # bs)" "Suc (fresh fl) \<notin> set (as @ fb # bs)"
    using bl(4) by fastforce+
  have ne: "fresh fl \<noteq> fb" "fresh g \<noteq> fb" "fresh g \<noteq> fresh fl"
    "next_block (heap g fb) \<notin> {Some (fresh fl), Some fb, Some (fresh g)}"
    "next_free (heap g fb) \<notin> {Some (fresh fl), Some fb, Some (fresh g)}"
    using ab bl(2,3) fr(3,6,8) by (auto simp: g_def dest!: hd_or_eq_Some)
  note f = middle_fields [OF ne]
  have "fresh fl \<notin> set ?fs'" using ab by auto
  moreover have "blocks_of (heap ?g') as ?fs' = blocks_of (heap fl) as fs"
    "blocks_of (heap ?g') bs ?fs' = blocks_of (heap fl) bs fs"
    using l(8) ab bl(3) by (auto intro!: blocks_of_cong)
  ultimately show "blocks_of (heap ?g') (as @ fb # fresh fl # Suc (fresh fl) # bs) ?fs' =
      carve (address (heap fl fb)) off sz (blocks_of (heap fl) (as @ fb # bs) fs)"
    using sz by (subst carve_rep [OF rep fb]) (simp add: l(2-7))
  show "address (heap ?g' (fresh fl)) = address (heap fl fb) + off" using l(2) by simp
  show "same_config fl ?g'" "lowest_occupied ?g' = lowest_occupied fl"
    by (simp_all add: f same_config_def) (simp_all add: g_def)
qed

lemma allocate_slice_correct:
  assumes rep: "rep fl rs fs" and fb: "fb \<in> set fs" and sz: "0 < sz" "off + sz \<le> bsize (heap fl fb)"
  shows "\<exists>ab fl'. allocate_slice_of_free_block fb off sz fl = Inr (ab, fl') \<and> slice_post fl fb off sz ab fl'"
proof -
  have fc: "free_chain fl rs fs" using rep by (simp add: rep_def)
  have fbr: "fb \<in> set rs" using fb free_chain_subset [OF fc] by blast
  then obtain as bs where rs: "rs = as @ fb # bs" by (auto dest: split_list)
  note rep' = rep [unfolded rs]
  have bnd: "address (heap fl fb) + bsize (heap fl fb) < 2 ^ 64"
    using rep_bounds [OF rep fbr] by simp
  have ar: "add64 (address (heap fl fb)) off = address (heap fl fb) + off"
    "add64 (address (heap fl fb) + off) sz = address (heap fl fb) + off + sz"
    "add64 (address (heap fl fb)) (bsize (heap fl fb)) = address (heap fl fb) + bsize (heap fl fb)"
    "add64 (address (heap fl fb)) 0 = address (heap fl fb)"
    "off = 0 \<Longrightarrow> add64 (address (heap fl fb)) sz = address (heap fl fb) + sz"
    using sz bnd by (simp_all add: nowrap)
  have na: "\<not> is_allocated fl fb" using is_allocated_iff [OF fc fbr] fb by simp
  note d = allocate_slice_of_free_block_def Let_def ar make_shared_Block_def
  consider (entire) "off = 0" "sz = bsize (heap fl fb)" | (left) "off = 0" "sz < bsize (heap fl fb)"
    | (right) "0 < off" "off + sz = bsize (heap fl fb)" | (middle) "0 < off" "off + sz < bsize (heap fl fb)"
    using sz(2) by linarith
  then show ?thesis
  proof cases
    case entire
    then show ?thesis using slice_entire [OF rep' fb] na
      by (simp add: d allocate_entire_free_block_def)
  next
    case left
    then show ?thesis using slice_left [OF rep' fb sz(1)] by (simp add: d)
  next
    case right
    then show ?thesis using slice_right [OF rep' fb sz(1)] sz(1) by (simp add: d)
  next
    case middle
    then show ?thesis using slice_middle [OF rep' fb sz(1)] by (simp add: d)
  qed
qed

end
