(* ===== verification/Free_List_Allocate.thy ===== *)
theory Free_List_Allocate
  imports Free_List_Slice
begin

text \<open>
  The searches and the two allocation operations of the free list.  A search always returns, finds a
  block whenever one fits, and best fit finds a smallest one.  \<^verbatim>\<open>allocate\<close> and
  \<^verbatim>\<open>allocate_at_address\<close> refine \<open>carve\<close> on the abstract memory, keep the invariant and the cached
  lowest occupied address.
\<close>

subsection \<open>The abstract view of the invariant\<close>

lemma tiles_blocks_of: "atiles a (blocks_of h rs fs) e \<longleftrightarrow> tiles h a rs e"
  by (induction rs arbitrary: a) auto

lemma no_adjacent_blocks_of: "no_adjacent_free (blocks_of h rs fs) \<longleftrightarrow> coalesced rs fs"
  by (simp add: no_adjacent_free_def coalesced_def blocks_of_def successively_map)

lemma inv_tiles: "fl_inv fl \<Longrightarrow> atiles 0 (blocks fl) (max_size_bytes fl)"
  by (simp add: fl_inv_def rep_def blocks_def tiles_blocks_of)

lemma inv_no_adjacent_free: "fl_inv fl \<Longrightarrow> no_adjacent_free (blocks fl)"
  by (simp add: fl_inv_def rep_def blocks_def no_adjacent_blocks_of)

lemma inv_config: "fl_inv fl \<Longrightarrow> config_ok fl"
  by (simp add: fl_inv_def rep_def)

lemma rep_free_in_blocks:
  assumes "rep fl rs fs"
  shows "(a, s, True) \<in> set (blocks fl) \<longleftrightarrow> (\<exists>r\<in>set fs. address (heap fl r) = a \<and> bsize (heap fl r) = s)"
  using rep_free_subset [OF assms] by (auto simp: rep_blocks [OF assms] blocks_of_def)

lemma rep_alloc_in_blocks:
  assumes "rep fl rs fs"
  shows "(a, s, False) \<in> set (blocks fl) \<longleftrightarrow>
     (\<exists>r\<in>set rs. r \<notin> set fs \<and> address (heap fl r) = a \<and> bsize (heap fl r) = s)"
  by (auto simp: rep_blocks [OF assms] blocks_of_def)

subsection \<open>Sizes\<close>

lemma align_eq:
  assumes "config_ok fl" and "n + alignment fl \<le> 2 ^ 64"
  shows "align fl n = ((n + alignment fl - 1) div alignment fl) * alignment fl"
proof -
  have al: "0 < alignment fl" using assms(1) by (simp add: config_ok_def)
  have s: "sub64 (add64 n (alignment fl)) 1 = n + alignment fl - 1"
  proof (cases "n + alignment fl = 2 ^ 64")
    case True
    then show ?thesis by (simp add: wadd_def wsub_def)
  next
    case False
    then show ?thesis using assms(2) al by (subst wadd_id, simp, subst wsub_id) auto
  qed
  have "((n + alignment fl - 1) div alignment fl) * alignment fl \<le> n + alignment fl - 1"
    by (rule div_times_less_eq_dividend)
  then have "((n + alignment fl - 1) div alignment fl) * alignment fl < 2 ^ 64"
    using assms(2) al by linarith
  then show ?thesis unfolding align_def Let_def s by (rule wmul_id)
qed

text \<open>A request whose rounding up does not wrap around.\<close>

definition size_ok :: "FreeList \<Rightarrow> nat \<Rightarrow> bool" where
  "size_ok fl n \<longleftrightarrow> n + alignment fl \<le> 2 ^ 64"

lemma alloc_size_spec:
  assumes "config_ok fl" and "size_ok fl size_bytes"
  shows "size_bytes \<le> alloc_size_of fl size_bytes"
    and "min_allocation_size fl \<le> alloc_size_of fl size_bytes"
    and "alignment fl dvd alloc_size_of fl size_bytes" and "0 < alloc_size_of fl size_bytes"
    and "alloc_size_of fl size_bytes < max size_bytes (min_allocation_size fl) + alignment fl"
proof -
  have al: "0 < alignment fl" "0 < min_allocation_size fl" using assms(1) by (simp_all add: config_ok_def)
  have e: "alloc_size_of fl size_bytes = align fl (max size_bytes (min_allocation_size fl))"
    by (simp add: alloc_size_of_def max_def)
  have m: "max size_bytes (min_allocation_size fl) + alignment fl \<le> 2 ^ 64"
    using assms by (auto simp: config_ok_def max_def size_ok_def)
  note s = e [unfolded align_eq [OF assms(1) m]]
  have ge: "max size_bytes (min_allocation_size fl) \<le> alloc_size_of fl size_bytes"
    unfolding s by (rule ceil_mult_ge [OF al(1)])
  then show "size_bytes \<le> alloc_size_of fl size_bytes"
    "min_allocation_size fl \<le> alloc_size_of fl size_bytes" "0 < alloc_size_of fl size_bytes"
    using al by auto
  show "alignment fl dvd alloc_size_of fl size_bytes" unfolding s by simp
  show "alloc_size_of fl size_bytes < max size_bytes (min_allocation_size fl) + alignment fl"
    unfolding s by (rule ceil_mult_less [OF al(1)])
qed

subsection \<open>The searches\<close>

fun path :: "('a \<Rightarrow> 'a option) \<Rightarrow> 'a list \<Rightarrow> bool" where
  "path nx [] \<longleftrightarrow> True"
| "path nx (x # xs) \<longleftrightarrow> nx x = hd_or None xs \<and> path nx xs"

lemma dll_path: "dll pv nx p xs None \<Longrightarrow> path nx xs"
  by (induction xs arbitrary: p) auto

lemma dll_path_rev: "dll pv nx None xs q \<Longrightarrow> path pv (rev xs)"
proof (induction xs arbitrary: q rule: rev_induct)
  case (snoc x xs)
  then have "pv x = last_or None xs" "path pv (rev xs)" by auto
  moreover have "hd_or None (rev xs) = last_or None xs" by (cases xs rule: rev_cases) auto
  ultimately show ?case by simp
qed simp

lemma search_first_loop_find:
  "path (\<lambda>r. step_free up (heap fl r)) xs \<Longrightarrow> length xs \<le> n \<Longrightarrow>
   search_first_loop n fl sz up (hd_or None xs) = Inr (find (\<lambda>r. sz \<le> bsize (heap fl r)) xs)"
proof (induction xs arbitrary: n)
  case (Cons x xs)
  then obtain m where "n = Suc m" by (cases n) auto
  with Cons show ?case by auto
qed simp

definition fits_best :: "FreeList \<Rightarrow> nat \<Rightarrow> nat set \<Rightarrow> nat option \<Rightarrow> bool" where
  "fits_best fl sz S res \<longleftrightarrow>
     (case res of
        None \<Rightarrow> \<forall>x\<in>S. bsize (heap fl x) < sz
      | Some r \<Rightarrow> r \<in> S \<and> sz \<le> bsize (heap fl r) \<and>
                 (\<forall>x\<in>S. sz \<le> bsize (heap fl x) \<longrightarrow> bsize (heap fl r) \<le> bsize (heap fl x)))"

lemma fits_best_step:
  assumes "fits_best fl sz S best"
  shows "fits_best fl sz (insert x S)
     (if bsize (heap fl x) \<ge> sz \<and>
         (case best of None \<Rightarrow> True | Some b \<Rightarrow> bsize (heap fl x) < bsize (heap fl b))
      then Some x else best)"
  using assms by (cases best) (force simp: fits_best_def)+

lemma search_best_loop_correct:
  "path (\<lambda>r. step_free up (heap fl r)) xs \<Longrightarrow> length xs \<le> n \<Longrightarrow> fits_best fl sz S best \<Longrightarrow>
   \<exists>res. search_best_loop n fl sz up (hd_or None xs) best = Inr res \<and> fits_best fl sz (set xs \<union> S) res"
proof (induction xs arbitrary: n S best)
  case (Cons x xs)
  then obtain m where n: "n = Suc m" by (cases n) auto
  show ?case
  proof (cases "bsize (heap fl x) = sz")
    case True
    then show ?thesis by (simp add: n fits_best_def)
  next
    case False
    have "path (\<lambda>r. step_free up (heap fl r)) xs" "length xs \<le> m"
      "step_free up (heap fl x) = hd_or None xs" using Cons.prems n by auto
    with Cons.IH [OF _ _ fits_best_step [OF Cons.prems(3), of x]] False show ?thesis
      by (simp add: n Let_def)
  qed
qed simp

text \<open>The order in which a search visits the free blocks.\<close>

definition search_order :: "bool \<Rightarrow> nat list \<Rightarrow> nat list" where
  "search_order up fs = (if up then fs else rev fs)"

lemma rep_search_order:
  assumes "rep fl rs fs"
  shows "path (\<lambda>r. step_free up (heap fl r)) (search_order up fs)"
    and "length (search_order up fs) \<le> fresh fl"
    and "(if up then free_block_head fl else free_block_tail fl) = hd_or None (search_order up fs)"
proof -
  have fc: "free_chain fl rs fs" and bc: "block_chain fl rs" using assms by (simp_all add: rep_def)
  show "path (\<lambda>r. step_free up (heap fl r)) (search_order up fs)"
    using free_chainD(1) [OF fc] dll_path dll_path_rev
    by (cases up) (auto simp: search_order_def step_free_def)
  show "length (search_order up fs) \<le> fresh fl"
    using free_chain_length [OF fc] rep_length [OF bc] by (simp add: search_order_def)
  have "hd_or None (rev fs) = last_or None fs" by (cases fs rule: rev_cases) auto
  then show "(if up then free_block_head fl else free_block_tail fl) = hd_or None (search_order up fs)"
    using free_chainD(2,3) [OF fc] by (simp add: search_order_def)
qed

lemma search_first_eq:
  assumes "rep fl rs fs"
  shows "search_first fl sz up = Inr (find (\<lambda>r. sz \<le> bsize (heap fl r)) (search_order up fs))"
  using rep_search_order [OF assms, of up]
  by (simp add: search_first_def search_first_loop_find)

lemma search_best_correct:
  assumes "rep fl rs fs"
  shows "\<exists>res. search_best fl sz up = Inr res \<and> fits_best fl sz (set fs) res"
proof -
  have "set (search_order up fs) = set fs" by (simp add: search_order_def)
  then show ?thesis
    using rep_search_order [OF assms, of up]
      search_best_loop_correct [of up fl "search_order up fs" "fresh fl" sz "{}" None]
    by (simp add: search_best_def fits_best_def)
qed

lemma search_correct:
  assumes "rep fl rs fs"
  obtains (None) "search fl sz up = Inr None" "\<And>r. r \<in> set fs \<Longrightarrow> bsize (heap fl r) < sz"
  | (Some) fb where "search fl sz up = Inr (Some fb)" "fb \<in> set fs" "sz \<le> bsize (heap fl fb)"
proof (cases "search_policy fl")
  case BEST
  obtain res where "search_best fl sz up = Inr res" "fits_best fl sz (set fs) res"
    using search_best_correct [OF assms] by blast
  then show ?thesis using BEST None Some by (cases res) (auto simp: search_def fits_best_def)
next
  case FIRST
  have s: "set (search_order up fs) = set fs" by (simp add: search_order_def)
  let ?res = "find (\<lambda>r. sz \<le> bsize (heap fl r)) (search_order up fs)"
  have e: "search fl sz up = Inr ?res" using FIRST search_first_eq [OF assms] by (simp add: search_def)
  show ?thesis
  proof (cases ?res)
    case N: None
    then show ?thesis using None e s by (auto simp: find_None_iff not_le)
  next
    case S: (Some fb)
    then have "fb \<in> set (search_order up fs)" "sz \<le> bsize (heap fl fb)"
      by (auto simp: find_Some_iff)
    then show ?thesis using Some e s S by auto
  qed
qed

subsection \<open>The cached lowest address\<close>

lemma blocks_lowest [simp]: "blocks (fl\<lparr>lowest_occupied := v\<rparr>) = blocks fl"
  by (simp add: blocks_def refs_def free_refs_def)

lemma inv_lowest [simp]: "fl_inv (fl\<lparr>lowest_occupied := v\<rparr>) = fl_inv fl"
  by (simp add: fl_inv_def rep_def refs_def free_refs_def block_chain_def free_chain_def config_ok_def)

lemma same_config_lowest [simp]: "same_config fl (fl'\<lparr>lowest_occupied := v\<rparr>) = same_config fl fl'"
  by (simp add: same_config_def)

lemma update_lowest_to_eq:
  "update_lowest_occupied_address_to a fl =
     fl\<lparr>lowest_occupied := Some (case lowest_occupied fl of None \<Rightarrow> a | Some l \<Rightarrow> min l a)\<rparr>"
  by (simp add: update_lowest_occupied_address_to_def split: option.split)

lemma update_lowest_to_sel [simp]:
  "heap (update_lowest_occupied_address_to a fl) = heap fl"
  "offset_bytes (update_lowest_occupied_address_to a fl) = offset_bytes fl"
  by (simp_all add: update_lowest_to_eq)

lemma lowest_ok_insert:
  assumes "lowest_ok fl" and "lowest_occupied fl' = lowest_occupied fl"
    and "allocated (blocks fl') = insert (a, s) (allocated (blocks fl))"
  shows "lowest_ok (update_lowest_occupied_address_to a fl')"
  using assms
  by (force simp: lowest_ok_def update_lowest_to_eq min_def split: option.splits)

subsection \<open>allocate\<close>

definition alloc_post :: "FreeList \<Rightarrow> nat \<Rightarrow> nat \<Rightarrow> nat \<Rightarrow> FreeList \<Rightarrow> bool" where
  "alloc_post fl a off sz fl' \<longleftrightarrow>
     fl_inv fl' \<and> blocks fl' = carve a off sz (blocks fl) \<and> same_config fl fl' \<and>
     (lowest_ok fl \<longrightarrow> lowest_ok fl')"

lemma slice_alloc_post:
  assumes "fl_inv fl" and "slice_post fl fb off sz ab fl'" and "(address (heap fl fb), s, True) \<in> set (blocks fl)"
  shows "alloc_post fl (address (heap fl fb)) off sz
     (update_lowest_occupied_address_to (address (heap fl fb) + off) fl')"
proof -
  note p = assms(2) [unfolded slice_post_def]
  have "allocated (blocks fl') = insert (address (heap fl fb) + off, sz) (allocated (blocks fl))"
    using p allocated_carve [OF inv_tiles [OF assms(1)] assms(3)] by simp
  then have "lowest_ok fl \<Longrightarrow>
      lowest_ok (update_lowest_occupied_address_to (address (heap fl fb) + off) fl')"
    using p by (auto intro: lowest_ok_insert)
  then show ?thesis using p by (simp add: alloc_post_def update_lowest_to_eq)
qed

definition alloc_offset :: "bool \<Rightarrow> nat \<Rightarrow> nat \<Rightarrow> nat" where
  "alloc_offset up s sz = (if up then 0 else s - sz)"

lemma allocate_cases:
  assumes fl_inv: "fl_inv fl" and size: "size_ok fl size_bytes"
  defines "sz \<equiv> alloc_size_of fl size_bytes"
  obtains (full) "allocate size_bytes up limit fl = (Inr None, fl)"
      "\<And>a s. (a, s, True) \<in> set (blocks fl) \<Longrightarrow> s < sz"
  | (ok) a s fl' where "(a, s, True) \<in> set (blocks fl)" "sz \<le> s"
      "alloc_post fl a (alloc_offset up s sz) sz fl'"
      "allocate size_bytes up limit fl =
         (if a + alloc_offset up s sz + offset_bytes fl < limit
          then Inl (TT_THROW ''Out of Memory: Cannot allocate at an address below the limit'')
          else Inr (Some (a + alloc_offset up s sz + offset_bytes fl)), fl')"
proof -
  note rep = inv_rep [OF fl_inv]
  have sz0: "0 < sz" using alloc_size_spec(4) [OF inv_config [OF fl_inv] size] by (simp add: sz_def)
  show ?thesis
  proof (rule search_correct [OF rep, of sz up])
    assume "search fl sz up = Inr None" "\<And>r. r \<in> set (free_refs fl) \<Longrightarrow> bsize (heap fl r) < sz"
    then show ?thesis
      by (intro full) (auto simp: allocate_def sz_def rep_free_in_blocks [OF rep])
  next
    fix fb assume fb: "search fl sz up = Inr (Some fb)" "fb \<in> set (free_refs fl)" "sz \<le> bsize (heap fl fb)"
    let ?a = "address (heap fl fb)" and ?s = "bsize (heap fl fb)"
    let ?off = "alloc_offset up ?s sz"
    have fbr: "fb \<in> set (refs fl)" using rep_free_subset [OF rep] fb(2) by blast
    note bnd = rep_bounds [OF rep fbr]
    have o: "(if up then 0 else sub64 (sub64 (add64 ?a ?s) sz) ?a) = ?off"
      using fb(3) bnd(3) by (simp add: alloc_offset_def nowrap)
    have le: "?off + sz \<le> ?s" using fb(3) by (simp add: alloc_offset_def)
    obtain ab fl' where sl: "allocate_slice_of_free_block fb ?off sz fl = Inr (ab, fl')"
      and p: "slice_post fl fb ?off sz ab fl'"
      using allocate_slice_correct [OF rep fb(2) sz0 le] by blast
    have free: "(?a, ?s, True) \<in> set (blocks fl)" using fb(2) by (auto simp: rep_free_in_blocks [OF rep])
    have pa: "address (heap fl' ab) = ?a + ?off" "offset_bytes fl' = offset_bytes fl"
      using p by (simp_all add: slice_post_def same_config_def)
    have "add64 (?a + ?off) (offset_bytes fl) = ?a + ?off + offset_bytes fl"
    proof (rule wadd_id)
      have "offset_bytes fl + max_size_bytes fl < 2 ^ 64"
        using inv_config [OF fl_inv] by (simp add: config_ok_def)
      then show "?a + ?off + offset_bytes fl < 2 ^ 64" using bnd(1) le by linarith
    qed
    then have e: "allocate size_bytes up limit fl =
       (if ?a + ?off + offset_bytes fl < limit
          then Inl (TT_THROW ''Out of Memory: Cannot allocate at an address below the limit'')
          else Inr (Some (?a + ?off + offset_bytes fl)),
        update_lowest_occupied_address_to (?a + ?off) fl')"
      by (simp add: allocate_def Let_def sz_def [symmetric] fb(1) o sl pa)
    show ?thesis by (rule ok [OF free fb(3) slice_alloc_post [OF fl_inv p free] e])
  qed
qed

subsection \<open>allocate_at_address\<close>

lemma allocate_at_address_loop_find:
  assumes rep: "rep fl rs fs" and sz: "0 < sz" "start + sz < 2 ^ 64"
  shows "path (\<lambda>r. next_free (heap fl r)) xs \<Longrightarrow> length xs \<le> n \<Longrightarrow> set xs \<subseteq> set fs \<Longrightarrow>
    (case find (\<lambda>r. address (heap fl r) \<le> start \<and> start + sz \<le> address (heap fl r) + bsize (heap fl r)) xs of
       None \<Rightarrow> allocate_at_address_loop n start sz (hd_or None xs) fl = Inr (None, fl)
     | Some r \<Rightarrow> \<exists>ab fl'. allocate_at_address_loop n start sz (hd_or None xs) fl = Inr (Some r, fl') \<and>
                   slice_post fl r (start - address (heap fl r)) sz ab fl')"
proof (induction xs arbitrary: n)
  case (Cons x xs)
  then obtain m where n: "n = Suc m" by (cases n) auto
  let ?a = "address (heap fl x)" and ?s = "bsize (heap fl x)"
  have x: "x \<in> set fs" "x \<in> set rs" using Cons.prems rep_free_subset [OF rep] by auto
  have e: "add64 start sz = start + sz" "add64 ?a ?s = ?a + ?s"
    using sz rep_bounds [OF rep x(2)] by (simp_all add: nowrap)
  show ?case
  proof (cases "?a \<le> start \<and> start + sz \<le> ?a + ?s")
    case True
    then have "start - ?a + sz \<le> ?s" by auto
    then obtain ab fl' where sl: "allocate_slice_of_free_block x (start - ?a) sz fl = Inr (ab, fl')"
      "slice_post fl x (start - ?a) sz ab fl'"
      using allocate_slice_correct [OF rep x(1) sz(1)] by blast
    have "sz \<le> ?s" using True by linarith
    moreover have "sub64 start ?a = start - ?a" if "start > ?a" using that sz by (simp add: nowrap)
    ultimately have "allocate_at_address_loop n start sz (Some x) fl = Inr (Some x, fl')"
      using True sl(1) by (cases "?a = start") (auto simp: n Let_def e)
    then show ?thesis using True sl(2) by auto
  next
    case False
    then have l: "allocate_at_address_loop n start sz (hd_or None (x # xs)) fl =
        allocate_at_address_loop m start sz (hd_or None xs) fl"
      using Cons.prems by (auto simp: n Let_def e)
    show ?thesis unfolding l find.simps if_not_P [OF False]
      by (rule Cons.IH) (use Cons.prems n in auto)
  qed
qed simp

lemma allocate_at_address_cases:
  assumes fl_inv: "fl_inv fl" and size: "size_ok fl size_bytes"
    and al: "alignment fl dvd addr"
  defines "sz \<equiv> alloc_size_of fl size_bytes" and "start \<equiv> sub64 addr (offset_bytes fl)"
  assumes nw: "start + sz < 2 ^ 64"
  obtains (full) "allocate_at_address addr size_bytes fl = Inr (None, fl)"
      "\<And>a s. (a, s, True) \<in> set (blocks fl) \<Longrightarrow> \<not> (a \<le> start \<and> start + sz \<le> a + s)"
  | (ok) a s fl' where "(a, s, True) \<in> set (blocks fl)" "a \<le> start" "start + sz \<le> a + s"
      "alloc_post fl a (start - a) sz fl'"
      "allocate_at_address addr size_bytes fl = Inr (Some addr, fl')"
proof -
  note rep = inv_rep [OF fl_inv]
  have fc: "free_chain fl (refs fl) (free_refs fl)" using rep by (simp add: rep_def)
  have sz0: "0 < sz" using alloc_size_spec(4) [OF inv_config [OF fl_inv] size] by (simp add: sz_def)
  let ?P = "\<lambda>r. address (heap fl r) \<le> start \<and> start + sz \<le> address (heap fl r) + bsize (heap fl r)"
  have p: "path (\<lambda>r. next_free (heap fl r)) (free_refs fl)" "length (free_refs fl) \<le> fresh fl"
    using rep_search_order [OF rep, of True] by (simp_all add: search_order_def step_free_def)
  note l = allocate_at_address_loop_find [OF rep sz0 nw p order_refl]
  have d: "allocate_at_address addr size_bytes fl =
     rbind (allocate_at_address_loop (fresh fl) start sz (hd_or None (free_refs fl)) fl)
          (\<lambda>(curr, fl). case curr of None \<Rightarrow> Inr (None, fl)
             | Some _ \<Rightarrow> Inr (Some addr, update_lowest_occupied_address_to start fl))"
    using al free_chainD(2) [OF fc] unfolding sz_def start_def
    by (simp add: allocate_at_address_def Let_def dvd_eq_mod_eq_0)
  show ?thesis
  proof (cases "find ?P (free_refs fl)")
    case None
    then have "\<And>r. r \<in> set (free_refs fl) \<Longrightarrow> \<not> ?P r" by (auto simp: find_None_iff)
    then show ?thesis using l None d by (intro full) (auto simp: rep_free_in_blocks [OF rep])
  next
    case (Some r)
    then obtain ab fl' where l': "allocate_at_address_loop (fresh fl) start sz
        (hd_or None (free_refs fl)) fl = Inr (Some r, fl')"
      "slice_post fl r (start - address (heap fl r)) sz ab fl'" using l by auto
    have r: "r \<in> set (free_refs fl)" "?P r" using Some by (auto simp: find_Some_iff)
    have free: "(address (heap fl r), bsize (heap fl r), True) \<in> set (blocks fl)"
      using r(1) by (auto simp: rep_free_in_blocks [OF rep])
    show ?thesis
      using slice_alloc_post [OF fl_inv l'(2) free] r free d l'(1) by (intro ok [OF free]) auto
  qed
qed

end
