(* ===== verification/Free_List_Dealloc.thy ===== *)
theory Free_List_Dealloc
  imports Free_List_Allocate
begin

text \<open>
  Deallocation: the block is merged with its free neighbours or linked into the free chain, and on the
  abstract memory this is \<open>coalesce\<close> after \<open>mark_free\<close>.  The cached lowest occupied address stays the
  lowest one.
\<close>

subsection \<open>Fields after each operation\<close>

lemma merge_prev_fields:
  fixes g p r
  defines "g' \<equiv> merge_prev p r g"
  assumes "p \<noteq> r" and "next_block (heap g r) \<notin> {Some r, Some p}"
  shows "next_block (heap g' x) = (if x = p then next_block (heap g r) else next_block (heap g x))"
    and "prev_block (heap g' x) =
           (if next_block (heap g r) = Some x then Some p else prev_block (heap g x))"
    and "next_free (heap g' x) = next_free (heap g x)" and "prev_free (heap g' x) = prev_free (heap g x)"
    and "address (heap g' x) = address (heap g x)"
    and "bsize (heap g' x) =
           (if x = p then add64 (bsize (heap g p)) (bsize (heap g r)) else bsize (heap g x))"
    and "block_head g' = block_head g" and "free_block_head g' = free_block_head g"
    and "free_block_tail g' = free_block_tail g" and "fresh g' = fresh g"
    and "same_config g g'" and "lowest_occupied g' = lowest_occupied g"
  using assms(2-) unfolding g'_def merge_prev_def Let_def on_ptr_def same_config_def
  by (cases "next_block (heap g r)"; simp)+

lemma on_ptr_heap:
  "heap (on_ptr p (\<lambda>n. upd_block n f) g) x = (if p = Some x then f (heap g x) else heap g x)"
  by (simp add: on_ptr_def split: option.split)

lemma on_ptr_sel [simp]:
  "block_head (on_ptr p (\<lambda>n. upd_block n f) g) = block_head g"
  "free_block_head (on_ptr p (\<lambda>n. upd_block n f) g) = free_block_head g"
  "free_block_tail (on_ptr p (\<lambda>n. upd_block n f) g) = free_block_tail g"
  "fresh (on_ptr p (\<lambda>n. upd_block n f) g) = fresh g"
  "lowest_occupied (on_ptr p (\<lambda>n. upd_block n f) g) = lowest_occupied g"
  "same_config h (on_ptr p (\<lambda>n. upd_block n f) g) = same_config h g"
  "same_config h (upd_block r f' g) = same_config h g"
  "same_config h (g\<lparr>free_block_head := v\<rparr>) = same_config h g"
  "same_config h (g\<lparr>free_block_tail := v\<rparr>) = same_config h g"
  by (simp_all add: on_ptr_def same_config_def split: option.split)

lemma merge_next_block_links_heap:
  assumes "n \<noteq> b" and "next_block (heap g n) \<notin> {Some n, Some b}"
  shows "heap (merge_next_block_links n b g) x = (heap g x)
     \<lparr>prev_block := if next_block (heap g n) = Some x then Some b else prev_block (heap g x),
      next_block := if x = b then next_block (heap g n) else next_block (heap g x)\<rparr>"
  using assms unfolding merge_next_block_links_def Let_def by (simp add: on_ptr_heap)

lemma merge_next_free_links_heap:
  assumes "n \<noteq> b"
    and "next_free (heap g n) \<notin> {Some n, Some b}" and "prev_free (heap g n) \<noteq> Some n"
    and "\<not> mp \<longrightarrow> prev_free (heap g n) \<noteq> Some b"
  shows "heap (merge_next_free_links n b mp g) x = (heap g x)
     \<lparr>prev_free := if next_free (heap g n) = Some x then Some b else
         if x = b \<and> \<not> mp then prev_free (heap g n) else prev_free (heap g x),
      next_free := if x = b then next_free (heap g n) else
         if \<not> mp \<and> prev_free (heap g n) = Some x then Some b else next_free (heap g x)\<rparr>"
proof (cases mp)
  case True
  then show ?thesis using assms unfolding merge_next_free_links_def Let_def by (simp add: on_ptr_heap)
next
  case False
  then show ?thesis using assms unfolding merge_next_free_links_def Let_def by (simp add: on_ptr_heap)
qed

lemma merge_next_heap:
  assumes ne: "n \<noteq> b" "next_block (heap g n) \<notin> {Some n, Some b}"
    and fr: "next_free (heap g n) \<notin> {Some n, Some b}" "prev_free (heap g n) \<noteq> Some n"
    "\<not> mp \<longrightarrow> prev_free (heap g n) \<noteq> Some b"
  shows "heap (merge_next n b mp g) x = (heap g x)
     \<lparr>bsize := if x = b then add64 (bsize (heap g b)) (bsize (heap g n)) else bsize (heap g x),
      prev_block := if next_block (heap g n) = Some x then Some b else prev_block (heap g x),
      next_block := if x = b then next_block (heap g n) else next_block (heap g x),
      prev_free := if next_free (heap g n) = Some x then Some b else
         if x = b \<and> \<not> mp then prev_free (heap g n) else prev_free (heap g x),
      next_free := if x = b then next_free (heap g n) else
         if \<not> mp \<and> prev_free (heap g n) = Some x then Some b else next_free (heap g x)\<rparr>"
proof -
  let ?g1 = "merge_next_block_links n b g"
  note h1 = merge_next_block_links_heap [OF ne]
  have fr1: "next_free (heap ?g1 n) \<notin> {Some n, Some b}" "prev_free (heap ?g1 n) \<noteq> Some n"
    "\<not> mp \<longrightarrow> prev_free (heap ?g1 n) \<noteq> Some b"
    using fr by (simp_all add: h1)
  note h2 = merge_next_free_links_heap [OF ne(1) fr1]
  show ?thesis by (cases "x = b") (simp_all add: merge_next_def Let_def h1 h2)
qed

lemma merge_next_fields:
  "block_head (merge_next n b mp g) = block_head g"
  "free_block_head (merge_next n b mp g) = (if Some n = free_block_head g then Some b else free_block_head g)"
  "free_block_tail (merge_next n b mp g) = (if Some n = free_block_tail g then Some b else free_block_tail g)"
  "fresh (merge_next n b mp g) = fresh g" "same_config g (merge_next n b mp g)"
  "lowest_occupied (merge_next n b mp g) = lowest_occupied g"
  by (simp_all add: merge_next_def merge_next_block_links_def merge_next_free_links_def Let_def)

subsection \<open>Chains after a merge\<close>

lemma block_chain_split:
  assumes "block_chain fl (as @ r # bs)"
  shows "prev_block (heap fl r) = last_or None as" and "next_block (heap fl r) = hd_or None bs"
    and "distinct (as @ r # bs)" and "\<And>x. x \<in> set (as @ r # bs) \<Longrightarrow> x < fresh fl"
    and "block_head fl = hd_or (Some r) as"
    and "dll (\<lambda>r. prev_block (heap fl r)) (\<lambda>r. next_block (heap fl r)) None (as @ r # bs) None"
  using assms by (auto simp: block_chain_def)

lemma free_chain_split:
  assumes "free_chain fl (as @ r # bs) fs" and "r \<in> set fs"
  defines "f1 \<equiv> filter (\<lambda>x. x \<in> set fs) as" and "f2 \<equiv> filter (\<lambda>x. x \<in> set fs) bs"
  shows "fs = f1 @ r # f2"
    and "prev_free (heap fl r) = last_or None f1" and "next_free (heap fl r) = hd_or None f2"
    and "free_block_head fl = hd_or (Some r) f1" and "free_block_tail fl = last_or (Some r) f2"
    and "dll (\<lambda>r. prev_free (heap fl r)) (\<lambda>r. next_free (heap fl r)) None (f1 @ r # f2) None"
proof -
  show fs: "fs = f1 @ r # f2"
    using free_chain_filter [OF assms(1)] assms(2) by (simp add: f1_def f2_def)
  show d: "dll (\<lambda>r. prev_free (heap fl r)) (\<lambda>r. next_free (heap fl r)) None (f1 @ r # f2) None"
    using free_chainD(1) [OF assms(1)] by (simp only: fs)
  then show "prev_free (heap fl r) = last_or None f1" "next_free (heap fl r) = hd_or None f2"
    by simp_all
  have "hd_or None fs = hd_or (Some r) f1" "last_or None fs = last_or (Some r) f2"
    by (simp_all add: fs)
  then show "free_block_head fl = hd_or (Some r) f1" "free_block_tail fl = last_or (Some r) f2"
    using free_chainD(2,3) [OF assms(1)] by simp_all
qed

text \<open>The chain of blocks after the block \<open>y\<close> is absorbed by its predecessor \<open>x\<close>.\<close>

lemma block_chain_absorb:
  assumes bc: "block_chain g (as @ x # y # bs)"
    and nx: "\<And>z. next_block (heap g' z) = (if z = x then next_block (heap g y) else next_block (heap g z))"
    and pv: "\<And>z. prev_block (heap g' z) =
           (if next_block (heap g y) = Some z then Some x else prev_block (heap g z))"
    and hd: "block_head g' = block_head g" and fr: "fresh g' = fresh g"
  shows "block_chain g' (as @ x # bs)"
proof -
  have bc': "block_chain g ((as @ [x]) @ y # bs)" using bc by simp
  note s = block_chain_split [OF bc']
  have "dll (\<lambda>r. prev_block (heap g' r)) (\<lambda>r. next_block (heap g' r)) None ((as @ [x]) @ bs) None"
    by (rule dll_delete [OF s(6) s(3)]) (use s(2,3) in \<open>auto simp: nx pv\<close>)
  moreover have "\<forall>r\<in>set (as @ x # bs). r < fresh g'" using s(4) by (auto simp: fr)
  ultimately show ?thesis using s(3,5) by (simp add: block_chain_def hd)
qed

lemma absorb_ne:
  assumes "block_chain g (as @ x # y # bs)"
  shows "x \<noteq> y" and "next_block (heap g y) \<notin> {Some y, Some x}"
proof -
  have "block_chain g ((as @ [x]) @ y # bs)" using assms by simp
  note s = block_chain_split [OF this]
  show "x \<noteq> y" "next_block (heap g y) \<notin> {Some y, Some x}"
    using s(2,3) by (auto dest: hd_or_eq_Some)
qed

lemma merge_prev_chains:
  assumes bc: "block_chain g (as @ p # r # bs)" and fc: "free_chain g (as @ p # r # bs) fs"
    and r: "r \<notin> set fs"
  shows "block_chain (merge_prev p r g) (as @ p # bs)"
    and "free_chain (merge_prev p r g) (as @ p # bs) fs"
proof -
  note f = merge_prev_fields [OF absorb_ne [OF bc]]
  show "block_chain (merge_prev p r g) (as @ p # bs)"
    by (rule block_chain_absorb [OF bc]) (simp_all add: f)
  have "fs = filter (\<lambda>x. x \<in> set fs) (as @ p # bs)" using free_chain_filter [OF fc] r
    by (auto split: if_splits)
  then show "free_chain (merge_prev p r g) (as @ p # bs) fs"
    by (rule free_chainI) (use free_chainD [OF fc] in \<open>auto simp: f\<close>)
qed

lemma merge_next_chains:
  assumes bc: "block_chain g (as @ b # n # bs)" and fc: "free_chain g (as @ b # n # bs) fs"
    and n: "n \<in> set fs" and b: "mp \<longleftrightarrow> b \<in> set fs"
  shows "block_chain (merge_next n b mp g) (as @ b # bs)"
    and "free_chain (merge_next n b mp g) (as @ b # bs)
      (filter (\<lambda>x. x \<in> set fs) as @ b # filter (\<lambda>x. x \<in> set fs) bs)"
    and "same_config g (merge_next n b mp g)"
    and "lowest_occupied (merge_next n b mp g) = lowest_occupied g"
    and "address (heap (merge_next n b mp g) x) = address (heap g x)"
    and "bsize (heap (merge_next n b mp g) x) =
           (if x = b then add64 (bsize (heap g b)) (bsize (heap g n)) else bsize (heap g x))"
proof -
  let ?f1 = "filter (\<lambda>x. x \<in> set fs) as" and ?f2 = "filter (\<lambda>x. x \<in> set fs) bs"
  let ?g' = "merge_next n b mp g"
  have fc': "free_chain g ((as @ [b]) @ n # bs) fs" using fc by simp
  note s = free_chain_split [OF fc' n]
  note a = absorb_ne [OF bc]
  have d: "distinct (as @ b # n # bs)" using bc by (simp add: block_chain_def)
  have nf: "next_free (heap g n) \<notin> {Some n, Some b}" and pf: "prev_free (heap g n) \<noteq> Some n"
    using s(2,3) d by (auto dest!: hd_or_eq_Some last_or_eq_Some)
  have pb: "\<not> mp \<longrightarrow> prev_free (heap g n) \<noteq> Some b"
    using s(2) b d by (auto dest!: last_or_eq_Some)
  note f = merge_next_heap [OF a(1) [symmetric] a(2) nf pf pb] merge_next_fields
  show "block_chain ?g' (as @ b # bs)"
    by (rule block_chain_absorb [OF bc]) (simp_all add: f)
  show "same_config g ?g'" "lowest_occupied ?g' = lowest_occupied g"
    "address (heap ?g' x) = address (heap g x)"
    "bsize (heap ?g' x) =
       (if x = b then add64 (bsize (heap g b)) (bsize (heap g n)) else bsize (heap g x))"
    by (simp_all add: f)
  show "free_chain ?g' (as @ b # bs) (?f1 @ b # ?f2)"
  proof (rule free_chainI)
    show "?f1 @ b # ?f2 = filter (\<lambda>x. x \<in> set fs \<or> x = b) (as @ b # bs)"
      using d by (auto intro!: arg_cong2 [where f = append] filter_cong)
    show "free_block_head ?g' = hd_or None (?f1 @ b # ?f2)"
    proof (cases ?f1)
      case Nil
      then show ?thesis using s(4) b d by (auto simp: f)
    next
      case (Cons y ys)
      then have "y \<in> set as" by (metis filter_is_subset list.set_intros(1) subsetD)
      then show ?thesis using s(4) Cons d by (auto simp: f)
    qed
    show "free_block_tail ?g' = last_or None (?f1 @ b # ?f2)"
    proof (cases ?f2 rule: rev_cases)
      case Nil
      then show ?thesis using s(5) by (simp add: f)
    next
      case (snoc ys y)
      then have "y \<in> set bs" by (metis filter_is_subset in_set_conv_decomp subsetD)
      then show ?thesis using s(5) snoc d by (auto simp: f)
    qed
    show "dll (\<lambda>r. prev_free (heap ?g' r)) (\<lambda>r. next_free (heap ?g' r)) None (?f1 @ b # ?f2) None"
    proof (cases mp)
      case True
      then have s6: "dll (\<lambda>r. prev_free (heap g r)) (\<lambda>r. next_free (heap g r)) None ((?f1 @ [b]) @ n # ?f2) None"
        using s(6) b by simp
      have fT: "next_free (heap ?g' x) = (if x = b then next_free (heap g n) else next_free (heap g x))"
        "prev_free (heap ?g' x) = (if next_free (heap g n) = Some x then Some b else prev_free (heap g x))"
        for x by (subst f(1), simp add: True)+
      have "dll (\<lambda>r. prev_free (heap ?g' r)) (\<lambda>r. next_free (heap ?g' r)) None ((?f1 @ [b]) @ ?f2) None"
        by (rule dll_delete [OF s6]) (use s(3) d in \<open>auto simp: fT\<close>)
      then show ?thesis by simp
    next
      case False
      then have s6: "dll (\<lambda>r. prev_free (heap g r)) (\<lambda>r. next_free (heap g r)) None (?f1 @ n # ?f2) None"
        and s2: "prev_free (heap g n) = last_or None ?f1"
        using s(2,6) b by simp_all
      have fF: "next_free (heap ?g' x) = (if x = b then next_free (heap g n) else
           if prev_free (heap g n) = Some x then Some b else next_free (heap g x))"
        "prev_free (heap ?g' x) = (if next_free (heap g n) = Some x then Some b else
           if x = b then prev_free (heap g n) else prev_free (heap g x))"
        for x by (subst f(1), simp add: False)+
      show ?thesis
        by (rule dll_replace [OF s6]) (use s2 s(3) d in \<open>auto simp: fF dest: hd_or_eq_Some\<close>)
    qed
    show "prev_free (heap ?g' x) = None \<and> next_free (heap ?g' x) = None"
      if x: "x \<in> set (as @ b # bs)" "x \<notin> set (?f1 @ b # ?f2)" for x
    proof -
      have "x \<noteq> b" "x \<notin> set fs" "x \<in> set (as @ b # n # bs)"
        using x b by auto
      moreover have "next_free (heap g n) \<noteq> Some x" using s(3) x(2) by (auto dest!: hd_or_eq_Some)
      moreover have "prev_free (heap g n) \<noteq> Some x"
        using s(2) x(2) by (auto dest!: last_or_eq_Some split: if_splits)
      ultimately show ?thesis using free_chainD(4) [OF fc, of x] by (simp add: f)
    qed
  qed
qed

subsection \<open>Linking a block that merges with no neighbour\<close>

lemma find_hd_filter: "find P xs = hd_or None (filter P xs)"
  by (induction xs) auto

lemma prev_free_search_find:
  "path (\<lambda>r. prev_block (heap fl r)) xs \<Longrightarrow> length xs \<le> n \<Longrightarrow>
   prev_free_search n fl (hd_or None xs) = Inr (find (\<lambda>r. \<not> is_allocated fl r) xs)"
proof (induction xs arbitrary: n)
  case (Cons x xs)
  then obtain m where "n = Suc m" by (cases n) auto
  with Cons show ?case by auto
qed simp

lemma next_free_search_find:
  "path (\<lambda>r. next_block (heap fl r)) xs \<Longrightarrow> length xs \<le> n \<Longrightarrow>
   next_free_search n fl (hd_or None xs) = Inr (find (\<lambda>r. \<not> is_allocated fl r) xs)"
proof (induction xs arbitrary: n)
  case (Cons x xs)
  then obtain m where "n = Suc m" by (cases n) auto
  with Cons show ?case by auto
qed simp

lemma free_searches:
  assumes bc: "block_chain fl (as @ r # bs)" and fc: "free_chain fl (as @ r # bs) fs"
  shows "prev_free_search (fresh fl) fl (prev_block (heap fl r)) =
           Inr (last_or None (filter (\<lambda>x. x \<in> set fs) as))"
    and "next_free_search (fresh fl) fl (next_block (heap fl r)) =
           Inr (hd_or None (filter (\<lambda>x. x \<in> set fs) bs))"
proof -
  note s = block_chain_split [OF bc]
  have len: "length as \<le> fresh fl" "length bs \<le> fresh fl" using rep_length [OF bc] by simp_all
  have ia: "\<not> is_allocated fl x \<longleftrightarrow> x \<in> set fs" if "x \<in> set (as @ r # bs)" for x
    using is_allocated_iff [OF fc that] by simp
  have h: "hd_or None (rev xs) = last_or None xs" for xs :: "nat list"
    by (cases xs rule: rev_cases) auto
  have "path (\<lambda>r. prev_block (heap fl r)) (rev as)" "path (\<lambda>r. next_block (heap fl r)) bs"
    using s(6) by (auto dest: dll_path dll_path_rev)
  note ps = this
  have fa: "filter (\<lambda>x. \<not> is_allocated fl x) as = filter (\<lambda>x. x \<in> set fs) as"
    "filter (\<lambda>x. \<not> is_allocated fl x) bs = filter (\<lambda>x. x \<in> set fs) bs"
    using ia by (auto intro: filter_cong)
  show "prev_free_search (fresh fl) fl (prev_block (heap fl r)) =
           Inr (last_or None (filter (\<lambda>x. x \<in> set fs) as))"
    using prev_free_search_find [OF ps(1), of "fresh fl"] len
    by (simp add: s(1) h find_hd_filter fa flip: rev_filter)
  show "next_free_search (fresh fl) fl (next_block (heap fl r)) =
           Inr (hd_or None (filter (\<lambda>x. x \<in> set fs) bs))"
    using next_free_search_find [OF ps(2), of "fresh fl"] len by (simp add: s(2) find_hd_filter fa)
qed

definition link_between :: "nat option \<Rightarrow> nat \<Rightarrow> nat option \<Rightarrow> FreeList \<Rightarrow> FreeList" where
  "link_between p r n fl =
     (let fl = set_prev_free r p fl;
          fl = (case p of Some p \<Rightarrow> set_next_free p (Some r) fl
                        | None \<Rightarrow> fl\<lparr>free_block_head := Some r\<rparr>);
          fl = set_next_free r n fl
      in (case n of Some n \<Rightarrow> set_prev_free n (Some r) fl
                  | None \<Rightarrow> fl\<lparr>free_block_tail := Some r\<rparr>))"

lemma link_between_fields:
  fixes p r n g
  defines "g' \<equiv> link_between p r n g"
  assumes "p \<noteq> Some r" and "n \<noteq> Some r"
  shows "heap g' x = (heap g x)
      \<lparr>prev_free := if x = r then p else if n = Some x then Some r else prev_free (heap g x),
       next_free := if x = r then n else if p = Some x then Some r else next_free (heap g x)\<rparr>"
    and "free_block_head g' = (if p = None then Some r else free_block_head g)"
    and "free_block_tail g' = (if n = None then Some r else free_block_tail g)"
    and "block_head g' = block_head g" and "fresh g' = fresh g" and "same_config g g'"
    and "lowest_occupied g' = lowest_occupied g"
  using assms(2-) unfolding g'_def link_between_def Let_def same_config_def
  by (cases p; cases n; simp)+

lemma link_free_eq:
  assumes "block_chain fl (as @ r # bs)" and "free_chain fl (as @ r # bs) fs"
  shows "link_free r fl = Inr (link_between (last_or None (filter (\<lambda>x. x \<in> set fs) as)) r
     (hd_or None (filter (\<lambda>x. x \<in> set fs) bs)) fl)"
  by (simp add: link_free_def free_searches [OF assms] link_between_def Let_def split: option.split)

lemma link_free_chains:
  assumes bc: "block_chain fl (as @ r # bs)" and fc: "free_chain fl (as @ r # bs) fs" and r: "r \<notin> set fs"
  defines "g' \<equiv> link_between (last_or None (filter (\<lambda>x. x \<in> set fs) as)) r
     (hd_or None (filter (\<lambda>x. x \<in> set fs) bs)) fl"
  shows "block_chain g' (as @ r # bs)"
    and "free_chain g' (as @ r # bs) (filter (\<lambda>x. x \<in> set fs) as @ r # filter (\<lambda>x. x \<in> set fs) bs)"
    and "same_config fl g'" and "lowest_occupied g' = lowest_occupied fl"
    and "address (heap g' x) = address (heap fl x)" and "bsize (heap g' x) = bsize (heap fl x)"
proof -
  let ?f1 = "filter (\<lambda>x. x \<in> set fs) as" and ?f2 = "filter (\<lambda>x. x \<in> set fs) bs"
  note s = block_chain_split [OF bc]
  have fs: "fs = ?f1 @ ?f2" using free_chain_filter [OF fc] r by (auto split: if_splits)
  have ne: "last_or None ?f1 \<noteq> Some r" "hd_or None ?f2 \<noteq> Some r"
    using r by (auto dest!: last_or_eq_Some hd_or_eq_Some)
  note f = link_between_fields [OF ne, of fl, folded g'_def]
  show "block_chain g' (as @ r # bs)" using bc by (simp add: block_chain_def f)
  show "same_config fl g'" "lowest_occupied g' = lowest_occupied fl"
    "address (heap g' x) = address (heap fl x)" "bsize (heap g' x) = bsize (heap fl x)"
    by (simp_all add: f)
  have ch: "dll (\<lambda>r. prev_free (heap fl r)) (\<lambda>r. next_free (heap fl r)) None (?f1 @ ?f2) None"
    and h: "free_block_head fl = hd_or None (?f1 @ ?f2)" "free_block_tail fl = last_or None (?f1 @ ?f2)"
    using free_chainD(1-3) [OF fc] by (simp_all flip: fs)
  show "free_chain g' (as @ r # bs) (?f1 @ r # ?f2)"
  proof (rule free_chainI)
    show "?f1 @ r # ?f2 = filter (\<lambda>x. x \<in> set fs \<or> x = r) (as @ r # bs)"
      using s(3) by (auto intro!: arg_cong2 [where f = append] filter_cong)
    show "free_block_head g' = hd_or None (?f1 @ r # ?f2)" using h(1) by (cases ?f1) (auto simp: f)
    show "free_block_tail g' = last_or None (?f1 @ r # ?f2)"
      using h(2) by (cases ?f2 rule: rev_cases) (auto simp: f)
    show "dll (\<lambda>r. prev_free (heap g' r)) (\<lambda>r. next_free (heap g' r)) None (?f1 @ r # ?f2) None"
      by (rule dll_insert [OF ch]) (use s(3) r in \<open>auto simp: f\<close>)
    show "prev_free (heap g' x) = None \<and> next_free (heap g' x) = None"
      if x: "x \<in> set (as @ r # bs)" "x \<notin> set (?f1 @ r # ?f2)" for x
    proof -
      have "x \<noteq> r" "x \<notin> set fs" using x by auto
      moreover have "last_or None ?f1 \<noteq> Some x" "hd_or None ?f2 \<noteq> Some x"
        using x(2) by (auto dest!: last_or_eq_Some hd_or_eq_Some)
      ultimately show ?thesis using free_chainD(4) [OF fc x(1)] by (simp add: f)
    qed
  qed
qed

end
