(* ===== verification/Free_List_Correct.thy ===== *)
theory Free_List_Correct
  imports Free_List_Dealloc
begin

text \<open>
  The correctness of the free list as a whole: what \<^verbatim>\<open>deallocate\<close> does, that construction
  establishes the invariant, that every sequence of operations keeps it, and the statistics.
\<close>

subsection \<open>Deallocating a block\<close>

definition dealloc_post :: "FreeList \<Rightarrow> nat \<Rightarrow> FreeList \<Rightarrow> bool" where
  "dealloc_post fl a fl' \<longleftrightarrow>
     fl_inv fl' \<and> blocks fl' = coalesce (mark_free a (blocks fl)) \<and>
     same_config fl fl' \<and> lowest_occupied fl' = lowest_occupied fl"

lemma dealloc_postI:
  assumes rep: "rep fl rs fs" and ch: "block_chain fl' rs'" "free_chain fl' rs' fs'"
    and c: "same_config fl fl'" and l: "lowest_occupied fl' = lowest_occupied fl"
    and b: "blocks_of (heap fl') rs' fs' = coalesce (mark_free a (blocks_of (heap fl) rs fs))"
  shows "dealloc_post fl a fl'"
proof -
  have "atiles 0 (blocks_of (heap fl') rs' fs') (max_size_bytes fl')"
    using rep c unfolding b
    by (simp add: rep_def same_config_def atiles_coalesce atiles_mark_free tiles_blocks_of)
  moreover have "no_adjacent_free (blocks_of (heap fl') rs' fs')"
    unfolding b by (rule no_adjacent_free_coalesce)
  moreover have "config_ok fl'" using rep c by (auto simp: rep_def same_config_def intro: config_ok_cong)
  ultimately have "rep fl' rs' fs'"
    using ch by (simp add: rep_def tiles_blocks_of no_adjacent_blocks_of)
  then show ?thesis using rep_inv rep_blocks rep b c l by (simp add: dealloc_post_def)
qed

lemma blocks_of_case_free:
  "(case blocks_of h bs fs of (b, t, True) # zs \<Rightarrow> f t zs | _ \<Rightarrow> e) =
   (case bs of n # bs' \<Rightarrow> if n \<in> set fs then f (bsize (h n)) (blocks_of h bs' fs) else e | [] \<Rightarrow> e)"
  by (cases bs) auto

lemma rep_adjacent_bound:
  assumes "rep fl (as @ x # y # bs) fs"
  shows "bsize (heap fl x) + bsize (heap fl y) < 2 ^ 64"
proof -
  have "tiles (heap fl) 0 (as @ x # y # bs) (max_size_bytes fl)" "max_size_bytes fl < 2 ^ 64"
    using assms by (auto simp: rep_def config_ok_def)
  then show ?thesis by (auto simp: tiles_append dest!: tiles_le)
qed

lemma rep_triple_bound:
  assumes "rep fl (as @ x # y # z # bs) fs"
  shows "bsize (heap fl x) + bsize (heap fl y) + bsize (heap fl z) < 2 ^ 64"
proof -
  have "tiles (heap fl) 0 (as @ x # y # z # bs) (max_size_bytes fl)" "max_size_bytes fl < 2 ^ 64"
    using assms by (auto simp: rep_def config_ok_def)
  then show ?thesis by (auto simp: tiles_append dest!: tiles_le)
qed

lemma spec_after_allocated:
  assumes rep: "rep fl (as @ r # bs) fs" and r: "r \<notin> set fs" and p: "as = [] \<or> last as \<notin> set fs"
  shows "coalesce (mark_free (address (heap fl r)) (blocks_of (heap fl) (as @ r # bs) fs)) =
     blocks_of (heap fl) as fs @
     (case bs of
        n # bs' \<Rightarrow> if n \<in> set fs
          then (address (heap fl r), bsize (heap fl r) + bsize (heap fl n), True) # blocks_of (heap fl) bs' fs
          else (address (heap fl r), bsize (heap fl r), True) # blocks_of (heap fl) bs fs
      | [] \<Rightarrow> (address (heap fl r), bsize (heap fl r), True) # blocks_of (heap fl) bs fs)"
proof -
  have "no_adjacent_free (blocks_of (heap fl) (as @ r # bs) fs)"
    using rep by (simp only: no_adjacent_blocks_of rep_def)
  moreover have "fst x \<noteq> address (heap fl r)" if "x \<in> set (blocks_of (heap fl) as fs)" for x
    using that rep_address_neq [OF rep] by (auto simp: blocks_of_def)
  moreover have "blocks_of (heap fl) as fs = [] \<or> \<not> is_free (last (blocks_of (heap fl) as fs))"
    using p by (auto simp: blocks_of_def last_map)
  ultimately show ?thesis
    using r free_after_allocated [of "blocks_of (heap fl) as fs" "address (heap fl r)"
      "bsize (heap fl r)" "blocks_of (heap fl) bs fs"]
    by (simp add: blocks_of_case_free)
qed

lemma spec_after_free:
  assumes rep: "rep fl (as @ p # r # bs) fs" and r: "r \<notin> set fs" and p: "p \<in> set fs"
  shows "coalesce (mark_free (address (heap fl r)) (blocks_of (heap fl) (as @ p # r # bs) fs)) =
     blocks_of (heap fl) as fs @
     (case bs of
        n # bs' \<Rightarrow> if n \<in> set fs
          then (address (heap fl p), bsize (heap fl p) + bsize (heap fl r) + bsize (heap fl n), True) #
               blocks_of (heap fl) bs' fs
          else (address (heap fl p), bsize (heap fl p) + bsize (heap fl r), True) # blocks_of (heap fl) bs fs
      | [] \<Rightarrow> (address (heap fl p), bsize (heap fl p) + bsize (heap fl r), True) # blocks_of (heap fl) bs fs)"
proof -
  have rep': "rep fl ((as @ [p]) @ r # bs) fs" using rep by simp
  have "no_adjacent_free (blocks_of (heap fl) (as @ p # r # bs) fs)"
    using rep by (simp only: no_adjacent_blocks_of rep_def)
  moreover have "fst x \<noteq> address (heap fl r)" if "x \<in> set (blocks_of (heap fl) as fs)" for x
    using that rep_address_neq [OF rep'] by (auto simp: blocks_of_def)
  moreover have "address (heap fl p) \<noteq> address (heap fl r)" using rep_address_neq [OF rep', of p] by simp
  ultimately show ?thesis
    using r p free_after_free [of "blocks_of (heap fl) as fs" "address (heap fl p)" "bsize (heap fl p)"
      "address (heap fl r)" "bsize (heap fl r)" "blocks_of (heap fl) bs fs"]
    by (simp add: blocks_of_case_free)
qed

lemma free_not_merged:
  assumes rep: "rep fl (as @ r # bs) fs" and r: "r \<notin> set fs"
    and p: "as = [] \<or> last as \<notin> set fs" and n: "bs = [] \<or> hd bs \<notin> set fs"
  shows "\<exists>fl'. deallocate_block r fl = Inr fl' \<and> dealloc_post fl (address (heap fl r)) fl'"
proof -
  have bc: "block_chain fl (as @ r # bs)" and fc: "free_chain fl (as @ r # bs) fs"
    using rep by (simp_all add: rep_def)
  note s = block_chain_split [OF bc] and l = link_free_chains [OF bc fc r]
  let ?fs' = "filter (\<lambda>x. x \<in> set fs) as @ r # filter (\<lambda>x. x \<in> set fs) bs"
  let ?g = "link_between (last_or None (filter (\<lambda>x. x \<in> set fs) as)) r
     (hd_or None (filter (\<lambda>x. x \<in> set fs) bs)) fl"
  have pa: "is_allocated fl q" if "last_or None as = Some q" for q
    using that p is_allocated_iff [OF fc, of q] by (cases as rule: rev_cases) auto
  have na: "is_allocated fl q" if "hd_or None bs = Some q" for q
    using that n is_allocated_iff [OF fc, of q] by (cases bs) auto
  have "deallocate_block r fl = link_free r fl"
    using pa na by (simp add: deallocate_block_def Let_def s(1,2) split: option.split)
  then have e: "deallocate_block r fl = Inr ?g" by (simp add: link_free_eq [OF bc fc])
  have "blocks_of (heap ?g) as ?fs' = blocks_of (heap fl) as fs"
    "blocks_of (heap ?g) bs ?fs' = blocks_of (heap fl) bs fs"
    using s(3) by (auto simp: l(5,6) intro!: blocks_of_cong)
  moreover have "coalesce (mark_free (address (heap fl r)) (blocks_of (heap fl) (as @ r # bs) fs)) =
      blocks_of (heap fl) as fs @ (address (heap fl r), bsize (heap fl r), True) # blocks_of (heap fl) bs fs"
    unfolding spec_after_allocated [OF rep r p] using n by (cases bs) auto
  ultimately have "dealloc_post fl (address (heap fl r)) ?g"
    by (intro dealloc_postI [OF rep l(1,2,3,4)]) (simp add: l(5,6))
  with e show ?thesis by blast
qed

lemma free_merge_next:
  assumes rep: "rep fl (as @ r # n # bs) fs" and r: "r \<notin> set fs" and n: "n \<in> set fs"
    and p: "as = [] \<or> last as \<notin> set fs"
  shows "\<exists>fl'. deallocate_block r fl = Inr fl' \<and> dealloc_post fl (address (heap fl r)) fl'"
proof -
  have bc: "block_chain fl (as @ r # n # bs)" and fc: "free_chain fl (as @ r # n # bs) fs"
    using rep by (simp_all add: rep_def)
  have f: "False \<longleftrightarrow> r \<in> set fs" using r by simp
  note s = block_chain_split [OF bc] and l = merge_next_chains [OF bc fc n f]
  let ?fs' = "filter (\<lambda>x. x \<in> set fs) as @ r # filter (\<lambda>x. x \<in> set fs) bs"
  let ?g = "merge_next n r False fl"
  have "is_allocated fl q" if "last_or None as = Some q" for q
    using that p is_allocated_iff [OF fc, of q] by (cases as rule: rev_cases) auto
  moreover have "\<not> is_allocated fl n" using is_allocated_iff [OF fc, of n] n by simp
  ultimately have e: "deallocate_block r fl = Inr ?g"
    by (simp add: deallocate_block_def Let_def s(1,2) split: option.split)
  have w: "add64 (bsize (heap fl r)) (bsize (heap fl n)) = bsize (heap fl r) + bsize (heap fl n)"
    using rep_adjacent_bound [OF rep] by (simp add: nowrap)
  have "blocks_of (heap ?g) as ?fs' = blocks_of (heap fl) as fs"
    "blocks_of (heap ?g) bs ?fs' = blocks_of (heap fl) bs fs"
    using s(3) by (auto simp: l(5,6) intro!: blocks_of_cong)
  then have "dealloc_post fl (address (heap fl r)) ?g"
    by (intro dealloc_postI [OF rep l(1,2,3,4)])
      (subst spec_after_allocated [OF rep r p], simp add: n l(5,6) w)
  with e show ?thesis by blast
qed

lemma merge_prev_rep:
  assumes rep: "rep fl (as @ p # r # bs) fs"
  shows "same_config fl (merge_prev p r fl)" and "lowest_occupied (merge_prev p r fl) = lowest_occupied fl"
    and "address (heap (merge_prev p r fl) x) = address (heap fl x)"
    and "bsize (heap (merge_prev p r fl) x) =
           (if x = p then bsize (heap fl p) + bsize (heap fl r) else bsize (heap fl x))"
proof -
  have bc: "block_chain fl (as @ p # r # bs)" using rep by (simp_all add: rep_def)
  note f = merge_prev_fields [OF absorb_ne [OF bc]]
  show "same_config fl (merge_prev p r fl)" "lowest_occupied (merge_prev p r fl) = lowest_occupied fl"
    "address (heap (merge_prev p r fl) x) = address (heap fl x)"
    by (simp_all add: f)
  show "bsize (heap (merge_prev p r fl) x) =
           (if x = p then bsize (heap fl p) + bsize (heap fl r) else bsize (heap fl x))"
    using rep_adjacent_bound [OF rep] by (simp add: f nowrap)
qed

lemma free_merge_prev:
  assumes rep: "rep fl (as @ p # r # bs) fs" and r: "r \<notin> set fs" and p: "p \<in> set fs"
    and n: "bs = [] \<or> hd bs \<notin> set fs"
  shows "\<exists>fl'. deallocate_block r fl = Inr fl' \<and> dealloc_post fl (address (heap fl r)) fl'"
proof -
  have bc: "block_chain fl (as @ p # r # bs)" and fc: "free_chain fl (as @ p # r # bs) fs"
    using rep by (simp_all add: rep_def)
  have bc': "block_chain fl ((as @ [p]) @ r # bs)" using bc by simp
  note s = block_chain_split [OF bc'] and l = merge_prev_chains [OF bc fc r] and m = merge_prev_rep [OF rep]
  let ?g = "merge_prev p r fl"
  have pa: "\<not> is_allocated fl p" using is_allocated_iff [OF fc, of p] p by simp
  have na: "is_allocated ?g q" if "hd_or None bs = Some q" for q
    using that n is_allocated_iff [OF l(2), of q] by (cases bs) auto
  have e: "deallocate_block r fl = Inr ?g"
    using pa na by (simp add: deallocate_block_def Let_def s(1,2) split: option.split)
  have "blocks_of (heap ?g) as fs = blocks_of (heap fl) as fs"
    "blocks_of (heap ?g) bs fs = blocks_of (heap fl) bs fs"
    using s(3) by (auto simp: m(3,4) intro!: blocks_of_cong)
  then have "dealloc_post fl (address (heap fl r)) ?g"
    using n p by (intro dealloc_postI [OF rep l m(1,2)])
      (subst spec_after_free [OF rep r p], cases bs; auto simp: m(3,4))
  with e show ?thesis by blast
qed

lemma free_merge_both:
  assumes rep: "rep fl (as @ p # r # n # bs) fs" and r: "r \<notin> set fs" and p: "p \<in> set fs"
    and n: "n \<in> set fs"
  shows "\<exists>fl'. deallocate_block r fl = Inr fl' \<and> dealloc_post fl (address (heap fl r)) fl'"
proof -
  have bc: "block_chain fl (as @ p # r # n # bs)" and fc: "free_chain fl (as @ p # r # n # bs) fs"
    using rep by (simp_all add: rep_def)
  have bc': "block_chain fl ((as @ [p]) @ r # n # bs)" using bc by simp
  note s = block_chain_split [OF bc'] and l = merge_prev_chains [OF bc fc r] and m = merge_prev_rep [OF rep]
  let ?g1 = "merge_prev p r fl" and ?g = "merge_next n p True (merge_prev p r fl)"
  let ?fs' = "filter (\<lambda>x. x \<in> set fs) as @ p # filter (\<lambda>x. x \<in> set fs) bs"
  have t: "True \<longleftrightarrow> p \<in> set fs" using p by simp
  note l2 = merge_next_chains [OF l n t]
  have pa: "\<not> is_allocated fl p" using is_allocated_iff [OF fc, of p] p by simp
  have na: "\<not> is_allocated ?g1 n" using is_allocated_iff [OF l(2), of n] n by simp
  have e: "deallocate_block r fl = Inr ?g"
    using pa na by (simp add: deallocate_block_def Let_def s(1,2))
  have ne: "n \<noteq> p" using s(3) by auto
  have w: "add64 (bsize (heap fl p) + bsize (heap fl r)) (bsize (heap fl n)) =
      bsize (heap fl p) + bsize (heap fl r) + bsize (heap fl n)"
    using rep_triple_bound [OF rep] by (simp add: nowrap)
  have "blocks_of (heap ?g) as ?fs' = blocks_of (heap fl) as fs"
    "blocks_of (heap ?g) bs ?fs' = blocks_of (heap fl) bs fs"
    using s(3) by (auto simp: l2(5,6) m(3,4) intro!: blocks_of_cong)
  then have "blocks_of (heap ?g) (as @ p # bs) ?fs' =
      coalesce (mark_free (address (heap fl r)) (blocks_of (heap fl) (as @ p # r # n # bs) fs))"
    by (subst spec_after_free [OF rep r p]) (simp add: n l2(5,6) m(3,4) w ne)
  then have "dealloc_post fl (address (heap fl r)) ?g"
    using same_config_trans [OF m(1) l2(3)] l2(4) m(2) by (intro dealloc_postI [OF rep l2(1,2)]) simp_all
  with e show ?thesis by blast
qed

lemma deallocate_block_correct:
  assumes rep: "rep fl rs fs" and r: "r \<in> set rs" "r \<notin> set fs"
  shows "\<exists>fl'. deallocate_block r fl = Inr fl' \<and> dealloc_post fl (address (heap fl r)) fl'"
proof -
  obtain as bs where rs: "rs = as @ r # bs" using r(1) by (auto dest: split_list)
  note rep' = rep [unfolded rs]
  consider "as = [] \<or> last as \<notin> set fs" "bs = [] \<or> hd bs \<notin> set fs"
    | n bs' where "as = [] \<or> last as \<notin> set fs" "bs = n # bs'" "n \<in> set fs"
    | as' p where "as = as' @ [p]" "p \<in> set fs" "bs = [] \<or> hd bs \<notin> set fs"
    | as' p n bs' where "as = as' @ [p]" "p \<in> set fs" "bs = n # bs'" "n \<in> set fs"
    by (cases as rule: rev_cases; cases bs) auto
  then show ?thesis
  proof cases
    case 1
    then show ?thesis by (rule free_not_merged [OF rep' r(2)])
  next
    case 2
    then show ?thesis using free_merge_next [OF _ r(2)] rep' by auto
  next
    case 3
    then show ?thesis using free_merge_prev [OF _ r(2)] rep' by auto
  next
    case 4
    then show ?thesis using free_merge_both [OF _ r(2)] rep' by auto
  qed
qed

subsection \<open>Finding a block and the lowest occupied one\<close>

lemma rep_path:
  assumes "rep fl rs fs"
  shows "path (\<lambda>r. next_block (heap fl r)) rs" and "length rs \<le> fresh fl"
    and "block_head fl = hd_or None rs"
  using assms rep_length by (auto simp: rep_def block_chain_def dest: dll_path)

lemma find_block_loop_find:
  "path (\<lambda>r. next_block (heap fl r)) xs \<Longrightarrow> length xs \<le> n \<Longrightarrow>
   find_block_loop n fl a (hd_or None xs) = Inr (find (\<lambda>r. address (heap fl r) = a) xs)"
proof (induction xs arbitrary: n)
  case (Cons x xs)
  then obtain m where "n = Suc m" by (cases n) auto
  with Cons show ?case by auto
qed simp

lemma find_block_eq:
  "rep fl rs fs \<Longrightarrow> find_block fl a = Inr (find (\<lambda>r. address (heap fl r) = a) rs)"
  using rep_path by (simp add: find_block_def find_block_loop_find)

lemma lowest_loop_find:
  "path (\<lambda>r. next_block (heap fl r)) xs \<Longrightarrow> length xs \<le> n \<Longrightarrow>
   update_lowest_occupied_address_loop n fl (hd_or None xs) = Inr (find (is_allocated fl) xs)"
proof (induction xs arbitrary: n)
  case (Cons x xs)
  then obtain m where "n = Suc m" by (cases n) auto
  with Cons show ?case by auto
qed simp

lemma allocated_blocks_of:
  "allocated (blocks_of h rs fs) = (\<lambda>r. (address (h r), bsize (h r))) ` {r \<in> set rs. r \<notin> set fs}"
  by (induction rs) auto

lemma allocated_rep:
  assumes "rep fl rs fs"
  shows "fst ` allocated (blocks fl) = (\<lambda>r. address (heap fl r)) ` {r \<in> set rs. is_allocated fl r}"
proof -
  have "free_chain fl rs fs" using assms by (simp add: rep_def)
  then have "{r \<in> set rs. is_allocated fl r} = {r \<in> set rs. r \<notin> set fs}"
    by (auto simp: is_allocated_iff)
  then show ?thesis by (simp add: rep_blocks [OF assms] allocated_blocks_of image_image)
qed

lemma find_Some_split:
  "find P xs = Some x \<Longrightarrow> \<exists>ys zs. xs = ys @ x # zs \<and> P x \<and> (\<forall>y\<in>set ys. \<not> P y)"
proof (induction xs)
  case (Cons y xs)
  show ?case
  proof (cases "P y")
    case True
    with Cons.prems show ?thesis by (intro exI [of _ "[]"] exI [of _ xs]) auto
  next
    case False
    with Cons obtain ys zs where "xs = ys @ x # zs" "P x" "\<forall>y\<in>set ys. \<not> P y" by auto
    with False show ?thesis by (intro exI [of _ "y # ys"] exI [of _ zs]) auto
  qed
qed simp

lemma tiles_first_lowest:
  "tiles h a (xs @ r # ys) e \<Longrightarrow> y \<in> set ys \<Longrightarrow> address (h r) \<le> address (h y)"
  by (auto simp: tiles_append dest!: tiles_bounds)

lemma update_lowest_correct:
  assumes "fl_inv fl"
  shows "\<exists>v. update_lowest_occupied_address fl = Inr (fl\<lparr>lowest_occupied := v\<rparr>) \<and>
     lowest_ok (fl\<lparr>lowest_occupied := v\<rparr>)"
proof -
  note rep = inv_rep [OF assms]
  let ?rs = "refs fl" and ?r = "find (is_allocated fl) (refs fl)"
  let ?v = "map_option (\<lambda>r. address (heap fl r)) ?r"
  have e: "update_lowest_occupied_address fl = Inr (fl\<lparr>lowest_occupied := ?v\<rparr>)"
    using lowest_loop_find [of fl ?rs "fresh fl"] rep_path [OF rep]
    by (simp add: update_lowest_occupied_address_def split: option.split)
  have "lowest_ok (fl\<lparr>lowest_occupied := ?v\<rparr>)"
  proof (cases ?r)
    case None
    then have "fst ` allocated (blocks fl) = {}" by (auto simp: allocated_rep [OF rep] find_None_iff)
    then show ?thesis using None by (simp add: lowest_ok_def)
  next
    case (Some r)
    then obtain xs ys where xs: "?rs = xs @ r # ys" "is_allocated fl r" "\<And>x. x \<in> set xs \<Longrightarrow> \<not> is_allocated fl x"
      using find_Some_split [OF Some] by blast
    have "tiles (heap fl) 0 (xs @ r # ys) (max_size_bytes fl)" using rep xs by (simp add: rep_def)
    then have "address (heap fl r) \<le> address (heap fl y)" if "y \<in> set ?rs" "is_allocated fl y" for y
      using that xs tiles_first_lowest by fastforce
    then show ?thesis using Some xs by (auto simp: lowest_ok_def allocated_rep [OF rep])
  qed
  with e show ?thesis by blast
qed

subsection \<open>deallocate\<close>

definition free_post :: "FreeList \<Rightarrow> nat \<Rightarrow> FreeList \<Rightarrow> bool" where
  "free_post fl a fl' \<longleftrightarrow>
     fl_inv fl' \<and> blocks fl' = coalesce (mark_free a (blocks fl)) \<and> same_config fl fl' \<and>
     (lowest_ok fl \<longrightarrow> lowest_ok fl')"

lemma lowest_ok_remove:
  assumes "lowest_ok fl" and "lowest_occupied fl' = lowest_occupied fl" and "lowest_occupied fl \<noteq> Some a"
    and "allocated (blocks fl') = allocated (blocks fl) - {(a, s)}" and "(a, s) \<in> allocated (blocks fl)"
  shows "lowest_ok fl'"
proof -
  obtain l where l: "lowest_occupied fl = Some l" "l \<in> fst ` allocated (blocks fl)"
    using assms(1,5) by (auto simp: lowest_ok_def split: option.splits)
  then have "l \<in> fst ` allocated (blocks fl')" using assms(3,4) by force
  then show ?thesis using assms l by (auto simp: lowest_ok_def)
qed

lemma deallocate_cases:
  fixes addr :: nat
  assumes fl_inv: "fl_inv fl"
  defines "a \<equiv> sub64 addr (offset_bytes fl)"
  obtains (absent) "deallocate addr fl = Inr fl" "\<And>s. (a, s, False) \<notin> set (blocks fl)"
  | (freed) s fl' where "(a, s, False) \<in> set (blocks fl)" "deallocate addr fl = Inr fl'" "free_post fl a fl'"
proof -
  note rep = inv_rep [OF fl_inv]
  have fc: "free_chain fl (refs fl) (free_refs fl)" using rep by (simp add: rep_def)
  have d: "deallocate addr fl = (case find (\<lambda>r. address (heap fl r) = a) (refs fl) of
        None \<Rightarrow> Inr fl
      | Some r \<Rightarrow> if \<not> is_allocated fl r then Inr fl
        else rbind (deallocate_block r fl) (\<lambda>fl.
             if Some a = lowest_occupied fl then update_lowest_occupied_address fl else Inr fl))"
    unfolding a_def by (simp add: deallocate_def Let_def find_block_eq [OF rep])
  show ?thesis
  proof (cases "find (\<lambda>r. address (heap fl r) = a) (refs fl)")
    case None
    then have "deallocate addr fl = Inr fl" using d by simp
    moreover have "\<And>r. r \<in> set (refs fl) \<Longrightarrow> address (heap fl r) \<noteq> a"
      using None by (auto simp: find_None_iff)
    ultimately show ?thesis by (intro absent) (auto simp: rep_alloc_in_blocks [OF rep])
  next
    case (Some r)
    then have r: "r \<in> set (refs fl)" "address (heap fl r) = a" by (auto simp: find_Some_iff)
    have uniq: "x = r" if "x \<in> set (refs fl)" "address (heap fl x) = a" for x
      using that r rep tiles_address_inj unfolding rep_def by metis
    show ?thesis
    proof (cases "is_allocated fl r")
      case False
      then have "r \<in> set (free_refs fl)" using is_allocated_iff [OF fc r(1)] by simp
      then show ?thesis using d False Some uniq
        by (intro absent) (auto simp: rep_alloc_in_blocks [OF rep])
    next
      case True
      then have nf: "r \<notin> set (free_refs fl)" using is_allocated_iff [OF fc r(1)] by simp
      let ?s = "bsize (heap fl r)"
      have m: "(a, ?s, False) \<in> set (blocks fl)" using r nf by (auto simp: rep_alloc_in_blocks [OF rep])
      obtain g where g: "deallocate_block r fl = Inr g" "dealloc_post fl a g"
        using deallocate_block_correct [OF rep r(1) nf] r(2) by auto
      note gp = g(2) [unfolded dealloc_post_def]
      have al: "allocated (blocks g) = allocated (blocks fl) - {(a, ?s)}"
        using gp allocated_mark_free [OF inv_tiles [OF fl_inv] m] by simp
      have d': "deallocate addr fl =
          (if Some a = lowest_occupied g then update_lowest_occupied_address g else Inr g)"
        using d Some True g(1) by simp
      show ?thesis
      proof (cases "Some a = lowest_occupied g")
        case True
        obtain v where v: "update_lowest_occupied_address g = Inr (g\<lparr>lowest_occupied := v\<rparr>)"
          "lowest_ok (g\<lparr>lowest_occupied := v\<rparr>)" using update_lowest_correct gp by blast
        show ?thesis
          by (rule freed [OF m]) (use v True gp d' in \<open>auto simp: free_post_def\<close>)
      next
        case False
        have "lowest_ok g" if "lowest_ok fl"
          using lowest_ok_remove [OF that _ _ al] False gp m by (simp add: in_allocated)
        then show ?thesis
          by (intro freed [OF m]) (use False gp d' in \<open>auto simp: free_post_def\<close>)
      qed
    qed
  qed
qed

end
