(* ===== verification/Free_List_Spec.thy ===== *)
theory Free_List_Spec
  imports Free_List_Correct
begin

text \<open>
  The free list as the allocation algorithm the bank manager relies on.  The locale
  \<open>alloc_algorithm\<close> is the contract of the abstract class \<^verbatim>\<open>allocator::Algorithm\<close>, over the set of
  allocated regions; its client lemmas are proved once, and \<open>free_list\<close> interprets it with the
  operations of \<^verbatim>\<open>free_list.cpp\<close>.
\<close>

subsection \<open>The contract of an allocation algorithm\<close>

locale alloc_algorithm =
  fixes valid :: "'s \<Rightarrow> bool" and regs :: "'s \<Rightarrow> (nat \<times> nat) set"
    and ok_size :: "'s \<Rightarrow> nat \<Rightarrow> bool" and rounded :: "'s \<Rightarrow> nat \<Rightarrow> nat"
    and alloc :: "nat \<Rightarrow> bool \<Rightarrow> nat \<Rightarrow> 's \<Rightarrow> nat option result \<times> 's"
    and dealloc :: "nat \<Rightarrow> 's \<Rightarrow> 's result"
  assumes regs_disjoint: "valid s \<Longrightarrow> (a, m) \<in> regs s \<Longrightarrow> (b, n) \<in> regs s \<Longrightarrow>
      (a, m) = (b, n) \<or> a + m \<le> b \<or> b + n \<le> a"
    and regs_positive: "valid s \<Longrightarrow> (a, m) \<in> regs s \<Longrightarrow> 0 < m"
    and regs_word: "valid s \<Longrightarrow> (a, m) \<in> regs s \<Longrightarrow> a < 2 ^ 64"
    and regs_finite: "finite (regs s)"
    and alloc_valid: "valid s \<Longrightarrow> ok_size s n \<Longrightarrow> valid (snd (alloc n up limit s))"
    and alloc_size: "valid s \<Longrightarrow> ok_size s n \<Longrightarrow> ok_size (snd (alloc n up limit s)) k = ok_size s k"
    and alloc_regs: "valid s \<Longrightarrow> ok_size s n \<Longrightarrow> alloc n up limit s = (Inr (Some a), s') \<Longrightarrow>
      regs s' = insert (a, rounded s n) (regs s) \<and> (a, rounded s n) \<notin> regs s \<and> limit \<le> a"
    and alloc_none: "valid s \<Longrightarrow> ok_size s n \<Longrightarrow> alloc n up limit s = (Inr None, s') \<Longrightarrow> s' = s"
    and dealloc_total: "valid s \<Longrightarrow> \<exists>s'. dealloc a s = Inr s'"
    and dealloc_valid: "valid s \<Longrightarrow> dealloc a s = Inr s' \<Longrightarrow> valid s'"
    and dealloc_regs: "valid s \<Longrightarrow> a < 2 ^ 64 \<Longrightarrow> dealloc a s = Inr s' \<Longrightarrow>
      regs s' = {r \<in> regs s. fst r \<noteq> a}"
begin

lemma regs_address_unique: "valid s \<Longrightarrow> (a, m) \<in> regs s \<Longrightarrow> (a, n) \<in> regs s \<Longrightarrow> m = n"
  using regs_disjoint regs_positive by fastforce

text \<open>A new region has an address no live region has, and freeing it gives back the old regions.\<close>

lemma alloc_fresh_address:
  assumes "valid s" and "ok_size s n" and "alloc n up limit s = (Inr (Some a), s')"
  shows "\<forall>r\<in>regs s. fst r \<noteq> a"
proof
  fix r assume r: "r \<in> regs s"
  have v: "valid s'" using alloc_valid [OF assms(1,2), of up limit] assms(3) by simp
  have i: "regs s' = insert (a, rounded s n) (regs s)" "(a, rounded s n) \<notin> regs s"
    using alloc_regs [OF assms] by auto
  show "fst r \<noteq> a"
  proof
    assume "fst r = a"
    then have "(a, snd r) \<in> regs s'" "(a, rounded s n) \<in> regs s'" using r i(1) by (auto simp: prod_eq_iff)
    then have "snd r = rounded s n" using regs_address_unique [OF v] by blast
    with \<open>fst r = a\<close> r i(2) show False by (metis prod.collapse)
  qed
qed

lemma alloc_dealloc_regs:
  assumes "valid s" and "ok_size s n" and "alloc n up limit s = (Inr (Some a), s')"
    and "dealloc a s' = Inr s''"
  shows "regs s'' = regs s"
proof -
  have v: "valid s'" using alloc_valid [OF assms(1,2), of up limit] assms(3) by simp
  have i: "regs s' = insert (a, rounded s n) (regs s)" using alloc_regs [OF assms(1-3)] by simp
  have "a < 2 ^ 64" using regs_word [OF v, of a "rounded s n"] i by simp
  from dealloc_regs [OF v this assms(4)] show ?thesis
    using alloc_fresh_address [OF assms(1-3)] by (auto simp: i)
qed

text \<open>Freeing a list of addresses, as a client that owns the buffers at those addresses does.\<close>

fun dealloc_list :: "nat list \<Rightarrow> 's \<Rightarrow> 's result" where
  "dealloc_list [] s = Inr s"
| "dealloc_list (a # as) s = rbind (dealloc a s) (dealloc_list as)"

lemma dealloc_list_correct:
  "valid s \<Longrightarrow> \<forall>a\<in>set as. a < 2 ^ 64 \<Longrightarrow>
   \<exists>s'. dealloc_list as s = Inr s' \<and> valid s' \<and> regs s' = {r \<in> regs s. fst r \<notin> set as}"
proof (induction as arbitrary: s)
  case (Cons a as)
  obtain t where t: "dealloc a s = Inr t" using dealloc_total [OF Cons.prems(1)] by blast
  have "valid t" "regs t = {r \<in> regs s. fst r \<noteq> a}"
    using dealloc_valid [OF Cons.prems(1) t] dealloc_regs [OF Cons.prems(1) _ t] Cons.prems(2) by auto
  then show ?case using Cons.IH [of t] Cons.prems(2) t by auto
qed simp

lemma dealloc_all_empty:
  assumes "valid s" and "fst ` regs s \<subseteq> set as" and "\<forall>a\<in>set as. a < 2 ^ 64"
  shows "\<exists>s'. dealloc_list as s = Inr s' \<and> valid s' \<and> regs s' = {}"
  using dealloc_list_correct [OF assms(1,3)] assms(2) by force

end

subsection \<open>Regions of the free list\<close>

lemma in_regions:
  "(a, s) \<in> regions fl \<longleftrightarrow> (\<exists>b. a = b + offset_bytes fl \<and> (b, s, False) \<in> set (blocks fl))"
  by (force simp: regions_def in_allocated [symmetric])

lemma regions_disjoint:
  "fl_inv fl \<Longrightarrow> (a, m) \<in> regions fl \<Longrightarrow> (b, n) \<in> regions fl \<Longrightarrow>
   (a, m) = (b, n) \<or> a + m \<le> b \<or> b + n \<le> a"
  using atiles_disjoint [OF inv_tiles, of fl "a - offset_bytes fl" m False "b - offset_bytes fl" n False]
  by (auto simp: in_regions)

lemma regions_range:
  "fl_inv fl \<Longrightarrow> (a, m) \<in> regions fl \<Longrightarrow>
   offset_bytes fl \<le> a \<and> a + m \<le> offset_bytes fl + max_size_bytes fl \<and> 0 < m"
  by (auto simp: in_regions dest!: atiles_bounds [OF inv_tiles])

lemma regions_word: "fl_inv fl \<Longrightarrow> (a, m) \<in> regions fl \<Longrightarrow> a < 2 ^ 64"
  using regions_range [of fl a m] inv_config [of fl] by (auto simp: config_ok_def)

lemma regions_finite: "finite (regions fl)"
  by (simp add: regions_def allocated_def)

lemma carve_regions:
  assumes "fl_inv fl" and "(a, s, True) \<in> set (blocks fl)" and "alloc_post fl a off sz fl'"
    and "0 < sz" and "off + sz \<le> s"
  shows "regions fl' = insert (a + off + offset_bytes fl, sz) (regions fl)"
    and "(a + off + offset_bytes fl, sz) \<notin> regions fl"
proof -
  have b: "blocks fl' = carve a off sz (blocks fl)" and c: "offset_bytes fl' = offset_bytes fl"
    using assms(3) by (simp_all add: alloc_post_def same_config_def)
  show "regions fl' = insert (a + off + offset_bytes fl, sz) (regions fl)"
    unfolding regions_def b c allocated_carve [OF inv_tiles [OF assms(1)] assms(2)] by simp
  show "(a + off + offset_bytes fl, sz) \<notin> regions fl"
  proof
    assume "(a + off + offset_bytes fl, sz) \<in> regions fl"
    then have "(a + off, sz, False) \<in> set (blocks fl)" by (auto simp: in_regions)
    from atiles_disjoint [OF inv_tiles [OF assms(1)] this assms(2)] show False
      using assms(4,5) by auto
  qed
qed

lemma shift_filter:
  "(\<lambda>(b, s). (b + k, s)) ` {r \<in> A. fst r \<noteq> a} = {r \<in> (\<lambda>(b, s). (b + k, s)) ` A. fst r \<noteq> a + (k :: nat)}"
  by auto

lemma free_regions:
  assumes fl_inv: "fl_inv fl" and "(a, s, False) \<in> set (blocks fl)" and "free_post fl a fl'"
  shows "regions fl' = {r \<in> regions fl. fst r \<noteq> a + offset_bytes fl}"
proof -
  have b: "blocks fl' = coalesce (mark_free a (blocks fl))" and c: "offset_bytes fl' = offset_bytes fl"
    using assms(3) by (simp_all add: free_post_def same_config_def)
  have u: "t = s" if "(a, t) \<in> allocated (blocks fl)" for t
    using that atiles_unique [OF inv_tiles [OF fl_inv] assms(2), of t False] by (simp add: in_allocated)
  have "allocated (blocks fl') = allocated (blocks fl) - {(a, s)}"
    unfolding b by (simp add: allocated_mark_free [OF inv_tiles [OF fl_inv] assms(2)])
  also have "\<dots> = {r \<in> allocated (blocks fl). fst r \<noteq> a}"
    using assms(2) by (auto simp: in_allocated dest: u [unfolded in_allocated])
  finally show ?thesis by (simp only: regions_def c shift_filter)
qed

lemma offset_sub_add:
  assumes "config_ok fl" and "b < 2 ^ 64" and "sub64 b (offset_bytes fl) < max_size_bytes fl"
  shows "b = sub64 b (offset_bytes fl) + offset_bytes fl"
proof (cases "offset_bytes fl \<le> b")
  case True
  then show ?thesis using assms(2) by (simp add: nowrap)
next
  case False
  have c: "offset_bytes fl + max_size_bytes fl < 2 ^ 64" using assms(1) by (simp add: config_ok_def)
  have "sub64 b (offset_bytes fl) = 2 ^ 64 - (offset_bytes fl - b)"
    by (rule wsub_borrow) (use False c in linarith)+
  then show ?thesis using assms(3) c by linarith
qed

subsection \<open>The operations over regions\<close>

lemma alloc_offset_le: "sz \<le> s \<Longrightarrow> alloc_offset up s sz + sz \<le> s"
  by (simp add: alloc_offset_def)

lemma allocate_keeps:
  assumes "fl_inv fl" and "size_ok fl n"
  shows "fl_inv (snd (allocate n up limit fl))" and "same_config fl (snd (allocate n up limit fl))"
    and "lowest_ok fl \<Longrightarrow> lowest_ok (snd (allocate n up limit fl))"
  by (rule allocate_cases [OF assms, of up limit], auto simp: alloc_post_def assms(1))+

lemma allocate_regions:
  assumes "fl_inv fl" and "size_ok fl n" and "allocate n up limit fl = (Inr (Some a), fl')"
  shows "regions fl' = insert (a, alloc_size_of fl n) (regions fl)"
    and "(a, alloc_size_of fl n) \<notin> regions fl" and "limit \<le> a"
proof -
  have sz: "0 < alloc_size_of fl n"
    by (rule alloc_size_spec(4) [OF inv_config [OF assms(1)] assms(2)])
  have "regions fl' = insert (a, alloc_size_of fl n) (regions fl) \<and>
      (a, alloc_size_of fl n) \<notin> regions fl \<and> limit \<le> a"
  proof (rule allocate_cases [OF assms(1,2), of up limit])
    fix b s fl1 assume b: "(b, s, True) \<in> set (blocks fl)" "alloc_size_of fl n \<le> s"
      "alloc_post fl b (alloc_offset up s (alloc_size_of fl n)) (alloc_size_of fl n) fl1"
      "allocate n up limit fl =
         (if b + alloc_offset up s (alloc_size_of fl n) + offset_bytes fl < limit
          then Inl (TT_THROW ''Out of Memory: Cannot allocate at an address below the limit'')
          else Inr (Some (b + alloc_offset up s (alloc_size_of fl n) + offset_bytes fl)), fl1)"
    show ?thesis
      using assms(3) b(4) carve_regions [OF assms(1) b(1) b(3) sz alloc_offset_le [OF b(2)]]
      by (auto split: if_splits)
  qed (use assms(3) in simp)
  then show "regions fl' = insert (a, alloc_size_of fl n) (regions fl)"
    "(a, alloc_size_of fl n) \<notin> regions fl" "limit \<le> a" by auto
qed

lemma allocate_none:
  assumes "fl_inv fl" and "size_ok fl n" and "allocate n up limit fl = (Inr None, fl')"
  shows "fl' = fl"
  using assms(3) by (auto intro: allocate_cases [OF assms(1,2), of up limit] split: if_splits)

lemma deallocate_total: "fl_inv fl \<Longrightarrow> \<exists>fl'. deallocate a fl = Inr fl'"
  by (rule deallocate_cases) auto

lemma deallocate_keeps:
  assumes "fl_inv fl" and "deallocate a fl = Inr fl'"
  shows "fl_inv fl'" and "same_config fl fl'" and "lowest_ok fl \<Longrightarrow> lowest_ok fl'"
  using assms by (auto simp: free_post_def intro: deallocate_cases [OF assms(1), of a])

lemma deallocate_regions:
  assumes fl_inv: "fl_inv fl" and "a < 2 ^ 64" and d: "deallocate a fl = Inr fl'"
  shows "regions fl' = {r \<in> regions fl. fst r \<noteq> a}"
proof -
  let ?b = "sub64 a (offset_bytes fl)"
  show ?thesis
  proof (rule deallocate_cases [OF fl_inv, of a])
    assume e: "deallocate a fl = Inr fl" "\<And>s. (?b, s, False) \<notin> set (blocks fl)"
    have "fst r \<noteq> a" if "r \<in> regions fl" for r
    proof
      assume "fst r = a"
      then have r: "(a, snd r) \<in> regions fl" using that by auto
      then have "?b = a - offset_bytes fl"
        using regions_range [OF fl_inv r] assms(2) by (simp add: nowrap)
      with r e(2) show False by (auto simp: in_regions)
    qed
    then show ?thesis using d e(1) by auto
  next
    fix s g assume g: "(?b, s, False) \<in> set (blocks fl)" "deallocate a fl = Inr g" "free_post fl ?b g"
    have "?b < max_size_bytes fl" using atiles_bounds [OF inv_tiles [OF fl_inv] g(1)] by simp
    from offset_sub_add [OF inv_config [OF fl_inv] assms(2) this]
    show ?thesis using free_regions [OF fl_inv g(1,3)] d g(2) by simp
  qed
qed

interpretation free_list: alloc_algorithm fl_inv regions size_ok alloc_size_of allocate deallocate
proof unfold_locales
  fix fl :: FreeList and a m b n
  assume "fl_inv fl" "(a, m) \<in> regions fl" "(b, n) \<in> regions fl"
  then show "(a, m) = (b, n) \<or> a + m \<le> b \<or> b + n \<le> a" by (rule regions_disjoint)
next
  fix fl :: FreeList and n up limit k
  assume "fl_inv fl" "size_ok fl n"
  then show "size_ok (snd (allocate n up limit fl)) k = size_ok fl k"
    using allocate_keeps(2) [of fl n up limit] by (simp add: size_ok_def same_config_def)
next
  fix fl fl' :: FreeList and n up limit a
  assume "fl_inv fl" "size_ok fl n" "allocate n up limit fl = (Inr (Some a), fl')"
  then show "regions fl' = insert (a, alloc_size_of fl n) (regions fl) \<and>
      (a, alloc_size_of fl n) \<notin> regions fl \<and> limit \<le> a"
    by (intro conjI) (rule allocate_regions, assumption+)+
next
  fix fl fl' :: FreeList and n up limit
  assume "fl_inv fl" "size_ok fl n" "allocate n up limit fl = (Inr None, fl')"
  then show "fl' = fl" by (rule allocate_none)
next
  fix fl fl' :: FreeList and a
  assume "fl_inv fl" "a < 2 ^ 64" "deallocate a fl = Inr fl'"
  then show "regions fl' = {r \<in> regions fl. fst r \<noteq> a}" by (rule deallocate_regions)
next
  fix fl :: FreeList and a m
  assume r: "fl_inv fl" "(a, m) \<in> regions fl"
  show "a < 2 ^ 64" by (rule regions_word [OF r])
  show "0 < m" using regions_range [OF r] by simp
next
  fix fl :: FreeList
  show "finite (regions fl)" by (rule regions_finite)
next
  fix fl :: FreeList and n up limit
  assume "fl_inv fl" "size_ok fl n"
  then show "fl_inv (snd (allocate n up limit fl))" by (rule allocate_keeps(1))
next
  fix fl :: FreeList and a
  assume "fl_inv fl"
  then show "\<exists>fl'. deallocate a fl = Inr fl'" by (rule deallocate_total)
next
  fix fl fl' :: FreeList and a
  assume "fl_inv fl" "deallocate a fl = Inr fl'"
  then show "fl_inv fl'" by (rule deallocate_keeps(1))
qed

subsection \<open>Construction\<close>

lemma init_correct:
  assumes "config_ok fl"
  shows "fl_inv (init fl)" and "blocks (init fl) = [(0, max_size_bytes fl, True)]" and "same_config fl (init fl)"
proof -
  have "rep (init fl) [fresh fl] [fresh fl]"
    using assms by (auto simp: rep_def init_def make_shared_Block_def Block2_def config_ok_def
      block_chain_def free_chain_def coalesced_def)
  then show "fl_inv (init fl)" "blocks (init fl) = [(0, max_size_bytes fl, True)]"
    by (auto simp: rep_inv rep_blocks) (simp_all add: init_def make_shared_Block_def Block2_def)
  show "same_config fl (init fl)" by (simp add: same_config_def init_def make_shared_Block_def)
qed

lemma new_FreeList_correct:
  assumes "0 < al" and "al dvd offset" and "0 < max_size" and "offset + max_size < 2 ^ 64"
    and "0 < min_size" and "min_size + al \<le> 2 ^ 64"
  shows "\<exists>fl. new_FreeList max_size offset min_size al policy = Inr fl \<and> fl_inv fl \<and> lowest_ok fl \<and>
     blocks fl = [(0, max_size, True)] \<and> alignment fl = al \<and> offset_bytes fl = offset \<and>
     max_size_bytes fl = max_size \<and> min_allocation_size fl = min_size \<and> search_policy fl = policy"
proof -
  let ?fl = "\<lparr>heap = (\<lambda>_. Block2 0 0), fresh = 0, search_policy = policy,
         block_head = None, block_tail = None, free_block_head = None, free_block_tail = None,
         max_size_bytes = max_size, offset_bytes = offset,
         min_allocation_size = min_size, alignment = al, lowest_occupied = None\<rparr>"
  have c: "config_ok ?fl" using assms by (simp add: config_ok_def)
  have e: "new_FreeList max_size offset min_size al policy = Inr (init ?fl)"
    using assms by (simp add: new_FreeList_def dvd_eq_mod_eq_0)
  have "lowest_occupied (init ?fl) = None" by (simp add: init_def make_shared_Block_def)
  then have "lowest_ok (init ?fl)" using init_correct(2) [OF c] by (simp add: lowest_ok_def)
  then show ?thesis
    using e init_correct [OF c] by (auto simp: same_config_def)
qed

end
