(* ===== verification/Free_List_Props.thy ===== *)
theory Free_List_Props
  imports Free_List_Spec
begin

text \<open>
  The properties of the free list: the step relation of a free list in use and the safety of its
  reachable states, the functional behaviour of each operation on every branch, alignment, the
  lowest occupied address, the statistics, and the two places where the code departs from its
  intent.
\<close>

subsection \<open>A free list in use\<close>

text \<open>The operations a client performs between construction and \<^verbatim>\<open>clear\<close>; the side conditions say that
  the sizes and addresses of a request do not wrap around.\<close>

inductive fl_op :: "FreeList \<Rightarrow> FreeList \<Rightarrow> bool" where
  op_allocate: "size_ok fl n \<Longrightarrow> fl_op fl (snd (allocate n up limit fl))"
| op_allocate_at: "size_ok fl n \<Longrightarrow> alignment fl dvd addr \<Longrightarrow>
    sub64 addr (offset_bytes fl) + alloc_size_of fl n < 2 ^ 64 \<Longrightarrow>
    allocate_at_address addr n fl = Inr (res, fl') \<Longrightarrow> fl_op fl fl'"
| op_deallocate: "deallocate addr fl = Inr fl' \<Longrightarrow> fl_op fl fl'"

inductive fl_reachable :: "FreeList \<Rightarrow> bool" where
  reach_new: "new_FreeList max_size offset min_size al policy = Inr fl \<Longrightarrow>
    config_ok fl \<Longrightarrow> fl_reachable fl"
| reach_op: "fl_reachable fl \<Longrightarrow> fl_op fl fl' \<Longrightarrow> fl_reachable fl'"
| reach_clear: "fl_reachable fl \<Longrightarrow> fl_reachable (clear fl)"

lemma allocate_at_keeps:
  assumes "fl_inv fl" and "size_ok fl n" and "alignment fl dvd addr"
    and "sub64 addr (offset_bytes fl) + alloc_size_of fl n < 2 ^ 64"
    and "allocate_at_address addr n fl = Inr (res, fl')"
  shows "fl_inv fl'" and "same_config fl fl'" and "lowest_ok fl \<Longrightarrow> lowest_ok fl'"
  by (rule allocate_at_address_cases [OF assms(1-4)], use assms(1,5) in \<open>auto simp: alloc_post_def\<close>)+

lemma fl_op_keeps:
  assumes "fl_inv fl" and "fl_op fl fl'"
  shows "fl_inv fl' \<and> same_config fl fl' \<and> (lowest_ok fl \<longrightarrow> lowest_ok fl')"
  using assms(2)
proof cases
  case (op_allocate n up limit)
  then show ?thesis using allocate_keeps [OF assms(1)] by simp
next
  case (op_allocate_at n addr res)
  from allocate_at_keeps [OF assms(1) this] show ?thesis by simp
next
  case (op_deallocate addr)
  from deallocate_keeps [OF assms(1) this] show ?thesis by simp
qed

lemma new_inv:
  assumes "new_FreeList max_size offset min_size al policy = Inr fl" and "config_ok fl"
  shows "fl_inv fl" and "lowest_ok fl" and "blocks fl = [(0, max_size_bytes fl, True)]"
proof -
  let ?fl = "\<lparr>heap = (\<lambda>_. Block2 0 0), fresh = 0, search_policy = policy,
         block_head = None, block_tail = None, free_block_head = None, free_block_tail = None,
         max_size_bytes = max_size, offset_bytes = offset,
         min_allocation_size = min_size, alignment = al, lowest_occupied = None\<rparr>"
  have e: "fl = init ?fl"
    using assms(1) by (auto simp: new_FreeList_def check_def split: if_splits)
  then have "config_ok ?fl" using assms(2) by (simp add: config_ok_def init_def make_shared_Block_def)
  note c = init_correct [OF this]
  have "lowest_occupied (init ?fl) = None" by (simp add: init_def make_shared_Block_def)
  then show "fl_inv fl" "lowest_ok fl" "blocks fl = [(0, max_size_bytes fl, True)]"
    unfolding e using c by (simp_all add: lowest_ok_def same_config_def)
qed

lemma clear_correct:
  assumes "fl_inv fl"
  shows "fl_inv (clear fl)" and "blocks (clear fl) = [(0, max_size_bytes fl, True)]"
    and "same_config fl (clear fl)" and "lowest_occupied (clear fl) = lowest_occupied fl"
  using init_correct [OF inv_config [OF assms]]
  by (simp_all add: clear_def) (simp add: init_def make_shared_Block_def)

lemma fl_reachable_inv: "fl_reachable fl \<Longrightarrow> fl_inv fl"
  by (induction rule: fl_reachable.induct) (auto intro: new_inv clear_correct(1) dest: fl_op_keeps)

subsection \<open>Alignment\<close>

lemma allocate_aligned:
  assumes inv: "fl_inv fl" and n: "size_ok fl n" and al: "aligned_blocks (alignment fl) (blocks fl)"
  shows "aligned_blocks (alignment fl) (blocks (snd (allocate n up limit fl)))"
    and "allocate n up limit fl = (Inr (Some a), fl') \<Longrightarrow> alignment fl dvd a"
proof -
  have sz: "alignment fl dvd alloc_size_of fl n"
    by (rule alloc_size_spec(3) [OF inv_config [OF inv] n])
  have off: "alignment fl dvd offset_bytes fl" using inv_config [OF inv] by (simp add: config_ok_def)
  have mem: "alignment fl dvd b \<and> alignment fl dvd s" if "(b, s, f) \<in> set (blocks fl)" for b s f
    using al that by (auto simp: aligned_blocks_def list_all_iff)
  have ao: "alignment fl dvd alloc_offset up s (alloc_size_of fl n)" if "alignment fl dvd s" for s
    using that sz by (simp add: alloc_offset_def)
  show "aligned_blocks (alignment fl) (blocks (snd (allocate n up limit fl)))"
    by (rule allocate_cases [OF inv n, of up limit])
      (auto simp: alloc_post_def al intro!: aligned_carve al sz ao dest: mem)
  show "allocate n up limit fl = (Inr (Some a), fl') \<Longrightarrow> alignment fl dvd a"
    by (rule allocate_cases [OF inv n, of up limit])
      (auto split: if_splits intro!: dvd_add off ao dest: mem)
qed

subsection \<open>Statistics\<close>

definition sum_alloc :: "ablock list \<Rightarrow> nat" where
  "sum_alloc bs = sum_list (map (\<lambda>(a, s, f). if f then 0 else s) bs)"

definition sum_free :: "ablock list \<Rightarrow> nat" where
  "sum_free bs = sum_list (map (\<lambda>(a, s, f). if f then s else 0) bs)"

definition largest_in :: "nat \<Rightarrow> ablock list \<Rightarrow> nat \<Rightarrow> bool" where
  "largest_in l bs L \<longleftrightarrow> l \<le> L \<and> (\<forall>a s. (a, s, True) \<in> set bs \<longrightarrow> s \<le> L) \<and>
     (L = l \<or> (\<exists>a. (a, L, True) \<in> set bs))"

lemma sum_simps [simp]:
  "sum_alloc [] = 0" "sum_free [] = 0"
  "sum_alloc ((a, s, f) # bs) = (if f then 0 else s) + sum_alloc bs"
  "sum_free ((a, s, f) # bs) = (if f then s else 0) + sum_free bs"
  by (simp_all add: sum_alloc_def sum_free_def)

lemma atiles_sum: "atiles a bs e \<Longrightarrow> a + (sum_alloc bs + sum_free bs) = e"
  by (induction a bs e rule: atiles.induct) auto

lemma largest_in_step:
  "largest_in (if l \<le> s then s else l) bs L \<Longrightarrow> largest_in l ((a, s, True) # bs) L"
  by (auto simp: largest_in_def split: if_splits)

lemma get_statistics_loop_correct:
  "path (\<lambda>r. next_block (heap fl r)) xs \<Longrightarrow> length xs \<le> n \<Longrightarrow>
   (\<And>x. x \<in> set xs \<Longrightarrow> is_allocated fl x \<longleftrightarrow> x \<notin> set fs) \<Longrightarrow>
   total_allocated_bytes st + total_free_bytes st +
     (sum_alloc (blocks_of (heap fl) xs fs) + sum_free (blocks_of (heap fl) xs fs)) < 2 ^ 64 \<Longrightarrow>
   \<exists>st'. get_statistics_loop n fl (hd_or None xs) st = Inr st' \<and>
     total_allocatable_size_bytes st' = total_allocatable_size_bytes st \<and>
     total_allocated_bytes st' = total_allocated_bytes st + sum_alloc (blocks_of (heap fl) xs fs) \<and>
     total_free_bytes st' = total_free_bytes st + sum_free (blocks_of (heap fl) xs fs) \<and>
     largest_in (largest_free_block_bytes st) (blocks_of (heap fl) xs fs) (largest_free_block_bytes st')"
proof (induction xs arbitrary: n st)
  case Nil
  then show ?case by (simp add: largest_in_def)
next
  case (Cons x xs)
  then obtain m where n: "n = Suc m" by (cases n) auto
  let ?s = "bsize (heap fl x)"
  define st1 where "st1 = (if is_allocated fl x
       then st\<lparr>total_allocated_bytes := add64 (total_allocated_bytes st) ?s\<rparr>
       else
         let stats = st\<lparr>total_free_bytes := add64 (total_free_bytes st) ?s\<rparr>
         in if ?s \<ge> largest_free_block_bytes stats
            then stats\<lparr>largest_free_block_bytes := ?s,
                       largest_free_block_addrs := largest_free_block_addrs stats @
                         [u32 (add64 (address (heap fl x)) (offset_bytes fl))]\<rparr>
            else stats)"
  have l: "get_statistics_loop n fl (hd_or None (x # xs)) st = get_statistics_loop m fl (hd_or None xs) st1"
    using Cons.prems(1) by (simp add: n Let_def st1_def)
  have ia: "is_allocated fl x \<longleftrightarrow> x \<notin> set fs" using Cons.prems(3) by simp
  have w: "x \<notin> set fs \<Longrightarrow> add64 (total_allocated_bytes st) ?s = total_allocated_bytes st + ?s"
    "x \<in> set fs \<Longrightarrow> add64 (total_free_bytes st) ?s = total_free_bytes st + ?s"
    using Cons.prems(4) by (simp_all add: nowrap)
  have st1: "total_allocated_bytes st1 = total_allocated_bytes st + (if x \<in> set fs then 0 else ?s)"
    "total_free_bytes st1 = total_free_bytes st + (if x \<in> set fs then ?s else 0)"
    "total_allocatable_size_bytes st1 = total_allocatable_size_bytes st"
    "largest_free_block_bytes st1 = (if x \<in> set fs \<and> largest_free_block_bytes st \<le> ?s then ?s
       else largest_free_block_bytes st)"
    using w by (simp_all add: st1_def ia Let_def)
  obtain st' where st': "get_statistics_loop m fl (hd_or None xs) st1 = Inr st'"
     "total_allocatable_size_bytes st' = total_allocatable_size_bytes st1"
     "total_allocated_bytes st' = total_allocated_bytes st1 + sum_alloc (blocks_of (heap fl) xs fs)"
     "total_free_bytes st' = total_free_bytes st1 + sum_free (blocks_of (heap fl) xs fs)"
     "largest_in (largest_free_block_bytes st1) (blocks_of (heap fl) xs fs) (largest_free_block_bytes st')"
    using Cons.IH [of m st1] Cons.prems n st1 by auto
  have "largest_in (largest_free_block_bytes st) (blocks_of (heap fl) (x # xs) fs) (largest_free_block_bytes st')"
  proof (cases "x \<in> set fs")
    case True
    then show ?thesis using st'(5) st1(4) by (auto intro: largest_in_step)
  next
    case False
    then show ?thesis using st'(5) st1(4) by (auto simp: largest_in_def)
  qed
  with l st' st1 show ?case by auto
qed

lemma no_alloc_single:
  assumes "no_adjacent_free bs" and "atiles a bs e" and "sum_alloc bs = 0" and "a < e"
  shows "bs = [(a, e - a, True)]"
proof (cases bs)
  case (Cons x bs')
  have "is_free y" if "y \<in> set bs" for y
  proof (rule ccontr)
    assume nf: "\<not> is_free y"
    obtain b s where y: "y = (b, s, False)" using nf by (cases y) auto
    have "0 < s" using atiles_bounds [OF assms(2)] that y by blast
    moreover have "s \<in> set (map (\<lambda>(a, s, f). if f then 0 else s) bs)"
      using that y by (auto intro!: image_eqI [of _ _ y])
    then have "s \<le> sum_alloc bs" unfolding sum_alloc_def by (rule member_le_sum_list) simp
    ultimately show False using assms(3) by simp
  qed
  then have "bs' = []" using assms(1) Cons by (cases bs') (auto simp: no_adjacent_free_Cons)
  then show ?thesis using Cons assms(2,3) by (cases x) (auto split: if_splits)
qed (use assms in auto)

lemma get_statistics_correct:
  assumes "fl_inv fl"
  shows "\<exists>st. get_statistics fl = Inr st \<and>
     total_allocatable_size_bytes st = max_size_bytes fl \<and>
     total_allocated_bytes st = sum_alloc (blocks fl) \<and>
     total_allocated_bytes st + total_free_bytes st = max_size_bytes fl \<and>
     largest_in 0 (blocks fl) (largest_free_block_bytes st)"
proof -
  note rep = inv_rep [OF assms] and t = inv_tiles [OF assms]
  let ?st = "\<lparr>total_allocatable_size_bytes = max_size_bytes fl, total_allocated_bytes = 0,
               total_free_bytes = 0, largest_free_block_bytes = 0, largest_free_block_addrs = []\<rparr>"
  have fc: "free_chain fl (refs fl) (free_refs fl)" using rep by (simp add: rep_def)
  have sum: "sum_alloc (blocks fl) + sum_free (blocks fl) = max_size_bytes fl"
    using atiles_sum [OF t] by simp
  have c: "0 < max_size_bytes fl" "max_size_bytes fl < 2 ^ 64"
    using inv_config [OF assms] by (auto simp: config_ok_def)
  obtain st where st: "get_statistics_loop (fresh fl) fl (hd_or None (refs fl)) ?st = Inr st"
     "total_allocatable_size_bytes st = max_size_bytes fl"
     "total_allocated_bytes st = sum_alloc (blocks fl)" "total_free_bytes st = sum_free (blocks fl)"
     "largest_in 0 (blocks fl) (largest_free_block_bytes st)"
    using get_statistics_loop_correct [of fl "refs fl" "fresh fl" "free_refs fl" ?st]
      rep_path [OF rep] is_allocated_iff [OF fc] sum c(2) by (auto simp: blocks_def)
  define st' where "st' = (if total_allocated_bytes st = 0
          then st\<lparr>total_free_bytes := max_size_bytes fl, largest_free_block_bytes := max_size_bytes fl\<rparr>
          else st)"
  have e: "get_statistics fl = Inr st'"
    using st(1) rep_path(3) [OF rep] by (simp add: get_statistics_def st'_def)
  show ?thesis
  proof (cases "sum_alloc (blocks fl) = 0")
    case True
    then have "blocks fl = [(0, max_size_bytes fl, True)]"
      using no_alloc_single [OF inv_no_adjacent_free [OF assms] t] c(1) by simp
    then have "largest_in 0 (blocks fl) (max_size_bytes fl)" by (simp add: largest_in_def)
    then show ?thesis using e st True by (simp add: st'_def)
  next
    case False
    then show ?thesis using e st sum by (simp add: st'_def)
  qed
qed

subsection \<open>A sample free list\<close>

text \<open>The concrete free list the witnesses start from: 4096 bytes at 1024, aligned to 32.\<close>

definition sample_fl :: FreeList where
  "sample_fl = init \<lparr>heap = (\<lambda>_. Block2 0 0), fresh = 0, search_policy = FIRST,
         block_head = None, block_tail = None, free_block_head = None, free_block_tail = None,
         max_size_bytes = 4096, offset_bytes = 1024, min_allocation_size = 32, alignment = 32,
         lowest_occupied = None\<rparr>"

definition sample_used :: FreeList where
  "sample_used = snd (allocate 64 False 0 (snd (allocate 100 True 0 sample_fl)))"

lemma sample_new: "new_FreeList 4096 1024 32 32 FIRST = Inr sample_fl"
  by (simp add: new_FreeList_def sample_fl_def)

lemma sample_config: "config_ok sample_fl"
  by (simp add: sample_fl_def config_ok_def init_def make_shared_Block_def)

lemmas sample_inv = new_inv [OF sample_new sample_config]

lemma sample_fields [simp]:
  "alignment sample_fl = 32" "offset_bytes sample_fl = 1024" "max_size_bytes sample_fl = 4096"
  by (simp_all add: sample_fl_def init_def make_shared_Block_def)

lemma sample_size_ok: "size_ok sample_fl 100" "size_ok (snd (allocate 100 True 0 sample_fl)) 64"
  using allocate_keeps(2) [OF sample_inv(1), of 100 True 0]
  by (simp_all add: size_ok_def same_config_def)

lemma sample_used_inv: "fl_inv sample_used" "lowest_ok sample_used" "same_config sample_fl sample_used"
proof -
  let ?fl = "snd (allocate 100 True 0 sample_fl)"
  note k = allocate_keeps [OF sample_inv(1) sample_size_ok(1), of True 0]
  note k2 = allocate_keeps [OF k(1) sample_size_ok(2), of False 0]
  show "fl_inv sample_used" "lowest_ok sample_used"
    using k k2 sample_inv(2) by (simp_all add: sample_used_def)
  show "same_config sample_fl sample_used"
    using same_config_trans [OF k(2) k2(2)] by (simp add: sample_used_def)
qed

lemma sample_used_size_ok: "size_ok sample_used n \<longleftrightarrow> n + 32 \<le> 2 ^ 64"
  using sample_used_inv(3) by (simp add: same_config_def size_ok_def)

lemmas fl_eval = allocate_def allocate_at_address_def deallocate_def deallocate_block_def init_def
  clear_def make_shared_Block_def Block2_def Block6_def alloc_size_of_def align_def wadd_def wsub_def
  wmul_def wcast_def search_def search_first_def search_best_def step_free_def
  allocate_slice_of_free_block_def allocate_entire_free_block_def unlink_free_block_def
  update_left_aligned_allocated_block_connections_def
  update_right_aligned_allocated_block_connections_def split_middle_of_free_block_def
  relink_neighbours_def link_parts_def on_ptr_def is_allocated_def
  update_lowest_occupied_address_to_def update_lowest_occupied_address_def find_block_def
  merge_prev_def merge_next_def merge_next_block_links_def merge_next_free_links_def link_free_def
  blocks_def blocks_of_def refs_def free_refs_def Let_def

lemma sample_used_blocks:
  "blocks sample_used = [(0, 128, False), (128, 3904, True), (4032, 64, False)]"
  by (simp add: sample_used_def sample_fl_def fl_eval)

subsection \<open>Safety of every reachable state\<close>

lemma sample_used_reachable: "fl_reachable sample_used"
  unfolding sample_used_def
  by (rule reach_op [OF reach_op [OF reach_new [OF sample_new sample_config]
        op_allocate [OF sample_size_ok(1)]] op_allocate [OF sample_size_ok(2)]])

text \<open>(C1) In every state a free list reaches by its operations, the representation invariant holds
  (both chains are well linked, the blocks tile the memory, the free chain lists exactly the free
  blocks, and no two free blocks are adjacent), two allocated regions never overlap, and each lies
  inside the managed range.\<close>

theorem free_list_safe:
  assumes "fl_reachable fl"
  shows "fl_inv fl \<and>
    (\<forall>a m b n. (a, m) \<in> regions fl \<longrightarrow> (b, n) \<in> regions fl \<longrightarrow>
       (a, m) = (b, n) \<or> a + m \<le> b \<or> b + n \<le> a) \<and>
    (\<forall>a m. (a, m) \<in> regions fl \<longrightarrow>
       offset_bytes fl \<le> a \<and> a + m \<le> offset_bytes fl + max_size_bytes fl \<and> 0 < m)"
  using fl_reachable_inv [OF assms] regions_disjoint regions_range by auto

theorem free_list_safe_witness:
  "regions sample_used = {(1024, 128), (5056, 64)} \<and> fl_inv sample_used"
  using free_list_safe [OF sample_used_reachable] sample_used_inv(3)
  by (simp add: regions_def sample_used_blocks same_config_def insert_commute)

subsection \<open>The operations\<close>

text \<open>(C18) \<^verbatim>\<open>allocate\<close> on a valid free list: when some free block is large enough it carves the rounded
  request out of one, at its low end (bottom-up) or its high end, and reports the absolute address
  or, below the address limit, throws; otherwise it returns no address and changes nothing.  No
  assertion of the code fires and no loop diverges.\<close>

theorem allocate_refines:
  assumes "fl_inv fl" and "size_ok fl n"
  shows "let sz = alloc_size_of fl n in
    (\<exists>a s fl'. (a, s, True) \<in> set (blocks fl) \<and> sz \<le> s \<and>
       allocate n up limit fl =
         (if a + alloc_offset up s sz + offset_bytes fl < limit
          then Inl (TT_THROW ''Out of Memory: Cannot allocate at an address below the limit'')
          else Inr (Some (a + alloc_offset up s sz + offset_bytes fl)), fl') \<and>
       fl_inv fl' \<and> same_config fl fl' \<and> blocks fl' = carve a (alloc_offset up s sz) sz (blocks fl)) \<or>
    (allocate n up limit fl = (Inr None, fl) \<and> (\<forall>a s. (a, s, True) \<in> set (blocks fl) \<longrightarrow> s < sz))"
  unfolding Let_def
  by (rule allocate_cases [OF assms, of up limit]) (auto simp: alloc_post_def)

theorem allocate_refines_witness:
  "\<exists>fl'. allocate 64 True 0 sample_used = (Inr (Some 1152), fl') \<and>
     blocks fl' = [(0, 128, False), (128, 64, False), (192, 3840, True), (4032, 64, False)]"
proof -
  have sz: "alloc_size_of sample_used 64 = 64"
    using sample_used_inv(3) by (simp add: alloc_size_of_def align_def same_config_def
      sample_fl_def init_def make_shared_Block_def wadd_def wsub_def wmul_def)
  have o: "offset_bytes sample_used = 1024" using sample_used_inv(3) by (simp add: same_config_def)
  show ?thesis
    using allocate_refines [OF sample_used_inv(1), of 64 True 0]
    by (auto simp: sample_used_size_ok sz o sample_used_blocks alloc_offset_def Let_def)
qed

text \<open>(C28) \<^verbatim>\<open>allocate_at_address\<close> on a valid free list: for an aligned address whose rounded request does not
  wrap around, it allocates exactly the requested region when one free block contains it, and
  otherwise returns no address and changes nothing.\<close>

theorem allocate_at_address_refines:
  assumes "fl_inv fl" and "size_ok fl n" and "alignment fl dvd addr"
    and "sub64 addr (offset_bytes fl) + alloc_size_of fl n < 2 ^ 64"
  shows "let sz = alloc_size_of fl n; start = sub64 addr (offset_bytes fl) in
    (\<exists>a s fl'. (a, s, True) \<in> set (blocks fl) \<and> a \<le> start \<and> start + sz \<le> a + s \<and>
       allocate_at_address addr n fl = Inr (Some addr, fl') \<and>
       fl_inv fl' \<and> same_config fl fl' \<and> blocks fl' = carve a (start - a) sz (blocks fl)) \<or>
    (allocate_at_address addr n fl = Inr (None, fl) \<and>
       (\<forall>a s. (a, s, True) \<in> set (blocks fl) \<longrightarrow> \<not> (a \<le> start \<and> start + sz \<le> a + s)))"
  unfolding Let_def
  by (rule allocate_at_address_cases [OF assms]) (auto simp: alloc_post_def)

theorem allocate_at_address_refines_witness:
  "\<exists>fl'. allocate_at_address 2048 64 sample_used = Inr (Some 2048, fl') \<and>
     blocks fl' = [(0, 128, False), (128, 896, True), (1024, 64, False), (1088, 2944, True), (4032, 64, False)]"
proof -
  have sz: "alloc_size_of sample_used 64 = 64"
    using sample_used_inv(3) by (simp add: alloc_size_of_def align_def same_config_def
      sample_fl_def init_def make_shared_Block_def wadd_def wsub_def wmul_def)
  have o: "offset_bytes sample_used = 1024" "alignment sample_used = 32"
    using sample_used_inv(3) by (simp_all add: same_config_def)
  have st: "sub64 2048 (offset_bytes sample_used) = 1024" by (simp add: o wsub_def)
  show ?thesis
    using allocate_at_address_refines [OF sample_used_inv(1), of 64 2048]
    by (auto simp: sample_used_size_ok sz o(2) st sample_used_blocks Let_def)
qed

text \<open>(C17) \<^verbatim>\<open>deallocate\<close> on a valid free list always returns.  When the address is that of an allocated block,
  the block becomes free and is merged with its free neighbours (the abstract memory is the
  coalesced one); any other address changes nothing.\<close>

theorem deallocate_refines:
  assumes "fl_inv fl"
  shows "let a = sub64 addr (offset_bytes fl) in
    \<exists>fl'. deallocate addr fl = Inr fl' \<and> fl_inv fl' \<and> same_config fl fl' \<and>
      (if \<exists>s. (a, s, False) \<in> set (blocks fl)
       then blocks fl' = coalesce (mark_free a (blocks fl)) else fl' = fl)"
  unfolding Let_def
  by (rule deallocate_cases [OF assms, of addr]) (auto simp: free_post_def assms)

theorem deallocate_refines_witness:
  "\<exists>fl'. deallocate 1024 sample_used = Inr fl' \<and> blocks fl' = [(0, 4032, True), (4032, 64, False)]"
proof -
  have "sub64 1024 (offset_bytes sample_used) = 0"
    using sample_used_inv(3) by (simp add: same_config_def wsub_def)
  then show ?thesis
    using deallocate_refines [OF sample_used_inv(1), of 1024]
    by (auto simp: sample_used_blocks Let_def)
qed

lemma allocate_deallocate_blocks:
  assumes inv: "fl_inv fl" and n: "size_ok fl n" and e: "allocate n up limit fl = (Inr (Some a), fl')"
  shows "\<exists>fl''. deallocate a fl' = Inr fl'' \<and> blocks fl'' = blocks fl"
proof (rule allocate_cases [OF inv n, of up limit])
  let ?sz = "alloc_size_of fl n"
  fix b s g
  let ?off = "alloc_offset up s ?sz"
  assume b: "(b, s, True) \<in> set (blocks fl)" "?sz \<le> s" "alloc_post fl b ?off ?sz g"
    and g: "allocate n up limit fl = (if b + ?off + offset_bytes fl < limit
          then Inl (TT_THROW ''Out of Memory: Cannot allocate at an address below the limit'')
          else Inr (Some (b + ?off + offset_bytes fl)), g)"
  have a: "a = b + ?off + offset_bytes fl" "g = fl'" using e g by (auto split: if_splits)
  have sz: "0 < ?sz" by (rule alloc_size_spec(4) [OF inv_config [OF inv] n])
  have inv': "fl_inv fl'" and bl: "blocks fl' = carve b ?off ?sz (blocks fl)"
    and o: "offset_bytes fl' = offset_bytes fl"
    using b(3) a(2) by (simp_all add: alloc_post_def same_config_def)
  have "(a, ?sz) \<in> regions fl'" using allocate_regions(1) [OF inv n e] by simp
  then have m: "(b + ?off, ?sz, False) \<in> set (blocks fl')" and w: "a < 2 ^ 64"
    using regions_word [OF inv'] by (auto simp: in_regions a o)
  have s: "sub64 a (offset_bytes fl') = b + ?off" using w by (simp add: a o nowrap)
  show ?thesis
  proof (rule deallocate_cases [OF inv', of a])
    fix t h assume "deallocate a fl' = Inr h" "free_post fl' (sub64 a (offset_bytes fl')) h"
    then show ?thesis
      using coalesce_mark_free_carve [OF inv_tiles [OF inv] inv_no_adjacent_free [OF inv] b(1) sz
          alloc_offset_le [OF b(2)]]
      by (auto simp: free_post_def s bl)
  qed (use m s in auto)
qed (use e in simp)

text \<open>(C29) Allocating and freeing again restores the memory: after a successful \<^verbatim>\<open>allocate\<close>, \<^verbatim>\<open>deallocate\<close> of
  the returned address gives back exactly the blocks there were before.\<close>

theorem allocate_deallocate_roundtrip:
  assumes "fl_inv fl" and "size_ok fl n" and "allocate n up limit fl = (Inr (Some a), fl')"
  shows "\<exists>fl''. deallocate a fl' = Inr fl'' \<and> blocks fl'' = blocks fl"
  by (rule allocate_deallocate_blocks [OF assms])

lemma sample_alloc: "fst (allocate 64 True 0 sample_used) = Inr (Some 1152)"
proof -
  have sz: "alloc_size_of sample_used 64 = 64"
    using sample_used_inv(3) by (simp add: alloc_size_of_def align_def same_config_def
      sample_fl_def init_def make_shared_Block_def wadd_def wsub_def wmul_def)
  have o: "offset_bytes sample_used = 1024" using sample_used_inv(3) by (simp add: same_config_def)
  have k: "size_ok sample_used 64" by (simp add: sample_used_size_ok)
  show ?thesis
    by (rule allocate_cases [OF sample_used_inv(1) k, of True 0])
      (auto simp: sz o sample_used_blocks alloc_offset_def)
qed

theorem allocate_deallocate_roundtrip_witness:
  "\<exists>fl''. deallocate 1152 (snd (allocate 64 True 0 sample_used)) = Inr fl'' \<and>
     blocks fl'' = [(0, 128, False), (128, 3904, True), (4032, 64, False)]"
  using allocate_deallocate_roundtrip [OF sample_used_inv(1), of 64 True 0 1152
      "snd (allocate 64 True 0 sample_used)"] sample_alloc
  by (simp add: sample_used_size_ok sample_used_blocks prod_eq_iff)

text \<open>(C30) Every address \<^verbatim>\<open>allocate\<close> returns is a multiple of the alignment, provided the addresses and sizes
  of the blocks are; this holds initially when the alignment divides the size of the memory, and
  \<^verbatim>\<open>allocate\<close> keeps it.\<close>

theorem allocate_returns_aligned:
  assumes "fl_inv fl" and "size_ok fl n" and "aligned_blocks (alignment fl) (blocks fl)"
    and "allocate n up limit fl = (Inr (Some a), fl')"
  shows "alignment fl dvd a \<and> aligned_blocks (alignment fl') (blocks fl')"
  using allocate_aligned(1) [OF assms(1-3), of up limit] allocate_aligned(2) [OF assms]
    allocate_keeps(2) [OF assms(1,2), of up limit] assms(4)
  by (simp add: same_config_def)

theorem allocate_returns_aligned_witness:
  "(32 :: nat) dvd 1152 \<and> aligned_blocks (alignment (snd (allocate 64 True 0 sample_used)))
     (blocks (snd (allocate 64 True 0 sample_used)))"
proof -
  have o: "alignment sample_used = 32" using sample_used_inv(3) by (simp add: same_config_def)
  show ?thesis
    using allocate_returns_aligned [OF sample_used_inv(1), of 64 True 0 1152
      "snd (allocate 64 True 0 sample_used)"] sample_alloc
    by (simp add: sample_used_size_ok sample_used_blocks prod_eq_iff o)
qed

subsection \<open>The lowest occupied address\<close>

lemma lowest_occupied_address_eq:
  assumes inv: "fl_inv fl" and low: "lowest_ok fl"
  shows "lowest_occupied_address fl = (if regions fl = {} then None else Some (Min (fst ` regions fl)))"
proof -
  have e: "regions fl = {} \<longleftrightarrow> allocated (blocks fl) = {}" by (simp add: regions_def)
  have f: "fst ` regions fl = (\<lambda>a. a + offset_bytes fl) ` fst ` allocated (blocks fl)"
    by (force simp: regions_def image_image)
  show ?thesis
  proof (cases "lowest_occupied fl")
    case None
    then show ?thesis using low e by (simp add: lowest_occupied_address_def lowest_ok_def)
  next
    case (Some l)
    then have l: "l \<in> fst ` allocated (blocks fl)" "\<forall>a\<in>fst ` allocated (blocks fl). l \<le> a"
      using low by (simp_all add: lowest_ok_def)
    then obtain m where m: "(l + offset_bytes fl, m) \<in> regions fl"
      by (force simp: regions_def image_iff)
    then have "add64 l (offset_bytes fl) = l + offset_bytes fl"
      using regions_word [OF inv] by (blast intro: wadd_id)
    moreover have "Min (fst ` regions fl) = l + offset_bytes fl"
    proof (rule Min_eqI)
      show "finite (fst ` regions fl)" by (simp add: regions_finite)
      show "l + offset_bytes fl \<in> fst ` regions fl" using m by force
    qed (use l in \<open>auto simp: f\<close>)
    ultimately show ?thesis using Some m by (auto simp: lowest_occupied_address_def)
  qed
qed

text \<open>The cached lowest occupied address is right: it holds of a new free list, every operation but
  \<^verbatim>\<open>clear\<close> keeps it, and then \<^verbatim>\<open>lowest_occupied_address\<close> is the smallest address of an allocated region,
  or none when nothing is allocated.\<close>

theorem lowest_occupied_address_correct:
  assumes "fl_inv fl" and "lowest_ok fl" and "fl_op fl fl'"
  shows "lowest_ok fl' \<and>
    lowest_occupied_address fl' = (if regions fl' = {} then None else Some (Min (fst ` regions fl')))"
  using fl_op_keeps [OF assms(1,3)] assms(2) lowest_occupied_address_eq by blast

theorem lowest_occupied_address_correct_witness:
  "lowest_occupied_address (snd (allocate 100 True 0 sample_fl)) =
     (if regions (snd (allocate 100 True 0 sample_fl)) = {} then None
      else Some (Min (fst ` regions (snd (allocate 100 True 0 sample_fl)))))"
  using lowest_occupied_address_correct [OF sample_inv(1,2) op_allocate [OF sample_size_ok(1), of True 0]]
  by blast

text \<open>\<^verbatim>\<open>get_statistics\<close> on a valid free list returns: the allocated and the free bytes add up to the size
  of the memory, the allocated ones are the sizes of the allocated blocks, and the largest free
  block is the size of a free block that no free block exceeds (zero when nothing is free).\<close>

theorem get_statistics_totals:
  assumes "fl_inv fl"
  shows "\<exists>st. get_statistics fl = Inr st \<and>
     total_allocatable_size_bytes st = max_size_bytes fl \<and>
     total_allocated_bytes st = sum_alloc (blocks fl) \<and>
     total_allocated_bytes st + total_free_bytes st = max_size_bytes fl \<and>
     largest_in 0 (blocks fl) (largest_free_block_bytes st)"
  by (rule get_statistics_correct [OF assms])

theorem get_statistics_totals_witness:
  "\<exists>st. get_statistics sample_used = Inr st \<and> total_allocated_bytes st = 192 \<and> total_free_bytes st = 3904"
  using get_statistics_totals [OF sample_used_inv(1)] sample_used_inv(3)
  by (auto simp: sample_used_blocks same_config_def)

text \<open>The best-fit search returns on a valid free list; it finds a block whenever one is large enough,
  and the block it finds is a smallest of those.\<close>

theorem search_best_smallest:
  assumes "rep fl rs fs"
  shows "\<exists>res. search_best fl sz up = Inr res \<and>
    (case res of
       None \<Rightarrow> \<forall>r\<in>set fs. bsize (heap fl r) < sz
     | Some r \<Rightarrow> r \<in> set fs \<and> sz \<le> bsize (heap fl r) \<and>
         (\<forall>q\<in>set fs. sz \<le> bsize (heap fl q) \<longrightarrow> bsize (heap fl r) \<le> bsize (heap fl q)))"
  using search_best_correct [OF assms] by (simp add: fits_best_def)

theorem search_best_smallest_witness:
  "\<exists>res. search_best sample_used 3000 True = Inr res \<and>
    (case res of
       None \<Rightarrow> \<forall>r\<in>set (free_refs sample_used). bsize (heap sample_used r) < 3000
     | Some r \<Rightarrow> r \<in> set (free_refs sample_used) \<and> 3000 \<le> bsize (heap sample_used r) \<and>
         (\<forall>q\<in>set (free_refs sample_used). 3000 \<le> bsize (heap sample_used q) \<longrightarrow>
            bsize (heap sample_used r) \<le> bsize (heap sample_used q)))"
  by (rule search_best_smallest [OF inv_rep [OF sample_used_inv(1)]])

subsection \<open>Departures from the intent\<close>

text \<open>An \<^verbatim>\<open>allocate\<close> that throws because the address is below the limit has already carved the block:
  the region stays allocated although the caller never learns its address.\<close>

theorem allocate_throw_keeps_block:
  assumes "fl_inv fl" and "size_ok fl n" and "allocate n up limit fl = (Inl e, fl')"
  shows "\<exists>a. a < limit \<and> (a, alloc_size_of fl n) \<notin> regions fl \<and>
    regions fl' = insert (a, alloc_size_of fl n) (regions fl)"
proof (rule allocate_cases [OF assms(1,2), of up limit])
  let ?sz = "alloc_size_of fl n"
  have sz: "0 < ?sz" by (rule alloc_size_spec(4) [OF inv_config [OF assms(1)] assms(2)])
  fix b s g assume b: "(b, s, True) \<in> set (blocks fl)" "?sz \<le> s"
    "alloc_post fl b (alloc_offset up s ?sz) ?sz g"
    "allocate n up limit fl = (if b + alloc_offset up s ?sz + offset_bytes fl < limit
          then Inl (TT_THROW ''Out of Memory: Cannot allocate at an address below the limit'')
          else Inr (Some (b + alloc_offset up s ?sz + offset_bytes fl)), g)"
  then show ?thesis
    using carve_regions [OF assms(1) b(1) b(3) sz alloc_offset_le [OF b(2)]] assms(3)
    by (auto split: if_splits)
qed (use assms(3) in simp)

theorem allocate_throw_keeps_block_witness:
  "\<exists>e a. fst (allocate 64 True 5000 sample_used) = Inl e \<and>
     regions (snd (allocate 64 True 5000 sample_used)) = insert a (regions sample_used)"
proof -
  have sz: "alloc_size_of sample_used 64 = 64"
    using sample_used_inv(3) by (simp add: alloc_size_of_def align_def same_config_def
      sample_fl_def init_def make_shared_Block_def wadd_def wsub_def wmul_def)
  have o: "offset_bytes sample_used = 1024" using sample_used_inv(3) by (simp add: same_config_def)
  have k: "size_ok sample_used 64" by (simp add: sample_used_size_ok)
  obtain e fl' where e: "allocate 64 True 5000 sample_used = (Inl e, fl')"
    by (rule allocate_cases [OF sample_used_inv(1) k, of True 5000])
      (auto simp: sz o sample_used_blocks alloc_offset_def)
  show ?thesis using allocate_throw_keeps_block [OF sample_used_inv(1) k e] e by auto
qed

text \<open>\<^verbatim>\<open>clear\<close> frees everything but does not reset the cached lowest occupied address: a reachable free list
  with nothing allocated still reports one.\<close>

theorem clear_keeps_lowest_occupied:
  "\<exists>fl. fl_reachable fl \<and> regions fl = {} \<and> lowest_occupied_address fl = Some 1024"
proof (intro exI conjI)
  show "fl_reachable (clear sample_used)" by (rule reach_clear [OF sample_used_reachable])
  note c = clear_correct [OF sample_used_inv(1)]
  show "regions (clear sample_used) = {}" using c(2) by (simp add: regions_def)
  have "lowest_occupied_address (clear sample_used) = lowest_occupied_address sample_used"
    using c(3,4) by (simp add: lowest_occupied_address_def same_config_def split: option.split)
  also have "\<dots> = Some 1024"
    using lowest_occupied_address_eq [OF sample_used_inv(1,2)] sample_used_inv(3)
    by (simp add: regions_def sample_used_blocks same_config_def)
  finally show "lowest_occupied_address (clear sample_used) = Some 1024" .
qed

end
