(* ===== verification/Core_Coord.thy ===== *)
theory Core_Coord
  imports Metal_Prelude
begin

text \<open>
  Logical core coordinates and sets of core ranges: \<^verbatim>\<open>tt_metal/common/core_coord.h\<close>.

  The coordinates are \<^verbatim>\<open>size_t\<close>.  The order \<^verbatim>\<open>operator<\<close> of \<^verbatim>\<open>tt_xy_pair\<close> belongs to the device driver's
  library, so it is the parameter \<open>lt\<close> of the definitions that keep a \<^verbatim>\<open>std::set<CoreRange>\<close>; such a set is
  the list of its elements in iteration order, and \<open>xy_order_ok\<close> is what the code relies on: a strict
  total order that extends the componentwise one.  \<open>cells\<close> is the abstraction: the set of cores a range
  stands for.
\<close>

subsection \<open>Coordinates and ranges\<close>

datatype CoreCoord = CoreCoord (cx: nat) (cy: nat)

datatype CoreRange = CoreRange (start_coord: CoreCoord) (end_coord: CoreCoord)

definition get_core_coord_from_relative :: "int \<Rightarrow> int \<Rightarrow> CoreCoord \<Rightarrow> CoreCoord" where
  "get_core_coord_from_relative in_x in_y grid_size =
     CoreCoord
       (nat ((in_x + (if in_x < 0 then int (cx grid_size) else 0)) mod 2 ^ 64))
       (nat ((in_y + (if in_y < 0 then int (cy grid_size) else 0)) mod 2 ^ 64))"

definition CoreRange_point :: "CoreCoord \<Rightarrow> CoreRange" where
  "CoreRange_point point = CoreRange point point"

definition new_CoreRange :: "CoreCoord \<Rightarrow> CoreCoord \<Rightarrow> CoreRange result" where
  "new_CoreRange s e =
     rbind (check (cx e \<ge> cx s \<and> cy e \<ge> cy s) (TT_ASSERT ''Invalid core range'')) (\<lambda>_.
     Inr (CoreRange s e))"

definition range_intersects :: "CoreRange \<Rightarrow> CoreRange \<Rightarrow> CoreRange option result" where
  "range_intersects this other =
     (let x1 = max (cx (start_coord this)) (cx (start_coord other));
          y1 = max (cy (start_coord this)) (cy (start_coord other));
          x2 = min (cx (end_coord this)) (cx (end_coord other));
          y2 = min (cy (end_coord this)) (cy (end_coord other))
      in if x1 \<le> x2 \<and> y1 \<le> y2
         then rbind (new_CoreRange (CoreCoord x1 y1) (CoreCoord x2 y2)) (\<lambda>r. Inr (Some r))
         else Inr None)"

definition range_adjacent :: "CoreRange \<Rightarrow> CoreRange \<Rightarrow> bool" where
  "range_adjacent this other =
     (let x1 = max (cx (start_coord this)) (cx (start_coord other));
          y1 = max (cy (start_coord this)) (cy (start_coord other));
          x2 = min (cx (end_coord this)) (cx (end_coord other));
          y2 = min (cy (end_coord this)) (cy (end_coord other))
      in (add64 x2 1 = x1 \<and> y1 \<le> y2) \<or> (add64 y2 1 = y1 \<and> x1 \<le> x2))"

definition range_contains :: "CoreRange \<Rightarrow> CoreRange \<Rightarrow> bool" where
  "range_contains this other \<longleftrightarrow>
     cx (start_coord other) \<ge> cx (start_coord this) \<and> cx (end_coord other) \<le> cx (end_coord this) \<and>
     cy (start_coord other) \<ge> cy (start_coord this) \<and> cy (end_coord other) \<le> cy (end_coord this)"

definition range_contains_coord :: "CoreRange \<Rightarrow> CoreCoord \<Rightarrow> bool" where
  "range_contains_coord this other \<longleftrightarrow>
     cx other \<ge> cx (start_coord this) \<and> cx other \<le> cx (end_coord this) \<and>
     cy other \<ge> cy (start_coord this) \<and> cy other \<le> cy (end_coord this)"

definition range_merge :: "CoreRange \<Rightarrow> CoreRange \<Rightarrow> CoreRange option result" where
  "range_merge this cr =
     rbind (range_intersects this cr) (\<lambda>i.
     if i \<noteq> None \<or> range_adjacent this cr then
       if cx (start_coord this) = cx (start_coord cr) \<and> cx (end_coord this) = cx (end_coord cr)
       then rbind (new_CoreRange
              (CoreCoord (cx (start_coord this)) (min (cy (start_coord this)) (cy (start_coord cr))))
              (CoreCoord (cx (end_coord this)) (max (cy (end_coord this)) (cy (end_coord cr)))))
              (\<lambda>r. Inr (Some r))
       else if cy (start_coord this) = cy (start_coord cr) \<and> cy (end_coord this) = cy (end_coord cr)
       then rbind (new_CoreRange
              (CoreCoord (min (cx (start_coord this)) (cx (start_coord cr))) (cy (start_coord this)))
              (CoreCoord (max (cx (end_coord this)) (cx (end_coord cr))) (cy (end_coord this))))
              (\<lambda>r. Inr (Some r))
       else Inr None
     else Inr None)"

definition range_size :: "CoreRange \<Rightarrow> nat" where
  "range_size r =
     mul64 (add64 (sub64 (cx (end_coord r)) (cx (start_coord r))) 1)
           (add64 (sub64 (cy (end_coord r)) (cy (start_coord r))) 1)"

definition range_grid_size :: "CoreRange \<Rightarrow> CoreCoord" where
  "range_grid_size r =
     CoreCoord (add64 (sub64 (cx (end_coord r)) (cx (start_coord r))) 1)
               (add64 (sub64 (cy (end_coord r)) (cy (start_coord r))) 1)"

subsection \<open>The iterator of a range\<close>

definition iter_next :: "CoreRange \<Rightarrow> CoreCoord \<Rightarrow> CoreCoord" where
  "iter_next rng current =
     (if cx current = cx (end_coord rng)
      then CoreCoord (cx (start_coord rng)) (add64 (cy current) 1)
      else CoreCoord (add64 (cx current) 1) (cy current))"

definition range_begin :: "CoreRange \<Rightarrow> CoreCoord" where
  "range_begin r = start_coord r"

definition range_end :: "CoreRange \<Rightarrow> CoreCoord" where
  "range_end r = CoreCoord (cx (start_coord r)) (add64 (cy (end_coord r)) 1)"

text \<open>\<open>for (it = begin(); it != end(); ++it)\<close>; \<open>range_size\<close> steps are given.\<close>

fun range_iterate :: "nat \<Rightarrow> CoreRange \<Rightarrow> CoreCoord \<Rightarrow> CoreCoord list result" where
  "range_iterate 0 r current = (if current = range_end r then Inr [] else Inl Diverges)"
| "range_iterate (Suc n) r current =
     (if current = range_end r then Inr []
      else rbind (range_iterate n r (iter_next r current)) (\<lambda>cs. Inr (current # cs)))"

definition range_cores :: "CoreRange \<Rightarrow> CoreCoord list result" where
  "range_cores r = range_iterate (range_size r) r (range_begin r)"

subsection \<open>Cells of a range\<close>

definition valid_range :: "CoreRange \<Rightarrow> bool" where
  "valid_range r \<longleftrightarrow>
     cx (start_coord r) \<le> cx (end_coord r) \<and> cy (start_coord r) \<le> cy (end_coord r)"

definition cells :: "CoreRange \<Rightarrow> CoreCoord set" where
  "cells r = {c. range_contains_coord r c}"

definition cells_of :: "CoreRange list \<Rightarrow> CoreCoord set" where
  "cells_of rs = (\<Union>r\<in>set rs. cells r)"

lemma in_cells [simp]:
  "CoreCoord a b \<in> cells (CoreRange (CoreCoord x1 y1) (CoreCoord x2 y2)) \<longleftrightarrow>
     x1 \<le> a \<and> a \<le> x2 \<and> y1 \<le> b \<and> b \<le> y2"
  by (auto simp: cells_def range_contains_coord_def)

lemma cells_cases: "(\<And>a b. CoreCoord a b \<in> A \<longleftrightarrow> CoreCoord a b \<in> B) \<Longrightarrow> A = B"
  by (metis CoreCoord.exhaust subsetI subset_antisym)

lemma valid_range_simp [simp]:
  "valid_range (CoreRange (CoreCoord x1 y1) (CoreCoord x2 y2)) \<longleftrightarrow> x1 \<le> x2 \<and> y1 \<le> y2"
  by (simp add: valid_range_def)

lemma range_cases:
  obtains x1 y1 x2 y2 where "r = CoreRange (CoreCoord x1 y1) (CoreCoord x2 y2)"
  by (metis CoreCoord.exhaust CoreRange.exhaust)

lemma cells_eq_image:
  "cells (CoreRange (CoreCoord x1 y1) (CoreCoord x2 y2)) =
     (\<lambda>(a, b). CoreCoord a b) ` ({x1..x2} \<times> {y1..y2})"
  by (rule cells_cases) auto

lemma finite_cells: "finite (cells r)"
  by (cases r rule: range_cases) (simp add: cells_eq_image)

lemma cells_nonempty: "valid_range r \<Longrightarrow> start_coord r \<in> cells r"
  by (cases r rule: range_cases) simp

lemma card_cells:
  "valid_range (CoreRange (CoreCoord x1 y1) (CoreCoord x2 y2)) \<Longrightarrow>
   card (cells (CoreRange (CoreCoord x1 y1) (CoreCoord x2 y2))) = (x2 - x1 + 1) * (y2 - y1 + 1)"
proof -
  assume "valid_range (CoreRange (CoreCoord x1 y1) (CoreCoord x2 y2))"
  moreover have "inj_on (\<lambda>(a, b). CoreCoord a b) ({x1..x2} \<times> {y1..y2})" by (auto simp: inj_on_def)
  ultimately show ?thesis
    by (simp add: cells_eq_image card_image card_cartesian_product Suc_diff_le)
qed

text \<open>Ranges whose coordinates a 32-bit loop counter can reach, as all grids of the hardware.\<close>

definition small_range :: "CoreRange \<Rightarrow> bool" where
  "small_range r \<longleftrightarrow> valid_range r \<and> cx (end_coord r) < 2 ^ 31 \<and> cy (end_coord r) < 2 ^ 31"

lemma intersects_cells:
  assumes "valid_range a" and "valid_range b"
  shows "\<exists>i. range_intersects a b = Inr i \<and>
    (case i of None \<Rightarrow> cells a \<inter> cells b = {} | Some c \<Rightarrow> valid_range c \<and> cells c = cells a \<inter> cells b)"
proof -
  obtain x1 y1 x2 y2 where a: "a = CoreRange (CoreCoord x1 y1) (CoreCoord x2 y2)" by (rule range_cases)
  obtain u1 v1 u2 v2 where b: "b = CoreRange (CoreCoord u1 v1) (CoreCoord u2 v2)" by (rule range_cases)
  let ?c = "CoreRange (CoreCoord (max x1 u1) (max y1 v1)) (CoreCoord (min x2 u2) (min y2 v2))"
  have c: "cells ?c = cells a \<inter> cells b" by (rule cells_cases) (auto simp: a b)
  show ?thesis
  proof (cases "max x1 u1 \<le> min x2 u2 \<and> max y1 v1 \<le> min y2 v2")
    case True
    then show ?thesis using c by (simp add: a b range_intersects_def new_CoreRange_def)
  next
    case False
    then have "cells ?c = {}" by (intro cells_cases) auto
    then show ?thesis using False c by (auto simp: a b range_intersects_def)
  qed
qed

lemma contains_cells:
  assumes "valid_range b"
  shows "range_contains a b \<longleftrightarrow> cells b \<subseteq> cells a"
proof -
  obtain x1 y1 x2 y2 where a: "a = CoreRange (CoreCoord x1 y1) (CoreCoord x2 y2)" by (rule range_cases)
  obtain u1 v1 u2 v2 where b: "b = CoreRange (CoreCoord u1 v1) (CoreCoord u2 v2)" by (rule range_cases)
  have "range_contains a b" if s: "cells b \<subseteq> cells a"
  proof -
    have "CoreCoord u1 v1 \<in> cells a" "CoreCoord u2 v2 \<in> cells a"
      using s assms by (auto simp: b intro!: subsetD [OF s])
    then show ?thesis by (simp add: a b range_contains_def)
  qed
  moreover have "cells b \<subseteq> cells a" if "range_contains a b"
    using that by (auto simp: a b range_contains_def cells_def range_contains_coord_def)
  ultimately show ?thesis by blast
qed

text \<open>Two ranges touch when they overlap or are adjacent along a common row or column.\<close>

definition touch :: "nat \<Rightarrow> nat \<Rightarrow> nat \<Rightarrow> nat \<Rightarrow> nat \<Rightarrow> nat \<Rightarrow> nat \<Rightarrow> nat \<Rightarrow> bool" where
  "touch x1 y1 x2 y2 u1 v1 u2 v2 \<longleftrightarrow>
     (max x1 u1 \<le> min x2 u2 + 1 \<and> max y1 v1 \<le> min y2 v2) \<or>
     (max x1 u1 \<le> min x2 u2 \<and> max y1 v1 \<le> min y2 v2 + 1)"

lemma range_merge_eq:
  fixes x1 y1 x2 y2 u1 v1 u2 v2
  defines "a \<equiv> CoreRange (CoreCoord x1 y1) (CoreCoord x2 y2)"
    and "b \<equiv> CoreRange (CoreCoord u1 v1) (CoreCoord u2 v2)"
  assumes "small_range a" and "small_range b"
  shows "range_merge a b = Inr (if touch x1 y1 x2 y2 u1 v1 u2 v2 then
      if x1 = u1 \<and> x2 = u2 then Some (CoreRange (CoreCoord x1 (min y1 v1)) (CoreCoord x2 (max y2 v2)))
      else if y1 = v1 \<and> y2 = v2 then Some (CoreRange (CoreCoord (min x1 u1) y1) (CoreCoord (max x2 u2) y2))
      else None else None)"
proof -
  have va: "x1 \<le> x2" "y1 \<le> y2" "u1 \<le> u2" "v1 \<le> v2" "x2 < 2 ^ 31" "y2 < 2 ^ 31" "u2 < 2 ^ 31" "v2 < 2 ^ 31"
    using assms by (simp_all add: small_range_def a_def b_def)
  obtain i where i: "range_intersects a b = Inr i"
    "i \<noteq> None \<longleftrightarrow> max x1 u1 \<le> min x2 u2 \<and> max y1 v1 \<le> min y2 v2"
    using that unfolding a_def b_def range_intersects_def new_CoreRange_def
    by (cases "max x1 u1 \<le> min x2 u2 \<and> max y1 v1 \<le> min y2 v2") auto
  have adj: "range_adjacent a b \<longleftrightarrow>
      (min x2 u2 + 1 = max x1 u1 \<and> max y1 v1 \<le> min y2 v2) \<or> (min y2 v2 + 1 = max y1 v1 \<and> max x1 u1 \<le> min x2 u2)"
    using va by (simp add: a_def b_def range_adjacent_def nowrap min_def)
  have "i \<noteq> None \<or> range_adjacent a b \<longleftrightarrow> touch x1 y1 x2 y2 u1 v1 u2 v2"
    unfolding i(2) adj touch_def by linarith
  then show ?thesis
    using va unfolding range_merge_def i(1) rbind_Inr new_CoreRange_def
    by (simp add: a_def b_def min_le_iff_disj le_max_iff_disj)
qed

lemma merge_cells:
  assumes "small_range a" and "small_range b"
  shows "\<exists>m. range_merge a b = Inr m \<and>
    (\<forall>c. m = Some c \<longrightarrow> small_range c \<and> cells c = cells a \<union> cells b)"
proof -
  obtain x1 y1 x2 y2 where a: "a = CoreRange (CoreCoord x1 y1) (CoreCoord x2 y2)" by (rule range_cases)
  obtain u1 v1 u2 v2 where b: "b = CoreRange (CoreCoord u1 v1) (CoreCoord u2 v2)" by (rule range_cases)
  have va: "x1 \<le> x2" "y1 \<le> y2" "u1 \<le> u2" "v1 \<le> v2" "x2 < 2 ^ 31" "y2 < 2 ^ 31" "u2 < 2 ^ 31" "v2 < 2 ^ 31"
    using assms by (simp_all add: small_range_def a b)
  let ?T = "touch x1 y1 x2 y2 u1 v1 u2 v2"
  have T: "max x1 u1 \<le> min x2 u2 + 1" "max y1 v1 \<le> min y2 v2 + 1" if ?T
    using that unfolding touch_def by linarith+
  let ?v = "CoreRange (CoreCoord x1 (min y1 v1)) (CoreCoord x2 (max y2 v2))"
  let ?h = "CoreRange (CoreCoord (min x1 u1) y1) (CoreCoord (max x2 u2) y2)"
  have v: "small_range ?v \<and> cells ?v = cells a \<union> cells b" if ?T "x1 = u1" "x2 = u2"
    using T [OF that(1)] that(2,3) va unfolding a b
    by (auto simp: small_range_def min_def max_def intro!: cells_cases split: if_splits)
  have h: "small_range ?h \<and> cells ?h = cells a \<union> cells b" if ?T "y1 = v1" "y2 = v2"
    using T [OF that(1)] that(2,3) va unfolding a b
    by (auto simp: small_range_def min_def max_def intro!: cells_cases split: if_splits)
  show ?thesis unfolding range_merge_eq [OF assms [unfolded a b], folded a b] using v h by auto
qed

end
