(* ===== verification/Core_Range_Set.thy ===== *)
theory Core_Range_Set
  imports Core_Coord
begin

text \<open>
  Sets of core ranges: the class \<^verbatim>\<open>CoreRangeSet\<close> of \<^verbatim>\<open>core_coord.h\<close> and the functions that list the cores of
  a grid or of a set.  \<open>merge\<close> rasterises the ranges, cuts every row into maximal runs and glues a run
  to the range above it that has the same columns.
\<close>

subsection \<open>std::set of ranges\<close>

definition xy_order_ok :: "(CoreCoord \<Rightarrow> CoreCoord \<Rightarrow> bool) \<Rightarrow> bool" where
  "xy_order_ok lt \<longleftrightarrow>
     (\<forall>a. \<not> lt a a) \<and> (\<forall>a b c. lt a b \<longrightarrow> lt b c \<longrightarrow> lt a c) \<and> (\<forall>a b. lt a b \<or> a = b \<or> lt b a) \<and>
     (\<forall>a b. cx a \<le> cx b \<longrightarrow> cy a \<le> cy b \<longrightarrow> a \<noteq> b \<longrightarrow> lt a b)"

definition range_less :: "(CoreCoord \<Rightarrow> CoreCoord \<Rightarrow> bool) \<Rightarrow> CoreRange \<Rightarrow> CoreRange \<Rightarrow> bool" where
  "range_less lt left right \<longleftrightarrow>
     lt (start_coord left) (start_coord right) \<or>
     (start_coord left = start_coord right \<and> lt (end_coord left) (end_coord right))"

fun set_insert :: "(CoreCoord \<Rightarrow> CoreCoord \<Rightarrow> bool) \<Rightarrow> CoreRange \<Rightarrow> CoreRange list \<Rightarrow> CoreRange list" where
  "set_insert lt c [] = [c]"
| "set_insert lt c (a # as) =
     (if range_less lt c a then c # a # as
      else if range_less lt a c then a # set_insert lt c as
      else a # as)"

subsection \<open>Construction and queries\<close>

definition ranges_overlap :: "CoreRange \<Rightarrow> CoreRange \<Rightarrow> bool" where
  "ranges_overlap first second =
     (let left_of = cx (end_coord first) < cx (start_coord second);
          right_of = cx (start_coord first) > cx (end_coord second);
          above = cy (end_coord first) < cy (start_coord second);
          below = cy (start_coord first) > cy (end_coord second)
      in \<not> (left_of \<or> right_of \<or> above \<or> below))"

definition new_CoreRangeSet :: "CoreRange list \<Rightarrow> CoreRange list result" where
  "new_CoreRangeSet crs =
     (if list_ex (\<lambda>i. list_ex (\<lambda>j. i \<noteq> j \<and> ranges_overlap (crs ! i) (crs ! j)) [0..<length crs])
           [0..<length crs]
      then Inl (TT_THROW ''Cannot create CoreRangeSet with specified core ranges because they overlap'')
      else Inr crs)"

definition core_coord_in_core_ranges :: "CoreRange list \<Rightarrow> CoreCoord \<Rightarrow> bool" where
  "core_coord_in_core_ranges crs c = list_ex (\<lambda>cr. range_contains_coord cr c) crs"

fun set_intersects :: "CoreRange list \<Rightarrow> CoreRange \<Rightarrow> bool result" where
  "set_intersects [] cr = Inr False"
| "set_intersects (l # ls) cr =
     rbind (range_intersects l cr) (\<lambda>i. if i \<noteq> None then Inr True else set_intersects ls cr)"

definition set_num_cores :: "CoreRange list \<Rightarrow> nat" where
  "set_num_cores crs = foldl (\<lambda>n cr. u32 (add64 n (range_size cr))) 0 crs"

definition bounding_box :: "CoreRange list \<Rightarrow> CoreRange result" where
  "bounding_box crs =
     rbind (check (length crs > 0) (TT_FATAL ''Cannot get bounding_box of an empty CoreRangeSet!'')) (\<lambda>_.
     let min_x = foldl (\<lambda>m cr. min m (cx (start_coord cr))) (2 ^ 32 - 1) crs;
         max_x = foldl (\<lambda>m cr. max m (cx (end_coord cr))) 0 crs;
         min_y = foldl (\<lambda>m cr. min m (cy (start_coord cr))) (2 ^ 32 - 1) crs;
         max_y = foldl (\<lambda>m cr. max m (cy (end_coord cr))) 0 crs
     in new_CoreRange (CoreCoord min_x min_y) (CoreCoord max_x max_y))"

definition set_equal :: "CoreRange list \<Rightarrow> CoreRange list \<Rightarrow> bool" where
  "set_equal a b \<longleftrightarrow> length a = length b \<and> list_all (\<lambda>(x, y). x = y) (zip a b)"

subsection \<open>merge\<close>

definition paint :: "CoreRange list \<Rightarrow> nat \<Rightarrow> nat \<Rightarrow> bool" where
  "paint crs =
     fold (\<lambda>cr g.
       fold (\<lambda>y g.
         fold (\<lambda>x g. g(y := (g y)(x := True)))
           [u32 (cx (start_coord cr))..<Suc (cx (end_coord cr))] g)
         [u32 (cy (start_coord cr))..<Suc (cy (end_coord cr))] g)
       crs (\<lambda>_ _. False)"

text \<open>\<open>while (grid[y][x]) x++\<close>: the grid has a last column that is false, so \<open>n\<close> columns are enough.\<close>

fun run_end :: "nat \<Rightarrow> (nat \<Rightarrow> bool) \<Rightarrow> nat \<Rightarrow> nat" where
  "run_end 0 row x = x"
| "run_end (Suc n) row x = (if row x then run_end n row (Suc x) else x)"

lemma run_end_ge: "x \<le> run_end n row x"
  by (induction n row x rule: run_end.induct) auto

function scan_row :: "(nat \<Rightarrow> bool) \<Rightarrow> nat \<Rightarrow> nat \<Rightarrow> nat \<Rightarrow> CoreRange list" where
  "scan_row row y max_x x =
     (if x > max_x + 1 then []
      else if row x then
        let e = run_end (max_x + 2 - x) row x
        in CoreRange (CoreCoord x y) (CoreCoord (e - 1) y) # scan_row row y max_x (Suc e)
      else scan_row row y max_x (Suc x))"
  by pat_completeness auto
termination
proof (relation "measure (\<lambda>(row, y, max_x, x). max_x + 2 - x)")
  fix row y max_x x e
  assume "\<not> max_x + 1 < x" "row x" and e: "e = run_end (max_x + 2 - x) row x"
  moreover have "x \<le> e" unfolding e by (rule run_end_ge)
  ultimately show "((row, y, max_x, Suc e), row, y, max_x, x) \<in> measure (\<lambda>(row, y, max_x, x). max_x + 2 - x)"
    by auto
qed auto

declare scan_row.simps [simp del]

fun merge_with_previous ::
    "(CoreCoord \<Rightarrow> CoreCoord \<Rightarrow> bool) \<Rightarrow> CoreRange \<Rightarrow> CoreRange list \<Rightarrow> CoreRange list \<Rightarrow> CoreRange list \<Rightarrow>
     (CoreRange list \<times> CoreRange list) result" where
  "merge_with_previous lt cr [] new_crs filter_set = Inr (new_crs, filter_set)"
| "merge_with_previous lt cr (prev_cr # ps) new_crs filter_set =
     rbind (range_merge cr prev_cr) (\<lambda>merged.
     case merged of
       Some m \<Rightarrow> merge_with_previous lt cr ps (set_insert lt m new_crs)
                  (set_insert lt cr (set_insert lt prev_cr filter_set))
     | None \<Rightarrow> merge_with_previous lt cr ps new_crs filter_set)"

fun merge_row_ranges ::
    "(CoreCoord \<Rightarrow> CoreCoord \<Rightarrow> bool) \<Rightarrow> CoreRange list \<Rightarrow> CoreRange list \<Rightarrow> CoreRange list \<Rightarrow> CoreRange list \<Rightarrow>
     (CoreRange list \<times> CoreRange list \<times> CoreRange list) result" where
  "merge_row_ranges lt [] crs new_crs filter_set = Inr (crs, new_crs, filter_set)"
| "merge_row_ranges lt (cr # rs) crs new_crs filter_set =
     rbind (merge_with_previous lt cr crs new_crs filter_set) (\<lambda>(new_crs, filter_set).
     merge_row_ranges lt rs (set_insert lt cr crs) new_crs filter_set)"

definition merge_row ::
    "(CoreCoord \<Rightarrow> CoreCoord \<Rightarrow> bool) \<Rightarrow> (nat \<Rightarrow> nat \<Rightarrow> bool) \<Rightarrow> nat \<Rightarrow> nat \<Rightarrow> nat \<Rightarrow> CoreRange list \<Rightarrow>
     CoreRange list result" where
  "merge_row lt grid min_x max_x y crs =
     rbind (merge_row_ranges lt (scan_row (grid y) y max_x (u32 min_x)) crs [] [])
       (\<lambda>(crs, new_crs, filter_set).
     Inr (fold (set_insert lt) new_crs (filter (\<lambda>c. c \<notin> set filter_set) crs)))"

fun merge_rows ::
    "(CoreCoord \<Rightarrow> CoreCoord \<Rightarrow> bool) \<Rightarrow> (nat \<Rightarrow> nat \<Rightarrow> bool) \<Rightarrow> nat \<Rightarrow> nat \<Rightarrow> nat list \<Rightarrow> CoreRange list \<Rightarrow>
     CoreRange list result" where
  "merge_rows lt grid min_x max_x [] crs = Inr crs"
| "merge_rows lt grid min_x max_x (y # ys) crs =
     rbind (merge_row lt grid min_x max_x y crs) (merge_rows lt grid min_x max_x ys)"

definition set_merge ::
    "(CoreCoord \<Rightarrow> CoreCoord \<Rightarrow> bool) \<Rightarrow> CoreRange list \<Rightarrow> CoreRange list \<Rightarrow> CoreRange list result" where
  "set_merge lt ranges other =
     (let crs = fold (set_insert lt) other ranges;
          min_x = foldl (\<lambda>m cr. min m (cx (start_coord cr))) (2 ^ 64 - 1) crs;
          max_x = foldl (\<lambda>m cr. max m (cx (end_coord cr))) 0 crs;
          min_y = foldl (\<lambda>m cr. min m (cy (start_coord cr))) (2 ^ 64 - 1) crs;
          max_y = foldl (\<lambda>m cr. max m (cy (end_coord cr))) 0 crs;
          grid = paint crs
      in rbind (merge_rows lt grid min_x max_x [u32 min_y..<Suc max_y] []) new_CoreRangeSet)"

subsection \<open>Listing cores\<close>

definition grid_to_cores :: "nat \<Rightarrow> nat \<Rightarrow> nat \<Rightarrow> bool \<Rightarrow> CoreCoord list result" where
  "grid_to_cores num_cores grid_size_x grid_size_y row_wise =
     rbind (check (num_cores \<le> mul32 grid_size_x grid_size_y)
              (TT_ASSERT ''Number of cores exceeds grid size'')) (\<lambda>_.
     Inr (if row_wise
          then map (\<lambda>i. CoreCoord (i mod grid_size_x) (i div grid_size_x)) [0..<num_cores]
          else map (\<lambda>i. CoreCoord (i div grid_size_y) (i mod grid_size_y)) [0..<num_cores]))"

definition grid_to_cores_between :: "CoreCoord \<Rightarrow> CoreCoord \<Rightarrow> bool \<Rightarrow> CoreCoord list" where
  "grid_to_cores_between s e row_wise =
     (let is = [u32 (cx s)..<add64 (cx e) 1]; js = [u32 (cy s)..<add64 (cy e) 1]
      in if row_wise
         then concat (map (\<lambda>j. map (\<lambda>i. CoreCoord i j) is) js)
         else concat (map (\<lambda>i. map (\<lambda>j. CoreCoord i j) js) is))"

definition grid_to_cores_with_noop ::
    "nat \<Rightarrow> nat \<Rightarrow> nat \<Rightarrow> nat \<Rightarrow> bool \<Rightarrow> CoreCoord list result" where
  "grid_to_cores_with_noop bbox_x bbox_y grid_size_x grid_size_y row_wise =
     rbind (check (bbox_x < grid_size_x) (TT_ASSERT ''bbox_x < grid_size_x'')) (\<lambda>_.
     rbind (check (bbox_y < grid_size_y) (TT_ASSERT ''bbox_y < grid_size_y'')) (\<lambda>_.
     let box_size_x = add32 bbox_x 1; box_size_y = add32 bbox_y 1;
         box = (if row_wise
           then map (\<lambda>i. CoreCoord (i mod box_size_x) (i div box_size_x)) [0..<mul32 box_size_x box_size_y]
           else map (\<lambda>i. CoreCoord (i div box_size_y) (i mod box_size_y)) [0..<mul32 box_size_x box_size_y]);
         right = concat (map (\<lambda>x. map (\<lambda>y. CoreCoord x y) [0..<grid_size_y]) [box_size_x..<grid_size_x]);
         bottom = concat (map (\<lambda>y. map (\<lambda>x. CoreCoord x y) [0..<box_size_x]) [box_size_y..<grid_size_y])
     in Inr (box @ right @ bottom)))"

definition corerange_to_cores :: "CoreRange list \<Rightarrow> nat option \<Rightarrow> bool \<Rightarrow> CoreCoord list" where
  "corerange_to_cores crs max_cores row_wise =
     fold (\<lambda>cr all_cores.
       let cores = grid_to_cores_between (start_coord cr) (end_coord cr) row_wise
       in case max_cores of
            Some m \<Rightarrow> if length all_cores + length cores > m
                      then all_cores @ take (u32 (sub64 m (length all_cores))) cores
                      else all_cores @ cores
          | None \<Rightarrow> all_cores @ cores)
       crs []"

end
