(* ===== verification/Core_Range_Merge.thy ===== *)
theory Core_Range_Merge
  imports Core_Range_Set
begin

text \<open>
  Correctness of \<^verbatim>\<open>CoreRangeSet\<close>: the construction accepts exactly the sets of pairwise disjoint ranges, and
  \<open>merge\<close> returns disjoint ranges that stand for exactly the cores of its two arguments.
\<close>

subsection \<open>std::set of ranges\<close>

lemma range_less_order:
  assumes "xy_order_ok lt"
  shows "\<not> range_less lt a a" and "range_less lt a b \<Longrightarrow> range_less lt b c \<Longrightarrow> range_less lt a c"
    and "range_less lt a b \<or> a = b \<or> range_less lt b a"
proof -
  have irr: "\<And>a. \<not> lt a a" and tr: "\<And>a b c. lt a b \<Longrightarrow> lt b c \<Longrightarrow> lt a c"
    and tot: "\<And>a b. lt a b \<or> a = b \<or> lt b a"
    using assms by (auto simp: xy_order_ok_def)
  show "\<not> range_less lt a a" using irr by (simp add: range_less_def)
  show "range_less lt a b \<Longrightarrow> range_less lt b c \<Longrightarrow> range_less lt a c"
    using tr by (auto simp: range_less_def)
  show "range_less lt a b \<or> a = b \<or> range_less lt b a"
    using tot [of "start_coord a" "start_coord b"] tot [of "end_coord a" "end_coord b"]
    by (auto simp: range_less_def intro: CoreRange.expand)
qed

abbreviation rsorted :: "(CoreCoord \<Rightarrow> CoreCoord \<Rightarrow> bool) \<Rightarrow> CoreRange list \<Rightarrow> bool" where
  "rsorted lt \<equiv> sorted_wrt (range_less lt)"

lemma rsorted_distinct: "xy_order_ok lt \<Longrightarrow> rsorted lt xs \<Longrightarrow> distinct xs"
  using range_less_order(1) by (induction xs) auto

lemma set_set_insert [simp]: "xy_order_ok lt \<Longrightarrow> set (set_insert lt c xs) = insert c (set xs)"
  using range_less_order(3) by (induction xs) auto

lemma rsorted_set_insert: "xy_order_ok lt \<Longrightarrow> rsorted lt xs \<Longrightarrow> rsorted lt (set_insert lt c xs)"
proof (induction xs)
  case (Cons a xs)
  then show ?case using range_less_order(2) [OF Cons.prems(1)] by auto
qed simp

lemma set_fold_insert: "xy_order_ok lt \<Longrightarrow> set (fold (set_insert lt) ys xs) = set ys \<union> set xs"
  by (induction ys arbitrary: xs) auto

lemma rsorted_fold_insert:
  "xy_order_ok lt \<Longrightarrow> rsorted lt xs \<Longrightarrow> rsorted lt (fold (set_insert lt) ys xs)"
  by (induction ys arbitrary: xs) (auto intro: rsorted_set_insert)

subsection \<open>Construction\<close>

lemma ranges_overlap_cells:
  assumes "valid_range a" and "valid_range b"
  shows "ranges_overlap a b \<longleftrightarrow> cells a \<inter> cells b \<noteq> {}"
proof -
  obtain x1 y1 x2 y2 where a: "a = CoreRange (CoreCoord x1 y1) (CoreCoord x2 y2)" by (rule range_cases)
  obtain u1 v1 u2 v2 where b: "b = CoreRange (CoreCoord u1 v1) (CoreCoord u2 v2)" by (rule range_cases)
  have "CoreCoord (max x1 u1) (max y1 v1) \<in> cells a \<inter> cells b" if "ranges_overlap a b"
    using that assms by (auto simp: a b ranges_overlap_def)
  moreover have "ranges_overlap a b" if "c \<in> cells a \<inter> cells b" for c
    using that by (cases c) (auto simp: a b ranges_overlap_def)
  ultimately show ?thesis by blast
qed

definition disjoint_ranges :: "CoreRange set \<Rightarrow> bool" where
  "disjoint_ranges S \<longleftrightarrow> (\<forall>a\<in>S. \<forall>b\<in>S. a \<noteq> b \<longrightarrow> cells a \<inter> cells b = {})"

lemma new_CoreRangeSet_iff:
  assumes "distinct crs" and "\<forall>r\<in>set crs. valid_range r"
  shows "new_CoreRangeSet crs = Inr crs \<longleftrightarrow> disjoint_ranges (set crs)"
proof -
  have "(\<exists>i<length crs. \<exists>j<length crs. i \<noteq> j \<and> ranges_overlap (crs ! i) (crs ! j)) \<longleftrightarrow>
      (\<exists>a\<in>set crs. \<exists>b\<in>set crs. a \<noteq> b \<and> ranges_overlap a b)"
    using nth_eq_iff_index_eq [OF assms(1)] by (metis in_set_conv_nth)
  moreover have "(\<exists>a\<in>set crs. \<exists>b\<in>set crs. a \<noteq> b \<and> ranges_overlap a b) \<longleftrightarrow> \<not> disjoint_ranges (set crs)"
    using assms(2) ranges_overlap_cells by (auto simp: disjoint_ranges_def)
  moreover have "new_CoreRangeSet crs = Inr crs \<longleftrightarrow>
      \<not> (\<exists>i<length crs. \<exists>j<length crs. i \<noteq> j \<and> ranges_overlap (crs ! i) (crs ! j))"
    by (simp add: new_CoreRangeSet_def list_ex_iff Bex_def)
  ultimately show ?thesis by blast
qed

subsection \<open>Rasterising\<close>

lemma fold_set_True: "fold (\<lambda>x g. g(y := (g y)(x := True))) xs g a b \<longleftrightarrow> g a b \<or> (a = y \<and> b \<in> set xs)"
  by (induction xs arbitrary: g) auto

lemma fold_paint_rows:
  "fold (\<lambda>y g. fold (\<lambda>x g. g(y := (g y)(x := True))) xs g) ys g a b \<longleftrightarrow>
     g a b \<or> (a \<in> set ys \<and> b \<in> set xs)"
  by (induction ys arbitrary: g) (auto simp: fold_set_True)

lemma paint_cells:
  assumes "\<forall>r\<in>set crs. small_range r"
  shows "paint crs y x \<longleftrightarrow> CoreCoord x y \<in> cells_of crs"
proof -
  define f where "f = (\<lambda>cr g. fold (\<lambda>y g. fold (\<lambda>x g. g(y := (g y)(x := True)))
           [u32 (cx (start_coord cr))..<Suc (cx (end_coord cr))] g)
         [u32 (cy (start_coord cr))..<Suc (cy (end_coord cr))] g)"
  have f: "f r g y x \<longleftrightarrow> g y x \<or> CoreCoord x y \<in> cells r" if "small_range r" for r g
  proof -
    have "u32 (cx (start_coord r)) = cx (start_coord r)" "u32 (cy (start_coord r)) = cy (start_coord r)"
      using that by (auto simp: small_range_def valid_range_def intro!: wcast_id)
    then show ?thesis
      by (auto simp: f_def fold_paint_rows cells_def range_contains_coord_def less_Suc_eq_le simp del: upt_Suc)
  qed
  have "fold f crs g y x \<longleftrightarrow> g y x \<or> CoreCoord x y \<in> cells_of crs" for g
    using assms by (induction crs arbitrary: g) (auto simp: f cells_of_def)
  then show ?thesis unfolding paint_def f_def [symmetric] by simp
qed

subsection \<open>Runs of a row\<close>

lemma run_end_spec:
  assumes "\<not> row m" and "x \<le> m" and "m < x + n"
  shows "run_end n row x \<le> m \<and> (\<forall>c. x \<le> c \<longrightarrow> c < run_end n row x \<longrightarrow> row c) \<and> \<not> row (run_end n row x)"
  using assms
proof (induction n row x rule: run_end.induct)
  case (2 n row x)
  show ?case
  proof (cases "row x")
    case True
    then have "x \<noteq> m" using 2 by auto
    then have ih: "run_end n row (Suc x) \<le> m" "\<forall>c. Suc x \<le> c \<longrightarrow> c < run_end n row (Suc x) \<longrightarrow> row c"
      "\<not> row (run_end n row (Suc x))"
      using 2 True by auto
    have "row c" if "x \<le> c" "c < run_end n row (Suc x)" for c
      using that ih(2) True by (cases "c = x") auto
    then show ?thesis using ih True by simp
  qed (use 2 in auto)
qed simp

definition is_run :: "(nat \<Rightarrow> bool) \<Rightarrow> nat \<Rightarrow> nat \<Rightarrow> CoreRange \<Rightarrow> bool" where
  "is_run row y x r \<longleftrightarrow> (\<exists>a b. r = CoreRange (CoreCoord a y) (CoreCoord b y) \<and> x \<le> a \<and> a \<le> b \<and>
     (\<forall>c. a \<le> c \<longrightarrow> c \<le> b \<longrightarrow> row c) \<and> \<not> row (Suc b) \<and> (a = 0 \<or> a = x \<or> \<not> row (a - 1)))"

lemma is_run_mono: "is_run row y x r \<Longrightarrow> \<not> row (x - 1) \<Longrightarrow> x' \<le> x \<Longrightarrow> is_run row y x' r"
proof -
  assume "is_run row y x r" and n: "\<not> row (x - 1)" "x' \<le> x"
  then obtain a b where r: "r = CoreRange (CoreCoord a y) (CoreCoord b y)" "x \<le> a" "a \<le> b"
      "\<forall>c. a \<le> c \<longrightarrow> c \<le> b \<longrightarrow> row c" "\<not> row (Suc b)" "a = 0 \<or> a = x \<or> \<not> row (a - 1)"
    unfolding is_run_def by blast
  have "a = 0 \<or> a = x' \<or> \<not> row (a - 1)" using r(6) n(1) by blast
  moreover have "x' \<le> a" using r(2) n(2) by (rule le_trans [rotated])
  ultimately show ?thesis unfolding is_run_def using r by blast
qed

lemma scan_row_spec:
  assumes "\<And>c. row c \<Longrightarrow> c \<le> max_x"
  shows "(\<forall>r\<in>set (scan_row row y max_x x). is_run row y x r) \<and>
    cells_of (scan_row row y max_x x) = {CoreCoord c y | c. x \<le> c \<and> row c}"
  using assms
proof (induction row y max_x x rule: scan_row.induct)
  case (1 row y max_x x)
  note row = "1.prems"
  show ?case
  proof (cases "x > max_x + 1")
    case True
    then show ?thesis using row by (subst (1 2) scan_row.simps) (fastforce simp: cells_of_def)
  next
    case x: False
    show ?thesis
    proof (cases "row x")
      case True
      define e where "e = run_end (max_x + 2 - x) row x"
      have "\<not> row (max_x + 1)" using row by fastforce
      then have e: "e \<le> max_x + 1" "\<And>c. x \<le> c \<Longrightarrow> c < e \<Longrightarrow> row c" "\<not> row e"
        using run_end_spec [of row "max_x + 1" x "max_x + 2 - x"] x by (auto simp: e_def)
      have xe: "x < e" using run_end_ge [of x "max_x + 2 - x" row] True e(3) by (auto simp: e_def le_less)
      let ?r = "CoreRange (CoreCoord x y) (CoreCoord (e - 1) y)"
      have s: "scan_row row y max_x x = ?r # scan_row row y max_x (Suc e)"
        using x True by (subst scan_row.simps) (simp add: e_def Let_def)
      have ih: "\<forall>r\<in>set (scan_row row y max_x (Suc e)). is_run row y (Suc e) r"
        "cells_of (scan_row row y max_x (Suc e)) = {CoreCoord c y | c. Suc e \<le> c \<and> row c}"
        using "1.IH"(1) [OF x True e_def row] by auto
      have "is_run row y x ?r"
        using xe e by (auto simp: is_run_def)
      moreover have "is_run row y x r" if "r \<in> set (scan_row row y max_x (Suc e))" for r
        using ih(1) that is_run_mono [of row y "Suc e" r x] e(3) xe by auto
      moreover have "cells ?r \<union> {CoreCoord c y | c. Suc e \<le> c \<and> row c} = {CoreCoord c y | c. x \<le> c \<and> row c}"
      proof (rule cells_cases)
        fix a b
        have "row a \<Longrightarrow> a \<noteq> e" using e(3) by blast
        then have "(x \<le> a \<and> a \<le> e - 1 \<or> Suc e \<le> a \<and> row a) \<longleftrightarrow> x \<le> a \<and> row a"
          using xe e(2) [of a] by linarith
        then show "CoreCoord a b \<in> cells ?r \<union> {CoreCoord c y | c. Suc e \<le> c \<and> row c} \<longleftrightarrow>
            CoreCoord a b \<in> {CoreCoord c y | c. x \<le> c \<and> row c}" by auto
      qed
      ultimately show ?thesis unfolding s using ih(2) by (simp add: cells_of_def)
    next
      case False
      have s: "scan_row row y max_x x = scan_row row y max_x (Suc x)"
        using x False by (subst scan_row.simps) simp
      have ih: "\<forall>r\<in>set (scan_row row y max_x (Suc x)). is_run row y (Suc x) r"
        "cells_of (scan_row row y max_x (Suc x)) = {CoreCoord c y | c. Suc x \<le> c \<and> row c}"
        using "1.IH"(2) [OF x False row] by auto
      have "{CoreCoord c y | c. Suc x \<le> c \<and> row c} = {CoreCoord c y | c. x \<le> c \<and> row c}"
        using False by (auto simp: Suc_le_eq le_less)
      moreover have "is_run row y x r" if "r \<in> set (scan_row row y max_x (Suc x))" for r
        using ih(1) that is_run_mono [of row y "Suc x" r x] False by auto
      ultimately show ?thesis unfolding s using ih by auto
    qed
  qed
qed

lemma runs_separated:
  assumes "is_run row y x r" and "is_run row y x q" and "r \<noteq> q"
  obtains a b c d where "r = CoreRange (CoreCoord a y) (CoreCoord b y)" "a \<le> b"
    "q = CoreRange (CoreCoord c y) (CoreCoord d y)" "c \<le> d" "b + 1 < c \<or> d + 1 < a"
proof -
  obtain a b where r: "r = CoreRange (CoreCoord a y) (CoreCoord b y)" "x \<le> a" "a \<le> b"
    "\<And>c. a \<le> c \<Longrightarrow> c \<le> b \<Longrightarrow> row c" "\<not> row (Suc b)" "a = 0 \<or> a = x \<or> \<not> row (a - 1)"
    using assms(1) unfolding is_run_def by blast
  obtain c d where q: "q = CoreRange (CoreCoord c y) (CoreCoord d y)" "x \<le> c" "c \<le> d"
    "\<And>e. c \<le> e \<Longrightarrow> e \<le> d \<Longrightarrow> row e" "\<not> row (Suc d)" "c = 0 \<or> c = x \<or> \<not> row (c - 1)"
    using assms(2) unfolding is_run_def by blast
  have "b + 1 < c" if "a < c"
  proof (rule ccontr)
    assume "\<not> b + 1 < c"
    then have "row (c - 1)" "Suc b \<noteq> c" using that r(3,5) q(3) r(4) [of "c - 1"] q(4) [of c] by auto
    then show False using that q(6) r(2) by auto
  qed
  moreover have "d + 1 < a" if "c < a"
  proof (rule ccontr)
    assume "\<not> d + 1 < a"
    then have "row (a - 1)" using that q(3) q(4) [of "a - 1"] by auto
    then show False using that r(6) q(2) by auto
  qed
  moreover have "a \<noteq> c"
  proof
    assume "a = c"
    then have "b \<noteq> d" using assms(3) r(1) q(1) by auto
    then consider "Suc d \<le> b" | "Suc b \<le> d" by linarith
    then show False using r(3,5) q(3,5) r(4) [of "Suc d"] q(4) [of "Suc b"] \<open>a = c\<close> by cases auto
  qed
  ultimately have "b + 1 < c \<or> d + 1 < a" by linarith
  then show ?thesis using that r(1,3) q(1,3) by blast
qed

subsection \<open>Merging the runs of a row\<close>

definition merges_to :: "CoreRange \<Rightarrow> CoreRange \<Rightarrow> CoreRange \<Rightarrow> bool" where
  "merges_to r p m \<longleftrightarrow> range_merge r p = Inr (Some m)"

definition new_of :: "CoreRange set \<Rightarrow> CoreRange set \<Rightarrow> CoreRange set" where
  "new_of R P = {m. \<exists>r\<in>R. \<exists>p\<in>P. merges_to r p m}"

definition filt_of :: "CoreRange set \<Rightarrow> CoreRange set \<Rightarrow> CoreRange set" where
  "filt_of R P = {q. \<exists>r\<in>R. \<exists>p\<in>P. \<exists>m. merges_to r p m \<and> (q = p \<or> q = r)}"

lemma new_of_simps:
  "new_of {} P = {}" "new_of R {} = {}"
  "new_of (insert r R) P = new_of {r} P \<union> new_of R P" "new_of R (insert p P) = new_of R {p} \<union> new_of R P"
  unfolding new_of_def by blast+

lemma filt_of_simps:
  "filt_of {} P = {}" "filt_of R {} = {}"
  "filt_of (insert r R) P = filt_of {r} P \<union> filt_of R P"
  "filt_of R (insert p P) = filt_of R {p} \<union> filt_of R P"
  unfolding filt_of_def by blast+

lemma no_merge_of:
  assumes "\<And>r m. r \<in> R \<Longrightarrow> \<not> merges_to r p m"
  shows "new_of R {p} = {}" and "filt_of R {p} = {}"
  unfolding new_of_def filt_of_def using assms by blast+

lemma merge_with_previous_sets:
  assumes ord: "xy_order_ok lt" and "small_range cr" and "\<forall>p\<in>set ps. small_range p"
  shows "\<exists>new' filt'. merge_with_previous lt cr ps new filt = Inr (new', filt') \<and>
    set new' = set new \<union> new_of {cr} (set ps) \<and> set filt' = set filt \<union> filt_of {cr} (set ps)"
  using assms(3)
proof (induction ps arbitrary: new filt)
  case Nil
  then show ?case by (simp add: new_of_simps filt_of_simps)
next
  case (Cons p ps)
  have ps: "\<forall>p\<in>set ps. small_range p" using Cons.prems by simp
  obtain m where m: "range_merge cr p = Inr m" using merge_cells [OF assms(2), of p] Cons.prems by auto
  show ?case
  proof (cases m)
    case None
    then have n: "new_of {cr} {p} = {}" "filt_of {cr} {p} = {}"
      using m by (auto intro!: no_merge_of simp: merges_to_def)
    show ?thesis using Cons.IH [OF ps, of new filt] m None n
      by (simp add: new_of_simps(4) [of _ p "set ps"] filt_of_simps(4) [of _ p "set ps"])
  next
    case (Some n)
    have n: "new_of {cr} {p} = {n}" "filt_of {cr} {p} = {p, cr}"
      using m Some by (auto simp: new_of_def filt_of_def merges_to_def)
    show ?thesis
      using Cons.IH [OF ps, of "set_insert lt n new" "set_insert lt cr (set_insert lt p filt)"] m Some n
      by (simp add: new_of_simps(4) [of _ p "set ps"] filt_of_simps(4) [of _ p "set ps"] ord) blast
  qed
qed

lemma merge_row_ranges_sets:
  assumes ord: "xy_order_ok lt"
  shows "\<forall>r\<in>set rs. small_range r \<Longrightarrow> \<forall>p\<in>set crs. small_range p \<Longrightarrow> rsorted lt crs \<Longrightarrow>
    (\<And>r q m. r \<in> set rs \<Longrightarrow> q \<in> set rs \<Longrightarrow> r \<noteq> q \<Longrightarrow> \<not> merges_to r q m) \<Longrightarrow> distinct rs \<Longrightarrow>
    (\<exists>crs' new' filt'. merge_row_ranges lt rs crs new filt = Inr (crs', new', filt') \<and>
      rsorted lt crs' \<and> set crs' = set rs \<union> set crs \<and>
      set new' = set new \<union> new_of (set rs) (set crs) \<and> set filt' = set filt \<union> filt_of (set rs) (set crs))"
proof (induction rs arbitrary: crs new filt)
  case Nil
  then show ?case by (simp add: new_of_simps filt_of_simps)
next
  case (Cons r rs)
  obtain new1 filt1 where e1: "merge_with_previous lt r crs new filt = Inr (new1, filt1)"
    "set new1 = set new \<union> new_of {r} (set crs)" "set filt1 = set filt \<union> filt_of {r} (set crs)"
    using merge_with_previous_sets [OF ord, of r crs new filt] Cons.prems(1,2) by auto
  have n: "new_of (set rs) {r} = {}" "filt_of (set rs) {r} = {}"
  proof -
    have "\<not> merges_to q r m" if "q \<in> set rs" for q m
      using Cons.prems(4) [of q r m] Cons.prems(5) that by auto
    note nm = this
    show "new_of (set rs) {r} = {}" by (rule no_merge_of(1)) (rule nm)
    show "filt_of (set rs) {r} = {}" by (rule no_merge_of(2)) (rule nm)
  qed
  have c: "set (set_insert lt r crs) = insert r (set crs)" by (rule set_set_insert [OF ord])
  have "\<forall>r\<in>set rs. small_range r" "\<forall>p\<in>set (set_insert lt r crs). small_range p"
    "rsorted lt (set_insert lt r crs)" "distinct rs"
    using Cons.prems rsorted_set_insert [OF ord] by (auto simp: c)
  note p = this
  have pm: "\<not> merges_to s q m" if "s \<in> set rs" "q \<in> set rs" "s \<noteq> q" for s q m
    using Cons.prems(4) [of s q m] that by simp
  have ih: "\<exists>crs' new' filt'. merge_row_ranges lt rs (set_insert lt r crs) new1 filt1 = Inr (crs', new', filt') \<and>
      rsorted lt crs' \<and> set crs' = set rs \<union> set (set_insert lt r crs) \<and>
      set new' = set new1 \<union> new_of (set rs) (set (set_insert lt r crs)) \<and>
      set filt' = set filt1 \<union> filt_of (set rs) (set (set_insert lt r crs))"
    by (rule Cons.IH [OF p(1,2,3) _ p(4)]) (rule pm)
  obtain crs' new' filt' where
    e2: "merge_row_ranges lt rs (set_insert lt r crs) new1 filt1 = Inr (crs', new', filt')" "rsorted lt crs'"
    "set crs' = set rs \<union> insert r (set crs)" "set new' = set new1 \<union> new_of (set rs) (insert r (set crs))"
    "set filt' = set filt1 \<union> filt_of (set rs) (insert r (set crs))"
    using ih unfolding c by blast
  have "set new' = set new \<union> new_of (set (r # rs)) (set crs)"
    unfolding e2(4) e1(2) list.set new_of_simps(3) [of r "set rs" "set crs"] new_of_simps(4) [of "set rs" r "set crs"] n by blast
  moreover have "set filt' = set filt \<union> filt_of (set (r # rs)) (set crs)"
    unfolding e2(5) e1(3) list.set filt_of_simps(3) [of r "set rs" "set crs"] filt_of_simps(4) [of "set rs" r "set crs"] n by blast
  moreover have "set crs' = set (r # rs) \<union> set crs" unfolding e2(3) by auto
  ultimately show ?case using e1(1) e2(1,2) by auto
qed

lemma run_merge_old:
  assumes "small_range (CoreRange (CoreCoord a y) (CoreCoord b y))" and "small_range p"
    and "cy (end_coord p) < y" and "merges_to (CoreRange (CoreCoord a y) (CoreCoord b y)) p m"
  shows "\<exists>v. p = CoreRange (CoreCoord a v) (CoreCoord b (y - 1)) \<and> v \<le> y - 1 \<and>
    m = CoreRange (CoreCoord a v) (CoreCoord b y)"
proof -
  obtain u1 v1 u2 v2 where p: "p = CoreRange (CoreCoord u1 v1) (CoreCoord u2 v2)" by (rule range_cases)
  have v: "v2 < y" "v1 \<le> v2" using assms(2,3) by (auto simp: p small_range_def)
  note e = range_merge_eq [OF assms(1) assms(2) [unfolded p]]
  have t: "touch a y b y u1 v1 u2 v2" "a = u1" "b = u2"
    and m: "m = CoreRange (CoreCoord a (min y v1)) (CoreCoord b (max y v2))"
    using assms(4) v unfolding merges_to_def p e by (auto split: if_splits)
  have "v2 = y - 1" using t(1) v unfolding touch_def by linarith
  then show ?thesis using t m v by (auto simp: p)
qed

lemma run_small:
  assumes "is_run row y x r" and "\<And>c. row c \<Longrightarrow> c < 2 ^ 31" and "y < 2 ^ 31"
  shows "small_range r"
proof -
  obtain a b where r: "r = CoreRange (CoreCoord a y) (CoreCoord b y)" "a \<le> b" "row b"
    using assms(1) unfolding is_run_def by blast
  then show ?thesis using assms(2) [OF r(3)] assms(3) by (simp add: small_range_def)
qed

lemma runs_no_merge:
  assumes "is_run row y x r" and "is_run row y x q" and "r \<noteq> q" and "small_range r" and "small_range q"
  shows "\<not> merges_to r q m" and "cells r \<inter> cells q = {}"
proof -
  obtain a b c d where r: "r = CoreRange (CoreCoord a y) (CoreCoord b y)" "a \<le> b"
    "q = CoreRange (CoreCoord c y) (CoreCoord d y)" "c \<le> d" "b + 1 < c \<or> d + 1 < a"
    using runs_separated [OF assms(1-3)] by blast
  have "\<not> touch a y b y c y d y" using r(2,4,5) unfolding touch_def by linarith
  then show "\<not> merges_to r q m"
    using range_merge_eq [OF assms(4) [unfolded r(1)] assms(5) [unfolded r(3)]]
    by (simp add: merges_to_def r(1,3))
  show "cells r \<inter> cells q = {}" unfolding r(1,3) by (rule cells_cases) (use r(5) in auto)
qed

definition rows_done :: "(nat \<Rightarrow> nat \<Rightarrow> bool) \<Rightarrow> nat \<Rightarrow> CoreRange set \<Rightarrow> bool" where
  "rows_done grid y S \<longleftrightarrow> (\<forall>p\<in>S. small_range p \<and> cy (end_coord p) < y) \<and> disjoint_ranges S \<and>
     \<Union> (cells ` S) = {CoreCoord c d | c d. d < y \<and> grid d c}"

lemma cells_above:
  assumes "cy (end_coord p) < cy (start_coord r)"
  shows "cells p \<inter> cells r = {}"
  using assms by (auto simp: cells_def range_contains_coord_def)

text \<open>\<open>row_ok grid y x R S\<close>: the rows above \<open>y\<close> are done with result \<open>S\<close>, and \<open>R\<close> are the runs of row \<open>y\<close>.\<close>

definition row_ok :: "(nat \<Rightarrow> nat \<Rightarrow> bool) \<Rightarrow> nat \<Rightarrow> nat \<Rightarrow> CoreRange set \<Rightarrow> CoreRange set \<Rightarrow> bool" where
  "row_ok grid y x R S \<longleftrightarrow> rows_done grid y S \<and> (\<forall>r\<in>R. is_run (grid y) y x r \<and> small_range r) \<and>
     \<Union> (cells ` R) = {CoreCoord c y | c. grid y c}"

lemma row_okD:
  assumes "row_ok grid y x R S"
  shows "p \<in> S \<Longrightarrow> small_range p" and "p \<in> S \<Longrightarrow> cy (end_coord p) < y"
    and "r \<in> R \<Longrightarrow> is_run (grid y) y x r" and "r \<in> R \<Longrightarrow> small_range r"
    and "r \<in> R \<Longrightarrow> \<exists>a b. r = CoreRange (CoreCoord a y) (CoreCoord b y) \<and> a \<le> b"
proof -
  have S: "\<forall>p\<in>S. small_range p \<and> cy (end_coord p) < y" and R: "\<forall>r\<in>R. is_run (grid y) y x r \<and> small_range r"
    using assms unfolding row_ok_def rows_done_def by simp_all
  show "p \<in> S \<Longrightarrow> small_range p" "p \<in> S \<Longrightarrow> cy (end_coord p) < y"
    "r \<in> R \<Longrightarrow> is_run (grid y) y x r" "r \<in> R \<Longrightarrow> small_range r"
    using S R by simp_all
  assume "r \<in> R"
  then have "is_run (grid y) y x r" using R by simp
  then show "\<exists>a b. r = CoreRange (CoreCoord a y) (CoreCoord b y) \<and> a \<le> b"
    unfolding is_run_def by (elim exE conjE) (intro exI conjI)
qed

lemma row_pair:
  assumes ok: "row_ok grid y x R S" and rp: "r \<in> R" "p \<in> S" "merges_to r p m"
  obtains a b v where "r = CoreRange (CoreCoord a y) (CoreCoord b y)" "a \<le> b"
    "p = CoreRange (CoreCoord a v) (CoreCoord b (y - 1))" "v \<le> y - 1"
    "m = CoreRange (CoreCoord a v) (CoreCoord b y)" "cells m = cells r \<union> cells p" "small_range m"
proof -
  note D = row_okD [OF ok]
  obtain a b where r: "r = CoreRange (CoreCoord a y) (CoreCoord b y)" "a \<le> b" using D(5) [OF rp(1)] by blast
  obtain v where "p = CoreRange (CoreCoord a v) (CoreCoord b (y - 1))" "v \<le> y - 1"
    "m = CoreRange (CoreCoord a v) (CoreCoord b y)"
    using run_merge_old [OF D(4) [OF rp(1), unfolded r(1)] D(1,2) [OF rp(2)] rp(3) [unfolded r(1)]] by blast
  moreover have "cells m = cells r \<union> cells p \<and> small_range m"
    using merge_cells [OF D(4) [OF rp(1)] D(1) [OF rp(2)]] rp(3) unfolding merges_to_def by (metis Inr_inject)
  ultimately show ?thesis using that r by blast
qed

lemma row_disjoint:
  assumes ok: "row_ok grid y x R S"
  shows "disjoint_ranges (R \<union> S)"
proof -
  note D = row_okD [OF ok]
  have "cells r \<inter> cells q = {}" if "r \<in> R" "q \<in> R" "r \<noteq> q" for r q
    by (rule runs_no_merge(2) [OF D(3) D(3) that(3) D(4) D(4)]) (use that in auto)
  moreover have "cells p \<inter> cells r = {}" if "r \<in> R" "p \<in> S" for r p
    using D(5) [OF that(1)] D(2) [OF that(2)] by (intro cells_above) auto
  moreover have "\<forall>a\<in>S. \<forall>b\<in>S. a \<noteq> b \<longrightarrow> cells a \<inter> cells b = {}"
    using ok by (simp add: row_ok_def rows_done_def disjoint_ranges_def)
  ultimately show ?thesis unfolding disjoint_ranges_def by blast
qed

lemma row_disjointD:
  "row_ok grid y x R S \<Longrightarrow> a \<in> R \<union> S \<Longrightarrow> b \<in> R \<union> S \<Longrightarrow> a \<noteq> b \<Longrightarrow> cells a \<inter> cells b = {}"
  using row_disjoint unfolding disjoint_ranges_def by blast

lemma row_new_new:
  assumes ok: "row_ok grid y x R S" and rp: "r \<in> R" "p \<in> S" "merges_to r p m"
    and rp': "r' \<in> R" "p' \<in> S" "merges_to r' p' n" and mn: "m \<noteq> n"
  shows "cells m \<inter> cells n = {}"
proof -
  from row_pair [OF ok rp] obtain a b v where e: "r = CoreRange (CoreCoord a y) (CoreCoord b y)" "a \<le> b"
    "p = CoreRange (CoreCoord a v) (CoreCoord b (y - 1))" "v \<le> y - 1" "cells m = cells r \<union> cells p" by metis
  from row_pair [OF ok rp'] obtain a' b' v' where e': "r' = CoreRange (CoreCoord a' y) (CoreCoord b' y)" "a' \<le> b'"
    "p' = CoreRange (CoreCoord a' v') (CoreCoord b' (y - 1))" "v' \<le> y - 1" "cells n = cells r' \<union> cells p'" by metis
  have y: "y - 1 < y" using row_okD(2) [OF ok rp(2)] by simp
  have rr: "r \<noteq> r'"
  proof
    assume rr: "r = r'"
    then have "CoreCoord a (y - 1) \<in> cells p" "CoreCoord a (y - 1) \<in> cells p'" using e e' by simp_all
    then have "p = p'" using row_disjointD [OF ok, of p p'] rp(2) rp'(2) by blast
    then show False using rr rp(3) rp'(3) mn by (simp add: merges_to_def)
  qed
  moreover have "p \<noteq> p'" using e(1,3) e'(1,3) rr by auto
  moreover have "r \<noteq> p'" "r' \<noteq> p" using e(1,3) e'(1,3) y by auto
  ultimately have "cells r \<inter> cells r' = {}" "cells r \<inter> cells p' = {}" "cells r' \<inter> cells p = {}"
    "cells p \<inter> cells p' = {}"
    using row_disjointD [OF ok] rp(1,2) rp'(1,2) by blast+
  then show ?thesis unfolding e(5) e'(5) by blast
qed

lemma row_new_old:
  assumes ok: "row_ok grid y x R S" and rp: "r \<in> R" "p \<in> S" "merges_to r p m"
    and q: "q \<in> (R \<union> S) - filt_of R S"
  shows "cells m \<inter> cells q = {}"
proof -
  have "r \<in> filt_of R S" "p \<in> filt_of R S" unfolding filt_of_def using rp by blast+
  then have "r \<noteq> q" "p \<noteq> q" using q by auto
  then have "cells r \<inter> cells q = {}" "cells p \<inter> cells q = {}"
    using row_disjointD [OF ok] rp(1,2) q by blast+
  moreover have "cells m = cells r \<union> cells p" by (rule row_pair [OF ok rp])
  ultimately show ?thesis by blast
qed

lemma row_result_disjoint:
  assumes ok: "row_ok grid y x R S"
  shows "disjoint_ranges (((R \<union> S) - filt_of R S) \<union> new_of R S)"
  unfolding disjoint_ranges_def
proof (intro ballI impI)
  fix u w assume u: "u \<in> ((R \<union> S) - filt_of R S) \<union> new_of R S" and w: "w \<in> ((R \<union> S) - filt_of R S) \<union> new_of R S"
    and uw: "u \<noteq> w"
  have N: "\<exists>r\<in>R. \<exists>p\<in>S. merges_to r p m" if "m \<in> new_of R S" for m using that by (simp add: new_of_def)
  show "cells u \<inter> cells w = {}"
  proof (cases "u \<in> new_of R S"; cases "w \<in> new_of R S")
    assume "u \<in> new_of R S" "w \<in> new_of R S"
    then show ?thesis using N row_new_new [OF ok _ _ _ _ _ _ uw] by meson
  next
    assume "u \<in> new_of R S" "w \<notin> new_of R S"
    then show ?thesis using N row_new_old [OF ok, of _ _ u w] w by blast
  next
    assume "u \<notin> new_of R S" "w \<in> new_of R S"
    then show ?thesis using N row_new_old [OF ok, of _ _ w u] u by blast
  next
    assume "u \<notin> new_of R S" "w \<notin> new_of R S"
    then show ?thesis using row_disjointD [OF ok, of u w] u w uw by blast
  qed
qed

lemma row_result_cells:
  assumes ok: "row_ok grid y x R S"
  shows "\<Union> (cells ` (((R \<union> S) - filt_of R S) \<union> new_of R S)) = \<Union> (cells ` R) \<union> \<Union> (cells ` S)"
proof (intro equalityI subsetI)
  fix c assume "c \<in> \<Union> (cells ` (((R \<union> S) - filt_of R S) \<union> new_of R S))"
  then obtain q where q: "q \<in> (R \<union> S) \<or> q \<in> new_of R S" "c \<in> cells q" by blast
  show "c \<in> \<Union> (cells ` R) \<union> \<Union> (cells ` S)"
  proof (cases "q \<in> new_of R S")
    case True
    then obtain r p where rp: "r \<in> R" "p \<in> S" "merges_to r p q" unfolding new_of_def by blast
    have "cells q = cells r \<union> cells p" by (rule row_pair [OF ok rp])
    then show ?thesis using rp q(2) by blast
  qed (use q in blast)
next
  fix c assume "c \<in> \<Union> (cells ` R) \<union> \<Union> (cells ` S)"
  then obtain q where q: "q \<in> R \<union> S" "c \<in> cells q" by blast
  show "c \<in> \<Union> (cells ` (((R \<union> S) - filt_of R S) \<union> new_of R S))"
  proof (cases "q \<in> filt_of R S")
    case True
    then obtain r p m where rp: "r \<in> R" "p \<in> S" "merges_to r p m" "q = p \<or> q = r"
      unfolding filt_of_def by blast
    have "cells m = cells r \<union> cells p" by (rule row_pair [OF ok rp(1-3)])
    then have "c \<in> cells m" using rp(4) q(2) by blast
    moreover have "m \<in> new_of R S" unfolding new_of_def using rp by blast
    ultimately show ?thesis by blast
  qed (use q in blast)
qed

lemma rows_done_step:
  assumes ok: "row_ok grid y x R S"
  shows "rows_done grid (Suc y) (((R \<union> S) - filt_of R S) \<union> new_of R S)"
proof -
  note D = row_okD [OF ok]
  have "small_range p \<and> cy (end_coord p) < Suc y" if "p \<in> ((R \<union> S) - filt_of R S) \<union> new_of R S" for p
  proof (cases "p \<in> new_of R S")
    case True
    then obtain r q where rq: "r \<in> R" "q \<in> S" "merges_to r q p" unfolding new_of_def by blast
    from row_pair [OF ok rq] obtain a b v where "p = CoreRange (CoreCoord a v) (CoreCoord b y)" "small_range p"
      by metis
    then show ?thesis by simp
  next
    case False
    then have "p \<in> R \<or> p \<in> S" using that by blast
    then show ?thesis
    proof
      assume p: "p \<in> R"
      show ?thesis using D(5) [OF p] D(4) [OF p] by auto
    next
      assume p: "p \<in> S"
      show ?thesis using D(1,2) [OF p] by simp
    qed
  qed
  moreover have "\<Union> (cells ` R) \<union> \<Union> (cells ` S) = {CoreCoord c d | c d. d < Suc y \<and> grid d c}"
    using ok unfolding row_ok_def rows_done_def by (auto simp: less_Suc_eq)
  ultimately show ?thesis
    unfolding rows_done_def row_result_cells [OF ok] using row_result_disjoint [OF ok] by blast
qed

lemma distinct_scan_row:
  assumes "\<And>c. row c \<Longrightarrow> c \<le> max_x"
  shows "distinct (scan_row row y max_x x)"
  using assms
proof (induction row y max_x x rule: scan_row.induct)
  case (1 row y max_x x)
  consider "x > max_x + 1" | "\<not> x > max_x + 1" "row x" | "\<not> x > max_x + 1" "\<not> row x" by blast
  then show ?case
  proof cases
    case 1
    then show ?thesis by (subst scan_row.simps) simp
  next
    case 2
    define e where "e = run_end (max_x + 2 - x) row x"
    have "x \<le> e" unfolding e_def by (rule run_end_ge)
    have "CoreRange (CoreCoord x y) (CoreCoord (e - 1) y) \<notin> set (scan_row row y max_x (Suc e))"
    proof
      assume "CoreRange (CoreCoord x y) (CoreCoord (e - 1) y) \<in> set (scan_row row y max_x (Suc e))"
      then have "is_run row y (Suc e) (CoreRange (CoreCoord x y) (CoreCoord (e - 1) y))"
        using scan_row_spec [of row max_x y "Suc e"] "1.prems" by blast
      then show False using \<open>x \<le> e\<close> by (simp add: is_run_def)
    qed
    then show ?thesis using 2 "1.IH"(1) [OF 2 e_def "1.prems"]
      by (subst scan_row.simps) (simp add: e_def Let_def)
  next
    case 3
    then show ?thesis using "1.IH"(2) [OF 3 "1.prems"] by (subst scan_row.simps) simp
  qed
qed

lemma merge_row_correct:
  assumes ord: "xy_order_ok lt" and prev: "rows_done grid y (set crs)" and sorted: "rsorted lt crs"
    and g: "\<And>c. grid y c \<Longrightarrow> min_x \<le> c \<and> c \<le> max_x" and bnd: "max_x < 2 ^ 31" "y < 2 ^ 31"
    and m: "u32 min_x = min_x"
  shows "\<exists>crs'. merge_row lt grid min_x max_x y crs = Inr crs' \<and> rsorted lt crs' \<and>
    rows_done grid (Suc y) (set crs')"
proof -
  let ?rs = "scan_row (grid y) y max_x min_x"
  have gm: "\<And>c. grid y c \<Longrightarrow> c \<le> max_x" using g by blast
  note sc = scan_row_spec [of "grid y" max_x y min_x, OF gm]
  have runs: "is_run (grid y) y min_x r" if "r \<in> set ?rs" for r using sc that by blast
  have small: "small_range r" if "r \<in> set ?rs" for r
    by (rule run_small [OF runs [OF that] _ bnd(2)]) (use gm bnd(1) in fastforce)
  have cells: "\<Union> (cells ` set ?rs) = {CoreCoord c y | c. grid y c}"
    using sc g unfolding cells_of_def by auto
  have ok: "row_ok grid y min_x (set ?rs) (set crs)"
    unfolding row_ok_def using prev runs small cells by blast
  have small': "\<forall>r\<in>set ?rs. small_range r" "\<forall>p\<in>set crs. small_range p"
    using small row_okD(1) [OF ok] by blast+
  have "\<exists>crs' new' filt'. merge_row_ranges lt ?rs crs [] [] = Inr (crs', new', filt') \<and>
      rsorted lt crs' \<and> set crs' = set ?rs \<union> set crs \<and>
      set new' = set [] \<union> new_of (set ?rs) (set crs) \<and> set filt' = set [] \<union> filt_of (set ?rs) (set crs)"
    by (rule merge_row_ranges_sets [OF ord small' sorted])
      (use runs_no_merge(1) [OF runs runs _ small small] distinct_scan_row [OF gm] in auto)
  then obtain crs' new' filt' where e: "merge_row_ranges lt ?rs crs [] [] = Inr (crs', new', filt')"
    "rsorted lt crs'" "set crs' = set ?rs \<union> set crs" "set new' = new_of (set ?rs) (set crs)"
    "set filt' = filt_of (set ?rs) (set crs)" by auto
  let ?res = "fold (set_insert lt) new' (filter (\<lambda>c. c \<notin> set filt') crs')"
  have "merge_row lt grid min_x max_x y crs = Inr ?res" by (simp add: merge_row_def m e(1))
  moreover have "rsorted lt ?res" by (rule rsorted_fold_insert [OF ord]) (rule sorted_wrt_filter [OF e(2)])
  moreover have "set ?res = ((set ?rs \<union> set crs) - filt_of (set ?rs) (set crs)) \<union> new_of (set ?rs) (set crs)"
    by (auto simp: set_fold_insert [OF ord] e(3-5))
  ultimately show ?thesis using rows_done_step [OF ok] by simp
qed

lemma merge_rows_correct:
  assumes ord: "xy_order_ok lt" and g: "\<And>d c. grid d c \<Longrightarrow> min_x \<le> c \<and> c \<le> max_x"
    and bnd: "max_x < 2 ^ 31" "hi \<le> 2 ^ 31" and m: "u32 min_x = min_x"
  shows "lo \<le> hi \<Longrightarrow> rows_done grid lo (set crs) \<Longrightarrow> rsorted lt crs \<Longrightarrow>
    \<exists>crs'. merge_rows lt grid min_x max_x [lo..<hi] crs = Inr crs' \<and> rsorted lt crs' \<and>
      rows_done grid hi (set crs')"
proof (induction "hi - lo" arbitrary: lo crs)
  case (Suc k)
  then have lt: "lo < hi" by linarith
  obtain crs1 where e: "merge_row lt grid min_x max_x lo crs = Inr crs1" "rsorted lt crs1"
    "rows_done grid (Suc lo) (set crs1)"
    using merge_row_correct [where grid = grid and y = lo, OF ord Suc.prems(2,3) _ bnd(1) _ m] g lt bnd(2)
    by (auto dest: order.strict_trans2)
  have "\<exists>crs'. merge_rows lt grid min_x max_x [Suc lo..<hi] crs1 = Inr crs' \<and> rsorted lt crs' \<and>
      rows_done grid hi (set crs')"
    by (rule Suc.hyps(1)) (use Suc.hyps(2) lt e in auto)
  then show ?case using lt e(1) by (simp add: upt_conv_Cons)
qed simp

lemma foldl_min_le: "foldl (\<lambda>m x. min m (f x)) (a :: nat) xs \<le> a \<and> (\<forall>x\<in>set xs. foldl (\<lambda>m x. min m (f x)) a xs \<le> f x)"
proof (induction xs arbitrary: a)
  case (Cons y ys)
  have "foldl (\<lambda>m x. min m (f x)) (min a (f y)) ys \<le> min a (f y)" using Cons by blast
  then show ?case using Cons [of "min a (f y)"] by auto
qed simp

lemma foldl_max_ge: "a \<le> foldl (\<lambda>m x. max m (f x)) (a :: nat) xs \<and> (\<forall>x\<in>set xs. f x \<le> foldl (\<lambda>m x. max m (f x)) a xs)"
proof (induction xs arbitrary: a)
  case (Cons y ys)
  have "max a (f y) \<le> foldl (\<lambda>m x. max m (f x)) (max a (f y)) ys" using Cons by blast
  then show ?case using Cons [of "max a (f y)"] by auto
qed simp

lemma foldl_max_less: "a < b \<Longrightarrow> \<forall>x\<in>set xs. f x < b \<Longrightarrow> foldl (\<lambda>m x. max m (f x)) (a :: nat) xs < b"
  by (induction xs arbitrary: a) auto

lemma set_merge_correct:
  assumes ord: "xy_order_ok lt" and sorted: "rsorted lt ranges"
    and small: "\<forall>r\<in>set ranges \<union> set other. small_range r"
  shows "\<exists>res. set_merge lt ranges other = Inr res \<and> rsorted lt res \<and> (\<forall>r\<in>set res. small_range r) \<and>
    disjoint_ranges (set res) \<and> cells_of res = cells_of ranges \<union> cells_of other"
proof -
  define crs where "crs = fold (set_insert lt) other ranges"
  define min_x where "min_x = foldl (\<lambda>m cr. min m (cx (start_coord cr))) (2 ^ 64 - 1) crs"
  define max_x where "max_x = foldl (\<lambda>m cr. max m (cx (end_coord cr))) 0 crs"
  define min_y where "min_y = foldl (\<lambda>m cr. min m (cy (start_coord cr))) (2 ^ 64 - 1) crs"
  define max_y where "max_y = foldl (\<lambda>m cr. max m (cy (end_coord cr))) 0 crs"
  have crs: "set crs = set ranges \<union> set other" by (auto simp: crs_def set_fold_insert [OF ord])
  have sm: "\<forall>r\<in>set crs. small_range r" using small by (simp add: crs Un_commute)
  have grid: "paint crs d c \<longleftrightarrow> CoreCoord c d \<in> cells_of crs" for d c by (rule paint_cells [OF sm])
  have mg: "set_merge lt ranges other =
      rbind (merge_rows lt (paint crs) min_x max_x [u32 min_y..<Suc max_y] []) new_CoreRangeSet"
    unfolding set_merge_def Let_def crs_def min_x_def max_x_def min_y_def max_y_def by (rule refl)
  have "\<exists>res. merge_rows lt (paint crs) min_x max_x [u32 min_y..<Suc max_y] [] = Inr res \<and> rsorted lt res \<and>
      (\<forall>r\<in>set res. small_range r) \<and> disjoint_ranges (set res) \<and> cells_of res = cells_of crs"
  proof (cases "crs = []")
    case True
    then have "[u32 min_y..<Suc max_y] = []" by (simp add: min_y_def max_y_def wcast_def)
    then show ?thesis by (simp add: True disjoint_ranges_def cells_of_def)
  next
    case False
    then obtain r0 where r0: "r0 \<in> set crs" by (cases crs) auto
    have lo: "min_x \<le> cx (start_coord r)" "min_y \<le> cy (start_coord r)" if "r \<in> set crs" for r
      using foldl_min_le [of "\<lambda>cr. cx (start_coord cr)" "2 ^ 64 - 1" crs]
        foldl_min_le [of "\<lambda>cr. cy (start_coord cr)" "2 ^ 64 - 1" crs] that
      by (simp_all add: min_x_def min_y_def)
    have hi: "cx (end_coord r) \<le> max_x" "cy (end_coord r) \<le> max_y" if "r \<in> set crs" for r
      using foldl_max_ge [of 0 "\<lambda>cr. cx (end_coord cr)" crs] foldl_max_ge [of 0 "\<lambda>cr. cy (end_coord cr)" crs] that
      by (simp_all add: max_x_def max_y_def)
    have bnd: "max_x < 2 ^ 31" "max_y < 2 ^ 31"
      unfolding max_x_def max_y_def by (rule foldl_max_less; use sm in \<open>simp add: small_range_def\<close>)+
    have v: "cx (start_coord r0) \<le> cx (end_coord r0)" "cy (start_coord r0) \<le> cy (end_coord r0)"
      using sm r0 by (simp_all add: small_range_def valid_range_def)
    have mm: "min_x \<le> max_x" "min_y \<le> max_y" using lo [OF r0] hi [OF r0] v by linarith+
    have u: "u32 min_x = min_x" "u32 min_y = min_y" using mm bnd by (simp_all add: wcast_def)
    have in_grid: "min_x \<le> c \<and> c \<le> max_x \<and> min_y \<le> d \<and> d \<le> max_y" if "paint crs d c" for d c
    proof -
      from that obtain r where "r \<in> set crs" "CoreCoord c d \<in> cells r" by (auto simp: grid cells_of_def)
      then show ?thesis using lo [of r] hi [of r] by (simp add: cells_def range_contains_coord_def)
    qed
    have "rows_done (paint crs) min_y (set [])"
      using in_grid by (fastforce simp: rows_done_def disjoint_ranges_def)
    then obtain res where e: "merge_rows lt (paint crs) min_x max_x [min_y..<Suc max_y] [] = Inr res"
      "rsorted lt res" "rows_done (paint crs) (Suc max_y) (set res)"
      using merge_rows_correct [OF ord _ bnd(1) _ u(1), of "paint crs" "Suc max_y" min_y "[]"] in_grid mm bnd(2)
      by auto
    have "cells_of res = {CoreCoord c d | c d. d < Suc max_y \<and> paint crs d c}"
      using e(3) by (simp add: rows_done_def cells_of_def)
    also have "\<dots> = cells_of crs"
    proof (rule cells_cases)
      fix a b show "CoreCoord a b \<in> {CoreCoord c d | c d. d < Suc max_y \<and> paint crs d c} \<longleftrightarrow>
          CoreCoord a b \<in> cells_of crs"
        using in_grid [of b a] grid [of b a] by auto
    qed
    finally show ?thesis using e by (auto simp: u rows_done_def)
  qed
  then obtain res where res: "merge_rows lt (paint crs) min_x max_x [u32 min_y..<Suc max_y] [] = Inr res"
    "rsorted lt res" "\<forall>r\<in>set res. small_range r" "disjoint_ranges (set res)" "cells_of res = cells_of crs" by blast
  have "new_CoreRangeSet res = Inr res"
    using new_CoreRangeSet_iff [OF rsorted_distinct [OF ord res(2)]] res(3,4) by (simp add: small_range_def)
  moreover have "cells_of crs = cells_of ranges \<union> cells_of other" by (simp add: cells_of_def crs)
  ultimately show ?thesis using res mg by simp
qed

end
