(* ===== verification/Core_Range_Props.thy ===== *)
theory Core_Range_Props
  imports Core_Range_Merge
begin

text \<open>
  Listing the cores of ranges, and the properties of core ranges and their sets.
\<close>

subsection \<open>Row-major and column-major numbering\<close>

definition row_core :: "nat \<Rightarrow> nat \<Rightarrow> CoreCoord" where
  "row_core w i = CoreCoord (i mod w) (i div w)"

definition col_core :: "nat \<Rightarrow> nat \<Rightarrow> CoreCoord" where
  "col_core h i = CoreCoord (i div h) (i mod h)"

lemma row_core_inj: "row_core w i = row_core w j \<Longrightarrow> i = j"
  by (metis CoreCoord.inject div_mult_mod_eq row_core_def)

lemma col_core_inj: "col_core h i = col_core h j \<Longrightarrow> i = j"
  by (metis CoreCoord.inject div_mult_mod_eq col_core_def)

lemma row_core_at: "x < w \<Longrightarrow> row_core w (y * w + x) = CoreCoord x y"
  by (simp add: row_core_def)

lemma col_core_at: "y < h \<Longrightarrow> col_core h (x * h + y) = CoreCoord x y"
  by (simp add: col_core_def)

lemma index_less: "x < w \<Longrightarrow> y < h \<Longrightarrow> y * w + x < w * (h :: nat)"
proof -
  assume "x < w" "y < h"
  then have "y * w + x < Suc y * w" "Suc y * w \<le> h * w"
    by (simp, intro mult_le_mono1) simp
  then show ?thesis by (simp add: mult.commute)
qed

lemma row_core_image: "row_core w ` {0..<w * h} = {CoreCoord x y | x y. x < w \<and> y < h}"
proof (intro equalityI subsetI)
  fix c assume "c \<in> row_core w ` {0..<w * h}"
  then obtain i where i: "i < w * h" "c = row_core w i" by auto
  then have "0 < w" by (cases w) auto
  then show "c \<in> {CoreCoord x y | x y. x < w \<and> y < h}"
    using i by (auto simp: row_core_def less_mult_imp_div_less mult.commute)
next
  fix c assume "c \<in> {CoreCoord x y | x y. x < w \<and> y < h}"
  then obtain x y where c: "c = CoreCoord x y" "x < w" "y < h" by blast
  then show "c \<in> row_core w ` {0..<w * h}"
    using index_less [of x w y h] row_core_at [of x w y] by (intro image_eqI [of _ _ "y * w + x"]) auto
qed

lemma col_core_image: "col_core h ` {0..<w * h} = {CoreCoord x y | x y. x < w \<and> y < h}"
proof (intro equalityI subsetI)
  fix c assume "c \<in> col_core h ` {0..<w * h}"
  then obtain i where i: "i < w * h" "c = col_core h i" by auto
  then have "0 < h" by (cases h) auto
  then show "c \<in> {CoreCoord x y | x y. x < w \<and> y < h}"
    using i by (auto simp: col_core_def less_mult_imp_div_less)
next
  fix c assume "c \<in> {CoreCoord x y | x y. x < w \<and> y < h}"
  then obtain x y where c: "c = CoreCoord x y" "x < w" "y < h" by blast
  then show "c \<in> col_core h ` {0..<w * h}"
    using index_less [of y h x w] col_core_at [of y h x]
    by (intro image_eqI [of _ _ "x * h + y"]) (auto simp: mult.commute)
qed

subsection \<open>The iterator\<close>

lemma div_mod_Suc:
  "0 < (w :: nat) \<Longrightarrow> Suc k mod w = (if Suc (k mod w) = w then 0 else Suc (k mod w)) \<and>
   Suc k div w = (if Suc (k mod w) = w then Suc (k div w) else k div w)"
  by (auto simp: mod_Suc div_Suc)

lemma range_iterate_from:
  fixes x1 y1 x2 y2
  defines "r \<equiv> CoreRange (CoreCoord x1 y1) (CoreCoord x2 y2)" and "w \<equiv> x2 - x1 + 1" and "h \<equiv> y2 - y1 + 1"
  assumes small: "small_range r"
  shows "k + n = w * h \<Longrightarrow>
    range_iterate n r (CoreCoord (x1 + k mod w) (y1 + k div w)) =
      Inr (map (\<lambda>k. CoreCoord (x1 + k mod w) (y1 + k div w)) [k..<w * h])"
proof (induction n arbitrary: k)
  case 0
  then have "k = w * h" by simp
  then show ?case using small
    by (simp add: r_def w_def h_def range_end_def small_range_def nowrap del: mult_Suc mult_Suc_right)
next
  case (Suc n)
  have w0: "0 < w" by (simp add: w_def)
  have b: "x2 < 2 ^ 31" "y2 < 2 ^ 31" "x1 \<le> x2" "y1 \<le> y2" using small by (simp_all add: r_def small_range_def)
  have k: "k < w * h" using Suc.prems by simp
  then have kh: "k div w < h" by (simp add: less_mult_imp_div_less mult.commute)
  then have le: "y1 + k div w \<le> y2" using b by (simp add: h_def)
  then have ne: "CoreCoord (x1 + k mod w) (y1 + k div w) \<noteq> range_end r"
    using b by (simp add: range_end_def r_def nowrap)
  have km: "k mod w < w" using w0 by simp
  then have xk: "x1 + k mod w \<le> x2" using b(3) unfolding w_def by linarith
  have "x1 + k mod w = x2 \<longleftrightarrow> Suc (k mod w) = w" using b(3) unfolding w_def by linarith
  moreover have "add64 (y1 + k div w) 1 = Suc (y1 + k div w)" "add64 (x1 + k mod w) 1 = Suc (x1 + k mod w)"
    using le b xk by (simp_all add: nowrap)
  ultimately have "iter_next r (CoreCoord (x1 + k mod w) (y1 + k div w)) =
      CoreCoord (x1 + Suc k mod w) (y1 + Suc k div w)"
    using div_mod_Suc [OF w0, of k] by (simp add: iter_next_def r_def)
  moreover have "Suc k + n = w * h" using Suc.prems by simp
  ultimately show ?case using Suc.IH [of "Suc k"] ne k by (simp add: upt_conv_Cons)
qed

lemma range_size_eq:
  assumes "small_range r"
  shows "range_size r = (cx (end_coord r) - cx (start_coord r) + 1) * (cy (end_coord r) - cy (start_coord r) + 1)"
    and "range_size r < 2 ^ 63" and "range_size r = card (cells r)"
proof -
  obtain x1 y1 x2 y2 where r: "r = CoreRange (CoreCoord x1 y1) (CoreCoord x2 y2)" by (rule range_cases)
  have b: "x1 \<le> x2" "y1 \<le> y2" "x2 < 2 ^ 31" "y2 < 2 ^ 31" using assms by (simp_all add: r small_range_def)
  have w: "x2 - x1 + 1 \<le> 2 ^ 31" "y2 - y1 + 1 \<le> 2 ^ 31" using b by linarith+
  have "(x2 - x1 + 1) * (y2 - y1 + 1) \<le> 2 ^ 31 * 2 ^ 31" by (rule mult_le_mono [OF w])
  also have "\<dots> < (2 :: nat) ^ 63" by simp
  finally have p: "(x2 - x1 + 1) * (y2 - y1 + 1) < 2 ^ 63" .
  have "add64 (sub64 x2 x1) 1 = x2 - x1 + 1" "add64 (sub64 y2 y1) 1 = y2 - y1 + 1"
    using b by (simp_all add: nowrap)
  moreover have "mul64 (x2 - x1 + 1) (y2 - y1 + 1) = (x2 - x1 + 1) * (y2 - y1 + 1)"
    by (rule wmul_id) (rule order.strict_trans [OF p], simp)
  ultimately have e: "range_size r = (x2 - x1 + 1) * (y2 - y1 + 1)" by (simp only: range_size_def r CoreRange.sel CoreCoord.sel)
  show "range_size r = (cx (end_coord r) - cx (start_coord r) + 1) * (cy (end_coord r) - cy (start_coord r) + 1)"
    using e by (simp add: r)
  show "range_size r < 2 ^ 63" using e p by simp
  show "range_size r = card (cells r)" using e card_cells [of x1 y1 x2 y2] b by (simp add: r)
qed

lemma range_cores_correct:
  assumes "small_range r"
  shows "\<exists>cs. range_cores r = Inr cs \<and> distinct cs \<and> set cs = cells r \<and> length cs = range_size r"
proof -
  obtain x1 y1 x2 y2 where r: "r = CoreRange (CoreCoord x1 y1) (CoreCoord x2 y2)" by (rule range_cases)
  let ?w = "x2 - x1 + 1" and ?h = "y2 - y1 + 1"
  let ?f = "\<lambda>k. CoreCoord (x1 + k mod ?w) (y1 + k div ?w)"
  have b: "x1 \<le> x2" "y1 \<le> y2" using assms by (simp_all add: r small_range_def)
  have sz: "range_size r = ?w * ?h" using range_size_eq(1) [OF assms] by (simp add: r)
  have "range_cores r = Inr (map ?f [0..<?w * ?h])"
    unfolding range_cores_def sz using range_iterate_from [OF assms [unfolded r], of 0 "?w * ?h"]
    by (simp add: r range_begin_def)
  moreover have "distinct (map ?f [0..<?w * ?h])"
  proof (simp only: distinct_map distinct_upt simp_thms, rule inj_onI)
    fix i j assume "?f i = ?f j"
    then have "row_core ?w i = row_core ?w j" by (simp add: row_core_def)
    then show "i = j" by (rule row_core_inj)
  qed
  moreover have "set (map ?f [0..<?w * ?h]) = cells r"
  proof -
    have "set (map ?f [0..<?w * ?h]) = (\<lambda>c. CoreCoord (x1 + cx c) (y1 + cy c)) ` row_core ?w ` {0..<?w * ?h}"
      by (simp only: set_map set_upt image_image row_core_def CoreCoord.sel)
    also have "\<dots> = cells r"
      unfolding row_core_image r
    proof (rule cells_cases)
      fix a c
      have "(\<exists>x y. a = x1 + x \<and> c = y1 + y \<and> x < ?w \<and> y < ?h) \<longleftrightarrow> x1 \<le> a \<and> a \<le> x2 \<and> y1 \<le> c \<and> c \<le> y2"
      proof
        assume "x1 \<le> a \<and> a \<le> x2 \<and> y1 \<le> c \<and> c \<le> y2"
        then show "\<exists>x y. a = x1 + x \<and> c = y1 + y \<and> x < ?w \<and> y < ?h"
          by (intro exI [of _ "a - x1"] exI [of _ "c - y1"]) linarith
      qed (use b in auto)
      then show "CoreCoord a c \<in> (\<lambda>c. CoreCoord (x1 + cx c) (y1 + cy c)) ` {CoreCoord x y | x y. x < ?w \<and> y < ?h} \<longleftrightarrow>
          CoreCoord a c \<in> cells (CoreRange (CoreCoord x1 y1) (CoreCoord x2 y2))"
        by (simp add: image_iff) (metis CoreCoord.sel)
    qed
    finally show ?thesis .
  qed
  ultimately show ?thesis using sz by simp
qed

subsection \<open>Listing cores\<close>

lemma grid_to_cores_between_eq:
  assumes "small_range (CoreRange s e)"
  shows "grid_to_cores_between s e row_wise =
    (if row_wise then concat (map (\<lambda>j. map (\<lambda>i. CoreCoord i j) [cx s..<Suc (cx e)]) [cy s..<Suc (cy e)])
     else concat (map (\<lambda>i. map (\<lambda>j. CoreCoord i j) [cy s..<Suc (cy e)]) [cx s..<Suc (cx e)]))"
proof -
  have "u32 (cx s) = cx s" "u32 (cy s) = cy s" "add64 (cx e) 1 = Suc (cx e)" "add64 (cy e) 1 = Suc (cy e)"
    using assms by (auto simp: small_range_def valid_range_def nowrap)
  then show ?thesis by (simp only: grid_to_cores_between_def Let_def)
qed

lemma grid_to_cores_between_correct:
  assumes "small_range r"
  shows "set (grid_to_cores_between (start_coord r) (end_coord r) row_wise) = cells r"
    and "distinct (grid_to_cores_between (start_coord r) (end_coord r) row_wise)"
proof -
  obtain x1 y1 x2 y2 where r: "r = CoreRange (CoreCoord x1 y1) (CoreCoord x2 y2)" by (rule range_cases)
  note e = grid_to_cores_between_eq [OF assms [unfolded r], of row_wise, unfolded CoreCoord.sel]
  show "set (grid_to_cores_between (start_coord r) (end_coord r) row_wise) = cells r"
    unfolding r CoreRange.sel e by (rule cells_cases) (auto simp: less_Suc_eq_le image_iff simp del: upt_Suc)
  show "distinct (grid_to_cores_between (start_coord r) (end_coord r) row_wise)"
    unfolding r CoreRange.sel e using assms [unfolded r small_range_def valid_range_simp]
    by (auto simp: distinct_map inj_on_def simp del: upt_Suc intro!: distinct_concat)
qed

lemma grid_to_cores_with_noop_correct:
  assumes "bbox_x < gx" and "bbox_y < gy" and "gx < 2 ^ 32" and "gy < 2 ^ 32" and "(bbox_x + 1) * (bbox_y + 1) < 2 ^ 32"
  shows "\<exists>cs. grid_to_cores_with_noop bbox_x bbox_y gx gy row_wise = Inr cs \<and> distinct cs \<and>
    set cs = {CoreCoord x y | x y. x < gx \<and> y < gy} \<and>
    set (take ((bbox_x + 1) * (bbox_y + 1)) cs) = {CoreCoord x y | x y. x \<le> bbox_x \<and> y \<le> bbox_y}"
proof -
  let ?w = "bbox_x + 1" and ?h = "bbox_y + 1"
  define box where "box = (if row_wise then map (row_core ?w) [0..<?w * ?h] else map (col_core ?h) [0..<?w * ?h])"
  define right where "right = concat (map (\<lambda>x. map (\<lambda>y. CoreCoord x y) [0..<gy]) [?w..<gx])"
  define bottom where "bottom = concat (map (\<lambda>y. map (\<lambda>x. CoreCoord x y) [0..<?w]) [?h..<gy])"
  have a: "add32 bbox_x 1 = ?w" "add32 bbox_y 1 = ?h" "mul32 ?w ?h = ?w * ?h"
    using assms by (simp_all add: nowrap del: mult_Suc mult_Suc_right add_mult_distrib add_mult_distrib2)
  have e: "grid_to_cores_with_noop bbox_x bbox_y gx gy row_wise = Inr (box @ right @ bottom)"
    unfolding grid_to_cores_with_noop_def a Let_def box_def right_def bottom_def row_core_def col_core_def
    using assms(1,2) by (simp only: check_True rbind_Inr)
  have box: "set box = {CoreCoord x y | x y. x < ?w \<and> y < ?h}" "distinct box" "length box = ?w * ?h"
    unfolding box_def using row_core_image [of ?w ?h] col_core_image [of ?h ?w]
    by (auto simp: distinct_map inj_on_def simp del: upt_Suc mult_Suc mult_Suc_right dest: row_core_inj col_core_inj)
  have right: "set right = {CoreCoord x y | x y. ?w \<le> x \<and> x < gx \<and> y < gy}" "distinct right"
    unfolding right_def using assms(2) by (auto simp: distinct_map inj_on_def simp del: upt_Suc intro!: distinct_concat)
  have bottom: "set bottom = {CoreCoord x y | x y. x < ?w \<and> ?h \<le> y \<and> y < gy}" "distinct bottom"
    unfolding bottom_def by (auto simp: distinct_map inj_on_def simp del: upt_Suc intro!: distinct_concat)
  have "distinct (box @ right @ bottom)"
    using box right bottom by auto
  moreover have "set (box @ right @ bottom) = {CoreCoord x y | x y. x < gx \<and> y < gy}"
    unfolding set_append box(1) right(1) bottom(1) by (rule cells_cases) (use assms(1,2) in auto)
  moreover have "take (?w * ?h) (box @ right @ bottom) = box" using box(3) by simp
  then have "set (take (?w * ?h) (box @ right @ bottom)) = {CoreCoord x y | x y. x \<le> bbox_x \<and> y \<le> bbox_y}"
    using box(1) by (simp add: less_Suc_eq_le)
  ultimately show ?thesis using e by blast
qed

lemma corerange_to_cores_take:
  assumes "m < 2 ^ 32"
  shows "corerange_to_cores crs (Some m) row_wise = take m (corerange_to_cores crs None row_wise)"
proof -
  let ?c = "\<lambda>cr. grid_to_cores_between (start_coord cr) (end_coord cr) row_wise"
  define f where "f = (\<lambda>cr all. if length all + length (?c cr) > m
      then all @ take (u32 (sub64 m (length all))) (?c cr) else all @ ?c cr)"
  have none: "corerange_to_cores crs None row_wise = concat (map ?c crs)"
  proof -
    have "fold (\<lambda>cr all. all @ ?c cr) crs acc = acc @ concat (map ?c crs)" for acc
      by (induction crs arbitrary: acc) auto
    then show ?thesis by (simp add: corerange_to_cores_def Let_def)
  qed
  have step: "f cr (take m xs) = take m (xs @ ?c cr)" for cr xs
  proof (cases "m \<le> length xs")
    case True
    moreover have "sub64 m m = 0" using assms by (simp add: wsub_id)
    ultimately show ?thesis by (simp add: f_def wcast_def)
  next
    case False
    then have "sub64 m (length xs) = m - length xs" "u32 (m - length xs) = m - length xs"
      using assms by (simp_all add: nowrap)
    then show ?thesis using False by (simp add: f_def)
  qed
  have "fold f crs (take m xs) = take m (xs @ concat (map ?c crs))" for xs
  proof (induction crs arbitrary: xs)
    case (Cons cr crs)
    show ?case using Cons [of "xs @ ?c cr"] by (simp add: step)
  qed simp
  from this [of "[]"] show ?thesis unfolding none
    by (simp add: corerange_to_cores_def Let_def f_def)
qed

subsection \<open>Counting and the bounding box\<close>

lemma disjoint_num_cores:
  assumes "\<forall>r\<in>set crs. small_range r" and "disjoint_ranges (set crs)" and "distinct crs"
    and "card (cells_of crs) < 2 ^ 32"
  shows "set_num_cores crs = card (cells_of crs)"
proof -
  define f where "f = (\<lambda>n cr. u32 (add64 n (range_size cr)))"
  have "foldl f n crs = n + card (cells_of crs)" if "n + card (cells_of crs) < 2 ^ 32" for n
    using assms that
  proof (induction crs arbitrary: n)
    case (Cons r crs)
    have "cells r \<inter> cells_of crs = {}"
      using Cons.prems(2,3) unfolding disjoint_ranges_def cells_of_def by fastforce
    moreover have "finite (cells_of crs)" by (simp add: cells_of_def finite_cells)
    ultimately have c: "card (cells_of (r # crs)) = card (cells r) + card (cells_of crs)"
      by (simp add: cells_of_def finite_cells card_Un_disjoint)
    have "range_size r = card (cells r)" by (rule range_size_eq(3)) (use Cons.prems in simp)
    then have "f n r = n + card (cells r)" using Cons.prems(5) c by (simp add: f_def nowrap)
    moreover have "disjoint_ranges (set crs)" using Cons.prems(2) by (simp add: disjoint_ranges_def)
    ultimately show ?case using Cons.IH [of "n + card (cells r)"] Cons.prems c by simp
  qed (simp add: cells_of_def)
  from this [of 0] show ?thesis using assms(4) by (simp add: set_num_cores_def f_def)
qed

lemma bounding_box_correct:
  assumes "crs \<noteq> []" and "\<forall>r\<in>set crs. small_range r"
  shows "\<exists>b. bounding_box crs = Inr b \<and> cells_of crs \<subseteq> cells b"
proof -
  obtain r0 where r0: "r0 \<in> set crs" using assms(1) by (cases crs) auto
  let ?mx = "foldl (\<lambda>m cr. min m (cx (start_coord cr))) (2 ^ 32 - 1) crs"
    and ?Mx = "foldl (\<lambda>m cr. max m (cx (end_coord cr))) 0 crs"
    and ?my = "foldl (\<lambda>m cr. min m (cy (start_coord cr))) (2 ^ 32 - 1) crs"
    and ?My = "foldl (\<lambda>m cr. max m (cy (end_coord cr))) 0 crs"
  have b: "?mx \<le> cx (start_coord r)" "cx (end_coord r) \<le> ?Mx" "?my \<le> cy (start_coord r)" "cy (end_coord r) \<le> ?My"
    if "r \<in> set crs" for r
    using foldl_min_le [of "\<lambda>cr. cx (start_coord cr)" "2 ^ 32 - 1" crs]
      foldl_min_le [of "\<lambda>cr. cy (start_coord cr)" "2 ^ 32 - 1" crs]
      foldl_max_ge [of 0 "\<lambda>cr. cx (end_coord cr)" crs] foldl_max_ge [of 0 "\<lambda>cr. cy (end_coord cr)" crs] that
    by blast+
  have "valid_range r0" using assms(2) r0 by (simp add: small_range_def)
  then have "?mx \<le> ?Mx" "?my \<le> ?My" using b [OF r0] by (auto simp: valid_range_def)
  then have "bounding_box crs = Inr (CoreRange (CoreCoord ?mx ?my) (CoreCoord ?Mx ?My))"
    using assms(1) by (simp add: bounding_box_def new_CoreRange_def Let_def)
  moreover have "cells r \<subseteq> cells (CoreRange (CoreCoord ?mx ?my) (CoreCoord ?Mx ?My))" if "r \<in> set crs" for r
    using b [OF that] by (auto simp: cells_def range_contains_coord_def)
  ultimately show ?thesis unfolding cells_of_def by blast
qed

subsection \<open>Properties\<close>

text \<open>The order the witnesses instantiate the parameter with: by column, then by row.\<close>

definition lex_less :: "CoreCoord \<Rightarrow> CoreCoord \<Rightarrow> bool" where
  "lex_less a b \<longleftrightarrow> cx a < cx b \<or> (cx a = cx b \<and> cy a < cy b)"

lemma lex_less_ok: "xy_order_ok lex_less"
proof -
  have "cx a = cx b \<Longrightarrow> a \<noteq> b \<Longrightarrow> cy a \<noteq> cy b" for a b :: CoreCoord
    by (auto intro: CoreCoord.expand)
  then show ?thesis unfolding xy_order_ok_def lex_less_def by (fastforce simp: nat_neq_iff)
qed

text \<open>(C12) \<^verbatim>\<open>CoreRangeSet::merge\<close> of valid ranges, however they overlap, always succeeds, and its result is a set of
  pairwise disjoint ranges that stands for exactly the cores of the two arguments.\<close>

theorem CoreRangeSet_merge_exact:
  assumes "xy_order_ok lt" and "rsorted lt ranges" and "\<forall>r\<in>set ranges \<union> set other. small_range r"
  shows "\<exists>res. set_merge lt ranges other = Inr res \<and> disjoint_ranges (set res) \<and>
    cells_of res = cells_of ranges \<union> cells_of other"
  using set_merge_correct [OF assms] by blast

theorem CoreRangeSet_merge_exact_witness:
  "let a = CoreRange (CoreCoord 0 0) (CoreCoord 2 1); b = CoreRange (CoreCoord 1 1) (CoreCoord 3 2) in
   \<exists>res. set_merge lex_less [a] [b] = Inr res \<and> disjoint_ranges (set res) \<and> cells_of res = cells a \<union> cells b"
proof -
  have "\<exists>res. set_merge lex_less [CoreRange (CoreCoord 0 0) (CoreCoord 2 1)]
      [CoreRange (CoreCoord 1 1) (CoreCoord 3 2)] = Inr res \<and> disjoint_ranges (set res) \<and>
      cells_of res = cells_of [CoreRange (CoreCoord 0 0) (CoreCoord 2 1)] \<union>
        cells_of [CoreRange (CoreCoord 1 1) (CoreCoord 3 2)]"
    by (rule CoreRangeSet_merge_exact [OF lex_less_ok]) (simp_all add: small_range_def)
  then show ?thesis by (simp add: Let_def cells_of_def)
qed

text \<open>The algebra of ranges: \<^verbatim>\<open>intersects\<close> returns the range of the common cores or nothing when there are
  none, \<^verbatim>\<open>contains\<close> decides inclusion, a \<^verbatim>\<open>merge\<close> that succeeds is exactly the union, and \<^verbatim>\<open>size\<close> is the
  number of cores.\<close>

theorem CoreRange_algebra:
  assumes "small_range a" and "small_range b"
  shows "(\<exists>i. range_intersects a b = Inr i \<and>
      (case i of None \<Rightarrow> cells a \<inter> cells b = {} | Some c \<Rightarrow> cells c = cells a \<inter> cells b)) \<and>
    (range_contains a b \<longleftrightarrow> cells b \<subseteq> cells a) \<and>
    (\<exists>m. range_merge a b = Inr m \<and> (\<forall>c. m = Some c \<longrightarrow> cells c = cells a \<union> cells b)) \<and>
    range_size a = card (cells a)"
proof -
  have v: "valid_range a" "valid_range b" using assms by (simp_all add: small_range_def)
  show ?thesis
    using intersects_cells [OF v] contains_cells [OF v(2)] merge_cells [OF assms] range_size_eq(3) [OF assms(1)]
    by (auto split: option.splits)
qed

theorem CoreRange_algebra_witness:
  "range_size (CoreRange (CoreCoord 1 1) (CoreCoord 3 2)) = card (cells (CoreRange (CoreCoord 1 1) (CoreCoord 3 2)))"
  using CoreRange_algebra [of "CoreRange (CoreCoord 1 1) (CoreCoord 3 2)" "CoreRange (CoreCoord 0 0) (CoreCoord 2 1)"]
  by (simp add: small_range_def)

text \<open>(C31) Iterating a range from \<^verbatim>\<open>begin\<close> to \<^verbatim>\<open>end\<close> terminates and visits every core of the range exactly once.\<close>

theorem CoreRange_iterator_visits_all:
  assumes "small_range r"
  shows "\<exists>cs. range_cores r = Inr cs \<and> distinct cs \<and> set cs = cells r \<and> length cs = range_size r"
  by (rule range_cores_correct [OF assms])

theorem CoreRange_iterator_visits_all_witness:
  "\<exists>cs. range_cores (CoreRange (CoreCoord 1 1) (CoreCoord 3 2)) = Inr cs \<and> length cs =
     range_size (CoreRange (CoreCoord 1 1) (CoreCoord 3 2))"
  using CoreRange_iterator_visits_all [of "CoreRange (CoreCoord 1 1) (CoreCoord 3 2)"]
  by (auto simp: small_range_def)

text \<open>\<^verbatim>\<open>grid_to_cores_with_noop\<close> lists every core of the grid exactly once, the cores of the bounding box
  first.\<close>

theorem grid_to_cores_with_noop_permutation:
  assumes "bbox_x < gx" and "bbox_y < gy" and "gx < 2 ^ 32" and "gy < 2 ^ 32"
    and "(bbox_x + 1) * (bbox_y + 1) < 2 ^ 32"
  shows "\<exists>cs. grid_to_cores_with_noop bbox_x bbox_y gx gy row_wise = Inr cs \<and> distinct cs \<and>
    set cs = {CoreCoord x y | x y. x < gx \<and> y < gy} \<and>
    set (take ((bbox_x + 1) * (bbox_y + 1)) cs) = {CoreCoord x y | x y. x \<le> bbox_x \<and> y \<le> bbox_y}"
  by (rule grid_to_cores_with_noop_correct [OF assms])

theorem grid_to_cores_with_noop_permutation_witness:
  "\<exists>cs. grid_to_cores_with_noop 1 2 8 8 True = Inr cs \<and> distinct cs \<and>
    set cs = {CoreCoord x y | x y. x < 8 \<and> y < 8}"
  using grid_to_cores_with_noop_permutation [of 1 8 2 8 True] by auto

end
