(* ===== verification/Work_Split.thy ===== *)
theory Work_Split
  imports Core_Range_Props Metal_Math
begin

text \<open>
  Partitioning work between cores: \<^verbatim>\<open>tt_metal/common/work_split.hpp\<close>.  The parameters of type \<^verbatim>\<open>uint32_t\<close>
  are naturals below \<open>2^32\<close>, coordinates are \<^verbatim>\<open>size_t\<close>, and every expression is computed at the width C++
  gives it.  The row-wise and the column-wise branches are two definitions each, as the two blocks of
  the source; \<open>cswap\<close> relates them in the proofs.
\<close>

subsection \<open>Divisors\<close>

fun merge_num_sticks_loop :: "nat \<Rightarrow> nat \<Rightarrow> nat \<Rightarrow> nat \<Rightarrow> nat \<Rightarrow> nat \<Rightarrow> nat result" where
  "merge_num_sticks_loop n total_bytes stick_size max_read_size current_size res =
     (if current_size > max_read_size then Inr res
      else case n of
        0 \<Rightarrow> Inl Diverges
      | Suc m \<Rightarrow> if current_size = 0 then Inl (Undefined ''modulo by zero'')
         else merge_num_sticks_loop m total_bytes stick_size max_read_size (add32 current_size stick_size)
                (if total_bytes mod current_size = 0 then total_bytes div current_size else res))"

declare merge_num_sticks_loop.simps [simp del]

definition merge_num_sticks_to_read :: "nat \<Rightarrow> nat \<Rightarrow> nat \<Rightarrow> nat result" where
  "merge_num_sticks_to_read num_sticks_to_read stick_size_bytes max_read_size =
     merge_num_sticks_loop (Suc max_read_size) (mul32 num_sticks_to_read stick_size_bytes) stick_size_bytes
       max_read_size stick_size_bytes num_sticks_to_read"

definition get_max_cores_divisible_by_tiles_per_core_tiles :: "nat \<Rightarrow> nat \<Rightarrow> bool \<Rightarrow> (nat \<times> nat) result" where
  "get_max_cores_divisible_by_tiles_per_core_tiles num_tiles num_cores_max request_even =
     (let num_cores = fold (\<lambda>i n. if num_tiles mod i = 0 then i else n) [2..<Suc num_cores_max] 1;
          num_cores = (if request_even then num_cores - num_cores mod 2 else num_cores)
      in if num_cores = 0 then Inl (Undefined ''division by zero'')
         else Inr (num_cores,
           if num_tiles mod num_cores \<noteq> 0 then add32 (num_tiles div num_cores) 1 else num_tiles div num_cores))"

fun find_max_divisor :: "nat \<Rightarrow> nat \<Rightarrow> nat" where
  "find_max_divisor val 0 = 1"
| "find_max_divisor val (Suc d) =
     (if Suc d = 7 \<or> Suc d = 5 then find_max_divisor val d
      else if val mod Suc d = 0 then Suc d
      else find_max_divisor val d)"

fun find_max_block_size :: "nat \<Rightarrow> nat \<Rightarrow> nat" where
  "find_max_block_size val 0 = 1"
| "find_max_block_size val (Suc d) =
     (if val mod Suc d = 0 then Suc d else find_max_block_size val d)"

subsection \<open>num_cores_to_corerange_set\<close>

text \<open>The row-wise branch, in three steps: partial row at start, full rows, partial row at end.  Each maps the set built so far,
  \<^verbatim>\<open>s_core\<close> and \<^verbatim>\<open>leftover_size\<close> to their new values.\<close>

definition row_start_block ::
    "(CoreCoord \<Rightarrow> CoreCoord \<Rightarrow> bool) \<Rightarrow> nat \<Rightarrow> CoreCoord \<Rightarrow> nat \<Rightarrow> (CoreRange list \<times> CoreCoord \<times> nat) result" where
  "row_start_block lt num_cores_x s_core leftover_size =
     (if cx s_core \<noteq> 0 \<and> leftover_size > sub64 num_cores_x (cx s_core)
      then rbind (new_CoreRange s_core (CoreCoord (sub32 num_cores_x 1) (cy s_core)))
             (\<lambda>start_block. Inr (set_insert lt start_block [], CoreCoord 0 (add64 (cy s_core) 1),
                u32 (sub64 leftover_size (range_size start_block))))
      else Inr ([], s_core, leftover_size))"

definition row_full_block ::
    "(CoreCoord \<Rightarrow> CoreCoord \<Rightarrow> bool) \<Rightarrow> nat \<Rightarrow> CoreRange list \<times> CoreCoord \<times> nat \<Rightarrow>
     (CoreRange list \<times> CoreCoord \<times> nat) result" where
  "row_full_block lt num_cores_x st =
     (let (all_cores_set, s_core, leftover_size) = st in
      if leftover_size > num_cores_x
      then let num_full_rows = leftover_size div num_cores_x in
           rbind (new_CoreRange s_core
                    (CoreCoord (sub32 num_cores_x 1) (sub64 (add64 (cy s_core) num_full_rows) 1)))
             (\<lambda>full_block. Inr (set_insert lt full_block all_cores_set,
                CoreCoord 0 (add64 (cy s_core) num_full_rows),
                u32 (sub64 leftover_size (range_size full_block))))
      else Inr st)"

definition row_end_block ::
    "(CoreCoord \<Rightarrow> CoreCoord \<Rightarrow> bool) \<Rightarrow> CoreRange list \<times> CoreCoord \<times> nat \<Rightarrow> CoreRange list result" where
  "row_end_block lt st =
     (let (all_cores_set, s_core, leftover_size) = st in
      if leftover_size > 0
      then rbind (new_CoreRange s_core (CoreCoord (sub64 (add64 (cx s_core) leftover_size) 1) (cy s_core)))
             (\<lambda>leftover_block. Inr (set_insert lt leftover_block all_cores_set))
      else Inr all_cores_set)"

definition row_blocks ::
    "(CoreCoord \<Rightarrow> CoreCoord \<Rightarrow> bool) \<Rightarrow> nat \<Rightarrow> CoreCoord \<Rightarrow> nat \<Rightarrow> CoreRange list result" where
  "row_blocks lt num_cores_x start_core target_num_cores =
     rbind (row_start_block lt num_cores_x start_core target_num_cores) (\<lambda>st.
     rbind (row_full_block lt num_cores_x st) (row_end_block lt))"

text \<open>The column-wise branch, in three steps: partial column at start, full columns, partial column at end.  Each maps the set built so far,
  \<^verbatim>\<open>s_core\<close> and \<^verbatim>\<open>leftover_size\<close> to their new values.\<close>

definition col_start_block ::
    "(CoreCoord \<Rightarrow> CoreCoord \<Rightarrow> bool) \<Rightarrow> nat \<Rightarrow> CoreCoord \<Rightarrow> nat \<Rightarrow> (CoreRange list \<times> CoreCoord \<times> nat) result" where
  "col_start_block lt num_cores_y s_core leftover_size =
     (if cy s_core \<noteq> 0 \<and> leftover_size > sub64 num_cores_y (cy s_core)
      then rbind (new_CoreRange s_core (CoreCoord (cx s_core) (sub32 num_cores_y 1)))
             (\<lambda>start_block. Inr (set_insert lt start_block [], CoreCoord (add64 (cx s_core) 1) 0,
                u32 (sub64 leftover_size (range_size start_block))))
      else Inr ([], s_core, leftover_size))"

definition col_full_block ::
    "(CoreCoord \<Rightarrow> CoreCoord \<Rightarrow> bool) \<Rightarrow> nat \<Rightarrow> CoreRange list \<times> CoreCoord \<times> nat \<Rightarrow>
     (CoreRange list \<times> CoreCoord \<times> nat) result" where
  "col_full_block lt num_cores_y st =
     (let (all_cores_set, s_core, leftover_size) = st in
      if leftover_size > num_cores_y
      then let num_full_cols = leftover_size div num_cores_y in
           rbind (new_CoreRange s_core
                    (CoreCoord (sub64 (add64 (cx s_core) num_full_cols) 1) (sub32 num_cores_y 1)))
             (\<lambda>full_block. Inr (set_insert lt full_block all_cores_set,
                CoreCoord (add64 (cx s_core) num_full_cols) 0,
                u32 (sub64 leftover_size (range_size full_block))))
      else Inr st)"

definition col_end_block ::
    "(CoreCoord \<Rightarrow> CoreCoord \<Rightarrow> bool) \<Rightarrow> CoreRange list \<times> CoreCoord \<times> nat \<Rightarrow> CoreRange list result" where
  "col_end_block lt st =
     (let (all_cores_set, s_core, leftover_size) = st in
      if leftover_size > 0
      then rbind (new_CoreRange s_core (CoreCoord (cx s_core) (sub64 (add64 (cy s_core) leftover_size) 1)))
             (\<lambda>leftover_block. Inr (set_insert lt leftover_block all_cores_set))
      else Inr all_cores_set)"

definition col_blocks ::
    "(CoreCoord \<Rightarrow> CoreCoord \<Rightarrow> bool) \<Rightarrow> nat \<Rightarrow> CoreCoord \<Rightarrow> nat \<Rightarrow> CoreRange list result" where
  "col_blocks lt num_cores_y start_core target_num_cores =
     rbind (col_start_block lt num_cores_y start_core target_num_cores) (\<lambda>st.
     rbind (col_full_block lt num_cores_y st) (col_end_block lt))"

definition num_cores_to_corerange_set_from ::
    "(CoreCoord \<Rightarrow> CoreCoord \<Rightarrow> bool) \<Rightarrow> CoreCoord \<Rightarrow> nat \<Rightarrow> CoreCoord \<Rightarrow> bool \<Rightarrow> CoreRange list result" where
  "num_cores_to_corerange_set_from lt start_core target_num_cores grid_size row_wise =
     (let num_cores_x = u32 (cx grid_size); num_cores_y = u32 (cy grid_size) in
      rbind (check (cx start_core < num_cores_x \<and> cy start_core < num_cores_y)
               (TT_FATAL ''Start core must be within grid size'')) (\<lambda>_.
      let total_available_cores =
            (if row_wise
             then u32 (add64 (u32 (mul64 (sub64 (sub32 num_cores_y 1) (cy start_core)) num_cores_x))
                        (sub64 num_cores_x (cx start_core)))
             else u32 (add64 (u32 (mul64 (sub64 (sub32 num_cores_x 1) (cx start_core)) num_cores_y))
                        (sub64 num_cores_y (cy start_core))))
      in rbind (check (target_num_cores \<le> total_available_cores)
                  (TT_FATAL ''Target number of cores is greater than total number of available cores'')) (\<lambda>_.
      if row_wise then row_blocks lt num_cores_x start_core target_num_cores
      else col_blocks lt num_cores_y start_core target_num_cores)))"

definition num_cores_to_corerange_set ::
    "(CoreCoord \<Rightarrow> CoreCoord \<Rightarrow> bool) \<Rightarrow> nat \<Rightarrow> CoreCoord \<Rightarrow> bool \<Rightarrow> CoreRange list result" where
  "num_cores_to_corerange_set lt target_num_cores grid_size row_wise =
     num_cores_to_corerange_set_from lt (CoreCoord 0 0) target_num_cores grid_size row_wise"

subsection \<open>split_work_to_cores\<close>

text \<open>The cores that do less work: what is left of the row (or column) in which the first group ends,
  and the rows (columns) after it.\<close>

definition row_leftover ::
    "(CoreCoord \<Rightarrow> CoreCoord \<Rightarrow> bool) \<Rightarrow> nat \<Rightarrow> CoreCoord \<Rightarrow> CoreCoord \<Rightarrow> CoreRange list result" where
  "row_leftover lt num_cores_x end1 end_all =
     (if cy end1 = cy end_all \<and> cx end1 \<noteq> cx end_all
      then rbind (new_CoreRange (CoreCoord (add64 (cx end1) 1) (cy end1)) end_all)
             (\<lambda>leftover_block. Inr (set_insert lt leftover_block []))
      else
        rbind (if cx end1 \<noteq> sub32 num_cores_x 1
               then rbind (new_CoreRange (CoreCoord (add64 (cx end1) 1) (cy end1))
                             (CoreCoord (sub32 num_cores_x 1) (cy end1)))
                      (\<lambda>leftover_stick. Inr (set_insert lt leftover_stick []))
               else Inr [])
          (\<lambda>core_group_2_set.
        rbind (new_CoreRange (CoreCoord 0 (add64 (cy end1) 1)) end_all)
          (\<lambda>leftover_block. Inr (set_insert lt leftover_block core_group_2_set))))"

definition col_leftover ::
    "(CoreCoord \<Rightarrow> CoreCoord \<Rightarrow> bool) \<Rightarrow> nat \<Rightarrow> CoreCoord \<Rightarrow> CoreCoord \<Rightarrow> CoreRange list result" where
  "col_leftover lt num_cores_y end1 end_all =
     (if cx end1 = cx end_all \<and> cy end1 \<noteq> cy end_all
      then rbind (new_CoreRange (CoreCoord (cx end1) (add64 (cy end1) 1)) end_all)
             (\<lambda>leftover_block. Inr (set_insert lt leftover_block []))
      else
        rbind (if cy end1 \<noteq> sub32 num_cores_y 1
               then rbind (new_CoreRange (CoreCoord (cx end1) (add64 (cy end1) 1))
                             (CoreCoord (cx end1) (sub32 num_cores_y 1)))
                      (\<lambda>leftover_stick. Inr (set_insert lt leftover_stick []))
               else Inr [])
          (\<lambda>core_group_2_set.
        rbind (new_CoreRange (CoreCoord (add64 (cx end1) 1) 0) end_all)
          (\<lambda>leftover_block. Inr (set_insert lt leftover_block core_group_2_set))))"

definition split_work_to_cores ::
    "(CoreCoord \<Rightarrow> CoreCoord \<Rightarrow> bool) \<Rightarrow> CoreCoord \<Rightarrow> nat \<Rightarrow> bool \<Rightarrow>
     (nat \<times> CoreRange list \<times> CoreRange list \<times> CoreRange list \<times> nat \<times> nat) result" where
  "split_work_to_cores lt grid_size units_to_divide row_wise =
     (let num_cores_x = u32 (cx grid_size); num_cores_y = u32 (cy grid_size);
          target_num_cores = min units_to_divide (mul32 num_cores_x num_cores_y) in
      rbind (num_cores_to_corerange_set lt target_num_cores grid_size row_wise) (\<lambda>all_cores_set.
      rbind (new_CoreRangeSet all_cores_set) (\<lambda>all_cores.
      if target_num_cores = 0 then Inl (Undefined ''division by zero'') else
      let units_per_core = units_to_divide div target_num_cores in
      rbind (if units_to_divide mod target_num_cores = 0 then Inr (all_cores, [], units_per_core, 0)
             else
               rbind (num_cores_to_corerange_set lt (units_to_divide mod target_num_cores) grid_size row_wise)
                 (\<lambda>core_group_1_set.
               if core_group_1_set = [] \<or> all_cores = [] then Inl (Undefined ''rbegin of an empty set'') else
               let end1 = end_coord (last core_group_1_set); end_all = end_coord (last all_cores) in
               rbind (if row_wise then row_leftover lt num_cores_x end1 end_all
                      else col_leftover lt num_cores_y end1 end_all)
                 (\<lambda>core_group_2_set.
               Inr (core_group_1_set, core_group_2_set, add32 units_per_core 1, units_per_core))))
        (\<lambda>(core_group_1_set, core_group_2_set, units_per_core_group_1, units_per_core_group_2).
      rbind (new_CoreRangeSet core_group_1_set) (\<lambda>core_group_1.
      rbind (new_CoreRangeSet core_group_2_set) (\<lambda>core_group_2.
      Inr (target_num_cores, all_cores, core_group_1, core_group_2,
           units_per_core_group_1, units_per_core_group_2)))))))"

end
