(* ===== verification/Work_Split_Props.thy ===== *)
theory Work_Split_Props
  imports Work_Split
begin

text \<open>
  Correctness of the work split: \<open>num_cores_to_corerange_set\<close> gives exactly the requested number of cores,
  the first ones in row-major or column-major order, and \<open>split_work_to_cores\<close> partitions them into two
  groups whose work adds up.
\<close>

subsection \<open>Segments of the row-major order\<close>

lemma row_segment:
  assumes "0 < n" and "x + n \<le> X"
  shows "cells (CoreRange (CoreCoord x y) (CoreCoord (x + n - 1) y)) = row_core X ` {y * X + x..<y * X + x + n}"
proof (rule cells_cases)
  fix a b
  show "CoreCoord a b \<in> cells (CoreRange (CoreCoord x y) (CoreCoord (x + n - 1) y)) \<longleftrightarrow>
      CoreCoord a b \<in> row_core X ` {y * X + x..<y * X + x + n}"
  proof
    assume "CoreCoord a b \<in> cells (CoreRange (CoreCoord x y) (CoreCoord (x + n - 1) y))"
    then have ab: "x \<le> a" "a < x + n" "b = y" using assms(1) by auto
    then have "row_core X (y * X + a) = CoreCoord a b" using row_core_at [of a X y] assms(2) by simp
    then show "CoreCoord a b \<in> row_core X ` {y * X + x..<y * X + x + n}"
      using ab by (intro image_eqI [of _ _ "y * X + a"]) auto
  next
    assume "CoreCoord a b \<in> row_core X ` {y * X + x..<y * X + x + n}"
    then obtain j where j: "CoreCoord a b = row_core X j" "y * X + x \<le> j" "j < y * X + x + n" by auto
    then have "j = y * X + (j - y * X)" "j - y * X < X" using assms(2) by auto
    then have "CoreCoord a b = CoreCoord (j - y * X) y" using j(1) row_core_at by metis
    then show "CoreCoord a b \<in> cells (CoreRange (CoreCoord x y) (CoreCoord (x + n - 1) y))" using j(2,3) by auto
  qed
qed

lemma row_full:
  assumes "0 < X" and "0 < m"
  shows "cells (CoreRange (CoreCoord 0 y) (CoreCoord (X - 1) (y + m - 1))) = row_core X ` {y * X..<(y + m) * X}"
proof (rule cells_cases)
  fix a b
  show "CoreCoord a b \<in> cells (CoreRange (CoreCoord 0 y) (CoreCoord (X - 1) (y + m - 1))) \<longleftrightarrow>
      CoreCoord a b \<in> row_core X ` {y * X..<(y + m) * X}"
  proof
    assume "CoreCoord a b \<in> cells (CoreRange (CoreCoord 0 y) (CoreCoord (X - 1) (y + m - 1)))"
    then have ab: "a < X" "y \<le> b" "b < y + m" using assms by auto
    have "y * X \<le> b * X + a" using ab(2) by (simp add: trans_le_add1)
    moreover have "b * X + a < (y + m) * X" using index_less [OF ab(1,3)] by (simp add: mult.commute)
    ultimately show "CoreCoord a b \<in> row_core X ` {y * X..<(y + m) * X}"
      using row_core_at [OF ab(1), of b] by (intro image_eqI [of _ _ "b * X + a"]) auto
  next
    assume "CoreCoord a b \<in> row_core X ` {y * X..<(y + m) * X}"
    then obtain j where j: "CoreCoord a b = row_core X j" "y * X \<le> j" "j < (y + m) * X" by auto
    then have "a < X" "b = j div X" using assms(1) by (simp_all add: row_core_def)
    moreover have "y \<le> j div X" using j(2) assms(1) by (simp add: less_eq_div_iff_mult_less_eq)
    moreover have "j div X < y + m" using j(3) by (rule less_mult_imp_div_less)
    ultimately show "CoreCoord a b \<in> cells (CoreRange (CoreCoord 0 y) (CoreCoord (X - 1) (y + m - 1)))" by auto
  qed
qed

subsection \<open>Accumulating consecutive segments\<close>

definition covers :: "(CoreCoord \<Rightarrow> CoreCoord \<Rightarrow> bool) \<Rightarrow> nat \<Rightarrow> nat \<Rightarrow> nat \<Rightarrow> CoreRange list \<Rightarrow> bool" where
  "covers lt X k i acc \<longleftrightarrow> rsorted lt acc \<and> (\<forall>r\<in>set acc. small_range r) \<and> disjoint_ranges (set acc) \<and>
     k \<le> i \<and> cells_of acc = row_core X ` {k..<i}"

lemma covers_Nil [simp]: "covers lt X k k []"
  by (simp add: covers_def disjoint_ranges_def cells_of_def)

lemma covers_insert:
  assumes ord: "xy_order_ok lt" and acc: "covers lt X k i acc" and b: "small_range b"
    and c: "cells b = row_core X ` {i..<j}" and ij: "i \<le> j"
  shows "covers lt X k j (set_insert lt b acc)"
proof -
  have s: "set (set_insert lt b acc) = insert b (set acc)" by (rule set_set_insert [OF ord])
  have "row_core X ` {i..<j} \<inter> row_core X ` {k..<i} = {}" by (auto dest: row_core_inj)
  then have "cells b \<inter> cells r = {}" if "r \<in> set acc" for r
    using acc c that unfolding covers_def cells_of_def by blast
  then have "disjoint_ranges (insert b (set acc))"
    using acc unfolding covers_def disjoint_ranges_def by blast
  moreover have "cells b \<union> row_core X ` {k..<i} = row_core X ` {k..<j}"
  proof -
    have "{i..<j} \<union> {k..<i} = {k..<j}" using acc ij by (auto simp: covers_def)
    then show ?thesis unfolding c by (metis image_Un)
  qed
  ultimately show ?thesis
    using acc b ij rsorted_set_insert [OF ord] unfolding covers_def cells_of_def s by auto
qed

lemma new_CoreRange_small: "small_range (CoreRange s e) \<Longrightarrow> new_CoreRange s e = Inr (CoreRange s e)"
  by (simp add: new_CoreRange_def small_range_def valid_range_def)

lemma row_block_size:
  assumes "small_range (CoreRange (CoreCoord a y) (CoreCoord b z))"
  shows "range_size (CoreRange (CoreCoord a y) (CoreCoord b z)) = (b - a + 1) * (z - y + 1)"
  using range_size_eq(1) [OF assms] by simp

text \<open>The state between the steps: the set built so far covers the cores before \<^verbatim>\<open>s_core\<close>, and what is left
  starts there.\<close>

definition step_ok ::
    "(CoreCoord \<Rightarrow> CoreCoord \<Rightarrow> bool) \<Rightarrow> nat \<Rightarrow> nat \<Rightarrow> nat \<Rightarrow> CoreRange list \<times> CoreCoord \<times> nat \<Rightarrow> bool" where
  "step_ok lt X k e st = (case st of (acc, s, left) \<Rightarrow>
     covers lt X k (cy s * X + cx s) acc \<and> cy s * X + cx s + left = e \<and> cx s < X \<and> left < 2 ^ 32)"

lemma row_start_block_correct:
  assumes ord: "xy_order_ok lt" and X: "X < 2 ^ 31" and sx: "sx < X"
    and n: "sy * X + sx + n \<le> Y * X" and Y: "Y < 2 ^ 31" "n < 2 ^ 32"
  shows "\<exists>acc s left. row_start_block lt X (CoreCoord sx sy) n = Inr (acc, s, left) \<and>
    step_ok lt X (sy * X + sx) (sy * X + sx + n) (acc, s, left) \<and> (cx s = 0 \<or> left \<le> X - cx s)"
proof (cases "sx \<noteq> 0 \<and> n > X - sx")
  case True
  define k where "k = sy * X + sx"
  have "sy * X < Y * X" using n True by linarith
  then have sy: "sy < 2 ^ 31" using Y by simp
  let ?b = "CoreRange (CoreCoord sx sy) (CoreCoord (X - 1) sy)"
  have sm: "small_range ?b" using X sx sy unfolding small_range_def by auto
  have c: "cells ?b = row_core X ` {k..<k + (X - sx)}"
    using row_segment [of "X - sx" sx X sy] sx by (simp add: k_def)
  have cov: "covers lt X k (k + (X - sx)) (set_insert lt ?b [])"
    by (rule covers_insert [OF ord covers_Nil sm c]) simp
  have sz: "range_size ?b = X - sx" using row_block_size [OF sm] sx by simp
  have a: "add64 sy 1 = Suc sy" "sub64 X sx = X - sx" "u32 (sub64 n (X - sx)) = n - (X - sx)" "sub32 X 1 = X - 1"
    using sy X sx True Y(2) by (simp_all add: nowrap)
  have e: "k + (X - sx) = Suc sy * X" using sx by (simp add: k_def)
  have "row_start_block lt X (CoreCoord sx sy) n = Inr (set_insert lt ?b [], CoreCoord 0 (Suc sy), n - (X - sx))"
    using True unfolding row_start_block_def CoreCoord.sel a new_CoreRange_small [OF sm] rbind_Inr sz by simp
  then show ?thesis
    using cov [unfolded e] e Y(2) True sx unfolding k_def [symmetric] by (auto simp: step_ok_def)
next
  case False
  have "sub64 X sx = X - sx" using X sx by (simp add: nowrap)
  then show ?thesis using False sx Y(2) by (auto simp: row_start_block_def step_ok_def)
qed

lemma row_full_block_correct:
  assumes ord: "xy_order_ok lt" and X: "X < 2 ^ 31" and Y: "Y < 2 ^ 31" and e: "e \<le> Y * X"
    and ok: "step_ok lt X k e (acc, CoreCoord x1 y1, l1)" and o1: "x1 = 0 \<or> l1 \<le> X - x1"
  shows "\<exists>acc' s left. row_full_block lt X (acc, CoreCoord x1 y1, l1) = Inr (acc', s, left) \<and>
    step_ok lt X k e (acc', s, left) \<and> cx s + left \<le> X \<and>
    (acc', s, left) = (if l1 > X
       then (set_insert lt (CoreRange (CoreCoord x1 y1) (CoreCoord (X - 1) (y1 + l1 div X - 1))) acc,
             CoreCoord 0 (y1 + l1 div X), l1 mod X)
       else (acc, CoreCoord x1 y1, l1))"
proof (cases "l1 > X")
  case True
  have c1: "covers lt X k (y1 * X + x1) acc" and s1: "y1 * X + x1 + l1 = e" and sx: "0 < X" and l1: "l1 < 2 ^ 32"
    using ok by (auto simp: step_ok_def)
  have x1: "x1 = 0" using o1 True by auto
  define m where "m = l1 div X"
  have m: "0 < m" using True sx by (simp add: m_def div_greater_zero_iff)
  have mX: "m * X \<le> l1" by (simp add: m_def)
  have "(y1 + m) * X \<le> Y * X" using s1 e mX x1 by (simp add: algebra_simps)
  then have ym: "y1 + m \<le> Y" using sx by simp
  let ?b = "CoreRange (CoreCoord 0 y1) (CoreCoord (X - 1) (y1 + m - 1))"
  have sm: "small_range ?b" using X sx ym Y m unfolding small_range_def by auto
  have c: "cells ?b = row_core X ` {y1 * X + x1..<(y1 + m) * X}"
    using row_full [of X m y1] sx m x1 by simp
  have cov: "covers lt X k ((y1 + m) * X) (set_insert lt ?b acc)"
    by (rule covers_insert [OF ord c1 sm c]) (simp add: x1)
  have "X - 1 - 0 + 1 = X" "y1 + m - 1 - y1 + 1 = m" using sx m by linarith+
  then have sz: "range_size ?b = m * X" using row_block_size [OF sm] by (simp only: mult.commute)
  have a: "add64 y1 m = y1 + m" "sub64 (y1 + m) 1 = y1 + m - 1" "u32 (sub64 l1 (m * X)) = l1 - m * X"
    "sub32 X 1 = X - 1"
    using ym Y m mX l1 X sx by (simp_all add: nowrap)
  have l: "l1 - m * X < X" using sx by (simp add: m_def minus_div_mult_eq_mod)
  have "row_full_block lt X (acc, CoreCoord x1 y1, l1) =
      Inr (set_insert lt ?b acc, CoreCoord 0 (y1 + m), l1 - m * X)"
    using True
    unfolding row_full_block_def Let_def m_def [symmetric] prod.case CoreCoord.sel x1 a(1,2,4)
      new_CoreRange_small [OF sm] rbind_Inr sz a(3) by simp
  moreover have "(y1 + m) * X + (l1 - m * X) = e" using s1 mX x1 by (simp add: algebra_simps)
  moreover have "l1 - m * X = l1 mod X" by (simp add: m_def minus_div_mult_eq_mod)
  moreover have "(y1 + m) * X + l1 mod X = e" using calculation(2,3) by simp
  ultimately show ?thesis using cov l l1 sx X True x1 by (auto simp: step_ok_def m_def)
next
  case False
  then show ?thesis using ok o1 by (auto simp: row_full_block_def step_ok_def)
qed

lemma row_end_block_correct:
  assumes ord: "xy_order_ok lt" and X: "X < 2 ^ 31" and Y: "Y < 2 ^ 31" and e: "e \<le> Y * X"
    and ok: "step_ok lt X k e (acc, CoreCoord x2 y2, l2)" and x: "x2 + l2 \<le> X"
  shows "\<exists>res. row_end_block lt (acc, CoreCoord x2 y2, l2) = Inr res \<and> covers lt X k e res \<and>
    res = (if l2 > 0 then set_insert lt (CoreRange (CoreCoord x2 y2) (CoreCoord (x2 + l2 - 1) y2)) acc else acc)"
proof (cases "l2 > 0")
  case True
  have c2: "covers lt X k (y2 * X + x2) acc" and s2: "y2 * X + x2 + l2 = e" using ok by (auto simp: step_ok_def)
  have "y2 * X < Y * X" using s2 e True by linarith
  then have y2: "y2 < Y" by simp
  let ?b = "CoreRange (CoreCoord x2 y2) (CoreCoord (x2 + l2 - 1) y2)"
  have sm: "small_range ?b" using X x y2 Y True unfolding small_range_def by auto
  have c: "cells ?b = row_core X ` {y2 * X + x2..<e}"
    using row_segment [OF True x, of y2] s2 by simp
  have "covers lt X k e (set_insert lt ?b acc)"
    by (rule covers_insert [OF ord c2 sm c]) (use s2 in simp)
  moreover have "add64 x2 l2 = x2 + l2" "sub64 (x2 + l2) 1 = x2 + l2 - 1"
    using X x True by (simp_all add: nowrap)
  then have "row_end_block lt (acc, CoreCoord x2 y2, l2) = Inr (set_insert lt ?b acc)"
    using True unfolding row_end_block_def Let_def prod.case CoreCoord.sel
    by (simp only: new_CoreRange_small [OF sm] rbind_Inr if_True)
  ultimately show ?thesis using True by auto
next
  case False
  then have "e = y2 * X + x2" using ok by (simp add: step_ok_def)
  then show ?thesis using ok False by (auto simp: row_end_block_def step_ok_def)
qed

lemma row_blocks_correct:
  assumes ord: "xy_order_ok lt" and X: "X < 2 ^ 31" and sx: "sx < X"
    and n: "sy * X + sx + n \<le> Y * X" and Y: "Y < 2 ^ 31" "n < 2 ^ 32"
  shows "\<exists>res. row_blocks lt X (CoreCoord sx sy) n = Inr res \<and> covers lt X (sy * X + sx) (sy * X + sx + n) res"
proof -
  obtain a1 s1 l1 where 1: "row_start_block lt X (CoreCoord sx sy) n = Inr (a1, s1, l1)"
    "step_ok lt X (sy * X + sx) (sy * X + sx + n) (a1, s1, l1)" "cx s1 = 0 \<or> l1 \<le> X - cx s1"
    using row_start_block_correct [OF assms] by blast
  obtain x1 y1 where s1: "s1 = CoreCoord x1 y1" by (cases s1)
  obtain a2 s2 l2 where 2: "row_full_block lt X (a1, CoreCoord x1 y1, l1) = Inr (a2, s2, l2)"
    "step_ok lt X (sy * X + sx) (sy * X + sx + n) (a2, s2, l2)" "cx s2 + l2 \<le> X"
    using row_full_block_correct [OF ord X Y(1) n 1(2) [unfolded s1]] 1(3) s1 by auto
  obtain x2 y2 where s2: "s2 = CoreCoord x2 y2" by (cases s2)
  show ?thesis
    using row_end_block_correct [OF ord X Y(1) n 2(2) [unfolded s2]] 2(3) 1(1) 2(1) s1 s2
    by (simp add: row_blocks_def)
qed

subsection \<open>Columns are rows of the transposed grid\<close>

definition cswap :: "CoreCoord \<Rightarrow> CoreCoord" where
  "cswap c = CoreCoord (cy c) (cx c)"

definition rswap :: "CoreRange \<Rightarrow> CoreRange" where
  "rswap r = CoreRange (cswap (start_coord r)) (cswap (end_coord r))"

abbreviation swap_less :: "(CoreCoord \<Rightarrow> CoreCoord \<Rightarrow> bool) \<Rightarrow> CoreCoord \<Rightarrow> CoreCoord \<Rightarrow> bool" where
  "swap_less lt \<equiv> \<lambda>a b. lt (cswap a) (cswap b)"

abbreviation rmap :: "('a \<Rightarrow> 'b) \<Rightarrow> 'a result \<Rightarrow> 'b result" where
  "rmap \<equiv> map_sum id"

lemma cswap_simps [simp]:
  "cx (cswap c) = cy c" "cy (cswap c) = cx c" "cswap (CoreCoord x y) = CoreCoord y x" "cswap (cswap c) = c"
  by (simp_all add: cswap_def)

lemma cswap_eq [simp]: "cswap a = cswap b \<longleftrightarrow> a = b"
  by (metis cswap_simps(4))

lemma rswap_simps [simp]:
  "start_coord (rswap r) = cswap (start_coord r)" "end_coord (rswap r) = cswap (end_coord r)"
  "rswap (CoreRange s e) = CoreRange (cswap s) (cswap e)" "rswap (rswap r) = r"
  by (simp_all add: rswap_def)

lemma swap_less_ok: "xy_order_ok lt \<Longrightarrow> xy_order_ok (swap_less lt)"
  unfolding xy_order_ok_def by (metis cswap_simps(1,2) cswap_eq)

lemma rbind_rmap: "rbind (rmap f m) g = rbind m (\<lambda>x. g (f x))"
  by (cases m) simp_all

lemma rmap_rbind: "rmap f (rbind m g) = rbind m (\<lambda>x. rmap f (g x))"
  by (cases m) simp_all

lemma new_CoreRange_swap: "new_CoreRange (cswap s) (cswap e) = rmap rswap (new_CoreRange s e)"
  by (simp add: new_CoreRange_def check_def conj_commute)

lemma range_size_swap [simp]: "range_size (rswap r) = range_size r"
  by (simp add: range_size_def wmul_def mult.commute)

lemma set_insert_swap: "set_insert lt (rswap r) (map rswap rs) = map rswap (set_insert (swap_less lt) r rs)"
  by (induction rs) (simp_all add: range_less_def)

lemma ranges_overlap_swap [simp]: "ranges_overlap (rswap a) (rswap b) = ranges_overlap a b"
  by (auto simp: ranges_overlap_def Let_def)

lemma new_CoreRangeSet_swap: "new_CoreRangeSet (map rswap rs) = rmap (map rswap) (new_CoreRangeSet rs)"
proof -
  have "list_ex (\<lambda>i. list_ex (\<lambda>j. i \<noteq> j \<and> ranges_overlap (map rswap rs ! i) (map rswap rs ! j)) [0..<length rs]) [0..<length rs]
    = list_ex (\<lambda>i. list_ex (\<lambda>j. i \<noteq> j \<and> ranges_overlap (rs ! i) (rs ! j)) [0..<length rs]) [0..<length rs]"
    by (auto simp: list_ex_iff)
  then show ?thesis by (simp add: new_CoreRangeSet_def)
qed

lemma cells_swap: "cells (rswap r) = cswap ` cells r"
proof (rule set_eqI)
  fix c
  have "c \<in> cells (rswap r) \<longleftrightarrow> cswap c \<in> cells r" by (auto simp: cells_def range_contains_coord_def)
  then show "c \<in> cells (rswap r) \<longleftrightarrow> c \<in> cswap ` cells r" by (metis image_iff cswap_simps(4))
qed

lemma cells_of_swap: "cells_of (map rswap rs) = cswap ` cells_of rs"
  by (auto simp: cells_of_def cells_swap)

lemmas swap_simps = new_CoreRange_swap set_insert_swap new_CoreRangeSet_swap rbind_rmap rmap_rbind

abbreviation swap3 :: "CoreRange list \<times> CoreCoord \<times> nat \<Rightarrow> CoreRange list \<times> CoreCoord \<times> nat" where
  "swap3 \<equiv> map_prod (map rswap) (map_prod cswap id)"

lemma set_insert_swap':
  "set_insert lt (CoreRange (CoreCoord a b) (CoreCoord c d)) (map rswap rs) =
     map rswap (set_insert (swap_less lt) (CoreRange (CoreCoord b a) (CoreCoord d c)) rs)"
  using set_insert_swap [of lt "CoreRange (CoreCoord b a) (CoreCoord d c)" rs] by simp

lemmas set_insert_single_swap = set_insert_swap' [where rs = "[]", simplified]

lemma range_size_swap':
  "range_size (CoreRange (CoreCoord a b) (CoreCoord c d)) = range_size (CoreRange (CoreCoord b a) (CoreCoord d c))"
  using range_size_swap [of "CoreRange (CoreCoord b a) (CoreCoord d c)"] by simp

lemma col_start_block_swap:
  "col_start_block lt h s n = rmap swap3 (row_start_block (swap_less lt) h (cswap s) n)"
proof (cases s)
  case (CoreCoord x y)
  show ?thesis
    unfolding col_start_block_def row_start_block_def CoreCoord new_CoreRange_def cswap_simps CoreCoord.sel
    by (simp add: check_def range_size_swap' [of y x _ _] id_def)
qed

lemma col_full_block_swap:
  "col_full_block lt h (swap3 st) = rmap swap3 (row_full_block (swap_less lt) h st)"
proof -
  obtain acc x y l where st: "st = (acc, CoreCoord x y, l)" by (metis CoreCoord.exhaust prod.exhaust)
  show ?thesis
    unfolding col_full_block_def row_full_block_def st Let_def new_CoreRange_def map_prod_simp prod.case
      cswap_simps CoreCoord.sel id_apply
    by (auto simp: check_def range_size_swap' [of y x _ _] set_insert_swap' id_def)
qed

lemma col_end_block_swap:
  "col_end_block lt (swap3 st) = rmap (map rswap) (row_end_block (swap_less lt) st)"
proof -
  obtain acc x y l where st: "st = (acc, CoreCoord x y, l)" by (metis CoreCoord.exhaust prod.exhaust)
  show ?thesis
    unfolding col_end_block_def row_end_block_def st Let_def new_CoreRange_def map_prod_simp prod.case
      cswap_simps CoreCoord.sel id_apply
    by (simp add: check_def conj_commute set_insert_swap')
qed

lemma col_blocks_swap:
  "col_blocks lt h s n = rmap (map rswap) (row_blocks (swap_less lt) h (cswap s) n)"
  by (simp add: col_blocks_def row_blocks_def col_start_block_swap rbind_rmap col_full_block_swap
      col_end_block_swap rmap_rbind)

lemma corerange_set_swap:
  "num_cores_to_corerange_set_from lt s n g False =
   rmap (map rswap) (num_cores_to_corerange_set_from (swap_less lt) (cswap s) n (cswap g) True)"
  by (simp add: num_cores_to_corerange_set_from_def Let_def rmap_rbind col_blocks_swap conj_commute)

lemma row_core_swap: "cswap (row_core w i) = col_core w i"
  by (simp add: row_core_def col_core_def)

subsection \<open>num_cores_to_corerange_set\<close>

definition grid_ok :: "nat \<Rightarrow> nat \<Rightarrow> bool" where
  "grid_ok X Y \<longleftrightarrow> X < 2 ^ 31 \<and> Y < 2 ^ 31 \<and> X * Y < 2 ^ 32"

text \<open>The position of a core in the order in which cores are handed out, and its inverse.\<close>

definition core_index :: "bool \<Rightarrow> CoreCoord \<Rightarrow> CoreCoord \<Rightarrow> nat" where
  "core_index row_wise grid c = (if row_wise then cy c * cx grid + cx c else cx c * cy grid + cy c)"

definition nth_core :: "bool \<Rightarrow> CoreCoord \<Rightarrow> nat \<Rightarrow> CoreCoord" where
  "nth_core row_wise grid i = (if row_wise then row_core (cx grid) i else col_core (cy grid) i)"

lemma available_row:
  assumes g: "grid_ok X Y" and s: "sx < X" "sy < Y"
  shows "u32 (add64 (u32 (mul64 (sub64 (sub32 Y 1) sy) X)) (sub64 X sx)) = X * Y - (sy * X + sx)"
proof -
  have b: "X < 2 ^ 31" "Y < 2 ^ 31" "X * Y < 2 ^ 32" using g by (simp_all add: grid_ok_def)
  obtain k where k: "Y = Suc (sy + k)" using s(2) by (metis add_Suc_right less_imp_Suc_add)
  have kX: "k * X + X \<le> X * Y" by (simp add: k algebra_simps)
  have "sub64 (sub32 Y 1) sy = k" using b s by (simp add: k nowrap)
  moreover have "u32 (mul64 k X) = k * X" using kX b by (simp add: nowrap)
  moreover have "sub64 X sx = X - sx" using b s by (simp add: nowrap)
  moreover have "u32 (add64 (k * X) (X - sx)) = k * X + (X - sx)" using kX b by (simp add: nowrap)
  ultimately have "u32 (add64 (u32 (mul64 (sub64 (sub32 Y 1) sy) X)) (sub64 X sx)) = k * X + (X - sx)" by (simp only:)
  also have "\<dots> = X * Y - (sy * X + sx)" using s(1) by (simp add: k algebra_simps)
  finally show ?thesis .
qed

lemma corerange_set_row:
  assumes ord: "xy_order_ok lt" and g: "grid_ok X Y" and s: "sx < X" "sy < Y"
    and n: "sy * X + sx + n \<le> X * Y"
  shows "\<exists>rs. num_cores_to_corerange_set_from lt (CoreCoord sx sy) n (CoreCoord X Y) True = Inr rs \<and>
    covers lt X (sy * X + sx) (sy * X + sx + n) rs"
proof -
  have b: "X < 2 ^ 31" "Y < 2 ^ 31" "X * Y < 2 ^ 32" using g by (simp_all add: grid_ok_def)
  have u: "u32 X = X" "u32 Y = Y" using b by (simp_all add: nowrap)
  have n': "sy * X + sx + n \<le> Y * X" "n < 2 ^ 32" "n \<le> X * Y - (sy * X + sx)"
    using n b by (simp_all add: mult.commute)
  have "num_cores_to_corerange_set_from lt (CoreCoord sx sy) n (CoreCoord X Y) True =
      row_blocks lt X (CoreCoord sx sy) n"
    using s n'(3) unfolding num_cores_to_corerange_set_from_def CoreCoord.sel u Let_def if_True available_row [OF g s]
    by simp
  then show ?thesis using row_blocks_correct [OF ord b(1) s(1) n'(1) b(2) n'(2)] by simp
qed

lemma row_blocks_last:
  assumes ord: "xy_order_ok lt" and X: "X < 2 ^ 31" "0 < X" and n: "n \<le> Y * X" "0 < n" and Y: "Y < 2 ^ 31" "n < 2 ^ 32"
  shows "\<exists>res. row_blocks lt X (CoreCoord 0 0) n = Inr res \<and> res \<noteq> [] \<and> end_coord (last res) = row_core X (n - 1)"
proof -
  have 1: "row_start_block lt X (CoreCoord 0 0) n = Inr ([], CoreCoord 0 0, n)" by (simp add: row_start_block_def)
  have ok1: "step_ok lt X 0 n ([], CoreCoord 0 0, n)" using X(2) Y(2) by (simp add: step_ok_def)
  obtain a2 s2 l2 where 2: "row_full_block lt X ([], CoreCoord 0 0, n) = Inr (a2, s2, l2)"
    "step_ok lt X 0 n (a2, s2, l2)" "cx s2 + l2 \<le> X"
    "(a2, s2, l2) = (if n > X
       then ([CoreRange (CoreCoord 0 0) (CoreCoord (X - 1) (n div X - 1))], CoreCoord 0 (n div X), n mod X)
       else ([], CoreCoord 0 0, n))"
    using row_full_block_correct [OF ord X(1) Y(1) n(1) ok1] by (auto split: if_splits)
  obtain x2 y2 where s2: "s2 = CoreCoord x2 y2" by (cases s2)
  obtain res where 3: "row_end_block lt (a2, CoreCoord x2 y2, l2) = Inr res"
    "res = (if l2 > 0 then set_insert lt (CoreRange (CoreCoord x2 y2) (CoreCoord (x2 + l2 - 1) y2)) a2 else a2)"
    using row_end_block_correct [OF ord X(1) Y(1) n(1) 2(2) [unfolded s2]] 2(3) s2 by auto
  have e: "row_blocks lt X (CoreCoord 0 0) n = Inr res" using 1 2(1) 3(1) s2 by (simp add: row_blocks_def)
  have r: "res \<noteq> [] \<and> end_coord (last res) = row_core X (n - 1)"
  proof (cases "n > X")
    case False
    then have "res = [CoreRange (CoreCoord 0 0) (CoreCoord (n - 1) 0)]" using 2(4) 3(2) s2 n(2) by simp
    then show ?thesis using row_core_at [of "n - 1" X 0] False n(2) by simp
  next
    case True
    define m where "m = n div X"
    have m: "0 < m" using True X(2) by (simp add: m_def div_greater_zero_iff)
    have nm: "n = m * X + n mod X" by (simp add: m_def)
    have f: "a2 = [CoreRange (CoreCoord 0 0) (CoreCoord (X - 1) (m - 1))]" "x2 = 0" "y2 = m" "l2 = n mod X"
      using True 2(4) s2 by (simp_all add: m_def)
    show ?thesis
    proof (cases "n mod X = 0")
      case True
      have "(m - 1) * X + (X - 1) = n - 1"
      proof -
        have "m * X = (m - 1) * X + X" using m by (simp add: mult_eq_if)
        then show ?thesis using nm True X(2) by linarith
      qed
      then show ?thesis using row_core_at [of "X - 1" X "m - 1"] X(2) f 3(2) True by simp
    next
      case False
      have "lt (CoreCoord 0 0) (CoreCoord 0 m)" using ord m by (simp add: xy_order_ok_def)
      moreover have "\<not> lt (CoreCoord 0 m) (CoreCoord 0 0)" using ord calculation unfolding xy_order_ok_def by blast
      ultimately have "res = a2 @ [CoreRange (CoreCoord 0 m) (CoreCoord (n mod X - 1) m)]"
        using False f 3(2) m by (simp add: range_less_def)
      moreover have "m * X + (n mod X - 1) = n - 1" using nm False by linarith
      moreover have "n mod X - 1 < X" using X(2) by (simp add: less_imp_diff_less)
      ultimately show ?thesis using row_core_at [of "n mod X - 1" X m] by simp
    qed
  qed
  show ?thesis using e r by blast
qed

subsection \<open>Runs of cores\<close>

definition run_of :: "(nat \<Rightarrow> CoreCoord) \<Rightarrow> nat \<Rightarrow> nat \<Rightarrow> CoreRange list \<Rightarrow> bool" where
  "run_of f k i rs \<longleftrightarrow> distinct rs \<and> (\<forall>r\<in>set rs. small_range r) \<and> disjoint_ranges (set rs) \<and> k \<le> i \<and>
     cells_of rs = f ` {k..<i}"

lemma covers_run_of: "xy_order_ok lt \<Longrightarrow> covers lt X k i rs \<Longrightarrow> run_of (row_core X) k i rs"
  by (simp add: covers_def run_of_def rsorted_distinct)

lemma run_of_swap: "run_of (row_core w) k i rs \<Longrightarrow> run_of (col_core w) k i (map rswap rs)"
proof -
  assume r: "run_of (row_core w) k i rs"
  have inj: "inj_on rswap A" for A by (rule inj_on_inverseI [of _ rswap]) simp
  have "disjoint_ranges (rswap ` set rs)"
    unfolding disjoint_ranges_def
  proof (intro ballI impI)
    fix a b assume ab: "a \<in> rswap ` set rs" "b \<in> rswap ` set rs" "a \<noteq> b"
    then obtain c d where cd: "a = rswap c" "b = rswap d" "c \<in> set rs" "d \<in> set rs" "c \<noteq> d" by auto
    then have "cells c \<inter> cells d = {}" using r by (auto simp: run_of_def disjoint_ranges_def)
    then show "cells a \<inter> cells b = {}" unfolding cd cells_swap by auto
  qed
  moreover have "cswap ` row_core w ` {k..<i} = col_core w ` {k..<i}" by (simp add: image_image row_core_swap)
  ultimately show ?thesis
    using r inj by (auto simp: run_of_def distinct_map cells_of_swap small_range_def valid_range_def)
qed

lemma nth_core_simps [simp]: "nth_core True g = row_core (cx g)" "nth_core False g = col_core (cy g)"
  by (simp_all add: nth_core_def fun_eq_iff)

lemma run_of_num_cores:
  assumes "run_of (nth_core rw g) k i rs" and "i - k < 2 ^ 32"
  shows "set_num_cores rs = i - k" "card (cells_of rs) = i - k"
proof -
  have "inj_on (nth_core rw g) {k..<i}"
    by (auto simp: inj_on_def nth_core_def dest: row_core_inj col_core_inj)
  then have c: "card (cells_of rs) = i - k" using assms(1) by (simp add: run_of_def card_image)
  then show "card (cells_of rs) = i - k" .
  show "set_num_cores rs = i - k" using disjoint_num_cores [of rs] assms c by (simp add: run_of_def)
qed

lemma run_of_new_set: "run_of f k i rs \<Longrightarrow> new_CoreRangeSet rs = Inr rs"
  using new_CoreRangeSet_iff [of rs] by (auto simp: run_of_def small_range_def)

lemma grid_ok_sym: "grid_ok X Y \<longleftrightarrow> grid_ok Y X"
  by (auto simp: grid_ok_def mult.commute)

lemma corerange_set_run:
  assumes ord: "xy_order_ok lt" and g: "grid_ok (cx grid) (cy grid)" and s: "cx start < cx grid" "cy start < cy grid"
    and n: "core_index rw grid start + n \<le> cx grid * cy grid"
  shows "\<exists>rs. num_cores_to_corerange_set_from lt start n grid rw = Inr rs \<and>
    run_of (nth_core rw grid) (core_index rw grid start) (core_index rw grid start + n) rs"
proof (cases rw)
  case True
  have n': "cy start * cx grid + cx start + n \<le> cx grid * cy grid" using n True by (simp add: core_index_def)
  obtain rs where "num_cores_to_corerange_set_from lt start n grid True = Inr rs"
      "covers lt (cx grid) (cy start * cx grid + cx start) (cy start * cx grid + cx start + n) rs"
    using corerange_set_row [OF ord g s n'] unfolding CoreCoord.collapse by blast
  then show ?thesis using True covers_run_of [OF ord] by (auto simp: core_index_def)
next
  case False
  have n': "cx start * cy grid + cy start + n \<le> cy grid * cx grid"
    using n False by (simp add: core_index_def mult.commute)
  note row = corerange_set_row [OF swap_less_ok [OF ord] grid_ok_sym [THEN iffD1, OF g] s(2,1) n']
  obtain rs where 1: "num_cores_to_corerange_set_from (swap_less lt) (cswap start) n (cswap grid) True = Inr rs"
      "covers (swap_less lt) (cy grid) (cx start * cy grid + cy start) (cx start * cy grid + cy start + n) rs"
    using row unfolding cswap_def by blast
  have "num_cores_to_corerange_set_from lt start n grid False = Inr (map rswap rs)"
    using 1(1) corerange_set_swap [of lt start n grid] by simp
  then show ?thesis
    using False run_of_swap [OF covers_run_of [OF swap_less_ok [OF ord] 1(2)]]
    by (simp add: core_index_def)
qed

subsection \<open>split_work_to_cores\<close>

lemma row_core_last: "0 < X \<Longrightarrow> 0 < Y \<Longrightarrow> row_core X (X * Y - 1) = CoreCoord (X - 1) (Y - 1)"
proof -
  assume X: "0 < X" and Y: "0 < Y"
  have "X * Y = (Y - 1) * X + X" using Y by (cases Y) simp_all
  then have "X * Y - 1 = (Y - 1) * X + (X - 1)" using X by linarith
  then show ?thesis using row_core_at [of "X - 1" X "Y - 1"] X by simp
qed

lemma row_leftover_correct:
  assumes ord: "xy_order_ok lt" and g: "grid_ok X Y" and n: "0 < n" "n < X * Y"
  shows "\<exists>rs. row_leftover lt X (row_core X (n - 1)) (row_core X (X * Y - 1)) = Inr rs \<and> covers lt X n (X * Y) rs"
proof -
  have b: "X < 2 ^ 31" "Y < 2 ^ 31" "0 < X" "0 < Y" using g n by (auto simp: grid_ok_def intro: Nat.gr0I)
  define x y where "x = (n - 1) mod X" and "y = (n - 1) div X"
  have e1: "row_core X (n - 1) = CoreCoord x y" by (simp add: row_core_def x_def y_def)
  have x: "x < X" and nxy: "n = y * X + x + 1" using b(3) n(1) by (simp_all add: x_def y_def)
  have "y * X < Y * X" using nxy n(2) unfolding mult.commute [of X Y] by linarith
  then have y: "y < Y" by simp
  note end_all = row_core_last [OF b(3,4)]
  let ?stick = "CoreRange (CoreCoord (x + 1) y) (CoreCoord (X - 1) y)"
  have a: "add64 x 1 = x + 1" "add64 y 1 = y + 1" "sub32 X 1 = X - 1" using b x y by (simp_all add: nowrap)
  have stick: "covers lt X n (y * X + X) (set_insert lt ?stick [])" if "x \<noteq> X - 1"
  proof -
    have p: "0 < X - (x + 1)" "x + 1 + (X - (x + 1)) \<le> X" using x that by linarith+
    have r: "x + 1 + (X - (x + 1)) - 1 = X - 1" "y * X + (x + 1) = n" "n + (X - (x + 1)) = y * X + X"
      using x that nxy by linarith+
    have c: "cells ?stick = row_core X ` {n..<y * X + X}"
      using row_segment [OF p, of y] unfolding r .
    have "small_range ?stick" using x that y b unfolding small_range_def by auto
    moreover have "n \<le> y * X + X" using nxy x by linarith
    ultimately show ?thesis using covers_insert [OF ord covers_Nil _ c] by blast
  qed
  have stick_ok: "new_CoreRange (CoreCoord (x + 1) y) (CoreCoord (X - 1) y) = Inr ?stick" if "x \<noteq> X - 1"
    by (rule new_CoreRange_small) (use x that y b in \<open>auto simp: small_range_def\<close>)
  show ?thesis
  proof (cases "y = Y - 1")
    case True
    have "y * X + X = X * Y" using True b(4) by (cases Y) simp_all
    moreover have xn: "x \<noteq> X - 1" using nxy n(2) calculation x by linarith
    ultimately have "covers lt X n (X * Y) (set_insert lt ?stick [])" using stick by simp
    moreover have "row_leftover lt X (CoreCoord x y) (CoreCoord (X - 1) (Y - 1)) = Inr (set_insert lt ?stick [])"
      unfolding row_leftover_def CoreCoord.sel a True [symmetric] stick_ok [OF xn] using xn by simp
    ultimately show ?thesis unfolding e1 end_all by blast
  next
    case False
    let ?blk = "CoreRange (CoreCoord 0 (y + 1)) (CoreCoord (X - 1) (Y - 1))"
    have m: "0 < Y - (y + 1)" "y + 1 + (Y - (y + 1)) - 1 = Y - 1" "y + 1 + (Y - (y + 1)) = Y"
      using y False by linarith+
    have c: "cells ?blk = row_core X ` {(y + 1) * X..<X * Y}"
      using row_full [OF b(3) m(1), of "y + 1"] unfolding m(2,3) by (simp add: mult.commute)
    have sm: "small_range ?blk" using b y False unfolding small_range_def by auto
    have e: "(y + 1) * X = y * X + X" by simp
    have le: "(y + 1) * X \<le> X * Y" using y by (metis Suc_eq_plus1 Suc_leI mult.commute mult_le_mono1)
    define g2 where "g2 = (if x \<noteq> X - 1 then set_insert lt ?stick [] else [])"
    have "covers lt X n ((y + 1) * X) g2"
    proof (cases "x = X - 1")
      case True
      then have "n = (y + 1) * X" using nxy b(3) by simp
      then show ?thesis by (simp add: g2_def True)
    next
      case False
      then show ?thesis using stick unfolding e by (simp add: g2_def)
    qed
    then have "covers lt X n (X * Y) (set_insert lt ?blk g2)" by (rule covers_insert [OF ord _ sm c le])
    moreover have "row_leftover lt X (CoreCoord x y) (CoreCoord (X - 1) (Y - 1)) = Inr (set_insert lt ?blk g2)"
      using False stick_ok new_CoreRange_small [OF sm] unfolding row_leftover_def CoreCoord.sel a g2_def by simp
    ultimately show ?thesis unfolding e1 end_all by blast
  qed
qed

lemma corerange_set_row_last:
  assumes ord: "xy_order_ok lt" and g: "grid_ok X Y" and n: "0 < n" "n \<le> X * Y"
  shows "\<exists>rs. num_cores_to_corerange_set lt n (CoreCoord X Y) True = Inr rs \<and> covers lt X 0 n rs \<and> rs \<noteq> [] \<and>
    end_coord (last rs) = row_core X (n - 1)"
proof -
  have b: "X < 2 ^ 31" "Y < 2 ^ 31" "X * Y < 2 ^ 32" "0 < X" "0 < Y"
    using g n by (auto simp: grid_ok_def intro: Nat.gr0I)
  have u: "u32 X = X" "u32 Y = Y" using b by (simp_all add: nowrap)
  have n': "n \<le> Y * X" "n < 2 ^ 32" using n b by (simp_all add: mult.commute)
  have "num_cores_to_corerange_set_from lt (CoreCoord 0 0) n (CoreCoord X Y) True = row_blocks lt X (CoreCoord 0 0) n"
    using b n(2) available_row [OF g b(4,5)]
    unfolding num_cores_to_corerange_set_from_def CoreCoord.sel u Let_def if_True by simp
  moreover have "\<exists>rs. num_cores_to_corerange_set_from lt (CoreCoord 0 0) n (CoreCoord X Y) True = Inr rs \<and>
      covers lt X 0 n rs"
    using corerange_set_row [OF ord g b(4,5), of n] n(2) by simp
  ultimately show ?thesis
    using row_blocks_last [OF ord b(1,4) n'(1) n(1) b(2) n'(2)] unfolding num_cores_to_corerange_set_def by auto
qed

lemma new_CoreRangeSet_Nil: "new_CoreRangeSet [] = Inr []"
  by (simp add: new_CoreRangeSet_def)

text \<open>The shape of a split: the first \<open>m\<close> of the \<open>N\<close> cores do one unit more.\<close>

definition split_ok :: "(nat \<Rightarrow> CoreCoord) \<Rightarrow> nat \<Rightarrow> nat \<Rightarrow>
    nat \<times> CoreRange list \<times> CoreRange list \<times> CoreRange list \<times> nat \<times> nat \<Rightarrow> bool" where
  "split_ok f N units res = (case res of (n, all, g1, g2, u1, u2) \<Rightarrow> n = N \<and> run_of f 0 N all \<and>
     (if units mod N = 0 then run_of f 0 N g1 \<and> g2 = [] \<and> u1 = units div N \<and> u2 = 0
      else run_of f 0 (units mod N) g1 \<and> run_of f (units mod N) N g2 \<and> u1 = units div N + 1 \<and> u2 = units div N))"

lemma split_row:
  assumes ord: "xy_order_ok lt" and g: "grid_ok X Y" and pos: "0 < X" "0 < Y" and units: "0 < units" "units < 2 ^ 32"
  shows "\<exists>res. split_work_to_cores lt (CoreCoord X Y) units True = Inr res \<and>
    split_ok (row_core X) (min units (X * Y)) units res"
proof -
  have b: "X < 2 ^ 31" "Y < 2 ^ 31" "X * Y < 2 ^ 32" using g by (simp_all add: grid_ok_def)
  have u: "u32 X = X" "u32 Y = Y" "mul32 X Y = X * Y" using b by (simp_all add: nowrap)
  define N where "N = min units (X * Y)"
  have N: "0 < N" "N \<le> X * Y" using units pos by (simp_all add: N_def)
  obtain all where all: "num_cores_to_corerange_set lt N (CoreCoord X Y) True = Inr all" "covers lt X 0 N all"
      "all \<noteq> []" "end_coord (last all) = row_core X (N - 1)"
    using corerange_set_row_last [OF ord g N] by blast
  note ra = covers_run_of [OF ord all(2)]
  note start = split_work_to_cores_def Let_def CoreCoord.sel u N_def [symmetric] all(1) rbind_Inr
    run_of_new_set [OF ra]
  show ?thesis
  proof (cases "units mod N = 0")
    case True
    have "run_of (row_core X) 0 0 []" by (simp add: run_of_def disjoint_ranges_def cells_of_def)
    note e = run_of_new_set [OF this]
    have "split_work_to_cores lt (CoreCoord X Y) units True = Inr (N, all, all, [], units div N, 0)"
      unfolding start using N True by (simp add: run_of_new_set [OF ra] e)
    then show ?thesis using ra True by (simp add: split_ok_def N_def)
  next
    case False
    then have NXY: "N = X * Y" by (cases "units \<le> X * Y") (simp_all add: N_def min_def)
    define m where "m = units mod N"
    have m: "0 < m" "m \<le> X * Y" "m < X * Y" using False N by (simp_all add: m_def NXY less_imp_le)
    obtain g1 where g1: "num_cores_to_corerange_set lt m (CoreCoord X Y) True = Inr g1" "covers lt X 0 m g1"
        "g1 \<noteq> []" "end_coord (last g1) = row_core X (m - 1)"
      using corerange_set_row_last [OF ord g m(1,2)] by blast
    obtain g2 where g2: "row_leftover lt X (row_core X (m - 1)) (row_core X (N - 1)) = Inr g2" "covers lt X m N g2"
      using row_leftover_correct [OF ord g m(1,3)] unfolding NXY by blast
    note r1 = covers_run_of [OF ord g1(2)] and r2 = covers_run_of [OF ord g2(2)]
    have "units div N + 1 < 2 ^ 32"
    proof -
      have "N \<noteq> 1" using False by auto
      then have "2 \<le> N" using N(1) by linarith
      then have "units div N \<le> units div 2" by (rule div_le_mono2 [rotated]) simp
      then show ?thesis using units(2) by auto
    qed
    then have "add32 (units div N) 1 = units div N + 1" by (simp only: nowrap)
    then have "split_work_to_cores lt (CoreCoord X Y) units True = Inr (N, all, g1, g2, units div N + 1, units div N)"
      unfolding start m_def [symmetric] using N m(1) all(3) g1 g2(1) all(4)
      by (simp add: run_of_new_set [OF r1] run_of_new_set [OF r2])
    then show ?thesis using ra r1 r2 False by (simp add: split_ok_def N_def m_def)
  qed
qed

abbreviation swap_split :: "nat \<times> CoreRange list \<times> CoreRange list \<times> CoreRange list \<times> nat \<times> nat \<Rightarrow>
    nat \<times> CoreRange list \<times> CoreRange list \<times> CoreRange list \<times> nat \<times> nat" where
  "swap_split \<equiv> \<lambda>(n, all, g1, g2, u). (n, map rswap all, map rswap g1, map rswap g2, u)"

lemma col_leftover_swap:
  "col_leftover lt h (cswap e1) (cswap e2) = rmap (map rswap) (row_leftover (swap_less lt) h e1 e2)"
proof -
  obtain x1 y1 x2 y2 where e: "e1 = CoreCoord x1 y1" "e2 = CoreCoord x2 y2" by (metis CoreCoord.exhaust)
  show ?thesis
    unfolding col_leftover_def row_leftover_def e new_CoreRange_def cswap_simps CoreCoord.sel
    by (cases "y1 = y2 \<and> x1 \<noteq> x2"; cases "x1 = sub32 h 1")
      (simp_all add: check_def range_less_def rbind_def conj_commute cong: conj_cong)
qed

lemma split_swap:
  assumes "split_work_to_cores (swap_less lt) (cswap g) units True = Inr res"
  shows "split_work_to_cores lt g units False = Inr (swap_split res)"
proof -
  have c: "num_cores_to_corerange_set lt n g False =
      rmap (map rswap) (num_cores_to_corerange_set (swap_less lt) n (cswap g) True)" for n
    unfolding num_cores_to_corerange_set_def corerange_set_swap [of lt] by simp
  have m: "mul32 (u32 (cx g)) (u32 (cy g)) = mul32 (u32 (cy g)) (u32 (cx g))" by (simp add: wmul_def mult.commute)
  have l: "end_coord (last (map rswap rs)) = cswap (end_coord (last rs))" if "rs \<noteq> []" for rs
    using that by (simp add: last_map)
  show ?thesis
    using assms unfolding split_work_to_cores_def Let_def c m cswap_simps
    by (auto simp: new_CoreRangeSet_swap col_leftover_swap l rbind_rmap new_CoreRangeSet_Nil
        dest!: rbind_eq_Inr [THEN iffD1] split: if_splits)
qed

lemma split_run:
  assumes ord: "xy_order_ok lt" and g: "grid_ok (cx grid) (cy grid)" and pos: "0 < cx grid" "0 < cy grid"
    and units: "0 < units" "units < 2 ^ 32"
  shows "\<exists>res. split_work_to_cores lt grid units rw = Inr res \<and>
    split_ok (nth_core rw grid) (min units (cx grid * cy grid)) units res"
proof (cases rw)
  case True
  then show ?thesis using split_row [OF ord g pos units] by simp
next
  case False
  obtain res where r: "split_work_to_cores (swap_less lt) (cswap grid) units True = Inr res"
      "split_ok (row_core (cy grid)) (min units (cy grid * cx grid)) units res"
    using split_row [OF swap_less_ok [OF ord] grid_ok_sym [THEN iffD1, OF g] pos(2,1) units] unfolding cswap_def by blast
  have "split_ok (col_core (cy grid)) (min units (cx grid * cy grid)) units (swap_split res)"
    using r(2) by (cases res) (auto simp: split_ok_def mult.commute [of "cy grid"] intro: run_of_swap split: if_splits)
  then show ?thesis using split_swap [OF r(1)] False by auto
qed

subsection \<open>Properties\<close>

text \<open>(C32) \<^verbatim>\<open>num_cores_to_corerange_set\<close> with a start core: when enough cores are left in the grid, counted from the start
  core in row-major or column-major order, the result is a set of disjoint ranges that holds exactly the
  requested number of cores, the next ones in that order; otherwise the call is refused with a
  \<^verbatim>\<open>TT_FATAL\<close>.\<close>

theorem num_cores_to_corerange_set_exact:
  assumes "xy_order_ok lt" and "grid_ok (cx grid) (cy grid)" and "cx start < cx grid" and "cy start < cy grid"
    and "n < 2 ^ 32"
  shows "if core_index rw grid start + n \<le> cx grid * cy grid
    then \<exists>rs. num_cores_to_corerange_set_from lt start n grid rw = Inr rs \<and> disjoint_ranges (set rs) \<and>
      set_num_cores rs = n \<and>
      cells_of rs = nth_core rw grid ` {core_index rw grid start..<core_index rw grid start + n}
    else \<exists>m. num_cores_to_corerange_set_from lt start n grid rw = Inl (TT_FATAL m)"
proof (cases "core_index rw grid start + n \<le> cx grid * cy grid")
  case True
  then obtain rs where rs: "num_cores_to_corerange_set_from lt start n grid rw = Inr rs"
      "run_of (nth_core rw grid) (core_index rw grid start) (core_index rw grid start + n) rs"
    using corerange_set_run [OF assms(1-4)] by blast
  have "set_num_cores rs = n" using run_of_num_cores(1) [OF rs(2)] assms(5) by simp
  then show ?thesis using True rs by (auto simp: run_of_def)
next
  case False
  have b: "u32 (cx grid) = cx grid" "u32 (cy grid) = cy grid" using assms(2) by (simp_all add: grid_ok_def nowrap)
  have i: "cy start * cx grid + cx start < cx grid * cy grid" "cx start * cy grid + cy start < cx grid * cy grid"
    using index_less [OF assms(3,4)] index_less [OF assms(4,3)] by (simp_all add: mult.commute)
  have c: "rw \<Longrightarrow> \<not> n \<le> cx grid * cy grid - (cy start * cx grid + cx start)"
    "\<not> rw \<Longrightarrow> \<not> n \<le> cx grid * cy grid - (cx start * cy grid + cy start)"
    using False i unfolding core_index_def by simp_all
  have "num_cores_to_corerange_set_from lt start n grid rw =
      Inl (TT_FATAL ''Target number of cores is greater than total number of available cores'')"
    using c assms(3,4) available_row [OF assms(2-4)] available_row [OF grid_ok_sym [THEN iffD1, OF assms(2)] assms(4,3)]
    unfolding num_cores_to_corerange_set_from_def b Let_def core_index_def
    by (cases rw) (simp_all add: mult.commute [of "cy grid"])
  then show ?thesis using False by auto
qed

theorem num_cores_to_corerange_set_exact_witness:
  "(\<exists>rs. num_cores_to_corerange_set_from lex_less (CoreCoord 1 1) 9 (CoreCoord 4 4) False = Inr rs \<and>
     disjoint_ranges (set rs) \<and> set_num_cores rs = 9 \<and>
     cells_of rs = nth_core False (CoreCoord 4 4) ` {5..<14}) \<and>
   (\<exists>m. num_cores_to_corerange_set_from lex_less (CoreCoord 1 1) 12 (CoreCoord 4 4) False = Inl (TT_FATAL m))"
  using num_cores_to_corerange_set_exact [OF lex_less_ok, of "CoreCoord 4 4" "CoreCoord 1 1" 9 False]
    num_cores_to_corerange_set_exact [OF lex_less_ok, of "CoreCoord 4 4" "CoreCoord 1 1" 12 False]
  by (simp add: grid_ok_def core_index_def)

text \<open>(C16) \<^verbatim>\<open>split_work_to_cores\<close> never fails on a non-empty grid and a positive number of units.  It uses as many
  cores as there are units, at most the whole grid; the two groups partition those cores; a core of the
  first group does one unit more than one of the second; and the work of the groups adds up to the units
  to divide.\<close>

theorem split_work_to_cores_partition:
  assumes "xy_order_ok lt" and "grid_ok (cx grid) (cy grid)" and "0 < cx grid" and "0 < cy grid"
    and "0 < units" and "units < 2 ^ 32"
  shows "\<exists>all g1 g2 u1 u2. split_work_to_cores lt grid units rw =
      Inr (min units (cx grid * cy grid), all, g1, g2, u1, u2) \<and>
    disjoint_ranges (set all) \<and> disjoint_ranges (set g1) \<and> disjoint_ranges (set g2) \<and>
    cells_of all = nth_core rw grid ` {0..<min units (cx grid * cy grid)} \<and>
    cells_of g1 \<union> cells_of g2 = cells_of all \<and> cells_of g1 \<inter> cells_of g2 = {} \<and>
    (g2 \<noteq> [] \<longrightarrow> u1 = u2 + 1) \<and>
    card (cells_of g1) * u1 + card (cells_of g2) * u2 = units"
proof -
  define N where "N = min units (cx grid * cy grid)"
  let ?f = "nth_core rw grid"
  obtain n all g1 g2 u1 u2 where r: "split_work_to_cores lt grid units rw = Inr (n, all, g1, g2, u1, u2)"
      "split_ok ?f N units (n, all, g1, g2, u1, u2)"
    using split_run [OF assms] unfolding N_def by (metis prod.exhaust)
  have N: "0 < N" "N < 2 ^ 32" using assms by (auto simp: N_def grid_ok_def)
  have n: "n = N" "run_of ?f 0 N all" using r(2) by (simp_all add: split_ok_def)
  define m where "m = (if units mod N = 0 then N else units mod N)"
  have m: "m \<le> N" using N(1) by (simp add: m_def less_imp_le)
  have g1: "run_of ?f 0 m g1" using r(2) by (simp add: split_ok_def m_def split: if_splits)
  have "run_of ?f N N []" by (simp add: run_of_def disjoint_ranges_def cells_of_def)
  then have g2: "run_of ?f m N g2" using r(2) by (simp add: split_ok_def m_def split: if_splits)
  have c: "card (cells_of g1) = m" "card (cells_of g2) = N - m"
    using run_of_num_cores(2) [OF g1] run_of_num_cores(2) [OF g2] m N(2) by auto
  have "m * u1 + (N - m) * u2 = units"
  proof (cases "units mod N = 0")
    case True
    then show ?thesis using r(2) by (auto simp: split_ok_def m_def dest: dvd_mult_div_cancel)
  next
    case False
    then have "m * u1 + (N - m) * u2 = N * u2 + m" "u2 = units div N" "m = units mod N"
      using r(2) m by (simp_all add: split_ok_def m_def algebra_simps diff_mult_distrib2)
    then show ?thesis by simp
  qed
  moreover have "?f ` {0..<m} \<union> ?f ` {m..<N} = ?f ` {0..<N}"
    using m by (metis image_Un ivl_disj_un_two(3) le0)
  moreover have "?f ` {0..<m} \<inter> ?f ` {m..<N} = {}"
    by (auto simp: nth_core_def dest: row_core_inj col_core_inj split: if_splits)
  moreover have "g2 \<noteq> [] \<longrightarrow> u1 = u2 + 1" using r(2) by (simp add: split_ok_def split: if_splits)
  ultimately show ?thesis using r(1) n g1 g2 c unfolding N_def [symmetric] by (auto simp: run_of_def)
qed

theorem split_work_to_cores_partition_witness:
  "\<exists>all g1 g2 u1 u2. split_work_to_cores lex_less (CoreCoord 4 3) 31 True =
      Inr (12, all, g1, g2, u1, u2) \<and>
    disjoint_ranges (set all) \<and> disjoint_ranges (set g1) \<and> disjoint_ranges (set g2) \<and>
    cells_of all = nth_core True (CoreCoord 4 3) ` {0..<12} \<and>
    cells_of g1 \<union> cells_of g2 = cells_of all \<and> cells_of g1 \<inter> cells_of g2 = {} \<and>
    (g2 \<noteq> [] \<longrightarrow> u1 = u2 + 1) \<and>
    card (cells_of g1) * u1 + card (cells_of g2) * u2 = 31"
  using split_work_to_cores_partition [OF lex_less_ok, of "CoreCoord 4 3" 31 True] by (simp add: grid_ok_def)

end
