(* ===== verification/Tilize.thy ===== *)
theory Tilize
  imports Metal_Prelude
begin

text \<open>
  Tile layout: \<^verbatim>\<open>tt_metal/common/tilize_untilize.hpp\<close>.  \<^verbatim>\<open>tilize\<close> turns row-major blocks of \<^verbatim>\<open>m\<close> by \<^verbatim>\<open>n\<close> elements
  into 32 by 32 tiles of four 16 by 16 faces, \<^verbatim>\<open>untilize\<close> turns them back.  Both only move elements, so the
  element type is a parameter (the source instantiates it with \<^verbatim>\<open>bfloat16\<close> only).  The loops compute, in order,
  the indices that are read; \<open>gather\<close> reads them, and a read past the end of the vector is \<open>Undefined\<close>.  Index
  variables are \<^verbatim>\<open>uint32_t\<close>.
\<close>

subsection \<open>The code\<close>

definition gather :: "'a list \<Rightarrow> nat list \<Rightarrow> 'a list result" where
  "gather input idxs =
     (if list_all (\<lambda>i. i < length input) idxs then Inr (map (\<lambda>i. input ! i) idxs)
      else Inl (Undefined ''vector access out of range''))"

definition write_face :: "nat \<Rightarrow> nat \<Rightarrow> nat \<Rightarrow> nat \<Rightarrow> nat list" where
  "write_face face_height face_width face_idx n =
     concat (map (\<lambda>i. map (\<lambda>j. u32 (face_idx + i * n + j)) [0..<face_width]) [0..<face_height])"

definition tilize_tile :: "nat \<Rightarrow> nat \<Rightarrow> nat list" where
  "tilize_tile n row_tile_start =
     (let face0_id = row_tile_start;
          face1_id = u32 (face0_id + 16);
          face2_id = u32 (face0_id + n * 16);
          face3_id = u32 (face2_id + 16)
      in write_face 16 16 face0_id n @ write_face 16 16 face1_id n @
         write_face 16 16 face2_id n @ write_face 16 16 face3_id n)"

definition tilize_indices :: "nat \<Rightarrow> nat \<Rightarrow> nat \<Rightarrow> nat list" where
  "tilize_indices num_blocks m n =
     concat (map (\<lambda>i.
       concat (map (\<lambda>row_tile.
         concat (map (\<lambda>col_tile.
           tilize_tile n (u32 (i * mul32 m n + row_tile * mul32 32 n + col_tile * 32)))
         [0..<n div 32]))
       [0..<m div 32]))
     [0..<num_blocks])"

definition tilize_guards :: "'a list \<Rightarrow> nat \<Rightarrow> nat \<Rightarrow> unit result" where
  "tilize_guards input m n =
     rbind (check (length input > 0 \<and> m > 0 \<and> n > 0) (TT_FATAL ''None of the input size, m, nor n can be 0'')) (\<lambda>_.
     rbind (check (mul32 m n \<noteq> 0) (Undefined ''modulo by zero'')) (\<lambda>_.
     rbind (check (length input mod mul32 m n = 0) (TT_FATAL ''Input size must be divisible by m  and n'')) (\<lambda>_.
     check (m mod 32 = 0 \<and> n mod 32 = 0) (TT_FATAL ''m and n must be divisible by 32''))))"

definition tilize :: "'a list \<Rightarrow> nat \<Rightarrow> nat \<Rightarrow> 'a list result" where
  "tilize input m n =
     rbind (tilize_guards input m n) (\<lambda>_.
     gather input (tilize_indices (u32 (length input div mul32 m n)) m n))"

definition untilize_row :: "nat \<Rightarrow> nat \<Rightarrow> nat \<Rightarrow> nat \<Rightarrow> nat \<Rightarrow> nat list" where
  "untilize_row face_height face_width tile_idx tile_width n =
     concat (map (\<lambda>m.
       concat (map (\<lambda>i.
         concat (map (\<lambda>j.
           let row_start = u32 (tile_idx + m * (face_height * face_width * 2) + i * face_width +
                                j * (face_height * face_width * 4))
           in map (\<lambda>k. u32 (row_start + k)) [0..<face_width] @
              map (\<lambda>k. u32 (row_start + face_height * face_width + k)) [0..<face_width])
         [0..<n div tile_width]))
       [0..<face_height]))
     [0..<2])"

definition untilize_indices :: "nat \<Rightarrow> nat \<Rightarrow> nat \<Rightarrow> nat list" where
  "untilize_indices num_blocks m n =
     concat (map (\<lambda>i.
       concat (map (\<lambda>row_tile. untilize_row 16 16 (u32 (i * mul32 m n + row_tile * mul32 32 n)) 32 n)
       [0..<m div 32]))
     [0..<num_blocks])"

definition untilize :: "'a list \<Rightarrow> nat \<Rightarrow> nat \<Rightarrow> 'a list result" where
  "untilize input m n =
     rbind (tilize_guards input m n) (\<lambda>_.
     gather input (untilize_indices (u32 (length input div mul32 m n)) m n))"

subsection \<open>Loops of equal length\<close>

lemma length_concat_uniform:
  "(\<And>i. i < k \<Longrightarrow> length (f i) = l) \<Longrightarrow> length (concat (map f [0..<k])) = k * l"
  by (induction k) auto

lemma nth_concat_uniform:
  assumes "\<And>i. i < k \<Longrightarrow> length (f i) = l" and "a < k" and "b < l"
  shows "concat (map f [0..<k]) ! (a * l + b) = f a ! b"
  using assms
proof (induction k)
  case (Suc k)
  have len: "length (concat (map f [0..<k])) = k * l" by (rule length_concat_uniform) (simp add: Suc.prems(1))
  show ?case
  proof (cases "a < k")
    case True
    have "a * l + b < k * l"
    proof -
      have "a * l + b < Suc a * l" using Suc.prems(3) by simp
      also have "\<dots> \<le> k * l" using True by (intro mult_le_mono1) simp
      finally show ?thesis .
    qed
    then show ?thesis using Suc True len by (simp add: nth_append)
  next
    case False
    then have "a = k" using Suc.prems(2) by simp
    then show ?thesis using len Suc.prems(3) by (simp add: nth_append)
  qed
qed simp

lemma mult_add_less:
  fixes a b c d :: nat
  assumes "a < c" and "b < d"
  shows "a * d + b < c * d"
proof -
  have "a * d + b < Suc a * d" using assms(2) by simp
  also have "\<dots> \<le> c * d" using assms(1) by (intro mult_le_mono1) simp
  finally show ?thesis .
qed

subsection \<open>The two layouts\<close>

text \<open>Where the element in row \<open>y\<close> and column \<open>x\<close> of tile \<open>(rt, ct)\<close> of block \<open>b\<close> is, in row-major order and in tile
  order.\<close>

definition rm_pos :: "nat \<Rightarrow> nat \<Rightarrow> nat \<Rightarrow> nat \<Rightarrow> nat \<Rightarrow> nat \<Rightarrow> nat \<Rightarrow> nat" where
  "rm_pos m n b rt y ct x = (b * m + (rt * 32 + y)) * n + (ct * 32 + x)"

definition tile_pos :: "nat \<Rightarrow> nat \<Rightarrow> nat \<Rightarrow> nat \<Rightarrow> nat \<Rightarrow> nat \<Rightarrow> nat \<Rightarrow> nat" where
  "tile_pos m n b rt y ct x =
     ((b * (m div 32) + rt) * (n div 32) + ct) * 1024 +
     ((2 * (y div 16) + x div 16) * 256 + ((y mod 16) * 16 + x mod 16))"

text \<open>The shapes the functions accept.\<close>

definition shape_ok :: "nat \<Rightarrow> nat \<Rightarrow> nat \<Rightarrow> nat \<Rightarrow> bool" where
  "shape_ok len num_blocks m n \<longleftrightarrow> m mod 32 = 0 \<and> n mod 32 = 0 \<and> 0 < m \<and> 0 < n \<and> 0 < num_blocks \<and>
     len = num_blocks * m * n \<and> len < 2 ^ 32"

lemma shape_len: "shape_ok len B m n \<Longrightarrow> len = B * (m div 32) * (n div 32) * 1024"
  by (auto simp: shape_ok_def mod_eq_0_iff_dvd elim!: dvdE)

lemma face_index_less:
  fixes x y :: nat
  assumes "y < 32" and "x < 32"
  shows "(2 * (y div 16) + x div 16) * 256 + ((y mod 16) * 16 + x mod 16) < 1024"
proof -
  have "(y mod 16) * 16 + x mod 16 < 16 * 16" by (rule mult_add_less) auto
  moreover have "y div 16 \<le> 1" "x div 16 \<le> 1" using assms by auto
  moreover have "(2 * a + b) * 256 + c < 1024" if "a \<le> 1" "b \<le> 1" "c < 16 * 16" for a b c :: nat using that by simp
  ultimately show ?thesis by blast
qed

lemma shape_bounds:
  assumes "shape_ok len B m n" and "b < B" and "rt < m div 32" and "y < 32" and "ct < n div 32" and "x < 32"
  shows "rm_pos m n b rt y ct x < len" and "tile_pos m n b rt y ct x < len"
proof -
  have mn: "m = 32 * (m div 32)" "n = 32 * (n div 32)" "len = B * m * n" using assms(1) by (auto simp: shape_ok_def)
  have "rt * 32 + y < m div 32 * 32" by (rule mult_add_less) (use assms in auto)
  then have "rt * 32 + y < m" using mn(1) by simp
  then have 1: "b * m + (rt * 32 + y) < B * m" using assms(2) by (intro mult_add_less)
  have "ct * 32 + x < n div 32 * 32" by (rule mult_add_less) (use assms in auto)
  then have "ct * 32 + x < n" using mn(2) by simp
  with 1 show "rm_pos m n b rt y ct x < len" unfolding rm_pos_def mn(3) by (rule mult_add_less)
  have 2: "b * (m div 32) + rt < B * (m div 32)" using assms by (intro mult_add_less)
  have 3: "(b * (m div 32) + rt) * (n div 32) + ct < B * (m div 32) * (n div 32)" using 2 assms by (intro mult_add_less)
  show "tile_pos m n b rt y ct x < len"
    unfolding tile_pos_def shape_len [OF assms(1)] 
    using 3 face_index_less [OF assms(4,6)] by (rule mult_add_less)
qed

text \<open>Every position is one of a block, tile, row and column.\<close>

lemma rm_pos_cases:
  assumes "shape_ok len B m n" and "p < len"
  obtains b rt y ct x where "b < B" "rt < m div 32" "y < 32" "ct < n div 32" "x < 32" "p = rm_pos m n b rt y ct x"
proof -
  have mn: "m mod 32 = 0" "n mod 32 = 0" "0 < m" "0 < n" "len = B * m * n" using assms(1) by (auto simp: shape_ok_def)
  define r c where "r = p div n" and "c = p mod n"
  have p: "p = r * n + c" "c < n" using mn(4) by (simp_all add: r_def c_def)
  have r: "r < B * m" using assms(2) unfolding mn(5) r_def by (simp add: less_mult_imp_div_less)
  define b r' where "b = r div m" and "r' = r mod m"
  have b: "r = b * m + r'" "r' < m" "b < B" using mn(3) r by (simp_all add: b_def r'_def less_mult_imp_div_less)
  have 1: "r' div 32 < m div 32" "c div 32 < n div 32"
    using b(2) p(2) mn(1,2) by (auto elim!: dvdE simp: mod_eq_0_iff_dvd div_less_iff_less_mult)
  have 2: "p = rm_pos m n b (r' div 32) (r' mod 32) (c div 32) (c mod 32)" by (simp add: rm_pos_def p(1) b(1))
  show thesis by (rule that [OF b(3) 1(1) _ 1(2) _ 2]) simp_all
qed

lemma tile_pos_cases:
  assumes "shape_ok len B m n" and "p < len"
  obtains b rt y ct x where "b < B" "rt < m div 32" "y < 32" "ct < n div 32" "x < 32" "p = tile_pos m n b rt y ct x"
proof -
  have mn: "m = 32 * (m div 32)" "n = 32 * (n div 32)" "0 < m div 32" "0 < n div 32" "len = B * m * n"
    using assms(1) by (auto simp: shape_ok_def)
  define t q where "t = p div 1024" and "q = p mod 1024"
  have p: "p = t * 1024 + q" "q < 1024" by (simp_all add: t_def q_def)
  have "p < B * (m div 32) * (n div 32) * 1024" using assms(2) shape_len [OF assms(1)] by simp
  then have t: "t < B * (m div 32) * (n div 32)" unfolding t_def by (rule less_mult_imp_div_less)
  define s ct where "s = t div (n div 32)" and "ct = t mod (n div 32)"
  have s: "t = s * (n div 32) + ct" "ct < n div 32" "s < B * (m div 32)"
    using mn(4) t div_mult_mod_eq [of t "n div 32"] by (simp_all add: s_def ct_def less_mult_imp_div_less)
  define b rt where "b = s div (m div 32)" and "rt = s mod (m div 32)"
  have b: "s = b * (m div 32) + rt" "rt < m div 32" "b < B"
    using mn(3) s div_mult_mod_eq [of s "m div 32"] by (simp_all add: b_def rt_def less_mult_imp_div_less)
  define f k where "f = q div 256" and "k = q mod 256"
  have f: "q = f * 256 + k" "f < 4" "k < 256" using p(2) by (simp_all add: f_def k_def)
  let ?y = "16 * (f div 2) + k div 16" and ?x = "16 * (f mod 2) + k mod 16"
  have "k div 16 < 16" using f(3) by simp
  then have d: "?y div 16 = f div 2" "?y mod 16 = k div 16" "?x div 16 = f mod 2" "?x mod 16 = k mod 16" by simp_all
  have "p = tile_pos m n b rt ?y ct ?x" unfolding tile_pos_def d p(1) s(1) b(1) f(1) by simp
  moreover have "?y < 32" "?x < 32"
  proof -
    have "f div 2 \<le> 1" "f mod 2 \<le> 1" using f(2) by simp_all
    then show "?y < 32" "?x < 32" using \<open>k div 16 < 16\<close> by simp_all
  qed
  ultimately show thesis using that b s by blast
qed

subsection \<open>What the loops read\<close>

lemma length_write_face [simp]: "length (write_face h w f n) = h * w"
  unfolding write_face_def by (rule length_concat_uniform) simp

lemma length_tilize_tile [simp]: "length (tilize_tile n s) = 1024"
  by (simp add: tilize_tile_def Let_def)

lemma length_tilize_cols [simp]: "length (concat (map (\<lambda>c. tilize_tile n (f c)) [0..<k])) = k * 1024"
  by (rule length_concat_uniform) simp

lemma length_tilize_indices: "length (tilize_indices B m n) = B * (m div 32 * (n div 32 * 1024))"
  unfolding tilize_indices_def by (intro length_concat_uniform) simp_all

lemma length_untilize_row: "length (untilize_row 16 16 t 32 n) = 2 * (16 * (n div 32 * 32))"
  unfolding untilize_row_def by (intro length_concat_uniform) (simp_all add: Let_def)

lemma length_untilize_indices: "length (untilize_indices B m n) = B * (m div 32 * (2 * (16 * (n div 32 * 32))))"
  unfolding untilize_indices_def by (intro length_concat_uniform) (simp_all add: length_untilize_row)

lemma wcast_add_left: "wcast w (wcast w a + b) = wcast w (a + b)"
  by (simp add: wcast_def mod_add_left_eq)

lemma nth_write_face:
  "i < 16 \<Longrightarrow> j < 16 \<Longrightarrow> write_face 16 16 f n ! (i * 16 + j) = u32 (f + i * n + j)"
  unfolding write_face_def by (subst nth_concat_uniform [where l = 16]) simp_all

lemma nth_tilize_tile:
  assumes y: "y < 32" and x: "x < 32"
  shows "tilize_tile n s ! ((2 * (y div 16) + x div 16) * 256 + ((y mod 16) * 16 + x mod 16)) = u32 (s + y * n + x)"
proof -
  let ?i = "y mod 16" and ?j = "x mod 16"
  have ij: "?i * 16 + ?j < 256" using mult_add_less [of ?i 16 ?j 16] by simp
  have w: "write_face 16 16 f n ! (?i * 16 + ?j) = u32 (f + ?i * n + ?j)" for f by (rule nth_write_face) simp_all
  have ww: "write_face 16 16 (u32 f) n ! (?i * 16 + ?j) = u32 (f + ?i * n + ?j)" for f
    using w [of "u32 f"] wcast_add_left [of 32 f "?i * n + ?j"] by (simp add: add.assoc)
  have f3: "u32 (u32 (s + n * 16) + 16) = u32 (s + n * 16 + 16)" by (rule wcast_add_left)
  define a b where "a = y div 16" and "b = x div 16"
  have ab: "a = 0 \<or> a = 1" "b = 0 \<or> b = 1" using y x by (auto simp: a_def b_def)
  have e: "s + y * n + x = s + (a * 16 + ?i) * n + (b * 16 + ?j)" by (simp add: a_def b_def)
  have "s + 16 + ?i * n + ?j = s + ?i * n + (16 + ?j)" "s + n * 16 + ?i * n + ?j = s + (16 + ?i) * n + ?j"
    "s + n * 16 + 16 + ?i * n + ?j = s + (16 + ?i) * n + (16 + ?j)" by (simp_all add: algebra_simps)
  then have "write_face 16 16 s n ! (?i * 16 + ?j) = u32 (s + ?i * n + ?j)"
    "write_face 16 16 (u32 (s + 16)) n ! (?i * 16 + ?j) = u32 (s + ?i * n + (16 + ?j))"
    "write_face 16 16 (u32 (s + n * 16)) n ! (?i * 16 + ?j) = u32 (s + (16 + ?i) * n + ?j)"
    "write_face 16 16 (u32 (s + n * 16 + 16)) n ! (?i * 16 + ?j) = u32 (s + (16 + ?i) * n + (16 + ?j))"
    using w [of s] ww [of "s + 16"] ww [of "s + n * 16"] ww [of "s + n * 16 + 16"] by presburger+
  then have "tilize_tile n s ! ((2 * a + b) * 256 + (?i * 16 + ?j)) = u32 (s + (a * 16 + ?i) * n + (b * 16 + ?j))"
    using ab ij unfolding tilize_tile_def Let_def f3 by (elim disjE) (simp_all add: nth_append)
  then show ?thesis unfolding e a_def b_def by simp
qed

lemma nth_tilize_indices:
  assumes ok: "shape_ok len B m n" and b: "b < B" "rt < m div 32" "y < 32" "ct < n div 32" "x < 32"
  shows "tilize_indices B m n ! tile_pos m n b rt y ct x = rm_pos m n b rt y ct x"
proof -
  let ?k = "(2 * (y div 16) + x div 16) * 256 + ((y mod 16) * 16 + x mod 16)"
  have k: "?k < 1024" using b(3,5) by (rule face_index_less)
  have e: "tile_pos m n b rt y ct x = b * (m div 32 * (n div 32 * 1024)) + (rt * (n div 32 * 1024) + (ct * 1024 + ?k))"
    by (simp add: tile_pos_def algebra_simps)
  have k1: "ct * 1024 + ?k < n div 32 * 1024" using b(4) k by (rule mult_add_less)
  have k2: "rt * (n div 32 * 1024) + (ct * 1024 + ?k) < m div 32 * (n div 32 * 1024)" using b(2) k1 by (rule mult_add_less)
  let ?s = "b * mul32 m n + rt * mul32 32 n + ct * 32"
  have "tilize_indices B m n ! tile_pos m n b rt y ct x = tilize_tile n (u32 ?s) ! ?k"
    unfolding e tilize_indices_def
    apply (subst nth_concat_uniform [where l = "m div 32 * (n div 32 * 1024)"])
       apply (rule length_concat_uniform, simp, rule b(1), rule k2)
    apply (subst nth_concat_uniform [where l = "n div 32 * 1024"])
       apply (simp, rule b(2), rule k1)
    apply (subst nth_concat_uniform [where l = 1024])
       apply (simp, rule b(4), rule k)
    by (rule refl)
  also have "\<dots> = u32 (u32 ?s + y * n + x)" using b(3,5) by (rule nth_tilize_tile)
  also have "\<dots> = u32 (?s + (y * n + x))" by (simp add: wcast_add_left add.assoc)
  also have "\<dots> = u32 (rm_pos m n b rt y ct x)"
  proof -
    have "(?s + (y * n + x)) mod 2 ^ 32 = (b * (m * n) + rt * (32 * n) + ct * 32 + (y * n + x)) mod 2 ^ 32"
      unfolding wmul_def by (intro mod_add_cong mod_mult_right_eq refl)
    then show ?thesis by (simp add: wcast_def rm_pos_def algebra_simps)
  qed
  also have "\<dots> = rm_pos m n b rt y ct x"
    using shape_bounds(1) [OF ok b] ok by (simp add: nowrap shape_ok_def)
  finally show ?thesis .
qed

lemma nth_untilize_row:
  assumes y: "y < 32" and ct: "ct < n div 32" and x: "x < 32"
  shows "untilize_row 16 16 t 32 n ! (y div 16 * (16 * (n div 32 * 32)) + (y mod 16 * (n div 32 * 32) + (ct * 32 + x))) =
    u32 (t + (ct * 1024 + ((2 * (y div 16) + x div 16) * 256 + ((y mod 16) * 16 + x mod 16))))"
proof -
  let ?a = "y div 16" and ?i = "y mod 16" and ?b = "x div 16" and ?j = "x mod 16"
  let ?N = "n div 32 * 32"
  have k1: "ct * 32 + x < ?N" using ct x by (rule mult_add_less)
  have k2: "?i * ?N + (ct * 32 + x) < 16 * ?N" by (rule mult_add_less [OF _ k1]) simp
  have a: "?a < 2" using y by auto
  define r where "r = t + ?a * (16 * 16 * 2) + ?i * 16 + ct * (16 * 16 * 4)"
  have "untilize_row 16 16 t 32 n ! (?a * (16 * ?N) + (?i * ?N + (ct * 32 + x))) =
      (map (\<lambda>k. u32 (u32 r + k)) [0..<16] @ map (\<lambda>k. u32 (u32 r + 16 * 16 + k)) [0..<16]) ! x"
    unfolding untilize_row_def Let_def
    apply (subst nth_concat_uniform [where l = "16 * ?N"])
       apply (intro length_concat_uniform, simp, rule a, rule k2)
    apply (subst nth_concat_uniform [where l = ?N])
       apply (intro length_concat_uniform, simp, simp, rule k1)
    apply (subst nth_concat_uniform [where l = 32])
       apply (simp, rule ct, rule x)
    by (simp only: r_def)
  also have "\<dots> = u32 (u32 r + (?b * 256 + ?j))"
  proof (cases "x < 16")
    case True
    then show ?thesis by (simp add: nth_append)
  next
    case False
    then have "?b = 1" "?j = x - 16" "x - 16 < 16" using x by (simp_all add: mod_if div_if)
    then show ?thesis using False x by (simp add: nth_append add.left_commute [of "240 :: nat"])
  qed
  also have "\<dots> = u32 (r + (?b * 256 + ?j))" by (rule wcast_add_left)
  also have "r + (?b * 256 + ?j) = t + (ct * 1024 + ((2 * ?a + ?b) * 256 + (?i * 16 + ?j)))"
    by (simp add: r_def)
  finally show ?thesis .
qed

lemma nth_untilize_indices:
  assumes ok: "shape_ok len B m n" and b: "b < B" "rt < m div 32" "y < 32" "ct < n div 32" "x < 32"
  shows "untilize_indices B m n ! rm_pos m n b rt y ct x = tile_pos m n b rt y ct x"
proof -
  let ?N = "n div 32 * 32"
  let ?k = "y div 16 * (16 * ?N) + (y mod 16 * ?N + (ct * 32 + x))"
  have mn: "m = m div 32 * 32" "n = ?N" using ok by (auto simp: shape_ok_def)
  have k1: "ct * 32 + x < ?N" using b(4,5) by (rule mult_add_less)
  have k2: "y mod 16 * ?N + (ct * 32 + x) < 16 * ?N" by (rule mult_add_less [OF _ k1]) simp
  have k3: "?k < 2 * (16 * ?N)" by (rule mult_add_less [OF _ k2]) (use b(3) in auto)
  have k4: "rt * (2 * (16 * ?N)) + ?k < m div 32 * (2 * (16 * ?N))" using b(2) k3 by (rule mult_add_less)
  have gen: "(b * (M * 32) + (rt * 32 + (q * 16 + i))) * N + z =
      b * (M * (2 * (16 * N))) + (rt * (2 * (16 * N)) + (q * (16 * N) + (i * N + z)))" for M N q i z
    by (simp add: algebra_simps)
  have e: "rm_pos m n b rt y ct x = b * (m div 32 * (2 * (16 * ?N))) + (rt * (2 * (16 * ?N)) + ?k)"
  proof -
    have "rm_pos m n b rt y ct x = (b * (m div 32 * 32) + (rt * 32 + (y div 16 * 16 + y mod 16))) * ?N + (ct * 32 + x)"
      unfolding rm_pos_def using mn by simp
    also have "\<dots> = b * (m div 32 * (2 * (16 * ?N))) + (rt * (2 * (16 * ?N)) + ?k)" by (rule gen)
    finally show ?thesis .
  qed
  let ?s = "b * mul32 m n + rt * mul32 32 n"
  have "untilize_indices B m n ! rm_pos m n b rt y ct x = untilize_row 16 16 (u32 ?s) 32 n ! ?k"
    unfolding e untilize_indices_def
    apply (subst nth_concat_uniform [where l = "m div 32 * (2 * (16 * ?N))"])
       apply (rule length_concat_uniform, rule length_untilize_row, rule b(1), rule k4)
    apply (subst nth_concat_uniform [where l = "2 * (16 * ?N)"])
       apply (rule length_untilize_row, rule b(2), rule k3)
    by (rule refl)
  also have "\<dots> = u32 (u32 ?s + (ct * 1024 + ((2 * (y div 16) + x div 16) * 256 + ((y mod 16) * 16 + x mod 16))))"
    by (rule nth_untilize_row [OF b(3,4,5)])
  also have "\<dots> = u32 (?s + (ct * 1024 + ((2 * (y div 16) + x div 16) * 256 + ((y mod 16) * 16 + x mod 16))))"
    by (rule wcast_add_left)
  also have "\<dots> = u32 (tile_pos m n b rt y ct x)"
  proof -
    let ?z = "ct * 1024 + ((2 * (y div 16) + x div 16) * 256 + ((y mod 16) * 16 + x mod 16))"
    have "(?s + ?z) mod 2 ^ 32 = (b * (m * n) + rt * (32 * n) + ?z) mod 2 ^ 32"
      unfolding wmul_def by (intro mod_add_cong mod_mult_right_eq refl)
    moreover have "b * (m * n) + rt * (32 * n) + ?z = tile_pos m n b rt y ct x"
    proof -
      have "b * (m * n) + rt * (32 * n) = (b * (m div 32) + rt) * (n div 32) * 1024"
        using ok by (auto simp: shape_ok_def mod_eq_0_iff_dvd algebra_simps elim!: dvdE)
      then show ?thesis unfolding tile_pos_def by (simp add: algebra_simps)
    qed
    ultimately show ?thesis by (simp only: wcast_def)
  qed
  also have "\<dots> = tile_pos m n b rt y ct x"
    using shape_bounds(2) [OF ok b] ok by (simp add: nowrap shape_ok_def)
  finally show ?thesis .
qed

subsection \<open>Functional correctness\<close>

lemma guards_ok:
  assumes "shape_ok (length input) B m n"
  shows "tilize_guards input m n = Inr ()" and "u32 (length input div mul32 m n) = B"
    and "length (tilize_indices B m n) = length input" and "length (untilize_indices B m n) = length input"
proof -
  have s: "m mod 32 = 0" "n mod 32 = 0" "0 < m" "0 < n" "0 < B" "length input = B * m * n" "length input < 2 ^ 32"
    using assms by (auto simp: shape_ok_def)
  have l: "length input = B * (m * n)" using s(6) by simp
  have "m * n \<le> B * (m * n)" using s(5) by (cases B) simp_all
  then have "m * n < 2 ^ 32" using s(7) unfolding l by (rule le_less_trans)
  then have mn: "mul32 m n = m * n" by (simp only: nowrap)
  have d: "length input div (m * n) = B" unfolding s(6) using s(3,4) by (simp add: mult.assoc)
  have "B \<le> B * (m * n)" using s(3,4) by simp
  then have "B < 2 ^ 32" using s(7) unfolding l by (rule le_less_trans)
  then show "u32 (length input div mul32 m n) = B" unfolding mn d by (simp only: nowrap)
  have "length input mod (m * n) = 0" unfolding s(6) by (simp add: mult.assoc)
  moreover have "length input > 0" using s by simp
  ultimately show "tilize_guards input m n = Inr ()" using s unfolding tilize_guards_def mn by simp
  show "length (tilize_indices B m n) = length input" "length (untilize_indices B m n) = length input"
    using shape_len [OF assms] by (simp_all add: length_tilize_indices length_untilize_indices)
qed

lemma gather_ok:
  assumes "length idxs = length input" and "\<And>p. p < length input \<Longrightarrow> idxs ! p < length input"
  shows "gather input idxs = Inr (map (\<lambda>i. input ! i) idxs)"
  using assms by (simp add: gather_def list_all_length)

lemma tilize_correct:
  assumes ok: "shape_ok (length input) B m n"
  shows "\<exists>out. tilize input m n = Inr out \<and> length out = length input \<and>
    (\<forall>b<B. \<forall>rt<m div 32. \<forall>y<32. \<forall>ct<n div 32. \<forall>x<32.
      out ! tile_pos m n b rt y ct x = input ! rm_pos m n b rt y ct x)"
proof -
  note g = guards_ok [OF ok]
  have "tilize_indices B m n ! p < length input" if "p < length input" for p
    using tile_pos_cases [OF ok that] nth_tilize_indices [OF ok] shape_bounds(1) [OF ok] by metis
  then have "tilize input m n = Inr (map (\<lambda>i. input ! i) (tilize_indices B m n))"
    using gather_ok [OF g(3)] g(1,2) by (simp add: tilize_def)
  then show ?thesis using g(3) nth_tilize_indices [OF ok] shape_bounds(2) [OF ok] by simp
qed

lemma untilize_correct:
  assumes ok: "shape_ok (length input) B m n"
  shows "\<exists>out. untilize input m n = Inr out \<and> length out = length input \<and>
    (\<forall>b<B. \<forall>rt<m div 32. \<forall>y<32. \<forall>ct<n div 32. \<forall>x<32.
      out ! rm_pos m n b rt y ct x = input ! tile_pos m n b rt y ct x)"
proof -
  note g = guards_ok [OF ok]
  have "untilize_indices B m n ! p < length input" if "p < length input" for p
    using rm_pos_cases [OF ok that] nth_untilize_indices [OF ok] shape_bounds(2) [OF ok] by metis
  then have "untilize input m n = Inr (map (\<lambda>i. input ! i) (untilize_indices B m n))"
    using gather_ok [OF g(4)] g(1,2) by (simp add: untilize_def)
  then show ?thesis using g(4) nth_untilize_indices [OF ok] shape_bounds(1) [OF ok] by simp
qed

text \<open>(C22) \<^verbatim>\<open>tilize\<close> and \<^verbatim>\<open>untilize\<close> are inverse to each other on every vector whose size is a multiple of \<^verbatim>\<open>m * n\<close>, for
  \<^verbatim>\<open>m\<close> and \<^verbatim>\<open>n\<close> multiples of 32: no read is out of range, and no element is lost or moved twice.\<close>

theorem tilize_untilize_roundtrip:
  assumes "shape_ok (length input) num_blocks m n"
  shows "\<exists>t u. tilize input m n = Inr t \<and> untilize t m n = Inr input \<and>
    untilize input m n = Inr u \<and> tilize u m n = Inr input"
proof -
  note ok = assms
  obtain t where t: "tilize input m n = Inr t" "length t = length input"
      "\<And>b rt y ct x. b < num_blocks \<Longrightarrow> rt < m div 32 \<Longrightarrow> y < 32 \<Longrightarrow> ct < n div 32 \<Longrightarrow> x < 32 \<Longrightarrow>
        t ! tile_pos m n b rt y ct x = input ! rm_pos m n b rt y ct x"
    using tilize_correct [OF ok] by blast
  obtain u where u: "untilize input m n = Inr u" "length u = length input"
      "\<And>b rt y ct x. b < num_blocks \<Longrightarrow> rt < m div 32 \<Longrightarrow> y < 32 \<Longrightarrow> ct < n div 32 \<Longrightarrow> x < 32 \<Longrightarrow>
        u ! rm_pos m n b rt y ct x = input ! tile_pos m n b rt y ct x"
    using untilize_correct [OF ok] by blast
  obtain t' where t': "untilize t m n = Inr t'" "length t' = length input"
      "\<And>b rt y ct x. b < num_blocks \<Longrightarrow> rt < m div 32 \<Longrightarrow> y < 32 \<Longrightarrow> ct < n div 32 \<Longrightarrow> x < 32 \<Longrightarrow>
        t' ! rm_pos m n b rt y ct x = t ! tile_pos m n b rt y ct x"
    using untilize_correct [of t num_blocks m n] ok t(2) by auto
  obtain u' where u': "tilize u m n = Inr u'" "length u' = length input"
      "\<And>b rt y ct x. b < num_blocks \<Longrightarrow> rt < m div 32 \<Longrightarrow> y < 32 \<Longrightarrow> ct < n div 32 \<Longrightarrow> x < 32 \<Longrightarrow>
        u' ! tile_pos m n b rt y ct x = u ! rm_pos m n b rt y ct x"
    using tilize_correct [of u num_blocks m n] ok u(2) by auto
  have "t' = input"
  proof (rule nth_equalityI [OF t'(2)])
    fix p assume "p < length t'"
    then show "t' ! p = input ! p"
      using rm_pos_cases [OF ok, of p] t'(2,3) t(3) by metis
  qed
  moreover have "u' = input"
  proof (rule nth_equalityI [OF u'(2)])
    fix p assume "p < length u'"
    then show "u' ! p = input ! p"
      using tile_pos_cases [OF ok, of p] u'(2,3) u(3) by metis
  qed
  ultimately show ?thesis using t(1) u(1) t'(1) u'(1) by simp
qed

theorem tilize_untilize_roundtrip_witness:
  "let input = [0..<4096] in \<exists>t. tilize input 64 32 = Inr t \<and> untilize t 64 32 = Inr input"
  using tilize_untilize_roundtrip [of "[0..<4096]" 2 64 32] by (auto simp: shape_ok_def Let_def)

text \<open>The layout itself: in the tilized vector, the element of row \<open>y\<close> and column \<open>x\<close> of tile \<open>(rt, ct)\<close> is where the
  hardware expects it, tile after tile, in each tile the four 16 by 16 faces one after the other, in each
  face row by row.\<close>

theorem tilize_layout:
  assumes "shape_ok (length input) num_blocks m n"
    and "b < num_blocks" and "rt < m div 32" and "y < 32" and "ct < n div 32" and "x < 32"
  shows "\<exists>out. tilize input m n = Inr out \<and> length out = length input \<and>
    out ! (((b * (m div 32) + rt) * (n div 32) + ct) * 1024 +
           ((2 * (y div 16) + x div 16) * 256 + ((y mod 16) * 16 + x mod 16))) =
    input ! ((b * m + (rt * 32 + y)) * n + (ct * 32 + x))"
  using tilize_correct [OF assms(1)] assms(2-) unfolding tile_pos_def rm_pos_def by blast

theorem tilize_layout_witness:
  "\<exists>out. tilize [0..<2048] 32 64 = Inr out \<and> out ! 1280 = 48"
  using tilize_layout [of "[0..<2048]" 1 32 64 0 0 0 1 16] by (auto simp: shape_ok_def)

end
