(* ===== verification/Bfloat16.thy ===== *)
theory Bfloat16
  imports Metal_Prelude
begin

text \<open>
  The \<^verbatim>\<open>bfloat16\<close> type and the packing of two of them in a word: \<^verbatim>\<open>tt_metal/common/bfloat16.hpp\<close>.  A
  \<^verbatim>\<open>float\<close> is its 32-bit pattern and a \<^verbatim>\<open>bfloat16\<close> its 16-bit pattern; floating-point arithmetic itself, the
  random fills and the printers are not modelled.  \<^verbatim>\<open>memcpy\<close> is byte by byte on a little-endian host.
\<close>

unbundle bit_operations_syntax

type_synonym float32 = "32 word"
type_synonym bfloat16 = "16 word"

subsection \<open>Conversions\<close>

definition bfloat16_of_float :: "float32 \<Rightarrow> bfloat16" where
  "bfloat16_of_float float_num = ucast (drop_bit 16 float_num)"

definition bfloat16_of_uint32 :: "32 word \<Rightarrow> bfloat16" where
  "bfloat16_of_uint32 uint32_data = ucast uint32_data"

definition to_float :: "bfloat16 \<Rightarrow> float32" where
  "to_float b = push_bit 16 (ucast b)"

definition pack_two_bfloat16_into_uint32 :: "bfloat16 \<times> bfloat16 \<Rightarrow> 32 word" where
  "pack_two_bfloat16_into_uint32 two = ucast (fst two) OR push_bit 16 (ucast (snd two))"

definition unpack_two_bfloat16_from_uint32 :: "32 word \<Rightarrow> bfloat16 \<times> bfloat16" where
  "unpack_two_bfloat16_from_uint32 uint32_data =
     (bfloat16_of_uint32 (uint32_data AND 0xffff), bfloat16_of_uint32 (drop_bit 16 uint32_data))"

subsection \<open>Vectors\<close>

text \<open>\<^verbatim>\<open>operator==\<close> compares up to the length of the left vector even when the right one is shorter.\<close>

definition bfloat16_vec_equal :: "bfloat16 list \<Rightarrow> bfloat16 list \<Rightarrow> bool result" where
  "bfloat16_vec_equal lhs rhs =
     rfold (\<lambda>i is_equal. if i < length rhs then Inr (is_equal \<and> lhs ! i = rhs ! i)
                         else Inl (Undefined ''vector access out of range''))
       [0..<length lhs] (length lhs = length rhs)"

definition u16_from_u32_vector :: "32 word list \<Rightarrow> 16 word list" where
  "u16_from_u32_vector xs =
     concat (map (\<lambda>val. let two = unpack_two_bfloat16_from_uint32 val in [fst two, snd two]) xs)"

fun pack_pairs :: "bfloat16 list \<Rightarrow> 32 word list" where
  "pack_pairs (a # b # xs) = pack_two_bfloat16_into_uint32 (a, b) # pack_pairs xs"
| "pack_pairs _ = []"

definition u32_from_u16_vector :: "16 word list \<Rightarrow> 32 word list result" where
  "u32_from_u16_vector xs =
     rbind (check (length xs mod 2 = 0) (TT_ASSERT ''in.size() % 2 == 0'')) (\<lambda>_. Inr (pack_pairs xs))"

definition bytes_of_u16 :: "16 word \<Rightarrow> 8 word list" where
  "bytes_of_u16 w = [ucast w, ucast (drop_bit 8 w)]"

fun u32_of_bytes :: "8 word list \<Rightarrow> 32 word list" where
  "u32_of_bytes (a # b # c # d # bs) =
     (ucast a OR push_bit 8 (ucast b) OR push_bit 16 (ucast c) OR push_bit 24 (ucast d)) # u32_of_bytes bs"
| "u32_of_bytes _ = []"

definition pack_bfloat16_vec_into_uint32_vec :: "bfloat16 list \<Rightarrow> 32 word list result" where
  "pack_bfloat16_vec_into_uint32_vec xs =
     rbind (check (length xs mod 2 = 0) (TT_ASSERT ''data.size() % 2 == 0'')) (\<lambda>_.
     Inr (u32_of_bytes (concat (map bytes_of_u16 xs))))"

definition unpack_uint32_vec_into_bfloat16_vec :: "32 word list \<Rightarrow> (bfloat16 \<Rightarrow> bfloat16) \<Rightarrow> bfloat16 list" where
  "unpack_uint32_vec_into_bfloat16_vec xs transform =
     concat (map (\<lambda>w. let unpacked = unpack_two_bfloat16_from_uint32 w
                      in [transform (fst unpacked), transform (snd unpacked)]) xs)"

definition create_constant_vector_of_bfloat16 :: "nat \<Rightarrow> float32 \<Rightarrow> 32 word list" where
  "create_constant_vector_of_bfloat16 num_bytes value =
     (let num_elements_vec = max 1 (num_bytes div 4) in
      map (\<lambda>_. pack_two_bfloat16_into_uint32
             (bfloat16_of_float value, if num_elements_vec = 1 then bfloat16_of_float 0 else bfloat16_of_float value))
        [0..<num_elements_vec])"

definition create_identity_matrix :: "nat \<Rightarrow> nat \<Rightarrow> nat \<Rightarrow> bfloat16 list result" where
  "create_identity_matrix rows cols num_ones =
     rfold (\<lambda>i vec. if i * cols + i < length vec
                    then Inr (vec[i * cols + i := bfloat16_of_float 0x3f800000]) else Inl Out_of_range)
       [0..<num_ones] (replicate (rows * cols) (bfloat16_of_float 0))"

text \<open>The index of the first pair that differs is reported through \<^verbatim>\<open>argfail\<close>.\<close>

fun packed_comparison_loop ::
    "(float32 \<Rightarrow> float32 \<Rightarrow> bool) \<Rightarrow> nat \<Rightarrow> 32 word list \<Rightarrow> 32 word list \<Rightarrow> nat option" where
  "packed_comparison_loop cmp i (a # vec_a) (b # vec_b) =
     (let as = unpack_two_bfloat16_from_uint32 a; bs = unpack_two_bfloat16_from_uint32 b in
      if \<not> (cmp (to_float (fst as)) (to_float (fst bs)) \<and> cmp (to_float (snd as)) (to_float (snd bs)))
      then Some i else packed_comparison_loop cmp (Suc i) vec_a vec_b)"
| "packed_comparison_loop cmp i _ _ = None"

definition packed_uint32_t_vector_comparison ::
    "32 word list \<Rightarrow> 32 word list \<Rightarrow> (float32 \<Rightarrow> float32 \<Rightarrow> bool) \<Rightarrow> bool \<times> nat option" where
  "packed_uint32_t_vector_comparison vec_a vec_b comparison_function =
     (if length vec_a \<noteq> length vec_b then (False, None)
      else case packed_comparison_loop comparison_function 0 vec_a vec_b of
        None \<Rightarrow> (True, None) | Some i \<Rightarrow> (False, Some i))"

subsection \<open>Round trips\<close>

lemma mask16: "(0xffff :: 32 word) = mask 16"
  by (simp add: mask_eq_exp_minus_1)

lemma unpack_low: "ucast ((ucast a OR push_bit 16 (ucast b)) AND 0xffff :: 32 word) = (a :: 16 word)"
  for b :: "16 word"
  unfolding mask16 by (rule bit_word_eqI) (auto simp: bit_simps)

lemma unpack_high: "ucast (drop_bit 16 (ucast a OR push_bit 16 (ucast b)) :: 32 word) = (b :: 16 word)"
  for a :: "16 word"
  by (rule bit_word_eqI) (auto simp: bit_simps dest: bit_imp_le_length)

lemma pack_low_high: "ucast (ucast (w AND 0xffff) :: 16 word) OR push_bit 16 (ucast (ucast (drop_bit 16 w) :: 16 word)) = w"
  for w :: "32 word"
  unfolding mask16 by (rule bit_word_eqI) (auto simp: bit_simps)

lemma unpack_pack [simp]: "unpack_two_bfloat16_from_uint32 (pack_two_bfloat16_into_uint32 p) = p"
  by (cases p) (simp only: unpack_two_bfloat16_from_uint32_def pack_two_bfloat16_into_uint32_def
      bfloat16_of_uint32_def unpack_low unpack_high fst_conv snd_conv)

lemma pack_unpack [simp]: "pack_two_bfloat16_into_uint32 (unpack_two_bfloat16_from_uint32 w) = w"
  by (simp add: unpack_two_bfloat16_from_uint32_def pack_two_bfloat16_into_uint32_def bfloat16_of_uint32_def
      pack_low_high)

lemma of_float_to_float [simp]: "bfloat16_of_float (to_float b) = b"
  unfolding bfloat16_of_float_def to_float_def by (rule bit_word_eqI) (auto simp: bit_simps)

text \<open>On a little-endian host the copy of the bytes packs the elements as \<^verbatim>\<open>pack_two_bfloat16_into_uint32\<close> does.\<close>

lemma u32_of_two:
  "ucast (ucast a :: 8 word) OR push_bit 8 (ucast (ucast (drop_bit 8 a) :: 8 word)) OR
   push_bit 16 (ucast (ucast b :: 8 word)) OR push_bit 24 (ucast (ucast (drop_bit 8 b) :: 8 word)) =
   (ucast a OR push_bit 16 (ucast b) :: 32 word)"
  for a b :: "16 word"
proof (rule bit_word_eqI)
  fix n assume n: "n < LENGTH(32)"
  have len: "bit a n \<Longrightarrow> n < 16" "bit b (n - 16) \<Longrightarrow> n - 16 < 16"
    using bit_imp_le_length [of a n] bit_imp_le_length [of b "n - 16"] by simp_all
  consider "n < 8" | "8 \<le> n" "n < 16" | "16 \<le> n" "n < 24" | "24 \<le> n" by linarith
  then show "bit (ucast (ucast a :: 8 word) OR push_bit 8 (ucast (ucast (drop_bit 8 a) :: 8 word)) OR
   push_bit 16 (ucast (ucast b :: 8 word)) OR push_bit 24 (ucast (ucast (drop_bit 8 b) :: 8 word)) :: 32 word) n =
     bit (ucast a OR push_bit 16 (ucast b) :: 32 word) n"
  proof cases
    case 4
    then have "8 + (n - 24) = n - 16" by simp
    then show ?thesis using n len 4 by (auto simp: bit_simps)
  qed (use n len in \<open>auto simp: bit_simps\<close>)
qed

lemma memcpy_pack: "u32_of_bytes (concat (map bytes_of_u16 xs)) = pack_pairs xs"
  by (induction xs rule: pack_pairs.induct)
    (simp_all add: bytes_of_u16_def pack_two_bfloat16_into_uint32_def u32_of_two)

lemma u16_pack_pairs: "even (length xs) \<Longrightarrow> u16_from_u32_vector (pack_pairs xs) = xs"
  by (induction xs rule: pack_pairs.induct) (simp_all add: u16_from_u32_vector_def Let_def)

lemma pack_pairs_u16: "pack_pairs (u16_from_u32_vector ws) = ws"
  by (induction ws) (simp_all add: u16_from_u32_vector_def Let_def)

lemma even_u16: "even (length (u16_from_u32_vector ws))"
  by (induction ws) (simp_all add: u16_from_u32_vector_def Let_def)

lemma unpack_id: "unpack_uint32_vec_into_bfloat16_vec ws (\<lambda>b. b) = u16_from_u32_vector ws"
  by (simp add: unpack_uint32_vec_into_bfloat16_vec_def u16_from_u32_vector_def)

lemma vec_equal_loop:
  "is \<subseteq> {..<length rhs} \<Longrightarrow> set xs = is \<Longrightarrow>
   rfold (\<lambda>i is_equal. if i < length rhs then Inr (is_equal \<and> lhs ! i = rhs ! i) else Inl e) xs b =
   Inr (b \<and> (\<forall>i\<in>is. lhs ! i = rhs ! i))"
  by (induction xs arbitrary: b "is") auto

text \<open>Packing vectors of \<^verbatim>\<open>bfloat16\<close> into words and unpacking them are inverse to each other, for the \<^verbatim>\<open>memcpy\<close>
  version as for the element-wise one, and a vector of odd length is refused by an assertion.\<close>

theorem bfloat16_packing_roundtrip:
  "(if even (length xs)
    then \<exists>ws. pack_bfloat16_vec_into_uint32_vec xs = Inr ws \<and> u32_from_u16_vector xs = Inr ws \<and>
      unpack_uint32_vec_into_bfloat16_vec ws (\<lambda>b. b) = xs \<and> u16_from_u32_vector ws = xs
    else (\<exists>m. pack_bfloat16_vec_into_uint32_vec xs = Inl (TT_ASSERT m)) \<and>
      (\<exists>m. u32_from_u16_vector xs = Inl (TT_ASSERT m))) \<and>
   pack_bfloat16_vec_into_uint32_vec (unpack_uint32_vec_into_bfloat16_vec vs (\<lambda>b. b)) = Inr vs"
proof (rule conjI)
  show "if even (length xs)
    then \<exists>ws. pack_bfloat16_vec_into_uint32_vec xs = Inr ws \<and> u32_from_u16_vector xs = Inr ws \<and>
      unpack_uint32_vec_into_bfloat16_vec ws (\<lambda>b. b) = xs \<and> u16_from_u32_vector ws = xs
    else (\<exists>m. pack_bfloat16_vec_into_uint32_vec xs = Inl (TT_ASSERT m)) \<and>
      (\<exists>m. u32_from_u16_vector xs = Inl (TT_ASSERT m))"
    by (auto simp: pack_bfloat16_vec_into_uint32_vec_def u32_from_u16_vector_def memcpy_pack unpack_id
        u16_pack_pairs even_iff_mod_2_eq_zero)
  show "pack_bfloat16_vec_into_uint32_vec (unpack_uint32_vec_into_bfloat16_vec vs (\<lambda>b. b)) = Inr vs"
    using even_u16 [of vs]
    by (simp add: pack_bfloat16_vec_into_uint32_vec_def memcpy_pack unpack_id pack_pairs_u16 even_iff_mod_2_eq_zero)
qed

text \<open>\<^verbatim>\<open>operator==\<close> on vectors of \<^verbatim>\<open>bfloat16\<close> decides equality when the right operand is at least as long as the
  left one; when it is shorter, the comparison reads past its end.\<close>

theorem bfloat16_vec_equal_correct:
  "bfloat16_vec_equal lhs rhs =
     (if length lhs \<le> length rhs then Inr (lhs = rhs) else Inl (Undefined ''vector access out of range''))"
proof (cases "length lhs \<le> length rhs")
  case True
  then have "bfloat16_vec_equal lhs rhs = Inr (length lhs = length rhs \<and> (\<forall>i\<in>{0..<length lhs}. lhs ! i = rhs ! i))"
    unfolding bfloat16_vec_equal_def by (intro vec_equal_loop) auto
  moreover have "(length lhs = length rhs \<and> (\<forall>i\<in>{0..<length lhs}. lhs ! i = rhs ! i)) = (lhs = rhs)"
    unfolding list_eq_iff_nth_eq by auto
  ultimately show ?thesis using True by simp
next
  case False
  define f where "f = (\<lambda>i is_equal. if i < length rhs then Inr (is_equal \<and> lhs ! i = rhs ! i)
    else Inl (Undefined ''vector access out of range'') :: bool result)"
  have "[0..<length lhs] = [0..<length rhs] @ length rhs # [Suc (length rhs)..<length lhs]"
    using False upt_add_eq_append [of 0 "length rhs" "length lhs - length rhs"] by (simp add: upt_conv_Cons)
  moreover have "rfold f [0..<length rhs] b = Inr (b \<and> (\<forall>i\<in>{0..<length rhs}. lhs ! i = rhs ! i))" for b
    unfolding f_def by (intro vec_equal_loop) auto
  ultimately show ?thesis using False by (simp add: bfloat16_vec_equal_def f_def [symmetric] rfold_append) (simp add: f_def)
qed

end
