(* ===== verification/Data_Formats.thy ===== *)
theory Data_Formats
  imports Metal_Prelude
begin

text \<open>
  Data formats and tile shapes: \<^verbatim>\<open>tt_metal/common/tt_backend_api_types.hpp\<close> and
  \<^verbatim>\<open>tt_metal/impl/tile/tile.hpp\<close>.
\<close>

subsection \<open>Formats\<close>

datatype DataFormat = Float32 | Float16 | Bfp8 | Bfp4 | Bfp2 | Float16_b | Bfp8_b | Bfp4_b | Bfp2_b | Lf8
  | Fp8_e4m3 | Int8 | Tf32 | UInt8 | UInt16 | Int32 | UInt32 | RawUInt8 | RawUInt16 | RawUInt32 | Invalid

definition is_integer_format :: "DataFormat \<Rightarrow> bool" where
  "is_integer_format format \<longleftrightarrow>
     format = UInt32 \<or> format = Int8 \<or> format = UInt16 \<or> format = UInt8 \<or> format = Int32 \<or>
     format = RawUInt32 \<or> format = RawUInt16 \<or> format = RawUInt8"

fun datum_size :: "DataFormat \<Rightarrow> nat result" where
  "datum_size Bfp2 = Inl (Invalid_argument ''datum for bfp2, bfp4, bfp8 is invalid'')"
| "datum_size Bfp2_b = Inl (Invalid_argument ''datum for bfp2, bfp4, bfp8 is invalid'')"
| "datum_size Bfp4 = Inl (Invalid_argument ''datum for bfp2, bfp4, bfp8 is invalid'')"
| "datum_size Bfp4_b = Inl (Invalid_argument ''datum for bfp2, bfp4, bfp8 is invalid'')"
| "datum_size Bfp8 = Inl (Invalid_argument ''datum for bfp2, bfp4, bfp8 is invalid'')"
| "datum_size Bfp8_b = Inl (Invalid_argument ''datum for bfp2, bfp4, bfp8 is invalid'')"
| "datum_size Float16 = Inr 2"
| "datum_size Float16_b = Inr 2"
| "datum_size Float32 = Inr 4"
| "datum_size Tf32 = Inl (Invalid_argument ''TF32 unsupported atm'')"
| "datum_size Int8 = Inr 1"
| "datum_size Lf8 = Inr 1"
| "datum_size UInt8 = Inr 1"
| "datum_size UInt16 = Inr 2"
| "datum_size UInt32 = Inr 4"
| "datum_size RawUInt8 = Inr 1"
| "datum_size RawUInt16 = Inr 2"
| "datum_size Int32 = Inr 4"
| "datum_size RawUInt32 = Inr 4"
| "datum_size Invalid = Inl (Invalid_argument ''Invalid data format'')"
| "datum_size Fp8_e4m3 = Inl (Invalid_argument ''Unknown format'')"

fun tile_size :: "DataFormat \<Rightarrow> nat result" where
  "tile_size Bfp2 = Inr ((64 * 4) + (16 * 4))"
| "tile_size Bfp2_b = Inr ((64 * 4) + (16 * 4))"
| "tile_size Bfp4 = Inr ((128 * 4) + (16 * 4))"
| "tile_size Bfp4_b = Inr ((128 * 4) + (16 * 4))"
| "tile_size Bfp8 = Inr ((256 * 4) + (16 * 4))"
| "tile_size Bfp8_b = Inr ((256 * 4) + (16 * 4))"
| "tile_size Float16 = Inr (1024 * 2)"
| "tile_size Float16_b = Inr (1024 * 2)"
| "tile_size Float32 = Inr (1024 * 4)"
| "tile_size Tf32 = Inl (Invalid_argument ''TF32 unsupported atm'')"
| "tile_size Int8 = Inr 1024"
| "tile_size Lf8 = Inr 1024"
| "tile_size UInt8 = Inr 1024"
| "tile_size UInt16 = Inr (1024 * 2)"
| "tile_size UInt32 = Inr (1024 * 4)"
| "tile_size RawUInt8 = Inr 1024"
| "tile_size RawUInt16 = Inr (1024 * 2)"
| "tile_size Int32 = Inr (1024 * 4)"
| "tile_size RawUInt32 = Inr (1024 * 4)"
| "tile_size Invalid = Inl (Invalid_argument ''Invalid data format'')"
| "tile_size Fp8_e4m3 = Inl (Invalid_argument ''Unknown format'')"

subsection \<open>Tiles\<close>

definition TILE_FACE_HW_CHOICES :: "((nat \<times> nat) \<times> (nat \<times> nat)) list" where
  "TILE_FACE_HW_CHOICES =
     [((32, 32), (16, 16)), ((16, 32), (16, 16)), ((32, 16), (16, 16)), ((16, 16), (16, 16)),
      ((8, 32), (8, 16)), ((4, 32), (4, 16)), ((2, 32), (2, 16)), ((1, 32), (1, 16)),
      ((8, 16), (8, 16)), ((4, 16), (4, 16)), ((2, 16), (2, 16)), ((1, 16), (1, 16))]"

record Tile =
  tile_shape :: "nat \<times> nat"
  face_shape :: "nat \<times> nat"
  tile_hw :: nat
  face_hw :: nat
  num_faces :: nat
  partial_face :: nat
  narrow_tile :: nat

definition new_Tile :: "nat \<times> nat \<Rightarrow> Tile result" where
  "new_Tile shape =
     (case find (\<lambda>pair. fst pair = shape) TILE_FACE_HW_CHOICES of
        None \<Rightarrow> Inl (TT_THROW ''Tile size is not valid for our hardware'')
      | Some pair \<Rightarrow>
          let face = snd pair; hw = mul32 (fst shape) (snd shape); fhw = mul32 (fst face) (snd face)
          in Inr \<lparr>tile_shape = shape, face_shape = face, tile_hw = hw, face_hw = fhw, num_faces = hw div fhw,
               partial_face = (if fst shape < 32 then 1 else 0), narrow_tile = (if snd shape < 32 then 1 else 0)\<rparr>)"

fun get_tile_size :: "Tile \<Rightarrow> DataFormat \<Rightarrow> nat result" where
  "get_tile_size t Bfp2 = Inr (add32 (tile_hw t div 4) (mul32 16 (num_faces t)))"
| "get_tile_size t Bfp2_b = Inr (add32 (tile_hw t div 4) (mul32 16 (num_faces t)))"
| "get_tile_size t Bfp4 = Inr (add32 (tile_hw t div 2) (mul32 16 (num_faces t)))"
| "get_tile_size t Bfp4_b = Inr (add32 (tile_hw t div 2) (mul32 16 (num_faces t)))"
| "get_tile_size t Bfp8 = Inr (add32 (tile_hw t) (mul32 16 (num_faces t)))"
| "get_tile_size t Bfp8_b = Inr (add32 (tile_hw t) (mul32 16 (num_faces t)))"
| "get_tile_size t Float16 = Inr (mul32 (tile_hw t) 2)"
| "get_tile_size t Float16_b = Inr (mul32 (tile_hw t) 2)"
| "get_tile_size t Float32 = Inr (mul32 (tile_hw t) 4)"
| "get_tile_size t Tf32 = Inl (Invalid_argument ''TF32 unsupported atm'')"
| "get_tile_size t Int8 = Inr (tile_hw t)"
| "get_tile_size t Lf8 = Inr (tile_hw t)"
| "get_tile_size t UInt8 = Inr (tile_hw t)"
| "get_tile_size t UInt16 = Inr (mul32 (tile_hw t) 2)"
| "get_tile_size t UInt32 = Inr (mul32 (tile_hw t) 4)"
| "get_tile_size t RawUInt8 = Inr (tile_hw t)"
| "get_tile_size t RawUInt16 = Inr (mul32 (tile_hw t) 2)"
| "get_tile_size t Int32 = Inr (mul32 (tile_hw t) 4)"
| "get_tile_size t RawUInt32 = Inr (mul32 (tile_hw t) 4)"
| "get_tile_size t Invalid = Inl (Invalid_argument ''Invalid data format'')"
| "get_tile_size t Fp8_e4m3 = Inl (Invalid_argument ''Unknown format'')"

definition tile_equal :: "Tile \<Rightarrow> Tile \<Rightarrow> bool" where
  "tile_equal a b \<longleftrightarrow> tile_shape a = tile_shape b \<and> face_shape a = face_shape b"

subsection \<open>Properties\<close>

text \<open>A tile the constructor makes is made of whole faces.\<close>

definition tile_wf :: "Tile \<Rightarrow> bool" where
  "tile_wf t \<longleftrightarrow>
     tile_hw t = fst (tile_shape t) * snd (tile_shape t) \<and> face_hw t = fst (face_shape t) * snd (face_shape t) \<and>
     0 < face_hw t \<and> num_faces t * face_hw t = tile_hw t \<and>
     fst (tile_shape t) mod fst (face_shape t) = 0 \<and> snd (tile_shape t) mod snd (face_shape t) = 0 \<and>
     num_faces t \<le> 4 \<and> tile_hw t \<le> 1024"

lemma new_Tile_wf:
  assumes "new_Tile shape = Inr t"
  shows "tile_wf t \<and> tile_shape t = shape"
proof -
  obtain pair where p: "find (\<lambda>pair. fst pair = shape) TILE_FACE_HW_CHOICES = Some pair"
    using assms by (auto simp: new_Tile_def split: option.splits)
  then have s: "fst pair = shape" "pair \<in> set TILE_FACE_HW_CHOICES" by (auto simp: find_Some_iff)
  have t: "t = \<lparr>tile_shape = fst pair, face_shape = snd pair, tile_hw = mul32 (fst (fst pair)) (snd (fst pair)),
      face_hw = mul32 (fst (snd pair)) (snd (snd pair)),
      num_faces = mul32 (fst (fst pair)) (snd (fst pair)) div mul32 (fst (snd pair)) (snd (snd pair)),
      partial_face = (if fst (fst pair) < 32 then 1 else 0), narrow_tile = (if snd (fst pair) < 32 then 1 else 0)\<rparr>"
    using assms p s(1) by (simp add: new_Tile_def Let_def)
  show ?thesis
    using s(2) unfolding t s(1) [symmetric] TILE_FACE_HW_CHOICES_def
    by (simp only: list.set insert_iff empty_iff) (elim disjE FalseE; simp add: tile_wf_def wmul_def)
qed

lemma new_Tile_iff: "(\<exists>t. new_Tile shape = Inr t) \<longleftrightarrow> shape \<in> fst ` set TILE_FACE_HW_CHOICES"
proof -
  have "(\<exists>t. new_Tile shape = Inr t) \<longleftrightarrow> find (\<lambda>pair. fst pair = shape) TILE_FACE_HW_CHOICES \<noteq> None"
    by (auto simp: new_Tile_def Let_def split: option.splits)
  also have "\<dots> \<longleftrightarrow> shape \<in> fst ` set TILE_FACE_HW_CHOICES" by (force simp: find_None_iff)
  finally show ?thesis .
qed

lemma get_tile_size_default: "new_Tile (32, 32) = Inr t \<Longrightarrow> get_tile_size t f = tile_size f"
  by (cases f) (auto simp: new_Tile_def TILE_FACE_HW_CHOICES_def Let_def wmul_def wadd_def)

text \<open>(C33) The constructor of \<^verbatim>\<open>Tile\<close> accepts exactly the shapes of the hardware's table; a tile it makes is
  well formed (whole faces, at most four, consistent sizes); equality of tiles is equality of their shapes;
  and the size in bytes of a tile in a format that stores each datum by itself is the number of its data
  times the datum size.\<close>

theorem Tile_well_formed:
  "((\<exists>t. new_Tile shape = Inr t) \<longleftrightarrow> shape \<in> fst ` set TILE_FACE_HW_CHOICES) \<and>
   (\<forall>t. new_Tile shape = Inr t \<longrightarrow> tile_wf t \<and> tile_shape t = shape \<and>
     (\<forall>shape' t'. new_Tile shape' = Inr t' \<longrightarrow> tile_equal t t' = (shape = shape')) \<and>
     (\<forall>f d. datum_size f = Inr d \<longrightarrow> get_tile_size t f = Inr (tile_hw t * d)))"
proof (intro conjI allI impI)
  show "(\<exists>t. new_Tile shape = Inr t) \<longleftrightarrow> shape \<in> fst ` set TILE_FACE_HW_CHOICES" by (rule new_Tile_iff)
next
  fix t assume t: "new_Tile shape = Inr t"
  have w: "tile_wf t" "tile_shape t = shape" using new_Tile_wf [OF t] by simp_all
  show "tile_wf t" "tile_shape t = shape" by (fact w)+
  show "tile_equal t t' = (shape = shape')" if t': "new_Tile shape' = Inr t'" for shape' t'
  proof
    assume "tile_equal t t'"
    then show "shape = shape'" using w(2) new_Tile_wf [OF t'] by (simp add: tile_equal_def)
  next
    assume "shape = shape'"
    then show "tile_equal t t'" using t t' by (simp add: tile_equal_def)
  qed
  show "get_tile_size t f = Inr (tile_hw t * d)" if d: "datum_size f = Inr d" for f d
  proof -
    have "tile_hw t * d < 2 ^ 32" if "d \<le> 4"
      using w(1) mult_le_mono [of "tile_hw t" 1024 d 4] that by (simp add: tile_wf_def)
    then show ?thesis using d w(1) by (cases f) (auto simp: nowrap tile_wf_def)
  qed
qed

theorem Tile_well_formed_witness:
  "\<exists>t. new_Tile (16, 32) = Inr t \<and> tile_wf t \<and> get_tile_size t Float16_b = Inr (tile_hw t * 2)"
proof -
  have "\<exists>t. new_Tile (16, 32) = Inr t" unfolding new_Tile_iff by (simp add: TILE_FACE_HW_CHOICES_def)
  moreover have "datum_size Float16_b = Inr 2" by simp
  ultimately show ?thesis using Tile_well_formed [of "(16, 32)"] by blast
qed

text \<open>The two computations of the size of a tile agree: for the default 32 by 32 tile,
  \<^verbatim>\<open>Tile::get_tile_size\<close> gives what \<^verbatim>\<open>tile_size\<close> gives, for every format, errors included.\<close>

theorem get_tile_size_equals_tile_size:
  assumes "new_Tile (32, 32) = Inr t"
  shows "get_tile_size t format = tile_size format"
  by (rule get_tile_size_default [OF assms])

theorem get_tile_size_equals_tile_size_witness:
  "\<exists>t. new_Tile (32, 32) = Inr t \<and> get_tile_size t Bfp4_b = Inr 576 \<and> get_tile_size t Tf32 = tile_size Tf32"
proof -
  have "\<exists>t. new_Tile (32, 32) = Inr t" unfolding new_Tile_iff by (simp add: TILE_FACE_HW_CHOICES_def)
  moreover have "tile_size Bfp4_b = Inr 576" by simp
  ultimately show ?thesis using get_tile_size_equals_tile_size by metis
qed

end
