(* ===== verification/Block_Float.thy ===== *)
theory Block_Float
  imports Bfloat16 Data_Formats
begin

text \<open>
  Block floating point: \<^verbatim>\<open>tt_metal/common/blockfloat_common.hpp\<close>, \<^verbatim>\<open>bfloat8.hpp\<close> and \<^verbatim>\<open>bfloat4.hpp\<close>.  Sixteen
  values share one exponent; a tile is 64 exponents followed by the signs and mantissas of 1024 values.

  Floats are 32-bit patterns.  The shared exponent is a \<^verbatim>\<open>uint8_t\<close> at every call, so it is an \<^typ>\<open>8 word\<close> here.
  \<open>pack_tiles\<close> is the loop of the template in \<^verbatim>\<open>blockfloat_common.hpp\<close>, with what the template parameter decides as
  arguments (the number of mantissas in a word and the function that packs a word); \<^verbatim>\<open>bfloat4.hpp\<close> calls it, and \<^verbatim>\<open>bfloat8.hpp\<close> has
  a loop of its own, the definitions that start with \<open>bfp8\<close>.  The unpackers use vector intrinsics, modelled lane by lane.
\<close>

subsection \<open>Exponents\<close>

definition exp_field :: "float32 \<Rightarrow> 32 word" where
  "exp_field w = drop_bit 23 (w AND 0x7f800000)"

definition rebias :: "32 word \<Rightarrow> 32 word \<Rightarrow> 32 word \<times> 32 word" where
  "rebias exp mantissa =
     (let se = sint exp - 127 + 15 in
      if se > 31 then (31, 0x007fffff) else if se < 0 then (0, 0) else (word_of_int se, mantissa))"

definition get_max_exp :: "float32 list \<Rightarrow> bool \<Rightarrow> 8 word result" where
  "get_max_exp vec is_exp_a =
     rbind (check (length vec = 16) (TT_ASSERT ''vec.size() == 16'')) (\<lambda>_.
     Inr (ucast (fold (\<lambda>w m. let exp = (if is_exp_a then fst (rebias (exp_field w) 0) else exp_field w)
                             in if exp > m then exp else m) vec (0 :: 32 word))))"

definition get_exp_dword :: "8 word list \<Rightarrow> 32 word result" where
  "get_exp_dword vec =
     rbind (check (length vec = 4) (TT_ASSERT ''vec.size() == 4'')) (\<lambda>_.
     Inr (fold (\<lambda>i tmp. tmp OR push_bit (i * 8) (ucast (vec ! i))) [0..<4] 0))"

definition get_byte :: "32 word \<Rightarrow> nat \<Rightarrow> 32 word result" where
  "get_byte word index =
     rbind (check (index < 4) (TT_ASSERT ''index < 4'')) (\<lambda>_.
     Inr (drop_bit (8 * index) (word AND push_bit (8 * index) 0xff)))"

subsection \<open>Mantissas\<close>

definition is_bfp_format :: "DataFormat \<Rightarrow> bool" where
  "is_bfp_format f \<longleftrightarrow> f \<in> {Bfp2, Bfp4, Bfp8, Bfp2_b, Bfp4_b, Bfp8_b}"

definition mantissa_bfp_width :: "DataFormat \<Rightarrow> nat" where
  "mantissa_bfp_width f = (if f = Bfp2 \<or> f = Bfp2_b then 1 else if f = Bfp4 \<or> f = Bfp4_b then 3 else 7)"

definition nums_in_dword :: "DataFormat \<Rightarrow> nat" where
  "nums_in_dword f = (if f = Bfp2 \<or> f = Bfp2_b then 16 else if f = Bfp4 \<or> f = Bfp4_b then 8 else 4)"

text \<open>A shift by 32 or more is undefined, so the code shifts in steps of 31.\<close>

fun shift_mantissa :: "nat \<Rightarrow> 32 word \<Rightarrow> 32 word" where
  "shift_mantissa exp_diff mantissa =
     (if exp_diff > 31 then shift_mantissa (exp_diff - 31) (drop_bit 31 mantissa) else drop_bit exp_diff mantissa)"

declare shift_mantissa.simps [simp del]

definition convert_mantissa :: "nat \<Rightarrow> bool \<Rightarrow> float32 \<Rightarrow> 8 word \<Rightarrow> bool \<Rightarrow> 8 word" where
  "convert_mantissa width truncating input shared_exp is_exp_a =
     (if input AND 0x7fffffff = 0 then 0
      else
        let sign = drop_bit 31 (input AND 0x80000000);
            (exp, mantissa) = (if is_exp_a then rebias (exp_field input) (input AND 0x007fffff)
                               else (exp_field input, input AND 0x007fffff));
            mantissa = 0x800000 OR mantissa;
            mantissa = (if ucast shared_exp \<ge> exp
                        then shift_mantissa (unat (ucast shared_exp - exp)) mantissa else mantissa);
            mantissa = (if truncating then drop_bit (24 - width) mantissa
                        else let m = drop_bit (24 - width) (mantissa + push_bit (23 - width) 1)
                             in if m > mask width then mask width else m);
            sign = (if mantissa = 0 then 0 else sign)
        in ucast (push_bit width sign OR mantissa))"

definition convert_u32_to_bfp :: "DataFormat \<Rightarrow> bool \<Rightarrow> float32 \<Rightarrow> 8 word \<Rightarrow> bool \<Rightarrow> 8 word result" where
  "convert_u32_to_bfp fmt truncating input shared_exp is_exp_a =
     rbind (check (is_bfp_format fmt) (TT_ASSERT ''BfpFormat'')) (\<lambda>_.
     Inr (convert_mantissa (mantissa_bfp_width fmt) truncating input shared_exp is_exp_a))"

definition convert_u32_to_bfp8 :: "bool \<Rightarrow> float32 \<Rightarrow> 8 word \<Rightarrow> bool \<Rightarrow> 8 word" where
  "convert_u32_to_bfp8 truncating input shared_exp is_exp_a =
     (if input AND 0x7fffffff = 0 then 0
      else
        let sign = drop_bit 31 (input AND 0x80000000);
            (exp, mantissa) = (if is_exp_a then rebias (exp_field input) (input AND 0x007fffff)
                               else (exp_field input, input AND 0x007fffff));
            mantissa = 0x800000 OR mantissa;
            mantissa = (if ucast shared_exp \<ge> exp
                        then shift_mantissa (unat (ucast shared_exp - exp)) mantissa else mantissa);
            mantissa = (if truncating then drop_bit 17 mantissa
                        else let m = drop_bit 17 (mantissa + 0x10000) in if m > 127 then 127 else m);
            sign = (if mantissa = 0 then 0 else sign)
        in ucast (push_bit 7 sign OR mantissa))"

definition create_packed_bfp_packed_as_u32 :: "DataFormat \<Rightarrow> float32 list \<Rightarrow> 8 word \<Rightarrow> bool \<Rightarrow> 32 word result" where
  "create_packed_bfp_packed_as_u32 fmt u32_vec shared_exp is_exp_a =
     rbind (check (is_bfp_format fmt) (TT_ASSERT ''BfpFormat'')) (\<lambda>_.
     let n = nums_in_dword fmt in
     rfold (\<lambda>i tmp_o.
         if i < length u32_vec
         then rbind (convert_u32_to_bfp fmt False (u32_vec ! i) shared_exp is_exp_a) (\<lambda>conv_num.
              Inr (push_bit (32 div n) tmp_o OR (ucast conv_num AND (push_bit (32 div n) 1 - 1))))
         else Inl (Undefined ''vector access out of range''))
       (rev [0..<n]) 0)"

definition create_packed_bfp8_packed_as_u32 :: "float32 list \<Rightarrow> 8 word \<Rightarrow> bool \<Rightarrow> 32 word result" where
  "create_packed_bfp8_packed_as_u32 u32_vec shared_exp is_exp_a =
     rfold (\<lambda>i tmp_o.
         if i < length u32_vec
         then Inr (push_bit 8 tmp_o OR
                   (ucast (convert_u32_to_bfp8 False (u32_vec ! i) shared_exp is_exp_a) AND (push_bit 8 1 - 1)))
         else Inl (Undefined ''vector access out of range''))
       (rev [0..<4]) 0"

subsection \<open>Packing tiles\<close>

record pack_state =
  packed_result :: "32 word list"
  exponents :: "8 word list"
  pending :: "float32 list"
  packed_data :: "32 word list"
  fp32_element_index :: nat

definition single_row ::
    "float32 list \<Rightarrow> bool \<Rightarrow> nat \<Rightarrow> nat \<times> nat \<times> nat \<Rightarrow> nat \<Rightarrow> (float32 list \<times> nat) result" where
  "single_row fp32_vec row_major tile_index pos element_index =
     (case pos of (tr, tc, i) \<Rightarrow>
      rfold (\<lambda>j (row, idx).
          rbind (at fp32_vec (if row_major then (tr * 16 + i) * 32 + (tc * 16 + j) + 1024 * tile_index else idx))
            (\<lambda>x. Inr (row @ [x], if row_major then idx else Suc idx)))
        [0..<16] ([], element_index))"

definition push_exponent :: "8 word \<Rightarrow> pack_state \<Rightarrow> pack_state result" where
  "push_exponent exp st =
     (let exps = exponents st @ [exp] in
      if length exps mod 4 = 0
      then rbind (get_exp_dword exps) (\<lambda>w. Inr (st\<lparr>packed_result := packed_result st @ [w], exponents := []\<rparr>))
      else Inr (st\<lparr>exponents := exps\<rparr>))"

definition push_datum ::
    "nat \<Rightarrow> (float32 list \<Rightarrow> 8 word \<Rightarrow> 32 word result) \<Rightarrow> 8 word \<Rightarrow> float32 \<Rightarrow> pack_state \<Rightarrow> pack_state result" where
  "push_datum num create exp datum st =
     (let d = pending st @ [datum] in
      if length d mod num = 0
      then rbind (create d exp) (\<lambda>w. Inr (st\<lparr>packed_data := packed_data st @ [w], pending := []\<rparr>))
      else Inr (st\<lparr>pending := d\<rparr>))"

definition pack_row ::
    "nat \<Rightarrow> (float32 list \<Rightarrow> 8 word \<Rightarrow> 32 word result) \<Rightarrow> float32 list \<Rightarrow> bool \<Rightarrow> bool \<Rightarrow> nat \<Rightarrow>
     nat \<times> nat \<times> nat \<Rightarrow> pack_state \<Rightarrow> pack_state result" where
  "pack_row num create fp32_vec row_major is_exp_a tile_index pos st =
     rbind (single_row fp32_vec row_major tile_index pos (fp32_element_index st)) (\<lambda>(row, idx).
     rbind (get_max_exp row is_exp_a) (\<lambda>exp.
     rbind (push_exponent exp (st\<lparr>fp32_element_index := idx\<rparr>)) (\<lambda>st.
     rfold (push_datum num create exp) row st)))"

definition subtile_positions :: "(nat \<times> nat \<times> nat) list" where
  "subtile_positions = concat (map (\<lambda>tr. concat (map (\<lambda>tc. map (\<lambda>i. (tr, tc, i)) [0..<16]) [0..<2])) [0..<2])"

definition pack_tile ::
    "nat \<Rightarrow> (float32 list \<Rightarrow> 8 word \<Rightarrow> 32 word result) \<Rightarrow> float32 list \<Rightarrow> bool \<Rightarrow> bool \<Rightarrow> nat \<Rightarrow>
     pack_state \<Rightarrow> pack_state result" where
  "pack_tile num create fp32_vec row_major is_exp_a tile_index st =
     rbind (rfold (pack_row num create fp32_vec row_major is_exp_a tile_index) subtile_positions
              (st\<lparr>packed_data := []\<rparr>))
       (\<lambda>st. Inr (st\<lparr>packed_result := packed_result st @ packed_data st\<rparr>))"

definition pack_tiles ::
    "nat \<Rightarrow> (float32 list \<Rightarrow> 8 word \<Rightarrow> 32 word result) \<Rightarrow> float32 list \<Rightarrow> bool \<Rightarrow> bool \<Rightarrow> 32 word list result" where
  "pack_tiles num create fp32_vec row_major is_exp_a =
     rbind (check (length fp32_vec mod 1024 = 0) (TT_ASSERT ''fp32_vec.size() % num_float_in_tile == 0'')) (\<lambda>_.
     rbind (rfold (pack_tile num create fp32_vec row_major is_exp_a) [0..<u32 (length fp32_vec div 1024)]
              \<lparr>packed_result = [], exponents = [], pending = [], packed_data = [], fp32_element_index = 0\<rparr>)
       (\<lambda>st. Inr (packed_result st)))"

definition pack_fp32_vec_as_bfp_tiles :: "DataFormat \<Rightarrow> float32 list \<Rightarrow> bool \<Rightarrow> bool \<Rightarrow> 32 word list result" where
  "pack_fp32_vec_as_bfp_tiles fmt fp32_vec row_major is_exp_a =
     rbind (check (is_bfp_format fmt) (TT_ASSERT ''BfpFormat'')) (\<lambda>_.
     pack_tiles (nums_in_dword fmt) (\<lambda>data exp. create_packed_bfp_packed_as_u32 fmt data exp is_exp_a)
       fp32_vec row_major is_exp_a)"

definition pack_fp32_vec_as_bfp4_tiles :: "float32 list \<Rightarrow> bool \<Rightarrow> bool \<Rightarrow> 32 word list result" where
  "pack_fp32_vec_as_bfp4_tiles = pack_fp32_vec_as_bfp_tiles Bfp4_b"

text \<open>The packing loop of \<^verbatim>\<open>bfloat8.hpp\<close>, written out again there for four elements in a word.\<close>

definition bfp8_element ::
    "float32 list \<Rightarrow> bool \<Rightarrow> nat \<Rightarrow> nat \<Rightarrow> nat \<Rightarrow> nat \<Rightarrow> nat \<Rightarrow> float32 list \<times> nat \<Rightarrow> (float32 list \<times> nat) result" where
  "bfp8_element fp32_vec row_major_input tile_index tr tc i j = (\<lambda>(row, idx).
     let (data_index, idx) = (if row_major_input then ((tr * 16 + i) * 32 + (tc * 16 + j) + 1024 * tile_index, idx)
                              else (idx, idx + 1)) in
     rbind (at fp32_vec data_index) (\<lambda>float_num.
     Inr (row @ [float_num], idx)))"

definition bfp8_push_exponent :: "8 word \<Rightarrow> pack_state \<Rightarrow> pack_state result" where
  "bfp8_push_exponent exp st =
     (let st = st\<lparr>exponents := exponents st @ [exp]\<rparr> in
      if length (exponents st) mod 4 = 0
      then rbind (get_exp_dword (exponents st)) (\<lambda>w.
           Inr (st\<lparr>packed_result := packed_result st @ [w], exponents := []\<rparr>))
      else Inr st)"

definition bfp8_push_datum :: "8 word \<Rightarrow> bool \<Rightarrow> float32 \<Rightarrow> pack_state \<Rightarrow> pack_state result" where
  "bfp8_push_datum exp is_exp_a u32_datum st =
     (let st = st\<lparr>pending := pending st @ [u32_datum]\<rparr> in
      if length (pending st) mod 4 = 0
      then rbind (create_packed_bfp8_packed_as_u32 (pending st) exp is_exp_a) (\<lambda>datum.
           Inr (st\<lparr>packed_data := packed_data st @ [datum], pending := []\<rparr>))
      else Inr st)"

definition bfp8_pack_row ::
    "float32 list \<Rightarrow> bool \<Rightarrow> bool \<Rightarrow> nat \<Rightarrow> nat \<Rightarrow> nat \<Rightarrow> nat \<Rightarrow> pack_state \<Rightarrow> pack_state result" where
  "bfp8_pack_row fp32_vec row_major_input is_exp_a tile_index tr tc i st =
     rbind (rfold (bfp8_element fp32_vec row_major_input tile_index tr tc i) [0..<16] ([], fp32_element_index st))
       (\<lambda>(row, idx).
     rbind (get_max_exp row is_exp_a) (\<lambda>exp.
     rbind (bfp8_push_exponent exp (st\<lparr>fp32_element_index := idx\<rparr>)) (\<lambda>st.
     rfold (bfp8_push_datum exp is_exp_a) row st)))"

definition bfp8_pack_tile :: "float32 list \<Rightarrow> bool \<Rightarrow> bool \<Rightarrow> nat \<Rightarrow> pack_state \<Rightarrow> pack_state result" where
  "bfp8_pack_tile fp32_vec row_major_input is_exp_a tile_index st =
     rbind (rfold (\<lambda>tr. rfold (\<lambda>tc. rfold (bfp8_pack_row fp32_vec row_major_input is_exp_a tile_index tr tc) [0..<16])
                                [0..<2]) [0..<2] (st\<lparr>packed_data := []\<rparr>))
       (\<lambda>st. Inr (st\<lparr>packed_result := packed_result st @ packed_data st\<rparr>))"

definition pack_fp32_vec_as_bfp8_tiles :: "float32 list \<Rightarrow> bool \<Rightarrow> bool \<Rightarrow> 32 word list result" where
  "pack_fp32_vec_as_bfp8_tiles fp32_vec row_major_input is_exp_a =
     rbind (check (length fp32_vec mod 1024 = 0) (TT_ASSERT ''fp32_vec.size() % num_float_in_tile == 0'')) (\<lambda>_.
     let num_tiles = u32 (length fp32_vec div 1024) in
     rbind (rfold (bfp8_pack_tile fp32_vec row_major_input is_exp_a) [0..<num_tiles]
              \<lparr>packed_result = [], exponents = [], pending = [], packed_data = [], fp32_element_index = 0\<rparr>)
       (\<lambda>st. Inr (packed_result st)))"

text \<open>The test vectors of a constant value, with the assertion on the size of the result.\<close>

definition create_constant_vector_of_bfp ::
    "(float32 list \<Rightarrow> bool \<Rightarrow> bool \<Rightarrow> 32 word list result) \<Rightarrow> DataFormat \<Rightarrow> nat \<Rightarrow> float32 \<Rightarrow> bool \<Rightarrow> 32 word list result" where
  "create_constant_vector_of_bfp pack fmt num_bytes value is_exp_a =
     rbind (tile_size fmt) (\<lambda>single.
     rbind (check (num_bytes mod single = 0) (TT_ASSERT ''num_bytes % single_tile_size == 0'')) (\<lambda>_.
     rbind (pack (replicate (num_bytes div single * 1024) value) True is_exp_a) (\<lambda>packed.
     rbind (check (length packed = num_bytes div 4) (TT_ASSERT ''packed_result.size() == packed_data_size'')) (\<lambda>_.
     Inr packed))))"

definition create_constant_vector_of_bfp8 :: "nat \<Rightarrow> float32 \<Rightarrow> bool \<Rightarrow> 32 word list result" where
  "create_constant_vector_of_bfp8 = create_constant_vector_of_bfp pack_fp32_vec_as_bfp8_tiles Bfp8_b"

definition create_constant_vector_of_bfp4 :: "nat \<Rightarrow> float32 \<Rightarrow> bool \<Rightarrow> 32 word list result" where
  "create_constant_vector_of_bfp4 = create_constant_vector_of_bfp pack_fp32_vec_as_bfp4_tiles Bfp4_b"

subsection \<open>Unpacking tiles\<close>

definition lanes_of :: "nat \<Rightarrow> 32 word \<Rightarrow> 32 word list" where
  "lanes_of bits w = map (\<lambda>k. drop_bit (bits * k) (w AND push_bit (bits * k) (mask bits))) [0..<32 div bits]"

text \<open>The mantissa is shifted left until its top bit is set; the number of shifts is counted.\<close>

definition normalise :: "nat \<Rightarrow> 32 word \<Rightarrow> 32 word \<times> 32 word" where
  "normalise width man =
     fold (\<lambda>shift_val (m, cnt).
         if sint m > 2 ^ (width - 1) \<or> m = 2 ^ (width - 1) then (m, cnt)
         else (push_bit 1 m, word_of_nat (shift_val + 1)))
       [0..<width] (man, 0)"

definition unpack_lane :: "nat \<Rightarrow> 32 word \<Rightarrow> 32 word \<Rightarrow> 32 word \<Rightarrow> float32" where
  "unpack_lane width rebias_offset exp lane =
     (let sign = drop_bit width lane;
          man = lane AND mask width;
          (man_shifted, shift_cnt) = normalise width man;
          man_shifted = push_bit 1 man_shifted AND mask width;
          man' = (if man = 0 then man else man_shifted);
          exp' = (if man = 0 then 0 else exp - (rebias_offset + shift_cnt))
      in push_bit 31 sign OR (push_bit 23 exp' OR push_bit (23 - width) man'))"

text \<open>The assertion combines three masks of lanes with \<^verbatim>\<open>&\<close>, but the last one is negated with \<^verbatim>\<open>!\<close>, which gives 0 or
  1: only lane 0 is checked, and only when no mantissa of the vector is zero.\<close>

definition unpack_assertion :: "nat \<Rightarrow> 32 word \<Rightarrow> 32 word list \<Rightarrow> unit result" where
  "unpack_assertion width exp lanes =
     check (\<not> (sint exp > 0 \<and> sint (snd (normalise width (hd lanes AND mask width))) > sint exp \<and>
               list_all (\<lambda>lane. lane AND mask width \<noteq> 0) lanes))
       (TT_ASSERT ''Device returned incorrect data: The Shift Count for a non-zero exponent is greater than the exponent value.'')"

definition storeu :: "float32 list \<Rightarrow> nat \<Rightarrow> float32 list \<Rightarrow> float32 list result" where
  "storeu vec base vals =
     (if base + length vals \<le> length vec then Inr (take base vec @ vals @ drop (base + length vals) vec)
      else Inl (Undefined ''store out of range''))"

definition unpack_bfp8_step ::
    "32 word list \<Rightarrow> bool \<Rightarrow> 32 word \<Rightarrow> nat \<times> nat \<times> nat \<times> nat \<times> nat \<Rightarrow> float32 list \<times> nat \<Rightarrow>
     (float32 list \<times> nat) result" where
  "unpack_bfp8_step bfp8_tiles row_major rebias_offset pos st =
     (case pos of (tile_index, tr, tc, i, j) \<Rightarrow> case st of (float_vec, idx) \<Rightarrow>
      let data_index = tr * 128 + tc * 64 + i * 4 + j div 4;
          tile_and_data_index = data_index + 272 * tile_index in
      rbind (at bfp8_tiles (data_index div 16 + 272 * tile_index)) (\<lambda>exp_word.
      rbind (get_byte exp_word (tile_and_data_index div 4 mod 4)) (\<lambda>exp.
      rbind (at bfp8_tiles (16 + tile_and_data_index)) (\<lambda>first.
      rbind (at bfp8_tiles (16 + tile_and_data_index + 1)) (\<lambda>second.
      let lanes = lanes_of 8 first @ lanes_of 8 second in
      rbind (unpack_assertion 7 exp lanes) (\<lambda>_.
      let base = (if row_major then (tc * 16 + j) + 32 * (tr * 16 + i) + tile_index * 1024 else idx) in
      rbind (storeu float_vec base (map (unpack_lane 7 rebias_offset exp) lanes)) (\<lambda>float_vec.
      Inr (float_vec, if row_major then idx else idx + 8))))))))"

definition unpack_bfp8_tiles_into_float_vec :: "32 word list \<Rightarrow> bool \<Rightarrow> bool \<Rightarrow> float32 list result" where
  "unpack_bfp8_tiles_into_float_vec bfp8_tiles row_major is_exp_a =
     rbind (tile_size Bfp8_b) (\<lambda>single.
     let size_bytes = u32 (length bfp8_tiles * 4) in
     rbind (check (size_bytes mod single = 0) (TT_ASSERT ''size_bytes % single_bfp8_tile_size == 0'')) (\<lambda>_.
     let num_tiles = size_bytes div single in
     rbind (rfold (unpack_bfp8_step bfp8_tiles row_major (if is_exp_a then - 112 else 0))
              (concat (map (\<lambda>t. concat (map (\<lambda>(tr, tc, i). [(t, tr, tc, i, 0), (t, tr, tc, i, 8)]) subtile_positions))
                 [0..<num_tiles]))
              (replicate (num_tiles * 1024) 0, 0))
       (\<lambda>(float_vec, _). Inr float_vec)))"

fun log2_loop :: "nat \<Rightarrow> nat" where
  "log2_loop n = (if n div 2 = 0 then 0 else Suc (log2_loop (n div 2)))"

declare log2_loop.simps [simp del]

definition unpack_bfp4_step ::
    "32 word list \<Rightarrow> bool \<Rightarrow> 32 word \<Rightarrow> nat \<times> nat \<times> nat \<times> nat \<Rightarrow> float32 list \<times> nat \<Rightarrow>
     (float32 list \<times> nat) result" where
  "unpack_bfp4_step bfp_tiles row_major rebias_offset pos st =
     (case pos of (tile_index, tr, tc, i) \<Rightarrow> case st of (float_vec, idx) \<Rightarrow>
      let data_index = tr * 64 + tc * 32 + i * 2;
          tile_and_data_index = data_index + 144 * tile_index in
      rbind (at bfp_tiles (data_index div 2 ^ log2_loop (16 div 8 * 4) + 144 * tile_index)) (\<lambda>exp_word.
      rbind (get_byte exp_word (tile_and_data_index div 2 ^ log2_loop (16 div 8) mod 4)) (\<lambda>exp.
      rbind (at bfp_tiles (16 + tile_and_data_index)) (\<lambda>first_val.
      rbind (at bfp_tiles (16 + tile_and_data_index + 1)) (\<lambda>second_val.
      rbind (unpack_assertion 3 exp (lanes_of 4 first_val)) (\<lambda>_.
      rbind (unpack_assertion 3 exp (lanes_of 4 second_val)) (\<lambda>_.
      let base = (if row_major then tc * 16 + 32 * (tr * 16 + i) + tile_index * 1024 else idx) in
      rbind (storeu float_vec base (map (unpack_lane 3 rebias_offset exp) (lanes_of 4 first_val))) (\<lambda>float_vec.
      rbind (storeu float_vec (base + 8) (map (unpack_lane 3 rebias_offset exp) (lanes_of 4 second_val))) (\<lambda>float_vec.
      Inr (float_vec, if row_major then idx else idx + 16))))))))))"

definition unpack_bfp4_tiles_into_float_vec :: "32 word list \<Rightarrow> bool \<Rightarrow> bool \<Rightarrow> float32 list result" where
  "unpack_bfp4_tiles_into_float_vec bfp_tiles row_major is_exp_a =
     rbind (tile_size Bfp4_b) (\<lambda>single.
     let size_bytes = u32 (length bfp_tiles * 4) in
     rbind (check (size_bytes mod single = 0) (TT_ASSERT ''size_bytes % single_bfp_tile_size == 0'')) (\<lambda>_.
     let num_tiles = size_bytes div single in
     rbind (rfold (unpack_bfp4_step bfp_tiles row_major (if is_exp_a then - 112 else 0))
              (concat (map (\<lambda>t. map (\<lambda>p. (t, p)) subtile_positions) [0..<num_tiles]))
              (replicate (num_tiles * 1024) 0, 0))
       (\<lambda>(float_vec, _). Inr float_vec)))"

end
