(* ===== verification/Block_Float_Props.thy ===== *)
theory Block_Float_Props
  imports Block_Float
begin

text \<open>
  Properties of the conversion of single data in block floating point: the two copies of the conversion to Bfp8 agree,
  and unpacking a datum and packing it again gives the datum back, but for zeros.
\<close>

subsection \<open>The two copies of the conversion\<close>

lemma convert_mantissa_7: "convert_mantissa 7 t w s a = convert_u32_to_bfp8 t w s a"
proof -
  have c: "mask 7 = (127 :: 32 word)" "push_bit 16 1 = (0x10000 :: 32 word)"
    by (simp_all add: mask_eq_exp_minus_1)
  have n: "24 - 7 = (17 :: nat)" "23 - 7 = (16 :: nat)" by simp_all
  show ?thesis unfolding convert_mantissa_def convert_u32_to_bfp8_def n c by (rule refl)
qed

lemma create_packed_8:
  "create_packed_bfp_packed_as_u32 Bfp8_b xs e a = create_packed_bfp8_packed_as_u32 xs e a"
proof -
  have "is_bfp_format Bfp8_b" "nums_in_dword Bfp8_b = 4" "mantissa_bfp_width Bfp8_b = 7"
    by (simp_all add: is_bfp_format_def nums_in_dword_def mantissa_bfp_width_def)
  then show ?thesis
    by (simp add: create_packed_bfp_packed_as_u32_def create_packed_bfp8_packed_as_u32_def convert_u32_to_bfp_def
        convert_mantissa_7 cong: if_cong)
qed

subsection \<open>A datum unpacked and packed again\<close>

lemma shift_mantissa_drop: "shift_mantissa n m = drop_bit n m"
proof (induction n m rule: shift_mantissa.induct)
  case (1 n m)
  show ?case
  proof (cases "n > 31")
    case True
    then have "shift_mantissa n m = drop_bit (n - 31) (drop_bit 31 m)" using 1 by (simp add: shift_mantissa.simps [of n m])
    also have "\<dots> = drop_bit n m" using True by simp
    finally show ?thesis .
  qed (simp add: shift_mantissa.simps [of n m])
qed

lemma masks:
  "(0x7fffffff :: 32 word) = mask 31" "(0x007fffff :: 32 word) = mask 23"
  "(0x7f800000 :: 32 word) = push_bit 23 (mask 8)" "(0x80000000 :: 32 word) = push_bit 31 (mask 1)"
  "(0x800000 :: 32 word) = push_bit 23 1"
  by (simp_all add: mask_eq_exp_minus_1)

text \<open>A word of \<open>k\<close> bits.\<close>

definition fits :: "nat \<Rightarrow> 32 word \<Rightarrow> bool" where
  "fits k w \<longleftrightarrow> take_bit k w = w"

lemma fits_bit: "fits k w \<Longrightarrow> bit w n \<Longrightarrow> n < k"
  unfolding fits_def by (metis bit_take_bit_iff)

lemma fitsI: "(\<And>n. bit w n \<Longrightarrow> n < k) \<Longrightarrow> fits k w"
  unfolding fits_def by (rule bit_word_eqI) (auto simp: bit_simps)

lemma fits_unat: "fits k w \<Longrightarrow> unat w < 2 ^ k"
  unfolding fits_def by (metis take_bit_nat_less_exp unsigned_take_bit_eq)

lemma unat_fits: "unat w < 2 ^ k \<Longrightarrow> fits k w"
  unfolding fits_def by (metis take_bit_nat_eq_self unsigned_take_bit_eq word_unat_eq_iff)

lemma unat_of_small: "n < 2 ^ 32 \<Longrightarrow> unat (of_nat n :: 32 word) = n"
  by (simp add: unsigned_of_nat take_bit_nat_eq_self)

lemma float_fields:
  assumes s: "fits 1 s" and e: "fits 8 e" and m: "fits 23 m"
  defines "x \<equiv> push_bit 31 s OR (push_bit 23 e OR m)"
  shows "x AND 0x7fffffff = push_bit 23 e OR m" and "x AND 0x007fffff = m" and "exp_field x = e"
    and "drop_bit 31 (x AND 0x80000000) = s"
proof -
  have b: "bit s n \<Longrightarrow> n < 1" "bit e n \<Longrightarrow> n < 8" "bit m n \<Longrightarrow> n < 23" for n
    using fits_bit [OF s] fits_bit [OF e] fits_bit [OF m] by simp_all
  have c: "bit e (n - 23) \<Longrightarrow> n - 23 < 8" "bit s (n - 31) \<Longrightarrow> n - 31 < 1" for n
    using b(1) [of "n - 31"] b(2) [of "n - 23"] by blast+
  show "x AND 0x7fffffff = push_bit 23 e OR m" unfolding x_def masks
    by (rule bit_word_eqI) (auto simp: bit_simps dest: b c)
  show "x AND 0x007fffff = m" unfolding x_def masks by (rule bit_word_eqI) (auto simp: bit_simps dest: b c)
  show "exp_field x = e" unfolding x_def masks exp_field_def
    by (rule bit_word_eqI) (auto simp: bit_simps dest: b c)
  show "drop_bit 31 (x AND 0x80000000) = s" unfolding x_def masks
    by (rule bit_word_eqI) (auto simp: bit_simps dest: b c)
qed

lemma top_bit_iff:
  assumes "fits w m" and "1 \<le> w" and "w \<le> 7"
  shows "sint m > 2 ^ (w - 1) \<or> m = 2 ^ (w - 1) \<longleftrightarrow> bit m (w - 1)"
proof -
  have u: "unat m < 2 ^ w" using assms(1) by (rule fits_unat)
  have "(2 :: nat) ^ w \<le> 2 ^ 7" using assms(3) by (rule power_increasing) simp
  then have "unat m < 128" using u by simp
  have s: "sint m = int (unat m)"
  proof -
    have u: "uint m = int (unat m)" by (rule uint_nat)
    then have "uint m < 128" using \<open>unat m < 128\<close> by linarith
    then have b: "uint m < 2 ^ 31" by simp
    have "- (2 ^ 31) \<le> uint m" by (rule order_trans [of _ 0]) simp_all
    then have "signed_take_bit 31 (uint m) = uint m" using b by (rule signed_take_bit_int_eq_self)
    moreover have "LENGTH(32) - Suc 0 = 31" by simp
    then have "sint m = signed_take_bit 31 (uint m)" using sint_uint [of m] by (simp only:)
    ultimately have "sint m = uint m" by (simp only:)
    then show ?thesis using u by (simp only:)
  qed
  have "(2 :: nat) ^ (w - 1) \<le> 2 ^ 6" using assms(3) by (intro power_increasing) simp_all
  then have "unat (of_nat (2 ^ (w - 1)) :: 32 word) = 2 ^ (w - 1)" by (intro unat_of_small) simp
  then have p: "unat (2 ^ (w - 1) :: 32 word) = 2 ^ (w - 1)" by simp
  have e: "m = 2 ^ (w - 1) \<longleftrightarrow> unat m = 2 ^ (w - 1)" using p by (simp only: word_unat_eq_iff)
  have "bit m (w - 1) \<longleftrightarrow> odd (unat m div 2 ^ (w - 1))" 
    using bit_unsigned_iff [of m "w - 1", where 'a = nat] by (simp add: bit_iff_odd)
  also have "\<dots> \<longleftrightarrow> 2 ^ (w - 1) \<le> unat m"
  proof -
    have "(2 :: nat) ^ w = 2 * 2 ^ (w - 1)" using assms(2) by (cases w) simp_all
    moreover define q where "q = unat m div 2 ^ (w - 1)"
    ultimately have "q < 2" using u unfolding q_def by (intro less_mult_imp_div_less) simp
    then have "odd q \<longleftrightarrow> 0 < q" by (auto simp: less_2_cases_iff)
    then show ?thesis unfolding q_def by (simp only: div_greater_zero_iff) simp
  qed
  also have "\<dots> \<longleftrightarrow> int (unat m) > 2 ^ (w - 1) \<or> unat m = 2 ^ (w - 1)"
    by (metis le_less of_nat_less_iff of_nat_numeral of_nat_power)
  finally show ?thesis unfolding s e by blast
qed

text \<open>Normalising shifts a non-zero mantissa until its top bit is set, by fewer places than it has bits.\<close>

lemma normalise_correct:
  assumes w: "1 \<le> w" "w \<le> 7" and m: "fits w m" "m \<noteq> 0"
  obtains j where "j < w" "normalise w m = (push_bit j m, word_of_nat j)" "fits w (push_bit j m)"
    "bit (push_bit j m) (w - 1)"
proof -
  define f where "f = (\<lambda>shift_val (m :: 32 word, cnt :: 32 word).
    if sint m > 2 ^ (w - 1) \<or> m = 2 ^ (w - 1) then (m, cnt) else (push_bit 1 m, word_of_nat (shift_val + 1)))"
  have "\<exists>j\<le>k. fold f [0..<k] (m, 0) = (push_bit j m, word_of_nat j) \<and> fits w (push_bit j m) \<and>
      (j < k \<longrightarrow> bit (push_bit j m) (w - 1))" for k
  proof (induction k)
    case (Suc k)
    then obtain j where j: "j \<le> k" "fold f [0..<k] (m, 0) = (push_bit j m, word_of_nat j)" "fits w (push_bit j m)"
        "j < k \<longrightarrow> bit (push_bit j m) (w - 1)" by blast
    have step: "fold f [0..<Suc k] (m, 0) = f k (push_bit j m, word_of_nat j)" using j(2) by simp
    show ?case
    proof (cases "bit (push_bit j m) (w - 1)")
      case True
      then have "f k (push_bit j m, word_of_nat j) = (push_bit j m, word_of_nat j)"
        using top_bit_iff [OF j(3) w] by (simp add: f_def)
      then show ?thesis using step j True by (intro exI [of _ j]) simp
    next
      case False
      then have "j = k" using j by auto
      have "f k (push_bit j m, word_of_nat j) = (push_bit (Suc j) m, word_of_nat (Suc j))"
        using top_bit_iff [OF j(3) w] False \<open>j = k\<close> by (simp add: f_def)
      moreover have "fits w (push_bit (Suc j) m)"
      proof (rule fitsI)
        fix n assume "bit (push_bit (Suc j) m) n"
        then have "Suc j \<le> n" "n < 32" "bit m (n - Suc j)" unfolding bit_push_bit_iff by auto
        then have "j \<le> n - 1" "n - 1 < 32" "bit m (n - 1 - j)" "0 < n" by simp_all
        then have b: "bit (push_bit j m) (n - 1)" "0 < n" by (simp_all add: bit_push_bit_iff)
        then have "n - 1 < w" using fits_bit [OF j(3)] by blast
        moreover have "n - 1 \<noteq> w - 1" using b(1) False by auto
        ultimately show "n < w" by simp
      qed
      ultimately show ?thesis using step \<open>j = k\<close> by (intro exI [of _ "Suc j"]) simp
    qed
  qed (use m in simp)
  from this [of w] obtain j where j: "j \<le> w" "fold f [0..<w] (m, 0) = (push_bit j m, word_of_nat j)"
      "fits w (push_bit j m)" "j < w \<longrightarrow> bit (push_bit j m) (w - 1)" by blast
  have "j \<noteq> w"
  proof
    assume "j = w"
    have "\<not> bit m n" for n
    proof
      assume n: "bit m n"
      then have "n < w" using fits_bit [OF m(1)] by blast
      then have "bit (push_bit w m) (w + n)" using n w by (simp add: bit_simps)
      then show False using fits_bit [OF j(3)] \<open>j = w\<close> by fastforce
    qed
    then show False using m(2) by (auto intro: bit_word_eqI)
  qed
  then have "j < w" using j(1) by simp
  then show thesis using that j by (simp add: normalise_def f_def)
qed

text \<open>The steps of a round trip, on the bits of the words.\<close>

lemma lane_bits:
  fixes lane :: "32 word"
  assumes w: "width \<le> 7" and lane: "lane < 2 ^ (width + 1)" and b: "bit lane n"
  shows "n < width + 1"
proof -
  have "(2 :: nat) ^ (width + 1) \<le> 2 ^ 8" using w by (intro power_increasing) simp_all
  then have "unat (of_nat (2 ^ (width + 1)) :: 32 word) = 2 ^ (width + 1)" by (intro unat_of_small) simp
  then have "unat lane < 2 ^ (width + 1)" using lane by (simp add: word_less_nat_alt)
  then show ?thesis using fits_bit [OF unat_fits] b by blast
qed

lemma exponent_not_zero:
  fixes e ms :: "32 word"
  assumes e: "unat e < 2 ^ 8" "e \<noteq> 0"
  shows "push_bit 23 e OR ms \<noteq> 0"
proof
  assume z: "push_bit 23 e OR ms = 0"
  have "\<not> bit e n" for n
  proof
    assume b: "bit e n"
    then have "n < 8" using fits_bit [OF unat_fits [OF e(1)]] by blast
    then have "bit (push_bit 23 e OR ms) (23 + n)" using b by (simp add: bit_simps)
    then show False unfolding z by simp
  qed
  then show False using e(2) by (auto intro: bit_word_eqI)
qed

lemma hidden_one:
  fixes p :: "32 word"
  assumes w: "1 \<le> width" "width \<le> 7" and pw: "\<And>n. bit p n \<Longrightarrow> n < width" and pt: "bit p (width - 1)"
  shows "0x800000 OR push_bit (23 - width) (push_bit 1 p AND mask width) = push_bit (24 - width) p"
    (is "_ OR push_bit _ ?ms = _")
proof (rule bit_word_eqI)
  have hb: "bit (0x800000 :: 32 word) n \<longleftrightarrow> n = 23" for n
    unfolding masks(5) bit_push_bit_iff bit_1_iff by auto
  have msb: "bit ?ms n \<longleftrightarrow> n < width \<and> 1 \<le> n \<and> bit p (n - 1)" for n
    using w unfolding bit_and_iff bit_mask_iff bit_push_bit_iff by auto
  fix n assume n: "n < LENGTH(32)"
  consider "n = 23" | "n < 24 - width" | "24 - width \<le> n" "n < 23" | "24 \<le> n" using w by linarith
  then show "bit (0x800000 OR push_bit (23 - width) ?ms) n = bit (push_bit (24 - width) p) n"
  proof cases
    case 1
    then have "n - (24 - width) = width - 1" "24 - width \<le> n" using w by auto
    then show ?thesis using pt 1 unfolding bit_or_iff hb bit_push_bit_iff by simp
  next
    case 2
    then have "23 - width \<le> n \<Longrightarrow> n - (23 - width) = 0" "n \<noteq> 23" using w by linarith+
    then show ?thesis using 2 unfolding bit_or_iff hb bit_push_bit_iff msb by auto
  next
    case 3
    then have q: "n - (23 - width) = Suc (n - (24 - width))" using w by linarith
    have "23 - width \<le> n" "Suc (n - (24 - width)) < width" "n \<noteq> 23" using 3 w by linarith+
    then show ?thesis using 3(1) n unfolding bit_or_iff hb bit_push_bit_iff msb q by simp
  next
    case 4
    then have "\<not> n - (24 - width) < width" "\<not> n - (23 - width) < width" "n \<noteq> 23" using w by linarith+
    then show ?thesis using pw unfolding bit_or_iff hb bit_push_bit_iff msb by auto
  qed
qed

lemma shift_back:
  fixes m :: "32 word"
  assumes w: "width \<le> 7" and j: "j < width" and mb: "\<And>n. bit m n \<Longrightarrow> n < width"
    and pw: "\<And>n. bit (push_bit j m) n \<Longrightarrow> n < width"
  shows "shift_mantissa j (push_bit (24 - width) (push_bit j m)) = push_bit (24 - width) m"
proof (unfold shift_mantissa_drop, rule bit_word_eqI)
  fix n assume n: "n < LENGTH(32)"
  have pb: "bit (push_bit j m) n \<longleftrightarrow> j \<le> n \<and> n < 32 \<and> bit m (n - j)" for n
    unfolding bit_push_bit_iff by auto
  have "j + n < 24" if "24 - width \<le> n" "bit m (n - (24 - width))"
  proof -
    have "n - (24 - width) < width" using that mb by blast
    then have "n - (24 - width) + j < 32" using j w by linarith
    then have "bit (push_bit j m) (n - (24 - width) + j)" using that(2) pb by simp
    then have "n - (24 - width) + j < width" by (rule pw)
    then show ?thesis using that(1) w by linarith
  qed
  moreover have "j \<le> j + n - (24 - width) \<longleftrightarrow> 24 - width \<le> n" if "24 - width \<le> j + n" using that by linarith
  moreover have "j + n - (24 - width) - j = n - (24 - width)" if "24 - width \<le> n" using that by linarith
  ultimately show "bit (drop_bit j (push_bit (24 - width) (push_bit j m))) n = bit (push_bit (24 - width) m) n"
    using n unfolding bit_drop_bit_eq comp_def bit_push_bit_iff pb by (auto simp: trans_le_add2)
qed

lemma drop_round_bit:
  fixes m :: "32 word"
  assumes w: "1 \<le> width" "width \<le> 7" and mb: "\<And>n. bit m n \<Longrightarrow> n < width"
  shows "drop_bit (24 - width) (push_bit (24 - width) m + push_bit (23 - width) 1) = m"
proof -
  have "push_bit (24 - width) m AND push_bit (23 - width) 1 = 0"
    by (rule bit_word_eqI) (use w in \<open>auto simp: bit_simps\<close>)
  then have a: "push_bit (24 - width) m + push_bit (23 - width) 1 = push_bit (24 - width) m OR push_bit (23 - width) 1"
    by (rule disjunctive_add_eq_or)
  show ?thesis
    unfolding a
  proof (rule bit_word_eqI)
    fix n assume "n < LENGTH(32)"
    have "24 - width + n < 32" if "bit m n" using that mb w by fastforce
    then show "bit (drop_bit (24 - width) (push_bit (24 - width) m OR push_bit (23 - width) 1)) n = bit m n"
      using w by (auto simp: bit_simps)
  qed
qed

text \<open>Packing a float whose fields are those of an unpacked datum: \<open>p\<close> is the mantissa shifted until its top bit is set.\<close>

lemma repack:
  fixes lane m p e :: "32 word"
  assumes width: "1 \<le> width" "width \<le> 7" and j: "j < width" and m: "m = lane AND mask width" "m \<noteq> 0"
    and p: "p = push_bit j m" "fits width p" "bit p (width - 1)" and lane: "lane < 2 ^ (width + 1)"
    and e: "unat e < 2 ^ 8"
  defines "x \<equiv> push_bit 31 (drop_bit width lane) OR (push_bit 23 e OR push_bit (23 - width) (push_bit 1 p AND mask width))"
  assumes nz: "push_bit 23 e OR push_bit (23 - width) (push_bit 1 p AND mask width) \<noteq> 0"
    and E: "(if is_exp_a then rebias e (push_bit (23 - width) (push_bit 1 p AND mask width))
             else (e, push_bit (23 - width) (push_bit 1 p AND mask width))) = (E, push_bit (23 - width) (push_bit 1 p AND mask width))"
    and d: "E \<le> ucast shared_exp" "unat (ucast shared_exp - E) = j"
  shows "convert_mantissa width False x shared_exp is_exp_a = ucast lane"
proof -
  have mb: "bit m n \<longleftrightarrow> n < width \<and> bit lane n" for n using width by (auto simp: m(1) bit_simps)
  have pw: "bit p n \<Longrightarrow> n < width" for n using fits_bit [OF p(2)] by blast
  define sign where "sign = drop_bit width lane"
  define ms where "ms = push_bit 1 p AND mask width"
  have fs: "fits 1 sign" by (rule fitsI) (auto simp: sign_def bit_simps dest: lane_bits [OF width(2) lane])
  have fM: "fits 23 (push_bit (23 - width) ms)" by (rule fitsI) (use width in \<open>auto simp: ms_def bit_simps\<close>)
  have x: "x = push_bit 31 sign OR (push_bit 23 e OR push_bit (23 - width) ms)" by (simp add: x_def sign_def ms_def)
  note f = float_fields [OF fs unat_fits [OF e] fM, folded x]
  have h: "0x800000 OR push_bit (23 - width) ms = push_bit (24 - width) p"
    unfolding ms_def by (rule hidden_one [OF width pw p(3)])
  have sh: "shift_mantissa j (push_bit (24 - width) p) = push_bit (24 - width) m"
    unfolding p(1) by (rule shift_back [OF width(2) j]) (use mb pw in \<open>auto simp: p(1)\<close>)
  have r: "drop_bit (24 - width) (push_bit (24 - width) m + push_bit (23 - width) 1) = m"
    by (rule drop_round_bit [OF width]) (use mb in blast)
  have mm: "\<not> m > mask width" by (simp add: m(1) not_less word_and_le1)
  have lane_eq: "push_bit width sign OR m = lane"
    by (rule bit_word_eqI) (auto simp: sign_def m(1) bit_simps)
  show ?thesis
    unfolding convert_mantissa_def Let_def f(1,2,3,4) if_not_P [OF nz [folded ms_def]] if_False E [folded ms_def] prod.case h
      if_P [OF d(1)] d(2) sh r if_not_P [OF mm] if_not_P [OF m(2)] lane_eq
    by (rule refl)
qed

lemma sign_only: "push_bit 31 (sign :: 32 word) AND mask 31 = 0"
  by (rule bit_word_eqI) (auto simp: bit_simps)

lemma top_bit_only:
  fixes p :: "32 word"
  assumes w: "1 \<le> width" "width \<le> 7" and p: "fits width p" "bit p (width - 1)"
  shows "push_bit (23 - width) (push_bit 1 p AND mask width) = 0 \<longleftrightarrow> p = 2 ^ (width - 1)"
proof
  assume z: "push_bit (23 - width) (push_bit 1 p AND mask width) = 0"
  show "p = 2 ^ (width - 1)"
  proof (rule bit_word_eqI)
    fix n assume n: "n < LENGTH(32)"
    have "\<not> bit p n" if "n < width - 1"
    proof
      assume "bit p n"
      moreover have "24 - width + n - (23 - width) = n + 1" using w by linarith
      ultimately have "bit (push_bit (23 - width) (push_bit 1 p AND mask width)) (24 - width + n)"
        using w that unfolding bit_push_bit_iff bit_and_iff bit_mask_iff by auto
      then show False unfolding z by simp
    qed
    moreover have "\<not> bit p n" if "width \<le> n" using fits_bit [OF p(1)] that by force
    ultimately have "n = width - 1" if "bit p n" using that by fastforce
    then show "bit p n = bit (2 ^ (width - 1) :: 32 word) n" using p(2) n by (auto simp: bit_simps)
  qed
next
  assume e: "p = 2 ^ (width - 1)"
  have "push_bit 1 p = 2 ^ width" using e w by (cases width) simp_all
  moreover have "(2 :: 32 word) ^ width AND mask width = 0" by (rule bit_word_eqI) (auto simp: bit_simps)
  ultimately show "push_bit (23 - width) (push_bit 1 p AND mask width) = 0" by simp
qed

lemma rebias_offset_exponent:
  fixes s j :: "32 word"
  assumes "unat s \<le> 31" and "j \<le> s"
  shows "unat (s - (- 112 + j)) = unat s - unat j + 112" and "rebias (s - (- 112 + j)) mantissa = (s - j, mantissa)"
proof -
  have le: "unat j \<le> unat s" using assms(2) by (simp add: word_le_nat_alt)
  have e: "s - (- 112 + j) = word_of_nat (unat s - unat j + 112)"
    using le by (simp add: of_nat_diff algebra_simps)
  show u: "unat (s - (- 112 + j)) = unat s - unat j + 112" unfolding e using assms(1) by (intro unat_of_small) simp
  have sn: "sint (word_of_nat k :: 32 word) = int k" if "k < 2 ^ 31" for k
    using that by (simp add: signed_of_nat signed_take_bit_int_eq_self)
  have "sint (s - (- 112 + j)) = int (unat s - unat j + 112)" unfolding e by (rule sn) (use assms(1) in simp)
  moreover have "word_of_int (int (unat s - unat j)) = s - j" using le by (simp add: of_nat_diff)
  moreover have "unat s - unat j \<le> 31" using assms(1) by linarith
  ultimately show "rebias (s - (- 112 + j)) mantissa = (s - j, mantissa)"
    using \<open>unat s - unat j \<le> 31\<close> by (simp add: rebias_def Let_def)
qed

text \<open>(C34) A datum of a Bfp8 or Bfp4 tile, unpacked to a float and packed again with the same shared exponent, is unchanged, but
  for zeros.  This is for every sign, mantissa and shared exponent in both exponent modes, where normalising the mantissa needs at most as many
  shifts as the shared exponent says, and the shared exponent of the five-bit formats is at most 31.  A datum with mantissa zero becomes
  zero: the negative zero loses its sign.  In the eight-bit mode a datum that needs exactly as many shifts as its exponent and whose
  mantissa is a single bit becomes zero too, since it is unpacked to a float whose exponent and mantissa are zero.  The first condition is what the
  assertion of the unpackers says, though the code checks less (see \<open>unpack_assertion_misses_lanes\<close>).\<close>

theorem bfp_lane_roundtrip:
  assumes width: "width = 3 \<or> width = 7" and lane: "lane < 2 ^ (width + 1)"
    and shifts: "lane AND mask width \<noteq> 0 \<Longrightarrow> snd (normalise width (lane AND mask width)) \<le> ucast shared_exp"
    and exp_a: "is_exp_a \<Longrightarrow> shared_exp \<le> 31"
  shows "convert_mantissa width False (unpack_lane width (if is_exp_a then - 112 else 0) (ucast shared_exp) lane) shared_exp is_exp_a =
    (if lane AND mask width = 0 \<or> \<not> is_exp_a \<and> normalise width (lane AND mask width) = (2 ^ (width - 1), ucast shared_exp)
     then 0 else ucast lane)"
proof (cases "lane AND mask width = 0")
  case True
  then have "unpack_lane width (if is_exp_a then - 112 else 0) (ucast shared_exp) lane AND 0x7fffffff = 0"
    unfolding masks by (simp add: unpack_lane_def Let_def sign_only split: prod.split)
  then show ?thesis using True by (simp add: convert_mantissa_def)
next
  case False
  have w: "1 \<le> width" "width \<le> 7" using width by auto
  define m where "m = lane AND mask width"
  have mb: "bit m n \<longleftrightarrow> n < width \<and> bit lane n" for n using w by (auto simp: m_def bit_simps)
  have fm: "fits width m" by (rule fitsI) (simp add: mb)
  have m0: "m \<noteq> 0" using False by (simp add: m_def)
  obtain j where j: "j < width" "normalise width m = (push_bit j m, word_of_nat j)" "fits width (push_bit j m)"
      "bit (push_bit j m) (width - 1)" using normalise_correct [OF w fm m0] by metis
  define p where "p = push_bit j m"
  define M where "M = push_bit (23 - width) (push_bit 1 p AND mask width)"
  define s where "s = (ucast shared_exp :: 32 word)"
  define e where "e = s - ((if is_exp_a then - 112 else 0) + word_of_nat j)"
  have jn: "unat (word_of_nat j :: 32 word) = j" using j(1) w by (intro unat_of_small) simp
  have "unat shared_exp < 256" using unsigned_less [of shared_exp] by simp
  then have u8: "unat s = unat shared_exp" "unat s < 256" by (simp_all add: s_def unsigned_ucast_eq take_bit_nat_eq_self)
  have le: "word_of_nat j \<le> s" using shifts [OF False] by (simp add: m_def [symmetric] j(2) s_def)
  then have lej: "j \<le> unat s" by (simp add: word_le_nat_alt jn)
  have x: "unpack_lane width (if is_exp_a then - 112 else 0) (ucast shared_exp) lane =
      push_bit 31 (drop_bit width lane) OR (push_bit 23 e OR M)"
    using False unfolding unpack_lane_def Let_def m_def [symmetric] j(2) prod.case e_def s_def [symmetric] M_def p_def by simp
  have sj: "unat (s - word_of_nat j) = unat s - j" using lej jn by (simp add: unat_sub_if')
  have d: "s - word_of_nat j \<le> ucast shared_exp" "unat (ucast shared_exp - (s - word_of_nat j)) = j"
    unfolding s_def [symmetric] using sj jn by (simp_all add: word_le_nat_alt)
  have ue: "unat e = unat s - j + (if is_exp_a then 112 else 0)"
    and E: "(if is_exp_a then rebias e M else (e, M)) = (s - word_of_nat j, M)"
  proof -
    have "unat s \<le> 31" if is_exp_a using exp_a [OF that] u8(1) by (simp add: word_le_nat_alt)
    then show "unat e = unat s - j + (if is_exp_a then 112 else 0)" "(if is_exp_a then rebias e M else (e, M)) = (s - word_of_nat j, M)"
      using rebias_offset_exponent [OF _ le] jn sj by (auto simp: e_def)
  qed
  have e8: "unat e < 2 ^ 8"
  proof (cases is_exp_a)
    case True
    then have "unat s \<le> 31" using exp_a u8(1) by (simp add: word_le_nat_alt)
    then have "unat s - j \<le> 31" by linarith
    then show ?thesis unfolding ue using True by simp
  qed (use ue u8 in simp)
  note pack = repack [OF w j(1) m_def m0 p_def j(3) [folded p_def] j(4) [folded p_def] lane e8, folded M_def, OF _ E d, folded x]
  have "push_bit 23 e OR M = 0 \<longleftrightarrow> e = 0 \<and> M = 0"
    using exponent_not_zero [OF e8] by (cases "e = 0") auto
  also have "e = 0 \<longleftrightarrow> \<not> is_exp_a \<and> word_of_nat j = s"
    using ue lej jn by (auto simp: word_unat_eq_iff)
  also have "M = 0 \<longleftrightarrow> p = 2 ^ (width - 1)"
    unfolding M_def by (rule top_bit_only [OF w j(3,4) [folded p_def]])
  finally have z: "push_bit 23 e OR M = 0 \<longleftrightarrow> \<not> is_exp_a \<and> normalise width m = (2 ^ (width - 1), s)"
    unfolding j(2) p_def by auto
  show ?thesis
  proof (cases "push_bit 23 e OR M = 0")
    case True
    then have "unpack_lane width (if is_exp_a then - 112 else 0) (ucast shared_exp) lane AND 0x7fffffff = 0"
      unfolding x masks by (simp add: sign_only)
    then show ?thesis using True z by (simp add: convert_mantissa_def m_def s_def)
  next
    case False
    then show ?thesis using pack [OF False] z m0 by (auto simp: m_def s_def)
  qed
qed

theorem bfp_lane_roundtrip_witness:
  "convert_mantissa 7 False (unpack_lane 7 0 120 0x95) 120 False = 0x95 \<and>
   convert_mantissa 7 False (unpack_lane 7 0 120 0x80) 120 False = 0 \<and>
   convert_mantissa 7 False (unpack_lane 7 0 6 0x81) 6 False = 0 \<and>
   convert_mantissa 3 False (unpack_lane 3 (- 112) 20 0xb) 20 True = 0xb"
  using bfp_lane_roundtrip [where width = 7 and lane = "0x95" and shared_exp = "120" and is_exp_a = False]
    bfp_lane_roundtrip [where width = 7 and lane = "0x80" and shared_exp = "120" and is_exp_a = False]
    bfp_lane_roundtrip [where width = 7 and lane = "0x81" and shared_exp = "6" and is_exp_a = False]
    bfp_lane_roundtrip [where width = 3 and lane = "0xb" and shared_exp = "20" and is_exp_a = True]
  by (simp add: normalise_def mask_eq_exp_minus_1 upt_rec)

text \<open>The assertion of the unpackers is weaker than its message: it can pass although a lane with a non-zero mantissa
  needs more shifts than its exponent allows.\<close>

theorem unpack_assertion_misses_lanes:
  "\<exists>exp lanes. unpack_assertion 7 exp lanes = Inr () \<and> length lanes = 8 \<and> sint exp > 0 \<and>
     (\<exists>lane\<in>set lanes. lane AND mask 7 \<noteq> 0 \<and> sint (snd (normalise 7 (lane AND mask 7))) > sint exp)"
proof (intro exI conjI)
  show "unpack_assertion 7 1 [1, 0, 0, 0, 0, 0, 0, 0] = Inr ()" by (simp add: unpack_assertion_def)
  show "\<exists>lane\<in>set [1, 0, 0, 0, 0, 0, 0, 0 :: 32 word].
      lane AND mask 7 \<noteq> 0 \<and> sint (snd (normalise 7 (lane AND mask 7))) > sint (1 :: 32 word)"
    by (rule bexI [of _ 1]) (simp_all add: normalise_def mask_eq_exp_minus_1 upt_rec)
qed simp_all

end
