(* ===== verification/Block_Float_Layout.thy ===== *)
theory Block_Float_Layout
  imports Block_Float_Props
begin

text \<open>
  The layout of packed tiles of block floats.  What the packing loops of \<^verbatim>\<open>blockfloat_common.hpp\<close> and \<^verbatim>\<open>bfloat8.hpp\<close> store
  is computed tile by tile, row by row: the exponents in the first sixteen words of a tile, the mantissas behind them.
\<close>

unbundle bit_operations_syntax

subsection \<open>Lanes of a word\<close>

lemma fold_lanes:
  fixes f :: "nat \<Rightarrow> 32 word"
  assumes "0 < b" and "s \<le> n"
  shows "bit (fold (\<lambda>i tmp. push_bit b tmp OR (f i AND mask b)) (rev [s..<n]) 0) m \<longleftrightarrow>
    m < 32 \<and> m < b * (n - s) \<and> bit (f (s + m div b)) (m mod b)"
  using assms(2)
proof (induction s arbitrary: m rule: inc_induct)
  case (step s)
  define w where "w = fold (\<lambda>i tmp. push_bit b tmp OR (f i AND mask b)) (rev [Suc s..<n]) 0"
  have e: "fold (\<lambda>i tmp. push_bit b tmp OR (f i AND mask b)) (rev [s..<n]) 0 = push_bit b w OR (f s AND mask b)"
    using step.hyps by (simp add: upt_conv_Cons w_def)
  show ?case
  proof (cases "m < b")
    case True
    have "b \<le> b * (n - s)" using step.hyps by (cases "n - s") simp_all
    then have "m < b * (n - s)" using True by linarith
    moreover have "m < 32" if "bit (f s) m" using bit_imp_le_length [OF that] by simp
    ultimately show ?thesis unfolding e using True assms(1) by (auto simp: bit_simps)
  next
    case False
    then have d: "m div b = Suc ((m - b) div b)" "m mod b = (m - b) mod b"
      using assms(1) by (simp_all add: le_div_geq le_mod_geq)
    have "n - s = Suc (n - Suc s)" using step.hyps by simp
    then have r: "m < b * (n - s) \<longleftrightarrow> m - b < b * (n - Suc s)" using False by auto
    have "bit (push_bit b w OR (f s AND mask b)) m \<longleftrightarrow> m < 32 \<and> bit w (m - b)"
      using False by (auto simp: bit_simps)
    then show ?thesis unfolding e r d using step.IH [of "m - b"] by (auto simp: w_def)
  qed
qed simp

lemma lane_of_fold:
  fixes f :: "nat \<Rightarrow> 32 word"
  assumes b: "0 < b" "b * n \<le> 32" and k: "k < n" and f: "\<And>i. bit (f k) i \<Longrightarrow> i < b"
  defines "w \<equiv> fold (\<lambda>i tmp. push_bit b tmp OR (f i AND mask b)) (rev [0..<n]) 0"
  shows "drop_bit (b * k) (w AND push_bit (b * k) (mask b)) = f k"
proof (rule bit_word_eqI)
  fix i assume i: "i < LENGTH(32)"
  have le: "b * Suc k \<le> b * n" using k by (intro mult_le_mono2) simp
  have "bit w (b * k + i) \<longleftrightarrow> bit (f k) i" if "i < b"
  proof -
    have "b * k + i < b * n" using le that by simp
    then show ?thesis using b that fold_lanes [OF b(1) le0 [of n], of f "b * k + i"] by (simp add: w_def)
  qed
  moreover have "b * k + i < 32" if "i < b" using le b(2) that by simp
  ultimately show "bit (drop_bit (b * k) (w AND push_bit (b * k) (mask b))) i = bit (f k) i"
    using f by (auto simp: bit_simps)
qed

lemma exp_word_byte:
  assumes "length es = 4" and "b < 4" and "get_exp_dword es = Inr w"
  shows "get_byte w b = Inr (ucast (es ! b))"
proof -
  obtain e0 e1 e2 e3 where es: "es = [e0, e1, e2, e3]"
    using assms(1) by (auto simp: numeral_eq_Suc length_Suc_conv)
  have w: "w = ucast e0 OR push_bit 8 (ucast e1) OR push_bit 16 (ucast e2) OR push_bit 24 (ucast e3)"
    using assms(3) by (simp add: get_exp_dword_def es upt_rec or.assoc)
  have n: "i < 8" if "bit (e :: 8 word) i" for e i using bit_imp_le_length [OF that] by simp
  then have n': "\<not> bit (e :: 8 word) i" if "8 \<le> i" for e i using that by (meson leD)
  have m: "(0xff :: 32 word) = mask 8" by (simp add: mask_eq_exp_minus_1)
  consider "b = 0" | "b = 1" | "b = 2" | "b = 3" using assms(2) by linarith
  then have "drop_bit (8 * b) (w AND push_bit (8 * b) (mask 8)) = ucast (es ! b)"
    by cases (auto simp: es w bit_simps n' intro!: bit_word_eqI, (drule n, simp)+)
  then show ?thesis using assms(2) by (simp add: get_byte_def m)
qed

subsection \<open>The loops of the template\<close>

lemma rfold_nth:
  assumes "I 0 s" and "\<And>k s. k < length xs \<Longrightarrow> I k s \<Longrightarrow> \<exists>s'. f (xs ! k) s = Inr s' \<and> I (Suc k) s'"
  shows "\<exists>s'. rfold f xs s = Inr s' \<and> I (length xs) s'"
  using assms
proof (induction xs arbitrary: I s)
  case (Cons x xs)
  obtain s1 where s1: "f x s = Inr s1" "I (Suc 0) s1" using Cons.prems by force
  have "\<exists>s'. rfold f xs s1 = Inr s' \<and> (\<lambda>k. I (Suc k)) (length xs) s'"
    by (rule Cons.IH) (use s1 Cons.prems(2) [of "Suc _"] in auto)
  then show ?case using s1 by simp
qed simp

text \<open>The values of the row \<open>r\<close> of a tile, of 64: the rows of its four faces.\<close>

definition tile_row :: "float32 list \<Rightarrow> bool \<Rightarrow> nat \<Rightarrow> nat \<Rightarrow> float32 list" where
  "tile_row vec row_major t r =
     map (\<lambda>j. vec ! (1024 * t + (if row_major then (r div 32 * 16 + r mod 16) * 32 + (r div 16 mod 2 * 16 + j) else 16 * r + j)))
       [0..<16]"

lemma length_tile_row [simp]: "length (tile_row vec row_major t r) = 16"
  by (simp add: tile_row_def)

lemma length_subtile_positions [simp]: "length subtile_positions = 64"
  by (simp add: subtile_positions_def upt_rec)

lemma nth_subtile_positions:
  assumes "r < 64"
  shows "subtile_positions ! r = (r div 32, r div 16 mod 2, r mod 16)"
proof -
  have e: "subtile_positions = map (\<lambda>r. (r div 32, r div 16 mod 2, r mod 16)) [0..<64]"
    by (simp add: subtile_positions_def upt_rec)
  show ?thesis unfolding e using assms by simp
qed

lemma single_row_eq:
  assumes r: "r < 64" and len: "1024 * Suc t \<le> length vec" and idx: "\<not> row_major \<Longrightarrow> idx = 1024 * t + 16 * r"
  shows "single_row vec row_major t (subtile_positions ! r) idx =
    Inr (tile_row vec row_major t r, if row_major then idx else idx + 16)"
proof -
  define pos where "pos = (\<lambda>j. 1024 * t + (if row_major then (r div 32 * 16 + r mod 16) * 32 + (r div 16 mod 2 * 16 + j) else 16 * r + j))"
  define f where "f = (\<lambda>j (row, ix). rbind (at vec (if row_major then (r div 32 * 16 + r mod 16) * 32 + (r div 16 mod 2 * 16 + j) +
      1024 * t else ix)) (\<lambda>x. Inr (row @ [x], if row_major then ix else Suc ix)))"
  define I where "I = (\<lambda>k (row :: float32 list, ix). row = map (\<lambda>j. vec ! pos j) [0..<k] \<and> ix = (if row_major then idx else idx + k))"
  have "\<exists>s'. rfold f [0..<16] ([], idx) = Inr s' \<and> I (length [0..<16 :: nat]) s'"
  proof (rule rfold_nth)
    fix k s assume k: "k < length [0..<16 :: nat]" and i: "I k s"
    obtain row ix where s: "s = (row, ix)" by (cases s)
    have d: "r div 32 \<le> 1" "r mod 16 \<le> 15" "r div 16 mod 2 \<le> 1" "r \<le> 63" "k \<le> 15" using r k by auto
    have "pos k < 1024 * Suc t"
    proof (cases row_major)
      case True
      have "(r div 32 * 16 + r mod 16) * 32 + (r div 16 mod 2 * 16 + k) < 1024" using d by simp
      then show ?thesis by (simp add: pos_def True)
    qed (use d in \<open>simp add: pos_def\<close>)
    then have "pos k < length vec" using len by linarith
    moreover have "(if row_major then (r div 32 * 16 + r mod 16) * 32 + (r div 16 mod 2 * 16 + k) + 1024 * t else ix) = pos k"
      using i idx by (auto simp: I_def s pos_def)
    ultimately have "f k s = Inr (row @ [vec ! pos k], if row_major then ix else Suc ix)" by (simp add: f_def s at_def)
    then show "\<exists>s'. f ([0..<16] ! k) s = Inr s' \<and> I (Suc k) s'" using i k by (auto simp: I_def s)
  qed (simp add: I_def)
  then show ?thesis by (auto simp: single_row_def nth_subtile_positions [OF r] f_def [symmetric] I_def tile_row_def pos_def)
qed

text \<open>What a packer of words does: it packs a vector of the right length into the word \<open>word\<close>.\<close>

definition packs_words ::
    "nat \<Rightarrow> (float32 list \<Rightarrow> 8 word \<Rightarrow> 32 word result) \<Rightarrow> (float32 list \<Rightarrow> 8 word \<Rightarrow> 32 word) \<Rightarrow> bool" where
  "packs_words num create word \<longleftrightarrow> num \<in> {4, 8, 16} \<and> (\<forall>d e. length d = num \<longrightarrow> create d e = Inr (word d e))"

definition row_words :: "nat \<Rightarrow> (float32 list \<Rightarrow> 8 word \<Rightarrow> 32 word) \<Rightarrow> float32 list \<Rightarrow> 8 word \<Rightarrow> 32 word list" where
  "row_words num word row e = map (\<lambda>c. word (take num (drop (num * c) row)) e) [0..<16 div num]"

lemma push_data_eq:
  assumes ok: "packs_words num create word" and p: "pending st = []" and row: "length row = 16"
  shows "rfold (push_datum num create e) row st = Inr (st\<lparr>packed_data := packed_data st @ row_words num word row e\<rparr>)"
proof -
  define I where "I = (\<lambda>k s. s = st\<lparr>packed_data := packed_data st @ map (\<lambda>c. word (take num (drop (num * c) row)) e) [0..<k div num],
    pending := take (k mod num) (drop (num * (k div num)) row)\<rparr>)"
  have num: "0 < num" "16 mod num = 0" using ok by (auto simp: packs_words_def)
  have "\<exists>s'. rfold (push_datum num create e) row st = Inr s' \<and> I (length row) s'"
  proof (rule rfold_nth)
    show "I 0 st" using p by (simp add: I_def)
    fix k s assume k: "k < length row" and i: "I k s"
    have k': "num * (k div num) + k mod num = k" by simp
    have "k mod num < length (drop (num * (k div num)) row)" using k k' by (simp add: less_diff_conv add.commute)
    then have nx: "pending s @ [row ! k] = take (Suc (k mod num)) (drop (num * (k div num)) row)"
      using i k k' by (simp add: I_def take_Suc_conv_app_nth)
    show "\<exists>s'. push_datum num create e (row ! k) s = Inr s' \<and> I (Suc k) s'"
    proof (cases "Suc (k mod num) = num")
      case True
      then have d: "Suc k mod num = 0" "Suc k div num = Suc (k div num)" by (simp_all add: mod_Suc div_Suc)
      have dvd: "Suc k = num * Suc (k div num)" using d by (metis mult_div_mod_eq add.right_neutral)
      have "num + num * (k div num) \<le> length row" using dvd k by simp
      then have "num \<le> length row - num * (k div num)" by linarith
      then have "length (pending s @ [row ! k]) = num" unfolding nx True by (simp add: min_absorb2)
      moreover from this have "create (pending s @ [row ! k]) e = Inr (word (pending s @ [row ! k]) e)"
        using ok by (simp add: packs_words_def)
      moreover have "word (pending s @ [row ! k]) e = word (take num (drop (num * (k div num)) row)) e" unfolding nx True ..
      ultimately show ?thesis using i d by (simp add: push_datum_def Let_def I_def)
    next
      case False
      have m: "k mod num < num" using num(1) by simp
      then have d: "Suc k mod num = Suc (k mod num)" "Suc k div num = k div num" "Suc (k mod num) < num"
        using False by (simp_all add: mod_Suc div_Suc)
      have "Suc (k mod num) \<le> length row - num * (k div num)" using k k' by linarith
      then have "length (pending s @ [row ! k]) = Suc (k mod num)" unfolding nx by (simp add: min_absorb2)
      then show ?thesis using d nx i by (simp add: push_datum_def Let_def I_def)
    qed
  qed
  then show ?thesis using row num p by (auto simp: I_def row_words_def)
qed

text \<open>The words of a tile: the exponents of its 64 rows, then its rows.\<close>

definition row_exp :: "bool \<Rightarrow> float32 list \<Rightarrow> 8 word" where
  "row_exp is_exp_a row = (case get_max_exp row is_exp_a of Inl _ \<Rightarrow> 0 | Inr e \<Rightarrow> e)"

definition exp_word :: "8 word list \<Rightarrow> 32 word" where
  "exp_word es = (case get_exp_dword es of Inl _ \<Rightarrow> 0 | Inr w \<Rightarrow> w)"

lemma row_exp: "length row = 16 \<Longrightarrow> get_max_exp row a = Inr (row_exp a row)"
  by (simp add: row_exp_def get_max_exp_def)

lemma exp_word: "length es = 4 \<Longrightarrow> get_exp_dword es = Inr (exp_word es)"
  by (simp add: exp_word_def get_exp_dword_def)

definition exp_words :: "bool \<Rightarrow> (nat \<Rightarrow> float32 list) \<Rightarrow> nat \<Rightarrow> 32 word list" where
  "exp_words a row k = map (\<lambda>k. exp_word (map (\<lambda>r. row_exp a (row r)) [4 * k..<4 * k + 4])) [0..<k div 4]"

definition tile_words ::
    "nat \<Rightarrow> (float32 list \<Rightarrow> 8 word \<Rightarrow> 32 word) \<Rightarrow> bool \<Rightarrow> (nat \<Rightarrow> float32 list) \<Rightarrow> 32 word list" where
  "tile_words num word a row = exp_words a row 64 @ concat (map (\<lambda>r. row_words num word (row r) (row_exp a (row r))) [0..<64])"

lemma push_exponent_eq:
  assumes "exponents st = map ex [4 * (k div 4)..<k]"
  shows "push_exponent (ex k) st = Inr (st\<lparr>exponents := map ex [4 * (Suc k div 4)..<Suc k],
    packed_result := packed_result st @ map (\<lambda>k. exp_word (map ex [4 * k..<4 * k + 4])) [k div 4..<Suc k div 4]\<rparr>)"
proof -
  have e: "exponents st @ [ex k] = map ex [4 * (k div 4)..<Suc k]" using assms by simp
  have l: "length (map ex [4 * (k div 4)..<Suc k]) = Suc (k mod 4)" by (simp add: minus_mult_div_eq_mod [symmetric] Suc_diff_le)
  show ?thesis
  proof (cases "Suc (k mod 4) = 4")
    case True
    define q where "q = k div 4"
    have "4 * q + k mod 4 = k" unfolding q_def by (rule mult_div_mod_eq)
    then have "Suc k = 4 * q + 4" using True by linarith
    then have d: "k div 4 = q" "Suc k = 4 * q + 4" "(4 * q + 4) div 4 = Suc q" by (simp_all add: q_def)
    have "get_exp_dword (map ex [4 * q..<4 * q + 4]) = Inr (exp_word (map ex [4 * q..<4 * q + 4]))" by (intro exp_word) simp
    then show ?thesis unfolding push_exponent_def Let_def e l unfolding True unfolding d by simp
  next
    case False
    then have "Suc k div 4 = k div 4" "Suc (k mod 4) mod 4 \<noteq> 0" using mod_less_divisor [of 4 k] by (auto simp: div_Suc mod_Suc)
    then show ?thesis unfolding push_exponent_def Let_def e l by (simp del: upt_Suc)
  qed
qed

lemma pack_tile_eq:
  assumes ok: "packs_words num create word" and len: "1024 * Suc t \<le> length vec"
    and st: "pending st = []" "exponents st = []" "fp32_element_index st = (if rm then 0 else 1024 * t)"
  shows "\<exists>st'. pack_tile num create vec rm a t st = Inr st' \<and> pending st' = [] \<and> exponents st' = [] \<and>
    fp32_element_index st' = (if rm then 0 else 1024 * Suc t) \<and>
    packed_result st' = packed_result st @ tile_words num word a (tile_row vec rm t)"
proof -
  define row where "row = tile_row vec rm t"
  define ex where "ex = (\<lambda>r. row_exp a (row r))"
  have lr: "length (row r) = 16" for r by (simp add: row_def)
  define I where "I = (\<lambda>k (s :: pack_state). pending s = [] \<and> exponents s = map ex [4 * (k div 4)..<k] \<and>
    packed_result s = packed_result st @ map (\<lambda>k. exp_word (map ex [4 * k..<4 * k + 4])) [0..<k div 4] \<and>
    packed_data s = concat (map (\<lambda>r. row_words num word (row r) (ex r)) [0..<k]) \<and>
    fp32_element_index s = (if rm then 0 else 1024 * t + 16 * k))"
  have "\<exists>s'. rfold (pack_row num create vec rm a t) subtile_positions (st\<lparr>packed_data := []\<rparr>) = Inr s' \<and>
      I (length subtile_positions) s'"
  proof (rule rfold_nth)
    show "I 0 (st\<lparr>packed_data := []\<rparr>)" by (simp add: I_def st)
    fix k s assume k: "k < length subtile_positions" and i: "I k s"
    let ?idx = "if rm then fp32_element_index s else fp32_element_index s + 16"
    have r: "single_row vec rm t (subtile_positions ! k) (fp32_element_index s) = Inr (row k, ?idx)"
      unfolding row_def by (rule single_row_eq [OF _ len]) (use k i in \<open>simp_all add: I_def\<close>)
    let ?s = "s\<lparr>fp32_element_index := ?idx\<rparr>"
    have x: "exponents ?s = map ex [4 * (k div 4)..<k]" using i by (simp add: I_def)
    obtain s1 where s1: "push_exponent (ex k) ?s = Inr s1" and s1': "s1 = ?s\<lparr>exponents := map ex [4 * (Suc k div 4)..<Suc k],
        packed_result := packed_result ?s @ map (\<lambda>k. exp_word (map ex [4 * k..<4 * k + 4])) [k div 4..<Suc k div 4]\<rparr>"
      using push_exponent_eq [OF x] by blast
    have p1: "pending s1 = []" using i unfolding s1' by (simp add: I_def)
    have d: "rfold (push_datum num create (ex k)) (row k) s1 =
        Inr (s1\<lparr>packed_data := packed_data s1 @ row_words num word (row k) (ex k)\<rparr>)"
      by (rule push_data_eq [OF ok p1 lr])
    have "[0..<Suc k div 4] = [0..<k div 4] @ [k div 4..<Suc k div 4]"
      by (metis div_le_mono le0 le_SucI le_add_diff_inverse order_refl upt_add_eq_append)
    then have "I (Suc k) (s1\<lparr>packed_data := packed_data s1 @ row_words num word (row k) (ex k)\<rparr>)"
      using i unfolding s1' by (simp add: I_def)
    then show "\<exists>s'. pack_row num create vec rm a t (subtile_positions ! k) s = Inr s' \<and> I (Suc k) s'"
      using r s1 d row_exp [OF lr [of k], of a] by (simp add: pack_row_def ex_def)
  qed
  then show ?thesis by (auto simp: pack_tile_def I_def tile_words_def exp_words_def row_def ex_def)
qed

lemma pack_tiles_eq:
  assumes ok: "packs_words num create word" and len: "length vec = 1024 * n" and n: "n < 2 ^ 32"
  shows "pack_tiles num create vec rm a = Inr (concat (map (\<lambda>t. tile_words num word a (tile_row vec rm t)) [0..<n]))"
proof -
  define I where "I = (\<lambda>t (s :: pack_state). pending s = [] \<and> exponents s = [] \<and> fp32_element_index s = (if rm then 0 else 1024 * t) \<and>
    packed_result s = concat (map (\<lambda>t. tile_words num word a (tile_row vec rm t)) [0..<t]))"
  let ?s0 = "\<lparr>packed_result = [], exponents = [], pending = [], packed_data = [], fp32_element_index = 0\<rparr>"
  have "\<exists>s. rfold (pack_tile num create vec rm a) [0..<n] ?s0 = Inr s \<and> I (length [0..<n]) s"
  proof (rule rfold_nth)
    fix t s assume t: "t < length [0..<n]" and i: "I t s"
    have "1024 * Suc t \<le> 1024 * n" using t by (intro mult_le_mono2) simp
    then obtain s' where "pack_tile num create vec rm a t s = Inr s'" "I (Suc t) s'"
      using pack_tile_eq [OF ok, of t vec s rm a] i len by (auto simp: I_def)
    then show "\<exists>s'. pack_tile num create vec rm a ([0..<n] ! t) s = Inr s' \<and> I (Suc t) s'" using t by simp
  qed (simp add: I_def)
  moreover have "u32 n = n" by (rule wcast_id [OF n])
  ultimately show ?thesis by (auto simp: pack_tiles_def len I_def)
qed

subsection \<open>The loop of bfloat8.hpp\<close>

text \<open>The loop written for Bfp8 does what the loop of the template does with four elements in a word.\<close>

lemma bfp8_push_exponent_eq: "bfp8_push_exponent = push_exponent"
  by (intro ext) (simp add: bfp8_push_exponent_def push_exponent_def Let_def)

lemma bfp8_push_datum_eq: "bfp8_push_datum e a = push_datum 4 (\<lambda>data exp. create_packed_bfp8_packed_as_u32 data exp a) e"
  by (intro ext) (simp add: bfp8_push_datum_def push_datum_def Let_def)

lemma bfp8_pack_row_eq:
  "bfp8_pack_row vec rm a t tr tc i = pack_row 4 (\<lambda>data exp. create_packed_bfp8_packed_as_u32 data exp a) vec rm a t (tr, tc, i)"
proof -
  have "bfp8_element vec rm t tr tc i =
      (\<lambda>j (row, idx). rbind (at vec (if rm then (tr * 16 + i) * 32 + (tc * 16 + j) + 1024 * t else idx))
        (\<lambda>x. Inr (row @ [x], if rm then idx else Suc idx)))"
    by (intro ext) (simp add: bfp8_element_def split: prod.split)
  then show ?thesis
    by (intro ext) (simp add: bfp8_pack_row_def pack_row_def single_row_def bfp8_push_exponent_eq bfp8_push_datum_eq)
qed

lemma rfold_concat: "rfold f (concat xss) = rfold (rfold f) xss"
proof (induction xss)
  case (Cons xs xss)
  show ?case by (rule ext) (simp add: rfold_append Cons.IH)
qed auto

lemma rfold_map: "rfold f (map g xs) = rfold (\<lambda>x. f (g x)) xs"
proof (intro ext)
  show "rfold f (map g xs) s = rfold (\<lambda>x. f (g x)) xs s" for s
    by (induction xs arbitrary: s) (simp_all add: rbind_def split: sum.splits)
qed

lemma bfp8_pack_tile_eq:
  "bfp8_pack_tile vec rm a t = pack_tile 4 (\<lambda>data exp. create_packed_bfp8_packed_as_u32 data exp a) vec rm a t"
proof -
  have "bfp8_pack_row vec rm a t tr tc = (\<lambda>i. pack_row 4 (\<lambda>data exp. create_packed_bfp8_packed_as_u32 data exp a) vec rm a t (tr, tc, i))"
    for tr tc by (rule ext) (rule bfp8_pack_row_eq)
  then show ?thesis
    by (intro ext) (simp add: bfp8_pack_tile_def pack_tile_def subtile_positions_def rfold_concat rfold_map)
qed

lemma bfp8_pack_eq:
  "pack_fp32_vec_as_bfp8_tiles vec rm a = pack_tiles 4 (\<lambda>data exp. create_packed_bfp8_packed_as_u32 data exp a) vec rm a"
  by (simp add: pack_fp32_vec_as_bfp8_tiles_def pack_tiles_def bfp8_pack_tile_eq [abs_def] Let_def)

subsection \<open>The packers of words\<close>

lemma format_numbers:
  assumes "is_bfp_format fmt"
  shows "nums_in_dword fmt \<in> {4, 8, 16}" and "32 div nums_in_dword fmt = mantissa_bfp_width fmt + 1"
    and "1 \<le> mantissa_bfp_width fmt" and "mantissa_bfp_width fmt \<le> 7"
  using assms by (auto simp: is_bfp_format_def nums_in_dword_def mantissa_bfp_width_def)

lemma convert_mantissa_bits:
  assumes w: "1 \<le> width" "width \<le> 7" and b: "bit (ucast (convert_mantissa width False x e a) :: 32 word) i"
  shows "i < width + 1"
proof -
  have m: "bit (if m > mask width then mask width else m) n \<Longrightarrow> n < width" for m :: "32 word" and n
  proof (cases "m > mask width")
    case False
    assume "bit (if m > mask width then mask width else m) n"
    then have b: "bit m n" using False by simp
    have "unat m \<le> unat (mask width :: 32 word)" using False by (simp add: word_le_nat_alt not_less)
    also have "\<dots> < 2 ^ width"
    proof -
      have "(2 :: nat) ^ width \<le> 2 ^ 7" using w(2) by (rule power_increasing) simp
      then have "unat (word_of_nat (2 ^ width - 1) :: 32 word) = 2 ^ width - 1" by (intro unat_of_small) simp
      moreover have "(mask width :: 32 word) = word_of_nat (2 ^ width - 1)" by (simp add: mask_eq_exp_minus_1 of_nat_diff)
      ultimately show ?thesis by simp
    qed
    finally show "n < width" using fits_bit [OF unat_fits b] by blast
  qed (auto simp: bit_simps)
  have s: "bit (drop_bit 31 (y :: 32 word)) n \<Longrightarrow> n < 1" for y n
    using bit_imp_le_length [of y "31 + n"] by (auto simp: bit_simps)
  show ?thesis
  proof (cases "x AND 0x7fffffff = 0")
    case True
    then show ?thesis using b by (simp add: convert_mantissa_def)
  next
    case False
    obtain E F where p: "(if a then rebias (exp_field x) (x AND 0x007fffff) else (exp_field x, x AND 0x007fffff)) = (E, F)"
      by (cases "if a then rebias (exp_field x) (x AND 0x007fffff) else (exp_field x, x AND 0x007fffff)")
    have "\<exists>(m :: 32 word) sign. convert_mantissa width False x e a =
        ucast (push_bit width (if (if m > mask width then mask width else m) = 0 then 0 else drop_bit 31 sign) OR
          (if m > mask width then mask width else m))"
      unfolding convert_mantissa_def Let_def p prod.case if_not_P [OF False] if_False by (intro exI) (rule refl)
    then obtain m sign :: "32 word" where c: "convert_mantissa width False x e a =
        ucast (push_bit width (if (if m > mask width then mask width else m) = 0 then 0 else drop_bit 31 sign) OR
          (if m > mask width then mask width else m))" by blast
    define M where "M = (if m > mask width then mask width else m)"
    have "bit (push_bit width (if M = 0 then 0 else drop_bit 31 sign) OR M) i"
      using b unfolding c M_def [symmetric] bit_unsigned_iff by blast
    then consider "bit M i" | "width \<le> i" "bit (drop_bit 31 sign) (i - width)"
      unfolding bit_or_iff bit_push_bit_iff by (auto split: if_splits)
    then show ?thesis using m [of m i] s [of sign "i - width"] by cases (auto simp: M_def)
  qed
qed

lemma rfold_Inr:
  assumes "\<And>x s. x \<in> set xs \<Longrightarrow> f x s = Inr (g x s)"
  shows "rfold f xs s = Inr (fold g xs s)"
  using assms by (induction xs arbitrary: s) simp_all

text \<open>The word made of the lanes of converted values.\<close>

definition lanes_word :: "nat \<Rightarrow> nat \<Rightarrow> bool \<Rightarrow> float32 list \<Rightarrow> 8 word \<Rightarrow> 32 word" where
  "lanes_word num width a d e =
     fold (\<lambda>i tmp. push_bit (width + 1) tmp OR (ucast (convert_mantissa width False (d ! i) e a) AND mask (width + 1))) (rev [0..<num]) 0"

lemma packs_words_template:
  assumes "is_bfp_format fmt"
  shows "packs_words (nums_in_dword fmt) (\<lambda>d e. create_packed_bfp_packed_as_u32 fmt d e a)
    (lanes_word (nums_in_dword fmt) (mantissa_bfp_width fmt) a)"
proof -
  note n = format_numbers [OF assms]
  have m: "push_bit k 1 - 1 = (mask k :: 32 word)" for k by (simp add: mask_eq_exp_minus_1 push_bit_of_1)
  have "create_packed_bfp_packed_as_u32 fmt d e a = Inr (lanes_word (nums_in_dword fmt) (mantissa_bfp_width fmt) a d e)"
    if "length d = nums_in_dword fmt" for d e
    unfolding create_packed_bfp_packed_as_u32_def lanes_word_def Let_def n(2) m using assms that
    by simp (rule rfold_Inr, simp add: convert_u32_to_bfp_def)
  then show ?thesis using n(1) by (simp add: packs_words_def)
qed

lemma packs_words_bfp8: "packs_words 4 (\<lambda>d e. create_packed_bfp8_packed_as_u32 d e a) (lanes_word 4 7 a)"
proof -
  have "is_bfp_format Bfp8_b" "nums_in_dword Bfp8_b = 4" "mantissa_bfp_width Bfp8_b = 7"
    by (simp_all add: is_bfp_format_def nums_in_dword_def mantissa_bfp_width_def)
  then show ?thesis using packs_words_template [of Bfp8_b a] by (simp add: create_packed_8)
qed

lemma lanes_word_lane:
  assumes w: "1 \<le> width" "width \<le> 7" and num: "(width + 1) * num = 32" and k: "k < num"
  shows "lanes_of (width + 1) (lanes_word num width a d e) ! k = ucast (convert_mantissa width False (d ! k) e a)"
proof -
  have "32 div (width + 1) = num" unfolding num [symmetric] by (rule nonzero_mult_div_cancel_left) simp
  then show ?thesis
    using k lane_of_fold [of "width + 1" num k "\<lambda>i. ucast (convert_mantissa width False (d ! i) e a)"] num
      convert_mantissa_bits [OF w, of "d ! k" e a]
    by (simp add: lanes_of_def lanes_word_def)
qed

subsection \<open>The layout\<close>

text \<open>
  A vector of packed tiles has the layout of the format: for every row of every tile, the shared exponent of the row is in its byte of the first
  sixteen words, and each value of the row, converted with that exponent, in its lane of the words behind them.
\<close>

definition bfp_layout :: "nat \<Rightarrow> (float32 \<Rightarrow> 8 word \<Rightarrow> 8 word) \<Rightarrow> bool \<Rightarrow> bool \<Rightarrow> float32 list \<Rightarrow> 32 word list \<Rightarrow> bool" where
  "bfp_layout num conv row_major is_exp_a vec packed \<longleftrightarrow>
     (let q = 16 div num; words = 16 + 64 * q in
      length packed = length vec div 1024 * words \<and>
      (\<forall>t < length vec div 1024. \<forall>r < 64. let row = tile_row vec row_major t r in
         (case get_max_exp row is_exp_a of Inl _ \<Rightarrow> False | Inr e \<Rightarrow>
            get_byte (packed ! (words * t + r div 4)) (r mod 4) = Inr (ucast e) \<and>
            (\<forall>j < 16. lanes_of (32 div num) (packed ! (words * t + 16 + (q * r + j div num))) ! (j mod num) = ucast (conv (row ! j) e)))))"

lemma nth_concat_equal:
  assumes "\<And>xs. xs \<in> set xss \<Longrightarrow> length xs = T" and "i < length xss" and "j < T"
  shows "concat xss ! (T * i + j) = xss ! i ! j"
  using assms
proof (induction xss arbitrary: i)
  case (Cons xs xss)
  then show ?case by (cases i) (simp_all add: nth_append)
qed simp

lemma length_concat_equal: "(\<And>xs. xs \<in> set xss \<Longrightarrow> length xs = T) \<Longrightarrow> length (concat xss) = T * length xss"
  by (induction xss) simp_all

lemma nth_concat_map:
  assumes "\<And>i. i < n \<Longrightarrow> length (f i) = T" and "i < n" and "j < T"
  shows "concat (map f [0..<n]) ! (T * i + j) = f i ! j"
proof -
  have "concat (map f [0..<n]) ! (T * i + j) = map f [0..<n] ! i ! j"
    by (rule nth_concat_equal) (use assms in auto)
  then show ?thesis using assms(2) by simp
qed

lemma length_tile_words [simp]: "length (tile_words num word a row) = 16 + 64 * (16 div num)"
proof -
  have "length (concat (map (\<lambda>r. row_words num word (row r) (row_exp a (row r))) [0..<64])) = 16 div num * 64"
    by (subst length_concat_equal [where T = "16 div num"]) (auto simp: row_words_def)
  then show ?thesis by (simp add: tile_words_def exp_words_def)
qed

lemma tile_words_nth:
  assumes num: "num \<in> {4, 8, 16}" and r: "r < 64"
  shows "tile_words num word a row ! (r div 4) = exp_word (map (\<lambda>r. row_exp a (row r)) [4 * (r div 4)..<4 * (r div 4) + 4])"
    and "j < 16 \<Longrightarrow> tile_words num word a row ! (16 + (16 div num * r + j div num)) =
      word (take num (drop (num * (j div num)) (row r))) (row_exp a (row r))"
proof -
  have l: "length (exp_words a row 64) = 16" by (simp add: exp_words_def)
  have "r div 4 < 16" using r by auto
  then show "tile_words num word a row ! (r div 4) = exp_word (map (\<lambda>r. row_exp a (row r)) [4 * (r div 4)..<4 * (r div 4) + 4])"
    using l by (simp add: tile_words_def nth_append) (simp add: exp_words_def)
  assume j: "j < 16"
  have q: "j div num < 16 div num" using num j by auto
  have "tile_words num word a row ! (16 + (16 div num * r + j div num)) =
      concat (map (\<lambda>r. row_words num word (row r) (row_exp a (row r))) [0..<64]) ! (16 div num * r + j div num)"
    using l by (simp add: tile_words_def nth_append)
  also have "\<dots> = row_words num word (row r) (row_exp a (row r)) ! (j div num)"
    by (rule nth_concat_map [OF _ r q]) (simp add: row_words_def)
  finally show "tile_words num word a row ! (16 + (16 div num * r + j div num)) =
      word (take num (drop (num * (j div num)) (row r))) (row_exp a (row r))"
    using q by (simp add: row_words_def)
qed

lemma tile_words_layout:
  assumes num: "num \<in> {4, 8, 16}" and w: "1 \<le> width" "width \<le> 7" "(width + 1) * num = 32" and len: "length vec mod 1024 = 0"
  shows "bfp_layout num (\<lambda>x e. convert_mantissa width False x e a) rm a vec
    (concat (map (\<lambda>t. tile_words num (lanes_word num width a) a (tile_row vec rm t)) [0..<length vec div 1024]))"
    (is "bfp_layout _ _ _ _ _ (concat ?tiles)")
proof -
  let ?T = "16 + 64 * (16 div num)"
  have b: "32 div num = width + 1" unfolding w(3) [symmetric] using num by auto
  have n0: "0 < num" using num by auto
  have "get_byte (concat ?tiles ! (?T * t + r div 4)) (r mod 4) = Inr (ucast (row_exp a (tile_row vec rm t r)))"
    and "\<And>j. j < 16 \<Longrightarrow> lanes_of (width + 1) (concat ?tiles ! (?T * t + 16 + (16 div num * r + j div num))) ! (j mod num) =
      ucast (convert_mantissa width False (tile_row vec rm t r ! j) (row_exp a (tile_row vec rm t r)) a)"
    if t: "t < length vec div 1024" and r: "r < 64" for t r
  proof -
    have at: "concat ?tiles ! (?T * t + i) = tile_words num (lanes_word num width a) a (tile_row vec rm t) ! i" if "i < ?T" for i
      by (rule nth_concat_map [OF _ t that]) simp
    let ?es = "map (\<lambda>r. row_exp a (tile_row vec rm t r)) [4 * (r div 4)..<4 * (r div 4) + 4]"
    have "r div 4 < ?T" using r by (auto intro: trans_less_add1)
    then have "concat ?tiles ! (?T * t + r div 4) = exp_word ?es" using at tile_words_nth(1) [OF num r] by simp
    moreover have "get_byte (exp_word ?es) (r mod 4) = Inr (ucast (?es ! (r mod 4)))"
      by (rule exp_word_byte [OF _ _ exp_word]) (simp_all del: upt_Suc)
    ultimately show "get_byte (concat ?tiles ! (?T * t + r div 4)) (r mod 4) = Inr (ucast (row_exp a (tile_row vec rm t r)))"
      by (simp del: upt_Suc)
    fix j :: nat assume j: "j < 16"
    have "j div num < 16 div num" using num j by auto
    moreover have "16 div num * Suc r \<le> 16 div num * 64" using r by (intro mult_le_mono2) simp
    moreover have "16 div num * Suc r = 16 div num * r + 16 div num" by simp
    ultimately have "16 + (16 div num * r + j div num) < ?T" by linarith
    then have c: "concat ?tiles ! (?T * t + 16 + (16 div num * r + j div num)) =
        lanes_word num width a (take num (drop (num * (j div num)) (tile_row vec rm t r))) (row_exp a (tile_row vec rm t r))"
      using at tile_words_nth(2) [OF num r j] by (simp add: add.assoc)
    have "take num (drop (num * (j div num)) (tile_row vec rm t r)) ! (j mod num) = tile_row vec rm t r ! j"
    proof -
      have "num * (j div num) + num \<le> 16" using num j by auto
      then show ?thesis using n0 by simp
    qed
    then show "lanes_of (width + 1) (concat ?tiles ! (?T * t + 16 + (16 div num * r + j div num))) ! (j mod num) =
      ucast (convert_mantissa width False (tile_row vec rm t r ! j) (row_exp a (tile_row vec rm t r)) a)"
      unfolding c using lanes_word_lane [OF w, of "j mod num"] n0 by simp
  qed
  moreover have "length (concat ?tiles) = length vec div 1024 * ?T"
    by (subst length_concat_equal [where T = ?T]) auto
  ultimately show ?thesis by (simp add: bfp_layout_def Let_def row_exp b)
qed

text \<open>(C35) Both packing loops, that of the template and the one written out again for Bfp8, give a vector with the layout of the
  format, for every number of tiles (as far as the elements are numbered by an \<^verbatim>\<open>int\<close>), row-major or in tile order, in both exponent modes: no access
  is out of range, the exponent of each row of sixteen values is the byte \<open>r mod 4\<close> of the word \<open>r div 4\<close> of its tile, and each value, converted with that
  exponent, is in its lane.  A vector that is not a whole number of tiles is refused by an assertion.  And the loop written for Bfp8 gives the same words
  as the template at Bfp8.\<close>

theorem bfp_tiles_layout:
  assumes "is_bfp_format fmt" and "length vec < 2 ^ 31"
  shows "if length vec mod 1024 = 0
    then (\<exists>packed. pack_fp32_vec_as_bfp_tiles fmt vec row_major is_exp_a = Inr packed \<and>
        bfp_layout (nums_in_dword fmt) (\<lambda>x e. convert_mantissa (mantissa_bfp_width fmt) False x e is_exp_a) row_major is_exp_a vec packed) \<and>
      (\<exists>packed. pack_fp32_vec_as_bfp8_tiles vec row_major is_exp_a = Inr packed \<and>
        pack_fp32_vec_as_bfp_tiles Bfp8_b vec row_major is_exp_a = Inr packed \<and>
        bfp_layout 4 (\<lambda>x e. convert_u32_to_bfp8 False x e is_exp_a) row_major is_exp_a vec packed)
    else (\<exists>m. pack_fp32_vec_as_bfp_tiles fmt vec row_major is_exp_a = Inl (TT_ASSERT m)) \<and>
      (\<exists>m. pack_fp32_vec_as_bfp8_tiles vec row_major is_exp_a = Inl (TT_ASSERT m))"
proof (cases "length vec mod 1024 = 0")
  case True
  define n where "n = length vec div 1024"
  have n: "length vec = 1024 * n" "n < 2 ^ 32" using True assms(2) by (auto simp: n_def)
  have template: "pack_fp32_vec_as_bfp_tiles fmt vec row_major is_exp_a =
      Inr (concat (map (\<lambda>t. tile_words (nums_in_dword fmt) (lanes_word (nums_in_dword fmt) (mantissa_bfp_width fmt) is_exp_a) is_exp_a
        (tile_row vec row_major t)) [0..<n]))" if "is_bfp_format fmt" for fmt
    unfolding pack_fp32_vec_as_bfp_tiles_def using that pack_tiles_eq [OF packs_words_template [OF that] n] by simp
  have layout: "bfp_layout (nums_in_dword fmt) (\<lambda>x e. convert_mantissa (mantissa_bfp_width fmt) False x e is_exp_a) row_major is_exp_a vec
      (concat (map (\<lambda>t. tile_words (nums_in_dword fmt) (lanes_word (nums_in_dword fmt) (mantissa_bfp_width fmt) is_exp_a) is_exp_a
        (tile_row vec row_major t)) [0..<n]))" if "is_bfp_format fmt" for fmt
    unfolding n_def by (rule tile_words_layout) (use format_numbers [OF that] True in \<open>auto simp: that\<close>)
  have b8: "is_bfp_format Bfp8_b" "nums_in_dword Bfp8_b = 4" "mantissa_bfp_width Bfp8_b = 7"
    by (simp_all add: is_bfp_format_def nums_in_dword_def mantissa_bfp_width_def)
  have "pack_fp32_vec_as_bfp8_tiles vec row_major is_exp_a = pack_fp32_vec_as_bfp_tiles Bfp8_b vec row_major is_exp_a"
    unfolding bfp8_pack_eq template [OF b8(1)] b8 by (rule pack_tiles_eq [OF packs_words_bfp8 n])
  then show ?thesis using True template [OF assms(1)] layout [OF assms(1)] template [OF b8(1)] layout [OF b8(1)]
    by (simp add: b8 convert_mantissa_7)
next
  case False
  then show ?thesis using assms(1) by (simp add: pack_fp32_vec_as_bfp_tiles_def pack_fp32_vec_as_bfp8_tiles_def pack_tiles_def)
qed

text \<open>The packed tiles have the size that \<^verbatim>\<open>tile_size\<close> announces.\<close>

lemma packed_tiles_size:
  assumes "is_bfp_format fmt" and "length vec < 2 ^ 31" and "pack_fp32_vec_as_bfp_tiles fmt vec row_major is_exp_a = Inr packed"
  shows "\<exists>s. tile_size fmt = Inr s \<and> length packed * 4 = length vec div 1024 * s"
proof -
  have m: "length vec mod 1024 = 0" using assms(1,3) by (intro ccontr [of "length vec mod 1024 = 0"]) (simp add: pack_fp32_vec_as_bfp_tiles_def pack_tiles_def)
  have n: "length vec = 1024 * (length vec div 1024)" "length vec div 1024 < 2 ^ 32" using m assms(2) by auto
  have "packed = concat (map (\<lambda>t. tile_words (nums_in_dword fmt) (lanes_word (nums_in_dword fmt) (mantissa_bfp_width fmt) is_exp_a)
      is_exp_a (tile_row vec row_major t)) [0..<length vec div 1024])"
    using assms(1,3) pack_tiles_eq [OF packs_words_template [OF assms(1)] n] by (simp add: pack_fp32_vec_as_bfp_tiles_def)
  then have "length packed = (16 + 64 * (16 div nums_in_dword fmt)) * (length vec div 1024)"
    by (simp only:) (subst length_concat_equal, auto)
  moreover have "\<exists>s. tile_size fmt = Inr s \<and> (16 + 64 * (16 div nums_in_dword fmt)) * 4 = s"
    using assms(1) by (auto simp: is_bfp_format_def nums_in_dword_def)
  ultimately show ?thesis by auto
qed

lemma bfp_layoutD:
  assumes "bfp_layout num conv row_major a vec packed" and "t < length vec div 1024" and "r < 64"
  shows "get_byte (packed ! ((16 + 64 * (16 div num)) * t + r div 4)) (r mod 4) = Inr (ucast (row_exp a (tile_row vec row_major t r)))"
    and "j < 16 \<Longrightarrow> lanes_of (32 div num) (packed ! ((16 + 64 * (16 div num)) * t + 16 + (16 div num * r + j div num))) ! (j mod num) =
      ucast (conv (tile_row vec row_major t r ! j) (row_exp a (tile_row vec row_major t r)))"
  using assms by (simp_all add: bfp_layout_def Let_def row_exp)

lemma tile_row_replicate:
  assumes "1024 * Suc t \<le> n" and "r < 64"
  shows "tile_row (replicate n x) row_major t r = replicate 16 x"
proof (rule nth_equalityI)
  fix j assume "j < length (tile_row (replicate n x) row_major t r)"
  then have j: "j \<le> 15" by simp
  have d: "r div 32 \<le> 1" "r mod 16 \<le> 15" "r div 16 mod 2 \<le> 1" "r \<le> 63" using assms(2) by auto
  have "(r div 32 * 16 + r mod 16) * 32 + (r div 16 mod 2 * 16 + j) < 1024" using d j by simp
  moreover have "16 * r + j < 1024" using d(4) j by linarith
  ultimately show "tile_row (replicate n x) row_major t r ! j = replicate 16 x ! j"
    using j assms(1) by (auto simp: tile_row_def)
qed simp

theorem bfp_tiles_layout_witness:
  "\<exists>packed. pack_fp32_vec_as_bfp_tiles Bfp4_b (replicate 2048 0x3fc00000) True False = Inr packed \<and>
     length packed = 288 \<and> get_byte (packed ! 147) 1 = Inr 127 \<and> lanes_of 4 (packed ! 187) ! 2 = 6"
proof -
  define vec :: "float32 list" where "vec = replicate 2048 0x3fc00000"
  have vec: "length vec = 2048" "tile_row vec True 1 13 = replicate 16 0x3fc00000"
    unfolding vec_def by (simp, rule tile_row_replicate) simp_all
  have f: "is_bfp_format Bfp4_b" "nums_in_dword Bfp4_b = 8" "mantissa_bfp_width Bfp4_b = 3"
    by (simp_all add: is_bfp_format_def nums_in_dword_def mantissa_bfp_width_def)
  obtain packed where p: "pack_fp32_vec_as_bfp_tiles Bfp4_b vec True False = Inr packed"
    and l: "bfp_layout 8 (\<lambda>x e. convert_mantissa 3 False x e False) True False vec packed"
    using bfp_tiles_layout [OF f(1), of vec True False] by (auto simp: vec(1) f(2,3))
  have e: "row_exp False (replicate 16 0x3fc00000) = 127"
    by code_simp
  have "length packed = 288" using l vec(1) by (simp add: bfp_layout_def Let_def)
  moreover have "get_byte (packed ! 147) 1 = Inr 127" using bfp_layoutD(1) [OF l, of 1 13] vec e by simp
  moreover have "lanes_of 4 (packed ! 187) ! 2 = 6"
    using bfp_layoutD(2) [OF l, of 1 13 10] vec e
    by (simp add: convert_mantissa_def exp_field_def shift_mantissa.simps Let_def mask_eq_exp_minus_1)
  ultimately show ?thesis using p unfolding vec_def by blast
qed

end
