(* ===== verification/Worker_Config.thy ===== *)
theory Worker_Config
  imports Metal_Prelude
begin

text \<open>
  The kernel configuration ring buffer: \<^verbatim>\<open>WorkerConfigBufferMgr\<close> of
  \<^verbatim>\<open>tt_metal/impl/dispatch/worker_config_buffer.{hpp,cpp}\<close> and the calls \<^verbatim>\<open>EnqueueProgramCommand::process\<close> of
  \<^verbatim>\<open>command_queue.cpp\<close> makes to it.  For every programmable core type the manager keeps a ring of eight
  entries, one per program whose configuration is in the buffer: \<open>alloc_index\<close> is the slot of the next
  program, whose \<open>addr\<close> is the next free address, and \<open>free_index\<close> the oldest slot still in use.  The retry loop of
  \<^verbatim>\<open>reserve\<close> has fuel: eight rounds, because each retry moves to another of the eight slots.  A
  \<^verbatim>\<open>ConfigBufferSync\<close> whose \<open>sync_count\<close> was never written is \<open>None\<close>; reading it gives an arbitrary
  value, a parameter of \<open>process_config\<close>.
\<close>

subsection \<open>The code\<close>

definition kernel_config_entry_count :: nat where
  "kernel_config_entry_count = 8"

record ConfigBufferEntry =
  ce_addr :: nat
  ce_size :: nat
  ce_sync_count :: nat

record ConfigBufferSync =
  need_sync :: bool
  sync_count :: "nat option"

record WorkerConfigBufferMgr =
  base_addrs :: "nat list"
  end_addrs :: "nat list"
  cb_entries :: "ConfigBufferEntry list list"
  alloc_index :: "nat list"
  free_index :: "nat list"
  reservation :: "ConfigBufferEntry list"

definition zero_entry :: ConfigBufferEntry where
  "zero_entry = \<lparr>ce_addr = 0, ce_size = 0, ce_sync_count = 0\<rparr>"

definition new_WorkerConfigBufferMgr :: WorkerConfigBufferMgr where
  "new_WorkerConfigBufferMgr =
     \<lparr>base_addrs = [], end_addrs = [], cb_entries = replicate kernel_config_entry_count [],
      alloc_index = [], free_index = [], reservation = []\<rparr>"

definition init_add_core :: "nat \<times> nat \<Rightarrow> WorkerConfigBufferMgr \<Rightarrow> WorkerConfigBufferMgr" where
  "init_add_core region m =
     (let (base_addr, sz) = region;
          pushed = map (\<lambda>row. row @ [zero_entry]) (cb_entries m)
      in m\<lparr>base_addrs := base_addrs m @ [base_addr],
           end_addrs := end_addrs m @ [add32 base_addr sz],
           cb_entries := pushed[0 := butlast (pushed ! 0) @ [(last (pushed ! 0))\<lparr>ce_addr := base_addr\<rparr>]],
           alloc_index := alloc_index m @ [0],
           free_index := free_index m @ [0],
           reservation := reservation m @ [zero_entry]\<rparr>)"

definition entry_at :: "WorkerConfigBufferMgr \<Rightarrow> nat \<Rightarrow> nat \<Rightarrow> ConfigBufferEntry" where
  "entry_at m slot idx = cb_entries m ! slot ! idx"

definition set_entry :: "nat \<Rightarrow> nat \<Rightarrow> ConfigBufferEntry \<Rightarrow> WorkerConfigBufferMgr \<Rightarrow> WorkerConfigBufferMgr" where
  "set_entry slot idx e m = m\<lparr>cb_entries := (cb_entries m)[slot := (cb_entries m ! slot)[idx := e]]\<rparr>"

definition ring_next :: "nat \<Rightarrow> nat" where
  "ring_next i = (if i + 1 = kernel_config_entry_count then 0 else i + 1)"

definition set_reservation :: "nat \<Rightarrow> nat \<Rightarrow> nat \<Rightarrow> WorkerConfigBufferMgr \<Rightarrow> WorkerConfigBufferMgr" where
  "set_reservation idx addr sz m =
     m\<lparr>reservation := (reservation m)[idx := (reservation m ! idx)\<lparr>ce_addr := addr, ce_size := sz\<rparr>]\<rparr>"

fun reserve_loop :: "nat \<Rightarrow> nat \<Rightarrow> nat \<Rightarrow> nat \<Rightarrow> ConfigBufferSync \<times> WorkerConfigBufferMgr
    \<Rightarrow> (ConfigBufferSync \<times> WorkerConfigBufferMgr) result" where
  "reserve_loop 0 idx sz free_i (sync_info, m) = Inl Diverges"
| "reserve_loop (Suc fuel) idx sz free_i (sync_info, m) =
     (let alloc_i = alloc_index m ! idx;
          addr = ce_addr (entry_at m alloc_i idx);
          end_addr = end_addrs m ! idx;
          reserved = (\<lambda>sync a. Inr (sync_info\<lparr>need_sync := need_sync sync_info \<or> sync,
                                            sync_count := Some (ce_sync_count (entry_at m free_i idx))\<rparr>,
                                   set_reservation idx a sz m))
      in if sz = 0 then Inr (sync_info, set_reservation idx addr sz m)
      else rbind (check (sz \<le> sub32 end_addr (base_addrs m ! idx)) (TT_ASSERT ''reservation too large'')) (\<lambda>_.
        let free_addr = ce_addr (entry_at m free_i idx);
            end1 = (if addr \<ge> free_addr then end_addr else free_addr);
            wrap = (add32 addr sz > end1 \<and> end1 = end_addr);
            addr = (if wrap then base_addrs m ! idx else addr);
            end2 = (if wrap then free_addr else end1)
        in if add32 addr sz > end2 then
             (let next_free = ring_next free_i in
              if next_free = alloc_i then reserved True (base_addrs m ! idx)
              else
                let next_addr = ce_addr (entry_at m next_free idx);
                    next_end = (if addr \<ge> next_addr then end_addr else next_addr)
                in if add32 addr sz > next_end
                   then reserve_loop fuel idx sz next_free (sync_info, m)
                   else reserved True addr)
           else reserved (alloc_i + 1 = free_i \<or>
                          alloc_i + 1 = kernel_config_entry_count \<and> free_i = 0) addr))"

definition reserve_core :: "nat list \<Rightarrow> nat \<Rightarrow> ConfigBufferSync \<times> WorkerConfigBufferMgr
    \<Rightarrow> (ConfigBufferSync \<times> WorkerConfigBufferMgr) result" where
  "reserve_core sizes idx st =
     reserve_loop kernel_config_entry_count idx (sizes ! idx) (free_index (snd st) ! idx) st"

definition reserve :: "nat list \<Rightarrow> WorkerConfigBufferMgr \<Rightarrow> (ConfigBufferSync \<times> WorkerConfigBufferMgr) result" where
  "reserve sizes m =
     rbind (check (length sizes = length (reservation m)) (TT_ASSERT ''sizes.size() == num_core_types'')) (\<lambda>_.
     rfold (reserve_core sizes) [0..<length (reservation m)] (\<lparr>need_sync = False, sync_count = None\<rparr>, m))"

definition free_core :: "nat \<Rightarrow> nat \<Rightarrow> WorkerConfigBufferMgr \<Rightarrow> WorkerConfigBufferMgr" where
  "free_core free_up_to_sync_count idx m =
     (let i = free_index m ! idx in
      if free_up_to_sync_count \<ge> ce_sync_count (entry_at m i idx) \<and> i \<noteq> alloc_index m ! idx
      then m\<lparr>free_index := (free_index m)[idx := ring_next i]\<rparr> else m)"

definition free_config :: "nat \<Rightarrow> WorkerConfigBufferMgr \<Rightarrow> WorkerConfigBufferMgr" where
  "free_config free_up_to_sync_count m =
     fold (free_core free_up_to_sync_count) [0..<length (reservation m)] m"

definition alloc_core :: "nat \<Rightarrow> nat \<Rightarrow> WorkerConfigBufferMgr \<Rightarrow> WorkerConfigBufferMgr" where
  "alloc_core when_freeable_sync_count idx m =
     (let i = alloc_index m ! idx;
          r = reservation m ! idx;
          m = set_entry i idx \<lparr>ce_addr = ce_addr r, ce_size = ce_size r, ce_sync_count = when_freeable_sync_count\<rparr> m;
          old = entry_at m i idx;
          m = set_entry (ring_next i) idx
                \<lparr>ce_addr = add32 (ce_addr old) (ce_size old), ce_size = 0, ce_sync_count = 0xbabababa\<rparr> m
      in m\<lparr>alloc_index := (alloc_index m)[idx := ring_next i]\<rparr>)"

definition alloc_config :: "nat \<Rightarrow> WorkerConfigBufferMgr \<Rightarrow> WorkerConfigBufferMgr" where
  "alloc_config when_freeable_sync_count m =
     fold (alloc_core when_freeable_sync_count) [0..<length (reservation m)] m"

datatype HalProgrammableCoreType = TENSIX | ACTIVE_ETH | IDLE_ETH | COUNT

fun programmable_core_index :: "HalProgrammableCoreType \<Rightarrow> nat" where
  "programmable_core_index TENSIX = 0"
| "programmable_core_index ACTIVE_ETH = 1"
| "programmable_core_index IDLE_ETH = 2"
| "programmable_core_index COUNT = 3"

definition get_last_slot_addr :: "WorkerConfigBufferMgr \<Rightarrow> HalProgrammableCoreType \<Rightarrow> nat result" where
  "get_last_slot_addr m programmable_core_type =
     rbind (check (programmable_core_type \<noteq> IDLE_ETH) (TT_ASSERT ''programmable_core_type'')) (\<lambda>_.
     let index = programmable_core_index programmable_core_type in
     if index < length (reservation m) then Inr (ce_addr (reservation m ! index))
     else Inl (Undefined ''vector access out of range''))"

text \<open>The start of \<^verbatim>\<open>EnqueueProgramCommand::process\<close>; \<open>indeterminate\<close> is the value an unwritten
  \<^verbatim>\<open>sync_count\<close> reads as.\<close>

definition process_config :: "nat list \<Rightarrow> nat \<Rightarrow> bool \<Rightarrow> bool \<Rightarrow> nat \<Rightarrow> nat \<Rightarrow> nat \<Rightarrow> WorkerConfigBufferMgr
    \<Rightarrow> (bool \<times> ConfigBufferEntry list \<times> WorkerConfigBufferMgr) result" where
  "process_config program_config_sizes expected_num_workers_completed multicast_cores unicast_cores
       num_worker_cores num_eth_worker_cores indeterminate m =
     rbind (reserve program_config_sizes m) (\<lambda>(sync_info, m).
     let stall_first = need_sync sync_info;
         m = free_config (case sync_count sync_info of Some c \<Rightarrow> c | None \<Rightarrow> indeterminate) m;
         num_workers = 0;
         num_workers = (if multicast_cores then add32 num_workers num_worker_cores else num_workers);
         num_workers = (if unicast_cores then add32 num_workers num_eth_worker_cores else num_workers);
         m = alloc_config (add32 expected_num_workers_completed num_workers) m
     in Inr (stall_first, reservation m, m))"

definition init_cores :: "(nat \<times> nat) list \<Rightarrow> WorkerConfigBufferMgr" where
  "init_cores regions = fold init_add_core regions new_WorkerConfigBufferMgr"

end
