(* ===== verification/Worker_Config_Props.thy ===== *)
theory Worker_Config_Props
  imports Worker_Config "HOL-Library.Code_Target_Nat"
begin

text \<open>
  Correctness of the kernel configuration ring buffer.  \<open>mgr_ok\<close> is the invariant of the data
  structure; under it \<open>reserve\<close> ends within its fuel and stays inside the buffer.  \<open>config_run\<close> collects the
  states that programs enqueued one after the other lead to, and \<open>lockstep\<close> describes them: all
  core types are at the same slot, and exactly one program, the last one, is still in the ring.
\<close>

subsection \<open>The invariant\<close>

definition core_ok :: "WorkerConfigBufferMgr \<Rightarrow> nat \<Rightarrow> bool" where
  "core_ok m idx \<longleftrightarrow>
     alloc_index m ! idx < 8 \<and> free_index m ! idx < 8 \<and>
     base_addrs m ! idx \<le> ce_addr (entry_at m (alloc_index m ! idx) idx) \<and>
     (\<forall>slot<8. ce_addr (entry_at m slot idx) \<le> end_addrs m ! idx) \<and>
     base_addrs m ! idx \<le> end_addrs m ! idx \<and>
     end_addrs m ! idx + (end_addrs m ! idx - base_addrs m ! idx) < 2 ^ 32"

definition mgr_shape :: "WorkerConfigBufferMgr \<Rightarrow> nat \<Rightarrow> bool" where
  "mgr_shape m n \<longleftrightarrow> length (base_addrs m) = n \<and> length (end_addrs m) = n \<and> length (alloc_index m) = n \<and>
     length (free_index m) = n \<and> length (reservation m) = n \<and> length (cb_entries m) = 8 \<and>
     (\<forall>slot<8. length (cb_entries m ! slot) = n)"

definition mgr_ok :: "WorkerConfigBufferMgr \<Rightarrow> bool" where
  "mgr_ok m \<longleftrightarrow> mgr_shape m (length (reservation m)) \<and> (\<forall>idx<length (reservation m). core_ok m idx)"

definition sizes_ok :: "nat list \<Rightarrow> WorkerConfigBufferMgr \<Rightarrow> bool" where
  "sizes_ok sizes m \<longleftrightarrow> length sizes = length (reservation m) \<and>
     (\<forall>idx<length sizes. sizes ! idx \<le> end_addrs m ! idx - base_addrs m ! idx)"

definition inside :: "WorkerConfigBufferMgr \<Rightarrow> nat \<Rightarrow> ConfigBufferEntry \<Rightarrow> bool" where
  "inside m idx e \<longleftrightarrow> base_addrs m ! idx \<le> ce_addr e \<and> ce_addr e + ce_size e \<le> end_addrs m ! idx"

lemma ring_next_less [simp]: "i < 8 \<Longrightarrow> ring_next i < 8"
  by (simp add: ring_next_def kernel_config_entry_count_def)

lemma ring_next_neq [simp]: "i < 8 \<Longrightarrow> ring_next i \<noteq> i"
  by (auto simp: ring_next_def kernel_config_entry_count_def)

lemma ring_next_neq' [simp]: "i < 8 \<Longrightarrow> i \<noteq> ring_next i"
  by (auto simp: ring_next_def kernel_config_entry_count_def)

lemma ring_next2_neq [simp]: "i < 8 \<Longrightarrow> ring_next (ring_next i) \<noteq> i"
  by (auto simp: ring_next_def kernel_config_entry_count_def split: if_splits)

definition ring_dist :: "nat \<Rightarrow> nat \<Rightarrow> nat" where
  "ring_dist f a = (a + 7 - f) mod 8"

lemma less_8_cases: "(i::nat) < 8 \<Longrightarrow> i = 0 \<or> i = 1 \<or> i = 2 \<or> i = 3 \<or> i = 4 \<or> i = 5 \<or> i = 6 \<or> i = 7"
  by linarith

lemma ring_dist_next: "f < 8 \<Longrightarrow> a < 8 \<Longrightarrow> ring_next f \<noteq> a \<Longrightarrow> ring_dist f a = Suc (ring_dist (ring_next f) a)"
  by (drule less_8_cases, drule less_8_cases, elim disjE)
    (simp_all add: ring_dist_def ring_next_def kernel_config_entry_count_def)

lemma ring_dist_less: "ring_dist f a < 8"
  by (simp add: ring_dist_def)

lemma entry_at_update [simp]:
  "entry_at (m\<lparr>alloc_index := x\<rparr>) = entry_at m"
  "entry_at (m\<lparr>free_index := x\<rparr>) = entry_at m"
  by (simp_all add: entry_at_def fun_eq_iff)

lemma set_reservation_simps [simp]:
  "base_addrs (set_reservation idx a z m) = base_addrs m"
  "end_addrs (set_reservation idx a z m) = end_addrs m"
  "cb_entries (set_reservation idx a z m) = cb_entries m"
  "alloc_index (set_reservation idx a z m) = alloc_index m"
  "free_index (set_reservation idx a z m) = free_index m"
  "length (reservation (set_reservation idx a z m)) = length (reservation m)"
  "entry_at (set_reservation idx a z m) = entry_at m"
  by (simp_all add: set_reservation_def entry_at_def fun_eq_iff)

subsection \<open>Reserving\<close>

definition reserved_as :: "nat \<Rightarrow> nat \<Rightarrow> ConfigBufferSync \<times> WorkerConfigBufferMgr \<Rightarrow> bool \<Rightarrow> nat \<Rightarrow> nat
    \<Rightarrow> (ConfigBufferSync \<times> WorkerConfigBufferMgr) result" where
  "reserved_as idx sz st b f a =
     Inr ((fst st)\<lparr>need_sync := need_sync (fst st) \<or> b,
            sync_count := Some (ce_sync_count (entry_at (snd st) f idx))\<rparr>, set_reservation idx a sz (snd st))"

lemma reserve_loop_zero:
  "reserve_loop (Suc fuel) idx 0 f (s, m) =
     Inr (s, set_reservation idx (ce_addr (entry_at m (alloc_index m ! idx) idx)) 0 m)"
  by simp

lemma add32_inside:
  assumes "core_ok m idx" and "a \<le> end_addrs m ! idx" and "sz \<le> end_addrs m ! idx - base_addrs m ! idx"
  shows "add32 a sz = a + sz"
  using assms by (intro wadd_id) (auto simp: core_ok_def)

lemma sub32_inside: "core_ok m idx \<Longrightarrow> sub32 (end_addrs m ! idx) (base_addrs m ! idx) = end_addrs m ! idx - base_addrs m ! idx"
  by (rule wsub_id) (auto simp: core_ok_def)

lemma reserve_loop_inside:
  assumes ok: "core_ok m idx" and f: "f < 8" and sz: "0 < sz" "sz \<le> end_addrs m ! idx - base_addrs m ! idx"
    and fuel: "ring_dist f (alloc_index m ! idx) < fuel"
  shows "\<exists>b f' a. f' < 8 \<and> reserve_loop fuel idx sz f (s, m) = reserved_as idx sz (s, m) b f' a \<and>
    base_addrs m ! idx \<le> a \<and> a + sz \<le> end_addrs m ! idx"
  using f fuel
proof (induction fuel arbitrary: f)
  case (Suc fuel)
  define A where "A = alloc_index m ! idx"
  define B where "B = base_addrs m ! idx"
  define E where "E = end_addrs m ! idx"
  define x where "x = ce_addr (entry_at m A idx)"
  define y where "y = ce_addr (entry_at m f idx)"
  define z where "z = ce_addr (entry_at m (ring_next f) idx)"
  have bounds: "B \<le> x" "x \<le> E" "y \<le> E" "z \<le> E" "B \<le> E"
    using ok Suc.prems(1) by (auto simp: core_ok_def A_def B_def E_def x_def y_def z_def)
  have sub: "sub32 E B = E - B" using sub32_inside [OF ok] by (simp add: E_def B_def)
  have plus: "add32 x sz = x + sz" "add32 B sz = B + sz"
    using add32_inside [OF ok _ sz(2)] bounds by (simp_all add: E_def B_def)
  have fits: "B + sz \<le> E" using sz(2) bounds by (simp add: E_def B_def)
  have szE: "sz \<le> E - B" using sz(2) by (simp add: E_def B_def)
  have IH: "\<exists>b f' a. f' < 8 \<and> reserve_loop fuel idx sz (ring_next f) (s, m) = reserved_as idx sz (s, m) b f' a \<and>
      B \<le> a \<and> a + sz \<le> E" if "ring_next f \<noteq> A"
    unfolding B_def E_def
    by (rule Suc.IH) (use Suc.prems that ok ring_dist_next [of f A] in \<open>auto simp: A_def core_ok_def\<close>)
  have loop: "reserve_loop (Suc fuel) idx sz f (s, m) =
     (let e1 = (if y \<le> x then E else y); w = (x + sz > e1 \<and> e1 = E); a = (if w then B else x); e2 = (if w then y else e1)
      in if a + sz > e2 then
           if ring_next f = A then reserved_as idx sz (s, m) True f B
           else if a + sz > (if z \<le> a then E else z) then reserve_loop fuel idx sz (ring_next f) (s, m)
           else reserved_as idx sz (s, m) True f a
         else reserved_as idx sz (s, m) (A + 1 = f \<or> A + 1 = kernel_config_entry_count \<and> f = 0) f a)"
    using sz(1) szE by (simp add: Let_def reserved_as_def sub plus
        flip: A_def B_def E_def x_def y_def z_def)
  define w where "w \<longleftrightarrow> x + sz > (if y \<le> x then E else y) \<and> (if y \<le> x then E else y) = E"
  define a where "a = (if w then B else x)"
  have a: "B \<le> a" "a \<le> E" using bounds by (simp_all add: a_def)
  have e2: "(if w then y else if y \<le> x then E else y) \<le> E" using bounds by simp
  have nx: "(if z \<le> a then E else z) \<le> E" using bounds by simp
  show ?case
    unfolding loop Let_def w_def [symmetric] a_def [symmetric] B_def [symmetric] E_def [symmetric]
    using IH Suc.prems(1) a e2 nx fits
    by (smt (verit, best) le_trans linorder_not_le order_refl)
qed simp

text \<open>With exactly one program in the ring the first round decides.\<close>

lemma reserve_loop_one:
  assumes ok: "core_ok m idx" and sz: "0 < sz" "sz \<le> end_addrs m ! idx - base_addrs m ! idx"
    and f: "f < 8" and one: "alloc_index m ! idx = ring_next f"
    and last: "ce_addr (entry_at m (ring_next f) idx) = ce_addr (entry_at m f idx) + ce_size (entry_at m f idx)"
  shows "\<exists>b a. reserve_loop (Suc fuel) idx sz f (s, m) = reserved_as idx sz (s, m) b f a \<and>
    base_addrs m ! idx \<le> a \<and> a + sz \<le> end_addrs m ! idx \<and>
    (b \<or> ce_addr (entry_at m f idx) + ce_size (entry_at m f idx) \<le> a \<or> a + sz \<le> ce_addr (entry_at m f idx))"
proof -
  define B where "B = base_addrs m ! idx"
  define E where "E = end_addrs m ! idx"
  define y where "y = ce_addr (entry_at m f idx)"
  define l where "l = ce_size (entry_at m f idx)"
  have x: "ce_addr (entry_at m (ring_next f) idx) = y + l" using last by (simp add: y_def l_def)
  have bounds: "B \<le> y + l" "y + l \<le> E" "B \<le> E"
    using ok f one x by (auto simp: core_ok_def B_def E_def dest: spec [of _ "ring_next f"])
  have sub: "sub32 E B = E - B" using sub32_inside [OF ok] by (simp add: E_def B_def)
  have szE: "sz \<le> E - B" using sz(2) by (simp add: E_def B_def)
  have plus: "add32 (y + l) sz = y + l + sz" "add32 B sz = B + sz"
    using add32_inside [OF ok _ sz(2)] bounds by (simp_all add: E_def B_def)
  have fits: "B + sz \<le> E" using sz(2) bounds by (simp add: E_def B_def)
  have full: "\<not> (ring_next f + 1 = f \<or> ring_next f + 1 = kernel_config_entry_count \<and> f = 0)"
    using f by (auto simp: ring_next_def kernel_config_entry_count_def)
  have loop: "reserve_loop (Suc fuel) idx sz f (s, m) =
     (if y + l + sz \<le> E then reserved_as idx sz (s, m) False f (y + l)
      else if B + sz \<le> y then reserved_as idx sz (s, m) False f B
      else reserved_as idx sz (s, m) True f B)"
    using sz(1) szE full one x bounds by (auto simp: Let_def reserved_as_def sub plus simp flip: B_def E_def y_def l_def)
  show ?thesis
    unfolding loop B_def [symmetric] E_def [symmetric] y_def [symmetric] l_def [symmetric]
    using bounds fits by (smt (verit, best) linorder_not_le order_refl)
qed

definition same_ring :: "WorkerConfigBufferMgr \<Rightarrow> WorkerConfigBufferMgr \<Rightarrow> bool" where
  "same_ring m m' \<longleftrightarrow> base_addrs m' = base_addrs m \<and> end_addrs m' = end_addrs m \<and> cb_entries m' = cb_entries m \<and>
     alloc_index m' = alloc_index m \<and> free_index m' = free_index m \<and> length (reservation m') = length (reservation m)"

lemma same_ring_facts:
  assumes "same_ring m m'"
  shows "core_ok m' = core_ok m" and "entry_at m' = entry_at m" and "inside m' = inside m"
    and "mgr_shape m' = mgr_shape m"
  using assms by (auto simp: same_ring_def core_ok_def entry_at_def inside_def mgr_shape_def fun_eq_iff)

lemma same_ring_set_reservation: "same_ring m m' \<Longrightarrow> same_ring m (set_reservation idx a z m')"
  by (simp add: same_ring_def)

lemma reservation_set_reservation:
  assumes "idx < length (reservation m)"
  shows "ce_addr (reservation (set_reservation idx a z m) ! idx) = a"
    and "ce_size (reservation (set_reservation idx a z m) ! idx) = z"
    and "j \<noteq> idx \<Longrightarrow> reservation (set_reservation idx a z m) ! j = reservation m ! j"
  using assms by (simp_all add: set_reservation_def)

lemma reserve_core_inside:
  assumes ok: "mgr_ok m" and sizes: "sizes_ok sizes m" and idx: "idx < length (reservation m)" and m': "same_ring m m'"
  shows "\<exists>s' a. reserve_core sizes idx (s :: ConfigBufferSync, m') = Inr (s', set_reservation idx a (sizes ! idx) m') \<and>
    base_addrs m ! idx \<le> a \<and> a + sizes ! idx \<le> end_addrs m ! idx"
proof (cases "sizes ! idx = 0")
  case True
  have c: "core_ok m idx" using ok idx by (simp add: mgr_ok_def)
  have "alloc_index m' = alloc_index m" "entry_at m' = entry_at m" using m' same_ring_facts [OF m'] by (simp_all add: same_ring_def)
  then have "reserve_core sizes idx (s, m') =
      Inr (s, set_reservation idx (ce_addr (entry_at m (alloc_index m ! idx) idx)) 0 m')"
    using True reserve_loop_zero [of 7] by (simp add: reserve_core_def kernel_config_entry_count_def del: reserve_loop.simps)
  moreover have "base_addrs m ! idx \<le> ce_addr (entry_at m (alloc_index m ! idx) idx) \<and>
      ce_addr (entry_at m (alloc_index m ! idx) idx) \<le> end_addrs m ! idx"
    using c by (simp add: core_ok_def)
  ultimately show ?thesis using True by auto
next
  case False
  have c: "core_ok m' idx" using ok idx same_ring_facts [OF m'] by (simp add: mgr_ok_def)
  have "\<exists>b f' a. f' < 8 \<and> reserve_loop 8 idx (sizes ! idx) (free_index m' ! idx) (s, m') =
      reserved_as idx (sizes ! idx) (s, m') b f' a \<and>
      base_addrs m' ! idx \<le> a \<and> a + sizes ! idx \<le> end_addrs m' ! idx"
    by (rule reserve_loop_inside [OF c])
      (use c False sizes idx m' ring_dist_less in \<open>simp_all add: core_ok_def sizes_ok_def same_ring_def\<close>)
  then show ?thesis using m'
    by (auto simp: reserve_core_def kernel_config_entry_count_def reserved_as_def same_ring_def simp del: reserve_loop.simps)
qed

lemma config_reserve_inside:
  assumes "mgr_ok m" and "sizes_ok sizes m"
  shows "\<exists>s m'. reserve sizes m = Inr (s, m') \<and> same_ring m m' \<and>
    (\<forall>idx<length sizes. inside m idx (reservation m' ! idx) \<and> ce_size (reservation m' ! idx) = sizes ! idx)"
proof -
  let ?n = "length (reservation m)"
  let ?I = "\<lambda>k (s :: ConfigBufferSync, m'). same_ring m m' \<and>
    (\<forall>idx<k. inside m idx (reservation m' ! idx) \<and> ce_size (reservation m' ! idx) = sizes ! idx)"
  have "\<exists>s'. rfold (reserve_core sizes) [0..<?n] (\<lparr>need_sync = False, sync_count = None\<rparr>, m) = Inr s' \<and> ?I ?n s'"
  proof (rule rfold_upt)
    fix k st assume k: "k < ?n" and i: "?I k st"
    obtain s1 m1 where st: "st = (s1, m1)" by (cases st)
    have m1: "same_ring m m1" and len: "k < length (reservation m1)" using i k st by (auto simp: same_ring_def)
    obtain s' a where c: "reserve_core sizes k (s1, m1) = Inr (s', set_reservation k a (sizes ! k) m1)"
      and a: "base_addrs m ! k \<le> a" "a + sizes ! k \<le> end_addrs m ! k"
      using reserve_core_inside [OF assms k m1] by blast
    show "\<exists>s'. reserve_core sizes k st = Inr s' \<and> ?I (Suc k) s'"
      using c a i st reservation_set_reservation [OF len] same_ring_set_reservation [OF m1]
      by (auto simp: less_Suc_eq inside_def)
  qed (simp add: same_ring_def)
  then show ?thesis using assms(2) by (auto simp: reserve_def sizes_ok_def)
qed

text \<open>(C36) Reserving space in the kernel configuration buffer always succeeds when each request fits its core
  type's buffer: the retry loop ends, no assertion fires, the ring itself is untouched, and every
  core type's reservation has the requested size and lies between its base and end address.\<close>

theorem config_reserve_correct:
  assumes "mgr_ok m" and "sizes_ok sizes m"
  shows "\<exists>s m'. reserve sizes m = Inr (s, m') \<and> same_ring m m' \<and>
    (\<forall>idx<length sizes. inside m idx (reservation m' ! idx) \<and> ce_size (reservation m' ! idx) = sizes ! idx)"
  using assms by (rule config_reserve_inside)

definition example_mgr :: WorkerConfigBufferMgr where
  "example_mgr = init_cores [(4096, 70000), (1024, 30000)]"

lemma example_mgr_ok: "mgr_ok example_mgr"
  by code_simp

lemma example_sizes_ok: "sizes_ok [60000, 0] example_mgr"
  by code_simp

theorem config_reserve_correct_witness:
  "\<exists>s m'. reserve [60000, 0] example_mgr = Inr (s, m') \<and> same_ring example_mgr m' \<and>
    (\<forall>idx<length [60000, 0::nat]. inside example_mgr idx (reservation m' ! idx) \<and>
       ce_size (reservation m' ! idx) = [60000, 0] ! idx)"
  by (rule config_reserve_correct [OF example_mgr_ok example_sizes_ok])

subsection \<open>Freeing and allocating\<close>

definition freed :: "nat \<Rightarrow> WorkerConfigBufferMgr \<Rightarrow> nat \<Rightarrow> nat" where
  "freed c m idx =
     (let i = free_index m ! idx in
      if ce_sync_count (entry_at m i idx) \<le> c \<and> i \<noteq> alloc_index m ! idx then ring_next i else i)"

lemma free_config_eq:
  assumes "length (free_index m) = n" and "length (reservation m) = n"
  shows "free_config c m = m\<lparr>free_index := map (freed c m) [0..<n]\<rparr>"
proof -
  let ?I = "\<lambda>k m'. m' = m\<lparr>free_index := map (\<lambda>idx. if idx < k then freed c m idx else free_index m ! idx) [0..<n]\<rparr>"
  have main: "?I n (fold (free_core c) [0..<n] m)"
  proof (rule fold_upt [where I = ?I])
    have "map (\<lambda>idx. if idx < 0 then freed c m idx else free_index m ! idx) [0..<n] = free_index m"
      using assms by (intro nth_equalityI) simp_all
    then show "?I 0 m" by simp
    fix k m' assume k: "k < n" and i: "?I k m'"
    have e: "entry_at m' = entry_at m" "alloc_index m' = alloc_index m" by (simp_all add: i entry_at_def fun_eq_iff)
    have f: "free_index m' ! k = free_index m ! k" using i k by simp
    have "(free_index m')[k := freed c m k] =
        map (\<lambda>idx. if idx < Suc k then freed c m idx else free_index m ! idx) [0..<n]"
      using k by (intro nth_equalityI) (auto simp: i nth_list_update less_Suc_eq)
    moreover have "free_core c k m' = m'\<lparr>free_index := (free_index m')[k := freed c m k]\<rparr>"
      by (simp add: free_core_def freed_def Let_def e f) (simp add: f [symmetric])
    ultimately show "?I (Suc k) (free_core c k m')" by (simp add: i)
  qed
  moreover have "map (\<lambda>idx. if idx < n then freed c m idx else free_index m ! idx) [0..<n] = map (freed c m) [0..<n]"
    by simp
  ultimately show ?thesis using assms(2) by (simp add: free_config_def)
qed

lemma set_entry_simps [simp]:
  "base_addrs (set_entry s i e m) = base_addrs m"
  "end_addrs (set_entry s i e m) = end_addrs m"
  "alloc_index (set_entry s i e m) = alloc_index m"
  "free_index (set_entry s i e m) = free_index m"
  "reservation (set_entry s i e m) = reservation m"
  by (simp_all add: set_entry_def)

lemma mgr_shape_set_entry: "mgr_shape m n \<Longrightarrow> s < 8 \<Longrightarrow> mgr_shape (set_entry s i e m) n"
  by (auto simp: mgr_shape_def set_entry_def nth_list_update)

lemma entry_at_set_entry:
  assumes "mgr_shape m n" and "s < 8" and "i < n"
  shows "entry_at (set_entry s i e m) s' i' = (if s' = s \<and> i' = i then e else entry_at m s' i')"
  using assms by (auto simp: mgr_shape_def set_entry_def entry_at_def nth_list_update)

definition alloced :: "nat \<Rightarrow> WorkerConfigBufferMgr \<Rightarrow> nat \<Rightarrow> nat \<Rightarrow> ConfigBufferEntry" where
  "alloced w m slot idx =
     (let i = alloc_index m ! idx; r = reservation m ! idx in
      if slot = ring_next i
      then \<lparr>ce_addr = add32 (ce_addr r) (ce_size r), ce_size = 0, ce_sync_count = 0xbabababa\<rparr>
      else if slot = i then \<lparr>ce_addr = ce_addr r, ce_size = ce_size r, ce_sync_count = w\<rparr>
      else entry_at m slot idx)"

lemma alloc_config_spec:
  assumes shape: "mgr_shape m n" and idx: "\<And>i. i < n \<Longrightarrow> alloc_index m ! i < 8"
  shows "mgr_shape (alloc_config w m) n \<and> base_addrs (alloc_config w m) = base_addrs m \<and>
    end_addrs (alloc_config w m) = end_addrs m \<and> free_index (alloc_config w m) = free_index m \<and>
    reservation (alloc_config w m) = reservation m \<and>
    (\<forall>i<n. alloc_index (alloc_config w m) ! i = ring_next (alloc_index m ! i) \<and>
       (\<forall>slot. entry_at (alloc_config w m) slot i = alloced w m slot i))"
proof -
  let ?I = "\<lambda>k m'. mgr_shape m' n \<and> base_addrs m' = base_addrs m \<and>
    end_addrs m' = end_addrs m \<and> free_index m' = free_index m \<and> reservation m' = reservation m \<and>
    (\<forall>i<n. alloc_index m' ! i = (if i < k then ring_next (alloc_index m ! i) else alloc_index m ! i) \<and>
       (\<forall>slot. entry_at m' slot i = (if i < k then alloced w m slot i else entry_at m slot i)))"
  have "?I n (fold (alloc_core w) [0..<n] m)"
  proof (rule fold_upt [where I = ?I])
    show "?I 0 m" using shape by simp
    fix k m' assume k: "k < n" and i: "?I k m'"
    define A where "A = alloc_index m ! k"
    define r where "r = reservation m ! k"
    have A: "A < 8" "ring_next A < 8" "ring_next A \<noteq> A" using idx [OF k] by (simp_all add: A_def)
    have Ak: "alloc_index m' ! k = A" "reservation m' ! k = r" using i k by (simp_all add: A_def r_def)
    define m1 where "m1 = set_entry A k \<lparr>ce_addr = ce_addr r, ce_size = ce_size r, ce_sync_count = w\<rparr> m'"
    define m2 where "m2 = set_entry (ring_next A) k
      \<lparr>ce_addr = add32 (ce_addr r) (ce_size r), ce_size = 0, ce_sync_count = 0xbabababa\<rparr> m1"
    have s1: "mgr_shape m1 n" unfolding m1_def using i A by (intro mgr_shape_set_entry) auto
    have s2: "mgr_shape m2 n" unfolding m2_def using s1 A by (intro mgr_shape_set_entry) auto
    have e1: "entry_at m1 s j = (if s = A \<and> j = k then \<lparr>ce_addr = ce_addr r, ce_size = ce_size r, ce_sync_count = w\<rparr>
        else entry_at m' s j)" for s j
      unfolding m1_def using i A k by (intro entry_at_set_entry) auto
    have e2: "entry_at m2 s j = (if s = ring_next A \<and> j = k
        then \<lparr>ce_addr = add32 (ce_addr r) (ce_size r), ce_size = 0, ce_sync_count = 0xbabababa\<rparr>
        else entry_at m1 s j)" for s j
      unfolding m2_def using s1 A k by (intro entry_at_set_entry) auto
    have al: "alloc_index m1 = alloc_index m'" by (simp add: m1_def)
    have step: "alloc_core w k m' = m2\<lparr>alloc_index := (alloc_index m2)[k := ring_next A]\<rparr>"
      by (simp add: alloc_core_def Let_def Ak m2_def flip: m1_def) (simp add: e1 al)
    have fields: "base_addrs m2 = base_addrs m'" "end_addrs m2 = end_addrs m'" "alloc_index m2 = alloc_index m'"
      "free_index m2 = free_index m'" "reservation m2 = reservation m'"
      by (simp_all add: m1_def m2_def)
    have ent: "entry_at (alloc_core w k m') s j = entry_at m2 s j" for s j
      by (simp add: step entry_at_def)
    have "entry_at m2 s k = alloced w m s k" for s
      using i k A by (simp add: e1 e2 alloced_def Let_def flip: A_def r_def)
    moreover have "entry_at m2 s j = entry_at m' s j" if "j \<noteq> k" for s j
      using that by (simp add: e1 e2)
    moreover have "mgr_shape (alloc_core w k m') n" using s2 by (simp add: step mgr_shape_def)
    ultimately show "?I (Suc k) (alloc_core w k m')"
      using i k s2 by (auto simp: ent step fields less_Suc_eq nth_list_update mgr_shape_def A_def)
  qed
  then show ?thesis using shape by (simp add: alloc_config_def mgr_shape_def)
qed

subsection \<open>Programs one after the other\<close>

definition regions_ok :: "(nat \<times> nat) list \<Rightarrow> bool" where
  "regions_ok regions \<longleftrightarrow> (\<forall>(b, z)\<in>set regions. b + z + z < 2 ^ 32)"

inductive config_run :: "WorkerConfigBufferMgr \<Rightarrow> ConfigBufferEntry list option \<Rightarrow> bool" where
  start: "regions_ok regions \<Longrightarrow> config_run (init_cores regions) None"
| program: "config_run m prev \<Longrightarrow> sizes_ok sizes m \<Longrightarrow> \<exists>z\<in>set sizes. z \<noteq> 0 \<Longrightarrow>
     process_config sizes expected multicast unicast nw ne indet m = Inr (stall, rs, m') \<Longrightarrow>
     config_run m' (Some rs)"

definition overlaps :: "ConfigBufferEntry \<Rightarrow> ConfigBufferEntry \<Rightarrow> bool" where
  "overlaps d e \<longleftrightarrow> max (ce_addr d) (ce_addr e) < min (ce_addr d + ce_size d) (ce_addr e + ce_size e)"

definition lockstep :: "WorkerConfigBufferMgr \<Rightarrow> ConfigBufferEntry list option \<Rightarrow> bool" where
  "lockstep m prev \<longleftrightarrow> mgr_ok m \<and>
     (\<exists>F. (\<forall>idx<length (reservation m). free_index m ! idx = F) \<and>
       (case prev of
         None \<Rightarrow> (\<forall>idx<length (reservation m). alloc_index m ! idx = F)
       | Some rs \<Rightarrow> length rs = length (reservation m) \<and>
           (\<exists>S. \<forall>idx<length (reservation m). alloc_index m ! idx = ring_next F \<and>
              entry_at m F idx = \<lparr>ce_addr = ce_addr (rs ! idx), ce_size = ce_size (rs ! idx), ce_sync_count = S\<rparr> \<and>
              ce_addr (entry_at m (ring_next F) idx) = ce_addr (rs ! idx) + ce_size (rs ! idx))))"

lemma lockstepI:
  assumes "mgr_ok m" and "length rs = length (reservation m)"
    and "\<And>idx. idx < length rs \<Longrightarrow> free_index m ! idx = F \<and> alloc_index m ! idx = ring_next F \<and>
       entry_at m F idx = \<lparr>ce_addr = ce_addr (rs ! idx), ce_size = ce_size (rs ! idx), ce_sync_count = S\<rparr> \<and>
       ce_addr (entry_at m (ring_next F) idx) = ce_addr (rs ! idx) + ce_size (rs ! idx)"
  shows "lockstep m (Some rs)"
  unfolding lockstep_def option.case using assms by auto

lemma lockstep_sync:
  assumes "lockstep m (Some rs)"
  obtains S where "\<And>idx. idx < length (reservation m) \<Longrightarrow> ce_sync_count (entry_at m (free_index m ! idx) idx) = S"
proof -
  obtain F S where "\<forall>idx<length (reservation m). free_index m ! idx = F"
    and "\<forall>idx<length (reservation m). alloc_index m ! idx = ring_next F \<and>
      entry_at m F idx = \<lparr>ce_addr = ce_addr (rs ! idx), ce_size = ce_size (rs ! idx), ce_sync_count = S\<rparr> \<and>
      ce_addr (entry_at m (ring_next F) idx) = ce_addr (rs ! idx) + ce_size (rs ! idx)"
    using assms unfolding lockstep_def option.case by blast
  then show ?thesis using that [of S] by simp
qed

lemma init_cores_eq:
  "init_cores regions =
     \<lparr>base_addrs = map fst regions, end_addrs = map (\<lambda>(b, z). add32 b z) regions,
      cb_entries = map (\<lambda>(b, z). zero_entry\<lparr>ce_addr := b\<rparr>) regions # replicate 7 (map (\<lambda>_. zero_entry) regions),
      alloc_index = map (\<lambda>_. 0) regions, free_index = map (\<lambda>_. 0) regions, reservation = map (\<lambda>_. zero_entry) regions\<rparr>"
proof (induction regions rule: rev_induct)
  case Nil
  then show ?case by (simp add: init_cores_def new_WorkerConfigBufferMgr_def kernel_config_entry_count_def eval_nat_numeral)
next
  case (snoc r regions)
  have "init_cores (regions @ [r]) = init_add_core r (init_cores regions)" by (simp add: init_cores_def)
  then show ?case by (cases r) (simp add: snoc.IH init_add_core_def zero_entry_def map_replicate)
qed

lemma lockstep_start:
  assumes "regions_ok regions"
  shows "lockstep (init_cores regions) None"
proof -
  have region: "add32 b z = b + z \<and> b + z + z < 2 ^ 32" if "regions ! i = (b, z)" "i < length regions" for i b z
    using assms that by (fastforce simp: regions_ok_def wadd_id dest: nth_mem)
  have ent: "entry_at (init_cores regions) slot i = (if slot = 0 then zero_entry\<lparr>ce_addr := fst (regions ! i)\<rparr> else zero_entry)"
    if "slot < 8" "i < length regions" for slot i
    using that by (cases slot) (auto simp: entry_at_def init_cores_eq split: prod.splits)
  have "core_ok (init_cores regions) i" if i: "i < length regions" for i
  proof (cases "regions ! i")
    case (Pair b z)
    have "alloc_index (init_cores regions) ! i = 0" using i by (simp add: init_cores_eq)
    then show ?thesis using region [OF Pair i] i Pair
      by (simp add: core_ok_def ent) (simp add: init_cores_eq zero_entry_def)
  qed
  then have "mgr_ok (init_cores regions)"
    by (simp add: mgr_ok_def mgr_shape_def init_cores_eq nth_Cons split: nat.split)
  then show ?thesis by (simp add: lockstep_def init_cores_eq)
qed

lemma reserve_lockstep:
  assumes lock: "lockstep m (Some prev)" and sizes: "sizes_ok sizes m"
    and S: "\<And>idx. idx < length sizes \<Longrightarrow> ce_sync_count (entry_at m (free_index m ! idx) idx) = S"
  shows "\<exists>s m'. reserve sizes m = Inr (s, m') \<and> (sync_count s = None \<longleftrightarrow> (\<forall>z\<in>set sizes. z = 0)) \<and>
    sync_count s \<in> {None, Some S} \<and>
    (need_sync s \<or> (\<forall>idx<length sizes. \<not> overlaps (prev ! idx) (reservation m' ! idx)))"
proof -
  have len: "length sizes = length (reservation m)" using sizes by (simp add: sizes_ok_def)
  have ok: "mgr_ok m" using lock by (simp add: lockstep_def)
  let ?I = "\<lambda>k (s :: ConfigBufferSync, m'). same_ring m m' \<and> (sync_count s = None \<longleftrightarrow> (\<forall>i<k. sizes ! i = 0)) \<and>
    sync_count s \<in> {None, Some S} \<and>
    (need_sync s \<or> (\<forall>idx<k. \<not> overlaps (prev ! idx) (reservation m' ! idx)))"
  have "\<exists>s'. rfold (reserve_core sizes) [0..<length sizes] (\<lparr>need_sync = False, sync_count = None\<rparr>, m) = Inr s' \<and>
      ?I (length sizes) s'"
  proof (rule rfold_upt [where I = ?I])
    fix k st assume k: "k < length sizes" and i: "?I k st"
    obtain s1 m1 where st: "st = (s1, m1)" by (cases st)
    have m1: "same_ring m m1" and lenk: "k < length (reservation m1)" using i k st len by (auto simp: same_ring_def)
    note same = same_ring_facts [OF m1]
    have idx: "alloc_index m1 = alloc_index m" "free_index m1 = free_index m" using m1 by (simp_all add: same_ring_def)
    have c: "core_ok m1 k" using ok k len same by (simp add: mgr_ok_def)
    define F where "F = free_index m ! k"
    have F: "F < 8" using c by (simp add: core_ok_def F_def idx)
    have one: "alloc_index m1 ! k = ring_next F" and ent: "entry_at m1 F k = \<lparr>ce_addr = ce_addr (prev ! k), ce_size = ce_size (prev ! k), ce_sync_count = S\<rparr>"
      and nxt: "ce_addr (entry_at m1 (ring_next F) k) = ce_addr (prev ! k) + ce_size (prev ! k)"
      using lock k len S [OF k] by (auto simp: lockstep_def F_def same idx)
    show "\<exists>s'. reserve_core sizes k st = Inr s' \<and> ?I (Suc k) s'"
    proof (cases "sizes ! k = 0")
      case True
      have "reserve_core sizes k st = Inr (s1, set_reservation k (ce_addr (entry_at m1 (alloc_index m1 ! k) k)) 0 m1)"
        using True st reserve_loop_zero [of 7] by (simp add: reserve_core_def kernel_config_entry_count_def del: reserve_loop.simps)
      then show ?thesis
        using i st True same_ring_set_reservation [OF m1] reservation_set_reservation [OF lenk]
        by (auto simp: less_Suc_eq overlaps_def)
    next
      case False
      have le: "sizes ! k \<le> end_addrs m1 ! k - base_addrs m1 ! k"
        using sizes k m1 by (simp add: sizes_ok_def same_ring_def)
      obtain b a where loop: "reserve_loop (Suc 7) k (sizes ! k) F (s1, m1) = reserved_as k (sizes ! k) (s1, m1) b F a"
        and free: "b \<or> ce_addr (prev ! k) + ce_size (prev ! k) \<le> a \<or> a + sizes ! k \<le> ce_addr (prev ! k)"
        using reserve_loop_one [OF c _ le F one, of 7 s1] False nxt ent by auto
      have "reserve_core sizes k st = reserved_as k (sizes ! k) (s1, m1) b F a"
        using loop st by (simp add: reserve_core_def kernel_config_entry_count_def F_def idx del: reserve_loop.simps)
      then show ?thesis
        using i st False free ent same_ring_set_reservation [OF m1] reservation_set_reservation [OF lenk]
        by (auto simp: reserved_as_def less_Suc_eq overlaps_def)
    qed
  qed (simp add: same_ring_def)
  then show ?thesis using len by (auto simp: reserve_def all_set_conv_all_nth)
qed

lemma process_config_step:
  assumes lock: "lockstep m prev" and sizes: "sizes_ok sizes m" and some: "\<exists>z\<in>set sizes. z \<noteq> 0"
  shows "\<exists>stall rs m'. process_config sizes expected multicast unicast nw ne indet m = Inr (stall, rs, m') \<and>
    lockstep m' (Some rs) \<and> length rs = length sizes \<and>
    (\<forall>idx<length sizes. inside m idx (rs ! idx) \<and> ce_size (rs ! idx) = sizes ! idx) \<and>
    (stall \<or> (\<forall>last. prev = Some last \<longrightarrow> (\<forall>idx<length sizes. \<not> overlaps (last ! idx) (rs ! idx))))"
proof -
  let ?n = "length (reservation m)"
  have len: "length sizes = ?n" using sizes by (simp add: sizes_ok_def)
  have ok: "mgr_ok m" using lock by (simp add: lockstep_def)
  obtain F where F: "\<And>idx. idx < ?n \<Longrightarrow> free_index m ! idx = F" using lock by (auto simp: lockstep_def)
  have pos: "0 < ?n" using some len by (cases sizes) auto
  have F8: "F < 8" using ok pos F [OF pos] by (auto simp: mgr_ok_def core_ok_def)
  obtain s m1 where r: "reserve sizes m = Inr (s, m1)" and same: "same_ring m m1"
    and ins: "\<And>idx. idx < length sizes \<Longrightarrow> inside m idx (reservation m1 ! idx) \<and> ce_size (reservation m1 ! idx) = sizes ! idx"
    using config_reserve_inside [OF ok sizes] by blast
  define c where "c = (case sync_count s of Some c \<Rightarrow> c | None \<Rightarrow> indet)"
  define A where "A = (if prev = None then F else ring_next F)"
  have A8: "A < 8" using F8 by (simp add: A_def)
  have A: "alloc_index m ! idx = A" if "idx < ?n" for idx
    using lock that F by (auto simp: lockstep_def A_def split: option.splits)
  have freed: "freed c m1 idx = A" if "idx < ?n" for idx
  proof (cases prev)
    case None
    then show ?thesis using that F A same by (simp add: freed_def same_ring_def A_def Let_def)
  next
    case (Some rs)
    obtain S where S: "\<And>idx. idx < length sizes \<Longrightarrow> ce_sync_count (entry_at m (free_index m ! idx) idx) = S"
      using lockstep_sync [OF lock [unfolded Some]] len by metis
    have "c = S"
      using reserve_lockstep [OF lock [unfolded Some] sizes S] r some by (auto simp: c_def)
    then show ?thesis
      using that F A same S [of idx] F8 Some len same_ring_facts(2) [OF same]
      by (simp add: freed_def same_ring_def A_def Let_def)
  qed
  define m2 where "m2 = m1\<lparr>free_index := map (\<lambda>_. A) [0..<?n]\<rparr>"
  have shape: "mgr_shape m ?n" using ok by (simp add: mgr_ok_def)
  have lens: "length (free_index m1) = ?n" "length (reservation m1) = ?n"
    using shape same by (simp_all add: mgr_shape_def same_ring_def)
  have "map (freed c m1) [0..<?n] = map (\<lambda>_. A) [0..<?n]" using freed by simp
  then have free: "free_config c m1 = m2" using free_config_eq [OF lens, of c] by (simp add: m2_def)
  have m2: "entry_at m2 = entry_at m" "alloc_index m2 = alloc_index m" "base_addrs m2 = base_addrs m"
    "end_addrs m2 = end_addrs m" "reservation m2 = reservation m1" "mgr_shape m2 ?n"
    using same shape same_ring_facts(2) [OF same] by (auto simp: m2_def same_ring_def mgr_shape_def)
  define w where "w = add32 expected (if unicast then add32 (if multicast then add32 0 nw else 0) ne
      else if multicast then add32 0 nw else 0)"
  define m3 where "m3 = alloc_config w m2"
  have al: "\<And>i. i < ?n \<Longrightarrow> alloc_index m2 ! i < 8" using A A8 m2(2) by simp
  note m3 = alloc_config_spec [OF m2(6) al, of w, simplified, folded m3_def]
  have run: "process_config sizes expected multicast unicast nw ne indet m = Inr (need_sync s, reservation m1, m3)"
  proof -
    have "reservation m3 = reservation m1" using m3 m2 by simp
    then show ?thesis using free unfolding process_config_def r m3_def w_def c_def by (auto simp: Let_def split: option.splits)
  qed
  have fits: "add32 (ce_addr (reservation m1 ! i)) (ce_size (reservation m1 ! i)) =
      ce_addr (reservation m1 ! i) + ce_size (reservation m1 ! i)" if "i < ?n" for i
    using ins [of i] that len ok by (intro wadd_id) (auto simp: inside_def mgr_ok_def core_ok_def)
  have e3: "entry_at m3 slot i = alloced w m2 slot i" and f3: "free_index m3 ! i = A" and a3: "alloc_index m3 ! i = ring_next A"
    if "i < ?n" for slot i
    using m3 that A m2 by (auto simp: m2_def)
  have core: "core_ok m3 i" if i: "i < ?n" for i
  proof -
    have old: "core_ok m i" using ok i by (simp add: mgr_ok_def)
    have "ce_addr (alloced w m2 slot i) \<le> end_addrs m ! i" if "slot < 8" for slot
      using old that ins [of i] i len m2 fits [OF i] by (auto simp: alloced_def Let_def core_ok_def inside_def)
    moreover have "base_addrs m ! i \<le> ce_addr (alloced w m2 (ring_next A) i)"
      using ins [of i] i len m2 A fits [OF i] by (simp add: alloced_def Let_def inside_def)
    moreover have "base_addrs m3 = base_addrs m" "end_addrs m3 = end_addrs m" using m3 m2 by simp_all
    ultimately show ?thesis using old i A8 unfolding core_ok_def e3 [OF i] f3 [OF i] a3 [OF i] by auto
  qed
  have n3: "length (reservation m3) = ?n" using m3 m2 lens by simp
  have "mgr_shape m3 ?n" using m3 by simp
  then have "mgr_ok m3" using core by (simp add: mgr_ok_def n3)
  then have "lockstep m3 (Some (reservation m1))"
  proof (rule lockstepI [where F = A and S = w])
    fix i assume "i < length (reservation m1)"
    then have i: "i < ?n" by (simp add: lens)
    show "free_index m3 ! i = A \<and> alloc_index m3 ! i = ring_next A \<and>
       entry_at m3 A i = \<lparr>ce_addr = ce_addr (reservation m1 ! i), ce_size = ce_size (reservation m1 ! i), ce_sync_count = w\<rparr> \<and>
       ce_addr (entry_at m3 (ring_next A) i) = ce_addr (reservation m1 ! i) + ce_size (reservation m1 ! i)"
      using A [OF i] A8 m2 fits [OF i] ring_next_neq [OF A8] by (simp add: e3 f3 a3 i alloced_def Let_def)
  qed (simp_all add: n3 lens)
  moreover have "need_sync s \<or> (\<forall>idx<length sizes. \<not> overlaps (last ! idx) (reservation m1 ! idx))" if last: "prev = Some last" for last
  proof -
    obtain S where S: "\<And>idx. idx < length sizes \<Longrightarrow> ce_sync_count (entry_at m (free_index m ! idx) idx) = S"
      using lockstep_sync [OF lock [unfolded last]] len by metis
    show ?thesis using reserve_lockstep [OF lock [unfolded last] sizes S] r by auto
  qed
  ultimately show ?thesis using run ins lens len by auto
qed

lemma config_run_lockstep: "config_run m prev \<Longrightarrow> lockstep m prev"
proof (induction rule: config_run.induct)
  case (start regions)
  then show ?case by (rule lockstep_start)
next
  case (program m prev sizes expected multicast unicast nw ne indet stall rs m')
  then show ?case using process_config_step [OF program.IH program.hyps(2,3)] by (metis Pair_inject sum.inject(2))
qed

text \<open>(C14) The kernel configuration of a program is never written over the configuration of the program enqueued
  before it unless a stall is requested.  However many programs have been enqueued, with any sizes
  that fit the buffers (some of them zero, not all) and any worker counts, enqueueing the next one
  succeeds, hands out regions of the requested sizes inside the buffer of each core type, and
  either asks to stall first or its regions are disjoint from those of the preceding program
  on every core type.\<close>

theorem config_no_overlap:
  assumes "config_run m prev" and "sizes_ok sizes m" and "\<exists>z\<in>set sizes. z \<noteq> 0"
  shows "\<exists>stall rs m'. process_config sizes expected multicast unicast nw ne indet m = Inr (stall, rs, m') \<and>
    (\<forall>idx<length sizes. inside m idx (rs ! idx) \<and> ce_size (rs ! idx) = sizes ! idx) \<and>
    (stall \<or> (\<forall>last. prev = Some last \<longrightarrow> (\<forall>idx<length sizes. \<not> overlaps (last ! idx) (rs ! idx))))"
  using process_config_step [OF config_run_lockstep [OF assms(1)] assms(2,3)] by blast

definition example_program :: "WorkerConfigBufferMgr \<Rightarrow> (bool \<times> ConfigBufferEntry list \<times> WorkerConfigBufferMgr) result" where
  "example_program m = process_config [60000, 0] 5 True False 64 0 0 m"

text \<open>The second program of 60000 bytes does not fit beside the first: it stalls.  A third of 9000 bytes fits
  below the second.\<close>

theorem config_no_overlap_witness:
  "\<exists>rs m1 m2 rs2. example_program example_mgr = Inr (False, rs, m1) \<and> example_program m1 = Inr (True, rs2, m2) \<and>
    (\<exists>stall rs3 m3. process_config [9000, 100] 69 True False 64 0 0 m2 = Inr (stall, rs3, m3) \<and>
       (\<forall>idx<length [9000::nat, 100]. inside m2 idx (rs3 ! idx) \<and> ce_size (rs3 ! idx) = [9000, 100] ! idx) \<and>
       (stall \<or> (\<forall>last. Some rs2 = Some last \<longrightarrow> (\<forall>idx<length [9000::nat, 100]. \<not> overlaps (last ! idx) (rs3 ! idx)))))"
proof -
  have r0: "config_run example_mgr None" unfolding example_mgr_def by (rule config_run.start) (simp add: regions_ok_def)
  have some: "\<exists>z\<in>set [60000, 0::nat]. z \<noteq> 0" "\<exists>z\<in>set [9000, 100::nat]. z \<noteq> 0" by simp_all
  have "case example_program example_mgr of Inl _ \<Rightarrow> False | Inr (stall, rs, m1) \<Rightarrow> \<not> stall \<and> sizes_ok [60000, 0] m1 \<and>
      (case example_program m1 of Inl _ \<Rightarrow> False | Inr (stall, rs, m2) \<Rightarrow> stall \<and> sizes_ok [9000, 100] m2)"
    by code_simp
  then obtain rs m1 where e1: "example_program example_mgr = Inr (False, rs, m1)" and z1: "sizes_ok [60000, 0] m1"
    and c: "case example_program m1 of Inl _ \<Rightarrow> False | Inr (stall, rs, m2) \<Rightarrow> stall \<and> sizes_ok [9000, 100] m2"
    by (cases "example_program example_mgr") auto
  obtain rs2 m2 where e2: "example_program m1 = Inr (True, rs2, m2)" and z2: "sizes_ok [9000, 100] m2"
    using c by (cases "example_program m1") auto
  have r1: "config_run m1 (Some rs)"
    by (rule config_run.program [OF r0 example_sizes_ok some(1) e1 [unfolded example_program_def]])
  have r2: "config_run m2 (Some rs2)"
    by (rule config_run.program [OF r1 z1 some(1) e2 [unfolded example_program_def]])
  note c = config_no_overlap [OF r2 z2 some(2), of 69 True False 64 0 0]
  show ?thesis
    by (rule exI [of _ rs], rule exI [of _ m1], rule exI [of _ m2], rule exI [of _ rs2], rule conjI [OF e1 conjI [OF e2 c]])
qed

end
