(* ===== verification/Cq_Interface.thy ===== *)
theory Cq_Interface
  imports Worker_Config Metal_Math
begin

text \<open>
  The host side of the command queues: \<^verbatim>\<open>tt_metal/impl/dispatch/command_queue_interface.hpp\<close>.
  \<open>dispatch_constants\<close> is the L1 layout of the dispatch cores, \<open>SystemMemoryCQInterface\<close> the pointers
  of one command queue in the hugepage, and \<open>SystemMemoryManager\<close> the object that owns them.

  What the code gets from elsewhere is a parameter.  \<open>Hal_params\<close> holds the values of the hardware
  abstraction layer, \<open>Cq_env\<close> what the constructor asks of \<^verbatim>\<open>Cluster\<close> and \<^verbatim>\<open>dispatch_core_manager\<close>.  The device
  is seen through its reads and writes: a read that is polled is a stream, function from the number
  of earlier reads to the value read, and the writes are logged in \<open>device_io\<close>.  A polling loop has fuel; what it needs is
  stated where the loop is shown to end.  The vector \<^verbatim>\<open>bypass_buffer\<close> of 32-bit words is kept as its bytes.
  Locks are left out: every operation under a lock is one step.
\<close>

unbundle bit_operations_syntax

subsection \<open>Constants and addresses\<close>

definition MAX_HUGEPAGE_SIZE :: nat where "MAX_HUGEPAGE_SIZE = 2 ^ 30"

definition MAX_DEV_CHANNEL_SIZE :: nat where "MAX_DEV_CHANNEL_SIZE = 2 ^ 28"

definition DEVICES_PER_UMD_CHANNEL :: nat where
  "DEVICES_PER_UMD_CHANNEL = MAX_HUGEPAGE_SIZE div MAX_DEV_CHANNEL_SIZE"

definition TRANSFER_PAGE_SIZE :: nat where "TRANSFER_PAGE_SIZE = 2 ^ 12"

definition get_relative_cq_offset :: "nat \<Rightarrow> nat \<Rightarrow> nat" where
  "get_relative_cq_offset cq_id cq_size = mul32 cq_id cq_size"

definition get_umd_channel :: "nat \<Rightarrow> nat" where
  "get_umd_channel channel = channel AND 3"

definition get_absolute_cq_offset :: "nat \<Rightarrow> nat \<Rightarrow> nat \<Rightarrow> nat" where
  "get_absolute_cq_offset channel cq_id cq_size =
     add32 (add32 (mul32 MAX_HUGEPAGE_SIZE (get_umd_channel channel)) (mul32 (drop_bit 2 channel) MAX_DEV_CHANNEL_SIZE))
       (get_relative_cq_offset cq_id cq_size)"

subsection \<open>dispatch\_constants\<close>

datatype CoreType = WORKER | ETH | OTHER

datatype CommandQueueDeviceAddrType =
    PREFETCH_Q_RD | PREFETCH_Q_PCIE_RD | COMPLETION_Q_WR | COMPLETION_Q_RD
  | COMPLETION_Q0_LAST_EVENT | COMPLETION_Q1_LAST_EVENT | DISPATCH_MESSAGE | UNRESERVED

fun device_addr_index :: "CommandQueueDeviceAddrType \<Rightarrow> nat" where
  "device_addr_index PREFETCH_Q_RD = 0"
| "device_addr_index PREFETCH_Q_PCIE_RD = 1"
| "device_addr_index COMPLETION_Q_WR = 2"
| "device_addr_index COMPLETION_Q_RD = 3"
| "device_addr_index COMPLETION_Q0_LAST_EVENT = 4"
| "device_addr_index COMPLETION_Q1_LAST_EVENT = 5"
| "device_addr_index DISPATCH_MESSAGE = 6"
| "device_addr_index UNRESERVED = 7"

definition device_addr_types :: "CommandQueueDeviceAddrType list" where
  "device_addr_types = [PREFETCH_Q_RD, PREFETCH_Q_PCIE_RD, COMPLETION_Q_WR, COMPLETION_Q_RD,
     COMPLETION_Q0_LAST_EVENT, COMPLETION_Q1_LAST_EVENT, DISPATCH_MESSAGE, UNRESERVED]"

datatype CommandQueueHostAddrType =
    HOST_ISSUE_Q_RD | HOST_ISSUE_Q_WR | HOST_COMPLETION_Q_WR | HOST_COMPLETION_Q_RD | HOST_UNRESERVED

fun host_addr_index :: "CommandQueueHostAddrType \<Rightarrow> nat" where
  "host_addr_index HOST_ISSUE_Q_RD = 0"
| "host_addr_index HOST_ISSUE_Q_WR = 1"
| "host_addr_index HOST_COMPLETION_Q_WR = 2"
| "host_addr_index HOST_COMPLETION_Q_RD = 3"
| "host_addr_index HOST_UNRESERVED = 4"

record Hal_params =
  host_alignment :: nat
  l1_alignment :: nat
  tensix_unreserved :: nat
  idle_eth_unreserved :: nat
  mem_l1_size :: nat
  mem_eth_size :: nat
  is_galaxy_cluster :: bool

record dispatch_constants =
  prefetch_q_entries :: nat
  prefetch_q_size :: nat
  max_prefetch_command_size :: nat
  cmddat_q_base :: nat
  cmddat_q_size :: nat
  scratch_db_base :: nat
  scratch_db_size :: nat
  dispatch_buffer_base :: nat
  dispatch_buffer_block_size_pages :: nat
  dispatch_buffer_pages :: nat
  prefetch_d_buffer_size :: nat
  prefetch_d_buffer_pages :: nat
  dispatch_s_buffer_size :: nat
  device_cq_addrs :: "nat list"

definition device_addr_size :: "Hal_params \<Rightarrow> CommandQueueDeviceAddrType \<Rightarrow> nat" where
  "device_addr_size hal t =
     (case t of PREFETCH_Q_RD \<Rightarrow> 4
      | PREFETCH_Q_PCIE_RD \<Rightarrow> sub32 (l1_alignment hal) 4
      | DISPATCH_MESSAGE \<Rightarrow> 32
      | _ \<Rightarrow> l1_alignment hal)"

fun device_addrs_loop :: "Hal_params \<Rightarrow> nat \<Rightarrow> CommandQueueDeviceAddrType list \<Rightarrow> nat list" where
  "device_addrs_loop hal addr (t # u # ts) =
     (let next_addr = add32 addr (device_addr_size hal t);
          next_addr = (if u = UNRESERVED then align_up next_addr (host_alignment hal) else next_addr)
      in addr # device_addrs_loop hal next_addr (u # ts))"
| "device_addrs_loop hal addr ts = map (\<lambda>_. addr) ts"

definition new_dispatch_constants :: "Hal_params \<Rightarrow> CoreType \<Rightarrow> nat \<Rightarrow> dispatch_constants result" where
  "new_dispatch_constants hal core_type num_hw_cqs =
     rbind (check (core_type = WORKER \<or> core_type = ETH) (TT_ASSERT ''core_type'')) (\<lambda>_.
     rbind (check (\<not> (core_type = WORKER \<and> is_galaxy_cluster hal \<and> num_hw_cqs = 0)) (Undefined ''division by zero'')) (\<lambda>_.
     let worker = (core_type = WORKER);
         entries = (if worker then if is_galaxy_cluster hal then 1532 div num_hw_cqs else 1534 else 128);
         max_command_size = (if worker then 128 * 1024 else 32 * 1024);
         cmddat_size = (if worker then 256 * 1024 else 64 * 1024);
         scratch_size = (if worker then 128 * 1024 else 19 * 1024);
         dispatch_buffer_block_size = (if worker then 512 * 1024 else 128 * 1024);
         prefetch_d_size = (if worker then 256 * 1024 else 128 * 1024);
         base_device_command_queue_addr = (if worker then tensix_unreserved hal else idle_eth_unreserved hal);
         pcie_alignment = host_alignment hal
     in rbind (check (cmddat_size \<ge> 2 * max_command_size) (TT_ASSERT ''cmddat_q_size'')) (\<lambda>_.
        rbind (check (scratch_size mod 2 = (0::nat)) (TT_ASSERT ''scratch_db_size'')) (\<lambda>_.
        rbind (check (dispatch_buffer_block_size AND (dispatch_buffer_block_size - 1) = (0::nat)) (TT_ASSERT ''power of two'')) (\<lambda>_.
        rbind (check (pcie_alignment > 0) (Undefined ''division by zero'')) (\<lambda>_.
        let addrs = device_addrs_loop hal base_device_command_queue_addr device_addr_types;
            q_size = mul32 entries 2;
            unreserved_base = addrs ! device_addr_index UNRESERVED;
            cmddat_base = add32 unreserved_base
              (mul32 (sub32 (add32 q_size pcie_alignment) 1 div pcie_alignment) pcie_alignment);
            scratch_base = add32 cmddat_base
              (mul32 (sub32 (add32 cmddat_size pcie_alignment) 1 div pcie_alignment) pcie_alignment);
            l1_size = (if worker then mem_l1_size hal else mem_eth_size hal)
        in rbind (check (add32 scratch_base scratch_size < l1_size) (TT_ASSERT ''scratch_db end'')) (\<lambda>_.
           let buffer_base = add32 (sub32 unreserved_base 1 OR (2 ^ 12 - 1)) 1;
               block_pages = dispatch_buffer_block_size div 2 ^ 12 div 4;
               buffer_pages = mul32 block_pages 4;
               dispatch_cb_end = add32 buffer_base (mul32 (2 ^ 12) buffer_pages)
           in rbind (check (dispatch_cb_end < l1_size) (TT_ASSERT ''dispatch_cb_end'')) (\<lambda>_.
              Inr \<lparr>prefetch_q_entries = entries, prefetch_q_size = q_size, max_prefetch_command_size = max_command_size,
                   cmddat_q_base = cmddat_base, cmddat_q_size = cmddat_size, scratch_db_base = scratch_base,
                   scratch_db_size = scratch_size, dispatch_buffer_base = buffer_base,
                   dispatch_buffer_block_size_pages = block_pages, dispatch_buffer_pages = buffer_pages,
                   prefetch_d_buffer_size = prefetch_d_size, prefetch_d_buffer_pages = drop_bit 12 prefetch_d_size,
                   dispatch_s_buffer_size = 32 * 1024, device_cq_addrs = addrs\<rparr>))))))))"

definition mux_buffer_size :: "dispatch_constants \<Rightarrow> nat \<Rightarrow> nat result" where
  "mux_buffer_size dc num_hw_cqs =
     (if num_hw_cqs = 0 then Inl (Undefined ''division by zero'') else Inr (prefetch_d_buffer_size dc div num_hw_cqs))"

definition mux_buffer_pages :: "dispatch_constants \<Rightarrow> nat \<Rightarrow> nat result" where
  "mux_buffer_pages dc num_hw_cqs =
     (if num_hw_cqs = 0 then Inl (Undefined ''division by zero'') else Inr (prefetch_d_buffer_pages dc div num_hw_cqs))"

definition dispatch_s_buffer_pages :: "dispatch_constants \<Rightarrow> nat" where
  "dispatch_s_buffer_pages dc = dispatch_s_buffer_size dc div 2 ^ 7"

definition get_device_command_queue_addr :: "dispatch_constants \<Rightarrow> CommandQueueDeviceAddrType \<Rightarrow> nat result" where
  "get_device_command_queue_addr dc t =
     rbind (check (device_addr_index t < length (device_cq_addrs dc)) (TT_ASSERT ''index'')) (\<lambda>_.
     Inr (device_cq_addrs dc ! device_addr_index t))"

definition get_host_command_queue_addr :: "Hal_params \<Rightarrow> CommandQueueHostAddrType \<Rightarrow> nat" where
  "get_host_command_queue_addr hal t = mul32 (host_addr_index t) (host_alignment hal)"

text \<open>The singleton: \<^verbatim>\<open>inst\<close>, \<^verbatim>\<open>hw_cqs\<close> and \<^verbatim>\<open>last_core_type\<close>.\<close>

record dispatch_constants_singleton =
  inst :: "dispatch_constants option"
  hw_cqs :: nat
  last_core_type :: CoreType

definition get_dispatch_constants :: "Hal_params \<Rightarrow> CoreType \<Rightarrow> nat \<Rightarrow> dispatch_constants_singleton
    \<Rightarrow> (dispatch_constants \<times> dispatch_constants_singleton) result" where
  "get_dispatch_constants hal core_type num_hw_cqs s =
     rbind (if num_hw_cqs > 0 \<and> (num_hw_cqs \<noteq> hw_cqs s \<or> core_type \<noteq> last_core_type s \<or> inst s = None)
            then rbind (new_dispatch_constants hal core_type num_hw_cqs) (\<lambda>dc.
                 Inr \<lparr>inst = Some dc, hw_cqs = num_hw_cqs, last_core_type = core_type\<rparr>)
            else Inr s) (\<lambda>s.
     rbind (check (hw_cqs s > 0) (TT_FATAL ''Command Queue is not initialized.'')) (\<lambda>_.
     case inst s of None \<Rightarrow> Inl (Undefined ''null pointer'') | Some dc \<Rightarrow> Inr (dc, s)))"

subsection \<open>Pointers kept in system memory\<close>

text \<open>\<^verbatim>\<open>read_sysmem\<close> of a 32-bit word is a function from the address inside the channel; \<open>addr_16B\<close> is the template
  argument.\<close>

definition get_cq_issue_rd_ptr :: "Hal_params \<Rightarrow> (nat \<Rightarrow> nat) \<Rightarrow> bool \<Rightarrow> nat \<Rightarrow> nat \<Rightarrow> nat \<Rightarrow> nat" where
  "get_cq_issue_rd_ptr hal sysmem addr_16B channel cq_id cq_size =
     (let channel_offset = mul32 (drop_bit 2 channel) MAX_DEV_CHANNEL_SIZE;
          recv = sysmem (add32 (add32 (get_host_command_queue_addr hal HOST_ISSUE_Q_RD) channel_offset)
                               (get_relative_cq_offset cq_id cq_size))
      in if \<not> addr_16B then u32 (push_bit 4 recv) else recv)"

definition get_cq_issue_wr_ptr :: "Hal_params \<Rightarrow> (nat \<Rightarrow> nat) \<Rightarrow> bool \<Rightarrow> nat \<Rightarrow> nat \<Rightarrow> nat" where
  "get_cq_issue_wr_ptr hal sysmem addr_16B cq_id cq_size =
     (let recv = sysmem (add32 (get_host_command_queue_addr hal HOST_ISSUE_Q_WR) (get_relative_cq_offset cq_id cq_size))
      in if \<not> addr_16B then u32 (push_bit 4 recv) else recv)"

definition get_cq_completion_wr_ptr :: "Hal_params \<Rightarrow> (nat \<Rightarrow> nat) \<Rightarrow> bool \<Rightarrow> nat \<Rightarrow> nat \<Rightarrow> nat \<Rightarrow> nat" where
  "get_cq_completion_wr_ptr hal sysmem addr_16B channel cq_id cq_size =
     (let channel_offset = mul32 (drop_bit 2 channel) MAX_DEV_CHANNEL_SIZE;
          recv = sysmem (add32 (add32 (get_host_command_queue_addr hal HOST_COMPLETION_Q_WR) channel_offset)
                               (get_relative_cq_offset cq_id cq_size))
      in if \<not> addr_16B then u32 (push_bit 4 recv) else recv)"

definition get_cq_completion_rd_ptr :: "Hal_params \<Rightarrow> (nat \<Rightarrow> nat) \<Rightarrow> bool \<Rightarrow> nat \<Rightarrow> nat \<Rightarrow> nat" where
  "get_cq_completion_rd_ptr hal sysmem addr_16B cq_id cq_size =
     (let recv = sysmem (add32 (get_host_command_queue_addr hal HOST_COMPLETION_Q_RD) (get_relative_cq_offset cq_id cq_size))
      in if \<not> addr_16B then u32 (push_bit 4 recv) else recv)"

subsection \<open>Copying to the device\<close>

text \<open>\<^verbatim>\<open>memcpy_to_device\<close> copies with streaming stores of 32, 16 and 4 bytes; a 32-byte or 16-byte streaming store to
  an address that is not a multiple of its width is undefined.  The state is the two running pointers, the source one as
  an index, and the memory.\<close>

type_synonym mem = "nat \<Rightarrow> 8 word"

definition store_bytes :: "nat \<Rightarrow> 8 word list \<Rightarrow> mem \<Rightarrow> mem" where
  "store_bytes a bs m = (\<lambda>x. if a \<le> x \<and> x < a + length bs then bs ! (x - a) else m x)"

definition stream_store :: "8 word list \<Rightarrow> nat \<Rightarrow> nat \<times> nat \<times> mem \<Rightarrow> (nat \<times> nat \<times> mem) result" where
  "stream_store src width st =
     (let (src8, dst8, m) = st in
      rbind (check (dst8 mod width = 0) (Undefined ''misaligned streaming store'')) (\<lambda>_.
      Inr (src8 + width, dst8 + width, store_bytes dst8 (take width (drop src8 src)) m)))"

definition memcpy_to_device :: "nat \<Rightarrow> 8 word list \<Rightarrow> mem \<Rightarrow> mem result" where
  "memcpy_to_device dst src m =
     rbind (check (dst mod 16 = 0) (TT_ASSERT ''dst % MEMCPY_ALIGNMENT == 0'')) (\<lambda>_.
     let n = length src in
     rbind (check (n mod 4 = 0) (TT_ASSERT ''n % sizeof(uint32_t) == 0'')) (\<lambda>_.
     let inner_loop = 8; inner_blk_size = inner_loop * 32; num_lines = n div inner_blk_size in
     rbind (rfold (\<lambda>i. rfold (\<lambda>j. stream_store src 32) [0..<inner_loop]) [0..<num_lines] (0, dst, m)) (\<lambda>st.
     let n = n - num_lines * inner_blk_size in
     rbind (if n > 0 then
         let num_lines = n div 32 in
         rbind (rfold (\<lambda>i. stream_store src 32) [0..<num_lines] st) (\<lambda>st.
         let n = n - num_lines * 32; num_lines = n div 16 in
         rbind (rfold (\<lambda>i. stream_store src 16) [0..<num_lines] st) (\<lambda>st.
         let n = n - n div 16 * 16 in
         if n > 0 then rfold (\<lambda>i. stream_store src 4) [0..<n div 4] st else Inr st))
       else Inr st) (\<lambda>(src8, dst8, m). Inr m))))"

subsection \<open>SystemMemoryCQInterface\<close>

record SystemMemoryCQInterface =
  cq_start :: nat
  command_completion_region_size :: nat
  command_issue_region_size :: nat
  cq_number :: nat
  issue_fifo_size :: nat
  issue_fifo_limit :: nat
  cq_offset :: nat
  issue_fifo_wr_ptr :: nat
  issue_fifo_wr_toggle :: bool
  completion_fifo_size :: nat
  completion_fifo_limit :: nat
  completion_fifo_rd_ptr :: nat
  completion_fifo_rd_toggle :: bool

definition new_SystemMemoryCQInterface :: "Hal_params \<Rightarrow> nat \<Rightarrow> nat \<Rightarrow> nat \<Rightarrow> nat \<Rightarrow> SystemMemoryCQInterface result" where
  "new_SystemMemoryCQInterface hal channel cq_id cq_size start =
     (let completion_region = mul32 ((sub32 cq_size start div TRANSFER_PAGE_SIZE) div 4) TRANSFER_PAGE_SIZE;
          issue_region = sub32 (sub32 cq_size start) completion_region;
          off = get_absolute_cq_offset channel cq_id cq_size;
          limit = drop_bit 4 (add32 (add32 start issue_region) off);
          completion_size = drop_bit 4 completion_region
      in rbind (check (host_alignment hal > 0) (Undefined ''division by zero'')) (\<lambda>_.
         rbind (check (completion_region mod host_alignment hal = 0 \<and> issue_region mod host_alignment hal = 0)
                      (TT_ASSERT ''Issue queue and completion queue need to be aligned'')) (\<lambda>_.
         rbind (check (limit \<noteq> 0) (TT_ASSERT ''Cannot have a 0 fifo limit'')) (\<lambda>_.
         Inr \<lparr>cq_start = start, command_completion_region_size = completion_region,
              command_issue_region_size = issue_region, cq_number = cq_id,
              issue_fifo_size = drop_bit 4 issue_region, issue_fifo_limit = limit, cq_offset = off,
              issue_fifo_wr_ptr = drop_bit 4 (add32 start off), issue_fifo_wr_toggle = False,
              completion_fifo_size = completion_size, completion_fifo_limit = add32 limit completion_size,
              completion_fifo_rd_ptr = limit, completion_fifo_rd_toggle = False\<rparr>))))"

subsection \<open>SystemMemoryManager\<close>

datatype device_write =
    Sysmem_write nat nat
  | Fast_write nat nat
  | Prefetch_q_write nat nat

record SystemMemoryManager =
  completion_byte_addrs :: "nat list"
  cq_sysmem_start :: nat
  cq_interfaces :: "SystemMemoryCQInterface list"
  mgr_cq_size :: nat
  channel_offset :: nat
  cq_to_event :: "int list"
  cq_to_last_completed_event :: "int list"
  prefetch_q_dev_ptrs :: "nat list"
  prefetch_q_dev_fences :: "nat list"
  bypass_enable :: bool
  bypass_buffer :: "8 word list"
  bypass_buffer_write_offset :: nat
  config_buffer_mgr :: WorkerConfigBufferMgr
  host_mem :: mem
  device_io :: "device_write list"

record Cq_env =
  env_hal :: Hal_params
  env_dc :: dispatch_constants
  assigned_channel :: nat
  host_dma_address :: nat
  cq_size_override :: "nat option"
  host_channel_size :: nat
  completion_tlb :: "nat \<Rightarrow> nat \<times> nat"
  kernel_config_regions :: "(nat \<times> nat) list"

definition add_cq :: "Cq_env \<Rightarrow> nat \<Rightarrow> nat \<Rightarrow> nat \<Rightarrow> nat \<Rightarrow> SystemMemoryManager \<Rightarrow> SystemMemoryManager result" where
  "add_cq env completion_q_rd_ptr prefetch_q_base start cq_id m =
     (let (completion_tlb_offset, completion_tlb_size) = completion_tlb env cq_id; dc = env_dc env in
      rbind (check (completion_tlb_size > 0) (Undefined ''division by zero'')) (\<lambda>_.
      rbind (new_SystemMemoryCQInterface (env_hal env) (assigned_channel env) cq_id (mgr_cq_size m) start) (\<lambda>cq.
      rbind (check (mul32 (max_prefetch_command_size dc) (add32 (prefetch_q_entries dc) 2) \<le> u32 (push_bit 4 (issue_fifo_size cq)))
                   (TT_FATAL ''Issue queue is too small'')) (\<lambda>_.
      Inr (m\<lparr>completion_byte_addrs := completion_byte_addrs m
               @ [add32 completion_tlb_offset (completion_q_rd_ptr mod completion_tlb_size)],
             cq_interfaces := cq_interfaces m @ [cq],
             cq_to_event := cq_to_event m @ [0],
             cq_to_last_completed_event := cq_to_last_completed_event m @ [0],
             prefetch_q_dev_ptrs := prefetch_q_dev_ptrs m @ [prefetch_q_base],
             prefetch_q_dev_fences := prefetch_q_dev_fences m @ [add32 prefetch_q_base (mul32 (prefetch_q_entries dc) 2)]\<rparr>)))))"

definition new_SystemMemoryManager :: "Cq_env \<Rightarrow> nat \<Rightarrow> mem \<Rightarrow> SystemMemoryManager result" where
  "new_SystemMemoryManager env num_hw_cqs mem =
     (let channel = assigned_channel env; hal = env_hal env; dc = env_dc env in
      rbind (check (num_hw_cqs > 0 \<or> cq_size_override env \<noteq> None) (Undefined ''division by zero'')) (\<lambda>_.
      let size = (case cq_size_override env of Some n \<Rightarrow> n
                  | None \<Rightarrow> let n = host_channel_size env div num_hw_cqs in
                      if is_galaxy_cluster hal then n div DEVICES_PER_UMD_CHANNEL else n);
          m = \<lparr>completion_byte_addrs = [], cq_sysmem_start = host_dma_address env + drop_bit 2 channel * MAX_DEV_CHANNEL_SIZE,
               cq_interfaces = [], mgr_cq_size = size,
               channel_offset = add32 (mul32 MAX_HUGEPAGE_SIZE (get_umd_channel channel))
                                      (mul32 (drop_bit 2 channel) MAX_DEV_CHANNEL_SIZE),
               cq_to_event = [], cq_to_last_completed_event = [], prefetch_q_dev_ptrs = [], prefetch_q_dev_fences = [],
               bypass_enable = False, bypass_buffer = [], bypass_buffer_write_offset = 0,
               config_buffer_mgr = new_WorkerConfigBufferMgr, host_mem = mem, device_io = []\<rparr>
      in rbind (get_device_command_queue_addr dc COMPLETION_Q_RD) (\<lambda>completion_q_rd_ptr.
         rbind (get_device_command_queue_addr dc UNRESERVED) (\<lambda>prefetch_q_base.
         rbind (rfold (add_cq env completion_q_rd_ptr prefetch_q_base (get_host_command_queue_addr hal HOST_UNRESERVED))
                  [0..<num_hw_cqs] m) (\<lambda>m.
         Inr (m\<lparr>config_buffer_mgr := init_cores (kernel_config_regions env)\<rparr>))))))"

definition in_vector :: "nat \<Rightarrow> 'a list \<Rightarrow> 'a result" where
  "in_vector i xs = (if i < length xs then Inr (xs ! i) else Inl (Undefined ''vector access out of range''))"

definition set_cq :: "nat \<Rightarrow> SystemMemoryCQInterface \<Rightarrow> SystemMemoryManager \<Rightarrow> SystemMemoryManager" where
  "set_cq cq_id cq m = m\<lparr>cq_interfaces := (cq_interfaces m)[cq_id := cq]\<rparr>"

subsubsection \<open>Events\<close>

text \<open>\<^verbatim>\<open>cq_to_event\<close> and \<^verbatim>\<open>cq_to_last_completed_event\<close> are vectors of \<^verbatim>\<open>int\<close>: they overflow at \<open>2 ^ 31\<close>, and
  they are compared with and set from \<^verbatim>\<open>uint32_t\<close> values.\<close>

definition int32 :: "nat \<Rightarrow> int" where
  "int32 n = (if n mod 2 ^ 32 < 2 ^ 31 then int (n mod 2 ^ 32) else int (n mod 2 ^ 32) - 2 ^ 32)"

definition uint32 :: "int \<Rightarrow> nat" where
  "uint32 i = nat (i mod 2 ^ 32)"

definition get_next_event :: "nat \<Rightarrow> SystemMemoryManager \<Rightarrow> (nat \<times> SystemMemoryManager) result" where
  "get_next_event cq_id m =
     rbind (in_vector cq_id (cq_to_event m)) (\<lambda>e.
     rbind (check (e < 2 ^ 31 - 1) (Undefined ''signed overflow'')) (\<lambda>_.
     Inr (uint32 (e + 1), m\<lparr>cq_to_event := (cq_to_event m)[cq_id := e + 1]\<rparr>)))"

definition reset_event_id :: "nat \<Rightarrow> SystemMemoryManager \<Rightarrow> SystemMemoryManager result" where
  "reset_event_id cq_id m =
     rbind (in_vector cq_id (cq_to_event m)) (\<lambda>_. Inr (m\<lparr>cq_to_event := (cq_to_event m)[cq_id := 0]\<rparr>))"

definition increment_event_id :: "nat \<Rightarrow> nat \<Rightarrow> SystemMemoryManager \<Rightarrow> SystemMemoryManager result" where
  "increment_event_id cq_id val m =
     rbind (in_vector cq_id (cq_to_event m)) (\<lambda>e.
     Inr (m\<lparr>cq_to_event := (cq_to_event m)[cq_id := int32 (add32 (uint32 e) val)]\<rparr>))"

definition set_last_completed_event :: "nat \<Rightarrow> nat \<Rightarrow> SystemMemoryManager \<Rightarrow> SystemMemoryManager result" where
  "set_last_completed_event cq_id event_id m =
     rbind (in_vector cq_id (cq_to_last_completed_event m)) (\<lambda>e.
     rbind (check (event_id \<ge> uint32 e) (TT_ASSERT ''Event ID is expected to increase'')) (\<lambda>_.
     Inr (m\<lparr>cq_to_last_completed_event := (cq_to_last_completed_event m)[cq_id := int32 event_id]\<rparr>)))"

definition get_last_completed_event :: "nat \<Rightarrow> SystemMemoryManager \<Rightarrow> nat result" where
  "get_last_completed_event cq_id m =
     rbind (in_vector cq_id (cq_to_last_completed_event m)) (\<lambda>e. Inr (uint32 e))"

subsubsection \<open>Configuration\<close>

definition reset_cq :: "nat \<Rightarrow> SystemMemoryManager \<Rightarrow> SystemMemoryManager result" where
  "reset_cq cq_id m =
     rbind (in_vector cq_id (cq_interfaces m)) (\<lambda>cq.
     Inr (set_cq cq_id (cq\<lparr>issue_fifo_wr_ptr := drop_bit 4 (add32 (cq_start cq) (cq_offset cq)),
                          issue_fifo_wr_toggle := False,
                          completion_fifo_rd_ptr := issue_fifo_limit cq,
                          completion_fifo_rd_toggle := False\<rparr>) m))"

definition set_issue_queue_size :: "nat \<Rightarrow> nat \<Rightarrow> SystemMemoryManager \<Rightarrow> SystemMemoryManager result" where
  "set_issue_queue_size cq_id issue_queue_size m =
     rbind (in_vector cq_id (cq_interfaces m)) (\<lambda>cq.
     Inr (set_cq cq_id (cq\<lparr>issue_fifo_size := drop_bit 4 issue_queue_size,
       issue_fifo_limit := drop_bit 4 (add32 (add32 (cq_start cq) (cq_offset cq)) issue_queue_size)\<rparr>) m))"

definition set_bypass_mode :: "bool \<Rightarrow> bool \<Rightarrow> SystemMemoryManager \<Rightarrow> SystemMemoryManager" where
  "set_bypass_mode enable clear m =
     (let m = m\<lparr>bypass_enable := enable\<rparr>
      in if clear then m\<lparr>bypass_buffer := [], bypass_buffer_write_offset := 0\<rparr> else m)"

definition get_bypass_data :: "SystemMemoryManager \<Rightarrow> 8 word list \<times> SystemMemoryManager" where
  "get_bypass_data m = (bypass_buffer m, m\<lparr>bypass_buffer := []\<rparr>)"

definition get_issue_queue_size :: "nat \<Rightarrow> SystemMemoryManager \<Rightarrow> nat result" where
  "get_issue_queue_size cq_id m = rbind (in_vector cq_id (cq_interfaces m)) (\<lambda>cq. Inr (u32 (push_bit 4 (issue_fifo_size cq))))"

definition get_issue_queue_limit :: "nat \<Rightarrow> SystemMemoryManager \<Rightarrow> nat result" where
  "get_issue_queue_limit cq_id m = rbind (in_vector cq_id (cq_interfaces m)) (\<lambda>cq. Inr (u32 (push_bit 4 (issue_fifo_limit cq))))"

definition get_completion_queue_size :: "nat \<Rightarrow> SystemMemoryManager \<Rightarrow> nat result" where
  "get_completion_queue_size cq_id m =
     rbind (in_vector cq_id (cq_interfaces m)) (\<lambda>cq. Inr (u32 (push_bit 4 (completion_fifo_size cq))))"

definition get_completion_queue_limit :: "nat \<Rightarrow> SystemMemoryManager \<Rightarrow> nat result" where
  "get_completion_queue_limit cq_id m =
     rbind (in_vector cq_id (cq_interfaces m)) (\<lambda>cq. Inr (u32 (push_bit 4 (completion_fifo_limit cq))))"

definition get_issue_queue_write_ptr :: "nat \<Rightarrow> SystemMemoryManager \<Rightarrow> nat result" where
  "get_issue_queue_write_ptr cq_id m =
     (if bypass_enable m then Inr (bypass_buffer_write_offset m)
      else rbind (in_vector cq_id (cq_interfaces m)) (\<lambda>cq. Inr (u32 (push_bit 4 (issue_fifo_wr_ptr cq)))))"

definition get_completion_queue_read_ptr :: "nat \<Rightarrow> SystemMemoryManager \<Rightarrow> nat result" where
  "get_completion_queue_read_ptr cq_id m =
     rbind (in_vector cq_id (cq_interfaces m)) (\<lambda>cq. Inr (u32 (push_bit 4 (completion_fifo_rd_ptr cq))))"

definition get_completion_queue_read_toggle :: "nat \<Rightarrow> SystemMemoryManager \<Rightarrow> nat result" where
  "get_completion_queue_read_toggle cq_id m =
     rbind (in_vector cq_id (cq_interfaces m)) (\<lambda>cq. Inr (of_bool (completion_fifo_rd_toggle cq)))"

subsubsection \<open>The issue queue\<close>

definition wrap_issue_queue_wr_ptr :: "nat \<Rightarrow> SystemMemoryManager \<Rightarrow> SystemMemoryManager result" where
  "wrap_issue_queue_wr_ptr cq_id m =
     (if bypass_enable m then Inr m
      else rbind (in_vector cq_id (cq_interfaces m)) (\<lambda>cq.
        Inr (set_cq cq_id (cq\<lparr>issue_fifo_wr_ptr := drop_bit 4 (add32 (cq_start cq) (cq_offset cq)),
                             issue_fifo_wr_toggle := \<not> issue_fifo_wr_toggle cq\<rparr>) m)))"

text \<open>A pointer returned to the caller: into the hugepage, or into the bypass buffer.\<close>

datatype region = Hugepage nat | Bypass nat

definition issue_queue_reserve :: "Hal_params \<Rightarrow> nat \<Rightarrow> nat \<Rightarrow> SystemMemoryManager \<Rightarrow> (region \<times> SystemMemoryManager) result" where
  "issue_queue_reserve hal cmd_size_B cq_id m =
     (if bypass_enable m then
        let curr_size = length (bypass_buffer m) div 4;
            new_size = add32 curr_size (cmd_size_B div 4)
        in Inr (Bypass (bypass_buffer_write_offset m),
                m\<lparr>bypass_buffer := take (4 * new_size) (bypass_buffer m) @
                     replicate (4 * new_size - length (bypass_buffer m)) 0\<rparr>)
      else
        rbind (get_issue_queue_write_ptr cq_id m) (\<lambda>issue_q_write_ptr.
        rbind (get_issue_queue_limit cq_id m) (\<lambda>command_issue_limit.
        rbind (if add32 issue_q_write_ptr (align_up cmd_size_B (host_alignment hal)) > command_issue_limit
               then rbind (wrap_issue_queue_wr_ptr cq_id m) (\<lambda>m.
                    rbind (get_issue_queue_write_ptr cq_id m) (\<lambda>p. Inr (p, m)))
               else Inr (issue_q_write_ptr, m)) (\<lambda>(issue_q_write_ptr, m).
        Inr (Hugepage (cq_sysmem_start m + sub32 issue_q_write_ptr (channel_offset m)), m)))))"

definition cq_write :: "8 word list \<Rightarrow> nat \<Rightarrow> SystemMemoryManager \<Rightarrow> SystemMemoryManager result" where
  "cq_write data write_ptr m =
     (let user_scratchspace = cq_sysmem_start m + sub32 write_ptr (channel_offset m)
      in if bypass_enable m then
           rbind (check (write_ptr + length data \<le> length (bypass_buffer m)) (Undefined ''write past the end of a vector'')) (\<lambda>_.
           Inr (m\<lparr>bypass_buffer := take write_ptr (bypass_buffer m) @ data @
                     drop (write_ptr + length data) (bypass_buffer m)\<rparr>))
         else rbind (memcpy_to_device user_scratchspace data (host_mem m)) (\<lambda>mem. Inr (m\<lparr>host_mem := mem\<rparr>)))"

definition issue_queue_push_back :: "Hal_params \<Rightarrow> nat \<Rightarrow> nat \<Rightarrow> SystemMemoryManager \<Rightarrow> SystemMemoryManager result" where
  "issue_queue_push_back hal push_size_B cq_id m =
     (if bypass_enable m then Inr (m\<lparr>bypass_buffer_write_offset := add32 (bypass_buffer_write_offset m) push_size_B\<rparr>)
      else
        let push_size_16B = drop_bit 4 (align_up push_size_B (host_alignment hal))
        in rbind (in_vector cq_id (cq_interfaces m)) (\<lambda>cq.
           let issue_q_wr_ptr = get_host_command_queue_addr hal HOST_ISSUE_Q_WR;
               cq = (if add32 (issue_fifo_wr_ptr cq) push_size_16B \<ge> issue_fifo_limit cq
                     then cq\<lparr>issue_fifo_wr_ptr := drop_bit 4 (add32 (cq_start cq) (cq_offset cq)),
                             issue_fifo_wr_toggle := \<not> issue_fifo_wr_toggle cq\<rparr>
                     else cq\<lparr>issue_fifo_wr_ptr := add32 (issue_fifo_wr_ptr cq) push_size_16B\<rparr>);
               m = set_cq cq_id cq m
           in Inr (m\<lparr>device_io := device_io m @
                [Sysmem_write (add32 issue_q_wr_ptr (get_relative_cq_offset cq_id (mgr_cq_size m))) (issue_fifo_wr_ptr cq)]\<rparr>)))"

subsubsection \<open>The completion queue\<close>

fun wait_completion :: "nat \<Rightarrow> SystemMemoryCQInterface \<Rightarrow> (nat \<Rightarrow> nat) \<Rightarrow> (nat \<Rightarrow> bool) \<Rightarrow> nat \<Rightarrow> nat result" where
  "wait_completion 0 cq reads exit_condition i = Inl Diverges"
| "wait_completion (Suc fuel) cq reads exit_condition i =
     (let write_ptr_and_toggle = reads i;
          write_ptr = write_ptr_and_toggle AND 0x7fffffff;
          write_toggle = drop_bit 31 write_ptr_and_toggle
      in if completion_fifo_rd_ptr cq = write_ptr \<and> of_bool (completion_fifo_rd_toggle cq) = write_toggle \<and> \<not> exit_condition i
         then wait_completion fuel cq reads exit_condition (Suc i)
         else Inr write_ptr_and_toggle)"

definition completion_queue_wait_front ::
    "nat \<Rightarrow> Hal_params \<Rightarrow> nat \<Rightarrow> (nat \<Rightarrow> nat \<Rightarrow> nat) \<Rightarrow> (nat \<Rightarrow> bool) \<Rightarrow> nat \<Rightarrow> SystemMemoryManager \<Rightarrow> nat result" where
  "completion_queue_wait_front fuel hal channel sysmem exit_condition cq_id m =
     rbind (in_vector cq_id (cq_interfaces m)) (\<lambda>cq.
     wait_completion fuel cq (\<lambda>i. get_cq_completion_wr_ptr hal (sysmem i) True channel cq_id (mgr_cq_size m)) exit_condition 0)"

definition send_completion_queue_read_ptr :: "Hal_params \<Rightarrow> nat \<Rightarrow> SystemMemoryManager \<Rightarrow> SystemMemoryManager result" where
  "send_completion_queue_read_ptr hal cq_id m =
     rbind (in_vector cq_id (cq_interfaces m)) (\<lambda>cq.
     rbind (in_vector cq_id (completion_byte_addrs m)) (\<lambda>byte_addr.
     let read_ptr_and_toggle = completion_fifo_rd_ptr cq OR u32 (push_bit 31 (of_bool (completion_fifo_rd_toggle cq)))
     in Inr (m\<lparr>device_io := device_io m @
          [Fast_write byte_addr read_ptr_and_toggle,
           Sysmem_write (add32 (get_host_command_queue_addr hal HOST_COMPLETION_Q_RD)
                               (get_relative_cq_offset cq_id (mgr_cq_size m))) read_ptr_and_toggle]\<rparr>)))"

definition wrap_completion_queue_rd_ptr :: "nat \<Rightarrow> SystemMemoryManager \<Rightarrow> SystemMemoryManager result" where
  "wrap_completion_queue_rd_ptr cq_id m =
     rbind (in_vector cq_id (cq_interfaces m)) (\<lambda>cq.
     Inr (set_cq cq_id (cq\<lparr>completion_fifo_rd_ptr := issue_fifo_limit cq,
                          completion_fifo_rd_toggle := \<not> completion_fifo_rd_toggle cq\<rparr>) m))"

definition completion_queue_pop_front :: "Hal_params \<Rightarrow> nat \<Rightarrow> nat \<Rightarrow> SystemMemoryManager \<Rightarrow> SystemMemoryManager result" where
  "completion_queue_pop_front hal num_pages_read cq_id m =
     (let data_read_B = mul32 num_pages_read TRANSFER_PAGE_SIZE;
          data_read_16B = drop_bit 4 data_read_B
      in rbind (in_vector cq_id (cq_interfaces m)) (\<lambda>cq.
         let rd = add32 (completion_fifo_rd_ptr cq) data_read_16B;
             cq = cq\<lparr>completion_fifo_rd_ptr := rd\<rparr>;
             cq = (if rd \<ge> completion_fifo_limit cq
                   then cq\<lparr>completion_fifo_rd_ptr := issue_fifo_limit cq,
                           completion_fifo_rd_toggle := \<not> completion_fifo_rd_toggle cq\<rparr>
                   else cq)
         in send_completion_queue_read_ptr hal cq_id (set_cq cq_id cq m)))"

subsubsection \<open>The fetch queue\<close>

text \<open>\<open>fences\<close> are the values of the prefetcher's read pointer, one for each poll; the state carries the number of polls.\<close>

fun wait_for_fetch_q_space :: "nat \<Rightarrow> (nat \<Rightarrow> nat) \<Rightarrow> nat \<Rightarrow> nat \<times> SystemMemoryManager \<Rightarrow> (nat \<times> SystemMemoryManager) result" where
  "wait_for_fetch_q_space fuel fences cq_id (i, m) =
     rbind (in_vector cq_id (prefetch_q_dev_ptrs m)) (\<lambda>p.
     rbind (in_vector cq_id (prefetch_q_dev_fences m)) (\<lambda>f.
     if p = f then
       (case fuel of 0 \<Rightarrow> Inl Diverges
        | Suc fuel \<Rightarrow> wait_for_fetch_q_space fuel fences cq_id
            (Suc i, m\<lparr>prefetch_q_dev_fences := (prefetch_q_dev_fences m)[cq_id := fences i]\<rparr>))
     else Inr (i, m)))"

declare wait_for_fetch_q_space.simps [simp del]

definition fetch_queue_reserve_back :: "nat \<Rightarrow> dispatch_constants \<Rightarrow> (nat \<Rightarrow> nat) \<Rightarrow> nat \<Rightarrow> SystemMemoryManager \<Rightarrow> SystemMemoryManager result" where
  "fetch_queue_reserve_back fuel dc fences cq_id m =
     (if bypass_enable m then Inr m
      else
        rbind (wait_for_fetch_q_space fuel fences cq_id (0, m)) (\<lambda>(i, m).
        rbind (get_device_command_queue_addr dc UNRESERVED) (\<lambda>prefetch_q_base.
        let prefetch_q_limit = add32 prefetch_q_base (mul32 (prefetch_q_entries dc) 2) in
        rbind (in_vector cq_id (prefetch_q_dev_ptrs m)) (\<lambda>p.
        if p = prefetch_q_limit then
          rbind (wait_for_fetch_q_space fuel fences cq_id
                   (i, m\<lparr>prefetch_q_dev_ptrs := (prefetch_q_dev_ptrs m)[cq_id := prefetch_q_base]\<rparr>)) (\<lambda>(i, m). Inr m)
        else Inr m))))"

definition fetch_queue_write :: "dispatch_constants \<Rightarrow> nat \<Rightarrow> nat \<Rightarrow> bool \<Rightarrow> SystemMemoryManager \<Rightarrow> SystemMemoryManager result" where
  "fetch_queue_write dc command_size_B cq_id stall_prefetcher m =
     rbind (check (command_size_B \<le> max_prefetch_command_size dc) (TT_ASSERT ''prefetcher command exceeds max command size'')) (\<lambda>_.
     rbind (check (drop_bit 4 command_size_B < 0xFFFF) (TT_ASSERT ''FetchQ command too large to represent'')) (\<lambda>_.
     if bypass_enable m then Inr m
     else
       let command_size_16B = wcast 16 (drop_bit 4 command_size_B);
           command_size_16B = (if stall_prefetcher then command_size_16B OR 0x8000 else command_size_16B)
       in rbind (in_vector cq_id (prefetch_q_dev_ptrs m)) (\<lambda>p.
          Inr (m\<lparr>prefetch_q_dev_ptrs := (prefetch_q_dev_ptrs m)[cq_id := add32 p 2],
                device_io := device_io m @ [Prefetch_q_write p command_size_16B]\<rparr>))))"

subsection \<open>LaunchMessageRingBufferState\<close>

record LaunchMessageRingBufferState =
  multicast_cores_launch_message_wptr :: nat
  unicast_cores_launch_message_wptr :: nat

definition launch_msg_buffer_num_entries :: nat where
  "launch_msg_buffer_num_entries = 4"

definition inc_mcast_wptr :: "nat \<Rightarrow> LaunchMessageRingBufferState \<Rightarrow> LaunchMessageRingBufferState" where
  "inc_mcast_wptr inc_val s = s\<lparr>multicast_cores_launch_message_wptr :=
     add32 (multicast_cores_launch_message_wptr s) inc_val AND (launch_msg_buffer_num_entries - 1)\<rparr>"

definition inc_unicast_wptr :: "nat \<Rightarrow> LaunchMessageRingBufferState \<Rightarrow> LaunchMessageRingBufferState" where
  "inc_unicast_wptr inc_val s = s\<lparr>unicast_cores_launch_message_wptr :=
     add32 (unicast_cores_launch_message_wptr s) inc_val AND (launch_msg_buffer_num_entries - 1)\<rparr>"

definition set_mcast_wptr :: "nat \<Rightarrow> LaunchMessageRingBufferState \<Rightarrow> LaunchMessageRingBufferState" where
  "set_mcast_wptr val s = s\<lparr>multicast_cores_launch_message_wptr := val AND (launch_msg_buffer_num_entries - 1)\<rparr>"

definition set_unicast_wptr :: "nat \<Rightarrow> LaunchMessageRingBufferState \<Rightarrow> LaunchMessageRingBufferState" where
  "set_unicast_wptr val s = s\<lparr>unicast_cores_launch_message_wptr := val AND (launch_msg_buffer_num_entries - 1)\<rparr>"

definition reset_launch_state :: LaunchMessageRingBufferState where
  "reset_launch_state = \<lparr>multicast_cores_launch_message_wptr = 0, unicast_cores_launch_message_wptr = 0\<rparr>"

end
