(* ===== verification/Device_Command.thy ===== *)
theory Device_Command
  imports Cq_Interface
begin

text \<open>
  The commands the host sends to the prefetcher and the dispatcher: the packed structures of
  \<^verbatim>\<open>tt_metal/impl/dispatch/cq_commands.hpp\<close> and the class \<^verbatim>\<open>DeviceCommand\<close> of \<^verbatim>\<open>device_command.hpp\<close> that writes them
  into a command region.  A command is modelled byte for byte: every member of the union is a constructor, and
  \<open>prefetch_fields\<close> and \<open>dispatch_fields\<close> give the assignments the host makes, each a byte offset in the 16-byte
  structure and the little-endian bytes put there.  The template argument \<^verbatim>\<open>hugepage_write\<close> is a field: with it
  a command is built in an uninitialised variable on the stack, whose bytes are \<open>stack_bytes\<close>, and copied with
  \<^verbatim>\<open>memcpy_to_device\<close>; without it the fields are assigned in place.  The macro \<^verbatim>\<open>PCIE_ALIGNMENT\<close> and \<^verbatim>\<open>pcie_alignment\<close> are the
  same number.  Copying and moving a \<^verbatim>\<open>DeviceCommand\<close> is not modelled.
\<close>

unbundle bit_operations_syntax

subsection \<open>cq\_commands.hpp\<close>

datatype CQPrefetchCmdId =
    CQ_PREFETCH_CMD_ILLEGAL | CQ_PREFETCH_CMD_RELAY_LINEAR | CQ_PREFETCH_CMD_RELAY_PAGED
  | CQ_PREFETCH_CMD_RELAY_PAGED_PACKED | CQ_PREFETCH_CMD_RELAY_INLINE | CQ_PREFETCH_CMD_RELAY_INLINE_NOFLUSH
  | CQ_PREFETCH_CMD_EXEC_BUF | CQ_PREFETCH_CMD_EXEC_BUF_END | CQ_PREFETCH_CMD_STALL | CQ_PREFETCH_CMD_DEBUG
  | CQ_PREFETCH_CMD_TERMINATE

fun prefetch_id :: "CQPrefetchCmdId \<Rightarrow> nat" where
  "prefetch_id CQ_PREFETCH_CMD_ILLEGAL = 0"
| "prefetch_id CQ_PREFETCH_CMD_RELAY_LINEAR = 1"
| "prefetch_id CQ_PREFETCH_CMD_RELAY_PAGED = 2"
| "prefetch_id CQ_PREFETCH_CMD_RELAY_PAGED_PACKED = 3"
| "prefetch_id CQ_PREFETCH_CMD_RELAY_INLINE = 4"
| "prefetch_id CQ_PREFETCH_CMD_RELAY_INLINE_NOFLUSH = 5"
| "prefetch_id CQ_PREFETCH_CMD_EXEC_BUF = 6"
| "prefetch_id CQ_PREFETCH_CMD_EXEC_BUF_END = 7"
| "prefetch_id CQ_PREFETCH_CMD_STALL = 8"
| "prefetch_id CQ_PREFETCH_CMD_DEBUG = 9"
| "prefetch_id CQ_PREFETCH_CMD_TERMINATE = 10"

datatype CQDispatchCmdId =
    CQ_DISPATCH_CMD_ILLEGAL | CQ_DISPATCH_CMD_WRITE_LINEAR | CQ_DISPATCH_CMD_WRITE_LINEAR_H
  | CQ_DISPATCH_CMD_WRITE_LINEAR_H_HOST | CQ_DISPATCH_CMD_WRITE_PAGED | CQ_DISPATCH_CMD_WRITE_PACKED
  | CQ_DISPATCH_CMD_WRITE_PACKED_LARGE | CQ_DISPATCH_CMD_WAIT | CQ_DISPATCH_CMD_GO | CQ_DISPATCH_CMD_SINK
  | CQ_DISPATCH_CMD_DEBUG | CQ_DISPATCH_CMD_DELAY | CQ_DISPATCH_CMD_EXEC_BUF_END | CQ_DISPATCH_CMD_SET_WRITE_OFFSET
  | CQ_DISPATCH_CMD_TERMINATE | CQ_DISPATCH_CMD_SEND_GO_SIGNAL | CQ_DISPATCH_NOTIFY_SLAVE_GO_SIGNAL
  | CQ_DISPATCH_SET_UNICAST_ONLY_CORES

fun dispatch_id :: "CQDispatchCmdId \<Rightarrow> nat" where
  "dispatch_id CQ_DISPATCH_CMD_ILLEGAL = 0"
| "dispatch_id CQ_DISPATCH_CMD_WRITE_LINEAR = 1"
| "dispatch_id CQ_DISPATCH_CMD_WRITE_LINEAR_H = 2"
| "dispatch_id CQ_DISPATCH_CMD_WRITE_LINEAR_H_HOST = 3"
| "dispatch_id CQ_DISPATCH_CMD_WRITE_PAGED = 4"
| "dispatch_id CQ_DISPATCH_CMD_WRITE_PACKED = 5"
| "dispatch_id CQ_DISPATCH_CMD_WRITE_PACKED_LARGE = 6"
| "dispatch_id CQ_DISPATCH_CMD_WAIT = 7"
| "dispatch_id CQ_DISPATCH_CMD_GO = 8"
| "dispatch_id CQ_DISPATCH_CMD_SINK = 9"
| "dispatch_id CQ_DISPATCH_CMD_DEBUG = 10"
| "dispatch_id CQ_DISPATCH_CMD_DELAY = 11"
| "dispatch_id CQ_DISPATCH_CMD_EXEC_BUF_END = 12"
| "dispatch_id CQ_DISPATCH_CMD_SET_WRITE_OFFSET = 13"
| "dispatch_id CQ_DISPATCH_CMD_TERMINATE = 14"
| "dispatch_id CQ_DISPATCH_CMD_SEND_GO_SIGNAL = 15"
| "dispatch_id CQ_DISPATCH_NOTIFY_SLAVE_GO_SIGNAL = 16"
| "dispatch_id CQ_DISPATCH_SET_UNICAST_ONLY_CORES = 17"

datatype DispatcherSelect = DISPATCH_MASTER | DISPATCH_SLAVE

fun dispatcher_value :: "DispatcherSelect \<Rightarrow> nat" where
  "dispatcher_value DISPATCH_MASTER = 0"
| "dispatcher_value DISPATCH_SLAVE = 1"

text \<open>A field: its offset and its bytes, least significant first.\<close>

type_synonym field = "nat \<times> 8 word list"

definition le_bytes :: "nat \<Rightarrow> nat \<Rightarrow> 8 word list" where
  "le_bytes n v = map (\<lambda>i. word_of_nat (drop_bit (8 * i) v)) [0..<n]"

definition u8_at :: "nat \<Rightarrow> nat \<Rightarrow> field" where "u8_at off v = (off, le_bytes 1 v)"
definition u16_at :: "nat \<Rightarrow> nat \<Rightarrow> field" where "u16_at off v = (off, le_bytes 2 v)"
definition u32_at :: "nat \<Rightarrow> nat \<Rightarrow> field" where "u32_at off v = (off, le_bytes 4 v)"

datatype CQPrefetchCmd =
    RelayLinear nat nat nat
  | RelayPaged nat nat nat nat nat
  | RelayPagedPacked nat nat nat
  | RelayInline CQPrefetchCmdId nat nat nat
  | ExecBuf nat nat nat
  | ExecBufEnd nat nat
  | PrefetchPlain CQPrefetchCmdId

definition sizeof_CQPrefetchCmd :: nat where "sizeof_CQPrefetchCmd = 16"

fun prefetch_fields :: "CQPrefetchCmd \<Rightarrow> field list" where
  "prefetch_fields (RelayLinear noc_xy_addr len addr) =
     [u8_at 0 (prefetch_id CQ_PREFETCH_CMD_RELAY_LINEAR), u32_at 4 noc_xy_addr, u32_at 12 len, u32_at 8 addr]"
| "prefetch_fields (RelayPaged packed_page_flags length_adjust base_addr page_size pages) =
     [u8_at 0 (prefetch_id CQ_PREFETCH_CMD_RELAY_PAGED), u8_at 1 packed_page_flags, u16_at 2 length_adjust,
      u32_at 4 base_addr, u32_at 8 page_size, u32_at 12 pages]"
| "prefetch_fields (RelayPagedPacked total_length stride count) =
     [u8_at 0 (prefetch_id CQ_PREFETCH_CMD_RELAY_PAGED_PACKED), u32_at 4 total_length, u32_at 8 stride, u16_at 2 count]"
| "prefetch_fields (RelayInline i dispatcher_type len stride) =
     [u8_at 0 (prefetch_id i), u8_at 1 dispatcher_type, u32_at 4 len, u32_at 8 stride]"
| "prefetch_fields (ExecBuf base_addr log_page_size pages) =
     [u8_at 0 (prefetch_id CQ_PREFETCH_CMD_EXEC_BUF), u32_at 4 base_addr, u32_at 8 log_page_size, u32_at 12 pages]"
| "prefetch_fields (ExecBufEnd len stride) =
     [u8_at 0 (prefetch_id CQ_PREFETCH_CMD_EXEC_BUF_END), u32_at 4 len, u32_at 8 stride]"
| "prefetch_fields (PrefetchPlain i) = [(0, replicate 16 0), u8_at 0 (prefetch_id i)]"

datatype CQDispatchCmd =
    WriteLinear nat nat nat nat nat
  | WriteHost nat nat
  | WritePaged nat nat nat nat nat
  | WritePacked nat nat nat nat nat
  | WritePackedLarge nat nat nat
  | Wait nat nat nat nat nat nat
  | SetWriteOffset nat nat nat
  | GoSignalMcast nat nat nat nat
  | SetUnicastOnlyCores nat
  | DispatchPlain CQDispatchCmdId
  | DispatchExecBufEnd

definition sizeof_CQDispatchCmd :: nat where "sizeof_CQDispatchCmd = 16"

fun dispatch_fields :: "CQDispatchCmd \<Rightarrow> field list" where
  "dispatch_fields (WriteLinear num_mcast_dests write_offset_index noc_xy_addr addr len) =
     [u8_at 0 (dispatch_id CQ_DISPATCH_CMD_WRITE_LINEAR), u8_at 1 num_mcast_dests, u8_at 2 write_offset_index,
      u32_at 4 noc_xy_addr, u32_at 8 addr, u32_at 12 len]"
| "dispatch_fields (WriteHost is_event len) =
     [u8_at 0 (dispatch_id CQ_DISPATCH_CMD_WRITE_LINEAR_H_HOST), u8_at 1 is_event, u32_at 12 len]"
| "dispatch_fields (WritePaged is_dram start_page base_addr page_size pages) =
     [u8_at 0 (dispatch_id CQ_DISPATCH_CMD_WRITE_PAGED), u8_at 1 is_dram, u16_at 2 start_page,
      u32_at 4 base_addr, u32_at 8 page_size, u32_at 12 pages]"
| "dispatch_fields (WritePacked flags count write_offset_index addr sz) =
     [u8_at 0 (dispatch_id CQ_DISPATCH_CMD_WRITE_PACKED), u8_at 1 flags, u16_at 2 count, u16_at 4 write_offset_index,
      u32_at 8 addr, u16_at 6 sz]"
| "dispatch_fields (WritePackedLarge count alignment write_offset_index) =
     [u8_at 0 (dispatch_id CQ_DISPATCH_CMD_WRITE_PACKED_LARGE), u16_at 2 count, u16_at 4 alignment, u16_at 6 write_offset_index]"
| "dispatch_fields (Wait barrier notify_prefetch wait addr count clear_count) =
     [u8_at 0 (dispatch_id CQ_DISPATCH_CMD_WAIT), u8_at 1 barrier, u8_at 2 notify_prefetch, u8_at 4 wait,
      u32_at 8 addr, u32_at 12 count, u8_at 3 clear_count]"
| "dispatch_fields (SetWriteOffset offset0 offset1 offset2) =
     [(0, replicate 16 0), u8_at 0 (dispatch_id CQ_DISPATCH_CMD_SET_WRITE_OFFSET), u32_at 4 offset0, u32_at 8 offset1, u32_at 12 offset2]"
| "dispatch_fields (GoSignalMcast go_signal wait_count mcast_flag wait_addr) =
     [(0, replicate 16 0), u8_at 0 (dispatch_id CQ_DISPATCH_CMD_SEND_GO_SIGNAL), u32_at 1 go_signal, u32_at 6 wait_count,
      u8_at 5 mcast_flag, u32_at 10 wait_addr]"
| "dispatch_fields (SetUnicastOnlyCores num_unicast_only_cores) =
     [(0, replicate 16 0), u8_at 0 (dispatch_id CQ_DISPATCH_SET_UNICAST_ONLY_CORES), u32_at 4 num_unicast_only_cores]"
| "dispatch_fields (DispatchPlain i) = [(0, replicate 16 0), u8_at 0 (dispatch_id i)]"
| "dispatch_fields DispatchExecBufEnd = [u8_at 0 (dispatch_id CQ_DISPATCH_CMD_EXEC_BUF_END)]"

text \<open>The sub-commands, whose vectors are copied as they are.\<close>

record CQPrefetchRelayPagedPackedSubCmd =
  start_page :: nat
  log_page_size :: nat
  base_addr :: nat
  pp_length :: nat

definition relay_paged_packed_bytes :: "CQPrefetchRelayPagedPackedSubCmd \<Rightarrow> 8 word list" where
  "relay_paged_packed_bytes c =
     le_bytes 2 (start_page c) @ le_bytes 2 (log_page_size c) @ le_bytes 4 (base_addr c) @ le_bytes 4 (pp_length c)"

datatype PackedSubCmd =
    CQDispatchWritePackedUnicastSubCmd nat
  | CQDispatchWritePackedMulticastSubCmd nat nat

fun packed_bytes :: "PackedSubCmd \<Rightarrow> 8 word list" where
  "packed_bytes (CQDispatchWritePackedUnicastSubCmd noc_xy_addr) = le_bytes 4 noc_xy_addr"
| "packed_bytes (CQDispatchWritePackedMulticastSubCmd noc_xy_addr num_mcast_dests) =
     le_bytes 4 noc_xy_addr @ le_bytes 4 num_mcast_dests"

record CQDispatchWritePackedLargeSubCmd =
  pl_noc_xy_addr :: nat
  pl_addr :: nat
  pl_length :: nat
  pl_num_mcast_dests :: nat
  pl_flags :: nat

definition packed_large_bytes :: "CQDispatchWritePackedLargeSubCmd \<Rightarrow> 8 word list" where
  "packed_large_bytes c = le_bytes 4 (pl_noc_xy_addr c) @ le_bytes 4 (pl_addr c) @ le_bytes 2 (pl_length c) @
     le_bytes 1 (pl_num_mcast_dests c) @ le_bytes 1 (pl_flags c)"

definition get_packed_write_max_multicast_sub_cmds :: "nat \<Rightarrow> nat" where
  "get_packed_write_max_multicast_sub_cmds packed_write_max_unicast_sub_cmds = packed_write_max_unicast_sub_cmds * 4 div 8"

definition CQ_DISPATCH_CMD_PACKED_WRITE_LARGE_MAX_SUB_CMDS :: nat where
  "CQ_DISPATCH_CMD_PACKED_WRITE_LARGE_MAX_SUB_CMDS = 35"

subsection \<open>DeviceCommand\<close>

record DeviceCommand =
  cmd_sequence_sizeB :: nat
  cmd_region :: nat
  cmd_write_offsetB :: nat
  pcie_alignment :: nat
  dc_l1_alignment :: nat
  zero_init_enable :: bool
  hugepage_write :: bool
  cmd_mem :: mem
  stack_bytes :: "8 word list"

definition new_DeviceCommand_at :: "Hal_params \<Rightarrow> bool \<Rightarrow> bool \<Rightarrow> 8 word list \<Rightarrow> mem \<Rightarrow> nat \<Rightarrow> nat \<Rightarrow> DeviceCommand result" where
  "new_DeviceCommand_at hal zero_init hugepage stack m region sizeB =
     rbind (check (sizeB mod 4 = 0) (TT_FATAL ''Command sequence size is not aligned'')) (\<lambda>_.
     Inr \<lparr>cmd_sequence_sizeB = sizeB, cmd_region = region, cmd_write_offsetB = 0, pcie_alignment = host_alignment hal,
          dc_l1_alignment = l1_alignment hal, zero_init_enable = zero_init, hugepage_write = hugepage,
          cmd_mem = m, stack_bytes = stack\<rparr>)"

definition new_HostMemDeviceCommand :: "Hal_params \<Rightarrow> bool \<Rightarrow> 8 word list \<Rightarrow> mem \<Rightarrow> nat \<Rightarrow> nat \<Rightarrow> DeviceCommand result" where
  "new_HostMemDeviceCommand hal zero_init stack m region sizeB =
     rbind (check (sizeB mod 4 = 0) (TT_FATAL ''Command sequence size is not aligned'')) (\<lambda>_.
     new_DeviceCommand_at hal zero_init False stack (store_bytes region (replicate sizeB 0) m) region sizeB)"

definition dc_memcpy :: "nat \<Rightarrow> 8 word list \<Rightarrow> DeviceCommand \<Rightarrow> DeviceCommand result" where
  "dc_memcpy dst src dc =
     (if hugepage_write dc then rbind (memcpy_to_device dst src (cmd_mem dc)) (\<lambda>m. Inr (dc\<lparr>cmd_mem := m\<rparr>))
      else Inr (dc\<lparr>cmd_mem := store_bytes dst src (cmd_mem dc)\<rparr>))"

definition zero_command :: "nat \<Rightarrow> DeviceCommand \<Rightarrow> DeviceCommand result" where
  "zero_command cmd dc =
     (if hugepage_write dc then dc_memcpy cmd (replicate 16 0) dc
      else Inr (dc\<lparr>cmd_mem := store_bytes cmd (replicate 16 0) (cmd_mem dc)\<rparr>))"

definition validate_cmd_write :: "nat \<Rightarrow> DeviceCommand \<Rightarrow> unit result" where
  "validate_cmd_write data_sizeB dc =
     check (add32 (cmd_write_offsetB dc) data_sizeB \<le> cmd_sequence_sizeB dc) (TT_ASSERT ''Out of bounds command sequence write'')"

definition reserve_space :: "nat \<Rightarrow> DeviceCommand \<Rightarrow> (nat \<times> DeviceCommand) result" where
  "reserve_space size_to_writeB dc =
     rbind (validate_cmd_write size_to_writeB dc) (\<lambda>_.
     let cmd = cmd_region dc + cmd_write_offsetB dc in
     rbind (if zero_init_enable dc then zero_command cmd dc else Inr dc) (\<lambda>dc.
     Inr (cmd, dc\<lparr>cmd_write_offsetB := add32 (cmd_write_offsetB dc) size_to_writeB\<rparr>)))"

text \<open>\<^verbatim>\<open>reserve_space<T, true>\<close>: space for data, which is never zeroed.\<close>

definition reserve_data :: "nat \<Rightarrow> DeviceCommand \<Rightarrow> (nat \<times> DeviceCommand) result" where
  "reserve_data size_to_writeB dc =
     rbind (validate_cmd_write size_to_writeB dc) (\<lambda>_.
     Inr (cmd_region dc + cmd_write_offsetB dc, dc\<lparr>cmd_write_offsetB := add32 (cmd_write_offsetB dc) size_to_writeB\<rparr>))"

definition put_field :: "field \<Rightarrow> 8 word list \<Rightarrow> 8 word list" where
  "put_field f bs = (case f of (off, v) \<Rightarrow> take off bs @ v @ drop (off + length v) bs)"

definition write_command :: "nat \<Rightarrow> field list \<Rightarrow> DeviceCommand \<Rightarrow> DeviceCommand result" where
  "write_command cmd assigned dc =
     (if hugepage_write dc then dc_memcpy cmd (fold put_field assigned (stack_bytes dc)) dc
      else Inr (dc\<lparr>cmd_mem := fold (\<lambda>(off, v). store_bytes (cmd + off) v) assigned (cmd_mem dc)\<rparr>))"

definition align_offset :: "DeviceCommand \<Rightarrow> DeviceCommand" where
  "align_offset dc = dc\<lparr>cmd_write_offsetB := align_up (cmd_write_offsetB dc) (pcie_alignment dc)\<rparr>"

definition add_data :: "8 word list \<Rightarrow> nat \<Rightarrow> nat \<Rightarrow> DeviceCommand \<Rightarrow> DeviceCommand result" where
  "add_data data data_size_to_copyB cmd_write_offset_incrementB dc =
     rbind (validate_cmd_write cmd_write_offset_incrementB dc) (\<lambda>_.
     rbind (check (data_size_to_copyB \<le> length data) (Undefined ''read past the end of the data'')) (\<lambda>_.
     rbind (dc_memcpy (cmd_region dc + cmd_write_offsetB dc) (take data_size_to_copyB data) dc) (\<lambda>dc.
     Inr (dc\<lparr>cmd_write_offsetB := add32 (cmd_write_offsetB dc) cmd_write_offset_incrementB\<rparr>))))"

definition update_cmd_sequence :: "nat \<Rightarrow> 8 word list \<Rightarrow> DeviceCommand \<Rightarrow> DeviceCommand result" where
  "update_cmd_sequence cmd_offsetB new_data dc = dc_memcpy (cmd_region dc + cmd_offsetB) new_data dc"

definition add_prefetch_relay_inline :: "bool \<Rightarrow> nat \<Rightarrow> DispatcherSelect \<Rightarrow> DeviceCommand \<Rightarrow> DeviceCommand result" where
  "add_prefetch_relay_inline flush lengthB dispatcher_type dc =
     rbind (check (flush \<or> lengthB \<le> 2 ^ 12) (TT_ASSERT ''Data to relay for inline no flush must fit within one page'')) (\<lambda>_.
     rbind (reserve_space sizeof_CQPrefetchCmd dc) (\<lambda>(relay_write_dst, dc).
     write_command relay_write_dst
       (prefetch_fields (RelayInline (if flush then CQ_PREFETCH_CMD_RELAY_INLINE else CQ_PREFETCH_CMD_RELAY_INLINE_NOFLUSH)
          (dispatcher_value dispatcher_type) lengthB (align_up (add32 sizeof_CQPrefetchCmd lengthB) (pcie_alignment dc)))) dc))"

text \<open>Most commands reserve space for one structure and initialise it.\<close>

definition add_prefetch :: "CQPrefetchCmd \<Rightarrow> DeviceCommand \<Rightarrow> DeviceCommand result" where
  "add_prefetch cmd dc =
     rbind (reserve_space (align_up sizeof_CQPrefetchCmd (pcie_alignment dc)) dc) (\<lambda>(dst, dc).
     write_command dst (prefetch_fields cmd) dc)"

definition add_dispatch :: "CQDispatchCmd \<Rightarrow> DeviceCommand \<Rightarrow> DeviceCommand result" where
  "add_dispatch cmd dc =
     rbind (reserve_space sizeof_CQDispatchCmd dc) (\<lambda>(dst, dc). write_command dst (dispatch_fields cmd) dc)"

definition add_dispatch_wait :: "nat \<Rightarrow> nat \<Rightarrow> nat \<Rightarrow> nat \<Rightarrow> bool \<Rightarrow> bool \<Rightarrow> nat \<Rightarrow> DeviceCommand \<Rightarrow> DeviceCommand result" where
  "add_dispatch_wait barrier address count clear_count notify_prefetch do_wait dispatcher_type dc =
     rbind (reserve_space sizeof_CQPrefetchCmd dc) (\<lambda>(relay_wait_dst, dc).
     rbind (reserve_space sizeof_CQDispatchCmd dc) (\<lambda>(wait_cmd_dst, dc).
     rbind (write_command relay_wait_dst
              (prefetch_fields (RelayInline CQ_PREFETCH_CMD_RELAY_INLINE dispatcher_type sizeof_CQDispatchCmd (pcie_alignment dc))) dc) (\<lambda>dc.
     rbind (write_command wait_cmd_dst
              (dispatch_fields (Wait barrier (of_bool notify_prefetch) (of_bool do_wait) address count clear_count)) dc) (\<lambda>dc.
     Inr (align_offset dc)))))"

definition add_dispatch_wait_with_prefetch_stall :: "nat \<Rightarrow> nat \<Rightarrow> nat \<Rightarrow> nat \<Rightarrow> bool \<Rightarrow> DeviceCommand \<Rightarrow> DeviceCommand result" where
  "add_dispatch_wait_with_prefetch_stall barrier address count clear_count do_wait dc =
     rbind (add_dispatch_wait barrier address count clear_count True do_wait 0 dc) (\<lambda>dc.
     add_prefetch (PrefetchPlain CQ_PREFETCH_CMD_STALL) dc)"

definition add_prefetch_relay_linear :: "nat \<Rightarrow> nat \<Rightarrow> nat \<Rightarrow> DeviceCommand \<Rightarrow> DeviceCommand result" where
  "add_prefetch_relay_linear noc_xy_addr lengthB addr dc = add_prefetch (RelayLinear noc_xy_addr lengthB addr) dc"

definition add_prefetch_relay_paged :: "nat \<Rightarrow> nat \<Rightarrow> nat \<Rightarrow> nat \<Rightarrow> nat \<Rightarrow> nat \<Rightarrow> DeviceCommand \<Rightarrow> DeviceCommand result" where
  "add_prefetch_relay_paged is_dram start base page_size pages length_adjust dc =
     add_prefetch (RelayPaged (push_bit 4 is_dram OR push_bit 0 start) length_adjust base page_size pages) dc"

definition add_prefetch_relay_paged_packed :: "nat \<Rightarrow> CQPrefetchRelayPagedPackedSubCmd list \<Rightarrow> nat \<Rightarrow> nat
    \<Rightarrow> DeviceCommand \<Rightarrow> DeviceCommand result" where
  "add_prefetch_relay_paged_packed len sub_cmds num_sub_cmds offset_idx dc =
     (let sub_cmds_sizeB = mul32 num_sub_cmds 12;
          increment_sizeB = align_up (add32 sub_cmds_sizeB sizeof_CQPrefetchCmd) (pcie_alignment dc)
      in rbind (reserve_space increment_sizeB dc) (\<lambda>(dst, dc).
         rbind (write_command dst (prefetch_fields (RelayPagedPacked len increment_sizeB num_sub_cmds)) dc) (\<lambda>dc.
         rbind (check (offset_idx + num_sub_cmds \<le> length sub_cmds) (Undefined ''vector access out of range'')) (\<lambda>_.
         dc_memcpy (dst + sizeof_CQPrefetchCmd)
           (concat (map relay_paged_packed_bytes (take num_sub_cmds (drop offset_idx sub_cmds)))) dc))))"

text \<open>The optional data of a write: \<^verbatim>\<open>nullptr\<close> is \<open>None\<close>.\<close>

definition add_inline_data :: "bool \<Rightarrow> 8 word list option \<Rightarrow> nat \<Rightarrow> nat \<Rightarrow> DeviceCommand \<Rightarrow> DeviceCommand result" where
  "add_inline_data inline_data data data_sizeB increment_sizeB dc =
     (if inline_data then
        case data of None \<Rightarrow> Inl (TT_ASSERT ''data != nullptr'')
        | Some bs \<Rightarrow> add_data bs data_sizeB increment_sizeB dc
      else Inr dc)"

definition add_dispatch_write_linear :: "bool \<Rightarrow> bool \<Rightarrow> nat \<Rightarrow> nat \<Rightarrow> nat \<Rightarrow> nat \<Rightarrow> 8 word list option \<Rightarrow> nat
    \<Rightarrow> DeviceCommand \<Rightarrow> DeviceCommand result" where
  "add_dispatch_write_linear inline_data flush_prefetch num_mcast_dests noc_xy_addr addr data_sizeB data write_offset_index dc =
     (let payload_sizeB = add32 sizeof_CQDispatchCmd (if flush_prefetch then data_sizeB else 0) in
      rbind (add_prefetch_relay_inline flush_prefetch payload_sizeB DISPATCH_MASTER dc) (\<lambda>dc.
      rbind (add_dispatch (WriteLinear num_mcast_dests write_offset_index noc_xy_addr addr data_sizeB) dc) (\<lambda>dc.
      add_inline_data inline_data data data_sizeB (align_up data_sizeB (pcie_alignment dc)) dc)))"

definition add_dispatch_go_signal_mcast :: "nat \<Rightarrow> nat \<Rightarrow> nat \<Rightarrow> nat \<Rightarrow> DispatcherSelect \<Rightarrow> DeviceCommand \<Rightarrow> DeviceCommand result" where
  "add_dispatch_go_signal_mcast wait_count mcast_flag go_signal wait_addr dispatcher_type dc =
     rbind (add_prefetch_relay_inline True sizeof_CQDispatchCmd dispatcher_type dc) (\<lambda>dc.
     rbind (add_dispatch (GoSignalMcast go_signal wait_count mcast_flag wait_addr) dc) (\<lambda>dc.
     Inr (align_offset dc)))"

definition add_notify_dispatch_s_go_signal_cmd :: "DeviceCommand \<Rightarrow> DeviceCommand result" where
  "add_notify_dispatch_s_go_signal_cmd dc =
     rbind (add_prefetch_relay_inline True sizeof_CQDispatchCmd DISPATCH_MASTER dc) (\<lambda>dc.
     rbind (add_dispatch (DispatchPlain CQ_DISPATCH_NOTIFY_SLAVE_GO_SIGNAL) dc) (\<lambda>dc.
     Inr (align_offset dc)))"

definition add_dispatch_write_paged :: "bool \<Rightarrow> bool \<Rightarrow> nat \<Rightarrow> nat \<Rightarrow> nat \<Rightarrow> nat \<Rightarrow> nat \<Rightarrow> 8 word list option
    \<Rightarrow> DeviceCommand \<Rightarrow> DeviceCommand result" where
  "add_dispatch_write_paged inline_data flush_prefetch is_dram start base page_size pages data dc =
     (let data_sizeB = mul32 page_size pages;
          payload_sizeB = add32 sizeof_CQDispatchCmd (if flush_prefetch then data_sizeB else 0) in
      rbind (add_prefetch_relay_inline flush_prefetch payload_sizeB DISPATCH_MASTER dc) (\<lambda>dc.
      rbind (add_dispatch (WritePaged is_dram start base page_size pages) dc) (\<lambda>dc.
      add_inline_data inline_data data data_sizeB (align_up data_sizeB (pcie_alignment dc)) dc)))"

definition add_dispatch_write_host :: "bool \<Rightarrow> bool \<Rightarrow> nat \<Rightarrow> bool \<Rightarrow> 8 word list option \<Rightarrow> DeviceCommand \<Rightarrow> DeviceCommand result" where
  "add_dispatch_write_host inline_data flush_prefetch data_sizeB is_event data dc =
     (let payload_sizeB = add32 sizeof_CQDispatchCmd (if flush_prefetch then data_sizeB else 0) in
      rbind (add_prefetch_relay_inline flush_prefetch payload_sizeB DISPATCH_MASTER dc) (\<lambda>dc.
      rbind (add_dispatch (WriteHost (of_bool is_event) (add32 sizeof_CQDispatchCmd data_sizeB)) dc) (\<lambda>dc.
      rbind (add_inline_data inline_data data data_sizeB data_sizeB dc) (\<lambda>dc.
      Inr (align_offset dc)))))"

definition add_prefetch_exec_buf :: "nat \<Rightarrow> nat \<Rightarrow> nat \<Rightarrow> DeviceCommand \<Rightarrow> DeviceCommand result" where
  "add_prefetch_exec_buf base log_page pages dc = add_prefetch (ExecBuf base log_page pages) dc"

definition add_dispatch_set_unicast_only_cores :: "nat list \<Rightarrow> DispatcherSelect \<Rightarrow> DeviceCommand \<Rightarrow> DeviceCommand result" where
  "add_dispatch_set_unicast_only_cores noc_encodings dispatcher_type dc =
     (let data_sizeB = mul32 (length noc_encodings) 4 in
      rbind (add_prefetch_relay_inline True (u32 (sizeof_CQDispatchCmd + length noc_encodings * 4)) dispatcher_type dc) (\<lambda>dc.
      rbind (add_dispatch (SetUnicastOnlyCores (length noc_encodings)) dc) (\<lambda>dc.
      add_data (concat (map (le_bytes 4) noc_encodings)) data_sizeB (align_up data_sizeB (pcie_alignment dc)) dc)))"

definition add_dispatch_set_write_offsets :: "nat \<Rightarrow> nat \<Rightarrow> nat \<Rightarrow> DeviceCommand \<Rightarrow> DeviceCommand result" where
  "add_dispatch_set_write_offsets write_offset0 write_offset1 write_offset2 dc =
     rbind (add_prefetch_relay_inline True sizeof_CQDispatchCmd DISPATCH_MASTER dc) (\<lambda>dc.
     rbind (add_dispatch (SetWriteOffset write_offset0 write_offset1 write_offset2) dc) (\<lambda>dc.
     Inr (align_offset dc)))"

definition add_dispatch_terminate :: "DispatcherSelect \<Rightarrow> DeviceCommand \<Rightarrow> DeviceCommand result" where
  "add_dispatch_terminate dispatcher_type dc =
     rbind (add_prefetch_relay_inline True sizeof_CQDispatchCmd dispatcher_type dc) (\<lambda>dc.
     rbind (add_dispatch (DispatchPlain CQ_DISPATCH_CMD_TERMINATE) dc) (\<lambda>dc.
     Inr (align_offset dc)))"

definition add_prefetch_terminate :: "DeviceCommand \<Rightarrow> DeviceCommand result" where
  "add_prefetch_terminate dc = add_prefetch (PrefetchPlain CQ_PREFETCH_CMD_TERMINATE) dc"

definition add_prefetch_exec_buf_end :: "DeviceCommand \<Rightarrow> DeviceCommand result" where
  "add_prefetch_exec_buf_end dc =
     rbind (reserve_space sizeof_CQPrefetchCmd dc) (\<lambda>(prefetch_dst, dc).
     rbind (reserve_space sizeof_CQDispatchCmd dc) (\<lambda>(dispatch_dst, dc).
     rbind (write_command prefetch_dst (prefetch_fields
              (ExecBufEnd sizeof_CQDispatchCmd (align_up (sizeof_CQDispatchCmd + sizeof_CQPrefetchCmd) (pcie_alignment dc)))) dc) (\<lambda>dc.
     rbind (write_command dispatch_dst (dispatch_fields DispatchExecBufEnd) dc) (\<lambda>dc.
     Inr (align_offset dc)))))"

subsubsection \<open>Packed writes\<close>

text \<open>The template argument \<^verbatim>\<open>PackedSubCmd\<close> is the argument \<open>multicast\<close>; a pointer with its size is a list of bytes.
  Only the first structures are checked against the size of the region: the sub-commands and the data are
  copied without \<^verbatim>\<open>validate_cmd_write\<close>.\<close>

definition sizeof_PackedSubCmd :: "bool \<Rightarrow> nat" where
  "sizeof_PackedSubCmd multicast = (if multicast then 8 else 4)"

definition packed_flags :: "bool \<Rightarrow> bool \<Rightarrow> nat" where
  "packed_flags multicast no_stride = (if multicast then 1 else 0) OR (if no_stride then 2 else 0)"

definition max_packed_sub_cmds :: "bool \<Rightarrow> nat \<Rightarrow> nat" where
  "max_packed_sub_cmds multicast packed_write_max_unicast_sub_cmds =
     (if multicast then get_packed_write_max_multicast_sub_cmds packed_write_max_unicast_sub_cmds
      else packed_write_max_unicast_sub_cmds)"

definition advance_offset :: "nat \<Rightarrow> DeviceCommand \<Rightarrow> DeviceCommand" where
  "advance_offset n dc = dc\<lparr>cmd_write_offsetB := add32 (cmd_write_offsetB dc) n\<rparr>"

definition packed_header :: "error \<Rightarrow> bool \<Rightarrow> nat \<Rightarrow> nat \<Rightarrow> nat \<Rightarrow> nat \<Rightarrow> PackedSubCmd list \<Rightarrow> nat \<Rightarrow> nat \<Rightarrow> bool \<Rightarrow> nat
    \<Rightarrow> DeviceCommand \<Rightarrow> DeviceCommand result" where
  "packed_header e multicast num_sub_cmds common_addr packed_data_sizeB payload_sizeB sub_cmds
       packed_write_max_unicast_sub_cmds offset_idx no_stride write_offset_index dc =
     rbind (check (num_sub_cmds \<le> max_packed_sub_cmds multicast packed_write_max_unicast_sub_cmds) e) (\<lambda>_.
     rbind (add_prefetch_relay_inline True payload_sizeB DISPATCH_MASTER dc) (\<lambda>dc.
     rbind (add_dispatch (WritePacked (packed_flags multicast no_stride) num_sub_cmds write_offset_index common_addr packed_data_sizeB) dc) (\<lambda>dc.
     let sub_cmds_sizeB = mul32 num_sub_cmds (sizeof_PackedSubCmd multicast) in
     rbind (check (offset_idx + num_sub_cmds \<le> length sub_cmds) (Undefined ''vector access out of range'')) (\<lambda>_.
     rbind (dc_memcpy (cmd_region dc + cmd_write_offsetB dc)
              (concat (map packed_bytes (take num_sub_cmds (drop offset_idx sub_cmds)))) dc) (\<lambda>dc.
     Inr (advance_offset (align_up sub_cmds_sizeB (dc_l1_alignment dc)) dc))))))"

definition packed_data_copy :: "8 word list list \<Rightarrow> nat \<Rightarrow> nat \<Rightarrow> DeviceCommand \<Rightarrow> DeviceCommand result" where
  "packed_data_copy data_collection increment_sizeB i dc =
     rbind (check (i < length data_collection) (Undefined ''vector access out of range'')) (\<lambda>_.
     rbind (dc_memcpy (cmd_region dc + cmd_write_offsetB dc) (data_collection ! i) dc) (\<lambda>dc.
     Inr (advance_offset increment_sizeB dc)))"

definition add_dispatch_write_packed :: "bool \<Rightarrow> nat \<Rightarrow> nat \<Rightarrow> nat \<Rightarrow> nat \<Rightarrow> PackedSubCmd list \<Rightarrow> 8 word list list \<Rightarrow> nat \<Rightarrow> nat
    \<Rightarrow> bool \<Rightarrow> nat \<Rightarrow> DeviceCommand \<Rightarrow> DeviceCommand result" where
  "add_dispatch_write_packed multicast num_sub_cmds common_addr packed_data_sizeB payload_sizeB sub_cmds data_collection
       packed_write_max_unicast_sub_cmds offset_idx no_stride write_offset_index dc =
     rbind (packed_header (TT_FATAL ''Max number of packed sub commands'') multicast num_sub_cmds common_addr
              packed_data_sizeB payload_sizeB sub_cmds packed_write_max_unicast_sub_cmds offset_idx no_stride write_offset_index dc) (\<lambda>dc.
     let increment_sizeB = align_up packed_data_sizeB (dc_l1_alignment dc);
         num_data_copies = (if no_stride then 1 else num_sub_cmds)
     in rbind (rfold (packed_data_copy data_collection increment_sizeB) [offset_idx..<offset_idx + num_data_copies] dc) (\<lambda>dc.
        Inr (align_offset dc)))"

definition packed_piece_copy :: "8 word list \<times> nat \<Rightarrow> nat \<times> DeviceCommand \<Rightarrow> (nat \<times> DeviceCommand) result" where
  "packed_piece_copy piece st =
     (let (off, dc) = st; (bytes, stride) = piece in
      rbind (dc_memcpy (cmd_region dc + cmd_write_offsetB dc + off) bytes dc) (\<lambda>dc. Inr (add32 off stride, dc)))"

definition packed_pieces_copy :: "(8 word list \<times> nat) list list \<Rightarrow> nat \<Rightarrow> nat \<Rightarrow> DeviceCommand \<Rightarrow> DeviceCommand result" where
  "packed_pieces_copy data_collection increment_sizeB i dc =
     rbind (check (i < length data_collection) (Undefined ''vector access out of range'')) (\<lambda>_.
     rbind (rfold packed_piece_copy (data_collection ! i) (0, dc)) (\<lambda>(off, dc).
     Inr (advance_offset increment_sizeB dc)))"

definition add_dispatch_write_packed_strided :: "bool \<Rightarrow> nat \<Rightarrow> nat \<Rightarrow> nat \<Rightarrow> nat \<Rightarrow> PackedSubCmd list
    \<Rightarrow> (8 word list \<times> nat) list list \<Rightarrow> nat \<Rightarrow> nat \<Rightarrow> bool \<Rightarrow> nat \<Rightarrow> DeviceCommand \<Rightarrow> DeviceCommand result" where
  "add_dispatch_write_packed_strided multicast num_sub_cmds common_addr packed_data_sizeB payload_sizeB sub_cmds data_collection
       packed_write_max_unicast_sub_cmds offset_idx no_stride write_offset_index dc =
     rbind (packed_header (TT_ASSERT ''Max number of packed sub commands'') multicast num_sub_cmds common_addr
              packed_data_sizeB payload_sizeB sub_cmds packed_write_max_unicast_sub_cmds offset_idx no_stride write_offset_index dc) (\<lambda>dc.
     let increment_sizeB = align_up packed_data_sizeB (dc_l1_alignment dc);
         num_data_copies = (if no_stride then 1 else num_sub_cmds)
     in rbind (rfold (packed_pieces_copy data_collection increment_sizeB) [offset_idx..<offset_idx + num_data_copies] dc) (\<lambda>dc.
        Inr (align_offset dc)))"

definition add_dispatch_write_packed_large :: "nat \<Rightarrow> nat \<Rightarrow> CQDispatchWritePackedLargeSubCmd list \<Rightarrow> nat \<Rightarrow> nat
    \<Rightarrow> DeviceCommand \<Rightarrow> DeviceCommand result" where
  "add_dispatch_write_packed_large alignment num_sub_cmds sub_cmds offset_idx write_offset_index dc =
     rbind (check (num_sub_cmds \<le> CQ_DISPATCH_CMD_PACKED_WRITE_LARGE_MAX_SUB_CMDS) (TT_ASSERT ''Cannot fit sub cmds'')) (\<lambda>_.
     let sub_cmds_sizeB = mul32 num_sub_cmds 12;
         payload_size = align_up (add32 sizeof_CQDispatchCmd sub_cmds_sizeB) (dc_l1_alignment dc) in
     rbind (add_prefetch_relay_inline False payload_size DISPATCH_MASTER dc) (\<lambda>dc.
     let payload_dst_size = sub32 (align_up (add32 sizeof_CQPrefetchCmd payload_size) (pcie_alignment dc)) sizeof_CQPrefetchCmd in
     rbind (reserve_space payload_dst_size dc) (\<lambda>(dst, dc).
     rbind (write_command dst (dispatch_fields (WritePackedLarge num_sub_cmds alignment write_offset_index)) dc) (\<lambda>dc.
     rbind (check (offset_idx + num_sub_cmds \<le> length sub_cmds) (Undefined ''vector access out of range'')) (\<lambda>_.
     rbind (dc_memcpy (dst + sizeof_CQDispatchCmd)
              (concat (map packed_large_bytes (take num_sub_cmds (drop offset_idx sub_cmds)))) dc) (\<lambda>dc.
     Inr (align_offset dc)))))))"

end
