(* ===== verification/Cq_Props.thy ===== *)
theory Cq_Props
  imports Cq_Interface "HOL-Library.Code_Target_Nat"
begin

text \<open>
  Correctness of the command queue interface: rounding up, copying to the device, the layout of a
  queue in the hugepage, the issue queue's pointer, the completion queue's pointer and toggle, and the polling loops.
\<close>

subsection \<open>Rounding up\<close>

lemma or_mask_nat: "(x::nat) OR (2 ^ k - 1) = x div 2 ^ k * 2 ^ k + (2 ^ k - 1)"
proof -
  have "x OR mask k = push_bit k (drop_bit k x) OR mask k"
    by (rule bit_eqI) (auto simp: bit_simps)
  also have "\<dots> = push_bit k (drop_bit k x) + mask k"
    by (rule disjunctive_add [symmetric]) (auto simp: bit_simps)
  finally show ?thesis by (simp add: mask_eq_exp_minus_1 push_bit_eq_mult drop_bit_eq_div)
qed

lemma align_up_eq:
  assumes "a + 2 ^ k \<le> 2 ^ 32"
  shows "align_up a (2 ^ k) = (a + 2 ^ k - 1) div 2 ^ k * 2 ^ k"
proof (cases "a = 0")
  case True
  have k: "(2::nat) ^ k \<le> 2 ^ 32" using assms True by simp
  have k': "k \<le> 32" by (rule power_le_imp_le_exp [OF _ k]) simp
  have "sub32 (2 ^ k) 1 = 2 ^ k - 1"
  proof (cases "k = 32")
    case True
    then show ?thesis by (simp add: wsub_def)
  next
    case False
    then have "(2::nat) ^ k < 2 ^ 32" using k' by (intro power_strict_increasing) auto
    then show ?thesis by (simp add: wsub_id)
  qed
  moreover have "sub32 0 1 = 2 ^ 32 - 1" by (simp add: wsub_def)
  moreover have "(2 ^ 32 - 1) OR (2 ^ k - 1) = (2 ^ 32 - 1 :: nat)"
  proof -
    have "mask 32 OR mask k = (mask 32 :: nat)" using k' by (intro bit_eqI) (auto simp: bit_simps)
    then show ?thesis by (simp add: mask_eq_exp_minus_1)
  qed
  ultimately show ?thesis using True by (simp add: align_up_def wadd_def)
next
  case False
  then have "(2::nat) ^ k < 2 ^ 32" using assms by simp
  moreover have "a < 2 ^ 32" using assms by (simp add: Suc_le_eq less_le_trans [of a "a + 2 ^ k"])
  ultimately have "sub32 (2 ^ k) 1 = 2 ^ k - 1" "sub32 a 1 = a - 1"
    using False by (simp_all add: wsub_id)
  moreover have "(a - 1) div 2 ^ k * 2 ^ k + (2 ^ k - 1) + 1 = (a + 2 ^ k - 1) div 2 ^ k * 2 ^ k"
  proof -
    have "(a + 2 ^ k - 1) div 2 ^ k = ((a - 1) + 1 * 2 ^ k) div 2 ^ k" using False by simp
    also have "\<dots> = 1 + (a - 1) div 2 ^ k" by (rule div_mult_self1) simp
    finally show ?thesis by (simp add: algebra_simps)
  qed
  moreover have "(a + 2 ^ k - 1) div 2 ^ k * 2 ^ k < 2 ^ 32"
  proof -
    have "(a + 2 ^ k - 1) div 2 ^ k * 2 ^ k \<le> a + 2 ^ k - 1" by simp
    then show ?thesis using assms False by linarith
  qed
  moreover have "(a - 1) OR (2 ^ k - 1) = (a - 1) div 2 ^ k * 2 ^ k + (2 ^ k - 1)" by (rule or_mask_nat)
  ultimately show ?thesis unfolding align_up_def by (metis wadd_id)
qed

lemma align_up_bounds:
  assumes "a + 2 ^ k \<le> 2 ^ 32"
  shows "a \<le> align_up a (2 ^ k)" and "align_up a (2 ^ k) < a + 2 ^ k" and "2 ^ k dvd align_up a (2 ^ k)"
    and "\<And>m. 2 ^ k dvd m \<Longrightarrow> a \<le> m \<Longrightarrow> align_up a (2 ^ k) \<le> m"
  using assms ceil_mult_ge [of "2 ^ k" a] ceil_mult_less [of "2 ^ k" a] ceil_mult_least [of "2 ^ k"]
  by (simp_all add: align_up_eq)

subsection \<open>Copying to the device\<close>

lemma store_bytes_append:
  "store_bytes (a + length xs) ys (store_bytes a xs m) = store_bytes a (xs @ ys) m"
  by (auto simp: store_bytes_def fun_eq_iff nth_append)

definition copied :: "8 word list \<Rightarrow> nat \<Rightarrow> mem \<Rightarrow> nat \<Rightarrow> nat \<times> nat \<times> mem" where
  "copied src dst m k = (k, dst + k, store_bytes dst (take k src) m)"

lemma stream_store_copied:
  assumes "dst mod w = 0" and "k mod w = 0" and "k + w \<le> length src"
  shows "stream_store src w (copied src dst m k) = Inr (copied src dst m (k + w))"
proof -
  have "(dst + k) mod w = 0" using assms(1,2) by (metis mod_0 mod_add_eq add_0)
  moreover have "store_bytes (dst + k) (take w (drop k src)) (store_bytes dst (take k src) m) =
      store_bytes dst (take (k + w) src) m"
    using store_bytes_append [of dst "take k src" "take w (drop k src)" m] assms(3)
    by (simp add: take_add min_absorb2)
  ultimately show ?thesis by (simp add: stream_store_def copied_def add.assoc)
qed

lemma stream_lines:
  assumes "dst mod w = 0" and "k mod w = 0" and "k + n * w \<le> length src"
  shows "rfold (\<lambda>i. stream_store src w) [0..<n] (copied src dst m k) = Inr (copied src dst m (k + n * w))"
proof -
  have "\<exists>st. rfold (\<lambda>i. stream_store src w) [0..<n] (copied src dst m k) = Inr st \<and> st = copied src dst m (k + n * w)"
  proof (rule rfold_upt [where I = "\<lambda>i st. st = copied src dst m (k + i * w)"])
    fix i st assume i: "i < n" and st: "st = copied src dst m (k + i * w)"
    have "k + i * w + w \<le> length src" using i assms(3) mult_le_mono1 [of "Suc i" n w] by simp
    moreover have "(k + i * w) mod w = 0" using assms(2) by simp
    ultimately show "\<exists>st'. stream_store src w st = Inr st' \<and> st' = copied src dst m (k + Suc i * w)"
      using stream_store_copied [OF assms(1), of "k + i * w" src m] st by (simp add: algebra_simps)
  qed simp
  then show ?thesis by metis
qed

lemma stream_blocks:
  assumes "dst mod 32 = 0" and "k mod 32 = 0" and "k + n * 256 \<le> length src"
  shows "rfold (\<lambda>i. rfold (\<lambda>j. stream_store src 32) [0..<8]) [0..<n] (copied src dst m k) =
    Inr (copied src dst m (k + n * 256))"
proof -
  let ?f = "\<lambda>i. rfold (\<lambda>j. stream_store src 32) [0..<8]"
  have "\<exists>st. rfold ?f [0..<n] (copied src dst m k) = Inr st \<and> st = copied src dst m (k + n * 256)"
  proof (rule rfold_upt [where I = "\<lambda>i st. st = copied src dst m (k + i * 256)"])
    fix i st assume i: "i < n" and st: "st = copied src dst m (k + i * 256)"
    have "k + i * 256 + 8 * 32 \<le> length src" using i assms(3) mult_le_mono1 [of "Suc i" n 256] by simp
    moreover have "(k + i * 256) mod 32 = 0" using assms(2) by presburger
    ultimately show "\<exists>st'. ?f i st = Inr st' \<and> st' = copied src dst m (k + Suc i * 256)"
      using stream_lines [OF assms(1), of "k + i * 256" 8 src m] st by (simp add: algebra_simps)
  qed simp
  then show ?thesis by metis
qed

lemma stream_lines_fail:
  assumes "dst8 mod w \<noteq> 0" and "0 < n"
  shows "rfold (\<lambda>i. stream_store src w) [0..<n] (src8, dst8, m) = Inl (Undefined ''misaligned streaming store'')"
  using assms by (simp add: upt_conv_Cons stream_store_def)

lemma memcpy_to_device_copies:
  assumes d16: "dst mod 16 = 0" and d: "dst mod 32 = 0 \<or> length src < 32" and n: "length src mod 4 = 0"
  shows "memcpy_to_device dst src m = Inr (store_bytes dst src m)"
proof -
  have d4: "dst mod 4 = 0" using d16 by presburger
  define a where "a = length src div (8 * 32)"
  define r where "r = length src - a * (8 * 32)"
  define b where "b = r div 32"
  define r1 where "r1 = r - b * 32"
  define c where "c = r1 div 16"
  define r2 where "r2 = r1 - c * 16"
  have la: "a * 256 \<le> length src" by (simp add: a_def)
  have lb: "b * 32 \<le> r" by (simp add: b_def)
  have lc: "c * 16 \<le> r1" by (simp add: c_def)
  have sum: "length src = a * 256 + b * 32 + c * 16 + r2" "r = b * 32 + c * 16 + r2" "r1 = c * 16 + r2"
    using la lb lc by (simp_all add: r_def r1_def r2_def c_def)
  have r2: "r2 mod 4 = 0" using n sum(1) by presburger
  have s0: "copied src dst m 0 = (0, dst, m)" by (auto simp: copied_def store_bytes_def fun_eq_iff)
  have s1: "rfold (\<lambda>i. rfold (\<lambda>j. stream_store src 32) [0..<8]) [0..<a] (copied src dst m 0) =
      Inr (copied src dst m (a * 256))"
    using d
  proof
    assume "dst mod 32 = 0"
    then show ?thesis using stream_blocks [of dst 0 a src m] la by simp
  next
    assume "length src < 32"
    then show ?thesis by (simp add: a_def)
  qed
  have s2: "rfold (\<lambda>i. stream_store src 32) [0..<b] (copied src dst m (a * 256)) = Inr (copied src dst m (a * 256 + b * 32))"
    using d
  proof
    assume "dst mod 32 = 0"
    then show ?thesis by (rule stream_lines) (use sum in \<open>presburger | simp\<close>)+
  next
    assume "length src < 32"
    then have "b = 0" by (simp add: b_def r_def a_def)
    then show ?thesis by simp
  qed
  have s3: "rfold (\<lambda>i. stream_store src 16) [0..<c] (copied src dst m (a * 256 + b * 32)) =
      Inr (copied src dst m (a * 256 + b * 32 + c * 16))"
    by (rule stream_lines [OF d16]) (use sum in \<open>presburger | simp\<close>)+
  have s4: "rfold (\<lambda>i. stream_store src 4) [0..<r2 div 4] (copied src dst m (a * 256 + b * 32 + c * 16)) =
      Inr (copied src dst m (a * 256 + b * 32 + c * 16 + r2 div 4 * 4))"
    by (rule stream_lines [OF d4]) (use sum r2 in \<open>presburger | simp\<close>)+
  have r24: "r2 div 4 * 4 = r2" using r2 by presburger
  have "(if r > 0 then
         rbind (rfold (\<lambda>i. stream_store src 32) [0..<b] (copied src dst m (a * 256))) (\<lambda>st.
         rbind (rfold (\<lambda>i. stream_store src 16) [0..<c] st) (\<lambda>st.
         if r2 > 0 then rfold (\<lambda>i. stream_store src 4) [0..<r2 div 4] st else Inr st))
       else Inr (copied src dst m (a * 256))) = Inr (copied src dst m (length src))"
    using s2 s3 s4 r24 sum by (auto simp: add.assoc)
  then have rest: "rbind (if r > 0 then
         rbind (rfold (\<lambda>i. stream_store src 32) [0..<b] (copied src dst m (a * 256))) (\<lambda>st.
         rbind (rfold (\<lambda>i. stream_store src 16) [0..<c] st) (\<lambda>st.
         if r2 > 0 then rfold (\<lambda>i. stream_store src 4) [0..<r2 div 4] st else Inr st))
       else Inr (copied src dst m (a * 256))) (\<lambda>(src8, dst8, m). Inr m) = Inr (store_bytes dst src m)"
    by (simp only: rbind_Inr) (simp add: copied_def)
  show ?thesis
    unfolding memcpy_to_device_def Let_def a_def [symmetric] r_def [symmetric] b_def [symmetric] r1_def [symmetric]
      c_def [symmetric] r2_def [symmetric] s0 [symmetric] d16 n
    by (simp only: s1 rest rbind_Inr check_True simp_thms)
qed

lemma memcpy_to_device_misaligned:
  assumes "dst mod 32 = 16" and "length src mod 4 = 0" and "32 \<le> length src"
  shows "memcpy_to_device dst src m = Inl (Undefined ''misaligned streaming store'')"
proof -
  have d16: "dst mod 16 = 0" using assms(1) by presburger
  show ?thesis
  proof (cases "256 \<le> length src")
    case True
    then have "0 < length src div 256" by (simp add: div_greater_zero_iff)
    then show ?thesis using assms d16 by (simp add: memcpy_to_device_def Let_def upt_conv_Cons stream_store_def)
  next
    case False
    then have "length src div 256 = 0" by simp
    moreover have "0 < length src div 32" using assms by (simp add: div_greater_zero_iff)
    moreover have "src \<noteq> []" using assms by auto
    ultimately show ?thesis using assms d16 stream_lines_fail [of dst 32 "length src div 32" src 0 m]
      by (simp add: memcpy_to_device_def Let_def)
  qed
qed

lemma memcpy_to_device_Inr:
  assumes "memcpy_to_device dst src m = Inr m'"
  shows "m' = store_bytes dst src m"
proof -
  have c: "dst mod 16 = 0" "length src mod 4 = 0"
    using assms by (auto simp: memcpy_to_device_def Let_def rbind_eq_Inr)
  have "dst mod 32 = 0 \<or> length src < 32"
  proof (rule ccontr)
    assume "\<not> (dst mod 32 = 0 \<or> length src < 32)"
    then have "dst mod 32 = 16" "32 \<le> length src" using c(1) by presburger+
    then show False using memcpy_to_device_misaligned [of dst src m] assms c(2) by simp
  qed
  then show ?thesis using memcpy_to_device_copies [OF c(1) _ c(2), of m] assms by simp
qed

text \<open>(C38) Copying to the device.  The staged copy (blocks of eight 32-byte stores, then single 32-byte, 16-byte
  and 4-byte stores) stores exactly the source bytes at the destination, whatever the length, when the destination is
  a multiple of 32 and the length a multiple of 4.  Another length is refused, and so is a destination that is not a
  multiple of 16; a destination that is a multiple of 16 only passes the assertion and
  executes a misaligned 32-byte store as soon as 32 bytes are copied.\<close>

theorem memcpy_to_device_correct:
  "(dst mod 32 = 0 \<and> length src mod 4 = 0 \<longrightarrow> memcpy_to_device dst src m = Inr (store_bytes dst src m)) \<and>
   (length src mod 4 \<noteq> 0 \<or> dst mod 16 \<noteq> 0 \<longrightarrow> (\<exists>msg. memcpy_to_device dst src m = Inl (TT_ASSERT msg))) \<and>
   (dst mod 32 = 16 \<and> length src mod 4 = 0 \<and> 32 \<le> length src \<longrightarrow>
     memcpy_to_device dst src m = Inl (Undefined ''misaligned streaming store''))"
proof (intro conjI impI)
  assume "dst mod 32 = 0 \<and> length src mod 4 = 0"
  then show "memcpy_to_device dst src m = Inr (store_bytes dst src m)" by (intro memcpy_to_device_copies) presburger+
next
  assume "length src mod 4 \<noteq> 0 \<or> dst mod 16 \<noteq> 0"
  then show "\<exists>msg. memcpy_to_device dst src m = Inl (TT_ASSERT msg)"
    by (cases "dst mod 16 = 0") (simp_all add: memcpy_to_device_def check_def)
next
  assume a: "dst mod 32 = 16 \<and> length src mod 4 = 0 \<and> 32 \<le> length src"
  then show "memcpy_to_device dst src m = Inl (Undefined ''misaligned streaming store'')"
    by (simp add: memcpy_to_device_misaligned)
qed

theorem memcpy_to_device_correct_witness:
  "memcpy_to_device 64 (replicate 300 7) (\<lambda>_. 0) = Inr (store_bytes 64 (replicate 300 7) (\<lambda>_. 0)) \<and>
   (\<exists>msg. memcpy_to_device 64 [1, 2, 3] (\<lambda>_. 0) = Inl (TT_ASSERT msg)) \<and>
   memcpy_to_device 48 (replicate 32 7) (\<lambda>_. 0) = Inl (Undefined ''misaligned streaming store'')"
  using memcpy_to_device_correct [of 64 "replicate 300 7" "\<lambda>_. 0"] memcpy_to_device_correct [of 64 "[1, 2, 3]" "\<lambda>_. 0"]
    memcpy_to_device_correct [of 48 "replicate 32 7" "\<lambda>_. 0"]
  by simp

subsection \<open>The layout of a queue\<close>

lemma get_absolute_cq_offset_eq:
  assumes "2 ^ 30 * (channel mod 4) + channel div 4 * 2 ^ 28 + cq_id * cq_size < 2 ^ 32"
  shows "get_absolute_cq_offset channel cq_id cq_size = 2 ^ 30 * (channel mod 4) + channel div 4 * 2 ^ 28 + cq_id * cq_size"
proof -
  have umd: "get_umd_channel channel = channel mod 4"
    using take_bit_eq_mask [of 2 channel] by (simp add: get_umd_channel_def take_bit_eq_mod mask_eq_exp_minus_1)
  have "drop_bit 2 channel = channel div 4" by (simp add: drop_bit_eq_div)
  then show ?thesis
    using assms umd
    by (simp add: get_absolute_cq_offset_def get_relative_cq_offset_def MAX_HUGEPAGE_SIZE_def MAX_DEV_CHANNEL_SIZE_def
        wmul_id wadd_id)
qed

lemma drop_bit_mult: "2 ^ k dvd n \<Longrightarrow> j \<le> k \<Longrightarrow> 2 ^ j * drop_bit j n = (n::nat)"
  by (metis drop_bit_eq_div dvd_mult_div_cancel dvd_trans le_imp_power_dvd)

lemma drop_bit_4: "2 ^ k dvd n \<Longrightarrow> 4 \<le> k \<Longrightarrow> 16 * drop_bit 4 n = (n::nat)"
  using drop_bit_mult [of k n 4] by simp

text \<open>The invariant of a queue: its issue region and its completion region follow each other, every pointer is
  inside its region and aligned.\<close>

definition issue_start :: "SystemMemoryCQInterface \<Rightarrow> nat" where
  "issue_start cq = cq_start cq + cq_offset cq"

definition cq_ok :: "Hal_params \<Rightarrow> SystemMemoryCQInterface \<Rightarrow> bool" where
  "cq_ok hal cq \<longleftrightarrow> (\<exists>k. host_alignment hal = 2 ^ k \<and> 4 \<le> k \<and> k \<le> 12 \<and>
     2 ^ k dvd issue_start cq \<and> 2 ^ k dvd 16 * issue_fifo_limit cq \<and> 2 ^ k dvd 16 * issue_fifo_wr_ptr cq \<and>
     issue_start cq \<le> 16 * issue_fifo_wr_ptr cq \<and> issue_fifo_wr_ptr cq < issue_fifo_limit cq \<and>
     issue_start cq + 3 * (16 * completion_fifo_size cq) \<le> 16 * issue_fifo_limit cq \<and>
     issue_fifo_limit cq + completion_fifo_size cq = completion_fifo_limit cq \<and>
     0 < completion_fifo_size cq \<and> 256 dvd completion_fifo_size cq \<and> 16 * completion_fifo_limit cq \<le> 2 ^ 32 \<and>
     issue_fifo_limit cq \<le> completion_fifo_rd_ptr cq \<and> completion_fifo_rd_ptr cq < completion_fifo_limit cq \<and>
     256 dvd completion_fifo_rd_ptr cq - issue_fifo_limit cq)"

lemma new_cq_layout:
  assumes k: "host_alignment hal = 2 ^ k" "4 \<le> k" "k \<le> 12"
    and dvd: "2 ^ k dvd start" "2 ^ k dvd cq_size"
    and sz: "start + 16384 \<le> cq_size" "cq_size < 2 ^ 32"
    and base: "base = 2 ^ 30 * (channel mod 4) + channel div 4 * 2 ^ 28"
    and fits: "base + (cq_id + 1) * cq_size \<le> 2 ^ 32"
  shows "\<exists>cq. new_SystemMemoryCQInterface hal channel cq_id cq_size start = Inr cq \<and> cq_ok hal cq \<and>
    cq_offset cq = base + cq_id * cq_size \<and> cq_start cq = start \<and>
    16 * issue_fifo_wr_ptr cq = base + cq_id * cq_size + start \<and>
    16 * completion_fifo_limit cq = base + (cq_id + 1) * cq_size \<and>
    completion_fifo_rd_ptr cq = issue_fifo_limit cq \<and> \<not> issue_fifo_wr_toggle cq \<and> \<not> completion_fifo_rd_toggle cq"
proof -
  define off where "off = base + cq_id * cq_size"
  define avail where "avail = cq_size - start"
  define c where "c = avail div 4096 div 4 * 4096"
  have off32: "off + cq_size \<le> 2 ^ 32" using fits by (simp add: off_def algebra_simps)
  have off: "get_absolute_cq_offset channel cq_id cq_size = off"
    using get_absolute_cq_offset_eq [of channel cq_id cq_size] off32 sz by (simp add: base off_def)
  have av: "sub32 cq_size start = avail" using sz by (simp add: avail_def wsub_id)
  have c: "4 * c \<le> avail" "4096 \<le> c" using sz by (auto simp: c_def avail_def)
  have c4096: "4096 dvd c" by (simp add: c_def)
  have k12: "(2::nat) ^ k dvd 4096" using le_imp_power_dvd [OF k(3), of "2::nat"] by simp
  have p16: "(16::nat) dvd 2 ^ k" using le_imp_power_dvd [OF k(2), of "2::nat"] by simp
  have kc: "2 ^ k dvd c" using k12 c4096 by (rule dvd_trans)
  have kavail: "2 ^ k dvd avail" using dvd by (simp add: avail_def dvd_diff_nat)
  have kissue: "2 ^ k dvd avail - c" using kavail kc by (simp add: dvd_diff_nat)
  have kbase: "2 ^ k dvd base"
  proof -
    have "(2::nat) ^ k dvd 2 ^ 30" "(2::nat) ^ k dvd 2 ^ 28" by (rule le_imp_power_dvd, use k(3) in simp)+
    then show ?thesis unfolding base by (intro dvd_add) (simp_all add: dvd_mult dvd_mult2)
  qed
  have koff: "2 ^ k dvd off" using kbase dvd(2) by (simp add: off_def)
  have m1: "mul32 (avail div 4096 div 4) 4096 = c"
  proof -
    have "c < 2 ^ 32" using c sz by (simp add: avail_def)
    then show ?thesis unfolding c_def by (rule wmul_id)
  qed
  have s1: "sub32 avail c = avail - c" using c sz by (simp add: avail_def wsub_id)
  have lim: "start + (avail - c) + off < 2 ^ 32" "start + (avail - c) + off = off + cq_size - c"
    using off32 c sz by (simp_all add: avail_def)
  have a1: "add32 start (avail - c) = start + (avail - c)" "add32 (start + (avail - c)) off = start + (avail - c) + off"
    "add32 start off = start + off"
    using lim by (simp_all add: wadd_id)
  define L where "L = drop_bit 4 (start + (avail - c) + off)"
  define C where "C = drop_bit 4 c"
  define W where "W = drop_bit 4 (start + off)"
  have kL: "2 ^ k dvd start + (avail - c) + off" using dvd(1) kissue koff by (intro dvd_add)
  have kW: "2 ^ k dvd start + off" using dvd(1) koff by (intro dvd_add)
  have L: "16 * L = off + cq_size - c"
    using drop_bit_4 [OF kL k(2)] lim(2) by (simp add: L_def)
  have C: "16 * C = c" using drop_bit_4 [OF kc k(2)] by (simp add: C_def)
  have W: "16 * W = start + off" using drop_bit_4 [OF kW k(2)] by (simp add: W_def)
  have LC: "L + C < 2 ^ 32" "16 * (L + C) = off + cq_size" using L C off32 c sz by (simp_all add: avail_def)
  have a2: "add32 L C = L + C" using LC by (simp add: wadd_id)
  have pos: "0 < c" "0 < L" using c L sz by (simp_all add: avail_def)
  have modk: "c mod 2 ^ k = 0" "(avail - c) mod 2 ^ k = 0" using kc kissue by simp_all
  define cq where "cq = \<lparr>cq_start = start, command_completion_region_size = c, command_issue_region_size = avail - c,
    cq_number = cq_id, issue_fifo_size = drop_bit 4 (avail - c), issue_fifo_limit = L, cq_offset = off,
    issue_fifo_wr_ptr = W, issue_fifo_wr_toggle = False, completion_fifo_size = C, completion_fifo_limit = L + C,
    completion_fifo_rd_ptr = L, completion_fifo_rd_toggle = False\<rparr>"
  have new: "new_SystemMemoryCQInterface hal channel cq_id cq_size start = Inr cq"
    using pos modk
    by (simp add: new_SystemMemoryCQInterface_def Let_def TRANSFER_PAGE_SIZE_def av m1 s1 off a1 a2 k(1) cq_def
        flip: L_def C_def W_def)
  have c256: "256 dvd C"
  proof -
    have "16 * 256 dvd 16 * C" using c4096 C by simp
    then show ?thesis by (simp only: nat_mult_dvd_cancel1 [of 16])
  qed
  have "2 ^ k dvd 16 * L" using L kc koff dvd(2) by (simp add: dvd_diff_nat)
  moreover have "2 ^ k dvd start + off" using dvd(1) koff by simp
  moreover have "W < L" using W L c sz by (simp add: avail_def)
  moreover have "start + off + 3 * c \<le> off + cq_size - c" using c sz by (simp add: avail_def)
  moreover have "0 < C" using C pos by simp
  ultimately have "cq_ok hal cq"
    using k L C W LC c256 off32 unfolding cq_ok_def issue_start_def by (intro exI [of _ k]) (simp add: cq_def)
  then show ?thesis
    using new W LC by (intro exI [of _ cq]) (simp add: cq_def off_def algebra_simps)
qed

subsection \<open>The issue queue\<close>

definition cqs_ok :: "Hal_params \<Rightarrow> SystemMemoryManager \<Rightarrow> bool" where
  "cqs_ok hal m \<longleftrightarrow> list_all (cq_ok hal) (cq_interfaces m)"

lemma cqs_okD: "cqs_ok hal m \<Longrightarrow> i < length (cq_interfaces m) \<Longrightarrow> cq_ok hal (cq_interfaces m ! i)"
  by (simp add: cqs_ok_def list_all_length)

lemma cqs_ok_set_cq: "cqs_ok hal m \<Longrightarrow> cq_ok hal cq \<Longrightarrow> cqs_ok hal (set_cq i cq m)"
  unfolding cqs_ok_def set_cq_def list_all_iff using set_update_subset_insert [of "cq_interfaces m" i cq] by auto

lemma set_cq_simps [simp]:
  "length (cq_interfaces (set_cq i cq m)) = length (cq_interfaces m)"
  "i < length (cq_interfaces m) \<Longrightarrow> cq_interfaces (set_cq i cq m) ! i = cq"
  "bypass_enable (set_cq i cq m) = bypass_enable m"
  "cq_sysmem_start (set_cq i cq m) = cq_sysmem_start m"
  "channel_offset (set_cq i cq m) = channel_offset m"
  "device_io (set_cq i cq m) = device_io m"
  "completion_byte_addrs (set_cq i cq m) = completion_byte_addrs m"
  "mgr_cq_size (set_cq i cq m) = mgr_cq_size m"
  by (simp_all add: set_cq_def)

lemma in_vector_eq: "in_vector i xs = Inr x \<longleftrightarrow> i < length xs \<and> x = xs ! i"
  by (auto simp: in_vector_def)

lemma in_vector_less [simp]: "i < length xs \<Longrightarrow> in_vector i xs = Inr (xs ! i)"
  by (simp add: in_vector_def)

text \<open>What a queue's invariant says without the exponent of the alignment.\<close>

lemma cq_ok_facts:
  assumes "cq_ok hal cq"
  shows "16 * drop_bit 4 (issue_start cq) = issue_start cq" and "16 * issue_fifo_limit cq < 2 ^ 32"
    and "16 * issue_fifo_wr_ptr cq < 2 ^ 32" and "add32 (cq_start cq) (cq_offset cq) = issue_start cq"
    and "16 * completion_fifo_rd_ptr cq < 2 ^ 32" and "16 * completion_fifo_limit cq \<le> 2 ^ 32"
    and "issue_start cq < 16 * issue_fifo_limit cq"
proof -
  obtain k where k: "2 ^ k dvd issue_start cq" "4 \<le> k" using assms by (auto simp: cq_ok_def)
  show "16 * drop_bit 4 (issue_start cq) = issue_start cq" using drop_bit_4 [OF k] .
  show "16 * issue_fifo_limit cq < 2 ^ 32" "16 * issue_fifo_wr_ptr cq < 2 ^ 32" "16 * completion_fifo_rd_ptr cq < 2 ^ 32"
    "16 * completion_fifo_limit cq \<le> 2 ^ 32" "issue_start cq < 16 * issue_fifo_limit cq"
    using assms by (auto simp: cq_ok_def)
  then show "add32 (cq_start cq) (cq_offset cq) = issue_start cq"
    by (simp add: issue_start_def wadd_id)
qed

definition wrapped :: "SystemMemoryCQInterface \<Rightarrow> SystemMemoryCQInterface" where
  "wrapped cq = cq\<lparr>issue_fifo_wr_ptr := drop_bit 4 (issue_start cq), issue_fifo_wr_toggle := \<not> issue_fifo_wr_toggle cq\<rparr>"

lemma cq_ok_wrapped: "cq_ok hal cq \<Longrightarrow> cq_ok hal (wrapped cq)"
  using cq_ok_facts(1,7) [of hal cq] unfolding cq_ok_def
  by (auto simp: wrapped_def issue_start_def)

lemma wrap_issue_eq:
  assumes "cq_id < length (cq_interfaces m)" and "cq_ok hal (cq_interfaces m ! cq_id)" and "\<not> bypass_enable m"
  shows "wrap_issue_queue_wr_ptr cq_id m = Inr (set_cq cq_id (wrapped (cq_interfaces m ! cq_id)) m)"
  using assms cq_ok_facts(4) [OF assms(2)] by (simp add: wrap_issue_queue_wr_ptr_def wrapped_def)

lemma issue_queue_reserve_spec:
  assumes i: "cq_id < length (cq_interfaces m)" and ok: "cq_ok hal (cq_interfaces m ! cq_id)" and b: "\<not> bypass_enable m"
  shows "\<exists>a cq. issue_queue_reserve hal sz cq_id m =
      Inr (Hugepage (cq_sysmem_start m + sub32 a (channel_offset m)), set_cq cq_id cq m) \<and>
    a = 16 * issue_fifo_wr_ptr cq \<and>
    cq = (if add32 (16 * issue_fifo_wr_ptr (cq_interfaces m ! cq_id)) (align_up sz (host_alignment hal))
             > 16 * issue_fifo_limit (cq_interfaces m ! cq_id)
          then wrapped (cq_interfaces m ! cq_id) else cq_interfaces m ! cq_id)"
proof -
  define cq where "cq = cq_interfaces m ! cq_id"
  have ok': "cq_ok hal cq" "cq_ok hal (wrapped cq)" using ok cq_ok_wrapped by (simp_all add: cq_def)
  have p: "get_issue_queue_write_ptr cq_id m = Inr (16 * issue_fifo_wr_ptr cq)"
    using i b cq_ok_facts(3) [OF ok'(1)] by (simp add: get_issue_queue_write_ptr_def cq_def push_bit_eq_mult wcast_id mult.commute)
  have l: "get_issue_queue_limit cq_id m = Inr (16 * issue_fifo_limit cq)"
    using i cq_ok_facts(2) [OF ok'(1)] by (simp add: get_issue_queue_limit_def cq_def push_bit_eq_mult wcast_id mult.commute)
  have w: "wrap_issue_queue_wr_ptr cq_id m = Inr (set_cq cq_id (wrapped cq) m)"
    using wrap_issue_eq [OF i ok b] by (simp add: cq_def)
  have p2: "get_issue_queue_write_ptr cq_id (set_cq cq_id (wrapped cq) m) = Inr (16 * issue_fifo_wr_ptr (wrapped cq))"
    using i b cq_ok_facts(3) [OF ok'(2)] by (simp add: get_issue_queue_write_ptr_def push_bit_eq_mult wcast_id mult.commute)
  have same: "set_cq cq_id cq m = m" by (simp add: set_cq_def cq_def)
  show ?thesis
    using b p l w p2 same by (auto simp: issue_queue_reserve_def simp flip: cq_def)
qed

lemma issue_queue_push_back_spec:
  assumes i: "cq_id < length (cq_interfaces m)" and ok: "cq_ok hal (cq_interfaces m ! cq_id)" and b: "\<not> bypass_enable m"
    and sz: "sz + host_alignment hal \<le> 2 ^ 32"
  shows "\<exists>cq io. issue_queue_push_back hal sz cq_id m = Inr (set_cq cq_id cq m\<lparr>device_io := io\<rparr>) \<and> cq_ok hal cq \<and>
    issue_start cq = issue_start (cq_interfaces m ! cq_id) \<and> issue_fifo_limit cq = issue_fifo_limit (cq_interfaces m ! cq_id) \<and>
    16 * issue_fifo_wr_ptr cq =
      (let e = 16 * issue_fifo_wr_ptr (cq_interfaces m ! cq_id) + align_up sz (host_alignment hal)
       in if e < 16 * issue_fifo_limit (cq_interfaces m ! cq_id) then e else issue_start (cq_interfaces m ! cq_id))"
proof -
  define cq where "cq = cq_interfaces m ! cq_id"
  have okc: "cq_ok hal cq" using ok by (simp add: cq_def)
  obtain k where k: "host_alignment hal = 2 ^ k" "4 \<le> k" and al: "2 ^ k dvd 16 * issue_fifo_wr_ptr cq"
    using okc by (auto simp: cq_ok_def)
  define n where "n = drop_bit 4 (align_up sz (host_alignment hal))"
  have ad: "2 ^ k dvd align_up sz (2 ^ k)" using align_up_bounds(3) sz k(1) by simp
  have n: "16 * n = align_up sz (host_alignment hal)" using drop_bit_4 [OF ad k(2)] by (simp add: n_def k(1))
  have an: "align_up sz (host_alignment hal) < 2 ^ 32" unfolding align_up_def by (rule wadd_less)
  note f = cq_ok_facts [OF okc]
  have add: "add32 (issue_fifo_wr_ptr cq) n = issue_fifo_wr_ptr cq + n" using f(3) n an by (intro wadd_id) linarith
  define cq2 where "cq2 = (if issue_fifo_wr_ptr cq + n < issue_fifo_limit cq
     then cq\<lparr>issue_fifo_wr_ptr := issue_fifo_wr_ptr cq + n\<rparr> else wrapped cq)"
  have "cq_ok hal (cq\<lparr>issue_fifo_wr_ptr := issue_fifo_wr_ptr cq + n\<rparr>)" if "issue_fifo_wr_ptr cq + n < issue_fifo_limit cq"
  proof -
    have "2 ^ k dvd 16 * (issue_fifo_wr_ptr cq + n)" using al ad n k(1) by (simp add: distrib_left)
    then show ?thesis using okc that k(1) unfolding cq_ok_def
      by (auto simp: issue_start_def power_inject_exp intro!: exI [of _ k])
  qed
  then have ok2: "cq_ok hal cq2" using cq_ok_wrapped [OF okc] by (simp add: cq2_def)
  have ptr: "16 * issue_fifo_wr_ptr cq2 = (if 16 * issue_fifo_wr_ptr cq + align_up sz (host_alignment hal) < 16 * issue_fifo_limit cq
      then 16 * issue_fifo_wr_ptr cq + align_up sz (host_alignment hal) else issue_start cq)"
    using f(1) n by (auto simp: cq2_def wrapped_def)
  have same: "issue_start cq2 = issue_start cq" "issue_fifo_limit cq2 = issue_fifo_limit cq"
    by (simp_all add: cq2_def wrapped_def issue_start_def)
  have "\<exists>io. issue_queue_push_back hal sz cq_id m = Inr (set_cq cq_id cq2 m\<lparr>device_io := io\<rparr>)"
    using i b add f(4) by (auto simp: issue_queue_push_back_def Let_def cq2_def wrapped_def not_less simp flip: cq_def n_def)
  then show ?thesis using ok2 ptr same by (auto simp: Let_def simp flip: cq_def)
qed

subsection \<open>The completion queue\<close>

text \<open>The abstract state of the completion queue is a number: how many pages have been popped, or, on the device's
  side, written, since the queue was reset.  The 31-bit pointer and the toggle bit of the code are that number's
  position in the ring and the parity of its number of turns.\<close>

definition completion_pages :: "SystemMemoryCQInterface \<Rightarrow> nat" where
  "completion_pages cq = completion_fifo_size cq div 256"

definition completion_pos :: "SystemMemoryCQInterface \<Rightarrow> nat \<Rightarrow> nat" where
  "completion_pos cq c = issue_fifo_limit cq + 256 * (c mod completion_pages cq)"

definition completion_view :: "SystemMemoryCQInterface \<Rightarrow> nat \<Rightarrow> bool" where
  "completion_view cq c \<longleftrightarrow> completion_fifo_rd_ptr cq = completion_pos cq c \<and>
     completion_fifo_rd_toggle cq = odd (c div completion_pages cq)"

definition completion_word :: "SystemMemoryCQInterface \<Rightarrow> nat \<Rightarrow> nat" where
  "completion_word cq c = completion_pos cq c + 2 ^ 31 * of_bool (odd (c div completion_pages cq))"

lemma completion_pages_pos:
  assumes "cq_ok hal cq"
  shows "0 < completion_pages cq" and "256 * completion_pages cq = completion_fifo_size cq"
  using assms by (auto simp: cq_ok_def completion_pages_def dvd_div_eq_0_iff elim!: dvdE)

lemma completion_pos_less:
  assumes "cq_ok hal cq"
  shows "completion_pos cq c < completion_fifo_limit cq" and "completion_pos cq c < 2 ^ 28"
proof -
  have "c mod completion_pages cq + 1 \<le> completion_pages cq"
    using completion_pages_pos(1) [OF assms] by (simp add: Suc_leI)
  then have "256 * (c mod completion_pages cq) + 256 \<le> completion_fifo_size cq"
    using completion_pages_pos(2) [OF assms] by linarith
  moreover have "issue_fifo_limit cq + completion_fifo_size cq = completion_fifo_limit cq" "16 * completion_fifo_limit cq \<le> 2 ^ 32"
    using assms by (auto simp: cq_ok_def)
  ultimately show "completion_pos cq c < completion_fifo_limit cq" "completion_pos cq c < 2 ^ 28"
    by (auto simp: completion_pos_def)
qed

lemma completion_word_fields:
  assumes "cq_ok hal cq"
  shows "completion_word cq c AND 0x7fffffff = completion_pos cq c"
    and "drop_bit 31 (completion_word cq c) = of_bool (odd (c div completion_pages cq))"
proof -
  have less: "completion_pos cq c < 2 ^ 31" using completion_pos_less(2) [OF assms, of c] by simp
  have "completion_word cq c AND mask 31 = completion_word cq c mod 2 ^ 31"
    by (simp flip: take_bit_eq_mask add: take_bit_eq_mod)
  also have "\<dots> = completion_pos cq c" using less by (simp add: completion_word_def mod_add_right_eq)
  finally show "completion_word cq c AND 0x7fffffff = completion_pos cq c" by (simp add: mask_eq_exp_minus_1)
  show "drop_bit 31 (completion_word cq c) = of_bool (odd (c div completion_pages cq))"
    using less by (simp add: completion_word_def drop_bit_eq_div)
qed

lemma completion_word_or:
  assumes "cq_ok hal cq"
  shows "completion_pos cq c OR u32 (push_bit 31 (of_bool (odd (c div completion_pages cq)))) = completion_word cq c"
proof -
  have less: "completion_pos cq c < 2 ^ 31" using completion_pos_less(2) [OF assms, of c] by simp
  have t: "take_bit 31 (completion_pos cq c) = completion_pos cq c"
    using less by (simp add: take_bit_nat_eq_self_iff)
  have d: "completion_pos cq c OR push_bit 31 b = completion_pos cq c + push_bit 31 b" for b :: nat
  proof (rule disjunctive_add [symmetric])
    fix n show "\<not> bit (completion_pos cq c) n \<or> \<not> bit (push_bit 31 b) n"
      by (subst t [symmetric]) (auto simp: bit_simps)
  qed
  show ?thesis
  proof (cases "odd (c div completion_pages cq)")
    case True
    have "u32 (push_bit 31 1) = push_bit 31 1" by (simp add: wcast_def push_bit_eq_mult)
    then show ?thesis using True d [of 1] by (simp add: completion_word_def push_bit_eq_mult)
  next
    case False
    then show ?thesis by (simp add: completion_word_def wcast_def)
  qed
qed

lemma completion_count_unique:
  assumes ok: "cq_ok hal cq" and le: "c \<le> w" "w \<le> c + completion_pages cq"
  shows "completion_pos cq w = completion_pos cq c \<and> odd (w div completion_pages cq) = odd (c div completion_pages cq) \<longleftrightarrow> w = c"
proof -
  define n where "n = completion_pages cq"
  have n: "0 < n" using completion_pages_pos(1) [OF ok] by (simp add: n_def)
  have "w = c" if m: "w mod n = c mod n" and d: "odd (w div n) = odd (c div n)"
  proof (rule ccontr)
    assume ne: "w \<noteq> c"
    have "n dvd w - c" using m le(1) by (simp add: mod_eq_dvd_iff_nat)
    then have "n \<le> w - c" using ne le(1) by (intro dvd_imp_le) auto
    then have "w = c + n" using le by (simp add: n_def)
    then show False using d n div_add_self2 [of n c] by simp
  qed
  then show ?thesis by (auto simp: completion_pos_def n_def)
qed

lemma send_completion_eq:
  assumes i: "cq_id < length (cq_interfaces m)" "cq_id < length (completion_byte_addrs m)"
    and ok: "cq_ok hal (cq_interfaces m ! cq_id)" and view: "completion_view (cq_interfaces m ! cq_id) c"
  shows "send_completion_queue_read_ptr hal cq_id m = Inr (m\<lparr>device_io := device_io m @
    [Fast_write (completion_byte_addrs m ! cq_id) (completion_word (cq_interfaces m ! cq_id) c),
     Sysmem_write (add32 (get_host_command_queue_addr hal HOST_COMPLETION_Q_RD) (get_relative_cq_offset cq_id (mgr_cq_size m)))
       (completion_word (cq_interfaces m ! cq_id) c)]\<rparr>)"
  using i view completion_word_or [OF ok, of c]
  by (simp add: send_completion_queue_read_ptr_def completion_view_def Let_def)

lemma div_mod_step:
  fixes c n N :: nat
  assumes "0 < N" and "c mod N + n \<le> N"
  shows "(c + n) mod N = (if c mod N + n = N then 0 else c mod N + n)"
    and "(c + n) div N = (if c mod N + n = N then Suc (c div N) else c div N)"
proof -
  have "(c + n) mod N = (c mod N + n) mod N" by (simp add: mod_add_left_eq)
  then show "(c + n) mod N = (if c mod N + n = N then 0 else c mod N + n)" using assms by auto
  have "(c + n) div N = (c mod N + n + c div N * N) div N" by (simp add: algebra_simps)
  also have "\<dots> = c div N + (c mod N + n) div N" using assms(1) by (subst div_mult_self1) auto
  finally show "(c + n) div N = (if c mod N + n = N then Suc (c div N) else c div N)" using assms by auto
qed

lemma pop_front_view:
  assumes i: "cq_id < length (cq_interfaces m)" "cq_id < length (completion_byte_addrs m)"
    and ok: "cq_ok hal (cq_interfaces m ! cq_id)" and view: "completion_view (cq_interfaces m ! cq_id) c"
    and n: "n \<le> completion_pages (cq_interfaces m ! cq_id) - c mod completion_pages (cq_interfaces m ! cq_id)"
  shows "\<exists>cq io. completion_queue_pop_front hal n cq_id m =
      Inr (set_cq cq_id cq m\<lparr>device_io := device_io m @
        [Fast_write (completion_byte_addrs m ! cq_id) (completion_word cq (c + n)), io]\<rparr>) \<and>
    cq_ok hal cq \<and> completion_view cq (c + n) \<and> completion_pages cq = completion_pages (cq_interfaces m ! cq_id) \<and>
    issue_fifo_limit cq = issue_fifo_limit (cq_interfaces m ! cq_id)"
proof -
  define cq where "cq = cq_interfaces m ! cq_id"
  define N where "N = completion_pages cq"
  have okc: "cq_ok hal cq" and v: "completion_view cq c" using ok view by (simp_all add: cq_def)
  have N: "0 < N" "256 * N = completion_fifo_size cq" using completion_pages_pos [OF okc] by (simp_all add: N_def)
  have lim: "issue_fifo_limit cq + completion_fifo_size cq = completion_fifo_limit cq" "16 * completion_fifo_limit cq \<le> 2 ^ 32"
    using okc by (auto simp: cq_ok_def)
  have nN: "n \<le> N - c mod N" using n by (simp add: N_def cq_def)
  have cN: "c mod N < N" using N(1) by simp
  have rd: "completion_fifo_rd_ptr cq = issue_fifo_limit cq + 256 * (c mod N)" "completion_fifo_rd_toggle cq = odd (c div N)"
    using v by (simp_all add: completion_view_def completion_pos_def N_def)
  have n32: "n * 4096 < 2 ^ 32" using nN N(2) lim cN okc by (auto simp: cq_ok_def)
  have words: "drop_bit 4 (mul32 n TRANSFER_PAGE_SIZE) = n * 256"
    using n32 by (simp add: TRANSFER_PAGE_SIZE_def wmul_id drop_bit_eq_div)
  have add: "add32 (completion_fifo_rd_ptr cq) (n * 256) = issue_fifo_limit cq + 256 * (c mod N + n)"
    using rd(1) nN cN N(2) lim by (subst wadd_id) (auto simp: algebra_simps)
  define cq2 where "cq2 = (if c mod N + n = N
     then cq\<lparr>completion_fifo_rd_ptr := issue_fifo_limit cq, completion_fifo_rd_toggle := \<not> completion_fifo_rd_toggle cq\<rparr>
     else cq\<lparr>completion_fifo_rd_ptr := issue_fifo_limit cq + 256 * (c mod N + n)\<rparr>)"
  have crosses: "issue_fifo_limit cq + 256 * (c mod N + n) \<ge> completion_fifo_limit cq \<longleftrightarrow> c mod N + n = N"
  proof -
    have iff: "x \<le> N \<Longrightarrow> issue_fifo_limit cq + 256 * x \<ge> completion_fifo_limit cq \<longleftrightarrow> x = N" for x
      using N(2) lim(1) by auto
    show ?thesis by (rule iff) (use nN cN in simp)
  qed
  have same: "completion_pages cq2 = N" "issue_fifo_limit cq2 = issue_fifo_limit cq" "issue_start cq2 = issue_start cq"
    by (simp_all add: cq2_def completion_pages_def N_def issue_start_def)
  have fit: "c mod N + n \<le> N" using nN cN by linarith
  have next_count: "(c + n) mod N = (if c mod N + n = N then 0 else c mod N + n)"
    "(c + n) div N = (if c mod N + n = N then Suc (c div N) else c div N)"
    by (rule div_mod_step [OF N(1) fit])+
  have view2: "completion_view cq2 (c + n)"
    unfolding completion_view_def completion_pos_def same next_count by (simp add: cq2_def rd)
  have ok2: "cq_ok hal cq2"
    using okc crosses lim N by (auto simp: cq_ok_def cq2_def issue_start_def)
  have pop: "completion_queue_pop_front hal n cq_id m = send_completion_queue_read_ptr hal cq_id (set_cq cq_id cq2 m)"
    using i crosses by (auto simp: completion_queue_pop_front_def words Let_def add cq2_def simp flip: cq_def)
  show ?thesis
    unfolding pop cq_def [symmetric]
    using send_completion_eq [of cq_id "set_cq cq_id cq2 m" hal "c + n"] i ok2 view2 same
    by (auto simp: N_def)
qed

text \<open>(C20) The completion queue's read pointer and toggle implement an unbounded counter of popped pages.  In a
  well-formed queue whose pointer and toggle stand for \<open>c\<close> pages, popping \<open>n\<close> pages, at most those left before the end of
  the region, succeeds, leaves a well-formed queue standing for \<open>c + n\<close>, and tells the device exactly the word for
  \<open>c + n\<close>.  And the test for an empty queue is exact: a device word for \<open>w\<close> pages written, at most one
  turn ahead, has the same pointer and toggle as the host only if \<open>w = c\<close>.\<close>

theorem completion_queue_refines_counter:
  assumes "cq_id < length (cq_interfaces m)" and "cq_id < length (completion_byte_addrs m)"
    and "cq = cq_interfaces m ! cq_id" and "cq_ok hal cq" and "completion_view cq c"
    and "n \<le> completion_pages cq - c mod completion_pages cq" and "c \<le> w" and "w \<le> c + completion_pages cq"
  shows "(\<exists>cq' io. completion_queue_pop_front hal n cq_id m =
      Inr (set_cq cq_id cq' m\<lparr>device_io := device_io m @
        [Fast_write (completion_byte_addrs m ! cq_id) (completion_word cq' (c + n)), io]\<rparr>) \<and>
    cq_ok hal cq' \<and> completion_view cq' (c + n) \<and> completion_pages cq' = completion_pages cq) \<and>
    (completion_fifo_rd_ptr cq = completion_word cq w AND 0x7fffffff \<and>
     of_bool (completion_fifo_rd_toggle cq) = drop_bit 31 (completion_word cq w) \<longleftrightarrow> w = c)"
proof -
  have "completion_fifo_rd_ptr cq = completion_word cq w AND 0x7fffffff \<and>
     of_bool (completion_fifo_rd_toggle cq) = drop_bit 31 (completion_word cq w) \<longleftrightarrow>
     completion_pos cq w = completion_pos cq c \<and> odd (w div completion_pages cq) = odd (c div completion_pages cq)"
    using assms(5) completion_word_fields [OF assms(4)] by (auto simp: completion_view_def)
  then show ?thesis
    using pop_front_view [OF assms(1,2), of hal c n] completion_count_unique [OF assms(4,7,8)] assms by blast
qed

lemma wait_completion_returns:
  assumes ok: "cq_ok hal cq" and view: "completion_view cq c"
    and dev: "\<And>k. reads k = completion_word cq (w k) \<and> c \<le> w k \<and> w k \<le> c + completion_pages cq"
    and stop: "c < w (i + d) \<or> exit_condition (i + d)" and fuel: "d < fuel"
  shows "\<exists>k\<ge>i. k \<le> i + d \<and> wait_completion fuel cq reads exit_condition i = Inr (completion_word cq (w k)) \<and>
    (c < w k \<or> exit_condition k) \<and> (\<forall>j. i \<le> j \<and> j < k \<longrightarrow> w j = c \<and> \<not> exit_condition j)"
  using stop fuel
proof (induction fuel arbitrary: i d)
  case (Suc fuel)
  have same: "completion_fifo_rd_ptr cq = reads i AND 0x7fffffff \<and>
      of_bool (completion_fifo_rd_toggle cq) = drop_bit 31 (reads i) \<longleftrightarrow> w i = c"
  proof -
    have r: "reads i = completion_word cq (w i)" and le: "c \<le> w i" "w i \<le> c + completion_pages cq"
      using dev by auto
    show ?thesis
      unfolding r completion_word_fields [OF ok] completion_count_unique [OF ok le, symmetric]
      using view by (auto simp: completion_view_def)
  qed
  show ?case
  proof (cases "w i = c \<and> \<not> exit_condition i")
    case True
    then have "d \<noteq> 0" using Suc.prems(1) by (cases d) auto
    then obtain d' where d: "d = Suc d'" by (cases d) auto
    obtain k where k: "k \<ge> Suc i" "k \<le> Suc i + d'"
      "wait_completion fuel cq reads exit_condition (Suc i) = Inr (completion_word cq (w k))"
      "c < w k \<or> exit_condition k" "\<forall>j. Suc i \<le> j \<and> j < k \<longrightarrow> w j = c \<and> \<not> exit_condition j"
      using Suc.IH [of "Suc i" d'] Suc.prems d by auto
    have "\<forall>j. i \<le> j \<and> j < k \<longrightarrow> w j = c \<and> \<not> exit_condition j"
      using k(5) True by (metis le_eq_less_or_eq Suc_le_eq)
    then show ?thesis using k True same d by (intro exI [of _ k]) (simp add: Let_def)
  next
    case False
    then have "wait_completion (Suc fuel) cq reads exit_condition i = Inr (completion_word cq (w i))"
      using same dev [of i] by (auto simp: Let_def)
    then show ?thesis using False dev [of i] by (intro exI [of _ i]) (auto simp: le_eq_less_or_eq)
  qed
qed simp

text \<open>(C37) Waiting for the completion queue ends.  While the device writes (its word always stands for a count between
  \<open>c\<close> and one turn ahead of it), the wait polls only as long as the queue is empty and the exit condition is not set: if at
  poll \<open>d\<close> either has changed, the loop has returned after at most \<open>d + 1\<close> polls, with the word of the first poll at which the queue was
  not empty or the exit condition was set.\<close>

theorem completion_wait_returns:
  assumes "cq_id < length (cq_interfaces m)" and "cq = cq_interfaces m ! cq_id" and "cq_ok hal cq"
    and "completion_view cq c"
    and "\<And>k. get_cq_completion_wr_ptr hal (sysmem k) True channel cq_id (mgr_cq_size m) = completion_word cq (w k) \<and>
       c \<le> w k \<and> w k \<le> c + completion_pages cq"
    and "c < w d \<or> exit_condition d" and "d < fuel"
  shows "\<exists>k\<le>d. completion_queue_wait_front fuel hal channel sysmem exit_condition cq_id m = Inr (completion_word cq (w k)) \<and>
    (c < w k \<or> exit_condition k) \<and> (\<forall>j<k. w j = c \<and> \<not> exit_condition j)"
  using wait_completion_returns [OF assms(3,4,5), where i = 0 and d = d and exit_condition = exit_condition and fuel = fuel] assms
  by (auto simp: completion_queue_wait_front_def)

subsection \<open>The manager\<close>

text \<open>The operations a client may perform on a manager, in any order; \<^verbatim>\<open>set_issue_queue_size\<close>, a test hook that moves
  the limit, is not among them.  Popping never goes past the end of the completion region, which is how
  \<^verbatim>\<open>command_queue.cpp\<close> reads it.\<close>

inductive cq_step :: "Hal_params \<Rightarrow> SystemMemoryManager \<Rightarrow> SystemMemoryManager \<Rightarrow> bool" for hal where
  reserve: "issue_queue_reserve hal sz cq_id m = Inr (r, m') \<Longrightarrow> cq_step hal m m'"
| written: "cq_write data p m = Inr m' \<Longrightarrow> cq_step hal m m'"
| push: "issue_queue_push_back hal sz cq_id m = Inr m' \<Longrightarrow> sz + host_alignment hal \<le> 2 ^ 32 \<Longrightarrow> cq_step hal m m'"
| wrap: "wrap_issue_queue_wr_ptr cq_id m = Inr m' \<Longrightarrow> cq_step hal m m'"
| pop: "completion_queue_pop_front hal n cq_id m = Inr m' \<Longrightarrow> cq_id < length (cq_interfaces m) \<Longrightarrow>
    completion_fifo_rd_ptr (cq_interfaces m ! cq_id) + 256 * n \<le> completion_fifo_limit (cq_interfaces m ! cq_id) \<Longrightarrow>
    cq_step hal m m'"
| wrap_completion: "wrap_completion_queue_rd_ptr cq_id m = Inr m' \<Longrightarrow> cq_step hal m m'"
| reset: "reset_cq cq_id m = Inr m' \<Longrightarrow> cq_step hal m m'"
| bypass: "cq_step hal m (set_bypass_mode enable clear m)"
| bypass_data: "cq_step hal m (snd (get_bypass_data m))"
| next_event: "get_next_event cq_id m = Inr (e, m') \<Longrightarrow> cq_step hal m m'"
| completed_event: "set_last_completed_event cq_id e m = Inr m' \<Longrightarrow> cq_step hal m m'"
| fetch: "fetch_queue_write dc sz cq_id stall m = Inr m' \<Longrightarrow> cq_step hal m m'"

lemma cqs_ok_same: "cq_interfaces m' = cq_interfaces m \<Longrightarrow> cqs_ok hal m' = cqs_ok hal m"
  by (simp add: cqs_ok_def)

lemma cqs_ok_io [simp]: "cqs_ok hal (m\<lparr>device_io := io\<rparr>) = cqs_ok hal m"
  by (simp add: cqs_ok_def)

lemma cqs_ok_reserve:
  assumes "cqs_ok hal m" and r: "issue_queue_reserve hal sz cq_id m = Inr (r, m')"
  shows "cqs_ok hal m'"
proof (cases "bypass_enable m")
  case True
  then show ?thesis using assms by (auto simp: issue_queue_reserve_def Let_def cqs_ok_def)
next
  case False
  have i: "cq_id < length (cq_interfaces m)"
    using r False by (auto simp: issue_queue_reserve_def rbind_eq_Inr get_issue_queue_write_ptr_def in_vector_eq)
  show ?thesis
    using issue_queue_reserve_spec [OF i cqs_okD [OF assms(1) i] False, of sz] r cqs_ok_set_cq [OF assms(1)]
      cq_ok_wrapped [OF cqs_okD [OF assms(1) i]] cqs_okD [OF assms(1) i]
    by (auto split: if_splits)
qed

lemma cqs_ok_push:
  assumes "cqs_ok hal m" and r: "issue_queue_push_back hal sz cq_id m = Inr m'" and sz: "sz + host_alignment hal \<le> 2 ^ 32"
  shows "cqs_ok hal m'"
proof (cases "bypass_enable m")
  case True
  then show ?thesis using assms by (auto simp: issue_queue_push_back_def cqs_ok_def)
next
  case False
  have i: "cq_id < length (cq_interfaces m)"
    using r False by (auto simp: issue_queue_push_back_def Let_def rbind_eq_Inr in_vector_eq)
  show ?thesis
    using issue_queue_push_back_spec [OF i cqs_okD [OF assms(1) i] False sz] r cqs_ok_set_cq [OF assms(1)] by auto
qed

lemma cqs_ok_pop:
  assumes ok: "cqs_ok hal m" and r: "completion_queue_pop_front hal n cq_id m = Inr m'" and i: "cq_id < length (cq_interfaces m)"
    and n: "completion_fifo_rd_ptr (cq_interfaces m ! cq_id) + 256 * n \<le> completion_fifo_limit (cq_interfaces m ! cq_id)"
  shows "cqs_ok hal m'"
proof -
  define cq where "cq = cq_interfaces m ! cq_id"
  have okc: "cq_ok hal cq" using cqs_okD [OF ok i] by (simp add: cq_def)
  note N = completion_pages_pos [OF okc]
  obtain d where d: "completion_fifo_rd_ptr cq = issue_fifo_limit cq + 256 * d"
  proof -
    obtain d where "completion_fifo_rd_ptr cq - issue_fifo_limit cq = 256 * d" using okc by (auto simp: cq_ok_def elim!: dvdE)
    then show ?thesis using that [of d] okc by (auto simp: cq_ok_def)
  qed
  have lim: "issue_fifo_limit cq + 256 * completion_pages cq = completion_fifo_limit cq" using okc N(2) by (auto simp: cq_ok_def)
  have "completion_fifo_rd_ptr cq < completion_fifo_limit cq" using okc by (auto simp: cq_ok_def)
  then have dN: "d < completion_pages cq" using d lim by linarith
  have nd: "n \<le> completion_pages cq - d" using n d lim by (simp add: cq_def)
  define c where "c = d + (if completion_fifo_rd_toggle cq then completion_pages cq else 0)"
  have c: "c mod completion_pages cq = d" "odd (c div completion_pages cq) = completion_fifo_rd_toggle cq"
    using dN div_add_self2 [of "completion_pages cq" d] by (auto simp: c_def)
  have view: "completion_view cq c" using d c by (simp add: completion_view_def completion_pos_def)
  have b: "cq_id < length (completion_byte_addrs m)"
    using r i by (auto simp: completion_queue_pop_front_def send_completion_queue_read_ptr_def Let_def rbind_eq_Inr in_vector_eq)
  show ?thesis
    using pop_front_view [OF i b, of hal c n] okc view nd c r cqs_ok_set_cq [OF ok] by (auto simp: cq_def)
qed

lemma cq_step_ok:
  assumes "cq_step hal m m'" and "cqs_ok hal m"
  shows "cqs_ok hal m'"
  using assms
proof cases
  case (wrap cq_id)
  show ?thesis
  proof (cases "bypass_enable m")
    case True
    then show ?thesis using wrap assms(2) by (simp add: wrap_issue_queue_wr_ptr_def)
  next
    case False
    then have i: "cq_id < length (cq_interfaces m)"
      using wrap by (auto simp: wrap_issue_queue_wr_ptr_def rbind_eq_Inr in_vector_eq)
    then show ?thesis
      using wrap wrap_issue_eq [OF i cqs_okD [OF assms(2) i] False] cqs_ok_set_cq [OF assms(2)]
        cq_ok_wrapped [OF cqs_okD [OF assms(2) i]] by auto
  qed
next
  case (wrap_completion cq_id)
  then obtain cq where i: "cq_id < length (cq_interfaces m)" and cq: "cq = cq_interfaces m ! cq_id"
    and m': "m' = set_cq cq_id (cq\<lparr>completion_fifo_rd_ptr := issue_fifo_limit cq,
      completion_fifo_rd_toggle := \<not> completion_fifo_rd_toggle cq\<rparr>) m"
    by (auto simp: wrap_completion_queue_rd_ptr_def rbind_eq_Inr in_vector_eq)
  have "cq_ok hal cq" using cqs_okD [OF assms(2) i] cq by simp
  then show ?thesis unfolding m' by (intro cqs_ok_set_cq [OF assms(2)]) (auto simp: cq_ok_def issue_start_def)
next
  case (reset cq_id)
  then obtain cq where i: "cq_id < length (cq_interfaces m)" and cq: "cq = cq_interfaces m ! cq_id"
    and m': "m' = set_cq cq_id (cq\<lparr>issue_fifo_wr_ptr := drop_bit 4 (add32 (cq_start cq) (cq_offset cq)),
      issue_fifo_wr_toggle := False, completion_fifo_rd_ptr := issue_fifo_limit cq, completion_fifo_rd_toggle := False\<rparr>) m"
    by (auto simp: reset_cq_def rbind_eq_Inr in_vector_eq)
  have ok: "cq_ok hal cq" using cqs_okD [OF assms(2) i] cq by simp
  show ?thesis unfolding m' using ok cq_ok_facts(1,4,7) [OF ok]
    by (intro cqs_ok_set_cq [OF assms(2)]) (auto simp: cq_ok_def issue_start_def)
next
  case reserve
  then show ?thesis using cqs_ok_reserve [OF assms(2)] by blast
next
  case push
  then show ?thesis using cqs_ok_push [OF assms(2)] by blast
next
  case pop
  then show ?thesis using cqs_ok_pop [OF assms(2)] by blast
next
  case written
  then show ?thesis using assms(2) by (auto simp: cq_write_def Let_def rbind_eq_Inr cqs_ok_def split: if_splits)
next
  case fetch
  then show ?thesis using assms(2) by (auto simp: fetch_queue_write_def Let_def rbind_eq_Inr cqs_ok_def split: if_splits)
qed (use assms(2) in \<open>auto simp: set_bypass_mode_def get_bypass_data_def get_next_event_def
    set_last_completed_event_def rbind_eq_Inr cqs_ok_def Let_def\<close>)

lemma cq_steps_ok: "(cq_step hal)\<^sup>*\<^sup>* m m' \<Longrightarrow> cqs_ok hal m \<Longrightarrow> cqs_ok hal m'"
  by (induction rule: rtranclp_induct) (auto intro: cq_step_ok)

definition hugepage_ok :: "Hal_params \<Rightarrow> nat \<Rightarrow> nat \<Rightarrow> nat \<Rightarrow> bool" where
  "hugepage_ok hal channel num_hw_cqs cq_size \<longleftrightarrow>
     host_alignment hal \<in> {16, 32, 64} \<and> host_alignment hal dvd cq_size \<and> 4 * host_alignment hal + 16384 \<le> cq_size \<and> cq_size < 2 ^ 32 \<and>
     2 ^ 30 * (channel mod 4) + channel div 4 * 2 ^ 28 + num_hw_cqs * cq_size \<le> 2 ^ 32"

lemma add_cq_ok:
  assumes a: "add_cq env rd base (get_host_command_queue_addr (env_hal env) HOST_UNRESERVED) cq_id m = Inr m'"
    and h: "hugepage_ok (env_hal env) (assigned_channel env) n (mgr_cq_size m)" and id: "cq_id < n" and ok: "cqs_ok (env_hal env) m"
  shows "cqs_ok (env_hal env) m' \<and> mgr_cq_size m' = mgr_cq_size m"
proof -
  let ?hal = "env_hal env" and ?size = "mgr_cq_size m"
  obtain k where k: "host_alignment ?hal = 2 ^ k" "4 \<le> k" "k \<le> 12"
  proof -
    have "host_alignment ?hal = 2 ^ 4 \<or> host_alignment ?hal = 2 ^ 5 \<or> host_alignment ?hal = 2 ^ 6"
      using h by (auto simp: hugepage_ok_def)
    then show ?thesis using that [of 4] that [of 5] that [of 6] by auto
  qed
  have start: "get_host_command_queue_addr ?hal HOST_UNRESERVED = 4 * 2 ^ k"
    using h k(1) by (auto simp: get_host_command_queue_addr_def hugepage_ok_def wmul_id)
  have "(cq_id + 1) * ?size \<le> n * ?size" using id by (intro mult_le_mono1) simp
  then have fits: "(2 ^ 30 * (assigned_channel env mod 4) + assigned_channel env div 4 * 2 ^ 28) + (cq_id + 1) * ?size \<le> 2 ^ 32"
    using h by (auto simp: hugepage_ok_def)
  obtain cq where new: "new_SystemMemoryCQInterface ?hal (assigned_channel env) cq_id ?size (4 * 2 ^ k) = Inr cq" and "cq_ok ?hal cq"
    using new_cq_layout [OF k, of "4 * 2 ^ k" ?size _ "assigned_channel env" cq_id, OF _ _ _ _ refl fits] h k(1)
    by (auto simp: hugepage_ok_def)
  then show ?thesis
    using a ok by (auto simp: add_cq_def start Let_def rbind_eq_Inr cqs_ok_def split: prod.splits)
qed

lemma new_manager_ok:
  assumes new: "new_SystemMemoryManager env n mem = Inr m"
    and h: "hugepage_ok (env_hal env) (assigned_channel env) n (mgr_cq_size m)"
  shows "cqs_ok (env_hal env) m"
proof -
  let ?hal = "env_hal env" and ?ch = "assigned_channel env"
  obtain rd base m0 m1 where r: "rfold (add_cq env rd base (get_host_command_queue_addr ?hal HOST_UNRESERVED)) [0..<n] m0 = Inr m1"
    and m0: "cq_interfaces m0 = []" and m: "m = m1\<lparr>config_buffer_mgr := init_cores (kernel_config_regions env)\<rparr>"
    using new by (auto simp: new_SystemMemoryManager_def Let_def rbind_eq_Inr)
  have size: "mgr_cq_size m1 = mgr_cq_size m0"
    by (rule rfold_Inr_inv [OF r, of "\<lambda>m. mgr_cq_size m = mgr_cq_size m0"])
      (auto simp: add_cq_def Let_def rbind_eq_Inr split: prod.splits)
  have "cqs_ok ?hal m1 \<and> mgr_cq_size m1 = mgr_cq_size m0"
    by (rule rfold_Inr_inv [OF r, of "\<lambda>m. cqs_ok ?hal m \<and> mgr_cq_size m = mgr_cq_size m0"])
      (use m0 h m size add_cq_ok [of env rd base _ _ _ n] in \<open>auto simp: cqs_ok_def\<close>)
  then show ?thesis by (simp add: m cqs_ok_def)
qed

text \<open>(C13) Commands never leave their queue's issue region.  In every state a manager can reach from its
  construction, by any sequence of operations on any of its queues, every queue is well-formed, and reserving space
  for a command (up to the size of the completion region less one alignment unit) gives a
  place \<open>a\<close> whose rounded-up extent lies inside the issue region of that queue: after the queue's own pointers, before the
  limit.  Pushing it then leaves the pointer at its end, or back at the start of the region when the end is the limit.\<close>

theorem issue_queue_stays_in_region:
  assumes "new_SystemMemoryManager env n mem = Inr m0" and "hal = env_hal env"
    and "hugepage_ok hal (assigned_channel env) n (mgr_cq_size m0)" and "(cq_step hal)\<^sup>*\<^sup>* m0 m"
    and "cq_id < length (cq_interfaces m)" and "cq = cq_interfaces m ! cq_id" and "\<not> bypass_enable m"
    and "sz + host_alignment hal \<le> 16 * completion_fifo_size cq"
  shows "list_all (cq_ok hal) (cq_interfaces m) \<and>
    (\<exists>a m1 m2. issue_queue_reserve hal sz cq_id m = Inr (Hugepage (cq_sysmem_start m + sub32 a (channel_offset m)), m1) \<and>
      issue_start cq \<le> a \<and> a + align_up sz (host_alignment hal) \<le> 16 * issue_fifo_limit cq \<and>
      issue_queue_push_back hal sz cq_id m1 = Inr m2 \<and>
      16 * issue_fifo_wr_ptr (cq_interfaces m2 ! cq_id) =
        (if a + align_up sz (host_alignment hal) = 16 * issue_fifo_limit cq then issue_start cq
         else a + align_up sz (host_alignment hal)))"
proof -
  have oks: "cqs_ok hal m" using cq_steps_ok [OF assms(4)] new_manager_ok [OF assms(1)] assms(2,3) by simp
  have ok: "cq_ok hal cq" using cqs_okD [OF oks assms(5)] assms(6) by simp
  obtain k where k: "host_alignment hal = 2 ^ k" "k \<le> 12" using ok by (auto simp: cq_ok_def)
  have comp: "issue_fifo_limit cq + completion_fifo_size cq = completion_fifo_limit cq"
    "issue_start cq + 3 * (16 * completion_fifo_size cq) \<le> 16 * issue_fifo_limit cq"
    "16 * completion_fifo_limit cq \<le> 2 ^ 32" "issue_fifo_wr_ptr cq < issue_fifo_limit cq" "issue_start cq \<le> 16 * issue_fifo_wr_ptr cq"
    using ok by (auto simp: cq_ok_def)
  have sz32: "sz + host_alignment hal \<le> 2 ^ 32" using assms(8) comp by linarith
  have al: "align_up sz (host_alignment hal) < sz + host_alignment hal" using align_up_bounds(2) [of sz k] sz32 k by simp
  define e where "e = align_up sz (host_alignment hal)"
  have e: "e < 16 * completion_fifo_size cq" using al assms(8) by (simp add: e_def)
  have add: "add32 (16 * issue_fifo_wr_ptr cq) e = 16 * issue_fifo_wr_ptr cq + e"
    using e comp by (intro wadd_id) linarith
  obtain a cq1 where r: "issue_queue_reserve hal sz cq_id m =
      Inr (Hugepage (cq_sysmem_start m + sub32 a (channel_offset m)), set_cq cq_id cq1 m)"
    and a: "a = 16 * issue_fifo_wr_ptr cq1"
    and cq1: "cq1 = (if 16 * issue_fifo_wr_ptr cq + e > 16 * issue_fifo_limit cq then wrapped cq else cq)"
    using issue_queue_reserve_spec [OF assms(5) _ assms(7), of hal sz] ok add assms(6) by (auto simp: e_def)
  have ok1: "cq_ok hal cq1" using ok cq_ok_wrapped cq1 by simp
  have same: "issue_start cq1 = issue_start cq" "issue_fifo_limit cq1 = issue_fifo_limit cq"
    by (simp_all add: cq1 wrapped_def issue_start_def)
  have ptr: "issue_start cq \<le> a" "a + e \<le> 16 * issue_fifo_limit cq"
    using comp e cq_ok_facts(1) [OF ok] by (auto simp: a cq1 wrapped_def)
  have i1: "cq_id < length (cq_interfaces (set_cq cq_id cq1 m))" using assms(5) by simp
  have at: "cq_interfaces (set_cq cq_id cq1 m) ! cq_id = cq1" using assms(5) by simp
  obtain cq2 io where p: "issue_queue_push_back hal sz cq_id (set_cq cq_id cq1 m) =
      Inr (set_cq cq_id cq2 (set_cq cq_id cq1 m)\<lparr>device_io := io\<rparr>)"
    and cq2: "16 * issue_fifo_wr_ptr cq2 = (let e' = 16 * issue_fifo_wr_ptr cq1 + e
       in if e' < 16 * issue_fifo_limit cq1 then e' else issue_start cq1)"
    using issue_queue_push_back_spec [OF i1 _ _ sz32, unfolded at] ok1 assms(7) unfolding e_def by auto
  have "16 * issue_fifo_wr_ptr cq2 = (if a + e = 16 * issue_fifo_limit cq then issue_start cq else a + e)"
    using cq2 ptr by (auto simp: a same Let_def)
  then show ?thesis
    unfolding e_def [symmetric] using r p ptr oks assms(5) by (auto simp: cqs_ok_def)
qed

subsection \<open>Examples\<close>

text \<open>A Wormhole card with two command queues in a hugepage of 1 GB.\<close>

definition wormhole_hal :: Hal_params where
  "wormhole_hal = \<lparr>host_alignment = 32, l1_alignment = 16, tensix_unreserved = 173568, idle_eth_unreserved = 173568,
     mem_l1_size = 1464 * 1024, mem_eth_size = 256 * 1024 - 32, is_galaxy_cluster = False\<rparr>"

definition example_env :: Cq_env where
  "example_env = \<lparr>env_hal = wormhole_hal, env_dc = projr (new_dispatch_constants wormhole_hal WORKER 2),
     assigned_channel = 1, host_dma_address = 2 ^ 40, cq_size_override = None, host_channel_size = 2 ^ 30,
     completion_tlb = (\<lambda>cq_id. (1048576 * cq_id, 1048576)), kernel_config_regions = [(102912, 70656)]\<rparr>"

lemma example_run:
  obtains m0 m where "new_SystemMemoryManager example_env 2 (\<lambda>_. 0) = Inr m0"
    and "hugepage_ok wormhole_hal 1 2 (mgr_cq_size m0)"
    and "issue_queue_push_back wormhole_hal 100 1 m0 = Inr m" and "length (cq_interfaces m) = 2" and "\<not> bypass_enable m"
    and "length (completion_byte_addrs m) = 2" and "4096 + 32 \<le> 16 * completion_fifo_size (cq_interfaces m ! 1)"
    and "completion_fifo_rd_ptr (cq_interfaces m ! 1) = issue_fifo_limit (cq_interfaces m ! 1)"
    and "\<not> completion_fifo_rd_toggle (cq_interfaces m ! 1)" and "completion_fifo_size (cq_interfaces m ! 1) = 8388352"
proof -
  have "case new_SystemMemoryManager example_env 2 (\<lambda>_. 0) of Inl _ \<Rightarrow> False | Inr m0 \<Rightarrow>
      hugepage_ok wormhole_hal 1 2 (mgr_cq_size m0) \<and>
      (case issue_queue_push_back wormhole_hal 100 1 m0 of Inl _ \<Rightarrow> False | Inr m \<Rightarrow>
         length (cq_interfaces m) = 2 \<and> \<not> bypass_enable m \<and> length (completion_byte_addrs m) = 2 \<and>
         4096 + 32 \<le> 16 * completion_fifo_size (cq_interfaces m ! 1) \<and>
         completion_fifo_rd_ptr (cq_interfaces m ! 1) = issue_fifo_limit (cq_interfaces m ! 1) \<and>
         \<not> completion_fifo_rd_toggle (cq_interfaces m ! 1) \<and> completion_fifo_size (cq_interfaces m ! 1) = 8388352)"
    by code_simp
  then show ?thesis
    using that by (cases "new_SystemMemoryManager example_env 2 (\<lambda>_. 0)")
      (auto split: sum.splits)
qed

theorem issue_queue_stays_in_region_witness:
  "\<exists>m0 m. new_SystemMemoryManager example_env 2 (\<lambda>_. 0) = Inr m0 \<and> issue_queue_push_back wormhole_hal 100 1 m0 = Inr m \<and>
    list_all (cq_ok wormhole_hal) (cq_interfaces m) \<and>
    (\<exists>a m1 m2. issue_queue_reserve wormhole_hal 4096 1 m = Inr (Hugepage (cq_sysmem_start m + sub32 a (channel_offset m)), m1) \<and>
      issue_start (cq_interfaces m ! 1) \<le> a \<and>
      a + align_up 4096 (host_alignment wormhole_hal) \<le> 16 * issue_fifo_limit (cq_interfaces m ! 1) \<and>
      issue_queue_push_back wormhole_hal 4096 1 m1 = Inr m2 \<and>
      16 * issue_fifo_wr_ptr (cq_interfaces m2 ! 1) =
        (if a + align_up 4096 (host_alignment wormhole_hal) = 16 * issue_fifo_limit (cq_interfaces m ! 1)
         then issue_start (cq_interfaces m ! 1) else a + align_up 4096 (host_alignment wormhole_hal)))"
proof -
  obtain m0 m where r: "new_SystemMemoryManager example_env 2 (\<lambda>_. 0) = Inr m0"
    and h: "hugepage_ok wormhole_hal 1 2 (mgr_cq_size m0)" and p: "issue_queue_push_back wormhole_hal 100 1 m0 = Inr m"
    and m: "length (cq_interfaces m) = 2" "\<not> bypass_enable m" "4096 + 32 \<le> 16 * completion_fifo_size (cq_interfaces m ! 1)"
    by (rule example_run)
  have step: "(cq_step wormhole_hal)\<^sup>*\<^sup>* m0 m"
    by (rule r_into_rtranclp, rule cq_step.push [OF p]) (simp add: wormhole_hal_def)
  have env: "wormhole_hal = env_hal example_env" "assigned_channel example_env = 1" by (simp_all add: example_env_def)
  have h': "hugepage_ok wormhole_hal (assigned_channel example_env) 2 (mgr_cq_size m0)" using h by (simp add: env(2))
  have i: "1 < length (cq_interfaces m)" using m(1) by simp
  have sz: "4096 + host_alignment wormhole_hal \<le> 16 * completion_fifo_size (cq_interfaces m ! 1)"
    using m(3) by (simp add: wormhole_hal_def)
  note t = issue_queue_stays_in_region [OF r env(1) h' step i refl m(2) sz]
  show ?thesis by (rule exI [of _ m0], rule exI [of _ m], rule conjI [OF r conjI [OF p t]])
qed

theorem completion_queue_refines_counter_witness:
  "\<exists>m cq. cq = cq_interfaces m ! 1 \<and> completion_view cq 0 \<and>
    (\<exists>cq' io. completion_queue_pop_front wormhole_hal 3 1 m =
      Inr (set_cq 1 cq' m\<lparr>device_io := device_io m @
        [Fast_write (completion_byte_addrs m ! 1) (completion_word cq' (0 + 3)), io]\<rparr>) \<and>
     cq_ok wormhole_hal cq' \<and> completion_view cq' (0 + 3) \<and> completion_pages cq' = completion_pages cq) \<and>
    (completion_fifo_rd_ptr cq = completion_word cq 5 AND 0x7fffffff \<and>
     of_bool (completion_fifo_rd_toggle cq) = drop_bit 31 (completion_word cq 5) \<longleftrightarrow> 5 = (0::nat))"
proof -
  obtain m0 m where r: "new_SystemMemoryManager example_env 2 (\<lambda>_. 0) = Inr m0"
    and h: "hugepage_ok wormhole_hal 1 2 (mgr_cq_size m0)" and p: "issue_queue_push_back wormhole_hal 100 1 m0 = Inr m"
    and m: "length (cq_interfaces m) = 2" "length (completion_byte_addrs m) = 2"
    and c: "completion_fifo_rd_ptr (cq_interfaces m ! 1) = issue_fifo_limit (cq_interfaces m ! 1)"
      "\<not> completion_fifo_rd_toggle (cq_interfaces m ! 1)" "completion_fifo_size (cq_interfaces m ! 1) = 8388352"
    by (rule example_run)
  have "cqs_ok wormhole_hal m0" using new_manager_ok [OF r] h by (simp add: example_env_def)
  then have "cqs_ok wormhole_hal m" by (rule cqs_ok_push [OF _ p]) (simp add: wormhole_hal_def)
  then have ok: "cq_ok wormhole_hal (cq_interfaces m ! 1)" using cqs_okD [of wormhole_hal m 1] m by simp
  have pages: "completion_pages (cq_interfaces m ! 1) = 32767" using c by (simp add: completion_pages_def)
  have view: "completion_view (cq_interfaces m ! 1) 0" using c by (simp add: completion_view_def completion_pos_def)
  have i: "1 < length (cq_interfaces m)" "1 < length (completion_byte_addrs m)" using m by simp_all
  have n: "3 \<le> completion_pages (cq_interfaces m ! 1) - 0 mod completion_pages (cq_interfaces m ! 1)"
    "0 \<le> (5::nat)" "5 \<le> 0 + completion_pages (cq_interfaces m ! 1)" using pages by simp_all
  note t = completion_queue_refines_counter [OF i refl ok view n]
  show ?thesis by (rule exI [of _ m], rule exI [of _ "cq_interfaces m ! 1"], rule conjI [OF refl conjI [OF view t]])
qed

theorem completion_wait_returns_witness:
  "\<exists>m cq. cq = cq_interfaces m ! 1 \<and> completion_view cq 0 \<and>
    (\<exists>k\<le>(2::nat). completion_queue_wait_front 3 wormhole_hal 1 (\<lambda>k _. completion_word cq (if k < 2 then 0 else 7)) (\<lambda>_. False) 1 m =
        Inr (completion_word cq (if k < 2 then 0 else 7)) \<and>
      (0 < (if k < 2 then 0 else 7 :: nat) \<or> False) \<and> (\<forall>j<k. (if j < 2 then 0 else 7) = (0::nat) \<and> \<not> False))"
proof -
  obtain m0 m where r: "new_SystemMemoryManager example_env 2 (\<lambda>_. 0) = Inr m0"
    and h: "hugepage_ok wormhole_hal 1 2 (mgr_cq_size m0)" and p: "issue_queue_push_back wormhole_hal 100 1 m0 = Inr m"
    and m: "length (cq_interfaces m) = 2"
    and c: "completion_fifo_rd_ptr (cq_interfaces m ! 1) = issue_fifo_limit (cq_interfaces m ! 1)"
      "\<not> completion_fifo_rd_toggle (cq_interfaces m ! 1)" "completion_fifo_size (cq_interfaces m ! 1) = 8388352"
    by (rule example_run)
  have "cqs_ok wormhole_hal m0" using new_manager_ok [OF r] h by (simp add: example_env_def)
  then have "cqs_ok wormhole_hal m" by (rule cqs_ok_push [OF _ p]) (simp add: wormhole_hal_def)
  then have ok: "cq_ok wormhole_hal (cq_interfaces m ! 1)" using cqs_okD [of wormhole_hal m 1] m by simp
  have pages: "completion_pages (cq_interfaces m ! 1) = 32767" using c by (simp add: completion_pages_def)
  have view: "completion_view (cq_interfaces m ! 1) 0" using c by (simp add: completion_view_def completion_pos_def)
  define w :: "nat \<Rightarrow> nat" where "w k = (if k < 2 then 0 else 7)" for k
  have i: "1 < length (cq_interfaces m)" using m by simp
  have dev: "get_cq_completion_wr_ptr wormhole_hal ((\<lambda>k _. completion_word (cq_interfaces m ! 1) (w k)) k) True 1 1 (mgr_cq_size m) =
      completion_word (cq_interfaces m ! 1) (w k) \<and> 0 \<le> w k \<and> w k \<le> 0 + completion_pages (cq_interfaces m ! 1)" for k
    using pages by (simp add: get_cq_completion_wr_ptr_def w_def Let_def)
  have t: "\<exists>k\<le>2. completion_queue_wait_front 3 wormhole_hal 1 (\<lambda>k _. completion_word (cq_interfaces m ! 1) (w k)) (\<lambda>_. False) 1 m =
      Inr (completion_word (cq_interfaces m ! 1) (w k)) \<and> (0 < w k \<or> False) \<and> (\<forall>j<k. w j = 0 \<and> \<not> False)"
    by (rule completion_wait_returns [where sysmem = "\<lambda>k _. completion_word (cq_interfaces m ! 1) (w k)", OF i refl ok view dev])
      (simp_all add: w_def)
  show ?thesis
    by (rule exI [of _ m], rule exI [of _ "cq_interfaces m ! 1"], rule conjI [OF refl conjI [OF view t [unfolded w_def]]])
qed

end
