(* ===== verification/Device_Command_Walk.thy ===== *)
theory Device_Command_Walk
  imports Device_Command Cq_Props
begin

text \<open>
  What the prefetcher reads back of a command sequence.  \<open>prefetch_stride\<close> is the distance from a command to the
  next one as \<^verbatim>\<open>process_cmd\<close> of \<^verbatim>\<open>impl/dispatch/kernels/cq_prefetch.cpp\<close> computes it, \<open>walks\<close> follows these
  distances through the memory.  A terminate command, at which the prefetcher stops without setting a stride, counts with the smallest size of a command.  The writers of \<^verbatim>\<open>DeviceCommand\<close> are shown to leave a sequence that can be walked
  from its first to its last byte, and to stay inside the region.
\<close>

unbundle bit_operations_syntax

subsection \<open>Fields and bytes\<close>

lemma length_le_bytes [simp]: "length (le_bytes n v) = n"
  by (simp add: le_bytes_def)

lemma nth_le_bytes [simp]: "i < n \<Longrightarrow> le_bytes n v ! i = word_of_nat (drop_bit (8 * i) v)"
  by (simp add: le_bytes_def)

definition read32 :: "mem \<Rightarrow> nat \<Rightarrow> nat" where
  "read32 m a = unat (m a) + 256 * (unat (m (a + 1)) + 256 * (unat (m (a + 2)) + 256 * unat (m (a + 3))))"

lemma read32_le_bytes:
  assumes "\<And>i. i < 4 \<Longrightarrow> m (a + i) = le_bytes 4 v ! i"
  shows "read32 m a = v mod 2 ^ 32"
proof -
  have u: "unat (m (a + i)) = v div 256 ^ i mod 256" if "i < 4" for i
    using assms [OF that] that
    by (simp add: unat_of_nat drop_bit_eq_div power_mult)
  have "v mod 2 ^ 32 = v mod (256 * (256 * (256 * 256)))" by simp
  also have "\<dots> = v mod 256 + 256 * (v div 256 mod 256 + 256 * (v div 256 div 256 mod 256 +
      256 * (v div 256 div 256 div 256 mod 256)))"
    by (simp only: mod_mult2_eq) (simp add: algebra_simps)
  also have "\<dots> = read32 m a"
    using u [of 0] u [of 1] u [of 2] u [of 3] by (simp add: read32_def div_mult2_eq [symmetric])
  finally show ?thesis by simp
qed

lemma length_put_field [simp]: "off + length v \<le> length bs \<Longrightarrow> length (put_field (off, v) bs) = length bs"
  by (simp add: put_field_def)

lemma nth_put_field:
  assumes "off + length v \<le> length bs" and "i < length bs"
  shows "put_field (off, v) bs ! i = (if off \<le> i \<and> i < off + length v then v ! (i - off) else bs ! i)"
  using assms by (auto simp: put_field_def nth_append min_def)

lemma store_bytes_put_field:
  assumes "off + length v \<le> length bs"
  shows "store_bytes (a + off) v (store_bytes a bs m) = store_bytes a (put_field (off, v) bs) m"
  using assms by (auto simp: store_bytes_def fun_eq_iff nth_put_field)

definition fields_ok :: "field list \<Rightarrow> bool" where
  "fields_ok fs \<longleftrightarrow> list_all (\<lambda>(off, v). off + length v \<le> 16) fs"

lemma length_fold_put_field: "fields_ok fs \<Longrightarrow> length bs = 16 \<Longrightarrow> length (fold put_field fs bs) = 16"
  by (induction fs arbitrary: bs) (auto simp: fields_ok_def)

lemma fold_store_fields:
  assumes "fields_ok fs" and "length bs = 16"
  shows "fold (\<lambda>(off, v). store_bytes (a + off) v) fs (store_bytes a bs m) = store_bytes a (fold put_field fs bs) m"
  using assms
proof (induction fs arbitrary: bs)
  case (Cons f fs)
  obtain off v where f: "f = (off, v)" by (cases f)
  then have le: "off + length v \<le> length bs" using Cons.prems by (simp add: fields_ok_def)
  then show ?case
    using Cons.IH [of "put_field (off, v) bs"] Cons.prems
    by (simp add: f store_bytes_put_field fields_ok_def)
qed simp

lemma fields_ok_prefetch: "fields_ok (prefetch_fields c)"
  by (cases c) (simp_all add: fields_ok_def u8_at_def u16_at_def u32_at_def)

lemma fields_ok_dispatch: "fields_ok (dispatch_fields c)"
  by (cases c) (simp_all add: fields_ok_def u8_at_def u16_at_def u32_at_def)

subsection \<open>The effect of a step\<close>

text \<open>\<open>effect lo hi n dc dc'\<close>: the offset advances by \<open>n\<close>, and only the bytes of the region from \<open>lo\<close> to \<open>hi\<close> change.\<close>

definition same_region :: "DeviceCommand \<Rightarrow> DeviceCommand \<Rightarrow> bool" where
  "same_region dc dc' \<longleftrightarrow> dc' = dc\<lparr>cmd_write_offsetB := cmd_write_offsetB dc', cmd_mem := cmd_mem dc'\<rparr>"

definition effect :: "nat \<Rightarrow> nat \<Rightarrow> nat \<Rightarrow> DeviceCommand \<Rightarrow> DeviceCommand \<Rightarrow> bool" where
  "effect lo hi n dc dc' \<longleftrightarrow> same_region dc dc' \<and> cmd_write_offsetB dc' = cmd_write_offsetB dc + n \<and>
     (\<forall>x. x < cmd_region dc + lo \<or> cmd_region dc + hi \<le> x \<longrightarrow> cmd_mem dc' x = cmd_mem dc x)"

lemma same_regionD:
  assumes "same_region dc dc'"
  shows "cmd_sequence_sizeB dc' = cmd_sequence_sizeB dc" "cmd_region dc' = cmd_region dc"
    "pcie_alignment dc' = pcie_alignment dc" "dc_l1_alignment dc' = dc_l1_alignment dc"
    "zero_init_enable dc' = zero_init_enable dc" "hugepage_write dc' = hugepage_write dc" "stack_bytes dc' = stack_bytes dc"
  using assms unfolding same_region_def by (metis DeviceCommand.select_convs DeviceCommand.surjective DeviceCommand.update_convs)+

lemma same_region_trans: "same_region a b \<Longrightarrow> same_region b c \<Longrightarrow> same_region a c"
  unfolding same_region_def by (cases a; cases b; cases c) simp

lemma effect_trans:
  assumes "effect lo hi n a b" and "effect lo' hi' n' b c"
  shows "effect (min lo lo') (max hi hi') (n + n') a c"
  using assms same_region_trans [of a b c] same_regionD [of a b] by (auto simp: effect_def)

lemma effect_mono: "effect lo hi n a b \<Longrightarrow> lo' \<le> lo \<Longrightarrow> hi \<le> hi' \<Longrightarrow> effect lo' hi' n a b"
  by (auto simp: effect_def)

lemma dc_memcpy_Inr:
  assumes "dc_memcpy dst src dc = Inr dc'"
  shows "dc' = dc\<lparr>cmd_mem := store_bytes dst src (cmd_mem dc)\<rparr>"
  using assms memcpy_to_device_Inr
  by (auto simp: dc_memcpy_def rbind_eq_Inr split: if_splits)

lemma effect_store:
  "effect o' (o' + length src) 0 dc (dc\<lparr>cmd_mem := store_bytes (cmd_region dc + o') src (cmd_mem dc)\<rparr>)"
  by (auto simp: effect_def same_region_def store_bytes_def)

lemma effect_memcpy:
  assumes "dc_memcpy (cmd_region dc + o') src dc = Inr dc'"
  shows "effect o' (o' + length src) 0 dc dc'"
  using dc_memcpy_Inr [OF assms] effect_store by simp

lemma effect_refl [simp]: "effect lo hi 0 dc dc"
  by (simp add: effect_def same_region_def)

lemma effect_offset: "cmd_write_offsetB dc + n < 2 ^ 32 \<Longrightarrow>
    effect lo hi n dc (dc\<lparr>cmd_write_offsetB := add32 (cmd_write_offsetB dc) n\<rparr>)"
  by (simp add: effect_def same_region_def wadd_id)

lemma reserve_spaceE:
  assumes "reserve_space n dc = Inr (dst, dc')" and "cmd_write_offsetB dc + n < 2 ^ 32" and "16 \<le> n"
  obtains "dst = cmd_region dc + cmd_write_offsetB dc" and "cmd_write_offsetB dc + n \<le> cmd_sequence_sizeB dc"
    and "effect (cmd_write_offsetB dc) (cmd_write_offsetB dc + 16) n dc dc'"
proof -
  obtain dc1 where z: "(if zero_init_enable dc then zero_command (cmd_region dc + cmd_write_offsetB dc) dc else Inr dc) = Inr dc1"
    and dc': "dc' = dc1\<lparr>cmd_write_offsetB := add32 (cmd_write_offsetB dc1) n\<rparr>"
    and dst: "dst = cmd_region dc + cmd_write_offsetB dc" and v: "validate_cmd_write n dc = Inr ()"
    using assms(1) by (auto simp: reserve_space_def rbind_eq_Inr Let_def)
  have "effect (cmd_write_offsetB dc) (cmd_write_offsetB dc + 16) 0 dc dc1"
    using z effect_memcpy [of dc "cmd_write_offsetB dc" "replicate 16 0" dc1]
      effect_store [of "cmd_write_offsetB dc" "replicate 16 0" dc] effect_refl [of _ _ dc]
    by (auto simp: zero_command_def split: if_splits)
  moreover from this have "effect (cmd_write_offsetB dc) (cmd_write_offsetB dc + 16) n dc1 dc'"
    unfolding dc' by (intro effect_offset) (use assms(2) in \<open>simp add: effect_def\<close>)
  ultimately show ?thesis using effect_trans that [OF dst] v assms(2)
    by (fastforce simp: validate_cmd_write_def wadd_id)
qed

lemma write_command_store:
  assumes "write_command cmd fs dc = Inr dc'" and "fields_ok fs" and "length (stack_bytes dc) = 16"
  shows "\<exists>bs. length bs = 16 \<and> dc' = dc\<lparr>cmd_mem := store_bytes cmd (fold put_field fs bs) (cmd_mem dc)\<rparr>"
proof (cases "hugepage_write dc")
  case True
  then show ?thesis using assms dc_memcpy_Inr by (auto simp: write_command_def)
next
  case False
  let ?bs = "map (cmd_mem dc) [cmd..<cmd + 16]"
  have "store_bytes cmd ?bs (cmd_mem dc) = cmd_mem dc" by (auto simp: store_bytes_def fun_eq_iff)
  then have "fold (\<lambda>(off, v). store_bytes (cmd + off) v) fs (cmd_mem dc) = store_bytes cmd (fold put_field fs ?bs) (cmd_mem dc)"
    using fold_store_fields [OF assms(2), of ?bs cmd "cmd_mem dc"] by simp
  then have "dc' = dc\<lparr>cmd_mem := store_bytes cmd (fold put_field fs ?bs) (cmd_mem dc)\<rparr>"
    using assms(1) False by (simp add: write_command_def)
  moreover have "length ?bs = 16" by simp
  ultimately show ?thesis by blast
qed

lemma write_commandE:
  assumes "write_command (cmd_region dc + o') fs dc = Inr dc'" and "fields_ok fs" and "length (stack_bytes dc) = 16"
  obtains bs where "length bs = 16" and "effect o' (o' + 16) 0 dc dc'"
    and "\<And>i. i < 16 \<Longrightarrow> cmd_mem dc' (cmd_region dc + o' + i) = fold put_field fs bs ! i"
proof -
  obtain bs where bs: "length bs = 16"
    and dc': "dc' = dc\<lparr>cmd_mem := store_bytes (cmd_region dc + o') (fold put_field fs bs) (cmd_mem dc)\<rparr>"
    using write_command_store [OF assms] by auto
  have l: "length (fold put_field fs bs) = 16" by (rule length_fold_put_field [OF assms(2) bs])
  show ?thesis
    by (rule that [OF bs]) (use effect_store [of o' "fold put_field fs bs" dc] l in \<open>auto simp: dc' store_bytes_def\<close>)
qed

subsection \<open>The walk of the prefetcher\<close>

definition prefetch_stride :: "nat \<Rightarrow> mem \<Rightarrow> nat \<Rightarrow> nat option" where
  "prefetch_stride bare_min_size m a =
     (let i = unat (m a) in
      if i = 1 \<or> i = 2 \<or> i = 6 \<or> i = 8 \<or> i = 10 then Some bare_min_size
      else if i = 3 \<or> i = 4 \<or> i = 5 \<or> i = 7 then Some (read32 m (a + 8))
      else None)"

inductive walks :: "nat \<Rightarrow> mem \<Rightarrow> nat \<Rightarrow> nat \<Rightarrow> bool" for bare_min_size m where
  walks_end: "walks bare_min_size m a a"
| walks_next: "prefetch_stride bare_min_size m a = Some s \<Longrightarrow> 16 \<le> s \<Longrightarrow> walks bare_min_size m (a + s) b \<Longrightarrow>
    walks bare_min_size m a b"

lemma walks_trans: "walks al m a b \<Longrightarrow> walks al m b c \<Longrightarrow> walks al m a c"
  by (induction rule: walks.induct) (auto intro: walks.intros)

lemma walks_le: "walks al m a b \<Longrightarrow> a \<le> b"
  by (induction rule: walks.induct) auto

lemma prefetch_stride_cong:
  assumes "\<And>i. i < 16 \<Longrightarrow> m' (a + i) = m (a + i)"
  shows "prefetch_stride al m' a = prefetch_stride al m a"
  using assms [of 0] assms [of 8] assms [of 9] assms [of 10] assms [of 11]
  by (simp add: prefetch_stride_def read32_def Let_def add.commute [of a])

lemma walks_cong:
  assumes "walks al m a b" and "\<And>x. a \<le> x \<Longrightarrow> x < b \<Longrightarrow> m' x = m x"
  shows "walks al m' a b"
  using assms
proof (induction rule: walks.induct)
  case (walks_next a s b)
  have b: "a + s \<le> b" by (rule walks_le [OF walks_next.hyps(3)])
  then have "prefetch_stride al m' a = Some s"
    using walks_next.hyps walks_next.prems prefetch_stride_cong [of m' a m al] by simp
  moreover have "walks al m' (a + s) b" using walks_next.IH walks_next.prems by simp
  ultimately show ?case using walks.walks_next walks_next.hyps(2) by blast
qed (rule walks_end)

fun cmd_stride :: "CQPrefetchCmd \<Rightarrow> nat option" where
  "cmd_stride (RelayLinear _ _ _) = Some 32"
| "cmd_stride (RelayPaged _ _ _ _ _) = Some 32"
| "cmd_stride (RelayPagedPacked _ s _) = Some s"
| "cmd_stride (RelayInline i _ _ s) =
     (if i = CQ_PREFETCH_CMD_RELAY_INLINE \<or> i = CQ_PREFETCH_CMD_RELAY_INLINE_NOFLUSH then Some s else None)"
| "cmd_stride (ExecBuf _ _ _) = Some 32"
| "cmd_stride (ExecBufEnd _ s) = Some s"
| "cmd_stride (PrefetchPlain i) =
     (if i = CQ_PREFETCH_CMD_STALL \<or> i = CQ_PREFETCH_CMD_TERMINATE then Some 32 else None)"

lemma prefetch_stride_written:
  assumes bs: "length bs = 16" and m: "\<And>i. i < 16 \<Longrightarrow> m (a + i) = fold put_field (prefetch_fields c) bs ! i"
    and s: "cmd_stride c = Some s" "s < 2 ^ 32"
  shows "prefetch_stride 32 m a = Some s"
proof -
  have r: "read32 m (a + 8) = v mod 2 ^ 32"
    if "\<And>i. i < 4 \<Longrightarrow> fold put_field (prefetch_fields c) bs ! (8 + i) = le_bytes 4 v ! i" for v
    using m [of "8 + i" for i] that by (intro read32_le_bytes) (simp add: add.assoc)
  note f = u8_at_def u16_at_def u32_at_def nth_put_field bs
  have "m a = fold put_field (prefetch_fields c) bs ! 0" using m [of 0] by simp
  then show ?thesis
    using s r [of s]
    by (cases c) (auto simp: prefetch_stride_def f split: if_splits)
qed

subsection \<open>A command sequence step\<close>

definition dc_ok :: "DeviceCommand \<Rightarrow> bool" where
  "dc_ok dc \<longleftrightarrow> pcie_alignment dc = 32 \<and> dc_l1_alignment dc = 16 \<and> length (stack_bytes dc) = 16 \<and>
     cmd_sequence_sizeB dc \<le> 2 ^ 30 \<and> 32 dvd cmd_write_offsetB dc \<and> cmd_write_offsetB dc \<le> 2 ^ 31"

definition stepped :: "bool \<Rightarrow> DeviceCommand \<Rightarrow> DeviceCommand \<Rightarrow> bool" where
  "stepped inside dc dc' \<longleftrightarrow> same_region dc dc' \<and> dc_ok dc' \<and> cmd_write_offsetB dc \<le> cmd_write_offsetB dc' \<and>
     (\<exists>e\<le>cmd_write_offsetB dc'. (inside \<longrightarrow> e \<le> cmd_sequence_sizeB dc) \<and>
        (\<forall>x. x < cmd_region dc + cmd_write_offsetB dc \<or> cmd_region dc + e \<le> x \<longrightarrow> cmd_mem dc' x = cmd_mem dc x)) \<and>
     walks 32 (cmd_mem dc') (cmd_region dc + cmd_write_offsetB dc) (cmd_region dc + cmd_write_offsetB dc')"

lemma stepped_trans:
  assumes ab: "stepped i a b" and bc: "stepped i b c"
  shows "stepped i a c"
proof -
  obtain e1 where e1: "e1 \<le> cmd_write_offsetB b" "i \<longrightarrow> e1 \<le> cmd_sequence_sizeB a"
      "\<And>x. x < cmd_region a + cmd_write_offsetB a \<or> cmd_region a + e1 \<le> x \<Longrightarrow> cmd_mem b x = cmd_mem a x"
    using ab by (auto simp: stepped_def)
  obtain e2 where e2: "e2 \<le> cmd_write_offsetB c" "i \<longrightarrow> e2 \<le> cmd_sequence_sizeB b"
      "\<And>x. x < cmd_region b + cmd_write_offsetB b \<or> cmd_region b + e2 \<le> x \<Longrightarrow> cmd_mem c x = cmd_mem b x"
    using bc by (auto simp: stepped_def)
  have sr: "same_region a b" "same_region b c" using ab bc by (simp_all add: stepped_def)
  note eq = same_regionD [OF sr(1)]
  have le: "cmd_write_offsetB a \<le> cmd_write_offsetB b" "cmd_write_offsetB b \<le> cmd_write_offsetB c"
    using ab bc by (simp_all add: stepped_def)
  have "walks 32 (cmd_mem c) (cmd_region a + cmd_write_offsetB a) (cmd_region a + cmd_write_offsetB b)"
    by (rule walks_cong [of 32 "cmd_mem b"]) (use ab e2(3) eq in \<open>auto simp: stepped_def\<close>)
  then have "walks 32 (cmd_mem c) (cmd_region a + cmd_write_offsetB a) (cmd_region a + cmd_write_offsetB c)"
    by (rule walks_trans) (use bc eq in \<open>simp add: stepped_def\<close>)
  moreover have "\<exists>e\<le>cmd_write_offsetB c. (i \<longrightarrow> e \<le> cmd_sequence_sizeB a) \<and>
      (\<forall>x. x < cmd_region a + cmd_write_offsetB a \<or> cmd_region a + e \<le> x \<longrightarrow> cmd_mem c x = cmd_mem a x)"
  proof (intro exI [of _ "max e1 e2"] conjI impI allI)
    fix x assume "x < cmd_region a + cmd_write_offsetB a \<or> cmd_region a + max e1 e2 \<le> x"
    then show "cmd_mem c x = cmd_mem a x" using e1(3) [of x] e2(3) [of x] le eq(2)
      by (cases "e1 \<le> e2") auto
  qed (use e1(1,2) e2(1,2) le eq(1) in auto)
  ultimately show ?thesis
    using same_region_trans [OF sr] bc le by (simp add: stepped_def)
qed

lemma dc_ok_facts:
  assumes "dc_ok dc"
  shows "pcie_alignment dc = 32" "dc_l1_alignment dc = 16" "length (stack_bytes dc) = 16"
    "cmd_sequence_sizeB dc \<le> 2 ^ 30" "32 dvd cmd_write_offsetB dc" "cmd_write_offsetB dc \<le> 2 ^ 31"
  using assms by (simp_all add: dc_ok_def)

lemma one_command:
  assumes ok: "dc_ok dc" and e: "effect (cmd_write_offsetB dc) hi n dc dc'"
    and hi: "hi \<le> cmd_write_offsetB dc + n" "i \<longrightarrow> hi \<le> cmd_sequence_sizeB dc"
    and s: "prefetch_stride 32 (cmd_mem dc') (cmd_region dc + cmd_write_offsetB dc) = Some n"
    and n: "32 dvd n" "0 < n" "cmd_write_offsetB dc + n \<le> 2 ^ 31"
  shows "stepped i dc dc'"
proof -
  have n16: "16 \<le> n" using n by (auto elim: dvdE)
  have off: "cmd_write_offsetB dc' = cmd_write_offsetB dc + n" and sr: "same_region dc dc'" using e by (simp_all add: effect_def)
  have "walks 32 (cmd_mem dc') (cmd_region dc + cmd_write_offsetB dc) (cmd_region dc + cmd_write_offsetB dc')"
    unfolding off add.assoc [symmetric] by (rule walks_next [OF s n16 walks_end])
  moreover have "dc_ok dc'" using ok n same_regionD [OF sr] off by (simp add: dc_ok_def)
  moreover have "\<forall>x. x < cmd_region dc + cmd_write_offsetB dc \<or> cmd_region dc + hi \<le> x \<longrightarrow> cmd_mem dc' x = cmd_mem dc x"
    using e by (simp add: effect_def)
  ultimately show ?thesis using sr off hi by (auto simp: stepped_def)
qed

lemma stride_kept:
  assumes "effect lo hi n dc dc'" and "o' + 16 \<le> lo"
  shows "prefetch_stride al (cmd_mem dc') (cmd_region dc + o') = prefetch_stride al (cmd_mem dc) (cmd_region dc + o')"
  by (rule prefetch_stride_cong) (use assms in \<open>simp add: effect_def\<close>)

end
