(* ===== verification/Device_Command_Steps.thy ===== *)
theory Device_Command_Steps
  imports Device_Command_Walk
begin

text \<open>
  Every writer of \<^verbatim>\<open>DeviceCommand\<close> that writes whole commands advances the offset by the strides that the prefetcher reads in
  them.
\<close>

unbundle bit_operations_syntax

subsection \<open>The building blocks\<close>

lemma align_up_32: "a \<le> 2 ^ 31 \<Longrightarrow> align_up a 32 = (a + 31) div 32 * 32"
  using align_up_eq [of a 5] by simp

lemma align_up_16: "a \<le> 2 ^ 31 \<Longrightarrow> align_up a 16 = (a + 15) div 16 * 16"
  using align_up_eq [of a 4] by simp

lemma reserve_write:
  assumes r: "reserve_space n dc = Inr (dst, dc1)" and w: "write_command dst fs dc1 = Inr dc2"
    and f: "fields_ok fs" and n: "cmd_write_offsetB dc + n < 2 ^ 32" "16 \<le> n" and st: "length (stack_bytes dc) = 16"
  obtains bs where "effect (cmd_write_offsetB dc) (cmd_write_offsetB dc + 16) n dc dc2"
    and "cmd_write_offsetB dc + n \<le> cmd_sequence_sizeB dc" and "dst = cmd_region dc + cmd_write_offsetB dc"
    and "length bs = 16"
    and "\<And>i. i < 16 \<Longrightarrow> cmd_mem dc2 (cmd_region dc + cmd_write_offsetB dc + i) = fold put_field fs bs ! i"
proof -
  obtain dst: "dst = cmd_region dc + cmd_write_offsetB dc" and le: "cmd_write_offsetB dc + n \<le> cmd_sequence_sizeB dc"
    and e: "effect (cmd_write_offsetB dc) (cmd_write_offsetB dc + 16) n dc dc1"
    by (rule reserve_spaceE [OF r n])
  have sr: "same_region dc dc1" using e by (simp add: effect_def)
  have w': "write_command (cmd_region dc1 + cmd_write_offsetB dc) fs dc1 = Inr dc2"
    using w dst same_regionD(2) [OF sr] by simp
  have st': "length (stack_bytes dc1) = 16" using st same_regionD(7) [OF sr] by simp
  obtain bs where "length bs = 16" and e2: "effect (cmd_write_offsetB dc) (cmd_write_offsetB dc + 16) 0 dc1 dc2"
    and "\<And>i. i < 16 \<Longrightarrow> cmd_mem dc2 (cmd_region dc1 + cmd_write_offsetB dc + i) = fold put_field fs bs ! i"
    by (rule write_commandE [OF w' f st']) blast
  then show ?thesis using that [of bs] effect_trans [OF e e2] dst le same_regionD(2) [OF sr] by simp
qed

lemma add_prefetch_stepped:
  assumes ok: "dc_ok dc" and r: "add_prefetch c dc = Inr dc'" and c: "cmd_stride c = Some 32"
  shows "stepped i dc dc'"
proof -
  note d = dc_ok_facts [OF ok]
  have a: "align_up sizeof_CQPrefetchCmd (pcie_alignment dc) = 32" by (simp add: d sizeof_CQPrefetchCmd_def align_up_32)
  obtain dst dc1 where r1: "reserve_space 32 dc = Inr (dst, dc1)" and w: "write_command dst (prefetch_fields c) dc1 = Inr dc'"
    using r a by (auto simp: add_prefetch_def rbind_eq_Inr)
  have "cmd_write_offsetB dc + 32 < 2 ^ 32" using d(6) by simp
  then obtain bs where e: "effect (cmd_write_offsetB dc) (cmd_write_offsetB dc + 16) 32 dc dc'"
      and le: "cmd_write_offsetB dc + 32 \<le> cmd_sequence_sizeB dc" and bs: "length bs = 16"
      "\<And>i. i < 16 \<Longrightarrow> cmd_mem dc' (cmd_region dc + cmd_write_offsetB dc + i) = fold put_field (prefetch_fields c) bs ! i"
    by (rule reserve_write [OF r1 w fields_ok_prefetch _ _ d(3)]) auto
  have s: "prefetch_stride 32 (cmd_mem dc') (cmd_region dc + cmd_write_offsetB dc) = Some 32"
    by (rule prefetch_stride_written [OF bs(1) bs(2) c]) auto
  show ?thesis by (rule one_command [OF ok e _ _ s]) (use le d(4) in auto)
qed

lemma add_prefetch_relay_inlineE:
  assumes r: "add_prefetch_relay_inline flush L d dc = Inr dc'" and ok: "dc_ok dc" and L: "L \<le> 2 ^ 29"
  obtains "effect (cmd_write_offsetB dc) (cmd_write_offsetB dc + 16) 16 dc dc'"
    and "prefetch_stride 32 (cmd_mem dc') (cmd_region dc + cmd_write_offsetB dc) = Some ((16 + L + 31) div 32 * 32)"
    and "cmd_write_offsetB dc + 16 \<le> cmd_sequence_sizeB dc"
proof -
  note k = dc_ok_facts [OF ok]
  have s: "align_up (add32 16 L) 32 = (16 + L + 31) div 32 * 32" using L by (simp add: wadd_id align_up_32)
  let ?c = "RelayInline (if flush then CQ_PREFETCH_CMD_RELAY_INLINE else CQ_PREFETCH_CMD_RELAY_INLINE_NOFLUSH)
    (dispatcher_value d) L ((16 + L + 31) div 32 * 32)"
  obtain dst dc1 where r1: "reserve_space 16 dc = Inr (dst, dc1)" and w0: "write_command dst (prefetch_fields
      (RelayInline (if flush then CQ_PREFETCH_CMD_RELAY_INLINE else CQ_PREFETCH_CMD_RELAY_INLINE_NOFLUSH)
        (dispatcher_value d) L (align_up (add32 16 L) (pcie_alignment dc1)))) dc1 = Inr dc'"
    using r by (auto simp: add_prefetch_relay_inline_def rbind_eq_Inr sizeof_CQPrefetchCmd_def)
  have n: "cmd_write_offsetB dc + 16 < 2 ^ 32" using k(6) by simp
  have "pcie_alignment dc1 = 32"
    by (rule reserve_spaceE [OF r1 n]) (use k(1) in \<open>auto simp: effect_def dest: same_regionD(3)\<close>)
  then have w: "write_command dst (prefetch_fields ?c) dc1 = Inr dc'" using w0 s by simp
  obtain bs where e: "effect (cmd_write_offsetB dc) (cmd_write_offsetB dc + 16) 16 dc dc'"
      and le: "cmd_write_offsetB dc + 16 \<le> cmd_sequence_sizeB dc" and bs: "length bs = 16"
      "\<And>i. i < 16 \<Longrightarrow> cmd_mem dc' (cmd_region dc + cmd_write_offsetB dc + i) = fold put_field (prefetch_fields ?c) bs ! i"
    by (rule reserve_write [OF r1 w fields_ok_prefetch n _ k(3)]) auto
  have "prefetch_stride 32 (cmd_mem dc') (cmd_region dc + cmd_write_offsetB dc) = Some ((16 + L + 31) div 32 * 32)"
    by (rule prefetch_stride_written [OF bs]) (use L in auto)
  then show ?thesis by (rule that [OF e _ le])
qed

lemma add_dispatchE:
  assumes r: "add_dispatch c dc = Inr dc'" and n: "cmd_write_offsetB dc + 16 < 2 ^ 32" and st: "length (stack_bytes dc) = 16"
  obtains "effect (cmd_write_offsetB dc) (cmd_write_offsetB dc + 16) 16 dc dc'"
    and "cmd_write_offsetB dc + 16 \<le> cmd_sequence_sizeB dc"
proof -
  obtain dst dc1 where r1: "reserve_space 16 dc = Inr (dst, dc1)" and w: "write_command dst (dispatch_fields c) dc1 = Inr dc'"
    using r by (auto simp: add_dispatch_def rbind_eq_Inr sizeof_CQDispatchCmd_def)
  show ?thesis by (rule reserve_write [OF r1 w fields_ok_dispatch n _ st]) (auto intro: that)
qed

lemma effect_align_offset:
  assumes "pcie_alignment dc = 32" and "cmd_write_offsetB dc \<le> 2 ^ 31"
  shows "effect lo hi ((cmd_write_offsetB dc + 31) div 32 * 32 - cmd_write_offsetB dc) dc (align_offset dc)"
  using assms by (simp add: effect_def same_region_def align_offset_def align_up_32)

lemma add_dataE:
  assumes r: "add_data bs n inc dc = Inr dc'" and "n \<le> inc" and "cmd_write_offsetB dc + inc < 2 ^ 32"
  obtains "effect (cmd_write_offsetB dc) (cmd_write_offsetB dc + inc) inc dc dc'"
    and "cmd_write_offsetB dc + inc \<le> cmd_sequence_sizeB dc"
proof -
  obtain dc1 where m: "dc_memcpy (cmd_region dc + cmd_write_offsetB dc) (take n bs) dc = Inr dc1"
    and dc': "dc' = dc1\<lparr>cmd_write_offsetB := add32 (cmd_write_offsetB dc1) inc\<rparr>" and v: "validate_cmd_write inc dc = Inr ()"
    using r by (auto simp: add_data_def rbind_eq_Inr)
  have e: "effect (cmd_write_offsetB dc) (cmd_write_offsetB dc + inc) 0 dc dc1"
    by (rule effect_mono [OF effect_memcpy [OF m]]) (use assms(2) in auto)
  then have "effect (cmd_write_offsetB dc) (cmd_write_offsetB dc + inc) inc dc1 dc'"
    unfolding dc' by (intro effect_offset) (use assms(3) in \<open>simp add: effect_def\<close>)
  then show ?thesis using effect_trans [OF e] that v assms(3) by (fastforce simp: validate_cmd_write_def wadd_id)
qed

text \<open>A relay-inline header at the offset, and the rest of the command behind it.\<close>

lemma inline_stepped:
  assumes ok: "dc_ok dc" and r: "add_prefetch_relay_inline flush L d dc = Inr dc1" and L: "L \<le> 2 ^ 29"
    and e: "effect lo hi n dc1 dc'" and lo: "cmd_write_offsetB dc + 16 \<le> lo" and hi: "hi \<le> cmd_write_offsetB dc + 16 + n"
    and i: "i \<longrightarrow> hi \<le> cmd_sequence_sizeB dc" and n: "16 + n = (16 + L + 31) div 32 * 32"
  shows "stepped i dc dc'"
proof -
  obtain e1: "effect (cmd_write_offsetB dc) (cmd_write_offsetB dc + 16) 16 dc dc1"
    and s: "prefetch_stride 32 (cmd_mem dc1) (cmd_region dc + cmd_write_offsetB dc) = Some ((16 + L + 31) div 32 * 32)"
    and le: "cmd_write_offsetB dc + 16 \<le> cmd_sequence_sizeB dc"
    by (rule add_prefetch_relay_inlineE [OF r ok L])
  have sr: "same_region dc dc1" using e1 by (simp add: effect_def)
  have s': "prefetch_stride 32 (cmd_mem dc') (cmd_region dc + cmd_write_offsetB dc) = Some (16 + n)"
    using stride_kept [OF e lo, of 32] s n same_regionD(2) [OF sr] by simp
  have e': "effect (cmd_write_offsetB dc) (max (cmd_write_offsetB dc + 16) hi) (16 + n) dc dc'"
    using effect_trans [OF e1 e] lo by (simp add: min_absorb1)
  have 32: "32 dvd 16 + n" using n by simp
  have "cmd_write_offsetB dc \<le> 2 ^ 30" using le dc_ok_facts(4) [OF ok] by simp
  then have b: "cmd_write_offsetB dc + (16 + n) \<le> 2 ^ 31"
    using div_times_less_eq_dividend [of "16 + L + 31" 32] n L by simp
  show ?thesis by (rule one_command [OF ok e' _ _ s' 32 _ b]) (use hi i le in auto)
qed

lemma align_offset_id:
  assumes "pcie_alignment dc = 32" and "cmd_write_offsetB dc \<le> 2 ^ 31" and "32 dvd cmd_write_offsetB dc"
  shows "align_offset dc = dc"
  using assms by (auto simp: align_offset_def align_up_32 elim!: dvdE)

lemma inline_dispatchE:
  assumes ok: "dc_ok dc" and r: "add_prefetch_relay_inline flush L d dc = Inr dc1" and L: "L \<le> 2 ^ 29"
    and r2: "add_dispatch c dc1 = Inr dc2"
  obtains "effect (cmd_write_offsetB dc + 16) (cmd_write_offsetB dc + 32) 16 dc1 dc2"
    and "cmd_write_offsetB dc + 32 \<le> cmd_sequence_sizeB dc" and "cmd_write_offsetB dc2 = cmd_write_offsetB dc + 32"
    and "same_region dc dc2" and "pcie_alignment dc2 = 32" and "dc_l1_alignment dc2 = 16"
proof -
  note k = dc_ok_facts [OF ok]
  obtain e1: "effect (cmd_write_offsetB dc) (cmd_write_offsetB dc + 16) 16 dc dc1"
    by (rule add_prefetch_relay_inlineE [OF r ok L])
  then have sr: "same_region dc dc1" and o1: "cmd_write_offsetB dc1 = cmd_write_offsetB dc + 16" by (simp_all add: effect_def)
  have n: "cmd_write_offsetB dc1 + 16 < 2 ^ 32" using o1 k(6) by simp
  have st: "length (stack_bytes dc1) = 16" using same_regionD(7) [OF sr] k(3) by simp
  obtain e2: "effect (cmd_write_offsetB dc1) (cmd_write_offsetB dc1 + 16) 16 dc1 dc2"
    and le: "cmd_write_offsetB dc1 + 16 \<le> cmd_sequence_sizeB dc1"
    by (rule add_dispatchE [OF r2 n st])
  have sr2: "same_region dc dc2" using same_region_trans [OF sr] e2 by (simp add: effect_def)
  show ?thesis
    by (rule that [OF _ _ _ sr2]) (use e2 le o1 same_regionD [OF sr] same_regionD [OF sr2] k(1,2) in \<open>simp_all add: effect_def add.assoc\<close>)
qed

lemma inline_dispatch_align:
  assumes ok: "dc_ok dc" and r: "add_prefetch_relay_inline flush L d dc = Inr dc1" and L: "L \<le> 16"
    and r2: "add_dispatch c dc1 = Inr dc2"
  shows "stepped i dc dc2" and "align_offset dc2 = dc2"
proof -
  have L': "L \<le> 2 ^ 29" using L by simp
  obtain e: "effect (cmd_write_offsetB dc + 16) (cmd_write_offsetB dc + 32) 16 dc1 dc2"
    and le: "cmd_write_offsetB dc + 32 \<le> cmd_sequence_sizeB dc" and o2: "cmd_write_offsetB dc2 = cmd_write_offsetB dc + 32"
    and p: "pcie_alignment dc2 = 32"
    by (rule inline_dispatchE [OF ok r L' r2])
  show "stepped i dc dc2"
    by (rule inline_stepped [OF ok r L' e]) (use L le in auto)
  show "align_offset dc2 = dc2"
    by (rule align_offset_id [OF p]) (use o2 le dc_ok_facts [OF ok] in auto)
qed

text \<open>Writes with their data inline: the data is rounded up to 32 bytes before or after it is added.\<close>

lemma inline_data_stepped:
  assumes ok: "dc_ok dc" and r: "add_prefetch_relay_inline flush (add32 16 n) d dc = Inr dc1" and n: "n \<le> 2 ^ 28"
    and r2: "add_dispatch c dc1 = Inr dc2" and r3: "add_data bs n inc dc2 = Inr dc3"
    and inc: "inc = (n + 31) div 32 * 32 \<or> inc = n"
  shows "stepped i dc (align_offset dc3)" and "inc = (n + 31) div 32 * 32 \<Longrightarrow> align_offset dc3 = dc3"
proof -
  have L: "add32 16 n = 16 + n" "16 + n \<le> 2 ^ 29" using n by (simp_all add: wadd_id)
  note r' = r [unfolded L(1)]
  obtain e: "effect (cmd_write_offsetB dc + 16) (cmd_write_offsetB dc + 32) 16 dc1 dc2"
    and le: "cmd_write_offsetB dc + 32 \<le> cmd_sequence_sizeB dc" and o2: "cmd_write_offsetB dc2 = cmd_write_offsetB dc + 32"
    and sr: "same_region dc dc2" and p: "pcie_alignment dc2 = 32"
    by (rule inline_dispatchE [OF ok r' L(2) r2])
  note k = dc_ok_facts [OF ok]
  have inc': "n \<le> inc" "inc < n + 32" using inc by auto
  have b: "cmd_write_offsetB dc2 + inc < 2 ^ 32" using o2 le k(4) inc' n by simp
  obtain e3: "effect (cmd_write_offsetB dc2) (cmd_write_offsetB dc2 + inc) inc dc2 dc3"
    and le3: "cmd_write_offsetB dc2 + inc \<le> cmd_sequence_sizeB dc2"
    by (rule add_dataE [OF r3 inc'(1) b])
  define q where "q = cmd_write_offsetB dc div 32"
  have q: "cmd_write_offsetB dc = 32 * q" using k(5) by (simp add: q_def)
  have sr3: "same_region dc2 dc3" and o3: "cmd_write_offsetB dc3 = 32 * q + 32 + inc"
    using e3 o2 q by (simp_all add: effect_def)
  have p3: "pcie_alignment dc3 = 32" using p same_regionD(3) [OF sr3] by simp
  have b3: "cmd_write_offsetB dc3 \<le> 2 ^ 31" using o3 o2 le le3 k(4) same_regionD(1) [OF sr] q by simp
  have up: "(32 * q + 32 + inc + 31) div 32 * 32 = 32 * q + 32 + (n + 31) div 32 * 32"
  proof -
    have "(32 * q + 32 + inc + 31) div 32 = q + 1 + (inc + 31) div 32"
      using div_mult_self1 [of 32 "inc + 31" "q + 1"] by (simp add: algebra_simps)
    moreover have "(inc + 31) div 32 = (n + 31) div 32" using inc by auto
    ultimately show ?thesis by (simp add: algebra_simps)
  qed
  have e4: "effect (cmd_write_offsetB dc2) (cmd_write_offsetB dc2 + inc) ((n + 31) div 32 * 32 - inc) dc3 (align_offset dc3)"
    using effect_align_offset [OF p3 b3] unfolding o3 up by simp
  have ge: "inc \<le> (n + 31) div 32 * 32" using inc by auto
  have all: "effect (cmd_write_offsetB dc + 16) (cmd_write_offsetB dc + 32 + inc) (16 + (n + 31) div 32 * 32) dc1 (align_offset dc3)"
  proof -
    have x: "min (min (cmd_write_offsetB dc + 16) (cmd_write_offsetB dc2)) (cmd_write_offsetB dc2) = cmd_write_offsetB dc + 16"
        "max (max (cmd_write_offsetB dc + 32) (cmd_write_offsetB dc2 + inc)) (cmd_write_offsetB dc2 + inc) =
          cmd_write_offsetB dc + 32 + inc"
        "16 + inc + ((n + 31) div 32 * 32 - inc) = 16 + (n + 31) div 32 * 32"
      using ge by (simp_all add: o2)
    show ?thesis using effect_trans [OF effect_trans [OF e e3] e4] by (simp only: x)
  qed
  show "stepped i dc (align_offset dc3)"
  proof (rule inline_stepped [OF ok r' L(2) all])
    show "16 + (16 + (n + 31) div 32 * 32) = (16 + (16 + n) + 31) div 32 * 32"
      using div_mult_self1 [of 32 "n + 31" 1] by (simp add: algebra_simps)
  next
    show "i \<longrightarrow> cmd_write_offsetB dc + 32 + inc \<le> cmd_sequence_sizeB dc" using le3 o2 same_regionD(1) [OF sr] by simp
  qed (use ge in simp_all)
  show "align_offset dc3 = dc3" if "inc = (n + 31) div 32 * 32"
    by (rule align_offset_id [OF p3 b3]) (use o3 that in auto)
qed

text \<open>Two structures reserved before either is written.\<close>

lemma two_structs_stepped:
  assumes ok: "dc_ok dc" and ra: "reserve_space 16 dc = Inr (a, dcA)" and rb: "reserve_space 16 dcA = Inr (b, dcB)"
    and wa: "write_command a (prefetch_fields c) dcB = Inr dcC" and wb: "write_command b (dispatch_fields d) dcC = Inr dcD"
    and c: "cmd_stride c = Some 32"
  shows "stepped i dc (align_offset dcD)" and "align_offset dcD = dcD"
proof -
  note k = dc_ok_facts [OF ok]
  let ?o = "cmd_write_offsetB dc"
  have n1: "?o + 16 < 2 ^ 32" using k(6) by simp
  obtain da: "a = cmd_region dc + ?o" and ea: "effect ?o (?o + 16) 16 dc dcA" by (rule reserve_spaceE [OF ra n1]) simp_all
  then have oA: "cmd_write_offsetB dcA = ?o + 16" and sA: "same_region dc dcA" by (simp_all add: effect_def)
  have n2: "cmd_write_offsetB dcA + 16 < 2 ^ 32" using oA k(6) by simp
  obtain db: "b = cmd_region dcA + (?o + 16)" and leB: "?o + 32 \<le> cmd_sequence_sizeB dcA"
    and eb: "effect (?o + 16) (?o + 32) 16 dcA dcB"
    by (rule reserve_spaceE [OF rb n2]) (simp_all add: oA add.assoc)
  have sB: "same_region dc dcB" using same_region_trans [OF sA] eb by (simp add: effect_def)
  have wa': "write_command (cmd_region dcB + ?o) (prefetch_fields c) dcB = Inr dcC"
    using wa da same_regionD(2) [OF sB] by simp
  have stB: "length (stack_bytes dcB) = 16" using k(3) same_regionD(7) [OF sB] by simp
  obtain bs where bs: "length bs = 16" and ec: "effect ?o (?o + 16) 0 dcB dcC"
    and bytes: "\<And>j. j < 16 \<Longrightarrow> cmd_mem dcC (cmd_region dcB + ?o + j) = fold put_field (prefetch_fields c) bs ! j"
    by (rule write_commandE [OF wa' fields_ok_prefetch stB]) blast
  have sC: "same_region dc dcC" using same_region_trans [OF sB] ec by (simp add: effect_def)
  have wb': "write_command (cmd_region dcC + (?o + 16)) (dispatch_fields d) dcC = Inr dcD"
    using wb db same_regionD(2) [OF sA] same_regionD(2) [OF sC] by simp
  have stC: "length (stack_bytes dcC) = 16" using k(3) same_regionD(7) [OF sC] by simp
  obtain ed: "effect (?o + 16) (?o + 32) 0 dcC dcD"
    by (rule write_commandE [OF wb' fields_ok_dispatch stC]) (simp add: add.assoc)
  have e: "effect ?o (?o + 32) 32 dc dcD"
    using effect_trans [OF effect_trans [OF effect_trans [OF ea eb] ec] ed] by (simp add: min_def max_def)
  have "prefetch_stride 32 (cmd_mem dcC) (cmd_region dcB + ?o) = Some 32"
    by (rule prefetch_stride_written [OF bs bytes c]) simp_all
  then have s: "prefetch_stride 32 (cmd_mem dcD) (cmd_region dc + ?o) = Some 32"
    using stride_kept [OF ed order.refl, of 32] same_regionD(2) [OF sB] same_regionD(2) [OF sC] by simp
  have le: "?o + 32 \<le> cmd_sequence_sizeB dc" using leB same_regionD(1) [OF sA] by simp
  have "align_offset dcD = dcD"
    by (rule align_offset_id) (use e k le in \<open>auto simp: effect_def dest: same_regionD(3)\<close>)
  moreover have "stepped i dc dcD" by (rule one_command [OF ok e _ _ s]) (use le k in auto)
  ultimately show "stepped i dc (align_offset dcD)" "align_offset dcD = dcD" by simp_all
qed

subsection \<open>Commands with sub-commands\<close>

lemma length_relay_paged_packed [simp]: "length (concat (map relay_paged_packed_bytes cs)) = 12 * length cs"
  by (induction cs) (simp_all add: relay_paged_packed_bytes_def)

lemma length_packed_large [simp]: "length (concat (map packed_large_bytes cs)) = 12 * length cs"
  by (induction cs) (simp_all add: packed_large_bytes_def)

lemma relay_paged_packed_stepped:
  assumes ok: "dc_ok dc" and r: "add_prefetch_relay_paged_packed len cs n idx dc = Inr dc'" and n: "n < 2 ^ 16"
  shows "stepped i dc dc'"
proof -
  note k = dc_ok_facts [OF ok]
  let ?o = "cmd_write_offsetB dc"
  define inc where "inc = (12 * n + 16 + 31) div 32 * 32"
  have a: "align_up (add32 (mul32 n 12) sizeof_CQPrefetchCmd) (pcie_alignment dc) = inc"
    using n k(1) by (simp add: wmul_id wadd_id sizeof_CQPrefetchCmd_def align_up_32 inc_def mult.commute)
  obtain dst dc1 dc2 where r1: "reserve_space inc dc = Inr (dst, dc1)"
    and w: "write_command dst (prefetch_fields (RelayPagedPacked len inc n)) dc1 = Inr dc2"
    and idx: "idx + n \<le> length cs"
    and m: "dc_memcpy (dst + 16) (concat (map relay_paged_packed_bytes (take n (drop idx cs)))) dc2 = Inr dc'"
    using r unfolding add_prefetch_relay_paged_packed_def Let_def a
    by (auto simp: rbind_eq_Inr sizeof_CQPrefetchCmd_def)
  have inc: "12 * n + 16 \<le> inc" "inc < 2 ^ 20" using n by (auto simp: inc_def)
  have o': "?o + inc < 2 ^ 32" "16 \<le> inc" using inc k(6) by simp_all
  obtain bs where e: "effect ?o (?o + 16) inc dc dc2" and le: "?o + inc \<le> cmd_sequence_sizeB dc"
    and dst: "dst = cmd_region dc + ?o" and bs: "length bs = 16"
    and bytes: "\<And>j. j < 16 \<Longrightarrow> cmd_mem dc2 (cmd_region dc + ?o + j) =
      fold put_field (prefetch_fields (RelayPagedPacked len inc n)) bs ! j"
    by (rule reserve_write [OF r1 w fields_ok_prefetch o' k(3)]) blast
  have sr: "same_region dc dc2" using e by (simp add: effect_def)
  have e2: "effect (?o + 16) (?o + 16 + 12 * n) 0 dc2 dc'"
    using effect_memcpy [of dc2 "?o + 16" "concat (map relay_paged_packed_bytes (take n (drop idx cs)))" dc'] m dst same_regionD(2) [OF sr] idx by (simp add: add.assoc)
  have "prefetch_stride 32 (cmd_mem dc2) (cmd_region dc + ?o) = Some inc"
    by (rule prefetch_stride_written [OF bs bytes]) (use inc in auto)
  then have s: "prefetch_stride 32 (cmd_mem dc') (cmd_region dc + ?o) = Some inc"
    using stride_kept [OF e2 order.refl, of 32] same_regionD(2) [OF sr] by simp
  have e3: "effect ?o (?o + 16 + 12 * n) inc dc dc'" using effect_trans [OF e e2] by (simp add: min_def max_def)
  have d: "32 dvd inc" "0 < inc" using inc(1) by (simp_all add: inc_def)
  show ?thesis by (rule one_command [OF ok e3 _ _ s d]) (use le k(4) inc(1) in auto)
qed

lemma packed_large_stepped:
  assumes ok: "dc_ok dc" and r: "add_dispatch_write_packed_large al n cs idx woi dc = Inr dc'"
  shows "stepped i dc dc'"
proof -
  note k = dc_ok_facts [OF ok]
  let ?o = "cmd_write_offsetB dc"
  have n35: "n \<le> 35"
    using r by (auto simp: add_dispatch_write_packed_large_def CQ_DISPATCH_CMD_PACKED_WRITE_LARGE_MAX_SUB_CMDS_def rbind_eq_Inr)
  define L where "L = (12 * n + 16 + 15) div 16 * 16"
  have L: "12 * n + 16 \<le> L" "L \<le> 448" using n35 by (auto simp: L_def)
  define p where "p = (16 + L + 31) div 32 * 32 - 16"
  have p: "L \<le> p" "p < 512" "16 + p = (16 + L + 31) div 32 * 32" using L by (auto simp: p_def)
  have a: "align_up (add32 sizeof_CQDispatchCmd (mul32 n 12)) (dc_l1_alignment dc) = L"
    using n35 k(2) by (simp add: wmul_id wadd_id sizeof_CQDispatchCmd_def align_up_16 L_def mult.commute add.commute)
  obtain dc1 where r1: "add_prefetch_relay_inline False L DISPATCH_MASTER dc = Inr dc1"
    and rest: "rbind (reserve_space (sub32 (align_up (add32 sizeof_CQPrefetchCmd L) (pcie_alignment dc1)) sizeof_CQPrefetchCmd) dc1)
      (\<lambda>(dst, dc). rbind (write_command dst (dispatch_fields (WritePackedLarge n al woi)) dc) (\<lambda>dc.
       rbind (check (idx + n \<le> length cs) (Undefined ''vector access out of range'')) (\<lambda>_.
       rbind (dc_memcpy (dst + sizeof_CQDispatchCmd) (concat (map packed_large_bytes (take n (drop idx cs)))) dc) (\<lambda>dc.
       Inr (align_offset dc))))) = Inr dc'"
    using r unfolding add_dispatch_write_packed_large_def Let_def a by (auto simp: rbind_eq_Inr)
  have L': "L \<le> 2 ^ 29" using L by simp
  obtain e1: "effect ?o (?o + 16) 16 dc dc1" and le1: "?o + 16 \<le> cmd_sequence_sizeB dc"
    by (rule add_prefetch_relay_inlineE [OF r1 ok L'])
  have sr: "same_region dc dc1" and o1: "cmd_write_offsetB dc1 = ?o + 16" using e1 by (simp_all add: effect_def)
  have p': "sub32 (align_up (add32 sizeof_CQPrefetchCmd L) (pcie_alignment dc1)) sizeof_CQPrefetchCmd = p"
    using L same_regionD(3) [OF sr] k(1)
    by (simp add: sizeof_CQPrefetchCmd_def wadd_id align_up_32 p_def wsub_id)
  obtain dst dc2 dc3 dc4 where r2: "reserve_space p dc1 = Inr (dst, dc2)"
    and w: "write_command dst (dispatch_fields (WritePackedLarge n al woi)) dc2 = Inr dc3"
    and idx: "idx + n \<le> length cs"
    and m: "dc_memcpy (dst + 16) (concat (map packed_large_bytes (take n (drop idx cs)))) dc3 = Inr dc4"
    and dc': "dc' = align_offset dc4"
    using rest unfolding p' by (auto simp: rbind_eq_Inr sizeof_CQDispatchCmd_def)
  have b: "cmd_write_offsetB dc1 + p < 2 ^ 32" "16 \<le> p" using o1 p L k(6) by simp_all
  have st: "length (stack_bytes dc1) = 16" using k(3) same_regionD(7) [OF sr] by simp
  obtain e2: "effect (?o + 16) (?o + 32) p dc1 dc3" and le2: "?o + 16 + p \<le> cmd_sequence_sizeB dc1"
    and dst: "dst = cmd_region dc1 + (?o + 16)"
    by (rule reserve_write [OF r2 w fields_ok_dispatch b st]) (auto simp: o1 add.assoc)
  have sr3: "same_region dc1 dc3" using e2 by (simp add: effect_def)
  have e3: "effect (?o + 32) (?o + 32 + 12 * n) 0 dc3 dc4"
    using effect_memcpy [of dc3 "?o + 32" "concat (map packed_large_bytes (take n (drop idx cs)))" dc4] m dst same_regionD(2) [OF sr3] idx by (simp add: add.assoc)
  have e23: "effect (?o + 16) (?o + 32 + 12 * n) p dc1 dc4" using effect_trans [OF e2 e3] by (simp add: min_def max_def)
  have sr4: "same_region dc dc4" using same_region_trans [OF sr] e23 by (simp add: effect_def)
  have d32: "32 dvd 16 + p" unfolding p(3) by simp
  have o4: "cmd_write_offsetB dc4 = ?o + (16 + p)" using e23 o1 by (simp add: effect_def)
  have "align_offset dc4 = dc4"
    by (rule align_offset_id) (use d32 o4 k same_regionD(1,3) [OF sr] same_regionD(3) [OF sr4] le2 in auto)
  moreover have "stepped i dc dc4"
    by (rule inline_stepped [OF ok r1 L' e23 _ _ _ p(3)]) (use p L le2 same_regionD(1) [OF sr] in auto)
  ultimately show ?thesis by (simp add: dc')
qed

subsection \<open>Packed writes\<close>

fun sub_cmd_kind :: "bool \<Rightarrow> PackedSubCmd \<Rightarrow> bool" where
  "sub_cmd_kind multicast (CQDispatchWritePackedUnicastSubCmd _) = (\<not> multicast)"
| "sub_cmd_kind multicast (CQDispatchWritePackedMulticastSubCmd _ _) = multicast"

lemma length_packed_bytes:
  "list_all (sub_cmd_kind mc) cs \<Longrightarrow> length (concat (map packed_bytes cs)) = length cs * sizeof_PackedSubCmd mc"
proof (induction cs)
  case (Cons c cs)
  then show ?case by (cases c) (auto simp: sizeof_PackedSubCmd_def)
qed simp

lemma packed_data_copyE:
  assumes r: "packed_data_copy D inc j dc = Inr dc'" and len: "\<forall>d\<in>set D. length d \<le> inc"
    and b: "cmd_write_offsetB dc + inc < 2 ^ 32"
  shows "effect (cmd_write_offsetB dc) (cmd_write_offsetB dc + inc) inc dc dc'"
proof -
  obtain dc1 where j: "j < length D" and m: "dc_memcpy (cmd_region dc + cmd_write_offsetB dc) (D ! j) dc = Inr dc1"
    and dc': "dc' = advance_offset inc dc1"
    using r by (auto simp: packed_data_copy_def rbind_eq_Inr)
  have e: "effect (cmd_write_offsetB dc) (cmd_write_offsetB dc + inc) 0 dc dc1"
    by (rule effect_mono [OF effect_memcpy [OF m]]) (use len j in auto)
  have "effect (cmd_write_offsetB dc) (cmd_write_offsetB dc + inc) inc dc1 dc'"
    unfolding dc' advance_offset_def by (rule effect_offset) (use e b in \<open>simp add: effect_def\<close>)
  then show ?thesis using effect_trans [OF e] by fastforce
qed

text \<open>Each copy of a loop writes the next \<open>inc\<close> bytes.\<close>

lemma copies_effect:
  assumes "rfold f js dc = Inr dc'"
    and "\<And>j dc dc'. f j dc = Inr dc' \<Longrightarrow> cmd_write_offsetB dc + inc < 2 ^ 32 \<Longrightarrow>
      effect (cmd_write_offsetB dc) (cmd_write_offsetB dc + inc) inc dc dc'"
    and "cmd_write_offsetB dc + length js * inc < 2 ^ 32"
  shows "effect (cmd_write_offsetB dc) (cmd_write_offsetB dc + length js * inc) (length js * inc) dc dc'"
  using assms(1,3)
proof (induction js arbitrary: dc)
  case (Cons j js)
  then obtain dc1 where f: "f j dc = Inr dc1" and rest: "rfold f js dc1 = Inr dc'" by (auto simp: rbind_eq_Inr)
  have e: "effect (cmd_write_offsetB dc) (cmd_write_offsetB dc + inc) inc dc dc1"
    by (rule assms(2) [OF f]) (use Cons.prems(2) in simp)
  then have o1: "cmd_write_offsetB dc1 = cmd_write_offsetB dc + inc" by (simp add: effect_def)
  then have "cmd_write_offsetB dc1 + length js * inc < 2 ^ 32" using Cons.prems(2) by simp
  from effect_trans [OF e Cons.IH [OF rest this]] show ?case by (simp add: o1 max_def add.assoc)
qed simp

text \<open>The header and the sub-commands of a packed write.\<close>

lemma packed_headerE:
  assumes ok: "dc_ok dc"
    and h: "packed_header er mc n addr dsz L cs mx idx ns woi dc = Inr dcH"
    and cs: "list_all (sub_cmd_kind mc) cs"
    and S: "S = (n * sizeof_PackedSubCmd mc + 15) div 16 * 16" and L: "L \<le> 2 ^ 28" "S \<le> 2 ^ 28"
  obtains dc1 where "add_prefetch_relay_inline True L DISPATCH_MASTER dc = Inr dc1"
    and "effect (cmd_write_offsetB dc + 16) (cmd_write_offsetB dc + 32 + S) (16 + S) dc1 dcH"
    and "cmd_write_offsetB dc + 32 \<le> cmd_sequence_sizeB dc" and "cmd_write_offsetB dcH = cmd_write_offsetB dc + 32 + S"
    and "same_region dc dcH"
proof -
  note k = dc_ok_facts [OF ok]
  let ?o = "cmd_write_offsetB dc"
  have SS: "n * sizeof_PackedSubCmd mc \<le> S" "S \<le> 2 ^ 28" using S L by auto
  obtain dc1 dc2 dc3 c where r1: "add_prefetch_relay_inline True L DISPATCH_MASTER dc = Inr dc1"
    and r2: "add_dispatch c dc1 = Inr dc2" and idx: "idx + n \<le> length cs"
    and m: "dc_memcpy (cmd_region dc2 + cmd_write_offsetB dc2) (concat (map packed_bytes (take n (drop idx cs)))) dc2 = Inr dc3"
    and dcH: "dcH = advance_offset (align_up (mul32 n (sizeof_PackedSubCmd mc)) (dc_l1_alignment dc3)) dc3"
    using h by (auto simp: packed_header_def rbind_eq_Inr Let_def)
  have L': "L \<le> 2 ^ 29" using L by simp
  obtain e2: "effect (?o + 16) (?o + 32) 16 dc1 dc2" and le: "?o + 32 \<le> cmd_sequence_sizeB dc"
    and o2: "cmd_write_offsetB dc2 = ?o + 32" and sr: "same_region dc dc2" and al: "pcie_alignment dc2 = 32" "dc_l1_alignment dc2 = 16"
    by (rule inline_dispatchE [OF ok r1 L' r2])
  have "list_all (sub_cmd_kind mc) (take n (drop idx cs))"
    using cs by (auto simp: list_all_iff dest!: in_set_takeD in_set_dropD)
  from length_packed_bytes [OF this] idx have len: "length (concat (map packed_bytes (take n (drop idx cs)))) = n * sizeof_PackedSubCmd mc"
    by simp
  have e3: "effect (?o + 32) (?o + 32 + S) 0 dc2 dc3"
    by (rule effect_mono [OF effect_memcpy [OF m]]) (use o2 len SS in auto)
  have al3: "pcie_alignment dc3 = 32" "dc_l1_alignment dc3 = 16" and o3: "cmd_write_offsetB dc3 = ?o + 32"
    using e3 al o2 same_regionD(3,4) [of dc2 dc3] by (simp_all add: effect_def)
  have up: "align_up (mul32 n (sizeof_PackedSubCmd mc)) (dc_l1_alignment dc3) = S"
    using SS S by (simp add: al3 wmul_id align_up_16)
  have e4: "effect (?o + 32) (?o + 32 + S) S dc3 dcH"
    unfolding dcH up advance_offset_def by (rule effect_offset) (use o3 SS k(6) in simp)
  have oH: "cmd_write_offsetB dcH = ?o + 32 + S" using e4 o3 by (simp add: effect_def)
  have sH: "same_region dc dcH" using same_region_trans [OF sr] same_region_trans [of dc2 dc3 dcH] e3 e4 by (simp add: effect_def)
  show ?thesis
    by (rule that [OF r1 _ le oH sH]) (use effect_trans [OF effect_trans [OF e2 e3] e4] in \<open>simp add: min_def max_def\<close>)
qed

lemma packed_stepped:
  assumes ok: "dc_ok dc"
    and h: "packed_header er mc n addr dsz L cs mx idx ns woi dc = Inr dcH"
    and cs: "list_all (sub_cmd_kind mc) cs"
    and S: "S = (n * sizeof_PackedSubCmd mc + 15) div 16 * 16" and L: "L = 16 + S + T" "L \<le> 2 ^ 28"
    and e: "effect (cmd_write_offsetB dcH) (cmd_write_offsetB dcH + T) T dcH dcT"
  shows "stepped False dc (align_offset dcT)"
proof -
  note k = dc_ok_facts [OF ok]
  let ?o = "cmd_write_offsetB dc"
  have S': "S \<le> 2 ^ 28" and L': "L \<le> 2 ^ 29" using L by simp_all
  obtain dc1 where r1: "add_prefetch_relay_inline True L DISPATCH_MASTER dc = Inr dc1"
    and e4: "effect (?o + 16) (?o + 32 + S) (16 + S) dc1 dcH" and le: "?o + 32 \<le> cmd_sequence_sizeB dc"
    and oH: "cmd_write_offsetB dcH = ?o + 32 + S" and sH: "same_region dc dcH"
    by (rule packed_headerE [OF ok h cs S L(2) S'])
  have e5: "effect (?o + 16) (?o + 32 + S + T) (16 + S + T) dc1 dcT"
    using effect_trans [OF e4 e] by (simp add: oH min_def max_def)
  have oT: "cmd_write_offsetB dcT = ?o + 16 + L" using e oH L by (simp add: effect_def)
  have pT: "pcie_alignment dcT = 32" using e same_regionD(3) [of dcH dcT] same_regionD(3) [OF sH] k(1) by (simp add: effect_def)
  define q where "q = ?o div 32"
  have q: "?o = 32 * q" using k(5) by (simp add: q_def)
  have b: "cmd_write_offsetB dcT \<le> 2 ^ 31" using oT le k(4) L by simp
  have up2: "(cmd_write_offsetB dcT + 31) div 32 * 32 - cmd_write_offsetB dcT = (16 + L + 31) div 32 * 32 - (16 + L)"
    using div_mult_self1 [of 32 "16 + L + 31" q] by (simp add: oT q algebra_simps)
  have e6: "effect (?o + 16) (?o + 32 + S + T) ((16 + L + 31) div 32 * 32 - (16 + L)) dcT (align_offset dcT)"
    using effect_align_offset [OF pT b] unfolding up2 .
  have ge: "16 + L \<le> (16 + L + 31) div 32 * 32" by simp
  have e7: "effect (?o + 16) (?o + 32 + S + T) ((16 + L + 31) div 32 * 32 - 16) dc1 (align_offset dcT)"
  proof -
    have "16 + S + T + ((16 + L + 31) div 32 * 32 - (16 + L)) = (16 + L + 31) div 32 * 32 - 16" using ge L by simp
    then show ?thesis using effect_trans [OF e5 e6] by (simp only: min.idem max.idem)
  qed
  show ?thesis by (rule inline_stepped [OF ok r1 L' e7]) (use ge L in auto)
qed

lemma write_packed_stepped:
  assumes ok: "dc_ok dc"
    and r: "add_dispatch_write_packed mc n addr dsz L cs D mx idx ns woi dc = Inr dc'"
    and cs: "list_all (sub_cmd_kind mc) cs" and D: "\<forall>d\<in>set D. length d \<le> dsz"
    and L: "L = 16 + (n * sizeof_PackedSubCmd mc + 15) div 16 * 16 + (if ns then 1 else n) * ((dsz + 15) div 16 * 16)"
      "L \<le> 2 ^ 28" and dsz: "dsz \<le> 2 ^ 28"
  shows "stepped False dc dc'"
proof -
  define k where "k = (if ns then 1 else n)"
  define W where "W = (dsz + 15) div 16 * 16"
  obtain dcH dcT where h: "packed_header (TT_FATAL ''Max number of packed sub commands'') mc n addr dsz L cs mx idx ns woi dc = Inr dcH"
    and f: "rfold (packed_data_copy D (align_up dsz (dc_l1_alignment dcH))) [idx..<idx + k] dcH = Inr dcT"
    and dc': "dc' = align_offset dcT"
    using r by (auto simp: add_dispatch_write_packed_def rbind_eq_Inr Let_def k_def)
  have S: "(n * sizeof_PackedSubCmd mc + 15) div 16 * 16 \<le> 2 ^ 28" "k * W \<le> 2 ^ 28" using L by (simp_all add: k_def W_def)
  obtain le: "cmd_write_offsetB dc + 32 \<le> cmd_sequence_sizeB dc" and sH: "same_region dc dcH"
    and oH: "cmd_write_offsetB dcH = cmd_write_offsetB dc + 32 + (n * sizeof_PackedSubCmd mc + 15) div 16 * 16"
    by (rule packed_headerE [OF ok h cs refl L(2) S(1)])
  have e: "dc_l1_alignment dcH = 16" using same_regionD(4) [OF sH] dc_ok_facts [OF ok] by simp
  have o': "cmd_write_offsetB dcH + k * W < 2 ^ 32" using oH le S dc_ok_facts(4) [OF ok] by simp
  have W: "align_up dsz (dc_l1_alignment dcH) = W" "dsz \<le> W" using dsz e by (simp_all add: align_up_16 W_def)
  have le: "\<forall>d\<in>set D. length d \<le> W" using D W(2) by fastforce
  have "effect (cmd_write_offsetB dcH) (cmd_write_offsetB dcH + length [idx..<idx + k] * W) (length [idx..<idx + k] * W) dcH dcT"
    by (rule copies_effect [OF f [unfolded W(1)]]) (use packed_data_copyE le o' in auto)
  then have e: "effect (cmd_write_offsetB dcH) (cmd_write_offsetB dcH + k * W) (k * W) dcH dcT" by simp
  show ?thesis unfolding dc' by (rule packed_stepped [OF ok h cs refl _ L(2) e]) (simp add: L k_def W_def)
qed

fun pieces_fit :: "nat \<Rightarrow> nat \<Rightarrow> (8 word list \<times> nat) list \<Rightarrow> bool" where
  "pieces_fit lim o' [] = True"
| "pieces_fit lim o' ((bs, stride) # ps) = (o' + length bs \<le> lim \<and> o' + stride < 2 ^ 32 \<and> pieces_fit lim (o' + stride) ps)"

lemma packed_pieces_effect:
  assumes "rfold packed_piece_copy ps (o', dc) = Inr (o'', dc')" and "pieces_fit lim o' ps"
  shows "effect (cmd_write_offsetB dc) (cmd_write_offsetB dc + lim) 0 dc dc'"
  using assms
proof (induction ps arbitrary: o' dc)
  case (Cons p ps)
  obtain bs stride where p: "p = (bs, stride)" by (cases p)
  with Cons.prems have fit: "o' + length bs \<le> lim" "o' + stride < 2 ^ 32" "pieces_fit lim (o' + stride) ps" by simp_all
  have step: "packed_piece_copy p (o', dc) =
      rbind (dc_memcpy (cmd_region dc + cmd_write_offsetB dc + o') bs dc) (\<lambda>dc. Inr (o' + stride, dc))"
    using fit(2) by (simp add: p packed_piece_copy_def wadd_id)
  obtain dc1 where m: "dc_memcpy (cmd_region dc + cmd_write_offsetB dc + o') bs dc = Inr dc1"
    and rest: "rfold packed_piece_copy ps (o' + stride, dc1) = Inr (o'', dc')"
    using Cons.prems(1) by (auto simp: step rbind_eq_Inr)
  have e: "effect (cmd_write_offsetB dc) (cmd_write_offsetB dc + lim) 0 dc dc1"
    by (rule effect_mono [OF effect_memcpy [OF m [unfolded add.assoc]]]) (use fit in auto)
  then have "cmd_write_offsetB dc1 = cmd_write_offsetB dc" by (simp add: effect_def)
  then show ?case using effect_trans [OF e Cons.IH [OF rest fit(3)]] by simp
qed simp

lemma packed_pieces_copyE:
  assumes r: "packed_pieces_copy D inc j dc = Inr dc'" and fit: "\<forall>d\<in>set D. pieces_fit inc 0 d"
    and b: "cmd_write_offsetB dc + inc < 2 ^ 32"
  shows "effect (cmd_write_offsetB dc) (cmd_write_offsetB dc + inc) inc dc dc'"
proof -
  obtain o'' dc1 where j: "j < length D" and m: "rfold packed_piece_copy (D ! j) (0, dc) = Inr (o'', dc1)"
    and dc': "dc' = advance_offset inc dc1"
    using r by (auto simp: packed_pieces_copy_def rbind_eq_Inr)
  have e: "effect (cmd_write_offsetB dc) (cmd_write_offsetB dc + inc) 0 dc dc1"
    by (rule packed_pieces_effect [OF m]) (use fit j in auto)
  have "effect (cmd_write_offsetB dc) (cmd_write_offsetB dc + inc) inc dc1 dc'"
    unfolding dc' advance_offset_def by (rule effect_offset) (use e b in \<open>simp add: effect_def\<close>)
  then show ?thesis using effect_trans [OF e] by fastforce
qed

lemma pieces_fit_mono: "pieces_fit lim o' ps \<Longrightarrow> lim \<le> lim' \<Longrightarrow> pieces_fit lim' o' ps"
  by (induction lim o' ps rule: pieces_fit.induct) auto

lemma write_packed_strided_stepped:
  assumes ok: "dc_ok dc"
    and r: "add_dispatch_write_packed_strided mc n addr dsz L cs D mx idx ns woi dc = Inr dc'"
    and cs: "list_all (sub_cmd_kind mc) cs" and D: "\<forall>d\<in>set D. pieces_fit dsz 0 d"
    and L: "L = 16 + (n * sizeof_PackedSubCmd mc + 15) div 16 * 16 + (if ns then 1 else n) * ((dsz + 15) div 16 * 16)"
      "L \<le> 2 ^ 28" and dsz: "dsz \<le> 2 ^ 28"
  shows "stepped False dc dc'"
proof -
  define k where "k = (if ns then 1 else n)"
  define W where "W = (dsz + 15) div 16 * 16"
  obtain dcH dcT where h: "packed_header (TT_ASSERT ''Max number of packed sub commands'') mc n addr dsz L cs mx idx ns woi dc = Inr dcH"
    and f: "rfold (packed_pieces_copy D (align_up dsz (dc_l1_alignment dcH))) [idx..<idx + k] dcH = Inr dcT"
    and dc': "dc' = align_offset dcT"
    using r by (auto simp: add_dispatch_write_packed_strided_def rbind_eq_Inr Let_def k_def)
  have S: "(n * sizeof_PackedSubCmd mc + 15) div 16 * 16 \<le> 2 ^ 28" "k * W \<le> 2 ^ 28" using L by (simp_all add: k_def W_def)
  obtain le: "cmd_write_offsetB dc + 32 \<le> cmd_sequence_sizeB dc" and sH: "same_region dc dcH"
    and oH: "cmd_write_offsetB dcH = cmd_write_offsetB dc + 32 + (n * sizeof_PackedSubCmd mc + 15) div 16 * 16"
    by (rule packed_headerE [OF ok h cs refl L(2) S(1)])
  have e: "dc_l1_alignment dcH = 16" using same_regionD(4) [OF sH] dc_ok_facts [OF ok] by simp
  have o': "cmd_write_offsetB dcH + k * W < 2 ^ 32" using oH le S dc_ok_facts(4) [OF ok] by simp
  have W: "align_up dsz (dc_l1_alignment dcH) = W" "dsz \<le> W" using dsz e by (simp_all add: align_up_16 W_def)
  have le: "\<forall>d\<in>set D. pieces_fit W 0 d" using D W(2) pieces_fit_mono by blast
  have "effect (cmd_write_offsetB dcH) (cmd_write_offsetB dcH + length [idx..<idx + k] * W) (length [idx..<idx + k] * W) dcH dcT"
    by (rule copies_effect [OF f [unfolded W(1)]]) (use packed_pieces_copyE le o' in auto)
  then have e: "effect (cmd_write_offsetB dcH) (cmd_write_offsetB dcH + k * W) (k * W) dcH dcT" by simp
  show ?thesis unfolding dc' by (rule packed_stepped [OF ok h cs refl _ L(2) e]) (simp add: L k_def W_def)
qed

subsection \<open>The writers\<close>

lemma write_inline_stepped:
  assumes ok: "dc_ok dc" and n: "data \<noteq> None \<Longrightarrow> n \<le> 2 ^ 28"
    and r: "rbind (add_prefetch_relay_inline (data \<noteq> None) (add32 16 (if data \<noteq> None then n else 0)) d dc) (\<lambda>dc.
      rbind (add_dispatch c dc) (\<lambda>dc. add_inline_data (data \<noteq> None) data n (inc dc) dc)) = Inr dc'"
    and inc: "\<And>dc'. same_region dc dc' \<Longrightarrow> data \<noteq> None \<Longrightarrow> inc dc' = (n + 31) div 32 * 32 \<or> inc dc' = n"
  shows "stepped i dc (align_offset dc')"
    and "(\<And>dc'. same_region dc dc' \<Longrightarrow> data \<noteq> None \<Longrightarrow> inc dc' = (n + 31) div 32 * 32) \<Longrightarrow> align_offset dc' = dc'"
proof -
  obtain dc1 dc2 where r1: "add_prefetch_relay_inline (data \<noteq> None) (add32 16 (if data \<noteq> None then n else 0)) d dc = Inr dc1"
    and r2: "add_dispatch c dc1 = Inr dc2" and r3: "add_inline_data (data \<noteq> None) data n (inc dc2) dc2 = Inr dc'"
    using r by (auto simp: rbind_eq_Inr)
  have "stepped i dc (align_offset dc') \<and>
    ((\<forall>dc'. same_region dc dc' \<longrightarrow> data \<noteq> None \<longrightarrow> inc dc' = (n + 31) div 32 * 32) \<longrightarrow> align_offset dc' = dc')"
  proof (cases data)
    case None
    have L: "add32 16 0 = 16" by (simp add: wadd_id)
    show ?thesis using inline_dispatch_align [OF ok _ order.refl r2] r1 r3 None by (simp add: L add_inline_data_def)
  next
    case (Some bs)
    then have r1': "add_prefetch_relay_inline True (add32 16 n) d dc = Inr dc1" using r1 by simp
    have n': "n \<le> 2 ^ 28" using n Some by simp
    have "add32 16 n \<le> 2 ^ 29" using n' by (simp add: wadd_id)
    then have sr: "same_region dc dc2" by (rule inline_dispatchE [OF ok r1' _ r2])
    have r3': "add_data bs n (inc dc2) dc2 = Inr dc'" using r3 Some by (simp add: add_inline_data_def)
    show ?thesis
      using inline_data_stepped [OF ok r1' n' r2 r3'] inc [OF sr] sr Some by blast
  qed
  then show "stepped i dc (align_offset dc')"
    and "(\<And>dc'. same_region dc dc' \<Longrightarrow> data \<noteq> None \<Longrightarrow> inc dc' = (n + 31) div 32 * 32) \<Longrightarrow> align_offset dc' = dc'"
    by auto
qed

lemma same_region_align:
  "dc_ok dc \<Longrightarrow> same_region dc dc' \<Longrightarrow> n \<le> 2 ^ 28 \<Longrightarrow> align_up n (pcie_alignment dc') = (n + 31) div 32 * 32"
  by (simp add: dc_ok_def same_regionD(3) align_up_32)

lemma reserve_twice_alignment:
  assumes ok: "dc_ok dc" and r: "reserve_space 16 dc = Inr (a, dcA)" "reserve_space 16 dcA = Inr (b, dcB)"
  shows "pcie_alignment dcB = 32"
proof -
  have n: "cmd_write_offsetB dc + 16 < 2 ^ 32" using dc_ok_facts(6) [OF ok] by simp
  obtain e: "effect (cmd_write_offsetB dc) (cmd_write_offsetB dc + 16) 16 dc dcA" by (rule reserve_spaceE [OF r(1) n]) simp_all
  then have n2: "cmd_write_offsetB dcA + 16 < 2 ^ 32" using dc_ok_facts(6) [OF ok] by (simp add: effect_def)
  obtain "effect (cmd_write_offsetB dcA) (cmd_write_offsetB dcA + 16) 16 dcA dcB" by (rule reserve_spaceE [OF r(2) n2]) simp_all
  then show ?thesis using e dc_ok_facts(1) [OF ok] by (auto simp: effect_def dest!: same_regionD(3))
qed

lemma wait_stepped:
  assumes "dc_ok dc" and "add_dispatch_wait barrier address count clear notify do_wait d dc = Inr dc'"
  shows "stepped i dc dc'"
proof -
  obtain a dcA b dcB dcC dcD where r: "reserve_space 16 dc = Inr (a, dcA)" "reserve_space 16 dcA = Inr (b, dcB)"
    and w: "write_command a (prefetch_fields (RelayInline CQ_PREFETCH_CMD_RELAY_INLINE d 16 (pcie_alignment dcB))) dcB = Inr dcC"
    "write_command b (dispatch_fields (Wait barrier (of_bool notify) (of_bool do_wait) address count clear)) dcC = Inr dcD"
    and dc': "dc' = align_offset dcD"
    using assms(2) by (auto simp: add_dispatch_wait_def rbind_eq_Inr sizeof_CQPrefetchCmd_def sizeof_CQDispatchCmd_def)
  have "pcie_alignment dcB = 32" by (rule reserve_twice_alignment [OF assms(1) r])
  then show ?thesis unfolding dc'
    by (intro two_structs_stepped(1) [OF assms(1) r w]) simp
qed

lemma exec_buf_end_stepped:
  assumes "dc_ok dc" and "add_prefetch_exec_buf_end dc = Inr dc'"
  shows "stepped i dc dc'"
proof -
  obtain a dcA b dcB dcC dcD where r: "reserve_space 16 dc = Inr (a, dcA)" "reserve_space 16 dcA = Inr (b, dcB)"
    and w: "write_command a (prefetch_fields (ExecBufEnd 16 (align_up 32 (pcie_alignment dcB)))) dcB = Inr dcC"
    "write_command b (dispatch_fields DispatchExecBufEnd) dcC = Inr dcD"
    and dc': "dc' = align_offset dcD"
    using assms(2) by (auto simp: add_prefetch_exec_buf_end_def rbind_eq_Inr sizeof_CQPrefetchCmd_def sizeof_CQDispatchCmd_def)
  have "pcie_alignment dcB = 32" by (rule reserve_twice_alignment [OF assms(1) r])
  then show ?thesis unfolding dc'
    by (intro two_structs_stepped(1) [OF assms(1) r w]) (simp add: align_up_32)
qed

lemma inline_16_stepped:
  assumes "dc_ok dc" and "rbind (add_prefetch_relay_inline True sizeof_CQDispatchCmd d dc) (\<lambda>dc. rbind (add_dispatch c dc) (\<lambda>dc. Inr (align_offset dc))) = Inr dc'"
  shows "stepped i dc dc'"
proof -
  obtain dc1 dc2 where r: "add_prefetch_relay_inline True 16 d dc = Inr dc1" "add_dispatch c dc1 = Inr dc2" and dc': "dc' = align_offset dc2"
    using assms(2) by (auto simp: rbind_eq_Inr sizeof_CQDispatchCmd_def)
  show ?thesis using inline_dispatch_align [OF assms(1) r(1) order.refl r(2)] dc' by simp
qed

lemma write_linear_stepped:
  assumes ok: "dc_ok dc" and r: "add_dispatch_write_linear (data \<noteq> None) (data \<noteq> None) dests noc addr sz data woi dc = Inr dc'"
    and n: "data \<noteq> None \<Longrightarrow> sz \<le> 2 ^ 28"
  shows "stepped i dc dc'"
proof -
  note t = write_inline_stepped [OF ok n r [unfolded add_dispatch_write_linear_def Let_def sizeof_CQDispatchCmd_def]]
  show ?thesis using t(1) [of i] t(2) same_region_align [OF ok _ n] by simp
qed

lemma write_paged_stepped:
  assumes ok: "dc_ok dc" and r: "add_dispatch_write_paged (data \<noteq> None) (data \<noteq> None) is_dram start base psize pages data dc = Inr dc'"
    and n: "data \<noteq> None \<Longrightarrow> psize * pages \<le> 2 ^ 28"
  shows "stepped i dc dc'"
proof -
  have n': "mul32 psize pages \<le> 2 ^ 28" if "data \<noteq> None" using n [OF that] by (simp add: wmul_id)
  note t = write_inline_stepped [OF ok n' r [unfolded add_dispatch_write_paged_def Let_def sizeof_CQDispatchCmd_def]]
  show ?thesis using t(1) [of i] t(2) same_region_align [OF ok _ n'] by simp
qed

lemma write_host_stepped:
  assumes ok: "dc_ok dc" and r: "add_dispatch_write_host (data \<noteq> None) (data \<noteq> None) sz ev data dc = Inr dc'"
    and n: "data \<noteq> None \<Longrightarrow> sz \<le> 2 ^ 28"
  shows "stepped i dc dc'"
proof -
  obtain dc1 where r1: "rbind (add_prefetch_relay_inline (data \<noteq> None) (add32 16 (if data \<noteq> None then sz else 0)) DISPATCH_MASTER dc) (\<lambda>dc.
      rbind (add_dispatch (WriteHost (of_bool ev) (add32 16 sz)) dc) (\<lambda>dc. add_inline_data (data \<noteq> None) data sz sz dc)) = Inr dc1"
    and dc': "dc' = align_offset dc1"
    using r by (auto simp: add_dispatch_write_host_def sizeof_CQDispatchCmd_def Let_def rbind_eq_Inr)
  show ?thesis unfolding dc' by (rule write_inline_stepped(1) [OF ok n r1]) simp_all
qed

lemma set_unicast_only_cores_stepped:
  assumes ok: "dc_ok dc" and r: "add_dispatch_set_unicast_only_cores nocs d dc = Inr dc'" and n: "length nocs \<le> 2 ^ 26"
  shows "stepped i dc dc'"
proof -
  define k where "k = length nocs * 4"
  have k: "k \<le> 2 ^ 28" "mul32 (length nocs) 4 = k" "u32 (16 + k) = add32 16 k"
    using n by (simp_all add: k_def wmul_id wadd_def wcast_def)
  let ?bs = "concat (map (le_bytes 4) nocs)"
  have r': "rbind (add_prefetch_relay_inline (Some ?bs \<noteq> None) (add32 16 (if Some ?bs \<noteq> None then k else 0)) d dc) (\<lambda>dc.
      rbind (add_dispatch (SetUnicastOnlyCores (length nocs)) dc) (\<lambda>dc.
        add_inline_data (Some ?bs \<noteq> None) (Some ?bs) k (align_up k (pcie_alignment dc)) dc)) = Inr dc'"
    using r by (simp add: add_dispatch_set_unicast_only_cores_def sizeof_CQDispatchCmd_def k add_inline_data_def k_def [symmetric])
  note t = write_inline_stepped [OF ok k(1) r']
  show ?thesis using t(1) [of i] t(2) same_region_align [OF ok _ k(1)] by simp
qed

end
