(* ===== verification/Device_Command_Props.thy ===== *)
theory Device_Command_Props
  imports Device_Command_Steps
begin

text \<open>
  Sequences of calls of \<^verbatim>\<open>DeviceCommand\<close>: the prefetcher finds the commands that the host wrote, and the calls stay inside the region.
\<close>

subsection \<open>Sequences of writers\<close>

text \<open>
  The calls a sequence can be made of: every public function of \<^verbatim>\<open>DeviceCommand\<close> that writes.  A write whose data is flushed with it
  has the data inline (\<open>Some\<close>), or announces it (\<open>Op_write_linear_open\<close>, \<open>Op_write_paged_open\<close>, \<open>Op_write_host_open\<close>) and the
  calls that follow add it, as \<^verbatim>\<open>EnqueueWriteBufferCommand\<close> does: \<open>Op_add_data\<close>, or \<open>Op_reserve_data\<close> and then
  \<open>Op_update\<close>.  \<open>Op_add_commands\<close> is \<^verbatim>\<open>add_data\<close> with a sequence of commands assembled elsewhere, and \<open>Op_update\<close> also patches a
  command that is already there, both as \<^verbatim>\<open>EnqueueProgramCommand\<close> does.
\<close>

datatype device_op =
    Op_wait nat nat nat nat bool bool nat
  | Op_wait_with_prefetch_stall nat nat nat nat bool
  | Op_relay_linear nat nat nat
  | Op_relay_paged nat nat nat nat nat nat
  | Op_relay_paged_packed nat "CQPrefetchRelayPagedPackedSubCmd list" nat nat
  | Op_write_linear nat nat nat nat "8 word list option" nat
  | Op_write_linear_open nat nat nat nat nat
  | Op_go_signal_mcast nat nat nat nat DispatcherSelect
  | Op_notify_dispatch_s
  | Op_write_paged nat nat nat nat nat "8 word list option"
  | Op_write_paged_open nat nat nat nat nat
  | Op_write_host nat bool "8 word list option"
  | Op_write_host_open nat bool
  | Op_exec_buf nat nat nat
  | Op_set_unicast_only_cores "nat list" DispatcherSelect
  | Op_set_write_offsets nat nat nat
  | Op_dispatch_terminate DispatcherSelect
  | Op_prefetch_terminate
  | Op_exec_buf_end
  | Op_write_packed_large nat nat "CQDispatchWritePackedLargeSubCmd list" nat nat
  | Op_write_packed bool nat nat nat nat "PackedSubCmd list" "8 word list list" nat nat bool nat
  | Op_write_packed_strided bool nat nat nat nat "PackedSubCmd list" "(8 word list \<times> nat) list list" nat nat bool nat
  | Op_add_data "8 word list" nat nat
  | Op_add_commands "8 word list"
  | Op_reserve_data nat
  | Op_update nat "8 word list"

fun run_op :: "device_op \<Rightarrow> DeviceCommand \<Rightarrow> DeviceCommand result" where
  "run_op (Op_wait barrier address count clear notify do_wait d) = add_dispatch_wait barrier address count clear notify do_wait d"
| "run_op (Op_wait_with_prefetch_stall barrier address count clear do_wait) =
     add_dispatch_wait_with_prefetch_stall barrier address count clear do_wait"
| "run_op (Op_relay_linear noc len addr) = add_prefetch_relay_linear noc len addr"
| "run_op (Op_relay_paged is_dram start base psize pages adj) = add_prefetch_relay_paged is_dram start base psize pages adj"
| "run_op (Op_relay_paged_packed len cs n idx) = add_prefetch_relay_paged_packed len cs n idx"
| "run_op (Op_write_linear dests noc addr sz data woi) =
     add_dispatch_write_linear (data \<noteq> None) (data \<noteq> None) dests noc addr sz data woi"
| "run_op (Op_write_linear_open dests noc addr sz woi) = add_dispatch_write_linear False True dests noc addr sz None woi"
| "run_op (Op_go_signal_mcast wc flag sig addr d) = add_dispatch_go_signal_mcast wc flag sig addr d"
| "run_op Op_notify_dispatch_s = add_notify_dispatch_s_go_signal_cmd"
| "run_op (Op_write_paged is_dram start base psize pages data) =
     add_dispatch_write_paged (data \<noteq> None) (data \<noteq> None) is_dram start base psize pages data"
| "run_op (Op_write_paged_open is_dram start base psize pages) =
     add_dispatch_write_paged False True is_dram start base psize pages None"
| "run_op (Op_write_host sz ev data) = add_dispatch_write_host (data \<noteq> None) (data \<noteq> None) sz ev data"
| "run_op (Op_write_host_open sz ev) = add_dispatch_write_host False True sz ev None"
| "run_op (Op_exec_buf base lps pages) = add_prefetch_exec_buf base lps pages"
| "run_op (Op_set_unicast_only_cores nocs d) = add_dispatch_set_unicast_only_cores nocs d"
| "run_op (Op_set_write_offsets a b c) = add_dispatch_set_write_offsets a b c"
| "run_op (Op_dispatch_terminate d) = add_dispatch_terminate d"
| "run_op Op_prefetch_terminate = add_prefetch_terminate"
| "run_op Op_exec_buf_end = add_prefetch_exec_buf_end"
| "run_op (Op_write_packed_large al n cs idx woi) = add_dispatch_write_packed_large al n cs idx woi"
| "run_op (Op_write_packed mc n addr dsz L cs D mx idx ns woi) = add_dispatch_write_packed mc n addr dsz L cs D mx idx ns woi"
| "run_op (Op_write_packed_strided mc n addr dsz L cs D mx idx ns woi) =
     add_dispatch_write_packed_strided mc n addr dsz L cs D mx idx ns woi"
| "run_op (Op_add_data data n inc) = add_data data n inc"
| "run_op (Op_add_commands cmds) = add_data cmds (length cmds) (length cmds)"
| "run_op (Op_reserve_data n) = (\<lambda>dc. rbind (reserve_data n dc) (\<lambda>(_, dc). Inr dc))"
| "run_op (Op_update off data) = update_cmd_sequence off data"

text \<open>The bytes of payload the last header announced and that are still to be added: an open write announces its data rounded up to
  32 bytes.\<close>

fun owed_after :: "device_op \<Rightarrow> nat \<Rightarrow> nat" where
  "owed_after (Op_write_linear_open dests noc addr sz woi) p = (sz + 31) div 32 * 32"
| "owed_after (Op_write_paged_open is_dram start base psize pages) p = (psize * pages + 31) div 32 * 32"
| "owed_after (Op_write_host_open sz ev) p = (sz + 31) div 32 * 32"
| "owed_after (Op_add_data data n inc) p = p - inc"
| "owed_after (Op_reserve_data n) p = p - n"
| "owed_after _ p = p"

text \<open>The addresses of the commands between \<open>a\<close> and \<open>b\<close>, as the prefetcher visits them.\<close>

fun command_starts :: "nat \<Rightarrow> mem \<Rightarrow> nat \<Rightarrow> nat \<Rightarrow> nat list" where
  "command_starts 0 m a b = []"
| "command_starts (Suc fuel) m a b =
     (if a < b
      then a # (case prefetch_stride 32 m a of None \<Rightarrow> [] | Some s \<Rightarrow> command_starts fuel m (a + s) b)
      else [])"

text \<open>Whether a sequence of commands can be followed from \<open>a\<close> to \<open>b\<close>.\<close>

fun walkable :: "nat \<Rightarrow> mem \<Rightarrow> nat \<Rightarrow> nat \<Rightarrow> bool" where
  "walkable 0 m a b = (a = b)"
| "walkable (Suc fuel) m a b =
     (a = b \<or> (case prefetch_stride 32 m a of None \<Rightarrow> False | Some s \<Rightarrow> 16 \<le> s \<and> walkable fuel m (a + s) b))"

text \<open>
  What the callers have to keep to.  The sizes are moderate, and the payload given for a packed write is the size of what is written.
  Data is added only to an open write, not more than it announced, and not more is copied than the offset advances.  A new command
  begins only when no payload is owed.  Commands assembled elsewhere can be walked.  A patch leaves the
  sixteen bytes at the start of each command alone, which is where the prefetcher reads.
\<close>

definition packed_args_ok :: "bool \<Rightarrow> nat \<Rightarrow> nat \<Rightarrow> nat \<Rightarrow> bool \<Rightarrow> bool" where
  "packed_args_ok mc n dsz L ns \<longleftrightarrow>
     L = 16 + (n * sizeof_PackedSubCmd mc + 15) div 16 * 16 + (if ns then 1 else n) * ((dsz + 15) div 16 * 16) \<and>
     L \<le> 2 ^ 28 \<and> dsz \<le> 2 ^ 28"

fun args_ok :: "device_op \<Rightarrow> bool" where
  "args_ok (Op_relay_paged_packed len cs n idx) = (n < 2 ^ 16)"
| "args_ok (Op_write_linear dests noc addr sz data woi) = (data \<noteq> None \<longrightarrow> sz \<le> 2 ^ 28)"
| "args_ok (Op_write_linear_open dests noc addr sz woi) = (sz \<le> 2 ^ 28)"
| "args_ok (Op_write_paged is_dram start base psize pages data) = (data \<noteq> None \<longrightarrow> psize * pages \<le> 2 ^ 28)"
| "args_ok (Op_write_paged_open is_dram start base psize pages) = (psize * pages \<le> 2 ^ 28)"
| "args_ok (Op_write_host sz ev data) = (data \<noteq> None \<longrightarrow> sz \<le> 2 ^ 28)"
| "args_ok (Op_write_host_open sz ev) = (sz \<le> 2 ^ 28)"
| "args_ok (Op_set_unicast_only_cores nocs d) = (length nocs \<le> 2 ^ 26)"
| "args_ok (Op_write_packed mc n addr dsz L cs D mx idx ns woi) =
     (packed_args_ok mc n dsz L ns \<and> list_all (sub_cmd_kind mc) cs \<and> list_all (\<lambda>d. length d \<le> dsz) D)"
| "args_ok (Op_write_packed_strided mc n addr dsz L cs D mx idx ns woi) =
     (packed_args_ok mc n dsz L ns \<and> list_all (sub_cmd_kind mc) cs \<and> list_all (pieces_fit dsz 0) D)"
| "args_ok (Op_add_commands cmds) = 
     (length cmds \<le> 2 ^ 28 \<and> 32 dvd length cmds \<and> walkable (length cmds) (store_bytes 0 cmds (\<lambda>_. 0)) 0 (length cmds))"
| "args_ok _ = True"

fun op_ok :: "device_op \<Rightarrow> nat \<Rightarrow> DeviceCommand \<Rightarrow> bool" where
  "op_ok (Op_add_data data n inc) p dc = (n \<le> inc \<and> inc \<le> p)"
| "op_ok (Op_reserve_data n) p dc = (n \<le> p)"
| "op_ok (Op_update off data) p dc =
     list_all (\<lambda>c. c + 16 \<le> cmd_region dc + off \<or> cmd_region dc + off + length data \<le> c)
       (command_starts (cmd_write_offsetB dc) (cmd_mem dc) (cmd_region dc) (cmd_region dc + cmd_write_offsetB dc))"
| "op_ok x p dc = (p = 0 \<and> args_ok x)"

fun ops_ok :: "device_op list \<Rightarrow> nat \<Rightarrow> DeviceCommand \<Rightarrow> bool" where
  "ops_ok [] p dc = True"
| "ops_ok (x # xs) p dc =
     (op_ok x p dc \<and> (case run_op x dc of Inl _ \<Rightarrow> True | Inr dc' \<Rightarrow> ops_ok xs (owed_after x p) dc'))"

text \<open>A call is checked when it cannot write outside the region: all but the packed writes with separate data, which copy their sub-commands
  and data without \<^verbatim>\<open>validate_cmd_write\<close>, and patches beyond the end.\<close>

fun checked :: "nat \<Rightarrow> device_op \<Rightarrow> bool" where
  "checked sizeB (Op_write_packed _ _ _ _ _ _ _ _ _ _ _) = False"
| "checked sizeB (Op_write_packed_strided _ _ _ _ _ _ _ _ _ _ _) = False"
| "checked sizeB (Op_update off data) = (off + length data \<le> sizeB)"
| "checked sizeB _ = True"

subsection \<open>A call that writes whole commands\<close>

lemma walkable_walks: "walkable fuel m a b \<Longrightarrow> walks 32 m a b"
proof (induction fuel arbitrary: a)
  case (Suc fuel)
  then show ?case by (cases "a = b") (auto intro: walks.intros split: option.splits)
qed (auto intro: walks_end)

lemma walks_shift:
  assumes "walks al m a b" and "\<And>x. a \<le> x \<Longrightarrow> x < b \<Longrightarrow> m' (d + x) = m x"
  shows "walks al m' (d + a) (d + b)"
  using assms
proof (induction rule: walks.induct)
  case (walks_next a s b)
  have b: "a + s \<le> b" by (rule walks_le [OF walks_next.hyps(3)])
  have m': "m' (d + (a + i)) = m (a + i)" if "i < 16" for i
    using walks_next.prems [of "a + i"] walks_next.hyps(2) b that by simp
  have "prefetch_stride al m' (d + a) = prefetch_stride al m a"
  proof -
    have i: "d + a + 8 = d + (a + 8)" "d + (a + 8) + 1 = d + (a + 9)" "d + (a + 8) + 2 = d + (a + 10)"
        "d + (a + 8) + 3 = d + (a + 11)" "a + 8 + 1 = a + 9" "a + 8 + 2 = a + 10" "a + 8 + 3 = a + 11" by simp_all
    have "read32 m' (d + a + 8) = read32 m (a + 8)" unfolding read32_def i using m' [of 8] m' [of 9] m' [of 10] m' [of 11] by simp
    then show ?thesis using m' [of 0] by (simp add: prefetch_stride_def Let_def)
  qed
  moreover have "walks al m' (d + a + s) (d + b)" using walks_next.IH walks_next.prems by (simp add: add.assoc)
  ultimately show ?case using walks.walks_next walks_next.hyps(1,2) by metis
qed (rule walks_end)

lemma add_commands_stepped:
  assumes ok: "dc_ok dc" and r: "add_data cmds (length cmds) (length cmds) dc = Inr dc'"
    and w: "walkable (length cmds) (store_bytes 0 cmds (\<lambda>_. 0)) 0 (length cmds)" and n: "32 dvd length cmds" "length cmds \<le> 2 ^ 28"
  shows "stepped i dc dc'"
proof -
  note k = dc_ok_facts [OF ok]
  have b: "cmd_write_offsetB dc + length cmds < 2 ^ 32" using k(6) n(2) by simp
  obtain e: "effect (cmd_write_offsetB dc) (cmd_write_offsetB dc + length cmds) (length cmds) dc dc'"
    and le: "cmd_write_offsetB dc + length cmds \<le> cmd_sequence_sizeB dc"
    by (rule add_dataE [OF r order.refl b])
  obtain dc1 where m: "dc_memcpy (cmd_region dc + cmd_write_offsetB dc) cmds dc = Inr dc1" "cmd_mem dc' = cmd_mem dc1"
    using r by (auto simp: add_data_def rbind_eq_Inr)
  have bytes: "cmd_mem dc' (cmd_region dc + cmd_write_offsetB dc + x) = store_bytes 0 cmds (\<lambda>_. 0) x" if "x < length cmds" for x
    using dc_memcpy_Inr [OF m(1)] m(2) that by (simp add: store_bytes_def)
  have "walks 32 (cmd_mem dc') (cmd_region dc + cmd_write_offsetB dc + 0) (cmd_region dc + cmd_write_offsetB dc + length cmds)"
    by (rule walks_shift [OF walkable_walks [OF w]]) (rule bytes)
  then have "walks 32 (cmd_mem dc') (cmd_region dc + cmd_write_offsetB dc) (cmd_region dc + cmd_write_offsetB dc + length cmds)"
    by simp
  then show ?thesis
    using e le k n b same_regionD [of dc dc'] by (auto simp: stepped_def effect_def dc_ok_def add.assoc intro!: exI [of _ "cmd_write_offsetB dc + length cmds"])
qed

lemma args_ok_stepped:
  assumes ok: "dc_ok dc" and o': "op_ok x 0 dc" and p: "owed_after x 0 = 0" and r: "run_op x dc = Inr dc'"
    and v: "i \<longrightarrow> checked (cmd_sequence_sizeB dc) x"
    and whole: "\<And>data n inc. x \<noteq> Op_add_data data n inc" "\<And>n. x \<noteq> Op_reserve_data n" "\<And>off data. x \<noteq> Op_update off data"
      "\<And>dests noc addr sz woi. x \<noteq> Op_write_linear_open dests noc addr sz woi"
      "\<And>d st base psize pages. x \<noteq> Op_write_paged_open d st base psize pages" "\<And>sz ev. x \<noteq> Op_write_host_open sz ev"
  shows "stepped i dc dc'"
proof (cases x)
  case (Op_wait a b c d e f g)
  then show ?thesis using wait_stepped [OF ok] r by simp
next
  case (Op_wait_with_prefetch_stall barrier address count clear do_wait)
  then obtain dc1 where r1: "add_dispatch_wait barrier address count clear True do_wait 0 dc = Inr dc1"
    and r2: "add_prefetch (PrefetchPlain CQ_PREFETCH_CMD_STALL) dc1 = Inr dc'"
    using r by (auto simp: add_dispatch_wait_with_prefetch_stall_def rbind_eq_Inr)
  have s1: "stepped i dc dc1" by (rule wait_stepped [OF ok r1])
  then have ok1: "dc_ok dc1" by (simp add: stepped_def)
  have "stepped i dc1 dc'" by (rule add_prefetch_stepped [OF ok1 r2]) simp
  then show ?thesis by (rule stepped_trans [OF s1])
next
  case (Op_write_packed mc n addr dsz L cs D mx idx ns woi)
  then have "\<not> i" using v by simp
  then show ?thesis using write_packed_stepped [OF ok, of mc n addr dsz L cs D mx idx ns woi dc'] r o' Op_write_packed
    by (simp add: packed_args_ok_def list_all_iff)
next
  case (Op_write_packed_strided mc n addr dsz L cs D mx idx ns woi)
  then have "\<not> i" using v by simp
  then show ?thesis using write_packed_strided_stepped [OF ok, of mc n addr dsz L cs D mx idx ns woi dc'] r o' Op_write_packed_strided
    by (simp add: packed_args_ok_def list_all_iff)
next
  case (Op_add_commands cmds)
  then show ?thesis using add_commands_stepped [OF ok] r o' by simp
qed (use r o' whole in \<open>auto simp: add_prefetch_relay_linear_def add_prefetch_relay_paged_def add_prefetch_exec_buf_def add_prefetch_terminate_def
    add_dispatch_go_signal_mcast_def add_notify_dispatch_s_go_signal_cmd_def add_dispatch_set_write_offsets_def add_dispatch_terminate_def
    simp del: not_None_eq
    intro: add_prefetch_stepped [OF ok] relay_paged_packed_stepped [OF ok] packed_large_stepped [OF ok] write_linear_stepped [OF ok]
      write_paged_stepped [OF ok] write_host_stepped [OF ok] inline_16_stepped [OF ok] exec_buf_end_stepped [OF ok]
      set_unicast_only_cores_stepped [OF ok]\<close>)

subsection \<open>Sequences of calls\<close>

text \<open>
  While \<open>p\<close> bytes of payload are owed, the commands before the last can be walked from the start of the region, and the
  stride of the last one points \<open>p\<close> bytes past the offset.  The flag \<open>i\<close> says that nothing outside the region has changed.
\<close>

definition tracked :: "bool \<Rightarrow> nat \<Rightarrow> nat \<Rightarrow> mem \<Rightarrow> nat \<Rightarrow> DeviceCommand \<Rightarrow> bool" where
  "tracked i region sizeB m0 p dc \<longleftrightarrow>
     cmd_region dc = region \<and> cmd_sequence_sizeB dc = sizeB \<and> pcie_alignment dc = 32 \<and> dc_l1_alignment dc = 16 \<and>
     length (stack_bytes dc) = 16 \<and> sizeB \<le> 2 ^ 30 \<and> 32 dvd cmd_write_offsetB dc + p \<and> cmd_write_offsetB dc + p \<le> 2 ^ 31 \<and>
     (\<exists>h. walks 32 (cmd_mem dc) region h \<and>
        (if p = 0 then h = region + cmd_write_offsetB dc
         else h + 32 \<le> region + cmd_write_offsetB dc \<and>
           prefetch_stride 32 (cmd_mem dc) h = Some (region + cmd_write_offsetB dc + p - h))) \<and>
     (i \<longrightarrow> (\<forall>x. x < region \<or> region + sizeB \<le> x \<longrightarrow> cmd_mem dc x = m0 x))"

lemma tracked_dc_ok: "tracked i region sizeB m0 0 dc \<Longrightarrow> dc_ok dc"
  by (auto simp: tracked_def dc_ok_def)

lemma tracked_bounds:
  assumes "tracked i region sizeB m0 p dc"
  shows "cmd_region dc = region" "cmd_sequence_sizeB dc = sizeB" "sizeB \<le> 2 ^ 30" "cmd_write_offsetB dc + p \<le> 2 ^ 31"
  using assms by (simp_all add: tracked_def)

lemma tracked_end:
  assumes "tracked i region sizeB m0 p dc"
  shows "walks 32 (cmd_mem dc) region (region + cmd_write_offsetB dc + p)"
proof -
  obtain h where h: "walks 32 (cmd_mem dc) region h" "if p = 0 then h = region + cmd_write_offsetB dc
      else h + 32 \<le> region + cmd_write_offsetB dc \<and> prefetch_stride 32 (cmd_mem dc) h = Some (region + cmd_write_offsetB dc + p - h)"
    using assms by (auto simp: tracked_def)
  show ?thesis
  proof (cases "p = 0")
    case False
    then have "walks 32 (cmd_mem dc) h (h + (region + cmd_write_offsetB dc + p - h))"
      using h(2) by (intro walks_next [OF _ _ walks_end]) auto
    then show ?thesis using walks_trans [OF h(1)] h(2) False by simp
  qed (use h in simp)
qed

lemma tracked_stepped:
  assumes t: "tracked i region sizeB m0 0 dc" and s: "stepped i dc dc'"
  shows "tracked i region sizeB m0 0 dc'"
proof -
  note b = tracked_bounds [OF t]
  have sr: "same_region dc dc'" and ok: "dc_ok dc'" using s by (simp_all add: stepped_def)
  obtain e where e: "i \<longrightarrow> e \<le> sizeB"
      "\<And>x. x < region + cmd_write_offsetB dc \<or> region + e \<le> x \<Longrightarrow> cmd_mem dc' x = cmd_mem dc x"
    using s b by (auto simp: stepped_def)
  have "walks 32 (cmd_mem dc') region (region + cmd_write_offsetB dc)"
    by (rule walks_cong [OF tracked_end [OF t, simplified]]) (use e(2) in simp)
  then have "walks 32 (cmd_mem dc') region (region + cmd_write_offsetB dc')"
    by (rule walks_trans) (use s b in \<open>simp add: stepped_def\<close>)
  moreover have "i \<longrightarrow> (\<forall>x. x < region \<or> region + sizeB \<le> x \<longrightarrow> cmd_mem dc' x = m0 x)"
  proof (intro impI allI)
    fix x assume i: i and x: "x < region \<or> region + sizeB \<le> x"
    then have "cmd_mem dc' x = cmd_mem dc x" using e by (intro e(2)) auto
    then show "cmd_mem dc' x = m0 x" using t i x by (auto simp: tracked_def)
  qed
  ultimately show ?thesis using dc_ok_facts [OF ok] same_regionD [OF sr] b by (auto simp: tracked_def)
qed

text \<open>The header of an open write.\<close>

lemma tracked_open:
  assumes t: "tracked i region sizeB m0 0 dc" and r: "add_prefetch_relay_inline True (add32 16 n) d dc = Inr dc1"
    and n: "n \<le> 2 ^ 28" and r2: "add_dispatch c dc1 = Inr dc2"
  shows "tracked i region sizeB m0 ((n + 31) div 32 * 32) dc2"
proof -
  note ok = tracked_dc_ok [OF t] and b = tracked_bounds [OF t]
  define p where "p = (n + 31) div 32 * 32"
  have L: "add32 16 n = 16 + n" "16 + n \<le> 2 ^ 29" using n by (simp_all add: wadd_id)
  note r' = r [unfolded L(1)]
  have stride: "(16 + (16 + n) + 31) div 32 * 32 = 32 + p" using div_mult_self1 [of 32 "n + 31" 1] by (simp add: p_def algebra_simps)
  obtain e1: "effect (cmd_write_offsetB dc) (cmd_write_offsetB dc + 16) 16 dc dc1"
    and s1: "prefetch_stride 32 (cmd_mem dc1) (cmd_region dc + cmd_write_offsetB dc) = Some (32 + p)"
    by (rule add_prefetch_relay_inlineE [OF r' ok L(2), unfolded stride])
  obtain e2: "effect (cmd_write_offsetB dc + 16) (cmd_write_offsetB dc + 32) 16 dc1 dc2"
    and le: "cmd_write_offsetB dc + 32 \<le> cmd_sequence_sizeB dc" and o2: "cmd_write_offsetB dc2 = cmd_write_offsetB dc + 32"
    and sr: "same_region dc dc2"
    by (rule inline_dispatchE [OF ok r' L(2) r2])
  have sr1: "same_region dc dc1" using e1 by (simp add: effect_def)
  have s2: "prefetch_stride 32 (cmd_mem dc2) (region + cmd_write_offsetB dc) = Some (32 + p)"
    using stride_kept [OF e2 order.refl, of 32] s1 same_regionD(2) [OF sr1] b(1) by simp
  have e: "effect (cmd_write_offsetB dc) (cmd_write_offsetB dc + 32) 32 dc dc2"
    using effect_trans [OF e1 e2] by (simp add: min_def max_def)
  have w: "walks 32 (cmd_mem dc2) region (region + cmd_write_offsetB dc)"
    by (rule walks_cong [OF tracked_end [OF t, simplified]]) (use e b in \<open>simp add: effect_def\<close>)
  have "\<exists>h. walks 32 (cmd_mem dc2) region h \<and> (if p = 0 then h = region + cmd_write_offsetB dc2
      else h + 32 \<le> region + cmd_write_offsetB dc2 \<and> prefetch_stride 32 (cmd_mem dc2) h = Some (region + cmd_write_offsetB dc2 + p - h))"
  proof (cases "p = 0")
    case True
    have "walks 32 (cmd_mem dc2) (region + cmd_write_offsetB dc) (region + cmd_write_offsetB dc + (32 + p))"
      by (rule walks_next [OF s2 _ walks_end]) simp
    then show ?thesis using walks_trans [OF w] True o2 by (simp add: add.assoc)
  next
    case False
    then show ?thesis using w s2 o2 by (intro exI [of _ "region + cmd_write_offsetB dc"]) simp
  qed
  moreover have "i \<longrightarrow> (\<forall>x. x < region \<or> region + sizeB \<le> x \<longrightarrow> cmd_mem dc2 x = m0 x)"
  proof (intro impI allI)
    fix x assume i: i and x: "x < region \<or> region + sizeB \<le> x"
    have "cmd_mem dc2 x = cmd_mem dc x" using e x le b by (auto simp: effect_def)
    then show "cmd_mem dc2 x = m0 x" using t i x by (auto simp: tracked_def)
  qed
  moreover have "32 dvd cmd_write_offsetB dc2 + p" "cmd_write_offsetB dc2 + p \<le> 2 ^ 31"
    using dc_ok_facts [OF ok] o2 le b n div_times_less_eq_dividend [of "n + 31" 32] by (simp_all add: p_def)
  ultimately show ?thesis
    using same_regionD [OF sr] dc_ok_facts [OF ok] b unfolding tracked_def p_def [symmetric] by simp
qed

text \<open>Data of an open write: the offset advances by \<open>k\<close>, and nothing before it changes.\<close>

lemma tracked_advance:
  assumes t: "tracked i region sizeB m0 p dc" and sr: "same_region dc dc'" and o': "cmd_write_offsetB dc' = cmd_write_offsetB dc + k"
    and k: "k \<le> p" and before: "\<And>x. x < region + cmd_write_offsetB dc \<Longrightarrow> cmd_mem dc' x = cmd_mem dc x"
    and outside: "i \<Longrightarrow> \<forall>x\<ge>region + sizeB. cmd_mem dc' x = cmd_mem dc x"
  shows "tracked i region sizeB m0 (p - k) dc'"
proof -
  note b = tracked_bounds [OF t]
  obtain h where h: "walks 32 (cmd_mem dc) region h" "if p = 0 then h = region + cmd_write_offsetB dc
      else h + 32 \<le> region + cmd_write_offsetB dc \<and> prefetch_stride 32 (cmd_mem dc) h = Some (region + cmd_write_offsetB dc + p - h)"
    using t by (auto simp: tracked_def)
  have le: "h \<le> region + cmd_write_offsetB dc" using h(2) by (simp split: if_splits)
  have w: "walks 32 (cmd_mem dc') region h" by (rule walks_cong [OF h(1)]) (use before le in simp)
  have "\<exists>h. walks 32 (cmd_mem dc') region h \<and> (if p - k = 0 then h = region + cmd_write_offsetB dc'
      else h + 32 \<le> region + cmd_write_offsetB dc' \<and> prefetch_stride 32 (cmd_mem dc') h = Some (region + cmd_write_offsetB dc' + (p - k) - h))"
  proof (cases "p = 0")
    case True
    then show ?thesis using w h(2) o' k by auto
  next
    case False
    then have s: "prefetch_stride 32 (cmd_mem dc') h = Some (region + cmd_write_offsetB dc + p - h)"
      using h(2) before prefetch_stride_cong [of "cmd_mem dc'" h "cmd_mem dc" 32] by simp
    show ?thesis
    proof (cases "p - k = 0")
      case True
      have "walks 32 (cmd_mem dc') h (h + (region + cmd_write_offsetB dc + p - h))"
        using h(2) False by (intro walks_next [OF s _ walks_end]) auto
      then have "walks 32 (cmd_mem dc') region (region + cmd_write_offsetB dc + p)" using walks_trans [OF w] le by simp
      then show ?thesis using True k o' by (simp add: add.assoc)
    next
      case n: False
      then show ?thesis using w s h(2) False o' k by (intro exI [of _ h]) simp
    qed
  qed
  moreover have "cmd_write_offsetB dc' + (p - k) = cmd_write_offsetB dc + p" using o' k by simp
  moreover have "i \<longrightarrow> (\<forall>x. x < region \<or> region + sizeB \<le> x \<longrightarrow> cmd_mem dc' x = m0 x)"
    using t before outside by (auto simp: tracked_def)
  ultimately show ?thesis using same_regionD [OF sr] t by (simp add: tracked_def)
qed

lemma add_data_tracked:
  assumes t: "tracked i region sizeB m0 p dc" and r: "add_data data n inc dc = Inr dc'" and n: "n \<le> inc" "inc \<le> p"
  shows "tracked i region sizeB m0 (p - inc) dc'"
proof -
  note b = tracked_bounds [OF t]
  have "cmd_write_offsetB dc + inc < 2 ^ 32" using b(4) n(2) by simp
  then obtain e: "effect (cmd_write_offsetB dc) (cmd_write_offsetB dc + inc) inc dc dc'"
    and le: "cmd_write_offsetB dc + inc \<le> cmd_sequence_sizeB dc"
    by (rule add_dataE [OF r n(1)])
  show ?thesis by (rule tracked_advance [OF t _ _ n(2)]) (use e le b in \<open>auto simp: effect_def\<close>)
qed

lemma reserve_data_tracked:
  assumes t: "tracked i region sizeB m0 p dc" and r: "reserve_data n dc = Inr (dst, dc')" and n: "n \<le> p"
  shows "tracked i region sizeB m0 (p - n) dc'"
proof -
  have "dc' = dc\<lparr>cmd_write_offsetB := add32 (cmd_write_offsetB dc) n\<rparr>" using r by (auto simp: reserve_data_def rbind_eq_Inr)
  then show ?thesis
    by (intro tracked_advance [OF t _ _ n]) (use tracked_bounds [OF t] n in \<open>simp_all add: same_region_def wadd_id\<close>)
qed

text \<open>A patch: the starts of the commands keep their bytes.\<close>

lemma walks_keep:
  assumes "walks 32 m a h" and "h \<le> b" and "b - a \<le> k"
    and "\<And>x j. x \<in> set (command_starts k m a b) \<Longrightarrow> j < 16 \<Longrightarrow> m' (x + j) = m (x + j)"
  shows "walks 32 m' a h \<and> (h < b \<longrightarrow> h \<in> set (command_starts k m a b))"
  using assms
proof (induction arbitrary: k rule: walks.induct)
  case (walks_end a)
  then show ?case by (cases k) (auto intro: walks.walks_end)
next
  case (walks_next a s h)
  have ah: "a + s \<le> h" by (rule walks_le [OF walks_next.hyps(3)])
  then obtain k' where k: "k = Suc k'" using walks_next.hyps(2) walks_next.prems(1,2) by (cases k) auto
  have st: "command_starts k m a b = a # command_starts k' m (a + s) b"
    using ah walks_next.hyps(1,2) walks_next.prems(1) by (simp add: k)
  have "walks 32 m' (a + s) h \<and> (h < b \<longrightarrow> h \<in> set (command_starts k' m (a + s) b))"
  proof (rule walks_next.IH [OF walks_next.prems(1)])
    show "b - (a + s) \<le> k'" using walks_next.prems(2) walks_next.hyps(2) k by simp
    show "m' (x + j) = m (x + j)" if "x \<in> set (command_starts k' m (a + s) b)" "j < 16" for x j
      by (rule walks_next.prems(3) [OF _ that(2)]) (use that(1) st in simp)
  qed
  moreover have "prefetch_stride 32 m' a = Some s"
    using walks_next.hyps(1) walks_next.prems(3) [of a] st prefetch_stride_cong [of m' a m 32] by simp
  ultimately show ?case using walks.walks_next [of 32 m' a s h] walks_next.hyps(2) st by simp
qed

lemma update_tracked:
  assumes t: "tracked i region sizeB m0 p dc" and r: "update_cmd_sequence off data dc = Inr dc'"
    and ok: "op_ok (Op_update off data) p dc" and v: "i \<longrightarrow> off + length data \<le> sizeB"
  shows "tracked i region sizeB m0 p dc'"
proof -
  note b = tracked_bounds [OF t]
  let ?b = "region + cmd_write_offsetB dc"
  have dc': "dc' = dc\<lparr>cmd_mem := store_bytes (region + off) data (cmd_mem dc)\<rparr>"
    using dc_memcpy_Inr r b(1) by (simp add: update_cmd_sequence_def)
  obtain h where h: "walks 32 (cmd_mem dc) region h" "if p = 0 then h = ?b
      else h + 32 \<le> ?b \<and> prefetch_stride 32 (cmd_mem dc) h = Some (?b + p - h)"
    using t by (auto simp: tracked_def)
  have keep: "cmd_mem dc' (x + j) = cmd_mem dc (x + j)"
    if "x \<in> set (command_starts (cmd_write_offsetB dc) (cmd_mem dc) region ?b)" "j < 16" for x j
    using ok that b(1) by (auto simp: dc' store_bytes_def list_all_iff)
  have w: "walks 32 (cmd_mem dc') region h \<and> (h < ?b \<longrightarrow> h \<in> set (command_starts (cmd_write_offsetB dc) (cmd_mem dc) region ?b))"
    by (rule walks_keep [OF h(1)]) (use h(2) keep in \<open>auto split: if_splits\<close>)
  then have "p \<noteq> 0 \<Longrightarrow> prefetch_stride 32 (cmd_mem dc') h = prefetch_stride 32 (cmd_mem dc) h"
    using h(2) keep by (intro prefetch_stride_cong) auto
  moreover have "i \<longrightarrow> (\<forall>x. x < region \<or> region + sizeB \<le> x \<longrightarrow> cmd_mem dc' x = m0 x)"
    using t v by (auto simp: tracked_def dc' store_bytes_def)
  ultimately show ?thesis using t w h(2) by (auto simp: tracked_def dc' intro!: exI [of _ h])
qed

lemma op_tracked:
  assumes t: "tracked i region sizeB m0 p dc" and o': "op_ok x p dc" and r: "run_op x dc = Inr dc'" and v: "i \<longrightarrow> checked sizeB x"
  shows "tracked i region sizeB m0 (owed_after x p) dc'"
proof -
  note b = tracked_bounds [OF t]
  have whole: ?thesis if "p = 0" "owed_after x 0 = 0" "stepped i dc dc'"
    using tracked_stepped [of i region sizeB m0 dc dc'] t that by simp
  have mul: "mul32 n k = n * k" if "n * k \<le> 2 ^ 28" for n k using that by (simp add: wmul_id)
  show ?thesis
  proof (cases x)
    case (Op_add_data data n inc)
    then show ?thesis using add_data_tracked [OF t] o' r by simp
  next
    case (Op_reserve_data n)
    then show ?thesis using reserve_data_tracked [OF t] o' r by (auto simp: rbind_eq_Inr)
  next
    case (Op_update off data)
    then show ?thesis using update_tracked [OF t _ o' [unfolded Op_update]] r v by simp
  next
    case (Op_write_linear_open dests noc addr sz woi)
    then show ?thesis using t o' r tracked_open [of i region sizeB m0 dc sz DISPATCH_MASTER _ _ dc']
      by (auto simp: add_dispatch_write_linear_def Let_def sizeof_CQDispatchCmd_def add_inline_data_def rbind_eq_Inr)
  next
    case (Op_write_paged_open d st base psize pages)
    then show ?thesis using t o' r tracked_open [of i region sizeB m0 dc "psize * pages" DISPATCH_MASTER _ _ dc'] mul [of psize pages]
      by (auto simp: add_dispatch_write_paged_def Let_def sizeof_CQDispatchCmd_def add_inline_data_def rbind_eq_Inr)
  next
    case (Op_write_host_open sz ev)
    then obtain dc1 dc2 c where r1: "add_prefetch_relay_inline True (add32 16 sz) DISPATCH_MASTER dc = Inr dc1" "add_dispatch c dc1 = Inr dc2"
      and dc': "dc' = align_offset dc2" and sz: "sz \<le> 2 ^ 28" and p: "p = 0"
      using r o' by (auto simp: add_dispatch_write_host_def Let_def sizeof_CQDispatchCmd_def add_inline_data_def rbind_eq_Inr)
    have t2: "tracked i region sizeB m0 ((sz + 31) div 32 * 32) dc2" by (rule tracked_open [OF t [unfolded p] r1(1) sz r1(2)])
    have "32 dvd cmd_write_offsetB dc2 + (sz + 31) div 32 * 32" using t2 by (simp add: tracked_def)
    then have "32 dvd cmd_write_offsetB dc2" by (simp only: dvd_add_left_iff dvd_triv_right)
    then have "align_offset dc2 = dc2" using t2 by (intro align_offset_id) (auto simp: tracked_def)
    then show ?thesis using t2 dc' Op_write_host_open by simp
  qed (rule whole; (rule args_ok_stepped [OF _ _ _ r])?; use t o' v b in \<open>auto dest: tracked_dc_ok\<close>)+
qed

lemma ops_tracked:
  assumes "tracked i region sizeB m0 p dc" and "ops_ok ops p dc" and "rfold run_op ops dc = Inr dc'"
    and "i \<longrightarrow> list_all (checked sizeB) ops"
  shows "tracked i region sizeB m0 (fold owed_after ops p) dc'"
  using assms
proof (induction ops arbitrary: p dc)
  case (Cons x ops)
  then obtain dc1 where r1: "run_op x dc = Inr dc1" and r2: "rfold run_op ops dc1 = Inr dc'" by (auto simp: rbind_eq_Inr)
  have "tracked i region sizeB m0 (owed_after x p) dc1" by (rule op_tracked [OF Cons.prems(1) _ r1]) (use Cons.prems in auto)
  then show ?case using Cons.IH [of "owed_after x p" dc1] Cons.prems r1 r2 by simp
qed simp

lemma new_DeviceCommand_tracked:
  assumes "new_DeviceCommand_at hal zero_init hugepage stack m region sizeB = Inr dc"
    and "host_alignment hal = 32" and "l1_alignment hal = 16" and "length stack = 16" and "sizeB \<le> 2 ^ 30"
  shows "tracked i region sizeB m 0 dc"
  using assms by (auto simp: new_DeviceCommand_at_def rbind_eq_Inr tracked_def intro: walks_end)


text \<open>(C21) The calls stay in their region, under the conditions of the walk (the alignments 32 and 16, a region of at most \<open>2 ^ 30\<close>
  bytes, callers that keep to \<open>ops_ok\<close>): whatever sequence of them succeeds, no byte before or behind the region changes.  Excepted are the calls
  that do not check what they copy against the size of the region: the packed writes with separate data, \<^verbatim>\<open>update_cmd_sequence\<close>
  when its range is not in the region (\<open>checked\<close>), and \<^verbatim>\<open>add_data\<close> when it is told to copy more than the offset advances or
  more than an open write announced (\<open>op_ok\<close>).\<close>

theorem device_commands_stay_inside:
  assumes "new_DeviceCommand_at hal zero_init hugepage stack m region sizeB = Inr dc"
    and "host_alignment hal = 32" and "l1_alignment hal = 16" and "length stack = 16" and "sizeB \<le> 2 ^ 30"
    and "ops_ok ops 0 dc" and "list_all (checked sizeB) ops" and "rfold run_op ops dc = Inr dc'"
    and "x < region \<or> region + sizeB \<le> x"
  shows "cmd_mem dc' x = m x"
proof -
  have "tracked True region sizeB m (fold owed_after ops 0) dc'"
    by (rule ops_tracked [OF new_DeviceCommand_tracked [OF assms(1-5)] assms(6,8)]) (use assms(7) in simp)
  then show ?thesis using assms(9) by (auto simp: tracked_def)
qed

subsection \<open>Examples\<close>


text \<open>A wait whose count is patched, as the host does with a cached sequence.\<close>

definition example_patch :: "device_op list" where
  "example_patch = [Op_wait 1 0 2 0 True True 0, Op_update 28 (le_bytes 4 5)]"

definition example_run :: "bool \<Rightarrow> device_op list \<Rightarrow> (DeviceCommand \<times> DeviceCommand) result" where
  "example_run hugepage ops =
     rbind (new_DeviceCommand_at wormhole_hal True hugepage (replicate 16 0xab) (\<lambda>_. 0) 64 1024) (\<lambda>dc.
     rbind (rfold run_op ops dc) (\<lambda>dc'. Inr (dc, dc')))"


lemma example_patch_run:
  "case example_run False example_patch of Inl _ \<Rightarrow> False
     | Inr (dc, dc') \<Rightarrow> ops_ok example_patch 0 dc \<and> cmd_write_offsetB dc' = 32"
  by code_simp

lemma example_runE:
  assumes "example_run hugepage ops = Inr (dc, dc')"
  shows "new_DeviceCommand_at wormhole_hal True hugepage (replicate 16 0xab) (\<lambda>_. 0) 64 1024 = Inr dc" "rfold run_op ops dc = Inr dc'"
  using assms by (auto simp: example_run_def rbind_eq_Inr)

lemma example_hal:
  "host_alignment wormhole_hal = 32" "l1_alignment wormhole_hal = 16" "length (replicate 16 (0xab :: 8 word)) = 16"
  "(1024 :: nat) \<le> 2 ^ 30"
  by (simp_all add: wormhole_hal_def)


theorem device_commands_stay_inside_witness:
  "case example_run False example_patch of Inl _ \<Rightarrow> False
     | Inr (dc, dc') \<Rightarrow> cmd_write_offsetB dc' = 32 \<and> cmd_mem dc' 63 = 0 \<and> cmd_mem dc' 1088 = 0"
proof -
  obtain dc dc' where run: "example_run False example_patch = Inr (dc, dc')"
    and ok: "ops_ok example_patch 0 dc" and o': "cmd_write_offsetB dc' = 32"
    using example_patch_run by (auto split: sum.splits)
  have c: "list_all (checked 1024) example_patch" by (simp add: example_patch_def)
  have "cmd_mem dc' x = 0" if "x < 64 \<or> 64 + 1024 \<le> x" for x
    by (rule device_commands_stay_inside [OF example_runE(1) [OF run] example_hal ok c example_runE(2) [OF run] that])
  then show ?thesis using run o' by simp
qed

text \<open>
  On Blackhole, whose PCIe alignment is 64 bytes, the walk is lost: after a write of eight bytes of inline data the host is at offset 96, and the
  stride in the command is 64.
\<close>

lemma walk_lost_for_64_bytes:
  "case rbind (new_DeviceCommand_at (wormhole_hal\<lparr>host_alignment := 64\<rparr>) True False (replicate 16 0) (\<lambda>_. 0) 0 1024)
      (add_dispatch_write_linear True True 0 18 4096 8 (Some (replicate 8 7)) 0) of Inl _ \<Rightarrow> False
   | Inr dc \<Rightarrow> cmd_write_offsetB dc = 96 \<and> prefetch_stride 64 (cmd_mem dc) 0 = Some 64"
  by code_simp

end
