(* ===== verification/Allocator.thy ===== *)
theory Allocator
  imports Free_List_Props Core_Coord Metal_Math "HOL-Library.AList"
begin

text \<open>
  The buffer allocator: \<^verbatim>\<open>tt_metal/impl/allocator/allocator.cpp\<close> (\<^verbatim>\<open>BankManager\<close> and \<^verbatim>\<open>Allocator\<close>),
  \<^verbatim>\<open>l1_banking_allocator.cpp\<close> and \<^verbatim>\<open>basic_allocator.cpp\<close>.  An unordered map is an association list without
  duplicate keys; its order is never used.  \<^verbatim>\<open>allocate_buffer\<close> returns the new state beside its
  result, since the state an exception leaves behind is seen by later calls.  The generator of
  \<^verbatim>\<open>std::shuffle\<close> is the argument \<open>shuffle\<close>, and the order in which a set is enumerated an argument of
  \<open>deallocate_all\<close>.  Logging and \<^verbatim>\<open>dump_blocks\<close> are left out.
\<close>

subsection \<open>Data\<close>

datatype BufferType = DRAM | L1 | SYSTEM_MEMORY | L1_SMALL | TRACE

datatype AllocCoreType = Dispatch | StorageOnly | ComputeOnly | ComputeAndStore | Invalid

datatype HalMemType = HalMem_L1 | HalMem_DRAM | HalMem_HOST | HalMem_COUNT

record AllocatorConfig =
  num_dram_channels :: nat
  dram_bank_size :: nat
  dram_bank_offsets :: "nat list"
  dram_unreserved_base :: nat
  l1_unreserved_base :: nat
  worker_grid_size :: CoreCoord
  worker_l1_size :: nat
  storage_core_bank_size :: "nat option"
  l1_small_size :: nat
  trace_region_size :: nat
  core_type_from_noc_coord_table :: "(CoreCoord \<times> AllocCoreType) list"
  worker_log_to_physical_routing_x :: "(int \<times> int) list"
  worker_log_to_physical_routing_y :: "(int \<times> int) list"
  l1_bank_remap :: "nat list"
  compute_grid_size :: CoreCoord
  config_alignment :: nat

text \<open>\<^verbatim>\<open>unordered_map::insert\<close>: a key that is there keeps its value.\<close>

definition map_insert :: "'k \<Rightarrow> 'v \<Rightarrow> ('k \<times> 'v) list \<Rightarrow> ('k \<times> 'v) list" where
  "map_insert k v m = (case map_of m k of None \<Rightarrow> m @ [(k, v)] | Some _ \<Rightarrow> m)"

definition int32 :: "int \<Rightarrow> int" where
  "int32 x = (x + 2 ^ 31) mod 2 ^ 32 - 2 ^ 31"

subsection \<open>BankManager\<close>

record BankManager =
  buffer_type :: BufferType
  allocated_buffers :: "nat set"
  bank_id_to_bank_offset :: "(nat \<times> int) list"
  allocator :: "FreeList option"
  interleaved_address_limit :: nat
  alignment_bytes :: nat

text \<open>The default constructor leaves three members unset; \<open>allocate_buffer\<close> refuses to read them.\<close>

definition default_BankManager :: BankManager where
  "default_BankManager = \<lparr>buffer_type = DRAM, allocated_buffers = {}, bank_id_to_bank_offset = [], allocator = None,
     interleaved_address_limit = 0, alignment_bytes = 0\<rparr>"

definition init_allocator :: "nat \<Rightarrow> nat \<Rightarrow> nat \<Rightarrow> FreeList result" where
  "init_allocator size_bytes align_bytes offset = new_FreeList size_bytes offset align_bytes align_bytes FIRST"

definition validate_num_banks :: "nat \<Rightarrow> BufferType \<Rightarrow> unit result" where
  "validate_num_banks n btype =
     (let is_pow2_num_banks = (n \<noteq> 0 \<and> and n (sub32 n 1) = 0);
          custom_mod_bank_id_calculation_exists = (n \<in> {12, 56, 70, 80, 94, 124, 130, 140});
          doesnt_support_interleaved = (btype = L1_SMALL)
      in check (is_pow2_num_banks \<or> custom_mod_bank_id_calculation_exists \<or> doesnt_support_interleaved)
           (TT_THROW ''Invalid number of memory banks''))"

definition new_BankManager_vector :: "BufferType \<Rightarrow> int list \<Rightarrow> nat \<Rightarrow> nat \<Rightarrow> nat \<Rightarrow> BankManager result" where
  "new_BankManager_vector btype bank_offsets size_bytes align_bytes base_offset =
     (let offsets = enumerate 0 bank_offsets in
      rbind (validate_num_banks (length offsets) btype) (\<lambda>_.
      rbind (init_allocator size_bytes align_bytes base_offset) (\<lambda>fl.
      Inr \<lparr>buffer_type = btype, allocated_buffers = {}, bank_id_to_bank_offset = offsets, allocator = Some fl,
           interleaved_address_limit = 0, alignment_bytes = align_bytes\<rparr>)))"

definition new_BankManager_map :: "BufferType \<Rightarrow> (nat \<times> int) list \<Rightarrow> nat \<Rightarrow> nat \<Rightarrow> nat \<Rightarrow> nat \<Rightarrow> BankManager result" where
  "new_BankManager_map btype offsets size_bytes limit align_bytes base_offset =
     rbind (validate_num_banks (length offsets) btype) (\<lambda>_.
     rbind (init_allocator size_bytes align_bytes base_offset) (\<lambda>fl.
     Inr \<lparr>buffer_type = btype, allocated_buffers = {}, bank_id_to_bank_offset = offsets, allocator = Some fl,
          interleaved_address_limit = limit, alignment_bytes = align_bytes\<rparr>))"

definition bm_num_banks :: "BankManager \<Rightarrow> nat" where
  "bm_num_banks bm = length (bank_id_to_bank_offset bm)"

definition bm_bank_size :: "BankManager \<Rightarrow> nat result" where
  "bm_bank_size bm = (case allocator bm of None \<Rightarrow> Inl (TT_ASSERT ''Allocator not initialized!'') | Some fl \<Rightarrow> Inr (max_size_bytes fl))"

definition bm_bank_offset :: "nat \<Rightarrow> BankManager \<Rightarrow> int result" where
  "bm_bank_offset bank_id bm =
     (case map_of (bank_id_to_bank_offset bm) bank_id of
        None \<Rightarrow> Inl (TT_FATAL ''Expected bank to be tracked!'')
      | Some off \<Rightarrow> Inr off)"

text \<open>The number of banks a buffer is spread over.\<close>

definition banks_for_buffer :: "CoreCoord \<Rightarrow> nat option \<Rightarrow> BankManager \<Rightarrow> nat result" where
  "banks_for_buffer grid num_shards bm =
     (case num_shards of
        None \<Rightarrow> Inr (bm_num_banks bm)
      | Some n \<Rightarrow> rbind (check (n \<le> mul64 (cx grid) (cy grid)) (TT_FATAL ''Expected number of shards to be at most the number of banks''))
                    (\<lambda>_. Inr n))"

definition address_limit_for :: "nat option \<Rightarrow> BankManager \<Rightarrow> nat result" where
  "address_limit_for num_shards bm =
     (if num_shards = None \<and> buffer_type bm = L1
      then rbind (check (interleaved_address_limit bm > 0) (TT_FATAL ''Address limit needs to be larger than zero.''))
             (\<lambda>_. Inr (interleaved_address_limit bm))
      else Inr 0)"

definition bm_allocate_buffer :: "nat \<Rightarrow> nat \<Rightarrow> bool \<Rightarrow> CoreCoord \<Rightarrow> nat option \<Rightarrow> BankManager \<Rightarrow> nat result \<times> BankManager" where
  "bm_allocate_buffer sz page bottom_up grid num_shards bm =
     (case banks_for_buffer grid num_shards bm of Inl e \<Rightarrow> (Inl e, bm)
      | Inr n \<Rightarrow>
        (case allocator bm of None \<Rightarrow> (Inl (Undefined ''members of a default bank manager are read''), bm)
         | Some fl \<Rightarrow>
           (case SizeBytesPerBank sz page n (alignment_bytes bm) of Inl e \<Rightarrow> (Inl e, bm)
            | Inr size_per_bank \<Rightarrow>
              (case address_limit_for num_shards bm of Inl e \<Rightarrow> (Inl e, bm)
               | Inr address_limit \<Rightarrow>
                 (case allocate size_per_bank bottom_up address_limit fl of
                    (Inl e, fl) \<Rightarrow> (Inl e, bm\<lparr>allocator := Some fl\<rparr>)
                  | (Inr None, fl) \<Rightarrow> (Inl (TT_THROW ''Out of Memory: Not enough space to allocate''), bm\<lparr>allocator := Some fl\<rparr>)
                  | (Inr (Some a), fl) \<Rightarrow>
                      (Inr a, bm\<lparr>allocator := Some fl, allocated_buffers := insert a (allocated_buffers bm)\<rparr>))))))"

definition bm_deallocate_buffer :: "nat \<Rightarrow> BankManager \<Rightarrow> BankManager result" where
  "bm_deallocate_buffer a bm =
     (case allocator bm of None \<Rightarrow> Inl (Undefined ''null pointer'')
      | Some fl \<Rightarrow> rbind (deallocate a fl) (\<lambda>fl. Inr (bm\<lparr>allocator := Some fl\<rparr>)))"

text \<open>\<open>order\<close> enumerates the set \<^verbatim>\<open>allocated_buffers_\<close>.\<close>

definition bm_deallocate_all :: "nat list \<Rightarrow> BankManager \<Rightarrow> BankManager result" where
  "bm_deallocate_all order bm = rfold bm_deallocate_buffer order bm"

definition bm_clear :: "BankManager \<Rightarrow> BankManager" where
  "bm_clear bm = (case allocator bm of None \<Rightarrow> bm | Some fl \<Rightarrow> bm\<lparr>allocator := Some (clear fl)\<rparr>)"

definition bm_lowest_occupied_address :: "nat \<Rightarrow> BankManager \<Rightarrow> nat option result" where
  "bm_lowest_occupied_address bank_id bm =
     (case allocator bm of None \<Rightarrow> Inr None
      | Some fl \<Rightarrow>
        (case lowest_occupied_address fl of None \<Rightarrow> Inr None
         | Some a \<Rightarrow> rbind (bm_bank_offset bank_id bm) (\<lambda>off. Inr (Some (nat ((int a + off) mod 2 ^ 64))))))"

definition bm_get_statistics :: "BankManager \<Rightarrow> Statistics result" where
  "bm_get_statistics bm =
     (case allocator bm of
        None \<Rightarrow> Inr \<lparr>total_allocatable_size_bytes = 0, total_allocated_bytes = 0, total_free_bytes = 0,
                  largest_free_block_bytes = 0, largest_free_block_addrs = []\<rparr>
      | Some fl \<Rightarrow> get_statistics fl)"

subsection \<open>Allocator\<close>

record Allocator =
  allocations_unsafe :: bool
  dram_manager :: BankManager
  l1_manager :: BankManager
  l1_small_manager :: BankManager
  trace_buffer_manager :: BankManager
  bank_id_to_dram_channel :: "(nat \<times> nat) list"
  dram_channel_to_bank_ids :: "(nat \<times> nat list) list"
  bank_id_to_logical_core :: "(nat \<times> CoreCoord) list"
  logical_core_to_bank_ids :: "(BufferType \<times> (CoreCoord \<times> nat list) list) list"
  config :: AllocatorConfig

definition empty_Allocator :: "AllocatorConfig \<Rightarrow> Allocator" where
  "empty_Allocator alloc_config =
     \<lparr>allocations_unsafe = False, dram_manager = default_BankManager, l1_manager = default_BankManager,
      l1_small_manager = default_BankManager, trace_buffer_manager = default_BankManager,
      bank_id_to_dram_channel = [], dram_channel_to_bank_ids = [], bank_id_to_logical_core = [],
      logical_core_to_bank_ids = [], config = alloc_config\<rparr>"

text \<open>\<^verbatim>\<open>logical_core_to_bank_ids[buffer_type].insert\<close>: the operator creates a missing map.\<close>

definition insert_core_banks :: "BufferType \<Rightarrow> CoreCoord \<Rightarrow> nat list \<Rightarrow> Allocator \<Rightarrow> Allocator" where
  "insert_core_banks btype core ids a =
     (let m = (case map_of (logical_core_to_bank_ids a) btype of None \<Rightarrow> [] | Some m \<Rightarrow> m)
      in a\<lparr>logical_core_to_bank_ids := AList.update btype (map_insert core ids m) (logical_core_to_bank_ids a)\<rparr>)"

definition insert_dram_bank :: "BufferType \<Rightarrow> nat \<Rightarrow> Allocator \<Rightarrow> Allocator" where
  "insert_dram_bank btype bank_id a =
     insert_core_banks btype (CoreCoord bank_id 0) [bank_id]
       (a\<lparr>bank_id_to_dram_channel := map_insert bank_id bank_id (bank_id_to_dram_channel a),
          dram_channel_to_bank_ids := map_insert bank_id [bank_id] (dram_channel_to_bank_ids a)\<rparr>)"

definition get_unreserved_base_address :: "Allocator \<Rightarrow> HalMemType \<Rightarrow> nat result" where
  "get_unreserved_base_address a mem_type =
     (case mem_type of
        HalMem_DRAM \<Rightarrow> Inr (dram_unreserved_base (config a))
      | HalMem_L1 \<Rightarrow> Inr (l1_unreserved_base (config a))
      | _ \<Rightarrow> Inl (TT_THROW ''Allocator does not support allocating in this memory''))"

definition init_one_bank_per_channel :: "AllocatorConfig \<Rightarrow> Allocator \<Rightarrow> Allocator result" where
  "init_one_bank_per_channel c a =
     (let bank_sizeB = sub64 (sub64 (dram_bank_size c) (dram_unreserved_base c)) (trace_region_size c) in
      rbind (rfold (\<lambda>channel_id offsets. rbind (at (dram_bank_offsets c) channel_id) (\<lambda>off. Inr (offsets @ [int32 (int off)])))
               [0..<num_dram_channels c] [])
        (\<lambda>bank_offsets.
      rbind (new_BankManager_vector DRAM bank_offsets bank_sizeB (config_alignment c) (dram_unreserved_base c)) (\<lambda>dram.
      let a = fold (insert_dram_bank DRAM) [0..<num_dram_channels c] (a\<lparr>dram_manager := dram\<rparr>) in
      rbind (new_BankManager_vector TRACE bank_offsets (trace_region_size c) (config_alignment c)
               (add64 bank_sizeB (dram_unreserved_base c))) (\<lambda>trace.
      Inr (fold (insert_dram_bank TRACE) [0..<num_dram_channels c] (a\<lparr>trace_buffer_manager := trace\<rparr>))))))"

text \<open>The cores of the grid in the order of the nested loops over \<open>y\<close> and \<open>x\<close>.\<close>

definition grid_cores :: "CoreCoord \<Rightarrow> CoreCoord list" where
  "grid_cores grid = concat (map (\<lambda>y. map (\<lambda>x. CoreCoord x y) [0..<cx grid]) [0..<cy grid])"

definition assign_l1_bank :: "CoreCoord \<Rightarrow> nat \<times> Allocator \<Rightarrow> nat \<times> Allocator" where
  "assign_l1_bank core st =
     (let (bank_id, a) = st in
      (add32 bank_id 1,
       insert_core_banks L1 core [bank_id]
         (a\<lparr>bank_id_to_logical_core := map_insert bank_id core (bank_id_to_logical_core a)\<rparr>)))"

definition init_one_bank_per_l1 :: "AllocatorConfig \<Rightarrow> Allocator \<Rightarrow> Allocator result" where
  "init_one_bank_per_l1 c a =
     rbind (check (l1_small_size c = 0) (TT_ASSERT ''l1_small_size == 0'')) (\<lambda>_.
     let num_l1_banks = u32 (mul64 (cy (worker_grid_size c)) (cx (worker_grid_size c)));
         l1_bank_size = sub64 (worker_l1_size c) (l1_unreserved_base c) in
     rbind (new_BankManager_vector L1 (replicate num_l1_banks 0) l1_bank_size (config_alignment c) (l1_unreserved_base c)) (\<lambda>l1.
     Inr (snd (fold assign_l1_bank (grid_cores (worker_grid_size c)) (0, a\<lparr>l1_manager := l1\<rparr>)))))"

subsection \<open>Initialisation of the L1 banking allocator\<close>

record num_banks_t =
  nb_total :: nat
  num_l1_banks :: nat
  num_l1_small_banks :: nat
  per_storage_core :: nat

definition num_in_category :: "(CoreCoord \<times> AllocCoreType) list \<Rightarrow> AllocCoreType \<Rightarrow> nat" where
  "num_in_category types t = length (filter (\<lambda>p. snd p = t) types)"

definition compute_total_and_storage_only_num_l1_banks :: "AllocatorConfig \<Rightarrow> num_banks_t result" where
  "compute_total_and_storage_only_num_l1_banks c =
     (let num_compute_and_storage_cores = num_in_category (core_type_from_noc_coord_table c) ComputeAndStore;
          num_storage_only_cores = num_in_category (core_type_from_noc_coord_table c) StorageOnly in
      rbind (if num_storage_only_cores > 0
             then (case storage_core_bank_size c of
                     None \<Rightarrow> Inl (TT_ASSERT ''storage_core_bank_size.has_value()'')
                   | Some s \<Rightarrow>
                     if s = 0 then Inl (Undefined ''modulo by zero'')
                     else rbind (check (worker_l1_size c mod s = 0) (TT_ASSERT ''worker_l1_size % storage_core_bank_size == 0''))
                            (\<lambda>_. Inr (u32 (worker_l1_size c div s))))
             else Inr 0) (\<lambda>num_banks_per_storage_core.
      let small = (if l1_small_size c > 0 then u32 num_compute_and_storage_cores else 0);
          banks = add32 num_compute_and_storage_cores (mul32 num_banks_per_storage_core num_storage_only_cores)
      in Inr \<lparr>nb_total = add32 banks small, num_l1_banks = banks, num_l1_small_banks = small,
              per_storage_core = num_banks_per_storage_core\<rparr>))"

definition logical_to_noc_coord :: "AllocatorConfig \<Rightarrow> CoreCoord \<Rightarrow> CoreCoord result" where
  "logical_to_noc_coord c core =
     (case (map_of (worker_log_to_physical_routing_x c) (int (cx core)), map_of (worker_log_to_physical_routing_y c) (int (cy core))) of
        (Some x, Some y) \<Rightarrow>
          let noc_core = CoreCoord (nat (x mod 2 ^ 64)) (nat (y mod 2 ^ 64)) in
          rbind (check (map_of (core_type_from_noc_coord_table c) noc_core \<noteq> None) (TT_ASSERT ''Cannot find noc-coord''))
            (\<lambda>_. Inr noc_core)
      | _ \<Rightarrow> Inl (TT_ASSERT ''Cannot find log_coord in logical to routing coord lookup tables''))"

definition core_type_of :: "AllocatorConfig \<Rightarrow> CoreCoord \<Rightarrow> AllocCoreType result" where
  "core_type_of c core =
     rbind (logical_to_noc_coord c core) (\<lambda>noc_core. lookup_at (map_of (core_type_from_noc_coord_table c)) noc_core)"

definition shuffled_banks :: "(nat list \<Rightarrow> nat list) \<Rightarrow> AllocatorConfig \<Rightarrow> num_banks_t \<Rightarrow> nat list result" where
  "shuffled_banks shuffle c nb =
     (if l1_bank_remap c \<noteq> []
      then rbind (check (num_l1_banks nb = length (l1_bank_remap c)) (TT_ASSERT ''override l1_bank_remap.size()'')) (\<lambda>_. Inr (l1_bank_remap c))
      else Inr (shuffle [0..<num_l1_banks nb]))"

text \<open>The state of the loop: \<^verbatim>\<open>bank_id\<close>, \<^verbatim>\<open>bank_id_to_bank_offset\<close> and the allocator.\<close>

type_synonym bank_state = "nat \<times> (nat \<times> int) list \<times> Allocator"

definition add_bank :: "nat list \<Rightarrow> CoreCoord \<Rightarrow> int result \<Rightarrow> nat list \<times> bank_state \<Rightarrow> (nat list \<times> bank_state) result" where
  "add_bank shuffled core off_result st =
     (let (ids, bank_id, offsets, a) = st in
      if bank_id < length shuffled then
        let remapped_bank_id = shuffled ! bank_id in
        rbind off_result (\<lambda>off.
        Inr (ids @ [remapped_bank_id], add32 bank_id 1, map_insert remapped_bank_id off offsets,
             a\<lparr>bank_id_to_logical_core := map_insert remapped_bank_id core (bank_id_to_logical_core a)\<rparr>))
      else Inl (Undefined ''vector access out of range''))"

definition storage_bank_offset :: "AllocatorConfig \<Rightarrow> num_banks_t \<Rightarrow> nat \<Rightarrow> int result" where
  "storage_bank_offset c nb storage_bank_index =
     (case storage_core_bank_size c of None \<Rightarrow> Inl (Undefined ''value of an empty optional'')
      | Some s \<Rightarrow>
        if s \<noteq> worker_l1_size c then Inr (int (mul32 storage_bank_index s) - int s)
        else if per_storage_core nb \<noteq> 1 then Inl (TT_THROW ''Expected 1 bank per storage core'')
        else Inr 0)"

definition assign_core_banks :: "AllocatorConfig \<Rightarrow> num_banks_t \<Rightarrow> nat list \<Rightarrow> CoreCoord \<Rightarrow> bank_state \<Rightarrow> bank_state result" where
  "assign_core_banks c nb shuffled core st =
     rbind (core_type_of c core) (\<lambda>t.
     let banks = (case t of ComputeAndStore \<Rightarrow> add_bank shuffled core (Inr 0) ([], st)
                  | StorageOnly \<Rightarrow>
                      rfold (\<lambda>i. add_bank shuffled core (storage_bank_offset c nb i))
                        [0..<per_storage_core nb] ([], st)
                  | _ \<Rightarrow> Inr ([], st))
     in rbind banks (\<lambda>(ids, bank_id, offsets, a).
        Inr (bank_id, offsets, if t = ComputeAndStore \<or> t = StorageOnly then insert_core_banks L1 core ids a else a)))"

definition assign_small_bank :: "AllocatorConfig \<Rightarrow> CoreCoord \<Rightarrow> bank_state \<Rightarrow> bank_state result" where
  "assign_small_bank c core st =
     rbind (core_type_of c core) (\<lambda>t.
     if t \<noteq> ComputeAndStore then Inr st
     else let (bank_id, offsets, a) = st;
              a = insert_core_banks L1_SMALL core [bank_id] a
          in Inr (add32 bank_id 1, map_insert bank_id 0 offsets,
                  a\<lparr>bank_id_to_logical_core := map_insert bank_id core (bank_id_to_logical_core a)\<rparr>))"

definition MEM_MAILBOX_BASE :: nat where "MEM_MAILBOX_BASE = 16"

definition assign_banks :: "(nat list \<Rightarrow> nat list) \<Rightarrow> AllocatorConfig \<Rightarrow> Allocator
    \<Rightarrow> ((nat \<times> int) list \<times> (nat \<times> int) list \<times> Allocator) result" where
  "assign_banks shuffle c a =
     rbind (compute_total_and_storage_only_num_l1_banks c) (\<lambda>nb.
     rbind (shuffled_banks shuffle c nb) (\<lambda>shuffled.
     rbind (rfold (assign_core_banks c nb shuffled) (grid_cores (worker_grid_size c)) (0, [], a)) (\<lambda>(bank_id, offsets, a).
     rbind (check (bank_id = length shuffled) (TT_ASSERT ''bank_id == shuffled_bank_id.size()'')) (\<lambda>_.
     rbind (if l1_small_size c > 0
            then rbind (check (num_l1_small_banks nb > 0) (TT_ASSERT ''num_l1_small_banks > 0'')) (\<lambda>_.
                 rfold (assign_small_bank c) (grid_cores (worker_grid_size c)) (bank_id, [], a))
            else Inr (bank_id, [], a)) (\<lambda>(_, small_offsets, a).
     rbind (check (length offsets = num_l1_banks nb) (TT_ASSERT ''num_l1_banks'')) (\<lambda>_.
     rbind (check (length small_offsets = num_l1_small_banks nb) (TT_ASSERT ''num_l1_small_banks'')) (\<lambda>_.
     rbind (check (add64 (length offsets) (length small_offsets) = nb_total nb) (TT_ASSERT ''banks setup'')) (\<lambda>_.
     Inr (offsets, small_offsets, a)))))))))"

definition init_compute_and_storage_l1_bank_manager :: "(nat list \<Rightarrow> nat list) \<Rightarrow> AllocatorConfig \<Rightarrow> Allocator \<Rightarrow> Allocator result" where
  "init_compute_and_storage_l1_bank_manager shuffle c a =
     rbind (assign_banks shuffle c a) (\<lambda>(offsets, small_offsets, a).
     if config_alignment c = 0 then Inl (Undefined ''division by zero'') else
     let al = config_alignment c;
         storage_core_unreserved_base = mul32 (sub32 (add32 MEM_MAILBOX_BASE al) 1 div al) al;
         l1_bank_size = (case storage_core_bank_size c of Some s \<Rightarrow> s | None \<Rightarrow> sub64 (worker_l1_size c) (l1_unreserved_base c));
         limit = add64 (sub64 (worker_l1_size c) l1_bank_size) storage_core_unreserved_base;
         allocatable_l1_size = sub64 (sub64 (worker_l1_size c) (l1_unreserved_base c)) (l1_small_size c) in
     rbind (new_BankManager_map L1 offsets allocatable_l1_size limit al (l1_unreserved_base c)) (\<lambda>l1.
     let small_limit = sub64 (worker_l1_size c) (l1_small_size c);
         small_alloc_offset = add64 (l1_unreserved_base c) allocatable_l1_size in
     rbind (check (add64 (l1_unreserved_base c) (l1_small_size c) \<le> worker_l1_size c) (TT_ASSERT ''L1 small region extends past L1 size'')) (\<lambda>_.
     rbind (new_BankManager_map L1_SMALL small_offsets (l1_small_size c) small_limit al small_alloc_offset) (\<lambda>small.
     Inr (a\<lparr>l1_manager := l1, l1_small_manager := small\<rparr>)))))"

subsection \<open>Operations of the allocator\<close>

definition new_Allocator :: "(AllocatorConfig \<Rightarrow> Allocator \<Rightarrow> Allocator result) \<Rightarrow> (AllocatorConfig \<Rightarrow> Allocator \<Rightarrow> Allocator result)
    \<Rightarrow> AllocatorConfig \<Rightarrow> Allocator result" where
  "new_Allocator dram_init l1_init c =
     rbind (dram_init c (empty_Allocator c)) (\<lambda>a.
     rbind (l1_init c a) (\<lambda>a.
     rbind (check (bank_id_to_dram_channel a \<noteq> [] \<and> dram_channel_to_bank_ids a \<noteq> []) (TT_ASSERT ''DRAM banks'')) (\<lambda>_.
     rbind (check (bank_id_to_logical_core a \<noteq> [] \<and> bank_id_to_logical_core a \<noteq> []) (TT_ASSERT ''L1 banks'')) (\<lambda>_.
     Inr a))))"

definition new_L1BankingAllocator :: "(nat list \<Rightarrow> nat list) \<Rightarrow> AllocatorConfig \<Rightarrow> Allocator result" where
  "new_L1BankingAllocator shuffle = new_Allocator init_one_bank_per_channel (init_compute_and_storage_l1_bank_manager shuffle)"

definition new_BasicAllocator :: "AllocatorConfig \<Rightarrow> Allocator result" where
  "new_BasicAllocator = new_Allocator init_one_bank_per_channel init_one_bank_per_l1"

definition manager :: "BufferType \<Rightarrow> Allocator \<Rightarrow> BankManager result" where
  "manager btype a =
     (case btype of DRAM \<Rightarrow> Inr (dram_manager a) | L1 \<Rightarrow> Inr (l1_manager a) | L1_SMALL \<Rightarrow> Inr (l1_small_manager a)
      | TRACE \<Rightarrow> Inr (trace_buffer_manager a) | SYSTEM_MEMORY \<Rightarrow> Inl (TT_THROW ''Unsupported buffer type!''))"

definition set_manager :: "BufferType \<Rightarrow> BankManager \<Rightarrow> Allocator \<Rightarrow> Allocator" where
  "set_manager btype bm a =
     (case btype of DRAM \<Rightarrow> a\<lparr>dram_manager := bm\<rparr> | L1 \<Rightarrow> a\<lparr>l1_manager := bm\<rparr> | L1_SMALL \<Rightarrow> a\<lparr>l1_small_manager := bm\<rparr>
      | TRACE \<Rightarrow> a\<lparr>trace_buffer_manager := bm\<rparr> | SYSTEM_MEMORY \<Rightarrow> a)"

definition num_banks :: "Allocator \<Rightarrow> BufferType \<Rightarrow> nat result" where
  "num_banks a btype = rbind (manager btype a) (\<lambda>bm. Inr (bm_num_banks bm))"

definition bank_size :: "Allocator \<Rightarrow> BufferType \<Rightarrow> nat result" where
  "bank_size a btype = rbind (manager btype a) bm_bank_size"

definition bank_offset :: "Allocator \<Rightarrow> BufferType \<Rightarrow> nat \<Rightarrow> int result" where
  "bank_offset a btype bank_id = rbind (manager btype a) (\<lambda>bm. rbind (bm_bank_offset bank_id bm) (\<lambda>off. Inr (int32 off)))"

definition dram_channel_from_bank_id :: "Allocator \<Rightarrow> nat \<Rightarrow> nat result" where
  "dram_channel_from_bank_id a bank_id =
     (case map_of (bank_id_to_dram_channel a) bank_id of None \<Rightarrow> Inl (TT_ASSERT ''bank_id_to_dram_channel'') | Some ch \<Rightarrow> Inr ch)"

definition logical_core_from_bank_id :: "Allocator \<Rightarrow> nat \<Rightarrow> CoreCoord result" where
  "logical_core_from_bank_id a bank_id =
     (case map_of (bank_id_to_logical_core a) bank_id of None \<Rightarrow> Inl (TT_ASSERT ''bank_id_to_logical_core'') | Some core \<Rightarrow> Inr core)"

definition bank_ids_from_dram_channel :: "Allocator \<Rightarrow> nat \<Rightarrow> nat list result" where
  "bank_ids_from_dram_channel a channel =
     (case map_of (dram_channel_to_bank_ids a) channel of
        None \<Rightarrow> Inl (TT_THROW ''No DRAM bank exists for DRAM channel'') | Some ids \<Rightarrow> Inr ids)"

definition bank_ids_from_logical_core :: "Allocator \<Rightarrow> BufferType \<Rightarrow> CoreCoord \<Rightarrow> nat list result" where
  "bank_ids_from_logical_core a btype core =
     rbind (lookup_at (map_of (logical_core_to_bank_ids a)) btype) (\<lambda>m.
     case map_of m core of None \<Rightarrow> Inl (TT_THROW ''No bank exists for core'') | Some ids \<Rightarrow> Inr ids)"

definition allocator_statistics :: "Allocator \<Rightarrow> BufferType \<Rightarrow> Statistics result" where
  "allocator_statistics a btype = rbind (manager btype a) bm_get_statistics"

definition lowest_occupied_l1_address :: "Allocator \<Rightarrow> nat \<Rightarrow> nat option result" where
  "lowest_occupied_l1_address a bank_id = bm_lowest_occupied_address bank_id (l1_manager a)"

definition mark_allocations_unsafe :: "Allocator \<Rightarrow> Allocator" where
  "mark_allocations_unsafe a = a\<lparr>allocations_unsafe := True\<rparr>"

definition mark_allocations_safe :: "Allocator \<Rightarrow> Allocator" where
  "mark_allocations_safe a = a\<lparr>allocations_unsafe := False\<rparr>"

definition base_alloc :: "AllocatorConfig \<Rightarrow> nat \<Rightarrow> nat \<Rightarrow> bool \<Rightarrow> nat option \<Rightarrow> BankManager \<Rightarrow> nat result \<times> BankManager" where
  "base_alloc c sz page bottom_up num_shards = bm_allocate_buffer sz page bottom_up (compute_grid_size c) num_shards"

definition allocate_buffer :: "nat \<Rightarrow> nat \<Rightarrow> BufferType \<Rightarrow> bool \<Rightarrow> nat option \<Rightarrow> Allocator \<Rightarrow> nat result \<times> Allocator" where
  "allocate_buffer sz page btype bottom_up num_shards a =
     (case manager btype a of Inl e \<Rightarrow> (Inl e, a)
      | Inr bm \<Rightarrow>
        if btype = L1_SMALL \<and> num_shards = None then (Inl (TT_FATAL ''L1_SMALL only supports sharded allocations''), a)
        else let (res, bm) = base_alloc (config a) sz page bottom_up num_shards bm in (res, set_manager btype bm a))"

definition deallocate_buffer :: "nat \<Rightarrow> BufferType \<Rightarrow> Allocator \<Rightarrow> Allocator result" where
  "deallocate_buffer addr btype a =
     rbind (manager btype a) (\<lambda>bm. rbind (bm_deallocate_buffer addr bm) (\<lambda>bm. Inr (set_manager btype bm a)))"

definition deallocate_manager :: "(BufferType \<Rightarrow> nat list) \<Rightarrow> BufferType \<Rightarrow> Allocator \<Rightarrow> Allocator result" where
  "deallocate_manager order btype a =
     rbind (manager btype a) (\<lambda>bm. rbind (bm_deallocate_all (order btype) bm) (\<lambda>bm. Inr (set_manager btype bm a)))"

definition deallocate_buffers :: "(BufferType \<Rightarrow> nat list) \<Rightarrow> Allocator \<Rightarrow> Allocator result" where
  "deallocate_buffers order a = rfold (deallocate_manager order) [DRAM, L1, L1_SMALL, TRACE] a"

definition clear_managers :: "Allocator \<Rightarrow> Allocator" where
  "clear_managers a =
     a\<lparr>dram_manager := bm_clear (dram_manager a), l1_manager := bm_clear (l1_manager a),
       l1_small_manager := bm_clear (l1_small_manager a), trace_buffer_manager := bm_clear (trace_buffer_manager a)\<rparr>"

definition reset_config :: "AllocatorConfig \<Rightarrow> AllocatorConfig" where
  "reset_config c = c\<lparr>dram_bank_offsets := [], core_type_from_noc_coord_table := [], worker_log_to_physical_routing_x := [],
     worker_log_to_physical_routing_y := [], l1_bank_remap := []\<rparr>"

definition reset_allocator :: "Allocator \<Rightarrow> Allocator" where
  "reset_allocator a =
     (clear_managers a)\<lparr>bank_id_to_dram_channel := [], dram_channel_to_bank_ids := [], bank_id_to_logical_core := [],
       logical_core_to_bank_ids := map (\<lambda>(t, m). (t, [])) (logical_core_to_bank_ids a), config := reset_config (config a)\<rparr>"

end
