(* ===== verification/Allocator_Props.thy ===== *)
theory Allocator_Props
  imports Allocator "HOL-Library.Code_Target_Nat" "HOL-Library.Code_Target_Int"
begin

text \<open>
  Correctness of the buffer allocator.  A free list of size zero (the L1_SMALL and trace regions are empty by
  default) is outside the invariant of \<^verbatim>\<open>Free_List_Inv\<close>; \<open>void_list\<close> describes it, and \<open>fl_ok\<close> is either.
  \<open>managers_ok\<close> says where in memory the four bank managers of the L1 banking allocator are, and every
  operation keeps it.
\<close>

subsection \<open>Empty free lists\<close>

definition void_list :: "FreeList \<Rightarrow> bool" where
  "void_list fl \<longleftrightarrow> max_size_bytes fl = 0 \<and> search_policy fl = FIRST \<and> 0 < alignment fl \<and>
     0 < min_allocation_size fl \<and> min_allocation_size fl + alignment fl \<le> 2 ^ 64 \<and>
     (\<exists>r<fresh fl. block_head fl = Some r \<and> free_block_head fl = Some r \<and> free_block_tail fl = Some r \<and> heap fl r = Block2 0 0)"

lemma void_init: "max_size_bytes fl = 0 \<Longrightarrow> search_policy fl = FIRST \<Longrightarrow> 0 < alignment fl \<Longrightarrow> 0 < min_allocation_size fl \<Longrightarrow>
    min_allocation_size fl + alignment fl \<le> 2 ^ 64 \<Longrightarrow> void_list (init fl)"
  by (auto simp: void_list_def init_def make_shared_Block_def)

lemma void_alloc_size:
  assumes "void_list fl" and "size_ok fl n"
  shows "0 < alloc_size_of fl n"
proof -
  let ?fl = "fl\<lparr>max_size_bytes := 1, offset_bytes := 0\<rparr>"
  have "config_ok ?fl" using assms(1) by (simp add: config_ok_def void_list_def)
  then have "0 < alloc_size_of ?fl n" by (rule alloc_size_spec(4)) (use assms(2) in \<open>simp add: size_ok_def\<close>)
  then show ?thesis by (simp add: alloc_size_of_def align_def cong: if_cong)
qed

lemma void_allocate:
  assumes "void_list fl" and "size_ok fl n"
  shows "allocate n up limit fl = (Inr None, fl)"
proof -
  obtain r where r: "r < fresh fl" "free_block_head fl = Some r" "free_block_tail fl = Some r" "heap fl r = Block2 0 0"
    using assms(1) by (auto simp: void_list_def)
  obtain k where k: "fresh fl = Suc k" using r(1) by (cases "fresh fl") auto
  have "search fl (alloc_size_of fl n) up = Inr None"
    using assms(1) r k void_alloc_size [OF assms]
    by (simp add: void_list_def search_def search_first_def step_free_def Block2_def)
  then show ?thesis by (simp add: allocate_def Let_def)
qed

lemma void_deallocate:
  assumes "void_list fl"
  shows "deallocate a fl = Inr fl"
proof -
  obtain r where r: "r < fresh fl" "block_head fl = Some r" "free_block_head fl = Some r" "heap fl r = Block2 0 0"
    using assms by (auto simp: void_list_def)
  obtain k where k: "fresh fl = Suc k" using r(1) by (cases "fresh fl") auto
  show ?thesis
    by (simp add: deallocate_def find_block_def r k Block2_def is_allocated_def Let_def)
qed

lemma void_regions:
  assumes "void_list fl"
  shows "regions fl = {}"
proof -
  obtain r where r: "r < fresh fl" "block_head fl = Some r" "free_block_head fl = Some r" "heap fl r = Block2 0 0"
    using assms by (auto simp: void_list_def)
  obtain k where k: "fresh fl = Suc k" using r(1) by (cases "fresh fl") auto
  have "blocks fl = [(0, 0, True)]"
    by (simp add: blocks_def blocks_of_def refs_def free_refs_def r k Block2_def)
  then show ?thesis by (simp add: regions_def allocated_def)
qed

definition fl_ok :: "FreeList \<Rightarrow> bool" where
  "fl_ok fl \<longleftrightarrow> fl_inv fl \<or> void_list fl"

lemma fl_ok_allocate:
  assumes "fl_ok fl" and "size_ok fl n"
  shows "fl_ok (snd (allocate n up limit fl))" and "same_config fl (snd (allocate n up limit fl))"
  using assms void_allocate [of fl n up limit] allocate_keeps(1,2) [of fl n up limit] by (auto simp: fl_ok_def)

lemma fl_ok_deallocate:
  assumes "fl_ok fl" and "deallocate a fl = Inr fl'"
  shows "fl_ok fl'" and "same_config fl fl'"
  using assms void_deallocate [of fl a] deallocate_keeps(1,2) [of fl a fl'] by (auto simp: fl_ok_def)

lemma fl_ok_clear:
  assumes "fl_ok fl"
  shows "fl_ok (clear fl)" and "same_config fl (clear fl)"
  using assms clear_correct(1,3) [of fl] void_init [of fl]
  by (auto simp: fl_ok_def clear_def void_list_def) (auto simp: same_config_def init_def make_shared_Block_def)

lemma fl_ok_disjoint:
  "fl_ok fl \<Longrightarrow> (x, n) \<in> regions fl \<Longrightarrow> (y, k) \<in> regions fl \<Longrightarrow> (x, n) = (y, k) \<or> x + n \<le> y \<or> y + k \<le> x"
  using regions_disjoint [of fl x n y k] by (auto simp: fl_ok_def void_regions)

lemma fl_ok_range:
  "fl_ok fl \<Longrightarrow> (x, n) \<in> regions fl \<Longrightarrow> offset_bytes fl \<le> x \<and> x + n \<le> offset_bytes fl + max_size_bytes fl \<and> 0 < n"
  using regions_range [of fl x n] by (auto simp: fl_ok_def void_regions)

lemma init_allocator_ok:
  assumes "init_allocator sizeB al off = Inr fl" and "off + sizeB < 2 ^ 64" and "al \<le> 2 ^ 63"
  shows "fl_ok fl" and "offset_bytes fl = off" and "max_size_bytes fl = sizeB" and "alignment fl = al" and "regions fl = {}" and "0 < al"
proof -
  have al: "0 < al" "al dvd off"
    using assms(1) by (auto simp: init_allocator_def new_FreeList_def rbind_eq_Inr dvd_eq_mod_eq_0 split: if_splits)
  have "fl_ok fl \<and> offset_bytes fl = off \<and> max_size_bytes fl = sizeB \<and> alignment fl = al \<and> regions fl = {}"
  proof (cases "sizeB = 0")
    case True
    let ?fl = "\<lparr>heap = (\<lambda>_. Block2 0 0), fresh = 0, search_policy = FIRST,
         block_head = None, block_tail = None, free_block_head = None, free_block_tail = None,
         max_size_bytes = 0, offset_bytes = off, min_allocation_size = al, alignment = al, lowest_occupied = None\<rparr>"
    have fl: "fl = init ?fl" using assms(1) al True by (auto simp: init_allocator_def new_FreeList_def rbind_eq_Inr)
    have v: "void_list fl" unfolding fl by (rule void_init) (use al assms(3) in simp_all)
    moreover have "offset_bytes fl = off" "alignment fl = al" by (simp_all add: fl init_def make_shared_Block_def)
    ultimately show ?thesis using void_regions [OF v] True by (simp add: fl_ok_def void_list_def)
  next
    case False
    then obtain f where "new_FreeList sizeB off al al FIRST = Inr f" "fl_inv f" "blocks f = [(0, sizeB, True)]"
        "alignment f = al" "offset_bytes f = off" "max_size_bytes f = sizeB"
      using new_FreeList_correct [of al off sizeB al FIRST] al assms(2,3) by auto
    then show ?thesis using assms(1) by (simp add: init_allocator_def fl_ok_def regions_def allocated_def)
  qed
  then show "fl_ok fl" "offset_bytes fl = off" "max_size_bytes fl = sizeB" "alignment fl = al" "regions fl = {}" by simp_all
  show "0 < al" by (rule al(1))
qed

subsection \<open>Bank managers\<close>

lemma wmul_dvd: "2 ^ k dvd a \<Longrightarrow> k \<le> w \<Longrightarrow> 2 ^ k dvd wmul w a b"
  unfolding wmul_def by (rule dvd_mod) (simp_all add: le_imp_power_dvd)

lemma SizeBytesPerBank_dvd:
  assumes "SizeBytesPerBank sz page n (2 ^ k) = Inr m" and "k \<le> 32"
  shows "2 ^ k dvd m" and "m < 2 ^ 64"
proof -
  obtain p r where r: "round_up (u32 page) (2 ^ k) = Inr r" and m: "m = mul64 p r"
    using assms(1) by (auto simp: SizeBytesPerBank_def rbind_eq_Inr Let_def)
  have "2 ^ k dvd r" using r assms(2) by (auto simp: round_up_def rbind_eq_Inr intro: wmul_dvd)
  then show "2 ^ k dvd m" "m < 2 ^ 64"
    using assms(2) wmul_dvd [of k r 64 p] by (simp_all add: m wmul_def mult.commute)
qed

lemma size_per_bank_ok:
  assumes "SizeBytesPerBank sz page n (2 ^ k) = Inr m" and "k \<le> 32" and "alignment fl = 2 ^ k"
  shows "size_ok fl m"
proof -
  obtain q where q: "m = 2 ^ k * q" using SizeBytesPerBank_dvd(1) [OF assms(1,2)] by (elim dvdE)
  have e: "(2::nat) ^ 64 = 2 ^ k * 2 ^ (64 - k)" using assms(2) by (simp flip: power_add)
  have "2 ^ k * q < 2 ^ k * (2::nat) ^ (64 - k)" using SizeBytesPerBank_dvd(2) [OF assms(1,2)] q unfolding e [symmetric] by simp
  then have "q < 2 ^ (64 - k)" by simp
  then have "2 ^ k * Suc q \<le> (2::nat) ^ 64" unfolding e by (intro mult_le_mono2) simp
  then show ?thesis using assms(3) q by (simp add: size_ok_def algebra_simps)
qed

text \<open>The manager hands out the addresses from \<open>lo\<close> to \<open>hi\<close>.\<close>

definition bm_in :: "nat \<Rightarrow> nat \<Rightarrow> nat \<Rightarrow> BankManager \<Rightarrow> bool" where
  "bm_in al lo hi bm \<longleftrightarrow> alignment_bytes bm = al \<and>
     (\<exists>fl. allocator bm = Some fl \<and> fl_ok fl \<and> offset_bytes fl = lo \<and> lo + max_size_bytes fl = hi \<and> alignment fl = al)"

definition live_regions :: "BankManager \<Rightarrow> (nat \<times> nat) set" where
  "live_regions bm = (case allocator bm of None \<Rightarrow> {} | Some fl \<Rightarrow> regions fl)"

lemma bm_in_range:
  "bm_in al lo hi bm \<Longrightarrow> (x, n) \<in> live_regions bm \<Longrightarrow> lo \<le> x \<and> x + n \<le> hi \<and> 0 < n"
  using fl_ok_range by (fastforce simp: bm_in_def live_regions_def)

lemma bm_in_disjoint:
  "bm_in al lo hi bm \<Longrightarrow> (x, n) \<in> live_regions bm \<Longrightarrow> (y, k) \<in> live_regions bm \<Longrightarrow> (x, n) = (y, k) \<or> x + n \<le> y \<or> y + k \<le> x"
  using fl_ok_disjoint [of _ x n y k] by (auto simp: bm_in_def live_regions_def)

lemma bm_in_same_config:
  assumes "bm_in al lo hi bm" and "allocator bm = Some fl" and "fl_ok fl'" and "same_config fl fl'"
  shows "bm_in al lo hi (bm\<lparr>allocator := Some fl'\<rparr>)"
  using assms by (auto simp: bm_in_def same_config_def)

lemma bm_allocate_keeps:
  assumes ok: "bm_in (2 ^ k) lo hi bm" and k: "k \<le> 32"
  shows "bm_in (2 ^ k) lo hi (snd (bm_allocate_buffer sz page up grid shards bm))"
proof -
  obtain fl where fl: "allocator bm = Some fl" "fl_ok fl" "alignment fl = 2 ^ k" and al: "alignment_bytes bm = 2 ^ k"
    using ok by (auto simp: bm_in_def)
  have step: "bm_in (2 ^ k) lo hi (bm\<lparr>allocator := Some fl'\<rparr>)"
    if "SizeBytesPerBank sz page n (2 ^ k) = Inr m" and "allocate m up limit fl = (r, fl')" for n m limit r fl'
  proof (rule bm_in_same_config [OF ok fl(1)])
    have s: "size_ok fl m" by (rule size_per_bank_ok [OF that(1) k fl(3)])
    show "fl_ok fl'" "same_config fl fl'" using fl_ok_allocate [OF fl(2) s, of up limit] that(2) by simp_all
  qed
  have more: "bm_in (2 ^ k) lo hi (bm\<lparr>allocator := Some fl', allocated_buffers := A\<rparr>)"
    if "bm_in (2 ^ k) lo hi (bm\<lparr>allocator := Some fl'\<rparr>)" for fl' A
    using that by (auto simp: bm_in_def)
  show ?thesis
    using ok more [OF step] step
    by (auto simp: bm_allocate_buffer_def fl(1) al split: sum.splits option.splits prod.splits)
qed

lemma bm_deallocate_keeps:
  assumes "bm_in al lo hi bm" and "bm_deallocate_buffer x bm = Inr bm'"
  shows "bm_in al lo hi bm'"
proof -
  obtain fl where fl: "allocator bm = Some fl" "fl_ok fl" using assms(1) by (auto simp: bm_in_def)
  then obtain fl' where d: "deallocate x fl = Inr fl'" "bm' = bm\<lparr>allocator := Some fl'\<rparr>"
    using assms(2) by (auto simp: bm_deallocate_buffer_def rbind_eq_Inr)
  show ?thesis unfolding d(2)
    by (rule bm_in_same_config [OF assms(1) fl(1) fl_ok_deallocate [OF fl(2) d(1)]])
qed

lemma bm_deallocate_all_keeps:
  "bm_in al lo hi bm \<Longrightarrow> bm_deallocate_all order bm = Inr bm' \<Longrightarrow> bm_in al lo hi bm'"
  unfolding bm_deallocate_all_def
  by (erule rfold_Inr_inv [where I = "bm_in al lo hi"]) (auto intro: bm_deallocate_keeps)

lemma bm_clear_keeps:
  assumes "bm_in al lo hi bm"
  shows "bm_in al lo hi (bm_clear bm)"
proof -
  obtain fl where fl: "allocator bm = Some fl" "fl_ok fl" using assms by (auto simp: bm_in_def)
  show ?thesis using bm_in_same_config [OF assms fl(1) fl_ok_clear [OF fl(2)]] by (simp add: bm_clear_def fl(1))
qed

lemma new_BankManager_in:
  assumes "init_allocator sizeB al off = Inr fl" and "off + sizeB < 2 ^ 64" and "al \<le> 2 ^ 63"
    and "allocator bm = Some fl" and "alignment_bytes bm = al"
  shows "bm_in al off (off + sizeB) bm" and "live_regions bm = {}"
  using init_allocator_ok [OF assms(1-3)] assms(4,5) by (auto simp: bm_in_def live_regions_def)

subsection \<open>The allocator in use\<close>

inductive alloc_step :: "Allocator \<Rightarrow> Allocator \<Rightarrow> bool" where
  step_allocate: "alloc_step a (snd (allocate_buffer sz page btype bottom_up num_shards a))"
| step_deallocate: "deallocate_buffer addr btype a = Inr a' \<Longrightarrow> alloc_step a a'"
| step_deallocate_buffers: "deallocate_buffers order a = Inr a' \<Longrightarrow> alloc_step a a'"
| step_clear: "alloc_step a (clear_managers a)"
| step_unsafe: "alloc_step a (mark_allocations_unsafe a)"
| step_safe: "alloc_step a (mark_allocations_safe a)"

text \<open>\<open>lo\<close> and \<open>hi\<close> give the address range of each manager.\<close>

definition managers_in :: "nat \<Rightarrow> (BufferType \<Rightarrow> nat) \<Rightarrow> (BufferType \<Rightarrow> nat) \<Rightarrow> Allocator \<Rightarrow> bool" where
  "managers_in al lo hi a \<longleftrightarrow> bm_in al (lo DRAM) (hi DRAM) (dram_manager a) \<and> bm_in al (lo L1) (hi L1) (l1_manager a) \<and>
     bm_in al (lo L1_SMALL) (hi L1_SMALL) (l1_small_manager a) \<and> bm_in al (lo TRACE) (hi TRACE) (trace_buffer_manager a)"

lemma managers_in_manager: "managers_in al lo hi a \<Longrightarrow> manager btype a = Inr bm \<Longrightarrow> bm_in al (lo btype) (hi btype) bm"
  by (cases btype) (auto simp: managers_in_def manager_def)

lemma managers_in_set: "managers_in al lo hi a \<Longrightarrow> bm_in al (lo btype) (hi btype) bm \<Longrightarrow> managers_in al lo hi (set_manager btype bm a)"
  by (cases btype) (auto simp: managers_in_def set_manager_def)

lemma alloc_step_keeps:
  assumes ok: "managers_in (2 ^ k) lo hi a" and k: "k \<le> 32" and step: "alloc_step a a'"
  shows "managers_in (2 ^ k) lo hi a'"
  using step
proof cases
  case (step_allocate sz page btype bottom_up num_shards)
  show ?thesis
  proof (cases "manager btype a")
    case (Inr bm)
    have "bm_in (2 ^ k) (lo btype) (hi btype) (snd (base_alloc (config a) sz page bottom_up num_shards bm))"
      unfolding base_alloc_def by (rule bm_allocate_keeps [OF managers_in_manager [OF ok Inr] k])
    from managers_in_set [OF ok this] show ?thesis
      using ok by (auto simp: step_allocate allocate_buffer_def Inr split: prod.splits)
  qed (use ok in \<open>simp add: step_allocate allocate_buffer_def\<close>)
next
  case (step_deallocate addr btype)
  then obtain bm bm' where "manager btype a = Inr bm" "bm_deallocate_buffer addr bm = Inr bm'" "a' = set_manager btype bm' a"
    by (auto simp: deallocate_buffer_def rbind_eq_Inr)
  then show ?thesis using managers_in_set [OF ok] bm_deallocate_keeps managers_in_manager [OF ok] by blast
next
  case (step_deallocate_buffers order)
  have m: "managers_in (2 ^ k) lo hi y" if x: "managers_in (2 ^ k) lo hi x" and y: "deallocate_manager order btype x = Inr y" for btype x y
  proof -
    obtain bm bm' where bm: "manager btype x = Inr bm" "bm_deallocate_all (order btype) bm = Inr bm'" "y = set_manager btype bm' x"
      using y by (auto simp: deallocate_manager_def rbind_eq_Inr)
    show ?thesis unfolding bm(3)
      by (rule managers_in_set [OF x bm_deallocate_all_keeps [OF managers_in_manager [OF x bm(1)] bm(2)]])
  qed
  show ?thesis
    using step_deallocate_buffers unfolding deallocate_buffers_def
    by (rule rfold_Inr_inv [where I = "managers_in (2 ^ k) lo hi"]) (use ok m in auto)
qed (use ok in \<open>auto simp: managers_in_def clear_managers_def mark_allocations_unsafe_def mark_allocations_safe_def bm_clear_keeps\<close>)

lemma alloc_steps_keep:
  assumes "alloc_step\<^sup>*\<^sup>* a a'" and "managers_in (2 ^ k) lo hi a" and "k \<le> 32"
  shows "managers_in (2 ^ k) lo hi a'"
  using assms by (induction rule: rtranclp_induct) (auto intro: alloc_step_keeps)

subsection \<open>Where the managers are\<close>

definition config_fits :: "AllocatorConfig \<Rightarrow> bool" where
  "config_fits c \<longleftrightarrow> (\<exists>k\<le>31. config_alignment c = 2 ^ k) \<and> l1_unreserved_base c < 2 ^ 32 \<and>
     worker_l1_size c < 2 ^ 63 \<and> l1_small_size c < 2 ^ 63 \<and> dram_bank_size c < 2 ^ 63 \<and>
     dram_unreserved_base c + trace_region_size c \<le> dram_bank_size c"

fun area_lo :: "AllocatorConfig \<Rightarrow> BufferType \<Rightarrow> nat" where
  "area_lo c DRAM = dram_unreserved_base c"
| "area_lo c TRACE = dram_bank_size c - trace_region_size c"
| "area_lo c L1 = l1_unreserved_base c"
| "area_lo c L1_SMALL = worker_l1_size c - l1_small_size c"
| "area_lo c SYSTEM_MEMORY = 0"

fun area_hi :: "AllocatorConfig \<Rightarrow> BufferType \<Rightarrow> nat" where
  "area_hi c DRAM = dram_bank_size c - trace_region_size c"
| "area_hi c TRACE = dram_bank_size c"
| "area_hi c L1 = worker_l1_size c - l1_small_size c"
| "area_hi c L1_SMALL = worker_l1_size c"
| "area_hi c SYSTEM_MEMORY = 0"

lemma insert_core_banks_managers [simp]:
  "dram_manager (insert_core_banks t core ids a) = dram_manager a"
  "l1_manager (insert_core_banks t core ids a) = l1_manager a"
  "l1_small_manager (insert_core_banks t core ids a) = l1_small_manager a"
  "trace_buffer_manager (insert_core_banks t core ids a) = trace_buffer_manager a"
  "bank_id_to_logical_core (insert_core_banks t core ids a) = bank_id_to_logical_core a"
  "config (insert_core_banks t core ids a) = config a"
  by (simp_all add: insert_core_banks_def Let_def)

lemma insert_dram_banks_managers:
  "dram_manager (fold (insert_dram_bank t) js a) = dram_manager a"
  "trace_buffer_manager (fold (insert_dram_bank t) js a) = trace_buffer_manager a"
  "l1_manager (fold (insert_dram_bank t) js a) = l1_manager a"
  "l1_small_manager (fold (insert_dram_bank t) js a) = l1_small_manager a"
  by (induction js arbitrary: a) (simp_all add: insert_dram_bank_def)

lemma init_dram_managers:
  assumes fits: "config_fits c" and r: "init_one_bank_per_channel c a = Inr a'"
  shows "bm_in (config_alignment c) (area_lo c DRAM) (area_hi c DRAM) (dram_manager a') \<and>
    bm_in (config_alignment c) (area_lo c TRACE) (area_hi c TRACE) (trace_buffer_manager a')"
proof -
  obtain k where k: "k \<le> 31" "config_alignment c = 2 ^ k" using fits by (auto simp: config_fits_def)
  have al: "config_alignment c \<le> 2 ^ 63" unfolding k(2) by (rule power_increasing) (use k(1) in simp_all)
  have sz: "sub64 (sub64 (dram_bank_size c) (dram_unreserved_base c)) (trace_region_size c) =
      dram_bank_size c - dram_unreserved_base c - trace_region_size c"
  proof -
    have s: "dram_unreserved_base c \<le> dram_bank_size c" "dram_bank_size c < 2 ^ 64"
      "trace_region_size c \<le> dram_bank_size c - dram_unreserved_base c" "dram_bank_size c - dram_unreserved_base c < 2 ^ 64"
      using fits by (auto simp: config_fits_def)
    show ?thesis by (simp only: wsub_id [OF s(1,2)] wsub_id [OF s(3,4)])
  qed
  have off: "add64 (dram_bank_size c - dram_unreserved_base c - trace_region_size c) (dram_unreserved_base c) =
      dram_bank_size c - trace_region_size c"
  proof -
    have s: "dram_bank_size c - dram_unreserved_base c - trace_region_size c + dram_unreserved_base c =
        dram_bank_size c - trace_region_size c" "dram_bank_size c - trace_region_size c < 2 ^ 64"
      using fits by (auto simp: config_fits_def)
    show ?thesis using s by (metis wadd_id)
  qed
  obtain offsets dram trace where
      d: "new_BankManager_vector DRAM offsets (dram_bank_size c - dram_unreserved_base c - trace_region_size c)
        (config_alignment c) (dram_unreserved_base c) = Inr dram"
    and t: "new_BankManager_vector TRACE offsets (trace_region_size c) (config_alignment c) (dram_bank_size c - trace_region_size c) = Inr trace"
    and m: "dram_manager a' = dram" "trace_buffer_manager a' = trace"
    using r unfolding init_one_bank_per_channel_def Let_def sz off
    by (auto simp: rbind_eq_Inr insert_dram_banks_managers)
  obtain f where f: "init_allocator (dram_bank_size c - dram_unreserved_base c - trace_region_size c) (config_alignment c)
      (dram_unreserved_base c) = Inr f" "allocator dram = Some f" "alignment_bytes dram = config_alignment c"
    using d by (auto simp: new_BankManager_vector_def rbind_eq_Inr Let_def)
  obtain g where g: "init_allocator (trace_region_size c) (config_alignment c) (dram_bank_size c - trace_region_size c) = Inr g"
      "allocator trace = Some g" "alignment_bytes trace = config_alignment c"
    using t by (auto simp: new_BankManager_vector_def rbind_eq_Inr Let_def)
  have b: "dram_unreserved_base c + (dram_bank_size c - dram_unreserved_base c - trace_region_size c) =
      dram_bank_size c - trace_region_size c" "dram_bank_size c - trace_region_size c + trace_region_size c = dram_bank_size c"
    "dram_bank_size c < 2 ^ 64"
    using fits by (auto simp: config_fits_def)
  have "bm_in (config_alignment c) (dram_unreserved_base c) (dram_bank_size c - trace_region_size c) dram"
    using new_BankManager_in(1) [OF f(1) _ al f(2,3)] b by simp
  moreover have "bm_in (config_alignment c) (dram_bank_size c - trace_region_size c) (dram_bank_size c) trace"
    using new_BankManager_in(1) [OF g(1) _ al g(2,3)] b by simp
  ultimately show ?thesis by (simp add: m)
qed

text \<open>Giving out the bank ids changes no manager and not the configuration.\<close>

definition same_managers :: "Allocator \<Rightarrow> Allocator \<Rightarrow> bool" where
  "same_managers a a' \<longleftrightarrow> dram_manager a' = dram_manager a \<and> trace_buffer_manager a' = trace_buffer_manager a \<and> config a' = config a"

lemma add_bank_managers:
  assumes "add_bank shuffled core off (ids, b, offs, a) = Inr (ids', b', offs', a')"
  shows "same_managers a a'"
  using assms by (auto simp: add_bank_def rbind_eq_Inr same_managers_def Let_def split: if_splits)

lemma assign_core_banks_managers:
  assumes "assign_core_banks c nb shuffled core (b, offs, a) = Inr (b', offs', a')"
  shows "same_managers a a'"
proof -
  have loop: "same_managers a (snd (snd (snd st)))"
    if "rfold (\<lambda>i. add_bank shuffled core (f i)) js ([], b, offs, a) = Inr st" for f js st
    using that
  proof (rule rfold_Inr_inv [where I = "\<lambda>st. same_managers a (snd (snd (snd st)))"])
    fix i st st' assume "same_managers a (snd (snd (snd st)))" "add_bank shuffled core (f i) st = Inr st'"
    then show "same_managers a (snd (snd (snd st')))"
      using add_bank_managers by (cases st; cases st') (fastforce simp: same_managers_def)
  qed (simp add: same_managers_def)
  obtain t ids a1 where t: "core_type_of c core = Inr t"
    and banks: "(case t of ComputeAndStore \<Rightarrow> add_bank shuffled core (Inr 0) ([], b, offs, a)
        | StorageOnly \<Rightarrow> rfold (\<lambda>i. add_bank shuffled core (storage_bank_offset c nb i)) [0..<per_storage_core nb] ([], b, offs, a)
        | _ \<Rightarrow> Inr ([], b, offs, a)) = Inr (ids, b', offs', a1)"
    and a': "a' = (if t = ComputeAndStore \<or> t = StorageOnly then insert_core_banks L1 core ids a1 else a1)"
    using assms unfolding assign_core_banks_def Let_def rbind_eq_Inr by auto
  have "same_managers a a1"
  proof (cases t)
    case StorageOnly
    then show ?thesis using loop [of "storage_bank_offset c nb" "[0..<per_storage_core nb]"] banks by simp
  next
    case ComputeAndStore
    then show ?thesis using add_bank_managers banks by simp
  qed (use banks in \<open>simp_all add: same_managers_def\<close>)
  then show ?thesis by (simp add: a' same_managers_def)
qed

lemma assign_banks_managers:
  assumes r: "assign_banks shuffle c a = Inr (offs, small, a')"
  shows "same_managers a a'"
proof -
  obtain nb shuffled b1 offs1 a1 where
      f: "rfold (assign_core_banks c nb shuffled) (grid_cores (worker_grid_size c)) (0, [], a) = Inr (b1, offs1, a1)"
    and g: "a' = a1 \<or> (\<exists>st. rfold (assign_small_bank c) (grid_cores (worker_grid_size c)) (b1, [], a1) = Inr st \<and> a' = snd (snd st))"
    using r by (fastforce simp: assign_banks_def rbind_eq_Inr split: if_splits)
  have 1: "same_managers a (snd (snd (b1, offs1, a1)))"
    using f
  proof (rule rfold_Inr_inv [where I = "\<lambda>st. same_managers a (snd (snd st))"])
    fix core st st' assume "same_managers a (snd (snd st))" "assign_core_banks c nb shuffled core st = Inr st'"
    then show "same_managers a (snd (snd st'))"
      using assign_core_banks_managers by (cases st; cases st') (fastforce simp: same_managers_def)
  qed (simp add: same_managers_def)
  have 2: "same_managers a (snd (snd st))" if "rfold (assign_small_bank c) (grid_cores (worker_grid_size c)) (b1, [], a1) = Inr st" for st
    using that
  proof (rule rfold_Inr_inv [where I = "\<lambda>st. same_managers a (snd (snd st))"])
    fix core st st' assume "same_managers a (snd (snd st))" "assign_small_bank c core st = Inr st'"
    then show "same_managers a (snd (snd st'))"
      by (cases st) (auto simp: assign_small_bank_def rbind_eq_Inr same_managers_def Let_def split: if_splits)
  qed (use 1 in simp)
  show ?thesis using g 1 2 by auto
qed

lemma init_l1_managers:
  assumes fits: "config_fits c" and r: "init_compute_and_storage_l1_bank_manager shuffle c a = Inr a'"
  shows "bm_in (config_alignment c) (area_lo c L1) (area_hi c L1) (l1_manager a') \<and>
    bm_in (config_alignment c) (area_lo c L1_SMALL) (area_hi c L1_SMALL) (l1_small_manager a') \<and> same_managers a a'"
proof -
  obtain k where k: "k \<le> 31" "config_alignment c = 2 ^ k" using fits by (auto simp: config_fits_def)
  have al: "config_alignment c \<le> 2 ^ 63" unfolding k(2) by (rule power_increasing) (use k(1) in simp_all)
  define allocatable where "allocatable = sub64 (sub64 (worker_l1_size c) (l1_unreserved_base c)) (l1_small_size c)"
  obtain offs small a1 limit small_limit l1 sm where
      b: "assign_banks shuffle c a = Inr (offs, small, a1)"
    and l1: "new_BankManager_map L1 offs allocatable limit (config_alignment c) (l1_unreserved_base c) = Inr l1"
    and le: "add64 (l1_unreserved_base c) (l1_small_size c) \<le> worker_l1_size c"
    and sm: "new_BankManager_map L1_SMALL small (l1_small_size c) small_limit (config_alignment c)
      (add64 (l1_unreserved_base c) allocatable) = Inr sm"
    and a': "a' = a1\<lparr>l1_manager := l1, l1_small_manager := sm\<rparr>"
    using r unfolding init_compute_and_storage_l1_bank_manager_def Let_def allocatable_def [symmetric]
    by (auto simp: rbind_eq_Inr split: if_splits)
  have small: "l1_unreserved_base c < 2 ^ 32" "l1_small_size c < 2 ^ 63" "worker_l1_size c < 2 ^ 63"
    using fits by (simp_all add: config_fits_def)
  then have le': "l1_unreserved_base c + l1_small_size c \<le> worker_l1_size c" using le by (simp add: wadd_id)
  have s: "l1_unreserved_base c \<le> worker_l1_size c" "worker_l1_size c < 2 ^ 64"
    "l1_small_size c \<le> worker_l1_size c - l1_unreserved_base c" "worker_l1_size c - l1_unreserved_base c < 2 ^ 64"
    using le' small by auto
  have sz: "allocatable = worker_l1_size c - l1_unreserved_base c - l1_small_size c"
    unfolding allocatable_def by (simp only: wsub_id [OF s(1,2)] wsub_id [OF s(3,4)])
  then have sum: "l1_unreserved_base c + allocatable = worker_l1_size c - l1_small_size c" using le' by simp
  then have off: "add64 (l1_unreserved_base c) allocatable = worker_l1_size c - l1_small_size c"
    using s(2) by (simp add: wadd_id)
  obtain f where f: "init_allocator allocatable (config_alignment c) (l1_unreserved_base c) = Inr f"
      "allocator l1 = Some f" "alignment_bytes l1 = config_alignment c"
    using l1 by (auto simp: new_BankManager_map_def rbind_eq_Inr)
  obtain g where g: "init_allocator (l1_small_size c) (config_alignment c) (worker_l1_size c - l1_small_size c) = Inr g"
      "allocator sm = Some g" "alignment_bytes sm = config_alignment c"
    using sm unfolding off by (auto simp: new_BankManager_map_def rbind_eq_Inr)
  have "bm_in (config_alignment c) (l1_unreserved_base c) (worker_l1_size c - l1_small_size c) l1"
    using new_BankManager_in(1) [OF f(1) _ al f(2,3)] sum s(2) by simp
  moreover have "bm_in (config_alignment c) (worker_l1_size c - l1_small_size c) (worker_l1_size c) sm"
    using new_BankManager_in(1) [OF g(1) _ al g(2,3)] le' s(2) by simp
  ultimately show ?thesis using assign_banks_managers [OF b] by (simp add: a' same_managers_def)
qed

lemma new_L1BankingAllocator_in:
  assumes fits: "config_fits c" and r: "new_L1BankingAllocator shuffle c = Inr a"
  shows "managers_in (config_alignment c) (area_lo c) (area_hi c) a"
proof -
  obtain a1 where d: "init_one_bank_per_channel c (empty_Allocator c) = Inr a1"
    and l: "init_compute_and_storage_l1_bank_manager shuffle c a1 = Inr a"
    using r by (auto simp: new_L1BankingAllocator_def new_Allocator_def rbind_eq_Inr)
  show ?thesis
    using init_dram_managers [OF fits d] init_l1_managers [OF fits l] by (simp add: managers_in_def same_managers_def)
qed

text \<open>L1 and L1_SMALL share the memory of the cores, DRAM and TRACE that of the channels.\<close>

definition same_memory :: "BufferType \<Rightarrow> BufferType \<Rightarrow> bool" where
  "same_memory s t \<longleftrightarrow> (s = L1 \<or> s = L1_SMALL) = (t = L1 \<or> t = L1_SMALL)"

lemma areas_separate:
  assumes "config_fits c" and "same_memory s t" and "s \<noteq> t" and "manager s a = Inr bm" and "manager t a = Inr bm'"
  shows "area_hi c s \<le> area_lo c t \<or> area_hi c t \<le> area_lo c s"
  using assms by (cases s; cases t) (auto simp: same_memory_def manager_def)

text \<open>(C2) The buffers of the L1 banking allocator never overlap.  In every state it reaches by any calls, successful
  or not, two live regions of the same memory (of one manager, or of L1 and L1_SMALL, or of DRAM and TRACE) are equal or disjoint,
  and each lies in the range of its manager: above the reserved base, below the end of the bank.
  Addresses are those before the offset of a bank is added.\<close>

theorem allocator_buffers_disjoint:
  assumes "config_fits c" and "new_L1BankingAllocator shuffle c = Inr a0" and "alloc_step\<^sup>*\<^sup>* a0 a"
    and "manager s a = Inr bm" and "(x, n) \<in> live_regions bm"
    and "manager t a = Inr bm'" and "(y, k) \<in> live_regions bm'" and "same_memory s t"
  shows "((s, x, n) = (t, y, k) \<or> x + n \<le> y \<or> y + k \<le> x) \<and> area_lo c s \<le> x \<and> x + n \<le> area_hi c s \<and> 0 < n"
proof -
  obtain j where j: "j \<le> 31" "config_alignment c = 2 ^ j" using assms(1) by (auto simp: config_fits_def)
  have ok: "managers_in (2 ^ j) (area_lo c) (area_hi c) a"
    by (rule alloc_steps_keep [OF assms(3)]) (use new_L1BankingAllocator_in [OF assms(1,2)] j in simp_all)
  note s = bm_in_range [OF managers_in_manager [OF ok assms(4)] assms(5)]
  note t = bm_in_range [OF managers_in_manager [OF ok assms(6)] assms(7)]
  show ?thesis
  proof (cases "s = t")
    case True
    then have "bm = bm'" using assms(4,6) by simp
    then show ?thesis
      using s True bm_in_disjoint [OF managers_in_manager [OF ok assms(4)] assms(5), of y k] assms(7) by auto
  next
    case False
    then show ?thesis using s t areas_separate [OF assms(1,8) False assms(4,6)] by auto
  qed
qed

subsection \<open>An example\<close>

text \<open>Two Tensix cores and one DRAM channel, no trace region.\<close>

definition example_config :: AllocatorConfig where
  "example_config = \<lparr>num_dram_channels = 1, dram_bank_size = 1048576, dram_bank_offsets = [0], dram_unreserved_base = 32,
     l1_unreserved_base = 102400, worker_grid_size = CoreCoord 2 1, worker_l1_size = 1048576, storage_core_bank_size = None,
     l1_small_size = 32768, trace_region_size = 0,
     core_type_from_noc_coord_table = [(CoreCoord 1 1, ComputeAndStore), (CoreCoord 2 1, ComputeAndStore)],
     worker_log_to_physical_routing_x = [(0, 1), (1, 2)], worker_log_to_physical_routing_y = [(0, 1)],
     l1_bank_remap = [], compute_grid_size = CoreCoord 2 1, config_alignment = 32\<rparr>"







lemma example_init:
  obtains a0 f g where "new_L1BankingAllocator rev example_config = Inr a0"
    and "allocator (l1_manager a0) = Some f" and "blocks f = [(0, 913408, True)]"
    and "alignment f = 32" and "min_allocation_size f = 32" and "offset_bytes f = 102400" and "max_size_bytes f = 913408"
    and "allocator (l1_small_manager a0) = Some g" and "blocks g = [(0, 32768, True)]"
    and "alignment g = 32" and "min_allocation_size g = 32" and "offset_bytes g = 1015808" and "max_size_bytes g = 32768"
    and "bm_num_banks (l1_manager a0) = 2" and "interleaved_address_limit (l1_manager a0) = 102432"
    and "compute_grid_size (config a0) = CoreCoord 2 1" and "buffer_type (l1_manager a0) = L1"
proof -
  have "case init_one_bank_per_channel example_config (empty_Allocator example_config) of Inl _ \<Rightarrow> False | Inr a \<Rightarrow>
    (case init_compute_and_storage_l1_bank_manager rev example_config a of Inl _ \<Rightarrow> False | Inr a \<Rightarrow>
      bank_id_to_dram_channel a \<noteq> [] \<and> dram_channel_to_bank_ids a \<noteq> [] \<and> bank_id_to_logical_core a \<noteq> [] \<and>
      (case allocator (l1_manager a) of None \<Rightarrow> False | Some f \<Rightarrow> blocks f = [(0, 913408, True)] \<and>
         alignment f = 32 \<and> min_allocation_size f = 32 \<and> offset_bytes f = 102400 \<and> max_size_bytes f = 913408) \<and>
      (case allocator (l1_small_manager a) of None \<Rightarrow> False | Some f \<Rightarrow> blocks f = [(0, 32768, True)] \<and>
         alignment f = 32 \<and> min_allocation_size f = 32 \<and> offset_bytes f = 1015808 \<and> max_size_bytes f = 32768) \<and>
      bm_num_banks (l1_manager a) = 2 \<and> interleaved_address_limit (l1_manager a) = 102432 \<and>
      compute_grid_size (config a) = CoreCoord 2 1 \<and> buffer_type (l1_manager a) = L1)"
    by code_simp
  then show ?thesis using that
    by (auto simp: new_L1BankingAllocator_def new_Allocator_def split: sum.splits option.splits)
qed

lemma first_allocate:
  assumes "fl_inv fl" and "blocks fl = [(0, S, True)]" and "size_ok fl n" and "alloc_size_of fl n = sz" and "sz \<le> S"
    and "limit \<le> alloc_offset up S sz + offset_bytes fl"
  shows "\<exists>fl'. allocate n up limit fl = (Inr (Some (alloc_offset up S sz + offset_bytes fl)), fl') \<and>
    regions fl' = {(alloc_offset up S sz + offset_bytes fl, sz)}"
proof (rule allocate_cases [OF assms(1,3), of up limit])
  assume "\<And>a s. (a, s, True) \<in> set (blocks fl) \<Longrightarrow> s < alloc_size_of fl n"
  then have "S < sz" using assms(2,4) by simp
  then show ?thesis using assms(5) by simp
next
  fix a s fl' assume b: "(a, s, True) \<in> set (blocks fl)"
    and e: "allocate n up limit fl = (if a + alloc_offset up s (alloc_size_of fl n) + offset_bytes fl < limit
      then Inl (TT_THROW ''Out of Memory: Cannot allocate at an address below the limit'')
      else Inr (Some (a + alloc_offset up s (alloc_size_of fl n) + offset_bytes fl)), fl')"
  have as: "a = 0" "s = S" using b assms(2) by simp_all
  then have al: "allocate n up limit fl = (Inr (Some (alloc_offset up S sz + offset_bytes fl)), fl')"
    using e assms(4,6) by simp
  have "regions fl = {}" using assms(2) by (simp add: regions_def allocated_def)
  then show ?thesis using al allocate_regions [OF assms(1,3) al] assms(4) by simp
qed

lemma example_fits: "config_fits example_config"
  by (simp add: config_fits_def example_config_def) (rule exI [of _ 5], simp)

lemma example_1024:
  assumes "alignment fl = 32" and "min_allocation_size fl = 32"
  shows "size_ok fl 1024" and "alloc_size_of fl 1024 = 1024"
  using assms by (simp_all add: size_ok_def alloc_size_of_def align_def wadd_def wsub_def wmul_def)

lemma bm_in_fl_inv: "bm_in al lo hi bm \<Longrightarrow> allocator bm = Some fl \<Longrightarrow> 0 < max_size_bytes fl \<Longrightarrow> fl_inv fl"
  by (auto simp: bm_in_def fl_ok_def void_list_def)

lemma example_state:
  obtains a0 a1 a where "new_L1BankingAllocator rev example_config = Inr a0" and "alloc_step\<^sup>*\<^sup>* a0 a"
    and "live_regions (l1_manager a) = {(1014784, 1024)}" and "live_regions (l1_small_manager a) = {(1015808, 1024)}"
    and "num_banks a0 L1 = Inr 2" and "allocate_buffer 2048 1024 L1 False None a0 = (Inr 1014784, a1)"
    and "allocate_buffer 2048 1024 L1_SMALL True (Some 2) a1 = (Inr 1015808, a)" and "live_regions (l1_manager a1) = {(1014784, 1024)}"
proof -
  obtain a0 f g where n: "new_L1BankingAllocator rev example_config = Inr a0"
    and f: "allocator (l1_manager a0) = Some f" "blocks f = [(0, 913408, True)]" "alignment f = 32" "min_allocation_size f = 32"
      "offset_bytes f = 102400" "max_size_bytes f = 913408"
    and g: "allocator (l1_small_manager a0) = Some g" "blocks g = [(0, 32768, True)]" "alignment g = 32" "min_allocation_size g = 32"
      "offset_bytes g = 1015808" "max_size_bytes g = 32768"
    and m: "bm_num_banks (l1_manager a0) = 2" "interleaved_address_limit (l1_manager a0) = 102432"
      "compute_grid_size (config a0) = CoreCoord 2 1" "buffer_type (l1_manager a0) = L1"
    by (rule example_init)
  note ok = new_L1BankingAllocator_in [OF example_fits n]
  have in1: "bm_in 32 (area_lo example_config L1) (area_hi example_config L1) (l1_manager a0)"
    and in2: "bm_in 32 (area_lo example_config L1_SMALL) (area_hi example_config L1_SMALL) (l1_small_manager a0)"
    using ok by (simp_all add: managers_in_def example_config_def)
  have inv: "fl_inv f" "fl_inv g" using bm_in_fl_inv [OF in1 f(1)] bm_in_fl_inv [OF in2 g(1)] f(6) g(6) by simp_all
  have al: "alignment_bytes (l1_manager a0) = 32" "alignment_bytes (l1_small_manager a0) = 32"
    using in1 in2 by (simp_all add: bm_in_def)
  have sz: "SizeBytesPerBank 2048 1024 2 32 = Inr 1024" by code_simp
  obtain f' where f': "allocate 1024 False 102432 f = (Inr (Some 1014784), f')" "regions f' = {(1014784, 1024)}"
    using first_allocate [OF inv(1) f(2) example_1024 [OF f(3,4)], of 102432 False] by (auto simp: alloc_offset_def f(5))
  obtain g' where g': "allocate 1024 True 0 g = (Inr (Some 1015808), g')" "regions g' = {(1015808, 1024)}"
    using first_allocate [OF inv(2) g(2) example_1024 [OF g(3,4)], of 0 True] by (auto simp: alloc_offset_def g(5))
  define a1 where "a1 = snd (allocate_buffer 2048 1024 L1 False None a0)"
  have a1: "l1_manager a1 = (l1_manager a0)\<lparr>allocator := Some f', allocated_buffers := insert 1014784 (allocated_buffers (l1_manager a0))\<rparr>"
    "l1_small_manager a1 = l1_small_manager a0" "config a1 = config a0"
    by (simp_all add: a1_def allocate_buffer_def manager_def base_alloc_def bm_allocate_buffer_def banks_for_buffer_def
        address_limit_for_def m f(1) al sz f'(1) set_manager_def)
  define a2 where "a2 = snd (allocate_buffer 2048 1024 L1_SMALL True (Some 2) a1)"
  have a2: "l1_manager a2 = l1_manager a1"
    "l1_small_manager a2 = (l1_small_manager a0)\<lparr>allocator := Some g', allocated_buffers := insert 1015808 (allocated_buffers (l1_small_manager a0))\<rparr>"
    by (simp_all add: a2_def allocate_buffer_def manager_def base_alloc_def bm_allocate_buffer_def banks_for_buffer_def
        address_limit_for_def a1 m g(1) al sz g'(1) set_manager_def wmul_def)
  have steps: "alloc_step a0 a1" "alloc_step a1 a2" unfolding a1_def a2_def by (rule step_allocate)+
  have e1: "allocate_buffer 2048 1024 L1 False None a0 = (Inr 1014784, a1)"
    by (simp add: a1_def allocate_buffer_def manager_def base_alloc_def bm_allocate_buffer_def banks_for_buffer_def
        address_limit_for_def m f(1) al sz f'(1))
  have e2: "allocate_buffer 2048 1024 L1_SMALL True (Some 2) a1 = (Inr 1015808, a2)"
    by (simp add: a2_def allocate_buffer_def manager_def base_alloc_def bm_allocate_buffer_def banks_for_buffer_def
        address_limit_for_def a1 m g(1) al sz g'(1) wmul_def)
  have nb: "num_banks a0 L1 = Inr 2" by (simp add: num_banks_def manager_def m)
  from steps have "alloc_step\<^sup>*\<^sup>* a0 a2" by (meson converse_rtranclp_into_rtranclp r_into_rtranclp)
  then show ?thesis
    by (rule that [OF n _ _ _ nb e1 e2]) (simp_all add: a2 a1 live_regions_def f'(2) g'(2))
qed

theorem allocator_buffers_disjoint_witness:
  "\<exists>a0 a. new_L1BankingAllocator rev example_config = Inr a0 \<and> alloc_step\<^sup>*\<^sup>* a0 a \<and>
    ((L1, 1014784 :: nat, 1024 :: nat) = (L1_SMALL, 1015808, 1024) \<or> (1014784 :: nat) + 1024 \<le> 1015808 \<or> (1015808 :: nat) + 1024 \<le> 1014784) \<and>
    area_lo example_config L1 \<le> 1014784 \<and> 1014784 + 1024 \<le> area_hi example_config L1 \<and> (0 :: nat) < 1024"
proof -
  obtain a0 a where n: "new_L1BankingAllocator rev example_config = Inr a0" and r: "alloc_step\<^sup>*\<^sup>* a0 a"
    and l: "live_regions (l1_manager a) = {(1014784, 1024)}" "live_regions (l1_small_manager a) = {(1015808, 1024)}"
    by (rule example_state)
  have m: "manager L1 a = Inr (l1_manager a)" "manager L1_SMALL a = Inr (l1_small_manager a)" by (simp_all add: manager_def)
  have x: "(1014784, 1024) \<in> live_regions (l1_manager a)" "(1015808, 1024) \<in> live_regions (l1_small_manager a)" using l by simp_all
  have s: "same_memory L1 L1_SMALL" by (simp add: same_memory_def)
  show ?thesis
    by (rule exI [of _ a0], rule exI [of _ a],
        rule conjI [OF n conjI [OF r allocator_buffers_disjoint [OF example_fits n r m(1) x(1) m(2) x(2) s]]])
qed

subsection \<open>The basic allocator\<close>

definition limit_zero :: "nat \<Rightarrow> BankManager \<Rightarrow> bool" where
  "limit_zero al bm \<longleftrightarrow> buffer_type bm = L1 \<and> interleaved_address_limit bm = 0 \<and> allocator bm \<noteq> None \<and> alignment_bytes bm = al"

lemma limit_zero_update: "limit_zero al bm \<Longrightarrow> limit_zero al (bm\<lparr>allocator := Some fl, allocated_buffers := A\<rparr>)"
  "limit_zero al bm \<Longrightarrow> limit_zero al (bm\<lparr>allocator := Some fl\<rparr>)"
  by (simp_all add: limit_zero_def)

lemma bm_deallocate_limit_zero:
  "limit_zero al bm \<Longrightarrow> bm_deallocate_buffer x bm = Inr bm' \<Longrightarrow> limit_zero al bm'"
  by (auto simp: bm_deallocate_buffer_def rbind_eq_Inr limit_zero_update split: option.splits)

lemma bm_deallocate_all_limit_zero:
  "limit_zero al bm \<Longrightarrow> bm_deallocate_all order bm = Inr bm' \<Longrightarrow> limit_zero al bm'"
  unfolding bm_deallocate_all_def
  by (erule rfold_Inr_inv [where I = "limit_zero al"]) (auto intro: bm_deallocate_limit_zero)

lemma l1_manager_set:
  "l1_manager (set_manager btype bm a) = (if btype = L1 then bm else l1_manager a)"
  by (cases btype) (simp_all add: set_manager_def)

lemma manager_l1: "manager btype a = Inr bm \<Longrightarrow> btype = L1 \<Longrightarrow> bm = l1_manager a"
  by (simp add: manager_def)

lemma alloc_step_limit_zero:
  assumes z: "limit_zero al (l1_manager a)" and step: "alloc_step a a'"
  shows "limit_zero al (l1_manager a')"
  using step
proof cases
  case (step_allocate sz page btype bottom_up num_shards)
  have "limit_zero al (snd (bm_allocate_buffer sz page bottom_up grid num_shards (l1_manager a)))" for grid
    using z by (auto simp: bm_allocate_buffer_def limit_zero_update split: sum.splits option.splits prod.splits)
  then show ?thesis
    using z by (auto simp: step_allocate allocate_buffer_def base_alloc_def l1_manager_set dest!: manager_l1
        split: sum.splits prod.splits) (metis snd_conv)+
next
  case (step_deallocate addr btype)
  then obtain bm bm' where bm: "manager btype a = Inr bm" "bm_deallocate_buffer addr bm = Inr bm'" "a' = set_manager btype bm' a"
    by (auto simp: deallocate_buffer_def rbind_eq_Inr)
  show ?thesis using z manager_l1 [OF bm(1)] bm_deallocate_limit_zero [OF _ bm(2)] by (simp add: bm(3) l1_manager_set)
next
  case (step_deallocate_buffers order)
  have m: "limit_zero al (l1_manager y)" if x: "limit_zero al (l1_manager x)" and y: "deallocate_manager order btype x = Inr y" for btype x y
  proof -
    obtain bm bm' where bm: "manager btype x = Inr bm" "bm_deallocate_all (order btype) bm = Inr bm'" "y = set_manager btype bm' x"
      using y by (auto simp: deallocate_manager_def rbind_eq_Inr)
    show ?thesis using x manager_l1 [OF bm(1)] bm_deallocate_all_limit_zero [OF _ bm(2)] by (simp add: bm(3) l1_manager_set)
  qed
  show ?thesis
    using step_deallocate_buffers unfolding deallocate_buffers_def
    by (rule rfold_Inr_inv [where I = "\<lambda>a. limit_zero al (l1_manager a)"]) (use z m in auto)
qed (use z in \<open>auto simp: clear_managers_def mark_allocations_unsafe_def mark_allocations_safe_def bm_clear_def limit_zero_update
    split: option.splits\<close>)

lemma fold_l1_banks: "l1_manager (snd (fold assign_l1_bank cores st)) = l1_manager (snd st)"
  by (induction cores arbitrary: st) (simp_all add: assign_l1_bank_def split: prod.splits)

lemma new_BasicAllocator_limit_zero:
  assumes "new_BasicAllocator c = Inr a"
  shows "limit_zero (config_alignment c) (l1_manager a)"
  using assms
  by (auto simp: new_BasicAllocator_def new_Allocator_def init_one_bank_per_l1_def rbind_eq_Inr Let_def fold_l1_banks
      new_BankManager_vector_def limit_zero_def)

text \<open>(C39) The basic allocator cannot allocate an interleaved L1 buffer.  Its L1 manager has the address limit zero,
  which \<^verbatim>\<open>allocate_buffer\<close> refuses for a buffer that is not sharded: whatever was done before, and however much
  memory is free, the call raises a \<^verbatim>\<open>TT_FATAL\<close> (and changes nothing) as soon as its size is valid.\<close>

theorem basic_allocator_interleaved_L1_fails:
  assumes "new_BasicAllocator c = Inr a0" and "alloc_step\<^sup>*\<^sup>* a0 a"
    and "SizeBytesPerBank sz page (bm_num_banks (l1_manager a)) (config_alignment c) = Inr n"
  shows "allocate_buffer sz page L1 bottom_up None a = (Inl (TT_FATAL ''Address limit needs to be larger than zero.''), a)"
proof -
  have "limit_zero (config_alignment c) (l1_manager a)"
    using assms(2) new_BasicAllocator_limit_zero [OF assms(1)]
    by (induction rule: rtranclp_induct) (auto intro: alloc_step_limit_zero)
  then obtain fl where "allocator (l1_manager a) = Some fl" "alignment_bytes (l1_manager a) = config_alignment c"
      "buffer_type (l1_manager a) = L1" "interleaved_address_limit (l1_manager a) = 0"
    by (auto simp: limit_zero_def)
  then show ?thesis
    using assms(3)
    by (simp add: allocate_buffer_def manager_def base_alloc_def bm_allocate_buffer_def banks_for_buffer_def
        address_limit_for_def set_manager_def)
qed

definition basic_config :: AllocatorConfig where
  "basic_config = example_config\<lparr>l1_small_size := 0\<rparr>"

lemma basic_init:
  obtains a0 where "new_BasicAllocator basic_config = Inr a0" and "bm_num_banks (l1_manager a0) = 2"
proof -
  have "case init_one_bank_per_channel basic_config (empty_Allocator basic_config) of Inl _ \<Rightarrow> False | Inr a \<Rightarrow>
    (case init_one_bank_per_l1 basic_config a of Inl _ \<Rightarrow> False | Inr a \<Rightarrow>
      bank_id_to_dram_channel a \<noteq> [] \<and> dram_channel_to_bank_ids a \<noteq> [] \<and> bank_id_to_logical_core a \<noteq> [] \<and>
      bm_num_banks (l1_manager a) = 2)"
    by code_simp
  then show ?thesis using that
    by (auto simp: new_BasicAllocator_def new_Allocator_def split: sum.splits)
qed

theorem basic_allocator_interleaved_L1_fails_witness:
  "\<exists>a0. new_BasicAllocator basic_config = Inr a0 \<and>
    allocate_buffer 2048 1024 L1 False None a0 = (Inl (TT_FATAL ''Address limit needs to be larger than zero.''), a0)"
proof -
  obtain a0 where n: "new_BasicAllocator basic_config = Inr a0" and b: "bm_num_banks (l1_manager a0) = 2" by (rule basic_init)
  have "SizeBytesPerBank 2048 1024 2 (config_alignment basic_config) = Inr 1024" by code_simp
  then have s: "SizeBytesPerBank 2048 1024 (bm_num_banks (l1_manager a0)) (config_alignment basic_config) = Inr 1024" by (simp add: b)
  show ?thesis by (rule exI [of _ a0], rule conjI [OF n basic_allocator_interleaved_L1_fails [OF n rtranclp.rtrancl_refl s]])
qed

end
