(* ===== verification/Allocator_Banks.thy ===== *)
theory Allocator_Banks
  imports Allocator_Props "HOL-Library.Multiset"
begin

text \<open>
  The bank ids of the L1 banking allocator.  \<open>core_banks a t\<close> is the map of cores to bank ids of a buffer type; the
  invariants of the two loops of \<^verbatim>\<open>init_compute_and_storage_l1_bank_manager\<close> say that \<^verbatim>\<open>bank_id_to_logical_core\<close>
  is the inverse of these maps and which ids have been given out.
\<close>

subsection \<open>Association lists\<close>

lemma map_insert_new: "k \<notin> fst ` set m \<Longrightarrow> map_insert k v m = m @ [(k, v)]"
  by (simp add: map_insert_def map_of_eq_None_iff split: option.split)

definition core_banks :: "Allocator \<Rightarrow> BufferType \<Rightarrow> (CoreCoord \<times> nat list) list" where
  "core_banks a t = (case map_of (logical_core_to_bank_ids a) t of None \<Rightarrow> [] | Some m \<Rightarrow> m)"

lemma core_banks_insert:
  "core_banks (insert_core_banks t core ids a) t' = (if t' = t then map_insert core ids (core_banks a t) else core_banks a t')"
  by (simp add: core_banks_def insert_core_banks_def Let_def update_conv)

lemma core_banks_id_update [simp]: "core_banks (a\<lparr>bank_id_to_logical_core := x\<rparr>) t = core_banks a t"
  by (simp add: core_banks_def)

lemma core_banks_managers [simp]: "core_banks (a\<lparr>l1_manager := x, l1_small_manager := y\<rparr>) t = core_banks a t"
  by (simp add: core_banks_def)

lemma bank_ids_from_logical_core_iff:
  "bank_ids_from_logical_core a t core = Inr ids \<longleftrightarrow> map_of (core_banks a t) core = Some ids"
  by (auto simp: bank_ids_from_logical_core_def core_banks_def lookup_at_def rbind_def split: option.splits)

text \<open>The pairs of bank and core that a map of cores stands for.\<close>

definition pairs :: "(CoreCoord \<times> nat list) list \<Rightarrow> (nat \<times> CoreCoord) list" where
  "pairs m = concat (map (\<lambda>(core, ids). map (\<lambda>b. (b, core)) ids) m)"

lemma pairs_append [simp]: "pairs (m @ n) = pairs m @ pairs n"
  by (simp add: pairs_def)

lemma pairs_single [simp]: "pairs [(core, ids)] = map (\<lambda>b. (b, core)) ids" "pairs [] = []"
  by (simp_all add: pairs_def)

lemma in_pairs: "(b, core) \<in> set (pairs m) \<longleftrightarrow> (\<exists>ids. (core, ids) \<in> set m \<and> b \<in> set ids)"
  by (force simp: pairs_def)

subsection \<open>Loops over the grid\<close>

lemma rfold_Inr_prefix:
  assumes "rfold f xs s = Inr s'" and "I [] s"
    and "\<And>pre x post s s'. xs = pre @ x # post \<Longrightarrow> I pre s \<Longrightarrow> f x s = Inr s' \<Longrightarrow> I (pre @ [x]) s'"
  shows "I xs s'"
proof -
  have "I (pre @ ys) s'" if "xs = pre @ ys" and "rfold f ys s = Inr s'" and "I pre s" for pre ys s
    using that
  proof (induction ys arbitrary: pre s)
    case (Cons y ys)
    then obtain t where "f y s = Inr t" "rfold f ys t = Inr s'" by (auto simp: rbind_eq_Inr)
    then show ?case using Cons.IH [of "pre @ [y]" t] Cons.prems assms(3) [of pre y ys s t] by simp
  qed simp
  from this [of "[]" xs s] show ?thesis using assms by simp
qed

lemma distinct_grid_cores: "distinct (grid_cores grid)"
proof -
  have "distinct (concat (map (\<lambda>y. map (\<lambda>x. CoreCoord x y) [0..<w]) ys))" if "distinct ys" for w ys
    using that by (induction ys) (auto simp: distinct_map inj_on_def)
  then show ?thesis by (simp add: grid_cores_def)
qed

lemma length_grid_cores: "length (grid_cores grid) = cx grid * cy grid"
  by (simp add: grid_cores_def length_concat o_def sum_list_triv)

subsection \<open>The L1 banks\<close>

text \<open>\<open>S\<close> are the shuffled bank ids; \<open>ids\<close> are those of the core that is being assigned.\<close>

definition bank_inv :: "nat list \<Rightarrow> CoreCoord list \<Rightarrow> nat list \<Rightarrow> CoreCoord \<Rightarrow> bank_state \<Rightarrow> bool" where
  "bank_inv S seen ids core st \<longleftrightarrow> (case st of (j, offs, a) \<Rightarrow>
     j \<le> length S \<and> map fst offs = take j S \<and>
     bank_id_to_logical_core a = pairs (core_banks a L1) @ map (\<lambda>b. (b, core)) ids \<and>
     map fst (bank_id_to_logical_core a) = take j S \<and>
     distinct (map fst (core_banks a L1)) \<and> fst ` set (core_banks a L1) \<subseteq> set seen \<and> core_banks a L1_SMALL = [])"

lemma map_fst_pairs_map: "map fst (map (\<lambda>b. (b, core)) ids) = ids"
  by (induction ids) simp_all

lemma add_bank_inv:
  assumes inv: "bank_inv S seen ids core (j, offs, a)" and S: "distinct S" "length S < 2 ^ 32"
    and r: "add_bank S core off (ids, j, offs, a) = Inr (ids', st')"
  shows "bank_inv S seen ids' core st'"
proof -
  obtain v where j: "j < length S" and off: "off = Inr v" and ids': "ids' = ids @ [S ! j]"
    and st': "st' = (add32 j 1, map_insert (S ! j) v offs, a\<lparr>bank_id_to_logical_core := map_insert (S ! j) core (bank_id_to_logical_core a)\<rparr>)"
    using r by (auto simp: add_bank_def rbind_eq_Inr Let_def split: if_splits)
  have j1: "add32 j 1 = Suc j" using j S(2) by (simp add: wadd_id)
  have new: "S ! j \<notin> set (take j S)" using S(1) j by (simp add: in_set_conv_nth nth_eq_iff_index_eq)
  have offs: "map fst offs = take j S" and idm: "map fst (bank_id_to_logical_core a) = take j S"
    using inv unfolding bank_inv_def prod.case by blast+
  have "S ! j \<notin> fst ` set offs" "S ! j \<notin> fst ` set (bank_id_to_logical_core a)"
    using new offs idm by (metis set_map)+
  then have st'': "st' = (Suc j, offs @ [(S ! j, v)], a\<lparr>bank_id_to_logical_core := bank_id_to_logical_core a @ [(S ! j, core)]\<rparr>)"
    by (simp only: st' j1 map_insert_new not_False_eq_True)
  have rest: "bank_id_to_logical_core a @ [(S ! j, core)] = pairs (core_banks a L1) @ map (\<lambda>b. (b, core)) (ids @ [S ! j])"
    "distinct (map fst (core_banks a L1))" "fst ` set (core_banks a L1) \<subseteq> set seen" "core_banks a L1_SMALL = []"
    using inv unfolding bank_inv_def prod.case by simp_all
  have take: "take (Suc j) S = take j S @ [S ! j]" using j by (simp add: take_Suc_conv_app_nth)
  show ?thesis
    unfolding bank_inv_def st'' prod.case ids' take
  proof (intro conjI)
    show "map fst (bank_id_to_logical_core (a\<lparr>bank_id_to_logical_core := bank_id_to_logical_core a @ [(S ! j, core)]\<rparr>)) =
        take j S @ [S ! j]"
      by (simp add: idm)
  qed (use j offs rest in simp_all)
qed

lemma storage_banks_inv:
  assumes "bank_inv S seen [] core st" and "distinct S" and "length S < 2 ^ 32"
    and r: "rfold (\<lambda>i. add_bank S core (f i)) js ([], st) = Inr (ids, st')"
  shows "bank_inv S seen ids core st'"
proof -
  have "case (ids, st') of (ids, st') \<Rightarrow> bank_inv S seen ids core st'"
    using r
  proof (rule rfold_Inr_inv [where I = "\<lambda>st. case st of (ids, st) \<Rightarrow> bank_inv S seen ids core st"])
    fix i s s' assume "case s of (ids, st) \<Rightarrow> bank_inv S seen ids core st" "add_bank S core (f i) s = Inr s'"
    then show "case s' of (ids, st) \<Rightarrow> bank_inv S seen ids core st"
      using add_bank_inv assms(2,3) by (cases s; cases s') auto
  qed (use assms(1) in simp)
  then show ?thesis by simp
qed

lemma assign_core_banks_inv:
  assumes inv: "bank_inv S seen [] core st" and S: "distinct S" "length S < 2 ^ 32" and core: "core \<notin> set seen"
    and r: "assign_core_banks c nb S core st = Inr st'"
  shows "bank_inv S (seen @ [core]) [] core' st'"
proof -
  obtain t ids j offs a where t: "core_type_of c core = Inr t"
    and banks: "(case t of ComputeAndStore \<Rightarrow> add_bank S core (Inr 0) ([], st)
        | StorageOnly \<Rightarrow> rfold (\<lambda>i. add_bank S core (storage_bank_offset c nb i)) [0..<per_storage_core nb] ([], st)
        | _ \<Rightarrow> Inr ([], st)) = Inr (ids, j, offs, a)"
    and st': "st' = (j, offs, if t = ComputeAndStore \<or> t = StorageOnly then insert_core_banks L1 core ids a else a)"
    using r unfolding assign_core_banks_def Let_def rbind_eq_Inr by auto
  have "bank_inv S seen ids core (j, offs, a) \<and> (t = ComputeAndStore \<or> t = StorageOnly \<or> ids = [])"
  proof (cases t)
    case StorageOnly
    then show ?thesis using storage_banks_inv [OF inv S, of "storage_bank_offset c nb"] banks by simp
  next
    case ComputeAndStore
    then show ?thesis using add_bank_inv [OF _ S, of seen "[]" core] inv banks by (cases st) auto
  qed (use inv banks in simp_all)
  moreover from this have "core \<notin> fst ` set (core_banks a L1)" using core by (auto simp: bank_inv_def)
  ultimately show ?thesis
    by (auto simp: st' bank_inv_def core_banks_insert map_insert_new)
qed

lemma assign_all_core_banks:
  assumes r: "rfold (assign_core_banks c nb S) cores (0, [], a) = Inr st'" and d: "distinct cores"
    and S: "distinct S" "length S < 2 ^ 32"
    and a: "bank_id_to_logical_core a = []" "core_banks a L1 = []" "core_banks a L1_SMALL = []"
  shows "bank_inv S cores [] core' st'"
proof -
  have "\<forall>core. bank_inv S cores [] core st'"
    using r
  proof (rule rfold_Inr_prefix [where I = "\<lambda>seen st. \<forall>core. bank_inv S seen [] core st"])
    fix pre x post st st' assume c: "cores = pre @ x # post" and i: "\<forall>core. bank_inv S pre [] core st"
      and r: "assign_core_banks c nb S x st = Inr st'"
    have "x \<notin> set pre" using c d by simp
    then show "\<forall>core. bank_inv S (pre @ [x]) [] core st'" using assign_core_banks_inv [OF _ S _ r] i by blast
  qed (simp add: bank_inv_def a)
  then show ?thesis by blast
qed

subsection \<open>The L1_SMALL banks\<close>

definition small_inv :: "(CoreCoord \<times> nat list) list \<Rightarrow> nat \<Rightarrow> CoreCoord list \<Rightarrow> bank_state \<Rightarrow> bool" where
  "small_inv L N seen st \<longleftrightarrow> (case st of (j, offs, a) \<Rightarrow>
     N \<le> j \<and> j \<le> N + length seen \<and> map fst offs = [N..<j] \<and> core_banks a L1 = L \<and>
     bank_id_to_logical_core a = pairs L @ pairs (core_banks a L1_SMALL) \<and>
     map fst (pairs (core_banks a L1_SMALL)) = [N..<j] \<and>
     distinct (map fst (core_banks a L1_SMALL)) \<and> fst ` set (core_banks a L1_SMALL) \<subseteq> set seen)"

lemma assign_small_bank_inv:
  assumes inv: "small_inv L N seen st" and L: "fst ` set (pairs L) = {0..<N}" and core: "core \<notin> set seen"
    and b: "N + length seen + 1 < 2 ^ 32" and r: "assign_small_bank c core st = Inr st'"
  shows "small_inv L N (seen @ [core]) st'"
proof -
  obtain j offs a where st: "st = (j, offs, a)" by (cases st)
  obtain t where t: "core_type_of c core = Inr t" using r by (auto simp: assign_small_bank_def rbind_eq_Inr)
  show ?thesis
  proof (cases "t = ComputeAndStore")
    case False
    then have "st' = st" using r t by (simp add: assign_small_bank_def)
    then show ?thesis using inv by (auto simp: st small_inv_def)
  next
    case True
    define a1 where "a1 = insert_core_banks L1_SMALL core [j] a"
    have j: "N \<le> j" "j \<le> N + length seen" and offs: "map fst offs = [N..<j]" and c1: "core_banks a L1 = L"
      and idm: "bank_id_to_logical_core a = pairs L @ pairs (core_banks a L1_SMALL)"
      and sm: "map fst (pairs (core_banks a L1_SMALL)) = [N..<j]"
      and d: "distinct (map fst (core_banks a L1_SMALL))" "fst ` set (core_banks a L1_SMALL) \<subseteq> set seen"
      using inv unfolding st small_inv_def prod.case by blast+
    have j1: "add32 j 1 = Suc j" using j b by (simp add: wadd_id)
    have "j \<notin> fst ` set offs" using offs by (metis atLeastLessThan_iff less_irrefl set_map set_upt)
    moreover have sm': "fst ` set (pairs (core_banks a L1_SMALL)) = {N..<j}" using sm by (metis set_map set_upt)
    ultimately have new: "map_insert j 0 offs = offs @ [(j, 0)]"
      "map_insert j core (bank_id_to_logical_core a) = bank_id_to_logical_core a @ [(j, core)]"
      using L j by (simp_all add: map_insert_new idm image_Un)
    have st': "st' = (Suc j, offs @ [(j, 0)], a1\<lparr>bank_id_to_logical_core := bank_id_to_logical_core a @ [(j, core)]\<rparr>)"
      using r t True by (simp add: assign_small_bank_def st Let_def a1_def [symmetric] new j1 [simplified])
    have nc: "core \<notin> fst ` set (core_banks a L1_SMALL)" using d(2) core by blast
    then have c2: "core_banks a1 L1_SMALL = core_banks a L1_SMALL @ [(core, [j])]" "core_banks a1 L1 = L"
      by (simp_all add: a1_def core_banks_insert map_insert_new c1)
    show ?thesis
      using j d nc by (auto simp: st' small_inv_def c2 idm offs sm)
  qed
qed

lemma assign_all_small_banks:
  assumes r: "rfold (assign_small_bank c) cores (N, [], a) = Inr st'" and d: "distinct cores"
    and L: "core_banks a L1 = L" "fst ` set (pairs L) = {0..<N}" and a: "bank_id_to_logical_core a = pairs L" "core_banks a L1_SMALL = []"
    and b: "N + length cores < 2 ^ 32"
  shows "small_inv L N cores st'"
  using r
proof (rule rfold_Inr_prefix [where I = "small_inv L N"])
  fix pre x post st st' assume c: "cores = pre @ x # post" and i: "small_inv L N pre st" and r: "assign_small_bank c x st = Inr st'"
  show "small_inv L N (pre @ [x]) st'"
    by (rule assign_small_bank_inv [OF i L(2) _ _ r]) (use c d b in auto)
qed (simp add: small_inv_def L a)

subsection \<open>The bank ids of the allocator\<close>

lemma dram_banks_core_banks:
  assumes "t \<noteq> L1" and "t \<noteq> L1_SMALL"
  shows "core_banks (fold (insert_dram_bank t) js a) L1 = core_banks a L1 \<and>
    core_banks (fold (insert_dram_bank t) js a) L1_SMALL = core_banks a L1_SMALL \<and>
    bank_id_to_logical_core (fold (insert_dram_bank t) js a) = bank_id_to_logical_core a"
proof (induction js arbitrary: a)
  case (Cons j js)
  have e: "core_banks (b\<lparr>bank_id_to_dram_channel := x, dram_channel_to_bank_ids := y\<rparr>) u = core_banks b u" for b x y u
    by (simp add: core_banks_def)
  show ?case using Cons.IH assms by (simp add: insert_dram_bank_def core_banks_insert e)
qed simp

lemma init_dram_core_banks:
  assumes "init_one_bank_per_channel c (empty_Allocator c) = Inr a"
  shows "bank_id_to_logical_core a = []" and "core_banks a L1 = []" and "core_banks a L1_SMALL = []"
proof -
  have e: "core_banks (b\<lparr>dram_manager := x\<rparr>) u = core_banks b u" "core_banks (b\<lparr>trace_buffer_manager := x\<rparr>) u = core_banks b u"
    "core_banks (empty_Allocator c) u = []" for b x u
    by (simp_all add: core_banks_def empty_Allocator_def)
  show "bank_id_to_logical_core a = []" "core_banks a L1 = []" "core_banks a L1_SMALL = []"
    using assms by (auto simp: init_one_bank_per_channel_def rbind_eq_Inr Let_def dram_banks_core_banks e) (simp add: empty_Allocator_def)
qed

lemma assign_banks_spec:
  assumes r: "assign_banks shuffle c a = Inr (offs, small, a')"
    and a: "bank_id_to_logical_core a = []" "core_banks a L1 = []" "core_banks a L1_SMALL = []"
    and sh: "\<And>xs. mset (shuffle xs) = mset xs" and remap: "mset (l1_bank_remap c) = mset [0..<length (l1_bank_remap c)]"
    and b: "length offs + cx (worker_grid_size c) * cy (worker_grid_size c) < 2 ^ 32"
  shows "small_inv (core_banks a' L1) (length offs) (grid_cores (worker_grid_size c)) (length offs + length small, small, a') \<and>
    fst ` set offs = {0..<length offs} \<and> fst ` set (pairs (core_banks a' L1)) = {0..<length offs} \<and>
    distinct (map fst (pairs (core_banks a' L1))) \<and> distinct (map fst (core_banks a' L1))"
proof -
  let ?cores = "grid_cores (worker_grid_size c)"
  obtain nb S j a1 where
      sb: "shuffled_banks shuffle c nb = Inr S"
    and f: "rfold (assign_core_banks c nb S) ?cores (0, [], a) = Inr (j, offs, a1)" and j: "j = length S"
    and g: "(if l1_small_size c > 0 then rbind (check (num_l1_small_banks nb > 0) (TT_ASSERT ''num_l1_small_banks > 0'')) (\<lambda>_.
        rfold (assign_small_bank c) ?cores (j, [], a1)) else Inr (j, [], a1)) = Inr (fst (j, small, a'), small, a') \<or>
      (\<exists>j'. (if l1_small_size c > 0 then rbind (check (num_l1_small_banks nb > 0) (TT_ASSERT ''num_l1_small_banks > 0'')) (\<lambda>_.
        rfold (assign_small_bank c) ?cores (j, [], a1)) else Inr (j, [], a1)) = Inr (j', small, a'))"
    and n: "length offs = num_l1_banks nb"
    using r by (fastforce simp: assign_banks_def rbind_eq_Inr)
  have S: "mset S = mset [0..<length S]"
  proof (cases "l1_bank_remap c = []")
    case True
    then have "S = shuffle [0..<num_l1_banks nb]" using sb by (simp add: shuffled_banks_def)
    then have "mset S = mset [0..<num_l1_banks nb]" by (simp only: sh)
    then show ?thesis by (metis length_upt minus_nat.diff_0 size_mset)
  next
    case False
    then show ?thesis using sb remap by (auto simp: shuffled_banks_def rbind_eq_Inr)
  qed
  then have Sd: "distinct S" "set S = {0..<length S}" by (metis distinct_upt mset_eq_imp_distinct_iff, metis mset_eq_setD set_upt)
  have lS: "length S = num_l1_banks nb"
  proof (cases "l1_bank_remap c = []")
    case True
    then have "S = shuffle [0..<num_l1_banks nb]" using sb by (simp add: shuffled_banks_def)
    then show ?thesis by (metis length_upt minus_nat.diff_0 sh size_mset)
  next
    case False
    then show ?thesis using sb by (auto simp: shuffled_banks_def rbind_eq_Inr)
  qed
  have b': "length S < 2 ^ 32" using b n lS by simp
  obtain core' :: CoreCoord where True by simp
  have inv: "bank_inv S ?cores [] core' (j, offs, a1)"
    by (rule assign_all_core_banks [OF f distinct_grid_cores Sd(1) b' a])
  have i0: "map fst offs = take j S" "bank_id_to_logical_core a1 = pairs (core_banks a1 L1) @ map (\<lambda>b. (b, core')) []"
    "map fst (bank_id_to_logical_core a1) = take j S"
    using inv unfolding bank_inv_def prod.case by blast+
  have i: "map fst offs = S" "bank_id_to_logical_core a1 = pairs (core_banks a1 L1)"
    "map fst (bank_id_to_logical_core a1) = S" "distinct (map fst (core_banks a1 L1))" "core_banks a1 L1_SMALL = []"
    using i0 inv by (simp_all only: j take_all order.refl list.map append_Nil2) (simp_all add: bank_inv_def)
  have L: "fst ` set (pairs (core_banks a1 L1)) = {0..<length offs}" "fst ` set offs = {0..<length offs}"
    using i Sd(2) n lS by (metis set_map)+
  have len: "j = length offs" using j n lS by simp
  have "\<exists>j'. small_inv (core_banks a1 L1) (length offs) ?cores (j', small, a')"
  proof (cases "l1_small_size c > 0")
    case True
    then obtain j' where "rfold (assign_small_bank c) ?cores (length offs, [], a1) = Inr (j', small, a')"
      using g len by (auto simp: rbind_eq_Inr)
    from assign_all_small_banks [OF this distinct_grid_cores refl L(1) i(2,5)] show ?thesis
      using b by (auto simp: length_grid_cores)
  next
    case False
    then have "small = []" "a' = a1" using g by auto
    then show ?thesis using i by (intro exI [of _ "length offs"]) (simp add: small_inv_def)
  qed
  then obtain j' where s: "small_inv (core_banks a1 L1) (length offs) ?cores (j', small, a')" by blast
  then have "core_banks a' L1 = core_banks a1 L1" "map fst small = [length offs..<j']" "length offs \<le> j'"
    unfolding small_inv_def prod.case by blast+
  moreover from this(2,3) have "j' = length offs + length small" by (metis le_add_diff_inverse length_map length_upt)
  ultimately show ?thesis using s L i(2,3,4) Sd(1) by simp
qed

lemma bm_bank_offset_iff: "(\<exists>off. bm_bank_offset b bm = Inr off) \<longleftrightarrow> b \<in> fst ` set (bank_id_to_bank_offset bm)"
proof (cases "map_of (bank_id_to_bank_offset bm) b")
  case None
  then have "b \<notin> fst ` set (bank_id_to_bank_offset bm)" by (simp add: map_of_eq_None_iff)
  then show ?thesis using None by (simp add: bm_bank_offset_def)
next
  case (Some off)
  then have "b \<in> fst ` set (bank_id_to_bank_offset bm)" by (force dest: map_of_SomeD)
  then show ?thesis using Some by (simp add: bm_bank_offset_def)
qed

text \<open>(C19) The bank ids of the L1 banking allocator.  Construction gives out exactly the ids below the total number of
  banks, the first ones to L1 and the rest to L1_SMALL, whatever permutation the shuffle or the override of the configuration is;
  \<^verbatim>\<open>logical_core_from_bank_id\<close> and \<^verbatim>\<open>bank_ids_from_logical_core\<close> are inverse to each other; and each
  manager knows the offset of exactly its own ids.\<close>

theorem l1_bank_ids_consistent:
  assumes "new_L1BankingAllocator shuffle c = Inr a" and "\<forall>xs. mset (shuffle xs) = mset xs"
    and "mset (l1_bank_remap c) = mset [0..<length (l1_bank_remap c)]"
    and "bm_num_banks (l1_manager a) + cx (worker_grid_size c) * cy (worker_grid_size c) < 2 ^ 32"
    and "n = bm_num_banks (l1_manager a)" and "k = bm_num_banks (l1_small_manager a)"
  shows "(\<forall>b core. logical_core_from_bank_id a b = Inr core \<longleftrightarrow>
      (\<exists>ids. (bank_ids_from_logical_core a L1 core = Inr ids \<or> bank_ids_from_logical_core a L1_SMALL core = Inr ids) \<and> b \<in> set ids)) \<and>
    (\<forall>b. (\<exists>core. logical_core_from_bank_id a b = Inr core) \<longleftrightarrow> b < n + k) \<and>
    (\<forall>b. (\<exists>off. bm_bank_offset b (l1_manager a) = Inr off) \<longleftrightarrow> b < n) \<and>
    (\<forall>b. (\<exists>off. bm_bank_offset b (l1_small_manager a) = Inr off) \<longleftrightarrow> n \<le> b \<and> b < n + k)"
proof -
  obtain a1 where d: "init_one_bank_per_channel c (empty_Allocator c) = Inr a1"
    and l: "init_compute_and_storage_l1_bank_manager shuffle c a1 = Inr a"
    using assms(1) by (auto simp: new_L1BankingAllocator_def new_Allocator_def rbind_eq_Inr)
  obtain offs small a2 l1 sm where r: "assign_banks shuffle c a1 = Inr (offs, small, a2)"
    and a: "a = a2\<lparr>l1_manager := l1, l1_small_manager := sm\<rparr>"
    and m: "bank_id_to_bank_offset l1 = offs" "bank_id_to_bank_offset sm = small"
    using l by (fastforce simp: init_compute_and_storage_l1_bank_manager_def rbind_eq_Inr Let_def new_BankManager_map_def split: if_splits)
  have n: "n = length offs" "k = length small" using assms(5,6) by (simp_all add: a bm_num_banks_def m)
  have bound: "length offs + cx (worker_grid_size c) * cy (worker_grid_size c) < 2 ^ 32"
    using assms(4) by (simp add: a bm_num_banks_def m)
  note spec = assign_banks_spec [OF r init_dram_core_banks [OF d] _ assms(3) bound]
  have idm: "bank_id_to_logical_core a = pairs (core_banks a L1) @ pairs (core_banks a L1_SMALL)"
    and small: "map fst small = [n..<n + k]" "map fst (pairs (core_banks a L1_SMALL)) = [n..<n + k]"
    and ds: "distinct (map fst (core_banks a L1_SMALL))"
    and big: "fst ` set offs = {0..<n}" "fst ` set (pairs (core_banks a L1)) = {0..<n}" "distinct (map fst (pairs (core_banks a L1)))"
      "distinct (map fst (core_banks a L1))"
    using spec assms(2) by (auto simp: a n small_inv_def)
  have sids: "fst ` set (pairs (core_banks a L1_SMALL)) = {n..<n + k}" using small(2) by (metis set_map set_upt)
  have keys: "fst ` set (bank_id_to_logical_core a) = {0..<n + k}"
    unfolding idm using big(2) sids by (auto simp: image_Un)
  have "distinct (map fst (pairs (core_banks a L1_SMALL)))" unfolding small(2) by simp
  then have dist: "distinct (map fst (bank_id_to_logical_core a))"
    unfolding idm map_append distinct_append using big(2,3) sids by auto
  have core: "logical_core_from_bank_id a b = Inr core \<longleftrightarrow> (b, core) \<in> set (bank_id_to_logical_core a)" for b core
    using map_of_eq_Some_iff [OF dist, of b core] by (cases "map_of (bank_id_to_logical_core a) b") (auto simp: logical_core_from_bank_id_def)
  have ids: "bank_ids_from_logical_core a L1 core = Inr xs \<longleftrightarrow> (core, xs) \<in> set (core_banks a L1)"
    "bank_ids_from_logical_core a L1_SMALL core = Inr xs \<longleftrightarrow> (core, xs) \<in> set (core_banks a L1_SMALL)" for core xs
    using map_of_eq_Some_iff [OF big(4)] map_of_eq_Some_iff [OF ds] by (simp_all add: bank_ids_from_logical_core_iff)
  show ?thesis
  proof (intro conjI allI)
    fix b core
    show "logical_core_from_bank_id a b = Inr core \<longleftrightarrow>
      (\<exists>ids. (bank_ids_from_logical_core a L1 core = Inr ids \<or> bank_ids_from_logical_core a L1_SMALL core = Inr ids) \<and> b \<in> set ids)"
      unfolding core ids unfolding idm by (auto simp: in_pairs)
  next
    fix b
    show "(\<exists>core. logical_core_from_bank_id a b = Inr core) \<longleftrightarrow> b < n + k"
    proof -
      have "(\<exists>core. (b, core) \<in> set (bank_id_to_logical_core a)) \<longleftrightarrow> b \<in> fst ` set (bank_id_to_logical_core a)" by force
      then show ?thesis unfolding core keys by simp
    qed
    show "(\<exists>off. bm_bank_offset b (l1_manager a) = Inr off) \<longleftrightarrow> b < n"
      unfolding bm_bank_offset_iff using big(1) by (simp add: a m)
    have "fst ` set small = {n..<n + k}" using small(1) by (metis set_map set_upt)
    then show "(\<exists>off. bm_bank_offset b (l1_small_manager a) = Inr off) \<longleftrightarrow> n \<le> b \<and> b < n + k"
      unfolding bm_bank_offset_iff by (simp add: a m)
  qed
qed

theorem l1_bank_ids_consistent_witness:
  "\<exists>a. new_L1BankingAllocator rev example_config = Inr a \<and>
    (\<forall>b. (\<exists>core. logical_core_from_bank_id a b = Inr core) \<longleftrightarrow> b < 2 + bm_num_banks (l1_small_manager a))"
proof -
  obtain a0 where n: "new_L1BankingAllocator rev example_config = Inr a0" and b: "bm_num_banks (l1_manager a0) = 2"
    by (rule example_init)
  have p: "\<forall>xs :: nat list. mset (rev xs) = mset xs" by simp
  have m: "mset (l1_bank_remap example_config) = mset [0..<length (l1_bank_remap example_config)]" by (simp add: example_config_def)
  have s: "bm_num_banks (l1_manager a0) + cx (worker_grid_size example_config) * cy (worker_grid_size example_config) < 2 ^ 32"
    by (simp add: b example_config_def)
  show ?thesis using l1_bank_ids_consistent [OF n p m s b [symmetric] refl] n by blast
qed

end
