(* ===== verification/Buffers.thy ===== *)
theory Buffers
  imports Allocator Core_Range_Set
begin

text \<open>
  Buffers: \<^verbatim>\<open>tt_metal/impl/buffers/buffer.hpp\<close> and \<^verbatim>\<open>buffer.cpp\<close>.  A \<open>Buffer\<close> is the object of the
  code; \<open>Device\<close> is the part of the device a buffer refers to, its allocator and whether it is initialised.
  The pointer \<^verbatim>\<open>device_\<close> is the flag \<open>has_device\<close>.  \<open>BUFFER_MAP\<close> is the global map from device and
  address to the object, which is named by a number.  An operation that allocates returns the new state beside its result,
  since an exception leaves the allocator as it is.  The command queue that carries an allocation to the
  allocator runs it at once, as in its synchronous mode; graph capture, which may take it over, is not active.
\<close>

subsection \<open>Shard specifications\<close>

datatype TensorMemoryLayout = INTERLEAVED | SINGLE_BANK | HEIGHT_SHARDED | WIDTH_SHARDED | BLOCK_SHARDED

datatype ShardOrientation = ROW_MAJOR | COL_MAJOR

record ShardSpec =
  spec_grid :: "CoreRange list"
  spec_shape :: "nat \<times> nat"
  spec_orientation :: ShardOrientation
  spec_halo :: bool

record ShardSpecBuffer =
  tensor_shard_spec :: ShardSpec
  page_shape :: "nat \<times> nat"
  tensor2d_shape :: "nat \<times> nat"

definition spec_num_cores :: "ShardSpec \<Rightarrow> nat" where
  "spec_num_cores s = set_num_cores (spec_grid s)"

definition spec_numel :: "ShardSpec \<Rightarrow> nat" where
  "spec_numel s = mul32 (fst (spec_shape s)) (snd (spec_shape s))"

definition spec_equal :: "ShardSpec \<Rightarrow> ShardSpec \<Rightarrow> bool" where
  "spec_equal a b \<longleftrightarrow>
     (if \<not> set_equal (spec_grid a) (spec_grid b) then False
      else if spec_shape a \<noteq> spec_shape b then False
      else if spec_orientation a \<noteq> spec_orientation b then False
      else if spec_halo a \<noteq> spec_halo b then False
      else True)"

definition shape_in_pages :: "ShardSpecBuffer \<Rightarrow> (nat \<times> nat) result" where
  "shape_in_pages s =
     rbind (udiv (fst (spec_shape (tensor_shard_spec s))) (fst (page_shape s))) (\<lambda>width_in_pages.
     rbind (udiv (snd (spec_shape (tensor_shard_spec s))) (snd (page_shape s))) (\<lambda>height_in_pages.
     Inr (width_in_pages, height_in_pages)))"

definition shard_size :: "ShardSpecBuffer \<Rightarrow> nat result" where
  "shard_size s = rbind (shape_in_pages s) (\<lambda>p. Inr (mul32 (fst p) (snd p)))"

subsection \<open>Buffers\<close>

definition is_sharded :: "TensorMemoryLayout \<Rightarrow> bool" where
  "is_sharded layout \<longleftrightarrow> layout = HEIGHT_SHARDED \<or> layout = WIDTH_SHARDED \<or> layout = BLOCK_SHARDED"

definition validate_buffer_size_and_page_size ::
    "nat \<Rightarrow> nat \<Rightarrow> TensorMemoryLayout \<Rightarrow> ShardSpecBuffer option \<Rightarrow> unit result" where
  "validate_buffer_size_and_page_size sz page layout shard_params =
     rbind (check (sz \<noteq> 0 \<and> page \<noteq> 0) (TT_FATAL ''Buffer size and page size should be larger than 0 bytes!'')) (\<lambda>_.
     rbind (check (sz mod page = 0) (TT_FATAL ''page size should be divisible by buffer size'')) (\<lambda>_.
     rbind (check (page mod 4 = 0) (TT_FATAL ''Page size must be divisible by sizeof(uint32_t)'')) (\<lambda>_.
     if is_sharded layout then check (shard_params \<noteq> None) (TT_FATAL ''Sharded buffers must have a core grid assigned'')
     else if layout = SINGLE_BANK then check (page = sz) (TT_FATAL ''Contiguous buffer must be one contiguous page'')
     else Inr ())))"

record BufferPageMapping =
  all_cores :: "CoreCoord list"
  core_bank_indices :: "nat list"
  core_host_page_indices :: "nat list list"
  dev_page_to_core_mapping :: "nat list"
  dev_page_to_host_page_mapping :: "nat option list"
  host_page_to_dev_page_mapping :: "nat list"
  core_to_core_id :: "CoreCoord \<rightharpoonup> nat"
  host_page_to_local_shard_page_mapping :: "nat list"
  core_shard_shape :: "(nat \<times> nat) list"

record Buffer =
  has_device :: bool
  buf_size :: nat
  buf_address :: nat
  buf_page_size :: nat
  buf_type :: BufferType
  buf_layout :: TensorMemoryLayout
  shard_parameters :: "ShardSpecBuffer option"
  page_mapping :: "BufferPageMapping option"
  buf_allocate :: bool
  buf_bottom_up :: "bool option"

record Device =
  device_id :: nat
  device_initialized :: bool
  device_allocator :: Allocator
  BUFFER_MAP :: "(nat \<times> nat) \<rightharpoonup> nat"

definition buffer_address :: "Buffer \<Rightarrow> nat" where
  "buffer_address b = u32 (buf_address b)"

definition num_pages :: "Buffer \<Rightarrow> nat result" where
  "num_pages b = rbind (udiv (buf_size b) (buf_page_size b)) (\<lambda>n. Inr (u32 n))"

definition set_size :: "nat \<Rightarrow> Buffer \<Rightarrow> Buffer" where
  "set_size sz b = b\<lparr>buf_size := sz, page_mapping := None\<rparr>"

definition set_page_size :: "nat \<Rightarrow> Buffer \<Rightarrow> Buffer result" where
  "set_page_size page b =
     rbind (umod (buf_size b) page) (\<lambda>r.
     rbind (check (r = 0) (TT_FATAL ''buffer size must be divisible by new page size'')) (\<lambda>_.
     Inr (b\<lparr>buf_page_size := page, page_mapping := None\<rparr>)))"

definition set_shard_spec :: "ShardSpecBuffer \<Rightarrow> Buffer \<Rightarrow> Buffer" where
  "set_shard_spec s b = b\<lparr>shard_parameters := Some s, page_mapping := None\<rparr>"

definition shard_spec :: "Buffer \<Rightarrow> ShardSpecBuffer result" where
  "shard_spec b =
     rbind (check (is_sharded (buf_layout b)) (TT_ASSERT ''Buffer not sharded'')) (\<lambda>_.
     case shard_parameters b of None \<Rightarrow> Inl (TT_ASSERT ''shard_parameters_.has_value()'') | Some s \<Rightarrow> Inr s)"

definition num_cores :: "Buffer \<Rightarrow> nat result" where
  "num_cores b =
     (if \<not> is_sharded (buf_layout b) then Inr 1
      else rbind (shard_spec b) (\<lambda>s. Inr (set_num_cores (spec_grid (tensor_shard_spec s)))))"

definition num_dev_pages :: "Buffer \<Rightarrow> nat result" where
  "num_dev_pages b =
     (if \<not> is_sharded (buf_layout b) then num_pages b
      else rbind (shard_spec b) (\<lambda>s. rbind (shard_size s) (\<lambda>sz. rbind (num_cores b) (\<lambda>n. Inr (u32 (mul64 sz n))))))"

definition is_l1 :: "Buffer \<Rightarrow> bool" where
  "is_l1 b \<longleftrightarrow> buf_type b = L1 \<or> buf_type b = L1_SMALL"

definition is_dram :: "Buffer \<Rightarrow> bool" where
  "is_dram b \<longleftrightarrow> buf_type b = DRAM \<or> buf_type b = TRACE"

definition is_trace :: "Buffer \<Rightarrow> bool" where
  "is_trace b \<longleftrightarrow> buf_type b = TRACE"

definition buf_alignment :: "Device \<Rightarrow> nat" where
  "buf_alignment d = config_alignment (config (device_allocator d))"

definition aligned_page_size :: "Device \<Rightarrow> Buffer \<Rightarrow> nat" where
  "aligned_page_size d b = align_up (u32 (buf_page_size b)) (buf_alignment d)"

definition aligned_size :: "Device \<Rightarrow> Buffer \<Rightarrow> nat result" where
  "aligned_size d b = rbind (num_dev_pages b) (\<lambda>n. Inr (mul64 n (aligned_page_size d b)))"

subsection \<open>Page addresses\<close>

definition translate_page_address :: "Device \<Rightarrow> Buffer \<Rightarrow> nat \<Rightarrow> nat \<Rightarrow> nat result" where
  "translate_page_address d b off bank_id =
     rbind (bank_offset (device_allocator d) (buf_type b) bank_id) (\<lambda>bo.
     let base_page_address = nat ((int (buf_address b) + bo) mod 2 ^ 64) in
     Inr (add64 base_page_address off))"

definition page_address :: "Device \<Rightarrow> Buffer \<Rightarrow> nat \<Rightarrow> nat \<Rightarrow> nat result" where
  "page_address d b bank_id page_index =
     rbind (num_banks (device_allocator d) (buf_type b)) (\<lambda>n.
     rbind (check (bank_id < n) (TT_ASSERT ''Invalid Bank ID'')) (\<lambda>_.
     let pages_offset_within_bank = page_index div n in
     rbind (round_up (u32 (buf_page_size b)) (buf_alignment d)) (\<lambda>r.
     translate_page_address d b (mul32 r pages_offset_within_bank) bank_id)))"

definition sharded_page_address :: "Device \<Rightarrow> Buffer \<Rightarrow> nat \<Rightarrow> nat \<Rightarrow> nat result" where
  "sharded_page_address d b bank_id page_index =
     rbind (check (is_sharded (buf_layout b)) (TT_ASSERT ''is_sharded(this->buffer_layout())'')) (\<lambda>_.
     rbind (shard_spec b) (\<lambda>s. rbind (shard_size s) (\<lambda>sz.
     rbind (umod page_index sz) (\<lambda>pages_offset_within_bank.
     rbind (round_up (u32 (buf_page_size b)) (buf_alignment d)) (\<lambda>r.
     translate_page_address d b (mul32 r pages_offset_within_bank) bank_id)))))"

definition buffer_dram_channel :: "Device \<Rightarrow> Buffer \<Rightarrow> nat \<Rightarrow> nat result" where
  "buffer_dram_channel d b bank_id =
     rbind (check (is_dram b) (TT_ASSERT ''Expected DRAM buffer!'')) (\<lambda>_.
     dram_channel_from_bank_id (device_allocator d) bank_id)"

definition buffer_logical_core :: "Device \<Rightarrow> Buffer \<Rightarrow> nat \<Rightarrow> CoreCoord result" where
  "buffer_logical_core d b bank_id =
     rbind (check (is_l1 b) (TT_ASSERT ''Expected L1 buffer!'')) (\<lambda>_.
     logical_core_from_bank_id (device_allocator d) bank_id)"

text \<open>The coordinates of a channel and of a worker come from the description of the chip.\<close>

definition noc_coordinates ::
    "(nat \<Rightarrow> CoreCoord result) \<Rightarrow> (CoreCoord \<Rightarrow> CoreCoord result) \<Rightarrow> Device \<Rightarrow> Buffer \<Rightarrow> nat \<Rightarrow> CoreCoord result" where
  "noc_coordinates dram_core worker_core d b bank_id =
     (case buf_type b of
        DRAM \<Rightarrow> rbind (buffer_dram_channel d b bank_id) dram_core
      | TRACE \<Rightarrow> rbind (buffer_dram_channel d b bank_id) dram_core
      | L1 \<Rightarrow> rbind (buffer_logical_core d b bank_id) worker_core
      | L1_SMALL \<Rightarrow> rbind (buffer_logical_core d b bank_id) worker_core
      | SYSTEM_MEMORY \<Rightarrow> Inl (TT_THROW ''Host buffer is located in system memory! Cannot retrieve NoC coordinates for it''))"

subsection \<open>The pages of each shard\<close>

text \<open>
  \<^verbatim>\<open>core_to_host_pages\<close>.  The state of the height-sharded loop is the number of remaining pages, the next
  page, and the two vectors of the result.
\<close>

type_synonym shard_pages = "nat list list \<times> (nat \<times> nat) list"

definition height_shard :: "nat \<Rightarrow> nat \<Rightarrow> nat \<times> nat \<times> shard_pages \<Rightarrow> (nat \<times> nat \<times> shard_pages) result" where
  "height_shard pages_per_shard i = (\<lambda>(rem_pages, page_id, ret_vec, ret_shard_shape).
     if rem_pages = 0 then Inr (rem_pages, page_id, ret_vec, ret_shard_shape[i := (0, 0)])
     else let num_cols = min pages_per_shard rem_pages; cols = snd (ret_shard_shape ! i) in
       rbind (if pages_per_shard > rem_pages
              then rbind (udiv rem_pages cols) (\<lambda>rows. Inr (ret_shard_shape[i := (rows, cols)]))
              else Inr ret_shard_shape) (\<lambda>ret_shard_shape.
       Inr (sub32 rem_pages num_cols, add32 page_id num_cols,
            ret_vec[i := map (add32 page_id) [0..<num_cols]], ret_shard_shape)))"

text \<open>The two inner loops for a block, with the values of \<^verbatim>\<open>i\<close> and \<^verbatim>\<open>j\<close> when they end.\<close>

function shard_cols :: "nat \<Rightarrow> nat \<Rightarrow> nat \<Rightarrow> nat \<Rightarrow> nat list \<times> nat" where
  "shard_cols cols bound i j =
     (if j < bound \<and> j < cols
      then let (pages, j') = shard_cols cols bound i (Suc j) in (add32 (mul32 i cols) j # pages, j')
      else ([], j))"
  by pat_completeness auto

termination
  by (relation "measure (\<lambda>(cols, bound, i, j). bound - j)") auto

function shard_rows :: "nat \<times> nat \<Rightarrow> nat \<Rightarrow> nat \<Rightarrow> nat \<Rightarrow> nat \<Rightarrow> nat \<Rightarrow> nat list \<times> nat \<times> nat" where
  "shard_rows tensor2d_size bound_i j_offset bound_j i j =
     (if i < bound_i
      then if i \<ge> fst tensor2d_size then ([], i, j)
        else let (pages, j') = shard_cols (snd tensor2d_size) bound_j i j_offset;
                 (rest, i'', j'') = shard_rows tensor2d_size bound_i j_offset bound_j (Suc i) j'
             in (pages @ rest, i'', j'')
      else ([], i, j))"
  by pat_completeness auto

termination
  by (relation "measure (\<lambda>(t, bound_i, jo, bj, i, j). bound_i - i)") auto

definition block_shard ::
    "nat \<times> nat \<Rightarrow> nat \<times> nat \<Rightarrow> nat \<Rightarrow> nat \<Rightarrow> nat \<times> nat \<times> nat \<times> shard_pages \<Rightarrow> (nat \<times> nat \<times> nat \<times> shard_pages) result" where
  "block_shard shard_in_pages tensor2d_size num_shard_columns shard_idx =
     (\<lambda>(i_offset, j_offset, shard_in_row, ret_vec, ret_shard_shape).
      let (pages, i, j) = shard_rows tensor2d_size (add32 (fst shard_in_pages) i_offset) j_offset
                            (add32 (snd shard_in_pages) j_offset) i_offset 0;
          ret_vec = ret_vec[shard_idx := pages];
          ret_shard_shape = ret_shard_shape[shard_idx := (sub32 i i_offset, sub32 j j_offset)]
      in if add32 shard_in_row 1 = num_shard_columns
         then Inr (add32 i_offset (fst shard_in_pages), 0, 0, ret_vec, ret_shard_shape)
         else Inr (i_offset, add32 j_offset (snd shard_in_pages), add32 shard_in_row 1, ret_vec, ret_shard_shape))"

definition core_to_host_pages ::
    "nat \<Rightarrow> nat \<Rightarrow> TensorMemoryLayout \<Rightarrow> nat \<times> nat \<Rightarrow> nat \<times> nat \<Rightarrow> nat \<times> nat \<Rightarrow> shard_pages result" where
  "core_to_host_pages pages_per_shard num_shards layout page shard tensor2d_size =
     rbind (udiv (fst shard) (fst page)) (\<lambda>h. rbind (udiv (snd shard) (snd page)) (\<lambda>w.
     let ret_vec = replicate num_shards []; ret_shard_shape = replicate num_shards (h, w) in
     if layout = HEIGHT_SHARDED
     then rbind (rfold (height_shard pages_per_shard) [0..<num_shards]
                   (mul32 (fst tensor2d_size) (snd tensor2d_size), 0, ret_vec, ret_shard_shape))
            (\<lambda>(rem_pages, page_id, res). Inr res)
     else if layout = WIDTH_SHARDED \<or> layout = BLOCK_SHARDED
     then rbind (div_up (snd tensor2d_size) w) (\<lambda>num_shard_columns.
          rbind (rfold (block_shard (h, w) tensor2d_size num_shard_columns) [0..<num_shards]
                   (0, 0, 0, ret_vec, ret_shard_shape))
            (\<lambda>(i_offset, j_offset, shard_in_row, res). Inr res))
     else Inr (ret_vec, ret_shard_shape)))"

subsection \<open>The page mapping\<close>

text \<open>
  The three nested loops of \<^verbatim>\<open>generate_buffer_page_mapping\<close>.  Their state is the mapping under construction,
  \<^verbatim>\<open>dev_page_index\<close>, \<^verbatim>\<open>valid_shard_page\<close> and \<^verbatim>\<open>shard_page_id\<close>.
\<close>

type_synonym mapping_state = "BufferPageMapping \<times> nat \<times> nat \<times> nat"

definition map_shard_page :: "nat list \<Rightarrow> nat \<Rightarrow> nat \<Rightarrow> nat \<Rightarrow> mapping_state \<Rightarrow> mapping_state result" where
  "map_shard_page shard_pages core_index x y = (\<lambda>(m, dev_page_index, valid_shard_page, shard_page_id).
     rbind (vec_set (dev_page_to_core_mapping m) dev_page_index core_index) (\<lambda>cores.
     let m = m\<lparr>dev_page_to_core_mapping := cores\<rparr> in
     rbind (vec_get (core_shard_shape m) core_index) (\<lambda>shape.
     if x < fst shape \<and> y < snd shape
     then rbind (vec_get shard_pages valid_shard_page) (\<lambda>host_page.
          rbind (vec_set (dev_page_to_host_page_mapping m) dev_page_index (Some host_page)) (\<lambda>dev_to_host.
          rbind (vec_get (core_host_page_indices m) core_index) (\<lambda>indices.
          rbind (vec_set (core_host_page_indices m) core_index (indices @ [host_page])) (\<lambda>core_pages.
          rbind (vec_set (host_page_to_local_shard_page_mapping m) host_page shard_page_id) (\<lambda>host_to_local.
          rbind (vec_set (host_page_to_dev_page_mapping m) host_page dev_page_index) (\<lambda>host_to_dev.
          Inr (m\<lparr>dev_page_to_host_page_mapping := dev_to_host, core_host_page_indices := core_pages,
                 host_page_to_local_shard_page_mapping := host_to_local,
                 host_page_to_dev_page_mapping := host_to_dev\<rparr>,
               add32 dev_page_index 1, add32 valid_shard_page 1, add32 shard_page_id 1)))))))
     else Inr (m, add32 dev_page_index 1, valid_shard_page, add32 shard_page_id 1))))"

definition map_shard :: "nat list list \<Rightarrow> nat \<times> nat \<Rightarrow> nat \<Rightarrow> BufferPageMapping \<times> nat \<Rightarrow> (BufferPageMapping \<times> nat) result" where
  "map_shard core_pages pages core_index = (\<lambda>(m, dev_page_index).
     rbind (rfold (\<lambda>x. rfold (map_shard_page (core_pages ! core_index) core_index x) [0..<snd pages]) [0..<fst pages]
              (m, dev_page_index, 0, 0))
       (\<lambda>(m, dev_page_index, valid_shard_page, shard_page_id). Inr (m, dev_page_index)))"

definition core_ids :: "CoreCoord list \<Rightarrow> CoreCoord \<rightharpoonup> nat" where
  "core_ids cores = foldl (\<lambda>m (i, c). if m c = None then m(c \<mapsto> i) else m) Map.empty (enumerate 0 cores)"

definition generate_buffer_page_mapping :: "Buffer \<Rightarrow> BufferPageMapping result" where
  "generate_buffer_page_mapping b =
     rbind (shard_spec b) (\<lambda>s.
     let row_major = (spec_orientation (tensor_shard_spec s) = ROW_MAJOR) in
     rbind (num_cores b) (\<lambda>n.
     let cores = corerange_to_cores (spec_grid (tensor_shard_spec s)) (Some n) row_major in
     rbind (check (n = length cores) (TT_ASSERT ''num_cores == buffer_page_mapping.all_cores_.size()'')) (\<lambda>_.
     rbind (num_dev_pages b) (\<lambda>dev_pages.
     rbind (shard_size s) (\<lambda>pages_per_shard.
     rbind (core_to_host_pages pages_per_shard n (buf_layout b) (page_shape s) (spec_shape (tensor_shard_spec s))
              (tensor2d_shape s)) (\<lambda>(core_pages, shard_shape).
     rbind (num_pages b) (\<lambda>host_pages.
     rbind (shape_in_pages s) (\<lambda>pages.
     rbind (rfold (map_shard core_pages pages) [0..<length core_pages]
       (\<lparr>all_cores = cores, core_bank_indices = [], core_host_page_indices = replicate n [],
         dev_page_to_core_mapping = replicate dev_pages 0, dev_page_to_host_page_mapping = replicate dev_pages None,
         host_page_to_dev_page_mapping = replicate host_pages 0, core_to_core_id = core_ids cores,
         host_page_to_local_shard_page_mapping = replicate host_pages 0, core_shard_shape = shard_shape\<rparr>, 0))
       (\<lambda>(m, dev_page_index). Inr m)))))))))"

definition get_buffer_page_mapping :: "Buffer \<Rightarrow> (BufferPageMapping \<times> Buffer) result" where
  "get_buffer_page_mapping b =
     rbind (check (is_sharded (buf_layout b)) (TT_ASSERT ''Buffer not sharded'')) (\<lambda>_.
     case page_mapping b of Some m \<Rightarrow> Inr (m, b)
     | None \<Rightarrow> rbind (generate_buffer_page_mapping b) (\<lambda>m. Inr (m, b\<lparr>page_mapping := Some m\<rparr>)))"

subsection \<open>The life of a buffer\<close>

text \<open>
  \<^verbatim>\<open>EnqueueAllocateBufferImpl\<close> and \<^verbatim>\<open>EnqueueDeallocateBufferImpl\<close> of \<^verbatim>\<open>command_queue.cpp\<close>, and the
  operations of \<^verbatim>\<open>Buffer\<close> that reach them.  The address of an object that has never been allocated is
  not initialised in the code; here it is 0.
\<close>

definition allocation_request :: "Buffer \<Rightarrow> (nat \<times> nat option) result" where
  "allocation_request b =
     (if is_sharded (buf_layout b)
      then rbind (shard_spec b) (\<lambda>s. rbind (shard_size s) (\<lambda>sz. rbind (num_cores b) (\<lambda>n.
           Inr (mul64 (mul64 sz n) (buf_page_size b), Some n))))
      else Inr (buf_size b, None))"

definition EnqueueAllocateBufferImpl :: "bool \<Rightarrow> Buffer \<Rightarrow> Device \<Rightarrow> Buffer result \<times> Device" where
  "EnqueueAllocateBufferImpl bottom_up b d =
     (case allocation_request b of Inl e \<Rightarrow> (Inl e, d)
      | Inr (sz, num_shards) \<Rightarrow>
        (case allocate_buffer sz (buf_page_size b) (buf_type b) bottom_up num_shards (device_allocator d) of
           (Inl e, a) \<Rightarrow> (Inl e, d\<lparr>device_allocator := a\<rparr>)
         | (Inr addr, a) \<Rightarrow> (Inr (b\<lparr>buf_address := u32 addr\<rparr>), d\<lparr>device_allocator := a\<rparr>)))"

definition EnqueueDeallocateBufferImpl :: "nat \<Rightarrow> BufferType \<Rightarrow> Device \<Rightarrow> Device result" where
  "EnqueueDeallocateBufferImpl addr btype d =
     rbind (deallocate_buffer addr btype (device_allocator d)) (\<lambda>a. Inr (d\<lparr>device_allocator := a\<rparr>))"

definition buffer_map_insert :: "nat \<times> nat \<Rightarrow> nat \<Rightarrow> Device \<Rightarrow> Device" where
  "buffer_map_insert k handle d =
     (if BUFFER_MAP d k = None then d\<lparr>BUFFER_MAP := (BUFFER_MAP d)(k \<mapsto> handle)\<rparr> else d)"

definition buffer_map_erase :: "nat \<times> nat \<Rightarrow> Device \<Rightarrow> Device" where
  "buffer_map_erase k d = d\<lparr>BUFFER_MAP := (BUFFER_MAP d)(k := None)\<rparr>"

definition buffer_allocate :: "nat \<Rightarrow> Buffer \<Rightarrow> Device \<Rightarrow> Buffer result \<times> Device" where
  "buffer_allocate handle b d =
     (if \<not> has_device b then (Inl (TT_ASSERT ''this->device_ != nullptr''), d)
      else let bottom_up = (case buf_bottom_up b of Some v \<Rightarrow> v | None \<Rightarrow> is_dram b) in
        (case EnqueueAllocateBufferImpl bottom_up b d of
           (Inl e, d) \<Rightarrow> (Inl e, d)
         | (Inr b, d) \<Rightarrow> (Inr b, buffer_map_insert (device_id d, buf_address b) handle d)))"

definition new_Buffer ::
    "nat \<Rightarrow> nat \<Rightarrow> nat \<Rightarrow> BufferType \<Rightarrow> TensorMemoryLayout \<Rightarrow> ShardSpecBuffer option \<Rightarrow> bool option \<Rightarrow> bool \<Rightarrow> Device \<Rightarrow>
     Buffer result \<times> Device" where
  "new_Buffer handle sz page btype layout shard_params bottom_up alloc d =
     (case validate_buffer_size_and_page_size sz page layout shard_params of Inl e \<Rightarrow> (Inl e, d)
      | Inr _ \<Rightarrow>
        let b = \<lparr>has_device = True, buf_size = sz, buf_address = 0, buf_page_size = page, buf_type = btype,
                 buf_layout = layout, shard_parameters = shard_params, page_mapping = None, buf_allocate = alloc,
                 buf_bottom_up = bottom_up\<rparr>
        in if alloc then buffer_allocate handle b d else (Inr b, d))"

definition buffer_deallocate :: "Buffer \<Rightarrow> Device \<Rightarrow> (Buffer \<times> Device) result" where
  "buffer_deallocate b d =
     (if \<not> has_device b \<or> \<not> device_initialized d \<or> buf_size b = 0 \<or> \<not> buf_allocate b then Inr (b, d)
      else let b = b\<lparr>buf_size := 0\<rparr>;
               d = buffer_map_erase (device_id d, buf_address b) d
           in rbind (EnqueueDeallocateBufferImpl (buffer_address b) (buf_type b) d) (\<lambda>d. Inr (b, d)))"

text \<open>
  Copying copies every member but the address, and allocates.  The copy constructor starts from an
  object whose address is not set, the assignment from an object that may own a region.
\<close>

definition copy_members :: "Buffer \<Rightarrow> Buffer \<Rightarrow> Buffer" where
  "copy_members this other = other\<lparr>buf_address := buf_address this\<rparr>"

definition buffer_copy_assign :: "nat \<Rightarrow> Buffer \<Rightarrow> Buffer \<Rightarrow> Device \<Rightarrow> Buffer result \<times> Device" where
  "buffer_copy_assign handle this other d =
     (let this = copy_members this other
      in if buf_allocate this then buffer_allocate handle this d else (Inr this, d))"

definition buffer_copy :: "nat \<Rightarrow> Buffer \<Rightarrow> Device \<Rightarrow> Buffer result \<times> Device" where
  "buffer_copy handle other d =
     (let this = other\<lparr>buf_address := 0\<rparr>
      in if buf_allocate this then buffer_allocate handle this d else (Inr this, d))"

text \<open>
  Moving, by construction and by assignment: the new object, and what is left of the other.  The moved-from
  shard parameters, whose value the standard leaves open, are kept.
\<close>

definition buffer_move :: "Buffer \<Rightarrow> Buffer \<times> Buffer" where
  "buffer_move other = (other, other\<lparr>has_device := False, page_mapping := None\<rparr>)"

end
