(* ===== verification/Page_Mapping.thy ===== *)
theory Page_Mapping
  imports Buffers Core_Range_Props
begin

text \<open>
  What \<^verbatim>\<open>generate_buffer_page_mapping\<close> computes.  A tensor of \<open>R\<close> by \<open>C\<close> pages is cut into shards of \<open>h\<close> by
  \<open>w\<close> pages, \<open>nc\<close> of them side by side; shard \<open>k\<close> belongs to the \<open>k\<close>-th core, and page \<open>d\<close> of the device
  is page \<open>d mod (h * w)\<close> of shard \<open>d div (h * w)\<close>.  \<open>host_page_of\<close> and \<open>dev_page_of\<close> state
  this arithmetic; the loops of the code are shown to produce exactly these two maps, which are
  inverse to each other.
\<close>

subsection \<open>The reference\<close>

definition shard_row :: "nat \<Rightarrow> nat \<Rightarrow> nat \<Rightarrow> nat" where
  "shard_row h nc k = k div nc * h"

definition shard_col :: "nat \<Rightarrow> nat \<Rightarrow> nat \<Rightarrow> nat" where
  "shard_col w nc k = k mod nc * w"

definition shard_height :: "nat \<Rightarrow> nat \<Rightarrow> nat \<Rightarrow> nat \<Rightarrow> nat" where
  "shard_height h R nc k = min h (R - shard_row h nc k)"

definition shard_width :: "nat \<Rightarrow> nat \<Rightarrow> nat \<Rightarrow> nat \<Rightarrow> nat" where
  "shard_width w C nc k = min w (C - shard_col w nc k)"

definition grid_pages :: "nat \<Rightarrow> nat \<Rightarrow> nat \<Rightarrow> nat \<Rightarrow> nat \<Rightarrow> nat list" where
  "grid_pages C I a J b = concat (map (\<lambda>i. map (\<lambda>j. i * C + j) [J..<J + b]) [I..<I + a])"

definition shard_page_list :: "nat \<Rightarrow> nat \<Rightarrow> nat \<Rightarrow> nat \<Rightarrow> nat \<Rightarrow> nat \<Rightarrow> nat list" where
  "shard_page_list h w R C nc k =
     grid_pages C (shard_row h nc k) (shard_height h R nc k) (shard_col w nc k) (shard_width w C nc k)"

definition shard_shape_ok :: "nat \<Rightarrow> nat \<Rightarrow> nat \<Rightarrow> nat \<Rightarrow> nat \<Rightarrow> nat \<Rightarrow> nat \<times> nat \<Rightarrow> bool" where
  "shard_shape_ok h w R C nc k s \<longleftrightarrow>
     fst s = shard_height h R nc k \<and> (0 < shard_height h R nc k \<longrightarrow> snd s = shard_width w C nc k)"

definition host_page_of :: "nat \<Rightarrow> nat \<Rightarrow> nat \<Rightarrow> nat \<Rightarrow> nat \<Rightarrow> nat \<Rightarrow> nat option" where
  "host_page_of h w R C nc d =
     (let k = d div (h * w); e = d mod (h * w);
          i = shard_row h nc k + e div w; j = shard_col w nc k + e mod w
      in if i < R \<and> j < C then Some (i * C + j) else None)"

definition dev_page_of :: "nat \<Rightarrow> nat \<Rightarrow> nat \<Rightarrow> nat \<Rightarrow> nat \<Rightarrow> nat" where
  "dev_page_of h w C nc p =
     (let i = p div C; j = p mod C
      in (i div h * nc + j div w) * (h * w) + (i mod h * w + j mod w))"

lemma length_grid_pages [simp]: "length (grid_pages C I a J b) = a * b"
  by (simp add: grid_pages_def length_concat comp_def sum_list_triv)

lemma grid_pages_Suc: "grid_pages C I (Suc a) J b = grid_pages C I a J b @ map (\<lambda>j. (I + a) * C + j) [J..<J + b]"
  by (simp add: grid_pages_def)

lemma grid_pages_nth: "x < a \<Longrightarrow> y < b \<Longrightarrow> grid_pages C I a J b ! (x * b + y) = (I + x) * C + (J + y)"
proof (induction a)
  case (Suc a)
  show ?case
  proof (cases "x < a")
    case True
    then have "(x + 1) * b \<le> a * b" by (intro mult_right_mono) simp_all
    then have "x * b + y < a * b" using Suc.prems(2) by (simp add: distrib_right)
    then show ?thesis using Suc.IH True Suc.prems by (simp add: grid_pages_Suc nth_append)
  next
    case False
    then have "x = a" using Suc.prems by simp
    then show ?thesis using Suc.prems by (simp add: grid_pages_Suc nth_append)
  qed
qed simp

lemma grid_pages_row: "grid_pages C I a 0 C = [I * C..<(I + a) * C]"
proof (induction a)
  case (Suc a)
  have "map (\<lambda>j. (I + a) * C + j) [0..<C] = [(I + a) * C..<(I + a) * C + C]"
    by (rule nth_equalityI) simp_all
  then have "grid_pages C I (Suc a) 0 C = [I * C..<(I + a) * C] @ [(I + a) * C..<(I + a) * C + C]"
    using Suc by (simp add: grid_pages_Suc)
  moreover have "[I * C..<(I + a) * C + C] = [I * C..<(I + a) * C] @ [(I + a) * C..<(I + a) * C + C]"
    by (rule upt_add_eq_append) (simp add: distrib_right)
  moreover have "(I + Suc a) * C = (I + a) * C + C" by simp
  ultimately show ?case by metis
qed (simp add: grid_pages_def)

subsection \<open>The loops over one shard\<close>

lemma shard_cols_eq:
  "shard_cols cols bound i j =
     (map (\<lambda>j. add32 (mul32 i cols) j) [j..<min bound cols], max j (min bound cols))"
proof (induction cols bound i j rule: shard_cols.induct)
  case (1 cols bound i j)
  show ?case
  proof (cases "j < bound \<and> j < cols")
    case True
    then have "[j..<min bound cols] = j # [Suc j..<min bound cols]" by (simp add: upt_conv_Cons)
    then show ?thesis using True 1 by (subst shard_cols.simps) (auto simp: max_def)
  next
    case False
    then show ?thesis by (subst shard_cols.simps) auto
  qed
qed

lemma shard_rows_eq:
  "shard_rows (R, C) bi jo bj i j =
     (concat (map (\<lambda>i. map (\<lambda>j. add32 (mul32 i C) j) [jo..<min bj C]) [i..<min bi R]),
      max i (min bi R), if i < min bi R then max jo (min bj C) else j)"
proof (induction "bi - i" arbitrary: i j)
  case 0
  then show ?case by (subst shard_rows.simps) simp
next
  case (Suc n)
  have n: "n = bi - Suc i" and i: "i < bi" using Suc.hyps(2) by simp_all
  show ?case
  proof (cases "i < R")
    case True
    then have u: "[i..<min bi R] = i # [Suc i..<min bi R]" using i by (simp add: upt_conv_Cons)
    have s: "shard_rows (R, C) bi jo bj i j =
      (let (rest, i'', j'') = shard_rows (R, C) bi jo bj (Suc i) (max jo (min bj C))
       in (map (\<lambda>j. add32 (mul32 i C) j) [jo..<min bj C] @ rest, i'', j''))"
      by (subst shard_rows.simps) (use i True in \<open>simp add: shard_cols_eq del: shard_cols.simps shard_rows.simps\<close>)
    show ?thesis unfolding s Suc.hyps(1) [OF n] u using i True by (simp add: max_def)
  next
    case False
    then show ?thesis using i by (subst shard_rows.simps) simp
  qed
qed

subsection \<open>The pages of all shards\<close>

definition shards_ok :: "nat \<Rightarrow> nat \<Rightarrow> nat \<Rightarrow> nat \<Rightarrow> nat \<Rightarrow> nat \<Rightarrow> nat list list \<times> (nat \<times> nat) list \<Rightarrow> bool" where
  "shards_ok h w R C nc n res \<longleftrightarrow>
     length (fst res) = n \<and> length (snd res) = n \<and>
     (\<forall>k < n. fst res ! k = shard_page_list h w R C nc k \<and> shard_shape_ok h w R C nc k (snd res ! k))"

text \<open>The vectors of a loop that has handled the first \<open>k\<close> shards.\<close>

definition shards_upto :: "nat \<Rightarrow> nat \<Rightarrow> nat \<Rightarrow> nat \<Rightarrow> nat \<Rightarrow> nat \<Rightarrow> nat \<Rightarrow> nat list list \<times> (nat \<times> nat) list \<Rightarrow> bool" where
  "shards_upto h w R C nc n k res \<longleftrightarrow>
     length (fst res) = n \<and> length (snd res) = n \<and>
     (\<forall>i < k. fst res ! i = shard_page_list h w R C nc i \<and> shard_shape_ok h w R C nc i (snd res ! i)) \<and>
     (\<forall>i. k \<le> i \<and> i < n \<longrightarrow> fst res ! i = [] \<and> snd res ! i = (h, w))"

lemma shards_upto_0: "shards_upto h w R C nc n 0 (replicate n [], replicate n (h, w))"
  by (simp add: shards_upto_def)

lemma shards_upto_all: "shards_upto h w R C nc n n res \<Longrightarrow> shards_ok h w R C nc n res"
  by (simp add: shards_upto_def shards_ok_def)

lemma shards_upto_step:
  assumes "shards_upto h w R C nc n k (pages, shapes)" and "k < n"
    and "p = shard_page_list h w R C nc k" and "shard_shape_ok h w R C nc k s"
  shows "shards_upto h w R C nc n (Suc k) (pages[k := p], shapes[k := s])"
  using assms by (auto simp: shards_upto_def nth_list_update less_Suc_eq)

lemma shards_upto_shape: "shards_upto h w R C nc n k (pages, shapes) \<Longrightarrow> k < n \<Longrightarrow> pages ! k = [] \<and> shapes ! k = (h, w)"
  by (simp add: shards_upto_def)

lemma height_shard_step:
  assumes inv: "shards_upto h C R C 1 n k (pages, shapes)" and k: "k < n" and C: "0 < C" and RC: "R * C < 2 ^ 32"
  shows "\<exists>res. height_shard (h * C) k (R * C - min (k * h) R * C, min (k * h) R * C, pages, shapes) =
      Inr (R * C - min (Suc k * h) R * C, min (Suc k * h) R * C, res) \<and> shards_upto h C R C 1 n (Suc k) res"
proof -
  define sa where sa: "sa = shard_height h R 1 k"
  have a: "sa = min h (R - k * h)" by (simp add: shard_height_def shard_row_def sa)
  have p: "shard_page_list h C R C 1 k = [k * h * C..<(k * h + sa) * C]"
    by (simp add: shard_page_list_def shard_row_def shard_col_def shard_width_def grid_pages_row sa)
  note sh = shards_upto_shape [OF inv k]
  show ?thesis
  proof (cases "R \<le> k * h")
    case True
    then have R: "min (k * h) R = R" "min (Suc k * h) R = R" "sa = 0" using a by simp_all
    have "pages = pages[k := shard_page_list h C R C 1 k]" using sh R(3) p by (metis add_0_right list_update_id upt_rec less_irrefl)
    moreover have "shard_shape_ok h C R C 1 k (0, 0)" using R by (simp add: shard_shape_ok_def sa)
    ultimately have "shards_upto h C R C 1 n (Suc k) (pages, shapes[k := (0, 0)])"
      using shards_upto_step [OF inv k refl] by metis
    then show ?thesis unfolding R(1,2) by (simp add: height_shard_def)
  next
    case False
    then have m: "min (k * h) R = k * h" by simp
    have rem: "R * C - k * h * C = (R - k * h) * C" by (simp add: diff_mult_distrib)
    have pos: "0 < (R - k * h) * C" using False C by simp
    have cols: "min (h * C) ((R - k * h) * C) = sa * C" unfolding a nat_mult_min_left ..
    have le: "(k * h + sa) * C \<le> R * C" using False a by (intro mult_right_mono) simp_all
    have next_id: "min (Suc k * h) R = k * h + sa" using a False by simp
    have "k * h * C + sa * C < 2 ^ 32" using le RC by (simp add: distrib_right)
    then have w1: "add32 (k * h * C) (sa * C) = (k * h + sa) * C" by (simp add: wadd_id distrib_right)
    have "(R - k * h) * C \<le> R * C" by simp
    then have "(R - k * h) * C < 2 ^ 32" using RC by linarith
    moreover have "sa * C \<le> (R - k * h) * C" using a by (intro mult_right_mono) simp_all
    ultimately have w2: "sub32 ((R - k * h) * C) (sa * C) = R * C - (k * h + sa) * C"
      by (simp add: wsub_id diff_mult_distrib distrib_right)
    have pg: "map (add32 (k * h * C)) [0..<sa * C] = shard_page_list h C R C 1 k"
      unfolding p by (rule nth_equalityI) (use w1 \<open>k * h * C + sa * C < 2 ^ 32\<close> in \<open>simp_all add: wadd_id distrib_right\<close>)
    have shape: "shapes[k := (sa, C)] = (if (R - k * h) * C < h * C then shapes[k := ((R - k * h) * C div C, C)] else shapes)"
    proof (cases "R - k * h < h")
      case True
      then show ?thesis using C a by simp
    next
      case False
      then have "sa = h" using a by simp
      moreover have "shapes[k := (h, C)] = shapes" using sh by (metis list_update_id)
      moreover have "\<not> (R - k * h) * C < h * C" using False C by simp
      ultimately show ?thesis by (simp only: if_False)
    qed
    have ok: "shard_shape_ok h C R C 1 k (sa, C)" by (simp add: shard_shape_ok_def shard_width_def shard_col_def sa)
    have "shards_upto h C R C 1 n (Suc k) (pages[k := shard_page_list h C R C 1 k], shapes[k := (sa, C)])"
      by (rule shards_upto_step [OF inv k refl ok])
    moreover have "height_shard (h * C) k (R * C - min (k * h) R * C, min (k * h) R * C, pages, shapes) =
      Inr (R * C - (k * h + sa) * C, (k * h + sa) * C, pages[k := shard_page_list h C R C 1 k], shapes[k := (sa, C)])"
      unfolding m rem shape pg [symmetric] using pos C sh cols
      by (simp add: height_shard_def Let_def w1 w2)
    ultimately show ?thesis unfolding next_id by blast
  qed
qed

lemma height_shards:
  assumes "0 < C" and "R * C < 2 ^ 32"
  shows "\<exists>rem pid res. rfold (height_shard (h * C)) [0..<n] (R * C, 0, replicate n [], replicate n (h, C)) = Inr (rem, pid, res) \<and>
    shards_ok h C R C 1 n res"
proof -
  let ?I = "\<lambda>k (rem, pid, res). rem = R * C - min (k * h) R * C \<and> pid = min (k * h) R * C \<and> shards_upto h C R C 1 n k res"
  have "\<exists>s'. rfold (height_shard (h * C)) [0..<n] (R * C, 0, replicate n [], replicate n (h, C)) = Inr s' \<and> ?I n s'"
  proof (rule rfold_upt [where I = ?I])
    fix k s
    assume k: "k < n" and "?I k s"
    then obtain pages shapes where s: "s = (R * C - min (k * h) R * C, min (k * h) R * C, pages, shapes)"
      and i: "shards_upto h C R C 1 n k (pages, shapes)" by (cases s) auto
    show "\<exists>s'. height_shard (h * C) k s = Inr s' \<and> ?I (Suc k) s'"
      using height_shard_step [OF i k assms] unfolding s by auto
  qed (simp add: shards_upto_0)
  then show ?thesis using shards_upto_all by fastforce
qed

lemma next_shard:
  assumes "0 < nc"
  shows "shard_row h nc (Suc k) = (if Suc (k mod nc) = nc then shard_row h nc k + h else shard_row h nc k)"
    and "shard_col w nc (Suc k) = (if Suc (k mod nc) = nc then 0 else shard_col w nc k + w)"
proof -
  have "Suc k div nc = (if Suc (k mod nc) = nc then Suc (k div nc) else k div nc)"
    using assms by (simp add: div_Suc dvd_eq_mod_eq_0 mod_Suc)
  then show "shard_row h nc (Suc k) = (if Suc (k mod nc) = nc then shard_row h nc k + h else shard_row h nc k)"
    by (simp add: shard_row_def)
  show "shard_col w nc (Suc k) = (if Suc (k mod nc) = nc then 0 else shard_col w nc k + w)"
    by (simp add: shard_col_def mod_Suc)
qed

text \<open>Shards that fit the 32-bit arithmetic of the loops.\<close>

definition shards_fit :: "nat \<Rightarrow> nat \<Rightarrow> nat \<Rightarrow> nat \<Rightarrow> nat \<Rightarrow> nat \<Rightarrow> bool" where
  "shards_fit h w R C nc n \<longleftrightarrow>
     0 < h \<and> 0 < w \<and> 0 < C \<and> nc = (C + w - 1) div w \<and> R * C < 2 ^ 32 \<and> n * (h * w) < 2 ^ 32 \<and> C + w \<le> 2 ^ 32"

lemma shards_fit_nc:
  assumes "shards_fit h w R C nc n"
  shows "0 < nc" and "shard_col w nc k < C" and "shard_col w nc k + w \<le> nc * w" and "nc * w < 2 ^ 32" and "C \<le> nc * w"
proof -
  have w: "0 < w" "0 < C" "C + w \<le> 2 ^ 32" and nc: "nc = (C + w - 1) div w" using assms by (simp_all add: shards_fit_def)
  show pos: "0 < nc" unfolding nc by (rule ceil_div_pos) (use w in simp_all)
  have lt: "nc * w < C + w" unfolding nc by (rule ceil_mult_less [OF w(1)])
  then show "nc * w < 2 ^ 32" using w(3) by linarith
  have "(k mod nc + 1) * w \<le> nc * w" using pos by (intro mult_right_mono) (simp_all add: Suc_leI)
  then show b: "shard_col w nc k + w \<le> nc * w" by (simp add: shard_col_def)
  show "shard_col w nc k < C" using b lt by linarith
  show "C \<le> nc * w" unfolding nc by (rule ceil_mult_ge [OF w(1)])
qed

lemma shards_fit_row:
  assumes "shards_fit h w R C nc n" and "k < n"
  shows "shard_row h nc k + h < 2 ^ 32"
proof -
  have "k div nc + 1 \<le> n" using assms(2) div_le_dividend [of k nc] by linarith
  then have "(k div nc + 1) * (h * 1) \<le> n * (h * w)" using assms(1) by (intro mult_mono) (simp_all add: shards_fit_def)
  also have "\<dots> < 2 ^ 32" using assms(1) by (simp add: shards_fit_def)
  finally show ?thesis by (simp add: shard_row_def)
qed

lemma page_index: "i < R \<Longrightarrow> j < C \<Longrightarrow> i * C + j < R * (C::nat)"
proof -
  assume "i < R" and j: "j < C"
  then have "(i + 1) * C \<le> R * C" by (intro mult_right_mono) simp_all
  then show ?thesis using j by (simp add: distrib_right)
qed

lemma block_pages:
  assumes fit: "shards_fit h w R C nc n" and k: "k < n"
  defines "I \<equiv> shard_row h nc k" and "J \<equiv> shard_col w nc k"
  shows "shard_rows (R, C) (I + h) J (J + w) I 0 =
    (shard_page_list h w R C nc k, I + shard_height h R nc k,
     if 0 < shard_height h R nc k then J + shard_width w C nc k else 0)"
proof -
  have J: "J < C" unfolding J_def by (rule shards_fit_nc [OF fit])
  have rc: "R * C < 2 ^ 32" and h: "0 < h" using fit by (simp_all add: shards_fit_def)
  have b: "min (J + w) C = J + shard_width w C nc k" using J by (simp add: shard_width_def J_def [symmetric])
  have a1: "[I..<min (I + h) R] = [I..<I + shard_height h R nc k]"
    by (cases "I \<le> R") (auto simp: shard_height_def I_def [symmetric] min_def)
  have a2: "max I (min (I + h) R) = I + shard_height h R nc k" "I < min (I + h) R \<longleftrightarrow> 0 < shard_height h R nc k"
    using h by (auto simp: shard_height_def I_def [symmetric] min_def max_def)
  note a = a1 a2
  have le: "J + shard_width w C nc k \<le> C" "I + shard_height h R nc k \<le> max I R" using b a by auto
  have "concat (map (\<lambda>i. map (\<lambda>j. add32 (mul32 i C) j) [J..<min (J + w) C]) [I..<min (I + h) R]) =
    shard_page_list h w R C nc k"
    unfolding a b shard_page_list_def grid_pages_def I_def [symmetric] J_def [symmetric]
  proof (intro arg_cong [where f = concat] map_cong refl)
    fix i j
    assume "i \<in> set [I..<I + shard_height h R nc k]" and "j \<in> set [J..<J + shard_width w C nc k]"
    then have "i * C + j < 2 ^ 32" using page_index [of i R j C] rc le by (simp add: max_def split: if_splits)
    then show "add32 (mul32 i C) j = i * C + j" by (simp add: wadd_id wmul_id)
  qed
  then show ?thesis using a b by (simp add: shard_rows_eq del: shard_rows.simps)
qed

lemma block_shard_step:
  assumes fit: "shards_fit h w R C nc n" and k: "k < n" and inv: "shards_upto h w R C nc n k (pages, shapes)"
  shows "\<exists>res. block_shard (h, w) (R, C) nc k (shard_row h nc k, shard_col w nc k, k mod nc, pages, shapes) =
     Inr (shard_row h nc (Suc k), shard_col w nc (Suc k), Suc k mod nc, res) \<and> shards_upto h w R C nc n (Suc k) res"
proof -
  define I J a where d: "I = shard_row h nc k" "J = shard_col w nc k" "a = shard_height h R nc k"
  note nc = shards_fit_nc(1,4,5) [OF fit] shards_fit_nc(2,3) [OF fit, of k] and row = shards_fit_row [OF fit k]
  have h: "add32 h I = I + h" "add32 w J = J + w" "add32 I h = I + h" "add32 J w = J + w"
    using row nc by (simp_all add: wadd_id d add.commute)
  have "k mod nc < nc" using nc by simp
  moreover have "nc * 1 \<le> nc * w" using fit by (intro mult_left_mono) (simp_all add: shards_fit_def)
  ultimately have "k mod nc + 1 < 2 ^ 32" using nc(2) by linarith
  then have r: "add32 (k mod nc) 1 = Suc (k mod nc)" by (simp add: wadd_def)
  have ah: "a \<le> h" by (simp add: d shard_height_def)
  have i: "sub32 (I + a) I = a" using row ah by (simp add: wsub_id d)
  have j: "sub32 (J + shard_width w C nc k) J = shard_width w C nc k"
    using nc by (simp add: wsub_id d shard_width_def)
  define s where "s = (a, sub32 (if 0 < a then J + shard_width w C nc k else 0) J)"
  have ok: "shard_shape_ok h w R C nc k s" using j by (simp add: shard_shape_ok_def s_def d)
  let ?res = "(pages[k := shard_page_list h w R C nc k], shapes[k := s])"
  have bp: "shard_rows (R, C) (I + h) J (J + w) I 0 = (shard_page_list h w R C nc k, I + a,
     if 0 < a then J + shard_width w C nc k else 0)"
    using block_pages [OF fit k] by (simp add: d del: shard_rows.simps)
  have "block_shard (h, w) (R, C) nc k (I, J, k mod nc, pages, shapes) =
     Inr (shard_row h nc (Suc k), shard_col w nc (Suc k), Suc k mod nc, ?res)"
    unfolding next_shard [OF nc(1)] d(1,2) [symmetric]
    by (simp add: block_shard_def Let_def h r r [simplified] bp i s_def mod_Suc del: shard_rows.simps)
  moreover have "shards_upto h w R C nc n (Suc k) ?res" by (rule shards_upto_step [OF inv k refl ok])
  ultimately show ?thesis unfolding d by blast
qed

lemma block_shards:
  assumes fit: "shards_fit h w R C nc n"
  shows "\<exists>i j r res. rfold (block_shard (h, w) (R, C) nc) [0..<n] (0, 0, 0, replicate n [], replicate n (h, w)) = Inr (i, j, r, res) \<and>
    shards_ok h w R C nc n res"
proof -
  let ?I = "\<lambda>k (i, j, r, res). i = shard_row h nc k \<and> j = shard_col w nc k \<and> r = k mod nc \<and> shards_upto h w R C nc n k res"
  have "\<exists>s'. rfold (block_shard (h, w) (R, C) nc) [0..<n] (0, 0, 0, replicate n [], replicate n (h, w)) = Inr s' \<and> ?I n s'"
  proof (rule rfold_upt [where I = ?I])
    fix k s
    assume k: "k < n" and "?I k s"
    then obtain pages shapes where s: "s = (shard_row h nc k, shard_col w nc k, k mod nc, pages, shapes)"
      and i: "shards_upto h w R C nc n k (pages, shapes)" by (cases s) auto
    show "\<exists>s'. block_shard (h, w) (R, C) nc k s = Inr s' \<and> ?I (Suc k) s'"
      using block_shard_step [OF fit k i] unfolding s by auto
  qed (simp add: shards_upto_0 shard_row_def shard_col_def)
  then show ?thesis using shards_upto_all by fastforce
qed

subsection \<open>The two maps are inverse\<close>

lemma mult_add_div_mod:
  assumes "e < (m::nat)"
  shows "(k * m + e) div m = k" and "(k * m + e) mod m = e"
  using assms by simp_all

lemma dev_page_split:
  assumes "x < h" and "y < (w::nat)"
  shows "(k * (h * w) + (x * w + y)) div (h * w) = k" and "(k * (h * w) + (x * w + y)) mod (h * w) = x * w + y"
    and "(x * w + y) div w = x" and "(x * w + y) mod w = y"
proof -
  have e: "x * w + y < h * w" by (rule page_index [OF assms])
  then show "(k * (h * w) + (x * w + y)) div (h * w) = k" "(k * (h * w) + (x * w + y)) mod (h * w) = x * w + y"
    by (rule mult_add_div_mod)+
  show "(x * w + y) div w = x" "(x * w + y) mod w = y" using assms(2) by simp_all
qed

lemma dev_page_cases:
  assumes "0 < h" and "0 < (w::nat)"
  obtains k x y where "d = k * (h * w) + (x * w + y)" and "x < h" and "y < w"
proof
  show "d = d div (h * w) * (h * w) + (d mod (h * w) div w * w + d mod (h * w) mod w)"
    by (simp only: div_mult_mod_eq)
  have "d mod (h * w) < h * w" using assms by simp
  then show "d mod (h * w) div w < h" by (simp add: less_mult_imp_div_less)
  show "d mod (h * w) mod w < w" using assms by simp
qed

lemma host_page_of_eq:
  assumes "x < h" and "y < w"
  shows "host_page_of h w R C nc (k * (h * w) + (x * w + y)) =
    (if x < shard_height h R nc k \<and> y < shard_width w C nc k
     then Some ((shard_row h nc k + x) * C + (shard_col w nc k + y)) else None)"
  unfolding host_page_of_def Let_def dev_page_split [OF assms] shard_height_def shard_width_def using assms by auto

lemma host_page_of_Some:
  assumes "host_page_of h w R C nc d = Some p" and "0 < h" and "0 < w" and "0 < nc"
  shows "p < R * C" and "dev_page_of h w C nc p = d"
proof -
  obtain k x y where d: "d = k * (h * w) + (x * w + y)" "x < h" "y < w" using dev_page_cases [OF assms(2,3)] .
  let ?i = "shard_row h nc k + x" and ?j = "shard_col w nc k + y"
  have lt: "?i < R" "?j < C" and p: "p = ?i * C + ?j"
    using assms(1) d by (auto simp: host_page_of_eq shard_height_def shard_width_def split: if_splits)
  then show "p < R * C" by (simp add: page_index)
  have ij: "p div C = ?i" "p mod C = ?j" unfolding p using lt(2) by simp_all
  have "?i div h = k div nc" "?i mod h = x" "?j div w = k mod nc" "?j mod w = y"
    using d(2,3) by (simp_all add: shard_row_def shard_col_def)
  then show "dev_page_of h w C nc p = d" unfolding dev_page_of_def ij Let_def d(1) by simp
qed

lemma dev_page_of_inverse:
  assumes "p < R * C" and "0 < h" and "0 < w" and "C \<le> nc * w"
  shows "host_page_of h w R C nc (dev_page_of h w C nc p) = Some p"
proof -
  let ?i = "p div C" and ?j = "p mod C"
  have C: "0 < C" using assms(1) by (cases C) auto
  have i: "?i < R" using assms(1) by (simp add: less_mult_imp_div_less)
  have j: "?j < C" using C by simp
  then have jw: "?j div w < nc" using assms(4) by (simp add: less_mult_imp_div_less)
  let ?k = "?i div h * nc + ?j div w"
  have "?k div nc = ?i div h" "?k mod nc = ?j div w" using jw by simp_all
  then have k: "shard_row h nc ?k = ?i div h * h" "shard_col w nc ?k = ?j div w * w"
    by (simp_all add: shard_row_def shard_col_def)
  have "dev_page_of h w C nc p = ?k * (h * w) + (?i mod h * w + ?j mod w)" by (simp add: dev_page_of_def Let_def)
  moreover have "?i mod h < h" "?j mod w < w" using assms by simp_all
  ultimately show ?thesis
    using i j by (simp add: host_page_of_eq shard_height_def shard_width_def k less_diff_conv)
qed

lemma dev_page_of_less:
  assumes "p < R * C" and "0 < h" and "0 < w" and "C \<le> nc * w" and "(R + h - 1) div h * nc \<le> n"
  shows "dev_page_of h w C nc p < n * (h * w)"
proof -
  let ?i = "p div C" and ?j = "p mod C"
  have C: "0 < C" using assms(1) by (cases C) auto
  have i: "?i < R" using assms(1) by (simp add: less_mult_imp_div_less)
  have "?j < C" using C by simp
  then have jw: "?j div w < nc" using assms(4) by (simp add: less_mult_imp_div_less)
  have "R \<le> (R + h - 1) div h * h" by (rule ceil_mult_ge [OF assms(2)])
  then have "?i < (R + h - 1) div h * h" using i by linarith
  then have "?i div h < (R + h - 1) div h" by (rule less_mult_imp_div_less)
  then have "?i div h * nc + ?j div w < (R + h - 1) div h * nc" by (rule page_index [OF _ jw])
  then have k: "?i div h * nc + ?j div w < n" using assms(5) by linarith
  have "?i mod h * w + ?j mod w < h * w" by (rule page_index) (use assms in simp_all)
  then show ?thesis unfolding dev_page_of_def Let_def by (rule page_index [OF k])
qed

subsection \<open>The mapping after the first pages\<close>

definition pages_upto :: "(nat \<Rightarrow> nat option) \<Rightarrow> nat \<Rightarrow> nat \<Rightarrow> nat \<Rightarrow> nat list" where
  "pages_upto host hw d k = List.map_filter host [k * hw..<min d (k * hw + hw)]"

text \<open>
  The mapping once the loops have handled the device pages below \<open>d\<close>; \<open>H\<close> is \<open>R * C\<close>, the number of host
  pages, and \<open>host\<close> and \<open>dev\<close> are the reference maps.
\<close>

definition mapping_at ::
    "BufferPageMapping \<Rightarrow> (nat \<Rightarrow> nat option) \<Rightarrow> (nat \<Rightarrow> nat) \<Rightarrow> nat \<Rightarrow> nat \<Rightarrow> nat \<Rightarrow> nat \<Rightarrow> BufferPageMapping" where
  "mapping_at m host dev hw n H d =
     m\<lparr>core_host_page_indices := map (pages_upto host hw d) [0..<n],
       dev_page_to_core_mapping := map (\<lambda>e. if e < d then e div hw else 0) [0..<n * hw],
       dev_page_to_host_page_mapping := map (\<lambda>e. if e < d then host e else None) [0..<n * hw],
       host_page_to_dev_page_mapping := map (\<lambda>p. if dev p < d then dev p else 0) [0..<H],
       host_page_to_local_shard_page_mapping := map (\<lambda>p. if dev p < d then dev p mod hw else 0) [0..<H]\<rparr>"

lemma map_upt_update: "i < n \<Longrightarrow> (map f [0..<n])[i := v] = map (f(i := v)) [0..<n]"
  by (rule nth_equalityI) (auto simp: nth_list_update)

lemma pages_upto_Suc:
  assumes "d < n * hw" and "k < n"
  shows "pages_upto host hw (Suc d) k =
    (if k = d div hw then pages_upto host hw d k @ (case host d of None \<Rightarrow> [] | Some p \<Rightarrow> [p]) else pages_upto host hw d k)"
proof -
  have hw: "0 < hw" using assms by (cases hw) auto
  consider "k < d div hw" | "k = d div hw" | "d div hw < k" by linarith
  then show ?thesis
  proof cases
    case 1
    then have "(k + 1) * hw \<le> d div hw * hw" by (intro mult_right_mono) simp_all
    also have "\<dots> \<le> d" by simp
    finally have "k * hw + hw \<le> d" by simp
    then show ?thesis using 1 by (simp add: pages_upto_def min_absorb2)
  next
    case 2
    have "d = k * hw + d mod hw" "d mod hw < hw" using 2 hw by simp_all
    then have "k * hw \<le> d" "d < k * hw + hw" by linarith+
    then have "[k * hw..<min (Suc d) (k * hw + hw)] = [k * hw..<d] @ [d]" "[k * hw..<min d (k * hw + hw)] = [k * hw..<d]"
      by (simp_all add: min_def)
    then show ?thesis using 2 by (simp add: pages_upto_def map_filter_def split: option.splits)
  next
    case 3
    have "d < d div hw * hw + hw" using hw by (metis dividend_less_div_times add.commute)
    moreover have "(d div hw + 1) * hw \<le> k * hw" using 3 by (intro mult_right_mono) simp_all
    ultimately have "Suc d \<le> k * hw" by (simp add: distrib_right)
    then show ?thesis using 3 by (simp add: pages_upto_def min_def)
  qed
qed

lemma mapping_at_0:
  "mapping_at m host dev hw n H 0 =
    m\<lparr>core_host_page_indices := replicate n [], dev_page_to_core_mapping := replicate (n * hw) 0,
      dev_page_to_host_page_mapping := replicate (n * hw) None, host_page_to_dev_page_mapping := replicate H 0,
      host_page_to_local_shard_page_mapping := replicate H 0\<rparr>"
  by (simp add: mapping_at_def pages_upto_def map_replicate_const List.map_filter_simps cong: map_cong)

lemma mapping_at_skip:
  assumes d: "d < n * hw" and no: "host d = None" and inv: "\<And>p. p < H \<Longrightarrow> host (dev p) = Some p"
  shows "mapping_at m host dev hw n H (Suc d) =
    (mapping_at m host dev hw n H d)\<lparr>dev_page_to_core_mapping :=
       (dev_page_to_core_mapping (mapping_at m host dev hw n H d))[d := d div hw]\<rparr>"
proof -
  have "dev p < Suc d \<longleftrightarrow> dev p < d" if "p < H" for p using inv [OF that] no by (metis less_Suc_eq option.distinct(1))
  then have lists:
    "map (pages_upto host hw (Suc d)) [0..<n] = map (pages_upto host hw d) [0..<n]"
    "map (\<lambda>e. if e < Suc d then e div hw else 0) [0..<n * hw] = (map (\<lambda>e. if e < d then e div hw else 0) [0..<n * hw])[d := d div hw]"
    "map (\<lambda>e. if e < Suc d then host e else None) [0..<n * hw] = map (\<lambda>e. if e < d then host e else None) [0..<n * hw]"
    "map (\<lambda>q. if dev q < Suc d then dev q else 0) [0..<H] = map (\<lambda>q. if dev q < d then dev q else 0) [0..<H]"
    "map (\<lambda>q. if dev q < Suc d then dev q mod hw else 0) [0..<H] = map (\<lambda>q. if dev q < d then dev q mod hw else 0) [0..<H]"
    by - (rule nth_equalityI; use d no in \<open>auto simp: nth_list_update pages_upto_Suc less_Suc_eq\<close>)+
  show ?thesis unfolding mapping_at_def lists by simp
qed

lemma mapping_at_page:
  assumes d: "d < n * hw" and p: "host d = Some p" and inv: "\<And>p. p < H \<Longrightarrow> host (dev p) = Some p"
    and dev: "dev p = d" and H: "p < H"
  shows "mapping_at m host dev hw n H (Suc d) =
    (let s = mapping_at m host dev hw n H d in
     s\<lparr>dev_page_to_core_mapping := (dev_page_to_core_mapping s)[d := d div hw],
       dev_page_to_host_page_mapping := (dev_page_to_host_page_mapping s)[d := Some p],
       core_host_page_indices := (core_host_page_indices s)[d div hw := core_host_page_indices s ! (d div hw) @ [p]],
       host_page_to_local_shard_page_mapping := (host_page_to_local_shard_page_mapping s)[p := d mod hw],
       host_page_to_dev_page_mapping := (host_page_to_dev_page_mapping s)[p := d]\<rparr>)"
proof -
  have k: "d div hw < n" using d by (simp add: less_mult_imp_div_less)
  have e: "dev q = d \<longleftrightarrow> q = p" if "q < H" for q using inv [OF that] p dev by (metis option.inject)
  have l1: "map (pages_upto host hw (Suc d)) [0..<n] = (map (pages_upto host hw d) [0..<n])[d div hw := pages_upto host hw d (d div hw) @ [p]]"
    by (rule nth_equalityI) (auto simp: nth_list_update pages_upto_Suc [OF d] p k)
  have l2: "map (\<lambda>e. if e < Suc d then e div hw else 0) [0..<n * hw] = (map (\<lambda>e. if e < d then e div hw else 0) [0..<n * hw])[d := d div hw]"
    "map (\<lambda>e. if e < Suc d then host e else None) [0..<n * hw] = (map (\<lambda>e. if e < d then host e else None) [0..<n * hw])[d := Some p]"
    by (rule nth_equalityI; auto simp: nth_list_update less_Suc_eq p d)+
  have "dev q < Suc d \<longleftrightarrow> dev q < d \<or> q = p" if "q < H" for q using e [OF that] by auto
  then have l3: "map (\<lambda>q. if dev q < Suc d then dev q else 0) [0..<H] = (map (\<lambda>q. if dev q < d then dev q else 0) [0..<H])[p := d]"
    "map (\<lambda>q. if dev q < Suc d then dev q mod hw else 0) [0..<H] = (map (\<lambda>q. if dev q < d then dev q mod hw else 0) [0..<H])[p := d mod hw]"
    by - (rule nth_equalityI; auto simp: nth_list_update dev H)+
  note lists = l1 l2 l3
  show ?thesis unfolding mapping_at_def Let_def lists using k by simp
qed

subsection \<open>The loops of the mapping\<close>

definition valid_pages :: "nat \<Rightarrow> nat \<Rightarrow> nat \<Rightarrow> nat \<Rightarrow> nat" where
  "valid_pages a b x y = min x a * b + (if x < a then min y b else 0)"

definition loop_state ::
    "(nat \<Rightarrow> BufferPageMapping) \<Rightarrow> nat \<Rightarrow> nat \<Rightarrow> nat \<Rightarrow> nat \<Rightarrow> nat \<Rightarrow> nat \<Rightarrow> nat \<Rightarrow> mapping_state" where
  "loop_state M h w a b k x y = (M (k * (h * w) + (x * w + y)), k * (h * w) + (x * w + y), valid_pages a b x y, x * w + y)"

lemma map_shard_page_step:
  assumes fit: "shards_fit h w R C nc n" and res: "shards_ok h w R C nc n (pages, core_shard_shape m)"
    and k: "k < n" and x: "x < h" and y: "y < w"
  defines "M \<equiv> mapping_at m (host_page_of h w R C nc) (dev_page_of h w C nc) (h * w) n (R * C)"
    and "a \<equiv> shard_height h R nc k" and "b \<equiv> shard_width w C nc k"
  shows "map_shard_page (pages ! k) k x y (loop_state M h w a b k x y) = Inr (loop_state M h w a b k x (Suc y))"
proof -
  let ?host = "host_page_of h w R C nc" and ?dev = "dev_page_of h w C nc"
  define e d where e: "e = x * w + y" and d: "d = k * (h * w) + e"
  have pos: "0 < h" "0 < w" "0 < nc" "C \<le> nc * w" using fit shards_fit_nc [OF fit] by (simp_all add: shards_fit_def)
  have ehw: "e < h * w" unfolding e by (rule page_index [OF x y])
  have dn: "d < n * (h * w)" unfolding d by (rule page_index [OF k ehw])
  have small: "n * (h * w) < 2 ^ 32" using fit by (simp add: shards_fit_def)
  then have d32: "add32 d (Suc 0) = Suc d" and e32: "add32 e (Suc 0) = Suc e" using dn by (simp_all add: wadd_def d)
  have dk: "d div (h * w) = k" "d mod (h * w) = e" unfolding d by (rule mult_add_div_mod [OF ehw])+
  have inv: "?host (?dev p) = Some p" if "p < R * C" for p by (rule dev_page_of_inverse [OF that pos(1,2,4)])
  have shape: "length (core_shard_shape m) = n" "fst (core_shard_shape m ! k) = a" "0 < a \<Longrightarrow> snd (core_shard_shape m ! k) = b"
    and pk: "pages ! k = shard_page_list h w R C nc k"
    using res k by (simp_all add: shards_ok_def shard_shape_ok_def a_def b_def)
  have host: "?host d = (if x < a \<and> y < b then Some ((shard_row h nc k + x) * C + (shard_col w nc k + y)) else None)"
    unfolding d e a_def b_def by (rule host_page_of_eq [OF x y])
  have cond: "x < fst (core_shard_shape m ! k) \<and> y < snd (core_shard_shape m ! k) \<longleftrightarrow> x < a \<and> y < b"
    using shape by auto
  have len: "length (dev_page_to_core_mapping (M d)) = n * (h * w)" "length (dev_page_to_host_page_mapping (M d)) = n * (h * w)"
    "length (core_host_page_indices (M d)) = n" "length (host_page_to_local_shard_page_mapping (M d)) = R * C"
    "length (host_page_to_dev_page_mapping (M d)) = R * C" "core_shard_shape (M d) = core_shard_shape m"
    by (simp_all add: M_def mapping_at_def)
  show ?thesis
  proof (cases "x < a \<and> y < b")
    case True
    define p where p: "p = (shard_row h nc k + x) * C + (shard_col w nc k + y)"
    have hp: "?host d = Some p" using host True by (simp add: p)
    note ph = host_page_of_Some [OF hp pos(1,2,3)]
    have v: "valid_pages a b x y = x * b + y" "valid_pages a b x (Suc y) = Suc (x * b + y)"
      using True by (simp_all add: valid_pages_def min_def)
    have vlt: "x * b + y < a * b" by (rule page_index) (use True in simp_all)
    have "b \<le> w" by (simp add: b_def shard_width_def)
    then have "x * b + y \<le> e" unfolding e by (intro add_mono mult_left_mono) simp_all
    then have v32: "add32 (x * b + y) (Suc 0) = Suc (x * b + y)" using dn small by (simp add: wadd_def d)
    have page: "vec_get (pages ! k) (x * b + y) = Inr p"
      using vlt True unfolding pk shard_page_list_def a_def [symmetric] b_def [symmetric] p
      by (simp add: grid_pages_nth)
    have "map_shard_page (pages ! k) k x y (M d, d, x * b + y, e) = Inr (M (Suc d), Suc d, Suc (x * b + y), Suc e)"
      using dn k ph(1) True shape mapping_at_page [OF dn hp inv ph(2,1), of m, folded M_def]
      by (simp add: map_shard_page_def Let_def len page d32 e32 v32 dk)
    then show ?thesis unfolding loop_state_def v by (simp add: d e)
  next
    case False
    then have no: "?host d = None" unfolding host by (simp only: if_False)
    have v: "valid_pages a b x (Suc y) = valid_pages a b x y"
      using False by (auto simp: valid_pages_def min_def)
    have skip: "M (Suc d) = (M d)\<lparr>dev_page_to_core_mapping := (dev_page_to_core_mapping (M d))[d := d div (h * w)]\<rparr>"
      unfolding M_def by (rule mapping_at_skip [OF dn no inv])
    have noif: "(x < fst (core_shard_shape m ! k) \<and> y < snd (core_shard_shape m ! k)) = False"
      using cond False by blast
    have "map_shard_page (pages ! k) k x y (M d, d, valid_pages a b x y, e) = Inr (M (Suc d), Suc d, valid_pages a b x y, Suc e)"
      using dn k shape(1) by (simp add: map_shard_page_def Let_def len d32 e32 dk skip noif)
    then show ?thesis unfolding loop_state_def v by (simp add: d e)
  qed
qed

lemma map_shard_step:
  assumes fit: "shards_fit h w R C nc n" and res: "shards_ok h w R C nc n (pages, core_shard_shape m)" and k: "k < n"
  defines "M \<equiv> mapping_at m (host_page_of h w R C nc) (dev_page_of h w C nc) (h * w) n (R * C)"
  shows "map_shard pages (h, w) k (M (k * (h * w)), k * (h * w)) = Inr (M (Suc k * (h * w)), Suc k * (h * w))"
proof -
  define a b where a: "a = shard_height h R nc k" and b: "b = shard_width w C nc k"
  let ?L = "loop_state M h w a b k"
  have bw: "b \<le> w" by (simp add: b shard_width_def)
  have row: "rfold (map_shard_page (pages ! k) k x) [0..<w] (?L x 0) = Inr (?L (Suc x) 0)" if x: "x < h" for x
  proof -
    have "\<exists>s. rfold (map_shard_page (pages ! k) k x) [0..<w] (?L x 0) = Inr s \<and> s = ?L x w"
      by (rule rfold_upt [where I = "\<lambda>y s. s = ?L x y"])
        (use map_shard_page_step [OF fit res k x] in \<open>simp_all add: M_def a b\<close>)
    moreover have "?L x w = ?L (Suc x) 0" using bw by (auto simp: loop_state_def valid_pages_def min_def add.commute)
    ultimately show ?thesis by metis
  qed
  have start: "(M (k * (h * w)), k * (h * w), 0, 0) = ?L 0 0" by (auto simp: loop_state_def valid_pages_def)
  have "\<exists>s. rfold (\<lambda>x. rfold (map_shard_page (pages ! k) k x) [0..<w]) [0..<h] (?L 0 0) = Inr s \<and> s = ?L h 0"
    by (rule rfold_upt [where I = "\<lambda>x s. s = ?L x 0"]) (use row in simp_all)
  then have "rfold (\<lambda>x. rfold (map_shard_page (pages ! k) k x) [0..<w]) [0..<h] (M (k * (h * w)), k * (h * w), 0, 0) = Inr (?L h 0)"
    unfolding start by metis
  moreover have "k * (h * w) + (h * w + 0) = Suc k * (h * w)" by simp
  ultimately show ?thesis by (simp add: map_shard_def loop_state_def del: mult_Suc)
qed

lemma map_shards:
  assumes "shards_fit h w R C nc n" and "shards_ok h w R C nc n (pages, core_shard_shape m)"
  defines "M \<equiv> mapping_at m (host_page_of h w R C nc) (dev_page_of h w C nc) (h * w) n (R * C)"
  shows "rfold (map_shard pages (h, w)) [0..<n] (M 0, 0) = Inr (M (n * (h * w)), n * (h * w))"
proof -
  have "\<exists>s. rfold (map_shard pages (h, w)) [0..<n] (M 0, 0) = Inr s \<and> s = (M (n * (h * w)), n * (h * w))"
    by (rule rfold_upt [where I = "\<lambda>k s. s = (M (k * (h * w)), k * (h * w))"])
      (use map_shard_step [OF assms(1,2)] in \<open>simp_all add: M_def del: mult_Suc\<close>)
  then show ?thesis by simp
qed

subsection \<open>Generating the mapping\<close>

lemma length_grid_to_cores_between:
  assumes "small_range r"
  shows "length (grid_to_cores_between (start_coord r) (end_coord r) row_wise) = range_size r"
proof -
  have b: "cx (start_coord r) \<le> cx (end_coord r)" "cy (start_coord r) \<le> cy (end_coord r)"
    "cx (end_coord r) < 2 ^ 31" "cy (end_coord r) < 2 ^ 31"
    using assms by (simp_all add: small_range_def valid_range_def)
  have x: "u32 (cx (start_coord r)) = cx (start_coord r)" "add64 (cx (end_coord r)) 1 = cx (end_coord r) + 1"
    using b by (simp_all add: nowrap)
  have y: "u32 (cy (start_coord r)) = cy (start_coord r)" "add64 (cy (end_coord r)) 1 = cy (end_coord r) + 1"
    using b by (simp_all add: nowrap)
  have "sub64 (cx (end_coord r)) (cx (start_coord r)) = cx (end_coord r) - cx (start_coord r)"
    "sub64 (cy (end_coord r)) (cy (start_coord r)) = cy (end_coord r) - cy (start_coord r)"
    using b by (simp_all add: wsub_id)
  moreover have s: "add64 (cx (end_coord r) - cx (start_coord r)) 1 = cx (end_coord r) - cx (start_coord r) + 1"
    "add64 (cy (end_coord r) - cy (start_coord r)) 1 = cy (end_coord r) - cy (start_coord r) + 1"
    using b by (simp_all add: wadd_id)
  moreover have "(cx (end_coord r) - cx (start_coord r) + 1) * (cy (end_coord r) - cy (start_coord r) + 1) \<le> 2 ^ 31 * 2 ^ 31"
    using b by (intro mult_mono) simp_all
  ultimately have "range_size r = (cx (end_coord r) + 1 - cx (start_coord r)) * (cy (end_coord r) + 1 - cy (start_coord r))"
    using b by (simp add: range_size_def wmul_id Suc_diff_le)
  then show ?thesis unfolding grid_to_cores_between_def Let_def x y
    by (simp add: length_concat comp_def sum_list_triv mult.commute del: upt_Suc)
qed

lemma sum_range_sizes:
  assumes "sum_list (map range_size crs) < 2 ^ 32"
  shows "set_num_cores crs = sum_list (map range_size crs)"
proof -
  have "foldl (\<lambda>n cr. u32 (add64 n (range_size cr))) a crs = a + sum_list (map range_size crs)"
    if "a + sum_list (map range_size crs) < 2 ^ 32" for a
    using that
  proof (induction crs arbitrary: a)
    case (Cons r crs)
    have "a + range_size r < 2 ^ 32" using Cons.prems by simp
    then have "u32 (add64 a (range_size r)) = a + range_size r" by (simp add: nowrap)
    then show ?case using Cons.IH [of "a + range_size r"] Cons.prems by (simp add: add.assoc)
  qed simp
  from this [of 0] show ?thesis using assms by (simp add: set_num_cores_def)
qed

lemma length_corerange_to_cores:
  assumes "\<forall>r\<in>set crs. small_range r" and "sum_list (map range_size crs) < 2 ^ 32"
  shows "length (corerange_to_cores crs (Some (set_num_cores crs)) row_wise) = set_num_cores crs"
proof -
  have "length (fold (\<lambda>cr all. all @ grid_to_cores_between (start_coord cr) (end_coord cr) row_wise) crs acc) =
    length acc + sum_list (map range_size crs)" for acc
    using assms(1) by (induction crs arbitrary: acc) (simp_all add: length_grid_to_cores_between)
  then have "length (corerange_to_cores crs None row_wise) = sum_list (map range_size crs)"
    by (simp add: corerange_to_cores_def Let_def)
  then show ?thesis
    using assms(2) by (simp add: sum_range_sizes corerange_to_cores_take)
qed

text \<open>
  A sharded buffer whose \<open>n\<close> cores suffice for the \<open>R\<close> by \<open>C\<close> pages of the tensor, cut into shards of \<open>h\<close> by
  \<open>w\<close> pages.  Height sharding keeps the rows of pages whole.
\<close>

definition sharded_buffer :: "Buffer \<Rightarrow> ShardSpecBuffer \<Rightarrow> nat \<Rightarrow> nat \<Rightarrow> nat \<Rightarrow> nat \<Rightarrow> nat \<Rightarrow> nat \<Rightarrow> bool" where
  "sharded_buffer b s h w R C nc n \<longleftrightarrow>
     is_sharded (buf_layout b) \<and> (buf_layout b = HEIGHT_SHARDED \<longrightarrow> w = C) \<and> shard_parameters b = Some s \<and>
     shape_in_pages s = Inr (h, w) \<and> tensor2d_shape s = (R, C) \<and>
     n = set_num_cores (spec_grid (tensor_shard_spec s)) \<and>
     (\<forall>r\<in>set (spec_grid (tensor_shard_spec s)). small_range r) \<and>
     sum_list (map range_size (spec_grid (tensor_shard_spec s))) < 2 ^ 32 \<and>
     0 < buf_page_size b \<and> 0 < R \<and> buf_size b = R * C * buf_page_size b \<and>
     shards_fit h w R C nc n \<and> (R + h - 1) div h * nc \<le> n"

lemma core_to_host_pages_ok:
  assumes "sharded_buffer b s h w R C nc n"
  shows "\<exists>res. core_to_host_pages (h * w) n (buf_layout b) (page_shape s) (spec_shape (tensor_shard_spec s)) (R, C) = Inr res \<and>
    shards_ok h w R C nc n res"
proof -
  have fit: "shards_fit h w R C nc n" using assms unfolding sharded_buffer_def by blast
  have "shape_in_pages s = Inr (h, w)" using assms by (simp add: sharded_buffer_def)
  then have hw: "udiv (fst (spec_shape (tensor_shard_spec s))) (fst (page_shape s)) = Inr h"
    "udiv (snd (spec_shape (tensor_shard_spec s))) (snd (page_shape s)) = Inr w"
    by (auto simp: shape_in_pages_def rbind_eq_Inr)
  have rc: "mul32 R C = R * C" "0 < C" "0 < w" "R * C < 2 ^ 32" "C + w \<le> 2 ^ 32" and nc: "nc = (C + w - 1) div w"
    using fit by (simp_all add: shards_fit_def wmul_id)
  have cols: "div_up C w = Inr nc" unfolding nc by (rule div_up_eq) (use rc in simp_all)
  show ?thesis
  proof (cases "buf_layout b = HEIGHT_SHARDED")
    case True
    then have w: "w = C" using assms by (simp add: sharded_buffer_def)
    have "(C + C - 1) div C = 1" by (rule div_nat_eqI) (use rc(2) in simp_all)
    then have nc1: "nc = 1" using nc w by simp
    obtain rem pid res where "rfold (height_shard (h * C)) [0..<n] (R * C, 0, replicate n [], replicate n (h, C)) = Inr (rem, pid, res)"
      and ok: "shards_ok h C R C 1 n res" using height_shards [OF rc(2,4)] by blast
    then show ?thesis using hw True by (simp add: core_to_host_pages_def Let_def rc(1) w nc1)
  next
    case False
    then have l: "buf_layout b = WIDTH_SHARDED \<or> buf_layout b = BLOCK_SHARDED"
      using assms by (auto simp: sharded_buffer_def is_sharded_def)
    obtain i j r res where "rfold (block_shard (h, w) (R, C) nc) [0..<n] (0, 0, 0, replicate n [], replicate n (h, w)) = Inr (i, j, r, res)"
      and ok: "shards_ok h w R C nc n res" using block_shards [OF fit] by blast
    then show ?thesis using hw False l by (simp add: core_to_host_pages_def Let_def cols)
  qed
qed

lemma sharded_buffer_counts:
  assumes "sharded_buffer b s h w R C nc n"
  shows "shard_spec b = Inr s" and "num_cores b = Inr n" and "shard_size s = Inr (h * w)"
    and "num_dev_pages b = Inr (n * (h * w))" and "num_pages b = Inr (R * C)"
proof -
  have fit: "shards_fit h w R C nc n" and lay: "is_sharded (buf_layout b)" "shard_parameters b = Some s"
    and sh: "shape_in_pages s = Inr (h, w)" and pg: "0 < buf_page_size b" "buf_size b = R * C * buf_page_size b"
    and n: "n = set_num_cores (spec_grid (tensor_shard_spec s))" and cover: "(R + h - 1) div h * nc \<le> n" and R: "0 < R"
    using assms unfolding sharded_buffer_def by blast+
  have b: "R * C < 2 ^ 32" "n * (h * w) < 2 ^ 32" "0 < h" using fit by (simp_all add: shards_fit_def)
  have "0 < (R + h - 1) div h" by (rule ceil_div_pos [OF b(3) R])
  then have "1 \<le> n" using cover shards_fit_nc(1) [OF fit] by (metis Suc_leI One_nat_def le_trans nat_0_less_mult_iff)
  then have "1 * (h * w) \<le> n * (h * w)" by (rule mult_right_mono) simp
  then have hw: "h * w < 2 ^ 32" using b(2) by linarith
  show spec: "shard_spec b = Inr s" using lay by (simp add: shard_spec_def)
  show nc: "num_cores b = Inr n" using lay spec n by (simp add: num_cores_def)
  show "num_pages b = Inr (R * C)" using pg b by (simp add: num_pages_def nowrap)
  show sz: "shard_size s = Inr (h * w)" using sh hw by (simp add: shard_size_def nowrap)
  have "u32 (mul64 (h * w) n) = n * (h * w)" using b(2) by (simp add: nowrap mult.commute)
  then show "num_dev_pages b = Inr (n * (h * w))" using lay(1) spec sz nc by (simp add: num_dev_pages_def)
qed

lemma generate_buffer_page_mapping_eq:
  assumes ok: "sharded_buffer b s h w R C nc n"
  defines "cores \<equiv> corerange_to_cores (spec_grid (tensor_shard_spec s)) (Some n) (spec_orientation (tensor_shard_spec s) = ROW_MAJOR)"
  shows "\<exists>shapes. shards_ok h w R C nc n (map (shard_page_list h w R C nc) [0..<n], shapes) \<and>
    generate_buffer_page_mapping b = Inr (mapping_at
      \<lparr>all_cores = cores, core_bank_indices = [], core_host_page_indices = [], dev_page_to_core_mapping = [],
       dev_page_to_host_page_mapping = [], host_page_to_dev_page_mapping = [], core_to_core_id = core_ids cores,
       host_page_to_local_shard_page_mapping = [], core_shard_shape = shapes\<rparr>
      (host_page_of h w R C nc) (dev_page_of h w C nc) (h * w) n (R * C) (n * (h * w))) \<and> length cores = n"
proof -
  have fit: "shards_fit h w R C nc n" and sh: "shape_in_pages s = Inr (h, w)" and t2: "tensor2d_shape s = (R, C)"
    and n: "n = set_num_cores (spec_grid (tensor_shard_spec s))"
    and grid: "\<forall>r\<in>set (spec_grid (tensor_shard_spec s)). small_range r" "sum_list (map range_size (spec_grid (tensor_shard_spec s))) < 2 ^ 32"
    using ok unfolding sharded_buffer_def by blast+
  have len: "length cores = n" unfolding cores_def n by (rule length_corerange_to_cores [OF grid])
  obtain pages shapes where res: "core_to_host_pages (h * w) n (buf_layout b) (page_shape s) (spec_shape (tensor_shard_spec s)) (R, C) = Inr (pages, shapes)"
    and so: "shards_ok h w R C nc n (pages, shapes)" using core_to_host_pages_ok [OF ok] by auto
  have pages: "pages = map (shard_page_list h w R C nc) [0..<n]"
    by (rule nth_equalityI) (use so in \<open>auto simp: shards_ok_def\<close>)
  define m0 where "m0 = \<lparr>all_cores = cores, core_bank_indices = [], core_host_page_indices = [], dev_page_to_core_mapping = [],
       dev_page_to_host_page_mapping = [], host_page_to_dev_page_mapping = [], core_to_core_id = core_ids cores,
       host_page_to_local_shard_page_mapping = [], core_shard_shape = shapes\<rparr>"
  have so': "shards_ok h w R C nc n (pages, core_shard_shape m0)" using so by (simp add: m0_def)
  have "length pages = n" using so by (simp add: shards_ok_def)
  then have "generate_buffer_page_mapping b = Inr (mapping_at m0
      (host_page_of h w R C nc) (dev_page_of h w C nc) (h * w) n (R * C) (n * (h * w)))"
    using map_shards [OF fit so'] len res sharded_buffer_counts [OF ok] sh t2
    unfolding generate_buffer_page_mapping_def Let_def cores_def [symmetric] mapping_at_0
    by (simp add: cores_def [symmetric] m0_def)
  then show ?thesis using so len unfolding pages m0_def by blast
qed

lemma map_filter_eqI: "(\<And>x. x \<in> set xs \<Longrightarrow> f x = g x) \<Longrightarrow> List.map_filter f xs = List.map_filter g xs"
  by (induction xs) (simp_all add: List.map_filter_simps split: option.split)

lemma mapping_facts:
  assumes ok: "sharded_buffer b s h w R C nc n"
  obtains m where "generate_buffer_page_mapping b = Inr m"
    and "all_cores m = corerange_to_cores (spec_grid (tensor_shard_spec s)) (Some n) (spec_orientation (tensor_shard_spec s) = ROW_MAJOR)"
    and "length (all_cores m) = n" and "length (dev_page_to_core_mapping m) = n * (h * w)"
    and "length (dev_page_to_host_page_mapping m) = n * (h * w)"
    and "length (host_page_to_dev_page_mapping m) = R * C" and "length (host_page_to_local_shard_page_mapping m) = R * C"
    and "length (core_host_page_indices m) = n"
    and "\<And>d. d < n * (h * w) \<Longrightarrow> dev_page_to_core_mapping m ! d = d div (h * w)"
    and "\<And>d. d < n * (h * w) \<Longrightarrow> dev_page_to_host_page_mapping m ! d = host_page_of h w R C nc d"
    and "\<And>p. p < R * C \<Longrightarrow> host_page_to_dev_page_mapping m ! p = dev_page_of h w C nc p"
    and "\<And>p. p < R * C \<Longrightarrow> host_page_to_local_shard_page_mapping m ! p = dev_page_of h w C nc p mod (h * w)"
    and "\<And>k. k < n \<Longrightarrow> core_host_page_indices m ! k = List.map_filter (host_page_of h w R C nc) [k * (h * w)..<k * (h * w) + h * w]"
proof -
  have fit: "shards_fit h w R C nc n" and cover: "(R + h - 1) div h * nc \<le> n" using ok unfolding sharded_buffer_def by blast+
  then have hw: "0 < h" "0 < w" by (simp_all add: shards_fit_def)
  have less: "dev_page_of h w C nc p < n * (h * w)" if "p < R * C" for p
    by (rule dev_page_of_less [OF that hw shards_fit_nc(5) [OF fit] cover])
  have le: "k * (h * w) + h * w \<le> n * (h * w)" if "k < n" for k
    using mult_right_mono [of "k + 1" n "h * w"] that by simp
  obtain shapes where g: "generate_buffer_page_mapping b = Inr (mapping_at
      \<lparr>all_cores = corerange_to_cores (spec_grid (tensor_shard_spec s)) (Some n) (spec_orientation (tensor_shard_spec s) = ROW_MAJOR),
       core_bank_indices = [], core_host_page_indices = [], dev_page_to_core_mapping = [],
       dev_page_to_host_page_mapping = [], host_page_to_dev_page_mapping = [],
       core_to_core_id = core_ids (corerange_to_cores (spec_grid (tensor_shard_spec s)) (Some n) (spec_orientation (tensor_shard_spec s) = ROW_MAJOR)),
       host_page_to_local_shard_page_mapping = [], core_shard_shape = shapes\<rparr>
      (host_page_of h w R C nc) (dev_page_of h w C nc) (h * w) n (R * C) (n * (h * w)))"
    and len: "length (corerange_to_cores (spec_grid (tensor_shard_spec s)) (Some n) (spec_orientation (tensor_shard_spec s) = ROW_MAJOR)) = n"
    using generate_buffer_page_mapping_eq [OF ok] by blast
  show ?thesis
    by (rule that [OF g]) (use less le len in \<open>simp_all add: mapping_at_def pages_upto_def min_absorb2\<close>)
qed

subsection \<open>Properties\<close>

text \<open>(C3) The page mapping of a sharded buffer is a bijection, where the buffer satisfies \<open>sharded_buffer\<close>: its layout is sharded, and when it is
  height-sharded its shards are exactly as wide in pages as the tensor (with wider shards a page is lost, see
  \<open>wide_height_shards_lose_a_page\<close>); its grid has at least as many cores as there are shards; its size is that of the
  pages of the tensor; the core ranges are small and no product exceeds 32 bits.  Generating the mapping then succeeds, with no access outside
  the vectors; every page of the tensor has a page on the device that maps back to it; and a device
  page that maps to a page of the tensor is the one that page maps to.  So no page of the tensor is lost or stored twice.\<close>

theorem page_mapping_roundtrip:
  assumes "sharded_buffer b s h w R C nc n"
  shows "\<exists>m. generate_buffer_page_mapping b = Inr m \<and> length (dev_page_to_host_page_mapping m) = n * (h * w) \<and>
    length (host_page_to_dev_page_mapping m) = R * C \<and>
    (\<forall>p < R * C. host_page_to_dev_page_mapping m ! p < n * (h * w) \<and>
       dev_page_to_host_page_mapping m ! (host_page_to_dev_page_mapping m ! p) = Some p) \<and>
    (\<forall>d < n * (h * w). \<forall>p. dev_page_to_host_page_mapping m ! d = Some p \<longrightarrow>
       p < R * C \<and> host_page_to_dev_page_mapping m ! p = d)"
proof -
  have fit: "shards_fit h w R C nc n" and cover: "(R + h - 1) div h * nc \<le> n" using assms unfolding sharded_buffer_def by blast+
  then have hw: "0 < h" "0 < w" by (simp_all add: shards_fit_def)
  note nc = shards_fit_nc(1,5) [OF fit]
  obtain m where m: "generate_buffer_page_mapping b = Inr m" "length (dev_page_to_host_page_mapping m) = n * (h * w)"
    "length (host_page_to_dev_page_mapping m) = R * C"
    "\<And>d. d < n * (h * w) \<Longrightarrow> dev_page_to_host_page_mapping m ! d = host_page_of h w R C nc d"
    "\<And>p. p < R * C \<Longrightarrow> host_page_to_dev_page_mapping m ! p = dev_page_of h w C nc p"
    using mapping_facts [OF assms] by metis
  show ?thesis
    using m dev_page_of_less [OF _ hw nc(2) cover] dev_page_of_inverse [OF _ hw nc(2)] host_page_of_Some [OF _ hw nc(1)]
    by (intro exI [of _ m]) auto
qed

text \<open>(C15) Where a page of the tensor is stored, under the same conditions (\<open>sharded_buffer\<close>: among them that height shards are exactly as
  wide as the tensor and that the grid has a core for every shard).  The page in row \<open>i\<close> and column \<open>j\<close> of the tensor is on core
  \<open>(i div h) * nc + j div w\<close>, as page \<open>(i mod h) * w + j mod w\<close> of its shard: shards are laid out over the cores row by
  row, and the pages of a shard row by row, as a shard that is not cut off at the edge of the tensor
  would have them.  The pages of a core are listed in that order.\<close>

theorem page_mapping_location:
  assumes "sharded_buffer b s h w R C nc n" and "i < R" and "j < C"
  shows "\<exists>m. generate_buffer_page_mapping b = Inr m \<and> length (all_cores m) = n \<and>
    (let p = i * C + j; d = host_page_to_dev_page_mapping m ! p; core = dev_page_to_core_mapping m ! d;
         page = host_page_to_local_shard_page_mapping m ! p
     in core = i div h * nc + j div w \<and> core < n \<and> page = i mod h * w + j mod w \<and> page < h * w \<and> d = core * (h * w) + page \<and>
        core_host_page_indices m ! core = List.map_filter (nth (dev_page_to_host_page_mapping m)) [core * (h * w)..<core * (h * w) + h * w])"
proof -
  have fit: "shards_fit h w R C nc n" and cover: "(R + h - 1) div h * nc \<le> n" using assms unfolding sharded_buffer_def by blast+
  then have hw: "0 < h" "0 < w" by (simp_all add: shards_fit_def)
  obtain m where m: "generate_buffer_page_mapping b = Inr m" "length (all_cores m) = n"
    and dm: "\<And>d. d < n * (h * w) \<Longrightarrow> dev_page_to_core_mapping m ! d = d div (h * w)"
      "\<And>d. d < n * (h * w) \<Longrightarrow> dev_page_to_host_page_mapping m ! d = host_page_of h w R C nc d"
    and pm: "\<And>p. p < R * C \<Longrightarrow> host_page_to_dev_page_mapping m ! p = dev_page_of h w C nc p"
      "\<And>p. p < R * C \<Longrightarrow> host_page_to_local_shard_page_mapping m ! p = dev_page_of h w C nc p mod (h * w)"
    and km: "\<And>k. k < n \<Longrightarrow> core_host_page_indices m ! k = List.map_filter (host_page_of h w R C nc) [k * (h * w)..<k * (h * w) + h * w]"
    using mapping_facts [OF assms(1)] by metis
  let ?p = "i * C + j" and ?core = "i div h * nc + j div w" and ?page = "i mod h * w + j mod w"
  have p: "?p < R * C" by (rule page_index [OF assms(2,3)])
  have d: "dev_page_of h w C nc ?p = ?core * (h * w) + ?page" using assms(3) by (simp add: dev_page_of_def Let_def)
  have page: "?page < h * w" by (rule page_index) (use hw in simp_all)
  note split = mult_add_div_mod [OF page, of ?core]
  have dn: "?core * (h * w) + ?page < n * (h * w)"
    using dev_page_of_less [OF p hw shards_fit_nc(5) [OF fit] cover] d by simp
  have "?core * (h * w) < n * (h * w)" using dn by linarith
  then have core: "?core < n" by (rule mult_less_cancel2 [THEN iffD1, THEN conjunct2])
  have le: "?core * (h * w) + h * w \<le> n * (h * w)" using mult_right_mono [of "?core + 1" n "h * w"] core by simp
  have "core_host_page_indices m ! ?core = List.map_filter (nth (dev_page_to_host_page_mapping m)) [?core * (h * w)..<?core * (h * w) + h * w]"
    unfolding km [OF core] using le dm(2) by (intro map_filter_eqI) auto
  then show ?thesis using m pm [OF p] dm(1) [OF dn] core page unfolding d split
    by (intro exI [of _ m]) (simp add: Let_def)
qed

subsection \<open>Examples\<close>

text \<open>Three by five pages of 2048 bytes, in shards of two by two pages on a grid of three by two cores.\<close>

definition example_spec :: "nat \<times> nat \<Rightarrow> nat \<times> nat \<Rightarrow> ShardSpecBuffer" where
  "example_spec shape t =
     \<lparr>tensor_shard_spec = \<lparr>spec_grid = [CoreRange (CoreCoord 0 0) (CoreCoord 2 1)], spec_shape = shape,
                           spec_orientation = ROW_MAJOR, spec_halo = False\<rparr>,
      page_shape = (32, 32), tensor2d_shape = t\<rparr>"

definition example_buffer :: "TensorMemoryLayout \<Rightarrow> nat \<times> nat \<Rightarrow> nat \<times> nat \<Rightarrow> Buffer" where
  "example_buffer layout shape t =
     \<lparr>has_device = True, buf_size = fst t * snd t * 2048, buf_address = 0, buf_page_size = 2048, buf_type = L1,
      buf_layout = layout, shard_parameters = Some (example_spec shape t), page_mapping = None, buf_allocate = True,
      buf_bottom_up = None\<rparr>"

lemma example_sharded:
  "sharded_buffer (example_buffer BLOCK_SHARDED (64, 64) (3, 5)) (example_spec (64, 64) (3, 5)) 2 2 3 5 3 6"
  by (simp add: sharded_buffer_def example_buffer_def example_spec_def is_sharded_def shape_in_pages_def udiv_def
      set_num_cores_def range_size_def small_range_def shards_fit_def wadd_def wsub_def wmul_def wcast_def)

theorem page_mapping_roundtrip_witness:
  "\<exists>m. generate_buffer_page_mapping (example_buffer BLOCK_SHARDED (64, 64) (3, 5)) = Inr m \<and>
    (\<forall>p < 15. dev_page_to_host_page_mapping m ! (host_page_to_dev_page_mapping m ! p) = Some p)"
  using page_mapping_roundtrip [OF example_sharded] by auto

theorem page_mapping_location_witness:
  "\<exists>m. generate_buffer_page_mapping (example_buffer BLOCK_SHARDED (64, 64) (3, 5)) = Inr m \<and>
    host_page_to_dev_page_mapping m ! 14 = 20 \<and> dev_page_to_core_mapping m ! 20 = 5 \<and>
    host_page_to_local_shard_page_mapping m ! 14 = 0"
  using page_mapping_location [OF example_sharded, of 2 4] by (auto simp: Let_def)

text \<open>
  Height sharding with shards wider than the tensor is accepted by \<^verbatim>\<open>validate_buffer_size_and_page_size\<close>,
  but loses pages.  Five by two pages in shards of two by three: the second shard holds pages 6 to 9, the
  shape computed for it has room for three, and the loops that follow never reach page 9.
\<close>

lemma wide_height_shards_lose_a_page:
  "core_to_host_pages 6 3 HEIGHT_SHARDED (32, 32) (64, 96) (5, 2) =
     Inr ([[0, 1, 2, 3, 4, 5], [6, 7, 8, 9], []], [(2, 3), (1, 3), (0, 0)])"
proof -
  have lists: "[a, b, c][2 := x] = [a, b, x]" "[a, b, c] ! 2 = c" "replicate 3 a = [a, a, a]" for a b c x :: 'a
    by (simp_all add: numeral_2_eq_2 numeral_3_eq_3)
  have upts: "[0..<3] = [0, 1, 2]" "[0..<6] = [0, 1, 2, 3, 4, 5]" "[0..<4] = [0, 1, 2, 3]" by (simp_all add: upt_rec)
  show ?thesis
    by (simp add: core_to_host_pages_def udiv_def height_shard_def lists upts wmul_def wadd_def wsub_def)
qed

end
