(* ===== verification/Buffer_Props.thy ===== *)
theory Buffer_Props
  imports Page_Mapping Allocator_Props
begin

text \<open>
  Buffers and the allocator together: the region an allocation reserves in every bank has room for all the
  pages of the buffer, at the addresses \<^verbatim>\<open>page_address\<close> and \<^verbatim>\<open>sharded_page_address\<close> compute.
\<close>

subsection \<open>The configuration of an allocator stays what it was\<close>

lemma set_manager_config [simp]: "config (set_manager btype bm a) = config a"
  by (cases btype) (simp_all add: set_manager_def)

lemma alloc_step_config: "alloc_step a a' \<Longrightarrow> config a' = config a"
proof (induction rule: alloc_step.cases)
  case (step_allocate a sz page btype bottom_up num_shards)
  then show ?case by (auto simp: allocate_buffer_def split: sum.splits prod.splits)
next
  case (step_deallocate_buffers order a a')
  have "config a' = config a"
    using step_deallocate_buffers(3) unfolding deallocate_buffers_def
    by (rule rfold_Inr_inv [where I = "\<lambda>x. config x = config a"]) (auto simp: deallocate_manager_def rbind_eq_Inr)
  then show ?case using step_deallocate_buffers by simp
qed (auto simp: deallocate_buffer_def rbind_eq_Inr clear_managers_def mark_allocations_unsafe_def mark_allocations_safe_def)

lemma alloc_steps_config: "alloc_step\<^sup>*\<^sup>* a a' \<Longrightarrow> config a' = config a"
  by (induction rule: rtranclp_induct) (auto dest: alloc_step_config)

lemma insert_dram_banks_config: "config (fold (insert_dram_bank t) js a) = config a"
  by (induction js arbitrary: a) (simp_all add: insert_dram_bank_def)

lemma new_L1BankingAllocator_config:
  assumes fits: "config_fits c" and r: "new_L1BankingAllocator shuffle c = Inr a"
  shows "config a = c"
proof -
  obtain a1 where d: "init_one_bank_per_channel c (empty_Allocator c) = Inr a1"
    and l: "init_compute_and_storage_l1_bank_manager shuffle c a1 = Inr a"
    using r by (auto simp: new_L1BankingAllocator_def new_Allocator_def rbind_eq_Inr)
  have "config a1 = c" using d
    by (auto simp: init_one_bank_per_channel_def rbind_eq_Inr Let_def insert_dram_banks_config empty_Allocator_def)
  then show ?thesis using init_l1_managers [OF fits l] by (simp add: same_managers_def)
qed

subsection \<open>The region of an allocation\<close>

lemma bm_allocate_region:
  assumes ok: "bm_in (2 ^ k) lo hi bm" and k: "k \<le> 32"
    and r: "bm_allocate_buffer sz page up grid shards bm = (Inr x, bm')"
  obtains nb m n where "banks_for_buffer grid shards bm = Inr nb" and "SizeBytesPerBank sz page nb (2 ^ k) = Inr m"
    and "live_regions bm' = insert (x, n) (live_regions bm)" and "\<And>r. r \<in> live_regions bm \<Longrightarrow> fst r \<noteq> x"
    and "m \<le> n" and "bm_num_banks bm' = bm_num_banks bm"
proof -
  obtain fl where fl: "allocator bm = Some fl" "fl_ok fl" "alignment fl = 2 ^ k" and al: "alignment_bytes bm = 2 ^ k"
    using ok by (auto simp: bm_in_def)
  obtain nb m limit fl' where nb: "banks_for_buffer grid shards bm = Inr nb" and m: "SizeBytesPerBank sz page nb (2 ^ k) = Inr m"
    and a: "allocate m up limit fl = (Inr (Some x), fl')"
    and bm': "bm' = bm\<lparr>allocator := Some fl', allocated_buffers := insert x (allocated_buffers bm)\<rparr>"
    using r by (auto simp: bm_allocate_buffer_def fl(1) al split: sum.splits option.splits prod.splits)
  have s: "size_ok fl m" by (rule size_per_bank_ok [OF m k fl(3)])
  have inv: "fl_inv fl" using fl(2) void_allocate [OF _ s, of up limit] a by (auto simp: fl_ok_def)
  have "live_regions bm' = insert (x, alloc_size_of fl m) (live_regions bm)"
    using allocate_regions(1) [OF inv s a] by (simp add: bm' live_regions_def fl(1))
  moreover have "fst r \<noteq> x" if "r \<in> live_regions bm" for r
    using free_list.alloc_fresh_address [OF inv s a] that by (auto simp: live_regions_def fl(1))
  moreover have "m \<le> alloc_size_of fl m" by (rule alloc_size_spec(1) [OF inv_config [OF inv] s])
  moreover have "bm_num_banks bm' = bm_num_banks bm" by (simp add: bm' bm_num_banks_def)
  ultimately show ?thesis by (rule that [OF nb m])
qed

text \<open>The distance between two pages of a buffer in a bank.\<close>

definition page_stride :: "Device \<Rightarrow> Buffer \<Rightarrow> nat" where
  "page_stride d b = (buf_page_size b + buf_alignment d - 1) div buf_alignment d * buf_alignment d"

text \<open>The state of a device that came from initialising the allocator and using it in any way.\<close>

definition device_ok :: "AllocatorConfig \<Rightarrow> Device \<Rightarrow> bool" where
  "device_ok c d \<longleftrightarrow> config_fits c \<and> dram_bank_size c \<le> 2 ^ 32 \<and> worker_l1_size c \<le> 2 ^ 32 \<and>
     config (device_allocator d) = c \<and> managers_in (config_alignment c) (area_lo c) (area_hi c) (device_allocator d)"

lemma device_ok_reachable:
  assumes "config_fits c" and "dram_bank_size c \<le> 2 ^ 32" and "worker_l1_size c \<le> 2 ^ 32"
    and n: "new_L1BankingAllocator shuffle c = Inr a0" and s: "alloc_step\<^sup>*\<^sup>* a0 (device_allocator d)"
  shows "device_ok c d"
proof -
  obtain j where j: "j \<le> 31" "config_alignment c = 2 ^ j" using assms(1) by (auto simp: config_fits_def)
  have "managers_in (2 ^ j) (area_lo c) (area_hi c) (device_allocator d)"
    by (rule alloc_steps_keep [OF s]) (use new_L1BankingAllocator_in [OF assms(1) n] j in simp_all)
  then show ?thesis
    using assms new_L1BankingAllocator_config [OF assms(1) n] alloc_steps_config [OF s] j by (simp add: device_ok_def)
qed

lemma device_ok_alignment:
  assumes "device_ok c d"
  obtains j where "j \<le> 31" and "config_alignment c = 2 ^ j" and "buf_alignment d = 2 ^ j"
  using assms by (auto simp: device_ok_def config_fits_def buf_alignment_def)

lemma area_hi_word:
  assumes "device_ok c d" and "manager t (device_allocator d) = Inr bm"
  shows "area_hi c t \<le> 2 ^ 32"
  using assms by (cases t) (auto simp: device_ok_def manager_def)

lemma allocate_effect:
  assumes ok: "device_ok c d" and r: "EnqueueAllocateBufferImpl up b d = (Inr b', d')"
    and req: "allocation_request b = Inr (sz, shards)"
  obtains bm bm' nb m n where "manager (buf_type b) (device_allocator d) = Inr bm" and "manager (buf_type b) (device_allocator d') = Inr bm'"
    and "\<And>t. t \<noteq> buf_type b \<Longrightarrow> manager t (device_allocator d') = manager t (device_allocator d)"
    and "banks_for_buffer (compute_grid_size c) shards bm = Inr nb"
    and "SizeBytesPerBank sz (buf_page_size b) nb (config_alignment c) = Inr m" and "m \<le> n"
    and "live_regions bm' = insert (buf_address b', n) (live_regions bm)"
    and "\<And>r. r \<in> live_regions bm \<Longrightarrow> fst r \<noteq> buf_address b'"
    and "bm_num_banks bm' = bm_num_banks bm" and "b' = b\<lparr>buf_address := buf_address b'\<rparr>"
    and "buf_address b' + n \<le> 2 ^ 32" and "device_ok c d'"
proof -
  obtain j where j: "j \<le> 31" "config_alignment c = 2 ^ j" using device_ok_alignment [OF ok] by metis
  have j32: "j \<le> 32" using j(1) by simp
  let ?a = "device_allocator d"
  have c: "config ?a = c" and min: "managers_in (2 ^ j) (area_lo c) (area_hi c) ?a" using ok j by (simp_all add: device_ok_def)
  obtain x a' where al: "allocate_buffer sz (buf_page_size b) (buf_type b) up shards ?a = (Inr x, a')"
    and b': "b' = b\<lparr>buf_address := u32 x\<rparr>" and d': "d' = d\<lparr>device_allocator := a'\<rparr>"
    using r req by (auto simp: EnqueueAllocateBufferImpl_def split: sum.splits prod.splits)
  obtain bm bm' where bm: "manager (buf_type b) ?a = Inr bm" "a' = set_manager (buf_type b) bm' ?a"
    and ba: "bm_allocate_buffer sz (buf_page_size b) up (compute_grid_size c) shards bm = (Inr x, bm')"
    using al c by (auto simp: allocate_buffer_def base_alloc_def split: sum.splits prod.splits if_splits)
  have t: "buf_type b \<noteq> SYSTEM_MEMORY" using bm(1) by (auto simp: manager_def)
  have m': "manager t (device_allocator d') = (if t = buf_type b then Inr bm' else manager t ?a)" for t
    using t by (cases "buf_type b"; cases t) (simp_all add: d' bm(2) manager_def set_manager_def)
  note bin = managers_in_manager [OF min bm(1)]
  obtain nb m n where nb: "banks_for_buffer (compute_grid_size c) shards bm = Inr nb"
    and m: "SizeBytesPerBank sz (buf_page_size b) nb (2 ^ j) = Inr m"
    and reg: "live_regions bm' = insert (x, n) (live_regions bm)" "\<And>r. r \<in> live_regions bm \<Longrightarrow> fst r \<noteq> x" "m \<le> n"
    and nbm: "bm_num_banks bm' = bm_num_banks bm"
    using bm_allocate_region [OF bin j32 ba] by metis
  have in': "bm_in (2 ^ j) (area_lo c (buf_type b)) (area_hi c (buf_type b)) bm'"
    using bm_allocate_keeps [OF bin j32, of sz "buf_page_size b" up "compute_grid_size c" shards] ba by simp
  have "x + n \<le> area_hi c (buf_type b)" "0 < n" using bm_in_range [OF in', of x n] reg(1) by simp_all
  then have hi: "x + n \<le> 2 ^ 32" "x < 2 ^ 32" using area_hi_word [OF ok bm(1)] by linarith+
  have x: "buf_address b' = x" using hi(2) by (simp add: b' wcast_id)
  have "device_ok c d'" using ok managers_in_set [OF min in'] j by (simp add: device_ok_def d' bm(2))
  then show ?thesis
    using that [OF bm(1) _ _ nb _ reg(3)] m m' reg hi x nbm j by (simp add: b')
qed

lemma allocate_region:
  assumes ok: "device_ok c d" and r: "EnqueueAllocateBufferImpl up b d = (Inr b', d')"
    and req: "allocation_request b = Inr (sz, shards)"
    and page: "0 < buf_page_size b" "buf_page_size b dvd sz" "0 < sz" "sz < 2 ^ 32" "buf_page_size b + buf_alignment d \<le> 2 ^ 32"
    and nb: "num_banks (device_allocator d) (buf_type b) = Inr nb0" "0 < (case shards of None \<Rightarrow> nb0 | Some n \<Rightarrow> n)"
  obtains bm n where "manager (buf_type b) (device_allocator d') = Inr bm" and "(buf_address b', n) \<in> live_regions bm"
    and "\<And>k. k \<le> (sz div buf_page_size b - 1) div (case shards of None \<Rightarrow> nb0 | Some n \<Rightarrow> n) \<Longrightarrow> k * page_stride d b + page_stride d b \<le> n"
    and "b' = b\<lparr>buf_address := buf_address b'\<rparr>" and "buf_address b' + n \<le> 2 ^ 32"
    and "num_banks (device_allocator d') (buf_type b) = Inr nb0" and "device_ok c d'"
proof -
  obtain j where j: "config_alignment c = 2 ^ j" "buf_alignment d = 2 ^ j" using device_ok_alignment [OF ok] by metis
  let ?nb = "case shards of None \<Rightarrow> nb0 | Some n \<Rightarrow> n"
  obtain bm bm' nbk m n where bm: "manager (buf_type b) (device_allocator d) = Inr bm" "manager (buf_type b) (device_allocator d') = Inr bm'"
    and nbk: "banks_for_buffer (compute_grid_size c) shards bm = Inr nbk"
    and m: "SizeBytesPerBank sz (buf_page_size b) nbk (config_alignment c) = Inr m" "m \<le> n"
    and reg: "live_regions bm' = insert (buf_address b', n) (live_regions bm)" and nbm: "bm_num_banks bm' = bm_num_banks bm"
    and b': "b' = b\<lparr>buf_address := buf_address b'\<rparr>" and hi: "buf_address b' + n \<le> 2 ^ 32" and ok': "device_ok c d'"
    using allocate_effect [OF ok r req] by metis
  have nb0: "nb0 = bm_num_banks bm" using nb(1) bm(1) by (simp add: num_banks_def)
  have nbk': "nbk = ?nb"
    using nbk nb0 by (auto simp: banks_for_buffer_def rbind_eq_Inr split: option.splits)
  let ?s = "page_stride d b" and ?q = "1 + (sz div buf_page_size b - 1) div ?nb"
  have s: "?s < buf_page_size b + 2 ^ j" unfolding page_stride_def j by (rule ceil_mult_less) simp
  have "0 < sz div buf_page_size b" using page by (simp add: div_greater_zero_iff dvd_imp_le)
  moreover have "(sz div buf_page_size b - 1) div ?nb \<le> sz div buf_page_size b - 1" by (rule div_le_dividend)
  ultimately have "?q \<le> sz div buf_page_size b" by linarith
  also have "\<dots> \<le> sz" by (rule div_le_dividend)
  finally have q: "?q < 2 ^ 32" using page(4) by linarith
  have "?q * ?s < 2 ^ 32 * 2 ^ 32" by (rule mult_strict_mono) (use q s page(5) j in simp_all)
  then have fits: "?q * ?s < 2 ^ 64" by simp
  have meq: "m = ?q * ?s"
    using SizeBytesPerBank_eq [OF page(1) _ page(2,3) nb(2), of "2 ^ j"] fits page m
    unfolding nbk' page_stride_def j by simp
  show ?thesis
  proof (rule that [OF bm(2), of n])
    show "(buf_address b', n) \<in> live_regions bm'" using reg by simp
    show "k * ?s + ?s \<le> n" if "k \<le> (sz div buf_page_size b - 1) div ?nb" for k
    proof -
      have "(k + 1) * ?s \<le> ?q * ?s" by (rule mult_right_mono) (use that in simp_all)
      then have "(k + 1) * ?s \<le> n" using m(2) unfolding meq by (rule le_trans)
      then show ?thesis by (simp add: distrib_right add.commute)
    qed
    show "num_banks (device_allocator d') (buf_type b) = Inr nb0" using bm(2) nbm nb0 by (simp add: num_banks_def)
  qed (use b' hi ok' in auto)
qed

subsection \<open>The addresses of the pages\<close>

text \<open>
  \<open>page_inside d b n bank k r\<close>: \<open>r\<close> is the address of the \<open>k\<close>-th page of the buffer in a bank, the address of the
  buffer in that bank plus \<open>k\<close> strides, and this page ends within the first \<open>n\<close> bytes.
\<close>

definition page_inside :: "Device \<Rightarrow> Buffer \<Rightarrow> nat \<Rightarrow> nat \<Rightarrow> nat \<Rightarrow> nat result \<Rightarrow> bool" where
  "page_inside d b n bank k r \<longleftrightarrow>
     (\<forall>bo. bank_offset (device_allocator d) (buf_type b) bank = Inr bo \<and> 0 \<le> int (buf_address b) + bo \<longrightarrow>
        r = Inr (nat (int (buf_address b) + bo) + k * page_stride d b)) \<and>
     k * page_stride d b + page_stride d b \<le> n"

lemma translate_inside:
  assumes bo: "bank_offset (device_allocator d) (buf_type b) bank = Inr bo" "0 \<le> int (buf_address b) + bo"
    and a: "buf_address b < 2 ^ 32" "off < 2 ^ 32"
  shows "translate_page_address d b off bank = Inr (nat (int (buf_address b) + bo) + off)"
proof -
  have "bo < 2 ^ 31" using bo(1) by (auto simp: bank_offset_def rbind_eq_Inr int32_def)
  then have lt: "int (buf_address b) + bo < 2 ^ 33" using a(1) by simp
  have "(int (buf_address b) + bo) mod 2 ^ 64 = int (buf_address b) + bo"
    using bo(2) lt by (intro mod_pos_pos_trivial) simp_all
  moreover have "nat (int (buf_address b) + bo) + off < 2 ^ 64" using lt a(2) by simp
  ultimately show ?thesis by (simp add: translate_page_address_def bo(1) Let_def wadd_id)
qed

lemma stride_round_up:
  assumes "buf_page_size b + buf_alignment d \<le> 2 ^ 32" and "0 < buf_alignment d"
  shows "round_up (u32 (buf_page_size b)) (buf_alignment d) = Inr (page_stride d b)"
proof -
  have "u32 (buf_page_size b) = buf_page_size b" using assms by (simp add: wcast_id)
  then show ?thesis using round_up_eq [OF assms(2,1)] by (simp add: page_stride_def)
qed

lemma page_at_stride:
  assumes n: "k * page_stride d b + page_stride d b \<le> n" and a: "buf_address b + n \<le> 2 ^ 32"
    and page: "0 < buf_page_size b" "0 < buf_alignment d"
    and r: "r = translate_page_address d b (mul32 (page_stride d b) k) bank"
  shows "page_inside d b n bank k r"
proof -
  have "buf_page_size b \<le> page_stride d b" unfolding page_stride_def by (rule ceil_mult_ge [OF page(2)])
  then have lt: "k * page_stride d b < 2 ^ 32" "buf_address b < 2 ^ 32" using n a page(1) by linarith+
  then have "mul32 (page_stride d b) k = k * page_stride d b" by (simp add: wmul_id mult.commute)
  then show ?thesis using n lt translate_inside by (simp add: page_inside_def r)
qed

lemma same_stride:
  assumes "device_ok c d" and "device_ok c d'" and "b' = b\<lparr>buf_address := x\<rparr>"
  shows "page_stride d' b' = page_stride d b" and "buf_alignment d' = buf_alignment d"
  using assms by (simp_all add: page_stride_def buf_alignment_def device_ok_def)

lemma interleaved_pages_inside:
  assumes ok: "device_ok c d" and r: "EnqueueAllocateBufferImpl up b d = (Inr b', d')" and lay: "\<not> is_sharded (buf_layout b)"
    and page: "0 < buf_page_size b" "buf_page_size b + buf_alignment d \<le> 2 ^ 32"
    and sz: "buf_page_size b dvd buf_size b" "0 < buf_size b" "buf_size b < 2 ^ 32"
    and nb: "num_banks (device_allocator d) (buf_type b) = Inr nb" "0 < nb"
  shows "\<exists>bm n. manager (buf_type b) (device_allocator d') = Inr bm \<and> (buf_address b', n) \<in> live_regions bm \<and>
    (\<forall>p < buf_size b div buf_page_size b. page_inside d' b' n (p mod nb) (p div nb) (page_address d' b' (p mod nb) p))"
proof -
  have req: "allocation_request b = Inr (buf_size b, None)" using lay by (simp add: allocation_request_def)
  obtain bm n where bm: "manager (buf_type b) (device_allocator d') = Inr bm" "(buf_address b', n) \<in> live_regions bm"
    and room: "\<And>k. k \<le> (buf_size b div buf_page_size b - 1) div nb \<Longrightarrow> k * page_stride d b + page_stride d b \<le> n"
    and b': "b' = b\<lparr>buf_address := buf_address b'\<rparr>" and hi: "buf_address b' + n \<le> 2 ^ 32"
    and nb': "num_banks (device_allocator d') (buf_type b) = Inr nb" and ok': "device_ok c d'"
    using allocate_region [OF ok r req page(1) sz page(2) nb(1)] nb(2) by (metis option.simps(4))
  note stride = same_stride [OF ok ok' b']
  have al: "0 < buf_alignment d'" using device_ok_alignment [OF ok'] by (metis zero_less_numeral zero_less_power)
  have same: "buf_page_size b' = buf_page_size b" "buf_type b' = buf_type b" using b' by (metis Buffer.ext_inject Buffer.surjective Buffer.update_convs(3))+
  show ?thesis
  proof (intro exI conjI allI impI)
    fix p assume "p < buf_size b div buf_page_size b"
    then have "p div nb \<le> (buf_size b div buf_page_size b - 1) div nb" by (intro div_le_mono) simp
    then have k: "p div nb * page_stride d' b' + page_stride d' b' \<le> n" using room stride by simp
    show "page_inside d' b' n (p mod nb) (p div nb) (page_address d' b' (p mod nb) p)"
    proof (rule page_at_stride [OF k hi _ al])
      show "0 < buf_page_size b'" using page(1) same by simp
      have "round_up (u32 (buf_page_size b')) (buf_alignment d') = Inr (page_stride d' b')"
        by (rule stride_round_up) (use page(2) same stride al in simp_all)
      then show "page_address d' b' (p mod nb) p = translate_page_address d' b' (mul32 (page_stride d' b') (p div nb)) (p mod nb)"
        using nb' nb(2) same by (simp add: page_address_def)
    qed
  qed (use bm in simp_all)
qed

lemma sharded_pages_inside:
  assumes ok: "device_ok c d" and r: "EnqueueAllocateBufferImpl up b d = (Inr b', d')" and lay: "is_sharded (buf_layout b)"
    and page: "0 < buf_page_size b" "buf_page_size b + buf_alignment d \<le> 2 ^ 32"
    and s: "sharded_buffer b s h w R C nc k" and lt: "h * w * k * buf_page_size b < 2 ^ 32"
    and nb: "num_banks (device_allocator d) (buf_type b) = Inr nb"
  shows "\<exists>bm n. manager (buf_type b) (device_allocator d') = Inr bm \<and> (buf_address b', n) \<in> live_regions bm \<and>
    (\<forall>bank p. page_inside d' b' n bank (p mod (h * w)) (sharded_page_address d' b' bank p))"
proof -
  note counts = sharded_buffer_counts [OF s]
  have fit: "shards_fit h w R C nc k" and cover: "(R + h - 1) div h * nc \<le> k" and R: "0 < R"
    using s unfolding sharded_buffer_def by blast+
  then have hw: "0 < h" "0 < w" by (simp_all add: shards_fit_def)
  have "0 < (R + h - 1) div h" by (rule ceil_div_pos [OF hw(1) R])
  then have k: "0 < k" using cover shards_fit_nc(1) [OF fit] by (metis gr0I le_zero_eq mult_is_0 less_numeral_extra(3))
  let ?sz = "h * w * k * buf_page_size b"
  have "h * w * k \<le> ?sz" using page(1) by simp
  then have "h * w * k < 2 ^ 32" using lt by (rule le_less_trans)
  then have w1: "mul64 (h * w) k = h * w * k" by (simp add: wmul_id)
  have w2: "mul64 (h * w * k) (buf_page_size b) = ?sz" using lt by (simp add: wmul_id)
  have req: "allocation_request b = Inr (?sz, Some k)"
    using lay counts by (simp add: allocation_request_def w1 w2)
  have pages: "?sz div buf_page_size b = h * w * k" using page(1) by simp
  have last: "(h * w * k - 1) div k = h * w - 1"
  proof -
    obtain q where q: "h * w = Suc q" using hw by (cases "h * w") auto
    have "h * w * k - 1 = q * k + (k - 1)" using k by (simp add: q)
    then show ?thesis using mult_add_div_mod(1) [of "k - 1" k q] k q by simp
  qed
  have pos: "buf_page_size b dvd ?sz" "0 < ?sz" using hw k page(1) by simp_all
  have nbk: "0 < (case Some k of None \<Rightarrow> nb | Some n \<Rightarrow> n)" using k by simp
  obtain bm n where bm: "manager (buf_type b) (device_allocator d') = Inr bm" "(buf_address b', n) \<in> live_regions bm"
    and room: "\<And>i. i \<le> (?sz div buf_page_size b - 1) div (case Some k of None \<Rightarrow> nb | Some n \<Rightarrow> n) \<Longrightarrow> i * page_stride d b + page_stride d b \<le> n"
    and b': "b' = b\<lparr>buf_address := buf_address b'\<rparr>" and hi: "buf_address b' + n \<le> 2 ^ 32" and ok': "device_ok c d'"
    using allocate_region [OF ok r req page(1) pos lt page(2) nb nbk] by metis
  note stride = same_stride [OF ok ok' b']
  have al: "0 < buf_alignment d'" using device_ok_alignment [OF ok'] by (metis zero_less_numeral zero_less_power)
  have same: "buf_page_size b' = buf_page_size b" "buf_layout b' = buf_layout b" "shard_parameters b' = shard_parameters b"
    by (subst b', simp)+
  show ?thesis
  proof (intro exI conjI allI)
    fix bank p
    have "p mod (h * w) < h * w" using hw by simp
    then have "p mod (h * w) \<le> h * w - 1" by linarith
    then have i: "p mod (h * w) * page_stride d' b' + page_stride d' b' \<le> n"
      using room [of "p mod (h * w)"] unfolding pages stride by (simp only: option.simps last)
    show "page_inside d' b' n bank (p mod (h * w)) (sharded_page_address d' b' bank p)"
    proof (rule page_at_stride [OF i hi _ al])
      show "0 < buf_page_size b'" using page(1) same by simp
      have "round_up (u32 (buf_page_size b')) (buf_alignment d') = Inr (page_stride d' b')"
        by (rule stride_round_up) (use page(2) same stride al in simp_all)
      moreover have "shard_spec b' = Inr s" using counts(1) same by (simp add: shard_spec_def)
      ultimately show "sharded_page_address d' b' bank p = translate_page_address d' b' (mul32 (page_stride d' b') (p mod (h * w))) bank"
        using lay counts(3) hw same by (simp add: sharded_page_address_def umod_def)
    qed
  qed (use bm in simp_all)
qed

text \<open>(C4) A buffer has room for its pages.  When a buffer is allocated on a device whose allocator was used in any way
  before, its address starts a live region of \<open>n\<close> bytes in every bank.  Page \<open>p\<close> of an interleaved buffer is in bank
  \<open>p mod nb\<close>, and device page \<open>p\<close> of a sharded buffer on its core, at the addresses \<^verbatim>\<open>page_address\<close> and
  \<^verbatim>\<open>sharded_page_address\<close> compute: whole strides from the start of the region, and each page ends inside it.  The regions of live
  buffers are disjoint, so pages of different buffers never overlap.\<close>

theorem buffer_pages_inside:
  assumes "config_fits c" and "dram_bank_size c \<le> 2 ^ 32" and "worker_l1_size c \<le> 2 ^ 32"
    and "new_L1BankingAllocator shuffle c = Inr a0" and "alloc_step\<^sup>*\<^sup>* a0 (device_allocator d)"
    and "EnqueueAllocateBufferImpl bottom_up b d = (Inr b', d')"
    and "0 < buf_page_size b" and "buf_page_size b + config_alignment c \<le> 2 ^ 32"
    and "num_banks (device_allocator d) (buf_type b) = Inr nb" and "0 < nb"
    and "if is_sharded (buf_layout b) then sharded_buffer b s h w R C nc k \<and> h * w * k * buf_page_size b < 2 ^ 32
         else buf_page_size b dvd buf_size b \<and> 0 < buf_size b \<and> buf_size b < 2 ^ 32"
  shows "\<exists>bm n. manager (buf_type b) (device_allocator d') = Inr bm \<and> (buf_address b', n) \<in> live_regions bm \<and>
    (if is_sharded (buf_layout b)
     then \<forall>bank p. page_inside d' b' n bank (p mod (h * w)) (sharded_page_address d' b' bank p)
     else \<forall>p < buf_size b div buf_page_size b. page_inside d' b' n (p mod nb) (p div nb) (page_address d' b' (p mod nb) p))"
proof -
  have ok: "device_ok c d" by (rule device_ok_reachable [OF assms(1-5)])
  obtain j where j: "config_alignment c = 2 ^ j" "buf_alignment d = 2 ^ j" using device_ok_alignment [OF ok] by metis
  have pal: "buf_page_size b + buf_alignment d \<le> 2 ^ 32" using assms(8) j by simp
  show ?thesis
  proof (cases "is_sharded (buf_layout b)")
    case True
    then have s: "sharded_buffer b s h w R C nc k" "h * w * k * buf_page_size b < 2 ^ 32" using assms(11) by simp_all
    show ?thesis using sharded_pages_inside [OF ok assms(6) True assms(7) pal s assms(9)] True by simp
  next
    case False
    then have "buf_page_size b dvd buf_size b" "0 < buf_size b" "buf_size b < 2 ^ 32" using assms(11) by simp_all
    then show ?thesis using interleaved_pages_inside [OF ok assms(6) False assms(7) pal _ _ _ assms(9,10)] False by simp
  qed
qed

subsection \<open>An example\<close>

definition example_interleaved :: Buffer where
  "example_interleaved = \<lparr>has_device = True, buf_size = 2048, buf_address = 0, buf_page_size = 1024, buf_type = L1,
     buf_layout = INTERLEAVED, shard_parameters = None, page_mapping = None, buf_allocate = True, buf_bottom_up = None\<rparr>"

definition example_device :: "Allocator \<Rightarrow> Device" where
  "example_device a = \<lparr>device_id = 0, device_initialized = True, device_allocator = a, BUFFER_MAP = [(0, 1014784) \<mapsto> 7]\<rparr>"

lemma example_device_ok:
  assumes "new_L1BankingAllocator rev example_config = Inr a0" and "alloc_step\<^sup>*\<^sup>* a0 a"
  shows "device_ok example_config (example_device a)"
  by (rule device_ok_reachable [OF example_fits _ _ assms(1)]) (use assms(2) in \<open>simp_all add: example_config_def example_device_def\<close>)

lemma example_enqueue:
  assumes "allocate_buffer 2048 1024 L1 False None a0 = (Inr 1014784, a)"
  shows "EnqueueAllocateBufferImpl False example_interleaved (example_device a0) =
    (Inr (example_interleaved\<lparr>buf_address := 1014784\<rparr>), example_device a)"
  using assms
  by (simp add: EnqueueAllocateBufferImpl_def allocation_request_def example_interleaved_def is_sharded_def wcast_def example_device_def)

theorem buffer_pages_inside_witness:
  "\<exists>b' d'. buf_address b' = 1014784 \<and> (\<exists>bm n. manager L1 (device_allocator d') = Inr bm \<and> (1014784, n) \<in> live_regions bm \<and>
    (\<forall>p < 2. page_inside d' b' n (p mod 2) (p div 2) (page_address d' b' (p mod 2) p)))"
proof -
  obtain a0 a where n: "new_L1BankingAllocator rev example_config = Inr a0"
    and al: "allocate_buffer 2048 1024 L1 False None a0 = (Inr 1014784, a)" and nb: "num_banks a0 L1 = Inr 2" by (rule example_state)
  let ?b' = "example_interleaved\<lparr>buf_address := 1014784\<rparr>"
  have b: "dram_bank_size example_config \<le> 2 ^ 32" "worker_l1_size example_config \<le> 2 ^ 32"
    by (simp_all add: example_config_def)
  have s: "alloc_step\<^sup>*\<^sup>* a0 (device_allocator (example_device a0))" by (simp add: example_device_def)
  have "\<exists>bm n. manager (buf_type example_interleaved) (device_allocator (example_device a)) = Inr bm \<and> (buf_address ?b', n) \<in> live_regions bm \<and>
    (if is_sharded (buf_layout example_interleaved)
     then \<forall>bank p. page_inside (example_device a) ?b' n bank (p mod (0 * 0)) (sharded_page_address (example_device a) ?b' bank p)
     else \<forall>p < buf_size example_interleaved div buf_page_size example_interleaved.
       page_inside (example_device a) ?b' n (p mod 2) (p div 2) (page_address (example_device a) ?b' (p mod 2) p))"
    by (rule buffer_pages_inside [OF example_fits b n s example_enqueue [OF al]])
      (use nb in \<open>simp_all add: example_interleaved_def example_config_def example_device_def is_sharded_def\<close>)
  then show ?thesis
    by (intro exI [of _ ?b'] exI [of _ "example_device a"]) (simp add: example_interleaved_def is_sharded_def)
qed

subsection \<open>The life of a buffer\<close>

lemma buffer_allocate_cases:
  assumes "buffer_allocate handle b d = (Inr b', d')"
  obtains up d1 sz shards where "EnqueueAllocateBufferImpl up b d = (Inr b', d1)" and "allocation_request b = Inr (sz, shards)"
    and "has_device b" and "d' = buffer_map_insert (device_id d1, buf_address b') handle d1" and "d1 = d\<lparr>device_allocator := device_allocator d1\<rparr>"
proof -
  obtain up d1 where e: "EnqueueAllocateBufferImpl up b d = (Inr b', d1)" and h: "has_device b"
    and d': "d' = buffer_map_insert (device_id d1, buf_address b') handle d1"
    using assms by (auto simp: buffer_allocate_def Let_def split: if_splits prod.splits sum.splits)
  then obtain sz shards where req: "allocation_request b = Inr (sz, shards)" and d1: "d1 = d\<lparr>device_allocator := device_allocator d1\<rparr>"
    by (auto simp: EnqueueAllocateBufferImpl_def split: sum.splits prod.splits)
  show ?thesis by (rule that [OF e req h d' d1])
qed

lemma map_insert_device [simp]:
  "device_allocator (buffer_map_insert k handle d) = device_allocator d"
  "device_id (buffer_map_insert k handle d) = device_id d" "device_initialized (buffer_map_insert k handle d) = device_initialized d"
  by (simp_all add: buffer_map_insert_def)

lemma bm_deallocate_region:
  assumes ok: "bm_in al lo hi bm" and reg: "(x, n) \<in> live_regions bm" and x: "x < 2 ^ 64"
  shows "\<exists>bm'. bm_deallocate_buffer x bm = Inr bm' \<and> live_regions bm' = {r \<in> live_regions bm. fst r \<noteq> x}"
proof -
  obtain fl where fl: "allocator bm = Some fl" "fl_ok fl" using ok by (auto simp: bm_in_def)
  then have inv: "fl_inv fl" using reg void_regions by (auto simp: fl_ok_def live_regions_def)
  obtain fl' where d: "deallocate x fl = Inr fl'" using free_list.dealloc_total [OF inv] by blast
  show ?thesis using free_list.dealloc_regs [OF inv x d] d by (auto simp: bm_deallocate_buffer_def fl(1) live_regions_def)
qed

text \<open>(C40) Allocating a buffer and deallocating it gives back the memory.  The deallocation succeeds, every manager has the live
  regions it had before the allocation, and deallocating again does nothing.  In the global map of buffers
  the entry of the address is gone, whichever buffer it named: an entry that another buffer with the
  same address (one in DRAM, say, when this one is in L1) had before the allocation is lost.\<close>

theorem buffer_allocate_deallocate:
  assumes "device_ok c d" and "buffer_allocate handle b d = (Inr b', d')"
    and "device_initialized d" and "buf_size b \<noteq> 0" and "buf_allocate b"
  shows "\<exists>b'' d''. buffer_deallocate b' d' = Inr (b'', d'') \<and>
    (\<forall>t bm. manager t (device_allocator d) = Inr bm \<longrightarrow>
       (\<exists>bm''. manager t (device_allocator d'') = Inr bm'' \<and> live_regions bm'' = live_regions bm)) \<and>
    BUFFER_MAP d'' = (BUFFER_MAP d)((device_id d, buf_address b') := None) \<and>
    buffer_deallocate b'' d'' = Inr (b'', d'')"
proof -
  obtain up d1 sz shards where e: "EnqueueAllocateBufferImpl up b d = (Inr b', d1)" and req: "allocation_request b = Inr (sz, shards)"
    and h: "has_device b" and d': "d' = buffer_map_insert (device_id d1, buf_address b') handle d1"
    and d1: "d1 = d\<lparr>device_allocator := device_allocator d1\<rparr>"
    by (rule buffer_allocate_cases [OF assms(2)])
  obtain bm bm' n where bm: "manager (buf_type b) (device_allocator d) = Inr bm" "manager (buf_type b) (device_allocator d1) = Inr bm'"
    and other: "\<And>t. t \<noteq> buf_type b \<Longrightarrow> manager t (device_allocator d1) = manager t (device_allocator d)"
    and reg: "live_regions bm' = insert (buf_address b', n) (live_regions bm)" "\<And>r. r \<in> live_regions bm \<Longrightarrow> fst r \<noteq> buf_address b'"
    and b': "b' = b\<lparr>buf_address := buf_address b'\<rparr>" and hi: "buf_address b' + n \<le> 2 ^ 32" and ok': "device_ok c d1"
    using allocate_effect [OF assms(1) e req] by metis
  have bin: "bm_in (config_alignment c) (area_lo c (buf_type b)) (area_hi c (buf_type b)) bm'"
    using managers_in_manager bm(2) ok' by (auto simp: device_ok_def)
  have in': "(buf_address b', n) \<in> live_regions bm'" using reg(1) by simp
  have "0 < n" using bm_in_range [OF bin in'] by simp
  then have x: "buf_address b' < 2 ^ 32" using hi by linarith
  then have a: "buffer_address b' = buf_address b'" "buf_address b' < 2 ^ 64" by (simp_all add: buffer_address_def wcast_id)
  obtain bm'' where del: "bm_deallocate_buffer (buf_address b') bm' = Inr bm''"
    and reg'': "live_regions bm'' = {r \<in> live_regions bm'. fst r \<noteq> buf_address b'}"
    using bm_deallocate_region [OF bin in' a(2)] by blast
  then have restored: "live_regions bm'' = live_regions bm" using reg by (auto simp: reg(1))
  let ?a = "set_manager (buf_type b) bm'' (device_allocator d1)"
  let ?d = "(buffer_map_erase (device_id d1, buf_address b') d')\<lparr>device_allocator := ?a\<rparr>"
  have same: "has_device b'" "buf_size b' = buf_size b" "buf_type b' = buf_type b" "buf_allocate b'"
    using h assms(5) by (subst b', simp)+
  have dev: "device_initialized d'" "device_allocator d' = device_allocator d1" "device_id d' = device_id d1"
    using assms(3) by (simp_all add: d') (subst d1, simp)
  have dealloc: "buffer_deallocate b' d' = Inr (b'\<lparr>buf_size := 0\<rparr>, ?d)"
    using same assms(4) dev a bm(2) del
    by (simp add: buffer_deallocate_def Let_def EnqueueDeallocateBufferImpl_def deallocate_buffer_def buffer_map_erase_def
        buffer_address_def)
  have t: "buf_type b \<noteq> SYSTEM_MEMORY" using bm(1) by (auto simp: manager_def)
  have m: "manager t ?a = (if t = buf_type b then Inr bm'' else manager t (device_allocator d1))" for t
    using t by (cases "buf_type b"; cases t) (simp_all add: manager_def set_manager_def)
  have dm: "BUFFER_MAP d1 = BUFFER_MAP d" "device_id d1 = device_id d" by (subst d1, simp)+
  have bmap: "BUFFER_MAP ?d = (BUFFER_MAP d)((device_id d, buf_address b') := None)"
    by (auto simp: buffer_map_erase_def d' buffer_map_insert_def dm)
  show ?thesis
    by (intro exI conjI, rule dealloc) (use m other restored bm(1) bmap in \<open>auto simp: buffer_deallocate_def\<close>)
qed

text \<open>Assigning a buffer by copy to one that owns a region leaks the region.  When the assignment succeeds the region
  is still live, and the object, whose address or type is now another, no longer refers to it: neither its
  destructor nor anything else frees it.\<close>

theorem buffer_copy_assign_leaks:
  assumes "device_ok c d" and "buf_allocate other" and "buffer_copy_assign handle this other d = (Inr this', d')"
    and "manager (buf_type this) (device_allocator d) = Inr bm" and "(buf_address this, n) \<in> live_regions bm"
  shows "\<exists>bm'. manager (buf_type this) (device_allocator d') = Inr bm' \<and> (buf_address this, n) \<in> live_regions bm' \<and>
    (buf_type this', buf_address this') \<noteq> (buf_type this, buf_address this)"
proof -
  let ?b = "copy_members this other"
  have type: "buf_type ?b = buf_type other" by (simp add: copy_members_def)
  have "buffer_allocate handle ?b d = (Inr this', d')"
    using assms(2,3) by (simp add: buffer_copy_assign_def Let_def copy_members_def)
  then obtain up d1 sz shards where e: "EnqueueAllocateBufferImpl up ?b d = (Inr this', d1)" and req: "allocation_request ?b = Inr (sz, shards)"
    and d': "d' = buffer_map_insert (device_id d1, buf_address this') handle d1" by (rule buffer_allocate_cases)
  obtain bm0 bm1 k where m: "manager (buf_type ?b) (device_allocator d) = Inr bm0" "manager (buf_type ?b) (device_allocator d1) = Inr bm1"
    and o: "\<And>t. t \<noteq> buf_type ?b \<Longrightarrow> manager t (device_allocator d1) = manager t (device_allocator d)"
    and reg: "live_regions bm1 = insert (buf_address this', k) (live_regions bm0)" "\<And>r. r \<in> live_regions bm0 \<Longrightarrow> fst r \<noteq> buf_address this'"
    and t': "this' = ?b\<lparr>buf_address := buf_address this'\<rparr>"
    using allocate_effect [OF assms(1) e req] by metis
  have ty: "buf_type this' = buf_type other" by (subst t') (simp add: type)
  show ?thesis
  proof (cases "buf_type this = buf_type other")
    case True
    then have "bm0 = bm" using m(1) assms(4) type by simp
    then show ?thesis using m(2) reg assms(5) True type by (fastforce simp: d')
  next
    case False
    then show ?thesis using o assms(4,5) type ty by (simp add: d')
  qed
qed

subsection \<open>Examples of the life of a buffer\<close>

lemma example_buffer_allocate:
  assumes "allocate_buffer 2048 1024 L1 False None a0 = (Inr 1014784, a)"
  shows "buffer_allocate 3 example_interleaved (example_device a0) =
    (Inr (example_interleaved\<lparr>buf_address := 1014784\<rparr>), example_device a)"
  using example_enqueue [OF assms]
  by (simp add: buffer_allocate_def is_dram_def example_interleaved_def buffer_map_insert_def example_device_def)

theorem buffer_allocate_deallocate_witness:
  "\<exists>d b' d' b'' d''. BUFFER_MAP d (0, 1014784) = Some 7 \<and> buffer_allocate 3 example_interleaved d = (Inr b', d') \<and>
    buffer_deallocate b' d' = Inr (b'', d'') \<and> BUFFER_MAP d'' (0, 1014784) = None"
proof -
  obtain a0 a where n: "new_L1BankingAllocator rev example_config = Inr a0"
    and al: "allocate_buffer 2048 1024 L1 False None a0 = (Inr 1014784, a)" by (rule example_state)
  have ok: "device_ok example_config (example_device a0)" by (rule example_device_ok [OF n]) simp
  have "device_initialized (example_device a0)" "buf_size example_interleaved \<noteq> 0" "buf_allocate example_interleaved"
    by (simp_all add: example_device_def example_interleaved_def)
  from buffer_allocate_deallocate [OF ok example_buffer_allocate [OF al] this] obtain b'' d'' where
      "buffer_deallocate (example_interleaved\<lparr>buf_address := 1014784\<rparr>) (example_device a) = Inr (b'', d'')"
      "BUFFER_MAP d'' (0, 1014784) = None" by (auto simp: example_device_def)
  then show ?thesis using example_buffer_allocate [OF al] by (intro exI [of _ "example_device a0"]) (auto simp: example_device_def)
qed

text \<open>A sharded buffer in L1_SMALL with one page of 1024 bytes on each of two cores.\<close>

definition example_small :: Buffer where
  "example_small = \<lparr>has_device = True, buf_size = 2048, buf_address = 0, buf_page_size = 1024, buf_type = L1_SMALL,
     buf_layout = HEIGHT_SHARDED, shard_parameters = Some
       \<lparr>tensor_shard_spec = \<lparr>spec_grid = [CoreRange (CoreCoord 0 0) (CoreCoord 1 0)], spec_shape = (32, 32),
          spec_orientation = ROW_MAJOR, spec_halo = False\<rparr>, page_shape = (32, 32), tensor2d_shape = (2, 1)\<rparr>,
     page_mapping = None, buf_allocate = True, buf_bottom_up = Some True\<rparr>"

theorem buffer_copy_assign_leaks_witness:
  "\<exists>d this' d' bm'. buffer_copy_assign 3 (example_interleaved\<lparr>buf_address := 1014784\<rparr>) example_small d = (Inr this', d') \<and>
    manager L1 (device_allocator d') = Inr bm' \<and> (1014784, 1024) \<in> live_regions bm' \<and> (buf_type this', buf_address this') \<noteq> (L1, 1014784)"
proof -
  obtain a0 a1 a where n: "new_L1BankingAllocator rev example_config = Inr a0"
    and al: "allocate_buffer 2048 1024 L1 False None a0 = (Inr 1014784, a1)"
    and sm: "allocate_buffer 2048 1024 L1_SMALL True (Some 2) a1 = (Inr 1015808, a)"
    and live: "live_regions (l1_manager a1) = {(1014784, 1024)}" by (rule example_state)
  have "alloc_step a0 a1" using step_allocate [of a0 2048 1024 L1 False None] al by simp
  then have ok: "device_ok example_config (example_device a1)" by (intro example_device_ok [OF n]) simp
  let ?old = "example_interleaved\<lparr>buf_address := 1014784\<rparr>"
  have req: "allocation_request (example_small\<lparr>buf_address := 1014784\<rparr>) = Inr (2048, Some 2)"
    by (simp add: allocation_request_def example_small_def is_sharded_def shard_spec_def shard_size_def shape_in_pages_def
        num_cores_def set_num_cores_def range_size_def wadd_def wsub_def wmul_def wcast_def)
  have "EnqueueAllocateBufferImpl True (example_small\<lparr>buf_address := 1014784\<rparr>) (example_device a1) =
      (Inr (example_small\<lparr>buf_address := 1015808\<rparr>), example_device a)"
    using sm req by (simp add: EnqueueAllocateBufferImpl_def example_small_def example_device_def wcast_def)
  then have "\<exists>d'. buffer_copy_assign 3 ?old example_small (example_device a1) = (Inr (example_small\<lparr>buf_address := 1015808\<rparr>), d')"
    by (simp add: buffer_copy_assign_def copy_members_def buffer_allocate_def example_small_def example_interleaved_def)
  then obtain d' where ca: "buffer_copy_assign 3 ?old example_small (example_device a1) = (Inr (example_small\<lparr>buf_address := 1015808\<rparr>), d')" by blast
  have m: "manager (buf_type ?old) (device_allocator (example_device a1)) = Inr (l1_manager a1)" "buf_allocate example_small"
    "(buf_address ?old, 1024) \<in> live_regions (l1_manager a1)"
    using live by (simp_all add: example_interleaved_def example_device_def manager_def example_small_def)
  from buffer_copy_assign_leaks [OF ok m(2) ca m(1,3)] obtain bm' where
      "manager L1 (device_allocator d') = Inr bm'" "(1014784, 1024) \<in> live_regions bm'" by (auto simp: example_interleaved_def)
  then show ?thesis
    using ca by (intro exI [of _ "example_device a1"] exI [of _ "example_small\<lparr>buf_address := 1015808\<rparr>"] exI [of _ d'] exI [of _ bm'])
      (simp add: example_small_def)
qed

end
