(* ===== verification/Lock_Free_Queue.thy ===== *)
theory Lock_Free_Queue
  imports Metal_Prelude
begin

text \<open>
  The queue of \<^verbatim>\<open>tt_metal/impl/dispatch/lock_free_queue.hpp\<close>: a ring of 8192 statically linked
  nodes, a head pointer moved by the reader and a tail pointer moved by the writer.

  A pointer to a node is its index in \<^verbatim>\<open>ring_buffer\<close> (the pointers of a queue are only ever set to
  nodes of its own ring); a \<^verbatim>\<open>shared_ptr\<close> is an option, \<open>None\<close> the null pointer.  This
  theory is the sequential reading of the operations, with the locale \<open>fifo_queue\<close> as the contract
  its clients rely on; \<open>Lock_Free_Queue_Threads\<close> interleaves them.  The move constructor is not
  modelled: it initialises a node from the array of nodes and does not compile once it is used.
\<close>

subsection \<open>State\<close>

definition ring_buffer_size :: nat where
  "ring_buffer_size = 8192"

lemma ring_buffer_size_gt: "1 < ring_buffer_size"
  by (simp add: ring_buffer_size_def)

lemma ring_buffer_size_pos [simp]: "0 < ring_buffer_size"
  by (simp add: ring_buffer_size_def)

record 'a Node =
  node_data :: "'a option"
  node_next :: nat

record 'a LockFreeQueue =
  head :: nat
  tail :: nat
  ring_buffer :: "'a Node list"
  lock_based :: bool
  worker_thread_id :: nat
  parent_thread_id :: nat

definition new_LockFreeQueue :: "'a LockFreeQueue" where
  "new_LockFreeQueue =
    \<lparr>head = 0, tail = 0,
     ring_buffer = map (\<lambda>node_idx. \<lparr>node_data = None,
       node_next = (if node_idx < ring_buffer_size - 1 then node_idx + 1 else 0)\<rparr>)
       [0..<ring_buffer_size],
     lock_based = False, worker_thread_id = 0, parent_thread_id = 0\<rparr>"

definition set_lock_free :: "'a LockFreeQueue \<Rightarrow> 'a LockFreeQueue" where
  "set_lock_free q = q\<lparr>lock_based := False\<rparr>"

definition set_lock_based :: "'a LockFreeQueue \<Rightarrow> 'a LockFreeQueue" where
  "set_lock_based q = q\<lparr>lock_based := True\<rparr>"

subsection \<open>Operations, run by one thread\<close>

abbreviation node :: "'a LockFreeQueue \<Rightarrow> nat \<Rightarrow> 'a Node" where
  "node q p \<equiv> ring_buffer q ! p"

definition set_node_data :: "nat \<Rightarrow> 'a option \<Rightarrow> 'a LockFreeQueue \<Rightarrow> 'a LockFreeQueue" where
  "set_node_data p d q = q\<lparr>ring_buffer := (ring_buffer q)[p := (node q p)\<lparr>node_data := d\<rparr>]\<rparr>"

definition queue_empty :: "'a LockFreeQueue \<Rightarrow> bool" where
  "queue_empty q = (head q = tail q)"

definition push_ptr :: "'a option \<Rightarrow> 'a LockFreeQueue \<Rightarrow> 'a LockFreeQueue result" where
  "push_ptr d q =
    (if node_next (node q (tail q)) = head q then Inl Diverges
     else let q = set_node_data (tail q) d q in
       Inr (q\<lparr>tail := node_next (node q (tail q))\<rparr>))"

definition push_value :: "'a \<Rightarrow> 'a LockFreeQueue \<Rightarrow> 'a LockFreeQueue result" where
  "push_value v q = push_ptr (Some v) q"

definition pop_head :: "'a LockFreeQueue \<Rightarrow> nat option \<times> 'a LockFreeQueue" where
  "pop_head q =
    (let oldHead = head q in
     if oldHead = tail q then (None, q)
     else (Some oldHead, q\<lparr>head := node_next (node q oldHead)\<rparr>))"

definition queue_pop :: "'a LockFreeQueue \<Rightarrow> ('a option \<times> 'a LockFreeQueue) result" where
  "queue_pop q =
    (case pop_head q of
       (None, q) \<Rightarrow> Inl (Undefined ''pop of an empty queue'')
     | (Some oldHead, q) \<Rightarrow>
         let res = node_data (node q oldHead) in Inr (res, set_node_data oldHead None q))"

fun clear_loop :: "nat \<Rightarrow> 'a LockFreeQueue \<Rightarrow> 'a LockFreeQueue result" where
  "clear_loop 0 q = Inl Diverges"
| "clear_loop (Suc fuel) q =
    (if \<not> queue_empty q then rbind (queue_pop q) (\<lambda>(_, q). clear_loop fuel q) else Inr q)"

definition queue_clear :: "'a LockFreeQueue \<Rightarrow> 'a LockFreeQueue result" where
  "queue_clear q = clear_loop ring_buffer_size q"

text \<open>The iterator: a node pointer, advanced along \<^verbatim>\<open>next\<close> until it meets the tail.\<close>

definition queue_begin :: "'a LockFreeQueue \<Rightarrow> nat" where
  "queue_begin q = head q"

definition queue_end :: "'a LockFreeQueue \<Rightarrow> nat" where
  "queue_end q = tail q"

definition iterator_next :: "'a LockFreeQueue \<Rightarrow> nat \<Rightarrow> nat" where
  "iterator_next q current = node_next (node q current)"

definition iterator_deref :: "'a LockFreeQueue \<Rightarrow> nat \<Rightarrow> 'a result" where
  "iterator_deref q current =
    (case node_data (node q current) of None \<Rightarrow> Inl (Undefined ''null data'') | Some v \<Rightarrow> Inr v)"

fun iterate_from :: "nat \<Rightarrow> 'a LockFreeQueue \<Rightarrow> nat \<Rightarrow> 'a list result" where
  "iterate_from 0 q current = Inl Diverges"
| "iterate_from (Suc fuel) q current =
    (if current \<noteq> queue_end q then
       rbind (iterator_deref q current) (\<lambda>v.
       rbind (iterate_from fuel q (iterator_next q current)) (\<lambda>vs. Inr (v # vs)))
     else Inr [])"

subsection \<open>Representation\<close>

text \<open>
  \<open>ring_rep q h xs\<close>: the queue holds \<open>xs\<close>, and \<open>h\<close> values have been popped before them.
\<close>

definition ring_rep :: "'a LockFreeQueue \<Rightarrow> nat \<Rightarrow> 'a option list \<Rightarrow> bool" where
  "ring_rep q h xs \<longleftrightarrow>
    length (ring_buffer q) = ring_buffer_size
    \<and> (\<forall>k<ring_buffer_size. node_next (node q k) = Suc k mod ring_buffer_size)
    \<and> head q = h mod ring_buffer_size
    \<and> tail q = (h + length xs) mod ring_buffer_size
    \<and> length xs < ring_buffer_size
    \<and> (\<forall>k<length xs. node_data (node q ((h + k) mod ring_buffer_size)) = xs ! k)"

definition queue_length :: "'a LockFreeQueue \<Rightarrow> nat" where
  "queue_length q = (tail q + ring_buffer_size - head q) mod ring_buffer_size"

definition contents :: "'a LockFreeQueue \<Rightarrow> 'a option list" where
  "contents q = map (\<lambda>k. node_data (node q ((head q + k) mod ring_buffer_size))) [0..<queue_length q]"

definition queue_inv :: "'a LockFreeQueue \<Rightarrow> bool" where
  "queue_inv q \<longleftrightarrow> ring_rep q (head q) (contents q) \<and> head q < ring_buffer_size"

lemma mod_offset_eq:
  assumes "(h + i) mod n = (h + j) mod n" "i < n" "j < (n::nat)"
  shows "i = j"
proof (rule ccontr)
  have *: False if "i < j" "j < n" "(h + i) mod n = (h + j) mod n" for i j :: nat
  proof -
    from that have "n dvd (h + j) - (h + i)" by (metis mod_eq_dvd_iff_nat add_le_cancel_left less_imp_le)
    then have "n dvd j - i" by simp
    with that show False by (metis dvd_imp_le less_imp_diff_less not_le zero_less_diff)
  qed
  assume "i \<noteq> j"
  then show False using *[of i j] *[of j i] assms by (metis nat_neq_iff)
qed

lemma ring_rep_offset_eq:
  "(h + i) mod ring_buffer_size = (h + j) mod ring_buffer_size \<Longrightarrow> i < ring_buffer_size
    \<Longrightarrow> j < ring_buffer_size \<Longrightarrow> i = j"
  by (rule mod_offset_eq)

lemma ring_repD:
  assumes "ring_rep q h xs"
  shows ring_rep_size: "length (ring_buffer q) = ring_buffer_size"
    and ring_rep_link: "k < ring_buffer_size \<Longrightarrow> node_next (node q k) = Suc k mod ring_buffer_size"
    and ring_rep_head: "head q = h mod ring_buffer_size"
    and ring_rep_tail: "tail q = (h + length xs) mod ring_buffer_size"
    and ring_rep_less: "length xs < ring_buffer_size"
    and ring_rep_data: "k < length xs \<Longrightarrow> node_data (node q ((h + k) mod ring_buffer_size)) = xs ! k"
  using assms unfolding ring_rep_def by blast+

lemma ring_rep_tail_next:
  assumes "ring_rep q h xs"
  shows "node_next (node q (tail q)) = Suc (h + length xs) mod ring_buffer_size"
proof -
  have "tail q < ring_buffer_size" by (simp add: ring_rep_tail[OF assms])
  from ring_rep_link[OF assms this] show ?thesis by (simp only: ring_rep_tail[OF assms] mod_Suc_eq)
qed

lemma ring_rep_head_next:
  assumes "ring_rep q h xs"
  shows "node_next (node q (head q)) = Suc h mod ring_buffer_size"
proof -
  have "head q < ring_buffer_size" by (simp add: ring_rep_head[OF assms])
  from ring_rep_link[OF assms this] show ?thesis by (simp only: ring_rep_head[OF assms] mod_Suc_eq)
qed

lemma ring_rep_full_iff:
  assumes "ring_rep q h xs"
  shows "node_next (node q (tail q)) = head q \<longleftrightarrow> Suc (length xs) = ring_buffer_size"
proof -
  have len: "length xs < ring_buffer_size" and hd: "head q = h mod ring_buffer_size"
    using assms by (auto simp: ring_rep_def)
  have "Suc (h + length xs) mod ring_buffer_size = h mod ring_buffer_size
    \<longleftrightarrow> Suc (length xs) = ring_buffer_size"
  proof
    assume eq: "Suc (h + length xs) mod ring_buffer_size = h mod ring_buffer_size"
    show "Suc (length xs) = ring_buffer_size"
    proof (rule ccontr)
      assume "Suc (length xs) \<noteq> ring_buffer_size"
      then have "Suc (length xs) < ring_buffer_size" using len by simp
      then show False using ring_rep_offset_eq[of h "Suc (length xs)" 0] eq by simp
    qed
  qed (metis add_Suc_right mod_add_self2)
  then show ?thesis using ring_rep_tail_next[OF assms] hd by simp
qed

lemma ring_rep_empty_iff:
  assumes "ring_rep q h xs"
  shows "head q = tail q \<longleftrightarrow> xs = []"
proof
  assume "head q = tail q"
  then have "(h + 0) mod ring_buffer_size = (h + length xs) mod ring_buffer_size"
    by (simp add: ring_rep_head[OF assms] ring_rep_tail[OF assms])
  from ring_rep_offset_eq[OF this] ring_rep_less[OF assms] show "xs = []" by simp
qed (simp add: ring_rep_head[OF assms] ring_rep_tail[OF assms])

lemma set_node_data_fields [simp]:
  "head (set_node_data p d q) = head q"
  "tail (set_node_data p d q) = tail q"
  "lock_based (set_node_data p d q) = lock_based q"
  "length (ring_buffer (set_node_data p d q)) = length (ring_buffer q)"
  by (simp_all add: set_node_data_def)

lemma set_node_data_next [simp]: "node_next (node (set_node_data p d q) k) = node_next (node q k)"
  by (cases "p < length (ring_buffer q)"; cases "k = p") (simp_all add: set_node_data_def list_update_beyond)

lemma set_node_data_other [simp]: "k \<noteq> p \<Longrightarrow> node (set_node_data p d q) k = node q k"
  by (simp add: set_node_data_def)

lemma set_node_data_same [simp]:
  "p < length (ring_buffer q) \<Longrightarrow> node_data (node (set_node_data p d q) p) = d"
  by (simp add: set_node_data_def)

lemma ring_rep_set_node_data:
  assumes r: "ring_rep q h xs" and p: "\<And>k. k < length xs \<Longrightarrow> (h + k) mod ring_buffer_size \<noteq> p"
  shows "ring_rep (set_node_data p d q) h xs"
  unfolding ring_rep_def using r p by (auto simp: ring_rep_def)

lemma ring_rep_tail_free:
  assumes r: "ring_rep q h xs" and k: "k < length xs"
  shows "(h + k) mod ring_buffer_size \<noteq> tail q"
proof
  assume "(h + k) mod ring_buffer_size = tail q"
  then have "(h + k) mod ring_buffer_size = (h + length xs) mod ring_buffer_size"
    by (simp only: ring_rep_tail[OF r])
  from ring_rep_offset_eq[OF this] k ring_rep_less[OF r] show False by simp
qed

lemma ring_rep_set_tail_data: "ring_rep q h xs \<Longrightarrow> ring_rep (set_node_data (tail q) d q) h xs"
  using ring_rep_set_node_data ring_rep_tail_free by metis

lemma ring_rep_advance_tail:
  assumes r: "ring_rep q h xs" and room: "Suc (length xs) < ring_buffer_size"
    and d: "node_data (node q (tail q)) = d"
  shows "ring_rep (q\<lparr>tail := Suc (h + length xs) mod ring_buffer_size\<rparr>) h (xs @ [d])"
proof -
  have "node_data (node q ((h + k) mod ring_buffer_size)) = (xs @ [d]) ! k" if "k < Suc (length xs)" for k
    using that ring_rep_data[OF r, of k] d ring_rep_tail[OF r] by (cases "k = length xs") (simp_all add: nth_append)
  then show ?thesis using room r by (simp add: ring_rep_def)
qed

lemma ring_rep_advance_head:
  assumes r: "ring_rep q h (x # xs)"
  shows "ring_rep (q\<lparr>head := Suc h mod ring_buffer_size\<rparr>) (Suc h) xs"
proof -
  have "node_data (node q ((Suc h + k) mod ring_buffer_size)) = xs ! k" if "k < length xs" for k
    using that ring_rep_data[OF r, of "Suc k"] by simp
  then show ?thesis using r by (simp add: ring_rep_def)
qed

lemma ring_rep_passed_slot:
  assumes r: "ring_rep q (Suc h) xs" and k: "k < length xs"
  shows "(Suc h + k) mod ring_buffer_size \<noteq> h mod ring_buffer_size"
proof
  assume "(Suc h + k) mod ring_buffer_size = h mod ring_buffer_size"
  then have "(h + Suc k) mod ring_buffer_size = (h + 0) mod ring_buffer_size" by simp
  from ring_rep_offset_eq[OF this] k ring_rep_less[OF r] show False by simp
qed

lemma ring_rep_passed_tail:
  assumes r: "ring_rep q (Suc h) xs" and room: "Suc (length xs) < ring_buffer_size"
  shows "h mod ring_buffer_size \<noteq> tail q"
proof
  assume "h mod ring_buffer_size = tail q"
  then have "(h + 0) mod ring_buffer_size = (h + Suc (length xs)) mod ring_buffer_size"
    by (simp add: ring_rep_tail[OF r])
  from ring_rep_offset_eq[OF this] room show False by simp
qed

lemma ring_rep_reset_passed:
  "ring_rep q (Suc h) xs \<Longrightarrow> ring_rep (set_node_data (h mod ring_buffer_size) d q) (Suc h) xs"
  using ring_rep_set_node_data ring_rep_passed_slot by metis

lemma queue_length_rep:
  assumes r: "ring_rep q h xs"
  shows "queue_length q = length xs"
proof -
  let ?n = ring_buffer_size
  have le: "h mod ?n \<le> ?n" by (simp add: less_imp_le)
  have "queue_length q = ((h + length xs) mod ?n + (?n - h mod ?n)) mod ?n"
    unfolding queue_length_def ring_rep_head[OF r] ring_rep_tail[OF r] add_diff_assoc[OF le] by (rule refl)
  also have "\<dots> = (h mod ?n + (length xs + (?n - h mod ?n))) mod ?n"
    unfolding mod_add_left_eq by (simp only: add.assoc)
  also have "h mod ?n + (length xs + (?n - h mod ?n)) = length xs + ?n"
    using le by linarith
  also have "(length xs + ?n) mod ?n = length xs"
    using ring_rep_less[OF r] by simp
  finally show ?thesis .
qed

lemma contents_rep:
  assumes r: "ring_rep q h xs"
  shows "contents q = xs"
proof (rule nth_equalityI)
  show len: "length (contents q) = length xs" by (simp add: contents_def queue_length_rep[OF r])
  fix k assume "k < length (contents q)"
  then have "k < length xs" by (simp only: len)
  then show "contents q ! k = xs ! k"
    using ring_rep_data[OF r, of k] by (simp add: contents_def queue_length_rep[OF r] ring_rep_head[OF r] mod_add_left_eq)
qed

lemma queue_inv_rep: "ring_rep q h xs \<Longrightarrow> queue_inv q"
  using contents_rep[of q h xs] by (simp add: queue_inv_def ring_rep_def mod_add_left_eq)

lemma queue_invE: "queue_inv q \<Longrightarrow> ring_rep q (head q) (contents q)"
  by (simp add: queue_inv_def)

lemma new_LockFreeQueue_rep: "ring_rep new_LockFreeQueue 0 []"
proof -
  have "Suc k mod ring_buffer_size = (if k < ring_buffer_size - 1 then k + 1 else 0)"
    if "k < ring_buffer_size" for k
    using that by (auto simp: mod_Suc)
  then show ?thesis by (simp add: ring_rep_def new_LockFreeQueue_def)
qed

subsection \<open>The operations as a bounded first-in first-out queue\<close>

lemma push_ptr_rep:
  assumes r: "ring_rep q h xs" and room: "Suc (length xs) < ring_buffer_size"
  shows "\<exists>q'. push_ptr d q = Inr q' \<and> ring_rep q' h (xs @ [d])"
proof -
  let ?q = "set_node_data (tail q) d q"
  have r': "ring_rep ?q h xs" by (rule ring_rep_set_tail_data[OF r])
  have tl: "tail q < length (ring_buffer q)"
    by (simp add: ring_rep_size[OF r] ring_rep_tail[OF r])
  have "node_data (node ?q (tail ?q)) = d" using tl by simp
  from ring_rep_advance_tail[OF r' room this]
  have "ring_rep (?q\<lparr>tail := Suc (h + length xs) mod ring_buffer_size\<rparr>) h (xs @ [d])" .
  moreover have "node_next (node q (tail q)) \<noteq> head q"
    using ring_rep_full_iff[OF r] room by simp
  ultimately show ?thesis
    by (simp add: push_ptr_def Let_def ring_rep_tail_next[OF r])
qed

lemma push_ptr_full:
  "ring_rep q h xs \<Longrightarrow> Suc (length xs) = ring_buffer_size \<Longrightarrow> push_ptr d q = Inl Diverges"
  by (simp add: push_ptr_def ring_rep_full_iff)

lemma queue_pop_rep:
  assumes r: "ring_rep q h (x # xs)"
  shows "\<exists>q'. queue_pop q = Inr (x, q') \<and> ring_rep q' (Suc h) xs
    \<and> node_data (node q' (h mod ring_buffer_size)) = None"
proof -
  let ?q = "q\<lparr>head := Suc h mod ring_buffer_size\<rparr>"
  let ?p = "h mod ring_buffer_size"
  have ne: "head q \<noteq> tail q" using ring_rep_empty_iff[OF r] by simp
  have x: "node_data (node q ?p) = x" using ring_rep_data[OF r, of 0] by simp
  have lt: "?p < length (ring_buffer ?q)" using ring_rep_size[OF r] by simp
  have pop: "queue_pop q = Inr (x, set_node_data ?p None ?q)"
    using ne x ring_rep_head_next[OF r] ring_rep_head[OF r]
    by (simp add: queue_pop_def pop_head_def Let_def)
  have "ring_rep (set_node_data ?p None ?q) (Suc h) xs"
    by (rule ring_rep_reset_passed[OF ring_rep_advance_head[OF r]])
  with pop set_node_data_same[OF lt] show ?thesis by blast
qed

lemma queue_pop_empty: "ring_rep q h [] \<Longrightarrow> queue_pop q = Inl (Undefined ''pop of an empty queue'')"
  using ring_rep_empty_iff[of q h "[]"] by (simp add: queue_pop_def pop_head_def)

text \<open>The contract: a queue of bounded capacity whose client sees only its contents.\<close>

locale fifo_queue =
  fixes inv :: "'s \<Rightarrow> bool"
    and elems :: "'s \<Rightarrow> 'v list"
    and capacity :: nat
    and enq :: "'v \<Rightarrow> 's \<Rightarrow> 's result"
    and deq :: "'s \<Rightarrow> ('v \<times> 's) result"
    and is_empty :: "'s \<Rightarrow> bool"
  assumes enq_ok: "inv s \<Longrightarrow> length (elems s) < capacity
      \<Longrightarrow> \<exists>s'. enq v s = Inr s' \<and> inv s' \<and> elems s' = elems s @ [v]"
    and enq_full: "inv s \<Longrightarrow> length (elems s) = capacity \<Longrightarrow> enq v s = Inl Diverges"
    and deq_ok: "inv s \<Longrightarrow> elems s = v # vs
      \<Longrightarrow> \<exists>s'. deq s = Inr (v, s') \<and> inv s' \<and> elems s' = vs"
    and deq_empty: "inv s \<Longrightarrow> elems s = [] \<Longrightarrow> \<exists>e. deq s = Inl (Undefined e)"
    and empty_iff: "inv s \<Longrightarrow> is_empty s \<longleftrightarrow> elems s = []"
    and bounded: "inv s \<Longrightarrow> length (elems s) \<le> capacity"
begin

lemma enq_returns_iff: "inv s \<Longrightarrow> (\<exists>s'. enq v s = Inr s') \<longleftrightarrow> length (elems s) < capacity"
  using enq_ok[of s v] enq_full[of s v] bounded[of s] by fastforce

lemma enq_elems: "inv s \<Longrightarrow> enq v s = Inr s' \<Longrightarrow> inv s' \<and> elems s' = elems s @ [v]"
  using enq_ok[of s v] enq_returns_iff[of s v] by fastforce

lemma deq_returns_iff: "inv s \<Longrightarrow> (\<exists>r. deq s = Inr r) \<longleftrightarrow> \<not> is_empty s"
  using deq_ok[of s] deq_empty[of s] empty_iff[of s] by (cases "elems s") fastforce+

lemma deq_elems: "inv s \<Longrightarrow> deq s = Inr (v, s') \<Longrightarrow> inv s' \<and> elems s = v # elems s'"
  using deq_ok[of s] deq_empty[of s] by (cases "elems s") fastforce+

lemma enq_not_empty: "inv s \<Longrightarrow> enq v s = Inr s' \<Longrightarrow> \<not> is_empty s'"
  using enq_elems[of s v s'] empty_iff[of s'] by simp

end

interpretation lfq: fifo_queue queue_inv contents "ring_buffer_size - 1" push_ptr queue_pop queue_empty
proof unfold_locales
  fix q :: "'a LockFreeQueue" and d
  assume inv: "queue_inv q"
  note r = queue_invE[OF inv]
  show "\<exists>q'. push_ptr d q = Inr q' \<and> queue_inv q' \<and> contents q' = contents q @ [d]"
    if "length (contents q) < ring_buffer_size - 1"
    using push_ptr_rep[OF r, of d] that queue_inv_rep contents_rep by (metis less_diff_conv Suc_eq_plus1)
  show "push_ptr d q = Inl Diverges" if "length (contents q) = ring_buffer_size - 1"
    by (rule push_ptr_full[OF r]) (simp add: that)
  show "\<exists>q'. queue_pop q = Inr (v, q') \<and> queue_inv q' \<and> contents q' = vs"
    if "contents q = v # vs" for v vs
    using queue_pop_rep[of q "head q" v vs] r that queue_inv_rep contents_rep by metis
  show "\<exists>e. queue_pop q = Inl (Undefined e)" if "contents q = []"
    using queue_pop_empty[of q "head q"] r that by simp
  show "queue_empty q = (contents q = [])"
    using ring_rep_empty_iff[OF r] by (simp add: queue_empty_def)
  show "length (contents q) \<le> ring_buffer_size - 1"
    using ring_rep_less[OF r] by simp
qed

lemma clear_loop_empties:
  "ring_rep q h xs \<Longrightarrow> length xs < fuel
    \<Longrightarrow> \<exists>q'. clear_loop fuel q = Inr q' \<and> ring_rep q' (h + length xs) []"
proof (induction xs arbitrary: q h fuel)
  case Nil
  then show ?case using ring_rep_empty_iff[OF Nil.prems(1)] by (cases fuel) (auto simp: queue_empty_def)
next
  case (Cons x xs)
  from Cons.prems(2) obtain f where f: "fuel = Suc f" "length xs < f" by (cases fuel) auto
  obtain q' where q': "queue_pop q = Inr (x, q')" "ring_rep q' (Suc h) xs"
    using queue_pop_rep[OF Cons.prems(1)] by blast
  from Cons.IH[OF q'(2) f(2)] q'(1) show ?case
    using ring_rep_empty_iff[OF Cons.prems(1)] f(1) by (simp add: queue_empty_def)
qed

lemma queue_clear_empties:
  assumes "queue_inv q"
  shows "\<exists>q'. queue_clear q = Inr q' \<and> queue_inv q' \<and> contents q' = []"
  using clear_loop_empties[OF queue_invE[OF assms] ring_rep_less[OF queue_invE[OF assms]]]
    queue_inv_rep contents_rep unfolding queue_clear_def by metis

lemma iterate_from_rep:
  "ring_rep q h (map Some (us @ vs)) \<Longrightarrow> length vs < fuel
    \<Longrightarrow> iterate_from fuel q ((h + length us) mod ring_buffer_size) = Inr vs"
proof (induction vs arbitrary: us fuel)
  case Nil
  then show ?case using ring_rep_tail[OF Nil.prems(1)] by (cases fuel) (auto simp: queue_end_def)
next
  case (Cons v vs)
  let ?p = "(h + length us) mod ring_buffer_size"
  from Cons.prems(2) obtain f where f: "fuel = Suc f" "length vs < f" by (cases fuel) auto
  have ne: "?p \<noteq> tail q" by (rule ring_rep_tail_free[OF Cons.prems(1)]) simp
  have d: "node_data (node q ?p) = Some v"
    using ring_rep_data[OF Cons.prems(1), of "length us"] by (simp add: nth_append)
  have "?p < ring_buffer_size" by simp
  from ring_rep_link[OF Cons.prems(1) this]
  have n: "iterator_next q ?p = (h + length (us @ [v])) mod ring_buffer_size"
    by (simp add: iterator_next_def mod_Suc_eq)
  have "iterate_from f q ((h + length (us @ [v])) mod ring_buffer_size) = Inr vs"
    by (rule Cons.IH) (use Cons.prems(1) f(2) in simp_all)
  with ne d n f(1) show ?case by (simp add: queue_end_def iterator_deref_def)
qed

lemma iterate_contents:
  assumes inv: "queue_inv q" and c: "contents q = map Some vs"
  shows "iterate_from ring_buffer_size q (queue_begin q) = Inr vs"
  using iterate_from_rep[of q "head q" "[]" vs ring_buffer_size] queue_invE[OF inv] c inv
    ring_rep_less[OF queue_invE[OF inv]]
  by (simp add: queue_begin_def queue_inv_def)

end
