(* ===== verification/Lock_Free_Queue_Threads.thy ===== *)
theory Lock_Free_Queue_Threads
  imports Lock_Free_Queue
begin

text \<open>
  The queue of \<^verbatim>\<open>lock_free_queue.hpp\<close> under concurrency.

  Writers run \<^verbatim>\<open>push\<close>, one reader runs \<^verbatim>\<open>empty\<close> and \<^verbatim>\<open>pop\<close>.  Each atomic load and store, each
  access to the \<^verbatim>\<open>data\<close> of a node and each lock operation is one step; \<open>writer\<close> and \<open>reader\<close> say
  what a thread has read so far and what it does next.  The operands of \<^verbatim>\<open>==\<close> are loaded in either
  order, as C++ leaves it open.  \<open>pushed\<close> and \<open>popped\<close> are history variables: the values in the
  order in which the tail passed them, and the results of the completed calls of \<^verbatim>\<open>pop\<close>.  The
  atomics are sequentially consistent, as in the source (\<^verbatim>\<open>load\<close> and \<^verbatim>\<open>store\<close> without an order).
\<close>

subsection \<open>Threads\<close>

datatype 'a writer =
    W_idle
  | W_lock "'a option"
  | W_test "'a option" "nat option" "nat option"
  | W_data "'a option"
  | W_store "'a option" nat
  | W_advance "'a option"
  | W_set "'a option" nat
  | W_unlock

datatype 'a reader =
    R_idle bool
  | R_empty "nat option" "nat option"
  | R_head bool
  | R_tail bool nat
  | R_null bool
  | R_next nat
  | R_set nat nat
  | R_read nat
  | R_reset nat "'a option"

record 'a queue_run =
  shared :: "'a LockFreeQueue"
  mutex :: "nat option"
  writer :: "nat \<Rightarrow> 'a writer"
  reader :: "'a reader"
  pushed :: "'a option list"
  popped :: "'a option list"

definition run_start :: "'a LockFreeQueue \<Rightarrow> 'a queue_run" where
  "run_start q = \<lparr>shared = q, mutex = None, writer = (\<lambda>_. W_idle), reader = R_idle False,
    pushed = [], popped = []\<rparr>"

definition put_writer :: "nat \<Rightarrow> 'a writer \<Rightarrow> 'a queue_run \<Rightarrow> 'a queue_run" where
  "put_writer i w s = s\<lparr>writer := (writer s)(i := w)\<rparr>"

text \<open>
  \<^verbatim>\<open>push\<close>, by a writer among \<open>ws\<close>.  \<^verbatim>\<open>lock_func\<close> and \<^verbatim>\<open>unlock_func\<close> do nothing in a lock-free queue.
\<close>

inductive push_step :: "nat set \<Rightarrow> nat \<Rightarrow> 'a queue_run \<Rightarrow> 'a queue_run \<Rightarrow> bool" for ws i where
  push_call: "i \<in> ws \<Longrightarrow> writer s i = W_idle \<Longrightarrow> push_step ws i s (put_writer i (W_lock d) s)"
| push_lock: "writer s i = W_lock d \<Longrightarrow> lock_based (shared s) \<Longrightarrow> mutex s = None
    \<Longrightarrow> push_step ws i s (put_writer i (W_test d None None) (s\<lparr>mutex := Some i\<rparr>))"
| push_no_lock: "writer s i = W_lock d \<Longrightarrow> \<not> lock_based (shared s)
    \<Longrightarrow> push_step ws i s (put_writer i (W_test d None None) s)"
| push_load_next: "writer s i = W_test d None h
    \<Longrightarrow> push_step ws i s
      (put_writer i (W_test d (Some (node_next (node (shared s) (tail (shared s))))) h) s)"
| push_load_head: "writer s i = W_test d n None
    \<Longrightarrow> push_step ws i s (put_writer i (W_test d n (Some (head (shared s)))) s)"
| push_stall: "writer s i = W_test d (Some n) (Some h) \<Longrightarrow> n = h
    \<Longrightarrow> push_step ws i s (put_writer i (W_test d None None) s)"
| push_go: "writer s i = W_test d (Some n) (Some h) \<Longrightarrow> n \<noteq> h
    \<Longrightarrow> push_step ws i s (put_writer i (W_data d) s)"
| push_load_tail: "writer s i = W_data d
    \<Longrightarrow> push_step ws i s (put_writer i (W_store d (tail (shared s))) s)"
| push_store: "writer s i = W_store d t
    \<Longrightarrow> push_step ws i s (put_writer i (W_advance d) (s\<lparr>shared := set_node_data t d (shared s)\<rparr>))"
| push_load_advance: "writer s i = W_advance d
    \<Longrightarrow> push_step ws i s
      (put_writer i (W_set d (node_next (node (shared s) (tail (shared s))))) s)"
| push_set_tail: "writer s i = W_set d n
    \<Longrightarrow> push_step ws i s (put_writer i W_unlock
      (s\<lparr>shared := (shared s)\<lparr>tail := n\<rparr>, pushed := pushed s @ [d]\<rparr>))"
| push_unlock: "writer s i = W_unlock \<Longrightarrow> lock_based (shared s)
    \<Longrightarrow> push_step ws i s (put_writer i W_idle (s\<lparr>mutex := None\<rparr>))"
| push_no_unlock: "writer s i = W_unlock \<Longrightarrow> \<not> lock_based (shared s)
    \<Longrightarrow> push_step ws i s (put_writer i W_idle s)"

text \<open>
  \<^verbatim>\<open>empty\<close> and \<^verbatim>\<open>pop\<close>.  The flag of \<open>R_idle\<close> records that the last call was an \<^verbatim>\<open>empty\<close> that
  returned false; \<open>R_null\<close> is the dereference of the null pointer that \<^verbatim>\<open>pop_head\<close> returned.
\<close>

inductive pop_step :: "'a queue_run \<Rightarrow> 'a queue_run \<Rightarrow> bool" where
  empty_call: "reader s = R_idle b \<Longrightarrow> pop_step s (s\<lparr>reader := R_empty None None\<rparr>)"
| empty_load_head: "reader s = R_empty None t
    \<Longrightarrow> pop_step s (s\<lparr>reader := R_empty (Some (head (shared s))) t\<rparr>)"
| empty_load_tail: "reader s = R_empty h None
    \<Longrightarrow> pop_step s (s\<lparr>reader := R_empty h (Some (tail (shared s)))\<rparr>)"
| empty_return: "reader s = R_empty (Some h) (Some t)
    \<Longrightarrow> pop_step s (s\<lparr>reader := R_idle (h \<noteq> t)\<rparr>)"
| pop_call: "reader s = R_idle b \<Longrightarrow> pop_step s (s\<lparr>reader := R_head b\<rparr>)"
| pop_load_head: "reader s = R_head b \<Longrightarrow> pop_step s (s\<lparr>reader := R_tail b (head (shared s))\<rparr>)"
| pop_test: "reader s = R_tail b h
    \<Longrightarrow> pop_step s (s\<lparr>reader := if h = tail (shared s) then R_null b else R_next h\<rparr>)"
| pop_load_next: "reader s = R_next h
    \<Longrightarrow> pop_step s (s\<lparr>reader := R_set h (node_next (node (shared s) h))\<rparr>)"
| pop_set_head: "reader s = R_set h n
    \<Longrightarrow> pop_step s (s\<lparr>reader := R_read h, shared := (shared s)\<lparr>head := n\<rparr>\<rparr>)"
| pop_read: "reader s = R_read h
    \<Longrightarrow> pop_step s (s\<lparr>reader := R_reset h (node_data (node (shared s) h))\<rparr>)"
| pop_reset: "reader s = R_reset h r
    \<Longrightarrow> pop_step s (s\<lparr>reader := R_idle False, shared := set_node_data h None (shared s),
      popped := popped s @ [r]\<rparr>)"

inductive queue_steps :: "nat set \<Rightarrow> 'a queue_run \<Rightarrow> 'a queue_run \<Rightarrow> bool" for ws s where
  steps_none: "queue_steps ws s s"
| steps_push: "queue_steps ws s s' \<Longrightarrow> push_step ws i s' s'' \<Longrightarrow> queue_steps ws s s''"
| steps_pop: "queue_steps ws s s' \<Longrightarrow> pop_step s' s'' \<Longrightarrow> queue_steps ws s s''"

subsection \<open>Invariant\<close>

definition consumed :: "'a queue_run \<Rightarrow> nat" where
  "consumed s = length (popped s) + (case reader s of R_read _ \<Rightarrow> 1 | R_reset _ _ \<Rightarrow> 1 | _ \<Rightarrow> 0)"

fun writer_ok :: "'a LockFreeQueue \<Rightarrow> nat \<Rightarrow> 'a option list \<Rightarrow> 'a writer \<Rightarrow> bool" where
  "writer_ok q c ps (W_test d n h) \<longleftrightarrow>
    (\<forall>n'. n = Some n' \<longrightarrow> n' = Suc (length ps) mod ring_buffer_size)
    \<and> (\<forall>h'. h = Some h' \<longrightarrow> (\<exists>j\<le>c. length ps < j + ring_buffer_size \<and> h' = j mod ring_buffer_size))"
| "writer_ok q c ps (W_data d) \<longleftrightarrow> Suc (length ps) < c + ring_buffer_size"
| "writer_ok q c ps (W_store d t) \<longleftrightarrow> Suc (length ps) < c + ring_buffer_size \<and> t = tail q"
| "writer_ok q c ps (W_advance d) \<longleftrightarrow> Suc (length ps) < c + ring_buffer_size
    \<and> node_data (node q (tail q)) = d"
| "writer_ok q c ps (W_set d n) \<longleftrightarrow> Suc (length ps) < c + ring_buffer_size
    \<and> node_data (node q (tail q)) = d \<and> n = Suc (length ps) mod ring_buffer_size"
| "writer_ok q c ps _ \<longleftrightarrow> True"

fun reader_ok :: "'a LockFreeQueue \<Rightarrow> nat \<Rightarrow> 'a option list \<Rightarrow> 'a reader \<Rightarrow> bool" where
  "reader_ok q np ps (R_idle b) \<longleftrightarrow> (b \<longrightarrow> np < length ps)"
| "reader_ok q np ps (R_empty h t) \<longleftrightarrow> (\<forall>h'. h = Some h' \<longrightarrow> h' = head q)
    \<and> (\<forall>t'. t = Some t' \<longrightarrow> t' \<noteq> head q \<longrightarrow> np < length ps)"
| "reader_ok q np ps (R_head b) \<longleftrightarrow> (b \<longrightarrow> np < length ps)"
| "reader_ok q np ps (R_tail b h) \<longleftrightarrow> (b \<longrightarrow> np < length ps) \<and> h = head q"
| "reader_ok q np ps (R_null b) \<longleftrightarrow> \<not> b"
| "reader_ok q np ps (R_next h) \<longleftrightarrow> np < length ps \<and> h = head q"
| "reader_ok q np ps (R_set h n) \<longleftrightarrow> np < length ps \<and> h = head q
    \<and> n = Suc np mod ring_buffer_size"
| "reader_ok q np ps (R_read h) \<longleftrightarrow> h = np mod ring_buffer_size \<and> node_data (node q h) = ps ! np"
| "reader_ok q np ps (R_reset h r) \<longleftrightarrow> h = np mod ring_buffer_size \<and> r = ps ! np"

fun busy :: "'a writer \<Rightarrow> bool" where
  "busy W_idle = False"
| "busy (W_lock d) = False"
| "busy _ = True"

definition one_at_a_time :: "nat set \<Rightarrow> 'a queue_run \<Rightarrow> bool" where
  "one_at_a_time ws s \<longleftrightarrow>
    (if lock_based (shared s) then (\<forall>i. busy (writer s i) \<longrightarrow> mutex s = Some i)
     else (\<forall>i\<in>ws. \<forall>j\<in>ws. i = j) \<and> (\<forall>i. i \<notin> ws \<longrightarrow> writer s i = W_idle))"

definition run_inv :: "nat set \<Rightarrow> 'a queue_run \<Rightarrow> bool" where
  "run_inv ws s \<longleftrightarrow>
    consumed s \<le> length (pushed s)
    \<and> ring_rep (shared s) (consumed s) (drop (consumed s) (pushed s))
    \<and> popped s = take (length (popped s)) (pushed s)
    \<and> reader_ok (shared s) (length (popped s)) (pushed s) (reader s)
    \<and> (\<forall>i. writer_ok (shared s) (consumed s) (pushed s) (writer s i))
    \<and> one_at_a_time ws s"

lemma run_start_inv:
  assumes "lock_based q \<or> (\<forall>i\<in>ws. \<forall>j\<in>ws. i = j)" "ring_rep q 0 []"
  shows "run_inv ws (run_start q)"
  using assms by (auto simp: run_inv_def run_start_def consumed_def one_at_a_time_def)

lemma one_busy:
  assumes o: "one_at_a_time ws s" and i: "busy (writer s i)" and j: "busy (writer s j)"
  shows "i = j"
proof (cases "lock_based (shared s)")
  case True
  then have "mutex s = Some k" if "busy (writer s k)" for k
    using o that unfolding one_at_a_time_def by simp
  from this[OF i] this[OF j] show ?thesis by simp
next
  case False
  then have "i \<in> ws" "j \<in> ws" using o i j by (auto simp: one_at_a_time_def)
  with False o show ?thesis by (auto simp: one_at_a_time_def)
qed

lemma writer_ok_not_busy: "\<not> busy w \<Longrightarrow> writer_ok q c ps w"
  by (cases w) auto

text \<open>A step of the writer in its critical section changes nothing another writer relies on.\<close>

lemma put_writer_fields [simp]:
  "shared (put_writer i w s) = shared s"
  "mutex (put_writer i w s) = mutex s"
  "reader (put_writer i w s) = reader s"
  "pushed (put_writer i w s) = pushed s"
  "popped (put_writer i w s) = popped s"
  "writer (put_writer i w s) j = (if j = i then w else writer s j)"
  "consumed (put_writer i w s) = consumed s"
  by (simp_all add: put_writer_def consumed_def)

lemma consumed_more [simp]:
  "consumed (s\<lparr>shared := q\<rparr>) = consumed s"
  "consumed (s\<lparr>mutex := m\<rparr>) = consumed s"
  "consumed (s\<lparr>pushed := ps\<rparr>) = consumed s"
  by (simp_all add: consumed_def)

lemma run_invD:
  assumes "run_inv ws s"
  shows run_inv_consumed: "consumed s \<le> length (pushed s)"
    and run_inv_rep: "ring_rep (shared s) (consumed s) (drop (consumed s) (pushed s))"
    and run_inv_popped: "popped s = take (length (popped s)) (pushed s)"
    and run_inv_reader: "reader_ok (shared s) (length (popped s)) (pushed s) (reader s)"
    and run_inv_writer: "writer_ok (shared s) (consumed s) (pushed s) (writer s i)"
    and run_inv_one: "one_at_a_time ws s"
  using assms unfolding run_inv_def by blast+

lemma run_inv_tail: "run_inv ws s \<Longrightarrow> tail (shared s) = length (pushed s) mod ring_buffer_size"
  using ring_rep_tail[OF run_inv_rep] run_inv_consumed by fastforce

lemma run_inv_head: "run_inv ws s \<Longrightarrow> head (shared s) = consumed s mod ring_buffer_size"
  using ring_rep_head[OF run_inv_rep] by blast

lemma run_inv_tail_next:
  "run_inv ws s \<Longrightarrow> node_next (node (shared s) (tail (shared s))) = Suc (length (pushed s)) mod ring_buffer_size"
  using ring_rep_tail_next[OF run_inv_rep] run_inv_consumed by fastforce

lemma run_inv_member: "run_inv ws s \<Longrightarrow> \<not> lock_based (shared s) \<Longrightarrow> writer s i \<noteq> W_idle \<Longrightarrow> i \<in> ws"
  using run_inv_one by (fastforce simp: one_at_a_time_def)

lemma run_inv_put_writer:
  assumes inv: "run_inv ws s" and ok: "writer_ok (shared s) (consumed s) (pushed s) w"
    and lk: "lock_based (shared s) \<Longrightarrow> busy w \<Longrightarrow> mutex s = Some i"
    and mem: "\<not> lock_based (shared s) \<Longrightarrow> i \<in> ws"
  shows "run_inv ws (put_writer i w s)"
proof -
  have "one_at_a_time ws (put_writer i w s)"
    using run_inv_one[OF inv] lk mem by (auto simp: one_at_a_time_def)
  with inv ok show ?thesis by (simp add: run_inv_def)
qed

lemma run_inv_set_busy:
  assumes inv: "run_inv ws s" and b: "busy (writer s i)"
    and ok: "writer_ok (shared s) (consumed s) (pushed s) w"
  shows "run_inv ws (put_writer i w s)"
proof (rule run_inv_put_writer[OF inv ok])
  show "mutex s = Some i" if "lock_based (shared s)"
    using run_inv_one[OF inv] that b by (simp add: one_at_a_time_def)
  show "i \<in> ws" if "\<not> lock_based (shared s)"
    using run_inv_member[OF inv that, of i] b by fastforce
qed

lemma run_inv_full_test:
  assumes inv: "run_inv ws s" and w: "writer s i = W_test d (Some n) (Some h)" and ne: "n \<noteq> h"
  shows "Suc (length (pushed s)) < consumed s + ring_buffer_size"
proof -
  from run_inv_writer[OF inv, of i] w obtain j where
    n: "n = Suc (length (pushed s)) mod ring_buffer_size" and j: "j \<le> consumed s"
    "length (pushed s) < j + ring_buffer_size" "h = j mod ring_buffer_size" by auto
  have "Suc (length (pushed s)) \<noteq> j + ring_buffer_size" using n j(3) ne by auto
  then show ?thesis using j by linarith
qed

lemma other_writers_idle:
  assumes "run_inv ws s" "busy (writer s i)" "j \<noteq> i"
  shows "writer_ok q c ps (writer s j)"
  using one_busy[OF run_inv_one[OF assms(1)] assms(2)] assms(3) writer_ok_not_busy by metis

lemma reader_slot_not_tail:
  assumes inv: "run_inv ws s" and room: "Suc (length (pushed s)) < consumed s + ring_buffer_size"
    and r: "consumed s = Suc (length (popped s))"
  shows "length (popped s) mod ring_buffer_size \<noteq> tail (shared s)"
  using ring_rep_passed_tail[of "shared s" "length (popped s)"] run_inv_rep[OF inv] room r
    run_inv_consumed[OF inv] by simp

lemma push_store_inv:
  assumes inv: "run_inv ws s" and w: "writer s i = W_store d t"
  shows "run_inv ws (put_writer i (W_advance d) (s\<lparr>shared := set_node_data t d (shared s)\<rparr>))"
proof -
  let ?q = "set_node_data t d (shared s)"
  from run_inv_writer[OF inv, of i] w
  have room: "Suc (length (pushed s)) < consumed s + ring_buffer_size" and t: "t = tail (shared s)" by auto
  have tl: "tail (shared s) < length (ring_buffer (shared s))"
    using ring_rep_size[OF run_inv_rep[OF inv]] run_inv_tail[OF inv] by simp
  have b: "busy (writer s i)" using w by simp
  have "ring_rep ?q (consumed s) (drop (consumed s) (pushed s))"
    unfolding t by (rule ring_rep_set_tail_data[OF run_inv_rep[OF inv]])
  moreover have "reader_ok ?q (length (popped s)) (pushed s) (reader s)"
    using run_inv_reader[OF inv] reader_slot_not_tail[OF inv room] t
    by (cases "reader s") (auto simp: consumed_def)
  moreover have "\<forall>j. writer_ok ?q (consumed s) (pushed s) (if j = i then W_advance d else writer s j)"
    using room t tl other_writers_idle[OF inv b] by simp
  moreover have "one_at_a_time ws (put_writer i (W_advance d) (s\<lparr>shared := ?q\<rparr>))"
    using run_inv_one[OF inv] w by (force simp: one_at_a_time_def)
  ultimately show ?thesis using run_inv_consumed[OF inv] run_inv_popped[OF inv]
    by (simp add: run_inv_def del: writer_ok.simps split del: if_split cong del: if_weak_cong)
qed

lemma push_set_tail_inv:
  assumes inv: "run_inv ws s" and w: "writer s i = W_set d n"
  shows "run_inv ws (put_writer i W_unlock
    (s\<lparr>shared := (shared s)\<lparr>tail := n\<rparr>, pushed := pushed s @ [d]\<rparr>))"
proof -
  let ?q = "(shared s)\<lparr>tail := n\<rparr>"
  let ?c = "consumed s"
  from run_inv_writer[OF inv, of i] w
  have room: "Suc (length (pushed s)) < ?c + ring_buffer_size"
    and d: "node_data (node (shared s) (tail (shared s))) = d"
    and n: "n = Suc (length (pushed s)) mod ring_buffer_size" by auto
  note le = run_inv_consumed[OF inv]
  have b: "busy (writer s i)" using w by simp
  have "ring_rep ?q ?c (drop ?c (pushed s @ [d]))"
    using ring_rep_advance_tail[OF run_inv_rep[OF inv] _ d] room le n by simp
  moreover have "popped s = take (length (popped s)) (pushed s @ [d])"
    using run_inv_popped[OF inv] le by (simp add: consumed_def)
  moreover have "reader_ok ?q (length (popped s)) (pushed s @ [d]) (reader s)"
    using run_inv_reader[OF inv] le
    by (cases "reader s") (auto simp: consumed_def nth_append)
  moreover have "\<forall>j. writer_ok ?q ?c (pushed s @ [d]) (if j = i then W_unlock else writer s j)"
    using other_writers_idle[OF inv b] by simp
  moreover have "one_at_a_time ws (put_writer i W_unlock
      (s\<lparr>shared := ?q, pushed := pushed s @ [d]\<rparr>))"
    using run_inv_one[OF inv] w by (force simp: one_at_a_time_def)
  ultimately show ?thesis using le
    by (simp add: run_inv_def del: writer_ok.simps take_append split del: if_split cong del: if_weak_cong)
qed

lemma push_step_inv:
  assumes inv: "run_inv ws s" and st: "push_step ws i s s'"
  shows "run_inv ws s'"
  using st
proof cases
  case (push_call d)
  then show ?thesis using run_inv_put_writer[OF inv, of "W_lock d" i] by simp
next
  case (push_lock d)
  have free: "\<not> busy (writer s j)" for j
    using run_inv_one[OF inv] push_lock by (auto simp: one_at_a_time_def)
  have "run_inv ws (s\<lparr>mutex := Some i\<rparr>)"
    using inv free by (simp add: run_inv_def one_at_a_time_def)
  from run_inv_put_writer[OF this, of "W_test d None None" i] show ?thesis
    using push_lock by simp
next
  case (push_no_lock d)
  then show ?thesis
    using run_inv_put_writer[OF inv, of "W_test d None None" i] run_inv_member[OF inv] by simp
next
  case (push_load_next d h)
  then show ?thesis using run_inv_writer[OF inv, of i]
    by (auto intro!: run_inv_set_busy[OF inv] simp: run_inv_tail_next[OF inv])
next
  case (push_load_head d n)
  have "length (pushed s) < consumed s + ring_buffer_size"
    using ring_rep_less[OF run_inv_rep[OF inv]] by simp
  with push_load_head show ?thesis using run_inv_writer[OF inv, of i]
    by (auto intro!: run_inv_set_busy[OF inv] exI[of _ "consumed s"] simp: run_inv_head[OF inv])
next
  case (push_stall d n h)
  then show ?thesis by (auto intro!: run_inv_set_busy[OF inv])
next
  case (push_go d n h)
  then show ?thesis using run_inv_full_test[OF inv push_go(2,3)] by (auto intro!: run_inv_set_busy[OF inv])
next
  case (push_load_tail d)
  then show ?thesis using run_inv_writer[OF inv, of i] by (auto intro!: run_inv_set_busy[OF inv])
next
  case (push_store d t)
  then show ?thesis using push_store_inv[OF inv] by simp
next
  case (push_load_advance d)
  then show ?thesis using run_inv_writer[OF inv, of i]
    by (auto intro!: run_inv_set_busy[OF inv] simp: run_inv_tail_next[OF inv])
next
  case (push_set_tail d n)
  then show ?thesis using push_set_tail_inv[OF inv] by simp
next
  case push_unlock
  have "mutex s = Some i" using run_inv_one[OF inv] push_unlock by (simp add: one_at_a_time_def)
  then have free: "\<not> busy (writer s j)" if "j \<noteq> i" for j
    using run_inv_one[OF inv] push_unlock that by (auto simp: one_at_a_time_def)
  have "one_at_a_time ws s'" using free push_unlock by (auto simp: one_at_a_time_def)
  with push_unlock inv show ?thesis by (simp add: run_inv_def)
next
  case push_no_unlock
  then show ?thesis by (auto intro!: run_inv_set_busy[OF inv])
qed

text \<open>A step of the reader leaves every writer's test valid: the head only moves forward.\<close>

lemma writer_ok_later:
  assumes ok: "writer_ok q c ps w" and c: "c \<le> c'" and t: "tail q' = tail q"
    and d: "Suc (length ps) < c + ring_buffer_size
      \<Longrightarrow> node_data (node q' (tail q)) = node_data (node q (tail q))"
  shows "writer_ok q' c' ps w"
proof (cases w)
  case (W_test d n h)
  have "\<exists>j\<le>c'. length ps < j + ring_buffer_size \<and> h' = j mod ring_buffer_size" if "h = Some h'" for h'
    using ok c that W_test order_trans[OF _ c] by auto
  with W_test ok show ?thesis by simp
qed (use ok c t d in auto)

lemma run_inv_reader_step:
  assumes inv: "run_inv ws s" and rd: "reader_ok (shared s) (length (popped s)) (pushed s) r"
    and c: "consumed (s\<lparr>reader := r\<rparr>) = consumed s"
  shows "run_inv ws (s\<lparr>reader := r\<rparr>)"
  using inv rd c by (simp add: run_inv_def one_at_a_time_def)

lemma pop_set_head_inv:
  assumes inv: "run_inv ws s" and r: "reader s = R_set h n"
  shows "run_inv ws (s\<lparr>reader := R_read h, shared := (shared s)\<lparr>head := n\<rparr>\<rparr>)"
proof -
  let ?q = "(shared s)\<lparr>head := n\<rparr>" and ?c = "length (popped s)"
  have c: "consumed s = ?c" using r by (simp add: consumed_def)
  from run_inv_reader[OF inv] r
  have lt: "?c < length (pushed s)" and h: "h = head (shared s)" and n: "n = Suc ?c mod ring_buffer_size"
    by auto
  note rep = run_inv_rep[OF inv, unfolded c]
  note e = Cons_nth_drop_Suc[OF lt]
  have "ring_rep ?q (Suc ?c) (drop (Suc ?c) (pushed s))"
    using ring_rep_advance_head[of "shared s" ?c "pushed s ! ?c" "drop (Suc ?c) (pushed s)"] rep e n by simp
  moreover have "reader_ok ?q ?c (pushed s) (R_read h)"
    using ring_rep_data[OF rep, of 0] lt h ring_rep_head[OF rep] by simp
  moreover have "\<forall>i. writer_ok ?q (Suc ?c) (pushed s) (writer s i)"
    using writer_ok_later[OF run_inv_writer[OF inv], of "Suc ?c" ?q] c by simp
  moreover have "one_at_a_time ws (s\<lparr>reader := R_read h, shared := ?q\<rparr>)"
    using run_inv_one[OF inv] by (simp add: one_at_a_time_def)
  ultimately show ?thesis
    using lt run_inv_popped[OF inv] by (simp add: run_inv_def consumed_def del: reader_ok.simps)
qed

lemma pop_reset_inv:
  assumes inv: "run_inv ws s" and r: "reader s = R_reset h v"
  shows "run_inv ws (s\<lparr>reader := R_idle False, shared := set_node_data h None (shared s),
    popped := popped s @ [v]\<rparr>)"
proof -
  let ?q = "set_node_data h None (shared s)" and ?c = "length (popped s)"
  have c: "consumed s = Suc ?c" using r by (simp add: consumed_def)
  from run_inv_reader[OF inv] r have h: "h = ?c mod ring_buffer_size" and v: "v = pushed s ! ?c" by auto
  have lt: "?c < length (pushed s)" using run_inv_consumed[OF inv] c by simp
  have "ring_rep ?q (Suc ?c) (drop (Suc ?c) (pushed s))"
    unfolding h by (rule ring_rep_reset_passed[OF run_inv_rep[OF inv, unfolded c]])
  moreover have "popped s @ [v] = take (Suc ?c) (pushed s)"
    using run_inv_popped[OF inv] v lt by (simp add: take_Suc_conv_app_nth)
  moreover have "writer_ok ?q (Suc ?c) (pushed s) (writer s i)" for i
  proof (rule writer_ok_later[OF run_inv_writer[OF inv]])
    assume "Suc (length (pushed s)) < consumed s + ring_buffer_size"
    from reader_slot_not_tail[OF inv this c] h
    show "node_data (node ?q (tail (shared s))) = node_data (node (shared s) (tail (shared s)))"
      by simp
  qed (simp_all add: c)
  moreover have "one_at_a_time ws (s\<lparr>reader := R_idle False, shared := ?q, popped := popped s @ [v]\<rparr>)"
    using run_inv_one[OF inv] by (simp add: one_at_a_time_def)
  ultimately show ?thesis using lt by (simp add: run_inv_def consumed_def)
qed

lemma run_inv_nonempty:
  assumes inv: "run_inv ws s" and c: "consumed s = length (popped s)"
    and ne: "head (shared s) \<noteq> tail (shared s)"
  shows "length (popped s) < length (pushed s)"
  using ring_rep_empty_iff[OF run_inv_rep[OF inv]] run_inv_consumed[OF inv] ne c by simp

lemma run_inv_empty:
  assumes inv: "run_inv ws s" and e: "head (shared s) = tail (shared s)"
  shows "length (pushed s) \<le> consumed s"
  using ring_rep_empty_iff[OF run_inv_rep[OF inv]] e by simp

lemma pop_step_inv:
  assumes inv: "run_inv ws s" and st: "pop_step s s'"
  shows "run_inv ws s'"
  using st
proof cases
  case (empty_load_head t)
  then show ?thesis using run_inv_reader[OF inv]
    by (auto intro!: run_inv_reader_step[OF inv] simp: consumed_def)
next
  case (empty_load_tail h)
  then show ?thesis using run_inv_reader[OF inv] run_inv_nonempty[OF inv]
    by (auto intro!: run_inv_reader_step[OF inv] simp: consumed_def)
next
  case (pop_test b h)
  then show ?thesis using run_inv_reader[OF inv] run_inv_nonempty[OF inv] run_inv_empty[OF inv]
    by (auto intro!: run_inv_reader_step[OF inv] simp: consumed_def)
next
  case (pop_load_next h)
  have "consumed s = length (popped s)" using pop_load_next by (simp add: consumed_def)
  with pop_load_next show ?thesis
    using run_inv_reader[OF inv] ring_rep_head_next[OF run_inv_rep[OF inv]]
    by (auto intro!: run_inv_reader_step[OF inv] simp: consumed_def)
next
  case (pop_set_head h n)
  then show ?thesis using pop_set_head_inv[OF inv] by simp
next
  case (pop_reset h r)
  then show ?thesis using pop_reset_inv[OF inv] by simp
qed (use run_inv_reader[OF inv] in \<open>auto intro!: run_inv_reader_step[OF inv] simp: consumed_def\<close>)

lemma queue_steps_inv: "queue_steps ws s s' \<Longrightarrow> run_inv ws s \<Longrightarrow> run_inv ws s'"
  by (induction rule: queue_steps.induct) (auto dest: push_step_inv pop_step_inv)

subsection \<open>Uninterrupted calls are the sequential operations\<close>

lemma queue_steps_trans:
  "queue_steps ws s' s'' \<Longrightarrow> queue_steps ws s s' \<Longrightarrow> queue_steps ws s s''"
  by (induction rule: queue_steps.induct) (blast intro: queue_steps.intros)+

lemma push_step_steps: "push_step ws i s s' \<Longrightarrow> queue_steps ws s s'"
  by (rule steps_push[OF steps_none])

lemma pop_step_steps: "pop_step s s' \<Longrightarrow> queue_steps ws s s'"
  by (rule steps_pop[OF steps_none])

lemma put_writer_twice [simp]: "put_writer i w (put_writer i v s) = put_writer i w s"
  by (simp add: put_writer_def)

lemma put_writer_commute [simp]:
  "(put_writer i w s)\<lparr>shared := q\<rparr> = put_writer i w (s\<lparr>shared := q\<rparr>)"
  "(put_writer i w s)\<lparr>pushed := ps\<rparr> = put_writer i w (s\<lparr>pushed := ps\<rparr>)"
  "(put_writer i w s)\<lparr>mutex := m\<rparr> = put_writer i w (s\<lparr>mutex := m\<rparr>)"
  by (simp_all add: put_writer_def)

lemma put_writer_same: "writer s i = w \<Longrightarrow> put_writer i w s = s"
  by (simp add: put_writer_def fun_upd_idem)

lemma push_test_steps:
  assumes "writer s i = W_test d None None"
    and "node_next (node (shared s) (tail (shared s))) \<noteq> head (shared s)"
  shows "queue_steps ws s (put_writer i (W_store d (tail (shared s))) s)"
proof -
  let ?n = "node_next (node (shared s) (tail (shared s)))" and ?h = "head (shared s)"
  have "push_step ws i s (put_writer i (W_test d (Some ?n) None) s)"
    using assms push_load_next by fastforce
  moreover have "push_step ws i (put_writer i (W_test d (Some ?n) None) s)
      (put_writer i (W_test d (Some ?n) (Some ?h)) s)"
    using push_load_head[of "put_writer i (W_test d (Some ?n) None) s" i d "Some ?n" ws] by simp
  moreover have "push_step ws i (put_writer i (W_test d (Some ?n) (Some ?h)) s) (put_writer i (W_data d) s)"
    using push_go[of "put_writer i (W_test d (Some ?n) (Some ?h)) s" i d ?n ?h ws] assms(2) by simp
  moreover have "push_step ws i (put_writer i (W_data d) s) (put_writer i (W_store d (tail (shared s))) s)"
    using push_load_tail[of "put_writer i (W_data d) s" i d ws] by simp
  ultimately show ?thesis by (meson steps_none steps_push)
qed

lemma push_store_steps:
  assumes "writer s i = W_store d t" "t = tail (shared s)" "q = set_node_data t d (shared s)"
  shows "queue_steps ws s (put_writer i W_unlock
    (s\<lparr>shared := q\<lparr>tail := node_next (node q t)\<rparr>, pushed := pushed s @ [d]\<rparr>))"
proof -
  let ?n = "node_next (node q t)"
  let ?s = "s\<lparr>shared := q\<rparr>"
  have "push_step ws i s (put_writer i (W_advance d) ?s)"
    using push_store[OF assms(1)] assms(3) by simp
  moreover have "push_step ws i (put_writer i (W_advance d) ?s) (put_writer i (W_set d ?n) ?s)"
    using push_load_advance[of "put_writer i (W_advance d) ?s" i d ws] assms(2,3) by simp
  moreover have "push_step ws i (put_writer i (W_set d ?n) ?s)
      (put_writer i W_unlock (?s\<lparr>shared := q\<lparr>tail := ?n\<rparr>, pushed := pushed s @ [d]\<rparr>))"
    using push_set_tail[of "put_writer i (W_set d ?n) ?s" i d ?n ws] by simp
  ultimately have "queue_steps ws s
      (put_writer i W_unlock (?s\<lparr>shared := q\<lparr>tail := ?n\<rparr>, pushed := pushed s @ [d]\<rparr>))"
    by (meson steps_none steps_push)
  then show ?thesis by simp
qed

lemma push_enter_steps:
  assumes "writer s i = W_idle" "i \<in> ws" "mutex s = None"
  shows "queue_steps ws s (put_writer i (W_test d None None)
    (if lock_based (shared s) then s\<lparr>mutex := Some i\<rparr> else s))"
proof -
  have "push_step ws i s (put_writer i (W_lock d) s)" by (rule push_call[OF assms(2,1)])
  moreover have "push_step ws i (put_writer i (W_lock d) s)
      (put_writer i (W_test d None None) (if lock_based (shared s) then s\<lparr>mutex := Some i\<rparr> else s))"
    using push_lock[of "put_writer i (W_lock d) s" i d ws]
      push_no_lock[of "put_writer i (W_lock d) s" i d ws] assms(3) by auto
  ultimately show ?thesis by (meson steps_none steps_push)
qed

text \<open>An uninterrupted call of push by an idle writer, with the mutex free, has exactly the
  effect of the sequential operation.\<close>

theorem push_steps_alone:
  assumes "writer s i = W_idle" "i \<in> ws" "mutex s = None"
    and p: "push_ptr d (shared s) = Inr q"
  shows "queue_steps ws s (s\<lparr>shared := q, pushed := pushed s @ [d]\<rparr>)"
proof -
  let ?t = "tail (shared s)" and ?q = "set_node_data (tail (shared s)) d (shared s)"
  let ?s = "if lock_based (shared s) then s\<lparr>mutex := Some i\<rparr> else s"
  from p have ne: "node_next (node (shared s) ?t) \<noteq> head (shared s)"
    and q: "q = ?q\<lparr>tail := node_next (node ?q ?t)\<rparr>"
    by (auto simp: push_ptr_def Let_def split: if_splits)
  have m: "s\<lparr>shared := q, pushed := pushed s @ [d], mutex := None\<rparr>
      = s\<lparr>shared := q, pushed := pushed s @ [d]\<rparr>" using assms(3) by (cases s) simp
  have sh: "shared ?s = shared s" "pushed ?s = pushed s" by simp_all
  note push_enter_steps[OF assms(1-3), of d]
  moreover have "queue_steps ws (put_writer i (W_test d None None) ?s) (put_writer i (W_store d ?t) ?s)"
    using push_test_steps[of "put_writer i (W_test d None None) ?s" i d ws] ne
    by (simp only: put_writer_fields put_writer_twice sh) simp
  moreover have "queue_steps ws (put_writer i (W_store d ?t) ?s)
      (put_writer i W_unlock (?s\<lparr>shared := q, pushed := pushed s @ [d]\<rparr>))"
    using push_store_steps[of "put_writer i (W_store d ?t) ?s" i d ?t ?q ws] q
    by (simp only: put_writer_fields put_writer_twice put_writer_commute sh) simp
  moreover have "push_step ws i (put_writer i W_unlock (?s\<lparr>shared := q, pushed := pushed s @ [d]\<rparr>))
      (put_writer i W_idle (s\<lparr>shared := q, pushed := pushed s @ [d]\<rparr>))"
  proof (cases "lock_based (shared s)")
    case True
    then show ?thesis
      using push_unlock[of "put_writer i W_unlock (?s\<lparr>shared := q, pushed := pushed s @ [d]\<rparr>)" i ws] q m by simp
  next
    case False
    then show ?thesis
      using push_no_unlock[of "put_writer i W_unlock (?s\<lparr>shared := q, pushed := pushed s @ [d]\<rparr>)" i ws] q by simp
  qed
  ultimately have "queue_steps ws s (put_writer i W_idle (s\<lparr>shared := q, pushed := pushed s @ [d]\<rparr>))"
    by (meson steps_push queue_steps_trans)
  then show ?thesis using assms(1) by (simp add: put_writer_same)
qed

theorem pop_steps_alone:
  assumes r: "reader s = R_idle b" and p: "queue_pop (shared s) = Inr (v, q)"
  shows "queue_steps ws s (s\<lparr>reader := R_idle False, shared := q, popped := popped s @ [v]\<rparr>)"
proof -
  let ?h = "head (shared s)"
  let ?q = "(shared s)\<lparr>head := node_next (node (shared s) ?h)\<rparr>"
  from p have ne: "?h \<noteq> tail (shared s)" and v: "v = node_data (node ?q ?h)"
    and q: "q = set_node_data ?h None ?q"
    by (auto simp: queue_pop_def pop_head_def Let_def split: if_splits)
  have "pop_step s (s\<lparr>reader := R_head b\<rparr>)" using pop_call[OF r] .
  moreover have "pop_step (s\<lparr>reader := R_head b\<rparr>) (s\<lparr>reader := R_tail b ?h\<rparr>)"
    using pop_load_head[of "s\<lparr>reader := R_head b\<rparr>" b] by simp
  moreover have "pop_step (s\<lparr>reader := R_tail b ?h\<rparr>) (s\<lparr>reader := R_next ?h\<rparr>)"
    using pop_test[of "s\<lparr>reader := R_tail b ?h\<rparr>" b ?h] ne by simp
  moreover have "pop_step (s\<lparr>reader := R_next ?h\<rparr>)
      (s\<lparr>reader := R_set ?h (node_next (node (shared s) ?h))\<rparr>)"
    using pop_load_next[of "s\<lparr>reader := R_next ?h\<rparr>" ?h] by simp
  moreover have "pop_step (s\<lparr>reader := R_set ?h (node_next (node (shared s) ?h))\<rparr>)
      (s\<lparr>reader := R_read ?h, shared := ?q\<rparr>)"
    using pop_set_head[of "s\<lparr>reader := R_set ?h (node_next (node (shared s) ?h))\<rparr>" ?h] by simp
  moreover have "pop_step (s\<lparr>reader := R_read ?h, shared := ?q\<rparr>) (s\<lparr>shared := ?q, reader := R_reset ?h v\<rparr>)"
    using pop_read[of "s\<lparr>reader := R_read ?h, shared := ?q\<rparr>" ?h] v by simp
  moreover have "pop_step (s\<lparr>shared := ?q, reader := R_reset ?h v\<rparr>)
      (s\<lparr>reader := R_idle False, shared := q, popped := popped s @ [v]\<rparr>)"
    using pop_reset[of "s\<lparr>shared := ?q, reader := R_reset ?h v\<rparr>" ?h v] q by simp
  ultimately show ?thesis by (meson steps_none steps_pop)
qed

lemma one_push_one_pop:
  "\<exists>s. queue_steps {0} (run_start new_LockFreeQueue) s
    \<and> pushed s = [Some (5::nat)] \<and> popped s = [Some 5]"
proof -
  let ?s0 = "run_start new_LockFreeQueue :: nat queue_run"
  have "Suc (length []) < ring_buffer_size" using ring_buffer_size_gt by simp
  from push_ptr_rep[OF new_LockFreeQueue_rep this, of "Some 5"] obtain q where
    q: "push_ptr (Some 5) (shared ?s0) = Inr q" "ring_rep q 0 [Some (5::nat)]"
    by (auto simp: run_start_def)
  from queue_pop_rep[OF q(2)] obtain q' where q': "queue_pop q = Inr (Some 5, q')" by blast
  let ?s1 = "?s0\<lparr>shared := q, pushed := pushed ?s0 @ [Some 5]\<rparr>"
  have s1: "queue_steps {0} ?s0 ?s1"
    by (rule push_steps_alone[of _ 0, OF _ _ _ q(1)]) (simp_all add: run_start_def)
  have "queue_steps {0} ?s1 (?s1\<lparr>reader := R_idle False, shared := q', popped := popped ?s1 @ [Some 5]\<rparr>)"
    by (rule pop_steps_alone[of _ False]) (simp_all add: run_start_def q')
  from queue_steps_trans[OF this s1] show ?thesis
    by (intro exI conjI, assumption) (simp_all add: run_start_def)
qed

subsection \<open>What the queue promises to its threads\<close>

text \<open>(C8) Under any interleaving of one reader with either one writer or any number of writers of
  a queue in lock-based mode, the calls of pop return the pushed values in the order of the pushes:
  none is lost, duplicated, overwritten or seen half written.  The values not yet taken are exactly
  those between head and tail, fewer than the ring has nodes, and a pop after an empty that returned
  false never dereferences the null pointer.\<close>

theorem queue_threads_fifo:
  assumes "queue_steps ws (run_start q) s" "ring_rep q 0 []"
    and "lock_based q \<or> (\<forall>i\<in>ws. \<forall>j\<in>ws. i = j)"
  shows "popped s = take (length (popped s)) (pushed s)
    \<and> contents (shared s) = drop (consumed s) (pushed s)
    \<and> length (pushed s) < consumed s + ring_buffer_size
    \<and> reader s \<noteq> R_null True"
proof -
  have inv: "run_inv ws s" by (rule queue_steps_inv[OF assms(1) run_start_inv[OF assms(3,2)]])
  show ?thesis
    using run_inv_popped[OF inv] contents_rep[OF run_inv_rep[OF inv]]
      ring_rep_less[OF run_inv_rep[OF inv]] run_inv_reader[OF inv] by fastforce
qed

theorem queue_threads_fifo_witness:
  "\<exists>s :: nat queue_run. pushed s = [Some 5] \<and> popped s = [Some 5] \<and> contents (shared s) = []"
proof -
  obtain s :: "nat queue_run" where s: "queue_steps {0} (run_start new_LockFreeQueue) s"
    "pushed s = [Some 5]" "popped s = [Some 5]" using one_push_one_pop by blast
  then have "contents (shared s) = drop (consumed s) (pushed s)"
    using queue_threads_fifo[OF s(1) new_LockFreeQueue_rep] by simp
  then have "contents (shared s) = []" using s(2,3) by (simp add: consumed_def)
  with s(2,3) show ?thesis by blast
qed

subsection \<open>Two writers without the lock\<close>

lemma push_store_half:
  assumes "writer s i = W_store d t" "t = tail (shared s)"
  shows "queue_steps ws s (put_writer i (W_set d (node_next (node (shared s) t)))
    (s\<lparr>shared := set_node_data t d (shared s)\<rparr>))"
proof -
  let ?s = "s\<lparr>shared := set_node_data t d (shared s)\<rparr>"
  have "push_step ws i s (put_writer i (W_advance d) ?s)"
    using push_store[OF assms(1)] by simp
  moreover have "push_step ws i (put_writer i (W_advance d) ?s)
      (put_writer i (W_set d (node_next (node (shared s) t))) ?s)"
    using push_load_advance[of "put_writer i (W_advance d) ?s" i d ws] assms(2) by simp
  ultimately show ?thesis by (meson steps_none steps_push)
qed

lemma push_finish:
  assumes "writer s i = W_set d n" "\<not> lock_based (shared s)"
  shows "queue_steps ws s (put_writer i W_idle
    (s\<lparr>shared := (shared s)\<lparr>tail := n\<rparr>, pushed := pushed s @ [d]\<rparr>))"
proof -
  let ?s = "s\<lparr>shared := (shared s)\<lparr>tail := n\<rparr>, pushed := pushed s @ [d]\<rparr>"
  have "push_step ws i s (put_writer i W_unlock ?s)" using push_set_tail[OF assms(1)] .
  moreover have "push_step ws i (put_writer i W_unlock ?s) (put_writer i W_idle ?s)"
    using push_no_unlock[of "put_writer i W_unlock ?s" i ws] assms(2) by simp
  ultimately show ?thesis by (meson steps_none steps_push)
qed

lemma push_to_store:
  assumes "writer s i = W_idle" "i \<in> ws" "mutex s = None" "\<not> lock_based (shared s)"
    and "node_next (node (shared s) (tail (shared s))) \<noteq> head (shared s)"
  shows "queue_steps ws s (put_writer i (W_store d (tail (shared s))) s)"
  using queue_steps_trans[OF push_test_steps[of "put_writer i (W_test d None None) s" i d ws]
    push_enter_steps[OF assms(1-3), of d, simplified assms(4) if_False]] assms(5) by simp

text \<open>(C27) The data of a node, which is not atomic, is never accessed by two threads at once: the
  node a writer stores to is not the one the reader reads or resets, nor one of another writer.\<close>

theorem queue_no_data_race:
  assumes "queue_steps ws (run_start q) s" "ring_rep q 0 []"
    and "lock_based q \<or> (\<forall>i\<in>ws. \<forall>j\<in>ws. i = j)"
    and w: "writer s i = W_store d t"
  shows "reader s \<noteq> R_read t \<and> reader s \<noteq> R_reset t r \<and> (writer s j = W_store d' t' \<longrightarrow> j = i)"
proof -
  have inv: "run_inv ws s" by (rule queue_steps_inv[OF assms(1) run_start_inv[OF assms(3,2)]])
  from run_inv_writer[OF inv, of i] w
  have room: "Suc (length (pushed s)) < consumed s + ring_buffer_size" and t: "t = tail (shared s)" by auto
  have "\<not> (reader s = R_read t \<or> reader s = R_reset t r)"
    using reader_slot_not_tail[OF inv room] run_inv_reader[OF inv] t by (auto simp: consumed_def)
  moreover have "j = i" if "writer s j = W_store d' t'"
    by (rule one_busy[OF run_inv_one[OF inv]]) (simp_all add: that w)
  ultimately show ?thesis by blast
qed

theorem queue_no_data_race_witness:
  "\<exists>s :: nat queue_run. writer s 0 = W_store (Some 5) 0 \<and> reader s \<noteq> R_read 0 \<and> reader s \<noteq> R_reset 0 (Some 7)"
proof -
  let ?q = "new_LockFreeQueue :: nat LockFreeQueue"
  have hd: "head ?q = 0" "tail ?q = 0" "\<not> lock_based ?q" by (simp_all add: new_LockFreeQueue_def)
  have "Suc (length []) \<noteq> ring_buffer_size" using ring_buffer_size_gt by simp
  then have ne: "node_next (node ?q (tail ?q)) \<noteq> head ?q"
    using ring_rep_full_iff[OF new_LockFreeQueue_rep] by simp
  let ?s = "put_writer 0 (W_store (Some 5) (tail ?q)) (run_start ?q)"
  have s: "queue_steps {0} (run_start ?q) ?s"
    using push_to_store[of "run_start ?q" 0 "{0}" "Some 5"] ne hd(3) by (simp add: run_start_def)
  have w: "writer ?s 0 = W_store (Some 5) 0" using hd(2) by simp
  have "reader ?s \<noteq> R_read 0 \<and> reader ?s \<noteq> R_reset 0 (Some 7)"
    using queue_no_data_race[OF s new_LockFreeQueue_rep _ w, of "Some 7" 0 "Some 7" 0] by simp
  with w show ?thesis by blast
qed

lemma race_of_two_writers:
  assumes r: "ring_rep q h xs" and room: "Suc (length xs) < ring_buffer_size" and lf: "\<not> lock_based q"
  shows "\<exists>s. queue_steps {0, 1} (run_start q) s \<and> pushed s = [d, e] \<and> writer s = (\<lambda>_. W_idle)
    \<and> ring_rep (shared s) h (xs @ [e])"
proof -
  let ?t = "tail q" and ?n = "node_next (node q (tail q))"
  let ?q1 = "set_node_data ?t d q" let ?q2 = "set_node_data ?t e ?q1"
  let ?q3 = "?q2\<lparr>tail := ?n\<rparr>"
  let ?ws = "{0::nat, 1}"
  have ne: "?n \<noteq> head q" using ring_rep_full_iff[OF r] room by simp
  define s1 where "s1 = put_writer 0 (W_store d ?t) (run_start q)"
  define s2 where "s2 = put_writer 1 (W_store e ?t) s1"
  define s3 where "s3 = put_writer 0 (W_set d ?n) (s2\<lparr>shared := ?q1\<rparr>)"
  define s4 where "s4 = put_writer 1 (W_set e ?n) (s3\<lparr>shared := ?q2\<rparr>)"
  define s5 where "s5 = put_writer 0 W_idle (s4\<lparr>shared := ?q3, pushed := [d]\<rparr>)"
  define s6 where "s6 = put_writer 1 W_idle (s5\<lparr>shared := ?q3, pushed := [d, e]\<rparr>)"
  have sh: "shared s1 = q" "shared s2 = q" "shared s3 = ?q1" "shared s4 = ?q2" "shared s5 = ?q3" "shared s6 = ?q3"
    by (simp_all add: s1_def s2_def s3_def s4_def s5_def s6_def run_start_def)
  have w: "writer s1 1 = W_idle" "writer s2 0 = W_store d ?t" "writer s3 1 = W_store e ?t"
    "writer s4 0 = W_set d ?n" "writer s5 1 = W_set e ?n" "writer s6 = (\<lambda>_. W_idle)"
    by (auto simp: s1_def s2_def s3_def s4_def s5_def s6_def run_start_def put_writer_def)
  have p: "pushed s4 = []" "pushed s5 = [d]" "pushed s6 = [d, e]"
    by (simp_all add: s1_def s2_def s3_def s4_def s5_def s6_def run_start_def)
  have m: "mutex s1 = None" by (simp add: s1_def run_start_def)
  have lf2: "\<not> lock_based ?q2" "\<not> lock_based ?q3" using lf by simp_all
  have "queue_steps ?ws (run_start q) s1"
    unfolding s1_def using push_to_store[of "run_start q" 0 ?ws d] ne lf by (simp add: run_start_def)
  moreover have "queue_steps ?ws s1 s2"
    unfolding s2_def using push_to_store[of s1 1 ?ws e, unfolded sh w m] ne lf by simp
  moreover have "queue_steps ?ws s2 s3"
    unfolding s3_def using push_store_half[of s2 0 d ?t ?ws, unfolded sh] w by simp
  moreover have "queue_steps ?ws s3 s4"
    unfolding s4_def using push_store_half[of s3 1 e ?t ?ws, unfolded sh] w by simp
  moreover have "queue_steps ?ws s4 s5"
    unfolding s5_def using push_finish[of s4 0 d ?n ?ws, unfolded sh p] w lf2 by simp
  moreover have "queue_steps ?ws s5 s6"
    unfolding s6_def using push_finish[of s5 1 e ?n ?ws, unfolded sh p] w lf2 by simp
  ultimately have "queue_steps ?ws (run_start q) s6" by (meson queue_steps_trans)
  moreover have "ring_rep ?q3 h (xs @ [e])"
  proof -
    have r2: "ring_rep ?q2 h xs"
      using ring_rep_set_tail_data[OF ring_rep_set_tail_data[OF r, of d], of e] by simp
    have "tail q < length (ring_buffer q)" by (simp add: ring_rep_size[OF r] ring_rep_tail[OF r])
    then have "node_data (node ?q2 (tail ?q2)) = e" by simp
    from ring_rep_advance_tail[OF r2 room this] show ?thesis by (simp only: ring_rep_tail_next[OF r])
  qed
  ultimately show ?thesis using p(3) w(6) sh(6) by metis
qed

text \<open>The queue supports one writer: two writers of a lock-free queue can both complete a push
  of which only one value is in the queue.\<close>

theorem two_lock_free_writers_lose_a_value:
  "\<exists>s. queue_steps {0, 1} (run_start new_LockFreeQueue) s \<and> pushed s = [Some d, Some e]
    \<and> writer s = (\<lambda>_. W_idle) \<and> contents (shared s) = [Some e]"
proof -
  have "Suc (length []) < ring_buffer_size" using ring_buffer_size_gt by simp
  from race_of_two_writers[OF new_LockFreeQueue_rep this, of "Some d" "Some e"]
  show ?thesis using contents_rep by (fastforce simp: new_LockFreeQueue_def)
qed

end
