(* ===== verification/Work_Executor.thy ===== *)
theory Work_Executor
  imports Lock_Free_Queue_Threads
begin

text \<open>
  The worker thread of a device (\<^verbatim>\<open>tt_metal/impl/dispatch/work_executor.hpp\<close>): tasks pushed by the
  host thread to a \<^verbatim>\<open>LockFreeQueue\<close>, run by a worker thread that sleeps on a condition variable.

  \<open>WorkExecutor\<close> is the state of the class.  A run of the host thread and the worker thread is a
  step relation on \<open>executor_run\<close>: the host's position is the list of the commands it has still to
  do, as the member functions call one another; the worker's position is a point of the loop
  \<^verbatim>\<open>run_worker\<close>.  Queue operations are the sequential ones of \<open>Lock_Free_Queue\<close>, one step each: by
  \<open>Lock_Free_Queue_Threads\<close> one writer and one reader may use them so.  The environment
  variables that give the default modes are arguments.  Thread affinity, priorities and
  profiler zones are left out.  \<^verbatim>\<open>worker_state\<close> is read and written as if it were atomic, which the
  source does not make it.
\<close>

subsection \<open>State\<close>

datatype WorkExecutorMode = SYNCHRONOUS | ASYNCHRONOUS

datatype WorkerQueueMode = LOCKFREE | LOCKBASED

datatype WorkerState = RUNNING | TERMINATE | IDLE

text \<open>A function object in the queue: a client's task, or the empty function of \<^verbatim>\<open>synchronize\<close>.\<close>

datatype 'a work = Task 'a | Flush

record 'a WorkExecutor =
  worker_queue :: "'a work LockFreeQueue"
  worker_state :: WorkerState
  cpu_core_for_worker :: int
  managed_device_id :: int
  work_executor_mode :: WorkExecutorMode
  worker_queue_mode :: WorkerQueueMode

text \<open>The constructors leave members uninitialised; the arguments \<open>st\<close>, \<open>m\<close> and \<open>qm\<close> are what they hold.\<close>

definition new_WorkExecutor ::
  "WorkerState \<Rightarrow> WorkExecutorMode \<Rightarrow> WorkerQueueMode \<Rightarrow> int \<Rightarrow> int \<Rightarrow> 'a WorkExecutor" where
  "new_WorkExecutor st m qm cpu_core device_id =
    \<lparr>worker_queue = new_LockFreeQueue, worker_state = st, cpu_core_for_worker = cpu_core,
     managed_device_id = device_id, work_executor_mode = m, worker_queue_mode = qm\<rparr>"

definition executor_move :: "WorkExecutorMode \<Rightarrow> WorkerQueueMode \<Rightarrow> 'a WorkExecutor \<Rightarrow> 'a WorkExecutor" where
  "executor_move m qm other =
    \<lparr>worker_queue = new_LockFreeQueue, worker_state = worker_state other,
     cpu_core_for_worker = managed_device_id other, managed_device_id = managed_device_id other,
     work_executor_mode = m, worker_queue_mode = qm\<rparr>"

definition executor_move_assign :: "'a WorkExecutor \<Rightarrow> 'a WorkExecutor \<Rightarrow> 'a WorkExecutor" where
  "executor_move_assign this other =
    this\<lparr>worker_state := worker_state other, managed_device_id := managed_device_id other,
      cpu_core_for_worker := cpu_core_for_worker other\<rparr>"

definition set_worker_queue_mode :: "WorkerQueueMode \<Rightarrow> 'a WorkExecutor \<Rightarrow> 'a WorkExecutor" where
  "set_worker_queue_mode mode e =
    (let e = (if mode = LOCKFREE then e\<lparr>worker_queue := set_lock_free (worker_queue e)\<rparr>
              else e\<lparr>worker_queue := set_lock_based (worker_queue e)\<rparr>)
     in e\<lparr>worker_queue_mode := mode\<rparr>)"

definition start_worker :: "nat \<Rightarrow> nat \<Rightarrow> 'a WorkExecutor \<Rightarrow> 'a WorkExecutor" where
  "start_worker this_thread new_thread e =
    e\<lparr>worker_state := RUNNING,
      worker_queue := (worker_queue e)\<lparr>parent_thread_id := this_thread, worker_thread_id := new_thread\<rparr>\<rparr>"

text \<open>\<open>initialize\<close> also says whether a worker thread was started.\<close>

definition executor_initialize ::
  "WorkExecutorMode \<Rightarrow> WorkerQueueMode \<Rightarrow> nat \<Rightarrow> nat \<Rightarrow> 'a WorkExecutor \<Rightarrow> bool \<times> 'a WorkExecutor" where
  "executor_initialize default_mode default_queue_mode this_thread new_thread e =
    (let e = e\<lparr>work_executor_mode := default_mode, worker_queue_mode := default_queue_mode,
               worker_state := IDLE\<rparr>
     in if work_executor_mode e = ASYNCHRONOUS
        then (True, start_worker this_thread new_thread (set_worker_queue_mode (worker_queue_mode e) e))
        else (False, e))"

subsection \<open>What the threads do\<close>

datatype 'a command =
    C_push "'a work"
  | C_notify
  | C_synchronize
  | C_wait_empty
  | C_stop_worker
  | C_join
  | C_set_synchronous

datatype 'a worker_at =
    V_none
  | V_lock
  | V_queue
  | V_state
  | V_asleep
  | V_terminate
  | V_drained
  | V_pop
  | V_run "'a work option"
  | V_null
  | V_exited

text \<open>
  Who runs a task given to \<^verbatim>\<open>push_work\<close>: the calling thread, or the queue with the commands that
  follow.
\<close>

definition push_work :: "nat \<Rightarrow> 'a WorkExecutor \<Rightarrow> 'a work \<Rightarrow> bool \<Rightarrow> 'a command list option" where
  "push_work this_thread e f blocking =
    (if this_thread = worker_thread_id (worker_queue e) \<or> \<not> worker_state e = RUNNING then None
     else Some (C_push f # C_notify # (if blocking then [C_synchronize] else [])))"

definition synchronize :: "nat \<Rightarrow> 'a WorkExecutor \<Rightarrow> 'a command list" where
  "synchronize this_thread e =
    (if work_executor_mode e = ASYNCHRONOUS \<and> \<not> this_thread = worker_thread_id (worker_queue e)
     then [C_push Flush, C_notify, C_wait_empty] else [])"

definition stop_worker :: "'a WorkExecutor \<Rightarrow> 'a command list \<times> 'a WorkExecutor" where
  "stop_worker e =
    (if worker_state e = IDLE then ([], e)
     else ([C_notify, C_join], e\<lparr>worker_state := TERMINATE\<rparr>))"

definition executor_reset :: "'a WorkExecutor \<Rightarrow> 'a command list" where
  "executor_reset e =
    (if work_executor_mode e = ASYNCHRONOUS then [C_stop_worker] else []) @ [C_set_synchronous]"

text \<open>\<open>set_worker_mode\<close>: whether a worker is started, the commands to do, the new state.\<close>

definition set_worker_mode ::
  "WorkExecutorMode \<Rightarrow> nat \<Rightarrow> nat \<Rightarrow> 'a WorkExecutor \<Rightarrow> bool \<times> 'a command list \<times> 'a WorkExecutor" where
  "set_worker_mode mode this_thread new_thread e =
    (if work_executor_mode e = mode then (False, [], e)
     else let e = e\<lparr>work_executor_mode := mode\<rparr> in
       if work_executor_mode e = ASYNCHRONOUS
       then (True, [], start_worker this_thread new_thread e)
       else (False, [C_synchronize, C_stop_worker], e))"

record 'a executor_run =
  executor :: "'a WorkExecutor"
  host_thread :: nat
  host :: "'a command list"
  worker :: "'a worker_at"
  cv_held :: bool
  submitted :: "'a work list"
  executed :: "'a work list"

subsection \<open>Steps\<close>

inductive host_step :: "'a executor_run \<Rightarrow> 'a executor_run \<Rightarrow> bool" where
  host_push: "host s = C_push f # cs \<Longrightarrow> push_value f (worker_queue (executor s)) = Inr q
    \<Longrightarrow> host_step s (s\<lparr>host := cs, executor := (executor s)\<lparr>worker_queue := q\<rparr>,
      submitted := submitted s @ [f]\<rparr>)"
| host_notify: "host s = C_notify # cs \<Longrightarrow> \<not> cv_held s
    \<Longrightarrow> host_step s (s\<lparr>host := cs, worker := if worker s = V_asleep then V_lock else worker s\<rparr>)"
| host_synchronize: "host s = C_synchronize # cs
    \<Longrightarrow> host_step s (s\<lparr>host := synchronize (host_thread s) (executor s) @ cs\<rparr>)"
| host_wait: "host s = C_wait_empty # cs \<Longrightarrow> queue_empty (worker_queue (executor s))
    \<Longrightarrow> host_step s (s\<lparr>host := cs\<rparr>)"
| host_stop: "host s = C_stop_worker # cs \<Longrightarrow> stop_worker (executor s) = (ds, e)
    \<Longrightarrow> host_step s (s\<lparr>host := ds @ cs, executor := e\<rparr>)"
| host_join: "host s = C_join # cs \<Longrightarrow> worker s = V_exited
    \<Longrightarrow> host_step s (s\<lparr>host := cs, executor := (executor s)\<lparr>worker_state := IDLE\<rparr>\<rparr>)"
| host_set_synchronous: "host s = C_set_synchronous # cs
    \<Longrightarrow> host_step s (s\<lparr>host := cs, executor := (executor s)\<lparr>work_executor_mode := SYNCHRONOUS\<rparr>\<rparr>)"

text \<open>Calls of the member functions by the host thread, when it is not in one already.\<close>

inductive client_step :: "'a executor_run \<Rightarrow> 'a executor_run \<Rightarrow> bool" where
  client_push_inline: "host s = [] \<Longrightarrow> push_work (host_thread s) (executor s) (Task f) blocking = None
    \<Longrightarrow> client_step s (s\<lparr>submitted := submitted s @ [Task f], executed := executed s @ [Task f]\<rparr>)"
| client_push: "host s = [] \<Longrightarrow> push_work (host_thread s) (executor s) (Task f) blocking = Some cs
    \<Longrightarrow> client_step s (s\<lparr>host := cs\<rparr>)"
| client_synchronize: "host s = []
    \<Longrightarrow> client_step s (s\<lparr>host := synchronize (host_thread s) (executor s)\<rparr>)"
| client_set_mode: "host s = [] \<Longrightarrow> new_thread \<noteq> host_thread s
    \<Longrightarrow> set_worker_mode mode (host_thread s) new_thread (executor s) = (started, cs, e)
    \<Longrightarrow> client_step s (s\<lparr>host := cs, executor := e,
      worker := if started then V_lock else worker s\<rparr>)"
| client_reset: "host s = [] \<Longrightarrow> client_step s (s\<lparr>host := executor_reset (executor s)\<rparr>)"

text \<open>\<^verbatim>\<open>run_worker\<close>; the predicate of the wait is evaluated under the lock, in two loads.\<close>

inductive worker_step :: "'a executor_run \<Rightarrow> 'a executor_run \<Rightarrow> bool" where
  worker_lock: "worker s = V_lock \<Longrightarrow> \<not> cv_held s
    \<Longrightarrow> worker_step s (s\<lparr>worker := V_queue, cv_held := True\<rparr>)"
| worker_queue_work: "worker s = V_queue \<Longrightarrow> \<not> queue_empty (worker_queue (executor s))
    \<Longrightarrow> worker_step s (s\<lparr>worker := V_terminate, cv_held := False\<rparr>)"
| worker_queue_empty: "worker s = V_queue \<Longrightarrow> queue_empty (worker_queue (executor s))
    \<Longrightarrow> worker_step s (s\<lparr>worker := V_state\<rparr>)"
| worker_wait_over: "worker s = V_state \<Longrightarrow> worker_state (executor s) = TERMINATE
    \<Longrightarrow> worker_step s (s\<lparr>worker := V_terminate, cv_held := False\<rparr>)"
| worker_sleep: "worker s = V_state \<Longrightarrow> worker_state (executor s) \<noteq> TERMINATE
    \<Longrightarrow> worker_step s (s\<lparr>worker := V_asleep, cv_held := False\<rparr>)"
| worker_terminate: "worker s = V_terminate
    \<Longrightarrow> worker_step s (s\<lparr>worker := if worker_state (executor s) = TERMINATE then V_drained else V_pop\<rparr>)"
| worker_drained: "worker s = V_drained
    \<Longrightarrow> worker_step s (s\<lparr>worker := if queue_empty (worker_queue (executor s)) then V_exited else V_pop\<rparr>)"
| worker_pop: "worker s = V_pop \<Longrightarrow> queue_pop (worker_queue (executor s)) = Inr (d, q)
    \<Longrightarrow> worker_step s (s\<lparr>worker := V_run d, executor := (executor s)\<lparr>worker_queue := q\<rparr>\<rparr>)"
| worker_pop_null: "worker s = V_pop \<Longrightarrow> queue_pop (worker_queue (executor s)) = Inl e
    \<Longrightarrow> worker_step s (s\<lparr>worker := V_null\<rparr>)"
| worker_run: "worker s = V_run (Some f)
    \<Longrightarrow> worker_step s (s\<lparr>worker := V_lock, executed := executed s @ [f]\<rparr>)"
| worker_run_null: "worker s = V_run None \<Longrightarrow> worker_step s (s\<lparr>worker := V_null\<rparr>)"

inductive spurious_wakeup :: "'a executor_run \<Rightarrow> 'a executor_run \<Rightarrow> bool" where
  spurious: "worker s = V_asleep \<Longrightarrow> spurious_wakeup s (s\<lparr>worker := V_lock\<rparr>)"

definition internal_step :: "'a executor_run \<Rightarrow> 'a executor_run \<Rightarrow> bool" where
  "internal_step s s' \<longleftrightarrow> host_step s s' \<or> worker_step s s'"

inductive executor_steps :: "'a executor_run \<Rightarrow> 'a executor_run \<Rightarrow> bool" for s where
  executor_none: "executor_steps s s"
| executor_internal: "executor_steps s s' \<Longrightarrow> internal_step s' s'' \<Longrightarrow> executor_steps s s''"
| executor_client: "executor_steps s s' \<Longrightarrow> client_step s' s'' \<Longrightarrow> executor_steps s s''"
| executor_spurious: "executor_steps s s' \<Longrightarrow> spurious_wakeup s' s'' \<Longrightarrow> executor_steps s s''"

definition executor_start ::
  "WorkExecutorMode \<Rightarrow> WorkerQueueMode \<Rightarrow> nat \<Rightarrow> nat \<Rightarrow> 'a WorkExecutor \<Rightarrow> 'a executor_run" where
  "executor_start default_mode default_queue_mode this_thread new_thread e0 =
    (let (started, e) = executor_initialize default_mode default_queue_mode this_thread new_thread e0 in
     \<lparr>executor = e, host_thread = this_thread, host = [],
      worker = if started then V_lock else V_none, cv_held = False, submitted = [], executed = []\<rparr>)"

subsection \<open>Invariant\<close>

fun running :: "'a worker_at \<Rightarrow> 'a work list" where
  "running (V_run (Some f)) = [f]"
| "running _ = []"

text \<open>Which commands can be left to do, in which mode and state.\<close>

inductive host_ok :: "WorkExecutorMode \<Rightarrow> WorkerState \<Rightarrow> 'a command list \<Rightarrow> bool" where
  ok_ready: "st \<noteq> TERMINATE \<Longrightarrow> m = ASYNCHRONOUS \<longleftrightarrow> st = RUNNING \<Longrightarrow> host_ok m st []"
| ok_push: "host_ok ASYNCHRONOUS RUNNING [C_push f, C_notify]"
| ok_push_blocking: "host_ok ASYNCHRONOUS RUNNING [C_push f, C_notify, C_synchronize]"
| ok_push_flush: "host_ok ASYNCHRONOUS RUNNING [C_push Flush, C_notify, C_wait_empty]"
| ok_notify: "host_ok ASYNCHRONOUS RUNNING [C_notify]"
| ok_notify_blocking: "host_ok ASYNCHRONOUS RUNNING [C_notify, C_synchronize]"
| ok_synchronize: "host_ok ASYNCHRONOUS RUNNING [C_synchronize]"
| ok_notify_flush: "host_ok ASYNCHRONOUS RUNNING [C_notify, C_wait_empty]"
| ok_wait: "host_ok ASYNCHRONOUS RUNNING [C_wait_empty]"
| ok_set_mode: "host_ok SYNCHRONOUS RUNNING [C_synchronize, C_stop_worker]"
| ok_stop: "host_ok SYNCHRONOUS RUNNING [C_stop_worker]"
| ok_notify_stop: "host_ok SYNCHRONOUS TERMINATE [C_notify, C_join]"
| ok_join: "host_ok SYNCHRONOUS TERMINATE [C_join]"
| ok_reset: "host_ok ASYNCHRONOUS RUNNING [C_stop_worker, C_set_synchronous]"
| ok_notify_reset: "host_ok ASYNCHRONOUS TERMINATE [C_notify, C_join, C_set_synchronous]"
| ok_join_reset: "host_ok ASYNCHRONOUS TERMINATE [C_join, C_set_synchronous]"
| ok_set_synchronous: "host_ok m IDLE [C_set_synchronous]"

inductive_simps host_ok_ready [simp]: "host_ok m st []"
inductive_simps host_ok_push: "host_ok m st (C_push f # cs)"
inductive_simps host_ok_notify: "host_ok m st (C_notify # cs)"
inductive_simps host_ok_synchronize: "host_ok m st (C_synchronize # cs)"
inductive_simps host_ok_wait: "host_ok m st (C_wait_empty # cs)"
inductive_simps host_ok_stop: "host_ok m st (C_stop_worker # cs)"
inductive_simps host_ok_join: "host_ok m st (C_join # cs)"
inductive_simps host_ok_set_synchronous: "host_ok m st (C_set_synchronous # cs)"

lemmas host_ok_shapes = host_ok_push host_ok_notify host_ok_synchronize host_ok_wait host_ok_stop
  host_ok_join host_ok_set_synchronous

text \<open>\<open>e\<close>: the queue is empty; \<open>n\<close>: the host is about to notify.\<close>

fun worker_at_ok :: "WorkerState \<Rightarrow> bool \<Rightarrow> bool \<Rightarrow> 'a worker_at \<Rightarrow> bool" where
  "worker_at_ok st e n V_none \<longleftrightarrow> st = IDLE \<and> e"
| "worker_at_ok st e n V_lock \<longleftrightarrow> st \<noteq> IDLE"
| "worker_at_ok st e n V_queue \<longleftrightarrow> st \<noteq> IDLE"
| "worker_at_ok st e n V_state \<longleftrightarrow> st \<noteq> IDLE \<and> (e \<or> n)"
| "worker_at_ok st e n V_asleep \<longleftrightarrow> st \<noteq> IDLE \<and> (e \<and> st = RUNNING \<or> n)"
| "worker_at_ok st e n V_terminate \<longleftrightarrow> st \<noteq> IDLE \<and> (\<not> e \<or> st = TERMINATE)"
| "worker_at_ok st e n V_drained \<longleftrightarrow> st = TERMINATE"
| "worker_at_ok st e n V_pop \<longleftrightarrow> st \<noteq> IDLE \<and> \<not> e"
| "worker_at_ok st e n (V_run d) \<longleftrightarrow> st \<noteq> IDLE \<and> d \<noteq> None"
| "worker_at_ok st e n V_null \<longleftrightarrow> False"
| "worker_at_ok st e n V_exited \<longleftrightarrow> st \<noteq> RUNNING \<and> e"

definition notifying :: "'a command list \<Rightarrow> bool" where
  "notifying cs \<longleftrightarrow> (\<exists>ds. cs = C_notify # ds)"

lemma notifying_simps [simp]:
  "\<not> notifying []" "notifying (c # cs) \<longleftrightarrow> c = C_notify"
  by (auto simp: notifying_def)

definition executor_inv :: "'a executor_run \<Rightarrow> bool" where
  "executor_inv s \<longleftrightarrow>
    queue_inv (worker_queue (executor s))
    \<and> (\<exists>fs. contents (worker_queue (executor s)) = map Some fs
        \<and> submitted s = executed s @ running (worker s) @ fs)
    \<and> host_ok (work_executor_mode (executor s)) (worker_state (executor s)) (host s)
    \<and> worker_at_ok (worker_state (executor s)) (queue_empty (worker_queue (executor s)))
        (notifying (host s)) (worker s)
    \<and> (cv_held s \<longleftrightarrow> worker s = V_queue \<or> worker s = V_state)
    \<and> (host s = [C_notify, C_wait_empty] \<or> host s = [C_wait_empty] \<longrightarrow> (\<exists>fs. submitted s = fs @ [Flush]))
    \<and> host_thread s \<noteq> worker_thread_id (worker_queue (executor s))"

lemma executor_invD:
  assumes "executor_inv s"
  shows inv_queue: "queue_inv (worker_queue (executor s))"
    and inv_tasks: "\<exists>fs. contents (worker_queue (executor s)) = map Some fs
        \<and> submitted s = executed s @ running (worker s) @ fs"
    and inv_host: "host_ok (work_executor_mode (executor s)) (worker_state (executor s)) (host s)"
    and inv_worker: "worker_at_ok (worker_state (executor s)) (queue_empty (worker_queue (executor s)))
        (notifying (host s)) (worker s)"
    and inv_lock: "cv_held s \<longleftrightarrow> worker s = V_queue \<or> worker s = V_state"
    and inv_flush: "host s = [C_notify, C_wait_empty] \<or> host s = [C_wait_empty] \<Longrightarrow> \<exists>fs. submitted s = fs @ [Flush]"
    and inv_threads: "host_thread s \<noteq> worker_thread_id (worker_queue (executor s))"
  using assms unfolding executor_inv_def by blast+

lemma executor_invI:
  assumes "queue_inv (worker_queue (executor s))"
    and "contents (worker_queue (executor s)) = map Some fs"
    and "submitted s = executed s @ running (worker s) @ fs"
    and "host_ok (work_executor_mode (executor s)) (worker_state (executor s)) (host s)"
    and "worker_at_ok (worker_state (executor s)) (queue_empty (worker_queue (executor s)))
        (notifying (host s)) (worker s)"
    and "cv_held s \<longleftrightarrow> worker s = V_queue \<or> worker s = V_state"
    and "host s = [C_notify, C_wait_empty] \<or> host s = [C_wait_empty] \<Longrightarrow> \<exists>fs. submitted s = fs @ [Flush]"
    and "host_thread s \<noteq> worker_thread_id (worker_queue (executor s))"
  shows "executor_inv s"
  using assms unfolding executor_inv_def by blast

lemma inv_empty_iff: "executor_inv s \<Longrightarrow> queue_empty (worker_queue (executor s)) \<longleftrightarrow> contents (worker_queue (executor s)) = []"
  by (rule lfq.empty_iff[OF inv_queue])

text \<open>Thread ids and the lock mode do not touch the ring.\<close>

lemma ring_rep_other_fields [simp]:
  "ring_rep (q\<lparr>parent_thread_id := a\<rparr>) h xs = ring_rep q h xs"
  "ring_rep (q\<lparr>worker_thread_id := a\<rparr>) h xs = ring_rep q h xs"
  "ring_rep (q\<lparr>lock_based := b\<rparr>) h xs = ring_rep q h xs"
  by (simp_all add: ring_rep_def)

lemma contents_other_fields [simp]:
  "contents (q\<lparr>parent_thread_id := a\<rparr>) = contents q"
  "contents (q\<lparr>worker_thread_id := a\<rparr>) = contents q"
  "contents (q\<lparr>lock_based := b\<rparr>) = contents q"
  by (simp_all add: contents_def queue_length_def)

lemma queue_inv_other_fields [simp]:
  "queue_inv (q\<lparr>parent_thread_id := a\<rparr>) = queue_inv q"
  "queue_inv (q\<lparr>worker_thread_id := a\<rparr>) = queue_inv q"
  "queue_inv (q\<lparr>lock_based := b\<rparr>) = queue_inv q"
  by (simp_all add: queue_inv_def)

lemma queue_empty_other_fields [simp]:
  "queue_empty (q\<lparr>parent_thread_id := a\<rparr>) = queue_empty q"
  "queue_empty (q\<lparr>worker_thread_id := a\<rparr>) = queue_empty q"
  by (simp_all add: queue_empty_def)

lemma push_worker_thread: "push_ptr d q = Inr q' \<Longrightarrow> worker_thread_id q' = worker_thread_id q"
  by (auto simp: push_ptr_def Let_def set_node_data_def split: if_splits)

lemma pop_worker_thread: "queue_pop q = Inr (d, q') \<Longrightarrow> worker_thread_id q' = worker_thread_id q"
  by (auto simp: queue_pop_def pop_head_def Let_def set_node_data_def split: if_splits)

lemma worker_at_ok_notifying: "worker_at_ok st e n v \<Longrightarrow> (n \<Longrightarrow> n') \<Longrightarrow> worker_at_ok st e n' v"
  by (cases v) auto

text \<open>A command that neither touches the executor nor is a notification.\<close>

lemma executor_inv_host:
  assumes inv: "executor_inv s" and "\<not> notifying (host s)"
    and "host_ok (work_executor_mode (executor s)) (worker_state (executor s)) cs"
    and "cs \<noteq> [C_notify, C_wait_empty] \<and> cs \<noteq> [C_wait_empty]"
  shows "executor_inv (s\<lparr>host := cs\<rparr>)"
proof -
  obtain fs where "contents (worker_queue (executor s)) = map Some fs"
    "submitted s = executed s @ running (worker s) @ fs" using inv_tasks[OF inv] by blast
  then show ?thesis
    using assms executor_invD[OF inv] worker_at_ok_notifying[OF inv_worker[OF inv], of "notifying cs"]
    by (intro executor_invI[of _ fs]) simp_all
qed

lemma host_push_inv:
  assumes inv: "executor_inv s" and h: "host s = C_push f # cs"
    and p: "push_value f (worker_queue (executor s)) = Inr q"
  shows "executor_inv (s\<lparr>host := cs, executor := (executor s)\<lparr>worker_queue := q\<rparr>,
      submitted := submitted s @ [f]\<rparr>)"
proof -
  let ?st = "worker_state (executor s)"
  obtain fs where fs: "contents (worker_queue (executor s)) = map Some fs"
    "submitted s = executed s @ running (worker s) @ fs" using inv_tasks[OF inv] by blast
  from p have p': "push_ptr (Some f) (worker_queue (executor s)) = Inr q" by (simp add: push_value_def)
  from lfq.enq_elems[OF inv_queue[OF inv] p'] fs
  have q: "queue_inv q" "contents q = map Some (fs @ [f])" by simp_all
  have ne: "\<not> queue_empty q" by (rule lfq.enq_not_empty[OF inv_queue[OF inv] p'])
  have ok: "host_ok (work_executor_mode (executor s)) ?st cs" and n: "notifying cs" and st: "?st = RUNNING"
    and fl: "cs = [C_notify, C_wait_empty] \<Longrightarrow> f = Flush"
    using inv_host[OF inv] h by (auto simp: host_ok_push intro: host_ok.intros)
  have "worker_at_ok ?st False True (worker s)"
    using inv_worker[OF inv] st by (cases "worker s") auto
  with ok n fl fs q ne executor_invD[OF inv] push_worker_thread[OF p'] show ?thesis
    by (intro executor_invI[of _ "fs @ [f]"]) auto
qed

lemma host_notify_inv:
  assumes inv: "executor_inv s" and h: "host s = C_notify # cs" and free: "\<not> cv_held s"
  shows "executor_inv (s\<lparr>host := cs, worker := if worker s = V_asleep then V_lock else worker s\<rparr>)"
proof -
  let ?st = "worker_state (executor s)" let ?v = "if worker s = V_asleep then V_lock else worker s"
  obtain fs where fs: "contents (worker_queue (executor s)) = map Some fs"
    "submitted s = executed s @ running (worker s) @ fs" using inv_tasks[OF inv] by blast
  have ok: "host_ok (work_executor_mode (executor s)) ?st cs" and st: "?st \<noteq> IDLE"
    using inv_host[OF inv] h by (auto simp: host_ok_notify intro: host_ok.intros)
  have "worker_at_ok ?st (queue_empty (worker_queue (executor s))) n ?v" for n
    using inv_worker[OF inv] inv_lock[OF inv] free st by (cases "worker s") auto
  moreover have "running ?v = running (worker s)" by (cases "worker s") auto
  moreover have "cv_held s \<longleftrightarrow> ?v = V_queue \<or> ?v = V_state" using inv_lock[OF inv] by auto
  moreover have "\<exists>fs. submitted s = fs @ [Flush]" if "cs = [C_wait_empty]"
    using inv_flush[OF inv] h that by simp
  moreover have "cs \<noteq> [C_notify, C_wait_empty]" using ok inv_host[OF inv] h by (auto simp: host_ok_notify)
  ultimately show ?thesis using ok fs executor_invD[OF inv]
    by (intro executor_invI[of _ fs]) simp_all
qed

lemma host_step_inv:
  assumes inv: "executor_inv s" and st: "host_step s s'"
  shows "executor_inv s'"
  using st
proof cases
  case (host_push f cs q)
  then show ?thesis using host_push_inv[OF inv] by simp
next
  case (host_notify cs)
  then show ?thesis using host_notify_inv[OF inv] by simp
next
  case (host_synchronize cs)
  then show ?thesis using inv_host[OF inv] inv_threads[OF inv]
    by (auto simp: host_ok_synchronize synchronize_def intro!: executor_inv_host[OF inv] intro: host_ok.intros)
next
  case (host_wait cs)
  then show ?thesis using inv_host[OF inv]
    by (auto simp: host_ok_wait intro!: executor_inv_host[OF inv])
next
  case (host_stop cs ds e)
  obtain fs where fs: "contents (worker_queue (executor s)) = map Some fs"
    "submitted s = executed s @ running (worker s) @ fs" using inv_tasks[OF inv] by blast
  have run: "worker_state (executor s) = RUNNING" using inv_host[OF inv] host_stop by (auto simp: host_ok_stop)
  have "worker_at_ok TERMINATE (queue_empty (worker_queue (executor s))) True (worker s)"
    using inv_worker[OF inv] run by (cases "worker s") auto
  with fs run host_stop inv_host[OF inv] executor_invD[OF inv] show ?thesis
    by (intro executor_invI[of _ fs]) (auto simp: host_ok_stop stop_worker_def intro: host_ok.intros)
next
  case (host_join cs)
  obtain fs where fs: "contents (worker_queue (executor s)) = map Some fs"
    "submitted s = executed s @ running (worker s) @ fs" using inv_tasks[OF inv] by blast
  with host_join inv_host[OF inv] executor_invD[OF inv] show ?thesis
    by (intro executor_invI[of _ fs]) (auto simp: host_ok_join intro: host_ok.intros)
next
  case (host_set_synchronous cs)
  obtain fs where fs: "contents (worker_queue (executor s)) = map Some fs"
    "submitted s = executed s @ running (worker s) @ fs" using inv_tasks[OF inv] by blast
  with host_set_synchronous inv_host[OF inv] executor_invD[OF inv] show ?thesis
    by (intro executor_invI[of _ fs]) (auto simp: host_ok_set_synchronous intro: host_ok.intros)
qed

lemma client_step_inv:
  assumes inv: "executor_inv s" and st: "client_step s s'"
  shows "executor_inv s'"
proof -
  obtain fs where fs: "contents (worker_queue (executor s)) = map Some fs"
    "submitted s = executed s @ running (worker s) @ fs" using inv_tasks[OF inv] by blast
  from st show ?thesis
  proof cases
    case (client_push_inline f blocking)
    then have idle: "worker_state (executor s) = IDLE"
      using inv_host[OF inv] inv_threads[OF inv]
      by (cases "worker_state (executor s)") (auto simp: push_work_def split: if_splits)
    then have "running (worker s) = []" "queue_empty (worker_queue (executor s))"
      using inv_worker[OF inv] by (cases "worker s"; simp)+
    moreover from this have "fs = []" using inv_empty_iff[OF inv] fs by simp
    ultimately show ?thesis using client_push_inline fs executor_invD[OF inv]
      by (intro executor_invI[of _ "[]"]) simp_all
  next
    case (client_push f blocking cs)
    then have "host_ok (work_executor_mode (executor s)) (worker_state (executor s)) cs"
      using inv_host[OF inv] by (auto simp: push_work_def split: if_splits intro: host_ok.intros)
    with client_push show ?thesis
      by (auto simp: push_work_def split: if_splits intro!: executor_inv_host[OF inv])
  next
    case client_synchronize
    then have "host_ok (work_executor_mode (executor s)) (worker_state (executor s))
        (synchronize (host_thread s) (executor s))"
      using inv_host[OF inv] by (auto simp: synchronize_def intro: host_ok.intros)
    with client_synchronize show ?thesis
      by (auto simp: synchronize_def split: if_splits intro!: executor_inv_host[OF inv])
  next
    case (client_set_mode new_thread mode started cs e)
    show ?thesis
    proof (cases "mode = work_executor_mode (executor s)")
      case True
      with client_set_mode inv fs show ?thesis
        by (auto simp: set_worker_mode_def executor_inv_def)
    next
      case False
      show ?thesis
      proof (cases mode)
        case SYNCHRONOUS
        with False have "work_executor_mode (executor s) = ASYNCHRONOUS"
          by (cases "work_executor_mode (executor s)") auto
        with SYNCHRONOUS client_set_mode fs executor_invD[OF inv] show ?thesis
          by (intro executor_invI[of _ fs]) (auto simp: set_worker_mode_def Let_def intro: host_ok.intros)
      next
        case ASYNCHRONOUS
        with False have "work_executor_mode (executor s) \<noteq> ASYNCHRONOUS" by simp
        then have idle: "worker_state (executor s) = IDLE"
          using inv_host[OF inv] client_set_mode(2) by (cases "worker_state (executor s)") auto
        then have "worker s = V_none \<or> worker s = V_exited" using inv_worker[OF inv] by (cases "worker s") auto
        then have "running (worker s) = []" "\<not> cv_held s" using inv_lock[OF inv] by auto
        with ASYNCHRONOUS False client_set_mode fs executor_invD[OF inv] show ?thesis
          by (intro executor_invI[of _ fs]) (auto simp: set_worker_mode_def start_worker_def Let_def)
      qed
    qed
  next
    case client_reset
    then have "host_ok (work_executor_mode (executor s)) (worker_state (executor s)) (executor_reset (executor s))"
      using inv_host[OF inv] by (cases "worker_state (executor s)")
        (auto simp: executor_reset_def host_ok_set_synchronous intro: host_ok.intros)
    with client_reset show ?thesis
      by (auto simp: executor_reset_def intro!: executor_inv_host[OF inv])
  qed
qed

text \<open>A step of the worker that moves no task.\<close>

lemma executor_inv_worker:
  assumes inv: "executor_inv s" and r: "running v = running (worker s)"
    and "worker_at_ok (worker_state (executor s)) (queue_empty (worker_queue (executor s)))
      (notifying (host s)) v"
    and "l \<longleftrightarrow> v = V_queue \<or> v = V_state"
  shows "executor_inv (s\<lparr>worker := v, cv_held := l\<rparr>)"
proof -
  obtain fs where "contents (worker_queue (executor s)) = map Some fs"
    "submitted s = executed s @ running (worker s) @ fs" using inv_tasks[OF inv] by blast
  with assms executor_invD[OF inv] show ?thesis by (intro executor_invI[of _ fs]) simp_all
qed

lemma executor_inv_worker_unlocked:
  assumes inv: "executor_inv s" and r: "running v = running (worker s)"
    and "worker_at_ok (worker_state (executor s)) (queue_empty (worker_queue (executor s)))
      (notifying (host s)) v"
    and "cv_held s \<longleftrightarrow> v = V_queue \<or> v = V_state"
  shows "executor_inv (s\<lparr>worker := v\<rparr>)"
  using executor_inv_worker[OF assms] by simp

lemma worker_pop_inv:
  assumes inv: "executor_inv s" and v: "worker s = V_pop"
    and p: "queue_pop (worker_queue (executor s)) = Inr (d, q)"
  shows "executor_inv (s\<lparr>worker := V_run d, executor := (executor s)\<lparr>worker_queue := q\<rparr>\<rparr>)"
proof -
  obtain fs where fs: "contents (worker_queue (executor s)) = map Some fs"
    "submitted s = executed s @ running (worker s) @ fs" using inv_tasks[OF inv] by blast
  note q = lfq.deq_elems[OF inv_queue[OF inv] p]
  then obtain f gs where f: "fs = f # gs" "d = Some f" "contents q = map Some gs"
    using fs(1) by (cases fs) auto
  have "worker_at_ok (worker_state (executor s)) e n (V_run d)" for e n
    using inv_worker[OF inv] v f by simp
  then show ?thesis using fs f q v executor_invD[OF inv] pop_worker_thread[OF p]
    by (intro executor_invI[of _ gs]) simp_all
qed

lemma worker_step_inv:
  assumes inv: "executor_inv s" and st: "worker_step s s'"
  shows "executor_inv s'"
  using st
proof cases
  case worker_lock
  then show ?thesis using inv_worker[OF inv] by (auto intro!: executor_inv_worker[OF inv])
next
  case worker_queue_work
  then show ?thesis using inv_worker[OF inv] by (auto intro!: executor_inv_worker[OF inv])
next
  case worker_queue_empty
  then show ?thesis using inv_worker[OF inv] inv_lock[OF inv]
    by (auto intro!: executor_inv_worker_unlocked[OF inv])
next
  case worker_wait_over
  then show ?thesis using inv_worker[OF inv] by (auto intro!: executor_inv_worker[OF inv])
next
  case worker_sleep
  then show ?thesis using inv_worker[OF inv]
    by (cases "worker_state (executor s)") (auto intro!: executor_inv_worker[OF inv])
next
  case worker_terminate
  then show ?thesis using inv_worker[OF inv] inv_lock[OF inv]
    by (auto intro!: executor_inv_worker_unlocked[OF inv])
next
  case worker_drained
  then show ?thesis using inv_worker[OF inv] inv_lock[OF inv]
    by (auto intro!: executor_inv_worker_unlocked[OF inv])
next
  case (worker_pop d q)
  then show ?thesis using worker_pop_inv[OF inv] by simp
next
  case (worker_pop_null e)
  then have "\<not> queue_empty (worker_queue (executor s))" using inv_worker[OF inv] by simp
  then have False using lfq.deq_returns_iff[OF inv_queue[OF inv]] worker_pop_null by fastforce
  then show ?thesis ..
next
  case (worker_run f)
  obtain fs where "contents (worker_queue (executor s)) = map Some fs"
    "submitted s = executed s @ running (worker s) @ fs" using inv_tasks[OF inv] by blast
  with worker_run executor_invD[OF inv] show ?thesis by (intro executor_invI[of _ fs]) simp_all
next
  case worker_run_null
  then show ?thesis using inv_worker[OF inv] by simp
qed

lemma spurious_wakeup_inv:
  assumes inv: "executor_inv s" and st: "spurious_wakeup s s'"
  shows "executor_inv s'"
  using st
proof cases
  case spurious
  then show ?thesis using inv_worker[OF inv] inv_lock[OF inv]
    by (auto intro!: executor_inv_worker_unlocked[OF inv])
qed

lemma executor_start_inv:
  assumes "host_id \<noteq> worker_id" "host_id \<noteq> worker_thread_id (worker_queue e0)"
    and "ring_rep (worker_queue e0) 0 []"
  shows "executor_inv (executor_start m qm host_id worker_id e0)"
proof -
  have "contents (worker_queue e0) = []" "queue_inv (worker_queue e0)" "queue_empty (worker_queue e0)"
    using contents_rep[OF assms(3)] queue_inv_rep[OF assms(3)] ring_rep_empty_iff[OF assms(3)]
    by (simp_all add: queue_empty_def)
  then show ?thesis using assms
    by (intro executor_invI[of _ "[]"])
      (auto simp: executor_start_def executor_initialize_def start_worker_def set_worker_queue_mode_def
        set_lock_free_def set_lock_based_def Let_def queue_empty_def split: if_splits)
qed

lemma executor_steps_inv: "executor_steps s s' \<Longrightarrow> executor_inv s \<Longrightarrow> executor_inv s'"
  by (induction rule: executor_steps.induct)
    (auto simp: internal_step_def dest: host_step_inv client_step_inv worker_step_inv spurious_wakeup_inv)

subsection \<open>Progress\<close>

fun command_work :: "'a command \<Rightarrow> nat" where
  "command_work (C_push f) = 13"
| "command_work C_notify = 10"
| "command_work C_synchronize = 25"
| "command_work C_wait_empty = 1"
| "command_work C_stop_worker = 12"
| "command_work C_join = 1"
| "command_work C_set_synchronous = 1"

fun worker_work :: "'a worker_at \<Rightarrow> nat" where
  "worker_work (V_run d) = 10"
| "worker_work V_lock = 9"
| "worker_work V_queue = 8"
| "worker_work V_state = 7"
| "worker_work V_terminate = 6"
| "worker_work V_drained = 5"
| "worker_work V_pop = 4"
| "worker_work _ = 0"

text \<open>A bound on the steps left until both threads rest.\<close>

definition work_left :: "'a executor_run \<Rightarrow> nat" where
  "work_left s = sum_list (map command_work (host s)) + worker_work (worker s)
    + 12 * length (contents (worker_queue (executor s)))"

lemma host_step_work:
  assumes inv: "executor_inv s" and st: "host_step s s'"
  shows "work_left s' < work_left s"
  using st
proof cases
  case (host_push f cs q)
  then show ?thesis using lfq.enq_elems[OF inv_queue[OF inv], of "Some f" q]
    by (simp add: work_left_def push_value_def)
next
  case (host_synchronize cs)
  then show ?thesis by (simp add: work_left_def synchronize_def)
next
  case (host_stop cs ds e)
  then show ?thesis by (auto simp: work_left_def stop_worker_def split: if_splits)
qed (simp_all add: work_left_def)

lemma worker_step_work:
  assumes inv: "executor_inv s" and st: "worker_step s s'"
  shows "work_left s' < work_left s"
  using st
proof cases
  case (worker_pop d q)
  then show ?thesis using lfq.deq_elems[OF inv_queue[OF inv], of d q] by (simp add: work_left_def)
qed (simp_all add: work_left_def)

lemma internal_step_work: "executor_inv s \<Longrightarrow> internal_step s s' \<Longrightarrow> work_left s' < work_left s"
  using host_step_work worker_step_work by (auto simp: internal_step_def)

lemma internal_step_inv: "executor_inv s \<Longrightarrow> internal_step s s' \<Longrightarrow> executor_inv s'"
  using host_step_inv worker_step_inv by (auto simp: internal_step_def)

lemma internal_steps_bounded:
  "(internal_step ^^ n) s s' \<Longrightarrow> executor_inv s \<Longrightarrow> executor_inv s' \<and> n + work_left s' \<le> work_left s"
proof (induction n arbitrary: s')
  case (Suc n)
  from Suc.prems(1) obtain t where t: "(internal_step ^^ n) s t" "internal_step t s'" by auto
  with Suc show ?case using internal_step_work[of t s'] internal_step_inv[of t s'] by fastforce
qed simp

text \<open>The worker can always go on, unless it has not started, sleeps or has left its loop.\<close>

lemma worker_can_step:
  assumes inv: "executor_inv s" and v: "worker s \<notin> {V_none, V_asleep, V_exited}"
  shows "\<exists>s'. worker_step s s'"
proof (cases "worker s")
  case V_lock
  then have "\<not> cv_held s" using inv_lock[OF inv] by simp
  with V_lock show ?thesis by (blast intro: worker_lock)
next
  case V_pop
  then show ?thesis
    by (cases "queue_pop (worker_queue (executor s))")
      (auto intro: worker_pop worker_pop_null simp: prod_eq_iff split: prod.splits)
next
  case (V_run d)
  then show ?thesis by (cases d) (blast intro: worker_run worker_run_null)+
next
  case V_queue
  then show ?thesis by (blast intro: worker_queue_work worker_queue_empty)
next
  case V_state
  then show ?thesis by (blast intro: worker_wait_over worker_sleep)
next
  case V_terminate
  then show ?thesis by (blast intro: worker_terminate)
next
  case V_drained
  then show ?thesis by (blast intro: worker_drained)
next
  case V_null
  then show ?thesis using inv_worker[OF inv] by simp
qed (use v in simp_all)

lemma host_can_step:
  assumes inv: "executor_inv s" and v: "worker s \<in> {V_none, V_asleep, V_exited}" and h: "host s = c # cs"
  shows "\<exists>s'. host_step s s'"
proof (cases c)
  case (C_push f)
  then have "worker_state (executor s) = RUNNING" using inv_host[OF inv] h by (auto simp: host_ok_push)
  then have "contents (worker_queue (executor s)) = []"
    using inv_worker[OF inv] v h C_push inv_empty_iff[OF inv] by auto
  then have "length (contents (worker_queue (executor s))) < ring_buffer_size - 1"
    using ring_buffer_size_gt by simp
  from lfq.enq_ok[OF inv_queue[OF inv] this] show ?thesis
    using h C_push host_push unfolding push_value_def by blast
next
  case C_notify
  have "\<not> cv_held s" using inv_lock[OF inv] v by auto
  with C_notify h show ?thesis by (blast intro: host_notify)
next
  case C_wait_empty
  then have "queue_empty (worker_queue (executor s))"
    using inv_host[OF inv] inv_worker[OF inv] v h by (auto simp: host_ok_wait)
  with C_wait_empty h show ?thesis by (blast intro: host_wait)
next
  case C_join
  then have "worker s = V_exited"
    using inv_host[OF inv] inv_worker[OF inv] v h by (auto simp: host_ok_join)
  with C_join h show ?thesis by (blast intro: host_join)
next
  case C_synchronize
  then show ?thesis using h by (blast intro: host_synchronize)
next
  case C_stop_worker
  then show ?thesis using h host_stop by (metis surj_pair)
next
  case C_set_synchronous
  then show ?thesis using h by (blast intro: host_set_synchronous)
qed

lemma settled_when_stuck:
  assumes inv: "executor_inv s" and stuck: "\<And>s'. \<not> internal_step s s'"
  shows "host s = [] \<and> executed s = submitted s"
proof -
  have v: "worker s \<in> {V_none, V_asleep, V_exited}"
    using worker_can_step[OF inv] stuck unfolding internal_step_def by blast
  have h: "host s = []"
    using host_can_step[OF inv v] stuck unfolding internal_step_def by (cases "host s") blast+
  then have "contents (worker_queue (executor s)) = []"
    using inv_worker[OF inv] v inv_empty_iff[OF inv] by auto
  moreover have "running (worker s) = []" using v by auto
  ultimately show ?thesis using inv_tasks[OF inv] h by auto
qed

lemma settles:
  "executor_inv s \<Longrightarrow> \<exists>n s'. (internal_step ^^ n) s s' \<and> host s' = [] \<and> executed s' = submitted s'"
proof (induction "work_left s" arbitrary: s rule: less_induct)
  case less
  show ?case
  proof (cases "\<exists>t. internal_step s t")
    case True
    then obtain t where t: "internal_step s t" by blast
    from less.hyps[OF internal_step_work[OF less.prems t] internal_step_inv[OF less.prems t]]
    obtain n s' where "(internal_step ^^ n) t s'" "host s' = []" "executed s' = submitted s'" by blast
    with t have "(internal_step ^^ Suc n) s s'" by (blast intro: relpowp_Suc_I2)
    with \<open>host s' = []\<close> \<open>executed s' = submitted s'\<close> show ?thesis by blast
  next
    case False
    then show ?thesis using settled_when_stuck[OF less.prems] by (metis relpowp_0_I)
  qed
qed

subsection \<open>What the executor promises\<close>

definition executor_reachable :: "'a executor_run \<Rightarrow> bool" where
  "executor_reachable s \<longleftrightarrow>
    (\<exists>m qm host_id worker_id e0. host_id \<noteq> worker_id \<and> host_id \<noteq> worker_thread_id (worker_queue e0)
      \<and> ring_rep (worker_queue e0) 0 [] \<and> executor_steps (executor_start m qm host_id worker_id e0) s)"

lemma executor_reachable_inv: "executor_reachable s \<Longrightarrow> executor_inv s"
  using executor_steps_inv executor_start_inv unfolding executor_reachable_def by blast

lemma executor_reachable_internal: "executor_reachable s \<Longrightarrow> internal_step s s' \<Longrightarrow> executor_reachable s'"
  unfolding executor_reachable_def using executor_internal by blast

lemma executor_reachable_client: "executor_reachable s \<Longrightarrow> client_step s s' \<Longrightarrow> executor_reachable s'"
  unfolding executor_reachable_def using executor_client by blast

text \<open>A concrete executor, started in asynchronous mode, whose host calls \<^verbatim>\<open>synchronize\<close>.\<close>

definition example_executor :: "nat WorkExecutor" where
  "example_executor = new_WorkExecutor IDLE SYNCHRONOUS LOCKFREE 3 0"

definition example_start :: "nat executor_run" where
  "example_start = executor_start ASYNCHRONOUS LOCKFREE 1 2 example_executor"

definition example_synchronizing :: "nat executor_run" where
  "example_synchronizing = example_start\<lparr>host := [C_push Flush, C_notify, C_wait_empty]\<rparr>"

lemma example_start_reachable: "executor_reachable example_start"
proof -
  have "ring_rep (worker_queue example_executor) 0 []" "(1::nat) \<noteq> worker_thread_id (worker_queue example_executor)"
    using new_LockFreeQueue_rep
    by (simp_all add: example_executor_def new_WorkExecutor_def new_LockFreeQueue_def)
  moreover have "executor_steps (executor_start ASYNCHRONOUS LOCKFREE 1 2 example_executor) example_start"
    unfolding example_start_def by (rule executor_none)
  ultimately show ?thesis
    unfolding executor_reachable_def by (metis numeral_One numeral_eq_iff semiring_norm(85))
qed

lemma example_synchronizing_reachable: "executor_reachable example_synchronizing"
proof -
  have "synchronize (host_thread example_start) (executor example_start) = [C_push Flush, C_notify, C_wait_empty]"
    by (simp add: synchronize_def example_start_def executor_start_def executor_initialize_def start_worker_def
      set_worker_queue_mode_def set_lock_free_def Let_def)
  moreover have "host example_start = []"
    by (simp add: example_start_def executor_start_def executor_initialize_def Let_def)
  ultimately show ?thesis
    using executor_reachable_client[OF example_start_reachable client_synchronize]
    by (simp add: example_synchronizing_def)
qed

lemma worker_step_host: "worker_step s s' \<Longrightarrow> host s' = host s"
  by (cases rule: worker_step.cases) auto

lemma host_step_plain:
  "host_step s s' \<Longrightarrow> host s = c # cs \<Longrightarrow> c \<in> {C_push f, C_notify, C_wait_empty} \<Longrightarrow> host s' = cs"
  by (cases rule: host_step.cases) auto

lemma append_at_most_one: "xs @ ys = zs @ [z] \<Longrightarrow> length ys \<le> 1 \<Longrightarrow> xs = zs \<or> xs = zs @ [z]"
  by (cases ys) auto

lemma length_running: "length (running v) \<le> 1"
  by (cases v rule: running.cases) simp_all

lemma host_wait_step:
  "host_step s s' \<Longrightarrow> host s = C_wait_empty # cs
    \<Longrightarrow> queue_empty (worker_queue (executor s)) \<and> executed s' = executed s"
  by (cases rule: host_step.cases) auto

lemma host_join_step:
  "host_step s s' \<Longrightarrow> host s = C_join # cs
    \<Longrightarrow> worker s = V_exited \<and> executed s' = executed s \<and> submitted s' = submitted s
      \<and> worker_state (executor s') = IDLE"
  by (cases rule: host_step.cases) auto

lemma passes_the_wait:
  "(internal_step ^^ n) s s' \<Longrightarrow> host s' = [] \<Longrightarrow> executor_reachable s
    \<Longrightarrow> host s \<in> {[C_push Flush, C_notify, C_wait_empty], [C_notify, C_wait_empty], [C_wait_empty]}
    \<Longrightarrow> \<exists>u u' :: 'a executor_run. executor_reachable u \<and> host u = [C_wait_empty] \<and> host_step u u'"
  for s s' :: "'a executor_run"
proof (induction n arbitrary: s)
  case (Suc n)
  from Suc.prems(1) obtain t where t: "internal_step s t" "(internal_step ^^ n) t s'"
    by (blast elim: relpowp_Suc_E2)
  note IH = Suc.IH[OF t(2) Suc.prems(2) executor_reachable_internal[OF Suc.prems(3) t(1)]]
  show ?case
  proof (cases "worker_step s t")
    case True
    then show ?thesis using IH Suc.prems(4) worker_step_host[OF True] by simp
  next
    case False
    then have st: "host_step s t" using t(1) by (simp add: internal_step_def)
    show ?thesis
    proof (cases "host s = [C_wait_empty]")
      case True
      then show ?thesis using st Suc.prems(3) by blast
    next
      case False
      then have "host t \<in> {[C_notify, C_wait_empty], [C_wait_empty]}"
        using Suc.prems(4) host_step_plain[OF st, of _ _ Flush] by auto
      then show ?thesis using IH by blast
    qed
  qed
qed auto

lemma example_wait:
  "\<exists>u u' :: nat executor_run. executor_reachable u \<and> host u = [C_wait_empty] \<and> host_step u u'"
proof -
  obtain n s' where "(internal_step ^^ n) example_synchronizing s'" "host s' = []"
    using settles[OF executor_reachable_inv[OF example_synchronizing_reachable]] by blast
  from passes_the_wait[OF this example_synchronizing_reachable] show ?thesis
    by (simp add: example_synchronizing_def)
qed

text \<open>(C9) Tasks given to push_work run exactly once, in the order of the calls, whichever thread
  runs them, and none is lost when the mode changes: what has been submitted is what has been run,
  then what the worker is running, then what the queue holds.  The worker never pops from an empty
  queue or calls a null function, and it is never left asleep with work in the queue or a request
  to terminate unless the host is about to notify it.\<close>

theorem executor_no_lost_work:
  assumes "executor_reachable s"
  shows "submitted s = executed s @ running (worker s) @ map the (contents (worker_queue (executor s)))
    \<and> worker s \<noteq> V_null
    \<and> (worker s = V_asleep \<longrightarrow> notifying (host s)
        \<or> queue_empty (worker_queue (executor s)) \<and> worker_state (executor s) \<noteq> TERMINATE)"
proof -
  have inv: "executor_inv s" by (rule executor_reachable_inv[OF assms])
  obtain fs where "contents (worker_queue (executor s)) = map Some fs"
    "submitted s = executed s @ running (worker s) @ fs" using inv_tasks[OF inv] by blast
  then have "submitted s = executed s @ running (worker s) @ map the (contents (worker_queue (executor s)))"
    by (simp add: comp_def)
  then show ?thesis using inv_worker[OF inv] by auto
qed

theorem executor_no_lost_work_witness:
  "submitted example_synchronizing = executed example_synchronizing @ running (worker example_synchronizing)
      @ map the (contents (worker_queue (executor example_synchronizing)))
    \<and> host example_synchronizing \<noteq> []"
  using executor_no_lost_work[OF example_synchronizing_reachable] by (simp add: example_synchronizing_def)

text \<open>(C25) When the wait of synchronize ends, every task submitted before it has been run: the queue is
  empty only after the worker has taken the flush command, and it takes it only after it has run
  what came before.  The same holds when the join of stop_worker ends, for everything submitted.\<close>

theorem synchronize_waits_for_all:
  assumes r: "executor_reachable s" and st: "host_step s s'"
  shows "(host s = C_wait_empty # cs \<longrightarrow>
      (\<exists>fs. submitted s = fs @ [Flush] \<and> (executed s' = fs \<or> executed s' = fs @ [Flush])))
    \<and> (host s = C_join # cs \<longrightarrow> executed s' = submitted s' \<and> worker_state (executor s') = IDLE)"
proof -
  have inv: "executor_inv s" by (rule executor_reachable_inv[OF r])
  obtain gs where gs: "contents (worker_queue (executor s)) = map Some gs"
    "submitted s = executed s @ running (worker s) @ gs" using inv_tasks[OF inv] by blast
  have wait: "\<exists>fs. submitted s = fs @ [Flush] \<and> (executed s' = fs \<or> executed s' = fs @ [Flush])"
    if h: "host s = C_wait_empty # cs"
  proof -
    from host_wait_step[OF st h]
    have e: "queue_empty (worker_queue (executor s))" and ex: "executed s' = executed s" by simp_all
    have "gs = []" using e inv_empty_iff[OF inv] gs by simp
    moreover obtain fs where fs: "submitted s = fs @ [Flush]"
      using inv_flush[OF inv] inv_host[OF inv] h by (auto simp: host_ok_wait)
    ultimately have all: "executed s @ running (worker s) = fs @ [Flush]" using gs(2) by simp
    have "executed s = fs \<or> executed s = fs @ [Flush]"
      by (rule append_at_most_one[OF all length_running])
    with fs show ?thesis unfolding ex by metis
  qed
  have join: "executed s' = submitted s' \<and> worker_state (executor s') = IDLE" if h: "host s = C_join # cs"
  proof -
    from host_join_step[OF st h]
    have v: "worker s = V_exited" and s': "executed s' = executed s" "submitted s' = submitted s"
      "worker_state (executor s') = IDLE" by simp_all
    have "gs = []" using v inv_worker[OF inv] inv_empty_iff[OF inv] gs by simp
    with v s' gs show ?thesis by simp
  qed
  from wait join show ?thesis by blast
qed

theorem synchronize_waits_for_all_witness:
  "\<exists>s s' :: nat executor_run. host s = [C_wait_empty] \<and> host_step s s'
    \<and> (\<exists>fs. submitted s = fs @ [Flush] \<and> (executed s' = fs \<or> executed s' = fs @ [Flush]))"
proof -
  obtain s s' :: "nat executor_run" where "executor_reachable s" "host s = [C_wait_empty]" "host_step s s'"
    using example_wait by blast
  with synchronize_waits_for_all[of s s' "[]"] show ?thesis by blast
qed

text \<open>(C26) Host and worker never block each other: left alone by the client, every run of the two
  threads ends after a bounded number of steps, and it ends only when the host has returned from
  its call (push_work, synchronize, set_worker_mode, reset) and every submitted task has been run.\<close>

theorem executor_settles:
  assumes "executor_reachable s"
  shows "(\<exists>n s'. (internal_step ^^ n) s s' \<and> host s' = [] \<and> executed s' = submitted s')
    \<and> (\<forall>n s'. (internal_step ^^ n) s s' \<longrightarrow> n \<le> work_left s
        \<and> ((\<nexists>t. internal_step s' t) \<longrightarrow> host s' = [] \<and> executed s' = submitted s'))"
proof -
  have inv: "executor_inv s" by (rule executor_reachable_inv[OF assms])
  have "n \<le> work_left s" "(\<nexists>t. internal_step s' t) \<Longrightarrow> host s' = [] \<and> executed s' = submitted s'"
    if "(internal_step ^^ n) s s'" for n s'
    using internal_steps_bounded[OF that inv] settled_when_stuck[of s'] by auto
  with settles[OF inv] show ?thesis by blast
qed

theorem executor_settles_witness:
  "\<exists>n s'. (internal_step ^^ n) example_synchronizing s' \<and> host s' = [] \<and> executed s' = submitted s'"
  using executor_settles[OF example_synchronizing_reachable] by blast

text \<open>Work pushed by the worker itself runs at once, and its synchronize returns at once.\<close>

lemma nested_work_inline:
  assumes "t = worker_thread_id (worker_queue e)"
  shows "push_work t e f blocking = None" "synchronize t e = []"
  using assms by (simp_all add: push_work_def synchronize_def)

text \<open>The move constructor binds the new worker to the core whose number is the device id.\<close>

lemma executor_move_mixes_up_core:
  "cpu_core_for_worker (executor_move m qm (new_WorkExecutor st m' qm' cpu_core device_id)) = device_id"
  by (simp add: executor_move_def new_WorkExecutor_def)

end
