(* ===== verification/Circular_Buffer.thy ===== *)
theory Circular_Buffer
  imports Buffers Core_Range_Merge Data_Formats
begin

text \<open>
  Circular buffers: the configuration class of
  \<^verbatim>\<open>tt_metal/impl/buffers/circular_buffer_types.hpp\<close> and the class of \<^verbatim>\<open>circular_buffer.cpp\<close>.

  The arrays indexed by buffer index are lists of \<^verbatim>\<open>NUM_CIRCULAR_BUFFERS\<close> options; the
  specification of data formats, a \<^verbatim>\<open>std::map\<close>, is a list of pairs in the order of its keys.  The
  pointer to the L1 buffer under a dynamic circular buffer is a number, and a function gives the
  buffer it points to.  A member no constructor initialises is \<open>None\<close> until it is assigned.
\<close>

subsection \<open>Configuration\<close>

definition NUM_CIRCULAR_BUFFERS :: nat where
  "NUM_CIRCULAR_BUFFERS = 32"

record CircularBufferConfig =
  total_size :: nat
  globally_allocated_address :: "nat option"
  data_formats :: "DataFormat option list"
  page_sizes :: "nat option list"
  tiles :: "Tile option list"
  config_buffer_indices :: "nat set"
  dynamic_cb :: bool
  max_size :: "nat option"
  shadow_global_buffer :: "nat option"

definition config_fields :: "nat \<Rightarrow> CircularBufferConfig" where
  "config_fields total_sz =
    \<lparr>total_size = total_sz, globally_allocated_address = None,
     data_formats = replicate NUM_CIRCULAR_BUFFERS None, page_sizes = replicate NUM_CIRCULAR_BUFFERS None,
     tiles = replicate NUM_CIRCULAR_BUFFERS None, config_buffer_indices = {}, dynamic_cb = False,
     max_size = None, shadow_global_buffer = None\<rparr>"

fun set_config_loop :: "(nat \<times> DataFormat) list \<Rightarrow> CircularBufferConfig \<Rightarrow> CircularBufferConfig result" where
  "set_config_loop [] c = Inr c"
| "set_config_loop ((buffer_index, data_format) # spec) c =
    (if buffer_index > NUM_CIRCULAR_BUFFERS - 1
     then Inl (TT_THROW ''Buffer index exceeds max number of circular buffers per core'')
     else set_config_loop spec
       (c\<lparr>data_formats := (data_formats c)[buffer_index := Some data_format],
          config_buffer_indices := insert buffer_index (config_buffer_indices c)\<rparr>))"

definition set_config :: "(nat \<times> DataFormat) list \<Rightarrow> CircularBufferConfig \<Rightarrow> CircularBufferConfig result" where
  "set_config spec c =
    (if length spec > NUM_CIRCULAR_BUFFERS
     then Inl (TT_THROW ''More data formats than circular buffer slots'')
     else set_config_loop spec c)"

definition static_config :: "nat \<Rightarrow> (nat \<times> DataFormat) list \<Rightarrow> CircularBufferConfig result" where
  "static_config total_sz spec = set_config spec (config_fields total_sz)"

definition set_globally_allocated_address ::
  "nat \<Rightarrow> Buffer \<Rightarrow> CircularBufferConfig \<Rightarrow> CircularBufferConfig result" where
  "set_globally_allocated_address p buffer c =
    (if \<not> is_l1 buffer
     then Inl (TT_THROW ''Only L1 buffers can have an associated circular buffer!'')
     else Inr (c\<lparr>globally_allocated_address := Some (buffer_address buffer), dynamic_cb := True,
       max_size := Some (u32 (buf_size buffer)), shadow_global_buffer := Some p\<rparr>))"

definition dynamic_config ::
  "nat \<Rightarrow> (nat \<times> DataFormat) list \<Rightarrow> nat \<Rightarrow> Buffer \<Rightarrow> CircularBufferConfig result" where
  "dynamic_config total_sz spec p buffer =
    (let c = (config_fields total_sz)\<lparr>dynamic_cb := True, max_size := Some (u32 (buf_size buffer))\<rparr> in
     if \<not> is_l1 buffer
     then Inl (TT_THROW ''Only L1 buffers can have an associated circular buffer!'')
     else if total_sz > buf_size buffer
     then Inl (TT_THROW ''Dynamic circular buffer cannot be larger than allocated L1 buffer'')
     else rbind (set_globally_allocated_address p buffer c) (\<lambda>c. set_config spec c))"

definition cfg_set_page_size :: "nat \<Rightarrow> nat \<Rightarrow> CircularBufferConfig \<Rightarrow> CircularBufferConfig result" where
  "cfg_set_page_size buffer_index page_size c =
    (if buffer_index > NUM_CIRCULAR_BUFFERS - 1
     then Inl (TT_THROW ''Buffer index exceeds max number of circular buffers per core'')
     else if buffer_index \<notin> config_buffer_indices c
     then Inl (TT_THROW ''Page size can only be specified for buffer indices configured during config creation'')
     else rbind (umod (total_size c) page_size) (\<lambda>r.
       if r \<noteq> 0 then Inl (TT_THROW ''Total circular buffer size must be divisible by page size'')
       else if page_size mod 4 \<noteq> 0
       then Inl (TT_THROW ''Page size must be divisible by sizeof(uint32_t)'')
       else Inr (c\<lparr>page_sizes := (page_sizes c)[buffer_index := Some page_size]\<rparr>)))"

definition set_total_size :: "nat \<Rightarrow> CircularBufferConfig \<Rightarrow> CircularBufferConfig result" where
  "set_total_size total_sz c =
    rbind (if dynamic_cb c then
             (case max_size c of None \<Rightarrow> Inl Out_of_range
              | Some m \<Rightarrow> check (total_sz \<le> m) (TT_THROW ''Cannot grow circular buffer beyond associated L1 buffer''))
           else Inr ()) (\<lambda>_.
    if total_sz = 0 then Inl (TT_THROW ''Total size for circular buffer must be non-zero!'')
    else Inr (c\<lparr>total_size := total_sz\<rparr>))"

definition set_tile_dims :: "nat \<Rightarrow> Tile \<Rightarrow> CircularBufferConfig \<Rightarrow> CircularBufferConfig result" where
  "set_tile_dims buffer_index t c =
    (if buffer_index < NUM_CIRCULAR_BUFFERS then Inr (c\<lparr>tiles := (tiles c)[buffer_index := Some t]\<rparr>)
     else Inl (Undefined ''index of tiles''))"

subsection \<open>Circular buffers\<close>

record CircularBuffer =
  cb_core_ranges :: "CoreRange list"
  cb_config :: CircularBufferConfig
  cb_buffer_indices :: "nat list"
  locally_allocated_address :: "nat option"
  cb_global_address :: "nat option"

definition globally_allocated :: "CircularBuffer \<Rightarrow> bool" where
  "globally_allocated cb = (globally_allocated_address (cb_config cb) \<noteq> None)"

definition cb_size :: "CircularBuffer \<Rightarrow> nat" where
  "cb_size cb = total_size (cb_config cb)"

fun collect_indices :: "nat list \<Rightarrow> CircularBufferConfig \<Rightarrow> nat list \<Rightarrow> nat list result" where
  "collect_indices [] c ids = Inr ids"
| "collect_indices (i # is) c ids =
    rbind (at (data_formats c) i) (\<lambda>data_format_spec.
    rbind (at (page_sizes c) i) (\<lambda>page_size_spec.
    let df_set = data_format_spec \<noteq> None; ps_set = page_size_spec \<noteq> None in
    if df_set \<noteq> ps_set
    then Inl (TT_THROW ''Expected both data format and page size to be set for buffer index'')
    else collect_indices is c (if df_set \<and> ps_set then ids @ [i] else ids)))"

definition new_CircularBuffer :: "CoreRange list \<Rightarrow> CircularBufferConfig \<Rightarrow> CircularBuffer result" where
  "new_CircularBuffer core_ranges cfg =
    (if total_size cfg = 0
     then Inl (TT_THROW ''Circular buffer size cannot be 0 B'')
     else rbind (collect_indices [0..<NUM_CIRCULAR_BUFFERS] cfg []) (\<lambda>ids.
       Inr \<lparr>cb_core_ranges = core_ranges, cb_config = cfg, cb_buffer_indices = ids,
         locally_allocated_address = None,
         cb_global_address = globally_allocated_address cfg\<rparr>))"

definition is_on_logical_corerange :: "CircularBuffer \<Rightarrow> CoreRange \<Rightarrow> bool result" where
  "is_on_logical_corerange cb cr = set_intersects (cb_core_ranges cb) cr"

definition is_on_logical_core :: "CircularBuffer \<Rightarrow> CoreCoord \<Rightarrow> bool" where
  "is_on_logical_core cb c = core_coord_in_core_ranges (cb_core_ranges cb) c"

definition uses_buffer_index :: "CircularBuffer \<Rightarrow> nat \<Rightarrow> bool" where
  "uses_buffer_index cb i = (i \<in> set (cb_buffer_indices cb))"

definition cb_page_size :: "CircularBuffer \<Rightarrow> nat \<Rightarrow> nat result" where
  "cb_page_size cb i =
    (if \<not> uses_buffer_index cb i
     then Inl (TT_THROW ''Cannot access page size: circular buffer is not configured on that index'')
     else rbind (at (page_sizes (cb_config cb)) i) (\<lambda>ps.
       case ps of None \<Rightarrow> Inl Out_of_range
       | Some page_size \<Rightarrow> rbind (umod (cb_size cb) page_size) (\<lambda>r.
           if r \<noteq> 0 then Inl (TT_THROW ''Total circular buffer size must be divisible by page size'')
           else Inr page_size)))"

definition cb_num_pages :: "CircularBuffer \<Rightarrow> nat \<Rightarrow> nat result" where
  "cb_num_pages cb i = rbind (cb_page_size cb i) (\<lambda>ps. udiv (cb_size cb) ps)"

definition cb_data_format :: "CircularBuffer \<Rightarrow> nat \<Rightarrow> DataFormat result" where
  "cb_data_format cb i =
    (if \<not> uses_buffer_index cb i
     then Inl (TT_THROW ''Cannot access data format: circular buffer is not configured on that index'')
     else rbind (at (data_formats (cb_config cb)) i) (\<lambda>df.
       case df of None \<Rightarrow> Inl Out_of_range | Some d \<Rightarrow> Inr d))"

definition cb_tile :: "CircularBuffer \<Rightarrow> nat \<Rightarrow> Tile option result" where
  "cb_tile cb i =
    (if \<not> uses_buffer_index cb i
     then Inl (TT_THROW ''Cannot access tile dims: circular buffer is not configured on that index'')
     else at (tiles (cb_config cb)) i)"

definition cb_address :: "CircularBuffer \<Rightarrow> nat result" where
  "cb_address cb =
    (if locally_allocated_address cb = None \<and> \<not> globally_allocated cb
     then Inl (TT_THROW ''Circular buffer has not been allocated, cannot request address at this time!'')
     else if globally_allocated cb
     then (case cb_global_address cb of None \<Rightarrow> Inl (Undefined ''uninitialised address'') | Some a \<Rightarrow> Inr a)
     else Inr (the (locally_allocated_address cb)))"

text \<open>\<^verbatim>\<open>EnqueueGetBufferAddr\<close> reads the address of the buffer the pointer names.\<close>

definition assign_global_address :: "(nat \<Rightarrow> Buffer) \<Rightarrow> CircularBuffer \<Rightarrow> CircularBuffer result" where
  "assign_global_address buffers cb =
    (case shadow_global_buffer (cb_config cb) of
       None \<Rightarrow> Inl (Undefined ''uninitialised pointer'')
     | Some p \<Rightarrow> Inr (cb\<lparr>cb_global_address := Some (buffer_address (buffers p))\<rparr>))"

definition set_locally_allocated_address :: "nat \<Rightarrow> CircularBuffer \<Rightarrow> CircularBuffer" where
  "set_locally_allocated_address addr cb = cb\<lparr>locally_allocated_address := Some (u32 addr)\<rparr>"

end
