(* ===== verification/Program_State.thy ===== *)
theory Program_State
  imports Circular_Buffer
begin

text \<open>
  The part of a program that lays out the L1 memory of its cores: circular buffers and semaphores
  (\<^verbatim>\<open>tt_metal/impl/program/program.cpp\<close>, \<^verbatim>\<open>impl/buffers/semaphore.cpp\<close> and the functions of
  \<^verbatim>\<open>tt_metal.cpp\<close> that create them).

  The circular buffers of a program are shared objects: \<open>circular_buffers\<close> lists their handles in
  the order of creation and \<open>circular_buffer_by_id\<close> is the store the handles refer to.  The handle
  of a new object is an argument.  An operation that can throw after it has changed the program
  returns the error, if any, beside the state it leaves.  Kernels, kernel groups and the rest of
  the class are not modelled; the core type is an enumeration of the driver library, here a number.
\<close>

subsection \<open>State\<close>

definition NUM_SEMAPHORES :: nat where
  "NUM_SEMAPHORES = 8"

record Semaphore =
  core_range_set :: "CoreRange list"
  sem_id :: nat
  initial_value :: nat
  sem_core_type :: nat

record CircularBufferAllocator =
  alloc_core_range :: CoreRange
  l1_regions :: "(nat \<times> nat) list"

record Program =
  circular_buffers :: "nat list"
  circular_buffer_by_id :: "nat \<rightharpoonup> CircularBuffer"
  per_core_cb_indices :: "CoreCoord \<rightharpoonup> bool list"
  cb_allocators :: "CircularBufferAllocator list"
  semaphores :: "Semaphore list"
  compiled :: "nat set"
  local_circular_buffer_allocation_needed :: bool

definition new_Program :: Program where
  "new_Program =
    \<lparr>circular_buffers = [], circular_buffer_by_id = Map.empty, per_core_cb_indices = Map.empty,
     cb_allocators = [], semaphores = [], compiled = {}, local_circular_buffer_allocation_needed = False\<rparr>"

text \<open>The cores of a range as the nested loops of the source list them.\<close>

definition loop_cores :: "CoreRange \<Rightarrow> CoreCoord list" where
  "loop_cores r = concat (map (\<lambda>x. map (CoreCoord x) [cy (start_coord r)..<Suc (cy (end_coord r))])
    [cx (start_coord r)..<Suc (cx (end_coord r))])"

subsection \<open>One allocator per core range\<close>

definition get_cb_region_end :: "CircularBufferAllocator \<Rightarrow> nat" where
  "get_cb_region_end a = (if l1_regions a = [] then 0 else snd (last (l1_regions a)))"

definition mark_address ::
  "nat \<Rightarrow> nat \<Rightarrow> nat \<Rightarrow> CircularBufferAllocator \<Rightarrow> error option \<times> CircularBufferAllocator" where
  "mark_address addr sz base_address a =
    (let a = (if l1_regions a = [] then a\<lparr>l1_regions := [(base_address, base_address)]\<rparr> else a);
         last_region = last (l1_regions a)
     in if addr < snd last_region
        then (Some (TT_THROW ''Local buffer address has to append to last L1 region or be at a higher address''), a)
        else if addr = snd last_region
        then (None, a\<lparr>l1_regions := butlast (l1_regions a) @ [(fst last_region, add64 (snd last_region) sz)]\<rparr>)
        else (None, a\<lparr>l1_regions := l1_regions a @ [(addr, add64 addr sz)]\<rparr>))"

definition reset_available_addresses :: "CircularBufferAllocator \<Rightarrow> CircularBufferAllocator" where
  "reset_available_addresses a = a\<lparr>l1_regions := []\<rparr>"

definition invalidate_circular_buffer_allocation :: "Program \<Rightarrow> Program" where
  "invalidate_circular_buffer_allocation p =
    (if local_circular_buffer_allocation_needed p then p
     else p\<lparr>cb_allocators := map reset_available_addresses (cb_allocators p),
            local_circular_buffer_allocation_needed := True\<rparr>)"

subsection \<open>Adding circular buffers\<close>

fun mark_indices :: "nat list \<Rightarrow> bool list \<Rightarrow> error option \<times> bool list" where
  "mark_indices [] cb_indices = (None, cb_indices)"
| "mark_indices (buffer_index # is) cb_indices =
    (if buffer_index > NUM_CIRCULAR_BUFFERS then (Some (TT_THROW ''Invalid circular buffer index''), cb_indices)
     else if buffer_index = NUM_CIRCULAR_BUFFERS then (Some (Undefined ''shift by 32''), cb_indices)
     else if cb_indices ! buffer_index
     then (Some (TT_THROW ''Cannot add circular buffer at index, another circular buffer already exists''), cb_indices)
     else mark_indices is (cb_indices[buffer_index := True]))"

fun mark_cores ::
  "nat list \<Rightarrow> CoreCoord list \<Rightarrow> (CoreCoord \<rightharpoonup> bool list) \<Rightarrow> error option \<times> (CoreCoord \<rightharpoonup> bool list)" where
  "mark_cores is [] m = (None, m)"
| "mark_cores is (c # cs) m =
    (let cb_indices = (case m c of None \<Rightarrow> replicate NUM_CIRCULAR_BUFFERS False | Some b \<Rightarrow> b) in
     case mark_indices is cb_indices of
       (Some e, b) \<Rightarrow> (Some e, m(c \<mapsto> b))
     | (None, b) \<Rightarrow> mark_cores is cs (m(c \<mapsto> b)))"

definition add_cb_allocator :: "CoreRange \<Rightarrow> CircularBufferAllocator list \<Rightarrow> CircularBufferAllocator list" where
  "add_cb_allocator core_range as =
    (case find (\<lambda>a. alloc_core_range a = core_range) as of
       None \<Rightarrow> as @ [\<lparr>alloc_core_range = core_range, l1_regions = []\<rparr>]
     | Some _ \<Rightarrow> as)"

fun add_core_ranges :: "nat list \<Rightarrow> CoreRange list \<Rightarrow> Program \<Rightarrow> error option \<times> Program" where
  "add_core_ranges is [] p = (None, p)"
| "add_core_ranges is (core_range # rs) p =
    (case mark_cores is (loop_cores core_range) (per_core_cb_indices p) of
       (Some e, m) \<Rightarrow> (Some e, p\<lparr>per_core_cb_indices := m\<rparr>)
     | (None, m) \<Rightarrow> add_core_ranges is rs
         (p\<lparr>per_core_cb_indices := m, cb_allocators := add_cb_allocator core_range (cb_allocators p)\<rparr>))"

definition add_circular_buffer ::
  "(nat \<Rightarrow> Buffer) \<Rightarrow> nat \<Rightarrow> CoreRange list \<Rightarrow> CircularBufferConfig \<Rightarrow> Program \<Rightarrow> nat result \<times> Program" where
  "add_circular_buffer buffers new_id core_ranges cfg p =
    (if compiled p \<noteq> {} then (Inl (TT_FATAL ''Cannot add circular buffer to an already compiled program''), p)
     else case new_CircularBuffer core_ranges cfg of
       Inl e \<Rightarrow> (Inl e, p)
     | Inr cb \<Rightarrow>
         let p1 = (if \<not> globally_allocated cb then invalidate_circular_buffer_allocation p else p) in
         case (if globally_allocated cb then assign_global_address buffers cb else Inr cb) of
           Inl e \<Rightarrow> (Inl e, p1)
         | Inr cb \<Rightarrow>
             (case add_core_ranges (cb_buffer_indices cb) core_ranges p1 of
                (Some e, p2) \<Rightarrow> (Inl e, p2)
              | (None, p2) \<Rightarrow> (Inr new_id,
                  p2\<lparr>circular_buffers := circular_buffers p2 @ [new_id],
                     circular_buffer_by_id := (circular_buffer_by_id p2)(new_id \<mapsto> cb)\<rparr>)))"

definition get_circular_buffer :: "nat \<Rightarrow> Program \<Rightarrow> CircularBuffer result" where
  "get_circular_buffer cb_id p =
    (case circular_buffer_by_id p cb_id of
       None \<Rightarrow> Inl (TT_THROW ''No circular buffer with id exists in Program'')
     | Some cb \<Rightarrow> Inr cb)"

definition put_circular_buffer :: "nat \<Rightarrow> CircularBuffer \<Rightarrow> Program \<Rightarrow> Program" where
  "put_circular_buffer h cb p = p\<lparr>circular_buffer_by_id := (circular_buffer_by_id p)(h \<mapsto> cb)\<rparr>"

definition circular_buffers_on_core :: "CoreCoord \<Rightarrow> Program \<Rightarrow> nat list" where
  "circular_buffers_on_core core p =
    filter (\<lambda>h. is_on_logical_core (the (circular_buffer_by_id p h)) core) (circular_buffers p)"

definition circular_buffers_unique_coreranges :: "Program \<Rightarrow> CoreRange list" where
  "circular_buffers_unique_coreranges p =
    foldl (\<lambda>rs h. foldl (\<lambda>rs r. if r \<in> set rs then rs else rs @ [r]) rs
      (cb_core_ranges (the (circular_buffer_by_id p h)))) [] (circular_buffers p)"

subsection \<open>Updates through the host API\<close>

definition UpdateCircularBufferTotalSize :: "nat \<Rightarrow> nat \<Rightarrow> Program \<Rightarrow> unit result \<times> Program" where
  "UpdateCircularBufferTotalSize h total_sz p =
    (case get_circular_buffer h p of
       Inl e \<Rightarrow> (Inl e, p)
     | Inr cb \<Rightarrow>
         let p = (if \<not> globally_allocated cb then invalidate_circular_buffer_allocation p else p) in
         case set_total_size total_sz (cb_config cb) of
           Inl e \<Rightarrow> (Inl e, p)
         | Inr c \<Rightarrow> (Inr (), put_circular_buffer h (cb\<lparr>cb_config := c\<rparr>) p))"

definition UpdateCircularBufferPageSize :: "nat \<Rightarrow> nat \<Rightarrow> nat \<Rightarrow> Program \<Rightarrow> unit result \<times> Program" where
  "UpdateCircularBufferPageSize h buffer_index page_size p =
    (case get_circular_buffer h p of
       Inl e \<Rightarrow> (Inl e, p)
     | Inr cb \<Rightarrow>
         (case cfg_set_page_size buffer_index page_size (cb_config cb) of
            Inl e \<Rightarrow> (Inl e, p)
          | Inr c \<Rightarrow> (Inr (), put_circular_buffer h (cb\<lparr>cb_config := c\<rparr>) p)))"

definition UpdateDynamicCircularBufferAddress ::
  "(nat \<Rightarrow> Buffer) \<Rightarrow> nat \<Rightarrow> nat \<Rightarrow> Program \<Rightarrow> unit result \<times> Program" where
  "UpdateDynamicCircularBufferAddress buffers h b p =
    (case get_circular_buffer h p of
       Inl e \<Rightarrow> (Inl e, p)
     | Inr cb \<Rightarrow>
         (case set_globally_allocated_address b (buffers b) (cb_config cb) of
            Inl e \<Rightarrow> (Inl e, p)
          | Inr c \<Rightarrow>
              (case assign_global_address buffers (cb\<lparr>cb_config := c\<rparr>) of
                 Inl e \<Rightarrow> (Inl e, put_circular_buffer h (cb\<lparr>cb_config := c\<rparr>) p)
               | Inr cb \<Rightarrow> (Inr (), put_circular_buffer h cb p))))"

subsection \<open>Allocation\<close>

definition computed_address :: "nat \<Rightarrow> CoreRange list \<Rightarrow> CircularBufferAllocator list \<Rightarrow> nat" where
  "computed_address base core_ranges as =
    foldl (\<lambda>addr core_range.
        case find (\<lambda>a. alloc_core_range a = core_range) as of
          None \<Rightarrow> addr
        | Some a \<Rightarrow> max addr (get_cb_region_end a)) base core_ranges"

fun mark_allocators ::
  "CoreRange \<Rightarrow> nat \<Rightarrow> nat \<Rightarrow> nat \<Rightarrow> CircularBufferAllocator list \<Rightarrow> error option \<times> CircularBufferAllocator list" where
  "mark_allocators core_range addr sz base [] = (None, [])"
| "mark_allocators core_range addr sz base (a # as) =
    (case range_intersects (alloc_core_range a) core_range of
       Inl e \<Rightarrow> (Some e, a # as)
     | Inr i \<Rightarrow>
         if i \<noteq> None \<and> \<not> (alloc_core_range a \<noteq> core_range \<and> addr < get_cb_region_end a)
         then (case mark_address addr sz base a of
                 (Some e, a') \<Rightarrow> (Some e, a' # as)
               | (None, a') \<Rightarrow> map_prod id ((#) a') (mark_allocators core_range addr sz base as))
         else map_prod id ((#) a) (mark_allocators core_range addr sz base as))"

fun mark_ranges ::
  "CoreRange list \<Rightarrow> nat \<Rightarrow> nat \<Rightarrow> nat \<Rightarrow> CircularBufferAllocator list \<Rightarrow> error option \<times> CircularBufferAllocator list" where
  "mark_ranges [] addr sz base as = (None, as)"
| "mark_ranges (core_range # rs) addr sz base as =
    (case mark_allocators core_range addr sz base as of
       (Some e, as) \<Rightarrow> (Some e, as)
     | (None, as) \<Rightarrow> mark_ranges rs addr sz base as)"

fun allocate_loop :: "nat \<Rightarrow> nat list \<Rightarrow> Program \<Rightarrow> error option \<times> Program" where
  "allocate_loop base [] p = (None, p)"
| "allocate_loop base (h # hs) p =
    (let cb = the (circular_buffer_by_id p h) in
     if globally_allocated cb then allocate_loop base hs p
     else let addr = computed_address base (cb_core_ranges cb) (cb_allocators p) in
       case mark_ranges (cb_core_ranges cb) addr (cb_size cb) base (cb_allocators p) of
         (Some e, as) \<Rightarrow> (Some e, p\<lparr>cb_allocators := as\<rparr>)
       | (None, as) \<Rightarrow> allocate_loop base hs
           (put_circular_buffer h (set_locally_allocated_address addr cb) (p\<lparr>cb_allocators := as\<rparr>)))"

definition allocate_circular_buffers :: "nat \<Rightarrow> Program \<Rightarrow> error option \<times> Program" where
  "allocate_circular_buffers base p =
    (if \<not> local_circular_buffer_allocation_needed p then (None, p)
     else case allocate_loop base (circular_buffers p) p of
       (Some e, p) \<Rightarrow> (Some e, p)
     | (None, p) \<Rightarrow> (None, p\<lparr>local_circular_buffer_allocation_needed := False\<rparr>))"

text \<open>\<open>lowest_address\<close>: what the L1 allocator answers for the first bank of a compute core.\<close>

fun validate_allocators :: "nat \<Rightarrow> nat option \<Rightarrow> CircularBufferAllocator list \<Rightarrow> unit result" where
  "validate_allocators max_l1_size lowest_address [] = Inr ()"
| "validate_allocators max_l1_size lowest_address (a # as) =
    (if l1_regions a = [] then validate_allocators max_l1_size lowest_address as
     else let cb_region_end = snd (last (l1_regions a)) in
       if cb_region_end > max_l1_size
       then Inl (TT_THROW ''Statically allocated circular buffers grow beyond max L1 size'')
       else if (case lowest_address of None \<Rightarrow> False | Some l \<Rightarrow> l < cb_region_end)
       then Inl (TT_THROW ''Statically allocated circular buffers clash with L1 buffers'')
       else validate_allocators max_l1_size lowest_address as)"

definition validate_circular_buffer_region :: "Allocator \<Rightarrow> CoreCoord \<Rightarrow> nat \<Rightarrow> Program \<Rightarrow> unit result" where
  "validate_circular_buffer_region al compute_core l1_size_per_core p =
    rbind (bank_ids_from_logical_core al L1 compute_core) (\<lambda>bank_ids.
    rbind (vec_get bank_ids 0) (\<lambda>bank_id.
    rbind (lowest_occupied_l1_address al bank_id) (\<lambda>lowest_address.
    validate_allocators l1_size_per_core lowest_address (cb_allocators p))))"

subsection \<open>Semaphores\<close>

definition initialized_on_logical_core :: "Semaphore \<Rightarrow> CoreCoord \<Rightarrow> bool" where
  "initialized_on_logical_core s c = core_coord_in_core_ranges (core_range_set s) c"

definition sem_offset :: "nat \<Rightarrow> Semaphore \<Rightarrow> nat" where
  "sem_offset l1_alignment s = mul32 l1_alignment (sem_id s)"

definition semaphores_on_core :: "Program \<Rightarrow> CoreCoord \<Rightarrow> Semaphore list" where
  "semaphores_on_core p c = filter (\<lambda>s. initialized_on_logical_core s c) (semaphores p)"

definition num_semaphores :: "Program \<Rightarrow> CoreCoord \<Rightarrow> nat" where
  "num_semaphores p c = length (semaphores_on_core p c)"

fun count_semaphores :: "Semaphore list \<Rightarrow> nat list \<Rightarrow> nat list result" where
  "count_semaphores [] histogram = Inr histogram"
| "count_semaphores (s # ss) histogram =
    rbind (vec_get histogram (sem_id s)) (\<lambda>n.
    rbind (vec_set histogram (sem_id s) (add32 n 1)) (\<lambda>histogram.
    count_semaphores ss histogram))"

fun semaphore_histogram :: "Program \<Rightarrow> CoreCoord list \<Rightarrow> nat list \<Rightarrow> nat list result" where
  "semaphore_histogram p [] histogram = Inr histogram"
| "semaphore_histogram p (c # cs) histogram =
    (let ss = semaphores_on_core p c in
     if length ss = NUM_SEMAPHORES
     then Inl (TT_THROW ''Cannot add semaphore on core. Max number of semaphores reached!'')
     else rbind (count_semaphores ss histogram) (\<lambda>histogram. semaphore_histogram p cs histogram))"

definition get_semaphore_id :: "Program \<Rightarrow> CoreRange \<Rightarrow> nat result" where
  "get_semaphore_id p core_range =
    rbind (semaphore_histogram p (loop_cores core_range) (replicate NUM_SEMAPHORES 0)) (\<lambda>histogram.
    case find (\<lambda>i. histogram ! i = 0) [0..<length histogram] of
      None \<Rightarrow> Inl (TT_THROW ''Unable to initialize semaphores on core range'')
    | Some i \<Rightarrow> Inr i)"

definition add_semaphore :: "CoreRange list \<Rightarrow> nat \<Rightarrow> nat \<Rightarrow> nat \<Rightarrow> Program \<Rightarrow> Program result" where
  "add_semaphore crs i init_value core_type p =
    (if compiled p \<noteq> {} then Inl (TT_FATAL ''Cannot add semaphore to an already compiled program'')
     else Inr (p\<lparr>semaphores := semaphores p @
       [\<lparr>core_range_set = crs, sem_id = i, initial_value = init_value, sem_core_type = core_type\<rparr>]\<rparr>))"

fun max_semaphore_id :: "Program \<Rightarrow> CoreRange list \<Rightarrow> nat option \<Rightarrow> nat option result" where
  "max_semaphore_id p [] sid = Inr sid"
| "max_semaphore_id p (r # rs) sid =
    rbind (get_semaphore_id p r) (\<lambda>candidate.
    max_semaphore_id p rs (Some (case sid of None \<Rightarrow> candidate | Some i \<Rightarrow> max i candidate)))"

definition CreateSemaphore :: "CoreRange list \<Rightarrow> nat \<Rightarrow> nat \<Rightarrow> Program \<Rightarrow> (nat \<times> Program) result" where
  "CreateSemaphore crs init_value core_type p =
    rbind (check (length crs > 0) (TT_FATAL ''Expecting a non-empty CoreRangeSet!'')) (\<lambda>_.
    rbind (max_semaphore_id p crs None) (\<lambda>sid.
    case sid of
      None \<Rightarrow> Inl (TT_FATAL ''Unable to initialize Semaphore!'')
    | Some i \<Rightarrow> rbind (add_semaphore crs i init_value core_type p) (\<lambda>p. Inr (i, p))))"

text \<open>\<open>finalize_sems\<close>: the size of the semaphore area, and the offset behind it.\<close>

definition finalize_sems :: "nat \<Rightarrow> nat \<Rightarrow> nat \<Rightarrow> Program \<Rightarrow> nat \<times> nat" where
  "finalize_sems l1_alignment core_type base_offset p =
    (let max_id = foldl (\<lambda>m s. if sem_core_type s = core_type \<and> int (sem_id s) > m then int (sem_id s) else m)
           (-1) (semaphores p);
         sem_size = mul32 (nat (max_id + 1)) l1_alignment
     in (sem_size, add32 base_offset sem_size))"

end
