(* ===== verification/Circular_Buffer_Props.thy ===== *)
theory Circular_Buffer_Props
  imports Program_State "HOL-Library.Code_Target_Nat"
begin

text \<open>
  Where a program places its circular buffers: the allocation always returns, and two circular
  buffers that share a core do not overlap if the core ranges of the program are disjoint; if they
  intersect, they can.
\<close>

subsection \<open>Marking an allocator\<close>

definition crs_ok :: "CoreRange list \<Rightarrow> bool" where
  "crs_ok rs \<longleftrightarrow> distinct rs \<and> (\<forall>r\<in>set rs. valid_range r) \<and> disjoint_ranges (set rs)"

abbreviation ranges_of :: "CircularBufferAllocator list \<Rightarrow> CoreRange set" where
  "ranges_of as \<equiv> set (map alloc_core_range as)"

definition mark_one ::
  "nat \<Rightarrow> nat \<Rightarrow> nat \<Rightarrow> CoreRange \<Rightarrow> CircularBufferAllocator \<Rightarrow> CircularBufferAllocator" where
  "mark_one addr sz base cr a =
    (if cells (alloc_core_range a) \<inter> cells cr \<noteq> {}
        \<and> \<not> (alloc_core_range a \<noteq> cr \<and> addr < get_cb_region_end a)
     then snd (mark_address addr sz base a) else a)"

definition mark_all ::
  "nat \<Rightarrow> nat \<Rightarrow> nat \<Rightarrow> CoreRange list \<Rightarrow> CircularBufferAllocator \<Rightarrow> CircularBufferAllocator" where
  "mark_all addr sz base rs a = fold (mark_one addr sz base) rs a"

lemma mark_address_range [simp]: "alloc_core_range (snd (mark_address addr sz base a)) = alloc_core_range a"
  by (simp add: mark_address_def Let_def)

lemma mark_address_ok:
  assumes "get_cb_region_end a \<le> addr" "base \<le> addr"
  shows "mark_address addr sz base a = (None, snd (mark_address addr sz base a))"
    and "get_cb_region_end (snd (mark_address addr sz base a)) = add64 addr sz"
  using assms by (auto simp: mark_address_def get_cb_region_end_def Let_def)

lemma mark_one_range [simp]: "alloc_core_range (mark_one addr sz base cr a) = alloc_core_range a"
  by (simp add: mark_one_def)

lemma mark_all_range [simp]: "alloc_core_range (mark_all addr sz base rs a) = alloc_core_range a"
  unfolding mark_all_def by (induction rs arbitrary: a) simp_all

lemma mark_one_disjoint: "cells (alloc_core_range a) \<inter> cells cr = {} \<Longrightarrow> mark_one addr sz base cr a = a"
  by (simp add: mark_one_def)

lemma mark_all_disjoint:
  "\<forall>cr\<in>set rs. cells (alloc_core_range a) \<inter> cells cr = {} \<Longrightarrow> mark_all addr sz base rs a = a"
  unfolding mark_all_def by (induction rs) (simp_all add: mark_one_disjoint)

lemma valid_cells_ne: "valid_range r \<Longrightarrow> cells r \<noteq> {}"
  using cells_nonempty by blast

lemma mark_all_own:
  assumes ok: "crs_ok rs" and r: "alloc_core_range a \<in> set rs"
    and e: "get_cb_region_end a \<le> addr" "base \<le> addr"
  shows "get_cb_region_end (mark_all addr sz base rs a) = add64 addr sz"
proof -
  let ?r = "alloc_core_range a"
  from split_list[OF r] obtain xs ys where rs: "rs = xs @ ?r # ys" by blast
  have d: "\<forall>cr\<in>set xs \<union> set ys. cells ?r \<inter> cells cr = {}"
  proof
    fix cr assume cr: "cr \<in> set xs \<union> set ys"
    then have "cr \<noteq> ?r" using ok rs by (auto simp: crs_ok_def)
    then show "cells ?r \<inter> cells cr = {}" using ok rs cr by (simp add: crs_ok_def disjoint_ranges_def)
  qed
  have "valid_range ?r" using ok r by (simp add: crs_ok_def)
  then have "cells ?r \<noteq> {}" by (rule valid_cells_ne)
  then have m: "mark_one addr sz base ?r a = snd (mark_address addr sz base a)" by (simp add: mark_one_def)
  have "mark_all addr sz base rs a = mark_all addr sz base ys (snd (mark_address addr sz base a))"
    using mark_all_disjoint[of xs a addr sz base] d m rs by (simp add: mark_all_def)
  also have "\<dots> = snd (mark_address addr sz base a)"
    by (rule mark_all_disjoint) (use d in simp)
  finally show ?thesis using mark_address_ok(2)[OF e] by simp
qed

lemma mark_allocators_eq:
  assumes "valid_range cr" "base \<le> addr"
    and "\<forall>a\<in>set as. valid_range (alloc_core_range a) \<and> (alloc_core_range a = cr \<longrightarrow> get_cb_region_end a \<le> addr)"
  shows "mark_allocators cr addr sz base as = (None, map (mark_one addr sz base cr) as)"
  using assms(3)
proof (induction as)
  case (Cons a as)
  obtain i where i: "range_intersects (alloc_core_range a) cr = Inr i"
    "case i of None \<Rightarrow> cells (alloc_core_range a) \<inter> cells cr = {}
      | Some c \<Rightarrow> valid_range c \<and> cells c = cells (alloc_core_range a) \<inter> cells cr"
    using intersects_cells[of "alloc_core_range a" cr] Cons.prems assms(1) by auto
  then have ii: "i \<noteq> None \<longleftrightarrow> cells (alloc_core_range a) \<inter> cells cr \<noteq> {}"
    using valid_cells_ne by (cases i) fastforce+
  have "mark_address addr sz base a = (None, snd (mark_address addr sz base a))"
    if "\<not> (alloc_core_range a \<noteq> cr \<and> addr < get_cb_region_end a)"
    using that Cons.prems assms(2) by (intro mark_address_ok(1)) auto
  moreover have "mark_allocators cr addr sz base as = (None, map (mark_one addr sz base cr) as)"
    using Cons by simp
  ultimately show ?case using i(1) ii
    by (cases "i \<noteq> None \<and> \<not> (alloc_core_range a \<noteq> cr \<and> addr < get_cb_region_end a)")
      (auto simp: mark_one_def split: prod.splits)
qed simp

lemma mark_ranges_eq:
  assumes "crs_ok rs" "base \<le> addr"
    and "\<forall>a\<in>set as. valid_range (alloc_core_range a)
      \<and> (alloc_core_range a \<in> set rs \<longrightarrow> get_cb_region_end a \<le> addr)"
  shows "mark_ranges rs addr sz base as = (None, map (mark_all addr sz base rs) as)"
  using assms(1,3)
proof (induction rs arbitrary: as)
  case Nil
  then show ?case by (simp add: mark_all_def)
next
  case (Cons cr rs)
  let ?as = "map (mark_one addr sz base cr) as"
  have one: "mark_allocators cr addr sz base as = (None, ?as)"
    by (rule mark_allocators_eq) (use Cons.prems assms(2) in \<open>auto simp: crs_ok_def\<close>)
  have "mark_one addr sz base cr a = a" if "alloc_core_range a \<in> set rs" for a
  proof (rule mark_one_disjoint)
    show "cells (alloc_core_range a) \<inter> cells cr = {}"
      using Cons.prems(1) that unfolding crs_ok_def disjoint_ranges_def by auto
  qed
  then have "mark_ranges rs addr sz base ?as = (None, map (mark_all addr sz base rs) ?as)"
    using Cons.prems by (intro Cons.IH) (auto simp: crs_ok_def disjoint_ranges_def)
  then show ?case using one by (simp add: mark_all_def comp_def)
qed

lemma computed_address_ge: "base \<le> computed_address base rs as"
  unfolding computed_address_def
proof (induction rs rule: rev_induct)
  case (snoc r rs)
  then show ?case by (auto split: option.splits intro: le_max_iff_disj[THEN iffD2])
qed simp

lemma find_range:
  assumes "distinct (map alloc_core_range as)" "a \<in> set as"
  shows "find (\<lambda>b. alloc_core_range b = alloc_core_range a) as = Some a"
  using assms by (induction as) auto

lemma computed_address_end:
  assumes "distinct (map alloc_core_range as)" "a \<in> set as" "alloc_core_range a \<in> set rs"
  shows "get_cb_region_end a \<le> computed_address base rs as"
  using assms(3) unfolding computed_address_def
proof (induction rs rule: rev_induct)
  case (snoc r rs)
  then show ?case using find_range[OF assms(1,2)]
    by (cases "alloc_core_range a = r") (auto split: option.splits intro: le_max_iff_disj[THEN iffD2])
qed simp

lemma computed_address_le:
  assumes "base \<le> B" "\<forall>a\<in>set as. get_cb_region_end a \<le> B"
  shows "computed_address base rs as \<le> B"
  unfolding computed_address_def
proof (induction rs rule: rev_induct)
  case (snoc r rs)
  then show ?case using assms(2) by (auto split: option.splits simp: find_Some_iff)
qed (use assms(1) in simp)

subsection \<open>Programs\<close>

definition layout_ok :: "Program \<Rightarrow> bool" where
  "layout_ok p \<longleftrightarrow>
    distinct (map alloc_core_range (cb_allocators p))
    \<and> (\<forall>r\<in>ranges_of (cb_allocators p). valid_range r)
    \<and> distinct (circular_buffers p)
    \<and> dom (circular_buffer_by_id p) = set (circular_buffers p)
    \<and> (\<forall>h cb. circular_buffer_by_id p h = Some cb \<longrightarrow>
        crs_ok (cb_core_ranges cb) \<and> set (cb_core_ranges cb) \<subseteq> ranges_of (cb_allocators p)
        \<and> cb_size cb < 2 ^ 32)"

lemma layout_okD:
  assumes "layout_ok p"
  shows "distinct (map alloc_core_range (cb_allocators p))"
    and "a \<in> set (cb_allocators p) \<Longrightarrow> valid_range (alloc_core_range a)"
    and "distinct (circular_buffers p)"
    and "h \<in> set (circular_buffers p) \<Longrightarrow> \<exists>cb. circular_buffer_by_id p h = Some cb"
    and "circular_buffer_by_id p h = Some cb \<Longrightarrow> h \<in> set (circular_buffers p)"
    and "circular_buffer_by_id p h = Some cb \<Longrightarrow> crs_ok (cb_core_ranges cb)
      \<and> set (cb_core_ranges cb) \<subseteq> ranges_of (cb_allocators p) \<and> cb_size cb < 2 ^ 32"
  using assms unfolding layout_ok_def by (auto simp: dom_def)

text \<open>What a step of the allocation leaves as it is.\<close>

definition same_shape :: "Program \<Rightarrow> Program \<Rightarrow> bool" where
  "same_shape p p' \<longleftrightarrow>
    map alloc_core_range (cb_allocators p') = map alloc_core_range (cb_allocators p)
    \<and> circular_buffers p' = circular_buffers p
    \<and> dom (circular_buffer_by_id p') = dom (circular_buffer_by_id p)
    \<and> (\<forall>h cb'. circular_buffer_by_id p' h = Some cb' \<longrightarrow> (\<exists>cb. circular_buffer_by_id p h = Some cb
        \<and> cb_core_ranges cb' = cb_core_ranges cb \<and> cb_config cb' = cb_config cb
        \<and> cb_global_address cb' = cb_global_address cb))"

lemma same_shape_refl: "same_shape p p"
  by (simp add: same_shape_def)

lemma same_shape_trans: "same_shape p q \<Longrightarrow> same_shape q r \<Longrightarrow> same_shape p r"
  unfolding same_shape_def by metis

lemma layout_ok_same_shape:
  assumes "layout_ok p" "same_shape p p'"
  shows "layout_ok p'"
proof -
  have eq: "map alloc_core_range (cb_allocators p') = map alloc_core_range (cb_allocators p)"
    and cbs: "circular_buffers p' = circular_buffers p" "dom (circular_buffer_by_id p') = dom (circular_buffer_by_id p)"
    using assms(2) by (auto simp: same_shape_def)
  have "crs_ok (cb_core_ranges cb') \<and> set (cb_core_ranges cb') \<subseteq> ranges_of (cb_allocators p) \<and> cb_size cb' < 2 ^ 32"
    if h': "circular_buffer_by_id p' h = Some cb'" for h cb'
  proof -
    obtain cb where "circular_buffer_by_id p h = Some cb" "cb_core_ranges cb' = cb_core_ranges cb"
      "cb_config cb' = cb_config cb" using assms(2) h' unfolding same_shape_def by blast
    then show ?thesis using layout_okD(6)[OF assms(1)] by (simp add: cb_size_def)
  qed
  then show ?thesis using assms(1) unfolding layout_ok_def eq cbs by blast
qed

text \<open>One circular buffer.\<close>

definition place_one :: "nat \<Rightarrow> nat \<Rightarrow> CircularBuffer \<Rightarrow> Program \<Rightarrow> Program" where
  "place_one base h cb p =
    (let addr = computed_address base (cb_core_ranges cb) (cb_allocators p) in
     put_circular_buffer h (set_locally_allocated_address addr cb)
       (p\<lparr>cb_allocators := map (mark_all addr (cb_size cb) base (cb_core_ranges cb)) (cb_allocators p)\<rparr>))"

lemma allocate_loop_step:
  assumes ok: "layout_ok p" and cb: "circular_buffer_by_id p h = Some cb"
  shows "allocate_loop base (h # hs) p =
    allocate_loop base hs (if globally_allocated cb then p else place_one base h cb p)"
proof -
  let ?addr = "computed_address base (cb_core_ranges cb) (cb_allocators p)"
  have "mark_ranges (cb_core_ranges cb) ?addr (cb_size cb) base (cb_allocators p)
      = (None, map (mark_all ?addr (cb_size cb) base (cb_core_ranges cb)) (cb_allocators p))"
    using layout_okD(1,2,6)[OF ok] cb computed_address_end
    by (intro mark_ranges_eq computed_address_ge) auto
  then show ?thesis using cb by (simp add: place_one_def Let_def)
qed

lemma place_one_shape: "circular_buffer_by_id p h = Some cb \<Longrightarrow> same_shape p (place_one base h cb p)"
  by (auto simp: same_shape_def place_one_def put_circular_buffer_def set_locally_allocated_address_def Let_def
    comp_def)

lemma allocate_loop_ok:
  assumes "layout_ok p" "set hs \<subseteq> set (circular_buffers p)"
  shows "fst (allocate_loop base hs p) = None \<and> same_shape p (snd (allocate_loop base hs p))"
  using assms
proof (induction hs arbitrary: p)
  case Nil
  then show ?case by (simp add: same_shape_refl)
next
  case (Cons h hs)
  obtain cb where cb: "circular_buffer_by_id p h = Some cb" using layout_okD(4)[OF Cons.prems(1)] Cons.prems(2) by auto
  let ?p = "if globally_allocated cb then p else place_one base h cb p"
  have s: "same_shape p ?p" using place_one_shape[OF cb] same_shape_refl by simp
  have "set hs \<subseteq> set (circular_buffers ?p)" using Cons.prems(2) s by (simp add: same_shape_def)
  from Cons.IH[OF layout_ok_same_shape[OF Cons.prems(1) s] this]
  show ?case unfolding allocate_loop_step[OF Cons.prems(1) cb] using same_shape_trans[OF s] by blast
qed

subsection \<open>Where the circular buffers are\<close>

definition local_cb :: "Program \<Rightarrow> nat \<Rightarrow> CircularBuffer \<Rightarrow> bool" where
  "local_cb p h cb \<longleftrightarrow> circular_buffer_by_id p h = Some cb \<and> \<not> globally_allocated cb"

definition share_core :: "CircularBuffer \<Rightarrow> CircularBuffer \<Rightarrow> bool" where
  "share_core cb1 cb2 \<longleftrightarrow> cells_of (cb_core_ranges cb1) \<inter> cells_of (cb_core_ranges cb2) \<noteq> {}"

text \<open>
  \<open>f\<close> gives the address of a circular buffer before it is truncated to 32 bits; \<open>D\<close> are the
  handles placed so far.
\<close>

definition placed :: "(nat \<Rightarrow> nat) \<Rightarrow> nat set \<Rightarrow> Program \<Rightarrow> bool" where
  "placed f D p \<longleftrightarrow>
    (\<forall>h\<in>D. \<forall>cb. local_cb p h cb \<longrightarrow> locally_allocated_address cb = Some (u32 (f h))
      \<and> (\<forall>a\<in>set (cb_allocators p). alloc_core_range a \<in> set (cb_core_ranges cb)
          \<longrightarrow> f h + cb_size cb \<le> get_cb_region_end a))
    \<and> (\<forall>h1\<in>D. \<forall>h2\<in>D. \<forall>cb1 cb2. h1 \<noteq> h2 \<longrightarrow> local_cb p h1 cb1 \<longrightarrow> local_cb p h2 cb2 \<longrightarrow> share_core cb1 cb2
      \<longrightarrow> f h1 + cb_size cb1 \<le> f h2 \<or> f h2 + cb_size cb2 \<le> f h1)"

definition laminar :: "Program \<Rightarrow> bool" where
  "laminar p \<longleftrightarrow> disjoint_ranges (ranges_of (cb_allocators p))"

text \<open>Circular buffers that share a core share a core range, when the ranges are disjoint.\<close>

lemma share_core_range:
  assumes "layout_ok p" "laminar p" "circular_buffer_by_id p h1 = Some cb1" "circular_buffer_by_id p h2 = Some cb2"
    and "share_core cb1 cb2"
  shows "\<exists>a\<in>set (cb_allocators p). alloc_core_range a \<in> set (cb_core_ranges cb1)
    \<and> alloc_core_range a \<in> set (cb_core_ranges cb2)"
proof -
  obtain c r1 r2 where r: "r1 \<in> set (cb_core_ranges cb1)" "r2 \<in> set (cb_core_ranges cb2)"
    "c \<in> cells r1" "c \<in> cells r2" using assms(5) unfolding share_core_def cells_of_def by blast
  have m: "r1 \<in> ranges_of (cb_allocators p)" "r2 \<in> ranges_of (cb_allocators p)"
    using layout_okD(6)[OF assms(1,3)] layout_okD(6)[OF assms(1,4)] r by auto
  then have "r1 = r2" using assms(2) r unfolding laminar_def disjoint_ranges_def by blast
  with m r show ?thesis by auto
qed

lemma mark_all_end:
  assumes ok: "layout_ok p" "laminar p" and cb: "circular_buffer_by_id p h = Some cb"
    and a: "a \<in> set (cb_allocators p)"
    and addr: "addr = computed_address base (cb_core_ranges cb) (cb_allocators p)"
    and small: "addr + cb_size cb < 2 ^ 64"
  shows "get_cb_region_end (mark_all addr (cb_size cb) base (cb_core_ranges cb) a) =
    (if alloc_core_range a \<in> set (cb_core_ranges cb) then addr + cb_size cb else get_cb_region_end a)"
proof (cases "alloc_core_range a \<in> set (cb_core_ranges cb)")
  case True
  have "get_cb_region_end (mark_all addr (cb_size cb) base (cb_core_ranges cb) a) = add64 addr (cb_size cb)"
    by (rule mark_all_own[OF _ True])
      (use layout_okD(1,6)[OF ok(1)] cb computed_address_end[OF _ a True] computed_address_ge addr in auto)
  with True small show ?thesis by (simp add: wadd_id)
next
  case False
  have "mark_all addr (cb_size cb) base (cb_core_ranges cb) a = a"
  proof (rule mark_all_disjoint, rule ballI)
    fix cr assume cr: "cr \<in> set (cb_core_ranges cb)"
    then have "cr \<in> ranges_of (cb_allocators p)" "cr \<noteq> alloc_core_range a"
      using layout_okD(6)[OF ok(1) cb] False by auto
    then show "cells (alloc_core_range a) \<inter> cells cr = {}"
      using ok(2) a unfolding laminar_def disjoint_ranges_def by fastforce
  qed
  with False show ?thesis by simp
qed

lemma local_cb_place_one:
  "local_cb (place_one base h cb p) k cb' \<longleftrightarrow>
    (if k = h then cb' = set_locally_allocated_address (computed_address base (cb_core_ranges cb) (cb_allocators p)) cb
        \<and> \<not> globally_allocated cb
     else local_cb p k cb')"
  by (auto simp: local_cb_def place_one_def put_circular_buffer_def Let_def set_locally_allocated_address_def
    globally_allocated_def)

lemma set_local_fields [simp]:
  "cb_core_ranges (set_locally_allocated_address a cb) = cb_core_ranges cb"
  "cb_size (set_locally_allocated_address a cb) = cb_size cb"
  "locally_allocated_address (set_locally_allocated_address a cb) = Some (u32 a)"
  by (simp_all add: set_locally_allocated_address_def cb_size_def)

lemma share_core_simps [simp]:
  "share_core (set_locally_allocated_address a cb1) cb2 = share_core cb1 cb2"
  "share_core cb1 (set_locally_allocated_address a cb2) = share_core cb1 cb2"
  by (simp_all add: share_core_def)

lemma share_core_sym: "share_core cb1 cb2 \<Longrightarrow> share_core cb2 cb1"
  by (auto simp: share_core_def)

lemma place_one_allocators:
  "cb_allocators (place_one base h cb p) =
    map (mark_all (computed_address base (cb_core_ranges cb) (cb_allocators p)) (cb_size cb) base (cb_core_ranges cb))
      (cb_allocators p)"
  by (simp add: place_one_def put_circular_buffer_def Let_def)

lemma place_one_placed:
  assumes ok: "layout_ok p" "laminar p" and cb: "local_cb p h cb" and h: "h \<notin> D" and pl: "placed f D p"
    and B: "base \<le> B" "\<forall>a\<in>set (cb_allocators p). get_cb_region_end a \<le> B" "B + 2 ^ 32 \<le> 2 ^ 64"
  defines "addr \<equiv> computed_address base (cb_core_ranges cb) (cb_allocators p)"
  shows "placed (f(h := addr)) (insert h D) (place_one base h cb p)"
    and "\<forall>a\<in>set (cb_allocators (place_one base h cb p)). get_cb_region_end a \<le> B + 2 ^ 32"
proof -
  have cb': "circular_buffer_by_id p h = Some cb" and loc: "\<not> globally_allocated cb"
    using cb by (simp_all add: local_cb_def)
  have sz: "cb_size cb < 2 ^ 32" using layout_okD(6)[OF ok(1) cb'] by simp
  have le: "addr \<le> B" unfolding addr_def by (rule computed_address_le[OF B(1,2)])
  have small: "addr + cb_size cb < 2 ^ 64" using sz le B(3) by linarith
  let ?m = "mark_all addr (cb_size cb) base (cb_core_ranges cb)"
  have e: "get_cb_region_end (?m a) =
      (if alloc_core_range a \<in> set (cb_core_ranges cb) then addr + cb_size cb else get_cb_region_end a)"
    if "a \<in> set (cb_allocators p)" for a
    by (rule mark_all_end[OF ok cb' that meta_eq_to_obj_eq[OF addr_def] small])
  have up: "get_cb_region_end a \<le> addr"
    if "a \<in> set (cb_allocators p)" "alloc_core_range a \<in> set (cb_core_ranges cb)" for a
    unfolding addr_def by (rule computed_address_end[OF layout_okD(1)[OF ok(1)] that])
  have grow: "get_cb_region_end a \<le> get_cb_region_end (?m a)" if "a \<in> set (cb_allocators p)" for a
    using e[OF that] up[OF that] by (auto intro: trans_le_add1)
  have as: "cb_allocators (place_one base h cb p) = map ?m (cb_allocators p)"
    unfolding addr_def by (rule place_one_allocators)
  show "\<forall>a\<in>set (cb_allocators (place_one base h cb p)). get_cb_region_end a \<le> B + 2 ^ 32"
    unfolding as using e B(2) le sz by fastforce
  have ends: "f k + cb_size cb1 \<le> get_cb_region_end a"
    if "k \<in> D" "local_cb p k cb1" "a \<in> set (cb_allocators p)" "alloc_core_range a \<in> set (cb_core_ranges cb1)"
    for k cb1 a
    using pl that unfolding placed_def by blast
  have below: "f k + cb_size cb1 \<le> addr" if k: "k \<in> D" "local_cb p k cb1" and s: "share_core cb cb1" for k cb1
  proof -
    obtain a where "a \<in> set (cb_allocators p)" "alloc_core_range a \<in> set (cb_core_ranges cb)"
      "alloc_core_range a \<in> set (cb_core_ranges cb1)"
      using share_core_range[OF ok cb' _ s, of k] k(2) unfolding local_cb_def by blast
    with ends[OF k] up show ?thesis by fastforce
  qed
  show "placed (f(h := addr)) (insert h D) (place_one base h cb p)"
    unfolding placed_def
  proof (intro conjI ballI allI impI)
    fix k cb1 assume k: "k \<in> insert h D" "local_cb (place_one base h cb p) k cb1"
    show "locally_allocated_address cb1 = Some (u32 ((f(h := addr)) k))"
      using k pl unfolding local_cb_place_one placed_def addr_def[symmetric] by (auto split: if_splits)
    fix b assume b: "b \<in> set (cb_allocators (place_one base h cb p))" "alloc_core_range b \<in> set (cb_core_ranges cb1)"
    then obtain a where a: "a \<in> set (cb_allocators p)" "b = ?m a" unfolding as by auto
    show "(f(h := addr)) k + cb_size cb1 \<le> get_cb_region_end b"
    proof (cases "k = h")
      case True
      then show ?thesis using k(2) b(2) a e[OF a(1)] by (auto simp: local_cb_place_one)
    next
      case False
      then have "local_cb p k cb1" "k \<in> D" using k by (auto simp: local_cb_place_one)
      from ends[OF this(2,1) a(1)] grow[OF a(1)] False a(2) b(2) show ?thesis by simp
    qed
  next
    fix k1 k2 cb1 cb2
    assume k: "k1 \<in> insert h D" "k2 \<in> insert h D" "k1 \<noteq> k2" "local_cb (place_one base h cb p) k1 cb1"
      "local_cb (place_one base h cb p) k2 cb2" and s: "share_core cb1 cb2"
    consider "k1 = h" "k2 \<in> D" | "k2 = h" "k1 \<in> D" | "k1 \<in> D" "k2 \<in> D" "k1 \<noteq> h" "k2 \<noteq> h"
      using k(1-3) by blast
    then show "(f(h := addr)) k1 + cb_size cb1 \<le> (f(h := addr)) k2
      \<or> (f(h := addr)) k2 + cb_size cb2 \<le> (f(h := addr)) k1"
    proof cases
      case 1
      then have "k2 \<noteq> h" using h by auto
      then have "local_cb p k2 cb2" "share_core cb cb2" using k(4,5) s 1 by (auto simp: local_cb_place_one)
      from below[OF 1(2) this] 1 \<open>k2 \<noteq> h\<close> show ?thesis by simp
    next
      case 2
      then have "k1 \<noteq> h" using h by auto
      then have "local_cb p k1 cb1" "share_core cb cb1"
        using k(4,5) s 2 by (auto simp: local_cb_place_one dest: share_core_sym)
      from below[OF 2(2) this] 2 \<open>k1 \<noteq> h\<close> show ?thesis by simp
    next
      case 3
      then have "local_cb p k1 cb1" "local_cb p k2 cb2" using k(4,5) by (auto simp: local_cb_place_one)
      with pl 3 k(3) s show ?thesis unfolding placed_def by simp
    qed
  qed
qed

lemma laminar_same_shape: "same_shape p p' \<Longrightarrow> laminar p' = laminar p"
  by (simp add: laminar_def same_shape_def)

lemma allocate_loop_placed:
  assumes "layout_ok p" "laminar p" "set hs \<subseteq> set (circular_buffers p)" "distinct hs" "D \<inter> set hs = {}"
    and "placed f D p" "base \<le> B" "\<forall>a\<in>set (cb_allocators p). get_cb_region_end a \<le> B"
    and "B + length hs * 2 ^ 32 \<le> 2 ^ 64"
  shows "\<exists>g. placed g (D \<union> set hs) (snd (allocate_loop base hs p))"
  using assms
proof (induction hs arbitrary: p f D B)
  case Nil
  then show ?case by auto
next
  case (Cons h hs)
  obtain cb where cb: "circular_buffer_by_id p h = Some cb" using layout_okD(4)[OF Cons.prems(1)] Cons.prems(3) by auto
  note step = allocate_loop_step[OF Cons.prems(1) cb, of base hs]
  have eq: "D \<union> set (h # hs) = insert h D \<union> set hs" by simp
  show ?case
  proof (cases "globally_allocated cb")
    case True
    have "placed f (insert h D) p"
      using Cons.prems(6) cb True unfolding placed_def local_cb_def by auto
    moreover have "B + length hs * 2 ^ 32 \<le> 2 ^ 64" using Cons.prems(9) by simp
    ultimately have "\<exists>g. placed g (insert h D \<union> set hs) (snd (allocate_loop base hs p))"
      using Cons.prems(3-5) by (intro Cons.IH[OF Cons.prems(1,2) _ _ _ _ Cons.prems(7,8)]) auto
    then show ?thesis unfolding eq step using True by simp
  next
    case False
    let ?p = "place_one base h cb p" and ?B = "B + 2 ^ 32"
    have loc: "local_cb p h cb" using cb False by (simp add: local_cb_def)
    have bound: "?B + length hs * 2 ^ 32 \<le> 2 ^ 64" using Cons.prems(9) by simp
    then have B: "B + 2 ^ 32 \<le> 2 ^ 64" by linarith
    note s = place_one_shape[OF cb, of base]
    have nh: "h \<notin> D" using Cons.prems(5) by auto
    note pl = place_one_placed[OF Cons.prems(1,2) loc nh Cons.prems(6-8) B]
    have "\<exists>g. placed g (insert h D \<union> set hs) (snd (allocate_loop base hs ?p))"
    proof (rule Cons.IH[OF layout_ok_same_shape[OF Cons.prems(1) s] _ _ _ _ pl(1) _ pl(2) bound])
      show "laminar ?p" using Cons.prems(2) laminar_same_shape[OF s] by simp
      show "set hs \<subseteq> set (circular_buffers ?p)" using Cons.prems(3) s by (simp add: same_shape_def)
    qed (use Cons.prems(4,5,7) in auto)
    then show ?thesis unfolding eq step using False by simp
  qed
qed

subsection \<open>Every program\<close>

inductive program_reachable :: "(nat \<Rightarrow> Buffer) \<Rightarrow> Program \<Rightarrow> bool" for buffers where
  reach_new: "program_reachable buffers new_Program"
| reach_add: "program_reachable buffers p \<Longrightarrow> circular_buffer_by_id p h = None \<Longrightarrow> crs_ok crs
    \<Longrightarrow> total_size cfg < 2 ^ 32
    \<Longrightarrow> program_reachable buffers (snd (add_circular_buffer buffers h crs cfg p))"
| reach_total: "program_reachable buffers p \<Longrightarrow> t < 2 ^ 32
    \<Longrightarrow> program_reachable buffers (snd (UpdateCircularBufferTotalSize h t p))"
| reach_page: "program_reachable buffers p
    \<Longrightarrow> program_reachable buffers (snd (UpdateCircularBufferPageSize h i ps p))"
| reach_dynamic: "program_reachable buffers p
    \<Longrightarrow> program_reachable buffers (snd (UpdateDynamicCircularBufferAddress buffers h b p))"
| reach_allocate: "program_reachable buffers p \<Longrightarrow> base < 2 ^ 32
    \<Longrightarrow> program_reachable buffers (snd (allocate_circular_buffers base p))"
| reach_semaphore: "program_reachable buffers p \<Longrightarrow> CreateSemaphore crs v t p = Inr (i, p')
    \<Longrightarrow> program_reachable buffers p'"
| reach_compile: "program_reachable buffers p \<Longrightarrow> program_reachable buffers (p\<lparr>compiled := insert d (compiled p)\<rparr>)"

definition program_inv :: "Program \<Rightarrow> bool" where
  "program_inv p \<longleftrightarrow> layout_ok p
    \<and> (local_circular_buffer_allocation_needed p \<longrightarrow> (\<forall>a\<in>set (cb_allocators p). l1_regions a = []))
    \<and> (\<not> local_circular_buffer_allocation_needed p \<longrightarrow> laminar p \<longrightarrow> length (circular_buffers p) < 2 ^ 31
        \<longrightarrow> (\<exists>f. placed f (set (circular_buffers p)) p))"

text \<open>Changes that leave the placed buffers where they are.\<close>

lemma placed_same:
  assumes pl: "placed f D p"
    and l: "\<And>h cb'. h \<in> D' \<Longrightarrow> local_cb p' h cb' \<Longrightarrow> h \<in> D \<and> (\<exists>cb. local_cb p h cb
      \<and> cb_core_ranges cb' = cb_core_ranges cb \<and> cb_size cb' = cb_size cb
      \<and> locally_allocated_address cb' = locally_allocated_address cb
      \<and> (\<forall>a\<in>set (cb_allocators p'). alloc_core_range a \<in> set (cb_core_ranges cb) \<longrightarrow> a \<in> set (cb_allocators p)))"
  shows "placed f D' p'"
  unfolding placed_def
proof (intro conjI ballI allI impI)
  fix h cb' assume h: "h \<in> D'" "local_cb p' h cb'"
  then obtain cb where cb: "h \<in> D" "local_cb p h cb" "cb_core_ranges cb' = cb_core_ranges cb"
    "cb_size cb' = cb_size cb" "locally_allocated_address cb' = locally_allocated_address cb"
    "\<forall>a\<in>set (cb_allocators p'). alloc_core_range a \<in> set (cb_core_ranges cb) \<longrightarrow> a \<in> set (cb_allocators p)"
    using l by blast
  then show "locally_allocated_address cb' = Some (u32 (f h))" using pl unfolding placed_def by simp
  fix a assume "a \<in> set (cb_allocators p')" "alloc_core_range a \<in> set (cb_core_ranges cb')"
  then show "f h + cb_size cb' \<le> get_cb_region_end a" using cb pl unfolding placed_def by simp
next
  fix h1 h2 cb1 cb2
  assume h: "h1 \<in> D'" "h2 \<in> D'" "h1 \<noteq> h2" "local_cb p' h1 cb1" "local_cb p' h2 cb2" and s: "share_core cb1 cb2"
  obtain c1 c2 where "h1 \<in> D" "local_cb p h1 c1" "cb_core_ranges cb1 = cb_core_ranges c1" "cb_size cb1 = cb_size c1"
    "h2 \<in> D" "local_cb p h2 c2" "cb_core_ranges cb2 = cb_core_ranges c2" "cb_size cb2 = cb_size c2"
    using l[OF h(1,4)] l[OF h(2,5)] by blast
  moreover from this s have "share_core c1 c2" by (simp add: share_core_def)
  ultimately show "f h1 + cb_size cb1 \<le> f h2 \<or> f h2 + cb_size cb2 \<le> f h1"
    using pl h(3) unfolding placed_def by simp
qed

lemma invalidate_fields [simp]:
  "circular_buffers (invalidate_circular_buffer_allocation p) = circular_buffers p"
  "circular_buffer_by_id (invalidate_circular_buffer_allocation p) = circular_buffer_by_id p"
  "local_circular_buffer_allocation_needed (invalidate_circular_buffer_allocation p)"
  by (simp_all add: invalidate_circular_buffer_allocation_def)

lemma invalidate_ranges [simp]:
  "map alloc_core_range (cb_allocators (invalidate_circular_buffer_allocation p)) = map alloc_core_range (cb_allocators p)"
  by (simp add: invalidate_circular_buffer_allocation_def reset_available_addresses_def comp_def)

lemma layout_ok_ranges:
  assumes "map alloc_core_range (cb_allocators p') = map alloc_core_range (cb_allocators p)"
    and "circular_buffers p' = circular_buffers p" "circular_buffer_by_id p' = circular_buffer_by_id p"
  shows "layout_ok p' = layout_ok p"
  unfolding layout_ok_def assms by (rule refl)

lemma invalidate_inv: "program_inv p \<Longrightarrow> program_inv (invalidate_circular_buffer_allocation p)"
  using layout_ok_ranges[of "invalidate_circular_buffer_allocation p" p]
  by (auto simp: program_inv_def) (auto simp: invalidate_circular_buffer_allocation_def reset_available_addresses_def
    split: if_splits)

lemma put_inv:
  assumes inv: "program_inv p" and cb: "circular_buffer_by_id p h = Some cb"
    and r: "cb_core_ranges cb' = cb_core_ranges cb" and sz: "cb_size cb' < 2 ^ 32"
    and l: "local_circular_buffer_allocation_needed p \<or> globally_allocated cb'
      \<or> \<not> globally_allocated cb \<and> cb_size cb' = cb_size cb
        \<and> locally_allocated_address cb' = locally_allocated_address cb"
  shows "program_inv (put_circular_buffer h cb' p)"
proof -
  have hin: "h \<in> set (circular_buffers p)" using inv cb layout_okD(5) unfolding program_inv_def by blast
  have "dom (circular_buffer_by_id (put_circular_buffer h cb' p)) = dom (circular_buffer_by_id p)"
    using cb by (auto simp: put_circular_buffer_def)
  then have lo: "layout_ok (put_circular_buffer h cb' p)"
    using inv cb r sz unfolding program_inv_def layout_ok_def by (auto simp: put_circular_buffer_def)
  have "placed f (set (circular_buffers p)) (put_circular_buffer h cb' p)"
    if pl: "placed f (set (circular_buffers p)) p" "\<not> local_circular_buffer_allocation_needed p" for f
  proof (rule placed_same[OF pl(1)])
    fix k c assume k: "k \<in> set (circular_buffers p)" "local_cb (put_circular_buffer h cb' p) k c"
    show "k \<in> set (circular_buffers p) \<and> (\<exists>cb. local_cb p k cb \<and> cb_core_ranges c = cb_core_ranges cb
      \<and> cb_size c = cb_size cb \<and> locally_allocated_address c = locally_allocated_address cb
      \<and> (\<forall>a\<in>set (cb_allocators (put_circular_buffer h cb' p)). alloc_core_range a \<in> set (cb_core_ranges cb)
          \<longrightarrow> a \<in> set (cb_allocators p)))"
      using k l cb r pl(2) by (cases "k = h") (auto simp: local_cb_def put_circular_buffer_def)
  qed
  then show ?thesis using lo inv unfolding program_inv_def by (auto simp: put_circular_buffer_def laminar_def)
qed

definition only_allocators_added :: "Program \<Rightarrow> Program \<Rightarrow> bool" where
  "only_allocators_added p p' \<longleftrightarrow>
    (\<exists>m new. p' = p\<lparr>per_core_cb_indices := m, cb_allocators := cb_allocators p @ new\<rparr>
      \<and> (\<forall>a\<in>set new. l1_regions a = [] \<and> valid_range (alloc_core_range a))
      \<and> distinct (map alloc_core_range (cb_allocators p @ new)))"

lemma add_cb_allocator_cases:
  "add_cb_allocator r as = as \<and> r \<in> ranges_of as
    \<or> add_cb_allocator r as = as @ [\<lparr>alloc_core_range = r, l1_regions = []\<rparr>] \<and> r \<notin> ranges_of as"
  unfolding add_cb_allocator_def by (auto split: option.splits simp: find_None_iff find_Some_iff)

lemma add_core_ranges_added:
  assumes "distinct (map alloc_core_range (cb_allocators p))" "\<forall>r\<in>set rs. valid_range r"
  shows "only_allocators_added p (snd (add_core_ranges is rs p))
    \<and> (fst (add_core_ranges is rs p) = None
        \<longrightarrow> set rs \<subseteq> ranges_of (cb_allocators (snd (add_core_ranges is rs p))))"
  using assms
proof (induction rs arbitrary: p)
  case Nil
  then have "only_allocators_added p p"
    unfolding only_allocators_added_def
    by (intro exI[of _ "per_core_cb_indices p"] exI[of _ "[]"]) simp
  then show ?case by simp
next
  case (Cons r rs)
  obtain e m where em: "mark_cores is (loop_cores r) (per_core_cb_indices p) = (e, m)" by fastforce
  show ?case
  proof (cases e)
    case (Some x)
    have "p\<lparr>per_core_cb_indices := m\<rparr> = p\<lparr>per_core_cb_indices := m, cb_allocators := cb_allocators p @ []\<rparr>" by simp
    then have "only_allocators_added p (p\<lparr>per_core_cb_indices := m\<rparr>)"
      unfolding only_allocators_added_def using Cons.prems(1) by (metis append_Nil2 empty_iff list.set(1))
    with Some em show ?thesis by simp
  next
    case None
    let ?q = "p\<lparr>per_core_cb_indices := m, cb_allocators := add_cb_allocator r (cb_allocators p)\<rparr>"
    obtain new1 where n1: "add_cb_allocator r (cb_allocators p) = cb_allocators p @ new1"
      "\<forall>a\<in>set new1. l1_regions a = [] \<and> valid_range (alloc_core_range a)"
      "distinct (map alloc_core_range (cb_allocators p @ new1))" "r \<in> ranges_of (cb_allocators p @ new1)"
      using add_cb_allocator_cases[of r "cb_allocators p"] Cons.prems by fastforce
    have "only_allocators_added ?q (snd (add_core_ranges is rs ?q))
      \<and> (fst (add_core_ranges is rs ?q) = None
        \<longrightarrow> set rs \<subseteq> ranges_of (cb_allocators (snd (add_core_ranges is rs ?q))))"
      using n1 Cons.prems by (intro Cons.IH) simp_all
    moreover from this obtain m2 new2 where n2: "snd (add_core_ranges is rs ?q)
        = ?q\<lparr>per_core_cb_indices := m2, cb_allocators := cb_allocators ?q @ new2\<rparr>"
      "\<forall>a\<in>set new2. l1_regions a = [] \<and> valid_range (alloc_core_range a)"
      "distinct (map alloc_core_range (cb_allocators ?q @ new2))"
      unfolding only_allocators_added_def by blast
    moreover have "only_allocators_added p (snd (add_core_ranges is rs ?q))"
      unfolding only_allocators_added_def using n1 n2
      by (intro exI[of _ m2] exI[of _ "new1 @ new2"]) auto
    ultimately show ?thesis using em None n1 by auto
  qed
qed

lemma added_inv:
  assumes inv: "program_inv p" and ad: "only_allocators_added p p'"
  shows "program_inv p'"
proof -
  obtain m new where p': "p' = p\<lparr>per_core_cb_indices := m, cb_allocators := cb_allocators p @ new\<rparr>"
    and new: "\<forall>a\<in>set new. l1_regions a = [] \<and> valid_range (alloc_core_range a)"
    and d: "distinct (map alloc_core_range (cb_allocators p @ new))"
    using ad unfolding only_allocators_added_def by blast
  have lp: "layout_ok p" using inv by (simp add: program_inv_def)
  have "set (cb_core_ranges cb) \<subseteq> ranges_of (cb_allocators p @ new)"
    if "circular_buffer_by_id p h = Some cb" for h cb
    using layout_okD(6)[OF lp that] by auto
  then have lo: "layout_ok p'"
    using lp new d unfolding layout_ok_def p' by (simp add: ball_Un image_Un)
  have "placed f (set (circular_buffers p)) p'" if pl: "placed f (set (circular_buffers p)) p" for f
  proof (rule placed_same[OF pl])
    fix h cb assume h: "h \<in> set (circular_buffers p)" "local_cb p' h cb"
    then have l: "local_cb p h cb" by (simp add: p' local_cb_def)
    then have "set (cb_core_ranges cb) \<subseteq> ranges_of (cb_allocators p)"
      using layout_okD(6)[OF lp, of h cb] by (simp add: local_cb_def)
    then have "a \<in> set (cb_allocators p)"
      if "a \<in> set (cb_allocators p')" "alloc_core_range a \<in> set (cb_core_ranges cb)" for a
      using that d by (fastforce simp: p')
    with h l show "h \<in> set (circular_buffers p) \<and> (\<exists>cb'. local_cb p h cb' \<and> cb_core_ranges cb = cb_core_ranges cb'
      \<and> cb_size cb = cb_size cb' \<and> locally_allocated_address cb = locally_allocated_address cb'
      \<and> (\<forall>a\<in>set (cb_allocators p'). alloc_core_range a \<in> set (cb_core_ranges cb') \<longrightarrow> a \<in> set (cb_allocators p)))"
      by blast
  qed
  moreover have "laminar p' \<Longrightarrow> laminar p" unfolding laminar_def disjoint_ranges_def p' by auto
  ultimately show ?thesis using inv lo new unfolding program_inv_def p' by auto
qed

lemma new_CircularBuffer_fields:
  "new_CircularBuffer crs cfg = Inr cb \<Longrightarrow> cb_core_ranges cb = crs \<and> cb_config cb = cfg"
  by (auto simp: new_CircularBuffer_def rbind_def split: if_splits sum.splits)

lemma assign_global_fields:
  "assign_global_address buffers cb = Inr cb' \<Longrightarrow> cb_core_ranges cb' = cb_core_ranges cb
    \<and> cb_config cb' = cb_config cb \<and> locally_allocated_address cb' = locally_allocated_address cb"
  by (auto simp: assign_global_address_def split: option.splits)

lemma register_inv:
  assumes inv: "program_inv p" and new: "circular_buffer_by_id p h = None"
    and ok: "crs_ok (cb_core_ranges cb)" "set (cb_core_ranges cb) \<subseteq> ranges_of (cb_allocators p)" "cb_size cb < 2 ^ 32"
    and l: "local_circular_buffer_allocation_needed p \<or> globally_allocated cb"
  shows "program_inv (p\<lparr>circular_buffers := circular_buffers p @ [h],
    circular_buffer_by_id := (circular_buffer_by_id p)(h \<mapsto> cb)\<rparr>)" (is "program_inv ?p")
proof -
  have lp: "layout_ok p" using inv by (simp add: program_inv_def)
  have nin: "h \<notin> set (circular_buffers p)" using layout_okD(4)[OF lp, of h] new by auto
  have lo: "layout_ok ?p"
    using lp ok nin unfolding layout_ok_def by auto
  have "placed f (set (circular_buffers ?p)) ?p"
    if pl: "placed f (set (circular_buffers p)) p" and g: "globally_allocated cb" for f
    by (rule placed_same[OF pl]) (use g in \<open>auto simp: local_cb_def split: if_splits\<close>)
  moreover have "length (circular_buffers ?p) < 2 ^ 31 \<Longrightarrow> length (circular_buffers p) < 2 ^ 31" by simp
  ultimately show ?thesis using inv lo l unfolding program_inv_def laminar_def by auto
qed

lemma add_circular_buffer_inv:
  assumes inv: "program_inv p" and h: "circular_buffer_by_id p h = None" and crs: "crs_ok crs"
    and sz: "total_size cfg < 2 ^ 32"
  shows "program_inv (snd (add_circular_buffer buffers h crs cfg p))"
proof (cases "compiled p = {} \<and> (\<exists>cb. new_CircularBuffer crs cfg = Inr cb)")
  case False
  then show ?thesis using inv
    by (cases "new_CircularBuffer crs cfg") (auto simp: add_circular_buffer_def)
next
  case True
  then obtain cb0 where cb0: "new_CircularBuffer crs cfg = Inr cb0" and c: "compiled p = {}" by blast
  let ?p = "if \<not> globally_allocated cb0 then invalidate_circular_buffer_allocation p else p"
  have invp: "program_inv ?p" using inv invalidate_inv by simp
  let ?r = "if globally_allocated cb0 then assign_global_address buffers cb0 else Inr cb0"
  show ?thesis
  proof (cases ?r)
    case (Inl e)
    then show ?thesis using invp cb0 c by (simp add: add_circular_buffer_def Let_def)
  next
    case (Inr cb)
    then have cb: "cb_core_ranges cb = crs" "cb_config cb = cfg"
      using new_CircularBuffer_fields[OF cb0] assign_global_fields by (auto split: if_splits)
    have gl: "globally_allocated cb = globally_allocated cb0"
      using cb new_CircularBuffer_fields[OF cb0] by (simp add: globally_allocated_def)
    obtain e q where q: "add_core_ranges (cb_buffer_indices cb) crs ?p = (e, q)" by fastforce
    have d: "distinct (map alloc_core_range (cb_allocators ?p))" "\<forall>r\<in>set crs. valid_range r"
      using invp crs by (auto simp: program_inv_def layout_ok_def crs_ok_def)
    from add_core_ranges_added[OF d, of "cb_buffer_indices cb"] q
    have ad: "only_allocators_added ?p q" and cov: "e = None \<Longrightarrow> set crs \<subseteq> ranges_of (cb_allocators q)" by auto
    note invq = added_inv[OF invp ad]
    show ?thesis
    proof (cases e)
      case (Some x)
      then show ?thesis using invq q Inr cb0 c by (simp add: add_circular_buffer_def Let_def)
    next
      case None
      have "circular_buffer_by_id q = circular_buffer_by_id p"
        and needed: "local_circular_buffer_allocation_needed q = local_circular_buffer_allocation_needed ?p"
        using ad unfolding only_allocators_added_def by auto
      then have "program_inv (q\<lparr>circular_buffers := circular_buffers q @ [h],
          circular_buffer_by_id := (circular_buffer_by_id q)(h \<mapsto> cb)\<rparr>)"
        using invq h crs cb sz cov None gl
        by (intro register_inv) (auto simp: cb_size_def)
      then show ?thesis using None q Inr cb0 c by (simp add: add_circular_buffer_def Let_def)
    qed
  qed
qed

lemma set_total_size_eq: "set_total_size t c = Inr c' \<Longrightarrow> c' = c\<lparr>total_size := t\<rparr>"
  by (auto simp: set_total_size_def rbind_def split: if_splits sum.splits)

lemma cfg_set_page_size_eq: "cfg_set_page_size i ps c = Inr c' \<Longrightarrow> \<exists>x. c' = c\<lparr>page_sizes := x\<rparr>"
  by (auto simp: cfg_set_page_size_def rbind_def split: if_splits sum.splits)

lemma set_globally_eq:
  "set_globally_allocated_address b buf c = Inr c' \<Longrightarrow> total_size c' = total_size c \<and> globally_allocated_address c' \<noteq> None"
  by (auto simp: set_globally_allocated_address_def split: if_splits)

lemma update_total_inv:
  assumes inv: "program_inv p" and t: "t < 2 ^ 32"
  shows "program_inv (snd (UpdateCircularBufferTotalSize h t p))"
proof (cases "circular_buffer_by_id p h")
  case None
  then show ?thesis using inv by (simp add: UpdateCircularBufferTotalSize_def get_circular_buffer_def)
next
  case (Some cb)
  let ?p = "if \<not> globally_allocated cb then invalidate_circular_buffer_allocation p else p"
  have inv': "program_inv ?p" using inv invalidate_inv by simp
  show ?thesis
  proof (cases "set_total_size t (cb_config cb)")
    case (Inl e)
    then show ?thesis using inv' Some by (simp add: UpdateCircularBufferTotalSize_def get_circular_buffer_def Let_def)
  next
    case (Inr c)
    note c = set_total_size_eq[OF Inr]
    have "program_inv (put_circular_buffer h (cb\<lparr>cb_config := c\<rparr>) ?p)"
      by (rule put_inv[OF inv', of h cb]) (use Some c t in \<open>auto simp: cb_size_def globally_allocated_def\<close>)
    then show ?thesis using Some Inr by (simp add: UpdateCircularBufferTotalSize_def get_circular_buffer_def Let_def)
  qed
qed

lemma layout_size: "program_inv p \<Longrightarrow> circular_buffer_by_id p h = Some cb \<Longrightarrow> cb_size cb < 2 ^ 32"
  using layout_okD(6) unfolding program_inv_def by blast

lemma update_page_inv:
  assumes inv: "program_inv p"
  shows "program_inv (snd (UpdateCircularBufferPageSize h i ps p))"
proof (cases "circular_buffer_by_id p h")
  case None
  then show ?thesis using inv by (simp add: UpdateCircularBufferPageSize_def get_circular_buffer_def)
next
  case (Some cb)
  show ?thesis
  proof (cases "cfg_set_page_size i ps (cb_config cb)")
    case (Inl e)
    then show ?thesis using inv Some by (simp add: UpdateCircularBufferPageSize_def get_circular_buffer_def)
  next
    case (Inr c)
    then obtain x where c: "c = (cb_config cb)\<lparr>page_sizes := x\<rparr>" using cfg_set_page_size_eq by blast
    have "program_inv (put_circular_buffer h (cb\<lparr>cb_config := c\<rparr>) p)"
      by (rule put_inv[OF inv Some])
        (use layout_size[OF inv Some] c in \<open>auto simp: cb_size_def globally_allocated_def\<close>)
    then show ?thesis using Some Inr by (simp add: UpdateCircularBufferPageSize_def get_circular_buffer_def)
  qed
qed

lemma update_dynamic_inv:
  assumes inv: "program_inv p"
  shows "program_inv (snd (UpdateDynamicCircularBufferAddress buffers h b p))"
proof (cases "circular_buffer_by_id p h")
  case None
  then show ?thesis using inv by (simp add: UpdateDynamicCircularBufferAddress_def get_circular_buffer_def)
next
  case (Some cb)
  show ?thesis
  proof (cases "set_globally_allocated_address b (buffers b) (cb_config cb)")
    case (Inl e)
    then show ?thesis using inv Some by (simp add: UpdateDynamicCircularBufferAddress_def get_circular_buffer_def)
  next
    case (Inr c)
    note c = set_globally_eq[OF Inr]
    have put: "program_inv (put_circular_buffer h cb' p)"
      if "cb_core_ranges cb' = cb_core_ranges cb" "cb_config cb' = c" for cb'
      by (rule put_inv[OF inv Some that(1)])
        (use layout_size[OF inv Some] c that in \<open>auto simp: cb_size_def globally_allocated_def\<close>)
    show ?thesis
    proof (cases "assign_global_address buffers (cb\<lparr>cb_config := c\<rparr>)")
      case (Inl e)
      then show ?thesis using put[of "cb\<lparr>cb_config := c\<rparr>"] Some Inr
        by (simp add: UpdateDynamicCircularBufferAddress_def get_circular_buffer_def)
    next
      case (Inr cb')
      then show ?thesis
        using put[of cb'] assign_global_fields[OF Inr] Some \<open>set_globally_allocated_address _ _ _ = _\<close>
        by (simp add: UpdateDynamicCircularBufferAddress_def get_circular_buffer_def)
    qed
  qed
qed

lemma allocate_inv:
  assumes inv: "program_inv p" and base: "base < 2 ^ 32"
  shows "fst (allocate_circular_buffers base p) = None"
    and "program_inv (snd (allocate_circular_buffers base p))"
    and "same_shape p (snd (allocate_circular_buffers base p))"
    and "\<not> local_circular_buffer_allocation_needed (snd (allocate_circular_buffers base p))"
proof -
  have lp: "layout_ok p" using inv by (simp add: program_inv_def)
  obtain e q where q: "allocate_loop base (circular_buffers p) p = (e, q)" by fastforce
  have e: "e = None" and s: "same_shape p q" using allocate_loop_ok[OF lp order.refl, of base] q by auto
  let ?q = "q\<lparr>local_circular_buffer_allocation_needed := False\<rparr>"
  have s': "same_shape p ?q" using s by (simp add: same_shape_def)
  have lq: "layout_ok ?q" by (rule layout_ok_same_shape[OF lp s'])
  have "\<exists>g. placed g (set (circular_buffers ?q)) ?q"
    if n: "local_circular_buffer_allocation_needed p" and l: "laminar ?q" "length (circular_buffers ?q) < 2 ^ 31"
  proof -
    have len: "length (circular_buffers p) < 2 ^ 31" and lam: "laminar p"
      using l s' laminar_same_shape[OF s'] by (simp_all add: same_shape_def)
    have e0: "\<forall>a\<in>set (cb_allocators p). get_cb_region_end a \<le> base"
      using inv n by (auto simp: program_inv_def get_cb_region_end_def)
    have b: "base + length (circular_buffers p) * 2 ^ 32 \<le> 2 ^ 64" using len base by simp
    have "placed (\<lambda>_. 0) {} p" by (simp add: placed_def)
    from allocate_loop_placed[OF lp lam order.refl layout_okD(3)[OF lp] _ this order.refl e0 b]
    obtain g where g: "placed g (set (circular_buffers p)) q" using q by auto
    have "placed g (set (circular_buffers ?q)) ?q"
      by (rule placed_same[OF g]) (use s in \<open>auto simp: local_cb_def same_shape_def\<close>)
    then show ?thesis by blast
  qed
  with lq have "local_circular_buffer_allocation_needed p \<Longrightarrow> program_inv ?q" by (simp add: program_inv_def)
  with q e s' inv show "fst (allocate_circular_buffers base p) = None"
    "program_inv (snd (allocate_circular_buffers base p))"
    "same_shape p (snd (allocate_circular_buffers base p))"
    "\<not> local_circular_buffer_allocation_needed (snd (allocate_circular_buffers base p))"
    by (simp_all add: allocate_circular_buffers_def same_shape_refl)
qed

lemma program_inv_other_fields:
  "program_inv (p\<lparr>semaphores := ss\<rparr>) = program_inv p"
  "program_inv (p\<lparr>compiled := ds\<rparr>) = program_inv p"
  by (simp_all add: program_inv_def layout_ok_def placed_def local_cb_def laminar_def)

lemma CreateSemaphore_fields: "CreateSemaphore crs v t p = Inr (i, p') \<Longrightarrow> \<exists>ss. p' = p\<lparr>semaphores := ss\<rparr>"
  by (auto simp: CreateSemaphore_def add_semaphore_def rbind_def split: sum.splits option.splits if_splits)

lemma program_reachable_inv: "program_reachable buffers p \<Longrightarrow> program_inv p"
proof (induction rule: program_reachable.induct)
  case reach_new
  show ?case by (simp add: program_inv_def layout_ok_def new_Program_def placed_def)
next
  case (reach_semaphore p crs v t i p')
  then show ?case using CreateSemaphore_fields program_inv_other_fields by metis
qed (simp_all add: add_circular_buffer_inv update_total_inv update_page_inv update_dynamic_inv allocate_inv
  program_inv_other_fields)

subsection \<open>Properties\<close>

text \<open>Allocating the circular buffers of a program never fails, whatever ranges they are on: the
  regions of an allocator are only ever appended to, so mark_address never throws; the call leaves
  the buffers, their ranges and their sizes as they are.\<close>

theorem allocate_circular_buffers_returns:
  assumes "program_reachable buffers p" "base < 2 ^ 32"
  shows "fst (allocate_circular_buffers base p) = None
    \<and> same_shape p (snd (allocate_circular_buffers base p))
    \<and> \<not> local_circular_buffer_allocation_needed (snd (allocate_circular_buffers base p))"
  using allocate_inv[OF program_reachable_inv[OF assms(1)] assms(2)] by simp

lemma validate_allocators_iff:
  "validate_allocators max_l1 lowest as = Inr () \<longleftrightarrow>
    (\<forall>a\<in>set as. l1_regions a \<noteq> [] \<longrightarrow> get_cb_region_end a \<le> max_l1
      \<and> (\<forall>l. lowest = Some l \<longrightarrow> get_cb_region_end a \<le> l))"
  by (induction as) (auto simp: get_cb_region_end_def Let_def split: option.splits)

lemma validate_end:
  "validate_allocators max_l1 lowest as = Inr () \<Longrightarrow> a \<in> set as \<Longrightarrow> get_cb_region_end a \<le> max_l1
    \<and> (\<forall>l. lowest = Some l \<longrightarrow> get_cb_region_end a \<le> l)"
  unfolding validate_allocators_iff by (cases "l1_regions a = []") (auto simp: get_cb_region_end_def)

text \<open>(C10) In a program whose core ranges are pairwise equal or disjoint, once the circular buffers are
  allocated and the region is validated, two local circular buffers that share a core occupy
  disjoint addresses, inside the L1 memory and below the lowest L1 buffer of the allocator.\<close>

theorem circular_buffers_disjoint:
  assumes r: "program_reachable buffers p" and n: "\<not> local_circular_buffer_allocation_needed p"
    and lam: "laminar p" and len: "length (circular_buffers p) < 2 ^ 31"
    and v: "validate_circular_buffer_region al core l1_size p = Inr ()" and l1: "l1_size < 2 ^ 32"
    and cb: "local_cb p h1 cb1" "local_cb p h2 cb2" "h1 \<noteq> h2" and s: "share_core cb1 cb2"
  shows "\<exists>a1 a2. cb_address cb1 = Inr a1 \<and> cb_address cb2 = Inr a2
    \<and> (a1 + cb_size cb1 \<le> a2 \<or> a2 + cb_size cb2 \<le> a1)
    \<and> a1 + cb_size cb1 \<le> l1_size
    \<and> (\<forall>b bs l. bank_ids_from_logical_core al L1 core = Inr (b # bs)
        \<longrightarrow> lowest_occupied_l1_address al b = Inr (Some l) \<longrightarrow> a1 + cb_size cb1 \<le> l)"
proof -
  have inv: "program_inv p" by (rule program_reachable_inv[OF r])
  then have lp: "layout_ok p" by (simp add: program_inv_def)
  obtain f where f: "placed f (set (circular_buffers p)) p" using inv n lam len by (auto simp: program_inv_def)
  from v obtain ids b lowest where ids: "bank_ids_from_logical_core al L1 core = Inr ids"
    "vec_get ids 0 = Inr b" "lowest_occupied_l1_address al b = Inr lowest"
    and va: "validate_allocators l1_size lowest (cb_allocators p) = Inr ()"
    by (auto simp: validate_circular_buffer_region_def rbind_eq_Inr)
  have h: "h1 \<in> set (circular_buffers p)" "h2 \<in> set (circular_buffers p)"
    using layout_okD(5)[OF lp] cb by (auto simp: local_cb_def)
  have c: "circular_buffer_by_id p h1 = Some cb1" "circular_buffer_by_id p h2 = Some cb2"
    using cb by (simp_all add: local_cb_def)
  obtain a where a: "a \<in> set (cb_allocators p)" "alloc_core_range a \<in> set (cb_core_ranges cb1)"
    "alloc_core_range a \<in> set (cb_core_ranges cb2)" using share_core_range[OF lp lam c s] by blast
  have e: "f h1 + cb_size cb1 \<le> get_cb_region_end a" "f h2 + cb_size cb2 \<le> get_cb_region_end a"
    using f h cb a unfolding placed_def by blast+
  note va = validate_end[OF va a(1)]
  have "f h1 < 2 ^ 32" "f h2 < 2 ^ 32" using e va l1 by linarith+
  then have addr: "cb_address cb1 = Inr (f h1)" "cb_address cb2 = Inr (f h2)"
    using f h cb unfolding placed_def by (simp_all add: cb_address_def local_cb_def wcast_id)
  have "f h1 + cb_size cb1 \<le> f h2 \<or> f h2 + cb_size cb2 \<le> f h1"
    using f h cb s unfolding placed_def by blast
  moreover have "f h1 + cb_size cb1 \<le> l"
    if "bank_ids_from_logical_core al L1 core = Inr (b' # bs)" "lowest_occupied_l1_address al b' = Inr (Some l)" for b' bs l
    using that ids va e(1) by (auto simp: vec_get_def)
  ultimately show ?thesis using addr e va by (intro exI[of _ "f h1"] exI[of _ "f h2"]) auto
qed

text \<open>
  Two checks of the configuration that its other setters leave out: pointing a configuration at an
  L1 buffer does not compare their sizes, and changing the total size keeps page sizes that do not
  divide it (reading the page size then throws).
\<close>

lemma dynamic_address_skips_size_check:
  assumes "is_l1 buffer"
  shows "\<exists>c'. set_globally_allocated_address b buffer c = Inr c' \<and> dynamic_cb c'
    \<and> max_size c' = Some (u32 (buf_size buffer)) \<and> total_size c' = total_size c"
  using assms by (simp add: set_globally_allocated_address_def)

lemma total_size_keeps_page_sizes:
  "set_total_size t c = Inr c' \<Longrightarrow> page_sizes c' = page_sizes c \<and> total_size c' = t"
  using set_total_size_eq by fastforce

text \<open>A page size that can be read divides the size of the circular buffer.\<close>

lemma cb_page_size_divides:
  "cb_page_size cb i = Inr ps \<Longrightarrow> 0 < ps \<and> cb_size cb mod ps = 0"
  unfolding cb_page_size_def rbind_def umod_def
  by (simp split: if_splits sum.splits option.splits)

lemma cb_num_pages_exact:
  assumes "cb_page_size cb i = Inr ps"
  shows "cb_num_pages cb i = Inr (cb_size cb div ps) \<and> cb_size cb div ps * ps = cb_size cb"
  using assms cb_page_size_divides[OF assms] div_mult_mod_eq[of "cb_size cb" ps] by (simp add: cb_num_pages_def)

text \<open>Concrete programs.\<close>

definition example_cb_config :: "nat \<Rightarrow> nat \<Rightarrow> CircularBufferConfig" where
  "example_cb_config i sz =
    (config_fields sz)\<lparr>data_formats := (replicate NUM_CIRCULAR_BUFFERS None)[i := Some Float16_b],
      page_sizes := (replicate NUM_CIRCULAR_BUFFERS None)[i := Some 1024], config_buffer_indices := {i}\<rparr>"

lemma example_cb_config_made:
  "rbind (static_config 4096 [(1, Float16_b)]) (cfg_set_page_size 1 1024) = Inr (example_cb_config 1 4096)"
  by (simp add: static_config_def set_config_def NUM_CIRCULAR_BUFFERS_def config_fields_def cfg_set_page_size_def
    example_cb_config_def umod_def)

definition example_l1_buffer :: Buffer where
  "example_l1_buffer =
    \<lparr>has_device = True, buf_size = 2048, buf_address = 1000000, buf_page_size = 1024, buf_type = L1,
     buf_layout = INTERLEAVED, shard_parameters = None, page_mapping = None, buf_allocate = True,
     buf_bottom_up = None\<rparr>"

abbreviation example_buffers :: "nat \<Rightarrow> Buffer" where
  "example_buffers \<equiv> \<lambda>_. example_l1_buffer"

text \<open>Three circular buffers of 1024, 4096 and 1024 bytes, on one range each.\<close>

definition example_cb_program :: "CoreRange \<Rightarrow> CoreRange \<Rightarrow> CoreRange \<Rightarrow> Program" where
  "example_cb_program r0 r1 r2 =
    snd (allocate_circular_buffers 1024
      (snd (add_circular_buffer example_buffers 2 [r2] (example_cb_config 2 1024)
      (snd (add_circular_buffer example_buffers 1 [r1] (example_cb_config 1 4096)
      (snd (add_circular_buffer example_buffers 0 [r0] (example_cb_config 0 1024) new_Program)))))))"

lemma add_core_ranges_by_id: "circular_buffer_by_id (snd (add_core_ranges is rs p)) = circular_buffer_by_id p"
  by (induction rs arbitrary: p) (auto split: prod.splits option.splits)

lemma add_by_id_other:
  assumes "k \<noteq> h"
  shows "circular_buffer_by_id (snd (add_circular_buffer buffers h crs cfg p)) k = circular_buffer_by_id p k"
proof (cases "new_CircularBuffer crs cfg")
  case (Inl e)
  then show ?thesis by (simp add: add_circular_buffer_def)
next
  case (Inr cb)
  let ?r = "if globally_allocated cb then assign_global_address buffers cb else Inr cb"
  let ?p = "if \<not> globally_allocated cb then invalidate_circular_buffer_allocation p else p"
  have by_id: "circular_buffer_by_id ?p = circular_buffer_by_id p" by simp
  show ?thesis
  proof (cases ?r)
    case Inl': (Inl e)
    then show ?thesis using Inr by_id by (simp add: add_circular_buffer_def Let_def)
  next
    case Inr': (Inr cb')
    obtain e q where q: "add_core_ranges (cb_buffer_indices cb') crs ?p = (e, q)" by fastforce
    then have "circular_buffer_by_id q = circular_buffer_by_id p"
      using add_core_ranges_by_id[of "cb_buffer_indices cb'" crs ?p] by_id by simp
    with assms Inr Inr' q by_id show ?thesis
      by (cases e) (simp_all add: add_circular_buffer_def Let_def)
  qed
qed

lemma crs_ok_single: "valid_range r \<Longrightarrow> crs_ok [r]"
  by (simp add: crs_ok_def disjoint_ranges_def)

lemma example_cb_program_reachable:
  assumes "valid_range r0" "valid_range r1" "valid_range r2"
  shows "program_reachable example_buffers (example_cb_program r0 r1 r2)"
proof -
  let ?p0 = "snd (add_circular_buffer example_buffers 0 [r0] (example_cb_config 0 1024) new_Program)"
  let ?p1 = "snd (add_circular_buffer example_buffers 1 [r1] (example_cb_config 1 4096) ?p0)"
  let ?p2 = "snd (add_circular_buffer example_buffers 2 [r2] (example_cb_config 2 1024) ?p1)"
  have sz: "total_size (example_cb_config i n) = n" for i n by (simp add: example_cb_config_def config_fields_def)
  have e: "circular_buffer_by_id new_Program k = None" for k by (simp add: new_Program_def)
  have e0: "circular_buffer_by_id ?p0 k = None" if "k \<noteq> 0" for k using add_by_id_other[OF that] e by simp
  have e1: "circular_buffer_by_id ?p1 k = None" if "k \<noteq> 0" "k \<noteq> 1" for k
    using add_by_id_other[OF that(2)] e0[OF that(1)] by simp
  have "program_reachable example_buffers ?p0"
    by (rule reach_add[OF reach_new e crs_ok_single[OF assms(1)]]) (simp add: sz)
  then have "program_reachable example_buffers ?p1"
    by (rule reach_add[OF _ e0 crs_ok_single[OF assms(2)]]) (simp_all add: sz)
  then have "program_reachable example_buffers ?p2"
    by (rule reach_add[OF _ e1 crs_ok_single[OF assms(3)]]) (simp_all add: sz)
  then show ?thesis unfolding example_cb_program_def by (rule reach_allocate) simp
qed

abbreviation corner :: CoreRange where "corner \<equiv> CoreRange (CoreCoord 0 0) (CoreCoord 1 1)"

definition example_facts :: "Program \<Rightarrow>
    (CoreRange list \<times> bool \<times> nat \<times> nat result) option list \<times> CoreRange list \<times> nat \<times> bool \<times> unit result" where
  "example_facts p =
    (map (\<lambda>h. map_option (\<lambda>cb. (cb_core_ranges cb, globally_allocated cb, cb_size cb, cb_address cb))
       (circular_buffer_by_id p h)) [0, 1, 2],
     map alloc_core_range (cb_allocators p), length (circular_buffers p),
     local_circular_buffer_allocation_needed p, validate_allocators 1499136 None (cb_allocators p))"

lemma example_square:
  "example_facts (example_cb_program corner corner corner) =
    ([Some ([corner], False, 1024, Inr 1024), Some ([corner], False, 4096, Inr 2048),
      Some ([corner], False, 1024, Inr 6144)], [corner], 3, False, Inr ())"
  by code_simp

lemma example_intersecting:
  "example_facts (example_cb_program (CoreRange (CoreCoord 0 0) (CoreCoord 0 0))
      (CoreRange (CoreCoord 1 0) (CoreCoord 1 0)) (CoreRange (CoreCoord 0 0) (CoreCoord 1 0))) =
    ([Some ([CoreRange (CoreCoord 0 0) (CoreCoord 0 0)], False, 1024, Inr 1024),
      Some ([CoreRange (CoreCoord 1 0) (CoreCoord 1 0)], False, 4096, Inr 1024),
      Some ([CoreRange (CoreCoord 0 0) (CoreCoord 1 0)], False, 1024, Inr 2048)],
     [CoreRange (CoreCoord 0 0) (CoreCoord 0 0), CoreRange (CoreCoord 1 0) (CoreCoord 1 0),
      CoreRange (CoreCoord 0 0) (CoreCoord 1 0)], 3, False, Inr ())"
  by code_simp

lemma cells_of_single: "cells_of [r] = cells r"
  by (simp add: cells_of_def)

theorem circular_buffers_disjoint_witness:
  "\<exists>cb1 cb2 a1 a2. local_cb (example_cb_program corner corner corner) 0 cb1
    \<and> local_cb (example_cb_program corner corner corner) 1 cb2
    \<and> cb_address cb1 = Inr a1 \<and> cb_address cb2 = Inr a2
    \<and> (a1 + cb_size cb1 \<le> a2 \<or> a2 + cb_size cb2 \<le> a1) \<and> a1 + cb_size cb1 \<le> 1499136"
proof -
  let ?p = "example_cb_program corner corner corner"
  note facts = example_square[unfolded example_facts_def]
  obtain al0 :: Allocator where "True" by blast
  let ?al = "al0\<lparr>l1_manager := default_BankManager, logical_core_to_bank_ids := [(L1, [(CoreCoord 0 0, [0])])]\<rparr>"
  obtain cb1 cb2 where cb: "local_cb ?p 0 cb1" "local_cb ?p 1 cb2"
    and rs: "cb_core_ranges cb1 = [corner]" "cb_core_ranges cb2 = [corner]"
    using facts by (fastforce simp: local_cb_def)
  have s: "share_core cb1 cb2" unfolding share_core_def rs cells_of_single using valid_cells_ne[of corner] by simp
  have ar: "map alloc_core_range (cb_allocators ?p) = [corner]" using facts by simp
  have lam: "laminar ?p" unfolding laminar_def ar by (simp add: disjoint_ranges_def)
  have r: "program_reachable example_buffers ?p" by (rule example_cb_program_reachable) simp_all
  have va: "validate_allocators 1499136 None (cb_allocators ?p) = Inr ()" using facts by simp
  have "validate_circular_buffer_region ?al (CoreCoord 0 0) 1499136 p
      = validate_allocators 1499136 None (cb_allocators p)" for p
    by (simp add: validate_circular_buffer_region_def bank_ids_from_logical_core_def lookup_at_def vec_get_def
      lowest_occupied_l1_address_def bm_lowest_occupied_address_def default_BankManager_def)
  from this[of ?p] va have v: "validate_circular_buffer_region ?al (CoreCoord 0 0) 1499136 ?p = Inr ()"
    by (rule trans)
  have n: "\<not> local_circular_buffer_allocation_needed ?p" and len: "length (circular_buffers ?p) < 2 ^ 31"
    using facts by simp_all
  have l1: "(1499136::nat) < 2 ^ 32" and ne: "(0::nat) \<noteq> 1" by simp_all
  from circular_buffers_disjoint[OF r n lam len v l1 cb ne s] cb show ?thesis by blast
qed

theorem allocate_circular_buffers_returns_witness:
  "fst (allocate_circular_buffers 2048 (example_cb_program corner corner corner)) = None"
  using allocate_circular_buffers_returns[OF example_cb_program_reachable[of corner corner corner], of 2048] by simp

text \<open>(C24) When the core ranges of a program intersect without being equal, two circular buffers can be
  given overlapping addresses on a core they share, and the validation accepts it: an allocator
  whose region already ends above the address of a new buffer is not marked with it, although the
  buffer may end above that region.\<close>

theorem intersecting_ranges_overlap:
  "\<exists>p cb1 cb2 a1 a2. program_reachable example_buffers p
    \<and> \<not> local_circular_buffer_allocation_needed p
    \<and> validate_allocators 1499136 None (cb_allocators p) = Inr ()
    \<and> local_cb p 1 cb1 \<and> local_cb p 2 cb2 \<and> share_core cb1 cb2
    \<and> cb_address cb1 = Inr a1 \<and> cb_address cb2 = Inr a2 \<and> a1 < a2 \<and> a2 + cb_size cb2 < a1 + cb_size cb1"
proof -
  let ?r0 = "CoreRange (CoreCoord 0 0) (CoreCoord 0 0)" and ?r1 = "CoreRange (CoreCoord 1 0) (CoreCoord 1 0)"
  let ?r2 = "CoreRange (CoreCoord 0 0) (CoreCoord 1 0)"
  let ?p = "example_cb_program ?r0 ?r1 ?r2"
  note facts = example_intersecting[unfolded example_facts_def]
  obtain cb1 cb2 where cb: "local_cb ?p 1 cb1" "local_cb ?p 2 cb2"
    and rs: "cb_core_ranges cb1 = [?r1]" "cb_core_ranges cb2 = [?r2]"
    and a: "cb_size cb1 = 4096" "cb_size cb2 = 1024" "cb_address cb1 = Inr 1024" "cb_address cb2 = Inr 2048"
    using facts by (fastforce simp: local_cb_def)
  have "CoreCoord 1 0 \<in> cells ?r1 \<inter> cells ?r2" by simp
  then have "share_core cb1 cb2" unfolding share_core_def rs cells_of_single by blast
  moreover have "program_reachable example_buffers ?p" by (rule example_cb_program_reachable) simp_all
  moreover have "local_circular_buffer_allocation_needed ?p = False"
    "validate_allocators 1499136 None (cb_allocators ?p) = Inr ()" using facts by simp_all
  ultimately show ?thesis using cb a
    by (intro exI[of _ ?p] exI[of _ cb1] exI[of _ cb2] exI[of _ 1024] exI[of _ 2048]) simp
qed

end
