(* ===== verification/Semaphore_Props.thy ===== *)
theory Semaphore_Props
  imports Circular_Buffer_Props
begin

text \<open>
  The ids \<^verbatim>\<open>CreateSemaphore\<close> gives out: on one core range an id that is free on all its cores; on
  several ranges the largest of their candidates, which need not be free.
\<close>

subsection \<open>The histogram\<close>

lemma count_semaphores_eq:
  "(\<forall>s\<in>set ss. sem_id s < length h) \<Longrightarrow> (\<forall>i<length h. h ! i + length ss < 2 ^ 32)
    \<Longrightarrow> \<exists>h'. count_semaphores ss h = Inr h' \<and> length h' = length h
      \<and> (\<forall>i<length h. h' ! i = h ! i + length (filter (\<lambda>s. sem_id s = i) ss))"
proof (induction ss arbitrary: h)
  case (Cons s ss)
  let ?h = "h[sem_id s := h ! sem_id s + 1]"
  have s: "sem_id s < length h" using Cons.prems(1) by simp
  have "h ! sem_id s + 1 < 2 ^ 32" using Cons.prems(2) s by fastforce
  then have step: "count_semaphores (s # ss) h = count_semaphores ss ?h"
    using s by (simp add: vec_get_def vec_set_def wadd_id)
  have "?h ! i + length ss < 2 ^ 32" if "i < length ?h" for i
  proof -
    have "h ! i + length (s # ss) < 2 ^ 32" using Cons.prems(2) that by simp
    then show ?thesis using that by (cases "i = sem_id s") simp_all
  qed
  with Cons.IH[of ?h] Cons.prems(1) obtain h' where h': "count_semaphores ss ?h = Inr h'" "length h' = length h"
    "\<forall>i<length h. h' ! i = ?h ! i + length (filter (\<lambda>s. sem_id s = i) ss)" by auto
  then show ?case unfolding step by (auto simp: nth_list_update)
qed simp

lemma semaphore_histogram_eq:
  assumes "semaphore_histogram p cs h = Inr h'"
    and "\<forall>c\<in>set cs. length (semaphores_on_core p c) \<le> n \<and> (\<forall>s\<in>set (semaphores_on_core p c). sem_id s < length h)"
    and "\<forall>i<length h. h ! i + n * length cs < 2 ^ 32"
  shows "length h' = length h \<and> (\<forall>i<length h. h' ! i = 0 \<longleftrightarrow>
    h ! i = 0 \<and> (\<forall>c\<in>set cs. \<forall>s\<in>set (semaphores_on_core p c). sem_id s \<noteq> i))"
  using assms
proof (induction cs arbitrary: h)
  case (Cons c cs)
  let ?ss = "semaphores_on_core p c"
  have "\<forall>i<length h. h ! i + length ?ss < 2 ^ 32" using Cons.prems(2,3) by fastforce
  moreover have "\<forall>s\<in>set ?ss. sem_id s < length h" using Cons.prems(2) by simp
  ultimately obtain h1 where h1: "count_semaphores ?ss h = Inr h1" "length h1 = length h"
    "\<forall>i<length h. h1 ! i = h ! i + length (filter (\<lambda>s. sem_id s = i) ?ss)"
    using count_semaphores_eq by blast
  have st: "semaphore_histogram p cs h1 = Inr h'" "length ?ss \<noteq> NUM_SEMAPHORES"
    using Cons.prems(1) h1(1) by (auto simp: Let_def split: if_splits)
  have "h1 ! i + n * length cs < 2 ^ 32" if i: "i < length h1" for i
  proof -
    have "h1 ! i = h ! i + length (filter (\<lambda>s. sem_id s = i) ?ss)" using h1(2,3) i by simp
    moreover have "length (filter (\<lambda>s. sem_id s = i) ?ss) \<le> length ?ss" by (rule length_filter_le)
    moreover have "length ?ss \<le> n" using Cons.prems(2) by simp
    ultimately have "h1 ! i \<le> h ! i + n" by linarith
    then show ?thesis using Cons.prems(3) i h1(2) by fastforce
  qed
  with Cons.IH[OF st(1)] Cons.prems(2) h1(2)
  have "length h' = length h \<and> (\<forall>i<length h. h' ! i = 0 \<longleftrightarrow>
    h1 ! i = 0 \<and> (\<forall>c\<in>set cs. \<forall>s\<in>set (semaphores_on_core p c). sem_id s \<noteq> i))" by simp
  with h1(3) show ?case by (auto simp: filter_empty_conv)
qed simp

lemma set_loop_cores: "set (loop_cores r) = cells r"
proof -
  obtain x1 y1 x2 y2 where r: "r = CoreRange (CoreCoord x1 y1) (CoreCoord x2 y2)" by (rule range_cases)
  have "set (loop_cores r) = (\<Union>x\<in>{x1..x2}. CoreCoord x ` {y1..y2})"
    by (simp add: r loop_cores_def atLeastLessThanSuc_atLeastAtMost[symmetric] del: upt_Suc)
  also have "\<dots> = cells r" unfolding r by (rule cells_cases) (auto simp: image_iff)
  finally show ?thesis .
qed

subsection \<open>Ids on a core\<close>

definition sems_ok :: "Program \<Rightarrow> bool" where
  "sems_ok p \<longleftrightarrow> (\<forall>s\<in>set (semaphores p). sem_id s < NUM_SEMAPHORES)
    \<and> (\<forall>c. distinct (map sem_id (semaphores_on_core p c)))"

lemma semaphores_on_core_le:
  assumes "sems_ok p"
  shows "length (semaphores_on_core p c) \<le> NUM_SEMAPHORES"
proof -
  have "set (map sem_id (semaphores_on_core p c)) \<subseteq> {..<NUM_SEMAPHORES}"
    using assms by (auto simp: sems_ok_def semaphores_on_core_def)
  moreover have "length (map sem_id (semaphores_on_core p c)) = card (set (map sem_id (semaphores_on_core p c)))"
    using assms by (metis sems_ok_def distinct_card)
  ultimately show ?thesis using card_mono[of "{..<NUM_SEMAPHORES}"] by fastforce
qed

text \<open>No range of cores is so large that a 32-bit count of the semaphores on it could wrap.\<close>

definition countable_range :: "CoreRange \<Rightarrow> bool" where
  "countable_range r \<longleftrightarrow> NUM_SEMAPHORES * length (loop_cores r) < 2 ^ 32"

lemma find_upt_Some:
  "find P [0..<n] = Some i \<longleftrightarrow> i < n \<and> P i \<and> (\<forall>j<i. \<not> P j)"
  by (auto simp: find_Some_iff)

lemma get_semaphore_id_free:
  assumes ok: "sems_ok p" and r: "countable_range r" and g: "get_semaphore_id p r = Inr i"
  shows "i < NUM_SEMAPHORES \<and> (\<forall>c\<in>cells r. \<forall>s\<in>set (semaphores_on_core p c). sem_id s \<noteq> i)
    \<and> (\<forall>j<i. \<exists>c\<in>cells r. \<exists>s\<in>set (semaphores_on_core p c). sem_id s = j)"
proof -
  from g obtain h where h: "semaphore_histogram p (loop_cores r) (replicate NUM_SEMAPHORES 0) = Inr h"
    and f: "find (\<lambda>i. h ! i = 0) [0..<length h] = Some i"
    by (auto simp: get_semaphore_id_def rbind_eq_Inr split: option.splits)
  have "\<forall>s\<in>set (semaphores_on_core p c). sem_id s < NUM_SEMAPHORES" for c
    using ok by (auto simp: sems_ok_def semaphores_on_core_def)
  then have "length h = NUM_SEMAPHORES \<and> (\<forall>i<NUM_SEMAPHORES. h ! i = 0 \<longleftrightarrow>
      (\<forall>c\<in>cells r. \<forall>s\<in>set (semaphores_on_core p c). sem_id s \<noteq> i))"
    using semaphore_histogram_eq[OF h, of NUM_SEMAPHORES] semaphores_on_core_le[OF ok] r
    by (auto simp: set_loop_cores countable_range_def)
  then have len: "length h = NUM_SEMAPHORES" and z: "\<And>i. i < NUM_SEMAPHORES \<Longrightarrow> h ! i = 0 \<longleftrightarrow>
      (\<forall>c\<in>cells r. \<forall>s\<in>set (semaphores_on_core p c). sem_id s \<noteq> i)" by blast+
  from f have i: "i < NUM_SEMAPHORES" "h ! i = 0" "\<forall>j<i. h ! j \<noteq> 0" unfolding find_upt_Some len by simp_all
  moreover have "\<exists>c\<in>cells r. \<exists>s\<in>set (semaphores_on_core p c). sem_id s = j" if "j < i" for j
    using i(1,3) that z[of j] by auto
  ultimately show ?thesis using z[of i] by blast
qed

lemma CreateSemaphore_single:
  "CreateSemaphore [r] v t p = Inr (i, p') \<longleftrightarrow> get_semaphore_id p r = Inr i \<and> compiled p = {}
    \<and> p' = p\<lparr>semaphores := semaphores p @ [\<lparr>core_range_set = [r], sem_id = i, initial_value = v, sem_core_type = t\<rparr>]\<rparr>"
  by (auto simp: CreateSemaphore_def add_semaphore_def rbind_eq_Inr split: if_splits)

lemma CreateSemaphore_single_ok:
  assumes ok: "sems_ok p" and r: "countable_range r" and c: "CreateSemaphore [r] v t p = Inr (i, p')"
  shows "sems_ok p'"
proof -
  let ?s = "\<lparr>core_range_set = [r], sem_id = i, initial_value = v, sem_core_type = t\<rparr>"
  have g: "get_semaphore_id p r = Inr i" and p': "p' = p\<lparr>semaphores := semaphores p @ [?s]\<rparr>"
    using c by (simp_all add: CreateSemaphore_single)
  note free = get_semaphore_id_free[OF ok r g]
  have on: "semaphores_on_core p' k = semaphores_on_core p k @ (if k \<in> cells r then [?s] else [])" for k
    by (simp add: p' semaphores_on_core_def initialized_on_logical_core_def core_coord_in_core_ranges_def cells_def)
  have "distinct (map sem_id (semaphores_on_core p' k))" for k
    unfolding on using ok free by (auto simp: sems_ok_def)
  moreover have "\<forall>s\<in>set (semaphores p'). sem_id s < NUM_SEMAPHORES"
    using ok free by (auto simp: p' sems_ok_def)
  ultimately show ?thesis by (simp add: sems_ok_def)
qed

text \<open>Programs whose semaphores were created on one core range each.\<close>

inductive sems_reachable :: "Program \<Rightarrow> bool" where
  sems_new: "sems_reachable new_Program"
| sems_create: "sems_reachable p \<Longrightarrow> countable_range r \<Longrightarrow> CreateSemaphore [r] v t p = Inr (i, p')
    \<Longrightarrow> sems_reachable p'"

lemma sems_reachable_ok: "sems_reachable p \<Longrightarrow> sems_ok p"
proof (induction rule: sems_reachable.induct)
  case sems_new
  show ?case by (simp add: sems_ok_def new_Program_def semaphores_on_core_def)
qed (blast intro: CreateSemaphore_single_ok)

subsection \<open>The semaphore area\<close>

lemma foldl_max_id:
  "m \<le> foldl (\<lambda>m s. if P s \<and> int (f s) > m then int (f s) else m) m ss
    \<and> (\<forall>s\<in>set ss. P s \<longrightarrow> int (f s) \<le> foldl (\<lambda>m s. if P s \<and> int (f s) > m then int (f s) else m) m ss)"
  by (induction ss arbitrary: m) (auto, (smt (verit) order_trans)+)

lemma foldl_max_id_less:
  "m < int n \<Longrightarrow> \<forall>s\<in>set ss. f s < n
    \<Longrightarrow> foldl (\<lambda>m s. if P s \<and> int (f s) > m then int (f s) else m) m ss < int n"
  by (induction ss arbitrary: m) auto

lemma semaphore_in_area:
  assumes ok: "sems_ok p" and al: "NUM_SEMAPHORES * al < 2 ^ 32" and s: "s \<in> set (semaphores p)" "sem_core_type s = t"
  shows "sem_offset al s = al * sem_id s" and "sem_offset al s + al \<le> fst (finalize_sems al t base p)"
proof -
  let ?m = "foldl (\<lambda>m s. if sem_core_type s = t \<and> int (sem_id s) > m then int (sem_id s) else m) (-1) (semaphores p)"
  have id8: "sem_id s < NUM_SEMAPHORES" using ok s by (simp add: sems_ok_def)
  have "al * sem_id s \<le> NUM_SEMAPHORES * al" using id8 by (simp add: mult.commute)
  then have o: "al * sem_id s < 2 ^ 32" using al by linarith
  then show off: "sem_offset al s = al * sem_id s" by (simp add: sem_offset_def wmul_id)
  have ge: "int (sem_id s) \<le> ?m" using foldl_max_id[of "-1" "\<lambda>s. sem_core_type s = t" sem_id] s by blast
  have "?m < int NUM_SEMAPHORES"
    using ok by (intro foldl_max_id_less) (simp_all add: sems_ok_def)
  then have "nat (?m + 1) \<le> NUM_SEMAPHORES" by linarith
  then have "nat (?m + 1) * al \<le> NUM_SEMAPHORES * al" by (rule mult_le_mono1)
  then have "nat (?m + 1) * al < 2 ^ 32" using al by (rule le_less_trans)
  then have "mul32 (nat (?m + 1)) al = nat (?m + 1) * al" by (rule wmul_id)
  then have "fst (finalize_sems al t base p) = nat (?m + 1) * al" by (simp add: finalize_sems_def Let_def)
  moreover have "sem_id s + 1 \<le> nat (?m + 1)" using ge by linarith
  then have "(sem_id s + 1) * al \<le> nat (?m + 1) * al" by (rule mult_le_mono1)
  ultimately show "sem_offset al s + al \<le> fst (finalize_sems al t base p)" using off by (simp add: algebra_simps)
qed

text \<open>(C23) In a program that creates each semaphore on one core range, two semaphores on the same core
  have different ids, hence disjoint places in the semaphore area, each inside the area that
  finalize_sems reserves; and a new semaphore gets the smallest id that is free on all its cores.\<close>

theorem semaphores_disjoint:
  assumes "sems_reachable p" "NUM_SEMAPHORES * al < 2 ^ 32"
    and s: "i < length (semaphores_on_core p c)" "j < length (semaphores_on_core p c)" "i \<noteq> j"
      "a = semaphores_on_core p c ! i" "b = semaphores_on_core p c ! j"
  shows "sem_id a \<noteq> sem_id b
    \<and> (sem_offset al a + al \<le> sem_offset al b \<or> sem_offset al b + al \<le> sem_offset al a)
    \<and> sem_offset al a + al \<le> fst (finalize_sems al (sem_core_type a) base p)
    \<and> (countable_range r \<and> CreateSemaphore [r] v t p = Inr (k, p') \<longrightarrow>
        (\<forall>c\<in>cells r. \<forall>s\<in>set (semaphores_on_core p c). sem_id s \<noteq> k)
        \<and> (\<forall>m<k. \<exists>c\<in>cells r. \<exists>s\<in>set (semaphores_on_core p c). sem_id s = m))"
proof -
  have ok: "sems_ok p" by (rule sems_reachable_ok[OF assms(1)])
  have ne: "sem_id a \<noteq> sem_id b"
    using ok s nth_eq_iff_index_eq[of "map sem_id (semaphores_on_core p c)" i j] by (simp add: sems_ok_def)
  have m: "a \<in> set (semaphores p)" "b \<in> set (semaphores p)"
    using s nth_mem[of i "semaphores_on_core p c"] nth_mem[of j "semaphores_on_core p c"]
    by (simp_all add: semaphores_on_core_def)
  note off = semaphore_in_area[OF ok assms(2) m(1) refl] semaphore_in_area[OF ok assms(2) m(2) refl]
  have "al * (x + 1) \<le> al * y" if "x < y" for x y using that by (intro mult_le_mono2) simp
  then have "sem_offset al a + al \<le> sem_offset al b \<or> sem_offset al b + al \<le> sem_offset al a"
    unfolding off(1,3) using ne by (metis add.commute mult_Suc_right Suc_eq_plus1 linorder_neqE_nat)
  moreover have "(\<forall>c\<in>cells r. \<forall>s\<in>set (semaphores_on_core p c). sem_id s \<noteq> k)
      \<and> (\<forall>m<k. \<exists>c\<in>cells r. \<exists>s\<in>set (semaphores_on_core p c). sem_id s = m)"
    if "countable_range r \<and> CreateSemaphore [r] v t p = Inr (k, p')"
  proof -
    from that have "get_semaphore_id p r = Inr k" by (simp add: CreateSemaphore_single)
    with get_semaphore_id_free[OF ok] that show ?thesis by blast
  qed
  ultimately show ?thesis using ne off(2) by blast
qed

abbreviation one_core :: "nat \<Rightarrow> CoreRange" where
  "one_core x \<equiv> CoreRange (CoreCoord x 0) (CoreCoord x 0)"

lemma countable_one_core: "countable_range (one_core x)"
  by (simp add: countable_range_def loop_cores_def NUM_SEMAPHORES_def)

definition two_semaphores :: Program where
  "two_semaphores = new_Program\<lparr>semaphores :=
    [\<lparr>core_range_set = [one_core 0], sem_id = 0, initial_value = 0, sem_core_type = 0\<rparr>,
     \<lparr>core_range_set = [one_core 0], sem_id = 1, initial_value = 7, sem_core_type = 0\<rparr>]\<rparr>"

lemma two_semaphores_reachable: "sems_reachable two_semaphores"
proof -
  let ?p = "new_Program\<lparr>semaphores :=
    [\<lparr>core_range_set = [one_core 0], sem_id = 0, initial_value = 0, sem_core_type = 0\<rparr>]\<rparr>"
  have "get_semaphore_id new_Program (one_core 0) = Inr 0" "get_semaphore_id ?p (one_core 0) = Inr 1"
    by code_simp+
  then have "CreateSemaphore [one_core 0] 0 0 new_Program = Inr (0, ?p)"
    "CreateSemaphore [one_core 0] 7 0 ?p = Inr (1, two_semaphores)"
    by (simp_all add: CreateSemaphore_single two_semaphores_def) (simp_all add: new_Program_def)
  with sems_new countable_one_core show ?thesis by (meson sems_create)
qed

theorem semaphores_disjoint_witness:
  "sem_offset 16 (semaphores two_semaphores ! 0) + 16 \<le> fst (finalize_sems 16 0 0 two_semaphores)
    \<and> sem_id (semaphores two_semaphores ! 0) \<noteq> sem_id (semaphores two_semaphores ! 1)"
proof -
  have on: "semaphores_on_core two_semaphores (CoreCoord 0 0) = semaphores two_semaphores"
    and len: "length (semaphores two_semaphores) = 2" and t: "sem_core_type (semaphores two_semaphores ! 0) = 0"
    by (simp_all add: two_semaphores_def semaphores_on_core_def initialized_on_logical_core_def
      core_coord_in_core_ranges_def range_contains_coord_def)
  show ?thesis
    using semaphores_disjoint[OF two_semaphores_reachable, of 16 0 "CoreCoord 0 0" 1
        "semaphores two_semaphores ! 0" "semaphores two_semaphores ! 1" 0] on len t
    by (simp add: NUM_SEMAPHORES_def)
qed

text \<open>On a set of several core ranges the largest candidate can be an id that one of the ranges
  uses already: four calls on cores 0, 1 and 2 leave two semaphores with the same id, hence at the
  same address, on core 1.\<close>

theorem semaphores_share_an_id:
  "\<exists>p1 p2 p3 p4. CreateSemaphore [one_core 0] 0 0 new_Program = Inr (0, p1)
    \<and> CreateSemaphore [one_core 0, one_core 1] 0 0 p1 = Inr (1, p2)
    \<and> CreateSemaphore [one_core 2] 0 0 p2 = Inr (0, p3)
    \<and> CreateSemaphore [one_core 1, one_core 2] 0 0 p3 = Inr (1, p4)
    \<and> map sem_id (semaphores_on_core p4 (CoreCoord 1 0)) = [1, 1]"
proof -
  have "rbind (CreateSemaphore [one_core 0] 0 0 new_Program) (\<lambda>(i1, p).
      rbind (CreateSemaphore [one_core 0, one_core 1] 0 0 p) (\<lambda>(i2, p).
      rbind (CreateSemaphore [one_core 2] 0 0 p) (\<lambda>(i3, p).
      rbind (CreateSemaphore [one_core 1, one_core 2] 0 0 p) (\<lambda>(i4, p).
      Inr ([i1, i2, i3, i4], map sem_id (semaphores_on_core p (CoreCoord 1 0)))))))
    = Inr ([0, 1, 0, 1], [1, 1])"
    by code_simp
  then show ?thesis by (auto simp: rbind_eq_Inr)
qed

end
