(* ===== verification/Dispatch_Kernel.thy ===== *)
theory Dispatch_Kernel
  imports Device_Command_Walk
begin

text \<open>
  The dispatch kernel, \<^verbatim>\<open>tt_metal/impl/dispatch/kernels/cq_dispatch.cpp\<close> with the part of \<^verbatim>\<open>cq_common.hpp\<close> it uses.  The
  kernel receives commands and data from the prefetch kernel in a ring of pages in its L1 memory, and turns
  each command into transactions on the network of the chip (NOC).

  \<^item> A kernel is compiled for its place: the compile-time arguments are the record \<open>Dispatch_args\<close>.  The globals and the
    static variables of the kernel are the record \<open>Dispatcher\<close>.  Where two functions have a static variable each
    (\<^verbatim>\<open>upstream_count\<close>, \<^verbatim>\<open>prev_block\<close>), it is a field.
  \<^item> What the kernel does is the list \<open>ops\<close>, oldest first: NOC transactions, increments of semaphores of other cores,
    barriers.  The registers of the command buffer, which \<^verbatim>\<open>cq_noc_async_write_with_state\<close> sets one by one, are the
    record \<open>Noc_regs\<close>; a transaction is made of what the registers hold when it is sent.
  \<^item> What the kernel polls are lists of the values that successive reads give.  The semaphore that counts the pages
    released by the prefetcher is read only when every page counted so far has been acquired: an element \<open>(k, m)\<close> of \<open>arrivals\<close>
    says that \<open>k\<close> more pages have been released, and that the memory then is \<open>m\<close>.  An element of \<open>in_flight\<close> is the
    number of issued writes that the NOC has not sent yet when its register is read.  These values are
    arbitrary: that transactions on the same virtual channel are sent in order, and that a barrier waits for some of them, is not
    assumed, so what is proved of the kernel holds whatever order the NOC keeps, and runs that the NOC excludes are not excluded here.
    A polling loop that has used up its list is \<open>Diverges\<close>.
  \<^item> Not modelled: \<^verbatim>\<open>WAYPOINT\<close>, \<^verbatim>\<open>DPRINT\<close>, the heartbeat of the Ethernet variant and its early exit, \<^verbatim>\<open>noc_cmd_buf_ready\<close>, and the fields
    of the NOC control register other than multicast and link.  \<^verbatim>\<open>ASSERT\<close> of the kernels is \<open>TT_ASSERT\<close>.
\<close>

unbundle bit_operations_syntax

subsection \<open>cq\_common.hpp\<close>

definition round_up_pow2 :: "nat \<Rightarrow> nat \<Rightarrow> nat" where
  "round_up_pow2 v pow2_size = add32 v (sub32 pow2_size 1) AND (2 ^ 32 - 1 - sub32 pow2_size 1)"

definition div_up32 :: "nat \<Rightarrow> nat \<Rightarrow> nat" where
  "div_up32 n d = sub32 (add32 n d) 1 div d"

text \<open>\<^verbatim>\<open>int32_t diff = a - b\<close> is not negative when the difference modulo \<open>2 ^ 32\<close> is below \<open>2 ^ 31\<close>.\<close>

definition wrap_ge :: "nat \<Rightarrow> nat \<Rightarrow> bool" where
  "wrap_ge a b \<longleftrightarrow> sub32 a b < 2 ^ 31"

definition wrap_gt :: "nat \<Rightarrow> nat \<Rightarrow> bool" where
  "wrap_gt a b \<longleftrightarrow> 0 < sub32 a b \<and> sub32 a b < 2 ^ 31"

fun poll_until :: "('a \<Rightarrow> bool) \<Rightarrow> 'a list \<Rightarrow> ('a \<times> 'a list) result" where
  "poll_until ok [] = Inl Diverges"
| "poll_until ok (v # vs) = (if ok v then Inr (v, vs) else poll_until ok vs)"

datatype semaphore_name =
    Upstream_cb_sem | My_downstream_cb_sem | Downstream_cb_sem | Prefetch_h_sem | Upstream_sync_sem | My_sem nat

text \<open>The destination of a transaction: a core and an address there, or what \<^verbatim>\<open>InterleavedAddrGen::get_noc_addr\<close> answers for the
  page and the offset it is asked for.\<close>

datatype destination =
    Noc nat nat
  | Pcie nat
  | Interleaved bool nat nat nat nat

datatype noc_op =
    Noc_write nat destination nat bool bool
  | Noc_inline_write destination nat
  | Semaphore_inc semaphore_name nat
  | Pages_acquired nat
  | Write_barrier
  | Writes_flushed
  | Atomic_barrier

datatype noc_target = To_core nat | To_pcie

record Noc_regs =
  targ_addr_lo :: nat
  ret_addr_lo :: nat
  ret_addr_coordinate :: noc_target
  at_len_be :: nat
  ctrl_mcast :: bool
  ctrl_linked :: bool

record Dispatch_args =
  dispatch_cb_base :: nat
  dispatch_cb_log_page_size :: nat
  dispatch_cb_pages :: nat
  dispatch_cb_blocks :: nat
  da_completion_queue_base_addr :: nat
  da_completion_queue_size :: nat
  command_queue_base_addr :: nat
  host_completion_q_wr_ptr :: nat
  dev_completion_q_wr_ptr :: nat
  downstream_cb_base :: nat
  downstream_cb_size :: nat
  downstream_noc_xy :: nat
  split_prefetch :: bool
  prefetch_h_max_credits :: nat
  packed_write_max_unicast_sub_cmds :: nat
  worker_mcast_grid :: nat
  mcast_go_signal_addr :: nat
  unicast_go_signal_addr :: nat
  dispatch_s_noc_xy :: nat
  dispatch_s_sem_addr :: nat
  distributed_dispatcher :: bool
  is_d_variant :: bool
  is_h_variant :: bool
  split_dispatch_page_preamble_size :: nat
  noc_max_burst_size :: nat
  da_l1_alignment :: nat

definition dispatch_cb_page_size :: "Dispatch_args \<Rightarrow> nat" where
  "dispatch_cb_page_size a = 2 ^ dispatch_cb_log_page_size a"

definition dispatch_cb_pages_per_block :: "Dispatch_args \<Rightarrow> nat" where
  "dispatch_cb_pages_per_block a = dispatch_cb_pages a div dispatch_cb_blocks a"

definition dispatch_cb_end :: "Dispatch_args \<Rightarrow> nat" where
  "dispatch_cb_end a = add32 (dispatch_cb_base a) (mul32 (dispatch_cb_page_size a) (dispatch_cb_pages a))"

definition downstream_cb_end :: "Dispatch_args \<Rightarrow> nat" where
  "downstream_cb_end a = add32 (downstream_cb_base a) (downstream_cb_size a)"

text \<open>The table \<^verbatim>\<open>kernel_main\<close> fills.\<close>

definition block_next_start_addr :: "Dispatch_args \<Rightarrow> nat list" where
  "block_next_start_addr a =
     map (\<lambda>i. add32 (dispatch_cb_base a) (mul32 (mul32 (i + 1) (dispatch_cb_pages_per_block a)) (dispatch_cb_page_size a)))
       [0..<dispatch_cb_blocks a]"

record Dispatcher =
  rd_block_idx :: nat
  cb_fence :: nat
  cmd_ptr :: nat
  downstream_cb_data_ptr :: nat
  write_offset :: "nat list"
  upstream_total_acquired_page_count :: nat
  upstream_count :: nat
  prev_block :: bool
  block_noc_writes_to_clear :: nat
  writes_num_issued :: nat
  writes_acked :: nat
  completion_fifo_wr_ptr :: nat
  completion_fifo_wr_toggle :: nat
  unicast_only_cores :: "nat list"
  num_unicast_cores :: int
  num_go_signals_safe_to_send :: nat
  noc_regs :: Noc_regs
  l1 :: mem
  arrivals :: "(nat \<times> mem) list"
  in_flight :: "nat list"
  completion_rd_reads :: "nat list"
  downstream_sem_reads :: "nat list"
  worker_sem_reads :: "nat list"
  ops :: "noc_op list"

definition emit :: "noc_op \<Rightarrow> Dispatcher \<Rightarrow> Dispatcher" where
  "emit x s = s\<lparr>ops := ops s @ [x]\<rparr>"

text \<open>The flags of \<^verbatim>\<open>CQNocFlags\<close>: source, coordinate, destination, length; \<open>snd\<close> is \<^verbatim>\<open>CQ_NOC_SEND\<close>.\<close>

record Cq_noc_flags =
  flag_src :: bool
  flag_noc :: bool
  flag_dst :: bool
  flag_len :: bool

definition set_noc_regs :: "Cq_noc_flags \<Rightarrow> nat \<Rightarrow> noc_target \<times> nat \<Rightarrow> nat \<Rightarrow> Noc_regs \<Rightarrow> Noc_regs" where
  "set_noc_regs flags src_addr dst_addr sz r =
     r\<lparr>targ_addr_lo := if flag_src flags then src_addr else targ_addr_lo r,
       ret_addr_lo := if flag_dst flags then snd dst_addr else ret_addr_lo r,
       ret_addr_coordinate := if flag_noc flags then fst dst_addr else ret_addr_coordinate r,
       at_len_be := if flag_len flags then sz else at_len_be r\<rparr>"

definition send_noc_regs :: "Noc_regs \<Rightarrow> noc_op" where
  "send_noc_regs r =
     Noc_write (targ_addr_lo r) (case ret_addr_coordinate r of To_core xy \<Rightarrow> Noc xy (ret_addr_lo r) | To_pcie \<Rightarrow> Pcie (ret_addr_lo r))
       (at_len_be r) (ctrl_mcast r) (ctrl_linked r)"

definition cq_noc_async_write_with_state :: "Dispatch_args \<Rightarrow> Cq_noc_flags \<Rightarrow> bool \<Rightarrow> nat \<Rightarrow> noc_target \<times> nat \<Rightarrow> nat
    \<Rightarrow> Dispatcher \<Rightarrow> Dispatcher result" where
  "cq_noc_async_write_with_state a flags send src_addr dst_addr sz s =
     rbind (check (flag_len flags \<longrightarrow> sz \<le> noc_max_burst_size a) (TT_ASSERT ''size <= NOC_MAX_BURST_SIZE'')) (\<lambda>_.
     let r = set_noc_regs flags src_addr dst_addr sz (noc_regs s);
         s = s\<lparr>noc_regs := r\<rparr>
     in Inr (if send then emit (send_noc_regs r) s else s))"

definition cq_noc_async_write_init_state :: "Dispatch_args \<Rightarrow> Cq_noc_flags \<Rightarrow> bool \<Rightarrow> bool \<Rightarrow> nat \<Rightarrow> noc_target \<times> nat \<Rightarrow> nat
    \<Rightarrow> Dispatcher \<Rightarrow> Dispatcher result" where
  "cq_noc_async_write_init_state a flags mcast linked src_addr dst_addr sz s =
     cq_noc_async_write_with_state a flags False src_addr dst_addr sz
       (s\<lparr>noc_regs := (noc_regs s)\<lparr>ctrl_mcast := mcast, ctrl_linked := linked\<rparr>\<rparr>)"

abbreviation SnDL :: Cq_noc_flags where
  "SnDL \<equiv> \<lparr>flag_src = True, flag_noc = False, flag_dst = True, flag_len = True\<rparr>"
abbreviation SnDl :: Cq_noc_flags where
  "SnDl \<equiv> \<lparr>flag_src = True, flag_noc = False, flag_dst = True, flag_len = False\<rparr>"
abbreviation sNdl :: Cq_noc_flags where
  "sNdl \<equiv> \<lparr>flag_src = False, flag_noc = True, flag_dst = False, flag_len = False\<rparr>"
abbreviation sndl :: Cq_noc_flags where
  "sndl \<equiv> \<lparr>flag_src = False, flag_noc = False, flag_dst = False, flag_len = False\<rparr>"
abbreviation snDL :: Cq_noc_flags where
  "snDL \<equiv> \<lparr>flag_src = False, flag_noc = False, flag_dst = True, flag_len = True\<rparr>"
abbreviation SNdl :: Cq_noc_flags where
  "SNdl \<equiv> \<lparr>flag_src = True, flag_noc = True, flag_dst = False, flag_len = False\<rparr>"
abbreviation SNdL :: Cq_noc_flags where
  "SNdL \<equiv> \<lparr>flag_src = True, flag_noc = True, flag_dst = False, flag_len = True\<rparr>"

text \<open>A write of any length: full bursts, then the rest, unless the caller wants to send it itself; then the number of bytes
  left is the result.  The destination's coordinate is in the registers.\<close>

function write_bursts :: "Dispatch_args \<Rightarrow> Cq_noc_flags \<Rightarrow> nat \<Rightarrow> nat \<Rightarrow> nat \<Rightarrow> Dispatcher
    \<Rightarrow> (nat \<times> nat \<times> nat \<times> Dispatcher) result" where
  "write_bursts a flags src_addr dst_addr sz s =
     (if noc_max_burst_size a < sz \<and> 0 < noc_max_burst_size a then
        rbind (cq_noc_async_write_with_state a flags True src_addr (To_core 0, dst_addr) (noc_max_burst_size a) s) (\<lambda>s.
        write_bursts a SnDl (add32 src_addr (noc_max_burst_size a)) (add32 dst_addr (noc_max_burst_size a))
          (sz - noc_max_burst_size a) s)
      else Inr (src_addr, dst_addr, sz, s))"
  by pat_completeness auto
termination
  by (relation "measure (\<lambda>(a, flags, src_addr, dst_addr, sz, s). sz)") auto

declare write_bursts.simps [simp del]

definition cq_noc_async_write_with_state_any_len :: "Dispatch_args \<Rightarrow> bool \<Rightarrow> nat \<Rightarrow> nat \<Rightarrow> nat
    \<Rightarrow> Dispatcher \<Rightarrow> (nat \<times> Dispatcher) result" where
  "cq_noc_async_write_with_state_any_len a write_last_packet src_addr dst_addr sz s =
     rbind (write_bursts a SnDL src_addr dst_addr sz s) (\<lambda>(src_addr, dst_addr, sz, s).
     if write_last_packet
     then rbind (cq_noc_async_write_with_state a SnDL True src_addr (To_core 0, dst_addr) sz s) (\<lambda>s. Inr (0, s))
     else Inr (sz, s))"

definition count_writes :: "nat \<Rightarrow> nat \<Rightarrow> Dispatcher \<Rightarrow> Dispatcher" where
  "count_writes issued acked s =
     s\<lparr>writes_num_issued := add32 (writes_num_issued s) issued, writes_acked := add32 (writes_acked s) acked\<rparr>"

subsubsection \<open>Pages of the ring\<close>

definition cb_acquire_pages :: "Dispatch_args \<Rightarrow> Dispatcher \<Rightarrow> (nat \<times> Dispatcher) result" where
  "cb_acquire_pages a s =
     (let local_count = upstream_total_acquired_page_count s in
      rbind (if local_count = upstream_count s
             then rbind (poll_until (\<lambda>(k, m). add32 local_count k \<noteq> local_count) (arrivals s)) (\<lambda>((k, m), rest).
                  Inr (s\<lparr>upstream_count := add32 local_count k, l1 := m, arrivals := rest\<rparr>))
             else Inr s) (\<lambda>s.
      rbind (vec_get (block_next_start_addr a) (rd_block_idx s)) (\<lambda>block_end.
      let limit = drop_bit (dispatch_cb_log_page_size a) (sub32 block_end (cb_fence s));
          available = sub32 (upstream_count s) local_count;
          usable = (if available > limit then limit else available)
      in Inr (usable, emit (Pages_acquired usable)
           (s\<lparr>upstream_total_acquired_page_count := add32 local_count usable\<rparr>)))))"

definition cb_block_release_pages :: "Dispatch_args \<Rightarrow> Dispatcher \<Rightarrow> Dispatcher result" where
  "cb_block_release_pages a s =
     rbind (if prev_block s
            then rbind (poll_until (\<lambda>d. wrap_ge (sub32 (writes_num_issued s) d) (block_noc_writes_to_clear s)) (in_flight s)) (\<lambda>(d, rest).
                 Inr (emit (Semaphore_inc Upstream_cb_sem (dispatch_cb_pages_per_block a)) (s\<lparr>in_flight := rest\<rparr>)))
            else Inr (s\<lparr>prev_block := True\<rparr>)) (\<lambda>s.
     Inr (s\<lparr>block_noc_writes_to_clear := writes_num_issued s\<rparr>))"

definition move_rd_to_next_block :: "Dispatch_args \<Rightarrow> Dispatcher \<Rightarrow> Dispatcher" where
  "move_rd_to_next_block a s =
     s\<lparr>rd_block_idx := add32 (rd_block_idx s) 1 AND sub32 (dispatch_cb_blocks a) 1\<rparr>"

definition move_rd_to_next_block_and_release_pages :: "Dispatch_args \<Rightarrow> Dispatcher \<Rightarrow> Dispatcher result" where
  "move_rd_to_next_block_and_release_pages a s =
     rbind (cb_block_release_pages a s) (\<lambda>s. Inr (move_rd_to_next_block a s))"

text \<open>Acquire the next pages, after leaving the block when it is used up.  The command handlers repeat the body of
  \<^verbatim>\<open>get_cb_page_and_release_pages\<close> with their data pointer in the place of \<^verbatim>\<open>cmd_ptr\<close>; \<open>ptr\<close> is the pointer that wraps with the
  fence.\<close>

definition acquire_into_fence :: "Dispatch_args \<Rightarrow> Dispatcher \<Rightarrow> Dispatcher result" where
  "acquire_into_fence a s =
     rbind (cb_acquire_pages a s) (\<lambda>(n_pages, s).
     Inr (s\<lparr>cb_fence := add32 (cb_fence s) (mul32 n_pages (dispatch_cb_page_size a))\<rparr>))"

definition get_cb_page_and_release_pages :: "Dispatch_args \<Rightarrow> nat \<Rightarrow> Dispatcher \<Rightarrow> (nat \<times> Dispatcher) result" where
  "get_cb_page_and_release_pages a ptr s =
     rbind (vec_get (block_next_start_addr a) (rd_block_idx s)) (\<lambda>block_end.
     rbind (if cb_fence s = block_end
            then let wrap = (rd_block_idx s = sub32 (dispatch_cb_blocks a) 1) in
                 rbind (move_rd_to_next_block_and_release_pages a
                          (if wrap then s\<lparr>cb_fence := dispatch_cb_base a\<rparr> else s)) (\<lambda>s.
                 Inr (if wrap then dispatch_cb_base a else ptr, s))
            else Inr (ptr, s)) (\<lambda>(ptr, s).
     rbind (acquire_into_fence a s) (\<lambda>s. Inr (ptr, s))))"

end
