(* ===== verification/Dispatch_Commands.thy ===== *)
theory Dispatch_Commands
  imports Dispatch_Kernel
begin

text \<open>
  The command handlers of the dispatch kernel, \<^verbatim>\<open>cq_dispatch.cpp\<close>, and its main loop.  A command is read from the L1 memory
  at \<^verbatim>\<open>cmd_ptr\<close>, at the offsets of the packed structures of \<^verbatim>\<open>cq_commands.hpp\<close>.  The loops over data have
  as fuel one more than the number of bytes to send, since each round sends at least one; the loop over debug commands and the main
  loop have the fuel their caller gives.  The handlers that are instantiated for unicast and multicast take the template
  argument as a parameter.
\<close>

unbundle bit_operations_syntax

definition read8 :: "mem \<Rightarrow> nat \<Rightarrow> nat" where
  "read8 m addr = unat (m addr)"

definition read16 :: "mem \<Rightarrow> nat \<Rightarrow> nat" where
  "read16 m addr = unat (m addr) + 256 * unat (m (addr + 1))"

subsection \<open>Writes to a core\<close>

fun write_linear_loop :: "Dispatch_args \<Rightarrow> nat \<Rightarrow> nat \<Rightarrow> nat \<Rightarrow> nat \<Rightarrow> nat \<Rightarrow> Dispatcher \<Rightarrow> Dispatcher result" where
  "write_linear_loop a num_mcast_dests 0 len data_ptr dst_addr s = Inl Diverges"
| "write_linear_loop a num_mcast_dests (Suc fuel) len data_ptr dst_addr s =
     (if len = 0 then Inr (s\<lparr>cmd_ptr := data_ptr\<rparr>)
      else
        rbind (if cb_fence s = data_ptr then get_cb_page_and_release_pages a data_ptr s else Inr (data_ptr, s)) (\<lambda>(data_ptr, s).
        let available_data = sub32 (cb_fence s) data_ptr;
            xfer_size = (if len > available_data then available_data else len)
        in rbind (cq_noc_async_write_with_state_any_len a True data_ptr dst_addr xfer_size s) (\<lambda>(_, s).
           let packets = div_up32 xfer_size (noc_max_burst_size a) in
           write_linear_loop a num_mcast_dests fuel (sub32 len xfer_size) (add32 data_ptr xfer_size) (add32 dst_addr xfer_size)
             (count_writes packets (mul32 num_mcast_dests packets) s))))"

definition process_write_linear :: "Dispatch_args \<Rightarrow> bool \<Rightarrow> nat \<Rightarrow> Dispatcher \<Rightarrow> Dispatcher result" where
  "process_write_linear a multicast num_mcast_dests s =
     (let cmd = cmd_ptr s;
          dst_noc = read32 (l1 s) (cmd + 4);
          write_offset_index = read8 (l1 s) (cmd + 2)
      in rbind (vec_get (write_offset s) write_offset_index) (\<lambda>offs.
      let dst_addr = add32 (read32 (l1 s) (cmd + 8)) offs;
          len = read32 (l1 s) (cmd + 12);
          data_ptr = add32 cmd sizeof_CQDispatchCmd
      in rbind (cq_noc_async_write_init_state a sNdl multicast False 0 (To_core dst_noc, dst_addr) 0 s) (\<lambda>s.
         write_linear_loop a num_mcast_dests (Suc len) len data_ptr dst_addr s)))"

definition process_write :: "Dispatch_args \<Rightarrow> Dispatcher \<Rightarrow> Dispatcher result" where
  "process_write a s =
     (let num_mcast_dests = read8 (l1 s) (cmd_ptr s + 1) in
      if num_mcast_dests = 0 then process_write_linear a False 1 s
      else process_write_linear a True num_mcast_dests s)"

text \<open>Pages of an interleaved buffer: one packet at a time, within a page of the buffer and the data in the ring.\<close>

fun write_paged_loop :: "Dispatch_args \<Rightarrow> bool \<Rightarrow> nat \<Rightarrow> nat \<Rightarrow> nat \<Rightarrow> nat \<Rightarrow> nat \<Rightarrow> nat \<Rightarrow> nat \<Rightarrow> Dispatcher \<Rightarrow> Dispatcher result" where
  "write_paged_loop a is_dram bank_base page_size 0 write_length data_ptr page_id dst_addr_offset s = Inl Diverges"
| "write_paged_loop a is_dram bank_base page_size (Suc fuel) write_length data_ptr page_id dst_addr_offset s =
     (if write_length = 0 then Inr (s\<lparr>cmd_ptr := data_ptr\<rparr>)
      else
        rbind (if cb_fence s = data_ptr then get_cb_page_and_release_pages a data_ptr s else Inr (data_ptr, s)) (\<lambda>(data_ptr, s).
        let available_data = sub32 (cb_fence s) data_ptr;
            remaining_page_size = sub32 page_size dst_addr_offset;
            xfer_size = (if remaining_page_size > available_data then available_data else remaining_page_size);
            xfer_size = (if xfer_size > noc_max_burst_size a then noc_max_burst_size a else xfer_size);
            s = count_writes 1 1
                  (emit (Noc_write data_ptr (Interleaved is_dram bank_base page_size page_id dst_addr_offset) xfer_size False False) s);
            (page_id, dst_addr_offset) =
              (if xfer_size < remaining_page_size then (page_id, add64 dst_addr_offset xfer_size) else (add32 page_id 1, 0))
        in write_paged_loop a is_dram bank_base page_size fuel (sub32 write_length xfer_size) (add32 data_ptr xfer_size)
             page_id dst_addr_offset s))"

definition process_write_paged :: "Dispatch_args \<Rightarrow> bool \<Rightarrow> Dispatcher \<Rightarrow> Dispatcher result" where
  "process_write_paged a is_dram s =
     (let cmd = cmd_ptr s;
          page_id = read16 (l1 s) (cmd + 2);
          bank_base = read32 (l1 s) (cmd + 4);
          page_size = read32 (l1 s) (cmd + 8);
          pages = read32 (l1 s) (cmd + 12);
          data_ptr = add32 cmd sizeof_CQDispatchCmd;
          write_length = mul32 pages page_size
      in write_paged_loop a is_dram bank_base page_size (Suc write_length) write_length data_ptr page_id 0 s)"

subsection \<open>Packed writes\<close>

definition l1_to_local_cache_copy_chunk :: nat where
  "l1_to_local_cache_copy_chunk = 6"

definition l1_cache_elements :: "Dispatch_args \<Rightarrow> nat" where
  "l1_cache_elements a =
     (let max_write_packed_large_cmd = CQ_DISPATCH_CMD_PACKED_WRITE_LARGE_MAX_SUB_CMDS * 12 div 4;
          max_write_packed_cmd = mul32 (packed_write_max_unicast_sub_cmds a) 4 div 4
      in if max_write_packed_cmd > max_write_packed_large_cmd then max_write_packed_cmd else max_write_packed_large_cmd)"

definition l1_cache_elements_rounded :: "Dispatch_args \<Rightarrow> nat" where
  "l1_cache_elements_rounded a =
     (l1_cache_elements a + l1_to_local_cache_copy_chunk - 1) div l1_to_local_cache_copy_chunk * l1_to_local_cache_copy_chunk"

definition careful_copy_from_l1_to_local_cache :: "Dispatch_args \<Rightarrow> nat \<Rightarrow> nat \<Rightarrow> mem \<Rightarrow> nat list result" where
  "careful_copy_from_l1_to_local_cache a l1_ptr count m =
     rbind (check (count \<le> l1_cache_elements_rounded a) (TT_ASSERT ''count <= l1_cache_elements_rounded'')) (\<lambda>_.
     Inr (map (\<lambda>n. read32 m (l1_ptr + 4 * n))
            [0..<(count + l1_to_local_cache_copy_chunk - 1) div l1_to_local_cache_copy_chunk * l1_to_local_cache_copy_chunk]))"

text \<open>A sub-command: its coordinate and its number of destinations.\<close>

fun packed_sub_cmds :: "bool \<Rightarrow> nat \<Rightarrow> nat list \<Rightarrow> (nat \<times> nat) list" where
  "packed_sub_cmds mcast 0 ws = []"
| "packed_sub_cmds mcast (Suc count) ws =
     (if mcast then (ws ! 0, ws ! 1) # packed_sub_cmds mcast count (drop 2 ws)
      else (ws ! 0, 1) # packed_sub_cmds mcast count (drop 1 ws))"

text \<open>The end of a block inside a packed write: what is left of the packet in this block is sent, the writes are accounted for
  and the block is released.  The result is the size of what was sent, the pointer and the state.\<close>

definition packed_leave_block :: "Dispatch_args \<Rightarrow> nat \<Rightarrow> nat \<Rightarrow> nat \<Rightarrow> nat \<Rightarrow> nat \<Rightarrow> nat \<Rightarrow> Dispatcher
    \<Rightarrow> (nat \<times> nat \<times> nat \<times> nat \<times> Dispatcher) result" where
  "packed_leave_block a dst_noc num_dests dst_addr data_ptr writes mcasts s =
     rbind (vec_get (block_next_start_addr a) (rd_block_idx s)) (\<lambda>block_end.
     if cb_fence s = block_end then
       let orphan_size = sub32 (cb_fence s) data_ptr in
       rbind (if orphan_size \<noteq> 0
              then cq_noc_async_write_with_state a SNdL True data_ptr (To_core dst_noc, dst_addr) orphan_size s
              else Inr s) (\<lambda>s.
       let (writes, mcasts) = (if orphan_size \<noteq> 0 then (writes + 1, mcasts + num_dests) else (writes, mcasts));
           (data_ptr, s) = (if rd_block_idx s = sub32 (dispatch_cb_blocks a) 1
                            then (dispatch_cb_base a, s\<lparr>cb_fence := dispatch_cb_base a\<rparr>)
                            else (add32 data_ptr orphan_size, s))
       in rbind (move_rd_to_next_block_and_release_pages a (count_writes writes mcasts s)) (\<lambda>s.
          Inr (orphan_size, data_ptr, 0, 0, s)))
     else Inr (0, data_ptr, writes, mcasts, s))"

fun write_packed_loop :: "Dispatch_args \<Rightarrow> nat \<Rightarrow> nat \<Rightarrow> nat \<Rightarrow> (nat \<times> nat) list \<Rightarrow> nat \<Rightarrow> nat \<Rightarrow> nat \<Rightarrow> Dispatcher
    \<Rightarrow> Dispatcher result" where
  "write_packed_loop a dst_addr xfer_size stride [] data_ptr writes mcasts s =
     Inr ((count_writes writes mcasts s)\<lparr>cmd_ptr := data_ptr\<rparr>)"
| "write_packed_loop a dst_addr xfer_size stride ((dst_noc, num_dests) # subs) data_ptr writes mcasts s =
     (let send_whole = (\<lambda>data_ptr writes mcasts s.
            rbind (cq_noc_async_write_with_state a SNdl True data_ptr (To_core dst_noc, dst_addr) xfer_size s) (\<lambda>s.
            write_packed_loop a dst_addr xfer_size stride subs (add32 data_ptr stride) (writes + 1) (mcasts + num_dests) s))
      in if add32 data_ptr xfer_size > cb_fence s then
           rbind (packed_leave_block a dst_noc num_dests dst_addr data_ptr writes mcasts s)
             (\<lambda>(orphan_size, data_ptr, writes, mcasts, s).
           rbind (acquire_into_fence a s) (\<lambda>s.
           if orphan_size \<noteq> 0 then
             rbind (cq_noc_async_write_with_state a SnDL True data_ptr (To_core 0, add32 dst_addr orphan_size)
                      (sub32 xfer_size orphan_size) s) (\<lambda>s.
             rbind (cq_noc_async_write_with_state a snDL False 0 (To_core dst_noc, dst_addr) xfer_size s) (\<lambda>s.
             write_packed_loop a dst_addr xfer_size stride subs (add32 data_ptr (sub32 stride orphan_size))
               (writes + 1) (mcasts + num_dests) s))
           else send_whole data_ptr writes mcasts s))
         else send_whole data_ptr writes mcasts s)"

definition process_write_packed :: "Dispatch_args \<Rightarrow> bool \<Rightarrow> nat \<Rightarrow> Dispatcher \<Rightarrow> Dispatcher result" where
  "process_write_packed a mcast flags s =
     (let cmd = cmd_ptr s;
          count = read16 (l1 s) (cmd + 2);
          sub_cmd_size = sizeof_PackedSubCmd mcast
      in rbind (check (count \<le> max_packed_sub_cmds mcast (packed_write_max_unicast_sub_cmds a))
                  (TT_ASSERT ''count <= packed_write_max_sub_cmds'')) (\<lambda>_.
      rbind (careful_copy_from_l1_to_local_cache a (cmd + sizeof_CQDispatchCmd) (count * sub_cmd_size div 4) (l1 s)) (\<lambda>l1_cache.
      let xfer_size = read16 (l1 s) (cmd + 6);
          write_offset_index = read16 (l1 s) (cmd + 4)
      in rbind (vec_get (write_offset s) write_offset_index) (\<lambda>offs.
      let dst_addr = add32 (read32 (l1 s) (cmd + 8)) offs in
      rbind (check (xfer_size \<le> dispatch_cb_page_size a) (TT_ASSERT ''xfer_size <= dispatch_cb_page_size'')) (\<lambda>_.
      let data_ptr = round_up_pow2 (add32 (add32 cmd sizeof_CQDispatchCmd) (count * sub_cmd_size)) (da_l1_alignment a);
          stride = (if bit flags 1 then 0 else round_up_pow2 xfer_size (da_l1_alignment a))
      in rbind (check (stride \<noteq> 0 \<or> add32 (sub32 data_ptr cmd) xfer_size \<le> dispatch_cb_page_size a)
                  (TT_ASSERT ''stride != 0 || data_ptr - cmd_ptr + xfer_size <= dispatch_cb_page_size'')) (\<lambda>_.
      rbind (cq_noc_async_write_init_state a snDL mcast False 0 (To_core 0, dst_addr) xfer_size s) (\<lambda>s.
      write_packed_loop a dst_addr xfer_size stride (packed_sub_cmds mcast count l1_cache) data_ptr 0 0 s)))))))"

text \<open>The large packed write: every sub-command has its own address and length.  A linked multicast is ended by
  sending its last packet unlinked.\<close>

record Packed_large =
  pk_writes :: nat
  pk_mcasts :: nat
  pk_data_ptr :: nat

definition large_leave_block :: "Dispatch_args \<Rightarrow> nat \<Rightarrow> Packed_large \<Rightarrow> Dispatcher \<Rightarrow> (Packed_large \<times> Dispatcher) result" where
  "large_leave_block a num_dests p s =
     rbind (vec_get (block_next_start_addr a) (rd_block_idx s)) (\<lambda>block_end.
     rbind (if cb_fence s = block_end then
              let wrap = (rd_block_idx s = sub32 (dispatch_cb_blocks a) 1);
                  s = (if wrap then s\<lparr>cb_fence := dispatch_cb_base a\<rparr> else s);
                  s = s\<lparr>writes_num_issued := add32 (writes_num_issued s) (pk_writes p)\<rparr>;
                  p = p\<lparr>pk_data_ptr := if wrap then dispatch_cb_base a else pk_data_ptr p,
                        pk_mcasts := add32 (pk_mcasts p) (mul32 num_dests (pk_writes p)), pk_writes := 0\<rparr>
              in rbind (move_rd_to_next_block_and_release_pages a s) (\<lambda>s. Inr (p, s))
            else Inr (p, s)) (\<lambda>(p, s).
     rbind (acquire_into_fence a s) (\<lambda>s. Inr (p, s))))"

definition large_send_last :: "Dispatch_args \<Rightarrow> bool \<Rightarrow> nat \<Rightarrow> nat \<Rightarrow> nat \<Rightarrow> Dispatcher \<Rightarrow> Dispatcher result" where
  "large_send_last a unlink data_ptr dst_addr xfer_size s =
     (if unlink then
        rbind (cq_noc_async_write_with_state_any_len a False data_ptr dst_addr xfer_size s) (\<lambda>(rem_xfer_size, s).
        rbind (cq_noc_async_write_init_state a sndl True False 0 (To_core 0, 0) 0 s) (\<lambda>s.
        let data_offset = sub32 xfer_size rem_xfer_size in
        cq_noc_async_write_with_state a SnDL True (add32 data_ptr data_offset) (To_core 0, add32 dst_addr data_offset) rem_xfer_size s))
      else rbind (cq_noc_async_write_with_state_any_len a True data_ptr dst_addr xfer_size s) (\<lambda>(_, s). Inr s))"

fun large_data_loop :: "Dispatch_args \<Rightarrow> bool \<Rightarrow> nat \<Rightarrow> nat \<Rightarrow> nat \<Rightarrow> nat \<Rightarrow> Packed_large \<Rightarrow> Dispatcher
    \<Rightarrow> (Packed_large \<times> Dispatcher) result" where
  "large_data_loop a unlink num_dests 0 len dst_addr p s = Inl Diverges"
| "large_data_loop a unlink num_dests (Suc fuel) len dst_addr p s =
     (if len = 0 then Inr (p, s)
      else
        rbind (if pk_data_ptr p = cb_fence s then large_leave_block a num_dests p s else Inr (p, s)) (\<lambda>(p, s).
        let available_data = sub32 (cb_fence s) (pk_data_ptr p);
            xfer_size = (if len > available_data then available_data else len)
        in rbind (if len > available_data
                  then rbind (cq_noc_async_write_with_state_any_len a True (pk_data_ptr p) dst_addr xfer_size s) (\<lambda>(_, s). Inr s)
                  else large_send_last a unlink (pk_data_ptr p) dst_addr xfer_size s) (\<lambda>s.
           large_data_loop a unlink num_dests fuel (sub32 len xfer_size) (add32 dst_addr xfer_size)
             (p\<lparr>pk_writes := add32 (pk_writes p) (div_up32 xfer_size (noc_max_burst_size a)),
                pk_data_ptr := add32 (pk_data_ptr p) xfer_size\<rparr>) s)))"

definition large_padding :: "Dispatch_args \<Rightarrow> nat \<Rightarrow> nat \<Rightarrow> Dispatcher \<Rightarrow> (nat \<times> Dispatcher) result" where
  "large_padding a pad_size data_ptr s =
     (if add32 data_ptr pad_size > cb_fence s then
        rbind (vec_get (block_next_start_addr a) (rd_block_idx s)) (\<lambda>block_end.
        rbind (if cb_fence s = block_end then
                 rbind (if rd_block_idx s = sub32 (dispatch_cb_blocks a) 1 then
                          rbind (check (cb_fence s = dispatch_cb_end a) (TT_ASSERT ''cb_fence == dispatch_cb_end'')) (\<lambda>_.
                          Inr (sub32 pad_size (sub32 (cb_fence s) data_ptr), dispatch_cb_base a, s\<lparr>cb_fence := dispatch_cb_base a\<rparr>))
                        else Inr (pad_size, data_ptr, s)) (\<lambda>(pad_size, data_ptr, s).
                 rbind (move_rd_to_next_block_and_release_pages a s) (\<lambda>s. Inr (pad_size, data_ptr, s)))
               else Inr (pad_size, data_ptr, s)) (\<lambda>(pad_size, data_ptr, s).
        rbind (acquire_into_fence a s) (\<lambda>s. Inr (add32 data_ptr pad_size, s))))
      else Inr (add32 data_ptr pad_size, s))"

fun write_packed_large_loop :: "Dispatch_args \<Rightarrow> nat \<Rightarrow> nat \<Rightarrow> CQDispatchWritePackedLargeSubCmd list \<Rightarrow> bool \<Rightarrow> Packed_large
    \<Rightarrow> Dispatcher \<Rightarrow> Dispatcher result" where
  "write_packed_large_loop a alignment local_write_offset [] init_state p s =
     Inr (s\<lparr>writes_acked := pk_mcasts p, cmd_ptr := pk_data_ptr p\<rparr>)"
| "write_packed_large_loop a alignment local_write_offset (sub # subs) init_state p s =
     (let dst_addr = add32 (pl_addr sub) local_write_offset;
          len = pl_length sub;
          num_dests = pl_num_mcast_dests sub;
          pad_size = sub32 (align_up len alignment) len;
          unlink = bit (pl_flags sub) 0
      in rbind (if init_state
                then cq_noc_async_write_init_state a sNdl True True 0 (To_core (pl_noc_xy_addr sub), dst_addr) 0 s
                else Inr s) (\<lambda>s.
      rbind (large_data_loop a unlink num_dests (Suc len) len dst_addr p s) (\<lambda>(p, s).
      let s = s\<lparr>writes_num_issued := add32 (writes_num_issued s) (pk_writes p)\<rparr>;
          p = p\<lparr>pk_mcasts := add32 (pk_mcasts p) (mul32 num_dests (pk_writes p)), pk_writes := 0\<rparr>
      in rbind (large_padding a pad_size (pk_data_ptr p) s) (\<lambda>(data_ptr, s).
      write_packed_large_loop a alignment local_write_offset subs unlink (p\<lparr>pk_data_ptr := data_ptr\<rparr>) s))))"

definition large_sub_cmd :: "nat list \<Rightarrow> nat \<Rightarrow> CQDispatchWritePackedLargeSubCmd" where
  "large_sub_cmd ws i =
     \<lparr>pl_noc_xy_addr = ws ! (3 * i), pl_addr = ws ! (3 * i + 1), pl_length = take_bit 16 (ws ! (3 * i + 2)),
      pl_num_mcast_dests = take_bit 8 (drop_bit 16 (ws ! (3 * i + 2))), pl_flags = take_bit 8 (drop_bit 24 (ws ! (3 * i + 2)))\<rparr>"

definition process_write_packed_large :: "Dispatch_args \<Rightarrow> Dispatcher \<Rightarrow> Dispatcher result" where
  "process_write_packed_large a s =
     (let cmd = cmd_ptr s;
          count = read16 (l1 s) (cmd + 2);
          alignment = read16 (l1 s) (cmd + 4);
          write_offset_index = read16 (l1 s) (cmd + 6)
      in rbind (vec_get (write_offset s) write_offset_index) (\<lambda>local_write_offset.
      let data_ptr = round_up_pow2 (add32 (add32 cmd sizeof_CQDispatchCmd) (count * 12)) (da_l1_alignment a) in
      rbind (careful_copy_from_l1_to_local_cache a (cmd + sizeof_CQDispatchCmd) (count * 12 div 4) (l1 s)) (\<lambda>l1_cache.
      write_packed_large_loop a alignment local_write_offset (map (large_sub_cmd l1_cache) [0..<count]) True
        \<lparr>pk_writes = 0, pk_mcasts = writes_acked s, pk_data_ptr = data_ptr\<rparr> s)))"

end
