(* ===== verification/Dispatch_Main.thy ===== *)
theory Dispatch_Main
  imports Dispatch_Commands
begin

text \<open>
  The rest of the dispatch kernel, \<^verbatim>\<open>cq_dispatch.cpp\<close>: writes to the completion queue of the host, the relay of commands to the dispatcher
  of another chip, the commands for synchronisation, and \<^verbatim>\<open>kernel_main\<close>.
\<close>

unbundle bit_operations_syntax

subsection \<open>The completion queue\<close>

definition da_completion_queue_end_addr :: "Dispatch_args \<Rightarrow> nat" where
  "da_completion_queue_end_addr a = add32 (da_completion_queue_base_addr a) (da_completion_queue_size a)"

definition completion_available_space :: "Dispatch_args \<Rightarrow> nat \<Rightarrow> Dispatcher \<Rightarrow> nat" where
  "completion_available_space a rd_ptr_and_toggle s =
     (let completion_rd_ptr = take_bit 31 rd_ptr_and_toggle;
          completion_rd_toggle = drop_bit 31 rd_ptr_and_toggle
      in if completion_rd_toggle \<noteq> completion_fifo_wr_toggle s then sub32 completion_rd_ptr (completion_fifo_wr_ptr s)
         else sub32 (drop_bit 4 (da_completion_queue_size a)) (sub32 (completion_fifo_wr_ptr s) completion_rd_ptr))"

definition dispatch_completion_queue_reserve_back :: "Dispatch_args \<Rightarrow> nat \<Rightarrow> Dispatcher \<Rightarrow> Dispatcher result" where
  "dispatch_completion_queue_reserve_back a num_pages s =
     (let data_size_16B = mul32 num_pages (drop_bit 4 (dispatch_cb_page_size a)) in
      rbind (poll_until (\<lambda>rd. \<not> data_size_16B > completion_available_space a rd s) (completion_rd_reads s)) (\<lambda>(_, rest).
      Inr (s\<lparr>completion_rd_reads := rest\<rparr>)))"

definition notify_host_of_completion_queue_write_pointer :: "Dispatch_args \<Rightarrow> Dispatcher \<Rightarrow> Dispatcher result" where
  "notify_host_of_completion_queue_write_pointer a s =
     (let completion_wr_ptr_and_toggle =
            completion_fifo_wr_ptr s OR u32 (push_bit 31 (completion_fifo_wr_toggle s));
          s = s\<lparr>l1 := store_bytes (dev_completion_q_wr_ptr a) (le_bytes 4 completion_wr_ptr_and_toggle) (l1 s)\<rparr>
      in cq_noc_async_write_with_state a SnDL True (dev_completion_q_wr_ptr a) (To_pcie, add32 (command_queue_base_addr a) (host_completion_q_wr_ptr a)) 4 s)"

definition dispatch_completion_queue_push_back :: "Dispatch_args \<Rightarrow> nat \<Rightarrow> Dispatcher \<Rightarrow> Dispatcher result" where
  "dispatch_completion_queue_push_back a num_pages s =
     (let push_size_16B = mul32 num_pages (drop_bit 4 (dispatch_cb_page_size a));
          wr_ptr = add32 (completion_fifo_wr_ptr s) push_size_16B;
          end_16B = drop_bit 4 (da_completion_queue_end_addr a);
          s = (if wr_ptr \<ge> end_16B
               then s\<lparr>completion_fifo_wr_ptr := add32 (sub32 wr_ptr end_16B) (drop_bit 4 (da_completion_queue_base_addr a)),
                      completion_fifo_wr_toggle := (if completion_fifo_wr_toggle s = 0 then 1 else 0)\<rparr>
               else s\<lparr>completion_fifo_wr_ptr := wr_ptr\<rparr>)
      in notify_host_of_completion_queue_write_pointer a s)"

fun write_host_loop :: "Dispatch_args \<Rightarrow> nat \<Rightarrow> nat \<Rightarrow> nat \<Rightarrow> Dispatcher \<Rightarrow> Dispatcher result" where
  "write_host_loop a 0 len data_ptr s = Inl Diverges"
| "write_host_loop a (Suc fuel) len data_ptr s =
     (if len = 0 then Inr (s\<lparr>cmd_ptr := data_ptr\<rparr>)
      else
        rbind (if cb_fence s = data_ptr then get_cb_page_and_release_pages a data_ptr s else Inr (data_ptr, s)) (\<lambda>(data_ptr, s).
        let available_data = sub32 (cb_fence s) data_ptr;
            xfer_size = (if len > available_data then available_data else len);
            npages = sub32 (add32 xfer_size (dispatch_cb_page_size a)) 1 div dispatch_cb_page_size a
        in rbind (dispatch_completion_queue_reserve_back a npages s) (\<lambda>s.
        let write_addr = u32 (push_bit 4 (completion_fifo_wr_ptr s)) in
        rbind (if add32 write_addr xfer_size > da_completion_queue_end_addr a then
                 let last_chunk_size = sub32 (da_completion_queue_end_addr a) write_addr;
                     packets = div_up32 last_chunk_size (noc_max_burst_size a)
                 in rbind (cq_noc_async_write_with_state_any_len a True data_ptr write_addr last_chunk_size s) (\<lambda>(_, s).
                    Inr (da_completion_queue_base_addr a, add32 data_ptr last_chunk_size, sub32 len last_chunk_size,
                         sub32 xfer_size last_chunk_size, count_writes packets packets s))
               else Inr (write_addr, data_ptr, len, xfer_size, s)) (\<lambda>(write_addr, data_ptr, len, xfer_size, s).
        rbind (cq_noc_async_write_with_state_any_len a True data_ptr write_addr xfer_size s) (\<lambda>(_, s).
        rbind (dispatch_completion_queue_push_back a npages s) (\<lambda>s.
        let packets = add32 (div_up32 xfer_size (noc_max_burst_size a)) 1 in
        write_host_loop a fuel (sub32 len xfer_size) (add32 data_ptr xfer_size)
          (emit Writes_flushed (count_writes packets packets s))))))))"

definition process_write_host_h :: "Dispatch_args \<Rightarrow> Dispatcher \<Rightarrow> Dispatcher result" where
  "process_write_host_h a s =
     (let len = read32 (l1 s) (cmd_ptr s + 12) in
      rbind (cq_noc_async_write_init_state a sNdl False False 0 (To_pcie, 0) 0 s) (\<lambda>s.
      write_host_loop a (Suc len) len (cmd_ptr s) s))"

definition process_exec_buf_end_h :: "Dispatch_args \<Rightarrow> Dispatcher \<Rightarrow> Dispatcher" where
  "process_exec_buf_end_h a s =
     (let s = (if split_prefetch a then emit (Semaphore_inc Prefetch_h_sem (prefetch_h_max_credits a)) s else s)
      in s\<lparr>cmd_ptr := add32 (cmd_ptr s) sizeof_CQDispatchCmd\<rparr>)"

subsection \<open>The relay to the next chip\<close>

definition cb_acquire_downstream_pages :: "nat \<Rightarrow> Dispatcher \<Rightarrow> Dispatcher result" where
  "cb_acquire_downstream_pages n s =
     rbind (poll_until (\<lambda>v. \<not> wrap_gt n v) (downstream_sem_reads s)) (\<lambda>(_, rest).
     Inr (emit (Semaphore_inc My_downstream_cb_sem (sub32 0 n)) (emit Atomic_barrier (s\<lparr>downstream_sem_reads := rest\<rparr>))))"

definition downstream_wrap :: "Dispatch_args \<Rightarrow> Dispatcher \<Rightarrow> Dispatcher" where
  "downstream_wrap a s =
     (if downstream_cb_data_ptr s = downstream_cb_end a then s\<lparr>downstream_cb_data_ptr := downstream_cb_base a\<rparr> else s)"

definition relay_preamble :: "Dispatch_args \<Rightarrow> nat \<Rightarrow> nat \<Rightarrow> Dispatcher \<Rightarrow> Dispatcher result" where
  "relay_preamble a preamble_size header s =
     (if preamble_size > 0 then
        let s = count_writes 1 1
                  (emit (Noc_inline_write (Noc (downstream_noc_xy a) (downstream_cb_data_ptr s)) header) s);
            s = s\<lparr>downstream_cb_data_ptr := add32 (downstream_cb_data_ptr s) preamble_size\<rparr>
        in rbind (check (downstream_cb_data_ptr s < downstream_cb_end a)
                    (TT_ASSERT ''downstream_cb_data_ptr < downstream_cb_end'')) (\<lambda>_. Inr s)
      else Inr s)"

definition relay_leave_block :: "Dispatch_args \<Rightarrow> nat \<Rightarrow> nat \<Rightarrow> nat \<Rightarrow> Dispatcher \<Rightarrow> (nat \<times> nat \<times> nat \<times> Dispatcher) result" where
  "relay_leave_block a data_ptr len xfer_size s =
     (let orphan_size = sub32 (cb_fence s) data_ptr in
      rbind (if rd_block_idx s = sub32 (dispatch_cb_blocks a) 1 then
               rbind (check (cb_fence s = dispatch_cb_end a) (TT_ASSERT ''cb_fence == dispatch_cb_end'')) (\<lambda>_.
               rbind (if orphan_size \<noteq> 0 then
                        rbind (cq_noc_async_write_with_state a SnDL True data_ptr (To_core 0, downstream_cb_data_ptr s) orphan_size s) (\<lambda>s.
                        let s = count_writes 1 1 s;
                            s = s\<lparr>downstream_cb_data_ptr := add32 (downstream_cb_data_ptr s) orphan_size\<rparr>
                        in Inr (sub32 len orphan_size, sub32 xfer_size orphan_size, downstream_wrap a s))
                      else Inr (len, xfer_size, s)) (\<lambda>(len, xfer_size, s).
               Inr (dispatch_cb_base a, len, xfer_size, s\<lparr>cb_fence := dispatch_cb_base a\<rparr>)))
             else Inr (data_ptr, len, xfer_size, s)) (\<lambda>(data_ptr, len, xfer_size, s).
      rbind (move_rd_to_next_block_and_release_pages a s) (\<lambda>s. Inr (data_ptr, len, xfer_size, s))))"

definition relay_get_page :: "Dispatch_args \<Rightarrow> nat \<Rightarrow> nat \<Rightarrow> nat \<Rightarrow> Dispatcher \<Rightarrow> (nat \<times> nat \<times> nat \<times> Dispatcher) result" where
  "relay_get_page a data_ptr len xfer_size s =
     (if add32 data_ptr xfer_size > cb_fence s then
        rbind (vec_get (block_next_start_addr a) (rd_block_idx s)) (\<lambda>block_end.
        rbind (if cb_fence s = block_end then relay_leave_block a data_ptr len xfer_size s else Inr (data_ptr, len, xfer_size, s))
          (\<lambda>(data_ptr, len, xfer_size, s).
        rbind (acquire_into_fence a s) (\<lambda>s. Inr (data_ptr, len, xfer_size, s))))
      else Inr (data_ptr, len, xfer_size, s))"

fun relay_loop :: "Dispatch_args \<Rightarrow> nat \<Rightarrow> nat \<Rightarrow> nat \<Rightarrow> nat \<Rightarrow> Dispatcher \<Rightarrow> (nat \<times> Dispatcher) result" where
  "relay_loop a preamble_size 0 data_ptr len s = Inl Diverges"
| "relay_loop a preamble_size (Suc fuel) data_ptr len s =
     (if len = 0 then Inr (data_ptr, s)
      else
        rbind (check (downstream_cb_end a > downstream_cb_data_ptr s) (TT_ASSERT ''downstream_cb_end > downstream_cb_data_ptr'')) (\<lambda>_.
        rbind (cb_acquire_downstream_pages 1 s) (\<lambda>s.
        let room = sub32 (dispatch_cb_page_size a) preamble_size;
            not_end_of_cmd = (len > room);
            xfer_size = (if not_end_of_cmd then room else len)
        in rbind (relay_preamble a preamble_size (add32 (add32 xfer_size preamble_size) (of_bool not_end_of_cmd)) s) (\<lambda>s.
        rbind (relay_get_page a data_ptr len xfer_size s) (\<lambda>(data_ptr, len, xfer_size, s).
        rbind (cq_noc_async_write_with_state a SnDL True data_ptr (To_core 0, downstream_cb_data_ptr s) xfer_size s) (\<lambda>s.
        let s = emit (Semaphore_inc Downstream_cb_sem 1) (count_writes 1 1 s);
            s = downstream_wrap a (s\<lparr>downstream_cb_data_ptr := add32 (downstream_cb_data_ptr s) xfer_size\<rparr>)
        in relay_loop a preamble_size fuel (add32 data_ptr xfer_size) (sub32 len xfer_size) s))))))"

definition relay_to_next_cb :: "Dispatch_args \<Rightarrow> nat \<Rightarrow> nat \<Rightarrow> nat \<Rightarrow> Dispatcher \<Rightarrow> Dispatcher result" where
  "relay_to_next_cb a preamble_size data_ptr len s =
     rbind (check (data_ptr \<le> sub32 (dispatch_cb_end a) (dispatch_cb_page_size a))
              (TT_ASSERT ''data_ptr <= dispatch_cb_end - dispatch_cb_page_size'')) (\<lambda>_.
     rbind (check (data_ptr \<le> sub32 (cb_fence s) (dispatch_cb_page_size a))
              (TT_ASSERT ''data_ptr <= cb_fence - dispatch_cb_page_size'')) (\<lambda>_.
     rbind (cq_noc_async_write_init_state a sNdl False False 0 (To_core (downstream_noc_xy a), downstream_cb_data_ptr s) 0 s) (\<lambda>s.
     rbind (relay_loop a preamble_size (Suc len) data_ptr len s) (\<lambda>(data_ptr, s).
     let s = downstream_wrap a (s\<lparr>downstream_cb_data_ptr := round_up_pow2 (downstream_cb_data_ptr s) (dispatch_cb_page_size a)\<rparr>)
     in Inr (s\<lparr>cmd_ptr := data_ptr\<rparr>)))))"

definition process_write_host_d :: "Dispatch_args \<Rightarrow> Dispatcher \<Rightarrow> Dispatcher result" where
  "process_write_host_d a s =
     relay_to_next_cb a (split_dispatch_page_preamble_size a) (cmd_ptr s) (read32 (l1 s) (cmd_ptr s + 12)) s"

definition relay_write_h :: "Dispatch_args \<Rightarrow> Dispatcher \<Rightarrow> Dispatcher result" where
  "relay_write_h a s =
     relay_to_next_cb a (split_dispatch_page_preamble_size a) (cmd_ptr s)
       (add32 sizeof_CQDispatchCmd (read32 (l1 s) (cmd_ptr s + 12))) s"

definition process_exec_buf_end_d :: "Dispatch_args \<Rightarrow> Dispatcher \<Rightarrow> Dispatcher result" where
  "process_exec_buf_end_d a s =
     relay_to_next_cb a (split_dispatch_page_preamble_size a) (cmd_ptr s) sizeof_CQDispatchCmd s"

subsection \<open>Synchronisation\<close>

definition process_wait :: "Dispatch_args \<Rightarrow> Dispatcher \<Rightarrow> Dispatcher result" where
  "process_wait a s =
     (let cmd = cmd_ptr s; m = l1 s;
          barrier = (read8 m (cmd + 1) \<noteq> 0);
          notify_prefetch = (read8 m (cmd + 2) \<noteq> 0);
          clear_count = (read8 m (cmd + 3) \<noteq> 0);
          wait = (read8 m (cmd + 4) \<noteq> 0);
          addr = read32 m (cmd + 8);
          count = read32 m (cmd + 12);
          s = (if barrier then emit Write_barrier s else s)
      in rbind (if wait
                then rbind (poll_until (\<lambda>v. wrap_ge v count) (worker_sem_reads s)) (\<lambda>(_, rest). Inr (s\<lparr>worker_sem_reads := rest\<rparr>))
                else Inr s) (\<lambda>s.
      rbind (if clear_count
             then rbind (poll_until (\<lambda>_. True) (worker_sem_reads s)) (\<lambda>(v, rest).
                  Inr (emit Atomic_barrier (emit (Semaphore_inc (My_sem addr) (sub32 0 v)) (s\<lparr>worker_sem_reads := rest\<rparr>))))
             else Inr s) (\<lambda>s.
      let s = (if notify_prefetch then emit (Semaphore_inc Upstream_sync_sem 1) s else s)
      in Inr (s\<lparr>cmd_ptr := add32 cmd sizeof_CQDispatchCmd\<rparr>))))"

definition process_delay_cmd :: "Dispatcher \<Rightarrow> Dispatcher" where
  "process_delay_cmd s = s\<lparr>cmd_ptr := add32 (cmd_ptr s) sizeof_CQDispatchCmd\<rparr>"

definition unicast_go_signals :: "Dispatch_args \<Rightarrow> nat \<Rightarrow> nat \<Rightarrow> Dispatcher \<Rightarrow> Dispatcher result" where
  "unicast_go_signals a src core_idx s =
     rbind (vec_get (unicast_only_cores s) core_idx) (\<lambda>core.
     Inr (count_writes 1 1 (emit (Noc_write src (Noc core (unicast_go_signal_addr a)) 4 False False) s)))"

text \<open>The go signal is copied over the first bytes of the command.\<close>

definition process_go_signal_mcast_cmd :: "Dispatch_args \<Rightarrow> Dispatcher \<Rightarrow> Dispatcher result" where
  "process_go_signal_mcast_cmd a s =
     (let cmd = cmd_ptr s;
          s = s\<lparr>l1 := store_bytes cmd (le_bytes 4 (read32 (l1 s) (cmd + 1))) (l1 s)\<rparr>;
          mcast_flag = read8 (l1 s) (cmd + 5);
          wait_count = read32 (l1 s) (cmd + 6)
      in rbind (poll_until (\<lambda>v. \<not> v < wait_count) (worker_sem_reads s)) (\<lambda>(_, rest).
      let s = s\<lparr>worker_sem_reads := rest\<rparr>;
          s = (if bit mcast_flag 0
               then count_writes 1 (packed_write_max_unicast_sub_cmds a)
                      (emit (Noc_write cmd (Noc (worker_mcast_grid a) (mcast_go_signal_addr a)) 4 True False) s)
               else s)
      in rbind (if bit mcast_flag 1 then rfold (unicast_go_signals a cmd) [0..<nat (num_unicast_cores s)] s else Inr s) (\<lambda>s.
      Inr (s\<lparr>cmd_ptr := add32 cmd sizeof_CQDispatchCmd\<rparr>))))"

text \<open>The number of cores is converted to \<^verbatim>\<open>int\<close>; the array has room for sixteen.\<close>

definition as_int32 :: "nat \<Rightarrow> int" where
  "as_int32 n = (if n < 2 ^ 31 then int n else int n - 2 ^ 32)"

definition set_unicast_only_core :: "nat \<Rightarrow> nat \<Rightarrow> Dispatcher \<Rightarrow> Dispatcher result" where
  "set_unicast_only_core data_ptr core_idx s =
     rbind (vec_set (unicast_only_cores s) core_idx (read32 (l1 s) (data_ptr + 4 * core_idx))) (\<lambda>cores.
     Inr (s\<lparr>unicast_only_cores := cores\<rparr>))"

definition process_set_unicast_only_cores :: "Dispatcher \<Rightarrow> Dispatcher result" where
  "process_set_unicast_only_cores s =
     (let cmd = cmd_ptr s;
          n = as_int32 (read32 (l1 s) (cmd + 4));
          s = s\<lparr>num_unicast_cores := n\<rparr>
      in rbind (rfold (set_unicast_only_core (add32 cmd sizeof_CQDispatchCmd)) [0..<nat n] s) (\<lambda>s.
      Inr (s\<lparr>cmd_ptr := add32 cmd (add32 sizeof_CQDispatchCmd (mul32 (read32 (l1 s) (cmd + 4)) 4))\<rparr>)))"

definition process_notify_dispatch_s_go_signal_cmd :: "Dispatch_args \<Rightarrow> Dispatcher \<Rightarrow> Dispatcher" where
  "process_notify_dispatch_s_go_signal_cmd a s =
     (let s = (if distributed_dispatcher a
               then (count_writes 1 1 (emit (Noc_inline_write (Noc (dispatch_s_noc_xy a) (dispatch_s_sem_addr a)) (num_go_signals_safe_to_send s)) s))
                      \<lparr>num_go_signals_safe_to_send := add32 (num_go_signals_safe_to_send s) 1\<rparr>
               else s\<lparr>l1 := store_bytes (dispatch_s_sem_addr a) (le_bytes 4 (add32 (read32 (l1 s) (dispatch_s_sem_addr a)) 1)) (l1 s)\<rparr>)
      in s\<lparr>cmd_ptr := add32 (cmd_ptr s) sizeof_CQDispatchCmd\<rparr>)"

definition process_set_write_offset :: "Dispatcher \<Rightarrow> Dispatcher" where
  "process_set_write_offset s =
     (let cmd = cmd_ptr s in
      s\<lparr>write_offset := [read32 (l1 s) (cmd + 4), read32 (l1 s) (cmd + 8), read32 (l1 s) (cmd + 12)],
        cmd_ptr := add32 cmd sizeof_CQDispatchCmd\<rparr>)"

subsection \<open>The main loop\<close>

text \<open>One command.  A debug command is followed at once by the command at its stride.\<close>

definition process_simple_cmd :: "Dispatch_args \<Rightarrow> nat \<Rightarrow> Dispatcher \<Rightarrow> Dispatcher result" where
  "process_simple_cmd a i s =
     (let flags = read8 (l1 s) (cmd_ptr s + 1) in
      if i = dispatch_id CQ_DISPATCH_CMD_WRITE_LINEAR then process_write a s
      else if i = dispatch_id CQ_DISPATCH_CMD_WRITE_LINEAR_H then (if is_h_variant a then process_write a s else relay_write_h a s)
      else if i = dispatch_id CQ_DISPATCH_CMD_WRITE_LINEAR_H_HOST
        then (if is_h_variant a then process_write_host_h a s else process_write_host_d a s)
      else if i = dispatch_id CQ_DISPATCH_CMD_WRITE_PAGED then process_write_paged a (flags \<noteq> 0) s
      else if i = dispatch_id CQ_DISPATCH_CMD_WRITE_PACKED then process_write_packed a (bit flags 0) flags s
      else if i = dispatch_id CQ_DISPATCH_NOTIFY_SLAVE_GO_SIGNAL then Inr (process_notify_dispatch_s_go_signal_cmd a s)
      else if i = dispatch_id CQ_DISPATCH_CMD_WRITE_PACKED_LARGE then process_write_packed_large a s
      else if i = dispatch_id CQ_DISPATCH_CMD_WAIT then process_wait a s
      else if i = dispatch_id CQ_DISPATCH_CMD_GO then Inr s
      else if i = dispatch_id CQ_DISPATCH_CMD_SINK then Inr s
      else if i = dispatch_id CQ_DISPATCH_CMD_DELAY then Inr (process_delay_cmd s)
      else if i = dispatch_id CQ_DISPATCH_CMD_EXEC_BUF_END
        then (if is_h_variant a then Inr (process_exec_buf_end_h a s) else process_exec_buf_end_d a s)
      else if i = dispatch_id CQ_DISPATCH_CMD_SEND_GO_SIGNAL then process_go_signal_mcast_cmd a s
      else if i = dispatch_id CQ_DISPATCH_SET_UNICAST_ONLY_CORES then process_set_unicast_only_cores s
      else if i = dispatch_id CQ_DISPATCH_CMD_SET_WRITE_OFFSET then Inr (process_set_write_offset s)
      else Inl (TT_ASSERT ''dispatcher_d invalid command''))"

definition process_terminate_d :: "Dispatch_args \<Rightarrow> Dispatcher \<Rightarrow> Dispatcher result" where
  "process_terminate_d a s =
     rbind (if is_d_variant a \<and> \<not> is_h_variant a
            then relay_to_next_cb a (split_dispatch_page_preamble_size a) (cmd_ptr s) sizeof_CQDispatchCmd s else Inr s) (\<lambda>s.
     Inr (s\<lparr>cmd_ptr := add32 (cmd_ptr s) sizeof_CQDispatchCmd\<rparr>))"

fun process_cmd_d :: "Dispatch_args \<Rightarrow> nat \<Rightarrow> Dispatcher \<Rightarrow> (bool \<times> Dispatcher) result" where
  "process_cmd_d a 0 s = Inl Diverges"
| "process_cmd_d a (Suc fuel) s =
     (let i = read8 (l1 s) (cmd_ptr s) in
      if i = dispatch_id CQ_DISPATCH_CMD_DEBUG
      then process_cmd_d a fuel (s\<lparr>cmd_ptr := add32 (cmd_ptr s) (read32 (l1 s) (cmd_ptr s + 12))\<rparr>)
      else if i = dispatch_id CQ_DISPATCH_CMD_TERMINATE then rbind (process_terminate_d a s) (\<lambda>s. Inr (True, s))
      else rbind (process_simple_cmd a i s) (\<lambda>s. Inr (False, s)))"

definition process_cmd_h :: "Dispatch_args \<Rightarrow> Dispatcher \<Rightarrow> (bool \<times> Dispatcher) result" where
  "process_cmd_h a s =
     (let i = read8 (l1 s) (cmd_ptr s) in
      if i = dispatch_id CQ_DISPATCH_CMD_WRITE_LINEAR_H then rbind (process_write a s) (\<lambda>s. Inr (False, s))
      else if i = dispatch_id CQ_DISPATCH_CMD_WRITE_LINEAR_H_HOST then rbind (process_write_host_h a s) (\<lambda>s. Inr (False, s))
      else if i = dispatch_id CQ_DISPATCH_CMD_EXEC_BUF_END then Inr (False, process_exec_buf_end_h a s)
      else if i = dispatch_id CQ_DISPATCH_CMD_TERMINATE then Inr (True, s\<lparr>cmd_ptr := add32 (cmd_ptr s) sizeof_CQDispatchCmd\<rparr>)
      else Inl (TT_ASSERT ''dispatcher_h invalid command''))"

definition dispatch_round :: "Dispatch_args \<Rightarrow> nat \<Rightarrow> Dispatcher \<Rightarrow> (bool \<times> Dispatcher) result" where
  "dispatch_round a fuel s =
     rbind (if cmd_ptr s = cb_fence s
            then rbind (get_cb_page_and_release_pages a (cmd_ptr s) s) (\<lambda>(ptr, s). Inr (s\<lparr>cmd_ptr := ptr\<rparr>))
            else Inr s) (\<lambda>s.
     rbind (if is_d_variant a then process_cmd_d a fuel s else process_cmd_h a s) (\<lambda>(done, s).
     Inr (done, s\<lparr>cmd_ptr := round_up_pow2 (cmd_ptr s) (dispatch_cb_page_size a)\<rparr>)))"

fun dispatch_loop :: "Dispatch_args \<Rightarrow> nat \<Rightarrow> Dispatcher \<Rightarrow> Dispatcher result" where
  "dispatch_loop a 0 s = Inl Diverges"
| "dispatch_loop a (Suc fuel) s =
     rbind (dispatch_round a fuel s) (\<lambda>(done, s). if done then Inr s else dispatch_loop a fuel s)"

text \<open>The state \<^verbatim>\<open>kernel_main\<close> starts from; the static variables keep the values they were loaded with.\<close>

definition dispatch_init :: "Dispatch_args \<Rightarrow> nat \<Rightarrow> Dispatcher \<Rightarrow> Dispatcher" where
  "dispatch_init a completion_queue_wr_ptr_and_toggle s =
     s\<lparr>upstream_total_acquired_page_count := 0, cb_fence := dispatch_cb_base a, rd_block_idx := 0,
       block_noc_writes_to_clear := writes_num_issued s, cmd_ptr := dispatch_cb_base a, write_offset := [0, 0, 0],
       completion_fifo_wr_ptr := take_bit 31 completion_queue_wr_ptr_and_toggle,
       completion_fifo_wr_toggle := drop_bit 31 completion_queue_wr_ptr_and_toggle\<rparr>"

definition dispatch_teardown :: "Dispatch_args \<Rightarrow> Dispatcher \<Rightarrow> Dispatcher result" where
  "dispatch_teardown a s =
     (let s = emit Write_barrier s;
          s = (if is_h_variant a \<and> \<not> is_d_variant a then emit (Semaphore_inc Upstream_cb_sem 0x80000000) s else s)
      in rbind (cb_block_release_pages a s) (\<lambda>s.
      rbind (vec_get (block_next_start_addr a) (rd_block_idx s)) (\<lambda>block_end.
      let npages = sub32 (dispatch_cb_pages_per_block a)
                     (drop_bit (dispatch_cb_log_page_size a) (sub32 block_end (cmd_ptr s)));
          s = emit (Semaphore_inc Upstream_cb_sem npages) s;
          n = upstream_total_acquired_page_count s
      in rbind (poll_until (\<lambda>(k, _). take_bit 31 (add32 n k) = take_bit 31 n) (arrivals s)) (\<lambda>(_, rest).
         Inr (s\<lparr>arrivals := rest\<rparr>)))))"

definition dispatch_kernel_main :: "Dispatch_args \<Rightarrow> nat \<Rightarrow> nat \<Rightarrow> Dispatcher \<Rightarrow> Dispatcher result" where
  "dispatch_kernel_main a fuel completion_queue_wr_ptr_and_toggle s =
     rbind (dispatch_loop a fuel (dispatch_init a completion_queue_wr_ptr_and_toggle s)) (dispatch_teardown a)"

end
