(* ===== verification/Dispatch_Ring.thy ===== *)
theory Dispatch_Ring
  imports Dispatch_Main
begin

text \<open>
  The accounting of pages in the dispatch kernel.  With \<open>n_acq\<close> pages acquired and \<open>n_blk\<close> blocks left so far, the
  invariant \<open>ring_inv\<close> fixes the read block, the fence, the counter and the credits given back; every handler keeps it, whatever the bytes of
  the command are.
\<close>

unbundle bit_operations_syntax

subsection \<open>The configuration of a kernel\<close>

text \<open>What \<^verbatim>\<open>cq_dispatch.cpp\<close> and \<^verbatim>\<open>cq_common.hpp\<close> ask of the ring: a power of two of blocks that divide the pages, inside the address space.\<close>

definition ring_config :: "Dispatch_args \<Rightarrow> bool" where
  "ring_config a \<longleftrightarrow> (\<exists>k. dispatch_cb_blocks a = 2 ^ k) \<and> dispatch_cb_blocks a dvd dispatch_cb_pages a \<and> 0 < dispatch_cb_pages a \<and>
     dispatch_cb_base a + dispatch_cb_page_size a * dispatch_cb_pages a < 2 ^ 32"

abbreviation block_pages :: "Dispatch_args \<Rightarrow> nat" where
  "block_pages \<equiv> dispatch_cb_pages_per_block"

definition page_addr :: "Dispatch_args \<Rightarrow> nat \<Rightarrow> nat" where
  "page_addr a n = dispatch_cb_base a + dispatch_cb_page_size a * n"

lemma ring_config_facts:
  assumes "ring_config a"
  shows "0 < dispatch_cb_blocks a" "0 < block_pages a" "dispatch_cb_blocks a * block_pages a = dispatch_cb_pages a"
    "0 < dispatch_cb_page_size a" "dispatch_cb_pages a < 2 ^ 32" "dispatch_cb_blocks a < 2 ^ 32" "block_pages a < 2 ^ 32"
proof -
  obtain k where k: "dispatch_cb_blocks a = 2 ^ k" using assms by (auto simp: ring_config_def)
  show b: "0 < dispatch_cb_blocks a" by (simp add: k)
  show e: "dispatch_cb_blocks a * block_pages a = dispatch_cb_pages a"
    using assms by (simp add: ring_config_def dispatch_cb_pages_per_block_def)
  show p: "0 < block_pages a" using assms e by (metis ring_config_def mult_is_0 neq0_conv)
  show ps: "0 < dispatch_cb_page_size a" by (simp add: dispatch_cb_page_size_def)
  have "dispatch_cb_pages a * 1 \<le> dispatch_cb_page_size a * dispatch_cb_pages a" using ps by simp
  then show pg: "dispatch_cb_pages a < 2 ^ 32" using assms unfolding ring_config_def by linarith
  show "dispatch_cb_blocks a < 2 ^ 32" using pg p unfolding e [symmetric]
    by (metis One_nat_def Suc_leI le_less_trans mult.right_neutral mult_le_mono2)
  show "block_pages a < 2 ^ 32" using pg b unfolding e [symmetric]
    by (metis One_nat_def Suc_leI le_less_trans mult.commute mult.right_neutral mult_le_mono2)
qed

lemma page_addr_le: "n \<le> m \<Longrightarrow> page_addr a n \<le> page_addr a m"
  by (simp add: page_addr_def)

lemma page_addr_less:
  assumes "ring_config a" and "n \<le> dispatch_cb_pages a"
  shows "page_addr a n < 2 ^ 32"
  using page_addr_le [OF assms(2), of a] assms(1) unfolding page_addr_def ring_config_def by linarith

lemma page_addr_eq_iff: "ring_config a \<Longrightarrow> page_addr a n = page_addr a m \<longleftrightarrow> n = m"
  using ring_config_facts(4) [of a] by (simp add: page_addr_def)

lemma block_in_pages:
  assumes "ring_config a" and "i < dispatch_cb_blocks a"
  shows "(i + 1) * block_pages a \<le> dispatch_cb_pages a"
proof -
  have "(i + 1) * block_pages a \<le> dispatch_cb_blocks a * block_pages a" using assms(2) by (intro mult_le_mono) auto
  then show ?thesis by (simp add: ring_config_facts(3) [OF assms(1)])
qed

lemma block_next_start:
  assumes c: "ring_config a" and i: "i < dispatch_cb_blocks a"
  shows "vec_get (block_next_start_addr a) i = Inr (page_addr a ((i + 1) * block_pages a))"
proof -
  note le = block_in_pages [OF c i]
  note lt = page_addr_less [OF c le]
  have p: "(i + 1) * block_pages a < 2 ^ 32" using le ring_config_facts(5) [OF c] by simp
  have "(i + 1) * block_pages a * dispatch_cb_page_size a < 2 ^ 32" using lt by (simp add: page_addr_def mult.commute)
  then have "add32 (dispatch_cb_base a) (mul32 (mul32 (i + 1) (block_pages a)) (dispatch_cb_page_size a)) =
      page_addr a ((i + 1) * block_pages a)"
    using lt p unfolding page_addr_def by (simp add: nowrap mult.commute)
  then show ?thesis using i by (simp add: block_next_start_addr_def)
qed

lemma next_block_index:
  assumes "ring_config a"
  shows "add32 (n mod dispatch_cb_blocks a) 1 AND sub32 (dispatch_cb_blocks a) 1 = Suc n mod dispatch_cb_blocks a"
proof -
  obtain k where k: "dispatch_cb_blocks a = 2 ^ k" using assms by (auto simp: ring_config_def)
  note f = ring_config_facts(1,6) [OF assms]
  have b: "n mod dispatch_cb_blocks a + 1 \<le> dispatch_cb_blocks a" using f(1) by (simp add: Suc_leI)
  then have "add32 (n mod dispatch_cb_blocks a) 1 = n mod dispatch_cb_blocks a + 1" using f(2) by (simp add: nowrap)
  moreover have "sub32 (dispatch_cb_blocks a) 1 = mask k" using f by (simp add: wsub_id k mask_eq_exp_minus_1)
  moreover have "(n mod dispatch_cb_blocks a + 1) AND mask k = Suc n mod dispatch_cb_blocks a"
    by (simp add: take_bit_eq_mod k mod_Suc_eq flip: take_bit_eq_mask)
  ultimately show ?thesis by simp
qed

subsection \<open>Pages in the trace\<close>

fun op_acquired :: "noc_op \<Rightarrow> nat" where
  "op_acquired (Pages_acquired n) = n"
| "op_acquired _ = 0"

fun op_released :: "noc_op \<Rightarrow> nat" where
  "op_released (Semaphore_inc Upstream_cb_sem n) = n"
| "op_released _ = 0"

definition acquired_pages :: "Dispatcher \<Rightarrow> nat" where
  "acquired_pages s = sum_list (map op_acquired (ops s))"

definition released_pages :: "Dispatcher \<Rightarrow> nat" where
  "released_pages s = sum_list (map op_released (ops s))"

lemma pages_emit [simp]:
  "acquired_pages (emit x s) = acquired_pages s + op_acquired x"
  "released_pages (emit x s) = released_pages s + op_released x"
  by (simp_all add: acquired_pages_def released_pages_def emit_def)

definition ring_same :: "Dispatcher \<Rightarrow> Dispatcher \<Rightarrow> bool" where
  "ring_same s s' \<longleftrightarrow> rd_block_idx s' = rd_block_idx s \<and> cb_fence s' = cb_fence s \<and>
     upstream_total_acquired_page_count s' = upstream_total_acquired_page_count s \<and> prev_block s' = prev_block s \<and>
     acquired_pages s' = acquired_pages s \<and> released_pages s' = released_pages s"

definition ring_inv :: "Dispatch_args \<Rightarrow> nat \<Rightarrow> nat \<Rightarrow> Dispatcher \<Rightarrow> bool" where
  "ring_inv a n_acq n_blk s \<longleftrightarrow>
     n_blk * block_pages a \<le> n_acq \<and> n_acq \<le> (n_blk + 1) * block_pages a \<and>
     rd_block_idx s = n_blk mod dispatch_cb_blocks a \<and>
     cb_fence s = page_addr a (n_blk mod dispatch_cb_blocks a * block_pages a + (n_acq - n_blk * block_pages a)) \<and>
     upstream_total_acquired_page_count s = n_acq mod 2 ^ 32 \<and>
     prev_block s = (0 < n_blk) \<and> acquired_pages s = n_acq \<and> released_pages s = (n_blk - 1) * block_pages a"

definition ring_ok :: "Dispatch_args \<Rightarrow> Dispatcher \<Rightarrow> bool" where
  "ring_ok a s \<longleftrightarrow> ring_config a \<and> (\<exists>n_acq n_blk. ring_inv a n_acq n_blk s)"

lemma ring_same_refl [simp]: "ring_same s s"
  by (simp add: ring_same_def)

lemma ring_same_trans: "ring_same r s \<Longrightarrow> ring_same s t \<Longrightarrow> ring_same r t"
  by (simp add: ring_same_def)

lemma ring_inv_same: "ring_inv a n_acq n_blk s \<Longrightarrow> ring_same s s' \<Longrightarrow> ring_inv a n_acq n_blk s'"
  by (simp add: ring_same_def ring_inv_def)

lemma ring_ok_same: "ring_ok a s \<Longrightarrow> ring_same s s' \<Longrightarrow> ring_ok a s'"
  unfolding ring_ok_def using ring_inv_same by blast

lemma block_end_of:
  assumes "ring_ok a s"
  obtains n_acq n_blk where "ring_inv a n_acq n_blk s" and "ring_config a" and "rd_block_idx s < dispatch_cb_blocks a"
    and "vec_get (block_next_start_addr a) (rd_block_idx s) = Inr (page_addr a ((rd_block_idx s + 1) * block_pages a))"
proof -
  obtain n_acq n_blk where i: "ring_inv a n_acq n_blk s" and c: "ring_config a" using assms by (auto simp: ring_ok_def)
  then have "rd_block_idx s < dispatch_cb_blocks a" using ring_config_facts(1) [OF c] by (simp add: ring_inv_def)
  then show ?thesis using that i c block_next_start by blast
qed

text \<open>The fence is at the end of the block exactly when the pages of the block are all acquired.\<close>

lemma fence_at_end:
  assumes "ring_inv a n_acq n_blk s" and "ring_config a"
  shows "cb_fence s = page_addr a ((rd_block_idx s + 1) * block_pages a) \<longleftrightarrow> n_acq = (n_blk + 1) * block_pages a"
  using assms page_addr_eq_iff [OF assms(2)] by (auto simp: ring_inv_def)

subsection \<open>Acquiring pages\<close>

lemma ring_inv_offset:
  assumes "ring_inv a n_acq n_blk s"
  obtains d where "n_acq = n_blk * block_pages a + d" and "d \<le> block_pages a"
    and "cb_fence s = page_addr a (rd_block_idx s * block_pages a + d)"
proof -
  have "n_acq = n_blk * block_pages a + (n_acq - n_blk * block_pages a)" using assms by (simp add: ring_inv_def)
  then show ?thesis using that [of "n_acq - n_blk * block_pages a"] assms by (simp add: ring_inv_def)
qed

lemma usable_pages:
  assumes i: "ring_inv a n_acq n_blk s" and c: "ring_config a"
  shows "drop_bit (dispatch_cb_log_page_size a) (sub32 (page_addr a ((rd_block_idx s + 1) * block_pages a)) (cb_fence s)) =
    (n_blk + 1) * block_pages a - n_acq"
proof -
  have rd: "rd_block_idx s < dispatch_cb_blocks a" using i ring_config_facts(1) [OF c] by (simp add: ring_inv_def)
  obtain d where d: "n_acq = n_blk * block_pages a + d" "d \<le> block_pages a"
      "cb_fence s = page_addr a (rd_block_idx s * block_pages a + d)"
    using i by (rule ring_inv_offset)
  have "page_addr a ((rd_block_idx s + 1) * block_pages a) < 2 ^ 32" by (rule page_addr_less [OF c block_in_pages [OF c rd]])
  moreover have "cb_fence s \<le> page_addr a ((rd_block_idx s + 1) * block_pages a)"
    unfolding d(3) using d(2) by (intro page_addr_le) simp
  ultimately have "sub32 (page_addr a ((rd_block_idx s + 1) * block_pages a)) (cb_fence s) =
      page_addr a ((rd_block_idx s + 1) * block_pages a) - cb_fence s"
    by (intro wsub_id)
  also have "\<dots> = dispatch_cb_page_size a * (block_pages a - d)"
    unfolding d(3) by (simp add: page_addr_def diff_mult_distrib2 [symmetric])
  finally show ?thesis
    by (simp add: d(1) drop_bit_eq_div dispatch_cb_page_size_def)
qed

lemma acquire_result:
  assumes i: "ring_inv a n_acq n_blk s" and c: "ring_config a" and r: "cb_acquire_pages a s = Inr (n, s')"
  shows "n \<le> (n_blk + 1) * block_pages a - n_acq" and "rd_block_idx s' = rd_block_idx s" and "cb_fence s' = cb_fence s"
    and "upstream_total_acquired_page_count s' = add32 (upstream_total_acquired_page_count s) n"
    and "prev_block s' = prev_block s" and "acquired_pages s' = acquired_pages s + n" and "released_pages s' = released_pages s"
proof -
  have rd: "rd_block_idx s < dispatch_cb_blocks a" using i ring_config_facts(1) [OF c] by (simp add: ring_inv_def)
  note be = block_next_start [OF c rd]
  note us = usable_pages [OF i c]
  show "n \<le> (n_blk + 1) * block_pages a - n_acq" "rd_block_idx s' = rd_block_idx s" "cb_fence s' = cb_fence s"
    "upstream_total_acquired_page_count s' = add32 (upstream_total_acquired_page_count s) n" "prev_block s' = prev_block s"
    "acquired_pages s' = acquired_pages s + n" "released_pages s' = released_pages s"
    using r be us
    by (auto simp: cb_acquire_pages_def Let_def rbind_eq_Inr acquired_pages_def released_pages_def emit_def split: if_splits)
qed

lemma acquire_into_fence_inv:
  assumes i: "ring_inv a n_acq n_blk s" and c: "ring_config a" and r: "acquire_into_fence a s = Inr s'"
  obtains n where "ring_inv a (n_acq + n) n_blk s'" and "n \<le> (n_blk + 1) * block_pages a - n_acq"
proof -
  obtain n t where t: "cb_acquire_pages a s = Inr (n, t)"
      and s': "s' = t\<lparr>cb_fence := add32 (cb_fence t) (mul32 n (dispatch_cb_page_size a))\<rparr>"
    using r by (auto simp: acquire_into_fence_def rbind_eq_Inr)
  note f = acquire_result [OF i c t]
  have rd: "rd_block_idx s < dispatch_cb_blocks a" using i ring_config_facts(1) [OF c] by (simp add: ring_inv_def)
  obtain d where d: "n_acq = n_blk * block_pages a + d" "d \<le> block_pages a"
      "cb_fence s = page_addr a (rd_block_idx s * block_pages a + d)"
    using i by (rule ring_inv_offset)
  have n: "d + n \<le> block_pages a" using f(1) d(1,2) by simp
  let ?k = "rd_block_idx s * block_pages a + d"
  have "?k + n \<le> dispatch_cb_pages a" using block_in_pages [OF c rd] n by simp
  then have lt: "page_addr a (?k + n) < 2 ^ 32" by (rule page_addr_less [OF c])
  have pa: "page_addr a (?k + n) = page_addr a ?k + dispatch_cb_page_size a * n" by (simp add: page_addr_def algebra_simps)
  have m: "mul32 n (dispatch_cb_page_size a) = dispatch_cb_page_size a * n"
    using lt pa by (subst mult.commute) (intro wmul_id, simp add: mult.commute)
  have fe: "cb_fence s' = page_addr a (?k + n)"
    using lt unfolding s' by (simp add: f(3) d(3) m pa wadd_id)
  have "upstream_total_acquired_page_count s' = (n_acq + n) mod 2 ^ 32"
    using i by (simp add: s' f(4) ring_inv_def wadd_def mod_simps)
  moreover have "acquired_pages s' = n_acq + n" "released_pages s' = (n_blk - 1) * block_pages a" "prev_block s' = (0 < n_blk)"
    "rd_block_idx s' = n_blk mod dispatch_cb_blocks a"
    using i f by (simp_all add: s' ring_inv_def acquired_pages_def released_pages_def)
  ultimately have "ring_inv a (n_acq + n) n_blk s'"
    using fe n i unfolding ring_inv_def by (simp add: d(1) add.assoc)
  then show ?thesis using that f(1) by blast
qed

lemma acquire_into_fence_ok: "ring_ok a s \<Longrightarrow> acquire_into_fence a s = Inr s' \<Longrightarrow> ring_ok a s'"
  unfolding ring_ok_def using acquire_into_fence_inv by metis

subsection \<open>Leaving a block\<close>

text \<open>The handlers set the fence to the base of the ring when they leave its last block.\<close>

definition wrapped_fence :: "Dispatch_args \<Rightarrow> Dispatcher \<Rightarrow> Dispatcher" where
  "wrapped_fence a s = (if rd_block_idx s = sub32 (dispatch_cb_blocks a) 1 then s\<lparr>cb_fence := dispatch_cb_base a\<rparr> else s)"

lemma leave_block_inv:
  assumes i: "ring_inv a n_acq n_blk s" and c: "ring_config a" and e: "n_acq = (n_blk + 1) * block_pages a"
    and same: "ring_same (wrapped_fence a s) t" and r: "move_rd_to_next_block_and_release_pages a t = Inr s'"
  shows "ring_inv a n_acq (n_blk + 1) s'"
proof -
  note cf = ring_config_facts [OF c]
  obtain u where u: "cb_block_release_pages a t = Inr u" and s': "s' = move_rd_to_next_block a u"
    using r by (auto simp: move_rd_to_next_block_and_release_pages_def rbind_eq_Inr)
  have eq: "rd_block_idx u = rd_block_idx t" "cb_fence u = cb_fence t"
      "upstream_total_acquired_page_count u = upstream_total_acquired_page_count t" "prev_block u"
      "acquired_pages u = acquired_pages t"
      "released_pages u = released_pages t + (if prev_block t then block_pages a else 0)"
    using u by (auto simp: cb_block_release_pages_def rbind_eq_Inr acquired_pages_def released_pages_def emit_def split: if_splits)
  have teq: "rd_block_idx t = n_blk mod dispatch_cb_blocks a" "upstream_total_acquired_page_count t = n_acq mod 2 ^ 32"
      "prev_block t = (0 < n_blk)" "acquired_pages t = n_acq" "released_pages t = (n_blk - 1) * block_pages a"
    using i same by (auto simp: ring_same_def wrapped_fence_def ring_inv_def acquired_pages_def released_pages_def split: if_splits)
  have last: "sub32 (dispatch_cb_blocks a) 1 = dispatch_cb_blocks a - 1" using cf(1,6) by (simp add: wsub_id)
  have "cb_fence t = page_addr a (Suc n_blk mod dispatch_cb_blocks a * block_pages a)"
  proof (cases "n_blk mod dispatch_cb_blocks a = dispatch_cb_blocks a - 1")
    case True
    then have "Suc n_blk mod dispatch_cb_blocks a = 0" using cf(1) by (simp add: mod_Suc)
    then show ?thesis using True i same last by (simp add: ring_same_def wrapped_fence_def ring_inv_def page_addr_def)
  next
    case False
    then have "Suc n_blk mod dispatch_cb_blocks a = Suc (n_blk mod dispatch_cb_blocks a)" using cf(1) by (simp add: mod_Suc) 
    then show ?thesis using False i same last e
      by (simp add: ring_same_def wrapped_fence_def ring_inv_def add.commute)
  qed
  moreover have "rd_block_idx s' = Suc n_blk mod dispatch_cb_blocks a"
    unfolding s' move_rd_to_next_block_def using next_block_index [OF c, of n_blk] by (simp add: eq teq)
  moreover have "released_pages s' = n_blk * block_pages a"
    using eq(6) teq(3,5) by (cases n_blk) (simp_all add: s' move_rd_to_next_block_def released_pages_def)
  ultimately show ?thesis using eq teq e unfolding ring_inv_def
    by (simp add: s' move_rd_to_next_block_def acquired_pages_def)
qed

lemma leave_block_ok:
  assumes "ring_ok a s" and "vec_get (block_next_start_addr a) (rd_block_idx s) = Inr block_end" and "cb_fence s = block_end"
    and "ring_same (wrapped_fence a s) t" and "move_rd_to_next_block_and_release_pages a t = Inr s'"
  shows "ring_ok a s'"
proof -
  obtain n_acq n_blk where i: "ring_inv a n_acq n_blk s" and c: "ring_config a" using assms(1) by (auto simp: ring_ok_def)
  have "cb_fence s = page_addr a ((rd_block_idx s + 1) * block_pages a)"
    using assms(1-3) by (auto elim: block_end_of)
  then have "n_acq = (n_blk + 1) * block_pages a" using fence_at_end [OF i c] by simp
  then show ?thesis using leave_block_inv [OF i c _ assms(4,5)] c by (auto simp: ring_ok_def)
qed

lemma get_cb_page_ok:
  assumes ok: "ring_ok a s" and r: "get_cb_page_and_release_pages a ptr s = Inr (ptr', s')"
  shows "ring_ok a s'"
proof -
  obtain be where be: "vec_get (block_next_start_addr a) (rd_block_idx s) = Inr be" using ok by (auto elim: block_end_of)
  show ?thesis
  proof (cases "cb_fence s = be")
    case True
    then obtain t where "move_rd_to_next_block_and_release_pages a (wrapped_fence a s) = Inr t" "acquire_into_fence a t = Inr s'"
      using r be by (auto simp: get_cb_page_and_release_pages_def rbind_eq_Inr Let_def wrapped_fence_def split: if_splits)
    then show ?thesis using leave_block_ok [OF ok be True ring_same_refl] acquire_into_fence_ok by blast
  next
    case False
    then show ?thesis using r be acquire_into_fence_ok [OF ok]
      by (auto simp: get_cb_page_and_release_pages_def rbind_eq_Inr)
  qed
qed

end
