(* ===== verification/Dispatch_Pages.thy ===== *)
theory Dispatch_Pages
  imports Dispatch_Ring
begin

text \<open>
  Every command handler of the dispatch kernel keeps the accounting of pages, and so does every round of its main loop, for
  any contents of the memory.  When it terminates, the kernel gives back every page it has taken.
\<close>

subsection \<open>Steps that do not touch the ring\<close>

lemma ring_ok_update [simp]:
  "ring_ok a (s\<lparr>cmd_ptr := x\<rparr>) = ring_ok a s"
  "ring_ok a (s\<lparr>downstream_cb_data_ptr := x\<rparr>) = ring_ok a s"
  "ring_ok a (s\<lparr>write_offset := xs\<rparr>) = ring_ok a s"
  "ring_ok a (s\<lparr>writes_num_issued := x\<rparr>) = ring_ok a s"
  "ring_ok a (s\<lparr>writes_acked := x\<rparr>) = ring_ok a s"
  "ring_ok a (s\<lparr>completion_fifo_wr_ptr := x\<rparr>) = ring_ok a s"
  "ring_ok a (s\<lparr>completion_fifo_wr_toggle := x\<rparr>) = ring_ok a s"
  "ring_ok a (s\<lparr>unicast_only_cores := xs\<rparr>) = ring_ok a s"
  "ring_ok a (s\<lparr>num_unicast_cores := i\<rparr>) = ring_ok a s"
  "ring_ok a (s\<lparr>num_go_signals_safe_to_send := x\<rparr>) = ring_ok a s"
  "ring_ok a (s\<lparr>noc_regs := r\<rparr>) = ring_ok a s"
  "ring_ok a (s\<lparr>l1 := m\<rparr>) = ring_ok a s"
  "ring_ok a (s\<lparr>completion_rd_reads := xs\<rparr>) = ring_ok a s"
  "ring_ok a (s\<lparr>downstream_sem_reads := xs\<rparr>) = ring_ok a s"
  "ring_ok a (s\<lparr>worker_sem_reads := xs\<rparr>) = ring_ok a s"
  by (simp_all add: ring_ok_def ring_inv_def acquired_pages_def released_pages_def)

lemma ring_ok_emit [simp]: "op_acquired x = 0 \<Longrightarrow> op_released x = 0 \<Longrightarrow> ring_ok a (emit x s) = ring_ok a s"
  unfolding ring_ok_def ring_inv_def by (simp add: emit_def acquired_pages_def released_pages_def)

lemma op_pages_Noc_write [simp]: "op_acquired (send_noc_regs r) = 0" "op_released (send_noc_regs r) = 0"
  by (simp_all add: send_noc_regs_def)

lemma ring_ok_count [simp]: "ring_ok a (count_writes i j s) = ring_ok a s"
  by (simp add: count_writes_def)

text \<open>\<open>post P m\<close>: if \<open>m\<close> returns, then its result has \<open>P\<close>.  The rules take a handler apart along its code.\<close>

named_theorems posts \<open>partial correctness of an operation\<close>

definition post :: "('a \<Rightarrow> bool) \<Rightarrow> 'a result \<Rightarrow> bool" where
  "post P m \<longleftrightarrow> (\<forall>x. m = Inr x \<longrightarrow> P x)"

lemma post_Inr [posts]: "P x \<Longrightarrow> post P (Inr x)"
  by (simp add: post_def)

lemma post_Inl [posts]: "post P (Inl e)"
  by (simp add: post_def)

lemma post_rbind: "post Q m \<Longrightarrow> (\<And>x. Q x \<Longrightarrow> post P (f x)) \<Longrightarrow> post P (rbind m f)"
  by (cases m) (auto simp: post_def)

lemma post_mono: "post Q m \<Longrightarrow> (\<And>x. Q x \<Longrightarrow> P x) \<Longrightarrow> post P m"
  by (auto simp: post_def)

lemma post_if [posts]: "(b \<Longrightarrow> post P m) \<Longrightarrow> (\<not> b \<Longrightarrow> post P n) \<Longrightarrow> post P (if b then m else n)"
  by simp

lemma post_any: "post (\<lambda>_. True) m"
  by (simp add: post_def)

lemma post_rbind_any: "(\<And>x. post P (f x)) \<Longrightarrow> post P (rbind m f)"
  by (rule post_rbind [OF post_any])

lemma post_vec_get: "(\<And>x. vec_get xs i = Inr x \<Longrightarrow> post P (f x)) \<Longrightarrow> post P (rbind (vec_get xs i) f)"
  by (cases "vec_get xs i") (auto simp: post_def)

lemma postI: "(\<And>x. m = Inr x \<Longrightarrow> P x) \<Longrightarrow> post P m"
  by (simp add: post_def)

lemma postD: "post P m \<Longrightarrow> m = Inr x \<Longrightarrow> P x"
  by (simp add: post_def)

abbreviation keeps :: "Dispatch_args \<Rightarrow> Dispatcher result \<Rightarrow> bool" where
  "keeps a \<equiv> post (ring_ok a)"

abbreviation keeps2 :: "Dispatch_args \<Rightarrow> ('b \<times> Dispatcher) result \<Rightarrow> bool" where
  "keeps2 a \<equiv> post (\<lambda>(_, s). ring_ok a s)"

lemma keep_bind: "keeps a m \<Longrightarrow> (\<And>s. ring_ok a s \<Longrightarrow> post P (f s)) \<Longrightarrow> post P (rbind m f)"
  by (rule post_rbind)

lemma keep2_bind: "keeps2 a m \<Longrightarrow> (\<And>x s. ring_ok a s \<Longrightarrow> post P (f (x, s))) \<Longrightarrow> post P (rbind m f)"
  by (erule post_rbind) auto

lemma write_with_state_ok: "ring_ok a' s \<Longrightarrow> keeps a' (cq_noc_async_write_with_state a f b src dst n s)"
  unfolding cq_noc_async_write_with_state_def Let_def by (intro post_rbind_any posts) simp

lemma init_state_ok: "ring_ok a' s \<Longrightarrow> keeps a' (cq_noc_async_write_init_state a f b l src dst n s)"
  unfolding cq_noc_async_write_init_state_def by (rule write_with_state_ok) simp

lemma write_bursts_ok: "ring_ok a' s \<Longrightarrow> post (\<lambda>(_, _, _, s). ring_ok a' s) (write_bursts a f src dst n s)"
proof (induction a f src dst n s rule: write_bursts.induct)
  case (1 a f src dst n s)
  show ?case unfolding write_bursts.simps [of a f]
    by (intro posts keep_bind [OF write_with_state_ok] 1) (use 1(2) in simp_all)
qed

lemma write_any_len_ok: "ring_ok a' s \<Longrightarrow> keeps2 a' (cq_noc_async_write_with_state_any_len a b src dst n s)"
  unfolding cq_noc_async_write_with_state_any_len_def
  by (rule post_rbind [OF write_bursts_ok]) (auto intro!: posts keep_bind [OF write_with_state_ok])

text \<open>The same, for the step between the fence and the release of the block.\<close>

lemma ring_same_update [simp]:
  "ring_same r (s\<lparr>downstream_cb_data_ptr := x\<rparr>) = ring_same r s"
  "ring_same r (s\<lparr>writes_num_issued := x\<rparr>) = ring_same r s"
  "ring_same r (s\<lparr>writes_acked := x\<rparr>) = ring_same r s"
  by (simp_all add: ring_same_def acquired_pages_def released_pages_def)

lemma ring_same_count [simp]: "ring_same r (count_writes i j s) = ring_same r s"
  by (simp add: count_writes_def)

subsection \<open>The handlers\<close>

lemma get_page_ok: "ring_ok a s \<Longrightarrow> keeps2 a (get_cb_page_and_release_pages a ptr s)"
  by (rule postI) (auto dest: get_cb_page_ok)

lemma fence_ok: "ring_ok a s \<Longrightarrow> keeps a (acquire_into_fence a s)"
  by (rule postI) (rule acquire_into_fence_ok)

lemma data_page_ok:
  "ring_ok a s \<Longrightarrow> keeps2 a (if cb_fence s = ptr then get_cb_page_and_release_pages a ptr s else Inr (ptr, s))"
  by (intro posts get_page_ok) auto

lemma write_linear_loop_ok: "ring_ok a s \<Longrightarrow> keeps a (write_linear_loop a nd fuel len ptr dst s)"
proof (induction fuel arbitrary: len ptr dst s)
  case (Suc fuel)
  show ?case unfolding write_linear_loop.simps Let_def
    by (intro posts keep2_bind [OF data_page_ok [OF Suc.prems]]) 
       (auto simp: Suc.prems intro!: keep2_bind [OF write_any_len_ok] Suc.IH)
qed (simp add: posts)

lemma process_write_ok: "ring_ok a s \<Longrightarrow> keeps a (process_write a s)"
  unfolding process_write_def process_write_linear_def Let_def
  by (intro posts post_vec_get keep_bind [OF init_state_ok] write_linear_loop_ok)

lemma write_paged_loop_ok: "ring_ok a s \<Longrightarrow> keeps a (write_paged_loop a d bb ps fuel len ptr page off s)"
proof (induction fuel arbitrary: len ptr page off s)
  case (Suc fuel)
  show ?case unfolding write_paged_loop.simps Let_def
    by (intro posts keep2_bind [OF data_page_ok [OF Suc.prems]])
       (auto simp: Suc.prems split: prod.split intro!: Suc.IH)
qed (simp add: posts)

lemma process_write_paged_ok: "ring_ok a s \<Longrightarrow> keeps a (process_write_paged a d s)"
  unfolding process_write_paged_def Let_def by (rule write_paged_loop_ok)

text \<open>Leaving a block inside a handler.\<close>

lemma leave_ok:
  assumes "ring_ok a s" and "vec_get (block_next_start_addr a) (rd_block_idx s) = Inr block_end" and "cb_fence s = block_end"
    and "ring_same (wrapped_fence a s) t"
  shows "keeps a (move_rd_to_next_block_and_release_pages a t)"
  by (rule postI) (rule leave_block_ok [OF assms])

lemma write_with_state_same:
  "cq_noc_async_write_with_state a f b src dst n s = Inr t \<Longrightarrow> ring_same s t"
  by (auto simp: cq_noc_async_write_with_state_def rbind_eq_Inr Let_def ring_same_def emit_def acquired_pages_def released_pages_def split: if_splits)

lemma wrapped_fence_same: "ring_same s t \<Longrightarrow> ring_same (wrapped_fence a s) (wrapped_fence a t)"
  by (auto simp: ring_same_def wrapped_fence_def acquired_pages_def released_pages_def)

lemma packed_leave_block_ok:
  assumes ok: "ring_ok a s"
  shows "post (\<lambda>(_, _, _, _, s). ring_ok a s) (packed_leave_block a xy nd dst ptr w m s)"
  unfolding packed_leave_block_def Let_def
proof (intro post_vec_get posts)
  fix be
  assume be: "vec_get (block_next_start_addr a) (rd_block_idx s) = Inr be" and f: "cb_fence s = be"
  let ?orphan = "sub32 (cb_fence s) ptr"
  let ?m = "if ?orphan \<noteq> 0 then cq_noc_async_write_with_state a SNdL True ptr (To_core xy, dst) ?orphan s else Inr s"
  have "post (ring_same s) ?m" by (intro posts postI) (auto dest: write_with_state_same)
  then show "post (\<lambda>(_, _, _, _, s). ring_ok a s) (rbind ?m (\<lambda>s. case if ?orphan \<noteq> 0 then (w + 1, m + nd) else (w, m) of (w, m) \<Rightarrow>
      case if rd_block_idx s = sub32 (dispatch_cb_blocks a) 1 then (dispatch_cb_base a, s\<lparr>cb_fence := dispatch_cb_base a\<rparr>)
           else (add32 ptr ?orphan, s) of (ptr, s) \<Rightarrow>
      rbind (move_rd_to_next_block_and_release_pages a (count_writes w m s)) (\<lambda>s. Inr (?orphan, ptr, 0, 0, s))))"
  proof (rule post_rbind)
    fix t assume "ring_same s t"
    note same = wrapped_fence_same [OF this, of a]
    show "post (\<lambda>(_, _, _, _, s). ring_ok a s) (case if ?orphan \<noteq> 0 then (w + 1, m + nd) else (w, m) of (w, m) \<Rightarrow>
      case if rd_block_idx t = sub32 (dispatch_cb_blocks a) 1 then (dispatch_cb_base a, t\<lparr>cb_fence := dispatch_cb_base a\<rparr>)
           else (add32 ptr ?orphan, t) of (ptr, s) \<Rightarrow>
      rbind (move_rd_to_next_block_and_release_pages a (count_writes w m s)) (\<lambda>s. Inr (?orphan, ptr, 0, 0, s)))"
      using same by (auto simp: wrapped_fence_def [of a t] split: if_splits intro!: keep_bind [OF leave_ok [OF ok be f]] posts)
  qed
qed (use ok in simp)

lemma write_packed_loop_ok: "ring_ok a s \<Longrightarrow> keeps a (write_packed_loop a dst n stride subs ptr w m s)"
proof (induction subs arbitrary: ptr w m s)
  case (Cons sub subs)
  obtain xy nd where sub: "sub = (xy, nd)" by (cases sub)
  have send: "keeps a (rbind (cq_noc_async_write_with_state a SNdl True p (To_core xy, dst) n t)
      (write_packed_loop a dst n stride subs p' w' m'))" if "ring_ok a t" for p p' w' m' t
    by (intro keep_bind [OF write_with_state_ok [OF that]] Cons.IH)
  show ?case unfolding sub write_packed_loop.simps Let_def
    by (intro posts post_rbind [OF packed_leave_block_ok [OF Cons.prems]] send Cons.prems)
       (auto intro!: keep_bind [OF fence_ok] posts send keep_bind [OF write_with_state_ok] Cons.IH)
qed (simp add: posts)

lemma process_write_packed_ok: "ring_ok a s \<Longrightarrow> keeps a (process_write_packed a mcast flags s)"
  unfolding process_write_packed_def Let_def
  by (intro post_rbind_any keep_bind [OF init_state_ok] write_packed_loop_ok)

lemma large_leave_block_ok:
  assumes ok: "ring_ok a s"
  shows "keeps2 a (large_leave_block a nd p s)"
  unfolding large_leave_block_def Let_def
proof (intro post_vec_get keep2_bind)
  fix be
  assume be: "vec_get (block_next_start_addr a) (rd_block_idx s) = Inr be"
  show "keeps2 a (if cb_fence s = be then
      rbind (move_rd_to_next_block_and_release_pages a
              ((if rd_block_idx s = sub32 (dispatch_cb_blocks a) 1 then s\<lparr>cb_fence := dispatch_cb_base a\<rparr> else s)
                 \<lparr>writes_num_issued := add32 (writes_num_issued (if rd_block_idx s = sub32 (dispatch_cb_blocks a) 1
                    then s\<lparr>cb_fence := dispatch_cb_base a\<rparr> else s)) (pk_writes p)\<rparr>))
        (\<lambda>s'. Inr (p\<lparr>pk_data_ptr := if rd_block_idx s = sub32 (dispatch_cb_blocks a) 1 then dispatch_cb_base a else pk_data_ptr p,
                    pk_mcasts := add32 (pk_mcasts p) (mul32 nd (pk_writes p)), pk_writes := 0\<rparr>, s'))
      else Inr (p, s))"
    using ok by (auto simp: wrapped_fence_def intro!: posts keep_bind [OF leave_ok [OF ok be]])
qed (auto intro!: keep_bind [OF fence_ok] posts)

lemma large_send_last_ok: "ring_ok a s \<Longrightarrow> keeps a (large_send_last a u ptr dst n s)"
  unfolding large_send_last_def Let_def
  by (auto intro!: posts keep2_bind [OF write_any_len_ok] keep_bind [OF init_state_ok] write_with_state_ok)

lemma large_data_loop_ok: "ring_ok a s \<Longrightarrow> keeps2 a (large_data_loop a u nd fuel len dst p s)"
proof (induction fuel arbitrary: len dst p s)
  case (Suc fuel)
  have m: "keeps2 a (if pk_data_ptr p = cb_fence s then large_leave_block a nd p s else Inr (p, s))"
    using Suc.prems by (intro posts large_leave_block_ok) auto
  have send: "keeps a (if b then rbind (cq_noc_async_write_with_state_any_len a True q dst n t) (\<lambda>(_, s). Inr s)
      else large_send_last a u q dst n t)" if "ring_ok a t" for b q n t
    by (intro posts keep2_bind [OF write_any_len_ok [OF that]] large_send_last_ok [OF that]) (simp add: posts)
  have step: "keeps2 a (rbind (if b then rbind (cq_noc_async_write_with_state_any_len a True q dst n t) (\<lambda>(_, s). Inr s)
      else large_send_last a u q dst n t) (large_data_loop a u nd fuel len' dst' p'))" if "ring_ok a t" for b q n t len' dst' p'
    by (rule keep_bind [OF send [OF that]]) (rule Suc.IH)
  show ?case unfolding large_data_loop.simps Let_def
    by (intro posts keep2_bind [OF m]) (simp add: Suc.prems, simp only: prod.case, erule step)
qed (simp add: posts)

lemma large_padding_ok:
  assumes ok: "ring_ok a s"
  shows "keeps2 a (large_padding a pad ptr s)"
  unfolding large_padding_def
proof (intro posts post_vec_get)
  fix be
  assume be: "vec_get (block_next_start_addr a) (rd_block_idx s) = Inr be"
  let ?w = "if rd_block_idx s = sub32 (dispatch_cb_blocks a) 1
    then rbind (check (cb_fence s = dispatch_cb_end a) (TT_ASSERT ''cb_fence == dispatch_cb_end''))
           (\<lambda>_. Inr (sub32 pad (sub32 (cb_fence s) ptr), dispatch_cb_base a, s\<lparr>cb_fence := dispatch_cb_base a\<rparr>))
    else Inr (pad, ptr, s)"
  have w: "post (\<lambda>(_, _, t). t = wrapped_fence a s) ?w"
    by (intro posts post_rbind_any) (simp_all add: wrapped_fence_def)
  have l: "post (\<lambda>(_, _, s). ring_ok a s) (if cb_fence s = be then rbind ?w (\<lambda>(pad, ptr, s).
      rbind (move_rd_to_next_block_and_release_pages a s) (\<lambda>s. Inr (pad, ptr, s))) else Inr (pad, ptr, s))"
    by (intro posts post_rbind [OF w]) (auto simp: ok intro!: posts keep_bind [OF leave_ok [OF ok be]])
  show "keeps2 a (rbind (if cb_fence s = be then rbind ?w (\<lambda>(pad, ptr, s).
      rbind (move_rd_to_next_block_and_release_pages a s) (\<lambda>s. Inr (pad, ptr, s))) else Inr (pad, ptr, s))
      (\<lambda>(pad, ptr, s). rbind (acquire_into_fence a s) (\<lambda>s. Inr (add32 ptr pad, s))))"
    by (rule post_rbind [OF l]) (auto intro!: keep_bind [OF fence_ok] posts)
qed (simp add: ok)

lemma write_packed_large_loop_ok: "ring_ok a s \<Longrightarrow> keeps a (write_packed_large_loop a al off subs b p s)"
proof (induction subs arbitrary: b p s)
  case (Cons sub subs)
  have init: "keeps a (if b then cq_noc_async_write_init_state a sNdl True True 0
      (To_core (pl_noc_xy_addr sub), add32 (pl_addr sub) off) 0 s else Inr s)"
    using Cons.prems by (intro posts init_state_ok)
  show ?case unfolding write_packed_large_loop.simps Let_def
    by (intro keep_bind [OF init] keep2_bind [OF large_data_loop_ok])
       (auto intro!: keep2_bind [OF large_padding_ok] Cons.IH)
qed (simp add: posts)

lemma process_write_packed_large_ok: "ring_ok a s \<Longrightarrow> keeps a (process_write_packed_large a s)"
  unfolding process_write_packed_large_def Let_def
  by (intro post_rbind_any write_packed_large_loop_ok)

lemma reserve_back_ok: "ring_ok a s \<Longrightarrow> keeps a (dispatch_completion_queue_reserve_back b n s)"
  unfolding dispatch_completion_queue_reserve_back_def Let_def
  by (rule post_rbind_any) (auto intro: posts)

lemma push_back_ok: "ring_ok a s \<Longrightarrow> keeps a (dispatch_completion_queue_push_back b n s)"
  unfolding dispatch_completion_queue_push_back_def notify_host_of_completion_queue_write_pointer_def Let_def
  by (rule write_with_state_ok) simp

lemma write_host_loop_ok: "ring_ok a s \<Longrightarrow> keeps a (write_host_loop a fuel len ptr s)"
proof (induction fuel arbitrary: len ptr s)
  case (Suc fuel)
  have chunk: "post (\<lambda>(_, _, _, _, s). ring_ok a s) (if c then rbind (cq_noc_async_write_with_state_any_len a True p w k t)
      (\<lambda>(_, s). Inr (w', p', l', n', count_writes i j s)) else Inr (w, p, l, n, t))"
    if "ring_ok a t" for c p w k t w' p' l' n' i j l n
    by (intro posts keep2_bind [OF write_any_len_ok [OF that]]) (simp_all add: that posts)
  show ?case unfolding write_host_loop.simps Let_def
    by (intro posts keep2_bind [OF data_page_ok [OF Suc.prems]])
       (auto simp: Suc.prems intro!: keep_bind [OF reserve_back_ok] post_rbind [OF chunk]
          keep2_bind [OF write_any_len_ok] keep_bind [OF push_back_ok] Suc.IH simp del: if_split split del: if_split)
qed (simp add: posts)

lemma process_write_host_h_ok: "ring_ok a s \<Longrightarrow> keeps a (process_write_host_h a s)"
  unfolding process_write_host_h_def Let_def
  by (intro keep_bind [OF init_state_ok] write_host_loop_ok)

lemma process_exec_buf_end_h_ok: "ring_ok a s \<Longrightarrow> ring_ok a (process_exec_buf_end_h a s)"
  by (simp add: process_exec_buf_end_h_def Let_def)

subsection \<open>The relay\<close>

lemma downstream_wrap_ok [simp]: "ring_ok a (downstream_wrap b s) = ring_ok a s"
  by (simp add: downstream_wrap_def)

lemma relay_preamble_ok: "ring_ok a s \<Longrightarrow> keeps a (relay_preamble b n h s)"
  unfolding relay_preamble_def Let_def by (intro posts post_rbind_any) auto

lemma ring_same_downstream_wrap: "ring_same r (downstream_wrap b s) = ring_same r s"
  by (simp add: downstream_wrap_def)

lemma relay_leave_block_ok:
  assumes ok: "ring_ok a s" and be: "vec_get (block_next_start_addr a) (rd_block_idx s) = Inr be" and f: "cb_fence s = be"
  shows "post (\<lambda>(_, _, _, s). ring_ok a s) (relay_leave_block a ptr len n s)"
  unfolding relay_leave_block_def Let_def
proof (rule post_rbind [where Q = "\<lambda>(_, _, _, t). ring_same (wrapped_fence a s) t"], goal_cases)
  case 1
  have send: "post (\<lambda>(_, _, t). ring_same s t) (if k \<noteq> 0 then rbind (cq_noc_async_write_with_state a SnDL True p d k s)
      (\<lambda>t. Inr (l, m, downstream_wrap a ((count_writes 1 1 t)\<lparr>downstream_cb_data_ptr :=
         add32 (downstream_cb_data_ptr (count_writes 1 1 t)) k\<rparr>))) else Inr (len, n, s))" for k p d l m
    by (intro posts post_rbind [where Q = "ring_same s"] postI [of "cq_noc_async_write_with_state a SnDL True p d k s"])
       (auto dest: write_with_state_same simp: ring_same_downstream_wrap)
  show ?case
    by (intro posts post_rbind_any post_rbind [OF send])
       (auto simp: wrapped_fence_def ring_same_def acquired_pages_def released_pages_def intro!: posts)
qed (auto intro!: keep_bind [OF leave_ok [OF ok be f]] posts)

lemma relay_get_page_ok: 
  assumes ok: "ring_ok a s"
  shows "post (\<lambda>(_, _, _, s). ring_ok a s) (relay_get_page a ptr len n s)"
  unfolding relay_get_page_def
proof (intro posts post_vec_get post_rbind [where Q = "\<lambda>(_, _, _, s). ring_ok a s"])
  fix be assume "vec_get (block_next_start_addr a) (rd_block_idx s) = Inr be" and "cb_fence s = be"
  then show "post (\<lambda>(_, _, _, s). ring_ok a s) (relay_leave_block a ptr len n s)" by (rule relay_leave_block_ok [OF ok])
qed (auto simp: ok intro!: keep_bind [OF fence_ok] posts)

lemma cb_acquire_downstream_pages_ok: "ring_ok a s \<Longrightarrow> keeps a (cb_acquire_downstream_pages n s)"
  unfolding cb_acquire_downstream_pages_def by (rule post_rbind_any) (auto intro: posts)

lemma relay_loop_ok: "ring_ok a s \<Longrightarrow> keeps2 a (relay_loop a ps fuel ptr len s)"
proof (induction fuel arbitrary: ptr len s)
  case (Suc fuel)
  show ?case unfolding relay_loop.simps Let_def
    by (intro posts post_rbind_any keep_bind [OF cb_acquire_downstream_pages_ok] keep_bind [OF relay_preamble_ok]
          post_rbind [OF relay_get_page_ok])
       (auto simp: Suc.prems intro!: keep_bind [OF write_with_state_ok] Suc.IH)
qed (simp add: posts)

lemma relay_to_next_cb_ok: "ring_ok a s \<Longrightarrow> keeps a (relay_to_next_cb a ps ptr len s)"
  unfolding relay_to_next_cb_def Let_def
  by (intro post_rbind_any keep_bind [OF init_state_ok] keep2_bind [OF relay_loop_ok]) (auto intro: posts)

subsection \<open>Synchronisation and the main loop\<close>

lemma process_wait_ok: "ring_ok a s \<Longrightarrow> keeps a (process_wait a s)"
  unfolding process_wait_def Let_def
  by (rule keep_bind [where a = a], (intro posts post_rbind_any; auto intro!: posts)[1])+
     (auto intro!: posts)

lemma rfold_ok:
  assumes "\<And>x s. ring_ok a s \<Longrightarrow> keeps a (f x s)"
  shows "ring_ok a s \<Longrightarrow> keeps a (rfold f xs s)"
  by (induction xs arbitrary: s) (auto intro!: posts keep_bind [OF assms])

lemma process_go_signal_ok: "ring_ok a s \<Longrightarrow> keeps a (process_go_signal_mcast_cmd a s)"
proof -
  assume ok: "ring_ok a s"
  have u: "keeps a (unicast_go_signals a src i t)" if "ring_ok a t" for src i t
    unfolding unicast_go_signals_def using that by (intro post_vec_get) (auto intro: posts)
  show ?thesis unfolding process_go_signal_mcast_cmd_def Let_def
    by (rule post_rbind_any) (auto simp: ok intro!: posts keep_bind [where a = a] rfold_ok [OF u] split: prod.split)
qed

lemma process_set_unicast_only_cores_ok: "ring_ok a s \<Longrightarrow> keeps a (process_set_unicast_only_cores s)"
proof -
  assume ok: "ring_ok a s"
  have u: "keeps a (set_unicast_only_core ptr i t)" if "ring_ok a t" for ptr i t
    unfolding set_unicast_only_core_def using that by (intro post_rbind_any) (auto intro: posts)
  show ?thesis unfolding process_set_unicast_only_cores_def Let_def
    by (rule keep_bind [OF rfold_ok [OF u]]) (auto simp: ok intro: posts)
qed

lemma process_notify_ok [simp]: "ring_ok a (process_notify_dispatch_s_go_signal_cmd b s) = ring_ok a s"
  by (simp add: process_notify_dispatch_s_go_signal_cmd_def Let_def)

lemma process_simple_cmd_ok: "ring_ok a s \<Longrightarrow> keeps a (process_simple_cmd a i s)"
  unfolding process_simple_cmd_def Let_def process_write_host_d_def relay_write_h_def process_exec_buf_end_d_def
  by (intro posts process_write_ok process_write_host_h_ok process_write_paged_ok process_write_packed_ok relay_to_next_cb_ok
        process_write_packed_large_ok process_wait_ok process_go_signal_ok process_set_unicast_only_cores_ok process_exec_buf_end_h_ok)
     (simp_all add: process_delay_cmd_def process_set_write_offset_def Let_def)

lemma process_cmd_d_ok: "ring_ok a s \<Longrightarrow> keeps2 a (process_cmd_d a fuel s)"
proof (induction fuel arbitrary: s)
  case (Suc fuel)
  have t: "keeps a (process_terminate_d a s)" unfolding process_terminate_d_def
    by (rule keep_bind [where a = a]) (auto simp: Suc.prems intro!: posts relay_to_next_cb_ok)
  show ?case unfolding process_cmd_d.simps Let_def
    by (intro posts Suc.IH keep_bind [OF t] keep_bind [OF process_simple_cmd_ok]) (simp_all add: Suc.prems)
qed (simp add: posts)

lemma process_cmd_h_ok: "ring_ok a s \<Longrightarrow> keeps2 a (process_cmd_h a s)"
  unfolding process_cmd_h_def Let_def
  by (intro posts keep_bind [OF process_write_ok] keep_bind [OF process_write_host_h_ok])
     (simp_all add: process_exec_buf_end_h_ok)

lemma dispatch_round_ok: "ring_ok a s \<Longrightarrow> keeps2 a (dispatch_round a fuel s)"
  unfolding dispatch_round_def
proof (rule keep_bind [where a = a])
  assume ok: "ring_ok a s"
  show "keeps a (if cmd_ptr s = cb_fence s then rbind (get_cb_page_and_release_pages a (cmd_ptr s) s) (\<lambda>(ptr, s). Inr (s\<lparr>cmd_ptr := ptr\<rparr>))
      else Inr s)"
    by (intro posts keep2_bind [OF get_page_ok]) (simp_all add: ok posts)
  fix t assume ok: "ring_ok a t"
  have "keeps2 a (if is_d_variant a then process_cmd_d a fuel t else process_cmd_h a t)"
    by (intro posts process_cmd_d_ok process_cmd_h_ok ok)
  then show "keeps2 a (rbind (if is_d_variant a then process_cmd_d a fuel t else process_cmd_h a t)
      (\<lambda>(done, s). Inr (done, s\<lparr>cmd_ptr := round_up_pow2 (cmd_ptr s) (dispatch_cb_page_size a)\<rparr>)))"
    by (rule keep2_bind) (simp add: posts)
qed

text \<open>The states of the kernel between two commands.  The static variables start as zero.\<close>

definition dispatch_loaded :: "Dispatcher \<Rightarrow> bool" where
  "dispatch_loaded s \<longleftrightarrow> \<not> prev_block s \<and> upstream_count s = 0 \<and> ops s = []"

inductive dispatch_run :: "Dispatch_args \<Rightarrow> Dispatcher \<Rightarrow> bool" for a where
  dispatch_start: "dispatch_loaded s \<Longrightarrow> dispatch_run a (dispatch_init a w s)"
| dispatch_next: "dispatch_run a s \<Longrightarrow> dispatch_round a fuel s = Inr (done, s') \<Longrightarrow> dispatch_run a s'"

lemma dispatch_init_ok:
  assumes "ring_config a" and "dispatch_loaded s"
  shows "ring_inv a 0 0 (dispatch_init a w s)"
  using assms by (simp add: ring_inv_def dispatch_init_def dispatch_loaded_def page_addr_def acquired_pages_def released_pages_def)

lemma dispatch_run_ok: "dispatch_run a s \<Longrightarrow> ring_config a \<Longrightarrow> ring_ok a s"
proof (induction rule: dispatch_run.induct)
  case (dispatch_start s w)
  then show ?case unfolding ring_ok_def using dispatch_init_ok by blast
next
  case (dispatch_next s fuel "done" s')
  then show ?case using postD [OF dispatch_round_ok] by fastforce
qed

end
