(* ===== verification/Dispatch_Deliver.thy ===== *)
theory Dispatch_Deliver
  imports Dispatch_Pages
begin

text \<open>
  What a linear write of the dispatch kernel delivers.  The data of a command lie in the ring, arrive page by page, cross the ends
  of blocks and of the ring; the kernel cuts them into transactions.  \<open>delivered\<close> is the list of bytes transferred, each with its address in
  L1 and its destination.
\<close>

subsection \<open>Bytes of a transaction\<close>

fun op_bytes :: "noc_op \<Rightarrow> (nat \<times> nat \<times> nat) list" where
  "op_bytes (Noc_write src (Noc xy dst) n _ _) = map (\<lambda>i. (src + i, xy, dst + i)) [0..<n]"
| "op_bytes _ = []"

definition delivered :: "Dispatcher \<Rightarrow> (nat \<times> nat \<times> nat) list" where
  "delivered s = concat (map op_bytes (ops s))"

lemma delivered_emit [simp]: "delivered (emit x s) = delivered s @ op_bytes x"
  by (simp add: delivered_def emit_def)

definition data_op :: "noc_op \<Rightarrow> bool" where
  "data_op x \<longleftrightarrow> op_acquired x = 0 \<and> op_released x = 0"

text \<open>\<open>sends xy bs s s'\<close>: the step sends the bytes \<open>bs\<close> to the core \<open>xy\<close> and changes the registers and the trace only.\<close>

definition sends :: "nat \<Rightarrow> (nat \<times> nat \<times> nat) list \<Rightarrow> Dispatcher \<Rightarrow> Dispatcher \<Rightarrow> bool" where
  "sends xy bs s s' \<longleftrightarrow> (\<exists>r xs. s' = s\<lparr>noc_regs := r, ops := ops s @ xs\<rparr> \<and> ret_addr_coordinate r = To_core xy \<and>
     list_all data_op xs \<and> concat (map op_bytes xs) = bs)"

lemma sends_trans:
  assumes "sends xy bs s t" and "sends xy cs t u"
  shows "sends xy (bs @ cs) s u"
proof -
  obtain r xs where t: "t = s\<lparr>noc_regs := r, ops := ops s @ xs\<rparr>" "list_all data_op xs" "concat (map op_bytes xs) = bs"
    using assms(1) by (auto simp: sends_def)
  obtain r' ys where u: "u = t\<lparr>noc_regs := r', ops := ops t @ ys\<rparr>" "ret_addr_coordinate r' = To_core xy"
      "list_all data_op ys" "concat (map op_bytes ys) = cs"
    using assms(2) by (auto simp: sends_def)
  have "u = s\<lparr>noc_regs := r', ops := ops s @ (xs @ ys)\<rparr>" by (simp add: t(1) u(1))
  then show ?thesis unfolding sends_def using t u by (intro exI [of _ r'] exI [of _ "xs @ ys"]) simp
qed

definition copies :: "nat \<Rightarrow> nat \<Rightarrow> nat \<Rightarrow> nat \<Rightarrow> (nat \<times> nat \<times> nat) list" where
  "copies xy src dst n = map (\<lambda>i. (src + i, xy, dst + i)) [0..<n]"

lemma copies_append: "copies xy src dst (m + n) = copies xy src dst m @ copies xy (src + m) (dst + m) n"
proof -
  have "[m..<m + n] = map (\<lambda>i. i + m) [0..<n]" by (simp add: map_add_upt add.commute)
  then show ?thesis by (simp add: copies_def upt_add_eq_append [of 0 m n, simplified] comp_def ac_simps)
qed

lemma packet_sends:
  assumes "ret_addr_coordinate (noc_regs s) = To_core xy" and "n \<le> noc_max_burst_size a" and "flag_src f" "flag_dst f" "\<not> flag_noc f"
    and "flag_len f \<or> at_len_be (noc_regs s) = n"
  shows "\<exists>s'. cq_noc_async_write_with_state a f True src (To_core c, dst) n s = Inr s' \<and> sends xy (copies xy src dst n) s s' \<and>
    at_len_be (noc_regs s') = n"
proof -
  define r where "r = set_noc_regs f src (To_core c, dst) n (noc_regs s)"
  have r: "targ_addr_lo r = src" "ret_addr_lo r = dst" "ret_addr_coordinate r = To_core xy" "at_len_be r = n"
    using assms by (auto simp: r_def set_noc_regs_def)
  have "cq_noc_async_write_with_state a f True src (To_core c, dst) n s = Inr (s\<lparr>noc_regs := r, ops := ops s @ [send_noc_regs r]\<rparr>)"
    using assms(2) by (simp add: cq_noc_async_write_with_state_def Let_def r_def emit_def)
  moreover have "data_op (send_noc_regs r)" "op_bytes (send_noc_regs r) = copies xy src dst n"
    by (simp_all add: send_noc_regs_def data_op_def r copies_def)
  ultimately show ?thesis using r
    by (intro exI conjI) (auto simp: sends_def intro!: exI [of _ r] exI [of _ "[send_noc_regs r]"])
qed

lemma bursts_sends:
  assumes "ret_addr_coordinate (noc_regs s) = To_core xy" and "0 < noc_max_burst_size a" and "src + n < 2 ^ 32" and "dst + n < 2 ^ 32"
    and "flag_src f" "flag_dst f" "\<not> flag_noc f" and "flag_len f \<or> at_len_be (noc_regs s) = noc_max_burst_size a"
  shows "\<exists>k m s'. write_bursts a f src dst n s = Inr (src + k, dst + k, m, s') \<and> k + m = n \<and> m \<le> noc_max_burst_size a \<and>
    sends xy (copies xy src dst k) s s'"
  using assms
proof (induction a f src dst n s rule: write_bursts.induct)
  case (1 a f src dst n s)
  let ?b = "noc_max_burst_size a"
  show ?case
  proof (cases "?b < n")
    case True
    obtain t where t: "cq_noc_async_write_with_state a f True src (To_core 0, dst) ?b s = Inr t"
        "sends xy (copies xy src dst ?b) s t" "at_len_be (noc_regs t) = ?b"
      using packet_sends [of s xy ?b a f src 0 dst] 1(2-9) by auto
    have c: "ret_addr_coordinate (noc_regs t) = To_core xy" using t(2) by (auto simp: sends_def)
    have w: "add32 src ?b = src + ?b" "add32 dst ?b = dst + ?b" using 1(4,5) True by (simp_all add: nowrap)
    obtain k m s' where k: "write_bursts a SnDl (src + ?b) (dst + ?b) (n - ?b) t = Inr (src + ?b + k, dst + ?b + k, m, s')"
        "k + m = n - ?b" "m \<le> ?b" "sends xy (copies xy (src + ?b) (dst + ?b) k) t s'"
      using 1(1) [of t] True 1(3-5) c t(3) by (auto simp: w)
    have "sends xy (copies xy src dst (?b + k)) s s'"
      using sends_trans [OF t(2) k(4)] by (simp add: copies_append)
    then show ?thesis using True 1(3) k t(1) w
      by (intro exI [of _ "?b + k"] exI [of _ m] exI [of _ s']) (simp add: write_bursts.simps [of a f] add.assoc)
  next
    case False
    have "sends xy (copies xy src dst 0) s s" using 1(2) unfolding sends_def
      by (intro exI [of _ "noc_regs s"] exI [of _ "[]"]) (simp add: copies_def)
    then show ?thesis using False
      by (intro exI [of _ 0] exI [of _ n] exI [of _ s]) (simp add: write_bursts.simps [of a f])
  qed
qed

lemma any_len_sends:
  assumes "ret_addr_coordinate (noc_regs s) = To_core xy" and "0 < noc_max_burst_size a" and "src + n < 2 ^ 32" and "dst + n < 2 ^ 32"
  shows "\<exists>s'. cq_noc_async_write_with_state_any_len a True src dst n s = Inr (0, s') \<and> sends xy (copies xy src dst n) s s'"
proof -
  obtain k m t where t: "write_bursts a SnDL src dst n s = Inr (src + k, dst + k, m, t)" "k + m = n" "m \<le> noc_max_burst_size a"
      "sends xy (copies xy src dst k) s t"
    using bursts_sends [OF assms, of SnDL] by auto
  have c: "ret_addr_coordinate (noc_regs t) = To_core xy" using t(4) by (auto simp: sends_def)
  obtain u where u: "cq_noc_async_write_with_state a SnDL True (src + k) (To_core 0, dst + k) m t = Inr u"
      "sends xy (copies xy (src + k) (dst + k) m) t u"
    using packet_sends [OF c t(3), of SnDL "src + k" 0 "dst + k"] by auto
  have "copies xy src dst n = copies xy src dst k @ copies xy (src + k) (dst + k) m"
    unfolding t(2) [symmetric] by (rule copies_append)
  then show ?thesis
    using sends_trans [OF t(4) u(2)] t(1) u(1) by (simp add: cq_noc_async_write_with_state_any_len_def)
qed

subsection \<open>Waiting for pages\<close>

definition coming :: "nat \<Rightarrow> Dispatcher \<Rightarrow> nat" where
  "coming n_pending s = n_pending + sum_list (map fst (arrivals s))"

text \<open>\<open>n_pending\<close> pages are counted and not yet acquired.\<close>

definition pending :: "nat \<Rightarrow> nat \<Rightarrow> Dispatcher \<Rightarrow> bool" where
  "pending n_acq n_pending s \<longleftrightarrow> upstream_count s = (n_acq + n_pending) mod 2 ^ 32 \<and> n_pending < 2 ^ 32 \<and>
     (\<forall>(k, m)\<in>set (arrivals s). k < 2 ^ 32)"

lemma add32_same_iff: "l < 2 ^ 32 \<Longrightarrow> k < 2 ^ 32 \<Longrightarrow> add32 l k = l \<longleftrightarrow> k = 0"
proof -
  assume l: "l < 2 ^ 32" and k: "k < 2 ^ 32"
  have "wsub 32 (add32 l k) l = k" using wsub_wadd_cancel [OF k l] by (simp add: wadd_commute)
  moreover have "wsub 32 l l = 0" using l by (simp add: wsub_id)
  ultimately show ?thesis using l by (auto simp: wadd_def)
qed

lemma sub32_add: "k < 2 ^ 32 \<Longrightarrow> sub32 ((n + k) mod 2 ^ 32) (n mod 2 ^ 32) = k"
proof -
  assume k: "k < 2 ^ 32"
  have "(n + k) mod 2 ^ 32 = add32 k (n mod 2 ^ 32)" by (simp add: wadd_def mod_simps add.commute)
  then show ?thesis using wsub_wadd_cancel [OF k, of "n mod 2 ^ 32"] by simp
qed

lemma poll_arrivals:
  assumes "l < 2 ^ 32" and "\<forall>(k, m)\<in>set xs. k < 2 ^ 32" and "0 < sum_list (map fst xs)"
  shows "\<exists>k m rest. poll_until (\<lambda>(k, m). add32 l k \<noteq> l) xs = Inr ((k, m), rest) \<and> 0 < k \<and> k < 2 ^ 32 \<and>
    k + sum_list (map fst rest) = sum_list (map fst xs) \<and> set rest \<subseteq> set xs"
  using assms(2,3)
proof (induction xs)
  case (Cons x xs)
  obtain k m where x: "x = (k, m)" by (cases x)
  show ?case
  proof (cases "k = 0")
    case True
    then show ?thesis using Cons assms(1) by (auto simp: x add32_same_iff)
  next
    case False
    then show ?thesis using Cons.prems assms(1) by (auto simp: x add32_same_iff)
  qed
qed simp

text \<open>Acquiring: with pages on the way and room in the block, at least one page comes.\<close>

lemma acquire_some:
  assumes i: "ring_inv a n_acq n_blk s" and c: "ring_config a" and p: "pending n_acq n_pending s"
    and sup: "0 < coming n_pending s" and room: "n_acq < (n_blk + 1) * block_pages a"
  shows "\<exists>n np m uc rest. cb_acquire_pages a s = Inr (n, emit (Pages_acquired n) (s\<lparr>upstream_count := uc, l1 := m, arrivals := rest,
      upstream_total_acquired_page_count := (n_acq + n) mod 2 ^ 32\<rparr>)) \<and> 0 < n \<and> uc = (n_acq + n + np) mod 2 ^ 32 \<and> np < 2 ^ 32 \<and>
      set rest \<subseteq> set (arrivals s) \<and> np + sum_list (map fst rest) + n = coming n_pending s"
proof -
  have rd: "rd_block_idx s < dispatch_cb_blocks a" using i ring_config_facts(1) [OF c] by (simp add: ring_inv_def)
  note be = block_next_start [OF c rd]
  note us = usable_pages [OF i c]
  have l: "upstream_total_acquired_page_count s = n_acq mod 2 ^ 32" using i by (simp add: ring_inv_def)
  let ?lim = "(n_blk + 1) * block_pages a - n_acq"
  have result: "\<exists>n np m uc rest. (let usable = (if k > ?lim then ?lim else k)
      in Inr (usable, emit (Pages_acquired usable) (s\<lparr>upstream_count := (n_acq + k) mod 2 ^ 32, l1 := mm, arrivals := xs,
           upstream_total_acquired_page_count := add32 (n_acq mod 2 ^ 32) usable\<rparr>))) =
      Inr (n, emit (Pages_acquired n) (s\<lparr>upstream_count := uc, l1 := m, arrivals := rest,
        upstream_total_acquired_page_count := (n_acq + n) mod 2 ^ 32\<rparr>)) \<and> 0 < n \<and> uc = (n_acq + n + np) mod 2 ^ 32 \<and>
      np < 2 ^ 32 \<and> set rest \<subseteq> set (arrivals s) \<and> np + sum_list (map fst rest) + n = coming n_pending s"
    if "0 < k" "k < 2 ^ 32" "set xs \<subseteq> set (arrivals s)" "k + sum_list (map fst xs) = coming n_pending s" for k mm xs
    using that room
    by (intro exI [of _ "min k ?lim"] exI [of _ "k - min k ?lim"] exI [of _ mm] exI [of _ "(n_acq + k) mod 2 ^ 32"] exI [of _ xs])
       (auto simp: Let_def min_def wadd_def mod_simps)
  show ?thesis
  proof (cases "n_pending = 0")
    case True
    then have eq: "upstream_total_acquired_page_count s = upstream_count s" using p l by (simp add: pending_def)
    obtain k m rest where k: "poll_until (\<lambda>(k, m). add32 (n_acq mod 2 ^ 32) k \<noteq> n_acq mod 2 ^ 32) (arrivals s) = Inr ((k, m), rest)"
        "0 < k" "k < 2 ^ 32" "k + sum_list (map fst rest) = sum_list (map fst (arrivals s))" "set rest \<subseteq> set (arrivals s)"
      using poll_arrivals [of "n_acq mod 2 ^ 32" "arrivals s"] p sup True by (auto simp: pending_def coming_def)
    have av: "sub32 (add32 (n_acq mod 2 ^ 32) k) (n_acq mod 2 ^ 32) = k" "add32 (n_acq mod 2 ^ 32) k = (n_acq + k) mod 2 ^ 32"
      using sub32_add [OF k(3), of n_acq] by (simp_all add: wadd_def mod_simps)
    have "cb_acquire_pages a s = (let usable = (if k > ?lim then ?lim else k)
      in Inr (usable, emit (Pages_acquired usable) (s\<lparr>upstream_count := (n_acq + k) mod 2 ^ 32, l1 := m, arrivals := rest,
           upstream_total_acquired_page_count := add32 (n_acq mod 2 ^ 32) usable\<rparr>)))"
      using k(1) eq be us av by (simp add: cb_acquire_pages_def Let_def l)
    moreover have "k + sum_list (map fst rest) = coming n_pending s" using k(4) True by (simp add: coming_def)
    ultimately show ?thesis using result [OF k(2,3,5), of m] by simp
  next
    case False
    have ne: "upstream_total_acquired_page_count s \<noteq> upstream_count s"
      using add32_same_iff [of "n_acq mod 2 ^ 32" n_pending] False p l by (auto simp: pending_def wadd_def mod_simps)
    have av: "sub32 (upstream_count s) (n_acq mod 2 ^ 32) = n_pending" using sub32_add p by (simp add: pending_def)
    have same: "s\<lparr>upstream_count := (n_acq + n_pending) mod 2 ^ 32, l1 := l1 s, arrivals := arrivals s,
        upstream_total_acquired_page_count := x\<rparr> = s\<lparr>upstream_total_acquired_page_count := x\<rparr>" for x
      using p by (simp add: pending_def)
    have "cb_acquire_pages a s = (let usable = (if n_pending > ?lim then ?lim else n_pending)
      in Inr (usable, emit (Pages_acquired usable) (s\<lparr>upstream_count := (n_acq + n_pending) mod 2 ^ 32, l1 := l1 s,
           arrivals := arrivals s, upstream_total_acquired_page_count := add32 (n_acq mod 2 ^ 32) usable\<rparr>)))"
      unfolding same using ne be us av by (simp add: cb_acquire_pages_def Let_def l)
    moreover have "n_pending + sum_list (map fst (arrivals s)) = coming n_pending s" by (simp add: coming_def)
    ultimately show ?thesis using result [of n_pending "arrivals s" "l1 s"] False p by (simp add: pending_def)
  qed
qed

subsection \<open>The position in the stream\<close>

text \<open>The bytes the prefetcher sends form a stream; byte \<open>off\<close> of it lies at \<open>off\<close> modulo the size of the ring.
  \<open>at_stream\<close> places a pointer of the kernel at an offset of the stream, inside what is acquired of the current block.\<close>

definition ring_size :: "Dispatch_args \<Rightarrow> nat" where
  "ring_size a = dispatch_cb_page_size a * dispatch_cb_pages a"

definition block_size :: "Dispatch_args \<Rightarrow> nat" where
  "block_size a = dispatch_cb_page_size a * block_pages a"

definition at_stream :: "Dispatch_args \<Rightarrow> nat \<Rightarrow> nat \<Rightarrow> nat \<Rightarrow> nat \<Rightarrow> Dispatcher \<Rightarrow> bool" where
  "at_stream a n_acq n_blk ptr off s \<longleftrightarrow> ring_config a \<and> ring_inv a n_acq n_blk s \<and> n_blk * block_size a \<le> off \<and>
     off \<le> dispatch_cb_page_size a * n_acq \<and> ptr + (dispatch_cb_page_size a * n_acq - off) = cb_fence s"

definition ring_address :: "Dispatch_args \<Rightarrow> nat \<Rightarrow> nat" where
  "ring_address a off = dispatch_cb_base a + off mod ring_size a"

lemma block_in_ring:
  assumes c: "ring_config a"
  shows "n_blk * block_size a mod ring_size a = n_blk mod dispatch_cb_blocks a * block_size a" and "0 < block_size a"
    and "ring_size a = dispatch_cb_blocks a * block_size a"
proof -
  note f = ring_config_facts [OF c]
  show s: "ring_size a = dispatch_cb_blocks a * block_size a"
    using f(3) by (simp add: ring_size_def block_size_def ac_simps flip: f(3))
  show "n_blk * block_size a mod ring_size a = n_blk mod dispatch_cb_blocks a * block_size a"
    unfolding s by (rule mult_mod_left [symmetric, of n_blk "block_size a"])
  show "0 < block_size a" using f by (simp add: block_size_def)
qed

lemma at_stream_address:
  assumes at: "at_stream a n_acq n_blk ptr off s" and i: "off + i < dispatch_cb_page_size a * n_acq"
  shows "ptr + i = ring_address a (off + i)"
proof -
  have c: "ring_config a" and inv: "ring_inv a n_acq n_blk s" using at by (simp_all add: at_stream_def)
  note f = ring_config_facts [OF c] and r = block_in_ring [OF c]
  obtain d where d: "n_acq = n_blk * block_pages a + d" "d \<le> block_pages a"
      "cb_fence s = page_addr a (rd_block_idx s * block_pages a + d)"
    using inv by (rule ring_inv_offset)
  have rd: "rd_block_idx s = n_blk mod dispatch_cb_blocks a" using inv by (simp add: ring_inv_def)
  let ?p = "dispatch_cb_page_size a"
  obtain x where x: "off = n_blk * block_size a + x" using at le_Suc_ex by (auto simp: at_stream_def)
  have pa: "?p * n_acq = n_blk * block_size a + ?p * d" by (simp add: d(1) block_size_def algebra_simps)
  have xd: "x + i < ?p * d" using i pa x by simp
  have "?p * d \<le> block_size a" using d(2) by (simp add: block_size_def)
  then have xb: "x + i < block_size a" using xd by simp
  have "n_blk mod dispatch_cb_blocks a + 1 \<le> dispatch_cb_blocks a" using f(1) by (simp add: Suc_leI)
  then have "(n_blk mod dispatch_cb_blocks a + 1) * block_size a \<le> ring_size a" unfolding r(3) by (rule mult_le_mono1)
  then have lt: "n_blk mod dispatch_cb_blocks a * block_size a + (x + i) < ring_size a" using xb by simp
  have "(off + i) mod ring_size a = (n_blk * block_size a mod ring_size a + (x + i)) mod ring_size a"
    by (simp add: x mod_simps add.assoc)
  also have "\<dots> = n_blk mod dispatch_cb_blocks a * block_size a + (x + i)" unfolding r(1) using lt by simp
  finally have m: "ring_address a (off + i) = dispatch_cb_base a + n_blk mod dispatch_cb_blocks a * block_size a + (x + i)"
    by (simp add: ring_address_def)
  have "ptr + (?p * d - x) = dispatch_cb_base a + n_blk mod dispatch_cb_blocks a * block_size a + ?p * d"
    using at pa x d(3) rd by (simp add: at_stream_def page_addr_def block_size_def algebra_simps)
  then show ?thesis unfolding m using xd by simp
qed

lemma at_stream_copies:
  assumes "at_stream a n_acq n_blk ptr off s" and "off + n \<le> dispatch_cb_page_size a * n_acq"
  shows "copies xy ptr dst n = map (\<lambda>i. (ring_address a (off + i), xy, dst + i)) [0..<n]"
  unfolding copies_def using at_stream_address [OF assms(1)] assms(2) by (intro map_cong) auto

lemma at_stream_forward:
  assumes "at_stream a n_acq n_blk ptr off s" and "off + n \<le> dispatch_cb_page_size a * n_acq"
  shows "at_stream a n_acq n_blk (ptr + n) (off + n) s"
  using assms by (simp add: at_stream_def)

lemma at_stream_bounds:
  assumes "at_stream a n_acq n_blk ptr off s"
  shows "sub32 (cb_fence s) ptr = dispatch_cb_page_size a * n_acq - off" and "cb_fence s < 2 ^ 32"
    and "ptr + (dispatch_cb_page_size a * n_acq - off) = cb_fence s"
proof -
  have c: "ring_config a" and i: "ring_inv a n_acq n_blk s" and e: "ptr + (dispatch_cb_page_size a * n_acq - off) = cb_fence s"
    using assms by (simp_all add: at_stream_def)
  obtain d where d: "d \<le> block_pages a" "cb_fence s = page_addr a (rd_block_idx s * block_pages a + d)"
    using i by (rule ring_inv_offset)
  have "rd_block_idx s < dispatch_cb_blocks a" using i ring_config_facts(1) [OF c] by (simp add: ring_inv_def)
  then show lt: "cb_fence s < 2 ^ 32"
    unfolding d(2) using page_addr_less [OF c] block_in_pages [OF c] d(1) by fastforce
  show "sub32 (cb_fence s) ptr = dispatch_cb_page_size a * n_acq - off" using e lt by (simp add: wsub_id flip: e)
  show "ptr + (dispatch_cb_page_size a * n_acq - off) = cb_fence s" by (rule e)
qed

subsection \<open>The next pages\<close>

lemma poll_idle:
  assumes "ok 0" and "0 < count_list xs 0"
  shows "\<exists>d rest. poll_until ok xs = Inr (d, rest) \<and> count_list xs 0 \<le> count_list rest 0 + 1"
  using assms(2) by (induction xs) (auto simp: assms(1))

text \<open>\<open>clear_distance\<close> is the number of writes issued since the last block was left.\<close>

definition clear_distance :: "Dispatcher \<Rightarrow> nat" where
  "clear_distance s = sub32 (writes_num_issued s) (block_noc_writes_to_clear s)"

text \<open>What a step leaves alone: \<open>same_data\<close> for the data sent, the registers and the pages coming.\<close>

definition same_data :: "Dispatcher \<Rightarrow> Dispatcher \<Rightarrow> bool" where
  "same_data s s' \<longleftrightarrow> delivered s' = delivered s \<and> noc_regs s' = noc_regs s \<and> writes_num_issued s' = writes_num_issued s"

lemma release_returns:
  assumes z: "0 < count_list (in_flight t) 0" and cd: "clear_distance t < 2 ^ 31" and w: "writes_num_issued t < 2 ^ 32"
  shows "\<exists>u. move_rd_to_next_block_and_release_pages a t = Inr u \<and> same_data t u \<and> arrivals u = arrivals t \<and>
    upstream_count u = upstream_count t \<and> count_list (in_flight t) 0 \<le> count_list (in_flight u) 0 + 1 \<and> clear_distance u = 0"
proof -
  have z0: "sub32 (writes_num_issued t) 0 = writes_num_issued t" "sub32 (writes_num_issued t) (writes_num_issued t) = 0"
    using w by (simp_all add: wsub_id)
  have "wrap_ge (sub32 (writes_num_issued t) 0) (block_noc_writes_to_clear t)"
    unfolding z0 using cd by (simp add: wrap_ge_def clear_distance_def)
  then obtain d rest where p: "poll_until (\<lambda>d. wrap_ge (sub32 (writes_num_issued t) d) (block_noc_writes_to_clear t)) (in_flight t) = Inr (d, rest)"
      "count_list (in_flight t) 0 \<le> count_list rest 0 + 1"
    using poll_idle [where ok = "\<lambda>d. wrap_ge (sub32 (writes_num_issued t) d) (block_noc_writes_to_clear t)", OF _ z] by blast
  let ?t = "emit (Semaphore_inc Upstream_cb_sem (block_pages a)) (t\<lparr>in_flight := rest\<rparr>)"
  have "cb_block_release_pages a t = Inr ((if prev_block t then ?t else t\<lparr>prev_block := True\<rparr>)\<lparr>block_noc_writes_to_clear := writes_num_issued t\<rparr>)"
    using p(1) by (simp add: cb_block_release_pages_def emit_def)
  then show ?thesis using p(2) z0(2)
    by (simp add: move_rd_to_next_block_and_release_pages_def move_rd_to_next_block_def same_data_def delivered_def emit_def
        clear_distance_def)
qed

text \<open>What a linear write needs to finish: the pages of its data come, and the NOC falls idle as often as a block is left.\<close>

definition can_write :: "Dispatch_args \<Rightarrow> nat \<Rightarrow> nat \<Rightarrow> nat \<Rightarrow> nat \<Rightarrow> nat \<Rightarrow> Dispatcher \<Rightarrow> bool" where
  "can_write a n_acq n_blk n_pending off len s \<longleftrightarrow> pending n_acq n_pending s \<and>
     off + len \<le> dispatch_cb_page_size a * (n_acq + coming n_pending s) \<and>
     off + len \<le> block_size a * (n_blk + 1 + count_list (in_flight s) 0) \<and>
     clear_distance s + len < 2 ^ 31 \<and> writes_num_issued s < 2 ^ 32"

lemma acquire_fence_some:
  assumes i: "ring_inv a n_acq n_blk s" and c: "ring_config a" and p: "pending n_acq np s" and sup: "0 < coming np s"
    and room: "n_acq < (n_blk + 1) * block_pages a"
  shows "\<exists>n np' s'. acquire_into_fence a s = Inr s' \<and> 0 < n \<and> ring_inv a (n_acq + n) n_blk s' \<and> pending (n_acq + n) np' s' \<and>
    coming np' s' + n = coming np s \<and> same_data s s' \<and> in_flight s' = in_flight s \<and> clear_distance s' = clear_distance s"
proof -
  obtain n np' m uc rest where acq: "cb_acquire_pages a s = Inr (n, emit (Pages_acquired n) (s\<lparr>upstream_count := uc, l1 := m, arrivals := rest,
      upstream_total_acquired_page_count := (n_acq + n) mod 2 ^ 32\<rparr>))" "0 < n" "uc = (n_acq + n + np') mod 2 ^ 32" "np' < 2 ^ 32"
      "set rest \<subseteq> set (arrivals s)" "np' + sum_list (map fst rest) + n = coming np s"
    using acquire_some [OF i c p sup room] by blast
  obtain s' where s': "acquire_into_fence a s = Inr s'"
      "s' = (emit (Pages_acquired n) (s\<lparr>upstream_count := uc, l1 := m, arrivals := rest,
         upstream_total_acquired_page_count := (n_acq + n) mod 2 ^ 32\<rparr>))\<lparr>cb_fence := add32 (cb_fence s) (mul32 n (dispatch_cb_page_size a))\<rparr>"
    using acq(1) by (simp add: acquire_into_fence_def emit_def)
  obtain n' where n': "ring_inv a (n_acq + n') n_blk s'" using acquire_into_fence_inv [OF i c s'(1)] by blast
  have "acquired_pages s' = acquired_pages s + n" by (simp add: s'(2) acquired_pages_def emit_def)
  then have "n' = n" using n' i by (simp add: ring_inv_def)
  then show ?thesis using acq(2-6) p n' s'
    by (intro exI [of _ n] exI [of _ np'] exI [of _ s'])
       (auto simp: pending_def coming_def same_data_def delivered_def emit_def clear_distance_def)
qed

lemma get_page_some:
  assumes at: "at_stream a n_acq n_blk ptr off s" and full: "cb_fence s = ptr" and can: "can_write a n_acq n_blk np off len s" and len: "0 < len"
  shows "\<exists>n_acq' n_blk' np' ptr' s'. get_cb_page_and_release_pages a ptr s = Inr (ptr', s') \<and> at_stream a n_acq' n_blk' ptr' off s' \<and>
    off < dispatch_cb_page_size a * n_acq' \<and> can_write a n_acq' n_blk' np' off len s' \<and> same_data s s'"
proof -
  have c: "ring_config a" and i: "ring_inv a n_acq n_blk s" using at by (simp_all add: at_stream_def)
  note f = ring_config_facts [OF c]
  have off: "off = dispatch_cb_page_size a * n_acq" using at full by (simp add: at_stream_def)
  have p: "pending n_acq np s" and sup: "len \<le> dispatch_cb_page_size a * coming np s"
    using can off by (simp_all add: can_write_def add_mult_distrib2)
  have sup0: "0 < coming np s" using sup len by (intro gr0I) simp
  have rd: "rd_block_idx s < dispatch_cb_blocks a" using i f(1) by (simp add: ring_inv_def)
  note be = block_next_start [OF c rd]
  show ?thesis
  proof (cases "n_acq = (n_blk + 1) * block_pages a")
    case False
    have room: "n_acq < (n_blk + 1) * block_pages a" using False i by (simp add: ring_inv_def)
    then have ne: "cb_fence s \<noteq> page_addr a ((rd_block_idx s + 1) * block_pages a)" using fence_at_end [OF i c] by simp
    obtain n np' s' where s': "acquire_into_fence a s = Inr s'" "0 < n" "ring_inv a (n_acq + n) n_blk s'" "pending (n_acq + n) np' s'"
        "coming np' s' + n = coming np s" "same_data s s'" "in_flight s' = in_flight s" "clear_distance s' = clear_distance s"
      using acquire_fence_some [OF i c p sup0 room] by blast
    obtain d where d: "n_acq = n_blk * block_pages a + d" "d \<le> block_pages a" "cb_fence s = page_addr a (rd_block_idx s * block_pages a + d)"
      using i by (rule ring_inv_offset)
    have "cb_fence s' = page_addr a (rd_block_idx s * block_pages a + d + n)"
      using s'(3) i by (simp add: ring_inv_def d(1) add.assoc)
    then have "cb_fence s' = ptr + dispatch_cb_page_size a * n" unfolding full [symmetric] d(3)
      by (simp add: page_addr_def algebra_simps)
    then have "at_stream a (n_acq + n) n_blk ptr off s'"
      using c s'(3) at by (simp add: at_stream_def off add_mult_distrib2)
    moreover have e: "n_acq + n + coming np' s' = n_acq + coming np s" using s'(5) by simp
    have "can_write a (n_acq + n) n_blk np' off len s'"
      using can s'(4,6-8) unfolding can_write_def same_data_def e by simp
    ultimately show ?thesis using be ne s'(1,2,6) off f(4)
      by (intro exI [of _ "n_acq + n"] exI [of _ n_blk] exI [of _ np'] exI [of _ ptr] exI [of _ s'])
         (simp add: get_cb_page_and_release_pages_def)
  next
    case True
    then have eq: "cb_fence s = page_addr a ((rd_block_idx s + 1) * block_pages a)" using fence_at_end [OF i c] by simp
    let ?t = "wrapped_fence a s"
    have t: "in_flight ?t = in_flight s" "clear_distance ?t = clear_distance s" "writes_num_issued ?t = writes_num_issued s"
        "same_data s ?t" "arrivals ?t = arrivals s" "upstream_count ?t = upstream_count s"
      by (simp_all add: wrapped_fence_def clear_distance_def same_data_def delivered_def)
    have bo: "block_size a * (n_blk + 1) = off" unfolding off by (simp add: True block_size_def ac_simps)
    then have "0 < count_list (in_flight s) 0" using can len by (intro gr0I) (simp add: can_write_def)
    moreover have "clear_distance s < 2 ^ 31" "writes_num_issued s < 2 ^ 32" using can by (simp_all add: can_write_def)
    ultimately obtain u where u: "move_rd_to_next_block_and_release_pages a ?t = Inr u" "same_data ?t u" "arrivals u = arrivals s"
        "upstream_count u = upstream_count s" "count_list (in_flight s) 0 \<le> count_list (in_flight u) 0 + 1" "clear_distance u = 0"
      using release_returns [of ?t a] t by auto
    have iu: "ring_inv a n_acq (n_blk + 1) u" by (rule leave_block_inv [OF i c True ring_same_refl u(1)])
    have pu: "pending n_acq np u" "coming np u = coming np s" using p u(3,4) by (simp_all add: pending_def coming_def)
    have room: "n_acq < (n_blk + 1 + 1) * block_pages a" using True f(2) by simp
    obtain n np' s' where s': "acquire_into_fence a u = Inr s'" "0 < n" "ring_inv a (n_acq + n) (n_blk + 1) s'" "pending (n_acq + n) np' s'"
        "coming np' s' + n = coming np s" "same_data u s'" "in_flight s' = in_flight u" "clear_distance s' = clear_distance u"
      using acquire_fence_some [OF iu c pu(1) _ room] sup0 pu(2) by auto
    define ptr' where "ptr' = (if rd_block_idx s = sub32 (dispatch_cb_blocks a) 1 then dispatch_cb_base a else ptr)"
    have "cb_fence s' = page_addr a (Suc n_blk mod dispatch_cb_blocks a * block_pages a + n)"
      using s'(3) by (simp add: ring_inv_def True)
    moreover have "ptr' = page_addr a (Suc n_blk mod dispatch_cb_blocks a * block_pages a)"
    proof -
      have last: "sub32 (dispatch_cb_blocks a) 1 = dispatch_cb_blocks a - 1" using f(1,6) by (simp add: wsub_id)
      have "Suc n_blk mod dispatch_cb_blocks a = (if rd_block_idx s = dispatch_cb_blocks a - 1 then 0 else rd_block_idx s + 1)"
        using i f(1) by (auto simp: ring_inv_def mod_Suc)
      then show ?thesis using eq
        by (cases "rd_block_idx s = dispatch_cb_blocks a - 1") (simp_all add: ptr'_def last page_addr_def del: One_nat_def flip: full)
    qed
    ultimately have pt: "cb_fence s' = ptr' + dispatch_cb_page_size a * n" by (simp add: page_addr_def algebra_simps)
    have "at_stream a (n_acq + n) (n_blk + 1) ptr' off s'"
      using c s'(3) pt bo by (simp add: at_stream_def off add_mult_distrib2 ac_simps)
    moreover have "can_write a (n_acq + n) (n_blk + 1) np' off len s'"
    proof -
      have "block_size a * (n_blk + 1 + count_list (in_flight s) 0) \<le> block_size a * (n_blk + 1 + 1 + count_list (in_flight s') 0)"
        using u(5) s'(7) by (intro mult_le_mono2) simp
      moreover have e: "n_acq + n + coming np' s' = n_acq + coming np s" using s'(5) by simp
      ultimately show ?thesis using can s'(4,6,8) u(2,6) t(4)
        unfolding can_write_def same_data_def e by simp
    qed
    moreover have "get_cb_page_and_release_pages a ptr s = Inr (ptr', s')"
      using be eq u(1) s'(1) by (simp add: get_cb_page_and_release_pages_def Let_def wrapped_fence_def ptr'_def)
    moreover have "same_data s s'" using t(4) u(2) s'(6) by (simp add: same_data_def)
    moreover have "off < dispatch_cb_page_size a * (n_acq + n)" using off s'(2) f(4) by simp
    ultimately show ?thesis by blast
  qed
qed

subsection \<open>The loop\<close>

lemma sends_facts:
  assumes "sends xy bs s s'"
  shows "ring_same s s'" "delivered s' = delivered s @ bs" "ret_addr_coordinate (noc_regs s') = To_core xy"
    "can_write a n_acq n_blk np off len s' = can_write a n_acq n_blk np off len s" "writes_num_issued s' = writes_num_issued s"
proof -
  obtain r xs where s': "s' = s\<lparr>noc_regs := r, ops := ops s @ xs\<rparr>" "ret_addr_coordinate r = To_core xy" "list_all data_op xs"
      "concat (map op_bytes xs) = bs"
    using assms by (auto simp: sends_def)
  have "sum_list (map op_acquired xs) = 0" "sum_list (map op_released xs) = 0"
    using s'(3) by (induction xs) (simp_all add: data_op_def)
  then show "ring_same s s'" "delivered s' = delivered s @ bs" "ret_addr_coordinate (noc_regs s') = To_core xy"
    "can_write a n_acq n_blk np off len s' = can_write a n_acq n_blk np off len s" "writes_num_issued s' = writes_num_issued s"
    using s'(2,4) by (simp_all add: s'(1) ring_same_def acquired_pages_def released_pages_def delivered_def can_write_def pending_def
        coming_def clear_distance_def)
qed

lemma clear_distance_count:
  assumes "clear_distance s + n < 2 ^ 32"
  shows "clear_distance (count_writes n k s) = clear_distance s + n"
proof -
  have "((x + n) mod 2 ^ 32 + k) mod 2 ^ 32 = ((x + k) mod 2 ^ 32 + n) mod 2 ^ 32" for x k :: nat
    by (simp add: mod_add_left_eq mod_add_right_eq ac_simps)
  then have "sub32 (add32 x n) y = (sub32 x y + n) mod 2 ^ 32" for x y
    unfolding wadd_def wsub_def by blast
  then show ?thesis using assms by (simp add: clear_distance_def count_writes_def)
qed

lemma packets_le:
  assumes "0 < b" and "b < 2 ^ 31" and "0 < n" and "n < 2 ^ 31"
  shows "div_up32 n b \<le> n"
proof -
  have "div_up32 n b = (n + b - 1) div b" using assms by (simp add: div_up32_def nowrap)
  also have "\<dots> \<le> n"
  proof (cases b)
    case (Suc c)
    have "n + c \<le> n * Suc c" using assms(3) by (cases n) simp_all
    then show ?thesis using div_le_mono [of "n + c" "n * Suc c" "Suc c"] by (simp add: Suc del: mult_Suc_right)
  qed (use assms(1) in simp)
  finally show ?thesis .
qed

lemma can_write_forward:
  assumes can: "can_write a n_acq n_blk np off len s" and n: "n \<le> len" and k: "k \<le> n"
  shows "can_write a n_acq n_blk np (off + n) (len - n) (count_writes k j s)"
proof -
  have "clear_distance (count_writes k j s) = clear_distance s + k"
    by (rule clear_distance_count) (use can n k in \<open>simp add: can_write_def\<close>)
  moreover have "writes_num_issued (count_writes k j s) < 2 ^ 32" by (simp add: count_writes_def wadd_def)
  moreover have "clear_distance s + k + (len - n) < 2 ^ 31" "off + n + (len - n) = off + len"
    using can n k unfolding can_write_def by linarith+
  ultimately show ?thesis using can
    by (simp add: can_write_def) (simp add: pending_def coming_def count_writes_def)
qed

lemma at_stream_same: "at_stream a n_acq n_blk ptr off s \<Longrightarrow> ring_same s s' \<Longrightarrow> at_stream a n_acq n_blk ptr off s'"
  using ring_inv_same by (auto simp: at_stream_def ring_same_def)

lemma at_stream_count [simp]: "at_stream a n_acq n_blk ptr off (count_writes k j s) = at_stream a n_acq n_blk ptr off s"
  by (simp add: at_stream_def count_writes_def ring_inv_def acquired_pages_def released_pages_def)

lemma write_linear_loop_delivers:
  assumes "len < fuel" and "at_stream a n_acq n_blk ptr off s" and "can_write a n_acq n_blk np off len s"
    and "ret_addr_coordinate (noc_regs s) = To_core xy" and "0 < noc_max_burst_size a" and "noc_max_burst_size a < 2 ^ 31"
    and "dst + len < 2 ^ 32"
  shows "\<exists>s' n_acq' n_blk'. write_linear_loop a nd fuel len ptr dst s = Inr s' \<and>
    delivered s' = delivered s @ map (\<lambda>i. (ring_address a (off + i), xy, dst + i)) [0..<len] \<and>
    at_stream a n_acq' n_blk' (cmd_ptr s') (off + len) s'"
  using assms
proof (induction fuel arbitrary: len n_acq n_blk np ptr off dst s)
  case (Suc fuel)
  show ?case
  proof (cases "len = 0")
    case True
    have "at_stream a n_acq n_blk ptr off (s\<lparr>cmd_ptr := ptr\<rparr>)"
      using Suc.prems(2) by (simp add: at_stream_def ring_inv_def acquired_pages_def released_pages_def)
    then show ?thesis using True by (intro exI [of _ "s\<lparr>cmd_ptr := ptr\<rparr>"]) (auto simp: delivered_def)
  next
    case False
    have "\<exists>n_acq' n_blk' np' ptr' s'. (if cb_fence s = ptr then get_cb_page_and_release_pages a ptr s else Inr (ptr, s)) = Inr (ptr', s') \<and>
        at_stream a n_acq' n_blk' ptr' off s' \<and> off < dispatch_cb_page_size a * n_acq' \<and> can_write a n_acq' n_blk' np' off len s' \<and> same_data s s'"
    proof (cases "cb_fence s = ptr")
      case True
      then show ?thesis using get_page_some [OF Suc.prems(2) True Suc.prems(3)] False by auto
    next
      case ne: False
      then have "off < dispatch_cb_page_size a * n_acq" using Suc.prems(2) by (auto simp: at_stream_def intro: ccontr)
      then show ?thesis using ne Suc.prems(2,3) by (auto simp: same_data_def)
    qed
    then obtain A B np' ptr1 s1 where s1: "(if cb_fence s = ptr then get_cb_page_and_release_pages a ptr s else Inr (ptr, s)) = Inr (ptr1, s1)"
        "at_stream a A B ptr1 off s1" "off < dispatch_cb_page_size a * A" "can_write a A B np' off len s1" "same_data s s1"
      by blast
    note b = at_stream_bounds [OF s1(2)]
    define n where "n = (if len > dispatch_cb_page_size a * A - off then dispatch_cb_page_size a * A - off else len)"
    have n: "0 < n" "n \<le> len" "off + n \<le> dispatch_cb_page_size a * A" using False s1(3) by (auto simp: n_def)
    have small: "ptr1 + n < 2 ^ 32" "dst + n < 2 ^ 32" "len < 2 ^ 31" using b(2,3) n s1(4) Suc.prems(7) by (simp_all add: can_write_def)
    have coord: "ret_addr_coordinate (noc_regs s1) = To_core xy" using s1(5) Suc.prems(4) by (simp add: same_data_def)
    obtain s2 where s2: "cq_noc_async_write_with_state_any_len a True ptr1 dst n s1 = Inr (0, s2)" "sends xy (copies xy ptr1 dst n) s1 s2"
      using any_len_sends [OF coord Suc.prems(5) small(1,2)] by blast
    note f2 = sends_facts [OF s2(2)]
    let ?k = "div_up32 n (noc_max_burst_size a)"
    let ?s3 = "count_writes ?k (mul32 nd ?k) s2"
    have k: "?k \<le> n" using packets_le [OF Suc.prems(5,6) n(1)] n(2) small(3) by simp
    have at3: "at_stream a A B (ptr1 + n) (off + n) ?s3"
      using at_stream_same [OF at_stream_forward [OF s1(2) n(3)] f2(1)] by simp
    have can3: "can_write a A B np' (off + n) (len - n) ?s3"
      using s1(4) n(2) k by (intro can_write_forward) (simp_all add: f2(4))
    have nw: "add32 ptr1 n = ptr1 + n" "add32 dst n = dst + n" "sub32 len n = len - n"
      using small n(2) by (simp_all add: nowrap)
    have coord3: "ret_addr_coordinate (noc_regs ?s3) = To_core xy" using f2(3) by (simp add: count_writes_def)
    have step: "write_linear_loop a nd (Suc fuel) len ptr dst s = write_linear_loop a nd fuel (len - n) (ptr1 + n) (dst + n) ?s3"
      unfolding write_linear_loop.simps s1(1) rbind_Inr prod.case b(1) Let_def n_def [symmetric] s2(1) nw using False by simp
    obtain s' A' B' where s': "write_linear_loop a nd fuel (len - n) (ptr1 + n) (dst + n) ?s3 = Inr s'"
        "delivered s' = delivered ?s3 @ map (\<lambda>i. (ring_address a (off + n + i), xy, dst + n + i)) [0..<len - n]"
        "at_stream a A' B' (cmd_ptr s') (off + n + (len - n)) s'"
      using Suc.IH [OF _ at3 can3 coord3 Suc.prems(5,6), of "dst + n"] Suc.prems(1,7) n by fastforce
    have "[0..<len] = [0..<n] @ map (\<lambda>i. i + n) [0..<len - n]"
      using n(2) upt_add_eq_append [of 0 n "len - n"] by (simp add: map_add_upt)
    then have "delivered s' = delivered s @ map (\<lambda>i. (ring_address a (off + i), xy, dst + i)) [0..<len]"
      using s'(2) f2(2) at_stream_copies [OF s1(2) n(3)] s1(5)
      by (simp add: count_writes_def delivered_def same_data_def comp_def ac_simps)
    then show ?thesis using s'(1,3) n(2) unfolding step by auto
  qed
qed simp

end
