(* ===== verification/Dispatch_Props.thy ===== *)
theory Dispatch_Props
  imports Dispatch_Deliver "HOL-Library.Code_Target_Nat"
begin

text \<open>
  The properties of the dispatch kernel: the accounting of the pages of its ring, the return of all pages when it terminates, and the
  delivery of a linear write the host has encoded.
\<close>

subsection \<open>The accounting of pages\<close>

text \<open>(C7) After any sequence of commands, whatever their bytes, the dispatch kernel has given back whole blocks only, never more pages than it
  has acquired, and holds at most two blocks; its 32-bit counter is the number of acquired pages modulo \<open>2 ^ 32\<close>, and its fence is
  in the ring at that number of pages modulo the size of the ring.\<close>

theorem dispatch_accounts_for_pages:
  assumes c: "ring_config a" and run: "dispatch_run a s"
  shows "released_pages s \<le> acquired_pages s \<and> acquired_pages s \<le> released_pages s + 2 * dispatch_cb_pages_per_block a \<and>
    dispatch_cb_pages_per_block a dvd released_pages s \<and>
    upstream_total_acquired_page_count s = acquired_pages s mod 2 ^ 32 \<and>
    (\<exists>n\<le>dispatch_cb_pages a. cb_fence s = dispatch_cb_base a + dispatch_cb_page_size a * n \<and>
       n mod dispatch_cb_pages a = acquired_pages s mod dispatch_cb_pages a)"
proof -
  obtain n_acq n_blk where i: "ring_inv a n_acq n_blk s" using dispatch_run_ok [OF run c] by (auto simp: ring_ok_def)
  note f = ring_config_facts [OF c]
  obtain d where d: "n_acq = n_blk * block_pages a + d" "d \<le> block_pages a" "cb_fence s = page_addr a (rd_block_idx s * block_pages a + d)"
    using i by (rule ring_inv_offset)
  have rd: "rd_block_idx s = n_blk mod dispatch_cb_blocks a" "rd_block_idx s < dispatch_cb_blocks a" using i f(1) by (simp_all add: ring_inv_def)
  let ?n = "rd_block_idx s * block_pages a + d"
  have "?n \<le> dispatch_cb_pages a" using block_in_pages [OF c rd(2)] d(2) by simp
  moreover have "rd_block_idx s * block_pages a = n_blk * block_pages a mod dispatch_cb_pages a"
    unfolding rd(1) f(3) [symmetric] by (rule mult_mod_left)
  then have "?n mod dispatch_cb_pages a = n_acq mod dispatch_cb_pages a" by (simp add: d(1) mod_add_left_eq)
  moreover have "acquired_pages s = n_acq" "released_pages s = (n_blk - 1) * block_pages a"
      "upstream_total_acquired_page_count s = n_acq mod 2 ^ 32"
    using i by (simp_all add: ring_inv_def)
  ultimately show ?thesis using d by (cases n_blk) (auto simp: page_addr_def intro!: exI [of _ ?n])
qed

text \<open>A ring of eight pages of 32 bytes in four blocks, at address 4096, for the witnesses.\<close>

definition example_args :: Dispatch_args where
  "example_args = \<lparr>dispatch_cb_base = 4096, dispatch_cb_log_page_size = 5, dispatch_cb_pages = 8, dispatch_cb_blocks = 4,
     da_completion_queue_base_addr = 0, da_completion_queue_size = 0, command_queue_base_addr = 0, host_completion_q_wr_ptr = 0,
     dev_completion_q_wr_ptr = 0, downstream_cb_base = 8192, downstream_cb_size = 4096, downstream_noc_xy = 7, split_prefetch = False,
     prefetch_h_max_credits = 0, packed_write_max_unicast_sub_cmds = 64, worker_mcast_grid = 0, mcast_go_signal_addr = 0,
     unicast_go_signal_addr = 0, dispatch_s_noc_xy = 0, dispatch_s_sem_addr = 0, distributed_dispatcher = False,
     is_d_variant = True, is_h_variant = True, split_dispatch_page_preamble_size = 0, noc_max_burst_size = 8192, da_l1_alignment = 16\<rparr>"

definition example_dispatcher :: "(nat \<times> mem) list \<Rightarrow> nat list \<Rightarrow> Dispatcher" where
  "example_dispatcher arr fl = \<lparr>rd_block_idx = 0, cb_fence = 0, cmd_ptr = 0, downstream_cb_data_ptr = 8192, write_offset = [0, 0, 0],
     upstream_total_acquired_page_count = 0, upstream_count = 0, prev_block = False, block_noc_writes_to_clear = 0,
     writes_num_issued = 0, writes_acked = 0, completion_fifo_wr_ptr = 0, completion_fifo_wr_toggle = 0,
     unicast_only_cores = replicate 16 0, num_unicast_cores = -1, num_go_signals_safe_to_send = 1,
     noc_regs = \<lparr>targ_addr_lo = 0, ret_addr_lo = 0, ret_addr_coordinate = To_core 0, at_len_be = 0, ctrl_mcast = False, ctrl_linked = False\<rparr>,
     l1 = (\<lambda>_. 0), arrivals = arr, in_flight = fl, completion_rd_reads = [], downstream_sem_reads = [], worker_sem_reads = [], ops = []\<rparr>"

lemma example_config: "ring_config example_args"
  by (simp add: ring_config_def example_args_def dispatch_cb_page_size_def) (rule exI [of _ 2], simp)

lemma example_loaded: "dispatch_loaded (example_dispatcher arr fl)"
  by (simp add: dispatch_loaded_def example_dispatcher_def)

text \<open>A page whose first command is to terminate.\<close>

definition terminate_page :: mem where
  "terminate_page = store_bytes 4096 [14] (\<lambda>_. 0)"

definition terminate_round :: "(bool \<times> Dispatcher) result" where
  "terminate_round = dispatch_round example_args 1
     (dispatch_init example_args 0 (example_dispatcher [(0, terminate_page), (1, terminate_page), (0, terminate_page)] [0]))"

lemma terminate_round_ends:
  "case terminate_round of Inl e \<Rightarrow> False
   | Inr (d, s) \<Rightarrow> d \<and> acquired_pages s = 1 \<and> cmd_ptr s = cb_fence s \<and> in_flight s = [0] \<and> map fst (arrivals s) = [0] \<and>
       wrap_ge (writes_num_issued s) (block_noc_writes_to_clear s)"
  by code_simp

theorem dispatch_accounts_for_pages_witness:
  "\<exists>s. dispatch_run example_args s \<and> acquired_pages s = 1 \<and> released_pages s \<le> 1 \<and> 2 dvd released_pages s"
proof -
  obtain d s where s: "terminate_round = Inr (d, s)" "acquired_pages s = 1"
    using terminate_round_ends by (auto split: sum.splits)
  have run: "dispatch_run example_args s"
    by (rule dispatch_next [OF dispatch_start [OF example_loaded] s(1) [unfolded terminate_round_def]])
  then show ?thesis using dispatch_accounts_for_pages [OF example_config run] s(2)
    by (auto simp: dispatch_cb_pages_per_block_def example_args_def)
qed

subsection \<open>Termination of the kernel\<close>

lemma poll_finds:
  assumes "x \<in> set xs" and "ok x"
  shows "\<exists>y rest. poll_until ok xs = Inr (y, rest)"
  using assms by (induction xs) auto

lemma sub32_0: "wrap_ge (sub32 x 0) y = wrap_ge x y"
proof -
  have "sub32 (x mod 2 ^ 32) y = sub32 x y" unfolding wsub_def by (rule mod_add_left_eq)
  moreover have "sub32 x 0 = x mod 2 ^ 32" by (simp add: wsub_def)
  ultimately show ?thesis by (simp add: wrap_ge_def)
qed

text \<open>(C11) When the kernel leaves its loop with all it has acquired consumed, its last waits end as soon as the NOC has sent every
  write and the prefetcher has released nothing more, and then the pages given back are exactly the pages acquired: the
  ring is empty for the next use.  The variant that ends a split path also adds the termination bit.\<close>

theorem dispatch_gives_back_every_page:
  assumes c: "ring_config a" and run: "dispatch_run a s" and consumed: "cmd_ptr s = cb_fence s"
    and sent: "0 \<in> set (in_flight s)" "wrap_ge (writes_num_issued s) (block_noc_writes_to_clear s)" and no_more: "(0, m) \<in> set (arrivals s)"
  shows "\<exists>s'. dispatch_teardown a s = Inr s' \<and>
    released_pages s' = acquired_pages s + (if is_h_variant a \<and> \<not> is_d_variant a then 2 ^ 31 else 0)"
proof -
  obtain n_acq n_blk where i: "ring_inv a n_acq n_blk s" using dispatch_run_ok [OF run c] by (auto simp: ring_ok_def)
  note f = ring_config_facts [OF c]
  have rd: "rd_block_idx s < dispatch_cb_blocks a" using i f(1) by (simp add: ring_inv_def)
  obtain d rest where p: "poll_until (\<lambda>d. wrap_ge (sub32 (writes_num_issued s) d) (block_noc_writes_to_clear s)) (in_flight s) = Inr (d, rest)"
    using poll_finds [where ok = "\<lambda>d. wrap_ge (sub32 (writes_num_issued s) d) (block_noc_writes_to_clear s)", OF sent(1)] sent(2)
    by (auto simp: sub32_0)
  have n: "upstream_total_acquired_page_count s < 2 ^ 32" using i by (simp add: ring_inv_def)
  obtain y rest' where q: "poll_until (\<lambda>(k, _). take_bit 31 (add32 (upstream_total_acquired_page_count s) k) =
      take_bit 31 (upstream_total_acquired_page_count s)) (arrivals s) = Inr (y, rest')"
    using poll_finds [where ok = "\<lambda>(k, _). take_bit 31 (add32 (upstream_total_acquired_page_count s) k) =
      take_bit 31 (upstream_total_acquired_page_count s)", OF no_more] n by (auto simp: nowrap)
  have k: "sub32 (block_pages a) (drop_bit (dispatch_cb_log_page_size a) (sub32 (page_addr a ((rd_block_idx s + 1) * block_pages a)) (cb_fence s))) =
      n_acq - n_blk * block_pages a"
  proof -
    have n: "n_blk * block_pages a \<le> n_acq" "n_acq \<le> (n_blk + 1) * block_pages a" using i by (simp_all add: ring_inv_def)
    then have "sub32 (block_pages a) ((n_blk + 1) * block_pages a - n_acq) = block_pages a - ((n_blk + 1) * block_pages a - n_acq)"
      using f(7) by (intro wsub_id) simp_all
    then show ?thesis unfolding usable_pages [OF i c] using n by simp
  qed
  have r: "released_pages s = (n_blk - 1) * block_pages a" "acquired_pages s = n_acq" "prev_block s = (0 < n_blk)"
      "n_blk * block_pages a \<le> n_acq"
    using i by (simp_all add: ring_inv_def)
  have "\<exists>s'. dispatch_teardown a s = Inr s' \<and> released_pages s' = released_pages s + (if prev_block s then block_pages a else 0) +
      (n_acq - n_blk * block_pages a) + (if is_h_variant a \<and> \<not> is_d_variant a then 2 ^ 31 else 0)"
    using p q k block_next_start [OF c rd]
    by (simp add: dispatch_teardown_def Let_def cb_block_release_pages_def emit_def consumed released_pages_def)
  then show ?thesis using r by (cases n_blk) auto
qed

theorem dispatch_gives_back_every_page_witness:
  "\<exists>s s'. dispatch_run example_args s \<and> dispatch_teardown example_args s = Inr s' \<and> released_pages s' = 1"
proof -
  obtain d s where s: "terminate_round = Inr (d, s)" "acquired_pages s = 1" "cmd_ptr s = cb_fence s" "in_flight s = [0]"
      "map fst (arrivals s) = [0]" "wrap_ge (writes_num_issued s) (block_noc_writes_to_clear s)"
    using terminate_round_ends by (auto split: sum.splits)
  have run: "dispatch_run example_args s"
    by (rule dispatch_next [OF dispatch_start [OF example_loaded] s(1) [unfolded terminate_round_def]])
  obtain m where "(0, m) \<in> set (arrivals s)" using s(5) by (cases "arrivals s") auto
  then show ?thesis using dispatch_gives_back_every_page [OF example_config run s(3) _ s(6)] s(2,4) run
    by (auto simp: example_args_def)
qed

subsection \<open>From the host to the core\<close>

lemma read8_field: "m (x + off) = le_bytes 1 v ! 0 \<Longrightarrow> v < 256 \<Longrightarrow> read8 m (x + off) = v"
  by (simp add: read8_def unat_of_nat)

text \<open>(C6) The host encodes a linear write with \<open>dispatch_fields\<close>; the dispatcher, reading these bytes at the head of its ring, sends exactly the
  bytes that follow the command in the stream, in order and each once, to consecutive addresses of the core, whatever the arrival
  of the pages, the ends of blocks and of the ring and the bursts of the NOC; it returns when the pages come and the NOC falls idle as often as
  a block is left.\<close>

theorem dispatch_write_linear_delivers:
  assumes at: "at_stream a n_acq n_blk (cmd_ptr s) off s" and header: "off + 16 \<le> dispatch_cb_page_size a * n_acq"
    and cmd: "\<And>i. i < 16 \<Longrightarrow> l1 s (cmd_ptr s + i) = fold put_field (dispatch_fields (WriteLinear nd idx xy addr len)) bs ! i"
    and bs: "length bs = 16"
    and fits: "nd < 256" "idx < length (write_offset s)" "idx < 256" "xy < 2 ^ 32" "addr + write_offset s ! idx + len < 2 ^ 32"
    and burst: "0 < noc_max_burst_size a" "noc_max_burst_size a < 2 ^ 31"
    and can: "can_write a n_acq n_blk n_pending (off + 16) len s"
  shows "\<exists>s' n_acq' n_blk'. process_cmd_d a (Suc fuel) s = Inr (False, s') \<and>
    delivered s' = delivered s @ map (\<lambda>i. (ring_address a (off + 16 + i), xy, addr + write_offset s ! idx + i)) [0..<len] \<and>
    at_stream a n_acq' n_blk' (cmd_ptr s') (off + 16 + len) s'"
proof -
  note fld = u8_at_def u16_at_def u32_at_def nth_put_field bs
  have b: "l1 s (cmd_ptr s) = le_bytes 1 1 ! 0" "l1 s (cmd_ptr s + 1) = le_bytes 1 nd ! 0" "l1 s (cmd_ptr s + 2) = le_bytes 1 idx ! 0"
    using cmd [of 0] cmd [of 1] cmd [of 2] by (simp_all add: fld)
  have w: "read32 (l1 s) (cmd_ptr s + 4) = xy" "read32 (l1 s) (cmd_ptr s + 8) = addr" "read32 (l1 s) (cmd_ptr s + 12) = len"
    using read32_le_bytes [of "l1 s" "cmd_ptr s + 4" xy] read32_le_bytes [of "l1 s" "cmd_ptr s + 8" addr]
      read32_le_bytes [of "l1 s" "cmd_ptr s + 12" len] cmd fits
    by (simp_all add: add.assoc fld)
  have r: "read8 (l1 s) (cmd_ptr s) = 1" "read8 (l1 s) (cmd_ptr s + 1) = nd" "read8 (l1 s) (cmd_ptr s + 2) = idx"
    using b fits read8_field [of "l1 s" "cmd_ptr s" 0 1] read8_field [of "l1 s" "cmd_ptr s" 1 nd] read8_field [of "l1 s" "cmd_ptr s" 2 idx]
    by simp_all
  have ptr: "add32 (cmd_ptr s) 16 = cmd_ptr s + 16" using at_stream_bounds(2,3) [OF at] header by (intro wadd_id) linarith
  have dst: "add32 addr (write_offset s ! idx) = addr + write_offset s ! idx" using fits(5) by (intro wadd_id) simp
  have loop: "\<exists>s' n_acq' n_blk'. process_write_linear a multicast k s = Inr s' \<and>
      delivered s' = delivered s @ map (\<lambda>i. (ring_address a (off + 16 + i), xy, addr + write_offset s ! idx + i)) [0..<len] \<and>
      at_stream a n_acq' n_blk' (cmd_ptr s') (off + 16 + len) s'" for multicast k
  proof -
    let ?r = "(noc_regs s)\<lparr>ctrl_mcast := multicast, ctrl_linked := False, ret_addr_coordinate := To_core xy\<rparr>"
    let ?t = "s\<lparr>noc_regs := ?r\<rparr>"
    have "cq_noc_async_write_init_state a sNdl multicast False 0 (To_core xy, addr + write_offset s ! idx) 0 s = Inr ?t"
      by (simp add: cq_noc_async_write_init_state_def cq_noc_async_write_with_state_def set_noc_regs_def Let_def)
    then have "process_write_linear a multicast k s = write_linear_loop a k (Suc len) len (cmd_ptr s + 16) (addr + write_offset s ! idx) ?t"
      using r w fits(2) ptr dst by (simp add: process_write_linear_def Let_def sizeof_CQDispatchCmd_def del: write_linear_loop.simps)
    moreover have "at_stream a n_acq n_blk (cmd_ptr s + 16) (off + 16) ?t"
      using at_stream_forward [OF at header] by (simp add: at_stream_def ring_inv_def acquired_pages_def released_pages_def)
    moreover have "can_write a n_acq n_blk n_pending (off + 16) len ?t"
      using can by (simp add: can_write_def pending_def coming_def clear_distance_def)
    ultimately show ?thesis
      using write_linear_loop_delivers [of len "Suc len" a n_acq n_blk "cmd_ptr s + 16" "off + 16" ?t n_pending xy
          "addr + write_offset s ! idx" k] burst fits(5)
      by (simp add: delivered_def)
  qed
  let ?m = "nd \<noteq> 0" and ?k = "if nd = 0 then 1 else nd"
  have e: "process_cmd_d a (Suc fuel) s = rbind (process_write_linear a ?m ?k s) (\<lambda>s. Inr (False, s))"
    using r(1,2) by (simp add: process_simple_cmd_def process_write_def Let_def)
  show ?thesis unfolding e using loop [of ?m ?k] by (elim exE conjE) (simp, blast)
qed

text \<open>The command at the head of the ring, its first page acquired; its hundred bytes reach into the next block.\<close>

definition linear_page :: mem where
  "linear_page = store_bytes 4096 (fold put_field (dispatch_fields (WriteLinear 0 1 18 8192 100)) (replicate 16 0)) (\<lambda>_. 0)"

definition linear_start :: Dispatcher where
  "linear_start = (example_dispatcher [(1, linear_page), (0, linear_page), (2, linear_page)] [3, 0])
     \<lparr>cmd_ptr := 4096, cb_fence := 4128, upstream_total_acquired_page_count := 1, upstream_count := 1, l1 := linear_page,
       ops := [Pages_acquired 1]\<rparr>"

theorem dispatch_write_linear_delivers_witness:
  "\<exists>s'. process_cmd_d example_args 1 linear_start = Inr (False, s') \<and>
     delivered s' = map (\<lambda>i. (ring_address example_args (16 + i), 18, 8192 + i)) [0..<100]"
proof -
  have bs: "length (fold put_field (dispatch_fields (WriteLinear 0 1 18 8192 100)) (replicate 16 0)) = 16"
    by (rule length_fold_put_field [OF fields_ok_dispatch]) simp
  have at: "at_stream example_args 1 0 (cmd_ptr linear_start) 0 linear_start"
    using example_config by (simp add: at_stream_def ring_inv_def linear_start_def example_dispatcher_def example_args_def page_addr_def
        dispatch_cb_pages_per_block_def dispatch_cb_page_size_def acquired_pages_def released_pages_def)
  have can: "can_write example_args 1 0 0 (0 + 16) 100 linear_start"
    by (simp add: can_write_def pending_def coming_def linear_start_def example_dispatcher_def example_args_def block_size_def
        dispatch_cb_pages_per_block_def dispatch_cb_page_size_def clear_distance_def wsub_def)
  have cmd: "l1 linear_start (cmd_ptr linear_start + i) =
      fold put_field (dispatch_fields (WriteLinear 0 1 18 8192 100)) (replicate 16 0) ! i" if "i < 16" for i
    using that bs by (simp add: linear_start_def example_dispatcher_def linear_page_def store_bytes_def)
  have "\<exists>s' A B. process_cmd_d example_args (Suc 0) linear_start = Inr (False, s') \<and>
      delivered s' = delivered linear_start @ map (\<lambda>i. (ring_address example_args (0 + 16 + i), 18,
        8192 + write_offset linear_start ! 1 + i)) [0..<100] \<and> at_stream example_args A B (cmd_ptr s') (0 + 16 + 100) s'"
    by (rule dispatch_write_linear_delivers [OF at _ cmd _ _ _ _ _ _ _ _ can])
       (simp_all add: example_args_def linear_start_def example_dispatcher_def dispatch_cb_page_size_def)
  then show ?thesis by (auto simp: linear_start_def example_dispatcher_def delivered_def)
qed

end
