(* ===== verification/Spec2Isabelle.thy ===== *)
theory Spec2Isabelle
  imports Metal_Math Free_List_Props Core_Range_Props Work_Split_Props Tilize Block_Float_Layout Worker_Config_Props Device_Command_Props Allocator_Banks Buffer_Props Work_Executor Semaphore_Props Dispatch_Props
begin

text \<open>
  A verification development for the host runtime of tt-metal (\<^verbatim>\<open>tt_metal\<close>), the library that drives
  Tenstorrent accelerators: it manages the memory of the chips, places data and work on the grid of cores, converts data to the
  layouts and formats of the hardware, and writes the commands that the dispatch kernels on the chip carry out.

  \<^bold>\<open>The program and the theories that model it.\<close>  Each group names the source files under \<^verbatim>\<open>src/tt_metal\<close>; a definition has
  the name of the function it models, with a prefix or suffix where two functions share a name.

  \<^item> Shared vocabulary.  \<^verbatim>\<open>Metal_Prelude\<close>: wrapping arithmetic at a width, errors as values, results, loops with
    failure.  \<^verbatim>\<open>Metal_Math\<close>: \<^verbatim>\<open>common/math.hpp\<close>, \<^verbatim>\<open>common/tt_rounding.h\<close>, \<^verbatim>\<open>align\<close> of \<^verbatim>\<open>common/base.hpp\<close> and
    \<^verbatim>\<open>SizeBytesPerBank\<close> of \<^verbatim>\<open>detail/util.hpp\<close>.
  \<^item> The allocator of addresses, \<^verbatim>\<open>impl/allocator/algorithms/free_list.cpp\<close>.  \<^verbatim>\<open>Free_List\<close> has the two doubly
    linked lists over an explicit store of blocks, and every operation; \<^verbatim>\<open>Linked_Chain\<close> is the theory of such chains and
    \<^verbatim>\<open>Memory_Blocks\<close> the abstract memory, a list of blocks that tile a range.  \<^verbatim>\<open>Free_List_Inv\<close> relates the two,
    \<^verbatim>\<open>Free_List_Fields\<close>, \<^verbatim>\<open>Free_List_Alloc\<close>, \<^verbatim>\<open>Free_List_Slice\<close>, \<^verbatim>\<open>Free_List_Allocate\<close> and \<^verbatim>\<open>Free_List_Dealloc\<close> show that each
    operation refines its abstract counterpart (\<open>carve\<close>; \<open>mark_free\<close> then \<open>coalesce\<close>), \<^verbatim>\<open>Free_List_Correct\<close> collects the
    results, \<^verbatim>\<open>Free_List_Spec\<close> states the contract of an allocation algorithm as a locale and interprets it with the
    free list, and \<^verbatim>\<open>Free_List_Props\<close> has the properties.
  \<^item> The buffer allocator, \<^verbatim>\<open>impl/allocator/allocator.cpp\<close>, \<^verbatim>\<open>l1_banking_allocator.cpp\<close> and
    \<^verbatim>\<open>basic_allocator.cpp\<close>.  \<^verbatim>\<open>Allocator\<close> has \<^verbatim>\<open>BankManager\<close>, which owns a free list for a set of banks, and \<^verbatim>\<open>Allocator\<close>,
    which owns four managers; \<^verbatim>\<open>Allocator_Props\<close> carries the contract of the free list up to the allocator (live buffers are
    disjoint across managers that share a memory), \<^verbatim>\<open>Allocator_Banks\<close> treats the numbering of the banks.
  \<^item> Buffers, \<^verbatim>\<open>impl/buffers/buffer.cpp\<close> and the allocation handlers of \<^verbatim>\<open>impl/dispatch/command_queue.cpp\<close>.  \<^verbatim>\<open>Buffers\<close> has
    the objects and their operations on a device, \<^verbatim>\<open>Page_Mapping\<close> the correctness of the page mapping of sharded buffers,
    \<^verbatim>\<open>Buffer_Props\<close> what allocation gives a buffer (room for its pages), what deallocation restores and what assignment loses.
  \<^item> Cores, \<^verbatim>\<open>common/core_coord.h\<close> and \<^verbatim>\<open>common/work_split.hpp\<close>.  \<^verbatim>\<open>Core_Coord\<close> (ranges and their iterator),
    \<^verbatim>\<open>Core_Range_Set\<close> (sets of ranges, their merge, listing cores), \<^verbatim>\<open>Core_Range_Merge\<close> and \<^verbatim>\<open>Core_Range_Props\<close>; \<^verbatim>\<open>Work_Split\<close>
    and \<^verbatim>\<open>Work_Split_Props\<close>.  The meaning of a range is its set of \<open>cells\<close>; every operation is specified by it.
  \<^item> Data, under \<^verbatim>\<open>common\<close> and \<^verbatim>\<open>impl/tile\<close>.  \<^verbatim>\<open>Tilize\<close> (\<^verbatim>\<open>tilize_untilize.hpp\<close>), \<^verbatim>\<open>Data_Formats\<close>
    (\<^verbatim>\<open>tt_backend_api_types.hpp\<close>, \<^verbatim>\<open>tile.hpp\<close>), \<^verbatim>\<open>Bfloat16\<close> (\<^verbatim>\<open>bfloat16.hpp\<close>), \<^verbatim>\<open>Block_Float\<close>
    (\<^verbatim>\<open>blockfloat_common.hpp\<close>, \<^verbatim>\<open>bfloat8.hpp\<close>, \<^verbatim>\<open>bfloat4.hpp\<close>) with \<^verbatim>\<open>Block_Float_Props\<close> (single values) and
    \<^verbatim>\<open>Block_Float_Layout\<close> (the layout of packed tiles), bit by bit on machine words.
  \<^item> Dispatch, under \<^verbatim>\<open>impl/dispatch\<close>.  \<^verbatim>\<open>Worker_Config\<close> and \<^verbatim>\<open>Worker_Config_Props\<close>: the ring buffer of kernel configurations
    (\<^verbatim>\<open>worker_config_buffer.cpp\<close>).  \<^verbatim>\<open>Cq_Interface\<close> and \<^verbatim>\<open>Cq_Props\<close>: the queues in the hugepage
    and \<^verbatim>\<open>SystemMemoryManager\<close> (\<^verbatim>\<open>command_queue_interface.hpp\<close>).  \<^verbatim>\<open>Device_Command\<close>, \<^verbatim>\<open>Device_Command_Walk\<close>,
    \<^verbatim>\<open>Device_Command_Steps\<close> and \<^verbatim>\<open>Device_Command_Props\<close>: the bytes of the commands (\<^verbatim>\<open>device_command.hpp\<close>, \<^verbatim>\<open>cq_commands.hpp\<close>), the
    walk of the prefetcher over them, the effect of each writer, and sequences of writers.
  \<^item> The dispatch kernel, which runs on the chip: \<^verbatim>\<open>cq_dispatch.cpp\<close> and its part of \<^verbatim>\<open>cq_common.hpp\<close>, under
    \<^verbatim>\<open>impl/dispatch/kernels\<close>.  \<^verbatim>\<open>Dispatch_Kernel\<close> has its state, the network registers and the ring of pages,
    \<^verbatim>\<open>Dispatch_Commands\<close> the handlers of the write commands, \<^verbatim>\<open>Dispatch_Main\<close> the completion queue, the relay, the
    synchronisation and \<^verbatim>\<open>kernel_main\<close>.  \<^verbatim>\<open>Dispatch_Ring\<close> states the invariant of the ring and its credits,
    \<^verbatim>\<open>Dispatch_Pages\<close> carries it through every handler, \<^verbatim>\<open>Dispatch_Deliver\<close> follows the bytes of a linear write, and
    \<^verbatim>\<open>Dispatch_Props\<close> has the properties.
  \<^item> Threads of the host, under \<^verbatim>\<open>impl/dispatch\<close>.  \<^verbatim>\<open>Lock_Free_Queue\<close>: \<^verbatim>\<open>lock_free_queue.hpp\<close> run by one
    thread, against the contract \<open>fifo_queue\<close>; \<^verbatim>\<open>Lock_Free_Queue_Threads\<close>: the same operations interleaved, one atomic access
    at a time, with an invariant of all threads.  \<^verbatim>\<open>Work_Executor\<close>: \<^verbatim>\<open>work_executor.hpp\<close>, the host thread and the worker
    thread as a step relation that uses the queue through its contract.
  \<^item> The memory layout of a program.  \<^verbatim>\<open>Circular_Buffer\<close>: \<^verbatim>\<open>circular_buffer_types.hpp\<close> and \<^verbatim>\<open>circular_buffer.cpp\<close>, under
    \<^verbatim>\<open>impl/buffers\<close>.  \<^verbatim>\<open>Program_State\<close>: the circular buffers and semaphores of \<^verbatim>\<open>impl/program/program.cpp\<close>,
    \<^verbatim>\<open>impl/buffers/semaphore.cpp\<close> and the functions of \<^verbatim>\<open>tt_metal.cpp\<close> that create and update them; \<^verbatim>\<open>Circular_Buffer_Props\<close> and
    \<^verbatim>\<open>Semaphore_Props\<close> show where they are placed, and where two can meet.

  \<^bold>\<open>How they interact.\<close>  Creating a buffer asks the allocator, which asks the manager of the buffer's type, which rounds the
  size to pages per bank and asks its free list.  Enqueueing a program reserves room in the configuration ring, reserves
  room in the issue queue, writes device commands there and advances the queue; the dispatch kernel
  carries the commands out, releases the pages that held them and answers through the completion queue.
  Circular buffers grow from
  below in the L1 memory that the allocator fills from above, and are validated against its lowest buffer.  Host calls reach a device through
  the queue of its worker thread.  The core ranges are the vocabulary in which placements, shards and multicasts are stated.

  \<^bold>\<open>What the lemmas show.\<close>  For each component an invariant kept by all operations (\<open>fl_inv\<close>, \<open>bm_in\<close> and
  \<open>managers_in\<close>, the invariants of the ring and of the queues), what each operation does on every branch, errors included, and where the
  component has a contract, a refinement of it: the free list of a memory made of blocks, the completion queue of a
  counter, the command writers of a list of commands, the page mapping of row-major arithmetic, the linear write of the dispatch kernel of the bytes
  the host put in the stream.  Numbered text blocks
  introduce the main properties, and where the code fails its purpose in a corner (overlapping circular
  buffers) a theorem exhibits it; where one has hypotheses, a theorem named after it with the suffix \<open>witness\<close> applies it to a concrete input.

  \<^bold>\<open>Conventions, bounds and fuel.\<close>  Values of \<^verbatim>\<open>uint32_t\<close> and \<^verbatim>\<open>uint64_t\<close> are naturals with the wrap-around written at each operation
  (\<open>add32\<close>, \<open>mul64\<close>), or words where bits matter.  A hypothesis that a size is below a power of two says that nothing wraps; it is stated
  where the code does not check it.  Pointer loops of the free list get as fuel the number of blocks ever made (\<open>fresh\<close>), which no chain
  exceeds; the loop of the ring buffer has fuel 8, the number of its entries; the iterator of a range has fuel the size of the
  range; a polling loop has fuel that a theorem bounds by when the device writes.
  The loops of the dispatch kernel over data have one more than the number of bytes, and what it polls is a list of the values that are read,
  which are arbitrary (the order the network keeps is not assumed).  Exhausted fuel is the error
  \<open>Diverges\<close>, and the theorems show that it does not occur.  The model is the debug build, with \<^verbatim>\<open>TT_ASSERT\<close> active.

  \<^bold>\<open>Parameters.\<close>  What comes from outside the repository or is constant per architecture is an argument: the addresses and alignments
  of the hardware abstraction layer (\<open>Hal_params\<close>), what the cluster object answers (\<open>Cq_env\<close>), the order on coordinates (from the driver
  library), \<^verbatim>\<open>std::shuffle\<close>, the enumeration order of unordered containers, and what the device writes to memory the host polls (a
  stream of values).

  \<^bold>\<open>Not modelled.\<close>  Firmware and register tables, whose meaning is that of the chip; of the kernels for dispatch the prefetcher (but
  for the stride by which it walks the commands), the slave dispatcher and the packet queues; \<^verbatim>\<open>device.cpp\<close>, the rest of \<^verbatim>\<open>tt_metal.cpp\<close>, \<^verbatim>\<open>llrt\<close> and the rest of \<^verbatim>\<open>command_queue.cpp\<close>, which
  orchestrate the driver, a submodule that is not in the repository; the rest of programs, kernels and the JIT build, which
  assemble strings and call compilers; the debug servers, which read device memory and print; mesh devices and traces, which
  forward to devices; \<^verbatim>\<open>ttnn\<close>, which is built above this library from device kernels and templates.  In the modelled
  parts: logging, string rendering, hashing, JSON, file dumps, random fills, floating-point arithmetic, and locks, except where a theory
  says otherwise (the two about threads).
\<close>

end
